(* ===== verification/Prelude.thy ===== *)
theory Prelude
  imports Main "HOL-Library.Multiset" "HOL-Library.AList" "HOL-Library.Char_ord"
begin

text \<open>
  What every component shares: Go's instants and their unix views, the error
  vocabulary (families and the error values the components return), decimal
  rendering, the row operations that SQL statements translate to, and the generic
  list lemmas about them. The collections \<open>row_simps\<close> (SQL row operations) and
  \<open>err_simps\<close> (families and texts of errors) gather the rewrite rules component
  proofs use.
\<close>

named_theorems row_simps \<open>row operations of the SQL stores\<close>
named_theorems err_simps \<open>family and text of error values\<close>

section \<open>Instants\<close>

text \<open>
  A Go \<^verbatim>\<open>time.Time\<close> is its number of nanoseconds since the unix epoch; its zero
  value is the first instant of year 1. \<^verbatim>\<open>Unix\<close> and \<^verbatim>\<open>UnixMilli\<close> round towards
  minus infinity, \<^verbatim>\<open>time.Unix(s, 0)\<close> is the instant of whole second \<open>s\<close>.
\<close>

type_synonym time = int
type_synonym duration = int

definition second :: duration where
  "second = 1000000000"

definition zero_time :: time where
  "zero_time = - 62135596800 * 1000000000"

definition unix :: "time \<Rightarrow> int" where
  "unix t = t div 1000000000"

definition unix_milli :: "time \<Rightarrow> int" where
  "unix_milli t = t div 1000000"

definition time_unix :: "int \<Rightarrow> time" where
  "time_unix s = s * 1000000000"

definition time_unix_milli :: "int \<Rightarrow> time" where
  "time_unix_milli s = s * 1000000"

lemma unix_time_unix [simp]: "unix (time_unix s) = s"
  by (simp add: unix_def time_unix_def)

lemma unix_milli_time_unix_milli [simp]: "unix_milli (time_unix_milli s) = s"
  by (simp add: unix_milli_def time_unix_milli_def)

lemma time_unix_unix_le: "time_unix (unix t) \<le> t"
  by (simp add: unix_def time_unix_def)

lemma time_unix_milli_le: "time_unix_milli (unix_milli t) \<le> t"
  by (simp add: unix_milli_def time_unix_milli_def)

lemma unix_mono: "s \<le> t \<Longrightarrow> unix s \<le> unix t"
  by (simp add: unix_def zdiv_mono1)

lemma unix_milli_mono: "s \<le> t \<Longrightarrow> unix_milli s \<le> unix_milli t"
  by (simp add: unix_milli_def zdiv_mono1)

text \<open>\<^verbatim>\<open>domain.OrClock\<close>: the stamp, or the clock's answer for the zero stamp.\<close>

definition or_clock :: "time \<Rightarrow> time \<Rightarrow> time" where
  "or_clock stamped clock = (if stamped = zero_time then clock else stamped)"

section \<open>Errors\<close>

text \<open>
  The families of go-error-family that the sources name. A \<open>send_error\<close> is what a
  gateway answers instead of a receipt: the provider's own refusal
  (\<^verbatim>\<open>gateway.ErrProviderRejected\<close>) or any other failure, known by its family and by
  the text \<^verbatim>\<open>Error()\<close> renders. An \<open>err\<close> is what the other operations return: the
  not-found sentinel (\<^verbatim>\<open>store.ErrNotFound\<close>), a validation refusal with its rendered
  reason (\<^verbatim>\<open>ErrInvalidSend\<close>, \<^verbatim>\<open>ErrInvalidFax\<close>), a coded error of the library (family and
  code; its rendered text is not used by any caller), the forward error of a gateway
  lane, or a panic of one of the \<^verbatim>\<open>Must\<close> forms.
\<close>

datatype family = Rejection | Conflict | Transient | Infrastructure | Corruption

datatype send_error =
    Provider_Rejected int string
  | Send_Failure family string

datatype err =
    Not_Found
  | Invalid string
  | Coded family string
  | Forward_Error send_error
  | Panic

text \<open>A wrapped failure has the family and code of the wrap; a panic is not an error value.\<close>

definition wrap :: "string \<Rightarrow> err \<Rightarrow> err" where
  "wrap code e = (if e = Panic then Panic else Coded Infrastructure code)"

section \<open>Decimal rendering\<close>

text \<open>\<^verbatim>\<open>%d\<close> of a machine integer.\<close>

definition digit_char :: "nat \<Rightarrow> char" where
  "digit_char d = char_of (48 + d)"

fun nat_decimal :: "nat \<Rightarrow> string" where
  "nat_decimal n =
     (if n < 10 then [digit_char n] else nat_decimal (n div 10) @ [digit_char (n mod 10)])"

declare nat_decimal.simps [simp del]

definition int_decimal :: "int \<Rightarrow> string" where
  "int_decimal i = (if i < 0 then CHR ''-'' # nat_decimal (nat (- i)) else nat_decimal (nat i))"

section \<open>Rows\<close>

text \<open>
  A table is the list of its rows in rowid order; an insert appends.
  \<open>update_where\<close> and \<open>delete_where\<close> are the statements \<^verbatim>\<open>UPDATE ... WHERE\<close> and
  \<^verbatim>\<open>DELETE ... WHERE\<close>, \<open>rows_affected\<close> their row count. \<open>select_one\<close> is
  \<^verbatim>\<open>QueryRow\<close>: the first row that matches.
\<close>

definition update_where :: "('r \<Rightarrow> bool) \<Rightarrow> ('r \<Rightarrow> 'r) \<Rightarrow> 'r list \<Rightarrow> 'r list" where
  "update_where P f rs = map (\<lambda>r. if P r then f r else r) rs"

definition delete_where :: "('r \<Rightarrow> bool) \<Rightarrow> 'r list \<Rightarrow> 'r list" where
  "delete_where P rs = filter (\<lambda>r. \<not> P r) rs"

definition rows_affected :: "('r \<Rightarrow> bool) \<Rightarrow> 'r list \<Rightarrow> nat" where
  "rows_affected P rs = length (filter P rs)"

definition select_one :: "('r \<Rightarrow> bool) \<Rightarrow> 'r list \<Rightarrow> 'r option" where
  "select_one P rs = find P rs"

text \<open>\<^verbatim>\<open>ORDER BY k DESC, rowid DESC\<close>: newest first, later rows first among equals.\<close>

definition newest_first :: "('r \<Rightarrow> int) \<Rightarrow> 'r list \<Rightarrow> 'r list" where
  "newest_first k rs = rev (sort_key k rs)"

text \<open>\<^verbatim>\<open>LIMIT l OFFSET o\<close>.\<close>

definition window :: "nat \<Rightarrow> nat \<Rightarrow> 'r list \<Rightarrow> 'r list" where
  "window off lim rs = take lim (drop off rs)"

lemma length_update_where [row_simps]: "length (update_where P f rs) = length rs"
  by (simp add: update_where_def)

lemma update_where_Nil [row_simps]: "update_where P f [] = []"
  by (simp add: update_where_def)

lemma update_where_Cons [row_simps]:
  "update_where P f (r # rs) = (if P r then f r else r) # update_where P f rs"
  by (simp add: update_where_def)

lemma update_where_append [row_simps]:
  "update_where P f (rs @ ss) = update_where P f rs @ update_where P f ss"
  by (simp add: update_where_def)

lemma set_update_where: "set (update_where P f rs) = {r \<in> set rs. \<not> P r} \<union> f ` {r \<in> set rs. P r}"
  by (auto simp: update_where_def)

lemma set_update_where_sub: "set (update_where P f rs) \<subseteq> set rs \<union> f ` set rs"
  by (auto simp: update_where_def)

lemma update_where_none: "\<forall>r \<in> set rs. \<not> P r \<Longrightarrow> update_where P f rs = rs"
  by (induction rs) (auto simp: update_where_def)

lemma map_update_where_frame:
  "(\<And>r. g (f r) = g r) \<Longrightarrow> map g (update_where P f rs) = map g rs"
  by (simp add: update_where_def)

lemma filter_update_where_frame:
  "(\<And>r. P r \<Longrightarrow> \<not> Q r \<and> \<not> Q (f r)) \<Longrightarrow> filter Q (update_where P f rs) = filter Q rs"
  by (induction rs) (auto simp: update_where_def)

lemma set_delete_where [row_simps]: "set (delete_where P rs) = {r \<in> set rs. \<not> P r}"
  by (simp add: delete_where_def)

lemma rows_affected_0: "rows_affected P rs = 0 \<longleftrightarrow> (\<forall>r \<in> set rs. \<not> P r)"
  by (simp add: rows_affected_def filter_empty_conv)

lemma rows_affected_delete: "rows_affected P rs + length (delete_where P rs) = length rs"
  by (simp add: rows_affected_def delete_where_def sum_length_filter_compl)

lemma select_one_Some: "select_one P rs = Some r \<Longrightarrow> r \<in> set rs \<and> P r"
  by (auto simp: select_one_def find_Some_iff)

lemma select_one_None: "select_one P rs = None \<longleftrightarrow> (\<forall>r \<in> set rs. \<not> P r)"
  by (auto simp: select_one_def find_None_iff)

lemma select_one_append:
  "select_one P (rs @ ss) = (case select_one P rs of None \<Rightarrow> select_one P ss | Some r \<Rightarrow> Some r)"
  by (induction rs) (auto simp: select_one_def)

lemma select_one_exists: "r \<in> set rs \<Longrightarrow> P r \<Longrightarrow> \<exists>q. select_one P rs = Some q"
  by (metis select_one_None not_None_eq)

lemma select_one_unique:
  assumes "r \<in> set rs" "P r" "\<And>q. q \<in> set rs \<Longrightarrow> P q \<Longrightarrow> q = r"
  shows "select_one P rs = Some r"
  using assms by (metis select_one_Some select_one_exists)

lemma mset_newest_first [simp]: "mset (newest_first k rs) = mset rs"
  by (simp add: newest_first_def)

lemma set_newest_first [simp]: "set (newest_first k rs) = set rs"
  by (simp add: newest_first_def)

lemma length_newest_first [simp]: "length (newest_first k rs) = length rs"
  by (simp add: newest_first_def)

lemma newest_first_sorted: "sorted_wrt (\<lambda>r s. k s \<le> k r) (newest_first k rs)"
proof -
  have "sorted_wrt (\<lambda>r s. k r \<le> k s) (sort_key k rs)"
    using sorted_sort_key [of k rs] by (simp add: sorted_wrt_map)
  then show ?thesis
    by (simp add: newest_first_def sorted_wrt_rev)
qed

lemma length_window [simp]: "length (window off lim rs) = min lim (length rs - off)"
  by (simp add: window_def)

lemma set_window: "set (window off lim rs) \<subseteq> set rs"
  unfolding window_def by (meson dual_order.trans set_drop_subset set_take_subset)

lemma mset_map_filter_compl:
  "mset (map f (filter P xs)) + mset (map f (filter (\<lambda>x. \<not> P x) xs)) = mset (map f xs)"
  by (induction xs) auto

section \<open>Keys that stay distinct\<close>

lemma distinct_map_filter: "distinct (map f xs) \<Longrightarrow> distinct (map f (filter P xs))"
  by (induction xs) auto

lemma distinct_key_unique:
  "distinct (map k rs) \<Longrightarrow> r \<in> set rs \<Longrightarrow> s \<in> set rs \<Longrightarrow> k r = k s \<Longrightarrow> r = s"
  by (induction rs) (auto, (metis imageI)+)

lemma filter_key_singleton:
  "distinct (map k rs) \<Longrightarrow> r \<in> set rs \<Longrightarrow> filter (\<lambda>s. k s = k r) rs = [r]"
proof (induction rs)
  case Nil
  then show ?case by simp
next
  case (Cons s rs)
  show ?case
  proof (cases "s = r")
    case True
    with Cons.prems have "k r \<notin> k ` set rs" by simp
    then have "\<forall>q \<in> set rs. k q \<noteq> k r" by (metis imageI)
    with True show ?thesis by (auto simp: filter_empty_conv)
  next
    case False
    with Cons show ?thesis by force
  qed
qed

text \<open>A map below another answers what the larger one answers.\<close>

lemma map_le_Some: "m' \<subseteq>\<^sub>m m \<Longrightarrow> m' k = Some v \<Longrightarrow> m k = Some v"
  by (metis domI map_le_def)

lemma map_le_None: "m' \<subseteq>\<^sub>m m \<Longrightarrow> m k = None \<Longrightarrow> m' k = None"
  by (metis map_le_Some option.collapse option.simps(3))

end
