(* ===== verification/Go_Strings.thy ===== *)
theory Go_Strings
  imports Prelude
begin

text \<open>
  The part of Go's \<^verbatim>\<open>strings\<close> package the components call, on byte strings: a Go
  string is the list of its bytes, so \<^verbatim>\<open>len\<close> is \<open>length\<close>. \<open>to_lower\<close>, \<open>to_upper\<close>
  and \<open>equal_fold\<close> fold the ASCII letters and leave every other byte alone; where a
  component's verdict could depend on the case of a letter outside ASCII the component
  says so. \<open>trim_space\<close> strips every encoding of a Unicode white space character.
\<close>

section \<open>Prefixes and searches\<close>

definition has_prefix :: "string \<Rightarrow> string \<Rightarrow> bool" where
  "has_prefix p s \<longleftrightarrow> take (length p) s = p"

fun str_contains :: "string \<Rightarrow> string \<Rightarrow> bool" where
  "str_contains needle [] \<longleftrightarrow> needle = []"
| "str_contains needle (c # s) \<longleftrightarrow> has_prefix needle (c # s) \<or> str_contains needle s"

text \<open>\<^verbatim>\<open>strings.Index\<close> and \<^verbatim>\<open>strings.LastIndex\<close> of a one-byte needle, \<open>-1\<close> when absent.\<close>

fun index_byte :: "char \<Rightarrow> string \<Rightarrow> int" where
  "index_byte c [] = -1"
| "index_byte c (d # s) =
     (if d = c then 0 else (let i = index_byte c s in if i < 0 then -1 else i + 1))"

fun last_index_byte :: "char \<Rightarrow> string \<Rightarrow> int" where
  "last_index_byte c [] = -1"
| "last_index_byte c (d # s) =
     (let i = last_index_byte c s in if 0 \<le> i then i + 1 else if d = c then 0 else -1)"

text \<open>\<^verbatim>\<open>strings.Cut\<close> at a byte: the parts around the first one, \<open>None\<close> when absent.\<close>

fun cut_byte :: "char \<Rightarrow> string \<Rightarrow> (string \<times> string) option" where
  "cut_byte c [] = None"
| "cut_byte c (d # s) =
     (if d = c then Some ([], s) else map_option (\<lambda>(a, b). (d # a, b)) (cut_byte c s))"

text \<open>\<^verbatim>\<open>strings.Split\<close> at a byte: always at least one field.\<close>

fun split_byte :: "char \<Rightarrow> string \<Rightarrow> string list" where
  "split_byte c [] = [[]]"
| "split_byte c (d # s) =
     (if d = c then [] # split_byte c s
      else (case split_byte c s of [] \<Rightarrow> [[d]] | f # fs \<Rightarrow> (d # f) # fs))"

text \<open>\<^verbatim>\<open>strings.HasSuffix\<close>, \<^verbatim>\<open>strings.TrimPrefix\<close>, \<^verbatim>\<open>strings.Trim\<close> with a one-byte set,
  and \<^verbatim>\<open>strings.Join\<close>.\<close>

definition has_suffix :: "string \<Rightarrow> string \<Rightarrow> bool" where
  "has_suffix p s \<longleftrightarrow> has_prefix (rev p) (rev s)"

definition trim_prefix :: "string \<Rightarrow> string \<Rightarrow> string" where
  "trim_prefix p s = (if has_prefix p s then drop (length p) s else s)"

definition trim_byte :: "char \<Rightarrow> string \<Rightarrow> string" where
  "trim_byte c s = rev (dropWhile (\<lambda>d. d = c) (rev (dropWhile (\<lambda>d. d = c) s)))"

fun join :: "string \<Rightarrow> string list \<Rightarrow> string" where
  "join sep [] = []"
| "join sep [s] = s"
| "join sep (s # t # ss) = s @ sep @ join sep (t # ss)"

section \<open>Numbers\<close>

text \<open>
  \<^verbatim>\<open>strconv.Atoi\<close> with a 64-bit \<^verbatim>\<open>int\<close>: an optional sign, at least one digit and nothing
  else, and a value in range.
\<close>

definition digit_value :: "char \<Rightarrow> int" where
  "digit_value c = int (of_char c) - 48"

definition all_digits :: "string \<Rightarrow> bool" where
  "all_digits s \<longleftrightarrow> list_all (\<lambda>c. let n = of_char c :: nat in 48 \<le> n \<and> n \<le> 57) s"

definition digits_value :: "string \<Rightarrow> int" where
  "digits_value s = foldl (\<lambda>n c. 10 * n + digit_value c) 0 s"

definition atoi :: "string \<Rightarrow> int option" where
  "atoi s =
     (let (neg, body) =
        (case s of
           c # r \<Rightarrow> if c = CHR ''-'' then (True, r) else if c = CHR ''+'' then (False, r) else (False, s)
         | [] \<Rightarrow> (False, []));
        n = (if neg then - digits_value body else digits_value body) in
      if body = [] \<or> \<not> all_digits body then None
      else if n < - (2 ^ 63) \<or> 2 ^ 63 \<le> n then None
      else Some n)"

section \<open>Case folding\<close>

definition lower_byte :: "char \<Rightarrow> char" where
  "lower_byte c = (let n = of_char c :: nat in if 65 \<le> n \<and> n \<le> 90 then char_of (n + 32) else c)"

definition upper_byte :: "char \<Rightarrow> char" where
  "upper_byte c = (let n = of_char c :: nat in if 97 \<le> n \<and> n \<le> 122 then char_of (n - 32) else c)"

definition to_lower :: "string \<Rightarrow> string" where
  "to_lower s = map lower_byte s"

definition to_upper :: "string \<Rightarrow> string" where
  "to_upper s = map upper_byte s"

definition equal_fold :: "string \<Rightarrow> string \<Rightarrow> bool" where
  "equal_fold s t \<longleftrightarrow> to_lower s = to_lower t"

text \<open>
  \<^verbatim>\<open>strings.ToLower\<close> where the caller compares with ASCII texts: besides the capital
  ASCII letters, exactly two characters have an ASCII lower case, U+0130 and U+212A.
\<close>

fun lower_ascii :: "string \<Rightarrow> string" where
  "lower_ascii [] = []"
| "lower_ascii (a # s) =
     (case s of
        b # s' \<Rightarrow>
          if a = CHR 0xC4 \<and> b = CHR 0xB0 then CHR ''i'' # lower_ascii s'
          else (case s' of
                  c # s'' \<Rightarrow>
                    if a = CHR 0xE2 \<and> b = CHR 0x84 \<and> c = CHR 0xAA then CHR ''k'' # lower_ascii s''
                    else lower_byte a # lower_ascii s
                | [] \<Rightarrow> lower_byte a # lower_ascii s)
      | [] \<Rightarrow> [lower_byte a])"

section \<open>Paths\<close>

text \<open>\<^verbatim>\<open>filepath.Ext\<close> and \<^verbatim>\<open>filepath.Base\<close> on a slash-separated system.\<close>

definition path_ext :: "string \<Rightarrow> string" where
  "path_ext path =
     (let tail = takeWhile (\<lambda>c. c \<noteq> CHR ''/'') (rev path) in
      if CHR ''.'' \<in> set tail then CHR ''.'' # rev (takeWhile (\<lambda>c. c \<noteq> CHR ''.'') tail) else [])"

definition path_base :: "string \<Rightarrow> string" where
  "path_base path =
     (if path = [] then ''.''
      else
        let trimmed = dropWhile (\<lambda>c. c = CHR ''/'') (rev path) in
        if trimmed = [] then ''/'' else rev (takeWhile (\<lambda>c. c \<noteq> CHR ''/'') trimmed))"

section \<open>White space\<close>

text \<open>The UTF-8 encodings of the characters \<^verbatim>\<open>unicode.IsSpace\<close> accepts.\<close>

definition space_seqs :: "string list" where
  "space_seqs =
     [[CHR 0x09], [CHR 0x0A], [CHR 0x0B], [CHR 0x0C], [CHR 0x0D], [CHR 0x20],
      [CHR 0xC2, CHR 0x85], [CHR 0xC2, CHR 0xA0], [CHR 0xE1, CHR 0x9A, CHR 0x80],
      [CHR 0xE2, CHR 0x80, CHR 0x80], [CHR 0xE2, CHR 0x80, CHR 0x81],
      [CHR 0xE2, CHR 0x80, CHR 0x82], [CHR 0xE2, CHR 0x80, CHR 0x83],
      [CHR 0xE2, CHR 0x80, CHR 0x84], [CHR 0xE2, CHR 0x80, CHR 0x85],
      [CHR 0xE2, CHR 0x80, CHR 0x86], [CHR 0xE2, CHR 0x80, CHR 0x87],
      [CHR 0xE2, CHR 0x80, CHR 0x88], [CHR 0xE2, CHR 0x80, CHR 0x89],
      [CHR 0xE2, CHR 0x80, CHR 0x8A], [CHR 0xE2, CHR 0x80, CHR 0xA8],
      [CHR 0xE2, CHR 0x80, CHR 0xA9], [CHR 0xE2, CHR 0x80, CHR 0xAF],
      [CHR 0xE2, CHR 0x81, CHR 0x9F], [CHR 0xE3, CHR 0x80, CHR 0x80]]"

lemma drop_prefix_shorter:
  assumes "p \<noteq> []" and "has_prefix p s"
  shows "length (drop (length p) s) < length s"
proof -
  from assms(2) have "length p \<le> length s"
    by (metis has_prefix_def length_take min.cobounded1)
  with assms(1) show ?thesis by (cases p) auto
qed

function strip_front :: "string list \<Rightarrow> string \<Rightarrow> string" where
  "strip_front ps s =
     (case find (\<lambda>p. p \<noteq> [] \<and> has_prefix p s) ps of
        None \<Rightarrow> s
      | Some p \<Rightarrow> strip_front ps (drop (length p) s))"
  by pat_completeness auto
termination
  by (relation "measure (\<lambda>(ps, s). length s)")
    (auto simp: find_Some_iff simp del: length_drop intro: drop_prefix_shorter)

declare strip_front.simps [simp del]

definition trim_left :: "string \<Rightarrow> string" where
  "trim_left s = strip_front space_seqs s"

definition trim_right :: "string \<Rightarrow> string" where
  "trim_right s = rev (strip_front (map rev space_seqs) (rev s))"

definition trim_space :: "string \<Rightarrow> string" where
  "trim_space s = trim_right (trim_left s)"

section \<open>Lemmas\<close>

lemma has_prefix_Nil [simp]: "has_prefix [] s"
  by (simp add: has_prefix_def)

lemma has_prefix_Cons_Nil [simp]: "\<not> has_prefix (c # p) []"
  by (simp add: has_prefix_def)

lemma has_prefix_Cons [simp]: "has_prefix (c # p) (d # s) \<longleftrightarrow> c = d \<and> has_prefix p s"
  by (auto simp: has_prefix_def)

lemma has_prefix_iff: "has_prefix p s \<longleftrightarrow> (\<exists>t. s = p @ t)"
  by (metis append_eq_conv_conj append_take_drop_id has_prefix_def)

lemma str_contains_iff: "str_contains needle s \<longleftrightarrow> (\<exists>a b. s = a @ needle @ b)"
proof (induction s)
  case Nil
  then show ?case by auto
next
  case (Cons c s)
  show ?case
  proof
    assume "str_contains needle (c # s)"
    then consider (here) "has_prefix needle (c # s)" | (later) "str_contains needle s" by auto
    then show "\<exists>a b. c # s = a @ needle @ b"
    proof cases
      case here
      then show ?thesis by (metis append_Nil has_prefix_iff)
    next
      case later
      with Cons.IH show ?thesis by (metis append_Cons)
    qed
  next
    assume "\<exists>a b. c # s = a @ needle @ b"
    then obtain a b where ab: "c # s = a @ needle @ b" by blast
    show "str_contains needle (c # s)"
    proof (cases a)
      case Nil
      with ab have "has_prefix needle (c # s)" by (simp add: has_prefix_iff)
      then show ?thesis by simp
    next
      case (Cons d a')
      with ab have "s = a' @ needle @ b" by simp
      with Cons.IH show ?thesis by (auto simp: \<open>a = d # a'\<close>)
    qed
  qed
qed

lemma index_byte_range: "-1 \<le> index_byte c s \<and> index_byte c s < int (length s)"
  by (induction s) (auto simp: Let_def)

lemma index_byte_neg: "index_byte c s < 0 \<longleftrightarrow> c \<notin> set s"
  by (induction s) (auto simp: Let_def)

lemma last_index_byte_range: "-1 \<le> last_index_byte c s \<and> last_index_byte c s < int (length s)"
  by (induction s) (auto simp: Let_def)

lemma cut_byte_Some: "cut_byte c s = Some (a, b) \<longleftrightarrow> s = a @ c # b \<and> c \<notin> set a"
proof (induction s arbitrary: a)
  case Nil
  then show ?case by simp
next
  case (Cons d s)
  then show ?case by (cases a) (auto split: if_splits)
qed

lemma cut_byte_None: "cut_byte c s = None \<longleftrightarrow> c \<notin> set s"
  by (induction s) auto

lemma cut_byte_append: "c \<notin> set a \<Longrightarrow> cut_byte c (a @ c # b) = Some (a, b)"
  by (simp add: cut_byte_Some)

lemma split_byte_not_Nil [simp]: "split_byte c s \<noteq> []"
  by (induction s) (auto split: list.splits)

lemma split_byte_free: "c \<notin> set s \<Longrightarrow> split_byte c s = [s]"
  by (induction s) auto

lemma split_byte_append: "c \<notin> set a \<Longrightarrow> split_byte c (a @ c # b) = a # split_byte c b"
  by (induction a) auto

lemma split_byte_no_sep: "f \<in> set (split_byte c s) \<Longrightarrow> c \<notin> set f"
proof (induction s arbitrary: f)
  case Nil
  then show ?case by simp
next
  case (Cons d s)
  then show ?case by (cases "split_byte c s") (auto split: if_splits)
qed

lemma strip_front_stop: "(\<And>p. p \<in> set ps \<Longrightarrow> p \<noteq> [] \<Longrightarrow> \<not> has_prefix p s) \<Longrightarrow> strip_front ps s = s"
  by (subst strip_front.simps) (auto simp: find_None_iff split: option.splits dest: select_one_Some
      [unfolded select_one_def])

lemma strip_front_Nil [simp]: "strip_front ps [] = []"
  by (rule strip_front_stop) (auto simp: has_prefix_def)

lemma strip_front_suffix: "\<exists>a. s = a @ strip_front ps s"
proof (induction ps s rule: strip_front.induct)
  case (1 ps s)
  show ?case
  proof (cases "find (\<lambda>p. p \<noteq> [] \<and> has_prefix p s) ps")
    case None
    then show ?thesis by (subst strip_front.simps) simp
  next
    case (Some p)
    with "1.IH" obtain a where "drop (length p) s = a @ strip_front ps (drop (length p) s)" by blast
    then have "s = (take (length p) s @ a) @ strip_front ps (drop (length p) s)"
      by (metis append.assoc append_take_drop_id)
    moreover from Some have "strip_front ps s = strip_front ps (drop (length p) s)"
      by (simp add: strip_front.simps [of ps s])
    ultimately show ?thesis by metis
  qed
qed

lemma set_strip_front: "set (strip_front ps s) \<subseteq> set s"
  by (metis strip_front_suffix Un_upper2 set_append)

lemma set_trim_space: "set (trim_space s) \<subseteq> set s"
  using set_strip_front [of "map rev space_seqs" "rev (strip_front space_seqs s)"]
    set_strip_front [of space_seqs s]
  by (auto simp: trim_space_def trim_left_def trim_right_def)

lemma trim_space_Nil [simp]: "trim_space [] = []"
  by (simp add: trim_space_def trim_left_def trim_right_def)

section \<open>UTF-8\<close>

definition in_range :: "nat \<Rightarrow> nat \<Rightarrow> char \<Rightarrow> bool" where
  "in_range lo hi c \<longleftrightarrow> lo \<le> of_char c \<and> of_char c \<le> hi"

text \<open>Well-formed UTF-8, which the JSON encoder of the source insists on.\<close>

fun valid_utf8 :: "string \<Rightarrow> bool" where
  "valid_utf8 [] = True"
| "valid_utf8 (a # s) =
     (if in_range 0 0x7F a then valid_utf8 s
      else
        (case s of
           [] \<Rightarrow> False
         | b # t \<Rightarrow>
             if in_range 0xC2 0xDF a \<and> in_range 0x80 0xBF b then valid_utf8 t
             else
               (case t of
                  [] \<Rightarrow> False
                | c # u \<Rightarrow>
                    if in_range 0x80 0xBF c \<and>
                       (in_range 0xE0 0xE0 a \<and> in_range 0xA0 0xBF b \<or>
                        (in_range 0xE1 0xEC a \<or> in_range 0xEE 0xEF a) \<and> in_range 0x80 0xBF b \<or>
                        in_range 0xED 0xED a \<and> in_range 0x80 0x9F b)
                    then valid_utf8 u
                    else
                      (case u of
                         [] \<Rightarrow> False
                       | d # v \<Rightarrow>
                           in_range 0x80 0xBF c \<and> in_range 0x80 0xBF d \<and>
                           (in_range 0xF0 0xF0 a \<and> in_range 0x90 0xBF b \<or>
                            in_range 0xF1 0xF3 a \<and> in_range 0x80 0xBF b \<or>
                            in_range 0xF4 0xF4 a \<and> in_range 0x80 0x8F b) \<and> valid_utf8 v))))"

end
