(* ===== verification/Ids.thy ===== *)
theory Ids
  imports Go_Strings
begin

text \<open>
  Identifiers and validated strings of \<^verbatim>\<open>internal/domain/ids.go\<close> and
  \<^verbatim>\<open>internal/domain/relpath.go\<close>: the dialable alphabet, extensions, phones, stored
  identifiers and blob paths. A branded identifier is the nanoid text it wraps (the
  brand is a phantom type parameter of the source, kept here as a type synonym per
  brand); the zero identifier is the empty text. A freshly generated identifier is an
  input of the operation that mints it. \<^verbatim>\<open>sanitizeDialable\<close> ranges over runes and keeps
  ASCII runes only; in UTF-8 no byte of a longer rune is an ASCII byte, so filtering the
  bytes is the same function.
\<close>

type_synonym thread_id = string
type_synonym message_id = string
type_synonym attachment_id = string
type_synonym fax_id = string
type_synonym contact_id = string
type_synonym snippet_id = string

section \<open>Dialable strings\<close>

definition is_digit_char :: "char \<Rightarrow> bool" where
  "is_digit_char c \<longleftrightarrow> (let n = of_char c :: nat in 48 \<le> n \<and> n \<le> 57)"

definition is_letter_char :: "char \<Rightarrow> bool" where
  "is_letter_char c \<longleftrightarrow>
     (let n = of_char c :: nat in (97 \<le> n \<and> n \<le> 122) \<or> (65 \<le> n \<and> n \<le> 90))"

definition dialable_char :: "char \<Rightarrow> bool" where
  "dialable_char c \<longleftrightarrow>
     is_digit_char c \<or> c = CHR ''+'' \<or> c = CHR ''*'' \<or> c = CHR ''#'' \<or> is_letter_char c"

definition sanitize_dialable :: "string \<Rightarrow> string" where
  "sanitize_dialable raw = filter dialable_char raw"

datatype extension = Extension (ext_string: string)
datatype phone = Phone (phone_string: string)

definition zero_extension :: extension where
  "zero_extension = Extension []"

definition parse_extension :: "string \<Rightarrow> err + extension" where
  "parse_extension raw =
     (let clean = sanitize_dialable raw in
      if clean = [] then Inl (Coded Rejection ''domain.extension'')
      else if length clean > 32 then Inl (Coded Rejection ''domain.extension'')
      else Inr (Extension clean))"

definition parse_phone :: "string \<Rightarrow> err + phone" where
  "parse_phone raw =
     (let clean = sanitize_dialable raw in
      if clean = [] then Inl (Coded Rejection ''domain.phone'')
      else if length clean > 32 then Inl (Coded Rejection ''domain.phone'')
      else Inr (Phone clean))"

text \<open>\<^verbatim>\<open>must\<close>: the Must forms panic on a refusal.\<close>

definition must :: "err + 'a \<Rightarrow> err + 'a" where
  "must r = (case r of Inl _ \<Rightarrow> Inl Panic | Inr x \<Rightarrow> Inr x)"

definition must_parse_extension :: "string \<Rightarrow> err + extension" where
  "must_parse_extension raw = must (parse_extension raw)"

definition must_parse_phone :: "string \<Rightarrow> err + phone" where
  "must_parse_phone raw = must (parse_phone raw)"

section \<open>Stored identifiers\<close>

definition parse_id :: "string \<Rightarrow> err + string" where
  "parse_id s =
     (let raw = (case cut_byte (CHR '':'') s of Some (_, rest) \<Rightarrow> rest | None \<Rightarrow> s) in
      if length raw \<noteq> 21 then Inl (Coded Corruption ''domain.id'') else Inr raw)"

definition must_id :: "string \<Rightarrow> err + string" where
  "must_id s = must (parse_id s)"

section \<open>Blob paths\<close>

datatype rel_path = Rel_Path (rel_string: string)

definition parse_rel_path :: "string \<Rightarrow> err + rel_path" where
  "parse_rel_path raw =
     (if raw = [] then Inl (Coded Rejection ''domain.relpath'')
      else if has_prefix ''/'' raw \<or> CHR 0x5C \<in> set raw then Inl (Coded Rejection ''domain.relpath'')
      else if ''..'' \<in> set (split_byte (CHR ''/'') raw) then Inl (Coded Rejection ''domain.relpath'')
      else Inr (Rel_Path raw))"

text \<open>
  The abstract promise: walking the segments from the root never climbs above it.
  \<open>walk\<close> is the depth after the segments, \<open>None\<close> once it left the root.
\<close>

fun walk :: "nat \<Rightarrow> string list \<Rightarrow> nat option" where
  "walk d [] = Some d"
| "walk d (seg # segs) =
     (if seg = ''..'' then (case d of 0 \<Rightarrow> None | Suc d' \<Rightarrow> walk d' segs)
      else if seg = ''.'' \<or> seg = [] then walk d segs
      else walk (Suc d) segs)"

section \<open>Lemmas\<close>

lemma sanitize_idem [simp]: "sanitize_dialable (sanitize_dialable s) = sanitize_dialable s"
  by (simp add: sanitize_dialable_def)

lemma sanitize_clean: "list_all dialable_char s \<Longrightarrow> sanitize_dialable s = s"
  by (simp add: sanitize_dialable_def list_all_iff)

lemma sanitize_all: "list_all dialable_char (sanitize_dialable s)"
  by (simp add: sanitize_dialable_def list_all_iff)

definition valid_dialable :: "string \<Rightarrow> bool" where
  "valid_dialable s \<longleftrightarrow> list_all dialable_char s \<and> 0 < length s \<and> length s \<le> 32"

definition valid_extension :: "extension \<Rightarrow> bool" where
  "valid_extension e \<longleftrightarrow> valid_dialable (ext_string e)"

lemma parse_extension_ok:
  "parse_extension raw = Inr e \<longleftrightarrow>
     ext_string e = sanitize_dialable raw \<and> valid_dialable (sanitize_dialable raw)"
  by (cases e) (auto simp: parse_extension_def valid_dialable_def sanitize_all Let_def)

lemma parse_phone_ok:
  "parse_phone raw = Inr p \<longleftrightarrow>
     phone_string p = sanitize_dialable raw \<and> valid_dialable (sanitize_dialable raw)"
  by (cases p) (auto simp: parse_phone_def valid_dialable_def sanitize_all Let_def)

lemma parse_extension_valid: "parse_extension raw = Inr e \<Longrightarrow> valid_extension e"
  by (simp add: parse_extension_ok valid_extension_def)

lemma parse_extension_stored: "valid_extension e \<Longrightarrow> parse_extension (ext_string e) = Inr e"
  by (simp add: parse_extension_ok valid_extension_def valid_dialable_def sanitize_clean)

lemma must_Inr [simp]: "must r = Inr x \<longleftrightarrow> r = Inr x"
  by (cases r) (auto simp: must_def)

lemma must_simps [simp]: "must (Inr x) = Inr x" "must (Inl e) = Inl Panic"
  by (simp_all add: must_def)

lemma must_Inl: "must r = Inl e \<longleftrightarrow> e = Panic \<and> (\<exists>e'. r = Inl e')"
  by (cases r) (auto simp: must_def)

lemma must_parse_extension_stored:
  "valid_extension e \<Longrightarrow> must_parse_extension (ext_string e) = Inr e"
  by (simp add: must_parse_extension_def parse_extension_stored)

definition valid_id :: "string \<Rightarrow> bool" where
  "valid_id i \<longleftrightarrow> length i = 21 \<and> CHR '':'' \<notin> set i"

lemma parse_id_raw: "valid_id i \<Longrightarrow> parse_id i = Inr i"
  by (simp add: valid_id_def parse_id_def cut_byte_None [THEN iffD2])

lemma parse_id_branded: "CHR '':'' \<notin> set b \<Longrightarrow> length i = 21 \<Longrightarrow> parse_id (b @ CHR '':'' # i) = Inr i"
  by (simp add: parse_id_def cut_byte_append)

lemma parse_id_length: "parse_id s = Inr i \<Longrightarrow> length i = 21"
  by (auto simp: parse_id_def Let_def split: if_splits option.splits)

lemma must_id_raw: "valid_id i \<Longrightarrow> must_id i = Inr i"
  by (simp add: must_id_def parse_id_raw)

lemma walk_no_dots: "''..'' \<notin> set segs \<Longrightarrow> \<exists>d'. walk d segs = Some d' \<and> d \<le> d'"
proof (induction segs arbitrary: d)
  case Nil
  then show ?case by simp
next
  case (Cons seg segs)
  then have "''..'' \<notin> set segs" "seg \<noteq> ''..''" by auto
  with Cons.IH [of d] Cons.IH [of "Suc d"] show ?case by auto
qed

lemma parse_rel_path_ok:
  "parse_rel_path raw = Inr p \<longleftrightarrow>
     rel_string p = raw \<and> raw \<noteq> [] \<and> \<not> has_prefix ''/'' raw \<and> CHR 0x5C \<notin> set raw \<and>
     ''..'' \<notin> set (split_byte (CHR ''/'') raw)"
  by (cases p) (auto simp: parse_rel_path_def)

lemma parse_rel_path_stored: "parse_rel_path raw = Inr p \<Longrightarrow> parse_rel_path (rel_string p) = Inr p"
  by (simp add: parse_rel_path_ok)

end
