(* ===== verification/Engine.thy ===== *)
theory Engine
  imports Ids
begin

text \<open>
  The read-model engine (go-cqrs-lite's metaengine) is third-party code, so it is a
  parameter of every definition of \<^verbatim>\<open>internal/readmodels\<close>: an \<open>engine\<close> is the record of
  the operations the stores call on one collection: a keyed read, a scan, and the writes of
  an insert fold, a remove fold and an update fold. \<open>engine_laws\<close> states the
  documented contract the stores rely on, against a view of the collection as a map: a
  read that succeeds answers the view, a scan answers the sorted and limited rows that
  pass the filter in some enumeration of the keys, a write that succeeds has happened
  and a write that fails may or may not have. Any operation may fail at any time.
  \<open>mem_engine\<close> is an engine over an association list that satisfies the contract; it
  serves the concrete instances.

  \<open>capped_slots\<close> is the contract that the per-owner caps of the stores share.
\<close>

record 'v query =
  q_filter :: "'v \<Rightarrow> bool"
  q_sort :: "('v \<Rightarrow> int) option"
  q_desc :: bool
  q_limit :: nat

record ('s, 'k, 'v) engine =
  eng_get :: "'k \<Rightarrow> 's \<Rightarrow> err + 'v option"
  eng_scan :: "'v query \<Rightarrow> 's \<Rightarrow> err + 'v list"
  eng_put :: "'k \<Rightarrow> 'v \<Rightarrow> 's \<Rightarrow> (err + unit) \<times> 's"
  eng_del :: "'k \<Rightarrow> 's \<Rightarrow> (err + unit) \<times> 's"
  eng_update :: "'k \<Rightarrow> ('v \<Rightarrow> 'v) \<Rightarrow> 's \<Rightarrow> (err + unit) \<times> 's"

definition query_order :: "'v query \<Rightarrow> 'v list \<Rightarrow> 'v list" where
  "query_order q vs =
     (case q_sort q of
        None \<Rightarrow> vs
      | Some f \<Rightarrow> if q_desc q then sort_key (\<lambda>v. - f v) vs else sort_key f vs)"

definition query_run :: "'v query \<Rightarrow> 'v list \<Rightarrow> 'v list" where
  "query_run q vs = take (q_limit q) (query_order q (filter (q_filter q) vs))"

definition matching :: "('v \<Rightarrow> bool) \<Rightarrow> ('k \<Rightarrow> 'v option) \<Rightarrow> 'k set" where
  "matching P m = {k. \<exists>v. m k = Some v \<and> P v}"

definition answers :: "'v query \<Rightarrow> ('k \<Rightarrow> 'v option) \<Rightarrow> 'v list \<Rightarrow> bool" where
  "answers q m vs \<longleftrightarrow>
     (\<exists>ks. distinct ks \<and> set ks = matching (q_filter q) m \<and>
        vs = take (q_limit q) (query_order q (map (\<lambda>k. the (m k)) ks)))"

definition engine_laws :: "('s, 'k, 'v, 'z) engine_scheme \<Rightarrow> ('s \<Rightarrow> 'k \<Rightarrow> 'v option) \<Rightarrow> bool" where
  "engine_laws E view \<longleftrightarrow>
     (\<forall>k s r. eng_get E k s = Inr r \<longrightarrow> r = view s k) \<and>
     (\<forall>q s vs. eng_scan E q s = Inr vs \<longrightarrow> answers q (view s) vs) \<and>
     (\<forall>k v s r s'. eng_put E k v s = (r, s') \<longrightarrow>
        view s' = (view s)(k \<mapsto> v) \<or> (\<exists>e. r = Inl e) \<and> view s' = view s) \<and>
     (\<forall>k s r s'. eng_del E k s = (r, s') \<longrightarrow>
        view s' = (view s)(k := None) \<or> (\<exists>e. r = Inl e) \<and> view s' = view s) \<and>
     (\<forall>k f v s r s'. view s k = Some v \<longrightarrow> eng_update E k f s = (r, s') \<longrightarrow>
        view s' = (view s)(k \<mapsto> f v) \<or> (\<exists>e. r = Inl e) \<and> view s' = view s)"

text \<open>\<^verbatim>\<open>errorfamily.WrapInfrastructuref\<close> around an engine call.\<close>

definition wrap_read :: "string \<Rightarrow> err + 'a \<Rightarrow> err + 'a" where
  "wrap_read code r = (case r of Inl _ \<Rightarrow> Inl (Coded Infrastructure code) | Inr x \<Rightarrow> Inr x)"

definition wrap_write :: "string \<Rightarrow> (err + 'a) \<times> 's \<Rightarrow> (err + 'a) \<times> 's" where
  "wrap_write code p = (wrap_read code (fst p), snd p)"

section \<open>Consequences of the contract\<close>

lemma wrap_read_simps [simp]:
  "wrap_read code (Inr x) = Inr x" "wrap_read code (Inl e) = Inl (Coded Infrastructure code)"
  by (simp_all add: wrap_read_def)

lemma wrap_read_sym [simp]:
  "Inr x = wrap_read code r \<longleftrightarrow> r = Inr x"
  "Inl e = wrap_read code r \<longleftrightarrow> e = Coded Infrastructure code \<and> (\<exists>d. r = Inl d)"
  by (cases r; auto)+

lemma wrap_read_Inr [simp]: "wrap_read code r = Inr x \<longleftrightarrow> r = Inr x"
  by (cases r) (auto simp: wrap_read_def)

lemma wrap_read_Inl [simp]: "wrap_read code r = Inl e \<longleftrightarrow> e = Coded Infrastructure code \<and> (\<exists>d. r = Inl d)"
  by (cases r) (auto simp: wrap_read_def)

lemma wrap_write_eq [simp]:
  "wrap_write code p = (r, s') \<longleftrightarrow> (\<exists>q. p = (q, s') \<and> r = wrap_read code q)"
  by (cases p) (auto simp: wrap_write_def)

lemma engine_get: "engine_laws E view \<Longrightarrow> eng_get E k s = Inr r \<Longrightarrow> r = view s k"
  unfolding engine_laws_def by metis

lemma engine_scan: "engine_laws E view \<Longrightarrow> eng_scan E q s = Inr vs \<Longrightarrow> answers q (view s) vs"
  unfolding engine_laws_def by metis

lemma engine_put:
  "engine_laws E view \<Longrightarrow> eng_put E k v s = (r, s') \<Longrightarrow>
     view s' = (view s)(k \<mapsto> v) \<or> (\<exists>e. r = Inl e) \<and> view s' = view s"
  unfolding engine_laws_def by metis

lemma engine_put_ok:
  "engine_laws E view \<Longrightarrow> eng_put E k v s = (Inr u, s') \<Longrightarrow> view s' = (view s)(k \<mapsto> v)"
  by (drule (1) engine_put) simp

lemma engine_del:
  "engine_laws E view \<Longrightarrow> eng_del E k s = (r, s') \<Longrightarrow>
     view s' = (view s)(k := None) \<or> (\<exists>e. r = Inl e) \<and> view s' = view s"
  unfolding engine_laws_def by metis

lemma engine_update:
  "engine_laws E view \<Longrightarrow> view s k = Some v \<Longrightarrow> eng_update E k f s = (r, s') \<Longrightarrow>
     view s' = (view s)(k \<mapsto> f v) \<or> (\<exists>e. r = Inl e) \<and> view s' = view s"
  unfolding engine_laws_def by metis

lemma engine_del_ok:
  "engine_laws E view \<Longrightarrow> eng_del E k s = (Inr u, s') \<Longrightarrow> view s' = (view s)(k := None)"
  by (drule (1) engine_del) simp

text \<open>A wrapped write has happened, or was refused with its code and may have happened.\<close>

lemma put_wrapped:
  assumes "engine_laws E view" "wrap_write code (eng_put E k v s) = (r, s')"
  shows "view s' = (view s)(k \<mapsto> v) \<or> r = Inl (Coded Infrastructure code) \<and> view s' = view s"
  using assms(2) engine_put [OF assms(1), of k v s] by (auto simp: wrap_read_def)

lemma del_wrapped:
  assumes "engine_laws E view" "wrap_write code (eng_del E k s) = (r, s')"
  shows "view s' = (view s)(k := None) \<or> r = Inl (Coded Infrastructure code) \<and> view s' = view s"
  using assms(2) engine_del [OF assms(1), of k s] by (auto simp: wrap_read_def)

lemma update_wrapped:
  assumes "engine_laws E view" "view s k = Some v" "wrap_write code (eng_update E k f s) = (r, s')"
  shows "view s' = (view s)(k \<mapsto> f v) \<or> r = Inl (Coded Infrastructure code) \<and> view s' = view s"
  using assms(3) engine_update [OF assms(1,2), of f] by (auto simp: wrap_read_def)

lemma mset_query_order [simp]: "mset (query_order q vs) = mset vs"
  by (simp add: query_order_def split: option.split)

lemma set_query_order [simp]: "set (query_order q vs) = set vs"
  by (metis mset_query_order set_mset_mset)

lemma length_query_order [simp]: "length (query_order q vs) = length vs"
  by (metis mset_query_order size_mset)

lemma answers_length:
  assumes "answers q m vs"
  shows "length vs = min (q_limit q) (card (matching (q_filter q) m))"
proof -
  obtain ks where "distinct ks" "set ks = matching (q_filter q) m"
    "vs = take (q_limit q) (query_order q (map (\<lambda>k. the (m k)) ks))"
    using assms unfolding answers_def by blast
  then show ?thesis by (metis distinct_card length_map length_query_order length_take min.commute)
qed

lemma answers_sound: "answers q m vs \<Longrightarrow> v \<in> set vs \<Longrightarrow> q_filter q v \<and> (\<exists>k. m k = Some v)"
  unfolding answers_def matching_def by (fastforce dest!: in_set_takeD)

lemma answers_all:
  assumes "answers q m vs" "card (matching (q_filter q) m) \<le> q_limit q"
  shows "set vs = {v. q_filter q v \<and> (\<exists>k. m k = Some v)}"
proof -
  obtain ks where ks: "distinct ks" "set ks = matching (q_filter q) m"
    "vs = take (q_limit q) (query_order q (map (\<lambda>k. the (m k)) ks))"
    using assms(1) unfolding answers_def by blast
  then have "length ks \<le> q_limit q" using assms(2) by (metis distinct_card)
  with ks(3) have "vs = query_order q (map (\<lambda>k. the (m k)) ks)" by simp
  then have "set vs = (\<lambda>k. the (m k)) ` matching (q_filter q) m" using ks(2) by simp
  then show ?thesis by (force simp: matching_def image_iff)
qed

lemma answers_newest:
  assumes "answers q m vs" "q_sort q = Some f" "q_desc q"
  shows "sorted_wrt (\<lambda>v w. f w \<le> f v) vs"
proof -
  have "sorted_wrt (\<lambda>v w. f w \<le> f v) (query_order q ws)" for ws
    using assms(2,3) sorted_sort_key [of "\<lambda>v. - f v" ws]
    by (simp add: query_order_def sorted_wrt_map)
  then show ?thesis using assms(1) by (auto simp: answers_def intro: sorted_wrt_take)
qed

lemma answers_oldest:
  assumes "answers q m vs" "q_sort q = Some f" "\<not> q_desc q"
  shows "sorted_wrt (\<lambda>v w. f v \<le> f w) vs"
proof -
  have "sorted_wrt (\<lambda>v w. f v \<le> f w) (query_order q ws)" for ws
    using assms(2,3) sorted_sort_key [of f ws]
    by (simp add: query_order_def sorted_wrt_map)
  then show ?thesis using assms(1) by (auto simp: answers_def intro: sorted_wrt_take)
qed

text \<open>What a descending window leaves out is at most as new as what it shows.\<close>

lemma answers_top:
  assumes "answers q m vs" "q_sort q = Some f" "q_desc q" "v \<in> set vs"
    and "m k = Some w" "q_filter q w" "w \<notin> set vs"
  shows "f w \<le> f v"
proof -
  obtain ks where ks: "set ks = matching (q_filter q) m"
    "vs = take (q_limit q) (query_order q (map (\<lambda>k. the (m k)) ks))"
    using assms(1) unfolding answers_def by blast
  let ?l = "query_order q (map (\<lambda>k. the (m k)) ks)"
  have "k \<in> set ks" using ks(1) assms(5,6) by (auto simp: matching_def)
  then have "w \<in> set ?l" using assms(5) by force
  then have w: "w \<in> set (drop (q_limit q) ?l)"
    using assms(7) ks(2) by (metis Un_iff append_take_drop_id set_append)
  have "sorted_wrt (\<lambda>v w. f w \<le> f v) ?l"
    using assms(2,3) sorted_sort_key [of "\<lambda>v. - f v"]
    by (simp add: query_order_def sorted_wrt_map)
  then have "sorted_wrt (\<lambda>v w. f w \<le> f v) (vs @ drop (q_limit q) ?l)"
    unfolding ks(2) by simp
  then show ?thesis using w assms(4) by (auto simp: sorted_wrt_append)
qed

section \<open>An engine over an association list\<close>

definition mem_engine :: "(('k \<times> 'v) list, 'k, 'v) engine" where
  "mem_engine =
     \<lparr>eng_get = (\<lambda>k s. Inr (map_of s k)),
      eng_scan = (\<lambda>q s. Inr (query_run q (map snd (AList.clearjunk s)))),
      eng_put = (\<lambda>k v s. (Inr (), AList.update k v s)),
      eng_del = (\<lambda>k s. (Inr (), AList.delete k s)),
      eng_update = (\<lambda>k f s.
        (Inr (), case map_of s k of None \<Rightarrow> s | Some v \<Rightarrow> AList.update k (f v) s))\<rparr>"

lemma mem_answers: "answers q (map_of s) (query_run q (map snd (AList.clearjunk s)))"
proof -
  let ?s = "AList.clearjunk s"
  let ?ks = "map fst (filter (\<lambda>kv. q_filter q (snd kv)) ?s)"
  have d: "distinct (map fst ?s)" by (rule distinct_clearjunk)
  then have "distinct ?ks" by (rule distinct_map_filter)
  moreover have in_s: "map_of s k = Some v \<longleftrightarrow> (k, v) \<in> set ?s" for k v
    using d by (metis map_of_clearjunk map_of_eq_Some_iff)
  then have "set ?ks = matching (q_filter q) (map_of s)"
    by (force simp: matching_def)
  moreover have "the (map_of s (fst kv)) = snd kv" if "kv \<in> set ?s" for kv
    using in_s [of "fst kv" "snd kv"] that by simp
  then have "map (\<lambda>k. the (map_of s k)) ?ks = filter (q_filter q) (map snd ?s)"
    by (auto simp: filter_map comp_def)
  ultimately show ?thesis unfolding answers_def query_run_def by metis
qed

lemma mem_engine_laws: "engine_laws mem_engine map_of"
  by (auto simp: engine_laws_def mem_engine_def mem_answers update_conv' delete_conv')

text \<open>An engine none of whose operations fails.\<close>

definition reliable :: "('s, 'k, 'v, 'z) engine_scheme \<Rightarrow> bool" where
  "reliable E \<longleftrightarrow>
     (\<forall>k s. \<exists>r. eng_get E k s = Inr r) \<and> (\<forall>q s. \<exists>vs. eng_scan E q s = Inr vs) \<and>
     (\<forall>k v s. fst (eng_put E k v s) = Inr ()) \<and> (\<forall>k s. fst (eng_del E k s) = Inr ()) \<and>
     (\<forall>k f s. fst (eng_update E k f s) = Inr ())"

lemma mem_engine_reliable: "reliable mem_engine"
  by (simp add: reliable_def mem_engine_def)

section \<open>Per-owner caps\<close>

text \<open>
  The stores count an owner's rows and refuse a new slot past a cap. A \<open>slot_move\<close> is
  what any operation of such a store may do to the collection: nothing, replace a row by
  one of the same owner, claim a free key for an owner below the cap, or drop a key.
\<close>

definition held :: "('v \<Rightarrow> string) \<Rightarrow> ('k \<Rightarrow> 'v option) \<Rightarrow> string \<Rightarrow> 'k set" where
  "held own m o' = matching (\<lambda>v. own v = o') m"

definition within_cap :: "('v \<Rightarrow> string) \<Rightarrow> nat \<Rightarrow> ('k \<Rightarrow> 'v option) \<Rightarrow> bool" where
  "within_cap own cap m \<longleftrightarrow> (\<forall>o'. finite (held own m o') \<and> card (held own m o') \<le> cap)"

text \<open>Soundness of a collection: a predicate of every key and its row.\<close>

definition rows_ok :: "('k \<Rightarrow> 'v \<Rightarrow> bool) \<Rightarrow> ('k \<Rightarrow> 'v option) \<Rightarrow> bool" where
  "rows_ok P m \<longleftrightarrow> (\<forall>k v. m k = Some v \<longrightarrow> P k v)"

lemma rows_okD: "rows_ok P m \<Longrightarrow> m k = Some v \<Longrightarrow> P k v"
  by (simp add: rows_ok_def)

lemma rows_ok_empty [simp]: "rows_ok P Map.empty"
  by (simp add: rows_ok_def)

lemma rows_ok_put: "rows_ok P m \<Longrightarrow> P k v \<Longrightarrow> rows_ok P (m(k \<mapsto> v))"
  by (simp add: rows_ok_def)

lemma rows_ok_drop: "rows_ok P m \<Longrightarrow> rows_ok P (m(k := None))"
  by (simp add: rows_ok_def)

inductive slot_move :: "('v \<Rightarrow> string) \<Rightarrow> nat \<Rightarrow> ('k \<Rightarrow> 'v option) \<Rightarrow> ('k \<Rightarrow> 'v option) \<Rightarrow> bool"
  for own cap where
  stay: "slot_move own cap m m"
| rewrite: "m k = Some old \<Longrightarrow> own old = own v \<Longrightarrow> slot_move own cap m (m(k \<mapsto> v))"
| claim: "m k = None \<Longrightarrow> card (held own m (own v)) < cap \<Longrightarrow> slot_move own cap m (m(k \<mapsto> v))"
| drop_key: "slot_move own cap m (m(k := None))"

inductive_cases slot_moveE: "slot_move own cap m m'"

lemma held_update:
  "held own (m(k \<mapsto> v)) o' = (if own v = o' then insert k (held own m o') else held own m o' - {k})"
  by (auto simp: held_def matching_def)

lemma held_drop: "held own (m(k := None)) o' = held own m o' - {k}"
  by (auto simp: held_def matching_def)

lemma in_held: "k \<in> held own m o' \<longleftrightarrow> (\<exists>v. m k = Some v \<and> own v = o')"
  by (simp add: held_def matching_def)

lemma slot_move_cap:
  assumes "slot_move own cap m m'" "within_cap own cap m"
  shows "within_cap own cap m'"
  using assms(1)
proof cases
  case stay
  then show ?thesis using assms(2) by simp
next
  case (rewrite k old v)
  then have "k \<in> held own m (own v)" by (simp add: in_held)
  then have "held own m' o' = held own m o' - (if own v = o' then {} else {k})" for o'
    using rewrite(1) by (auto simp: held_update)
  then show ?thesis
    using assms(2) by (auto simp: within_cap_def intro: le_trans [OF card_Diff1_le])
next
  case (claim k v)
  then have "k \<notin> held own m o'" for o' by (simp add: in_held)
  then have "held own m' o' = (if own v = o' then insert k (held own m o') else held own m o')" for o'
    using claim(1) by (simp add: held_update)
  then show ?thesis
    using assms(2) claim(3) \<open>\<And>o'. k \<notin> held own m o'\<close> by (simp add: within_cap_def)
next
  case (drop_key k)
  then show ?thesis
    using assms(2) by (auto simp: within_cap_def held_drop intro: le_trans [OF card_Diff1_le])
qed

text \<open>The stores whose keys start with the owner: a row carries the owner of its key.\<close>

definition own_keyed :: "('v \<Rightarrow> string) \<Rightarrow> string \<times> 'x \<Rightarrow> 'v \<Rightarrow> bool" where
  "own_keyed own k v \<longleftrightarrow> own v = fst k"

lemma keyed_move:
  assumes "rows_ok (own_keyed own) m" "own_keyed own k v"
    and "m k = None \<longrightarrow> card (held own m (fst k)) < cap"
  shows "slot_move own cap m (m(k \<mapsto> v))"
proof (cases "m k")
  case None
  then show ?thesis using assms(2,3) by (intro slot_move.claim) (simp_all add: own_keyed_def)
next
  case (Some old)
  then show ?thesis using assms(2) rows_okD [OF assms(1) Some]
    by (simp add: slot_move.rewrite [of m k old own v cap] own_keyed_def)
qed

locale capped_slots =
  fixes own :: "'v \<Rightarrow> string" and cap :: nat
    and view :: "'s \<Rightarrow> 'k \<Rightarrow> 'v option"
    and good :: "('k \<Rightarrow> 'v option) \<Rightarrow> bool"
    and step :: "'s \<Rightarrow> 's \<Rightarrow> bool"
  assumes step_moves: "step s s' \<Longrightarrow> good (view s) \<Longrightarrow> within_cap own cap (view s) \<Longrightarrow>
      slot_move own cap (view s) (view s')"
    and step_good: "step s s' \<Longrightarrow> good (view s) \<Longrightarrow> within_cap own cap (view s) \<Longrightarrow> good (view s')"
begin

lemma run_capped:
  assumes "step\<^sup>*\<^sup>* s s'" "good (view s)" "within_cap own cap (view s)"
  shows "good (view s') \<and> within_cap own cap (view s')"
  using assms
proof (induction rule: rtranclp_induct)
  case base
  then show ?case by simp
next
  case (step t u)
  then have "good (view t)" "within_cap own cap (view t)" by simp_all
  then show ?case
    using step.hyps(2) step_moves step_good slot_move_cap by metis
qed

end

text \<open>
  The cap check of every store: a scan of the owner's rows with a limit above the cap
  counts them exactly as far as the cap can tell.
\<close>

lemma full_scan:
  assumes "engine_laws E view" "eng_scan E q s = Inr vs" "q_filter q = (\<lambda>v. own v = o')"
    and "cap < q_limit q"
  shows "cap \<le> length vs \<longleftrightarrow> cap \<le> card (held own (view s) o')"
  using answers_length [OF engine_scan [OF assms(1,2)]] assms(3,4) by (auto simp: held_def)

end
