(* ===== verification/Address.thy ===== *)
theory Address
  imports Ids
begin

text \<open>
  Networks and the validated remote addresses of \<^verbatim>\<open>internal/domain/network.go\<close>. The
  network strings are the constructors of \<open>network\<close>; a string that is none of them is
  the \<^verbatim>\<open>default\<close> branch of \<open>parse_network\<close>. \<^verbatim>\<open>strings.ToLower\<close> of the session branch
  folds the ASCII letters: no other character folds to a hex digit, so a session id
  accepted after folding has ASCII letters only, and the value of a refused one is not
  used.
\<close>

datatype network = Network_SMS | Network_Signal | Network_Session | Network_Matrix

fun network_string :: "network \<Rightarrow> string" where
  "network_string Network_SMS = ''sms''"
| "network_string Network_Signal = ''signal''"
| "network_string Network_Session = ''session''"
| "network_string Network_Matrix = ''matrix''"

definition parse_network :: "string \<Rightarrow> err + network" where
  "parse_network raw =
     (if raw = ''sms'' then Inr Network_SMS
      else if raw = ''signal'' then Inr Network_Signal
      else if raw = ''session'' then Inr Network_Session
      else if raw = ''matrix'' then Inr Network_Matrix
      else Inl (Coded Rejection ''domain.network''))"

record address =
  addr_network :: network
  addr_value :: string

definition is_hex_char :: "char \<Rightarrow> bool" where
  "is_hex_char c \<longleftrightarrow> (let n = of_char c :: nat in (48 \<le> n \<and> n \<le> 57) \<or> (97 \<le> n \<and> n \<le> 102))"

definition is_hex :: "string \<Rightarrow> bool" where
  "is_hex s \<longleftrightarrow> list_all is_hex_char s \<and> length s > 0"

definition parse_address :: "network \<Rightarrow> string \<Rightarrow> err + address" where
  "parse_address net raw =
     (if net = Network_SMS \<or> net = Network_Signal then
        let clean = sanitize_dialable raw in
        if clean = [] then Inl (Coded Rejection ''domain.address'')
        else if length clean > 32 then Inl (Coded Rejection ''domain.address'')
        else Inr \<lparr>addr_network = net, addr_value = clean\<rparr>
      else if net = Network_Session then
        let lower = to_lower raw in
        if length lower \<noteq> 66 \<or> \<not> has_prefix ''05'' lower \<or> \<not> is_hex (drop 2 lower)
        then Inl (Coded Rejection ''domain.address'')
        else Inr \<lparr>addr_network = net, addr_value = lower\<rparr>
      else
        let at = index_byte (CHR ''@'') raw; colon = last_index_byte (CHR '':'') raw in
        if at \<noteq> 0 \<or> colon < 2 \<or> colon = int (length raw) - 1 \<or> length raw > 255
        then Inl (Coded Rejection ''domain.address'')
        else Inr \<lparr>addr_network = net, addr_value = raw\<rparr>)"

definition must_parse_address :: "network \<Rightarrow> string \<Rightarrow> err + address" where
  "must_parse_address net raw = must (parse_address net raw)"

definition parse_composed_address :: "string \<Rightarrow> err + address" where
  "parse_composed_address raw =
     (let trimmed = trim_space raw in
      case parse_address Network_Matrix trimmed of
        Inr addr \<Rightarrow> Inr addr
      | Inl _ \<Rightarrow>
          (case parse_address Network_Session trimmed of
             Inr addr \<Rightarrow> Inr addr
           | Inl _ \<Rightarrow> parse_address Network_SMS trimmed))"

definition is_phone_shaped :: "address \<Rightarrow> bool" where
  "is_phone_shaped a \<longleftrightarrow> addr_network a = Network_SMS \<or> addr_network a = Network_Signal"

section \<open>What an address promises\<close>

text \<open>The canonical form of each network's addresses.\<close>

definition canonical_address :: "address \<Rightarrow> bool" where
  "canonical_address a \<longleftrightarrow>
     (case addr_network a of
        Network_SMS \<Rightarrow> valid_dialable (addr_value a)
      | Network_Signal \<Rightarrow> valid_dialable (addr_value a)
      | Network_Session \<Rightarrow>
          length (addr_value a) = 66 \<and> has_prefix ''05'' (addr_value a) \<and>
          list_all is_hex_char (addr_value a)
      | Network_Matrix \<Rightarrow>
          (\<exists>local_part server. addr_value a = CHR ''@'' # local_part @ CHR '':'' # server \<and>
             local_part \<noteq> [] \<and> server \<noteq> [] \<and> CHR '':'' \<notin> set server \<and>
             length (addr_value a) \<le> 255))"

lemma parse_network_string [simp]: "parse_network (network_string n) = Inr n"
  by (cases n) (simp_all add: parse_network_def)

lemma parse_network_ok: "parse_network raw = Inr n \<longleftrightarrow> raw = network_string n"
  by (cases n) (auto simp: parse_network_def)

lemma network_string_inj [simp]: "network_string m = network_string n \<longleftrightarrow> m = n"
  by (metis parse_network_string sum.inject(2))

lemma lower_byte_hex: "is_hex_char c \<Longrightarrow> lower_byte c = c"
  by (auto simp: is_hex_char_def lower_byte_def Let_def)

lemma to_lower_hex: "list_all is_hex_char s \<Longrightarrow> to_lower s = s"
  by (induction s) (auto simp: to_lower_def lower_byte_hex)

lemma length_to_lower [simp]: "length (to_lower s) = length s"
  by (simp add: to_lower_def)

lemma has_prefix_05_hex:
  "has_prefix ''05'' s \<Longrightarrow> list_all is_hex_char (drop 2 s) \<Longrightarrow> list_all is_hex_char s"
  by (auto simp: has_prefix_iff is_hex_char_def)

lemma split_last_unique:
  "a @ c # b = a' @ c # b' \<Longrightarrow> c \<notin> set b \<Longrightarrow> c \<notin> set b' \<Longrightarrow> a = a'"
proof (induction a arbitrary: a')
  case Nil
  then show ?case by (cases a') auto
next
  case (Cons d a)
  then show ?case by (cases a') auto
qed

lemma last_index_byte_split:
  "last_index_byte c s = int i \<longleftrightarrow> (\<exists>a b. s = a @ c # b \<and> length a = i \<and> c \<notin> set b)"
proof (induction s arbitrary: i)
  case Nil
  then show ?case by simp
next
  case (Cons d s)
  show ?case
  proof (cases "0 \<le> last_index_byte c s")
    case True
    then obtain j where j: "last_index_byte c s = int j" by (metis nonneg_int_cases)
    with Cons.IH obtain a b where ab: "s = a @ c # b" "length a = j" "c \<notin> set b" by metis
    have "(\<exists>a' b'. d # s = a' @ c # b' \<and> length a' = i \<and> c \<notin> set b') \<longleftrightarrow> i = Suc j"
    proof
      assume "\<exists>a' b'. d # s = a' @ c # b' \<and> length a' = i \<and> c \<notin> set b'"
      then obtain a' b' where *: "d # s = a' @ c # b'" "length a' = i" "c \<notin> set b'" by blast
      with ab have "(d # a) @ c # b = a' @ c # b'" by simp
      then have "d # a = a'" using ab(3) *(3) by (rule split_last_unique)
      with ab(2) *(2) show "i = Suc j" by auto
    next
      assume "i = Suc j"
      with ab show "\<exists>a' b'. d # s = a' @ c # b' \<and> length a' = i \<and> c \<notin> set b'"
        by (intro exI [of _ "d # a"] exI [of _ b]) simp
    qed
    with j show ?thesis by (auto simp: Let_def)
  next
    case False
    then have no: "c \<notin> set s"
      using Cons.IH by (metis linorder_not_less in_set_conv_decomp_last nonneg_int_cases of_nat_0_le_iff)
    then have "(\<exists>a' b'. d # s = a' @ c # b' \<and> length a' = i \<and> c \<notin> set b') \<longleftrightarrow> d = c \<and> i = 0"
      by (auto simp: Cons_eq_append_conv)
    with False show ?thesis by (auto simp: Let_def)
  qed
qed

lemma index_byte_0: "index_byte c s = 0 \<longleftrightarrow> (\<exists>t. s = c # t)"
proof (cases s)
  case (Cons d t)
  then show ?thesis using index_byte_range [of c t] by (auto simp: Let_def)
qed simp

lemma matrix_shape:
  "(index_byte (CHR ''@'') v = 0 \<and> 2 \<le> last_index_byte (CHR '':'') v \<and>
    last_index_byte (CHR '':'') v \<noteq> int (length v) - 1)
   \<longleftrightarrow> (\<exists>l s. v = CHR ''@'' # l @ CHR '':'' # s \<and> l \<noteq> [] \<and> s \<noteq> [] \<and> CHR '':'' \<notin> set s)"
  (is "?L \<longleftrightarrow> ?R")
proof
  assume L: ?L
  then obtain t where t: "v = CHR ''@'' # t" by (auto simp: index_byte_0)
  obtain i where i: "last_index_byte (CHR '':'') v = int i" "2 \<le> i"
    using L by (metis nonneg_int_cases of_nat_le_iff of_nat_numeral order_trans zero_le_numeral)
  then obtain a b where ab: "v = a @ CHR '':'' # b" "length a = i" "CHR '':'' \<notin> set b"
    by (auto simp: last_index_byte_split)
  with t i(2) obtain l where "a = CHR ''@'' # l" by (cases a) auto
  moreover have "b \<noteq> []" using L i ab by auto
  ultimately show ?R using ab i(2)
    by (intro exI [of _ l] exI [of _ b]) auto
next
  assume ?R
  then obtain l s where *: "v = CHR ''@'' # l @ CHR '':'' # s" "l \<noteq> []" "s \<noteq> []" "CHR '':'' \<notin> set s"
    by blast
  then have "last_index_byte (CHR '':'') v = int (Suc (length l))"
    by (subst last_index_byte_split) (intro exI [of _ "CHR ''@'' # l"] exI [of _ s], simp)
  with * show ?L by (cases l; cases s) (auto simp: index_byte_0)
qed

lemma parse_address_network: "parse_address net raw = Inr a \<Longrightarrow> addr_network a = net"
  by (cases net) (auto simp: parse_address_def Let_def split: if_splits)

lemma parse_address_canonical:
  assumes "parse_address net raw = Inr a"
  shows "canonical_address a"
proof (cases net)
  case Network_Matrix
  with assms have a: "a = \<lparr>addr_network = Network_Matrix, addr_value = raw\<rparr>" "length raw \<le> 255"
    and "index_byte (CHR ''@'') raw = 0 \<and> 2 \<le> last_index_byte (CHR '':'') raw \<and>
      last_index_byte (CHR '':'') raw \<noteq> int (length raw) - 1"
    by (auto simp: parse_address_def Let_def split: if_splits)
  then obtain l s where "raw = CHR ''@'' # l @ CHR '':'' # s" "l \<noteq> []" "s \<noteq> []" "CHR '':'' \<notin> set s"
    unfolding matrix_shape by blast
  with a show ?thesis unfolding canonical_address_def by auto
next
  case Network_Session
  with assms show ?thesis
    by (auto simp: parse_address_def canonical_address_def Let_def is_hex_def
        split: if_splits intro: has_prefix_05_hex)
qed (use assms in \<open>auto simp: parse_address_def canonical_address_def Let_def
       valid_dialable_def sanitize_all split: if_splits\<close>)

lemma parse_address_stored:
  assumes "canonical_address a"
  shows "parse_address (addr_network a) (addr_value a) = Inr a"
proof (cases "addr_network a")
  case Network_Matrix
  with assms show ?thesis using matrix_shape [of "addr_value a"]
    by (auto simp: parse_address_def canonical_address_def Let_def)
next
  case Network_Session
  with assms have "to_lower (addr_value a) = addr_value a"
    by (simp add: canonical_address_def to_lower_hex)
  moreover from assms Network_Session have "is_hex (drop 2 (addr_value a))"
    by (auto simp: canonical_address_def is_hex_def list_all_iff dest: in_set_dropD)
  ultimately show ?thesis using assms Network_Session
    by (simp add: parse_address_def canonical_address_def Let_def)
qed (use assms in \<open>auto simp: parse_address_def canonical_address_def Let_def
       valid_dialable_def sanitize_clean\<close>)

lemma parse_address_length: "parse_address net raw = Inr a \<Longrightarrow> length (addr_value a) \<le> 255"
  by (drule parse_address_canonical)
    (auto simp: canonical_address_def valid_dialable_def split: network.splits)

lemma space_seq_head: "p \<in> set space_seqs \<Longrightarrow> p \<noteq> [] \<and> \<not> dialable_char (hd p)"
  by (auto simp: space_seqs_def dialable_char_def is_digit_char_def is_letter_char_def)

lemma space_seq_last: "p \<in> set space_seqs \<Longrightarrow> p \<noteq> [] \<and> \<not> dialable_char (last p)"
  by (auto simp: space_seqs_def dialable_char_def is_digit_char_def is_letter_char_def)

lemma trim_space_dialable:
  assumes "list_all dialable_char s"
  shows "trim_space s = s"
proof -
  have front: "strip_front space_seqs s = s"
  proof (rule strip_front_stop)
    fix p assume "p \<in> set space_seqs" "p \<noteq> []"
    with assms space_seq_head [of p] show "\<not> has_prefix p s"
      by (cases p) (auto simp: has_prefix_iff)
  qed
  have "strip_front (map rev space_seqs) (rev s) = rev s"
  proof (rule strip_front_stop)
    fix p assume "p \<in> set (map rev space_seqs)" "p \<noteq> []"
    then obtain q where "q \<in> set space_seqs" "p = rev q" by auto
    with assms space_seq_last [of q] show "\<not> has_prefix p (rev s)"
      by (cases q rule: rev_cases) (auto simp: has_prefix_iff rev_eq_append_conv)
  qed
  with front show ?thesis by (simp add: trim_space_def trim_left_def trim_right_def)
qed

lemma hex_dialable: "is_hex_char c \<Longrightarrow> dialable_char c"
  by (auto simp: is_hex_char_def dialable_char_def is_digit_char_def is_letter_char_def Let_def)

lemma parse_matrix_needs_at: "CHR ''@'' \<notin> set v \<Longrightarrow> \<exists>e. parse_address Network_Matrix v = Inl e"
  by (auto simp: parse_address_def Let_def index_byte_0)

lemma at_not_dialable [simp]: "\<not> dialable_char (CHR ''@'')"
  by (simp add: dialable_char_def is_digit_char_def is_letter_char_def)

section \<open>Properties\<close>

text \<open>
  The addresses a network accepts are exactly its canonical addresses, and the text
  of an accepted address parses back to that address on its own network: what a row
  stored is what a later read brands.
\<close>

theorem address_door:
  "(canonical_address a \<longleftrightarrow> (\<exists>raw. parse_address (addr_network a) raw = Inr a)) \<and>
   (canonical_address a \<longleftrightarrow> parse_address (addr_network a) (addr_value a) = Inr a)"
  using parse_address_canonical parse_address_stored by blast+

text \<open>
  The compose form finds the network from the shape: the text of any canonical
  sms, session or matrix address that carries no outer white space composes to that
  very address, and whatever composes is canonical and never rides the signal network.
\<close>

theorem composed_address_shape:
  "(canonical_address a \<and> addr_network a \<noteq> Network_Signal \<and>
      trim_space (addr_value a) = addr_value a \<longrightarrow> parse_composed_address (addr_value a) = Inr a) \<and>
   (parse_composed_address raw = Inr b \<longrightarrow> canonical_address b \<and> addr_network b \<noteq> Network_Signal)"
proof (intro conjI [of "_ \<longrightarrow> _" "_ \<longrightarrow> _"] impI; (elim conjE)?)
  assume a: "canonical_address a" "addr_network a \<noteq> Network_Signal"
    and trim: "trim_space (addr_value a) = addr_value a"
  note stored = parse_address_stored [OF a(1)]
  show "parse_composed_address (addr_value a) = Inr a"
  proof (cases "addr_network a")
    case Network_SMS
    then have v: "valid_dialable (addr_value a)" using a(1) by (simp add: canonical_address_def)
    then have "CHR ''@'' \<notin> set (addr_value a)" by (auto simp: valid_dialable_def list_all_iff)
    then obtain e where "parse_address Network_Matrix (addr_value a) = Inl e"
      using parse_matrix_needs_at by blast
    moreover from v have "parse_address Network_Session (addr_value a)
        = Inl (Coded Rejection ''domain.address'')"
      by (simp add: parse_address_def valid_dialable_def Let_def)
    ultimately show ?thesis using stored Network_SMS trim
      by (simp add: parse_composed_address_def Let_def)
  next
    case Network_Session
    then have "list_all is_hex_char (addr_value a)" using a(1) by (simp add: canonical_address_def)
    then have "CHR ''@'' \<notin> set (addr_value a)"
      by (metis hex_dialable at_not_dialable list_all_iff)
    then obtain e where "parse_address Network_Matrix (addr_value a) = Inl e"
      using parse_matrix_needs_at by blast
    with stored Network_Session trim show ?thesis
      by (simp add: parse_composed_address_def Let_def)
  qed (use a stored trim in \<open>simp_all add: parse_composed_address_def Let_def\<close>)
next
  assume b: "parse_composed_address raw = Inr b"
  then obtain net v where "parse_address net v = Inr b" "net \<noteq> Network_Signal"
    by (auto simp: parse_composed_address_def Let_def split: sum.splits)
  then show "canonical_address b \<and> addr_network b \<noteq> Network_Signal"
    using parse_address_canonical parse_address_network by blast
qed

theorem composed_address_shape_witness:
  "parse_composed_address ''+4930123'' = Inr \<lparr>addr_network = Network_SMS, addr_value = ''+4930123''\<rparr>
   \<and> canonical_address \<lparr>addr_network = Network_Matrix, addr_value = ''@bob:example.org''\<rparr>"
proof
  show "parse_composed_address ''+4930123''
      = Inr \<lparr>addr_network = Network_SMS, addr_value = ''+4930123''\<rparr>"
    using composed_address_shape [of "\<lparr>addr_network = Network_SMS, addr_value = ''+4930123''\<rparr>"]
      trim_space_dialable [of "''+4930123''"]
    by (simp add: canonical_address_def valid_dialable_def dialable_char_def is_digit_char_def
        is_letter_char_def)
  have "parse_composed_address '' @bob:example.org''
      = Inr \<lparr>addr_network = Network_Matrix, addr_value = ''@bob:example.org''\<rparr>"
    by code_simp
  then show "canonical_address \<lparr>addr_network = Network_Matrix, addr_value = ''@bob:example.org''\<rparr>"
    using composed_address_shape by blast
qed

end
