(* ===== verification/Messages_Domain.thy ===== *)
theory Messages_Domain
  imports Address
begin

text \<open>
  Threads, messages and attachments of \<^verbatim>\<open>internal/domain/message.go\<close>, the failure kinds
  of \<^verbatim>\<open>internal/domain/delivery.go\<close> they carry, and the append fold of
  \<^verbatim>\<open>internal/domain/thread.go\<close>. The string enumerations are datatypes, each with the
  text it is stored as and the parser that refuses every other text.
\<close>

section \<open>Enumerations\<close>

datatype channel = Channel_SMS | Channel_MMS

fun channel_string :: "channel \<Rightarrow> string" where
  "channel_string Channel_SMS = ''sms''"
| "channel_string Channel_MMS = ''mms''"

definition parse_channel :: "string \<Rightarrow> err + channel" where
  "parse_channel raw =
     (if raw = ''sms'' then Inr Channel_SMS
      else if raw = ''mms'' then Inr Channel_MMS
      else Inl (Coded Rejection ''domain.channel''))"

datatype direction = Inbound | Outbound

fun direction_string :: "direction \<Rightarrow> string" where
  "direction_string Inbound = ''in''"
| "direction_string Outbound = ''out''"

definition parse_direction :: "string \<Rightarrow> err + direction" where
  "parse_direction raw =
     (if raw = ''in'' then Inr Inbound
      else if raw = ''out'' then Inr Outbound
      else Inl (Coded Rejection ''domain.direction''))"

text \<open>\<open>No_Status\<close> is the zero value, the status of every inbound message.\<close>

datatype outbound_status = No_Status | Queued | Sent | Delivered | Failed

fun status_string :: "outbound_status \<Rightarrow> string" where
  "status_string No_Status = []"
| "status_string Queued = ''queued''"
| "status_string Sent = ''sent''"
| "status_string Delivered = ''delivered''"
| "status_string Failed = ''failed''"

definition parse_outbound_status :: "string \<Rightarrow> err + outbound_status" where
  "parse_outbound_status raw =
     (if raw = [] then Inr No_Status
      else if raw = ''queued'' then Inr Queued
      else if raw = ''sent'' then Inr Sent
      else if raw = ''delivered'' then Inr Delivered
      else if raw = ''failed'' then Inr Failed
      else Inl (Coded Rejection ''domain.outbound_status''))"

text \<open>
  A failure kind is a string type of the source whose stored text is read back without a
  check, so a text that is none of the four named kinds has a constructor of its own.
\<close>

datatype failure_kind =
    Failure_None | Failure_Transient | Failure_Rejected | Failure_Provider | Failure_Other string

fun failure_string :: "failure_kind \<Rightarrow> string" where
  "failure_string Failure_None = []"
| "failure_string Failure_Transient = ''transient''"
| "failure_string Failure_Rejected = ''rejected''"
| "failure_string Failure_Provider = ''provider''"
| "failure_string (Failure_Other s) = s"

definition failure_of_string :: "string \<Rightarrow> failure_kind" where
  "failure_of_string s =
     (if s = [] then Failure_None
      else if s = ''transient'' then Failure_Transient
      else if s = ''rejected'' then Failure_Rejected
      else if s = ''provider'' then Failure_Provider
      else Failure_Other s)"

definition named_failure :: "failure_kind \<Rightarrow> bool" where
  "named_failure k \<longleftrightarrow> failure_of_string (failure_string k) = k"

definition is_retryable :: "failure_kind \<Rightarrow> bool" where
  "is_retryable k \<longleftrightarrow> k = Failure_Transient"

lemma failure_string_of [simp]: "failure_string (failure_of_string s) = s"
  by (simp add: failure_of_string_def)

lemma named_failure_simps [simp]:
  "named_failure Failure_None" "named_failure Failure_Transient" "named_failure Failure_Rejected"
  "named_failure Failure_Provider" "named_failure (failure_of_string s)"
  by (simp_all add: named_failure_def failure_of_string_def)

lemma parse_channel_string [simp]: "parse_channel (channel_string c) = Inr c"
  by (cases c) (simp_all add: parse_channel_def)

lemma parse_channel_ok: "parse_channel raw = Inr c \<longleftrightarrow> raw = channel_string c"
  by (cases c) (auto simp: parse_channel_def)

lemma parse_direction_string [simp]: "parse_direction (direction_string d) = Inr d"
  by (cases d) (simp_all add: parse_direction_def)

lemma parse_direction_ok: "parse_direction raw = Inr d \<longleftrightarrow> raw = direction_string d"
  by (cases d) (auto simp: parse_direction_def)

lemma parse_status_string [simp]: "parse_outbound_status (status_string s) = Inr s"
  by (cases s) (simp_all add: parse_outbound_status_def)

lemma parse_status_ok: "parse_outbound_status raw = Inr s \<longleftrightarrow> raw = status_string s"
  by (cases s) (auto simp: parse_outbound_status_def)

section \<open>Records\<close>

record thread =
  thr_id :: thread_id
  thr_owner :: extension
  thr_remote :: address
  thr_last :: time
  thr_unread :: int
  thr_pinned :: bool
  thr_archived :: bool
  thr_muted :: bool

record attachment =
  att_id :: attachment_id
  att_message :: message_id
  att_name :: string
  att_mime :: string
  att_size :: nat
  att_path :: string

record message =
  msg_id :: message_id
  msg_thread :: thread_id
  msg_owner :: extension
  msg_remote :: address
  msg_direction :: direction
  msg_channel :: channel
  msg_body :: string
  msg_status :: outbound_status
  msg_ref :: string
  msg_fkind :: failure_kind
  msg_fdetail :: string
  msg_attachments :: "attachment list"
  msg_created :: time

definition channel_of :: "nat \<Rightarrow> channel" where
  "channel_of n = (if n > 0 then Channel_MMS else Channel_SMS)"

definition new_outbound_message ::
  "message_id \<Rightarrow> thread_id \<Rightarrow> extension \<Rightarrow> address \<Rightarrow> string \<Rightarrow> nat \<Rightarrow> time \<Rightarrow> message" where
  "new_outbound_message mid thr owner remote body n at =
     \<lparr>msg_id = mid, msg_thread = thr, msg_owner = owner, msg_remote = remote,
      msg_direction = Outbound, msg_channel = channel_of n, msg_body = body,
      msg_status = Queued, msg_ref = [], msg_fkind = Failure_None, msg_fdetail = [],
      msg_attachments = [], msg_created = at\<rparr>"

definition new_inbound_message ::
  "message_id \<Rightarrow> thread_id \<Rightarrow> extension \<Rightarrow> address \<Rightarrow> string \<Rightarrow> nat \<Rightarrow> time \<Rightarrow> message" where
  "new_inbound_message mid thr owner remote body n at =
     \<lparr>msg_id = mid, msg_thread = thr, msg_owner = owner, msg_remote = remote,
      msg_direction = Inbound, msg_channel = channel_of n, msg_body = body,
      msg_status = No_Status, msg_ref = [], msg_fkind = Failure_None, msg_fdetail = [],
      msg_attachments = [], msg_created = at\<rparr>"

text \<open>Raw content crossing a boundary: an upload, or an inbound attachment.\<close>

record upload =
  upl_name :: string
  upl_mime :: string
  upl_bytes :: "char list"

record inbound_message =
  inb_owner :: extension
  inb_from :: address
  inb_body :: string
  inb_attachments :: "upload list"
  inb_received :: time

section \<open>Appending to a thread\<close>

definition append_to_thread :: "thread \<Rightarrow> message \<Rightarrow> thread" where
  "append_to_thread t m =
     (let t1 = (if thr_id t = []
                then t\<lparr>thr_id := msg_thread m, thr_owner := msg_owner m, thr_remote := msg_remote m\<rparr>
                else t);
          t2 = t1\<lparr>thr_last := msg_created m\<rparr> in
      if msg_direction m = Inbound
      then t2\<lparr>thr_unread := thr_unread t2 + 1, thr_archived := False\<rparr>
      else t2)"

lemma append_to_thread_id:
  "thr_id t \<noteq> [] \<Longrightarrow> thr_id (append_to_thread t m) = thr_id t \<and>
     thr_owner (append_to_thread t m) = thr_owner t \<and> thr_remote (append_to_thread t m) = thr_remote t"
  by (simp add: append_to_thread_def Let_def)

lemma append_to_thread_toggles:
  "thr_pinned (append_to_thread t m) = thr_pinned t \<and> thr_muted (append_to_thread t m) = thr_muted t"
  by (simp add: append_to_thread_def Let_def)

lemma append_to_thread_last [simp]: "thr_last (append_to_thread t m) = msg_created m"
  by (simp add: append_to_thread_def Let_def)

lemma append_to_thread_unread:
  "thr_unread (append_to_thread t m) = thr_unread t + (if msg_direction m = Inbound then 1 else 0)"
  by (simp add: append_to_thread_def Let_def)

lemma append_to_thread_archived:
  "thr_archived (append_to_thread t m) = (msg_direction m \<noteq> Inbound \<and> thr_archived t)"
  by (simp add: append_to_thread_def Let_def)

lemma fold_append_unread:
  "thr_unread (fold (\<lambda>m t. append_to_thread t m) ms t)
     = thr_unread t + int (length (filter (\<lambda>m. msg_direction m = Inbound) ms))"
  by (induction ms arbitrary: t) (auto simp: append_to_thread_unread)

section \<open>Change notifications\<close>

text \<open>The closed event set of \<^verbatim>\<open>internal/domain/events.go\<close>.\<close>

datatype domain_event =
    Message_Received extension thread_id
  | Message_Delivery_Advanced extension thread_id
  | Thread_Flag_Changed extension
  | Fax_Advanced extension fax_id
  | Review_Saved extension string

end
