(* ===== verification/Delivery.thy ===== *)
theory Delivery
  imports Messages_Domain
begin

text \<open>
  The delivery machine of an outbound message, \<^verbatim>\<open>internal/domain/delivery.go\<close>: the
  move table as data, one advance step, and the projection of a message on the slice the
  machine owns. \<open>delivery_spec\<close> is the contract the table encodes, stated on the whole
  event history; the step relation \<open>delivery_step\<close> and its reachable states state the
  lifecycle.
\<close>

datatype verdict = Verdict_Delivered | Verdict_Failed

definition verdict_of :: "outbound_status \<Rightarrow> verdict option" where
  "verdict_of s =
     (case s of Delivered \<Rightarrow> Some Verdict_Delivered | Failed \<Rightarrow> Some Verdict_Failed | _ \<Rightarrow> None)"

fun verdict_status :: "verdict \<Rightarrow> outbound_status" where
  "verdict_status Verdict_Delivered = Delivered"
| "verdict_status Verdict_Failed = Failed"

record delivery =
  dlv_status :: outbound_status
  dlv_ref :: string
  dlv_fkind :: failure_kind
  dlv_fdetail :: string

datatype event_kind = Event_Send_Accepted | Event_Send_Refused | Event_Verdict

datatype delivery_event =
    Send_Accepted string
  | Send_Refused failure_kind string
  | Provider_Verdict verdict string

fun event_kind_of :: "delivery_event \<Rightarrow> event_kind" where
  "event_kind_of (Send_Accepted _) = Event_Send_Accepted"
| "event_kind_of (Send_Refused _ _) = Event_Send_Refused"
| "event_kind_of (Provider_Verdict _ _) = Event_Verdict"

fun event_target :: "delivery_event \<Rightarrow> outbound_status" where
  "event_target (Send_Accepted _) = Sent"
| "event_target (Send_Refused _ _) = Failed"
| "event_target (Provider_Verdict v _) = verdict_status v"

definition delivery_moves :: "(outbound_status \<times> event_kind \<times> outbound_status) list" where
  "delivery_moves =
     [(Queued, Event_Send_Accepted, Sent),
      (Queued, Event_Send_Refused, Failed),
      (Queued, Event_Verdict, Delivered),
      (Sent, Event_Verdict, Delivered),
      (Failed, Event_Verdict, Delivered),
      (Delivered, Event_Verdict, Delivered),
      (Queued, Event_Verdict, Failed),
      (Sent, Event_Verdict, Failed),
      (Failed, Event_Verdict, Failed),
      (Delivered, Event_Verdict, Failed)]"

definition delivery_advance :: "delivery \<Rightarrow> delivery_event \<Rightarrow> delivery \<times> bool" where
  "delivery_advance d e =
     (if (dlv_status d, event_kind_of e, event_target e) \<notin> set delivery_moves then (d, False)
      else
        ((case e of
            Send_Accepted ref \<Rightarrow>
              d\<lparr>dlv_status := Sent, dlv_ref := ref, dlv_fkind := Failure_None, dlv_fdetail := []\<rparr>
          | Send_Refused kind detail \<Rightarrow>
              d\<lparr>dlv_status := Failed, dlv_fkind := kind, dlv_fdetail := detail\<rparr>
          | Provider_Verdict v detail \<Rightarrow>
              if v = Verdict_Failed
              then d\<lparr>dlv_status := verdict_status v, dlv_fkind := Failure_Provider,
                     dlv_fdetail := detail\<rparr>
              else d\<lparr>dlv_status := verdict_status v, dlv_fkind := Failure_None,
                     dlv_fdetail := []\<rparr>), True))"

definition delivery_of :: "message \<Rightarrow> delivery" where
  "delivery_of m =
     \<lparr>dlv_status = msg_status m, dlv_ref = msg_ref m, dlv_fkind = msg_fkind m,
      dlv_fdetail = msg_fdetail m\<rparr>"

definition with_delivery :: "message \<Rightarrow> delivery \<Rightarrow> message" where
  "with_delivery m d =
     m\<lparr>msg_status := dlv_status d, msg_ref := dlv_ref d, msg_fkind := dlv_fkind d,
       msg_fdetail := dlv_fdetail d\<rparr>"

section \<open>Lemmas on one step\<close>

lemma advance_verdict:
  "dlv_status d \<noteq> No_Status \<Longrightarrow>
   delivery_advance d (Provider_Verdict v detail) =
     (d\<lparr>dlv_status := verdict_status v,
        dlv_fkind := (if v = Verdict_Failed then Failure_Provider else Failure_None),
        dlv_fdetail := (if v = Verdict_Failed then detail else [])\<rparr>, True)"
  by (cases "dlv_status d"; cases v) (simp_all add: delivery_advance_def delivery_moves_def)

lemma advance_accepted:
  "delivery_advance d (Send_Accepted ref) =
     (if dlv_status d = Queued
      then (d\<lparr>dlv_status := Sent, dlv_ref := ref, dlv_fkind := Failure_None, dlv_fdetail := []\<rparr>, True)
      else (d, False))"
  by (simp add: delivery_advance_def delivery_moves_def)

lemma advance_refused:
  "delivery_advance d (Send_Refused kind detail) =
     (if dlv_status d = Queued
      then (d\<lparr>dlv_status := Failed, dlv_fkind := kind, dlv_fdetail := detail\<rparr>, True)
      else (d, False))"
  by (simp add: delivery_advance_def delivery_moves_def)

lemma advance_inbound: "dlv_status d = No_Status \<Longrightarrow> delivery_advance d e = (d, False)"
  by (cases e) (simp_all add: delivery_advance_def delivery_moves_def)

lemmas advance_simps = advance_verdict advance_accepted advance_refused advance_inbound

lemma delivery_of_with [simp]: "delivery_of (with_delivery m d) = d"
  by (simp add: delivery_of_def with_delivery_def)

lemma with_delivery_of [simp]: "with_delivery m (delivery_of m) = m"
  by (simp add: delivery_of_def with_delivery_def)

lemma with_delivery_frame [simp]:
  "msg_id (with_delivery m d) = msg_id m" "msg_thread (with_delivery m d) = msg_thread m"
  "msg_owner (with_delivery m d) = msg_owner m" "msg_remote (with_delivery m d) = msg_remote m"
  "msg_direction (with_delivery m d) = msg_direction m" "msg_body (with_delivery m d) = msg_body m"
  "msg_channel (with_delivery m d) = msg_channel m"
  "msg_attachments (with_delivery m d) = msg_attachments m"
  "msg_created (with_delivery m d) = msg_created m"
  by (simp_all add: with_delivery_def)

section \<open>The contract on a whole history\<close>

text \<open>The row \<^verbatim>\<open>Send\<close> persists, and the fold of the events that reach it.\<close>

definition fresh_delivery :: delivery where
  "fresh_delivery =
     \<lparr>dlv_status = Queued, dlv_ref = [], dlv_fkind = Failure_None, dlv_fdetail = []\<rparr>"

definition delivery_run :: "delivery \<Rightarrow> delivery_event list \<Rightarrow> delivery" where
  "delivery_run d es = fold (\<lambda>e d. fst (delivery_advance d e)) es d"

text \<open>
  What the history promises, without the machine: only the first event may be an answer
  of the gateway, it alone names the provider reference; the last verdict, when there is
  one, decides the status and the failure story, otherwise the gateway's answer does.
\<close>

fun last_verdict :: "delivery_event list \<Rightarrow> (verdict \<times> string) option" where
  "last_verdict [] = None"
| "last_verdict (Provider_Verdict v detail # es) =
     (case last_verdict es of None \<Rightarrow> Some (v, detail) | Some w \<Rightarrow> Some w)"
| "last_verdict (_ # es) = last_verdict es"

definition delivery_spec :: "delivery_event list \<Rightarrow> delivery" where
  "delivery_spec es =
     (let ref = (case es of Send_Accepted r # _ \<Rightarrow> r | _ \<Rightarrow> []) in
      case last_verdict es of
        Some (Verdict_Delivered, _) \<Rightarrow>
          \<lparr>dlv_status = Delivered, dlv_ref = ref, dlv_fkind = Failure_None, dlv_fdetail = []\<rparr>
      | Some (Verdict_Failed, detail) \<Rightarrow>
          \<lparr>dlv_status = Failed, dlv_ref = ref, dlv_fkind = Failure_Provider, dlv_fdetail = detail\<rparr>
      | None \<Rightarrow>
          (case es of
             [] \<Rightarrow> fresh_delivery
           | Send_Refused kind detail # _ \<Rightarrow>
               \<lparr>dlv_status = Failed, dlv_ref = [], dlv_fkind = kind, dlv_fdetail = detail\<rparr>
           | _ \<Rightarrow>
               \<lparr>dlv_status = Sent, dlv_ref = ref, dlv_fkind = Failure_None, dlv_fdetail = []\<rparr>))"

definition settle :: "verdict \<times> string \<Rightarrow> delivery \<Rightarrow> delivery" where
  "settle w d =
     d\<lparr>dlv_status := verdict_status (fst w),
       dlv_fkind := (if fst w = Verdict_Failed then Failure_Provider else Failure_None),
       dlv_fdetail := (if fst w = Verdict_Failed then snd w else [])\<rparr>"

lemma settle_settle [simp]: "settle w (settle v d) = settle w d"
  by (simp add: settle_def)

lemma delivery_run_moved:
  assumes "dlv_status d \<notin> {No_Status, Queued}"
  shows "delivery_run d es = (case last_verdict es of None \<Rightarrow> d | Some w \<Rightarrow> settle w d)"
  using assms
proof (induction es arbitrary: d)
  case Nil
  then show ?case by (simp add: delivery_run_def)
next
  case (Cons e es)
  show ?case
  proof (cases e)
    case (Provider_Verdict v detail)
    have "dlv_status (settle (v, detail) d) \<notin> {No_Status, Queued}"
      by (cases v) (simp_all add: settle_def)
    note IH = Cons.IH [OF this]
    have "fst (delivery_advance d (Provider_Verdict v detail)) = settle (v, detail) d"
      using Cons.prems by (simp add: advance_verdict settle_def)
    then have "delivery_run d (e # es) = delivery_run (settle (v, detail) d) es"
      using Provider_Verdict by (simp add: delivery_run_def)
    with IH Provider_Verdict show ?thesis by (auto split: option.splits)
  qed (use Cons in \<open>simp_all add: delivery_run_def advance_simps\<close>)
qed

lemma delivery_run_Cons: "delivery_run d (e # es) = delivery_run (fst (delivery_advance d e)) es"
  by (simp add: delivery_run_def)

lemma delivery_run_snoc: "delivery_run d (es @ [e]) = fst (delivery_advance (delivery_run d es) e)"
  by (simp add: delivery_run_def)

text \<open>
  C7. The delivery machine implements its contract: whatever events reach a freshly
  queued message, and in whatever order, the machine's fold is the contract's answer.
  Only the gateway's own first answer can set the provider reference, a late answer of the
  gateway is inert, and the last verdict always wins and rewrites the failure story.
\<close>

theorem delivery_refines_history: "delivery_run fresh_delivery es = delivery_spec es"
proof (cases es)
  case Nil
  then show ?thesis by (simp add: delivery_run_def delivery_spec_def)
next
  case (Cons e es')
  show ?thesis
  proof (cases e)
    case (Send_Accepted r)
    then have "delivery_run fresh_delivery es =
        delivery_run \<lparr>dlv_status = Sent, dlv_ref = r, dlv_fkind = Failure_None, dlv_fdetail = []\<rparr> es'"
      by (simp add: Cons delivery_run_Cons advance_simps fresh_delivery_def)
    then show ?thesis using Cons Send_Accepted
      by (simp add: delivery_run_moved delivery_spec_def settle_def
          split: option.splits prod.splits verdict.splits)
  next
    case (Send_Refused k detail)
    then have "delivery_run fresh_delivery es =
        delivery_run \<lparr>dlv_status = Failed, dlv_ref = [], dlv_fkind = k, dlv_fdetail = detail\<rparr> es'"
      by (simp add: Cons delivery_run_Cons advance_simps fresh_delivery_def)
    then show ?thesis using Cons Send_Refused
      by (simp add: delivery_run_moved delivery_spec_def settle_def
          split: option.splits prod.splits verdict.splits)
  next
    case (Provider_Verdict v detail)
    then have "delivery_run fresh_delivery es = delivery_run (settle (v, detail) fresh_delivery) es'"
      by (simp add: Cons delivery_run_Cons advance_simps fresh_delivery_def settle_def)
    moreover have "dlv_status (settle (v, detail) fresh_delivery) \<notin> {No_Status, Queued}"
      by (cases v) (simp_all add: settle_def)
    ultimately show ?thesis using Cons Provider_Verdict
      by (cases v) (simp_all add: delivery_run_moved delivery_spec_def settle_def fresh_delivery_def
          split: option.splits prod.splits verdict.splits)
  qed
qed

section \<open>The lifecycle as a step relation\<close>

inductive delivery_step :: "delivery \<Rightarrow> delivery_event \<Rightarrow> delivery \<Rightarrow> bool" where
  move: "delivery_advance d e = (d', True) \<Longrightarrow> delivery_step d e d'"

inductive delivery_reaches :: "delivery \<Rightarrow> delivery \<Rightarrow> bool" where
  here: "delivery_reaches d d"
| further: "delivery_reaches d d' \<Longrightarrow> delivery_step d' e d'' \<Longrightarrow> delivery_reaches d d''"

inductive_simps delivery_step_iff: "delivery_step d e d'"

text \<open>The failure story is told on failed rows only.\<close>

definition delivery_wf :: "delivery \<Rightarrow> bool" where
  "delivery_wf d \<longleftrightarrow>
     dlv_status d \<noteq> No_Status \<and>
     (dlv_status d \<noteq> Failed \<longrightarrow> dlv_fkind d = Failure_None \<and> dlv_fdetail d = [])"

lemma delivery_step_wf:
  assumes "delivery_step d e d'" and "delivery_wf d"
  shows "delivery_wf d' \<and> dlv_status d' \<noteq> Queued"
proof (cases e)
  case (Provider_Verdict v detail)
  with assms show ?thesis
    by (cases v) (auto simp: delivery_step_iff delivery_wf_def advance_simps)
qed (use assms in \<open>auto simp: delivery_step_iff delivery_wf_def advance_simps split: if_splits\<close>)

text \<open>
  Lifecycle invariant of the messages: no reachable delivery state falls back to the
  inbound status or, once moved, to queued; a failure kind or detail is present on failed
  rows only, so a row that shows delivered or sent never offers a retry.
\<close>

theorem delivery_reachable:
  assumes "delivery_reaches fresh_delivery d"
  shows "delivery_wf d \<and> (d = fresh_delivery \<or> dlv_status d \<noteq> Queued) \<and>
    (is_retryable (dlv_fkind d) \<longrightarrow> dlv_status d = Failed)"
proof -
  from assms have "delivery_wf d \<and> (d = fresh_delivery \<or> dlv_status d \<noteq> Queued)"
  proof (induction fresh_delivery d rule: delivery_reaches.induct)
    case here
    then show ?case by (simp add: delivery_wf_def fresh_delivery_def)
  next
    case (further d' e d'')
    then show ?case using delivery_step_wf by blast
  qed
  then show ?thesis by (auto simp: delivery_wf_def is_retryable_def)
qed

theorem delivery_reachable_witness:
  "delivery_wf \<lparr>dlv_status = Sent, dlv_ref = ''pm-1'', dlv_fkind = Failure_None, dlv_fdetail = []\<rparr>"
proof -
  have "delivery_step fresh_delivery (Send_Accepted ''pm-1'')
      \<lparr>dlv_status = Sent, dlv_ref = ''pm-1'', dlv_fkind = Failure_None, dlv_fdetail = []\<rparr>"
    by (simp add: delivery_step_iff advance_simps fresh_delivery_def)
  then have "delivery_reaches fresh_delivery
      \<lparr>dlv_status = Sent, dlv_ref = ''pm-1'', dlv_fkind = Failure_None, dlv_fdetail = []\<rparr>"
    using delivery_reaches.intros by blast
  then show ?thesis using delivery_reachable by blast
qed

end
