(* ===== verification/Store_Rows.thy ===== *)
theory Store_Rows
  imports Delivery "HOL-Library.List_Lexorder"
begin

text \<open>
  The message tables of the SQLite store (\<^verbatim>\<open>internal/store/db.go\<close>, schema version 5): the
  rows with the texts and whole seconds their columns hold, the constraints the schema
  declares, the scan functions that rebuild domain values with the Must parsers, and the
  invariant of a store. A table is the list of its rows in rowid order. A statement may
  fail for a reason outside the model (disk, lock, context): every operation takes the
  \<open>faults\<close> of its run, which tell for an error code and a row key whether that statement
  fails, so each error branch of the code is a branch here.
\<close>

type_synonym faults = "string \<Rightarrow> string \<Rightarrow> bool"

definition no_faults :: faults where
  "no_faults code key = False"

lemma no_faults_simp: "\<not> no_faults code key"
  by (simp add: no_faults_def)

record thread_row =
  tr_id :: string
  tr_owner :: string
  tr_network :: string
  tr_remote :: string
  tr_last :: int
  tr_unread :: int
  tr_pinned :: int
  tr_archived :: int
  tr_muted :: int

record message_row =
  mr_id :: string
  mr_thread :: string
  mr_owner :: string
  mr_network :: string
  mr_remote :: string
  mr_direction :: string
  mr_channel :: string
  mr_body :: string
  mr_status :: string
  mr_ref :: string
  mr_fkind :: string
  mr_fdetail :: string
  mr_created :: int

record store =
  st_threads :: "thread_row list"
  st_messages :: "message_row list"
  st_attachments :: "attachment list"

definition empty_store :: store where
  "empty_store = \<lparr>st_threads = [], st_messages = [], st_attachments = []\<rparr>"

definition bool_int :: "bool \<Rightarrow> int" where
  "bool_int on = (if on then 1 else 0)"

section \<open>Constraints of the schema\<close>

definition thread_key :: "thread_row \<Rightarrow> string \<times> string \<times> string" where
  "thread_key t = (tr_owner t, tr_network t, tr_remote t)"

definition message_key :: "message_row \<Rightarrow> string \<times> string \<times> string" where
  "message_key m = (mr_owner m, mr_network m, mr_remote m)"

text \<open>Primary key and \<^verbatim>\<open>UNIQUE(owner, network, remote)\<close> of \<^verbatim>\<open>threads\<close>.\<close>

definition thread_insert_ok :: "store \<Rightarrow> thread_row \<Rightarrow> bool" where
  "thread_insert_ok st t \<longleftrightarrow>
     tr_id t \<notin> tr_id ` set (st_threads st) \<and> thread_key t \<notin> thread_key ` set (st_threads st)"

text \<open>
  Primary key, the reference to \<^verbatim>\<open>threads\<close>, and the unique index on provider references
  that are not empty.
\<close>

definition message_insert_ok :: "store \<Rightarrow> message_row \<Rightarrow> bool" where
  "message_insert_ok st m \<longleftrightarrow>
     mr_id m \<notin> mr_id ` set (st_messages st) \<and>
     mr_thread m \<in> tr_id ` set (st_threads st) \<and>
     (mr_ref m \<noteq> [] \<longrightarrow> mr_ref m \<notin> mr_ref ` set (st_messages st))"

definition attachment_insert_ok :: "store \<Rightarrow> attachment \<Rightarrow> bool" where
  "attachment_insert_ok st a \<longleftrightarrow>
     att_id a \<notin> att_id ` set (st_attachments st) \<and>
     att_message a \<in> mr_id ` set (st_messages st)"

section \<open>Scans\<close>

definition address_of :: "string \<Rightarrow> string \<Rightarrow> err + address" where
  "address_of net remote =
     (case must (parse_network net) of
        Inl e \<Rightarrow> Inl e
      | Inr n \<Rightarrow> must_parse_address n remote)"

definition scan_message :: "message_row \<Rightarrow> err + message" where
  "scan_message r =
     (case (must_id (mr_id r), must_id (mr_thread r), must_parse_extension (mr_owner r),
            address_of (mr_network r) (mr_remote r), must (parse_direction (mr_direction r)),
            must (parse_channel (mr_channel r)), must (parse_outbound_status (mr_status r))) of
        (Inr mid, Inr thr, Inr owner, Inr remote, Inr dir, Inr ch, Inr status) \<Rightarrow>
          Inr \<lparr>msg_id = mid, msg_thread = thr, msg_owner = owner, msg_remote = remote,
               msg_direction = dir, msg_channel = ch, msg_body = mr_body r, msg_status = status,
               msg_ref = mr_ref r, msg_fkind = failure_of_string (mr_fkind r),
               msg_fdetail = mr_fdetail r, msg_attachments = [],
               msg_created = time_unix (mr_created r)\<rparr>
      | _ \<Rightarrow> Inl Panic)"

definition thread_fields :: "thread_id \<Rightarrow> thread_row \<Rightarrow> err + thread" where
  "thread_fields tid r =
     (case (must_parse_extension (tr_owner r), address_of (tr_network r) (tr_remote r)) of
        (Inr owner, Inr remote) \<Rightarrow>
          Inr \<lparr>thr_id = tid, thr_owner = owner, thr_remote = remote,
               thr_last = time_unix (tr_last r), thr_unread = tr_unread r,
               thr_pinned = (tr_pinned r = 1), thr_archived = (tr_archived r = 1),
               thr_muted = (tr_muted r = 1)\<rparr>
      | _ \<Rightarrow> Inl Panic)"

definition scan_thread :: "thread_row \<Rightarrow> err + thread" where
  "scan_thread r =
     (case must_id (tr_id r) of Inl e \<Rightarrow> Inl e | Inr tid \<Rightarrow> thread_fields tid r)"

definition scan_attachment :: "attachment \<Rightarrow> err + attachment" where
  "scan_attachment a =
     (case (must_id (att_id a), must_id (att_message a)) of
        (Inr aid, Inr mid) \<Rightarrow> Inr (a\<lparr>att_id := aid, att_message := mid\<rparr>)
      | _ \<Rightarrow> Inl Panic)"

text \<open>\<^verbatim>\<open>listRows\<close>: run the query, scan every row, the first failing scan is the answer.\<close>

fun scan_all :: "('r \<Rightarrow> err + 'a) \<Rightarrow> 'r list \<Rightarrow> err + 'a list" where
  "scan_all scan [] = Inr []"
| "scan_all scan (r # rs) =
     (case scan r of
        Inl e \<Rightarrow> Inl e
      | Inr v \<Rightarrow> (case scan_all scan rs of Inl e \<Rightarrow> Inl e | Inr vs \<Rightarrow> Inr (v # vs)))"

definition list_rows :: "faults \<Rightarrow> string \<Rightarrow> 'r list \<Rightarrow> ('r \<Rightarrow> err + 'a) \<Rightarrow> err + 'a list" where
  "list_rows fl op rs scan =
     (if fl ''store.query'' op then Inl (Coded Infrastructure ''store.query'')
      else scan_all scan rs)"

section \<open>The row of a message\<close>

text \<open>The columns \<^verbatim>\<open>AppendMessage\<close> binds.\<close>

definition message_row_of :: "message \<Rightarrow> thread_id \<Rightarrow> message_row" where
  "message_row_of m thr =
     \<lparr>mr_id = msg_id m, mr_thread = thr, mr_owner = ext_string (msg_owner m),
      mr_network = network_string (addr_network (msg_remote m)),
      mr_remote = addr_value (msg_remote m), mr_direction = direction_string (msg_direction m),
      mr_channel = channel_string (msg_channel m), mr_body = msg_body m,
      mr_status = status_string (msg_status m), mr_ref = msg_ref m,
      mr_fkind = failure_string (msg_fkind m), mr_fdetail = msg_fdetail m,
      mr_created = unix (msg_created m)\<rparr>"

section \<open>Well-formed values and stores\<close>

definition valid_message :: "message \<Rightarrow> bool" where
  "valid_message m \<longleftrightarrow>
     valid_id (msg_id m) \<and> valid_id (msg_thread m) \<and> valid_extension (msg_owner m) \<and>
     canonical_address (msg_remote m) \<and> named_failure (msg_fkind m) \<and>
     (msg_direction m = Inbound \<longleftrightarrow> msg_status m = No_Status) \<and>
     (\<forall>a \<in> set (msg_attachments m). valid_id (att_id a))"

definition valid_thread_row :: "thread_row \<Rightarrow> bool" where
  "valid_thread_row t \<longleftrightarrow>
     valid_id (tr_id t) \<and> valid_extension (Extension (tr_owner t)) \<and>
     (\<exists>a. canonical_address a \<and> tr_network t = network_string (addr_network a) \<and>
        tr_remote t = addr_value a) \<and>
     0 \<le> tr_unread t \<and> tr_pinned t \<in> {0, 1} \<and> tr_archived t \<in> {0, 1} \<and> tr_muted t \<in> {0, 1}"

definition valid_message_row :: "message_row \<Rightarrow> bool" where
  "valid_message_row r \<longleftrightarrow>
     valid_id (mr_id r) \<and> valid_id (mr_thread r) \<and> valid_extension (Extension (mr_owner r)) \<and>
     (\<exists>a. canonical_address a \<and> mr_network r = network_string (addr_network a) \<and>
        mr_remote r = addr_value a) \<and>
     (\<exists>d s. mr_direction r = direction_string d \<and> mr_status r = status_string s \<and>
        (d = Inbound \<longleftrightarrow> s = No_Status)) \<and>
     (\<exists>c. mr_channel r = channel_string c)"

definition store_inv :: "store \<Rightarrow> bool" where
  "store_inv st \<longleftrightarrow>
     distinct (map tr_id (st_threads st)) \<and> distinct (map thread_key (st_threads st)) \<and>
     distinct (map mr_id (st_messages st)) \<and> distinct (map att_id (st_attachments st)) \<and>
     distinct (map mr_ref (filter (\<lambda>m. mr_ref m \<noteq> []) (st_messages st))) \<and>
     (\<forall>t \<in> set (st_threads st). valid_thread_row t) \<and>
     (\<forall>m \<in> set (st_messages st). valid_message_row m \<and>
        (\<exists>t \<in> set (st_threads st). tr_id t = mr_thread m \<and> thread_key t = message_key m)) \<and>
     (\<forall>a \<in> set (st_attachments st). valid_id (att_id a) \<and>
        (\<exists>m \<in> set (st_messages st). mr_id m = att_message a))"

section \<open>Lemmas\<close>

lemma address_of_stored:
  "canonical_address a \<Longrightarrow> address_of (network_string (addr_network a)) (addr_value a) = Inr a"
  by (simp add: address_of_def must_def must_parse_address_def parse_address_stored)

lemma direction_string_inj [simp]: "direction_string c = direction_string d \<longleftrightarrow> c = d"
  by (cases c; cases d) simp_all

lemma status_string_inj [simp]: "status_string c = status_string d \<longleftrightarrow> c = d"
  by (cases c; cases d) simp_all

lemma scan_message_row_of:
  assumes "valid_message m" and "thr = msg_thread m"
  shows "scan_message (message_row_of m thr)
    = Inr (m\<lparr>msg_attachments := [], msg_created := time_unix (unix (msg_created m))\<rparr>)"
  using assms
  by (simp add: scan_message_def message_row_of_def valid_message_def must_id_raw
      must_parse_extension_stored address_of_stored must_def named_failure_def)

lemma valid_row_of:
  assumes "valid_message m" and "valid_id thr"
  shows "valid_message_row (message_row_of m thr)"
proof -
  have "valid_extension (Extension (ext_string (msg_owner m)))"
    using assms by (simp add: valid_message_def)
  moreover have "canonical_address (msg_remote m)" "msg_direction m = Inbound \<longleftrightarrow> msg_status m = No_Status"
    using assms by (simp_all add: valid_message_def)
  ultimately show ?thesis using assms
    unfolding valid_message_row_def message_row_of_def valid_message_def
    by (intro conjI exI [of _ "msg_remote m"] exI [of _ "msg_direction m"]
        exI [of _ "msg_status m"] exI [of _ "msg_channel m"]) simp_all
qed

lemma scan_valid_message_row:
  assumes "valid_message_row r"
  shows "\<exists>m. scan_message r = Inr m \<and> msg_id m = mr_id r \<and> msg_thread m = mr_thread r \<and>
    ext_string (msg_owner m) = mr_owner r \<and> msg_created m = time_unix (mr_created r) \<and>
    msg_attachments m = [] \<and> msg_body m = mr_body r \<and> msg_ref m = mr_ref r"
proof -
  from assms obtain a d s c where *: "canonical_address a" "mr_network r = network_string (addr_network a)"
    "mr_remote r = addr_value a" "mr_direction r = direction_string d" "mr_status r = status_string s"
    "mr_channel r = channel_string c"
    unfolding valid_message_row_def by blast
  with assms show ?thesis
    using must_parse_extension_stored [of "Extension (mr_owner r)"]
    by (simp add: scan_message_def valid_message_row_def must_id_raw address_of_stored must_def)
qed

lemma scan_valid_thread_row:
  assumes "valid_thread_row t"
  shows "\<exists>a. scan_thread t = Inr \<lparr>thr_id = tr_id t, thr_owner = Extension (tr_owner t),
      thr_remote = a, thr_last = time_unix (tr_last t), thr_unread = tr_unread t,
      thr_pinned = (tr_pinned t = 1), thr_archived = (tr_archived t = 1),
      thr_muted = (tr_muted t = 1)\<rparr> \<and> canonical_address a \<and>
      tr_network t = network_string (addr_network a) \<and> tr_remote t = addr_value a"
proof -
  from assms obtain a where "canonical_address a" "tr_network t = network_string (addr_network a)"
    "tr_remote t = addr_value a"
    unfolding valid_thread_row_def by blast
  with assms show ?thesis
    using must_parse_extension_stored [of "Extension (tr_owner t)"]
    by (simp add: scan_thread_def thread_fields_def valid_thread_row_def must_id_raw address_of_stored)
qed

lemma thread_fields_valid: "valid_thread_row t \<Longrightarrow> thread_fields (tr_id t) t = scan_thread t"
  by (simp add: scan_thread_def valid_thread_row_def must_id_raw)

lemma scan_all_length: "scan_all scan rs = Inr vs \<Longrightarrow> length vs = length rs"
  by (induction rs arbitrary: vs) (auto split: sum.splits)

lemma scan_all_map: "(\<And>r. r \<in> set rs \<Longrightarrow> scan r = Inr (f r)) \<Longrightarrow> scan_all scan rs = Inr (map f rs)"
  by (induction rs) auto

lemma scan_all_nth:
  "scan_all scan rs = Inr vs \<Longrightarrow> i < length rs \<Longrightarrow> scan (rs ! i) = Inr (vs ! i)"
proof (induction rs arbitrary: vs i)
  case Nil
  then show ?case by simp
next
  case (Cons r rs)
  then show ?case by (cases i) (auto split: sum.splits)
qed

lemma scan_all_append:
  "scan_all scan rs = Inr vs \<Longrightarrow> scan_all scan ss = Inr ws \<Longrightarrow> scan_all scan (rs @ ss) = Inr (vs @ ws)"
  by (induction rs arbitrary: vs) (auto split: sum.splits)

lemma store_inv_empty [simp]: "store_inv empty_store"
  by (simp add: store_inv_def empty_store_def)

lemma store_inv_thread_unique:
  "store_inv st \<Longrightarrow> t \<in> set (st_threads st) \<Longrightarrow> u \<in> set (st_threads st) \<Longrightarrow> tr_id t = tr_id u \<Longrightarrow> t = u"
  by (meson distinct_key_unique store_inv_def)

lemma store_inv_thread_key_unique:
  "store_inv st \<Longrightarrow> t \<in> set (st_threads st) \<Longrightarrow> u \<in> set (st_threads st) \<Longrightarrow>
     thread_key t = thread_key u \<Longrightarrow> t = u"
  by (meson distinct_key_unique store_inv_def)

lemma store_inv_message_unique:
  "store_inv st \<Longrightarrow> m \<in> set (st_messages st) \<Longrightarrow> n \<in> set (st_messages st) \<Longrightarrow> mr_id m = mr_id n \<Longrightarrow> m = n"
  by (meson distinct_key_unique store_inv_def)

end
