(* ===== verification/Contacts.thy ===== *)
theory Contacts
  imports Engine Store_Rows
begin

text \<open>
  The personal contacts and the reply snippets of \<^verbatim>\<open>internal/readmodels/contacts.go\<close> and
  \<^verbatim>\<open>internal/readmodels/snippets.go\<close>, over an engine. A projection row is a \<open>contact_view\<close> or
  a \<open>snippet_view\<close>; its creation time is in unix nanoseconds, which is how instants are
  represented here, so the conversions of the source are the identity (an instant outside
  the years 1678 to 2262 does not fit the 64 bits of \<^verbatim>\<open>UnixNano\<close> and is not considered).
  The mutex of a store makes each operation one atomic step.
\<close>

section \<open>Contacts\<close>

record contact =
  con_id :: contact_id
  con_owner :: extension
  con_name :: string
  con_phone :: phone
  con_created :: time

type_synonym contact_key = "string \<times> string"

record contact_view =
  cnv_id :: string
  cnv_owner :: string
  cnv_name :: string
  cnv_phone :: string
  cnv_created :: int

definition contacts_max :: nat where "contacts_max = 500"

text \<open>The fold of the \<^verbatim>\<open>ContactSaved\<close> fact.\<close>

definition contact_fold :: "contact_key \<Rightarrow> string \<Rightarrow> string \<Rightarrow> time \<Rightarrow> contact_view" where
  "contact_fold key i name created =
     \<lparr>cnv_id = i, cnv_owner = fst key, cnv_name = name, cnv_phone = snd key, cnv_created = created\<rparr>"

definition contacts_query :: "extension \<Rightarrow> contact_view query" where
  "contacts_query ext =
     \<lparr>q_filter = (\<lambda>v. cnv_owner v = ext_string ext), q_sort = Some cnv_created, q_desc = True,
      q_limit = contacts_max + 1\<rparr>"

definition contact_views ::
  "('s, contact_key, contact_view) engine \<Rightarrow> extension \<Rightarrow> 's \<Rightarrow> err + contact_view list" where
  "contact_views E ext s =
     wrap_read ''readmodels.contact_list'' (eng_scan E (contacts_query ext) s)"

definition contact_room ::
  "('s, contact_key, contact_view) engine \<Rightarrow> extension \<Rightarrow> 's \<Rightarrow> err + unit" where
  "contact_room E ext s =
     (case contact_views E ext s of
        Inl e \<Rightarrow> Inl e
      | Inr vs \<Rightarrow>
          if length vs \<ge> contacts_max then Inl (Coded Rejection ''readmodels.contact_list_full'')
          else Inr ())"

definition contact_put ::
  "('s, contact_key, contact_view) engine \<Rightarrow> contact_key \<Rightarrow> contact \<Rightarrow> 's \<Rightarrow> (err + unit) \<times> 's" where
  "contact_put E key c s =
     wrap_write ''readmodels.contact_save''
       (eng_put E key (contact_fold key (con_id c) (con_name c) (con_created c)) s)"

definition contact_save ::
  "('s, contact_key, contact_view) engine \<Rightarrow> contact \<Rightarrow> 's \<Rightarrow> (err + unit) \<times> 's" where
  "contact_save E c s =
     (let key = (ext_string (con_owner c), phone_string (con_phone c)) in
      case wrap_read ''readmodels.contact_save'' (eng_get E key s) of
        Inl e \<Rightarrow> (Inl e, s)
      | Inr (Some prev) \<Rightarrow>
          (case must_id (cnv_id prev) of
             Inl e \<Rightarrow> (Inl e, s)
           | Inr i \<Rightarrow> contact_put E key (c\<lparr>con_id := i, con_created := cnv_created prev\<rparr>) s)
      | Inr None \<Rightarrow>
          (case contact_room E (con_owner c) s of
             Inl e \<Rightarrow> (Inl e, s)
           | Inr _ \<Rightarrow> contact_put E key c s))"

definition contact_of_view :: "contact_view \<Rightarrow> err + contact" where
  "contact_of_view v =
     (case must_id (cnv_id v) of
        Inl e \<Rightarrow> Inl e
      | Inr i \<Rightarrow>
          (case must_parse_extension (cnv_owner v) of
             Inl e \<Rightarrow> Inl e
           | Inr ext \<Rightarrow>
               (case must_parse_phone (cnv_phone v) of
                  Inl e \<Rightarrow> Inl e
                | Inr p \<Rightarrow>
                    Inr \<lparr>con_id = i, con_owner = ext, con_name = cnv_name v, con_phone = p,
                         con_created = cnv_created v\<rparr>)))"

definition contact_list ::
  "('s, contact_key, contact_view) engine \<Rightarrow> extension \<Rightarrow> 's \<Rightarrow> err + contact list" where
  "contact_list E ext s =
     (case contact_views E ext s of Inl e \<Rightarrow> Inl e | Inr vs \<Rightarrow> scan_all contact_of_view vs)"

definition contact_delete ::
  "('s, contact_key, contact_view) engine \<Rightarrow> extension \<Rightarrow> contact_id \<Rightarrow> 's \<Rightarrow> (err + unit) \<times> 's" where
  "contact_delete E ext i s =
     (case contact_views E ext s of
        Inl e \<Rightarrow> (Inl e, s)
      | Inr vs \<Rightarrow>
          (case find (\<lambda>v. cnv_id v = i) vs of
             None \<Rightarrow> (Inl Not_Found, s)
           | Some v \<Rightarrow>
               wrap_write ''readmodels.contact_delete'' (eng_del E (cnv_owner v, cnv_phone v) s)))"

section \<open>Snippets\<close>

record snippet =
  sni_id :: snippet_id
  sni_owner :: extension
  sni_body :: string
  sni_quick :: bool
  sni_created :: time

record snippet_view =
  snv_id :: string
  snv_owner :: string
  snv_body :: string
  snv_quick :: bool
  snv_created :: int

definition snippets_max :: nat where "snippets_max = 100"

definition snippet_fold :: "snippet \<Rightarrow> snippet_view" where
  "snippet_fold s =
     \<lparr>snv_id = sni_id s, snv_owner = ext_string (sni_owner s), snv_body = sni_body s,
      snv_quick = sni_quick s, snv_created = sni_created s\<rparr>"

definition snippets_query :: "extension \<Rightarrow> snippet_view query" where
  "snippets_query ext =
     \<lparr>q_filter = (\<lambda>v. snv_owner v = ext_string ext), q_sort = Some snv_created, q_desc = False,
      q_limit = snippets_max + 1\<rparr>"

definition snippet_views ::
  "('s, string, snippet_view) engine \<Rightarrow> extension \<Rightarrow> 's \<Rightarrow> err + snippet_view list" where
  "snippet_views E ext s =
     wrap_read ''readmodels.snippet_list'' (eng_scan E (snippets_query ext) s)"

definition snippet_room ::
  "('s, string, snippet_view) engine \<Rightarrow> extension \<Rightarrow> 's \<Rightarrow> err + unit" where
  "snippet_room E ext s =
     (case snippet_views E ext s of
        Inl e \<Rightarrow> Inl e
      | Inr vs \<Rightarrow>
          if length vs \<ge> snippets_max then Inl (Coded Rejection ''readmodels.snippet_list_full'')
          else Inr ())"

definition snippet_put ::
  "('s, string, snippet_view) engine \<Rightarrow> snippet \<Rightarrow> 's \<Rightarrow> (err + unit) \<times> 's" where
  "snippet_put E sn s =
     wrap_write ''readmodels.snippet_save'' (eng_put E (sni_id sn) (snippet_fold sn) s)"

definition snippet_save ::
  "('s, string, snippet_view) engine \<Rightarrow> snippet \<Rightarrow> 's \<Rightarrow> (err + unit) \<times> 's" where
  "snippet_save E sn s =
     (case wrap_read ''readmodels.snippet_save'' (eng_get E (sni_id sn) s) of
        Inl e \<Rightarrow> (Inl e, s)
      | Inr (Some prev) \<Rightarrow> snippet_put E (sn\<lparr>sni_created := snv_created prev\<rparr>) s
      | Inr None \<Rightarrow>
          (case snippet_room E (sni_owner sn) s of
             Inl e \<Rightarrow> (Inl e, s)
           | Inr _ \<Rightarrow> snippet_put E sn s))"

definition snippet_of_view :: "snippet_view \<Rightarrow> err + snippet" where
  "snippet_of_view v =
     (case must_id (snv_id v) of
        Inl e \<Rightarrow> Inl e
      | Inr i \<Rightarrow>
          (case must_parse_extension (snv_owner v) of
             Inl e \<Rightarrow> Inl e
           | Inr ext \<Rightarrow>
               Inr \<lparr>sni_id = i, sni_owner = ext, sni_body = snv_body v, sni_quick = snv_quick v,
                    sni_created = snv_created v\<rparr>))"

definition snippet_list ::
  "('s, string, snippet_view) engine \<Rightarrow> extension \<Rightarrow> 's \<Rightarrow> err + snippet list" where
  "snippet_list E ext s =
     (case snippet_views E ext s of Inl e \<Rightarrow> Inl e | Inr vs \<Rightarrow> scan_all snippet_of_view vs)"

definition snippet_delete ::
  "('s, string, snippet_view) engine \<Rightarrow> extension \<Rightarrow> snippet_id \<Rightarrow> 's \<Rightarrow> (err + unit) \<times> 's" where
  "snippet_delete E ext i s =
     (case wrap_read ''readmodels.snippet_delete'' (eng_get E i s) of
        Inl e \<Rightarrow> (Inl e, s)
      | Inr prev \<Rightarrow>
          if (case prev of None \<Rightarrow> True | Some v \<Rightarrow> snv_owner v \<noteq> ext_string ext)
          then (Inl Not_Found, s)
          else wrap_write ''readmodels.snippet_delete'' (eng_del E i s))"

section \<open>The caps of contacts\<close>

text \<open>A sound row sits at the key of its own owner and phone and can be rendered.\<close>

definition contact_row_ok :: "contact_key \<Rightarrow> contact_view \<Rightarrow> bool" where
  "contact_row_ok k v \<longleftrightarrow>
     k = (cnv_owner v, cnv_phone v) \<and> valid_id (cnv_id v) \<and>
     valid_dialable (cnv_owner v) \<and> valid_dialable (cnv_phone v)"

definition valid_contact :: "contact \<Rightarrow> bool" where
  "valid_contact c \<longleftrightarrow>
     valid_id (con_id c) \<and> valid_extension (con_owner c) \<and> valid_dialable (phone_string (con_phone c))"

inductive contact_step ::
  "('s, contact_key, contact_view) engine \<Rightarrow> ('s \<Rightarrow> contact_key \<Rightarrow> contact_view option) \<Rightarrow> 's \<Rightarrow> 's \<Rightarrow> bool"
  for E view where
  save: "engine_laws E view \<Longrightarrow> valid_contact c \<Longrightarrow> contact_save E c s = (r, s') \<Longrightarrow>
     contact_step E view s s'"
| delete: "engine_laws E view \<Longrightarrow> contact_delete E ext i s = (r, s') \<Longrightarrow> contact_step E view s s'"

definition contact_slot :: "contact \<Rightarrow> contact_view option \<Rightarrow> contact_view" where
  "contact_slot c old =
     (let key = (ext_string (con_owner c), phone_string (con_phone c)) in
      case old of
        None \<Rightarrow> contact_fold key (con_id c) (con_name c) (con_created c)
      | Some prev \<Rightarrow> contact_fold key (cnv_id prev) (con_name c) (cnv_created prev))"

lemma contact_room_iff:
  assumes "engine_laws E view" "contact_views E ext s = Inr vs"
  shows "contact_room E ext s = (if contacts_max \<le> card (held cnv_owner (view s) (ext_string ext))
    then Inl (Coded Rejection ''readmodels.contact_list_full'') else Inr ())"
proof -
  have "eng_scan E (contacts_query ext) s = Inr vs"
    using assms(2) by (simp add: contact_views_def)
  from full_scan [OF assms(1) this, of cnv_owner "ext_string ext" contacts_max] assms(2)
  show ?thesis by (simp add: contact_room_def contacts_query_def)
qed

text \<open>Every branch of \<^verbatim>\<open>Save\<close>, as its effect on the collection.\<close>

lemma contact_put_slot:
  assumes "engine_laws E view" "contact_put E key c' s = (r, s')"
    and "contact_fold key (con_id c') (con_name c') (con_created c') = contact_slot c old"
  shows "view s' = (view s)(key \<mapsto> contact_slot c old) \<or> (\<exists>e. r = Inl e) \<and> view s' = view s"
  using put_wrapped [OF assms(1) assms(2) [unfolded contact_put_def]] assms(3) by auto

lemma contact_save_cases:
  assumes laws: "engine_laws E view" and good: "rows_ok contact_row_ok (view s)"
    and run: "contact_save E c s = (r, s')"
    and key: "key = (ext_string (con_owner c), phone_string (con_phone c))"
  shows "(\<exists>e. r = Inl e) \<and> view s' = view s \<or>
    view s' = (view s)(key \<mapsto> contact_slot c (view s key)) \<and>
    (view s key = None \<longrightarrow> card (held cnv_owner (view s) (fst key)) < contacts_max)"
proof (cases "eng_get E key s")
  case (Inl e)
  then show ?thesis using run key by (auto simp: contact_save_def wrap_read_def Let_def)
next
  case (Inr old)
  note old = engine_get [OF laws Inr, symmetric]
  have step: "contact_save E c s = (case old of
        Some prev \<Rightarrow>
          (case must_id (cnv_id prev) of
             Inl e \<Rightarrow> (Inl e, s)
           | Inr i \<Rightarrow> contact_put E key (c\<lparr>con_id := i, con_created := cnv_created prev\<rparr>) s)
      | None \<Rightarrow>
          (case contact_room E (con_owner c) s of
             Inl e \<Rightarrow> (Inl e, s) | Inr _ \<Rightarrow> contact_put E key c s))"
    using Inr key by (auto simp: contact_save_def wrap_read_def Let_def split: option.split)
  show ?thesis
  proof (cases old)
    case None
    show ?thesis
    proof (cases "contact_room E (con_owner c) s")
      case Inl
      with run step None show ?thesis by (auto split: sum.splits)
    next
      case room: (Inr u)
      then obtain vs where "contact_views E (con_owner c) s = Inr vs"
        by (auto simp: contact_room_def split: sum.splits)
      from contact_room_iff [OF laws this] room
      have "card (held cnv_owner (view s) (fst key)) < contacts_max"
        using key by (auto split: if_splits)
      moreover have put: "contact_put E key c s = (r, s')" using run step None room by simp
      ultimately show ?thesis
        using contact_put_slot [OF laws put, of c None] old None key by (auto simp: contact_slot_def)
    qed
  next
    case (Some prev)
    then have "valid_id (cnv_id prev)" using rows_okD [OF good] old by (auto simp: contact_row_ok_def)
    then have put: "contact_put E key (c\<lparr>con_id := cnv_id prev, con_created := cnv_created prev\<rparr>) s = (r, s')"
      using run step Some by (simp add: must_id_raw)
    then show ?thesis
      using contact_put_slot [OF laws put, of c "Some prev"] old Some key by (auto simp: contact_slot_def)
  qed
qed

lemma contact_save_full:
  assumes laws: "engine_laws E view" and good: "rows_ok contact_row_ok (view s)"
    and run: "contact_save E c s = (r, s')"
    and key: "key = (ext_string (con_owner c), phone_string (con_phone c))"
    and full: "r = Inl (Coded Rejection ''readmodels.contact_list_full'')"
  shows "view s' = view s \<and> view s key = None \<and> 500 \<le> card (held cnv_owner (view s) (fst key))"
proof -
  obtain old where get: "eng_get E key s = Inr old"
    using run key full by (cases "eng_get E key s") (auto simp: contact_save_def Let_def)
  note old = engine_get [OF laws get]
  show ?thesis
  proof (cases old)
    case (Some prev)
    then have "valid_id (cnv_id prev)" using rows_okD [OF good] old by (auto simp: contact_row_ok_def)
    then show ?thesis
      using run key get Some full
      by (auto simp: contact_save_def contact_put_def must_id_raw Let_def split: sum.splits)
  next
    case None
    have room: "contact_room E (con_owner c) s = r \<and> s' = s"
      using run key get None full
      by (auto simp: contact_save_def contact_put_def Let_def split: sum.splits)
    then obtain vs where "contact_views E (con_owner c) s = Inr vs"
      using full by (auto simp: contact_room_def contact_views_def split: sum.splits)
    from contact_room_iff [OF laws this] room full
    have "contacts_max \<le> card (held cnv_owner (view s) (fst key))"
      using key by (auto split: if_splits)
    with room old None show ?thesis by (simp add: contacts_max_def)
  qed
qed

lemma contact_delete_cases:
  assumes laws: "engine_laws E view" and run: "contact_delete E ext i s = (r, s')"
  shows "view s' = view s \<or> (\<exists>k. view s' = (view s)(k := None))"
  using run del_wrapped [OF laws, of "''readmodels.contact_delete''" _ s r s']
  by (fastforce simp: contact_delete_def split: sum.splits option.splits)

lemma contact_slot_owner:
  "cnv_owner (contact_slot c old) = ext_string (con_owner c)"
  "cnv_phone (contact_slot c old) = phone_string (con_phone c)"
  by (simp_all add: contact_slot_def contact_fold_def Let_def split: option.split)

lemma contact_slot_ok:
  assumes "valid_contact c" "rows_ok contact_row_ok m"
    and "key = (ext_string (con_owner c), phone_string (con_phone c))"
  shows "contact_row_ok key (contact_slot c (m key))"
proof -
  have "valid_id (cnv_id (contact_slot c (m key)))"
    using assms(1) rows_okD [OF assms(2), of key]
    by (auto simp: contact_slot_def contact_fold_def valid_contact_def contact_row_ok_def Let_def split: option.split)
  then show ?thesis
    using assms(1,3) by (simp add: contact_row_ok_def contact_slot_owner valid_contact_def valid_extension_def)
qed

lemma contact_step_good:
  assumes "contact_step E view s s'" "rows_ok contact_row_ok (view s)"
  shows "rows_ok contact_row_ok (view s')"
  using assms(1)
proof cases
  case (save c r)
  from contact_save_cases [OF save(1) assms(2) save(3) refl]
  show ?thesis
    using assms(2) contact_slot_ok [OF save(2) assms(2) refl] by (auto intro: rows_ok_put)
next
  case (delete ext i r)
  from contact_delete_cases [OF delete]
  show ?thesis using assms(2) by (auto intro: rows_ok_drop)
qed

lemma contact_step_moves:
  assumes "contact_step E view s s'" "rows_ok contact_row_ok (view s)"
  shows "slot_move cnv_owner contacts_max (view s) (view s')"
  using assms(1)
proof cases
  case (save c r)
  let ?k = "(ext_string (con_owner c), phone_string (con_phone c))"
  have own: "view s ?k = Some old \<Longrightarrow> cnv_owner old = ext_string (con_owner c)" for old
    using rows_okD [OF assms(2), of ?k] by (simp add: contact_row_ok_def)
  from contact_save_cases [OF save(1) assms(2) save(3) refl]
  show ?thesis
  proof
    assume "(\<exists>e. r = Inl e) \<and> view s' = view s"
    then show ?thesis by (simp add: slot_move.stay)
  next
    assume new: "view s' = (view s)(?k \<mapsto> contact_slot c (view s ?k)) \<and>
      (view s ?k = None \<longrightarrow> card (held cnv_owner (view s) (fst ?k)) < contacts_max)"
    show ?thesis
    proof (cases "view s ?k")
      case None
      with new slot_move.claim [of "view s" ?k cnv_owner "contact_slot c None" contacts_max]
      show ?thesis by (simp add: contact_slot_owner)
    next
      case (Some prev)
      with new own slot_move.rewrite [of "view s" ?k prev cnv_owner "contact_slot c (Some prev)" contacts_max]
      show ?thesis by (simp add: contact_slot_owner)
    qed
  qed
next
  case (delete ext i r)
  then show ?thesis using contact_delete_cases [OF delete] by (auto intro: slot_move.intros)
qed

interpretation contacts: capped_slots cnv_owner contacts_max view "rows_ok contact_row_ok" "contact_step E view"
  for E view
  by unfold_locales (auto intro: contact_step_moves contact_step_good)

section \<open>The contact book\<close>

text \<open>The contact a sound row renders to.\<close>

definition contact_shown :: "contact_view \<Rightarrow> contact" where
  "contact_shown v =
     \<lparr>con_id = cnv_id v, con_owner = Extension (cnv_owner v), con_name = cnv_name v,
      con_phone = Phone (cnv_phone v), con_created = cnv_created v\<rparr>"

lemma contact_of_view_ok: "contact_row_ok k v \<Longrightarrow> contact_of_view v = Inr (contact_shown v)"
proof -
  assume ok: "contact_row_ok k v"
  have "must_parse_extension (cnv_owner v) = Inr (Extension (cnv_owner v))"
    using ok by (intro must_parse_extension_stored [of "Extension (cnv_owner v)", simplified])
      (simp add: contact_row_ok_def valid_extension_def)
  moreover have "must_parse_phone (cnv_phone v) = Inr (Phone (cnv_phone v))"
    using ok by (simp add: must_parse_phone_def parse_phone_ok contact_row_ok_def valid_dialable_def sanitize_clean)
  ultimately show ?thesis
    using ok by (simp add: contact_of_view_def must_id_raw contact_shown_def contact_row_ok_def)
qed

lemma contact_list_views:
  assumes "engine_laws E view" "rows_ok contact_row_ok (view s)" "eng_scan E (contacts_query ext) s = Inr vs"
  shows "contact_list E ext s = Inr (map contact_shown vs)"
proof -
  have "contact_of_view v = Inr (contact_shown v)" if "v \<in> set vs" for v
    using answers_sound [OF engine_scan [OF assms(1,3)] that] rows_okD [OF assms(2)] contact_of_view_ok
    by blast
  then have "scan_all contact_of_view vs = Inr (map contact_shown vs)" by (rule scan_all_map)
  moreover have "contact_views E ext s = Inr vs" using assms(3) by (simp add: contact_views_def)
  ultimately show ?thesis by (simp add: contact_list_def)
qed

text \<open>
  The contact book keeps its promises in every run of saves and deletes from an empty
  collection, whatever engine calls fail: no extension ever holds more than 500 contacts
  and every row is sound. A list that succeeds then shows exactly the extension's rows,
  newest first, and no stored value makes it panic.
\<close>

theorem contacts_book:
  assumes "engine_laws E view" "(contact_step E view)\<^sup>*\<^sup>* s0 s" "view s0 = Map.empty"
  shows "within_cap cnv_owner 500 (view s) \<and> contact_list E ext s \<noteq> Inl Panic \<and>
    (\<forall>cs. contact_list E ext s = Inr cs \<longrightarrow>
       length cs = card (held cnv_owner (view s) (ext_string ext)) \<and>
       set cs = {contact_shown v | v p. view s (ext_string ext, p) = Some v} \<and>
       sorted_wrt (\<lambda>a b. con_created b \<le> con_created a) cs)"
proof -
  have "within_cap cnv_owner contacts_max (view s0)" using assms(3)
    by (simp add: within_cap_def held_def matching_def)
  with contacts.run_capped [OF assms(2)] assms(3)
  have ok: "rows_ok contact_row_ok (view s)" and cap: "within_cap cnv_owner contacts_max (view s)"
    by simp_all
  have own: "view s k = Some v \<Longrightarrow> k = (cnv_owner v, cnv_phone v)" for k v
    using rows_okD [OF ok] by (auto simp: contact_row_ok_def)
  have listed: "length cs = card (held cnv_owner (view s) (ext_string ext)) \<and>
       set cs = {contact_shown v | v p. view s (ext_string ext, p) = Some v} \<and>
       sorted_wrt (\<lambda>a b. con_created b \<le> con_created a) cs" if run: "contact_list E ext s = Inr cs" for cs
  proof -
    obtain vs where vs: "eng_scan E (contacts_query ext) s = Inr vs"
      using run by (auto simp: contact_list_def contact_views_def split: sum.splits)
    note ans = engine_scan [OF assms(1) vs]
    have cs: "cs = map contact_shown vs" using contact_list_views [OF assms(1) ok vs] run by simp
    have few: "card (matching (q_filter (contacts_query ext)) (view s)) \<le> contacts_max"
      using cap by (auto simp: within_cap_def held_def contacts_query_def)
    have "set vs = {v. \<exists>p. view s (ext_string ext, p) = Some v}"
      using answers_all [OF ans] few own by (auto simp: contacts_query_def)
    moreover have "length vs = card (held cnv_owner (view s) (ext_string ext))"
      using answers_length [OF ans] few by (simp add: held_def contacts_query_def)
    moreover have "sorted_wrt (\<lambda>a b. cnv_created b \<le> cnv_created a) vs"
      using answers_newest [OF ans] by (simp add: contacts_query_def)
    ultimately show ?thesis
      unfolding cs by (auto simp: sorted_wrt_map contact_shown_def)
  qed
  have "contact_list E ext s \<noteq> Inl Panic"
    using contact_list_views [OF assms(1) ok, of ext]
    by (cases "eng_scan E (contacts_query ext) s") (simp_all add: contact_list_def contact_views_def wrap_read_def)
  with listed cap show ?thesis by (simp add: contacts_max_def)
qed

text \<open>
  What one save does: a save that succeeds on a known number renames the slot and keeps
  its identity and age, on a new number it adds the contact; the refusal for a full list
  happens for a new number at the cap only and changes nothing; no save touches another
  slot.
\<close>

theorem contact_save_effect:
  assumes "engine_laws E view" "rows_ok contact_row_ok (view s)" "contact_save E c s = (r, s')"
    and "key = (ext_string (con_owner c), phone_string (con_phone c))"
  shows "(r = Inr () \<longrightarrow> view s' key =
      Some \<lparr>cnv_id = (case view s key of None \<Rightarrow> con_id c | Some old \<Rightarrow> cnv_id old),
            cnv_owner = fst key, cnv_name = con_name c, cnv_phone = snd key,
            cnv_created = (case view s key of None \<Rightarrow> con_created c | Some old \<Rightarrow> cnv_created old)\<rparr>) \<and>
    (r = Inl (Coded Rejection ''readmodels.contact_list_full'') \<longrightarrow>
       view s' = view s \<and> view s key = None \<and> 500 \<le> card (held cnv_owner (view s) (fst key))) \<and>
    (\<forall>k. k \<noteq> key \<longrightarrow> view s' k = view s k)"
proof (intro conjI)
  note effect = contact_save_cases [OF assms]
  show "\<forall>k. k \<noteq> key \<longrightarrow> view s' k = view s k" using effect by auto
  show "r = Inr () \<longrightarrow> view s' key =
      Some \<lparr>cnv_id = (case view s key of None \<Rightarrow> con_id c | Some old \<Rightarrow> cnv_id old),
            cnv_owner = fst key, cnv_name = con_name c, cnv_phone = snd key,
            cnv_created = (case view s key of None \<Rightarrow> con_created c | Some old \<Rightarrow> cnv_created old)\<rparr>"
    using effect assms(4)
    by (auto simp: contact_slot_def contact_fold_def Let_def split: option.split)
  show "r = Inl (Coded Rejection ''readmodels.contact_list_full'') \<longrightarrow>
       view s' = view s \<and> view s key = None \<and> 500 \<le> card (held cnv_owner (view s) (fst key))"
    using contact_save_full [OF assms] by blast
qed

section \<open>Snippets\<close>

text \<open>
  A snippet slot is keyed by its id alone. Its cap is a promise for runs in which a save of
  a known id comes from the owner of that slot; the save handler mints a fresh id for every
  save, so its runs are of this kind.
\<close>

inductive snippet_step ::
  "('s, string, snippet_view) engine \<Rightarrow> ('s \<Rightarrow> string \<Rightarrow> snippet_view option) \<Rightarrow> 's \<Rightarrow> 's \<Rightarrow> bool"
  for E view where
  save: "engine_laws E view \<Longrightarrow>
     view s (sni_id sn) = None \<or> (\<exists>old. view s (sni_id sn) = Some old \<and> snv_owner old = ext_string (sni_owner sn)) \<Longrightarrow>
     snippet_save E sn s = (r, s') \<Longrightarrow> snippet_step E view s s'"
| delete: "engine_laws E view \<Longrightarrow> snippet_delete E ext i s = (r, s') \<Longrightarrow> snippet_step E view s s'"

definition snippet_slot :: "snippet \<Rightarrow> snippet_view option \<Rightarrow> snippet_view" where
  "snippet_slot sn old =
     snippet_fold (case old of None \<Rightarrow> sn | Some prev \<Rightarrow> sn\<lparr>sni_created := snv_created prev\<rparr>)"

lemma snippet_slot_owner [simp]: "snv_owner (snippet_slot sn old) = ext_string (sni_owner sn)"
  by (simp add: snippet_slot_def snippet_fold_def split: option.split)

lemma snippet_room_iff:
  assumes "engine_laws E view" "snippet_room E ext s = Inr u"
  shows "card (held snv_owner (view s) (ext_string ext)) < snippets_max"
proof -
  obtain vs where "eng_scan E (snippets_query ext) s = Inr vs" "length vs < snippets_max"
    using assms(2) by (auto simp: snippet_room_def snippet_views_def split: sum.splits if_splits)
  with full_scan [OF assms(1) this(1), of snv_owner "ext_string ext" snippets_max]
  show ?thesis by (simp add: snippets_query_def)
qed

lemma snippet_save_cases:
  assumes laws: "engine_laws E view" and run: "snippet_save E sn s = (r, s')"
  shows "(\<exists>e. r = Inl e) \<and> view s' = view s \<or>
    view s' = (view s)(sni_id sn \<mapsto> snippet_slot sn (view s (sni_id sn))) \<and>
    (view s (sni_id sn) = None \<longrightarrow> card (held snv_owner (view s) (ext_string (sni_owner sn))) < snippets_max)"
proof (cases "eng_get E (sni_id sn) s")
  case (Inl e)
  then show ?thesis using run by (auto simp: snippet_save_def wrap_read_def)
next
  case (Inr old)
  note old = engine_get [OF laws Inr]
  note put = put_wrapped [OF laws, of "''readmodels.snippet_save''" "sni_id sn" _ s r s']
  show ?thesis
  proof (cases old)
    case None
    show ?thesis
    proof (cases "snippet_room E (sni_owner sn) s")
      case (Inl e)
      then have "snippet_save E sn s = (Inl e, s)" using Inr None by (simp add: snippet_save_def)
      then show ?thesis using run by auto
    next
      case room: (Inr u)
      then have "snippet_put E sn s = (r, s')" using run Inr None by (simp add: snippet_save_def)
      then show ?thesis
        using put [of "snippet_fold sn"] old None snippet_room_iff [OF laws room]
        by (auto simp: snippet_put_def snippet_slot_def)
    qed
  next
    case (Some prev)
    then show ?thesis
      using run Inr old put [of "snippet_fold (sn\<lparr>sni_created := snv_created prev\<rparr>)"]
      by (auto simp: snippet_save_def snippet_put_def wrap_read_def snippet_slot_def)
  qed
qed

lemma snippet_step_moves:
  assumes "snippet_step E view s s'"
  shows "slot_move snv_owner snippets_max (view s) (view s')"
  using assms
proof cases
  case (save sn r)
  let ?v = "snippet_slot sn (view s (sni_id sn))"
  from snippet_save_cases [OF save(1,3)] save(2) show ?thesis
    using slot_move.stay slot_move.claim [of "view s" "sni_id sn" snv_owner ?v snippets_max]
      slot_move.rewrite [of "view s" "sni_id sn" _ snv_owner ?v snippets_max]
    by auto
next
  case (delete ext i r)
  then have "view s' = view s \<or> view s' = (view s)(i := None)"
    using del_wrapped [OF delete(1), of "''readmodels.snippet_delete''" i s r s']
    by (auto simp: snippet_delete_def split: sum.splits if_splits)
  then show ?thesis by (auto intro: slot_move.intros)
qed

interpretation snippets: capped_slots snv_owner snippets_max view "\<lambda>_. True" "snippet_step E view"
  for E view
  by unfold_locales (auto intro: snippet_step_moves)

text \<open>
  No extension ever holds more than 100 snippets while known ids are saved by their
  owner only; and that proviso is needed: a successful save of an id that another extension
  holds hands the slot over without looking at any cap, keeping its creation time.
\<close>

theorem snippets_capped:
  assumes "engine_laws E view" "(snippet_step E view)\<^sup>*\<^sup>* s0 s" "view s0 = Map.empty"
    and "view s (sni_id sn) = Some old" "snippet_save E sn s = (Inr (), s')"
  shows "within_cap snv_owner 100 (view s) \<and>
    view s' (sni_id sn) = Some \<lparr>snv_id = sni_id sn, snv_owner = ext_string (sni_owner sn),
      snv_body = sni_body sn, snv_quick = sni_quick sn, snv_created = snv_created old\<rparr>"
proof -
  have "within_cap snv_owner snippets_max (view s)"
    using snippets.run_capped [OF assms(2)] assms(3) by (simp add: within_cap_def held_def matching_def)
  then show ?thesis
    using snippet_save_cases [OF assms(1,5)] assms(4)
    by (auto simp: snippets_max_def snippet_slot_def snippet_fold_def)
qed

section \<open>Instances\<close>

definition sample_contact :: contact where
  "sample_contact =
     \<lparr>con_id = ''contac-00000000000001'', con_owner = Extension ''1001'', con_name = ''Ada'',
      con_phone = Phone ''+4930123'', con_created = 5\<rparr>"

lemma sample_contact_valid: "valid_contact sample_contact"
  by (simp add: valid_contact_def sample_contact_def valid_id_def valid_extension_def valid_dialable_def
      dialable_char_def is_digit_char_def is_letter_char_def Let_def)

lemma sample_contact_save:
  "contact_save mem_engine sample_contact [] =
     (Inr (), [((''1001'', ''+4930123''), contact_slot sample_contact None)])"
  by (simp add: contact_save_def sample_contact_def mem_engine_def wrap_read_def contact_room_def
      contact_views_def contact_put_def query_run_def query_order_def contacts_query_def contact_slot_def
      contacts_max_def Let_def)

theorem contacts_book_witness:
  "contact_list mem_engine (Extension ''1001'') (snd (contact_save mem_engine sample_contact [])) \<noteq> Inl Panic"
proof -
  have "(contact_step mem_engine map_of)\<^sup>*\<^sup>* [] (snd (contact_save mem_engine sample_contact []))"
    by (rule r_into_rtranclp, rule contact_step.save [OF mem_engine_laws sample_contact_valid, of _ "Inr ()"])
      (simp add: sample_contact_save)
  from contacts_book [OF mem_engine_laws this, of "Extension ''1001''"] show ?thesis by simp
qed

theorem contact_save_effect_witness:
  "map_of (snd (contact_save mem_engine sample_contact [])) (''1001'', ''+4930123'') =
     Some \<lparr>cnv_id = ''contac-00000000000001'', cnv_owner = ''1001'', cnv_name = ''Ada'',
           cnv_phone = ''+4930123'', cnv_created = 5\<rparr>"
proof -
  let ?s = "snd (contact_save mem_engine sample_contact [])"
  have "contact_save mem_engine sample_contact [] = (Inr (), ?s)" by (simp add: sample_contact_save)
  from contact_save_effect [OF mem_engine_laws _ this refl] show ?thesis
    by (simp add: sample_contact_def)
qed

definition sample_snippet :: "string \<Rightarrow> snippet" where
  "sample_snippet ext =
     \<lparr>sni_id = ''snippe-00000000000001'', sni_owner = Extension ext, sni_body = ''on my way'',
      sni_quick = True, sni_created = 5\<rparr>"

theorem snippets_capped_witness:
  "snv_owner (the (map_of (snd (snippet_save mem_engine (sample_snippet ''2002'')
      (snd (snippet_save mem_engine (sample_snippet ''1001'') [])))) ''snippe-00000000000001'')) = ''2002''"
proof -
  let ?s1 = "snd (snippet_save mem_engine (sample_snippet ''1001'') [])"
  note defs = snippet_save_def mem_engine_def wrap_read_def wrap_write_def snippet_room_def snippet_views_def
    snippet_put_def query_run_def query_order_def snippets_query_def snippets_max_def sample_snippet_def
  have s1: "snippet_save mem_engine (sample_snippet ''1001'') [] = (Inr (), ?s1)"
    by (simp add: defs)
  have run: "(snippet_step mem_engine map_of)\<^sup>*\<^sup>* [] ?s1"
    by (rule r_into_rtranclp, rule snippet_step.save [OF mem_engine_laws _ s1]) simp
  have held: "map_of ?s1 (sni_id (sample_snippet ''2002'')) = Some (snippet_fold (sample_snippet ''1001''))"
    by (simp add: defs)
  have "snippet_save mem_engine (sample_snippet ''2002'') ?s1 =
    (Inr (), snd (snippet_save mem_engine (sample_snippet ''2002'') ?s1))"
    by (simp add: defs)
  from snippets_capped [OF mem_engine_laws run _ held this]
  show ?thesis by (simp add: sample_snippet_def)
qed

end
