(* ===== verification/Vcard.thy ===== *)
theory Vcard
  imports Contacts
begin

text \<open>
  The vCard subset of \<^verbatim>\<open>internal/vcard/vcard.go\<close> and the two handlers of
  \<^verbatim>\<open>internal/server/actions.go\<close> that import and export the contact book with it. A
  document is its bytes; the upper casing that the parser compares with ASCII texts follows
  Unicode, every other step works on bytes as the source does (a byte that is not UTF-8
  would leave \<^verbatim>\<open>strings.Map\<close> as a replacement character; documents are taken to be UTF-8).
  The card being read is the optional number of \<open>reader\<close>; the source fills its name only
  when it is flushed.
\<close>

section \<open>Texts\<close>

record card =
  card_name :: string
  card_number :: string

text \<open>\<^verbatim>\<open>strings.ReplaceAll(s, "\r\n", "\n")\<close>.\<close>

fun plain_newlines :: "string \<Rightarrow> string" where
  "plain_newlines (a # b # s) =
     (if a = CHR 0x0D \<and> b = CHR 0x0A then b # plain_newlines s else a # plain_newlines (b # s))"
| "plain_newlines s = s"

definition folded :: "string \<Rightarrow> bool" where
  "folded line = (case line of c # _ \<Rightarrow> c = CHR '' '' \<or> c = CHR 0x09 | [] \<Rightarrow> False)"

definition unfold_step :: "string list \<Rightarrow> string \<Rightarrow> string list" where
  "unfold_step ls line =
     (if folded line \<and> ls \<noteq> [] then butlast ls @ [last ls @ tl line] else ls @ [line])"

definition unfold :: "string list \<Rightarrow> string list" where
  "unfold lines = foldl unfold_step [] lines"

text \<open>
  \<^verbatim>\<open>strings.ToUpper\<close> where the caller compares with ASCII texts: besides the small ASCII
  letters exactly two characters have an ASCII upper case, U+0131 and U+017F.
\<close>

fun upper_ascii :: "string \<Rightarrow> string" where
  "upper_ascii (a # b # s) =
     (if a = CHR 0xC4 \<and> b = CHR 0xB1 then CHR ''I'' # upper_ascii s
      else if a = CHR 0xC5 \<and> b = CHR 0xBF then CHR ''S'' # upper_ascii s
      else upper_byte a # upper_ascii (b # s))"
| "upper_ascii [a] = [upper_byte a]"
| "upper_ascii [] = []"

text \<open>The first colon outside quotes; the head before it loses its parameters.\<close>

fun colon_split :: "bool \<Rightarrow> string \<Rightarrow> (string \<times> string) option" where
  "colon_split quoted [] = None"
| "colon_split quoted (c # s) =
     (if c = CHR 0x3A \<and> \<not> quoted then Some ([], s)
      else map_option (\<lambda>(h, v). (c # h, v)) (colon_split (quoted \<noteq> (c = CHR 0x22)) s))"

definition split_property :: "string \<Rightarrow> (string \<times> string) option" where
  "split_property line =
     (case colon_split False line of
        None \<Rightarrow> None
      | Some (head, value) \<Rightarrow>
          (let cut = (case cut_byte (CHR '';'') head of Some (before, _) \<Rightarrow> before | None \<Rightarrow> head) in
           Some (upper_ascii (trim_space cut), value)))"

definition sanitize_number :: "string \<Rightarrow> string" where
  "sanitize_number value =
     (let v = trim_space value;
          w = (case cut_byte (CHR '':'') v of
                 Some (scheme, rest) \<Rightarrow> if equal_fold scheme ''tel'' then rest else v
               | None \<Rightarrow> v) in
      trim_space (filter (\<lambda>c. c \<notin> set '' -().'') w))"

fun unescape :: "string \<Rightarrow> string" where
  "unescape (a # b # s) =
     (if a = CHR 0x5C \<and> b \<in> set ''nN'' then CHR '' '' # unescape s
      else if a = CHR 0x5C \<and> b \<in> set [CHR '','', CHR '';'', CHR 0x5C] then b # unescape s
      else a # unescape (b # s))"
| "unescape s = s"

definition escape_byte :: "char \<Rightarrow> string" where
  "escape_byte c =
     (if c = CHR 0x5C then [CHR 0x5C, CHR 0x5C]
      else if c = CHR '','' then [CHR 0x5C, CHR '','']
      else if c = CHR '';'' then [CHR 0x5C, CHR '';'']
      else if c = CHR 0x0A then [CHR 0x5C, CHR ''n'']
      else [c])"

definition escape :: "string \<Rightarrow> string" where
  "escape value = concat (map escape_byte value)"

definition display_name_from_n :: "string \<Rightarrow> string" where
  "display_name_from_n n =
     (case split_byte (CHR '';'') n of
        family # given # _ \<Rightarrow> trim_byte (CHR '' '') (trim_space given @ '' '' @ trim_space family)
      | _ \<Rightarrow> [])"

fun first_non_empty :: "string list \<Rightarrow> string" where
  "first_non_empty [] = []"
| "first_non_empty (v # vs) = (if v \<noteq> [] then v else first_non_empty vs)"

section \<open>Documents\<close>

record reader =
  rd_cards :: "card list"
  rd_current :: "string option"
  rd_name :: string
  rd_n :: string

definition flush_card :: "reader \<Rightarrow> reader" where
  "flush_card r =
     (case rd_current r of
        None \<Rightarrow> r
      | Some number \<Rightarrow>
          \<lparr>rd_cards =
             (if number \<noteq> []
              then rd_cards r @
                [\<lparr>card_name = first_non_empty [rd_name r, display_name_from_n (rd_n r), number],
                  card_number = number\<rparr>]
              else rd_cards r),
           rd_current = None, rd_name = [], rd_n = []\<rparr>)"

definition read_line :: "reader \<Rightarrow> string \<Rightarrow> reader" where
  "read_line r line =
     (let trimmed = trim_space line; key = upper_ascii trimmed in
      if key = ''BEGIN:VCARD'' then (flush_card r)\<lparr>rd_current := Some []\<rparr>
      else if key = ''END:VCARD'' then flush_card r
      else
        (case rd_current r of
           None \<Rightarrow> r
         | Some number \<Rightarrow>
             (case split_property trimmed of
                None \<Rightarrow> r
              | Some (name, value) \<Rightarrow>
                  if name = ''FN'' then r\<lparr>rd_name := unescape value\<rparr>
                  else if name = ''N'' then r\<lparr>rd_n := value\<rparr>
                  else if name = ''TEL'' then
                    (if number = [] then r\<lparr>rd_current := Some (sanitize_number value)\<rparr> else r)
                  else r)))"

definition empty_reader :: reader where
  "empty_reader = \<lparr>rd_cards = [], rd_current = None, rd_name = [], rd_n = []\<rparr>"

definition decode :: "string \<Rightarrow> card list" where
  "decode data =
     rd_cards (flush_card
       (foldl read_line empty_reader (unfold (split_byte (CHR 0x0A) (plain_newlines data)))))"

definition crlf :: string where
  "crlf = [CHR 0x0D, CHR 0x0A]"

definition encode_card :: "card \<Rightarrow> string" where
  "encode_card c =
     ''BEGIN:VCARD'' @ crlf @ ''VERSION:3.0'' @ crlf @
     ''FN:'' @ escape (card_name c) @ crlf @
     ''N:'' @ escape (card_name c) @ '';;;;'' @ crlf @
     ''TEL;TYPE=CELL:'' @ card_number c @ crlf @ ''END:VCARD'' @ crlf"

definition encode :: "card list \<Rightarrow> string" where
  "encode cards = concat (map encode_card cards)"

section \<open>The contact book as a document\<close>

text \<open>
  \<^verbatim>\<open>importContacts\<close> behind the session: the upload is the form file, its bytes, or a failed
  read; each card takes a fresh identifier and a clock reading. The counters are the imported
  and the skipped cards.
\<close>

datatype vcard_upload = No_File | Unreadable | Upload string

datatype import_answer = Attach_File | Read_Failed | Import_None | Imported nat | Import_Panic

record tally =
  tl_imported :: nat
  tl_skipped :: nat
  tl_panicked :: bool

definition upload_cap :: nat where
  "upload_cap = 5 * 2 ^ 20"

definition import_card ::
  "('s, contact_key, contact_view) engine \<Rightarrow> extension \<Rightarrow> contact_id \<times> time \<Rightarrow> card \<Rightarrow>
   tally \<times> 's \<Rightarrow> tally \<times> 's" where
  "import_card E ext mint c st =
     (let (t, s) = st; skip = t\<lparr>tl_skipped := tl_skipped t + 1\<rparr> in
      case parse_phone (card_number c) of
        Inl _ \<Rightarrow> (skip, s)
      | Inr p \<Rightarrow>
          if \<not> list_ex is_digit_char (phone_string p) then (skip, s)
          else
            (case contact_save E
                \<lparr>con_id = fst mint, con_owner = ext, con_name = card_name c, con_phone = p,
                 con_created = snd mint\<rparr> s of
               (Inl Panic, s') \<Rightarrow> (t\<lparr>tl_panicked := True\<rparr>, s')
             | (Inl _, s') \<Rightarrow> (skip, s')
             | (Inr _, s') \<Rightarrow> (t\<lparr>tl_imported := tl_imported t + 1\<rparr>, s')))"

fun import_cards ::
  "('s, contact_key, contact_view) engine \<Rightarrow> extension \<Rightarrow> (contact_id \<times> time) list \<Rightarrow> card list \<Rightarrow>
   tally \<times> 's \<Rightarrow> tally \<times> 's" where
  "import_cards E ext (m # ms) (c # cs) st =
     (let st' = import_card E ext m c st in
      if tl_panicked (fst st') then st' else import_cards E ext ms cs st')"
| "import_cards E ext ms cs st = st"

definition import_contacts ::
  "('s, contact_key, contact_view) engine \<Rightarrow> extension \<Rightarrow> (contact_id \<times> time) list \<Rightarrow> vcard_upload \<Rightarrow>
   's \<Rightarrow> import_answer \<times> 's" where
  "import_contacts E ext mints upload s =
     (case upload of
        No_File \<Rightarrow> (Attach_File, s)
      | Unreadable \<Rightarrow> (Read_Failed, s)
      | Upload data \<Rightarrow>
          (let (t, s') =
             import_cards E ext mints (decode (take upload_cap data))
               (\<lparr>tl_imported = 0, tl_skipped = 0, tl_panicked = False\<rparr>, s) in
           if tl_panicked t then (Import_Panic, s')
           else if tl_imported t = 0 then (Import_None, s')
           else (Imported (tl_imported t), s')))"

definition export_contacts ::
  "('s, contact_key, contact_view) engine \<Rightarrow> extension \<Rightarrow> 's \<Rightarrow> err + string" where
  "export_contacts E ext s =
     (case contact_list E ext s of
        Inl e \<Rightarrow> Inl e
      | Inr cs \<Rightarrow>
          Inr (encode (map (\<lambda>c. \<lparr>card_name = con_name c, card_number = phone_string (con_phone c)\<rparr>) cs)))"

section \<open>The round trip\<close>

text \<open>
  What a name becomes on its way through a document: white space at its end is lost (but for
  newlines, which travel escaped), and each newline comes back as a blank; a name that
  vanishes is replaced by the number.
\<close>

definition line_spaces :: "string list" where
  "line_spaces = removeAll [CHR 0x0A] (map rev space_seqs)"

definition rtrim_line :: "string \<Rightarrow> string" where
  "rtrim_line s = rev (strip_front line_spaces (rev s))"

definition one_line :: "string \<Rightarrow> string" where
  "one_line s = map (\<lambda>c. if c = CHR 0x0A then CHR '' '' else c) (rtrim_line s)"

definition shown_card :: "card \<Rightarrow> card" where
  "shown_card c =
     c\<lparr>card_name := (if one_line (card_name c) = [] then card_number c else one_line (card_name c))\<rparr>"

subsection \<open>Trimming\<close>

definition printable :: "char \<Rightarrow> bool" where
  "printable c \<longleftrightarrow> (let n = of_char c :: nat in 33 \<le> n \<and> n < 128)"

lemma space_bytes: "\<forall>p \<in> set space_seqs. p \<noteq> [] \<and> (\<forall>c \<in> set p. \<not> printable c)"
  by (simp add: space_seqs_def printable_def)

lemma space_newline: "p \<in> set space_seqs \<Longrightarrow> CHR 0x0A \<in> set p \<Longrightarrow> p = [CHR 0x0A]"
  by (auto simp: space_seqs_def)

lemma printable_free: "printable c \<Longrightarrow> p \<in> set space_seqs \<Longrightarrow> c \<notin> set p"
  using space_bytes by blast

lemma has_prefix_barrier: "c \<notin> set p \<Longrightarrow> has_prefix p (s @ c # r) \<longleftrightarrow> has_prefix p s"
proof (induction p arbitrary: s)
  case (Cons d p)
  then show ?case by (cases s) auto
qed simp

lemma strip_front_barrier:
  assumes "\<forall>p \<in> set ps. c \<notin> set p"
  shows "strip_front ps (s @ c # r) = strip_front ps s @ c # r"
  using assms
proof (induction ps s rule: strip_front.induct)
  case (1 ps s)
  have "(p \<noteq> [] \<and> has_prefix p (s @ c # r)) = (p \<noteq> [] \<and> has_prefix p s)" if "p \<in> set ps" for p
    using has_prefix_barrier [of c p s r] "1.prems" that by simp
  then have same: "find (\<lambda>p. p \<noteq> [] \<and> has_prefix p (s @ c # r)) ps =
      find (\<lambda>p. p \<noteq> [] \<and> has_prefix p s) ps"
    by (rule find_cong [OF refl])
  show ?case
  proof (cases "find (\<lambda>p. p \<noteq> [] \<and> has_prefix p s) ps")
    case None
    then show ?thesis using same by (simp add: strip_front.simps [of ps])
  next
    case (Some p)
    then have "has_prefix p s" by (auto simp: find_Some_iff)
    then have "length p \<le> length s" by (auto simp: has_prefix_iff)
    then show ?thesis
      using "1.IH" [OF Some "1.prems"] Some same by (simp add: strip_front.simps [of ps "s @ c # r"] strip_front.simps [of ps s])
  qed
qed

lemma trim_left_printable: "printable c \<Longrightarrow> trim_left (c # s) = c # s"
  using strip_front_barrier [of space_seqs c "[]" s] printable_free by (auto simp: trim_left_def)

lemma trim_right_printable: "printable c \<Longrightarrow> trim_right (s @ c # r) = s @ c # trim_right r"
  using strip_front_barrier [of "map rev space_seqs" c "rev r" "rev s"] printable_free
  by (auto simp: trim_right_def)

lemma trim_right_Nil [simp]: "trim_right [] = []"
  by (simp add: trim_right_def)

lemma trim_space_printable:
  assumes "printable c" "printable d"
  shows "trim_space (c # s @ [d]) = c # s @ [d]"
  using trim_right_printable [OF assms(2), of "c # s" "[]"] trim_left_printable [OF assms(1), of "s @ [d]"]
  by (simp add: trim_space_def)

lemma trim_space_value:
  assumes "printable c" "printable d"
  shows "trim_space (c # s @ d # r) = c # s @ d # trim_right r"
  using trim_right_printable [OF assms(2), of "c # s" r] trim_left_printable [OF assms(1), of "s @ d # r"]
  by (simp add: trim_space_def)

subsection \<open>Escapes\<close>

text \<open>Escaping, read backwards; the trim of an escaped text is the escape of a trimmed one.\<close>

definition escape_back :: "string \<Rightarrow> string" where
  "escape_back t = concat (map (\<lambda>c. rev (escape_byte c)) t)"

lemma rev_escape: "rev (escape s) = escape_back (rev s)"
  by (simp add: escape_def escape_back_def rev_concat rev_map comp_def)

lemma escape_back_simps [simp]:
  "escape_back [] = []" "escape_back (c # t) = rev (escape_byte c) @ escape_back t"
  by (simp_all add: escape_back_def)

definition unescaped :: "char \<Rightarrow> bool" where
  "unescaped c \<longleftrightarrow> c \<notin> {CHR 0x5C, CHR '','', CHR '';'', CHR 0x0A, CHR ''n''}"

lemma escape_back_prefix:
  "\<forall>c \<in> set p. unescaped c \<Longrightarrow> has_prefix p (escape_back t) \<longleftrightarrow> has_prefix p t"
proof (induction p arbitrary: t)
  case (Cons d p)
  then show ?case
    by (cases t) (auto simp: escape_byte_def unescaped_def)
qed simp

lemma escape_back_plain: "\<forall>c \<in> set p. unescaped c \<Longrightarrow> escape_back (p @ t) = p @ escape_back t"
  by (induction p) (auto simp: escape_byte_def unescaped_def)

lemma escape_back_newline: "\<not> has_prefix [CHR 0x0A] (escape_back t)"
  by (cases t) (auto simp: escape_byte_def)

lemma line_spaces_unescaped: "\<forall>p \<in> set line_spaces. p \<noteq> [] \<and> (\<forall>c \<in> set p. unescaped c)"
  by (simp add: line_spaces_def space_seqs_def unescaped_def)

lemma find_removeAll: "\<not> P x \<Longrightarrow> find P (removeAll x xs) = find P xs"
  by (induction xs) auto

lemma strip_front_escape:
  "strip_front (map rev space_seqs) (escape_back t) = escape_back (strip_front line_spaces t)"
proof (induction line_spaces t rule: strip_front.induct)
  case (1 t)
  let ?P = "\<lambda>t p. p \<noteq> [] \<and> has_prefix p t"
  have "find (?P (escape_back t)) (map rev space_seqs) = find (?P (escape_back t)) line_spaces"
    unfolding line_spaces_def by (rule find_removeAll [symmetric]) (simp add: escape_back_newline)
  also have "\<dots> = find (?P t) line_spaces"
    by (rule find_cong) (use line_spaces_unescaped escape_back_prefix in auto)
  finally have same: "find (?P (escape_back t)) (map rev space_seqs) = find (?P t) line_spaces" .
  show ?case
  proof (cases "find (?P t) line_spaces")
    case None
    then show ?thesis using same by (simp add: strip_front.simps [of _ t] strip_front.simps [of _ "escape_back t"])
  next
    case (Some p)
    then have p: "p \<in> set line_spaces" and "has_prefix p t" by (auto simp: find_Some_iff)
    then obtain r where r: "t = p @ r" by (auto simp: has_prefix_iff)
    have "drop (length p) (escape_back t) = escape_back (drop (length p) t)"
      using escape_back_plain [of p r] line_spaces_unescaped p r by simp
    then show ?thesis
      using "1" [OF Some] Some same
      by (simp add: strip_front.simps [of _ t] strip_front.simps [of _ "escape_back t"])
  qed
qed

lemma trim_right_escape: "trim_right (escape s) = escape (rtrim_line s)"
proof -
  have "rev (trim_right (escape s)) = rev (escape (rtrim_line s))"
    unfolding rev_escape by (simp add: trim_right_def rev_escape rtrim_line_def strip_front_escape)
  then show ?thesis by simp
qed

lemma unescape_plain: "c \<noteq> CHR 0x5C \<Longrightarrow> unescape (c # s) = c # unescape s"
  by (cases s) auto

lemma unescape_escape: "unescape (escape s) = map (\<lambda>c. if c = CHR 0x0A then CHR '' '' else c) s"
proof (induction s)
  case Nil
  then show ?case by (simp add: escape_def)
next
  case (Cons c s)
  then show ?case by (auto simp: escape_def escape_byte_def unescape_plain)
qed

text \<open>A name that vanishes is made of blanks only, so the \<^verbatim>\<open>N\<close> property names nobody either.\<close>

lemma space_seqs_apart:
  "\<forall>p \<in> set space_seqs. \<forall>q \<in> set space_seqs. (has_prefix p q \<or> has_prefix q p) \<longrightarrow> p = q"
  by code_simp

lemma has_prefix_either: "has_prefix p (q @ r) \<Longrightarrow> has_prefix p q \<or> has_prefix q p"
  by (induction p arbitrary: q) (auto simp: neq_Nil_conv, metis append_Cons append_Nil has_prefix_Cons has_prefix_Nil list.exhaust)

lemma strip_front_spaces: "set ps \<subseteq> set space_seqs \<Longrightarrow> strip_front space_seqs (concat ps) = []"
proof (induction ps)
  case (Cons q ps)
  obtain p where p: "find (\<lambda>p. p \<noteq> [] \<and> has_prefix p (q @ concat ps)) space_seqs = Some p"
    using Cons.prems space_bytes has_prefix_iff [of q "q @ concat ps"]
    by (cases "find (\<lambda>p. p \<noteq> [] \<and> has_prefix p (q @ concat ps)) space_seqs")
      (auto simp: find_None_iff)
  then have "p \<in> set space_seqs" "has_prefix p (q @ concat ps)" by (auto simp: find_Some_iff)
  moreover have "q \<in> set space_seqs" using Cons.prems by simp
  ultimately have "p = q" using has_prefix_either [of p q "concat ps"] space_seqs_apart by metis
  then show ?case using p Cons by (simp add: strip_front.simps [of _ "q @ concat ps"])
qed simp

lemma strip_front_emptied: "strip_front ps s = [] \<Longrightarrow> \<exists>qs. set qs \<subseteq> set ps \<and> s = concat qs"
proof (induction ps s rule: strip_front.induct)
  case (1 ps s)
  show ?case
  proof (cases "find (\<lambda>p. p \<noteq> [] \<and> has_prefix p s) ps")
    case None
    then show ?thesis using "1.prems" by (auto simp: strip_front.simps [of ps s] intro: exI [of _ "[]"])
  next
    case (Some p)
    then have "strip_front ps (drop (length p) s) = []"
      using "1.prems" by (simp add: strip_front.simps [of ps s])
    then obtain qs where qs: "set qs \<subseteq> set ps" "drop (length p) s = concat qs" using "1.IH" [OF Some] by blast
    from Some have p: "p \<in> set ps" "has_prefix p s" by (auto simp: find_Some_iff)
    then have "s = concat (p # qs)" using qs(2) by (auto simp: has_prefix_iff)
    then show ?thesis using qs(1) p(1) by (intro exI [of _ "p # qs"]) simp
  qed
qed

lemma blank_name:
  assumes "rtrim_line s = []"
  shows "escape s = s \<and> trim_space s = [] \<and> CHR '';'' \<notin> set s"
proof -
  obtain qs where qs: "set qs \<subseteq> set line_spaces" "rev s = concat qs"
    using strip_front_emptied [of line_spaces "rev s"] assms by (auto simp: rtrim_line_def)
  then have s: "s = concat (map rev (rev qs))" by (metis rev_concat rev_rev_ident rev_map)
  have free: "\<forall>c \<in> set s. unescaped c"
    using qs line_spaces_unescaped by (metis UN_iff set_concat set_rev subsetD)
  have "set (map rev (rev qs)) \<subseteq> set space_seqs" using qs(1) by (auto simp: line_spaces_def)
  then have "trim_left s = []" using strip_front_spaces s by (metis trim_left_def)
  moreover have "escape s = s" using free
    by (induction s) (auto simp: escape_def escape_byte_def unescaped_def)
  ultimately show ?thesis using free by (auto simp: trim_space_def unescaped_def)
qed

lemma split_semicolons: "CHR '';'' \<notin> set s \<Longrightarrow> split_byte (CHR '';'') (s @ '';;;;'') = s # split_byte (CHR '';'') '';;;''"
  using split_byte_append [of "CHR '';''" s "'';;;''"] by simp

lemma blank_display: "rtrim_line s = [] \<Longrightarrow> display_name_from_n (escape s @ '';;;;'') = []"
  using blank_name [of s] split_semicolons [of s]
  by (simp add: display_name_from_n_def trim_byte_def)

subsection \<open>Lines\<close>

definition card_lines :: "card \<Rightarrow> string list" where
  "card_lines c =
     [''BEGIN:VCARD'', ''VERSION:3.0'', ''FN:'' @ escape (card_name c),
      ''N:'' @ escape (card_name c) @ '';;;;'', ''TEL;TYPE=CELL:'' @ card_number c, ''END:VCARD'']"

lemma encode_lines: "encode cards = concat (map (\<lambda>l. l @ crlf) (concat (map card_lines cards)))"
  by (induction cards) (simp_all add: encode_def encode_card_def card_lines_def)

lemma plain_newlines_line:
  "CHR 0x0A \<notin> set a \<Longrightarrow> plain_newlines (a @ crlf @ b) = a @ CHR 0x0A # plain_newlines b"
proof (induction a)
  case (Cons x a)
  then show ?case by (cases a) (auto simp: crlf_def)
qed (simp add: crlf_def)

lemma split_document:
  "\<forall>l \<in> set ls. CHR 0x0A \<notin> set l \<Longrightarrow>
   split_byte (CHR 0x0A) (plain_newlines (concat (map (\<lambda>l. l @ crlf) ls))) = ls @ [[]]"
proof (induction ls)
  case (Cons l ls)
  then show ?case
    using plain_newlines_line [of l "concat (map (\<lambda>l. l @ crlf) ls)"] by (simp add: split_byte_append)
qed simp

lemma unfold_flat: "\<forall>l \<in> set ls. \<not> folded l \<Longrightarrow> unfold ls = ls"
proof -
  have "\<forall>l \<in> set ls. \<not> folded l \<Longrightarrow> foldl unfold_step acc ls = acc @ ls" for acc
    by (induction ls arbitrary: acc) (simp_all add: unfold_step_def)
  then show "\<forall>l \<in> set ls. \<not> folded l \<Longrightarrow> unfold ls = ls" by (simp add: unfold_def)
qed

lemma escape_no_newline: "CHR 0x0A \<notin> set (escape s)"
  by (induction s) (auto simp: escape_def escape_byte_def)

lemma dialable_printable: "dialable_char c \<Longrightarrow> printable c \<and> c \<notin> set '' -().'' \<and> c \<noteq> CHR '':''"
  by (auto simp: dialable_char_def printable_def is_digit_char_def is_letter_char_def Let_def)

lemma trim_dialable:
  assumes "valid_dialable n" "printable c"
  shows "trim_space (c # s @ n) = c # s @ n" and "trim_space n = n"
proof -
  from assms(1) have ne: "n \<noteq> []" and all: "\<forall>c \<in> set n. dialable_char c"
    by (auto simp: valid_dialable_def list_all_iff)
  then have last: "printable (last n)" and first: "printable (hd n)" using dialable_printable by simp_all
  have "c # s @ n = c # (s @ butlast n) @ [last n]" using ne by simp
  then show "trim_space (c # s @ n) = c # s @ n" by (metis trim_space_printable assms(2) last)
  show "trim_space n = n"
  proof (cases "tl n = []")
    case True
    then have "n = [hd n]" using ne by (cases n) simp_all
    then show ?thesis
      using trim_left_printable [OF first, of "[]"] trim_right_printable [OF first, of "[]" "[]"]
      by (metis append_Nil trim_right_Nil trim_space_def)
  next
    case False
    then have "n = hd n # butlast (tl n) @ [last n]" using ne
      by (metis append_butlast_last_id last_tl list.collapse)
    then show ?thesis by (metis trim_space_printable first last)
  qed
qed

lemma sanitize_number_dialable: "valid_dialable n \<Longrightarrow> sanitize_number n = n"
proof -
  assume n: "valid_dialable n"
  then have all: "\<forall>c \<in> set n. dialable_char c" by (auto simp: valid_dialable_def list_all_iff)
  then have "cut_byte (CHR '':'') n = None" using dialable_printable by (auto simp: cut_byte_None)
  moreover have "filter (\<lambda>c. c \<notin> set '' -().'') n = n"
    using all dialable_printable by (intro filter_True) blast
  ultimately show "sanitize_number n = n"
    using trim_dialable(2) [OF n, of "CHR ''a''"] by (simp add: sanitize_number_def printable_def Let_def)
qed

lemma trim_names: "trim_space ''FN'' = ''FN''" "trim_space ''N'' = ''N''" "trim_space ''TEL'' = ''TEL''"
  by code_simp+

lemma split_properties:
  "split_property (''FN:'' @ v) = Some (''FN'', v)"
  "split_property (''N:'' @ v) = Some (''N'', v)"
  "split_property (''TEL;TYPE=CELL:'' @ v) = Some (''TEL'', v)"
  by (simp_all add: split_property_def trim_names upper_byte_def)

lemma read_fn:
  "read_line r (''FN:'' @ escape n) =
     (case rd_current r of None \<Rightarrow> r | Some _ \<Rightarrow> r\<lparr>rd_name := one_line n\<rparr>)"
proof -
  have t: "trim_space (''FN:'' @ escape n) = ''FN:'' @ escape (rtrim_line n)"
    using trim_space_value [of "CHR ''F''" "CHR '':''" "''N''" "escape n"]
    by (simp add: printable_def trim_right_escape)
  show ?thesis
    unfolding read_line_def Let_def t split_properties
    by (simp add: unescape_escape one_line_def upper_byte_def split: option.splits)
qed

lemma read_n:
  "read_line r (''N:'' @ escape n @ '';;;;'') =
     (case rd_current r of None \<Rightarrow> r | Some _ \<Rightarrow> r\<lparr>rd_n := escape n @ '';;;;''\<rparr>)"
proof -
  have t: "trim_space (''N:'' @ escape n @ '';;;;'') = ''N:'' @ escape n @ '';;;;''"
    using trim_space_printable [of "CHR ''N''" "CHR '';''" "'':'' @ escape n @ '';;;''"]
    by (simp add: printable_def)
  show ?thesis unfolding read_line_def Let_def t split_properties
    by (simp add: upper_byte_def split: option.splits)
qed

lemma read_tel:
  assumes "valid_dialable n"
  shows "read_line r (''TEL;TYPE=CELL:'' @ n) =
     (case rd_current r of Some [] \<Rightarrow> r\<lparr>rd_current := Some n\<rparr> | _ \<Rightarrow> r)"
proof -
  have t: "trim_space (''TEL;TYPE=CELL:'' @ n) = ''TEL;TYPE=CELL:'' @ n"
    using trim_dialable(1) [OF assms, of "CHR ''T''" "''EL;TYPE=CELL:''"] by (simp add: printable_def)
  show ?thesis
    unfolding read_line_def Let_def t split_properties
    by (simp add: sanitize_number_dialable assms upper_byte_def split: option.splits list.splits)
qed

lemma read_frame:
  "read_line r ''BEGIN:VCARD'' = (flush_card r)\<lparr>rd_current := Some []\<rparr>"
  "read_line r ''END:VCARD'' = flush_card r"
  "read_line r ''VERSION:3.0'' = r"
  "read_line empty_reader [] = empty_reader"
proof -
  have "trim_space ''BEGIN:VCARD'' = ''BEGIN:VCARD''" "trim_space ''END:VCARD'' = ''END:VCARD''"
    "trim_space ''VERSION:3.0'' = ''VERSION:3.0''" by code_simp+
  moreover have "upper_ascii ''BEGIN:VCARD'' = ''BEGIN:VCARD''" "upper_ascii ''END:VCARD'' = ''END:VCARD''"
    "upper_ascii ''VERSION:3.0'' = ''VERSION:3.0''"
    "split_property ''VERSION:3.0'' = Some (''VERSION'', ''3.0'')" by code_simp+
  ultimately show "read_line r ''BEGIN:VCARD'' = (flush_card r)\<lparr>rd_current := Some []\<rparr>"
    "read_line r ''END:VCARD'' = flush_card r" "read_line r ''VERSION:3.0'' = r"
    unfolding read_line_def Let_def by (simp_all split: option.splits)
  show "read_line empty_reader [] = empty_reader" by (simp add: read_line_def empty_reader_def)
qed

lemma read_card:
  assumes "valid_dialable (card_number c)"
  shows "foldl read_line (empty_reader\<lparr>rd_cards := acc\<rparr>) (card_lines c) =
     empty_reader\<lparr>rd_cards := acc @ [shown_card c]\<rparr>"
proof -
  have "card_number c \<noteq> []" using assms by (auto simp: valid_dialable_def)
  moreover have "one_line (card_name c) = [] \<Longrightarrow> display_name_from_n (escape (card_name c) @ '';;;;'') = []"
    by (rule blank_display) (simp add: one_line_def)
  ultimately show ?thesis
    unfolding card_lines_def foldl.simps read_frame read_fn read_n read_tel [OF assms]
    by (simp add: flush_card_def empty_reader_def shown_card_def)
qed

lemma read_cards:
  "\<forall>c \<in> set cards. valid_dialable (card_number c) \<Longrightarrow>
   foldl read_line (empty_reader\<lparr>rd_cards := acc\<rparr>) (concat (map card_lines cards)) =
     empty_reader\<lparr>rd_cards := acc @ map shown_card cards\<rparr>"
  by (induction cards arbitrary: acc) (simp_all add: read_card)

lemma card_lines_clean:
  assumes "valid_dialable (card_number c)" "l \<in> set (card_lines c)"
  shows "CHR 0x0A \<notin> set l \<and> \<not> folded l"
proof -
  have "\<forall>d \<in> set (card_number c). d \<noteq> CHR 0x0A"
  proof
    fix d assume "d \<in> set (card_number c)"
    then have "printable d" using assms(1) dialable_printable by (simp add: valid_dialable_def list_all_iff)
    then show "d \<noteq> CHR 0x0A" by (auto simp: printable_def)
  qed
  then have "CHR 0x0A \<notin> set (card_number c)" by blast
  then show ?thesis
    using assms(2) escape_no_newline [of "card_name c"] by (auto simp: card_lines_def folded_def)
qed

lemma decode_encode:
  assumes "\<forall>c \<in> set cards. valid_dialable (card_number c)"
  shows "decode (encode cards) = map shown_card cards"
proof -
  let ?ls = "concat (map card_lines cards)"
  have clean: "\<forall>l \<in> set ?ls. CHR 0x0A \<notin> set l" and flat: "\<forall>l \<in> set (?ls @ [[]]). \<not> folded l"
    using assms card_lines_clean by (auto simp: folded_def)
  have "unfold (split_byte (CHR 0x0A) (plain_newlines (encode cards))) = ?ls @ [[]]"
    unfolding encode_lines split_document [OF clean] by (rule unfold_flat [OF flat])
  moreover have "foldl read_line empty_reader ?ls = empty_reader\<lparr>rd_cards := map shown_card cards\<rparr>"
    using read_cards [OF assms, of "[]"] by (simp add: empty_reader_def)
  moreover have "read_line (empty_reader\<lparr>rd_cards := cs\<rparr>) [] = empty_reader\<lparr>rd_cards := cs\<rparr>" for cs
    by (simp add: read_line_def empty_reader_def)
  ultimately show ?thesis by (simp add: decode_def flush_card_def empty_reader_def)
qed

section \<open>From one book into another\<close>

definition dialed :: "card \<Rightarrow> bool" where
  "dialed c \<longleftrightarrow> list_ex is_digit_char (card_number c)"

definition card_key :: "extension \<Rightarrow> card \<Rightarrow> contact_key" where
  "card_key ext c = (ext_string ext, card_number c)"

text \<open>The row an imported card leaves: a known number keeps its identity and age.\<close>

definition card_row :: "extension \<Rightarrow> card \<Rightarrow> contact_view option \<Rightarrow> contact_view \<Rightarrow> bool" where
  "card_row ext c old v \<longleftrightarrow>
     cnv_owner v = ext_string ext \<and> cnv_phone v = card_number c \<and> cnv_name v = card_name c \<and>
     (case old of None \<Rightarrow> True | Some w \<Rightarrow> cnv_id v = cnv_id w \<and> cnv_created v = cnv_created w)"

lemma parse_phone_stored: "valid_dialable n \<Longrightarrow> parse_phone n = Inr (Phone n)"
  by (simp add: parse_phone_ok valid_dialable_def sanitize_clean)

lemma contact_slot_row:
  "card_row ext c old
     (contact_slot \<lparr>con_id = i, con_owner = ext, con_name = card_name c, con_phone = Phone (card_number c),
        con_created = t\<rparr> old)"
  by (simp add: card_row_def contact_slot_def contact_fold_def Let_def split: option.split)

lemma contact_save_no_panic:
  assumes "engine_laws E view" "rows_ok contact_row_ok (view s)"
  shows "fst (contact_save E c s) \<noteq> Inl Panic"
proof -
  let ?k = "(ext_string (con_owner c), phone_string (con_phone c))"
  have put: "fst (contact_put E k c' s) \<noteq> Inl Panic" for k c'
    by (simp add: contact_put_def wrap_write_def)
  have room: "contact_room E x s \<noteq> Inl Panic" for x
    by (auto simp: contact_room_def contact_views_def split: sum.splits)
  show ?thesis
  proof (cases "eng_get E ?k s")
    case get: (Inr old)
    show ?thesis
    proof (cases old)
      case None
      then show ?thesis using get put room
        by (simp add: contact_save_def Let_def split: sum.split) metis
    next
      case (Some prev)
      then have "view s ?k = Some prev" using engine_get [OF assms(1) get] by simp
      then have "must_id (cnv_id prev) = Inr (cnv_id prev)"
        using rows_okD [OF assms(2)] by (simp add: must_id_raw contact_row_ok_def)
      then show ?thesis using get put Some by (simp add: contact_save_def Let_def)
    qed
  qed (simp add: contact_save_def Let_def)
qed

lemma import_card_effect:
  assumes laws: "engine_laws E view" and ok: "rows_ok contact_row_ok (view s)"
    and card: "valid_dialable (card_number c)" "valid_id (fst mint)" "valid_extension ext"
    and run: "import_card E ext mint c (t, s) = (t', s')" and calm: "\<not> tl_panicked t"
  shows "\<not> tl_panicked t' \<and> rows_ok contact_row_ok (view s') \<and>
    (tl_imported t' = tl_imported t \<and> view s' = view s \<or>
     dialed c \<and> tl_imported t' \<in> {tl_imported t, tl_imported t + 1} \<and>
     (\<exists>v. card_row ext c (view s (card_key ext c)) v \<and> view s' = (view s)(card_key ext c \<mapsto> v)))"
proof (cases "dialed c")
  case False
  then show ?thesis
    using run calm ok by (auto simp: import_card_def parse_phone_stored card dialed_def)
next
  case True
  let ?c = "\<lparr>con_id = fst mint, con_owner = ext, con_name = card_name c, con_phone = Phone (card_number c),
    con_created = snd mint\<rparr>"
  obtain r where save: "contact_save E ?c s = (r, s')"
    and t': "t' = (case r of Inl Panic \<Rightarrow> t\<lparr>tl_panicked := True\<rparr> | Inl _ \<Rightarrow> t\<lparr>tl_skipped := tl_skipped t + 1\<rparr>
      | Inr _ \<Rightarrow> t\<lparr>tl_imported := tl_imported t + 1\<rparr>)"
    using run True by (auto simp: import_card_def parse_phone_stored card dialed_def Let_def
        split: prod.splits sum.splits err.splits)
  have "r \<noteq> Inl Panic" using contact_save_no_panic [OF laws ok, of ?c] save by simp
  then have counted: "\<not> tl_panicked t' \<and> tl_imported t' = (case r of Inl _ \<Rightarrow> tl_imported t | Inr _ \<Rightarrow> tl_imported t + 1)"
    using t' calm by (cases r) (auto split: err.splits)
  have "contact_step E view s s'"
    by (rule contact_step.save [OF laws _ save]) (use card in \<open>simp add: valid_contact_def\<close>)
  then have "rows_ok contact_row_ok (view s')" using ok by (rule contact_step_good)
  moreover from contact_save_cases [OF laws ok save refl]
  have "(\<exists>e. r = Inl e) \<and> view s' = view s \<or>
    view s' = (view s)(card_key ext c \<mapsto> contact_slot ?c (view s (card_key ext c)))"
    by (auto simp: card_key_def)
  ultimately show ?thesis using counted True contact_slot_row [of ext c] by (auto split: sum.splits)
qed

definition dialed_count :: "card list \<Rightarrow> nat" where
  "dialed_count cs = length (filter dialed cs)"

lemma import_cards_effect:
  assumes laws: "engine_laws E view" and ext: "valid_extension ext"
  shows "\<lbrakk>import_cards E ext ms cs (t, s) = (t', s'); rows_ok contact_row_ok (view s); \<not> tl_panicked t;
     \<forall>c \<in> set cs. valid_dialable (card_number c); distinct (map card_number cs);
     \<forall>m \<in> set ms. valid_id (fst m); length cs \<le> length ms\<rbrakk> \<Longrightarrow>
   \<not> tl_panicked t' \<and> tl_imported t \<le> tl_imported t' \<and> tl_imported t' \<le> tl_imported t + dialed_count cs \<and>
   (\<forall>k. k \<notin> card_key ext ` set (filter dialed cs) \<longrightarrow> view s' k = view s k) \<and>
   (\<forall>c \<in> set cs. dialed c \<longrightarrow>
      view s' (card_key ext c) = view s (card_key ext c) \<and> tl_imported t' < tl_imported t + dialed_count cs \<or>
      (\<exists>v. view s' (card_key ext c) = Some v \<and> card_row ext c (view s (card_key ext c)) v))"
proof (induction cs arbitrary: ms t s)
  case Nil
  then show ?case by (cases ms) (auto simp: dialed_count_def)
next
  case (Cons c cs)
  from Cons.prems obtain m ms' where ms: "ms = m # ms'" by (cases ms) auto
  obtain t1 s1 where one: "import_card E ext m c (t, s) = (t1, s1)" by fastforce
  have eff: "\<not> tl_panicked t1 \<and> rows_ok contact_row_ok (view s1) \<and>
    (tl_imported t1 = tl_imported t \<and> view s1 = view s \<or>
     dialed c \<and> tl_imported t1 \<in> {tl_imported t, tl_imported t + 1} \<and>
     (\<exists>v. card_row ext c (view s (card_key ext c)) v \<and> view s1 = (view s)(card_key ext c \<mapsto> v)))"
    using import_card_effect [OF laws _ _ _ ext one] Cons.prems ms by simp
  then have rest: "import_cards E ext ms' cs (t1, s1) = (t', s')" using Cons.prems(1) ms one by (simp add: Let_def)
  have away: "card_key ext c \<noteq> card_key ext d" if "d \<in> set cs" for d
    using Cons.prems(5) that by (auto simp: card_key_def)
  have key: "card_key ext c \<notin> card_key ext ` set (filter dialed cs)" using away by auto
  have count: "dialed_count (c # cs) = (if dialed c then 1 else 0) + dialed_count cs"
    by (simp add: dialed_count_def)
  have calm: "\<not> tl_panicked t'" and low: "tl_imported t1 \<le> tl_imported t'"
    and high: "tl_imported t' \<le> tl_imported t1 + dialed_count cs"
    and other: "\<And>k. k \<notin> card_key ext ` set (filter dialed cs) \<Longrightarrow> view s' k = view s1 k"
    and row: "\<And>d. d \<in> set cs \<Longrightarrow> dialed d \<Longrightarrow>
      view s' (card_key ext d) = view s1 (card_key ext d) \<and> tl_imported t' < tl_imported t1 + dialed_count cs \<or>
      (\<exists>v. view s' (card_key ext d) = Some v \<and> card_row ext d (view s1 (card_key ext d)) v)"
    using Cons.IH [OF rest] eff Cons.prems ms by auto
  have same: "view s1 k = view s k" if "k \<noteq> card_key ext c \<or> \<not> dialed c" for k
    using eff that by auto
  have bound: "tl_imported t \<le> tl_imported t1"
    "tl_imported t1 + dialed_count cs \<le> tl_imported t + dialed_count (c # cs)"
    using eff unfolding count by auto
  have head: "view s' (card_key ext c) = view s (card_key ext c) \<and>
      tl_imported t' < tl_imported t + dialed_count (c # cs) \<or>
      (\<exists>v. view s' (card_key ext c) = Some v \<and> card_row ext c (view s (card_key ext c)) v)" if "dialed c"
    using eff that high unfolding count other [OF key] by auto
  have tail: "view s' (card_key ext d) = view s (card_key ext d) \<and>
      tl_imported t' < tl_imported t + dialed_count (c # cs) \<or>
      (\<exists>v. view s' (card_key ext d) = Some v \<and> card_row ext d (view s (card_key ext d)) v)"
    if "d \<in> set cs" "dialed d" for d
    using row [OF that] same [of "card_key ext d"] away [OF that(1)] bound(2) by auto
  have "view s' k = view s k" if "k \<notin> card_key ext ` set (filter dialed (c # cs))" for k
    using other [of k] same [of k] that by (auto split: if_splits)
  then show ?case using calm low high bound head tail by auto
qed

lemma contact_list_distinct:
  assumes "engine_laws E view" "rows_ok contact_row_ok (view s)" "contact_list E ext s = Inr cs"
  shows "distinct (map con_phone cs)" "\<forall>c \<in> set cs. valid_dialable (phone_string (con_phone c))"
proof -
  obtain vs where vs: "eng_scan E (contacts_query ext) s = Inr vs"
    using assms(3) by (auto simp: contact_list_def contact_views_def split: sum.splits)
  have cs: "cs = map contact_shown vs" using contact_list_views [OF assms(1,2) vs] assms(3) by simp
  note ans = engine_scan [OF assms(1) vs]
  obtain ks where ks: "distinct ks" "set ks = matching (q_filter (contacts_query ext)) (view s)"
    "vs = take (q_limit (contacts_query ext)) (query_order (contacts_query ext) (map (\<lambda>k. the (view s k)) ks))"
    using ans unfolding answers_def by blast
  have phone: "cnv_phone (the (view s k)) = snd k \<and> fst k = ext_string ext" if "k \<in> set ks" for k
    using that ks(2) rows_okD [OF assms(2), of k] by (auto simp: matching_def contacts_query_def contact_row_ok_def)
  have "inj_on (\<lambda>k. cnv_phone (the (view s k))) (set ks)"
    by (rule inj_onI) (metis phone prod.expand)
  then have "distinct (map cnv_phone (map (\<lambda>k. the (view s k)) ks))"
    using ks(1) by (simp add: distinct_map comp_def)
  then have "distinct (map cnv_phone (query_order (contacts_query ext) (map (\<lambda>k. the (view s k)) ks)))"
    by (metis mset_eq_imp_distinct_iff mset_map mset_query_order)
  then have "distinct (map cnv_phone vs)" unfolding ks(3) by (simp add: take_map [symmetric] distinct_take)
  moreover have "map con_phone cs = map Phone (map cnv_phone vs)" by (simp add: cs contact_shown_def)
  ultimately show "distinct (map con_phone cs)" by (simp only: distinct_map) (auto intro: inj_onI)
  show "\<forall>c \<in> set cs. valid_dialable (phone_string (con_phone c))"
    using answers_sound [OF ans] rows_okD [OF assms(2)] by (fastforce simp: cs contact_shown_def contact_row_ok_def)
qed

lemma strip_front_stuck:
  assumes "strip_front ps s = s" "p \<in> set ps" "p \<noteq> []"
  shows "\<not> has_prefix p s"
proof
  assume "has_prefix p s"
  then obtain q where q: "find (\<lambda>p. p \<noteq> [] \<and> has_prefix p s) ps = Some q"
    using assms(2,3) by (cases "find (\<lambda>p. p \<noteq> [] \<and> has_prefix p s) ps") (auto simp: find_None_iff)
  then have "q \<noteq> []" "has_prefix q s" by (auto simp: find_Some_iff)
  then have "length (drop (length q) s) < length s" by (rule drop_prefix_shorter)
  moreover have "strip_front ps (drop (length q) s) = s"
    using assms(1) q by (simp add: strip_front.simps [of ps s])
  moreover have "length (strip_front ps (drop (length q) s)) \<le> length (drop (length q) s)"
    using strip_front_suffix [of "drop (length q) s" ps] by (metis le_add2 length_append)
  ultimately show False by simp
qed

lemma one_line_plain:
  assumes "trim_right n = n" "CHR 0x0A \<notin> set n"
  shows "one_line n = n"
proof -
  have stuck: "strip_front (map rev space_seqs) (rev n) = rev n"
    using assms(1) by (metis rev_rev_ident trim_right_def)
  have "strip_front line_spaces (rev n) = rev n"
    by (rule strip_front_stop) (use strip_front_stuck [OF stuck] in \<open>auto simp: line_spaces_def\<close>)
  then have "rtrim_line n = n" by (simp add: rtrim_line_def)
  moreover have "map (\<lambda>c. if c = CHR 0x0A then CHR '' '' else c) n = n"
    by (rule map_idI) (use assms(2) in auto)
  ultimately show ?thesis by (simp add: one_line_def)
qed

section \<open>Properties\<close>

text \<open>
  C28. A document written by \<^verbatim>\<open>Encode\<close> reads back as the same cards, for every list of cards
  with stored numbers, whatever bytes the names hold: only white space at the end of a name
  is lost, a newline inside it becomes a blank, and a name without text is replaced by the
  number. A name that is one non-empty trimmed line comes back unchanged.
\<close>

theorem vcard_roundtrip:
  assumes "\<forall>c \<in> set cards. valid_dialable (card_number c)"
  shows "decode (encode cards) = map shown_card cards \<and>
    (\<forall>c \<in> set cards. card_name c \<noteq> [] \<and> trim_right (card_name c) = card_name c \<and>
       CHR 0x0A \<notin> set (card_name c) \<longrightarrow> shown_card c = c)"
  using decode_encode [OF assms] one_line_plain by (auto simp: shown_card_def)

text \<open>
  Exporting one extension's contact book and importing the document for another (or the
  same) extension, over an engine whose calls may fail: the import never panics, writes no
  row but those of exported numbers with a digit, and each of them is either as before or
  names the exported contact and keeps the identity and age of a row already there. The
  count it answers is at most the number of such contacts, and when it is that number, every
  one of them has arrived.
\<close>

theorem vcard_transfer:
  assumes laws: "engine_laws E view" and ok: "rows_ok contact_row_ok (view s)"
    and ext: "valid_extension dst" "\<forall>m \<in> set mints. valid_id (fst m)" "length cs \<le> length mints"
    and listed: "contact_list E src s = Inr cs"
    and doc: "export_contacts E src s = Inr doc" "length doc \<le> upload_cap"
    and run: "import_contacts E dst mints (Upload doc) s = (a, s')"
    and cards: "cards = map (\<lambda>c. shown_card \<lparr>card_name = con_name c, card_number = phone_string (con_phone c)\<rparr>) cs"
  shows "\<exists>n \<le> dialed_count cards. a = (if n = 0 then Import_None else Imported n) \<and>
    (\<forall>k. k \<notin> card_key dst ` set (filter dialed cards) \<longrightarrow> view s' k = view s k) \<and>
    (\<forall>c \<in> set cards. dialed c \<longrightarrow>
       view s' (card_key dst c) = view s (card_key dst c) \<and> n < dialed_count cards \<or>
       (\<exists>v. view s' (card_key dst c) = Some v \<and> card_row dst c (view s (card_key dst c)) v))"
proof -
  let ?raw = "map (\<lambda>c. \<lparr>card_name = con_name c, card_number = phone_string (con_phone c)\<rparr>) cs"
  note phones = contact_list_distinct [OF laws ok listed]
  have "decode (take upload_cap doc) = cards"
    using doc listed phones(2) decode_encode [of ?raw] by (simp add: export_contacts_def cards comp_def)
  then obtain t where t: "import_cards E dst mints cards
      (\<lparr>tl_imported = 0, tl_skipped = 0, tl_panicked = False\<rparr>, s) = (t, s')"
    and a: "a = (if tl_panicked t then Import_Panic else if tl_imported t = 0 then Import_None
      else Imported (tl_imported t))"
    using run by (auto simp: import_contacts_def split: prod.splits if_splits)
  have numbers: "map card_number cards = map phone_string (map con_phone cs)"
    by (simp add: cards shown_card_def)
  have "distinct (map card_number cards)"
    unfolding numbers distinct_map [of phone_string] using phones(1) by (auto intro!: inj_onI phone.expand)
  moreover have "\<forall>c \<in> set cards. valid_dialable (card_number c)"
    using phones(2) by (auto simp: cards shown_card_def)
  ultimately have "\<not> tl_panicked t \<and> tl_imported t \<le> dialed_count cards \<and>
    (\<forall>k. k \<notin> card_key dst ` set (filter dialed cards) \<longrightarrow> view s' k = view s k) \<and>
    (\<forall>c \<in> set cards. dialed c \<longrightarrow>
      view s' (card_key dst c) = view s (card_key dst c) \<and> tl_imported t < dialed_count cards \<or>
      (\<exists>v. view s' (card_key dst c) = Some v \<and> card_row dst c (view s (card_key dst c)) v))"
    using import_cards_effect [OF laws ext(1) t ok] ext(2,3) by (simp add: cards)
  then show ?thesis using a by (intro exI [of _ "tl_imported t"]) simp
qed

section \<open>Instances\<close>

theorem vcard_roundtrip_witness:
  "decode (encode [\<lparr>card_name = ''Ada, Countess; x'', card_number = ''+4930123''\<rparr>]) =
     [shown_card \<lparr>card_name = ''Ada, Countess; x'', card_number = ''+4930123''\<rparr>]"
  using vcard_roundtrip [of "[\<lparr>card_name = ''Ada, Countess; x'', card_number = ''+4930123''\<rparr>]"]
  by (simp add: valid_dialable_def dialable_char_def is_digit_char_def is_letter_char_def Let_def)

theorem vcard_transfer_witness:
  "fst (import_contacts mem_engine (Extension ''2002'') [(''contac-00000000000002'', 9)]
     (Upload (encode [\<lparr>card_name = ''Ada'', card_number = ''+4930123''\<rparr>]))
     [((''1001'', ''+4930123''), contact_slot sample_contact None)]) \<noteq> Import_Panic"
proof -
  let ?s = "[((''1001'', ''+4930123''), contact_slot sample_contact None)]"
  have ok: "rows_ok contact_row_ok (map_of ?s)"
    using contact_slot_ok [OF sample_contact_valid, of Map.empty] by (simp add: rows_ok_def sample_contact_def)
  have listed: "contact_list mem_engine (Extension ''1001'') ?s = Inr [sample_contact]"
    by (simp add: contact_list_def contact_views_def mem_engine_def contacts_query_def query_run_def
        query_order_def contacts_max_def contact_of_view_def contact_slot_def contact_fold_def sample_contact_def
        must_id_raw valid_id_def must_parse_extension_def parse_extension_def must_parse_phone_def parse_phone_def
        sanitize_dialable_def dialable_char_def is_digit_char_def is_letter_char_def Let_def)
  let ?doc = "encode [\<lparr>card_name = ''Ada'', card_number = ''+4930123''\<rparr>]"
  have doc: "export_contacts mem_engine (Extension ''1001'') ?s = Inr ?doc"
    using listed by (simp add: export_contacts_def sample_contact_def)
  have short: "length ?doc \<le> upload_cap"
    by (simp add: encode_def encode_card_def crlf_def escape_def escape_byte_def upload_cap_def)
  have valid: "valid_extension (Extension ''2002'')"
    by (simp add: valid_extension_def valid_dialable_def dialable_char_def is_digit_char_def Let_def)
  have mints: "\<forall>m \<in> set [(''contac-00000000000002'', 9 :: time)]. valid_id (fst m)"
    by (simp add: valid_id_def)
  from vcard_transfer [OF mem_engine_laws ok valid mints _ listed doc short surjective_pairing refl]
  show ?thesis by (auto split: if_splits)
qed

end
