(* ===== verification/Store_Messages.thy ===== *)
theory Store_Messages
  imports Store_Rows
begin

text \<open>
  The writes of \<^verbatim>\<open>internal/store/messages.go\<close>: appending a message in one transaction,
  advancing an outbound message's delivery, thread flags, finding or creating a thread and
  marking it read, each with the code's error branches. A transaction that fails leaves
  the store it began with. \<open>find_thread\<close> runs three statements outside a transaction, so
  what other connections do between its lookup and its insert is the argument \<open>race\<close>.
\<close>

section \<open>Operations\<close>

definition lookup_thread :: "store \<Rightarrow> extension \<Rightarrow> address \<Rightarrow> thread_row option" where
  "lookup_thread st owner remote =
     select_one (\<lambda>t. tr_owner t = ext_string owner \<and>
         tr_network t = network_string (addr_network remote) \<and> tr_remote t = addr_value remote)
       (st_threads st)"

fun insert_attachments :: "faults \<Rightarrow> message_id \<Rightarrow> attachment list \<Rightarrow> store \<Rightarrow> err + store" where
  "insert_attachments fl mid [] st = Inr st"
| "insert_attachments fl mid (a # as) st =
     (let row = a\<lparr>att_message := mid\<rparr> in
      if fl ''store.attachment_insert'' (att_id a) \<or> \<not> attachment_insert_ok st row
      then Inl (Coded Infrastructure ''store.attachment_insert'')
      else insert_attachments fl mid as (st\<lparr>st_attachments := st_attachments st @ [row]\<rparr>))"

definition write_thread :: "faults \<Rightarrow> thread \<Rightarrow> bool \<Rightarrow> message \<Rightarrow> store \<Rightarrow> err + store" where
  "write_thread fl t existed m st =
     (if \<not> existed then
        let row = \<lparr>tr_id = thr_id t, tr_owner = ext_string (msg_owner m),
                   tr_network = network_string (addr_network (msg_remote m)),
                   tr_remote = addr_value (msg_remote m), tr_last = unix (thr_last t),
                   tr_unread = thr_unread t, tr_pinned = 0,
                   tr_archived = bool_int (thr_archived t), tr_muted = 0\<rparr> in
        if fl ''store.thread_insert'' (thr_id t) \<or> \<not> thread_insert_ok st row
        then Inl (Coded Infrastructure ''store.thread_insert'')
        else Inr (st\<lparr>st_threads := st_threads st @ [row]\<rparr>)
      else if fl ''store.thread_update'' (thr_id t)
        then Inl (Coded Infrastructure ''store.thread_update'')
        else Inr (st\<lparr>st_threads := update_where
               (\<lambda>r. tr_id r = thr_id t \<and> tr_owner r = ext_string (msg_owner m))
               (\<lambda>r. r\<lparr>tr_last := unix (thr_last t), tr_unread := thr_unread t,
                      tr_archived := bool_int (thr_archived t)\<rparr>) (st_threads st)\<rparr>))"

definition zero_thread :: thread where
  "zero_thread =
     \<lparr>thr_id = [], thr_owner = Extension [],
      thr_remote = \<lparr>addr_network = Network_SMS, addr_value = []\<rparr>, thr_last = zero_time,
      thr_unread = 0, thr_pinned = False, thr_archived = False, thr_muted = False\<rparr>"

text \<open>The transaction body; \<open>Inl\<close> is the deferred rollback.\<close>

definition append_tx :: "faults \<Rightarrow> message \<Rightarrow> store \<Rightarrow> err + store" where
  "append_tx fl m st =
     (if fl ''store.tx_begin'' (msg_id m) then Inl (Coded Infrastructure ''store.tx_begin'')
      else if fl ''store.thread_lookup'' (msg_id m)
      then Inl (Coded Infrastructure ''store.thread_lookup'')
      else
        case (case lookup_thread st (msg_owner m) (msg_remote m) of
                None \<Rightarrow> Inr zero_thread
              | Some r \<Rightarrow>
                  (case must_id (tr_id r) of
                     Inl e \<Rightarrow> Inl e
                   | Inr tid \<Rightarrow>
                       Inr (zero_thread\<lparr>thr_id := tid, thr_owner := msg_owner m,
                              thr_remote := msg_remote m, thr_last := time_unix (tr_last r),
                              thr_unread := tr_unread r, thr_archived := (tr_archived r \<noteq> 0)\<rparr>))) of
          Inl e \<Rightarrow> Inl e
        | Inr existing \<Rightarrow>
            let t = append_to_thread existing m in
            case write_thread fl t (thr_id existing \<noteq> []) m st of
              Inl e \<Rightarrow> Inl e
            | Inr st1 \<Rightarrow>
                let row = message_row_of m (thr_id t) in
                if fl ''store.message_insert'' (msg_id m) \<or> \<not> message_insert_ok st1 row
                then Inl (Coded Infrastructure ''store.message_insert'')
                else
                  case insert_attachments fl (msg_id m) (msg_attachments m)
                         (st1\<lparr>st_messages := st_messages st1 @ [row]\<rparr>) of
                    Inl e \<Rightarrow> Inl e
                  | Inr st2 \<Rightarrow>
                      if fl ''store.tx_commit'' (msg_id m)
                      then Inl (Coded Infrastructure ''store.tx_commit'')
                      else Inr st2)"

definition append_message :: "faults \<Rightarrow> message \<Rightarrow> store \<Rightarrow> (err + unit) \<times> store" where
  "append_message fl m st =
     (case append_tx fl m st of Inl e \<Rightarrow> (Inl e, st) | Inr st' \<Rightarrow> (Inr (), st'))"

text \<open>An update that matched no row is the not-found miss.\<close>

definition updated_or_not_found :: "nat \<Rightarrow> err + unit" where
  "updated_or_not_found n = (if n = 0 then Inl Not_Found else Inr ())"

definition outbound_row :: "message_id \<Rightarrow> message_row \<Rightarrow> bool" where
  "outbound_row mid r \<longleftrightarrow> mr_id r = mid \<and> mr_direction r = direction_string Outbound"

definition set_delivery :: "delivery \<Rightarrow> message_row \<Rightarrow> message_row" where
  "set_delivery d r =
     r\<lparr>mr_status := status_string (dlv_status d), mr_ref := dlv_ref d,
       mr_fkind := failure_string (dlv_fkind d), mr_fdetail := dlv_fdetail d\<rparr>"

text \<open>The unique index refuses a reference another row already carries.\<close>

definition ref_clash :: "store \<Rightarrow> message_id \<Rightarrow> string \<Rightarrow> bool" where
  "ref_clash st mid ref \<longleftrightarrow>
     ref \<noteq> [] \<and> (\<exists>r \<in> set (st_messages st). mr_id r \<noteq> mid \<and> mr_ref r = ref) \<and>
     (\<exists>r \<in> set (st_messages st). outbound_row mid r)"

definition update_outbound_status ::
  "faults \<Rightarrow> message_id \<Rightarrow> delivery \<Rightarrow> store \<Rightarrow> (err + unit) \<times> store" where
  "update_outbound_status fl mid d st =
     (if fl ''store.outbound_status'' mid \<or> ref_clash st mid (dlv_ref d)
      then (Inl (Coded Infrastructure ''store.outbound_status''), st)
      else (updated_or_not_found (rows_affected (outbound_row mid) (st_messages st)),
            st\<lparr>st_messages := update_where (outbound_row mid) (set_delivery d) (st_messages st)\<rparr>))"

definition message_by_provider_ref :: "faults \<Rightarrow> string \<Rightarrow> store \<Rightarrow> err + message" where
  "message_by_provider_ref fl ref st =
     (if ref = [] then Inl Not_Found
      else if fl ''store.message_scan'' ref then Inl (Coded Infrastructure ''store.message_scan'')
      else case select_one (\<lambda>r. mr_ref r = ref \<and> mr_direction r = direction_string Outbound)
                  (st_messages st) of
             None \<Rightarrow> Inl Not_Found
           | Some r \<Rightarrow> scan_message r)"

definition thread_flag_columns ::
  "string \<Rightarrow> (int \<Rightarrow> thread_row \<Rightarrow> thread_row) option" where
  "thread_flag_columns flag =
     (if flag = ''pinned'' then Some (\<lambda>v r. r\<lparr>tr_pinned := v\<rparr>)
      else if flag = ''archived'' then Some (\<lambda>v r. r\<lparr>tr_archived := v\<rparr>)
      else if flag = ''muted'' then Some (\<lambda>v r. r\<lparr>tr_muted := v\<rparr>)
      else None)"

definition own_thread :: "extension \<Rightarrow> thread_id \<Rightarrow> thread_row \<Rightarrow> bool" where
  "own_thread owner tid r \<longleftrightarrow> tr_id r = tid \<and> tr_owner r = ext_string owner"

definition set_thread_flag ::
  "faults \<Rightarrow> extension \<Rightarrow> thread_id \<Rightarrow> string \<Rightarrow> bool \<Rightarrow> store \<Rightarrow> (err + unit) \<times> store" where
  "set_thread_flag fl owner tid flag on st =
     (case thread_flag_columns flag of
        None \<Rightarrow> (Inl (Coded Rejection ''store.thread_flag''), st)
      | Some column \<Rightarrow>
          if fl ''store.thread_flag'' tid
          then (Inl (Coded Infrastructure ''store.thread_flag''), st)
          else (updated_or_not_found (rows_affected (own_thread owner tid) (st_threads st)),
                st\<lparr>st_threads := update_where (own_thread owner tid) (column (bool_int on))
                      (st_threads st)\<rparr>))"

definition find_thread ::
  "faults \<Rightarrow> (store \<Rightarrow> store) \<Rightarrow> extension \<Rightarrow> address \<Rightarrow> time \<Rightarrow> thread_id \<Rightarrow> store
     \<Rightarrow> (err + thread_id) \<times> store" where
  "find_thread fl race owner remote now new_id st =
     (if fl ''store.thread_find'' new_id
      then (Inl (Coded Infrastructure ''store.thread_find''), st)
      else
        case lookup_thread st owner remote of
          Some r \<Rightarrow> (must_id (tr_id r), st)
        | None \<Rightarrow>
            let st1 = race st;
                row = \<lparr>tr_id = new_id, tr_owner = ext_string owner,
                       tr_network = network_string (addr_network remote),
                       tr_remote = addr_value remote, tr_last = unix now, tr_unread = 0,
                       tr_pinned = 0, tr_archived = 0, tr_muted = 0\<rparr> in
            if fl ''store.thread_insert'' new_id
            then (Inl (Coded Infrastructure ''store.thread_insert''), st1)
            else
              case (if lookup_thread st1 owner remote \<noteq> None then Some st1
                    else if thread_insert_ok st1 row
                    then Some (st1\<lparr>st_threads := st_threads st1 @ [row]\<rparr>)
                    else None) of
                None \<Rightarrow> (Inl (Coded Infrastructure ''store.thread_insert''), st1)
              | Some st2 \<Rightarrow>
                  if fl ''store.thread_reread'' new_id
                  then (Inl (Coded Infrastructure ''store.thread_reread''), st2)
                  else
                    case lookup_thread st2 owner remote of
                      None \<Rightarrow> (Inl (Coded Infrastructure ''store.thread_reread''), st2)
                    | Some r \<Rightarrow> (must_id (tr_id r), st2))"

definition mark_thread_read ::
  "faults \<Rightarrow> extension \<Rightarrow> thread_id \<Rightarrow> store \<Rightarrow> (err + unit) \<times> store" where
  "mark_thread_read fl owner tid st =
     (if fl ''store.thread_mark_read'' tid
      then (Inl (Coded Infrastructure ''store.thread_mark_read''), st)
      else (Inr (), st\<lparr>st_threads := update_where (own_thread owner tid)
                          (\<lambda>r. r\<lparr>tr_unread := 0\<rparr>) (st_threads st)\<rparr>))"

section \<open>The invariant under row operations\<close>

lemma store_inv_update_threads:
  assumes inv: "store_inv st"
    and id: "\<And>r. tr_id (f r) = tr_id r" and key: "\<And>r. thread_key (f r) = thread_key r"
    and valid: "\<And>r. r \<in> set (st_threads st) \<Longrightarrow> P r \<Longrightarrow> valid_thread_row r \<Longrightarrow> valid_thread_row (f r)"
  shows "store_inv (st\<lparr>st_threads := update_where P f (st_threads st)\<rparr>)"
proof -
  let ?us = "update_where P f (st_threads st)"
  have "map tr_id ?us = map tr_id (st_threads st)" "map thread_key ?us = map thread_key (st_threads st)"
    by (simp_all add: map_update_where_frame id key)
  moreover have "\<forall>t \<in> set ?us. valid_thread_row t"
    using inv valid by (auto simp: set_update_where store_inv_def)
  moreover have "\<exists>u \<in> set ?us. tr_id u = mr_thread m \<and> thread_key u = message_key m"
    if "m \<in> set (st_messages st)" for m
  proof -
    from inv that obtain t where "t \<in> set (st_threads st)" "tr_id t = mr_thread m"
      "thread_key t = message_key m"
      unfolding store_inv_def by blast
    then show ?thesis
      by (intro bexI [of _ "if P t then f t else t"]) (auto simp: id key update_where_def)
  qed
  ultimately show ?thesis using inv by (simp add: store_inv_def)
qed

lemma store_inv_insert_thread:
  assumes "store_inv st" "valid_thread_row t" "thread_insert_ok st t"
  shows "store_inv (st\<lparr>st_threads := st_threads st @ [t]\<rparr>)"
proof -
  have "\<forall>m \<in> set (st_messages st). \<exists>u \<in> set (st_threads st @ [t]).
      tr_id u = mr_thread m \<and> thread_key u = message_key m"
    using assms(1) unfolding store_inv_def by (metis Un_iff set_append)
  with assms show ?thesis by (auto simp: store_inv_def thread_insert_ok_def)
qed

lemma store_inv_insert_message:
  assumes inv: "store_inv st" and valid: "valid_message_row m" and ok: "message_insert_ok st m"
    and thr: "t \<in> set (st_threads st)" "tr_id t = mr_thread m" "thread_key t = message_key m"
  shows "store_inv (st\<lparr>st_messages := st_messages st @ [m]\<rparr>)"
proof -
  have "distinct (map mr_ref (filter (\<lambda>m. mr_ref m \<noteq> []) (st_messages st @ [m])))"
    using inv ok by (auto simp: store_inv_def message_insert_ok_def)
  moreover have "\<forall>n \<in> set (st_messages st @ [m]). valid_message_row n \<and>
      (\<exists>t \<in> set (st_threads st). tr_id t = mr_thread n \<and> thread_key t = message_key n)"
    using inv valid thr unfolding store_inv_def by auto
  moreover have "\<forall>a \<in> set (st_attachments st). valid_id (att_id a) \<and>
      (\<exists>n \<in> set (st_messages st @ [m]). mr_id n = att_message a)"
    using inv unfolding store_inv_def by (metis Un_iff set_append)
  ultimately show ?thesis using inv ok by (simp add: store_inv_def message_insert_ok_def)
qed

lemma store_inv_insert_attachment:
  assumes "store_inv st" "valid_id (att_id a)" "attachment_insert_ok st a"
  shows "store_inv (st\<lparr>st_attachments := st_attachments st @ [a]\<rparr>)"
  using assms by (auto simp: store_inv_def attachment_insert_ok_def)

lemma distinct_nonempty_map:
  assumes "distinct (map k (filter (\<lambda>r. k r \<noteq> z) rs))"
    and "distinct (map i rs)"
    and "\<And>r. i (f r) = i r"
    and "\<And>r. P r \<longleftrightarrow> (Q r \<and> i r = x)"
    and "\<And>r. k (f r) = y"
    and "y \<noteq> z \<longrightarrow> (\<forall>r \<in> set rs. i r \<noteq> x \<longrightarrow> k r \<noteq> y)"
  shows "distinct (map k (filter (\<lambda>r. k r \<noteq> z) (update_where P f rs)))"
  using assms(1,2,6)
proof (induction rs)
  case Nil
  then show ?case by (simp add: update_where_def)
next
  case (Cons r rs)
  have IH: "distinct (map k (filter (\<lambda>r. k r \<noteq> z) (update_where P f rs)))"
    using Cons by (auto split: if_splits)
  have old: "k r \<notin> k ` {s \<in> set rs. k s \<noteq> z}" if "k r \<noteq> z" using Cons.prems(1) that by auto
  show ?case
  proof (cases "P r")
    case True
    then have "i r = x" using assms(4) by blast
    with Cons.prems(2) have others: "\<forall>s \<in> set rs. i s \<noteq> x" by (auto simp: image_iff)
    then have "\<forall>s \<in> set rs. \<not> P s" using assms(4) by blast
    then have same: "update_where P f rs = rs" by (rule update_where_none)
    from others Cons.prems(3) have "y \<noteq> z \<longrightarrow> (\<forall>s \<in> set rs. k s \<noteq> y)" by auto
    then show ?thesis using True IH same by (auto simp: row_simps assms(5))
  next
    case False
    have "k r \<notin> k ` {s \<in> set (update_where P f rs). k s \<noteq> z}" if "k r \<noteq> z"
    proof
      assume "k r \<in> k ` {s \<in> set (update_where P f rs). k s \<noteq> z}"
      then obtain s where s: "s \<in> set (update_where P f rs)" "k s = k r" by force
      then consider "s \<in> set rs" | q where "q \<in> set rs" "P q" "s = f q"
        by (auto simp: set_update_where)
      then show False
      proof cases
        case 1
        with old [OF that] s that show False by (auto simp: image_iff)
      next
        case 2
        then have "k r = y" "i q = x" using s assms(4,5) by auto
        moreover have "i r \<noteq> i q" using Cons.prems(2) 2 by auto
        ultimately show False using Cons.prems(3) that by auto
      qed
    qed
    then show ?thesis using False IH by (auto simp: row_simps)
  qed
qed

lemma store_inv_set_delivery:
  assumes inv: "store_inv st" and clash: "\<not> ref_clash st mid (dlv_ref d)"
    and status: "dlv_status d \<noteq> No_Status"
  shows "store_inv (st\<lparr>st_messages := update_where (outbound_row mid) (set_delivery d) (st_messages st)\<rparr>)"
proof (cases "\<exists>r \<in> set (st_messages st). outbound_row mid r")
  case False
  then show ?thesis using inv update_where_none [of "st_messages st" "outbound_row mid"] by simp
next
  case True
  let ?us = "update_where (outbound_row mid) (set_delivery d) (st_messages st)"
  have id: "mr_id (set_delivery d r) = mr_id r" "message_key (set_delivery d r) = message_key r"
    "mr_thread (set_delivery d r) = mr_thread r" for r
    by (simp_all add: set_delivery_def message_key_def)
  have refs: "distinct (map mr_ref (filter (\<lambda>m. mr_ref m \<noteq> []) ?us))"
  proof (rule distinct_nonempty_map [where i = mr_id and x = mid and y = "dlv_ref d"
        and Q = "\<lambda>r. mr_direction r = direction_string Outbound"])
    show "dlv_ref d \<noteq> [] \<longrightarrow> (\<forall>r \<in> set (st_messages st). mr_id r \<noteq> mid \<longrightarrow> mr_ref r \<noteq> dlv_ref d)"
      using clash True by (auto simp: ref_clash_def)
  qed (use inv in \<open>auto simp: store_inv_def outbound_row_def set_delivery_def\<close>)
  have valid: "valid_message_row (set_delivery d r)" if "valid_message_row r" "outbound_row mid r" for r
  proof -
    from that have "mr_direction r = direction_string Outbound" by (simp add: outbound_row_def)
    with that(1) status show ?thesis
      unfolding valid_message_row_def set_delivery_def
      by (auto intro!: exI [of _ Outbound] exI [of _ "dlv_status d"])
  qed
  have rows: "\<forall>m \<in> set ?us. valid_message_row m \<and>
      (\<exists>t \<in> set (st_threads st). tr_id t = mr_thread m \<and> thread_key t = message_key m)"
  proof
    fix m assume "m \<in> set ?us"
    then consider "m \<in> set (st_messages st)"
      | r where "r \<in> set (st_messages st)" "outbound_row mid r" "m = set_delivery d r"
      by (auto simp: set_update_where)
    then show "valid_message_row m \<and>
      (\<exists>t \<in> set (st_threads st). tr_id t = mr_thread m \<and> thread_key t = message_key m)"
    proof cases
      case 1
      then show ?thesis using inv by (simp add: store_inv_def)
    next
      case 2
      then show ?thesis using inv valid id by (auto simp: store_inv_def)
    qed
  qed
  have "map mr_id ?us = map mr_id (st_messages st)" by (simp add: map_update_where_frame id)
  then have "distinct (map mr_id ?us)" and "mr_id ` set ?us = mr_id ` set (st_messages st)"
    using inv by (simp_all add: store_inv_def flip: set_map)
  then have "\<forall>a \<in> set (st_attachments st). valid_id (att_id a) \<and>
      (\<exists>m \<in> set ?us. mr_id m = att_message a)"
    using inv unfolding store_inv_def by (metis (no_types, lifting) image_iff)
  with refs rows \<open>distinct (map mr_id ?us)\<close> show ?thesis using inv by (simp add: store_inv_def)
qed

section \<open>The transaction of an append\<close>

definition address_key :: "extension \<Rightarrow> address \<Rightarrow> string \<times> string \<times> string" where
  "address_key owner remote =
     (ext_string owner, network_string (addr_network remote), addr_value remote)"

lemma lookup_thread_Some:
  "lookup_thread st owner remote = Some r \<Longrightarrow>
     r \<in> set (st_threads st) \<and> thread_key r = address_key owner remote"
  unfolding lookup_thread_def by (drule select_one_Some) (simp add: thread_key_def address_key_def)

lemma lookup_thread_None:
  "lookup_thread st owner remote = None \<longleftrightarrow> address_key owner remote \<notin> thread_key ` set (st_threads st)"
  by (auto simp: lookup_thread_def select_one_None thread_key_def address_key_def image_iff)

lemma lookup_thread_unique:
  assumes "store_inv st" "t \<in> set (st_threads st)" "thread_key t = address_key owner remote"
  shows "lookup_thread st owner remote = Some t"
  unfolding lookup_thread_def
proof (rule select_one_unique)
  fix q assume "q \<in> set (st_threads st)" "tr_owner q = ext_string owner \<and>
    tr_network q = network_string (addr_network remote) \<and> tr_remote q = addr_value remote"
  then show "q = t" using assms store_inv_thread_key_unique [of st q t]
    by (simp add: thread_key_def address_key_def)
qed (use assms in \<open>auto simp: thread_key_def address_key_def\<close>)

lemma insert_attachments_ok:
  assumes "insert_attachments fl mid as st = Inr st'"
  shows "st' = st\<lparr>st_attachments := st_attachments st @ map (\<lambda>a. a\<lparr>att_message := mid\<rparr>) as\<rparr> \<and>
    (store_inv st \<longrightarrow> (\<forall>a \<in> set as. valid_id (att_id a)) \<longrightarrow> store_inv st')"
  using assms
proof (induction as arbitrary: st)
  case Nil
  then show ?case by simp
next
  case (Cons a as)
  let ?row = "a\<lparr>att_message := mid\<rparr>"
  let ?st1 = "st\<lparr>st_attachments := st_attachments st @ [?row]\<rparr>"
  from Cons.prems have ok: "attachment_insert_ok st ?row" and rest: "insert_attachments fl mid as ?st1 = Inr st'"
    by (auto simp: Let_def split: if_splits)
  then have "store_inv ?st1" if "store_inv st" "valid_id (att_id a)"
    using that store_inv_insert_attachment [of st ?row] by simp
  with Cons.IH [OF rest] show ?case by auto
qed

lemma insert_attachments_only:
  "insert_attachments fl mid as st = Inr st' \<Longrightarrow>
     st_threads st' = st_threads st \<and> st_messages st' = st_messages st"
  by (drule insert_attachments_ok) simp

text \<open>The thread row an append writes.\<close>

definition advance_row :: "message \<Rightarrow> thread_row \<Rightarrow> thread_row" where
  "advance_row m r =
     r\<lparr>tr_last := unix (msg_created m),
       tr_unread := tr_unread r + (if msg_direction m = Inbound then 1 else 0),
       tr_archived := bool_int (msg_direction m \<noteq> Inbound \<and> tr_archived r \<noteq> 0)\<rparr>"

definition birth_row :: "message \<Rightarrow> thread_row" where
  "birth_row m =
     \<lparr>tr_id = msg_thread m, tr_owner = ext_string (msg_owner m),
      tr_network = network_string (addr_network (msg_remote m)), tr_remote = addr_value (msg_remote m),
      tr_last = unix (msg_created m), tr_unread = (if msg_direction m = Inbound then 1 else 0),
      tr_pinned = 0, tr_archived = 0, tr_muted = 0\<rparr>"

lemma valid_birth_row:
  assumes "valid_message m" shows "valid_thread_row (birth_row m)"
proof -
  have "valid_extension (Extension (ext_string (msg_owner m)))" "canonical_address (msg_remote m)"
    "valid_id (msg_thread m)"
    using assms by (simp_all add: valid_message_def)
  then show ?thesis unfolding valid_thread_row_def birth_row_def by auto
qed

lemma advance_row_frame [simp]:
  "tr_id (advance_row m r) = tr_id r" "thread_key (advance_row m r) = thread_key r"
  "tr_owner (advance_row m r) = tr_owner r"
  by (simp_all add: advance_row_def thread_key_def)

lemma valid_advance_row: "valid_thread_row r \<Longrightarrow> valid_thread_row (advance_row m r)"
  by (auto simp: valid_thread_row_def advance_row_def bool_int_def)

lemma update_where_cong:
  "(\<And>r. r \<in> set rs \<Longrightarrow> P r = Q r) \<Longrightarrow> (\<And>r. r \<in> set rs \<Longrightarrow> P r \<Longrightarrow> f r = g r) \<Longrightarrow>
     update_where P f rs = update_where Q g rs"
  by (simp add: update_where_def)

text \<open>
  What a successful append leaves: the thread row found and advanced, or born; the message
  row behind all others; its attachments behind all others.
\<close>

lemma append_tx_ok:
  assumes inv: "store_inv st" and valid: "valid_message m" and ok: "append_tx fl m st = Inr st'"
  obtains (found) r where "lookup_thread st (msg_owner m) (msg_remote m) = Some r"
      "st_threads st' = update_where (\<lambda>q. tr_id q = tr_id r) (advance_row m) (st_threads st)"
      "st_messages st' = st_messages st @ [message_row_of m (tr_id r)]"
      "st_attachments st' = st_attachments st @ map (\<lambda>a. a\<lparr>att_message := msg_id m\<rparr>) (msg_attachments m)"
      "store_inv st'"
    | (born) "lookup_thread st (msg_owner m) (msg_remote m) = None"
      "msg_thread m \<notin> tr_id ` set (st_threads st)"
      "st_threads st' = st_threads st @ [birth_row m]"
      "st_messages st' = st_messages st @ [message_row_of m (msg_thread m)]"
      "st_attachments st' = st_attachments st @ map (\<lambda>a. a\<lparr>att_message := msg_id m\<rparr>) (msg_attachments m)"
      "store_inv st'"
proof (cases "lookup_thread st (msg_owner m) (msg_remote m)")
  case None
  have ids: "msg_thread m \<noteq> []" using valid by (auto simp: valid_message_def valid_id_def)
  let ?st1 = "st\<lparr>st_threads := st_threads st @ [birth_row m]\<rparr>"
  let ?row = "message_row_of m (msg_thread m)"
  let ?st2 = "?st1\<lparr>st_messages := st_messages ?st1 @ [?row]\<rparr>"
  have row: "thr_id (append_to_thread zero_thread m) = msg_thread m"
    "\<lparr>tr_id = msg_thread m, tr_owner = ext_string (msg_owner m),
      tr_network = network_string (addr_network (msg_remote m)),
      tr_remote = addr_value (msg_remote m), tr_last = unix (msg_created m),
      tr_unread = thr_unread (append_to_thread zero_thread m), tr_pinned = 0,
      tr_archived = bool_int (thr_archived (append_to_thread zero_thread m)), tr_muted = 0\<rparr>
     = birth_row m"
    by (simp_all add: append_to_thread_def zero_thread_def Let_def birth_row_def bool_int_def)
  have zid: "thr_id zero_thread = []" by (simp add: zero_thread_def)
  have ins: "thread_insert_ok st (birth_row m)" "message_insert_ok ?st1 ?row"
    "insert_attachments fl (msg_id m) (msg_attachments m) ?st2 = Inr st'"
    using ok None row
    by (auto simp: append_tx_def write_thread_def Let_def zid split: if_splits sum.splits)
  have inv1: "store_inv ?st1"
    using inv valid_birth_row [OF valid] ins(1) by (rule store_inv_insert_thread)
  have vrow: "valid_message_row ?row"
    using valid by (intro valid_row_of) (simp_all add: valid_message_def)
  have "birth_row m \<in> set (st_threads ?st1)" "tr_id (birth_row m) = mr_thread ?row"
    "thread_key (birth_row m) = message_key ?row"
    by (simp_all add: birth_row_def message_row_of_def thread_key_def message_key_def)
  then have inv2: "store_inv ?st2"
    using store_inv_insert_message [OF inv1 vrow ins(2)] by blast
  have "\<forall>a \<in> set (msg_attachments m). valid_id (att_id a)" using valid by (simp add: valid_message_def)
  with insert_attachments_ok [OF ins(3)] inv2
  have fin: "st' = ?st2\<lparr>st_attachments := st_attachments ?st2 @
        map (\<lambda>a. a\<lparr>att_message := msg_id m\<rparr>) (msg_attachments m)\<rparr>" and "store_inv st'"
    by blast+
  have "msg_thread m \<notin> tr_id ` set (st_threads st)"
    using ins(1) by (simp add: thread_insert_ok_def birth_row_def)
  with None fin \<open>store_inv st'\<close> show ?thesis by (intro born) simp_all
next
  case (Some r)
  note r = lookup_thread_Some [OF Some]
  then have vr: "valid_thread_row r" using inv by (simp add: store_inv_def)
  then have rid: "valid_id (tr_id r)" "must_id (tr_id r) = Inr (tr_id r)" "tr_id r \<noteq> []"
    by (auto simp: valid_thread_row_def must_id_raw valid_id_def)
  let ?ts = "update_where (\<lambda>q. tr_id q = tr_id r) (advance_row m) (st_threads st)"
  let ?ex = "zero_thread\<lparr>thr_id := tr_id r, thr_owner := msg_owner m, thr_remote := msg_remote m,
      thr_last := time_unix (tr_last r), thr_unread := tr_unread r, thr_archived := (tr_archived r \<noteq> 0)\<rparr>"
  have exid: "thr_id ?ex = tr_id r" "thr_id (append_to_thread ?ex m) = tr_id r"
    using rid(3) append_to_thread_id [of ?ex m] by simp_all
  have ts: "update_where (\<lambda>q. tr_id q = tr_id r \<and> tr_owner q = ext_string (msg_owner m))
      (\<lambda>q. q\<lparr>tr_last := unix (msg_created m), tr_unread := thr_unread (append_to_thread ?ex m),
         tr_archived := bool_int (thr_archived (append_to_thread ?ex m))\<rparr>) (st_threads st) = ?ts"
  proof (rule update_where_cong)
    fix q assume q: "q \<in> set (st_threads st)"
    show *: "(tr_id q = tr_id r \<and> tr_owner q = ext_string (msg_owner m)) = (tr_id q = tr_id r)"
      using store_inv_thread_unique [OF inv q, of r] r by (auto simp: thread_key_def address_key_def)
    assume "tr_id q = tr_id r \<and> tr_owner q = ext_string (msg_owner m)"
    then have "q = r" using store_inv_thread_unique [OF inv q, of r] r by blast
    then show "q\<lparr>tr_last := unix (msg_created m), tr_unread := thr_unread (append_to_thread ?ex m),
         tr_archived := bool_int (thr_archived (append_to_thread ?ex m))\<rparr> = advance_row m q"
      by (simp add: advance_row_def append_to_thread_unread append_to_thread_archived)
  qed
  let ?st1 = "st\<lparr>st_threads := ?ts\<rparr>"
  let ?row = "message_row_of m (tr_id r)"
  let ?st2 = "?st1\<lparr>st_messages := st_messages ?st1 @ [?row]\<rparr>"
  have ins: "message_insert_ok ?st1 ?row"
    "insert_attachments fl (msg_id m) (msg_attachments m) ?st2 = Inr st'"
    using ok Some rid exid ts
    by (auto simp: append_tx_def write_thread_def Let_def split: if_splits sum.splits)
  have inv1: "store_inv ?st1"
    using inv by (rule store_inv_update_threads) (simp_all add: valid_advance_row)
  have vrow: "valid_message_row ?row" using valid rid(1) by (rule valid_row_of)
  have "advance_row m r \<in> set (st_threads ?st1)" "tr_id (advance_row m r) = mr_thread ?row"
    "thread_key (advance_row m r) = message_key ?row"
    using r by (auto simp: set_update_where message_row_of_def message_key_def address_key_def)
  then have inv2: "store_inv ?st2"
    using store_inv_insert_message [OF inv1 vrow ins(1)] by blast
  have "\<forall>a \<in> set (msg_attachments m). valid_id (att_id a)" using valid by (simp add: valid_message_def)
  with insert_attachments_ok [OF ins(2)] inv2
  have "st' = ?st2\<lparr>st_attachments := st_attachments ?st2 @
        map (\<lambda>a. a\<lparr>att_message := msg_id m\<rparr>) (msg_attachments m)\<rparr>" and "store_inv st'"
    by blast+
  with Some show ?thesis by (intro found) simp_all
qed

text \<open>Whatever the tables held, a successful append leaves the message's row.\<close>

lemma append_tx_row:
  assumes "append_tx fl m st = Inr st'"
  shows "msg_id m \<in> mr_id ` set (st_messages st')"
proof -
  from assms obtain st1 thr where ins: "insert_attachments fl (msg_id m) (msg_attachments m)
      (st1\<lparr>st_messages := st_messages st1 @ [message_row_of m thr]\<rparr>) = Inr st'"
    by (auto simp: append_tx_def Let_def split: if_splits sum.splits)
  from insert_attachments_only [OF this] show ?thesis by (simp add: message_row_of_def)
qed

end
