(* ===== verification/Store_Queries.thy ===== *)
theory Store_Queries
  imports Store_Messages
begin

text \<open>
  The reads of \<^verbatim>\<open>internal/store/messages.go\<close>: transcripts and their pages, the attachment
  hydration with its chunk loop, thread summaries, the text search with its \<^verbatim>\<open>LIKE\<close>
  pattern, and the lookups by id. Where a statement leaves the order of equal keys open
  the model keeps rowid order.
\<close>

section \<open>Attachment hydration\<close>

text \<open>\<^verbatim>\<open>slices.Chunk\<close>.\<close>

fun chunks :: "nat \<Rightarrow> 'a list \<Rightarrow> 'a list list" where
  "chunks n xs = (if n = 0 \<or> xs = [] then [] else take n xs # chunks n (drop n xs))"

declare chunks.simps [simp del]

text \<open>One chunk's query: the attachment rows of its messages, ordered by name.\<close>

definition chunk_rows :: "store \<Rightarrow> message list \<Rightarrow> attachment list" where
  "chunk_rows st chunk =
     sort_key att_name (filter (\<lambda>a. att_message a \<in> set (map msg_id chunk)) (st_attachments st))"

definition scan_attachment_row :: "faults \<Rightarrow> attachment \<Rightarrow> err + attachment" where
  "scan_attachment_row fl a =
     (if fl ''store.attachment_scan'' (att_id a)
      then Inl (Coded Infrastructure ''store.attachment_scan'')
      else scan_attachment a)"

text \<open>
  The grouping map, as the function from a stored message id to the scanned attachments
  appended under it; and the write back, at \<^verbatim>\<open>msgs[len(msgs)-len(chunk)+i]\<close>.
\<close>

definition by_message :: "(attachment \<times> attachment) list \<Rightarrow> string \<Rightarrow> attachment list" where
  "by_message scanned mid = map snd (filter (\<lambda>(row, a). att_message row = mid) scanned)"

definition write_back :: "(string \<Rightarrow> attachment list) \<Rightarrow> message list \<Rightarrow> message list \<Rightarrow> message list" where
  "write_back grouped chunk msgs =
     fold (\<lambda>i ms. let j = length msgs - length chunk + i in
                  ms[j := (ms ! j)\<lparr>msg_attachments := grouped (msg_id (chunk ! i))\<rparr>])
       [0..<length chunk] msgs"

fun attach_chunks :: "faults \<Rightarrow> store \<Rightarrow> message list list \<Rightarrow> message list \<Rightarrow> err + message list" where
  "attach_chunks fl st [] msgs = Inr msgs"
| "attach_chunks fl st (chunk # rest) msgs =
     (if fl ''store.attachments_list'' [] then Inl (Coded Infrastructure ''store.attachments_list'')
      else
        let rows = chunk_rows st chunk in
        case scan_all (scan_attachment_row fl) rows of
          Inl e \<Rightarrow> Inl e
        | Inr scanned \<Rightarrow>
            if fl ''store.attachments_rows'' [] then Inl (Coded Infrastructure ''store.attachments_rows'')
            else attach_chunks fl st rest
                   (write_back (by_message (zip rows scanned)) chunk msgs))"

definition chunk_size :: nat where
  "chunk_size = 500"

definition attach_attachments :: "faults \<Rightarrow> store \<Rightarrow> message list \<Rightarrow> err + message list" where
  "attach_attachments fl st msgs =
     (if msgs = [] then Inr [] else attach_chunks fl st (chunks chunk_size msgs) msgs)"

section \<open>Transcripts\<close>

definition transcript_rows :: "store \<Rightarrow> extension \<Rightarrow> thread_id \<Rightarrow> message_row list" where
  "transcript_rows st owner tid =
     newest_first mr_created
       (filter (\<lambda>m. mr_owner m = ext_string owner \<and> mr_thread m = tid) (st_messages st))"

definition list_messages ::
  "faults \<Rightarrow> store \<Rightarrow> extension \<Rightarrow> thread_id \<Rightarrow> nat \<Rightarrow> err + message list" where
  "list_messages fl st owner tid limit =
     (case list_rows fl ''list messages'' (take limit (transcript_rows st owner tid)) scan_message of
        Inl e \<Rightarrow> Inl e
      | Inr msgs \<Rightarrow>
          (case attach_attachments fl st msgs of Inl e \<Rightarrow> Inl e | Inr ms \<Rightarrow> Inr (rev ms)))"

definition list_messages_page ::
  "faults \<Rightarrow> store \<Rightarrow> extension \<Rightarrow> thread_id \<Rightarrow> int \<Rightarrow> nat \<Rightarrow> err + message list \<times> bool" where
  "list_messages_page fl st owner tid page limit =
     (let p = nat (if page < 0 then 0 else page) in
      case list_rows fl ''list messages'' (window (p * limit) (limit + 1) (transcript_rows st owner tid))
             scan_message of
        Inl e \<Rightarrow> Inl e
      | Inr msgs \<Rightarrow>
          let has_more = length msgs > limit;
              shown = (if has_more then take limit msgs else msgs) in
          case attach_attachments fl st shown of
            Inl e \<Rightarrow> Inl e
          | Inr ms \<Rightarrow> Inr (rev ms, has_more))"

section \<open>Thread lists\<close>

record thread_summary =
  sum_thread :: thread
  sum_last :: "(string \<times> direction \<times> channel) option"
  sum_attachment :: bool

text \<open>The last message of the join: \<^verbatim>\<open>ORDER BY created_at DESC, rowid DESC LIMIT 1\<close>.\<close>

definition last_message :: "store \<Rightarrow> thread_row \<Rightarrow> message_row option" where
  "last_message st t =
     (case newest_first mr_created (filter (\<lambda>m. mr_thread m = tr_id t) (st_messages st)) of
        [] \<Rightarrow> None | m # _ \<Rightarrow> Some m)"

definition scan_summary :: "faults \<Rightarrow> store \<Rightarrow> thread_row \<Rightarrow> err + thread_summary" where
  "scan_summary fl st t =
     (if fl ''store.thread_scan'' (tr_id t) then Inl (Coded Infrastructure ''store.thread_scan'')
      else
        case scan_thread t of
          Inl e \<Rightarrow> Inl e
        | Inr thr \<Rightarrow>
            (case last_message st t of
               None \<Rightarrow> Inr \<lparr>sum_thread = thr, sum_last = None, sum_attachment = False\<rparr>
             | Some m \<Rightarrow>
                 (case (must (parse_direction (mr_direction m)), must (parse_channel (mr_channel m))) of
                    (Inr d, Inr c) \<Rightarrow>
                      Inr \<lparr>sum_thread = thr, sum_last = Some (mr_body m, d, c),
                           sum_attachment = (\<exists>a \<in> set (st_attachments st). att_message a = mr_id m)\<rparr>
                  | _ \<Rightarrow> Inl Panic)))"

text \<open>\<^verbatim>\<open>ORDER BY pinned DESC, last_activity_at DESC\<close>.\<close>

definition thread_order :: "thread_row list \<Rightarrow> thread_row list" where
  "thread_order ts = sort_key (\<lambda>t. - tr_pinned t) (sort_key (\<lambda>t. - tr_last t) ts)"

definition list_threads :: "faults \<Rightarrow> store \<Rightarrow> extension \<Rightarrow> err + thread_summary list" where
  "list_threads fl st owner =
     list_rows fl ''list threads''
       (thread_order (filter (\<lambda>t. tr_owner t = ext_string owner \<and> tr_archived t = 0) (st_threads st)))
       (scan_summary fl st)"

definition list_archived_threads :: "faults \<Rightarrow> store \<Rightarrow> extension \<Rightarrow> err + thread_summary list" where
  "list_archived_threads fl st owner =
     list_rows fl ''list archived threads''
       (thread_order (filter (\<lambda>t. tr_owner t = ext_string owner \<and> tr_archived t = 1) (st_threads st)))
       (scan_summary fl st)"

definition count_archived :: "faults \<Rightarrow> store \<Rightarrow> extension \<Rightarrow> err + nat" where
  "count_archived fl st owner =
     (if fl ''store.count_archived'' (ext_string owner)
      then Inl (Coded Infrastructure ''store.count_archived'')
      else Inr (rows_affected (\<lambda>t. tr_owner t = ext_string owner \<and> tr_archived t = 1) (st_threads st)))"

definition list_all_threads :: "faults \<Rightarrow> store \<Rightarrow> nat \<Rightarrow> err + thread_summary list" where
  "list_all_threads fl st limit =
     (if fl ''store.threads_list_all'' [] then Inl (Coded Infrastructure ''store.threads_list_all'')
      else
        case scan_all (scan_summary fl st) (take limit (sort_key (\<lambda>t. - tr_last t) (st_threads st))) of
          Inl Panic \<Rightarrow> Inl Panic
        | Inl _ \<Rightarrow> Inl (Coded Infrastructure ''store.threads_list_all'')
        | Inr sums \<Rightarrow> Inr sums)"

section \<open>Search\<close>

text \<open>\<^verbatim>\<open>likeEscape\<close>: the replacer of the three metacharacters.\<close>

definition like_escape :: "string \<Rightarrow> string" where
  "like_escape needle =
     concat (map (\<lambda>c. if c = CHR 0x5C \<or> c = CHR ''%'' \<or> c = CHR ''_'' then [CHR 0x5C, c] else [c]) needle)"

text \<open>
  SQLite's \<^verbatim>\<open>LIKE ... ESCAPE '\'\<close>: a percent sign matches any sequence, an underscore one
  character (its first byte and the continuation bytes that follow), an escaped character
  itself, every other character itself up to the case of ASCII letters.
\<close>

definition is_continuation :: "char \<Rightarrow> bool" where
  "is_continuation c \<longleftrightarrow> (let n = of_char c :: nat in 128 \<le> n \<and> n < 192)"

datatype like_token = Any_Run | One_Char | Lit char | Never

fun like_tokens :: "string \<Rightarrow> like_token list" where
  "like_tokens [] = []"
| "like_tokens (c # p) =
     (if c = CHR ''%'' then Any_Run # like_tokens p
      else if c = CHR ''_'' then One_Char # like_tokens p
      else if c = CHR 0x5C then (case p of [] \<Rightarrow> [Never] | d # q \<Rightarrow> Lit d # like_tokens q)
      else Lit c # like_tokens p)"

function like_match :: "like_token list \<Rightarrow> string \<Rightarrow> bool" where
  "like_match [] s \<longleftrightarrow> s = []"
| "like_match (Any_Run # ts) s \<longleftrightarrow>
     like_match ts s \<or> (case s of [] \<Rightarrow> False | _ # s' \<Rightarrow> like_match (Any_Run # ts) s')"
| "like_match (One_Char # ts) s \<longleftrightarrow>
     (case s of [] \<Rightarrow> False | _ # s' \<Rightarrow> like_match ts (dropWhile is_continuation s'))"
| "like_match (Lit c # ts) s \<longleftrightarrow>
     (case s of [] \<Rightarrow> False | d # s' \<Rightarrow> lower_byte c = lower_byte d \<and> like_match ts s')"
| "like_match (Never # ts) s \<longleftrightarrow> False"
  by pat_completeness auto
termination
  by (relation "measures [\<lambda>(ts, s). length ts, \<lambda>(ts, s). length s]") auto

definition like :: "string \<Rightarrow> string \<Rightarrow> bool" where
  "like pattern s \<longleftrightarrow> like_match (like_tokens pattern) s"

definition search_hit :: "store \<Rightarrow> extension \<Rightarrow> string \<Rightarrow> thread_row \<Rightarrow> bool" where
  "search_hit st owner pattern t \<longleftrightarrow>
     tr_owner t = ext_string owner \<and> tr_archived t = 0 \<and>
     (like pattern (tr_remote t) \<or>
      (\<exists>m \<in> set (st_messages st). mr_thread m = tr_id t \<and> mr_owner m = tr_owner t \<and>
         like pattern (mr_body m)))"

definition search_threads :: "faults \<Rightarrow> store \<Rightarrow> extension \<Rightarrow> string \<Rightarrow> err + thread_summary list" where
  "search_threads fl st owner needle =
     (let pattern = CHR ''%'' # like_escape needle @ ''%'' in
      list_rows fl ''search threads'' (thread_order (filter (search_hit st owner pattern) (st_threads st)))
        (scan_summary fl st))"

section \<open>Lookups by id\<close>

definition get_thread :: "faults \<Rightarrow> store \<Rightarrow> extension \<Rightarrow> thread_id \<Rightarrow> err + thread" where
  "get_thread fl st owner tid =
     (if fl ''store.thread_get'' tid then Inl (Coded Infrastructure ''store.thread_get'')
      else case select_one (own_thread owner tid) (st_threads st) of
             None \<Rightarrow> Inl Not_Found
           | Some r \<Rightarrow> thread_fields tid r)"

definition get_thread_any :: "faults \<Rightarrow> store \<Rightarrow> thread_id \<Rightarrow> err + thread" where
  "get_thread_any fl st tid =
     (if fl ''store.thread_get_any'' tid then Inl (Coded Infrastructure ''store.thread_get_any'')
      else case select_one (\<lambda>r. tr_id r = tid) (st_threads st) of
             None \<Rightarrow> Inl Not_Found
           | Some r \<Rightarrow> thread_fields tid r)"

definition attachment_by_id_any :: "faults \<Rightarrow> store \<Rightarrow> attachment_id \<Rightarrow> err + attachment" where
  "attachment_by_id_any fl st aid =
     (if fl ''store.attachment_get_any'' aid then Inl (Coded Infrastructure ''store.attachment_get_any'')
      else case select_one (\<lambda>a. att_id a = aid) (st_attachments st) of
             None \<Rightarrow> Inl Not_Found
           | Some a \<Rightarrow> scan_attachment a)"

definition attachment_by_id :: "faults \<Rightarrow> store \<Rightarrow> extension \<Rightarrow> attachment_id \<Rightarrow> err + attachment" where
  "attachment_by_id fl st owner aid =
     (if fl ''store.attachment_get'' aid then Inl (Coded Infrastructure ''store.attachment_get'')
      else case select_one (\<lambda>a. att_id a = aid \<and>
                  (\<exists>m \<in> set (st_messages st). mr_id m = att_message a \<and> mr_owner m = ext_string owner))
                (st_attachments st) of
             None \<Rightarrow> Inl Not_Found
           | Some a \<Rightarrow> scan_attachment a)"

section \<open>Lemmas on the chunk loop\<close>

lemma chunks_Nil [simp]: "chunks n [] = []"
  by (simp add: chunks.simps)

lemma chunks_one: "xs \<noteq> [] \<Longrightarrow> length xs \<le> n \<Longrightarrow> chunks n xs = [xs]"
  by (cases xs) (simp_all add: chunks.simps [of n "_ # _"])

lemma chunks_two:
  assumes "n < length xs" "length xs \<le> 2 * n"
  shows "chunks n xs = [take n xs, drop n xs]"
proof -
  have "n \<noteq> 0" "xs \<noteq> []" "drop n xs \<noteq> []" "length (drop n xs) \<le> n" using assms by auto
  then show ?thesis by (simp add: chunks.simps [of n xs] chunks_one)
qed

lemma concat_chunks: "n \<noteq> 0 \<Longrightarrow> concat (chunks n xs) = xs"
proof (induction n xs rule: chunks.induct)
  case (1 n xs)
  then show ?case by (subst chunks.simps) (auto simp: append_take_drop_id)
qed

lemma fold_update_window:
  fixes f :: "nat \<Rightarrow> 'a \<Rightarrow> 'a"
  assumes "off + k \<le> length xs"
  defines "go \<equiv> \<lambda>k. fold (\<lambda>i ys. ys[off + i := f i (ys ! (off + i))]) [0..<k] xs"
  shows "length (go k) = length xs \<and>
    (\<forall>p < length xs. go k ! p = (if off \<le> p \<and> p < off + k then f (p - off) (xs ! p) else xs ! p))"
  using assms(1)
proof (induction k)
  case 0
  then show ?case by (auto simp: go_def)
next
  case (Suc k)
  then have IH: "length (go k) = length xs"
    "\<And>p. p < length xs \<Longrightarrow> go k ! p = (if off \<le> p \<and> p < off + k then f (p - off) (xs ! p) else xs ! p)"
    by auto
  have step: "go (Suc k) = (go k)[off + k := f k (go k ! (off + k))]" by (simp add: go_def)
  have "go k ! (off + k) = xs ! (off + k)" using IH(2) [of "off + k"] Suc.prems by simp
  then show ?case using IH Suc.prems by (simp add: step nth_list_update less_Suc_eq)
qed

lemma write_back_fold:
  assumes "length chunk \<le> length msgs"
  shows "length (write_back g chunk msgs) = length msgs \<and>
    (\<forall>p < length msgs. write_back g chunk msgs ! p =
      (if length msgs - length chunk \<le> p
       then (msgs ! p)\<lparr>msg_attachments := g (msg_id (chunk ! (p - (length msgs - length chunk))))\<rparr>
       else msgs ! p))"
proof -
  let ?off = "length msgs - length chunk"
  have "?off + length chunk \<le> length msgs" using assms by simp
  from fold_update_window [OF this, of "\<lambda>i m. m\<lparr>msg_attachments := g (msg_id (chunk ! i))\<rparr>"] assms
  show ?thesis by (simp add: write_back_def Let_def)
qed

lemma write_back_nth:
  assumes "length chunk \<le> length msgs" "p < length msgs"
  shows "write_back g chunk msgs ! p =
    (if p < length msgs - length chunk then msgs ! p
     else (msgs ! p)\<lparr>msg_attachments := g (msg_id (chunk ! (p - (length msgs - length chunk))))\<rparr>)"
  using write_back_fold [of chunk msgs g] assms by simp

lemma length_write_back [simp]:
  "length chunk \<le> length msgs \<Longrightarrow> length (write_back g chunk msgs) = length msgs"
  using write_back_fold [of chunk msgs g] by simp

text \<open>The attachments the tables hold for a message, ordered by name.\<close>

definition attachments_of :: "store \<Rightarrow> message_id \<Rightarrow> attachment list" where
  "attachments_of st mid = sort_key att_name (filter (\<lambda>a. att_message a = mid) (st_attachments st))"

definition hydrate :: "store \<Rightarrow> message \<Rightarrow> message" where
  "hydrate st m = m\<lparr>msg_attachments := attachments_of st (msg_id m)\<rparr>"

lemma hydrate_id [simp]: "msg_id (hydrate st m) = msg_id m"
  by (simp add: hydrate_def)

lemma scan_attachment_valid:
  assumes "store_inv st" "a \<in> set (st_attachments st)"
  shows "scan_attachment a = Inr a"
proof -
  from assms obtain m where *: "valid_id (att_id a)" "m \<in> set (st_messages st)" "mr_id m = att_message a"
    unfolding store_inv_def by blast
  with assms(1) have "valid_id (mr_id m)" unfolding store_inv_def valid_message_row_def by blast
  with * have "valid_id (att_message a)" by simp
  with * show ?thesis by (simp add: scan_attachment_def must_id_raw)
qed

lemma scan_chunk_rows:
  assumes "store_inv st"
  shows "scan_all (scan_attachment_row no_faults) (chunk_rows st chunk) = Inr (chunk_rows st chunk)"
proof -
  have "scan_attachment_row no_faults a = Inr (id a)" if "a \<in> set (chunk_rows st chunk)" for a
    using scan_attachment_valid [OF assms, of a] that
    by (simp add: scan_attachment_row_def no_faults_simp chunk_rows_def)
  then show ?thesis by (subst scan_all_map [where f = id]) auto
qed

lemma by_message_chunk:
  assumes "mid \<in> set (map msg_id chunk)"
  shows "by_message (zip (chunk_rows st chunk) (chunk_rows st chunk)) mid = attachments_of st mid"
proof -
  have zip: "map snd (filter (\<lambda>(row, a). att_message row = mid) (zip xs xs))
      = filter (\<lambda>a. att_message a = mid) xs" for xs :: "attachment list"
    by (induction xs) auto
  have "filter (\<lambda>a. att_message a = mid \<and> att_message a \<in> set (map msg_id chunk)) (st_attachments st)
      = filter (\<lambda>a. att_message a = mid) (st_attachments st)"
    using assms by (intro filter_cong) auto
  then show ?thesis
    by (simp add: by_message_def zip chunk_rows_def attachments_of_def filter_sort conj_commute)
qed

lemma write_back_chunk:
  assumes "length chunk \<le> length msgs"
  shows "write_back (by_message (zip (chunk_rows st chunk) (chunk_rows st chunk))) chunk msgs
    = write_back (attachments_of st) chunk msgs"
proof (rule nth_equalityI)
  fix p assume "p < length (write_back (by_message (zip (chunk_rows st chunk) (chunk_rows st chunk))) chunk msgs)"
  then have p: "p < length msgs" using assms by simp
  show "write_back (by_message (zip (chunk_rows st chunk) (chunk_rows st chunk))) chunk msgs ! p
      = write_back (attachments_of st) chunk msgs ! p"
  proof (cases "p < length msgs - length chunk")
    case False
    then have "p - (length msgs - length chunk) < length chunk" using p assms by linarith
    then have "msg_id (chunk ! (p - (length msgs - length chunk))) \<in> set (map msg_id chunk)" by simp
    note by_message_chunk [OF this]
    then show ?thesis using p assms by (simp add: write_back_nth)
  qed (use p assms in \<open>simp add: write_back_nth\<close>)
qed (use assms in simp)

lemma attach_short:
  assumes inv: "store_inv st" and len: "length msgs \<le> chunk_size"
  shows "attach_attachments no_faults st msgs = Inr (map (hydrate st) msgs)"
proof (cases "msgs = []")
  case True
  then show ?thesis by (simp add: attach_attachments_def)
next
  case False
  have "write_back (attachments_of st) msgs msgs = map (hydrate st) msgs"
    by (rule nth_equalityI) (simp_all add: write_back_nth hydrate_def)
  then show ?thesis using False len
    by (simp add: attach_attachments_def chunks_one scan_chunk_rows [OF inv] write_back_chunk
        Let_def no_faults_simp scan_chunk_rows [OF inv, unfolded no_faults_simp])
qed

section \<open>Pages\<close>

text \<open>A message row as a transcript shows it: scanned, with its attachments.\<close>

definition message_view :: "store \<Rightarrow> message_row \<Rightarrow> message" where
  "message_view st r =
     (case scan_message r of Inr m \<Rightarrow> hydrate st m | Inl _ \<Rightarrow> undefined)"

definition page_view :: "store \<Rightarrow> extension \<Rightarrow> thread_id \<Rightarrow> nat \<Rightarrow> nat \<Rightarrow> message list" where
  "page_view st owner tid limit p =
     rev (map (message_view st) (window (p * limit) limit (transcript_rows st owner tid)))"

lemma transcript_rows_valid:
  "store_inv st \<Longrightarrow> r \<in> set (transcript_rows st owner tid) \<Longrightarrow> valid_message_row r"
  by (simp add: transcript_rows_def store_inv_def)

lemma scan_rows_view:
  assumes "store_inv st" "set rs \<subseteq> set (transcript_rows st owner tid)"
  shows "\<exists>ms. scan_all scan_message rs = Inr ms \<and> map (hydrate st) ms = map (message_view st) rs"
proof -
  have scan: "scan_message r = Inr (projr (scan_message r))" if "r \<in> set rs" for r
  proof -
    have "valid_message_row r" using transcript_rows_valid [OF assms(1)] assms(2) that by blast
    then obtain m where "scan_message r = Inr m" using scan_valid_message_row by blast
    then show ?thesis by simp
  qed
  then have "scan_all scan_message rs = Inr (map (\<lambda>r. projr (scan_message r)) rs)"
    by (rule scan_all_map)
  moreover have "hydrate st (projr (scan_message r)) = message_view st r" if "r \<in> set rs" for r
    using scan [OF that] by (metis message_view_def sum.case(2))
  ultimately show ?thesis by auto
qed

lemma list_rows_no_faults [simp]: "list_rows no_faults op rs scan = scan_all scan rs"
  by (simp add: list_rows_def no_faults_simp)

lemma set_window_rows: "set (take n (window o' l rs)) \<subseteq> set rs"
  by (meson dual_order.trans set_take_subset set_window)

lemma page_ok:
  assumes inv: "store_inv st" and limit: "limit \<le> chunk_size"
  shows "list_messages_page no_faults st owner tid (int p) limit
    = Inr (page_view st owner tid limit p, (p + 1) * limit < length (transcript_rows st owner tid))"
proof -
  let ?rows = "transcript_rows st owner tid"
  let ?win = "window (p * limit) (limit + 1) ?rows"
  from scan_rows_view [OF inv set_window] obtain ms where
    ms: "scan_all scan_message ?win = Inr ms" "map (hydrate st) ms = map (message_view st) ?win"
    by blast
  then have len: "length ms = min (limit + 1) (length ?rows - p * limit)"
    by (metis length_map length_window)
  have more: "length ms > limit \<longleftrightarrow> (p + 1) * limit < length ?rows"
    unfolding len by (auto simp: algebra_simps)
  have shown: "(if length ms > limit then take limit ms else ms) = take limit ms" by simp
  have "length (take limit ms) \<le> chunk_size" using limit by simp
  note att = attach_short [OF inv this]
  have "map (hydrate st) (take limit ms) = map (message_view st) (take limit ?win)"
    using ms(2) by (metis take_map)
  also have "take limit ?win = window (p * limit) limit ?rows" by (simp add: window_def)
  finally show ?thesis using ms(1) more att shown
    by (simp add: list_messages_page_def Let_def page_view_def)
qed

lemma pages_concat:
  "concat (map (\<lambda>p. rev (map f (window (p * l) l rs))) (rev [0..<n])) = rev (map f (take (n * l) rs))"
proof (induction n)
  case 0
  then show ?case by simp
next
  case (Suc n)
  have "take (Suc n * l) rs = take (n * l) rs @ window (n * l) l rs"
    by (simp add: window_def take_add [symmetric] add.commute)
  then show ?case using Suc by simp
qed

lemma transcript_rows_sorted: "sorted_wrt (\<lambda>r s. mr_created s \<le> mr_created r) (transcript_rows st owner tid)"
  unfolding transcript_rows_def by (rule newest_first_sorted)

text \<open>
  Paging a transcript loses and repeats nothing: on a sound store every page of a
  window of at most five hundred messages answers, page by page the rows newest first in
  blocks turned oldest first, each message with exactly its own attachments; \<^verbatim>\<open>hasMore\<close>
  says truthfully whether older messages exist, and the first \<open>n\<close> pages set in front of
  each other are the newest \<open>n * limit\<close> messages in the order they were created.
\<close>

theorem transcript_pages:
  assumes inv: "store_inv st" and limit: "limit \<le> chunk_size"
  shows "(\<forall>p. list_messages_page no_faults st owner tid (int p) limit
       = Inr (page_view st owner tid limit p, (p + 1) * limit < length (transcript_rows st owner tid))) \<and>
    concat (map (page_view st owner tid limit) (rev [0..<n]))
       = rev (map (message_view st) (take (n * limit) (transcript_rows st owner tid))) \<and>
    sorted_wrt (\<lambda>r s. mr_created s \<le> mr_created r) (transcript_rows st owner tid)"
proof (intro conjI allI)
  show "concat (map (page_view st owner tid limit) (rev [0..<n]))
      = rev (map (message_view st) (take (n * limit) (transcript_rows st owner tid)))"
    unfolding page_view_def [abs_def] by (rule pages_concat)
qed (rule page_ok [OF assms] transcript_rows_sorted)+

section \<open>A window longer than a chunk\<close>

lemma attach_two_chunks:
  assumes inv: "store_inv st" and len: "chunk_size < length msgs" "length msgs \<le> 2 * chunk_size"
  shows "attach_attachments no_faults st msgs = Inr (write_back (attachments_of st) (drop chunk_size msgs)
      (write_back (attachments_of st) (take chunk_size msgs) msgs))"
proof -
  let ?c1 = "take chunk_size msgs" and ?c2 = "drop chunk_size msgs"
  have "length ?c1 \<le> length msgs" "length ?c2 \<le> length (write_back (attachments_of st) ?c1 msgs)"
    by simp_all
  note eq = write_back_chunk [OF this(1), of st] write_back_chunk [OF this(2), of st]
  have "msgs \<noteq> []" using len by auto
  then show ?thesis using len eq scan_chunk_rows [OF inv]
    by (simp add: attach_attachments_def chunks_two no_faults_simp)
qed

text \<open>
  The chunk loop addresses its write backs from the end of the whole window instead of
  from the chunk's own start, so a window of more than five hundred messages comes back
  wrong even though every query succeeds: the newest messages up to \<open>length - 500\<close> keep no
  attachments at all, and the following ones carry those of other messages, shifted by
  \<open>length - 500\<close>. (The export asks for windows of up to ten thousand.)
\<close>

theorem attach_long_window:
  assumes inv: "store_inv st" and len: "chunk_size < length msgs" "length msgs \<le> 2 * chunk_size"
  shows "\<exists>ms. attach_attachments no_faults st msgs = Inr ms \<and> length ms = length msgs \<and>
    (\<forall>p < length msgs - chunk_size. ms ! p = msgs ! p) \<and>
    (\<forall>p. length msgs - chunk_size \<le> p \<and> p < chunk_size \<longrightarrow>
       msg_attachments (ms ! p) = attachments_of st (msg_id (msgs ! (p - (length msgs - chunk_size))))) \<and>
    (\<forall>p. chunk_size \<le> p \<and> p < length msgs \<longrightarrow> ms ! p = hydrate st (msgs ! p))"
proof -
  let ?c1 = "take chunk_size msgs" and ?c2 = "drop chunk_size msgs"
  let ?m1 = "write_back (attachments_of st) ?c1 msgs"
  let ?m2 = "write_back (attachments_of st) ?c2 ?m1"
  have l1: "length ?c1 = chunk_size" "length ?c1 \<le> length msgs" "length ?m1 = length msgs"
    and l2: "length ?c2 = length msgs - chunk_size" "length ?c2 \<le> length ?m1" "length ?m2 = length msgs"
    using len by simp_all
  have m1: "?m1 ! p = (if p < length msgs - chunk_size then msgs ! p
      else (msgs ! p)\<lparr>msg_attachments := attachments_of st (msg_id (msgs ! (p - (length msgs - chunk_size))))\<rparr>)"
    if "p < length msgs" for p
  proof -
    have "p - (length msgs - chunk_size) < chunk_size" using that len by linarith
    then have "?c1 ! (p - (length msgs - chunk_size)) = msgs ! (p - (length msgs - chunk_size))" by simp
    then show ?thesis using write_back_nth [OF l1(2) that, of "attachments_of st"] l1(1) by simp
  qed
  have m2: "?m2 ! p = (if p < chunk_size then ?m1 ! p
      else (?m1 ! p)\<lparr>msg_attachments := attachments_of st (msg_id (?c2 ! (p - chunk_size)))\<rparr>)"
    if "p < length msgs" for p
  proof -
    have "length msgs - (length msgs - chunk_size) = chunk_size" using len by simp
    then show ?thesis using write_back_nth [OF l2(2), of p "attachments_of st"] l1(3) l2(1) that by simp
  qed
  have "\<forall>p < length msgs - chunk_size. ?m2 ! p = msgs ! p"
    using m1 m2 len by simp
  moreover have "\<forall>p. length msgs - chunk_size \<le> p \<and> p < chunk_size \<longrightarrow>
      msg_attachments (?m2 ! p) = attachments_of st (msg_id (msgs ! (p - (length msgs - chunk_size))))"
    using m1 m2 len by simp
  moreover have "\<forall>p. chunk_size \<le> p \<and> p < length msgs \<longrightarrow> ?m2 ! p = hydrate st (msgs ! p)"
    using m1 m2 len by (simp add: hydrate_def)
  ultimately show ?thesis using attach_two_chunks [OF assms] l2(3) by blast
qed

section \<open>What a search finds\<close>

lemma like_tokens_escape: "like_tokens (like_escape needle @ q) = map Lit needle @ like_tokens q"
  by (induction needle) (auto simp: like_escape_def)

lemma like_match_any: "like_match (Any_Run # ts) s \<longleftrightarrow> (\<exists>a b. s = a @ b \<and> like_match ts b)"
proof (induction s)
  case Nil
  then show ?case by simp
next
  case (Cons c s)
  then show ?case by (auto simp: Cons_eq_append_conv)
qed

declare like_match.simps(2) [simp del]

lemma like_match_lits:
  "like_match (map Lit needle @ ts) s \<longleftrightarrow>
     has_prefix (to_lower needle) (to_lower s) \<and> like_match ts (drop (length needle) s)"
proof (induction needle arbitrary: s)
  case Nil
  then show ?case by (simp add: to_lower_def)
next
  case (Cons c needle)
  then show ?case by (cases s) (auto simp: to_lower_def)
qed

lemma like_escaped:
  "like (CHR ''%'' # like_escape needle @ ''%'') s \<longleftrightarrow> str_contains (to_lower needle) (to_lower s)"
proof -
  have all: "like_match [Any_Run] t" for t by (simp add: like_match_any)
  have "like (CHR ''%'' # like_escape needle @ ''%'') s \<longleftrightarrow>
      (\<exists>a b. s = a @ b \<and> has_prefix (to_lower needle) (to_lower b))"
    by (simp add: like_def like_tokens_escape like_match_any like_match_lits all)
  also have "\<dots> \<longleftrightarrow> str_contains (to_lower needle) (to_lower s)"
  proof
    assume "\<exists>a b. s = a @ b \<and> has_prefix (to_lower needle) (to_lower b)"
    then show "str_contains (to_lower needle) (to_lower s)"
      by (auto simp: str_contains_iff has_prefix_iff to_lower_def) blast
  next
    assume "str_contains (to_lower needle) (to_lower s)"
    then obtain a b where ab: "to_lower s = a @ to_lower needle @ b" by (auto simp: str_contains_iff)
    then have "to_lower (drop (length a) s) = to_lower needle @ b"
      by (simp add: to_lower_def drop_map [symmetric])
    then show "\<exists>a b. s = a @ b \<and> has_prefix (to_lower needle) (to_lower b)"
      by (metis append_take_drop_id has_prefix_iff)
  qed
  finally show ?thesis .
qed

lemma scan_summary_valid:
  assumes inv: "store_inv st" and t: "t \<in> set (st_threads st)"
  shows "\<exists>v. scan_summary no_faults st t = Inr v \<and> thr_id (sum_thread v) = tr_id t"
proof -
  from inv t have "valid_thread_row t" by (simp add: store_inv_def)
  then obtain thr where thr: "scan_thread t = Inr thr" "thr_id thr = tr_id t"
    using scan_valid_thread_row [of t] by auto
  show ?thesis
  proof (cases "last_message st t")
    case None
    with thr show ?thesis by (simp add: scan_summary_def no_faults_simp)
  next
    case (Some m)
    then obtain ms where "newest_first mr_created (filter (\<lambda>m. mr_thread m = tr_id t) (st_messages st)) = m # ms"
      by (auto simp: last_message_def split: list.splits)
    then have "m \<in> set (newest_first mr_created (filter (\<lambda>m. mr_thread m = tr_id t) (st_messages st)))"
      by (metis list.set_intros(1))
    then have "valid_message_row m" using inv by (simp add: store_inv_def)
    then obtain d c where "mr_direction m = direction_string d" "mr_channel m = channel_string c"
      unfolding valid_message_row_def by blast
    with Some thr show ?thesis by (simp add: scan_summary_def no_faults_simp must_def)
  qed
qed

lemma summaries_ok:
  assumes inv: "store_inv st" and sub: "set ts \<subseteq> set (st_threads st)"
  shows "\<exists>vs. scan_all (scan_summary no_faults st) ts = Inr vs \<and>
    map (\<lambda>v. thr_id (sum_thread v)) vs = map tr_id ts"
proof -
  have "\<forall>t \<in> set ts. \<exists>v. scan_summary no_faults st t = Inr v \<and> thr_id (sum_thread v) = tr_id t"
    using scan_summary_valid [OF inv] sub by blast
  from bchoice [OF this] obtain g where
    "\<forall>t \<in> set ts. scan_summary no_faults st t = Inr (g t) \<and> thr_id (sum_thread (g t)) = tr_id t" ..
  then show ?thesis
    using scan_all_map [of ts "scan_summary no_faults st" g] by auto
qed

lemma set_thread_order [simp]: "set (thread_order ts) = set ts"
  by (simp add: thread_order_def)

text \<open>
  Search finds exactly what it says: on a sound store the answer lists the owner's
  active threads whose remote text, or the body of any of their messages, contains the
  needle up to the case of ASCII letters, and no other thread; the characters that mean
  something to \<^verbatim>\<open>LIKE\<close> are matched literally.
\<close>

theorem search_exact:
  assumes inv: "store_inv st"
  shows "\<exists>sums. search_threads no_faults st owner needle = Inr sums \<and>
    set (map (\<lambda>v. thr_id (sum_thread v)) sums) =
      tr_id ` {t \<in> set (st_threads st). tr_owner t = ext_string owner \<and> tr_archived t = 0 \<and>
        (str_contains (to_lower needle) (to_lower (tr_remote t)) \<or>
         (\<exists>m \<in> set (st_messages st). mr_thread m = tr_id t \<and>
            str_contains (to_lower needle) (to_lower (mr_body m))))}"
proof -
  let ?p = "CHR ''%'' # like_escape needle @ ''%''"
  let ?ts = "thread_order (filter (search_hit st owner ?p) (st_threads st))"
  have "set ?ts \<subseteq> set (st_threads st)" by auto
  from summaries_ok [OF inv this] obtain vs where
    vs: "scan_all (scan_summary no_faults st) ?ts = Inr vs"
      "map (\<lambda>v. thr_id (sum_thread v)) vs = map tr_id ?ts"
    by blast
  have own: "mr_owner m = tr_owner t"
    if "t \<in> set (st_threads st)" "m \<in> set (st_messages st)" "mr_thread m = tr_id t" for t m
  proof -
    from inv that(2) obtain u where u: "u \<in> set (st_threads st)" "tr_id u = mr_thread m"
      "thread_key u = message_key m"
      unfolding store_inv_def by blast
    with that have "u = t" using store_inv_thread_unique [OF inv] by metis
    with u(3) show ?thesis by (simp add: thread_key_def message_key_def)
  qed
  have "set ?ts = {t \<in> set (st_threads st). tr_owner t = ext_string owner \<and> tr_archived t = 0 \<and>
        (str_contains (to_lower needle) (to_lower (tr_remote t)) \<or>
         (\<exists>m \<in> set (st_messages st). mr_thread m = tr_id t \<and>
            str_contains (to_lower needle) (to_lower (mr_body m))))}"
    using own by (auto simp: search_hit_def like_escaped)
  moreover have "search_threads no_faults st owner needle = Inr vs"
    using vs(1) by (simp add: search_threads_def Let_def)
  ultimately show ?thesis using vs(2) by (metis set_map)
qed

section \<open>Owner scoping\<close>

text \<open>
  Owner scoping: whatever state the tables are in and whatever statement fails, an
  owner-scoped read answers only with the owner's own rows. A thread or an attachment that
  belongs to another extension is answered exactly like one that does not exist.
\<close>

theorem owner_scoping:
  "(get_thread fl st owner tid = Inr t \<longrightarrow>
      (\<exists>r \<in> set (st_threads st). tr_id r = tid \<and> tr_owner r = ext_string owner)) \<and>
   (attachment_by_id fl st owner aid = Inr a \<longrightarrow>
      (\<exists>m \<in> set (st_messages st). \<exists>r \<in> set (st_attachments st). att_id r = aid \<and>
         mr_id m = att_message r \<and> mr_owner m = ext_string owner)) \<and>
   ((\<forall>r \<in> set (st_threads st). tr_id r = tid \<longrightarrow> tr_owner r \<noteq> ext_string owner) \<longrightarrow>
      get_thread no_faults st owner tid = Inl Not_Found \<and>
      fst (set_thread_flag no_faults owner tid ''pinned'' on st) = Inl Not_Found) \<and>
   set (transcript_rows st owner tid)
      = {m \<in> set (st_messages st). mr_owner m = ext_string owner \<and> mr_thread m = tid}"
proof (intro conjI impI)
  assume "get_thread fl st owner tid = Inr t"
  then obtain r where "select_one (own_thread owner tid) (st_threads st) = Some r"
    by (auto simp: get_thread_def split: if_splits option.splits)
  then show "\<exists>r \<in> set (st_threads st). tr_id r = tid \<and> tr_owner r = ext_string owner"
    by (auto simp: own_thread_def dest!: select_one_Some)
next
  assume "attachment_by_id fl st owner aid = Inr a"
  then obtain r where "select_one (\<lambda>a. att_id a = aid \<and>
      (\<exists>m \<in> set (st_messages st). mr_id m = att_message a \<and> mr_owner m = ext_string owner))
      (st_attachments st) = Some r"
    by (auto simp: attachment_by_id_def split: if_splits option.splits)
  then show "\<exists>m \<in> set (st_messages st). \<exists>r \<in> set (st_attachments st). att_id r = aid \<and>
      mr_id m = att_message r \<and> mr_owner m = ext_string owner"
    by (auto dest!: select_one_Some)
next
  assume "\<forall>r \<in> set (st_threads st). tr_id r = tid \<longrightarrow> tr_owner r \<noteq> ext_string owner"
  then have none: "\<forall>r \<in> set (st_threads st). \<not> own_thread owner tid r" by (auto simp: own_thread_def)
  then have "select_one (own_thread owner tid) (st_threads st) = None" by (simp add: select_one_None)
  then show "get_thread no_faults st owner tid = Inl Not_Found"
    by (simp add: get_thread_def no_faults_simp)
  from none have "rows_affected (own_thread owner tid) (st_threads st) = 0" by (simp add: rows_affected_0)
  then show "fst (set_thread_flag no_faults owner tid ''pinned'' on st) = Inl Not_Found"
    by (simp add: set_thread_flag_def thread_flag_columns_def no_faults_simp updated_or_not_found_def)
qed (auto simp: transcript_rows_def)

end
