(* ===== verification/Sweep.thy ===== *)
theory Sweep
  imports Store_Messages
begin

text \<open>
  The retention pass on the SQL rows, \<^verbatim>\<open>internal/store/sweep.go\<close>: collect the blob
  paths of the expirable messages, delete those messages (their attachment rows cascade),
  delete the stale threads left without a message. The three statements are not one
  transaction: a later one may fail after an earlier one took effect.
\<close>

record sweep_result =
  swp_messages :: nat
  swp_threads :: nat
  swp_paths :: "string list"

definition expirable :: "time \<Rightarrow> message_row \<Rightarrow> bool" where
  "expirable cutoff m \<longleftrightarrow> mr_created m < unix cutoff"

text \<open>\<^verbatim>\<open>DELETE FROM messages\<close> with the cascade of the attachments' reference.\<close>

definition delete_messages :: "(message_row \<Rightarrow> bool) \<Rightarrow> store \<Rightarrow> store" where
  "delete_messages P st =
     st\<lparr>st_messages := delete_where P (st_messages st),
        st_attachments := delete_where
          (\<lambda>a. \<exists>m \<in> set (st_messages st). P m \<and> mr_id m = att_message a) (st_attachments st)\<rparr>"

definition stale_empty :: "time \<Rightarrow> store \<Rightarrow> thread_row \<Rightarrow> bool" where
  "stale_empty cutoff st t \<longleftrightarrow>
     tr_last t < unix cutoff \<and> (\<forall>m \<in> set (st_messages st). mr_thread m \<noteq> tr_id t)"

text \<open>\<^verbatim>\<open>DELETE FROM threads\<close>; the messages of a deleted thread would cascade.\<close>

definition delete_threads :: "(thread_row \<Rightarrow> bool) \<Rightarrow> store \<Rightarrow> store" where
  "delete_threads P st =
     (let gone = (\<lambda>m. \<exists>t \<in> set (st_threads st). P t \<and> tr_id t = mr_thread m) in
      (delete_messages gone st)\<lparr>st_threads := delete_where P (st_threads st)\<rparr>)"

definition sweep :: "faults \<Rightarrow> time \<Rightarrow> store \<Rightarrow> (sweep_result \<times> err option) \<times> store" where
  "sweep fl cutoff st =
     (let res0 = \<lparr>swp_messages = 0, swp_threads = 0, swp_paths = []\<rparr> in
      if fl ''store.query'' ''collect expirable blob paths''
      then ((res0, Some (Coded Infrastructure ''store.query'')), st)
      else
        let paths = map att_path
              (filter (\<lambda>a. att_message a \<in> mr_id ` set (filter (expirable cutoff) (st_messages st)))
                (st_attachments st));
            res1 = res0\<lparr>swp_paths := paths\<rparr> in
        if fl ''store.exec'' ''delete old messages''
        then ((res1, Some (Coded Infrastructure ''store.exec'')), st)
        else
          let st1 = delete_messages (expirable cutoff) st;
              res2 = res1\<lparr>swp_messages := rows_affected (expirable cutoff) (st_messages st)\<rparr> in
          if fl ''store.exec'' ''delete empty threads''
          then ((res2, Some (Coded Infrastructure ''store.exec'')), st1)
          else
            let st2 = delete_threads (stale_empty cutoff st1) st1 in
            ((res2\<lparr>swp_threads := rows_affected (stale_empty cutoff st1) (st_threads st1)\<rparr>, None), st2))"

section \<open>Lemmas\<close>

lemma store_inv_delete_messages:
  assumes inv: "store_inv st"
  shows "store_inv (delete_messages P st)"
proof -
  have "distinct (map mr_ref (filter (\<lambda>m. mr_ref m \<noteq> []) (delete_where P (st_messages st))))"
  proof -
    have "filter (\<lambda>m. mr_ref m \<noteq> []) (delete_where P (st_messages st))
        = filter (\<lambda>m. \<not> P m) (filter (\<lambda>m. mr_ref m \<noteq> []) (st_messages st))"
      by (simp add: delete_where_def conj_commute)
    moreover have "distinct (map mr_ref (filter (\<lambda>m. mr_ref m \<noteq> []) (st_messages st)))"
      using inv by (simp add: store_inv_def)
    ultimately show ?thesis by (metis distinct_map_filter)
  qed
  moreover have "\<exists>n \<in> set (delete_where P (st_messages st)). mr_id n = att_message a"
    if "a \<in> set (st_attachments st)" "\<not> (\<exists>m \<in> set (st_messages st). P m \<and> mr_id m = att_message a)" for a
    using inv that unfolding store_inv_def set_delete_where by blast
  ultimately show ?thesis using inv
    by (auto simp: store_inv_def delete_messages_def delete_where_def distinct_map_filter)
qed

lemma delete_threads_no_message:
  assumes "\<And>t m. t \<in> set (st_threads st) \<Longrightarrow> P t \<Longrightarrow> m \<in> set (st_messages st) \<Longrightarrow> mr_thread m \<noteq> tr_id t"
  shows "delete_threads P st = st\<lparr>st_threads := delete_where P (st_threads st)\<rparr>"
proof -
  have none: "\<forall>m \<in> set (st_messages st). \<not> (\<exists>t \<in> set (st_threads st). P t \<and> tr_id t = mr_thread m)"
    using assms by metis
  then have "delete_messages (\<lambda>m. \<exists>t \<in> set (st_threads st). P t \<and> tr_id t = mr_thread m) st = st"
    by (cases st) (auto simp: delete_messages_def delete_where_def filter_id_conv)
  then show ?thesis by (simp add: delete_threads_def Let_def)
qed

lemma delete_stale_empty:
  "delete_threads (stale_empty cutoff st) st
     = st\<lparr>st_threads := delete_where (stale_empty cutoff st) (st_threads st)\<rparr>"
  by (rule delete_threads_no_message) (simp add: stale_empty_def)

lemma store_inv_delete_stale:
  assumes inv: "store_inv st"
  shows "store_inv (delete_threads (stale_empty cutoff st) st)"
proof -
  have "\<exists>t \<in> set (delete_where (stale_empty cutoff st) (st_threads st)).
      tr_id t = mr_thread m \<and> thread_key t = message_key m" if "m \<in> set (st_messages st)" for m
  proof -
    from inv that obtain t where t: "t \<in> set (st_threads st)" "tr_id t = mr_thread m"
      "thread_key t = message_key m"
      unfolding store_inv_def by blast
    with that have "\<not> stale_empty cutoff st t" by (auto simp: stale_empty_def)
    with t show ?thesis by (auto simp: set_delete_where)
  qed
  with inv show ?thesis
    by (auto simp: store_inv_def delete_stale_empty delete_where_def distinct_map_filter)
qed

lemma sweep_inv: "store_inv st \<Longrightarrow> store_inv (snd (sweep fl cutoff st))"
  by (simp add: sweep_def Let_def store_inv_delete_messages store_inv_delete_stale)

lemma sweep_ok:
  assumes "snd (fst (sweep fl cutoff st)) = None"
  shows "sweep fl cutoff st =
    ((\<lparr>swp_messages = rows_affected (expirable cutoff) (st_messages st),
       swp_threads = rows_affected (stale_empty cutoff (delete_messages (expirable cutoff) st))
         (st_threads st),
       swp_paths = map att_path (filter (\<lambda>a. att_message a \<in>
          mr_id ` set (filter (expirable cutoff) (st_messages st))) (st_attachments st))\<rparr>, None),
     (delete_messages (expirable cutoff) st)
       \<lparr>st_threads := delete_where (stale_empty cutoff (delete_messages (expirable cutoff) st))
          (st_threads st)\<rparr>)"
  using assms
  by (auto simp: sweep_def Let_def delete_stale_empty split: if_splits)
    (simp_all add: delete_messages_def)

lemma delete_where_idem: "delete_where P (delete_where P rs) = delete_where P rs"
  by (simp add: delete_where_def)

lemma expirable_iff: "expirable cutoff m \<longleftrightarrow> \<not> unix cutoff \<le> mr_created m"
  by (auto simp: expirable_def)

text \<open>The three tables after a completed pass.\<close>

lemma sweep_tables:
  assumes "sweep fl cutoff st = ((res, None), st')"
  shows "st_messages st' = filter (\<lambda>m. unix cutoff \<le> mr_created m) (st_messages st)"
    and "st_attachments st' = filter (\<lambda>a. att_message a \<notin>
      mr_id ` set (filter (expirable cutoff) (st_messages st))) (st_attachments st)"
    and "st_threads st' = filter (\<lambda>t. \<not> stale_empty cutoff st' t) (st_threads st)"
    and "swp_paths res = map att_path (filter (\<lambda>a. att_message a \<in>
      mr_id ` set (filter (expirable cutoff) (st_messages st))) (st_attachments st))"
proof -
  let ?st1 = "delete_messages (expirable cutoff) st"
  have full: "st' = ?st1\<lparr>st_threads := delete_where (stale_empty cutoff ?st1) (st_threads st)\<rparr>"
    and "swp_paths res = map att_path (filter (\<lambda>a. att_message a \<in>
      mr_id ` set (filter (expirable cutoff) (st_messages st))) (st_attachments st))"
    using sweep_ok [of fl cutoff st] assms by simp_all
  then show "swp_paths res = map att_path (filter (\<lambda>a. att_message a \<in>
      mr_id ` set (filter (expirable cutoff) (st_messages st))) (st_attachments st))" by simp
  show "st_messages st' = filter (\<lambda>m. unix cutoff \<le> mr_created m) (st_messages st)"
    by (simp add: full delete_messages_def delete_where_def expirable_iff)
  show "st_attachments st' = filter (\<lambda>a. att_message a \<notin>
      mr_id ` set (filter (expirable cutoff) (st_messages st))) (st_attachments st)"
    by (auto simp: full delete_messages_def delete_where_def image_iff intro!: filter_cong)
  have "stale_empty cutoff st' t = stale_empty cutoff ?st1 t" for t
    by (simp add: stale_empty_def full)
  then show "st_threads st' = filter (\<lambda>t. \<not> stale_empty cutoff st' t) (st_threads st)"
    by (simp add: full delete_where_def)
qed

lemma sweep_attachment_iff:
  assumes inv: "store_inv st" "store_inv st'" and run: "sweep fl cutoff st = ((res, None), st')"
    and a: "a \<in> set (st_attachments st)"
  shows "a \<in> set (st_attachments st') \<longleftrightarrow> (\<exists>m \<in> set (st_messages st'). mr_id m = att_message a)"
proof
  assume "a \<in> set (st_attachments st')"
  then show "\<exists>m \<in> set (st_messages st'). mr_id m = att_message a"
    using inv(2) by (simp add: store_inv_def)
next
  assume "\<exists>m \<in> set (st_messages st'). mr_id m = att_message a"
  then obtain m where m: "m \<in> set (st_messages st)" "\<not> expirable cutoff m" "mr_id m = att_message a"
    by (auto simp: sweep_tables(1) [OF run] expirable_iff)
  then have "\<not> (\<exists>n \<in> set (st_messages st). expirable cutoff n \<and> mr_id n = att_message a)"
    using store_inv_message_unique [OF inv(1) m(1)] by metis
  with a show "a \<in> set (st_attachments st')" by (auto simp: sweep_tables(2) [OF run])
qed

lemma sweep_again:
  assumes run: "sweep fl cutoff st = ((res, None), st')"
  shows "snd (sweep no_faults cutoff st') = st'"
proof -
  have "\<forall>m \<in> set (st_messages st'). \<not> expirable cutoff m"
    by (simp add: sweep_tables(1) [OF run] expirable_iff)
  then have same: "delete_messages (expirable cutoff) st' = st'"
    by (cases st') (auto simp: delete_messages_def delete_where_def filter_id_conv)
  have "\<forall>t \<in> set (st_threads st'). \<not> stale_empty cutoff st' t"
    by (subst sweep_tables(3) [OF run]) simp
  then have "delete_where (stale_empty cutoff st') (st_threads st') = st_threads st'"
    by (simp add: delete_where_def filter_id_conv)
  then show ?thesis by (simp add: sweep_def Let_def no_faults_simp same delete_stale_empty)
qed

text \<open>
  A completed retention pass keeps the store sound and deletes exactly what expired:
  the messages at or after the cutoff stay untouched and in order with their attachment
  rows, the blob paths handed back for unlinking are exactly those of the attachment rows
  that went, a thread goes only when it is stale and holds no message any more, and the
  same pass run again finds nothing to delete.
\<close>

theorem sweep_exact:
  assumes inv: "store_inv st" and run: "sweep fl cutoff st = ((res, None), st')"
  shows "store_inv st' \<and>
    st_messages st' = filter (\<lambda>m. unix cutoff \<le> mr_created m) (st_messages st) \<and>
    mset (swp_paths res) + mset (map att_path (st_attachments st')) = mset (map att_path (st_attachments st)) \<and>
    (\<forall>a \<in> set (st_attachments st). a \<in> set (st_attachments st') \<longleftrightarrow>
       (\<exists>m \<in> set (st_messages st'). mr_id m = att_message a)) \<and>
    (\<forall>t \<in> set (st_threads st). t \<notin> set (st_threads st') \<longrightarrow>
       tr_last t < unix cutoff \<and> (\<forall>m \<in> set (st_messages st'). mr_thread m \<noteq> tr_id t)) \<and>
    snd (sweep no_faults cutoff st') = st'"
proof -
  have inv': "store_inv st'" using sweep_inv [OF inv, of fl cutoff] run by simp
  have split: "mset (swp_paths res) + mset (map att_path (st_attachments st'))
      = mset (map att_path (st_attachments st))"
    unfolding sweep_tables(2,4) [OF run] by (rule mset_map_filter_compl)
  have stale: "stale_empty cutoff st' t" if "t \<in> set (st_threads st)" "t \<notin> set (st_threads st')" for t
    using that by (subst (asm) sweep_tables(3) [OF run]) simp
  show ?thesis
  proof (intro conjI ballI impI)
    fix t assume "t \<in> set (st_threads st)" "t \<notin> set (st_threads st')"
    note stale [OF this]
    then show "tr_last t < unix cutoff" by (simp add: stale_empty_def)
  next
    fix t m assume "t \<in> set (st_threads st)" "t \<notin> set (st_threads st')" "m \<in> set (st_messages st')"
    with stale [of t] show "mr_thread m \<noteq> tr_id t" by (simp add: stale_empty_def)
  qed (rule inv' split sweep_tables(1) [OF run] sweep_again [OF run]
      | erule sweep_attachment_iff [OF inv inv' run])+
qed

end
