(* ===== verification/Store_Contract.thy ===== *)
theory Store_Contract
  imports Store_Queries Sweep
begin

text \<open>
  What the message store promises, above its tables: a conversation per (owner, network,
  remote), each with its counters, flags and log. The append transaction refines one
  abstract step on that map; finding a thread is safe under concurrent inserts; every
  state the store's operations reach keeps the invariant of \<^verbatim>\<open>Store_Rows\<close>, whatever
  statements fail on the way.
\<close>

section \<open>Conversations\<close>

record conversation =
  cv_id :: thread_id
  cv_last :: int
  cv_unread :: int
  cv_pinned :: bool
  cv_archived :: bool
  cv_muted :: bool
  cv_log :: "message_row list"

definition conversation_of :: "store \<Rightarrow> thread_row \<Rightarrow> conversation" where
  "conversation_of st t =
     \<lparr>cv_id = tr_id t, cv_last = tr_last t, cv_unread = tr_unread t, cv_pinned = (tr_pinned t = 1),
      cv_archived = (tr_archived t = 1), cv_muted = (tr_muted t = 1),
      cv_log = filter (\<lambda>m. mr_thread m = tr_id t) (st_messages st)\<rparr>"

definition conversations :: "store \<Rightarrow> string \<times> string \<times> string \<Rightarrow> conversation option" where
  "conversations st k =
     map_option (conversation_of st) (select_one (\<lambda>t. thread_key t = k) (st_threads st))"

text \<open>One message joins its conversation, or starts it.\<close>

definition conv_append :: "message \<Rightarrow> conversation option \<Rightarrow> conversation" where
  "conv_append m c =
     (let inbound = (msg_direction m = Inbound) in
      case c of
        None \<Rightarrow>
          \<lparr>cv_id = msg_thread m, cv_last = unix (msg_created m), cv_unread = (if inbound then 1 else 0),
           cv_pinned = False, cv_archived = False, cv_muted = False,
           cv_log = [message_row_of m (msg_thread m)]\<rparr>
      | Some c \<Rightarrow>
          c\<lparr>cv_last := unix (msg_created m), cv_unread := cv_unread c + (if inbound then 1 else 0),
            cv_archived := (cv_archived c \<and> \<not> inbound),
            cv_log := cv_log c @ [message_row_of m (cv_id c)]\<rparr>)"

lemma conversations_thread:
  assumes "store_inv st" "t \<in> set (st_threads st)"
  shows "conversations st (thread_key t) = Some (conversation_of st t)"
proof -
  have "select_one (\<lambda>u. thread_key u = thread_key t) (st_threads st) = Some t"
    using assms store_inv_thread_key_unique by (intro select_one_unique) auto
  then show ?thesis by (simp add: conversations_def)
qed

lemma conversations_None:
  "conversations st k = None \<longleftrightarrow> k \<notin> thread_key ` set (st_threads st)"
  by (auto simp: conversations_def select_one_None image_iff)

lemma conversations_absent: "k \<notin> thread_key ` set (st_threads st) \<Longrightarrow> conversations st k = None"
  by (simp add: conversations_None)

lemma conversations_cases:
  assumes "store_inv st"
  obtains "conversations st k = None" "k \<notin> thread_key ` set (st_threads st)"
  | t where "t \<in> set (st_threads st)" "thread_key t = k" "conversations st k = Some (conversation_of st t)"
proof (cases "k \<in> thread_key ` set (st_threads st)")
  case True
  then obtain t where "t \<in> set (st_threads st)" "thread_key t = k" by auto
  with conversations_thread [OF assms] that(2) show ?thesis by blast
next
  case False
  with that(1) show ?thesis by (simp add: conversations_None)
qed

lemma message_row_of_key [simp]:
  "message_key (message_row_of m thr) = address_key (msg_owner m) (msg_remote m)"
  "mr_thread (message_row_of m thr) = thr"
  by (simp_all add: message_key_def message_row_of_def address_key_def)

lemma conversations_found:
  assumes inv: "store_inv st" "store_inv st'" and q: "q \<in> set (st_threads st)" "thread_key q = address_key (msg_owner m) (msg_remote m)"
    and threads: "st_threads st' = update_where (\<lambda>t. tr_id t = tr_id q) (advance_row m) (st_threads st)"
    and msgs: "st_messages st' = st_messages st @ [message_row_of m (tr_id q)]"
  shows "conversations st' = (conversations st)(address_key (msg_owner m) (msg_remote m) \<mapsto>
    conv_append m (conversations st (address_key (msg_owner m) (msg_remote m))))"
proof
  let ?k = "address_key (msg_owner m) (msg_remote m)"
  fix k
  show "conversations st' k = ((conversations st)(?k \<mapsto> conv_append m (conversations st ?k))) k"
  proof (cases "k = ?k")
    case True
    have a: "advance_row m q \<in> set (st_threads st')"
      using q(1) by (auto simp: threads set_update_where)
    have "valid_thread_row q" using inv(1) q(1) by (simp add: store_inv_def)
    then have "tr_archived q \<noteq> 0 \<longleftrightarrow> tr_archived q = 1" by (auto simp: valid_thread_row_def)
    then show ?thesis
      using conversations_thread [OF inv(2) a] conversations_thread [OF inv(1) q(1)] q(2) True msgs
      by (simp add: conv_append_def conversation_of_def advance_row_def bool_int_def thread_key_def
          message_row_of_def)
  next
    case False
    from inv(1) show ?thesis
    proof (cases rule: conversations_cases [of _ k])
      case 1
      then have "k \<notin> thread_key ` set (st_threads st')"
        by (auto simp: threads set_update_where)
      with 1 False show ?thesis by (simp add: conversations_absent)
    next
      case (2 t)
      then have "tr_id t \<noteq> tr_id q"
        using store_inv_thread_unique [OF inv(1), of t q] q False by auto
      moreover from this 2 have "t \<in> set (st_threads st')"
        by (auto simp: threads set_update_where)
      ultimately show ?thesis
        using conversations_thread [OF inv(2), of t] 2 False msgs
        by (simp add: conversation_of_def message_row_of_def)
    qed
  qed
qed

lemma conversations_born:
  assumes inv: "store_inv st" "store_inv st'"
    and none: "conversations st (address_key (msg_owner m) (msg_remote m)) = None"
    and fresh: "msg_thread m \<notin> tr_id ` set (st_threads st)"
    and threads: "st_threads st' = st_threads st @ [birth_row m]"
    and msgs: "st_messages st' = st_messages st @ [message_row_of m (msg_thread m)]"
  shows "conversations st' = (conversations st)(address_key (msg_owner m) (msg_remote m) \<mapsto>
    conv_append m (conversations st (address_key (msg_owner m) (msg_remote m))))"
proof
  let ?k = "address_key (msg_owner m) (msg_remote m)"
  have b: "birth_row m \<in> set (st_threads st')" "thread_key (birth_row m) = ?k"
    by (simp_all add: threads birth_row_def thread_key_def address_key_def)
  have "mr_thread n \<noteq> msg_thread m" if "n \<in> set (st_messages st)" for n
    using inv(1) that fresh unfolding store_inv_def by (metis imageI)
  then have no_log: "filter (\<lambda>n. mr_thread n = msg_thread m) (st_messages st) = []"
    by (simp add: filter_empty_conv)
  fix k
  show "conversations st' k = ((conversations st)(?k \<mapsto> conv_append m (conversations st ?k))) k"
  proof (cases "k = ?k")
    case True
    then show ?thesis
      using conversations_thread [OF inv(2) b(1)] b(2) none msgs no_log
      by (simp add: conv_append_def conversation_of_def birth_row_def message_row_of_def)
  next
    case False
    from inv(1) show ?thesis
    proof (cases rule: conversations_cases [of _ k])
      case 1
      with b False have "k \<notin> thread_key ` set (st_threads st')" by (auto simp: threads)
      with 1 False show ?thesis by (simp add: conversations_absent)
    next
      case (2 t)
      then have "t \<in> set (st_threads st')" "tr_id t \<noteq> msg_thread m"
        using fresh by (auto simp: threads image_iff)
      then show ?thesis
        using conversations_thread [OF inv(2), of t] 2 False msgs
        by (simp add: conversation_of_def message_row_of_def)
    qed
  qed
qed

lemma append_step:
  assumes inv: "store_inv st" and valid: "valid_message m"
    and run: "append_message fl m st = (r, st')"
  shows "case r of
      Inl e \<Rightarrow> st' = st
    | Inr _ \<Rightarrow> store_inv st' \<and>
        conversations st' = (conversations st)
          (address_key (msg_owner m) (msg_remote m) \<mapsto>
             conv_append m (conversations st (address_key (msg_owner m) (msg_remote m)))) \<and>
        st_attachments st' = st_attachments st @
          map (\<lambda>a. a\<lparr>att_message := msg_id m\<rparr>) (msg_attachments m)"
proof (cases "append_tx fl m st")
  case (Inl e)
  with run show ?thesis by (auto simp: append_message_def)
next
  case (Inr st1)
  with run have r: "r = Inr ()" and st1: "append_tx fl m st = Inr st'"
    by (auto simp: append_message_def)
  from inv valid st1 show ?thesis
  proof (cases rule: append_tx_ok)
    case (found q)
    with conversations_found [OF inv found(5), of q m] lookup_thread_Some [OF found(1)] r
    show ?thesis by simp
  next
    case born
    with conversations_born [OF inv born(6)] r show ?thesis
      by (simp add: lookup_thread_None conversations_None)
  qed
qed

text \<open>
  C1. The append transaction refines the abstract step: when it answers success on a sound
  store, the conversation of the message's owner and remote (and no other) advanced by
  exactly this message - one more log entry at the end, last activity its creation second,
  unread and archived moved by inbound messages only - its attachments went in under its
  id, and the store is sound again. When it answers an error, the store is the one it
  began with.
\<close>

theorem append_refines:
  assumes inv: "store_inv st" and valid: "valid_message m"
    and run: "append_message fl m st = (r, st')"
  shows "case r of
      Inl e \<Rightarrow> st' = st
    | Inr _ \<Rightarrow> store_inv st' \<and>
        conversations st' = (conversations st)
          (address_key (msg_owner m) (msg_remote m) \<mapsto>
             conv_append m (conversations st (address_key (msg_owner m) (msg_remote m)))) \<and>
        st_attachments st' = st_attachments st @
          map (\<lambda>a. a\<lparr>att_message := msg_id m\<rparr>) (msg_attachments m)"
  using assms by (rule append_step)

text \<open>The append goes through whenever its identifiers are fresh and no statement fails.\<close>

lemma insert_attachments_fresh:
  assumes "distinct (map att_id as)" "\<forall>a \<in> set as. att_id a \<notin> att_id ` set (st_attachments st)"
    "mid \<in> mr_id ` set (st_messages st)"
  shows "\<exists>st'. insert_attachments no_faults mid as st = Inr st'"
  using assms
proof (induction as arbitrary: st)
  case Nil
  then show ?case by simp
next
  case (Cons a as)
  let ?row = "a\<lparr>att_message := mid\<rparr>"
  let ?st1 = "st\<lparr>st_attachments := st_attachments st @ [?row]\<rparr>"
  have "attachment_insert_ok st ?row" using Cons.prems by (simp add: attachment_insert_ok_def)
  moreover have "\<exists>st'. insert_attachments no_faults mid as ?st1 = Inr st'"
    using Cons.prems by (intro Cons.IH) (auto simp: image_iff)
  ultimately show ?case by (simp add: Let_def no_faults_simp [of "''store.attachment_insert''"])
qed

text \<open>A message whose identifiers no row uses yet.\<close>

definition fresh_message :: "store \<Rightarrow> message \<Rightarrow> bool" where
  "fresh_message st m \<longleftrightarrow>
     msg_id m \<notin> mr_id ` set (st_messages st) \<and>
     (msg_ref m \<noteq> [] \<longrightarrow> msg_ref m \<notin> mr_ref ` set (st_messages st)) \<and>
     (lookup_thread st (msg_owner m) (msg_remote m) = None \<longrightarrow>
        msg_thread m \<notin> tr_id ` set (st_threads st)) \<and>
     distinct (map att_id (msg_attachments m)) \<and>
     (\<forall>a \<in> set (msg_attachments m). att_id a \<notin> att_id ` set (st_attachments st))"

lemma append_fresh:
  assumes inv: "store_inv st" and valid: "valid_message m" and fresh: "fresh_message st m"
  shows "\<exists>st'. append_tx no_faults m st = Inr st'"
proof (cases "lookup_thread st (msg_owner m) (msg_remote m)")
  case None
  have zid: "thr_id zero_thread = []" by (simp add: zero_thread_def)
  have tid: "thr_id (append_to_thread zero_thread m) = msg_thread m"
    by (simp add: append_to_thread_def zero_thread_def Let_def)
  have "thread_insert_ok st (birth_row m)"
    using fresh None by (simp add: thread_insert_ok_def birth_row_def fresh_message_def
        lookup_thread_None thread_key_def address_key_def)
  moreover have "birth_row m = \<lparr>tr_id = msg_thread m, tr_owner = ext_string (msg_owner m),
      tr_network = network_string (addr_network (msg_remote m)),
      tr_remote = addr_value (msg_remote m), tr_last = unix (msg_created m),
      tr_unread = thr_unread (append_to_thread zero_thread m), tr_pinned = 0,
      tr_archived = bool_int (thr_archived (append_to_thread zero_thread m)), tr_muted = 0\<rparr>"
    by (simp add: birth_row_def append_to_thread_def zero_thread_def Let_def bool_int_def)
  ultimately have wt: "write_thread no_faults (append_to_thread zero_thread m) False m st
      = Inr (st\<lparr>st_threads := st_threads st @ [birth_row m]\<rparr>)"
    by (simp add: write_thread_def Let_def tid no_faults_simp)
  let ?st1 = "st\<lparr>st_threads := st_threads st @ [birth_row m]\<rparr>"
  let ?row = "message_row_of m (msg_thread m)"
  have mi: "message_insert_ok ?st1 ?row"
    using fresh by (simp add: message_insert_ok_def message_row_of_def fresh_message_def birth_row_def)
  have "\<exists>st'. insert_attachments no_faults (msg_id m) (msg_attachments m)
      (?st1\<lparr>st_messages := st_messages ?st1 @ [?row]\<rparr>) = Inr st'"
    using fresh by (intro insert_attachments_fresh) (auto simp: fresh_message_def message_row_of_def)
  then show ?thesis using None wt mi tid zid
    by (auto simp: append_tx_def Let_def no_faults_simp)
next
  case (Some r)
  note r = lookup_thread_Some [OF Some]
  then have "valid_thread_row r" using inv by (simp add: store_inv_def)
  then have rid: "must_id (tr_id r) = Inr (tr_id r)" "tr_id r \<noteq> []"
    by (auto simp: valid_thread_row_def must_id_raw valid_id_def)
  let ?ex = "zero_thread\<lparr>thr_id := tr_id r, thr_owner := msg_owner m, thr_remote := msg_remote m,
      thr_last := time_unix (tr_last r), thr_unread := tr_unread r, thr_archived := (tr_archived r \<noteq> 0)\<rparr>"
  have exid: "thr_id (append_to_thread ?ex m) = tr_id r"
    using rid(2) append_to_thread_id [of ?ex m] by simp
  obtain st1 where wt: "write_thread no_faults (append_to_thread ?ex m) True m st = Inr st1"
    and st1: "st_messages st1 = st_messages st" "st_attachments st1 = st_attachments st"
      "map tr_id (st_threads st1) = map tr_id (st_threads st)"
    by (auto simp: write_thread_def Let_def no_faults_simp map_update_where_frame)
  let ?row = "message_row_of m (tr_id r)"
  have "tr_id ` set (st_threads st1) = tr_id ` set (st_threads st)" using st1(3) by (metis set_map)
  then have mi: "message_insert_ok st1 ?row"
    using fresh r st1 by (simp add: message_insert_ok_def message_row_of_def fresh_message_def)
  have "\<exists>st'. insert_attachments no_faults (msg_id m) (msg_attachments m)
      (st1\<lparr>st_messages := st_messages st1 @ [?row]\<rparr>) = Inr st'"
    using fresh st1 by (intro insert_attachments_fresh) (auto simp: fresh_message_def message_row_of_def)
  then show ?thesis using Some rid wt mi exid
    by (auto simp: append_tx_def Let_def no_faults_simp)
qed

text \<open>
  Appending is total where it should be: on a sound store, with fresh identifiers and
  no failing statement, the append answers success, and reading the stored row back gives
  the message itself, its creation cut to the second.
\<close>

theorem append_roundtrip:
  assumes inv: "store_inv st" and valid: "valid_message m" and fresh: "fresh_message st m"
    and thr: "\<forall>r. lookup_thread st (msg_owner m) (msg_remote m) = Some r \<longrightarrow> tr_id r = msg_thread m"
  shows "\<exists>st'. append_message no_faults m st = (Inr (), st') \<and>
    (\<exists>row \<in> set (st_messages st'). scan_message row
       = Inr (m\<lparr>msg_attachments := [], msg_created := time_unix (unix (msg_created m))\<rparr>)) \<and>
    mset (attachments_of st' (msg_id m)) = mset (map (\<lambda>a. a\<lparr>att_message := msg_id m\<rparr>) (msg_attachments m))"
proof -
  from append_fresh [OF inv valid fresh] obtain st' where tx: "append_tx no_faults m st = Inr st'" by blast
  have row: "scan_message (message_row_of m (msg_thread m))
      = Inr (m\<lparr>msg_attachments := [], msg_created := time_unix (unix (msg_created m))\<rparr>)"
    using valid by (rule scan_message_row_of) simp
  have new: "st_messages st' = st_messages st @ [message_row_of m (msg_thread m)] \<and>
    st_attachments st' = st_attachments st @ map (\<lambda>a. a\<lparr>att_message := msg_id m\<rparr>) (msg_attachments m)"
    using inv valid tx by (cases rule: append_tx_ok) (use thr in auto)
  have "msg_id m \<notin> mr_id ` set (st_messages st)" using fresh by (simp add: fresh_message_def)
  then have "att_message a \<noteq> msg_id m" if "a \<in> set (st_attachments st)" for a
    using inv that unfolding store_inv_def by (metis imageI)
  then have "filter (\<lambda>a. att_message a = msg_id m) (st_attachments st) = []"
    by (simp add: filter_empty_conv)
  then have "mset (attachments_of st' (msg_id m))
      = mset (map (\<lambda>a. a\<lparr>att_message := msg_id m\<rparr>) (msg_attachments m))"
    using new by (simp add: attachments_of_def filter_map comp_def)
  with tx row new show ?thesis by (auto simp: append_message_def)
qed

section \<open>Finding a thread under concurrent inserts\<close>

definition new_thread_row :: "extension \<Rightarrow> address \<Rightarrow> time \<Rightarrow> thread_id \<Rightarrow> thread_row" where
  "new_thread_row owner remote now new_id =
     \<lparr>tr_id = new_id, tr_owner = ext_string owner,
      tr_network = network_string (addr_network remote), tr_remote = addr_value remote,
      tr_last = unix now, tr_unread = 0, tr_pinned = 0, tr_archived = 0, tr_muted = 0\<rparr>"

lemma valid_new_thread_row:
  "valid_extension owner \<Longrightarrow> canonical_address remote \<Longrightarrow> valid_id new_id \<Longrightarrow>
     valid_thread_row (new_thread_row owner remote now new_id)"
  by (auto simp: valid_thread_row_def new_thread_row_def)

lemma new_thread_row_key [simp]:
  "thread_key (new_thread_row owner remote now new_id) = address_key owner remote"
  "tr_id (new_thread_row owner remote now new_id) = new_id"
  by (simp_all add: thread_key_def new_thread_row_def address_key_def)

text \<open>The outcomes of a call that saw no fault.\<close>

lemma find_thread_cases:
  assumes "find_thread fl race owner remote now new_id st = (r, st')"
  obtains (refused) e where "r = Inl e" "st' = st \<or> st' = race st"
    | (found) t where "lookup_thread st owner remote = Some t" "r = must_id (tr_id t)" "st' = st"
    | (raced) t where "lookup_thread (race st) owner remote = Some t"
        "r = must_id (tr_id t) \<or> (\<exists>e. r = Inl e)" "st' = race st"
    | (inserted) "lookup_thread (race st) owner remote = None"
        "thread_insert_ok (race st) (new_thread_row owner remote now new_id)"
        "st' = (race st)\<lparr>st_threads := st_threads (race st) @ [new_thread_row owner remote now new_id]\<rparr>"
        "r = must_id new_id \<or> (\<exists>e. r = Inl e)"
proof (cases "fl ''store.thread_find'' new_id \<or>
    (lookup_thread st owner remote = None \<and> fl ''store.thread_insert'' new_id)")
  case True
  with assms that(1) show ?thesis by (auto simp: find_thread_def Let_def split: if_splits option.splits)
next
  case False
  note nf = this
  show ?thesis
  proof (cases "lookup_thread st owner remote")
    case (Some t)
    with assms nf that(2) show ?thesis by (auto simp: find_thread_def)
  next
    case None
    show ?thesis
    proof (cases "lookup_thread (race st) owner remote")
      case (Some t)
      with assms nf None that(3) show ?thesis
        by (auto simp: find_thread_def Let_def split: if_splits)
    next
      case free: None
      let ?row = "new_thread_row owner remote now new_id"
      show ?thesis
      proof (cases "thread_insert_ok (race st) ?row")
        case True
        let ?st2 = "(race st)\<lparr>st_threads := st_threads (race st) @ [?row]\<rparr>"
        have "lookup_thread ?st2 owner remote = Some ?row"
          using free by (simp add: lookup_thread_def select_one_append)
            (simp add: select_one_def new_thread_row_def)
        with assms nf None free True that(4) show ?thesis
          by (auto simp: find_thread_def Let_def new_thread_row_def [symmetric] split: if_splits)
      next
        case bad: False
        with assms nf None free that(1) show ?thesis
          by (auto simp: find_thread_def Let_def new_thread_row_def [symmetric] split: if_splits)
      qed
    qed
  qed
qed

lemma find_thread_inv:
  assumes "store_inv st" "store_inv (race st)"
    and "valid_extension owner" "canonical_address remote" "valid_id new_id"
  shows "store_inv (snd (find_thread fl race owner remote now new_id st))"
proof -
  obtain r st' where run: "find_thread fl race owner remote now new_id st = (r, st')" by fastforce
  then have "store_inv st'"
  proof (cases rule: find_thread_cases)
    case inserted
    then show ?thesis using assms valid_new_thread_row by (simp add: store_inv_insert_thread)
  qed (use assms in auto)
  with run show ?thesis by simp
qed

lemma find_thread_present:
  assumes inv: "store_inv s" and t: "t \<in> set (st_threads s)" "thread_key t = address_key owner remote"
  shows "find_thread no_faults race owner remote now new_id s = (Inr (tr_id t), s)"
    and "valid_id (tr_id t)"
    and "\<forall>u \<in> set (st_threads s). thread_key u = address_key owner remote \<longrightarrow> tr_id t = tr_id u"
proof -
  show "valid_id (tr_id t)" using inv t by (simp add: store_inv_def valid_thread_row_def)
  with lookup_thread_unique [OF inv t]
  show "find_thread no_faults race owner remote now new_id s = (Inr (tr_id t), s)"
    by (simp add: find_thread_def no_faults_simp must_id_raw)
  show "\<forall>u \<in> set (st_threads s). thread_key u = address_key owner remote \<longrightarrow> tr_id t = tr_id u"
    using t store_inv_thread_key_unique [OF inv] by metis
qed

lemma find_thread_raced:
  assumes inv: "store_inv (race st)" and none: "lookup_thread st owner remote = None"
    and t: "t \<in> set (st_threads (race st))" "thread_key t = address_key owner remote"
  shows "find_thread no_faults race owner remote now new_id st = (Inr (tr_id t), race st)"
  using none lookup_thread_unique [OF inv t] find_thread_present(2) [OF inv t]
  by (simp add: find_thread_def no_faults_simp must_id_raw Let_def)

lemma find_thread_inserted:
  fixes now :: time
  assumes inv: "store_inv (race st)" and none: "lookup_thread st owner remote = None"
    and free: "lookup_thread (race st) owner remote = None"
    and valid: "valid_extension owner" "canonical_address remote" "valid_id new_id"
    and fresh: "new_id \<notin> tr_id ` set (st_threads (race st))"
  defines "st2 \<equiv> (race st)\<lparr>st_threads := st_threads (race st) @ [new_thread_row owner remote now new_id]\<rparr>"
  shows "store_inv st2 \<and> find_thread no_faults race owner remote now new_id st = (Inr new_id, st2)"
proof
  let ?row = "new_thread_row owner remote now new_id"
  have ok: "thread_insert_ok (race st) ?row"
    using fresh free by (simp add: thread_insert_ok_def lookup_thread_None)
  show inv2: "store_inv st2"
    unfolding st2_def using inv valid_new_thread_row [OF valid] ok by (rule store_inv_insert_thread)
  have "lookup_thread st2 owner remote = Some ?row"
    using inv2 by (rule lookup_thread_unique) (simp_all add: st2_def)
  then show "find_thread no_faults race owner remote now new_id st = (Inr new_id, st2)"
    using none free ok valid(3)
    by (simp add: find_thread_def no_faults_simp must_id_raw Let_def st2_def new_thread_row_def [symmetric])
qed

lemma find_thread_total:
  assumes inv: "store_inv st" "store_inv (race st)"
    and valid: "valid_extension owner" "canonical_address remote" "valid_id new_id"
    and fresh: "new_id \<notin> tr_id ` set (st_threads (race st))"
  shows "\<exists>tid st'. find_thread no_faults race owner remote now new_id st = (Inr tid, st') \<and>
    store_inv st' \<and> valid_id tid \<and>
    (\<exists>t \<in> set (st_threads st'). tr_id t = tid \<and> thread_key t = address_key owner remote) \<and>
    (\<forall>t \<in> set (st_threads st). thread_key t = address_key owner remote \<longrightarrow> tid = tr_id t \<and> st' = st) \<and>
    find_thread no_faults id owner remote now' new_id' st' = (Inr tid, st')"
proof (cases "lookup_thread st owner remote")
  case (Some t)
  note t = lookup_thread_Some [OF Some]
  with find_thread_present [OF inv(1), of t owner remote] inv(1) show ?thesis by blast
next
  case None
  then have none: "\<forall>u \<in> set (st_threads st). thread_key u \<noteq> address_key owner remote"
    by (auto simp: lookup_thread_None image_iff)
  show ?thesis
  proof (cases "lookup_thread (race st) owner remote")
    case (Some t)
    note t = lookup_thread_Some [OF Some]
    with find_thread_raced [of race st, OF inv(2) None, of t] find_thread_present [OF inv(2), of t owner remote]
      inv(2) none show ?thesis by blast
  next
    case free: None
    let ?row = "new_thread_row owner remote now new_id"
    let ?st2 = "(race st)\<lparr>st_threads := st_threads (race st) @ [?row]\<rparr>"
    from find_thread_inserted [of race st, OF inv(2) None free valid fresh]
    have run: "store_inv ?st2" "find_thread no_faults race owner remote now new_id st = (Inr new_id, ?st2)"
      by blast+
    have row: "?row \<in> set (st_threads ?st2)" "thread_key ?row = address_key owner remote"
      "tr_id ?row = new_id" by simp_all
    with find_thread_present [OF run(1) row(1,2)] run none show ?thesis by metis
  qed
qed

text \<open>
  Finding a thread is create-once: whatever other connections did between the lookup
  and the insert (as long as they kept the store sound), an answered id is the id of the
  one thread of that owner and address in the resulting store, an existing thread is never
  replaced, asking again answers the same id and writes nothing; and with a fresh id and
  no failing statement the call does answer.
\<close>

theorem find_thread_once:
  assumes inv: "store_inv st" "store_inv (race st)"
    and valid: "valid_extension owner" "canonical_address remote" "valid_id new_id"
    and fresh: "new_id \<notin> tr_id ` set (st_threads (race st))"
  shows "\<exists>tid st'. find_thread no_faults race owner remote now new_id st = (Inr tid, st') \<and>
    store_inv st' \<and> valid_id tid \<and>
    (\<exists>t \<in> set (st_threads st'). tr_id t = tid \<and> thread_key t = address_key owner remote) \<and>
    (\<forall>t \<in> set (st_threads st). thread_key t = address_key owner remote \<longrightarrow> tid = tr_id t \<and> st' = st) \<and>
    find_thread no_faults id owner remote now' new_id' st' = (Inr tid, st')"
  using assms by (rule find_thread_total)

text \<open>What finding a thread does to the conversations.\<close>

lemma find_thread_conversation:
  assumes inv: "store_inv st" and valid: "valid_extension owner" "canonical_address remote" "valid_id new_id"
    and run: "find_thread fl id owner remote now new_id st = (Inr tid, st')"
  shows "(\<exists>c. conversations st' (address_key owner remote) = Some c \<and>
      (case conversations st (address_key owner remote) of
         Some old \<Rightarrow> c = old | None \<Rightarrow> cv_log c = [] \<and> cv_unread c = 0)) \<and>
    (\<forall>k. k \<noteq> address_key owner remote \<longrightarrow> conversations st' k = conversations st k)"
  using run
proof (cases rule: find_thread_cases)
  case (found t)
  with lookup_thread_Some [OF found(1)] conversations_thread [OF inv, of t] show ?thesis by simp
next
  case (raced t)
  with lookup_thread_Some [of st owner remote t] conversations_thread [OF inv, of t] show ?thesis by simp
next
  case inserted
  let ?row = "new_thread_row owner remote now new_id"
  have none: "address_key owner remote \<notin> thread_key ` set (st_threads st)"
    using inserted(1) by (simp add: lookup_thread_None)
  have st': "st' = st\<lparr>st_threads := st_threads st @ [?row]\<rparr>" and ok: "thread_insert_ok st ?row"
    using inserted by simp_all
  have inv': "store_inv st'" unfolding st' using inv valid_new_thread_row [OF valid] ok
    by (rule store_inv_insert_thread)
  have "mr_thread m \<noteq> new_id" if "m \<in> set (st_messages st)" for m
    using inv that ok unfolding store_inv_def thread_insert_ok_def by (metis imageI new_thread_row_key(2))
  then have log: "filter (\<lambda>m. mr_thread m = new_id) (st_messages st) = []" by (simp add: filter_empty_conv)
  have "?row \<in> set (st_threads st')" by (simp add: st')
  from conversations_thread [OF inv' this]
  have c: "conversations st' (address_key owner remote) = Some (conversation_of st' ?row)" by simp
  have "conversations st' k = conversations st k" if k: "k \<noteq> address_key owner remote" for k
  proof -
    from inv show ?thesis
    proof (cases rule: conversations_cases [of _ k])
      case 1
      with k have "k \<notin> thread_key ` set (st_threads st')" by (auto simp: st')
      with 1 show ?thesis by (simp add: conversations_absent)
    next
      case (2 t)
      then have "t \<in> set (st_threads st')" by (simp add: st')
      from conversations_thread [OF inv' this] 2 show ?thesis by (simp add: conversation_of_def st')
    qed
  qed
  with c none log show ?thesis
    by (simp add: conversations_absent conversation_of_def st' new_thread_row_def)
qed simp

lemma find_thread_id:
  assumes inv: "store_inv st" and valid: "valid_extension owner" "canonical_address remote" "valid_id new_id"
    and run: "find_thread fl id owner remote now new_id st = (Inr tid, st')"
  shows "map_option cv_id (conversations st' (address_key owner remote)) = Some tid"
proof -
  have inv': "store_inv st'" using find_thread_inv [of st id, OF inv _ valid, of fl now] inv run by simp
  have "\<exists>t \<in> set (st_threads st'). thread_key t = address_key owner remote \<and> must_id (tr_id t) = Inr tid"
    using run
  proof (cases rule: find_thread_cases)
    case (found t)
    then show ?thesis using lookup_thread_Some [OF found(1)] by (intro bexI [of _ t]) auto
  next
    case (raced t)
    then show ?thesis using lookup_thread_Some [OF raced(1)] by (intro bexI [of _ t]) auto
  next
    case inserted
    then show ?thesis by (intro bexI [of _ "new_thread_row owner remote now new_id"]) auto
  qed simp
  then obtain t where t: "t \<in> set (st_threads st')" "thread_key t = address_key owner remote"
    "must_id (tr_id t) = Inr tid" by blast
  moreover have "valid_id (tr_id t)" using inv' t(1) by (simp add: store_inv_def valid_thread_row_def)
  ultimately show ?thesis using conversations_thread [OF inv' t(1)]
    by (simp add: must_id_raw conversation_of_def)
qed

section \<open>Every reachable store is sound\<close>

lemma update_outbound_inv:
  "store_inv st \<Longrightarrow> dlv_status d \<noteq> No_Status \<Longrightarrow> store_inv (snd (update_outbound_status fl mid d st))"
  by (simp add: update_outbound_status_def store_inv_set_delivery)

lemma set_thread_flag_inv:
  assumes "store_inv st"
  shows "store_inv (snd (set_thread_flag fl owner tid flag on st))"
proof (cases "thread_flag_columns flag")
  case None
  then show ?thesis using assms by (simp add: set_thread_flag_def)
next
  case (Some column)
  then have col: "column = (\<lambda>v r. r\<lparr>tr_pinned := v\<rparr>) \<or> column = (\<lambda>v r. r\<lparr>tr_archived := v\<rparr>) \<or>
      column = (\<lambda>v r. r\<lparr>tr_muted := v\<rparr>)"
    by (auto simp: thread_flag_columns_def split: if_splits)
  have "store_inv (st\<lparr>st_threads := update_where (own_thread owner tid) (column (bool_int on)) (st_threads st)\<rparr>)"
  proof (rule store_inv_update_threads [OF assms])
    fix r
    show "tr_id (column (bool_int on) r) = tr_id r" using col by (elim disjE) simp_all
    show "thread_key (column (bool_int on) r) = thread_key r"
      using col by (elim disjE) (simp_all add: thread_key_def)
    assume "valid_thread_row r"
    then show "valid_thread_row (column (bool_int on) r)"
      using col by (elim disjE) (simp_all add: valid_thread_row_def bool_int_def)
  qed
  with Some assms show ?thesis by (simp add: set_thread_flag_def)
qed

lemma mark_thread_read_inv:
  assumes "store_inv st"
  shows "store_inv (snd (mark_thread_read fl owner tid st))"
proof -
  have "store_inv (st\<lparr>st_threads := update_where (own_thread owner tid) (\<lambda>r. r\<lparr>tr_unread := 0\<rparr>) (st_threads st)\<rparr>)"
    using assms by (rule store_inv_update_threads) (auto simp: thread_key_def valid_thread_row_def)
  with assms show ?thesis by (simp add: mark_thread_read_def)
qed

lemma append_message_inv:
  assumes "store_inv st" "valid_message m"
  shows "store_inv (snd (append_message fl m st))"
proof (cases "append_tx fl m st")
  case (Inr st')
  with assms have "store_inv st'" by (cases rule: append_tx_ok) blast+
  with Inr show ?thesis by (simp add: append_message_def)
qed (use assms in \<open>simp add: append_message_def\<close>)

text \<open>
  The runs of the store: any sequence of its operations, with any faults, a find
  interleaved with any other run.
\<close>

inductive store_run :: "store \<Rightarrow> store \<Rightarrow> bool" where
  run_start: "store_run st st"
| run_append: "store_run s st \<Longrightarrow> valid_message m \<Longrightarrow> store_run s (snd (append_message fl m st))"
| run_status: "store_run s st \<Longrightarrow> dlv_status d \<noteq> No_Status \<Longrightarrow>
    store_run s (snd (update_outbound_status fl mid d st))"
| run_flag: "store_run s st \<Longrightarrow> store_run s (snd (set_thread_flag fl owner tid flag on st))"
| run_read: "store_run s st \<Longrightarrow> store_run s (snd (mark_thread_read fl owner tid st))"
| run_find: "store_run s st \<Longrightarrow> store_run st (race st) \<Longrightarrow> valid_extension owner \<Longrightarrow>
    canonical_address remote \<Longrightarrow> valid_id new_id \<Longrightarrow>
    store_run s (snd (find_thread fl race owner remote now new_id st))"
| run_sweep: "store_run s st \<Longrightarrow> store_run s (snd (sweep fl cutoff st))"

text \<open>
  C2. Every run keeps the store sound: identifiers, thread keys and provider references
  stay unique, every message hangs on the thread of its own owner, network and remote, no
  attachment outlives its message, inbound rows carry no delivery status and outbound rows
  always do, and every stored text parses back - so no read of such a store can panic.
\<close>

theorem store_run_sound:
  assumes "store_run st st'" and "store_inv st"
  shows "store_inv st' \<and> (\<forall>t \<in> set (st_threads st'). \<exists>v. scan_thread t = Inr v) \<and>
    (\<forall>m \<in> set (st_messages st'). \<exists>v. scan_message m = Inr v) \<and>
    (\<forall>a \<in> set (st_attachments st'). scan_attachment a = Inr a)"
proof -
  from assms have inv: "store_inv st'"
  proof induction
    case (run_find s st race owner remote new_id fl now)
    then show ?case by (intro find_thread_inv) auto
  qed (simp_all add: append_message_inv update_outbound_inv set_thread_flag_inv
      mark_thread_read_inv sweep_inv)
  then have "\<exists>v. scan_thread t = Inr v" if "t \<in> set (st_threads st')" for t
    using that scan_valid_thread_row [of t] by (auto simp: store_inv_def)
  moreover have "\<exists>v. scan_message m = Inr v" if "m \<in> set (st_messages st')" for m
    using inv that scan_valid_message_row [of m] by (auto simp: store_inv_def)
  ultimately show ?thesis using inv scan_attachment_valid [OF inv] by blast
qed

section \<open>A concrete store\<close>

definition sample_attachment :: attachment where
  "sample_attachment =
     \<lparr>att_id = ''attach-00000000000001'', att_message = ''messag-00000000000001'',
      att_name = ''photo.jpg'', att_mime = ''image/jpeg'', att_size = 3,
      att_path = ''attachments/a.jpg''\<rparr>"

definition sample_message :: message where
  "sample_message =
     (new_outbound_message ''messag-00000000000001'' ''thread-00000000000001'' (Extension ''1001'')
        \<lparr>addr_network = Network_SMS, addr_value = ''+4930123''\<rparr> ''Save 50%'' 1 (time_unix 1000))
       \<lparr>msg_attachments := [sample_attachment]\<rparr>"

definition sample_store :: store where
  "sample_store = snd (append_message no_faults sample_message empty_store)"

lemmas sample_simps = sample_message_def sample_attachment_def new_outbound_message_def

lemma sample_valid: "valid_message sample_message"
  by (simp add: valid_message_def sample_simps valid_id_def valid_extension_def canonical_address_def
      valid_dialable_def dialable_char_def is_digit_char_def is_letter_char_def)

lemma sample_inv: "store_inv sample_store"
  by (simp add: sample_store_def append_message_inv sample_valid)

lemma sample_eval:
  "append_message no_faults sample_message empty_store =
     (Inr (), \<lparr>st_threads = [birth_row sample_message],
        st_messages = [message_row_of sample_message ''thread-00000000000001''],
        st_attachments = [sample_attachment]\<rparr>)"
  by code_simp

lemma sample_store_eq:
  "sample_store = \<lparr>st_threads = [birth_row sample_message],
        st_messages = [message_row_of sample_message ''thread-00000000000001''],
        st_attachments = [sample_attachment]\<rparr>"
  by (simp add: sample_store_def sample_eval)

lemma sample_run: "append_message no_faults sample_message empty_store = (Inr (), sample_store)"
  by (simp add: sample_store_def sample_eval)

section \<open>The properties at the concrete store\<close>

theorem append_refines_witness:
  "conversations sample_store (''1001'', ''sms'', ''+4930123'')
     = Some (conv_append sample_message None) \<and>
   store_inv sample_store"
proof -
  have "address_key (msg_owner sample_message) (msg_remote sample_message) = (''1001'', ''sms'', ''+4930123'')"
    by (simp add: sample_simps address_key_def)
  moreover have "conversations empty_store k = None" for k
    by (simp add: conversations_def empty_store_def select_one_def)
  ultimately show ?thesis
    using append_refines [OF store_inv_empty sample_valid sample_run] by simp
qed

theorem append_roundtrip_witness:
  "\<exists>row \<in> set (st_messages sample_store). scan_message row
     = Inr (sample_message\<lparr>msg_attachments := []\<rparr>)"
proof -
  have "fresh_message empty_store sample_message"
    by (simp add: fresh_message_def empty_store_def sample_simps)
  moreover have "\<forall>r. lookup_thread empty_store (msg_owner sample_message) (msg_remote sample_message)
      = Some r \<longrightarrow> tr_id r = msg_thread sample_message"
    by (simp add: lookup_thread_def empty_store_def select_one_def)
  ultimately obtain st' where st': "append_message no_faults sample_message empty_store = (Inr (), st')"
    "\<exists>row \<in> set (st_messages st'). scan_message row = Inr (sample_message
       \<lparr>msg_attachments := [], msg_created := time_unix (unix (msg_created sample_message))\<rparr>)"
    using append_roundtrip [OF store_inv_empty sample_valid] by blast
  have "msg_created sample_message = time_unix 1000" by (simp add: sample_simps)
  then have "sample_message\<lparr>msg_attachments := [], msg_created := time_unix (unix (msg_created sample_message))\<rparr>
      = sample_message\<lparr>msg_attachments := []\<rparr>" by simp
  moreover have "st' = sample_store" using st'(1) by (simp add: sample_store_def)
  ultimately show ?thesis using st'(2) by simp
qed

theorem find_thread_once_witness:
  "find_thread no_faults id (Extension ''1001'') \<lparr>addr_network = Network_SMS, addr_value = ''+4930123''\<rparr>
     0 ''thread-00000000000002'' sample_store = (Inr ''thread-00000000000001'', sample_store)"
proof -
  let ?o = "Extension ''1001''" and ?r = "\<lparr>addr_network = Network_SMS, addr_value = ''+4930123''\<rparr>"
  have "valid_extension ?o" "canonical_address ?r" "valid_id ''thread-00000000000002''"
    by (simp_all add: valid_id_def valid_extension_def canonical_address_def
        valid_dialable_def dialable_char_def is_digit_char_def is_letter_char_def)
  moreover have "''thread-00000000000002'' \<notin> tr_id ` set (st_threads (id sample_store))"
    by (simp add: sample_store_eq birth_row_def sample_simps)
  ultimately obtain tid st' where run:
    "find_thread no_faults id ?o ?r 0 ''thread-00000000000002'' sample_store = (Inr tid, st')"
    "\<forall>t \<in> set (st_threads sample_store). thread_key t = address_key ?o ?r \<longrightarrow> tid = tr_id t \<and> st' = sample_store"
    using find_thread_once [where st = sample_store and race = id and owner = ?o and remote = ?r
        and new_id = "''thread-00000000000002''" and now = 0 and now' = 0
        and new_id' = "''thread-00000000000002''"] sample_inv
    by (metis id_apply)
  have "birth_row sample_message \<in> set (st_threads sample_store)"
    "thread_key (birth_row sample_message) = address_key ?o ?r"
    "tr_id (birth_row sample_message) = ''thread-00000000000001''"
    by (simp_all add: sample_store_eq birth_row_def sample_simps thread_key_def address_key_def)
  with run show ?thesis by auto
qed

theorem store_run_sound_witness:
  "store_inv (snd (sweep no_faults (time_unix 2000) sample_store)) \<and>
   st_messages (snd (sweep no_faults (time_unix 2000) sample_store)) = []"
proof
  have "store_run empty_store (snd (append_message no_faults sample_message empty_store))"
    by (intro store_run.intros sample_valid)
  then have "store_run empty_store (snd (sweep no_faults (time_unix 2000) sample_store))"
    unfolding sample_store_def by (rule run_sweep)
  from store_run_sound [OF this store_inv_empty]
  show "store_inv (snd (sweep no_faults (time_unix 2000) sample_store))" ..
qed code_simp

theorem sweep_exact_witness:
  "swp_paths (fst (fst (sweep no_faults (time_unix 2000) sample_store))) = [''attachments/a.jpg'']"
proof -
  obtain res where run: "sweep no_faults (time_unix 2000) sample_store
      = ((res, None), \<lparr>st_threads = [], st_messages = [], st_attachments = []\<rparr>)"
  proof
    show "sweep no_faults (time_unix 2000) sample_store = ((\<lparr>swp_messages = 1, swp_threads = 1,
        swp_paths = [''attachments/a.jpg'']\<rparr>, None), \<lparr>st_threads = [], st_messages = [], st_attachments = []\<rparr>)"
      by code_simp
  qed
  from sweep_exact [OF sample_inv this]
  have "mset (swp_paths res) = mset (map att_path (st_attachments sample_store))" by simp
  then have "swp_paths res = [''attachments/a.jpg'']"
    by (simp add: sample_store_eq sample_attachment_def)
  with run show ?thesis by simp
qed

theorem transcript_pages_witness:
  "list_messages_page no_faults sample_store (Extension ''1001'') ''thread-00000000000001'' 0 200
     = Inr ([sample_message], False)"
proof -
  have "(200::nat) \<le> chunk_size" by (simp add: chunk_size_def)
  from transcript_pages [OF sample_inv this, of "Extension ''1001''" "''thread-00000000000001''"]
  have "list_messages_page no_faults sample_store (Extension ''1001'') ''thread-00000000000001'' (int 0) 200
     = Inr (page_view sample_store (Extension ''1001'') ''thread-00000000000001'' 200 0,
         (0 + 1) * 200 < length (transcript_rows sample_store (Extension ''1001'') ''thread-00000000000001''))"
    by blast
  moreover have "page_view sample_store (Extension ''1001'') ''thread-00000000000001'' 200 0 = [sample_message]"
    "length (transcript_rows sample_store (Extension ''1001'') ''thread-00000000000001'') = 1"
    by code_simp+
  ultimately show ?thesis by simp
qed

theorem search_exact_witness:
  "\<exists>sums. search_threads no_faults sample_store (Extension ''1001'') ''50%'' = Inr sums \<and>
     map (\<lambda>v. thr_id (sum_thread v)) sums = [''thread-00000000000001'']"
proof -
  from search_exact [OF sample_inv, of "Extension ''1001''" "''50%''"] obtain sums where
    "search_threads no_faults sample_store (Extension ''1001'') ''50%'' = Inr sums"
    by blast
  moreover have "case search_threads no_faults sample_store (Extension ''1001'') ''50%'' of Inl _ \<Rightarrow> False
     | Inr sums \<Rightarrow> map (\<lambda>v. thr_id (sum_thread v)) sums = [''thread-00000000000001'']"
    by code_simp
  ultimately show ?thesis by auto
qed

theorem owner_scoping_witness:
  "get_thread no_faults sample_store (Extension ''1002'') ''thread-00000000000001'' = Inl Not_Found"
proof -
  have "\<forall>r \<in> set (st_threads sample_store). tr_id r = ''thread-00000000000001'' \<longrightarrow>
      tr_owner r \<noteq> ext_string (Extension ''1002'')"
    by (simp add: sample_store_eq birth_row_def sample_simps)
  then show ?thesis using owner_scoping by blast
qed

theorem attach_long_window_witness:
  "\<exists>ms. attach_attachments no_faults sample_store (replicate 501 (sample_message\<lparr>msg_attachments := []\<rparr>)) = Inr ms \<and>
     msg_attachments (ms ! 0) = [] \<and> attachments_of sample_store (msg_id (ms ! 0)) \<noteq> []"
proof -
  let ?msgs = "replicate 501 (sample_message\<lparr>msg_attachments := []\<rparr>)"
  have "chunk_size < length ?msgs" "length ?msgs \<le> 2 * chunk_size" by (simp_all add: chunk_size_def)
  from attach_long_window [OF sample_inv this] obtain ms where
    "attach_attachments no_faults sample_store ?msgs = Inr ms" "ms ! 0 = ?msgs ! 0"
    by (auto simp: chunk_size_def)
  moreover have "?msgs ! 0 = sample_message\<lparr>msg_attachments := []\<rparr>" by (rule nth_replicate) simp
  ultimately show ?thesis
    by (simp add: attachments_of_def sample_store_eq sample_simps)
qed

end
