(* ===== verification/Delivery_Log.thy ===== *)
theory Delivery_Log
  imports Store_Contract
begin

text \<open>
  What the messaging service relies on when it correlates a provider's verdicts: the
  interface \<open>delivery_log\<close> of the store's delivery updates and lookups, the fact about
  whole verdict sequences proved once on it, and its interpretation on the SQL tables.
\<close>

text \<open>One verdict applied through a lookup by reference and an update by id.\<close>

definition apply_verdict ::
  "(string \<Rightarrow> 's \<Rightarrow> err + message) \<Rightarrow> (message_id \<Rightarrow> delivery \<Rightarrow> 's \<Rightarrow> (err + unit) \<times> 's)
     \<Rightarrow> string \<Rightarrow> verdict \<times> string \<Rightarrow> 's \<Rightarrow> (err + message) \<times> 's" where
  "apply_verdict by_ref upd ref v s =
     (case by_ref ref s of
        Inl e \<Rightarrow> (Inl e, s)
      | Inr m \<Rightarrow>
          let d = fst (delivery_advance (delivery_of m) (Provider_Verdict (fst v) (snd v))) in
          case upd (msg_id m) d s of
            (Inl e, s') \<Rightarrow> (Inl e, s')
          | (Inr _, s') \<Rightarrow> (Inr (with_delivery m d), s'))"

locale delivery_log =
  fixes inv :: "'s \<Rightarrow> bool"
    and row :: "'s \<Rightarrow> message_id \<Rightarrow> delivery option"
    and upd :: "message_id \<Rightarrow> delivery \<Rightarrow> 's \<Rightarrow> (err + unit) \<times> 's"
    and by_ref :: "string \<Rightarrow> 's \<Rightarrow> err + message"
  assumes upd_row: "inv s \<Longrightarrow> dlv_status d \<noteq> No_Status \<Longrightarrow> named_failure (dlv_fkind d) \<Longrightarrow> upd i d s = (Inr (), s') \<Longrightarrow>
      inv s' \<and> row s' = (row s)(i \<mapsto> d)"
    and upd_same_ref: "inv s \<Longrightarrow> row s i = Some d \<Longrightarrow> dlv_ref d' = dlv_ref d \<Longrightarrow>
      \<exists>s'. upd i d' s = (Inr (), s')"
    and by_ref_row: "inv s \<Longrightarrow> row s i = Some d \<Longrightarrow> dlv_ref d = r \<Longrightarrow> r \<noteq> [] \<Longrightarrow>
      \<exists>m. by_ref r s = Inr m \<and> msg_id m = i \<and> delivery_of m = d"
begin

lemma verdict_step:
  assumes "inv s" "row s i = Some d" "dlv_ref d = r" "r \<noteq> []" "dlv_status d \<noteq> No_Status"
  shows "\<exists>m s'. apply_verdict by_ref upd r v s = (Inr m, s') \<and> inv s' \<and>
    row s' = (row s)(i \<mapsto> settle v d) \<and> delivery_of m = settle v d"
proof -
  obtain m where m: "by_ref r s = Inr m" "msg_id m = i" "delivery_of m = d"
    using by_ref_row [OF assms(1-4)] by blast
  have adv: "fst (delivery_advance d (Provider_Verdict (fst v) (snd v))) = settle v d"
    using assms(5) by (simp add: advance_verdict settle_def)
  have "dlv_ref (settle v d) = dlv_ref d" by (simp add: settle_def)
  from upd_same_ref [OF assms(1,2) this] obtain s' where s': "upd i (settle v d) s = (Inr (), s')"
    by blast
  have "dlv_status (settle v d) \<noteq> No_Status" "named_failure (dlv_fkind (settle v d))"
    by (cases "fst v"; simp add: settle_def)+
  from upd_row [OF assms(1) this s'] m adv s' show ?thesis
    by (simp add: apply_verdict_def Let_def)
qed

text \<open>Whatever verdicts arrive for a reference, the row ends where the machine's fold ends.\<close>

lemma verdict_run:
  assumes "inv s" "row s i = Some d" "dlv_ref d = r" "r \<noteq> []" "dlv_status d \<noteq> No_Status"
  shows "inv (fold (\<lambda>v s. snd (apply_verdict by_ref upd r v s)) vs s) \<and>
    row (fold (\<lambda>v s. snd (apply_verdict by_ref upd r v s)) vs s)
      = (row s)(i \<mapsto> delivery_run d (map (\<lambda>v. Provider_Verdict (fst v) (snd v)) vs))"
  using assms
proof (induction vs arbitrary: s d)
  case Nil
  then show ?case by (simp add: delivery_run_def fun_upd_idem)
next
  case (Cons v vs)
  obtain m s' where step: "apply_verdict by_ref upd r v s = (Inr m, s')" "inv s'"
    "row s' = (row s)(i \<mapsto> settle v d)"
    using verdict_step [OF Cons.prems] by blast
  have d': "row s' i = Some (settle v d)" "dlv_ref (settle v d) = r" "dlv_status (settle v d) \<noteq> No_Status"
    using step(3) Cons.prems(3) by (cases "fst v"; simp add: settle_def)+
  have adv: "fst (delivery_advance d (Provider_Verdict (fst v) (snd v))) = settle v d"
    using Cons.prems(5) by (simp add: advance_verdict settle_def)
  from Cons.IH [OF step(2) d'(1,2) Cons.prems(4) d'(3)] step show ?case
    by (simp add: delivery_run_Cons adv fun_eq_iff)
qed

end

section \<open>The SQL tables provide it\<close>

definition row_delivery :: "store \<Rightarrow> message_id \<Rightarrow> delivery option" where
  "row_delivery st mid =
     map_option (\<lambda>r. \<lparr>dlv_status = projr (parse_outbound_status (mr_status r)), dlv_ref = mr_ref r,
                     dlv_fkind = failure_of_string (mr_fkind r), dlv_fdetail = mr_fdetail r\<rparr>)
       (select_one (outbound_row mid) (st_messages st))"

lemma outbound_unique:
  assumes "store_inv st" "r \<in> set (st_messages st)" "outbound_row mid r"
  shows "select_one (outbound_row mid) (st_messages st) = Some r"
  using assms store_inv_message_unique
  by (intro select_one_unique) (auto simp: outbound_row_def)

lemma update_ok:
  assumes inv: "store_inv st" and status: "dlv_status d \<noteq> No_Status" and named: "named_failure (dlv_fkind d)"
    and run: "update_outbound_status fl i d st = (Inr (), st')"
  shows "store_inv st' \<and> row_delivery st' = (row_delivery st)(i \<mapsto> d)"
proof
  have st': "st' = st\<lparr>st_messages := update_where (outbound_row i) (set_delivery d) (st_messages st)\<rparr>"
    and some: "rows_affected (outbound_row i) (st_messages st) \<noteq> 0"
    and clash: "\<not> ref_clash st i (dlv_ref d)"
    using run by (auto simp: update_outbound_status_def updated_or_not_found_def split: if_splits)
  show inv': "store_inv st'" unfolding st' using inv clash status by (rule store_inv_set_delivery)
  have out: "outbound_row j (set_delivery d r) = outbound_row j r" for j r
    by (simp add: outbound_row_def set_delivery_def)
  show "row_delivery st' = (row_delivery st)(i \<mapsto> d)"
  proof
    fix j
    show "row_delivery st' j = ((row_delivery st)(i \<mapsto> d)) j"
    proof (cases "j = i")
      case True
      from some obtain r where r: "r \<in> set (st_messages st)" "outbound_row i r"
        by (auto simp: rows_affected_0)
      then have "set_delivery d r \<in> set (st_messages st')" by (auto simp: st' set_update_where)
      from outbound_unique [OF inv' this, of i] r out True status named show ?thesis
        by (simp add: row_delivery_def set_delivery_def named_failure_def)
    next
      case False
      have "select_one (outbound_row j) (update_where (outbound_row i) (set_delivery d) rs)
          = select_one (outbound_row j) rs" for rs
        using False by (induction rs) (auto simp: select_one_def row_simps outbound_row_def set_delivery_def)
      with False show ?thesis by (simp add: row_delivery_def st')
    qed
  qed
qed

text \<open>A row's reference is its own under the unique index, so writing it again never clashes.\<close>

lemma no_self_clash:
  assumes inv: "store_inv st" and r: "r \<in> set (st_messages st)" "outbound_row i r"
  shows "\<not> ref_clash st i (mr_ref r)"
proof
  assume "ref_clash st i (mr_ref r)"
  then obtain q where q: "q \<in> set (st_messages st)" "mr_id q \<noteq> i" "mr_ref q = mr_ref r" "mr_ref r \<noteq> []"
    by (auto simp: ref_clash_def)
  have "distinct (map mr_ref (filter (\<lambda>m. mr_ref m \<noteq> []) (st_messages st)))"
    using inv by (simp add: store_inv_def)
  from distinct_key_unique [OF this, of q r] q r(1) have "q = r" by auto
  with q(2) r(2) show False by (simp add: outbound_row_def)
qed

lemma row_delivery_Some:
  assumes "row_delivery st i = Some d"
  obtains r where "r \<in> set (st_messages st)" "outbound_row i r" "mr_ref r = dlv_ref d"
    "select_one (outbound_row i) (st_messages st) = Some r"
    "dlv_status d = projr (parse_outbound_status (mr_status r))"
    "dlv_fkind d = failure_of_string (mr_fkind r)" "dlv_fdetail d = mr_fdetail r"
proof -
  from assms obtain r where sel: "select_one (outbound_row i) (st_messages st) = Some r"
    and d: "d = \<lparr>dlv_status = projr (parse_outbound_status (mr_status r)), dlv_ref = mr_ref r,
        dlv_fkind = failure_of_string (mr_fkind r), dlv_fdetail = mr_fdetail r\<rparr>"
    by (auto simp: row_delivery_def)
  show thesis
    by (rule that [of r]) (use select_one_Some [OF sel] sel in \<open>simp_all add: d\<close>)
qed

lemma update_same_ref:
  assumes inv: "store_inv st" and row: "row_delivery st i = Some d" and ref: "dlv_ref d' = dlv_ref d"
  shows "\<exists>st'. update_outbound_status no_faults i d' st = (Inr (), st')"
proof -
  from row obtain r where r: "r \<in> set (st_messages st)" "outbound_row i r" "mr_ref r = dlv_ref d"
    by (rule row_delivery_Some)
  with no_self_clash [OF inv r(1,2)] ref have "\<not> ref_clash st i (dlv_ref d')" by simp
  moreover have "rows_affected (outbound_row i) (st_messages st) \<noteq> 0"
    using r by (auto simp: rows_affected_0)
  ultimately have "fst (update_outbound_status no_faults i d' st) = Inr ()"
    by (simp add: update_outbound_status_def updated_or_not_found_def no_faults_simp)
  then show ?thesis by (metis prod.collapse)
qed

lemma scan_message_delivery:
  assumes "valid_message_row r" "scan_message r = Inr m"
  shows "delivery_of m = \<lparr>dlv_status = projr (parse_outbound_status (mr_status r)), dlv_ref = mr_ref r,
      dlv_fkind = failure_of_string (mr_fkind r), dlv_fdetail = mr_fdetail r\<rparr>"
proof -
  from assms(1) obtain s where "mr_status r = status_string s"
    unfolding valid_message_row_def by blast
  with assms(2) show ?thesis
    by (auto simp: scan_message_def delivery_of_def must_def split: sum.splits)
qed

lemma by_ref_ok:
  assumes inv: "store_inv st" and row: "row_delivery st i = Some d" and ref: "dlv_ref d = ref" "ref \<noteq> []"
  shows "\<exists>m. message_by_provider_ref no_faults ref st = Inr m \<and> msg_id m = i \<and> delivery_of m = d \<and>
    (\<exists>r \<in> set (st_messages st). scan_message r = Inr m)"
proof -
  from row obtain r where r: "r \<in> set (st_messages st)" "outbound_row i r" "mr_ref r = dlv_ref d"
    "dlv_status d = projr (parse_outbound_status (mr_status r))"
    "dlv_fkind d = failure_of_string (mr_fkind r)" "dlv_fdetail d = mr_fdetail r"
    by (rule row_delivery_Some)
  have "select_one (\<lambda>q. mr_ref q = ref \<and> mr_direction q = direction_string Outbound) (st_messages st) = Some r"
  proof (rule select_one_unique)
    fix q assume q: "q \<in> set (st_messages st)" "mr_ref q = ref \<and> mr_direction q = direction_string Outbound"
    have "distinct (map mr_ref (filter (\<lambda>m. mr_ref m \<noteq> []) (st_messages st)))"
      using inv by (simp add: store_inv_def)
    from distinct_key_unique [OF this, of q r] q r ref show "q = r" by auto
  qed (use r ref in \<open>auto simp: outbound_row_def\<close>)
  moreover have valid: "valid_message_row r" using inv r(1) by (simp add: store_inv_def)
  moreover obtain m where m: "scan_message r = Inr m" "msg_id m = mr_id r"
    using scan_valid_message_row [OF valid] by blast
  moreover have "delivery_of m = d"
    using scan_message_delivery [OF valid m(1)] r by simp
  ultimately show ?thesis using r(1,2) ref
    by (auto simp: message_by_provider_ref_def no_faults_simp outbound_row_def)
qed

interpretation msgs: delivery_log store_inv row_delivery "update_outbound_status no_faults"
  "message_by_provider_ref no_faults"
proof unfold_locales
  fix s s' i and d :: delivery
  assume "store_inv s" "dlv_status d \<noteq> No_Status" "named_failure (dlv_fkind d)"
    "update_outbound_status no_faults i d s = (Inr (), s')"
  then show "store_inv s' \<and> row_delivery s' = (row_delivery s)(i \<mapsto> d)" by (rule update_ok)
next
  fix s i and d d' :: delivery
  assume "store_inv s" "row_delivery s i = Some d" "dlv_ref d' = dlv_ref d"
  then show "\<exists>s'. update_outbound_status no_faults i d' s = (Inr (), s')" by (rule update_same_ref)
next
  fix s i r and d :: delivery
  assume "store_inv s" "row_delivery s i = Some d" "dlv_ref d = r" "r \<noteq> []"
  from by_ref_ok [OF this]
  show "\<exists>m. message_by_provider_ref no_faults r s = Inr m \<and> msg_id m = i \<and> delivery_of m = d"
    by blast
qed

end
