(* ===== verification/Fax_Domain.thy ===== *)
theory Fax_Domain
  imports Messages_Domain
begin

text \<open>
  Fax jobs and the outbound fax machine of \<^verbatim>\<open>internal/domain/fax.go\<close>: statuses and
  directions with their stored texts, the two constructors of job rows, the move table as
  data, one advance step, and the reachable statuses of an outbound job.
\<close>

section \<open>Enumerations and rows\<close>

datatype fax_direction = Fax_Outbound | Fax_Inbound

fun fax_direction_string :: "fax_direction \<Rightarrow> string" where
  "fax_direction_string Fax_Outbound = ''out''"
| "fax_direction_string Fax_Inbound = ''in''"

definition parse_fax_direction :: "string \<Rightarrow> err + fax_direction" where
  "parse_fax_direction raw =
     (if raw = ''out'' then Inr Fax_Outbound
      else if raw = ''in'' then Inr Fax_Inbound
      else Inl (Coded Rejection ''domain.fax_direction''))"

datatype fax_status = Fax_Queued | Fax_Sending | Fax_Transmitted | Fax_Received | Fax_Failed

fun fax_status_string :: "fax_status \<Rightarrow> string" where
  "fax_status_string Fax_Queued = ''queued''"
| "fax_status_string Fax_Sending = ''sending''"
| "fax_status_string Fax_Transmitted = ''transmitted''"
| "fax_status_string Fax_Received = ''received''"
| "fax_status_string Fax_Failed = ''failed''"

definition parse_fax_status :: "string \<Rightarrow> err + fax_status" where
  "parse_fax_status raw =
     (if raw = ''queued'' then Inr Fax_Queued
      else if raw = ''sending'' then Inr Fax_Sending
      else if raw = ''transmitted'' then Inr Fax_Transmitted
      else if raw = ''received'' then Inr Fax_Received
      else if raw = ''failed'' then Inr Fax_Failed
      else Inl (Coded Rejection ''domain.fax_status''))"

record fax_job =
  job_id :: fax_id
  job_owner :: extension
  job_remote :: phone
  job_direction :: fax_direction
  job_status :: fax_status
  job_pages :: int
  job_path :: string
  job_ref :: string
  job_error :: string
  job_created :: time
  job_updated :: time

record inbound_fax =
  ifx_owner :: extension
  ifx_from :: phone
  ifx_pages :: int
  ifx_pdf :: "char list"
  ifx_received :: time
  ifx_ref :: string

definition new_outbound_fax_job ::
  "fax_id \<Rightarrow> extension \<Rightarrow> phone \<Rightarrow> string \<Rightarrow> time \<Rightarrow> fax_job" where
  "new_outbound_fax_job fid owner remote path at =
     \<lparr>job_id = fid, job_owner = owner, job_remote = remote, job_direction = Fax_Outbound,
      job_status = Fax_Queued, job_pages = 0, job_path = path, job_ref = [], job_error = [],
      job_created = at, job_updated = at\<rparr>"

definition new_inbound_fax_job ::
  "fax_id \<Rightarrow> extension \<Rightarrow> phone \<Rightarrow> string \<Rightarrow> string \<Rightarrow> int \<Rightarrow> time \<Rightarrow> fax_job" where
  "new_inbound_fax_job fid owner remote path ref pages at =
     \<lparr>job_id = fid, job_owner = owner, job_remote = remote, job_direction = Fax_Inbound,
      job_status = Fax_Received, job_pages = pages, job_path = path, job_ref = ref, job_error = [],
      job_created = at, job_updated = at\<rparr>"

text \<open>The machine-owned slice of a row, the payload of one advance.\<close>

record fax_delivery =
  fdl_status :: fax_status
  fdl_ref :: string
  fdl_error :: string
  fdl_pages :: int

section \<open>The machine\<close>

datatype fax_event_kind = Kind_Accepted | Kind_Settled | Kind_Submit_Failed | Kind_Verdict

datatype fax_event = Fax_Accepted | Fax_Settled | Fax_Submit_Failed | Fax_Verdict fax_status

fun fax_kind :: "fax_event \<Rightarrow> fax_event_kind" where
  "fax_kind Fax_Accepted = Kind_Accepted"
| "fax_kind Fax_Settled = Kind_Settled"
| "fax_kind Fax_Submit_Failed = Kind_Submit_Failed"
| "fax_kind (Fax_Verdict _) = Kind_Verdict"

fun fax_target :: "fax_event \<Rightarrow> fax_status" where
  "fax_target Fax_Accepted = Fax_Sending"
| "fax_target Fax_Settled = Fax_Transmitted"
| "fax_target Fax_Submit_Failed = Fax_Failed"
| "fax_target (Fax_Verdict s) = s"

definition fax_moves :: "(fax_status \<times> fax_event_kind \<times> fax_status) list" where
  "fax_moves =
     [(Fax_Queued, Kind_Accepted, Fax_Sending),
      (Fax_Queued, Kind_Submit_Failed, Fax_Failed),
      (Fax_Sending, Kind_Settled, Fax_Transmitted),
      (Fax_Queued, Kind_Verdict, Fax_Transmitted),
      (Fax_Sending, Kind_Verdict, Fax_Transmitted),
      (Fax_Failed, Kind_Verdict, Fax_Transmitted),
      (Fax_Transmitted, Kind_Verdict, Fax_Transmitted),
      (Fax_Queued, Kind_Verdict, Fax_Failed),
      (Fax_Sending, Kind_Verdict, Fax_Failed),
      (Fax_Transmitted, Kind_Verdict, Fax_Failed),
      (Fax_Failed, Kind_Verdict, Fax_Failed)]"

definition fax_advance :: "fax_status \<Rightarrow> fax_event \<Rightarrow> fax_status \<times> bool" where
  "fax_advance from_status e =
     (if (from_status, fax_kind e, fax_target e) \<notin> set fax_moves then (from_status, False)
      else (fax_target e, True))"

section \<open>Lemmas\<close>

lemma parse_fax_status_string [simp]: "parse_fax_status (fax_status_string s) = Inr s"
  by (cases s) (simp_all add: parse_fax_status_def)

lemma parse_fax_status_ok: "parse_fax_status raw = Inr s \<longleftrightarrow> raw = fax_status_string s"
  by (cases s) (auto simp: parse_fax_status_def)

lemma fax_status_string_inj [simp]: "fax_status_string s = fax_status_string t \<longleftrightarrow> s = t"
  by (metis parse_fax_status_string sum.inject(2))

lemma fax_status_string_nonempty [simp]: "fax_status_string s \<noteq> []"
  by (cases s) simp_all

lemma parse_fax_direction_string [simp]: "parse_fax_direction (fax_direction_string d) = Inr d"
  by (cases d) (simp_all add: parse_fax_direction_def)

definition fax_verdict_status :: "fax_status \<Rightarrow> bool" where
  "fax_verdict_status s \<longleftrightarrow> s = Fax_Transmitted \<or> s = Fax_Failed"

lemma fax_advance_verdict:
  "fax_advance s (Fax_Verdict v) =
     (if s \<noteq> Fax_Received \<and> fax_verdict_status v then (v, True) else (s, False))"
  by (cases s; cases v) (simp_all add: fax_advance_def fax_moves_def fax_verdict_status_def)

lemma fax_advance_accepted:
  "fax_advance s Fax_Accepted = (if s = Fax_Queued then (Fax_Sending, True) else (s, False))"
  by (cases s) (simp_all add: fax_advance_def fax_moves_def)

lemma fax_advance_settled:
  "fax_advance s Fax_Settled = (if s = Fax_Sending then (Fax_Transmitted, True) else (s, False))"
  by (cases s) (simp_all add: fax_advance_def fax_moves_def)

lemma fax_advance_submit_failed:
  "fax_advance s Fax_Submit_Failed = (if s = Fax_Queued then (Fax_Failed, True) else (s, False))"
  by (cases s) (simp_all add: fax_advance_def fax_moves_def)

lemmas fax_advance_simps =
  fax_advance_verdict fax_advance_accepted fax_advance_settled fax_advance_submit_failed

lemma fax_advance_not_ok: "snd (fax_advance s e) = False \<Longrightarrow> fst (fax_advance s e) = s"
  by (simp add: fax_advance_def split: if_splits)

lemma fax_received_inert: "fax_advance Fax_Received e = (Fax_Received, False)"
  by (cases e) (simp_all add: fax_advance_simps)

section \<open>Reachable statuses\<close>

inductive fax_step :: "fax_status \<Rightarrow> fax_event \<Rightarrow> fax_status \<Rightarrow> bool" where
  fax_move: "fax_advance s e = (s', True) \<Longrightarrow> fax_step s e s'"

inductive_cases fax_step_cases: "fax_step s e s'"
inductive_simps fax_step_iff: "fax_step s e s'"

inductive fax_reaches :: "fax_status \<Rightarrow> fax_status \<Rightarrow> bool" where
  fax_here: "fax_reaches s s"
| fax_further: "fax_reaches s s' \<Longrightarrow> fax_step s' e s'' \<Longrightarrow> fax_reaches s s''"

text \<open>How far a status is from being settled; every move off the verdict lane shrinks it.\<close>

fun fax_open :: "fax_status \<Rightarrow> nat" where
  "fax_open Fax_Queued = 2"
| "fax_open Fax_Sending = 1"
| "fax_open _ = 0"

lemma fax_step_shrinks:
  "fax_step s e s' \<Longrightarrow> fax_open s' \<le> fax_open s \<and> (fax_open s' = fax_open s \<longrightarrow> fax_open s = 0)"
  by (cases s; cases e) (auto simp: fax_step_iff fax_advance_simps fax_verdict_status_def split: if_splits)

lemma fax_step_not_received: "fax_step s e s' \<Longrightarrow> s \<noteq> Fax_Received \<and> s' \<noteq> Fax_Received"
  by (cases e) (auto simp: fax_step_iff fax_advance_simps fax_verdict_status_def split: if_splits)

text \<open>
  Lifecycle of the faxes: an outbound job (born queued) never becomes the inbound fact
  received and never returns to an earlier stage, once settled it stays a verdict; and the
  inbound fact is final, no event whatsoever moves it.
\<close>

theorem fax_lifecycle:
  assumes "fax_reaches s s'"
  shows "fax_open s' \<le> fax_open s \<and> (s = Fax_Received \<longleftrightarrow> s' = Fax_Received) \<and>
    (fax_verdict_status s \<longrightarrow> fax_verdict_status s')"
proof -
  from assms have *: "fax_open s' \<le> fax_open s \<and> (s = Fax_Received \<longleftrightarrow> s' = Fax_Received)"
  proof induction
    case (fax_here s)
    then show ?case by simp
  next
    case (fax_further s s' e s'')
    then have "s' \<noteq> Fax_Received \<and> s'' \<noteq> Fax_Received" "fax_open s'' \<le> fax_open s'"
      using fax_step_shrinks fax_step_not_received by blast+
    with fax_further show ?case by auto
  qed
  then have "fax_verdict_status s \<longrightarrow> fax_verdict_status s'"
    by (cases s; cases s') (auto simp: fax_verdict_status_def)
  with * show ?thesis by blast
qed

theorem fax_lifecycle_witness:
  "fax_open Fax_Transmitted \<le> fax_open Fax_Queued \<and> fax_reaches Fax_Queued Fax_Transmitted"
proof -
  have "fax_step Fax_Queued Fax_Accepted Fax_Sending" "fax_step Fax_Sending Fax_Settled Fax_Transmitted"
    by (simp_all add: fax_step_iff fax_advance_simps)
  then have "fax_reaches Fax_Queued Fax_Transmitted" by (meson fax_reaches.intros)
  then show ?thesis using fax_lifecycle by blast
qed

end
