(* ===== verification/Gateway.thy ===== *)
theory Gateway
  imports Fax_Domain
begin

text \<open>
  The outbound seam of \<^verbatim>\<open>internal/gateway\<close>: receipts and their resolution, the refusal
  a provider answers and its family, the self-send guard, the loopback gateway, and the
  webhook gateway's reading of one HTTP exchange. The exchange itself (request building,
  transport, the bytes of the answer) is an input, and so are the texts \<^verbatim>\<open>Error()\<close>
  renders for wrapped failures and the two JSON decodings, which the sources delegate.
\<close>

datatype resolution = Resolution_Deferred | Resolution_Immediate

record receipt =
  rcp_ref :: string
  rcp_resolution :: resolution

record outbound_attachment =
  oat_name :: string
  oat_mime :: string
  oat_path :: string

record outbound_message =
  out_owner :: extension
  out_to :: address
  out_body :: string
  out_attachments :: "outbound_attachment list"

record outbound_fax =
  ofx_owner :: extension
  ofx_to :: phone
  ofx_path :: string

section \<open>Refusals and their family\<close>

text \<open>
  \<^verbatim>\<open>FindStringSubmatch\<close> of the envelope expression: the literal text at the start, then
  three digits, which are the submatch.
\<close>

definition envelope_prefix :: string where
  "envelope_prefix = ''telnyx rejected the send (HTTP ''"

definition embedded_status :: "string \<Rightarrow> nat option" where
  "embedded_status detail =
     (if has_prefix envelope_prefix detail then
        (case drop (length envelope_prefix) detail of
           a # b # c # _ \<Rightarrow>
             if is_digit_char a \<and> is_digit_char b \<and> is_digit_char c
             then Some ((of_char a - 48) * 100 + (of_char b - 48) * 10 + (of_char c - 48))
             else None
         | _ \<Rightarrow> None)
      else None)"

definition provider_rejected_family :: "int \<Rightarrow> string \<Rightarrow> family" where
  "provider_rejected_family status detail =
     (case embedded_status detail of
        Some embedded \<Rightarrow> if embedded \<ge> 500 then Transient else Rejection
      | None \<Rightarrow> if status \<ge> 500 then Transient else Rejection)"

definition provider_rejected_text :: "int \<Rightarrow> string \<Rightarrow> string" where
  "provider_rejected_text status detail =
     ''provider rejected: HTTP '' @ int_decimal status @ '': '' @ detail"

fun send_error_family :: "send_error \<Rightarrow> family" where
  "send_error_family (Provider_Rejected status detail) = provider_rejected_family status detail"
| "send_error_family (Send_Failure fam _) = fam"

fun send_error_text :: "send_error \<Rightarrow> string" where
  "send_error_text (Provider_Rejected status detail) = provider_rejected_text status detail"
| "send_error_text (Send_Failure _ txt) = txt"

text \<open>\<^verbatim>\<open>ForwardError\<close> is family-neutral and prefixes the text of its cause.\<close>

definition forward_error_text :: "send_error \<Rightarrow> string" where
  "forward_error_text e = ''gateway: '' @ send_error_text e"

definition self_send_rejection ::
  "(string \<rightharpoonup> string) \<Rightarrow> extension \<Rightarrow> phone \<Rightarrow> string \<Rightarrow> send_error option" where
  "self_send_rejection identities owner to detail =
     (case identities (ext_string owner) of
        None \<Rightarrow> None
      | Some did \<Rightarrow>
          (case parse_phone did of
             Inl _ \<Rightarrow> None
           | Inr own \<Rightarrow> if to \<noteq> own then None else Some (Provider_Rejected 400 detail)))"

section \<open>Loopback\<close>

definition loopback_send :: "string \<Rightarrow> int \<Rightarrow> receipt" where
  "loopback_send prefix now_nanos =
     \<lparr>rcp_ref = prefix @ ''-'' @ int_decimal now_nanos, rcp_resolution = Resolution_Immediate\<rparr>"

section \<open>Webhook\<close>

text \<open>
  One exchange with the provider: the request could not be built, the transport failed,
  or an answer arrived with its status, the bytes it sent and whether the stream ended
  without an error.
\<close>

datatype exchange =
    Request_Failed string
  | Transport_Failed string
  | Answer int string bool

record decoders =
  dec_error :: "string \<Rightarrow> string option"
  dec_receipt :: "string \<Rightarrow> string option"
  dec_failed_text :: string
  read_failed_text :: string

definition unwrap_error_json :: "decoders \<Rightarrow> string \<Rightarrow> string" where
  "unwrap_error_json D raw =
     (let trimmed = trim_space raw in
      case dec_error D trimmed of
        Some e \<Rightarrow> if trim_space e \<noteq> [] then trim_space e else trimmed
      | None \<Rightarrow> trimmed)"

definition webhook_post :: "decoders \<Rightarrow> exchange \<Rightarrow> send_error + receipt" where
  "webhook_post D ex =
     (case ex of
        Request_Failed txt \<Rightarrow> Inl (Send_Failure Infrastructure txt)
      | Transport_Failed txt \<Rightarrow> Inl (Send_Failure Transient txt)
      | Answer status body ended \<Rightarrow>
          if status < 200 \<or> status \<ge> 300
          then Inl (Provider_Rejected status (unwrap_error_json D (take 512 body)))
          else if \<not> ended \<and> length body < 4096
          then Inl (Send_Failure Transient (read_failed_text D))
          else
            let raw = take 4096 body in
            case dec_receipt D raw of
              Some ref \<Rightarrow> Inr \<lparr>rcp_ref = ref, rcp_resolution = Resolution_Deferred\<rparr>
            | None \<Rightarrow>
                let ref = trim_space raw in
                if ref \<noteq> [] \<and> length ref \<le> 256 \<and> CHR ''{'' \<notin> set ref
                then Inr \<lparr>rcp_ref = ref, rcp_resolution = Resolution_Deferred\<rparr>
                else Inl (Send_Failure Transient (dec_failed_text D)))"

section \<open>Picking the gateway\<close>

datatype gateway_impl = Webhook_Gateway | Loopback_Gateway string

definition new_message_gateway :: "string \<Rightarrow> err + gateway_impl" where
  "new_message_gateway mode =
     (if mode = ''webhook'' then Inr Webhook_Gateway
      else if mode = ''loopback'' then Inr (Loopback_Gateway ''loopback-msg'')
      else Inl Panic)"

definition new_fax_gateway :: "string \<Rightarrow> err + gateway_impl" where
  "new_fax_gateway mode =
     (if mode = ''webhook'' then Inr Webhook_Gateway
      else if mode = ''loopback'' then Inr (Loopback_Gateway ''loopback-fax'')
      else Inl Panic)"

text \<open>
  One call of the picked gateway: loopback reads the clock, the webhook reads its exchange.
\<close>

definition gateway_send :: "gateway_impl \<Rightarrow> decoders \<Rightarrow> int \<Rightarrow> exchange \<Rightarrow> send_error + receipt" where
  "gateway_send g D now_nanos ex =
     (case g of
        Webhook_Gateway \<Rightarrow> webhook_post D ex
      | Loopback_Gateway prefix \<Rightarrow> Inr (loopback_send prefix now_nanos))"

section \<open>Lemmas\<close>

lemma embedded_status_digits:
  assumes "is_digit_char a" "is_digit_char b" "is_digit_char c"
  shows "embedded_status (envelope_prefix @ a # b # c # rest)
    = Some ((of_char a - 48) * 100 + (of_char b - 48) * 10 + (of_char c - 48))"
  using assms by (simp add: embedded_status_def has_prefix_def)

lemma self_send_iff:
  "self_send_rejection ids owner to detail \<noteq> None \<longleftrightarrow>
     (\<exists>did. ids (ext_string owner) = Some did \<and> parse_phone did = Inr to)"
  by (auto simp: self_send_rejection_def split: option.splits sum.splits)

lemma self_send_value:
  "self_send_rejection ids owner to detail = Some e \<Longrightarrow> e = Provider_Rejected 400 detail"
  by (auto simp: self_send_rejection_def split: option.splits sum.splits if_splits)

lemma webhook_deferred: "webhook_post D ex = Inr r \<Longrightarrow> rcp_resolution r = Resolution_Deferred"
  by (auto simp: webhook_post_def Let_def split: exchange.splits if_splits option.splits)

text \<open>
  Reading a provider's answer: a webhook call yields a receipt only for a 2xx answer,
  its receipt is deferred (the acceptance is never taken for the verdict), a non-2xx answer
  is the provider's own refusal with its status, and a failure that is not an answer is
  never a provider refusal.
\<close>

theorem webhook_post_reading:
  "(case webhook_post D ex of
      Inr r \<Rightarrow> rcp_resolution r = Resolution_Deferred \<and>
        (\<exists>status body ended. ex = Answer status body ended \<and> 200 \<le> status \<and> status < 300)
    | Inl (Provider_Rejected status detail) \<Rightarrow>
        (\<exists>body ended. ex = Answer status body ended \<and> \<not> (200 \<le> status \<and> status < 300))
    | Inl (Send_Failure fam txt) \<Rightarrow>
        (\<forall>status body ended. ex = Answer status body ended \<longrightarrow> fam = Transient) \<and>
        fam \<noteq> Rejection)"
  by (cases ex) (auto simp: webhook_post_def Let_def split: option.splits)

theorem webhook_post_reading_witness:
  "webhook_post \<lparr>dec_error = (\<lambda>_. None), dec_receipt = (\<lambda>_. None), dec_failed_text = [],
      read_failed_text = []\<rparr> (Answer 202 ''pm-77'' True)
    = Inr \<lparr>rcp_ref = ''pm-77'', rcp_resolution = Resolution_Deferred\<rparr>"
proof -
  let ?D = "\<lparr>dec_error = (\<lambda>_. None), dec_receipt = (\<lambda>_. None), dec_failed_text = [],
      read_failed_text = []\<rparr>"
  have "webhook_post ?D (Answer 202 ''pm-77'' True)
    = Inr \<lparr>rcp_ref = ''pm-77'', rcp_resolution = Resolution_Deferred\<rparr>" by code_simp
  with webhook_post_reading [where D = ?D and ex = "Answer 202 ''pm-77'' True"] show ?thesis by simp
qed

end
