(* ===== verification/Blob.thy ===== *)
theory Blob
  imports Store_Rows
begin

text \<open>
  The blob store of \<^verbatim>\<open>internal/blob/store.go\<close>: a map from the paths below its root to
  file contents. The generated file name is an input. The operating system's failures are
  the \<open>faults\<close> of the call; the atomic write either wrote the whole file or nothing.
  \<^verbatim>\<open>filepath.Join\<close> puts one slash between the directory and the name: the directories the
  sources pass are clean literals, and neither a name nor a file extension holds a slash.
\<close>

type_synonym files = "string \<Rightarrow> char list option"

definition join_path :: "string \<Rightarrow> string \<Rightarrow> string" where
  "join_path dir file = (if dir = [] then file else dir @ ''/'' @ file)"

definition blob_save ::
  "faults \<Rightarrow> string \<Rightarrow> string \<Rightarrow> string \<Rightarrow> char list \<Rightarrow> files \<Rightarrow> (err + rel_path) \<times> files" where
  "blob_save fl name sub_dir ext content fs =
     (if sub_dir \<noteq> [] \<and> fl ''blob.subdir'' sub_dir
      then (Inl (Coded Infrastructure ''blob.subdir''), fs)
      else if fl ''blob.name'' name then (Inl (Coded Infrastructure ''blob.name''), fs)
      else
        let rel = join_path sub_dir (name @ ext) in
        if fl ''blob.write'' rel then (Inl (Coded Infrastructure ''blob.write''), fs)
        else
          let fs' = fs(rel \<mapsto> content) in
          case parse_rel_path rel of
            Inl _ \<Rightarrow> (Inl (Coded Infrastructure ''blob.name''), fs')
          | Inr branded \<Rightarrow> (Inr branded, fs'))"

definition blob_open :: "faults \<Rightarrow> rel_path \<Rightarrow> files \<Rightarrow> err + char list" where
  "blob_open fl rel fs =
     (if fl ''blob.open'' (rel_string rel) then Inl (Coded Infrastructure ''blob.open'')
      else case fs (rel_string rel) of
             None \<Rightarrow> Inl (Coded Infrastructure ''blob.open'')
           | Some content \<Rightarrow> Inr content)"

definition blob_abs :: "string \<Rightarrow> rel_path \<Rightarrow> string" where
  "blob_abs root rel = join_path root (rel_string rel)"

definition blob_remove :: "faults \<Rightarrow> rel_path \<Rightarrow> files \<Rightarrow> (err + unit) \<times> files" where
  "blob_remove fl rel fs =
     (case fs (rel_string rel) of
        None \<Rightarrow> (Inr (), fs)
      | Some _ \<Rightarrow>
          if fl ''blob.remove'' (rel_string rel)
          then (Inl (Coded Infrastructure ''blob.remove''), fs)
          else (Inr (), fs(rel_string rel := None)))"

lemma blob_save_ok:
  assumes "blob_save fl name sub_dir ext content fs = (Inr rel, fs')"
  shows "rel_string rel = join_path sub_dir (name @ ext) \<and> fs' = fs(rel_string rel \<mapsto> content) \<and>
    parse_rel_path (rel_string rel) = Inr rel"
  using assms by (auto simp: blob_save_def Let_def parse_rel_path_ok split: if_splits sum.splits)

lemma blob_save_error:
  assumes "blob_save fl name sub_dir ext content fs = (Inl e, fs')"
  shows "\<exists>code. e = Coded Infrastructure code"
  using assms by (auto simp: blob_save_def Let_def split: if_splits sum.splits)

lemma blob_open_save:
  assumes "blob_save fl name sub_dir ext content fs = (Inr rel, fs')"
  shows "blob_open no_faults rel fs' = Inr content"
  using blob_save_ok [OF assms] by (simp add: blob_open_def no_faults_simp)

lemma blob_remove_gone:
  "blob_remove no_faults rel fs = (Inr (), fs(rel_string rel := None))"
  by (auto simp: blob_remove_def no_faults_simp fun_eq_iff split: option.splits)

end
