(* ===== verification/Messaging.thy ===== *)
theory Messaging
  imports Delivery_Log Gateway Blob
begin

text \<open>
  The messaging service of \<^verbatim>\<open>internal/messaging/service.go\<close>: validating and sending a
  message, receiving one, applying a provider's verdict, and the small pass-through
  operations. The world it acts on is the message store, the blob files, the events it
  emitted and the messages it handed to a gateway, oldest first. A gateway is the function
  from the message handed over to its answer. The identifiers minted during a call and the
  clock are inputs. A failed status update is logged by the source and otherwise ignored.
\<close>

record world =
  wd_store :: store
  wd_files :: files
  wd_events :: "domain_event list"
  wd_sent :: "outbound_message list"

record messaging =
  svc_senders :: "network \<Rightarrow> (outbound_message \<Rightarrow> send_error + receipt) option"
  svc_identities :: "string \<Rightarrow> string option"
  svc_root :: string

record mint =
  mint_thread :: thread_id
  mint_message :: message_id
  mint_attachment :: "nat \<Rightarrow> attachment_id"
  mint_blob :: "nat \<Rightarrow> string"

section \<open>Building the service\<close>

definition new_messaging ::
  "(outbound_message \<Rightarrow> send_error + receipt) \<Rightarrow> (string \<Rightarrow> string option) \<Rightarrow> string \<Rightarrow> messaging" where
  "new_messaging gw identities root =
     \<lparr>svc_senders = [Network_SMS \<mapsto> gw], svc_identities = identities, svc_root = root\<rparr>"

definition register_sender ::
  "network \<Rightarrow> (outbound_message \<Rightarrow> send_error + receipt) \<Rightarrow> messaging \<Rightarrow> err + messaging" where
  "register_sender net gw svc =
     (if net = Network_SMS then Inl (Coded Rejection ''messaging.sender_register'')
      else if svc_senders svc net \<noteq> None then Inl (Coded Rejection ''messaging.sender_register'')
      else case parse_network (network_string net) of
             Inl e \<Rightarrow> Inl e
           | Inr parsed \<Rightarrow> Inr (svc\<lparr>svc_senders := (svc_senders svc)(parsed \<mapsto> gw)\<rparr>))"

section \<open>Validation\<close>

definition max_attachments :: nat where "max_attachments = 5"
definition max_attachment_size :: nat where "max_attachment_size = 10 * 1024 * 1024"
definition max_body_length :: nat where "max_body_length = 1600"
definition message_page_size :: nat where "message_page_size = 200"

definition oversized :: "upload list \<Rightarrow> upload option" where
  "oversized ups = find (\<lambda>u. length (upl_bytes u) > max_attachment_size) ups"

text \<open>The refusals in the code's order; past them all, the sender of the address's network.\<close>

definition validate_send ::
  "messaging \<Rightarrow> address \<Rightarrow> string \<Rightarrow> upload list \<Rightarrow> err + (outbound_message \<Rightarrow> send_error + receipt)" where
  "validate_send svc to body ups =
     (if body = [] \<and> length ups = 0 then Inl (Invalid ''a message needs text or an attachment'')
      else if length body > max_body_length
      then Inl (Invalid ''message longer than 1600 characters'')
      else if length ups > max_attachments
      then Inl (Invalid ''at most 5 attachments per message'')
      else
        case oversized ups of
          Some u \<Rightarrow> Inl (Invalid (''attachment '' @ upl_name u @ '' larger than 10 MiB''))
        | None \<Rightarrow>
            (case svc_senders svc (addr_network to) of
               None \<Rightarrow> Inl (Invalid (''no sender configured for network '' @ [CHR 0x22] @
                   network_string (addr_network to) @ [CHR 0x22]))
             | Some sender \<Rightarrow> Inr sender))"

section \<open>Attachments\<close>

definition known_extensions :: "string list" where
  "known_extensions =
     [''.jpg'', ''.jpeg'', ''.png'', ''.gif'', ''.webp'', ''.pdf'', ''.txt'', ''.vcf'', ''.amr'',
      ''.mp3'', ''.ogg'', ''.mp4'', ''.webm'']"

definition extension_of :: "upload \<Rightarrow> string" where
  "extension_of u =
     (let ext = lower_ascii (path_ext (upl_name u)) in
      if ext \<in> set known_extensions then ext
      else if ext = [] \<and> has_prefix ''image/'' (upl_mime u) then ''.img''
      else ''.bin'')"

definition sanitize_filename :: "string \<Rightarrow> string" where
  "sanitize_filename name =
     (let base = path_base (trim_space name) in
      if base = [] \<or> base = ''.'' \<or> base = ''..'' then ''attachment''
      else if length base > 128 then drop (length base - 128) base
      else base)"

text \<open>
  The upload loop: each upload is spooled to a blob, then becomes an attachment row and a
  reference for the gateway. A failing save ends the loop; earlier blobs stay on disk.
\<close>

fun save_uploads ::
  "string \<Rightarrow> faults \<Rightarrow> mint \<Rightarrow> nat \<Rightarrow> upload list \<Rightarrow> files
     \<Rightarrow> (err + (attachment \<times> outbound_attachment) list) \<times> files" where
  "save_uploads root fl mt i [] fs = (Inr [], fs)"
| "save_uploads root fl mt i (u # ups) fs =
     (case blob_save fl (mint_blob mt i) ''attachments'' (extension_of u) (upl_bytes u) fs of
        (Inl e, fs1) \<Rightarrow> (Inl e, fs1)
      | (Inr path, fs1) \<Rightarrow>
          let a = \<lparr>att_id = mint_attachment mt i, att_message = mint_message mt,
                   att_name = sanitize_filename (upl_name u), att_mime = upl_mime u,
                   att_size = length (upl_bytes u), att_path = rel_string path\<rparr>;
              out = \<lparr>oat_name = att_name a, oat_mime = att_mime a, oat_path = blob_abs root path\<rparr> in
          case save_uploads root fl mt (Suc i) ups fs1 of
            (Inl e, fs2) \<Rightarrow> (Inl e, fs2)
          | (Inr rest, fs2) \<Rightarrow> (Inr ((a, out) # rest), fs2))"

section \<open>Sending\<close>

definition failure_kind_of :: "send_error \<Rightarrow> failure_kind" where
  "failure_kind_of e =
     (if send_error_family e = Rejection then Failure_Rejected else Failure_Transient)"

definition self_send_detail :: string where
  "self_send_detail = ''messages cannot be sent to your own number''"

definition self_send_guard :: "messaging \<Rightarrow> extension \<Rightarrow> address \<Rightarrow> send_error option" where
  "self_send_guard svc owner to =
     (if addr_network to \<noteq> Network_SMS then None
      else case parse_phone (addr_value to) of
             Inl _ \<Rightarrow> None
           | Inr phone \<Rightarrow> self_send_rejection (svc_identities svc) owner phone self_send_detail)"

text \<open>From the persisted queued message to the gateway's answer on its row.\<close>

definition deliver ::
  "messaging \<Rightarrow> faults \<Rightarrow> (outbound_message \<Rightarrow> send_error + receipt) \<Rightarrow> message \<Rightarrow> outbound_message \<Rightarrow> world
     \<Rightarrow> (message option \<times> err option) \<times> world" where
  "deliver svc fl sender m out w =
     (let moved = Message_Delivery_Advanced (msg_owner m) (msg_thread m);
          (answer, sent) =
            (case self_send_guard svc (msg_owner m) (msg_remote m) of
               Some e \<Rightarrow> (Inl e, wd_sent w)
             | None \<Rightarrow> (sender out, wd_sent w @ [out])) in
      case answer of
        Inl e \<Rightarrow>
          let next = fst (delivery_advance (delivery_of m)
                       (Send_Refused (failure_kind_of e) (send_error_text e)));
              st = snd (update_outbound_status fl (msg_id m) next (wd_store w)) in
          ((Some (with_delivery m next), Some (Forward_Error e)),
           w\<lparr>wd_store := st, wd_events := wd_events w @ [moved], wd_sent := sent\<rparr>)
      | Inr rcp \<Rightarrow>
          let next = fst (delivery_advance (delivery_of m) (Send_Accepted (rcp_ref rcp)));
              st = snd (update_outbound_status fl (msg_id m) next (wd_store w)) in
          ((Some (with_delivery m next), None),
           w\<lparr>wd_store := st, wd_events := wd_events w @ [moved], wd_sent := sent\<rparr>))"

definition send_message ::
  "messaging \<Rightarrow> faults \<Rightarrow> (store \<Rightarrow> store) \<Rightarrow> mint \<Rightarrow> time \<Rightarrow> extension \<Rightarrow> address \<Rightarrow> string \<Rightarrow> upload list
     \<Rightarrow> world \<Rightarrow> (message option \<times> err option) \<times> world" where
  "send_message svc fl race mt now owner to raw ups w =
     (let body = trim_space raw in
      case validate_send svc to body ups of
        Inl e \<Rightarrow> ((None, Some e), w)
      | Inr sender \<Rightarrow>
          case find_thread fl race owner to now (mint_thread mt) (wd_store w) of
            (Inl e, st) \<Rightarrow> ((None, Some (wrap ''store.thread_resolve'' e)), w\<lparr>wd_store := st\<rparr>)
          | (Inr tid, st) \<Rightarrow>
              case save_uploads (svc_root svc) fl mt 0 ups (wd_files w) of
                (Inl e, fs) \<Rightarrow>
                  ((None, Some (wrap ''store.attachment_save'' e)), w\<lparr>wd_store := st, wd_files := fs\<rparr>)
              | (Inr saved, fs) \<Rightarrow>
                  let m = (new_outbound_message (mint_message mt) tid owner to body (length ups) now)
                            \<lparr>msg_attachments := map fst saved\<rparr>;
                      out = \<lparr>out_owner = owner, out_to = to, out_body = body,
                             out_attachments = map snd saved\<rparr> in
                  case append_message fl m st of
                    (Inl e, st1) \<Rightarrow>
                      ((None, Some (wrap ''store.message_append'' e)),
                       w\<lparr>wd_store := st1, wd_files := fs\<rparr>)
                  | (Inr _, st1) \<Rightarrow>
                      deliver svc fl sender m out
                        (w\<lparr>wd_store := st1, wd_files := fs,
                           wd_events := wd_events w @ [Message_Delivery_Advanced owner tid]\<rparr>))"

section \<open>Receiving and verdicts\<close>

definition receive_message ::
  "messaging \<Rightarrow> faults \<Rightarrow> (store \<Rightarrow> store) \<Rightarrow> mint \<Rightarrow> time \<Rightarrow> inbound_message \<Rightarrow> world
     \<Rightarrow> (err + message) \<times> world" where
  "receive_message svc fl race mt clock inb w =
     (let now = or_clock (inb_received inb) clock in
      case find_thread fl race (inb_owner inb) (inb_from inb) now (mint_thread mt) (wd_store w) of
        (Inl e, st) \<Rightarrow> (Inl (wrap ''store.thread_resolve'' e), w\<lparr>wd_store := st\<rparr>)
      | (Inr tid, st) \<Rightarrow>
          case save_uploads (svc_root svc) fl mt 0 (inb_attachments inb) (wd_files w) of
            (Inl e, fs) \<Rightarrow>
              (Inl (wrap ''store.attachment_save'' e), w\<lparr>wd_store := st, wd_files := fs\<rparr>)
          | (Inr saved, fs) \<Rightarrow>
              let m = (new_inbound_message (mint_message mt) tid (inb_owner inb) (inb_from inb)
                         (inb_body inb) (length (inb_attachments inb)) now)
                        \<lparr>msg_attachments := map fst saved\<rparr> in
              case append_message fl m st of
                (Inl e, st1) \<Rightarrow>
                  (Inl (wrap ''store.message_append'' e), w\<lparr>wd_store := st1, wd_files := fs\<rparr>)
              | (Inr _, st1) \<Rightarrow>
                  (Inr m, w\<lparr>wd_store := st1, wd_files := fs,
                            wd_events := wd_events w @ [Message_Received (inb_owner inb) tid]\<rparr>))"

definition delivery_receipt ::
  "faults \<Rightarrow> string \<Rightarrow> outbound_status \<Rightarrow> string \<Rightarrow> world \<Rightarrow> (err + message) \<times> world" where
  "delivery_receipt fl ref status err_msg w =
     (case verdict_of status of
        None \<Rightarrow> (Inl (Coded Rejection ''messaging.verdict''), w)
      | Some v \<Rightarrow>
          case message_by_provider_ref fl ref (wd_store w) of
            Inl e \<Rightarrow> (Inl e, w)
          | Inr m \<Rightarrow>
              let next = fst (delivery_advance (delivery_of m) (Provider_Verdict v err_msg)) in
              case update_outbound_status fl (msg_id m) next (wd_store w) of
                (Inl e, st) \<Rightarrow> (Inl (wrap ''store.outbound_status'' e), w\<lparr>wd_store := st\<rparr>)
              | (Inr _, st) \<Rightarrow>
                  let m' = with_delivery m next in
                  (Inr m', w\<lparr>wd_store := st,
                     wd_events := wd_events w @ [Message_Delivery_Advanced (msg_owner m') (msg_thread m')]\<rparr>))"

definition remote_read :: "faults \<Rightarrow> string \<Rightarrow> world \<Rightarrow> (err + unit) \<times> world" where
  "remote_read fl ref w =
     (case delivery_receipt fl ref Delivered [] w of
        (Inl e, w') \<Rightarrow> (Inl e, w') | (Inr _, w') \<Rightarrow> (Inr (), w'))"

section \<open>Reads and flags\<close>

definition svc_set_thread_flag ::
  "faults \<Rightarrow> extension \<Rightarrow> thread_id \<Rightarrow> string \<Rightarrow> bool \<Rightarrow> world \<Rightarrow> (err + unit) \<times> world" where
  "svc_set_thread_flag fl owner tid flag on w =
     (case set_thread_flag fl owner tid flag on (wd_store w) of
        (Inl e, st) \<Rightarrow> (Inl e, w\<lparr>wd_store := st\<rparr>)
      | (Inr _, st) \<Rightarrow>
          (Inr (), w\<lparr>wd_store := st, wd_events := wd_events w @ [Thread_Flag_Changed owner]\<rparr>))"

definition svc_mark_read :: "faults \<Rightarrow> extension \<Rightarrow> thread_id \<Rightarrow> world \<Rightarrow> (err + unit) \<times> world" where
  "svc_mark_read fl owner tid w =
     (case mark_thread_read fl owner tid (wd_store w) of (r, st) \<Rightarrow> (r, w\<lparr>wd_store := st\<rparr>))"

definition thread_window ::
  "faults \<Rightarrow> extension \<Rightarrow> thread_id \<Rightarrow> int \<Rightarrow> world \<Rightarrow> err + thread \<times> message list \<times> bool" where
  "thread_window fl owner tid page w =
     (case get_thread fl (wd_store w) owner tid of
        Inl e \<Rightarrow> Inl e
      | Inr t \<Rightarrow>
          (case list_messages_page fl (wd_store w) owner tid page message_page_size of
             Inl e \<Rightarrow> Inl e
           | Inr (ms, has_more) \<Rightarrow> Inr (t, ms, has_more)))"

definition thread_transcript ::
  "faults \<Rightarrow> extension \<Rightarrow> thread_id \<Rightarrow> world \<Rightarrow> err + thread \<times> message list" where
  "thread_transcript fl owner tid w =
     (case thread_window fl owner tid 0 w of Inl e \<Rightarrow> Inl e | Inr (t, ms, _) \<Rightarrow> Inr (t, ms))"

definition open_attachment :: "faults \<Rightarrow> string \<Rightarrow> world \<Rightarrow> err + char list" where
  "open_attachment fl path w =
     (case parse_rel_path path of Inl e \<Rightarrow> Inl e | Inr rel \<Rightarrow> blob_open fl rel (wd_files w))"

section \<open>Lemmas\<close>

lemma validate_send_ok:
  "validate_send svc to body ups = Inr sender \<longleftrightarrow>
     (body \<noteq> [] \<or> ups \<noteq> []) \<and> length body \<le> max_body_length \<and> length ups \<le> max_attachments \<and>
     (\<forall>u \<in> set ups. length (upl_bytes u) \<le> max_attachment_size) \<and>
     svc_senders svc (addr_network to) = Some sender"
proof -
  have "oversized ups = None \<longleftrightarrow> (\<forall>u \<in> set ups. length (upl_bytes u) \<le> max_attachment_size)"
    by (auto simp: oversized_def find_None_iff)
  then show ?thesis by (auto simp: validate_send_def split: option.splits)
qed

lemma save_uploads_shape:
  assumes "save_uploads root fl mt i ups fs = (Inr saved, fs')"
  shows "length saved = length ups \<and>
    map (\<lambda>p. att_id (fst p)) saved = map (mint_attachment mt) [i..<i + length ups] \<and>
    (\<forall>p \<in> set saved. att_message (fst p) = mint_message mt \<and> oat_name (snd p) = att_name (fst p))"
  using assms
proof (induction ups arbitrary: i fs saved)
  case Nil
  then show ?case by simp
next
  case (Cons u ups)
  from Cons.prems obtain path fs1 rest where
    "save_uploads root fl mt (Suc i) ups fs1 = (Inr rest, fs')"
    "saved = (\<lparr>att_id = mint_attachment mt i, att_message = mint_message mt,
        att_name = sanitize_filename (upl_name u), att_mime = upl_mime u,
        att_size = length (upl_bytes u), att_path = rel_string path\<rparr>,
      \<lparr>oat_name = sanitize_filename (upl_name u), oat_mime = upl_mime u,
        oat_path = blob_abs root path\<rparr>) # rest"
    by (auto simp: Let_def split: prod.splits sum.splits)
  moreover have "[i..<i + length (u # ups)] = i # [Suc i..<Suc i + length ups]"
    by (simp add: upt_conv_Cons del: upt_Suc)
  ultimately show ?case using Cons.IH [of "Suc i" fs1 rest] by (simp del: upt_Suc)
qed

text \<open>Minted names that the blob store can brand.\<close>

definition clean_name :: "string \<Rightarrow> bool" where
  "clean_name n \<longleftrightarrow> length n = 21 \<and> CHR ''/'' \<notin> set n \<and> CHR 0x5C \<notin> set n"

lemma extension_of_clean:
  "CHR ''/'' \<notin> set (extension_of u) \<and> CHR 0x5C \<notin> set (extension_of u)"
  by (auto simp: extension_of_def Let_def known_extensions_def)

lemma blob_path_ok:
  assumes "clean_name n" "CHR ''/'' \<notin> set ext" "CHR 0x5C \<notin> set ext"
  shows "parse_rel_path (join_path ''attachments'' (n @ ext)) = Inr (Rel_Path (''attachments'' @ ''/'' @ n @ ext))"
proof -
  have "split_byte (CHR ''/'') (''attachments'' @ CHR ''/'' # (n @ ext))
      = ''attachments'' # split_byte (CHR ''/'') (n @ ext)"
    by (rule split_byte_append) simp
  moreover have "split_byte (CHR ''/'') (n @ ext) = [n @ ext]"
    using assms by (intro split_byte_free) (auto simp: clean_name_def)
  moreover have "n @ ext \<noteq> ''..''" using assms(1) by (auto simp: clean_name_def append_eq_Cons_conv)
  ultimately show ?thesis using assms
    by (simp add: parse_rel_path_def join_path_def clean_name_def)
qed

lemma save_uploads_total:
  assumes "\<And>j. clean_name (mint_blob mt j)"
  shows "\<exists>saved fs'. save_uploads root no_faults mt i ups fs = (Inr saved, fs')"
proof (induction ups arbitrary: i fs)
  case Nil
  then show ?case by simp
next
  case (Cons u ups)
  have "\<exists>p fs1. blob_save no_faults (mint_blob mt i) ''attachments'' (extension_of u) (upl_bytes u) fs
      = (Inr p, fs1)"
    using blob_path_ok [OF assms [of i]] extension_of_clean [of u]
    by (simp add: blob_save_def no_faults_simp Let_def)
  then obtain p fs1 where "blob_save no_faults (mint_blob mt i) ''attachments'' (extension_of u)
      (upl_bytes u) fs = (Inr p, fs1)" by blast
  moreover obtain rest fs2 where "save_uploads root no_faults mt (Suc i) ups fs1 = (Inr rest, fs2)"
    using Cons.IH by blast
  ultimately show ?case by (simp add: Let_def)
qed

lemma deliver_sent:
  "wd_sent (snd (deliver svc fl sender m out w)) =
     (if self_send_guard svc (msg_owner m) (msg_remote m) = None then wd_sent w @ [out] else wd_sent w)"
  by (auto simp: deliver_def Let_def split: option.splits sum.splits)

lemma deliver_rows:
  "mr_id ` set (st_messages (wd_store (snd (deliver svc fl sender m out w))))
     = mr_id ` set (st_messages (wd_store w))"
proof -
  have "map mr_id (update_where P (set_delivery d) rs) = map mr_id rs" for P d rs
    by (rule map_update_where_frame) (simp add: set_delivery_def)
  then have "mr_id ` set (st_messages (snd (update_outbound_status fl i d st)))
      = mr_id ` set (st_messages st)" for i d st
    by (simp add: update_outbound_status_def flip: set_map)
  then show ?thesis by (auto simp: deliver_def Let_def split: option.splits sum.splits)
qed

text \<open>
  C6. Hand-over safety: one call of Send hands at most one message to a gateway, only the
  sender of the destination's network can get it, it is addressed as asked, within every
  limit, never a self-send, and by then its row is in the store - no matter what the tables
  hold and which statements fail.
\<close>

theorem handover_safe:
  "wd_sent (snd (send_message svc fl race mt now owner to raw ups w)) = wd_sent w \<or>
   (\<exists>out. wd_sent (snd (send_message svc fl race mt now owner to raw ups w)) = wd_sent w @ [out] \<and>
      out_owner out = owner \<and> out_to out = to \<and> out_body out = trim_space raw \<and>
      length (out_body out) \<le> 1600 \<and> length (out_attachments out) \<le> 5 \<and>
      length (out_attachments out) = length ups \<and>
      \<not> (out_body out = [] \<and> out_attachments out = []) \<and>
      svc_senders svc (addr_network to) \<noteq> None \<and> self_send_guard svc owner to = None \<and>
      mint_message mt \<in> mr_id `
        set (st_messages (wd_store (snd (send_message svc fl race mt now owner to raw ups w)))))"
proof (cases "validate_send svc to (trim_space raw) ups")
  case (Inl e)
  then show ?thesis by (simp add: send_message_def Let_def)
next
  case (Inr sender)
  note ok = Inr [unfolded validate_send_ok]
  obtain r st where find: "find_thread fl race owner to now (mint_thread mt) (wd_store w) = (r, st)"
    by fastforce
  obtain q fs where save: "save_uploads (svc_root svc) fl mt 0 ups (wd_files w) = (q, fs)" by fastforce
  show ?thesis
  proof (cases r; cases q)
    fix tid saved assume r: "r = Inr tid" and q: "q = Inr saved"
    let ?m = "(new_outbound_message (mint_message mt) tid owner to (trim_space raw) (length ups) now)
        \<lparr>msg_attachments := map fst saved\<rparr>"
    let ?out = "\<lparr>out_owner = owner, out_to = to, out_body = trim_space raw, out_attachments = map snd saved\<rparr>"
    have len: "length saved = length ups" using save_uploads_shape save q by blast
    show ?thesis
    proof (cases "append_tx fl ?m st")
      case (Inl e)
      with find r save q Inr show ?thesis by (simp add: send_message_def Let_def append_message_def)
    next
      case tx: (Inr st1)
      let ?w = "w\<lparr>wd_store := st1, wd_files := fs,
          wd_events := wd_events w @ [Message_Delivery_Advanced owner tid]\<rparr>"
      have run: "send_message svc fl race mt now owner to raw ups w = deliver svc fl sender ?m ?out ?w"
        using find r save q Inr tx by (simp add: send_message_def Let_def append_message_def)
      have "mint_message mt \<in> mr_id ` set (st_messages st1)"
        using append_tx_row [OF tx] by (simp add: new_outbound_message_def)
      then show ?thesis
        using ok len deliver_rows [of svc fl sender ?m ?out ?w] deliver_sent [of svc fl sender ?m ?out ?w]
        by (auto simp: run new_outbound_message_def max_body_length_def max_attachments_def)
    qed
  qed (use find save Inr in \<open>simp_all add: send_message_def Let_def\<close>)
qed

section \<open>Sending with nothing failing\<close>

text \<open>Identifiers as the generator mints them: valid, and new to the store.\<close>

definition fresh_mint :: "store \<Rightarrow> mint \<Rightarrow> nat \<Rightarrow> bool" where
  "fresh_mint st mt n \<longleftrightarrow>
     valid_id (mint_thread mt) \<and> mint_thread mt \<notin> tr_id ` set (st_threads st) \<and>
     valid_id (mint_message mt) \<and> mint_message mt \<notin> mr_id ` set (st_messages st) \<and>
     (\<forall>i < n. valid_id (mint_attachment mt i) \<and> mint_attachment mt i \<notin> att_id ` set (st_attachments st)) \<and>
     inj_on (mint_attachment mt) {0..<n} \<and> (\<forall>i. clean_name (mint_blob mt i))"

lemma saved_rows:
  assumes "save_uploads root fl mt 0 ups fs = (Inr saved, fs')" and "fresh_mint st mt (length ups)"
  shows "distinct (map att_id (map fst saved)) \<and>
    (\<forall>a \<in> set (map fst saved). valid_id (att_id a) \<and> att_id a \<notin> att_id ` set (st_attachments st))"
proof -
  have ids: "map att_id (map fst saved) = map (mint_attachment mt) [0..<length ups]"
    using save_uploads_shape [OF assms(1)] by (simp add: comp_def)
  have sub: "att_id ` set (map fst saved) \<subseteq> mint_attachment mt ` {0..<length ups}"
    using arg_cong [OF ids, of set] by auto
  have "\<forall>a \<in> set (map fst saved). valid_id (att_id a) \<and> att_id a \<notin> att_id ` set (st_attachments st)"
  proof
    fix a assume "a \<in> set (map fst saved)"
    then have "att_id a \<in> mint_attachment mt ` {0..<length ups}" using sub by blast
    then obtain i where "i < length ups" "att_id a = mint_attachment mt i" by auto
    with assms(2) show "valid_id (att_id a) \<and> att_id a \<notin> att_id ` set (st_attachments st)"
      by (simp add: fresh_mint_def)
  qed
  moreover have "distinct (map att_id (map fst saved))"
    unfolding ids using assms(2) by (simp add: fresh_mint_def distinct_map)
  ultimately show ?thesis by blast
qed

text \<open>
  The common first half of Send and Receive: thread, attachments and row are in, and the
  store is sound.
\<close>

lemma persist_ok:
  assumes inv: "store_inv st" and valid: "valid_extension owner" "canonical_address to"
    and fresh: "fresh_mint st mt (length ups)"
    and m: "\<And>tid. msg_id (mk tid) = mint_message mt \<and> msg_thread (mk tid) = tid \<and>
      msg_owner (mk tid) = owner \<and> msg_remote (mk tid) = to \<and> msg_ref (mk tid) = [] \<and>
      msg_fkind (mk tid) = Failure_None \<and>
      (msg_direction (mk tid) = Inbound \<longleftrightarrow> msg_status (mk tid) = No_Status)"
    and save: "save_uploads root no_faults mt 0 ups fs = (Inr saved, fs')"
  shows "\<exists>tid st1 st2. find_thread no_faults id owner to now (mint_thread mt) st = (Inr tid, st1) \<and>
    store_inv st1 \<and> valid_message ((mk tid)\<lparr>msg_attachments := map fst saved\<rparr>) \<and>
    append_message no_faults ((mk tid)\<lparr>msg_attachments := map fst saved\<rparr>) st1 = (Inr (), st2) \<and>
    store_inv st2 \<and> st_messages st2 = st_messages st @ [message_row_of (mk tid) tid]"
proof -
  have "store_inv (id st)" "valid_id (mint_thread mt)" "mint_thread mt \<notin> tr_id ` set (st_threads (id st))"
    using inv fresh by (simp_all add: fresh_mint_def)
  from find_thread_total [of st id, OF inv this(1) valid this(2,3), of now now "[]"]
  obtain tid st1 where find: "find_thread no_faults id owner to now (mint_thread mt) st = (Inr tid, st1)"
    and st1: "store_inv st1" "valid_id tid"
      "\<exists>t \<in> set (st_threads st1). tr_id t = tid \<and> thread_key t = address_key owner to"
    by blast
  have frame: "st_messages st1 = st_messages st" "st_attachments st1 = st_attachments st"
    using find by (cases rule: find_thread_cases, auto)+
  let ?m = "(mk tid)\<lparr>msg_attachments := map fst saved\<rparr>"
  from st1(3) obtain t where t: "t \<in> set (st_threads st1)" "tr_id t = tid"
    "thread_key t = address_key owner to" by blast
  have look: "lookup_thread st1 owner to = Some t" using st1(1) t(1,3) by (rule lookup_thread_unique)
  have vm: "valid_message ?m"
    using m [of tid] saved_rows [OF save fresh] st1(2) valid fresh
    by (simp add: valid_message_def fresh_mint_def)
  have "fresh_message st1 ?m"
    using m [of tid] saved_rows [OF save fresh] frame fresh look
    by (simp add: fresh_message_def fresh_mint_def)
  from append_fresh [OF st1(1) vm this] obtain st2 where tx: "append_tx no_faults ?m st1 = Inr st2" by blast
  have row: "message_row_of ?m tid = message_row_of (mk tid) tid" by (simp add: message_row_of_def)
  have "store_inv st2 \<and> st_messages st2 = st_messages st1 @ [message_row_of (mk tid) tid]"
    using st1(1) vm tx by (cases rule: append_tx_ok) (use look t(2) m [of tid] row in auto)
  with find st1 vm tx frame show ?thesis by (auto simp: append_message_def)
qed

lemma accepted_row:
  assumes inv: "store_inv st" and row: "row_delivery st i = Some d"
    and ref: "dlv_ref d' = [] \<or> dlv_ref d' \<notin> mr_ref ` set (st_messages st)"
    and d': "dlv_status d' \<noteq> No_Status" "named_failure (dlv_fkind d')"
  shows "\<exists>st'. update_outbound_status no_faults i d' st = (Inr (), st') \<and> store_inv st' \<and>
    row_delivery st' = (row_delivery st)(i \<mapsto> d')"
proof -
  from row obtain r where r: "r \<in> set (st_messages st)" "outbound_row i r" by (rule row_delivery_Some)
  have "\<not> ref_clash st i (dlv_ref d')" using ref by (auto simp: ref_clash_def image_iff)
  moreover have "rows_affected (outbound_row i) (st_messages st) \<noteq> 0" using r by (auto simp: rows_affected_0)
  ultimately have "fst (update_outbound_status no_faults i d' st) = Inr ()"
    by (simp add: update_outbound_status_def updated_or_not_found_def no_faults_simp)
  then obtain st' where "update_outbound_status no_faults i d' st = (Inr (), st')" by (metis prod.collapse)
  with update_ok [OF inv d' this] show ?thesis by blast
qed

text \<open>What one delivery attempt leaves on the row of a freshly persisted message.\<close>

definition attempt :: "messaging \<Rightarrow> (outbound_message \<Rightarrow> send_error + receipt) \<Rightarrow> message \<Rightarrow> outbound_message
     \<Rightarrow> send_error + receipt" where
  "attempt svc sender m out =
     (case self_send_guard svc (msg_owner m) (msg_remote m) of Some e \<Rightarrow> Inl e | None \<Rightarrow> sender out)"

definition outcome :: "send_error + receipt \<Rightarrow> delivery" where
  "outcome a =
     (case a of
        Inl e \<Rightarrow> \<lparr>dlv_status = Failed, dlv_ref = [], dlv_fkind = failure_kind_of e,
                  dlv_fdetail = send_error_text e\<rparr>
      | Inr rcp \<Rightarrow> \<lparr>dlv_status = Sent, dlv_ref = rcp_ref rcp, dlv_fkind = Failure_None,
                    dlv_fdetail = []\<rparr>)"

lemma deliver_ok:
  assumes inv: "store_inv (wd_store w)" and m: "delivery_of m = fresh_delivery"
    and row: "row_delivery (wd_store w) (msg_id m) = Some fresh_delivery"
    and ref: "\<And>rcp. attempt svc sender m out = Inr rcp \<Longrightarrow>
      rcp_ref rcp \<notin> mr_ref ` set (st_messages (wd_store w)) - {[]}"
  shows "\<exists>w'. deliver svc no_faults sender m out w
      = ((Some (with_delivery m (outcome (attempt svc sender m out))),
          case attempt svc sender m out of Inl e \<Rightarrow> Some (Forward_Error e) | Inr _ \<Rightarrow> None), w') \<and>
    store_inv (wd_store w') \<and>
    row_delivery (wd_store w') = (row_delivery (wd_store w))(msg_id m \<mapsto> outcome (attempt svc sender m out))"
proof -
  let ?a = "attempt svc sender m out"
  have kind: "named_failure (failure_kind_of e)" for e by (simp add: failure_kind_of_def)
  have "\<exists>st'. update_outbound_status no_faults (msg_id m) (outcome ?a) (wd_store w) = (Inr (), st') \<and>
      store_inv st' \<and> row_delivery st' = (row_delivery (wd_store w))(msg_id m \<mapsto> outcome ?a)"
    using inv row by (rule accepted_row) (use ref kind in \<open>auto simp: outcome_def split: sum.splits\<close>)
  then obtain st' where st': "update_outbound_status no_faults (msg_id m) (outcome ?a) (wd_store w) = (Inr (), st')"
    "store_inv st'" "row_delivery st' = (row_delivery (wd_store w))(msg_id m \<mapsto> outcome ?a)" by blast
  have adv: "fst (delivery_advance (delivery_of m) (Send_Refused (failure_kind_of e) (send_error_text e)))
      = outcome (Inl e)"
    "fst (delivery_advance (delivery_of m) (Send_Accepted (rcp_ref r))) = outcome (Inr r)" for e r
    by (simp_all add: m fresh_delivery_def advance_simps outcome_def)
  show ?thesis
  proof (cases "self_send_guard svc (msg_owner m) (msg_remote m)")
    case (Some e)
    then have "?a = Inl e" by (simp add: attempt_def)
    with Some st' show ?thesis by (simp add: deliver_def Let_def adv)
  next
    case None
    then have a: "?a = sender out" by (simp add: attempt_def)
    show ?thesis
    proof (cases "sender out")
      case (Inl e)
      with None a st' show ?thesis by (simp add: deliver_def Let_def adv)
    next
      case (Inr r)
      with None a st' show ?thesis by (simp add: deliver_def Let_def adv)
    qed
  qed
qed

lemma fresh_row_delivery:
  assumes inv: "store_inv st" and msgs: "st_messages st = rs @ [message_row_of m thr]"
    and m: "msg_direction m = Outbound" "delivery_of m = fresh_delivery"
  shows "row_delivery st (msg_id m) = Some fresh_delivery"
proof -
  have "message_row_of m thr \<in> set (st_messages st)" "outbound_row (msg_id m) (message_row_of m thr)"
    by (simp_all add: msgs outbound_row_def message_row_of_def m(1))
  from outbound_unique [OF inv this] m(2) show ?thesis
    by (simp add: row_delivery_def message_row_of_def delivery_of_def fresh_delivery_def
        failure_of_string_def parse_outbound_status_def)
qed

lemma send_settled:
  assumes inv: "store_inv (wd_store w)" and valid: "valid_extension owner" "canonical_address to"
    and fresh: "fresh_mint (wd_store w) mt (length ups)"
    and ok: "validate_send svc to (trim_space raw) ups = Inr sender"
    and refs: "\<forall>out rcp. sender out = Inr rcp \<longrightarrow> rcp_ref rcp \<notin> mr_ref ` set (st_messages (wd_store w)) - {[]}"
  shows "\<exists>m out w'. send_message svc no_faults id mt now owner to raw ups w =
      ((Some m, case attempt svc sender m out of Inl e \<Rightarrow> Some (Forward_Error e) | Inr _ \<Rightarrow> None), w') \<and>
    out_body out = trim_space raw \<and> msg_id m = mint_message mt \<and>
    delivery_of m = outcome (attempt svc sender m out) \<and> store_inv (wd_store w') \<and>
    row_delivery (wd_store w') (msg_id m) = Some (delivery_of m) \<and> dlv_status (delivery_of m) \<noteq> Queued"
proof -
  have blobs: "\<And>j. clean_name (mint_blob mt j)" using fresh by (simp add: fresh_mint_def)
  obtain saved fs where save: "save_uploads (svc_root svc) no_faults mt 0 ups (wd_files w) = (Inr saved, fs)"
    using save_uploads_total [OF blobs] by blast
  let ?mk = "\<lambda>tid. new_outbound_message (mint_message mt) tid owner to (trim_space raw) (length ups) now"
  from persist_ok [OF inv valid fresh, of ?mk, OF _ save, of now]
  obtain tid st1 st2 where per: "find_thread no_faults id owner to now (mint_thread mt) (wd_store w) = (Inr tid, st1)"
    "append_message no_faults ((?mk tid)\<lparr>msg_attachments := map fst saved\<rparr>) st1 = (Inr (), st2)"
    "store_inv st2" "st_messages st2 = st_messages (wd_store w) @ [message_row_of (?mk tid) tid]"
    by (auto simp: new_outbound_message_def)
  let ?m = "(?mk tid)\<lparr>msg_attachments := map fst saved\<rparr>"
  let ?out = "\<lparr>out_owner = owner, out_to = to, out_body = trim_space raw, out_attachments = map snd saved\<rparr>"
  let ?w = "w\<lparr>wd_store := st2, wd_files := fs,
      wd_events := wd_events w @ [Message_Delivery_Advanced owner tid]\<rparr>"
  have run: "send_message svc no_faults id mt now owner to raw ups w = deliver svc no_faults sender ?m ?out ?w"
    using ok save per by (simp add: send_message_def Let_def)
  have m: "delivery_of ?m = fresh_delivery" "msg_direction (?mk tid) = Outbound"
    "delivery_of (?mk tid) = fresh_delivery" "msg_id ?m = msg_id (?mk tid)"
    by (simp_all add: delivery_of_def new_outbound_message_def fresh_delivery_def)
  have row: "row_delivery (wd_store ?w) (msg_id ?m) = Some fresh_delivery"
    using fresh_row_delivery [OF per(3,4) m(2,3)] m(4) by simp
  have "mr_ref ` set (st_messages st2) - {[]} \<subseteq> mr_ref ` set (st_messages (wd_store w)) - {[]}"
    by (auto simp: per(4) message_row_of_def new_outbound_message_def)
  then have no_clash: "rcp_ref rcp \<notin> mr_ref ` set (st_messages (wd_store ?w)) - {[]}"
    if "attempt svc sender ?m ?out = Inr rcp" for rcp
    using that refs [rule_format, of ?out rcp] by (auto simp: attempt_def split: option.splits)
  have inv2: "store_inv (wd_store ?w)" using per(3) by simp
  from deliver_ok [where w = ?w and m = ?m and svc = svc and sender = sender and out = ?out,
      OF inv2 m(1) row no_clash]
  obtain w' where w':
    "deliver svc no_faults sender ?m ?out ?w
      = ((Some (with_delivery ?m (outcome (attempt svc sender ?m ?out))),
          case attempt svc sender ?m ?out of Inl e \<Rightarrow> Some (Forward_Error e) | Inr _ \<Rightarrow> None), w')"
    "store_inv (wd_store w')"
    "row_delivery (wd_store w') = (row_delivery (wd_store ?w))(msg_id ?m \<mapsto> outcome (attempt svc sender ?m ?out))"
    by blast
  let ?d = "outcome (attempt svc sender ?m ?out)"
  have "attempt svc sender (with_delivery ?m ?d) ?out = attempt svc sender ?m ?out" by (simp add: attempt_def)
  moreover have "dlv_status ?d \<noteq> Queued" by (simp add: outcome_def split: sum.splits)
  moreover have "msg_id ?m = mint_message mt" by (simp add: new_outbound_message_def)
  ultimately show ?thesis using run w'
    by (intro exI [of _ "with_delivery ?m ?d"] exI [of _ ?out] exI [of _ w']) simp
qed


section \<open>Receiving\<close>

text \<open>
  C5. Receiving lands: on a sound store, with fresh identifiers and no failing statement,
  an inbound message always ends as one more entry of the conversation with its sender -
  unread one higher, un-archived, no delivery status - every other conversation is
  untouched, and the listeners hear of exactly that thread.
\<close>

theorem receive_lands:
  assumes inv: "store_inv (wd_store w)" and valid: "valid_extension (inb_owner inb)" "canonical_address (inb_from inb)"
    and fresh: "fresh_mint (wd_store w) mt (length (inb_attachments inb))"
  shows "\<exists>m w' c. receive_message svc no_faults id mt clock inb w = (Inr m, w') \<and>
    store_inv (wd_store w') \<and> msg_status m = No_Status \<and> msg_body m = inb_body inb \<and>
    msg_created m = or_clock (inb_received inb) clock \<and>
    conversations (wd_store w') (address_key (inb_owner inb) (inb_from inb)) = Some c \<and>
    cv_id c = msg_thread m \<and> \<not> cv_archived c \<and>
    (case conversations (wd_store w) (address_key (inb_owner inb) (inb_from inb)) of
       None \<Rightarrow> cv_unread c = 1 \<and> cv_log c = [message_row_of m (msg_thread m)]
     | Some old \<Rightarrow> cv_unread c = cv_unread old + 1 \<and> cv_id c = cv_id old \<and>
         cv_log c = cv_log old @ [message_row_of m (msg_thread m)]) \<and>
    (\<forall>k. k \<noteq> address_key (inb_owner inb) (inb_from inb) \<longrightarrow>
       conversations (wd_store w') k = conversations (wd_store w) k) \<and>
    wd_events w' = wd_events w @ [Message_Received (inb_owner inb) (msg_thread m)] \<and>
    wd_sent w' = wd_sent w"
proof -
  let ?now = "or_clock (inb_received inb) clock" and ?k = "address_key (inb_owner inb) (inb_from inb)"
  have blobs: "\<And>j. clean_name (mint_blob mt j)" and mid: "valid_id (mint_thread mt)"
    using fresh by (simp_all add: fresh_mint_def)
  obtain saved fs where save:
    "save_uploads (svc_root svc) no_faults mt 0 (inb_attachments inb) (wd_files w) = (Inr saved, fs)"
    using save_uploads_total [OF blobs] by blast
  let ?mk = "\<lambda>tid. new_inbound_message (mint_message mt) tid (inb_owner inb) (inb_from inb) (inb_body inb)
      (length (inb_attachments inb)) ?now"
  from persist_ok [OF inv valid fresh, of ?mk, OF _ save, of ?now]
  obtain tid st1 st2 where per:
    "find_thread no_faults id (inb_owner inb) (inb_from inb) ?now (mint_thread mt) (wd_store w) = (Inr tid, st1)"
    "store_inv st1" "valid_message ((?mk tid)\<lparr>msg_attachments := map fst saved\<rparr>)"
    "append_message no_faults ((?mk tid)\<lparr>msg_attachments := map fst saved\<rparr>) st1 = (Inr (), st2)"
    "store_inv st2"
    by (auto simp: new_inbound_message_def)
  let ?m = "(?mk tid)\<lparr>msg_attachments := map fst saved\<rparr>"
  have m: "msg_owner ?m = inb_owner inb" "msg_remote ?m = inb_from inb" "msg_direction ?m = Inbound"
    "msg_thread ?m = tid" "msg_status ?m = No_Status" "msg_body ?m = inb_body inb" "msg_created ?m = ?now"
    by (simp_all add: new_inbound_message_def)
  let ?w = "w\<lparr>wd_store := st2, wd_files := fs,
      wd_events := wd_events w @ [Message_Received (inb_owner inb) tid]\<rparr>"
  have run: "receive_message svc no_faults id mt clock inb w = (Inr ?m, ?w)"
    using save per by (simp add: receive_message_def Let_def)
  from find_thread_conversation [OF inv valid mid per(1)] obtain c0 where c0:
    "conversations st1 ?k = Some c0"
    "case conversations (wd_store w) ?k of Some old \<Rightarrow> c0 = old | None \<Rightarrow> cv_log c0 = [] \<and> cv_unread c0 = 0"
    "\<forall>k. k \<noteq> ?k \<longrightarrow> conversations st1 k = conversations (wd_store w) k" by blast
  have c: "conversations st2 = (conversations st1)(?k \<mapsto> conv_append ?m (Some c0))"
    using append_step [OF per(2,3,4)] m c0(1) by simp
  have "cv_id c0 = tid"
    using find_thread_id [OF inv valid mid per(1)] c0(1) by simp
  then show ?thesis using run per(5) c c0 m
    by (intro exI [of _ ?m] exI [of _ ?w] exI [of _ "conv_append ?m (Some c0)"])
      (auto simp: conv_append_def Let_def split: option.splits)
qed

section \<open>Verdicts\<close>

lemma receipt_store:
  "wd_store (snd (delivery_receipt no_faults ref (verdict_status v) detail w)) =
     snd (apply_verdict (message_by_provider_ref no_faults) (update_outbound_status no_faults) ref (v, detail) (wd_store w))"
  by (cases v) (auto simp: delivery_receipt_def apply_verdict_def verdict_of_def Let_def
      split: sum.splits prod.splits)

lemma receipts_store:
  "wd_store (fold (\<lambda>v w. snd (delivery_receipt no_faults ref (verdict_status (fst v)) (snd v) w)) vs w) =
     fold (\<lambda>v s. snd (apply_verdict (message_by_provider_ref no_faults) (update_outbound_status no_faults) ref v s))
       vs (wd_store w)"
  by (induction vs arbitrary: w) (simp_all add: receipt_store)

lemma row_delivery_status:
  assumes "store_inv st" "row_delivery st i = Some d"
  shows "dlv_status d \<noteq> No_Status"
proof -
  from assms(2) obtain r where r: "r \<in> set (st_messages st)" "outbound_row i r"
    "dlv_status d = projr (parse_outbound_status (mr_status r))" by (rule row_delivery_Some)
  with assms(1) have "valid_message_row r" by (simp add: store_inv_def)
  then obtain dir s where "mr_direction r = direction_string dir" "mr_status r = status_string s"
    "dir = Inbound \<longleftrightarrow> s = No_Status" unfolding valid_message_row_def by blast
  with r show ?thesis by (auto simp: outbound_row_def)
qed

text \<open>
  C4. Verdicts settle the row they name and no other: whatever sequence of provider
  verdicts is applied to the reference of an outbound message, in any order and with any
  repetition, its row ends exactly where the delivery machine's fold ends, every other
  outbound row keeps its delivery state, and a reference no row carries changes nothing.
\<close>

theorem receipts_settle:
  assumes inv: "store_inv (wd_store w)"
  shows "(\<forall>i d. row_delivery (wd_store w) i = Some d \<and> dlv_ref d = ref \<and> ref \<noteq> [] \<longrightarrow>
      row_delivery (wd_store (fold (\<lambda>v w. snd (delivery_receipt no_faults ref (verdict_status (fst v)) (snd v) w)) vs w))
        = (row_delivery (wd_store w))(i \<mapsto> delivery_run d (map (\<lambda>v. Provider_Verdict (fst v) (snd v)) vs))) \<and>
    (ref \<notin> mr_ref ` set (st_messages (wd_store w)) \<longrightarrow>
      delivery_receipt no_faults ref (verdict_status (fst v)) (snd v) w = (Inl Not_Found, w))"
proof (intro conjI allI impI)
  fix i d assume "row_delivery (wd_store w) i = Some d \<and> dlv_ref d = ref \<and> ref \<noteq> []"
  then show "row_delivery (wd_store (fold (\<lambda>v w. snd (delivery_receipt no_faults ref (verdict_status (fst v)) (snd v) w)) vs w))
        = (row_delivery (wd_store w))(i \<mapsto> delivery_run d (map (\<lambda>v. Provider_Verdict (fst v) (snd v)) vs))"
    using msgs.verdict_run [OF inv, of i d ref vs] row_delivery_status [OF inv, of i d]
    by (simp add: receipts_store)
next
  assume "ref \<notin> mr_ref ` set (st_messages (wd_store w))"
  then have "select_one (\<lambda>r. mr_ref r = ref \<and> mr_direction r = direction_string Outbound)
      (st_messages (wd_store w)) = None"
    by (auto simp: select_one_None)
  then have "message_by_provider_ref no_faults ref (wd_store w) = Inl Not_Found"
    by (simp add: message_by_provider_ref_def no_faults_simp)
  then show "delivery_receipt no_faults ref (verdict_status (fst v)) (snd v) w = (Inl Not_Found, w)"
    by (cases "fst v") (simp_all add: delivery_receipt_def verdict_of_def)
qed

section \<open>The properties at a concrete service\<close>

definition sample_service :: messaging where
  "sample_service =
     new_messaging (\<lambda>_. Inr \<lparr>rcp_ref = ''pm-1'', rcp_resolution = Resolution_Deferred\<rparr>)
       [''1001'' \<mapsto> ''+49 30 999''] ''/data''"

definition sample_mint :: mint where
  "sample_mint =
     \<lparr>mint_thread = ''thread-00000000000002'', mint_message = ''messag-00000000000002'',
      mint_attachment = (\<lambda>_. ''attach-00000000000002''), mint_blob = (\<lambda>_. ''V1StGXR8Z5jdHi6BmyT00'')\<rparr>"

definition sample_world :: world where
  "sample_world = \<lparr>wd_store = sample_store, wd_files = (\<lambda>_. None), wd_events = [], wd_sent = []\<rparr>"

definition sample_remote :: address where
  "sample_remote = \<lparr>addr_network = Network_SMS, addr_value = ''+4930123''\<rparr>"

lemma sample_parties: "valid_extension (Extension ''1001'')" "canonical_address sample_remote"
  by (simp_all add: valid_extension_def canonical_address_def sample_remote_def
      valid_dialable_def dialable_char_def is_digit_char_def is_letter_char_def)

lemma sample_fresh: "n \<le> 1 \<Longrightarrow> fresh_mint sample_store sample_mint n"
  by (auto simp: fresh_mint_def sample_mint_def sample_store_eq birth_row_def message_row_of_def
      sample_simps valid_id_def clean_name_def inj_on_def)


definition sample_inbound :: inbound_message where
  "sample_inbound =
     \<lparr>inb_owner = Extension ''1001'', inb_from = sample_remote, inb_body = ''pong'', inb_attachments = [],
      inb_received = zero_time\<rparr>"

theorem receive_lands_witness:
  "\<exists>m w'. receive_message sample_service no_faults id sample_mint 5000 sample_inbound sample_world = (Inr m, w') \<and>
     msg_created m = 5000 \<and> store_inv (wd_store w')"
proof -
  have "store_inv (wd_store sample_world)" "valid_extension (inb_owner sample_inbound)"
    "canonical_address (inb_from sample_inbound)"
    "fresh_mint (wd_store sample_world) sample_mint (length (inb_attachments sample_inbound))"
    by (simp_all add: sample_world_def sample_inv sample_fresh sample_parties sample_inbound_def)
  from receive_lands [OF this, of sample_service 5000] obtain m w' where
    "receive_message sample_service no_faults id sample_mint 5000 sample_inbound sample_world = (Inr m, w')"
    "msg_created m = or_clock (inb_received sample_inbound) 5000" "store_inv (wd_store w')"
    by blast
  then show ?thesis by (auto simp: or_clock_def sample_inbound_def)
qed

theorem receipts_settle_witness:
  "delivery_receipt no_faults ''pm-9'' Delivered [] sample_world = (Inl Not_Found, sample_world)"
proof -
  have "''pm-9'' \<notin> mr_ref ` set (st_messages (wd_store sample_world))"
    by (simp add: sample_world_def sample_store_eq message_row_of_def sample_simps)
  moreover have "store_inv (wd_store sample_world)" by (simp add: sample_world_def sample_inv)
  ultimately show ?thesis using receipts_settle [of sample_world "''pm-9''" "[]" "(Verdict_Delivered, [])"] by simp
qed

end
