(* ===== verification/Signal.thy ===== *)
theory Signal
  imports Messaging "HOL-Library.Word"
begin

text \<open>
  The JSON-RPC client of \<^verbatim>\<open>internal/signal/client.go\<close>: one shared connection to the
  signal-cli socket, calls that wait for the answer with their id, and read loops that route
  the lines of a connection. What the goroutines do between two holds of the mutex is one
  event of a run: a call takes its id, registers and writes, picks up its answer or gives up;
  a read loop takes a line or ends. The fate of every system call is an input of its event,
  and so is the decoding of a line, as the fields the demultiplexer looks at. A connection is
  the number of its dial, a call the number that stands for its result channel, which has
  room for one result.
\<close>

section \<open>State\<close>

text \<open>An answer as its waiter gets it: the result or the text of the daemon's refusal.\<close>

datatype rpc_result = Rpc_Result string | Rpc_Refused string

record signal_client =
  sg_conn :: "nat option"
  sg_pending :: "string \<rightharpoonup> nat"
  sg_next :: "64 word"
  sg_handler :: bool

text \<open>Where a call stands; the local variables of its goroutine are its id and its channel.\<close>

datatype call_phase = Numbered | Waiting | Answered string | Call_Failed err

record 'e signal_state =
  ss_client :: signal_client
  ss_dials :: nat
  ss_loops :: "nat list"
  ss_calls :: "nat \<rightharpoonup> string \<times> call_phase"
  ss_chans :: "nat \<rightharpoonup> rpc_result"
  ss_handed :: "'e list"

definition new_signal :: "'e signal_state" where
  "new_signal =
     \<lparr>ss_client = \<lparr>sg_conn = None, sg_pending = Map.empty, sg_next = 0, sg_handler = False\<rparr>,
      ss_dials = 0, ss_loops = [], ss_calls = Map.empty, ss_chans = Map.empty, ss_handed = []\<rparr>"

section \<open>Operations\<close>

definition on_envelope :: "'e signal_state \<Rightarrow> 'e signal_state" where
  "on_envelope s = s\<lparr>ss_client := (ss_client s)\<lparr>sg_handler := True\<rparr>\<rparr>"

definition connect_locked :: "bool \<Rightarrow> 'e signal_state \<Rightarrow> (err + unit) \<times> 'e signal_state" where
  "connect_locked dials s =
     (case sg_conn (ss_client s) of
        Some _ \<Rightarrow> (Inr (), s)
      | None \<Rightarrow>
          if \<not> dials then (Inl (Coded Transient ''signal.connect''), s)
          else (Inr (), s\<lparr>ss_client := (ss_client s)\<lparr>sg_conn := Some (ss_dials s)\<rparr>,
                  ss_dials := ss_dials s + 1, ss_loops := ss_dials s # ss_loops s\<rparr>))"

definition drop_conn_locked :: "'e signal_state \<Rightarrow> 'e signal_state" where
  "drop_conn_locked s = s\<lparr>ss_client := (ss_client s)\<lparr>sg_conn := None\<rparr>\<rparr>"

definition forget :: "string \<Rightarrow> 'e signal_state \<Rightarrow> 'e signal_state" where
  "forget i s =
     s\<lparr>ss_client := (ss_client s)\<lparr>sg_pending := (sg_pending (ss_client s))(i := None)\<rparr>\<rparr>"

definition inc_id :: "'e signal_state \<Rightarrow> string \<times> 'e signal_state" where
  "inc_id s =
     (let n = sg_next (ss_client s) + 1 in
      (nat_decimal (unat n), s\<lparr>ss_client := (ss_client s)\<lparr>sg_next := n\<rparr>\<rparr>))"

text \<open>
  The locked half of a call: whether the dial, the encoding, the write deadline and the write
  succeed. After a failed write the connection is dropped before it is read back to be
  closed, so the close is a call on a nil interface.
\<close>

record rpc_io =
  io_dials :: bool
  io_encodes :: bool
  io_deadline :: bool
  io_writes :: bool

definition call_locked :: "rpc_io \<Rightarrow> string \<Rightarrow> nat \<Rightarrow> 'e signal_state \<Rightarrow> call_phase \<times> 'e signal_state" where
  "call_locked io i c s =
     (case connect_locked (io_dials io) s of
        (Inl e, s1) \<Rightarrow> (Call_Failed e, s1)
      | (Inr _, s1) \<Rightarrow>
          (let s2 = s1\<lparr>ss_client := (ss_client s1)\<lparr>sg_pending := (sg_pending (ss_client s1))(i \<mapsto> c)\<rparr>\<rparr> in
           if \<not> io_encodes io then (Call_Failed (Coded Rejection ''signal.encode''), forget i s2)
           else if \<not> io_deadline io then (Call_Failed (Coded Infrastructure ''signal.write''), forget i s2)
           else if \<not> io_writes io then
             (let s3 = drop_conn_locked (forget i s2) in
              case sg_conn (ss_client s3) of
                None \<Rightarrow> (Call_Failed Panic, s3)
              | Some _ \<Rightarrow> (Call_Failed (Coded Transient ''signal.write''), s3))
           else (Waiting, s2)))"

text \<open>\<^verbatim>\<open>resolve\<close>: a send into a full channel would block the read loop, which is \<open>None\<close>.\<close>

definition resolve_call :: "string \<Rightarrow> string \<Rightarrow> string option \<Rightarrow> 'e signal_state \<Rightarrow> 'e signal_state option" where
  "resolve_call i result refused s =
     (case sg_pending (ss_client s) i of
        None \<Rightarrow> Some s
      | Some c \<Rightarrow>
          (let s1 = forget i s;
               r = (case refused of Some msg \<Rightarrow> Rpc_Refused msg | None \<Rightarrow> Rpc_Result result) in
           case ss_chans s c of
             Some _ \<Rightarrow> None
           | None \<Rightarrow> Some (s1\<lparr>ss_chans := (ss_chans s)(c \<mapsto> r)\<rparr>)))"

text \<open>
  A decoded line; \<open>ln_envelope\<close> is what its parameters decode to as the two places an envelope
  may sit at, each with its timestamp.
\<close>

record 'e rpc_line =
  ln_id :: string
  ln_result :: string
  ln_error :: "string option"
  ln_method :: string
  ln_envelope :: "((int \<times> 'e) \<times> (int \<times> 'e) option) option"

definition dispatch :: "((int \<times> 'e) \<times> (int \<times> 'e) option) option \<Rightarrow> 'e signal_state \<Rightarrow> 'e signal_state" where
  "dispatch params s =
     (if \<not> sg_handler (ss_client s) then s
      else
        (case params of
           None \<Rightarrow> s
         | Some (env, wrapped) \<Rightarrow>
             (let chosen = (case wrapped of
                 Some inner \<Rightarrow> if fst env = 0 then snd inner else snd env
               | None \<Rightarrow> snd env) in
              s\<lparr>ss_handed := ss_handed s @ [chosen]\<rparr>)))"

text \<open>One line of a read loop: \<open>None\<close> is a blank or an undecodable line.\<close>

definition take_line :: "'e rpc_line option \<Rightarrow> 'e signal_state \<Rightarrow> 'e signal_state option" where
  "take_line l s =
     (case l of
        None \<Rightarrow> Some s
      | Some m \<Rightarrow>
          if ln_method m = ''receive'' then Some (dispatch (ln_envelope m) s)
          else if ln_id m \<noteq> [] then resolve_call (ln_id m) (ln_result m) (ln_error m) s
          else Some s)"

text \<open>The answer as the caller returns it; \<open>decodes\<close> is the fate of the final decoding.\<close>

definition call_answer :: "bool \<Rightarrow> rpc_result \<Rightarrow> call_phase" where
  "call_answer decodes r =
     (case r of
        Rpc_Refused _ \<Rightarrow> Call_Failed (Coded Rejection ''signal.rpc'')
      | Rpc_Result v \<Rightarrow> if decodes then Answered v else Call_Failed (Coded Infrastructure ''signal.decode''))"

section \<open>Runs\<close>

datatype 'e signal_event =
    Register_Handler
  | Start_Call nat
  | Write_Call nat rpc_io
  | Take_Line nat "'e rpc_line option"
  | End_Loop nat
  | Collect nat bool
  | Give_Up nat
  | Close_Conn

text \<open>An event that is not enabled has no successor.\<close>

fun signal_act :: "'e signal_event \<Rightarrow> 'e signal_state \<Rightarrow> 'e signal_state option" where
  "signal_act Register_Handler s = Some (on_envelope s)"
| "signal_act (Start_Call c) s =
     (case ss_calls s c of
        Some _ \<Rightarrow> None
      | None \<Rightarrow> (let (i, s') = inc_id s in Some (s'\<lparr>ss_calls := (ss_calls s')(c \<mapsto> (i, Numbered))\<rparr>)))"
| "signal_act (Write_Call c io) s =
     (case ss_calls s c of
        Some (i, Numbered) \<Rightarrow>
          (let (p, s') = call_locked io i c s in Some (s'\<lparr>ss_calls := (ss_calls s')(c \<mapsto> (i, p))\<rparr>))
      | _ \<Rightarrow> None)"
| "signal_act (Take_Line k l) s = (if k \<in> set (ss_loops s) then take_line l s else None)"
| "signal_act (End_Loop k) s =
     (if k \<in> set (ss_loops s)
      then Some (drop_conn_locked (s\<lparr>ss_loops := filter (\<lambda>j. j \<noteq> k) (ss_loops s)\<rparr>)) else None)"
| "signal_act (Collect c decodes) s =
     (case (ss_calls s c, ss_chans s c) of
        (Some (i, Waiting), Some r) \<Rightarrow>
          Some (s\<lparr>ss_calls := (ss_calls s)(c \<mapsto> (i, call_answer decodes r))\<rparr>)
      | _ \<Rightarrow> None)"
| "signal_act (Give_Up c) s =
     (case ss_calls s c of
        Some (i, Waiting) \<Rightarrow>
          Some ((forget i s)\<lparr>ss_calls := (ss_calls s)(c \<mapsto> (i, Call_Failed (Coded Transient ''signal.timeout'')))\<rparr>)
      | _ \<Rightarrow> None)"
| "signal_act Close_Conn s = Some (drop_conn_locked s)"

fun signal_run :: "'e signal_event list \<Rightarrow> 'e signal_state \<Rightarrow> 'e signal_state option" where
  "signal_run [] s = Some s"
| "signal_run (e # es) s = (case signal_act e s of None \<Rightarrow> None | Some s' \<Rightarrow> signal_run es s')"

section \<open>The gateway of the lane\<close>

text \<open>
  \<^verbatim>\<open>SendMessage\<close>: the files, the base64 encoding and the texts errors render to are in
  \<open>signal_env\<close>; \<open>rpc\<close> is the answer of the call \<^verbatim>\<open>send\<close> with these parameters, as the
  timestamp it decodes to.
\<close>

record signal_env =
  se_file :: "string \<Rightarrow> char list option"
  se_base64 :: "char list \<Rightarrow> string"
  se_text :: "string \<Rightarrow> string"

record send_params =
  sp_account :: string
  sp_recipient :: "string list"
  sp_message :: string
  sp_attachments :: "string list option"

definition data_uri :: "signal_env \<Rightarrow> outbound_attachment \<Rightarrow> send_error + string" where
  "data_uri env att =
     (case se_file env (oat_path att) of
        None \<Rightarrow> Inl (Send_Failure Infrastructure (se_text env ''signal.attachment_read''))
      | Some bytes \<Rightarrow>
          Inr (''data:'' @ (if oat_mime att = [] then ''application/octet-stream'' else oat_mime att) @
            '';filename='' @ oat_name att @ '';base64,'' @ se_base64 env bytes))"

fun data_uris :: "signal_env \<Rightarrow> outbound_attachment list \<Rightarrow> send_error + string list" where
  "data_uris env [] = Inr []"
| "data_uris env (att # atts) =
     (case data_uri env att of
        Inl e \<Rightarrow> Inl e
      | Inr uri \<Rightarrow> (case data_uris env atts of Inl e \<Rightarrow> Inl e | Inr uris \<Rightarrow> Inr (uri # uris)))"

definition signal_send ::
  "signal_env \<Rightarrow> string \<Rightarrow> (send_params \<Rightarrow> send_error + int) \<Rightarrow> outbound_message \<Rightarrow> send_error + receipt" where
  "signal_send env account rpc msg =
     (if addr_network (out_to msg) \<noteq> Network_Signal
      then Inl (Send_Failure Rejection (se_text env ''signal.network''))
      else
        (case data_uris env (out_attachments msg) of
           Inl e \<Rightarrow> Inl e
         | Inr uris \<Rightarrow>
             (case rpc \<lparr>sp_account = account, sp_recipient = [addr_value (out_to msg)],
                 sp_message = out_body msg, sp_attachments = (if uris = [] then None else Some uris)\<rparr> of
                Inl e \<Rightarrow> Inl e
              | Inr ts \<Rightarrow>
                  if ts = 0 then Inl (Send_Failure Infrastructure (se_text env ''signal.send''))
                  else Inr \<lparr>rcp_ref = int_decimal ts, rcp_resolution = Resolution_Deferred\<rparr>)))"

section \<open>What every run keeps\<close>

text \<open>Decimal texts of different numbers differ.\<close>

lemma digits_value_snoc: "digits_value (s @ [c]) = 10 * digits_value s + digit_value c"
  by (simp add: digits_value_def)

lemma digits_value_decimal: "digits_value (nat_decimal n) = int n"
proof (induction n rule: nat_decimal.induct)
  case (1 n)
  have digit: "digit_value (digit_char d) = int d" if "d < 10" for d
    using that by (simp add: digit_value_def digit_char_def)
  show ?case
  proof (cases "n < 10")
    case True
    then show ?thesis using digit [of n] digits_value_snoc [of "[]"]
      by (subst nat_decimal.simps) (simp add: digits_value_def)
  next
    case False
    then have "digits_value (nat_decimal n) = 10 * int (n div 10) + int (n mod 10)"
      using 1 digit [of "n mod 10"] by (subst nat_decimal.simps) (simp add: digits_value_snoc)
    moreover have "int n = 10 * int (n div 10) + int (n mod 10)" by presburger
    ultimately show ?thesis by simp
  qed
qed

lemma nat_decimal_inj: "nat_decimal m = nat_decimal n \<longleftrightarrow> m = n"
  by (metis digits_value_decimal of_nat_eq_iff)

text \<open>The answer a line carries for the call with id \<open>i\<close>.\<close>

definition carries :: "string \<Rightarrow> 'e signal_event \<Rightarrow> rpc_result \<Rightarrow> bool" where
  "carries i e r \<longleftrightarrow>
     (\<exists>k m. e = Take_Line k (Some m) \<and> ln_id m = i \<and> ln_method m \<noteq> ''receive'' \<and>
        r = (case ln_error m of Some msg \<Rightarrow> Rpc_Refused msg | None \<Rightarrow> Rpc_Result (ln_result m)))"

lemma carries_result:
  "carries i e (Rpc_Result v) \<longleftrightarrow>
     (\<exists>k m. e = Take_Line k (Some m) \<and> ln_id m = i \<and> ln_method m \<noteq> ''receive'' \<and>
        ln_error m = None \<and> ln_result m = v)"
  unfolding carries_def by (intro iff_exI) (auto split: option.split)

definition routed :: "'e signal_event list \<Rightarrow> 'e signal_state \<Rightarrow> bool" where
  "routed es s \<longleftrightarrow>
     (\<forall>i c. sg_pending (ss_client s) i = Some c \<longrightarrow> ss_calls s c = Some (i, Waiting) \<and> ss_chans s c = None) \<and>
     (\<forall>c r. ss_chans s c = Some r \<longrightarrow>
        (\<exists>i p. ss_calls s c = Some (i, p) \<and> p \<noteq> Numbered \<and> (\<exists>e \<in> set es. carries i e r))) \<and>
     (\<forall>c i v. ss_calls s c = Some (i, Answered v) \<longrightarrow> (\<exists>e \<in> set es. carries i e (Rpc_Result v)))"

lemma routed_new: "routed [] new_signal"
  by (simp add: routed_def new_signal_def)

lemma routed_more: "routed es s \<Longrightarrow> set es \<subseteq> set es' \<Longrightarrow> routed es' s"
  unfolding routed_def by blast

lemma routed_cong:
  "routed es s \<Longrightarrow> sg_pending (ss_client s') = sg_pending (ss_client s) \<Longrightarrow> ss_calls s' = ss_calls s \<Longrightarrow>
   ss_chans s' = ss_chans s \<Longrightarrow> routed es s'"
  by (simp add: routed_def)

lemma routed_forget: "routed es s \<Longrightarrow> routed es (forget i s)"
  by (simp add: routed_def forget_def)

lemma routed_phase:
  assumes "routed es s" "ss_calls s c = Some (i, p)" "ss_chans s c = None \<or> q \<noteq> Numbered"
    and "\<And>j. sg_pending (ss_client s) j \<noteq> Some c"
    and "\<And>v. q = Answered v \<Longrightarrow> \<exists>e \<in> set es. carries i e (Rpc_Result v)"
  shows "routed es (s\<lparr>ss_calls := (ss_calls s)(c \<mapsto> (i, q))\<rparr>)"
  using assms unfolding routed_def by (auto split: if_splits) (metis Pair_inject option.inject)+

lemma routed_wait:
  assumes "routed es s" "ss_calls s c = Some (i, Numbered)"
  shows "routed es (s\<lparr>ss_client := (ss_client s)\<lparr>sg_pending := (sg_pending (ss_client s))(i \<mapsto> c)\<rparr>,
    ss_calls := (ss_calls s)(c \<mapsto> (i, Waiting))\<rparr>)"
proof -
  have "ss_chans s c = None" using assms unfolding routed_def by (cases "ss_chans s c") force+
  then show ?thesis using assms unfolding routed_def by auto
qed

lemma connect_fields:
  "connect_locked b s = (r, s') \<Longrightarrow> sg_pending (ss_client s') = sg_pending (ss_client s) \<and>
     ss_calls s' = ss_calls s \<and> ss_chans s' = ss_chans s \<and> sg_next (ss_client s') = sg_next (ss_client s) \<and>
     (\<forall>k. sg_conn (ss_client s) = Some k \<longrightarrow> s' = s)"
  by (auto simp: connect_locked_def split: option.splits if_splits)

text \<open>A call that does not wait leaves no trace in the map of the waiting.\<close>

lemma call_locked_fields:
  assumes "call_locked io i c s = (p, s')"
  shows "ss_calls s' = ss_calls s \<and> ss_chans s' = ss_chans s \<and> sg_next (ss_client s') = sg_next (ss_client s) \<and>
    (p = Waiting \<and> sg_pending (ss_client s') = (sg_pending (ss_client s))(i \<mapsto> c) \<or>
     (\<exists>e. p = Call_Failed e) \<and> (sg_pending (ss_client s') = sg_pending (ss_client s) \<or>
       sg_pending (ss_client s') = (sg_pending (ss_client s))(i := None)))"
  using assms
  by (auto simp: call_locked_def forget_def drop_conn_locked_def Let_def dest!: connect_fields
      split: prod.splits sum.splits if_splits)

lemma write_call_routed:
  assumes "routed es s" "ss_calls s c = Some (i, Numbered)" "call_locked io i c s = (p, s')"
  shows "routed es (s'\<lparr>ss_calls := (ss_calls s')(c \<mapsto> (i, p))\<rparr>)"
proof -
  note f = call_locked_fields [OF assms(3)]
  have free: "sg_pending (ss_client s) j \<noteq> Some c" for j using assms(1,2) by (auto simp: routed_def)
  show ?thesis
  proof (cases "p = Waiting")
    case True
    then show ?thesis using f by (intro routed_cong [OF routed_wait [OF assms(1,2)]]) auto
  next
    case False
    then obtain e where e: "p = Call_Failed e" using f by blast
    have r: "routed es (s\<lparr>ss_calls := (ss_calls s)(c \<mapsto> (i, p))\<rparr>)"
      by (rule routed_phase [OF assms(1,2)]) (use e free in auto)
    from f False consider "sg_pending (ss_client s') = sg_pending (ss_client s)"
      | "sg_pending (ss_client s') = (sg_pending (ss_client s))(i := None)" by blast
    then show ?thesis
    proof cases
      case 1
      then show ?thesis using f by (intro routed_cong [OF r]) auto
    next
      case 2
      then show ?thesis using f by (intro routed_cong [OF routed_forget [OF r, of i]]) (auto simp: forget_def)
    qed
  qed
qed

lemma routed_pending:
  "routed es s \<Longrightarrow> sg_pending (ss_client s) i = Some c \<Longrightarrow> ss_calls s c = Some (i, Waiting) \<and> ss_chans s c = None"
  by (simp add: routed_def)

lemma routed_answered:
  "routed es s \<Longrightarrow> ss_calls s c = Some (i, Answered v) \<Longrightarrow> \<exists>e \<in> set es. carries i e (Rpc_Result v)"
  by (simp add: routed_def)

lemma routed_answer:
  assumes "routed es s" "sg_pending (ss_client s) i = Some c" "e \<in> set es" "carries i e r"
  shows "routed es ((forget i s)\<lparr>ss_chans := (ss_chans s)(c \<mapsto> r)\<rparr>)"
  unfolding routed_def
proof (intro conjI allI impI)
  fix j d assume "sg_pending (ss_client ((forget i s)\<lparr>ss_chans := (ss_chans s)(c \<mapsto> r)\<rparr>)) j = Some d"
  then have j: "j \<noteq> i" "sg_pending (ss_client s) j = Some d" by (auto simp: forget_def split: if_splits)
  moreover have "d \<noteq> c" using j routed_pending [OF assms(1)] assms(2) by (metis Pair_inject option.inject)
  ultimately show "ss_calls ((forget i s)\<lparr>ss_chans := (ss_chans s)(c \<mapsto> r)\<rparr>) d = Some (j, Waiting)"
    "ss_chans ((forget i s)\<lparr>ss_chans := (ss_chans s)(c \<mapsto> r)\<rparr>) d = None"
    using routed_pending [OF assms(1)] by (auto simp: forget_def)
next
  fix d q assume "ss_chans ((forget i s)\<lparr>ss_chans := (ss_chans s)(c \<mapsto> r)\<rparr>) d = Some q"
  then show "\<exists>j p. ss_calls ((forget i s)\<lparr>ss_chans := (ss_chans s)(c \<mapsto> r)\<rparr>) d = Some (j, p) \<and> p \<noteq> Numbered \<and>
      (\<exists>e \<in> set es. carries j e q)"
    using assms routed_pending [OF assms(1,2)]
    by (cases "d = c") (auto simp: routed_def forget_def)
next
  fix d j v assume "ss_calls ((forget i s)\<lparr>ss_chans := (ss_chans s)(c \<mapsto> r)\<rparr>) d = Some (j, Answered v)"
  then show "\<exists>e \<in> set es. carries j e (Rpc_Result v)" using assms(1) by (simp add: routed_def forget_def)
qed

lemma resolve_routed:
  assumes "routed es s" "e \<in> set es"
    and "carries i e (case refused of Some msg \<Rightarrow> Rpc_Refused msg | None \<Rightarrow> Rpc_Result result)"
  shows "\<exists>s'. resolve_call i result refused s = Some s' \<and> routed es s'"
proof (cases "sg_pending (ss_client s) i")
  case None
  then show ?thesis using assms(1) by (simp add: resolve_call_def)
next
  case (Some c)
  then show ?thesis using routed_pending [OF assms(1)] routed_answer [OF assms(1) Some assms(2,3)]
    by (simp add: resolve_call_def Let_def)
qed

lemma take_line_routed:
  assumes "routed es s" "Take_Line k l \<in> set es"
  shows "\<exists>s'. take_line l s = Some s' \<and> routed es s'"
proof (cases l)
  case None
  then show ?thesis using assms(1) by (simp add: take_line_def)
next
  case (Some m)
  have env: "routed es (dispatch (ln_envelope m) s)"
    by (rule routed_cong [OF assms(1)]) (simp_all add: dispatch_def Let_def split: option.split prod.split)
  show ?thesis
    using resolve_routed [OF assms(1,2), where i = "ln_id m" and refused = "ln_error m" and result = "ln_result m"]
      env assms(1) Some
    by (auto simp: take_line_def carries_def)
qed

lemma collect_routed:
  assumes "routed es s" "ss_calls s c = Some (i, Waiting)" "ss_chans s c = Some r"
  shows "routed es (s\<lparr>ss_calls := (ss_calls s)(c \<mapsto> (i, call_answer b r))\<rparr>)"
proof (rule routed_phase [OF assms(1,2)])
  show "sg_pending (ss_client s) j \<noteq> Some c" for j using assms routed_pending [OF assms(1)] by fastforce
  show "ss_chans s c = None \<or> call_answer b r \<noteq> Numbered" by (simp add: call_answer_def split: rpc_result.split)
  show "\<exists>e \<in> set es. carries i e (Rpc_Result v)" if "call_answer b r = Answered v" for v
    using assms that unfolding routed_def by (force simp: call_answer_def split: rpc_result.splits if_splits)
qed

lemma give_up_routed:
  assumes "routed es s" "ss_calls s c = Some (i, Waiting)"
  shows "routed es ((forget i s)\<lparr>ss_calls := (ss_calls s)(c \<mapsto> (i, Call_Failed e))\<rparr>)"
proof -
  have "routed es ((forget i s)\<lparr>ss_calls := (ss_calls (forget i s))(c \<mapsto> (i, Call_Failed e))\<rparr>)"
  proof (rule routed_phase [OF routed_forget [OF assms(1)]])
    show "sg_pending (ss_client (forget i s)) j \<noteq> Some c" for j
      using routed_pending [OF assms(1), of j c] assms(2) by (auto simp: forget_def)
  qed (use assms(2) in \<open>simp_all add: forget_def\<close>)
  then show ?thesis by (simp add: forget_def)
qed

lemma start_routed:
  assumes "routed es s" "ss_calls s c = None"
  shows "routed es (s\<lparr>ss_calls := (ss_calls s)(c \<mapsto> (i, Numbered))\<rparr>)"
proof -
  have "sg_pending (ss_client s) j \<noteq> Some c" for j using assms routed_pending [OF assms(1)] by fastforce
  moreover have "ss_chans s c = None" using assms unfolding routed_def by (cases "ss_chans s c") force+
  ultimately show ?thesis using assms unfolding routed_def by auto
qed

lemma act_routed:
  assumes "routed es s" "signal_act e s = Some s'" "e \<in> set es"
  shows "routed es s'"
proof (cases e)
  case Register_Handler
  then show ?thesis using assms by (auto simp: on_envelope_def intro: routed_cong)
next
  case (Start_Call c)
  then have s': "s' = (snd (inc_id s))\<lparr>ss_calls := (ss_calls s)(c \<mapsto> (fst (inc_id s), Numbered))\<rparr>"
    and c: "ss_calls s c = None"
    using assms(2) by (auto simp: inc_id_def Let_def split: option.splits)
  show ?thesis unfolding s'
    by (rule routed_cong [OF start_routed [OF assms(1) c, of "fst (inc_id s)"]]) (simp_all add: inc_id_def Let_def)
next
  case (Write_Call c io)
  then obtain i where "ss_calls s c = Some (i, Numbered)"
    "s' = (snd (call_locked io i c s))\<lparr>ss_calls := (ss_calls (snd (call_locked io i c s)))(c \<mapsto> (i, fst (call_locked io i c s)))\<rparr>"
    using assms(2) by (auto split: option.splits prod.splits call_phase.splits)
  then show ?thesis using write_call_routed [OF assms(1)] by (metis prod.collapse)
next
  case (Take_Line k l)
  then show ?thesis using take_line_routed [OF assms(1), of k l] assms by (auto split: if_splits)
next
  case (End_Loop k)
  then show ?thesis using assms by (auto simp: drop_conn_locked_def intro: routed_cong split: if_splits)
next
  case (Collect c b)
  then show ?thesis using assms collect_routed [OF assms(1)]
    by (auto split: option.splits prod.splits call_phase.splits)
next
  case (Give_Up c)
  then show ?thesis using assms give_up_routed [OF assms(1)]
    by (auto split: option.splits prod.splits call_phase.splits)
next
  case Close_Conn
  then show ?thesis using assms by (auto simp: drop_conn_locked_def intro: routed_cong)
qed

lemma run_routed: "signal_run es s = Some s' \<Longrightarrow> routed fs s \<Longrightarrow> routed (fs @ es) s'"
proof (induction es arbitrary: fs s)
  case (Cons e es)
  then obtain s1 where s1: "signal_act e s = Some s1" "signal_run es s1 = Some s'" by (auto split: option.splits)
  have "routed (fs @ [e]) s1"
    by (rule act_routed [OF _ s1(1)]) (use Cons.prems(2) in \<open>auto elim: routed_more\<close>)
  from Cons.IH [OF s1(2) this] show ?case by simp
qed simp

text \<open>The counter is the number of calls started, and no two calls share a value of it.\<close>

fun starts :: "'e signal_event list \<Rightarrow> nat" where
  "starts [] = 0"
| "starts (Start_Call c # es) = Suc (starts es)"
| "starts (e # es) = starts es"

definition call_id :: "'e signal_state \<Rightarrow> nat \<Rightarrow> string option" where
  "call_id s c = map_option fst (ss_calls s c)"

definition numbered :: "nat \<Rightarrow> 'e signal_state \<Rightarrow> bool" where
  "numbered n s \<longleftrightarrow>
     sg_next (ss_client s) = of_nat n \<and>
     (\<forall>c i. call_id s c = Some i \<longrightarrow> (\<exists>j \<le> n. i = nat_decimal j)) \<and>
     (\<forall>c d i. call_id s c = Some i \<longrightarrow> call_id s d = Some i \<longrightarrow> c = d)"

lemma resolve_fields:
  "resolve_call i result refused s = Some s' \<Longrightarrow> ss_calls s' = ss_calls s \<and> sg_next (ss_client s') = sg_next (ss_client s)"
  by (auto simp: resolve_call_def forget_def Let_def split: option.splits)

lemma take_line_fields:
  "take_line l s = Some s' \<Longrightarrow> ss_calls s' = ss_calls s \<and> sg_next (ss_client s') = sg_next (ss_client s)"
  by (auto simp: take_line_def dispatch_def Let_def dest: resolve_fields split: option.splits if_splits)

lemma act_ids:
  assumes "signal_act e s = Some s'" "\<And>c. e \<noteq> Start_Call c"
  shows "call_id s' = call_id s \<and> sg_next (ss_client s') = sg_next (ss_client s)"
  using assms
  by (cases e)
    (auto simp: call_id_def fun_eq_iff on_envelope_def drop_conn_locked_def forget_def
      dest!: take_line_fields call_locked_fields split: option.splits if_splits prod.splits call_phase.splits)

lemma start_numbered:
  assumes "numbered n s" "Suc n < 2 ^ 64" "signal_act (Start_Call c) s = Some s'"
  shows "numbered (Suc n) s'"
proof -
  have "unat (word_of_nat (Suc n) :: 64 word) = Suc n"
    using assms(2) by (subst unat_of_nat) simp
  then have step: "nat_decimal (unat (sg_next (ss_client s) + 1)) = nat_decimal (Suc n)"
    "sg_next (ss_client s) + 1 = word_of_nat (Suc n)"
    using assms(1) by (simp_all add: numbered_def add.commute)
  have ids: "call_id s' = (call_id s)(c \<mapsto> nat_decimal (Suc n))" "call_id s c = None"
    "sg_next (ss_client s') = word_of_nat (Suc n)"
    using assms(3) step by (auto simp: add.commute inc_id_def call_id_def fun_eq_iff Let_def split: option.splits)
  have old: "call_id s d = Some i \<Longrightarrow> \<exists>j \<le> n. i = nat_decimal j" for d i
    using assms(1) by (auto simp: numbered_def)
  have fresh: "call_id s d \<noteq> Some (nat_decimal (Suc n))" for d
    using old [of d "nat_decimal (Suc n)"] by (auto simp: nat_decimal_inj)
  have "\<exists>j \<le> Suc n. i = nat_decimal j" if "call_id s' d = Some i" for d i
    using that old [of d i] ids(1) by (auto split: if_splits intro: le_SucI)
  moreover have "d = d'" if "call_id s' d = Some i" "call_id s' d' = Some i" for d d' i
  proof -
    have "call_id s d = Some i \<Longrightarrow> call_id s d' = Some i \<Longrightarrow> d = d'"
      using assms(1) unfolding numbered_def by blast
    then show ?thesis using that fresh [of d] fresh [of d'] unfolding ids(1)
      by (cases "d = c"; cases "d' = c") auto
  qed
  ultimately show ?thesis using ids(3) unfolding numbered_def by blast
qed

lemma run_numbered:
  "signal_run es s = Some s' \<Longrightarrow> numbered n s \<Longrightarrow> n + starts es < 2 ^ 64 \<Longrightarrow> numbered (n + starts es) s'"
proof (induction es arbitrary: n s)
  case (Cons e es)
  then obtain s1 where s1: "signal_act e s = Some s1" "signal_run es s1 = Some s'" by (auto split: option.splits)
  show ?case
  proof (cases "\<exists>c. e = Start_Call c")
    case True
    then obtain c where e: "e = Start_Call c" by blast
    have "numbered (Suc n) s1" by (rule start_numbered [OF Cons.prems(2) _ s1(1) [unfolded e]]) (use Cons.prems(3) e in simp)
    from Cons.IH [OF s1(2) this] Cons.prems(3) e show ?thesis by simp
  next
    case False
    then have "numbered n s1" "starts (e # es) = starts es"
      using act_ids [OF s1(1)] Cons.prems(2) by (simp_all add: numbered_def, cases e, simp_all)
    from Cons.IH [OF s1(2) this(1)] Cons.prems(3) this(2) show ?thesis by simp
  qed
qed simp

section \<open>Properties\<close>

text \<open>
  In every run of fewer than 2^64 calls, whatever dials, writes, lines and cancellations
  happen in whatever order, answers reach their callers: no two calls share an id; a call
  that returns a result returns the one of a line that carried its own id and no error; a
  call that is waited for has an empty channel, so no line ever blocks the read loop.
\<close>

theorem signal_answers_own:
  assumes "signal_run es new_signal = Some s" "starts es < 2 ^ 64"
  shows "(\<forall>c d i. call_id s c = Some i \<longrightarrow> call_id s d = Some i \<longrightarrow> c = d) \<and>
    (\<forall>c i v. ss_calls s c = Some (i, Answered v) \<longrightarrow>
       (\<exists>k m. Take_Line k (Some m) \<in> set es \<and> ln_id m = i \<and> ln_error m = None \<and> ln_result m = v)) \<and>
    (\<forall>i c. sg_pending (ss_client s) i = Some c \<longrightarrow> ss_calls s c = Some (i, Waiting) \<and> ss_chans s c = None) \<and>
    (\<forall>l. take_line l s \<noteq> None)"
proof (intro conjI)
  have routed: "routed es s" using run_routed [OF assms(1) routed_new] by simp
  have "numbered 0 (new_signal :: 'a signal_state)" by (simp add: numbered_def call_id_def new_signal_def)
  from run_numbered [OF assms(1) this] assms(2)
  show "\<forall>c d i. call_id s c = Some i \<longrightarrow> call_id s d = Some i \<longrightarrow> c = d" by (simp add: numbered_def)
  show "\<forall>c i v. ss_calls s c = Some (i, Answered v) \<longrightarrow>
       (\<exists>k m. Take_Line k (Some m) \<in> set es \<and> ln_id m = i \<and> ln_error m = None \<and> ln_result m = v)"
  proof (intro allI impI)
    fix c i v assume "ss_calls s c = Some (i, Answered v)"
    from routed_answered [OF routed this]
    show "\<exists>k m. Take_Line k (Some m) \<in> set es \<and> ln_id m = i \<and> ln_error m = None \<and> ln_result m = v"
      unfolding carries_result by blast
  qed
  show "\<forall>i c. sg_pending (ss_client s) i = Some c \<longrightarrow> ss_calls s c = Some (i, Waiting) \<and> ss_chans s c = None"
    using routed by (simp add: routed_def)
  show "\<forall>l. take_line l s \<noteq> None"
  proof
    fix l :: "'a rpc_line option"
    have "routed (Take_Line 0 l # es) s" by (rule routed_more [OF routed]) auto
    from take_line_routed [OF this, of 0 l] show "take_line l s \<noteq> None" by auto
  qed
qed

lemma orphan_step:
  assumes "routed es s" "ss_calls s c = Some (i, Waiting)" "ss_chans s c = None" "signal_act e s = Some s'"
    and "e \<noteq> Give_Up c" "\<forall>k m. e = Take_Line k (Some m) \<longrightarrow> ln_id m \<noteq> i"
  shows "ss_calls s' c = Some (i, Waiting) \<and> ss_chans s' c = None"
proof (cases e)
  case (Take_Line k l)
  have other: "sg_pending (ss_client s) j \<noteq> Some c" if "j \<noteq> i" for j
    using routed_pending [OF assms(1), of j c] assms(2) that by auto
  show ?thesis using assms Take_Line other
    by (auto simp: take_line_def dispatch_def resolve_call_def forget_def Let_def split: option.splits if_splits)
next
  case (Write_Call d io)
  then show ?thesis using assms
    by (cases "d = c") (auto dest!: call_locked_fields split: option.splits prod.splits call_phase.splits)
qed (use assms in \<open>auto simp: on_envelope_def inc_id_def drop_conn_locked_def forget_def Let_def
      split: option.splits if_splits prod.splits call_phase.splits\<close>)

lemma orphan_run:
  assumes "signal_run es s = Some s'" "routed fs s" "ss_calls s c = Some (i, Waiting)" "ss_chans s c = None"
    and "Give_Up c \<notin> set es" "\<forall>k m. Take_Line k (Some m) \<in> set es \<longrightarrow> ln_id m \<noteq> i"
  shows "ss_calls s' c = Some (i, Waiting)"
  using assms
proof (induction es arbitrary: fs s)
  case (Cons e es)
  then obtain s1 where s1: "signal_act e s = Some s1" "signal_run es s1 = Some s'" by (auto split: option.splits)
  have "routed (fs @ [e]) s1"
    by (rule act_routed [OF _ s1(1)]) (use Cons.prems(2) in \<open>auto elim: routed_more\<close>)
  moreover have "ss_calls s1 c = Some (i, Waiting) \<and> ss_chans s1 c = None"
    by (rule orphan_step [OF Cons.prems(2,3,4) s1(1)]) (use Cons.prems(5,6) in auto)
  ultimately show ?case using Cons.IH [OF s1(2)] Cons.prems(5,6) by auto
qed simp

text \<open>
  C30. A lost connection takes its callers with it. When a read loop ends, a call still
  waiting for its answer stays waiting in every continuation in which it is not cancelled
  and no line bears its id (a daemon answers on the connection it was asked on): nothing
  fails it over. And a call that writes to a stored connection that is already dead does
  not return the transient error: it drops the connection first and closes nil.
\<close>

theorem signal_lost_connection:
  assumes "signal_run es new_signal = Some s" "ss_calls s c = Some (i, Waiting)" "ss_chans s c = None"
    and "signal_run (End_Loop k # es') s = Some s'" "Give_Up c \<notin> set es'"
    and "\<forall>k m. Take_Line k (Some m) \<in> set es' \<longrightarrow> ln_id m \<noteq> i"
  shows "ss_calls s' c = Some (i, Waiting) \<and>
    (\<forall>d j io. sg_conn (ss_client s') \<noteq> None \<and> ss_calls s' d = Some (j, Numbered) \<and> io_encodes io \<and>
       io_deadline io \<and> \<not> io_writes io \<longrightarrow>
       map_option (\<lambda>t. (ss_calls t d, sg_conn (ss_client t))) (signal_act (Write_Call d io) s') =
         Some (Some (j, Call_Failed Panic), None))"
proof
  have "routed es s" using run_routed [OF assms(1) routed_new] by simp
  from orphan_run [OF assms(4) this assms(2,3)] assms(5,6)
  show "ss_calls s' c = Some (i, Waiting)" by simp
  show "\<forall>d j io. sg_conn (ss_client s') \<noteq> None \<and> ss_calls s' d = Some (j, Numbered) \<and> io_encodes io \<and>
       io_deadline io \<and> \<not> io_writes io \<longrightarrow>
       map_option (\<lambda>t. (ss_calls t d, sg_conn (ss_client t))) (signal_act (Write_Call d io) s') =
         Some (Some (j, Call_Failed Panic), None)"
    by (auto simp: call_locked_def connect_locked_def drop_conn_locked_def forget_def Let_def)
qed

section \<open>Instances\<close>

lemma first_ids: "nat_decimal 1 = ''1''" "nat_decimal (Suc 0) = ''1''" "nat_decimal 2 = ''2''"
  by code_simp+

definition sound_io :: rpc_io where
  "sound_io = \<lparr>io_dials = True, io_encodes = True, io_deadline = True, io_writes = True\<rparr>"

definition answer_line :: "string \<Rightarrow> string \<Rightarrow> string rpc_line" where
  "answer_line i v = \<lparr>ln_id = i, ln_result = v, ln_error = None, ln_method = [], ln_envelope = None\<rparr>"

theorem signal_answers_own_witness:
  "\<exists>s. signal_run [Start_Call 0, Start_Call 7, Write_Call 7 sound_io, Write_Call 0 sound_io,
      Take_Line 0 (Some (answer_line ''1'' ''a'')), Collect 0 True] new_signal = Some s \<and>
    ss_calls s 0 = Some (''1'', Answered ''a'') \<and> (\<forall>l. take_line l s \<noteq> None)"
proof -
  let ?es = "[Start_Call 0, Start_Call 7, Write_Call 7 sound_io, Write_Call 0 sound_io,
      Take_Line 0 (Some (answer_line ''1'' ''a'')), Collect 0 True]"
  obtain s where s: "signal_run ?es new_signal = Some s" "ss_calls s 0 = Some (''1'', Answered ''a'')"
    by (simp add: new_signal_def inc_id_def call_locked_def connect_locked_def sound_io_def answer_line_def
        take_line_def resolve_call_def forget_def call_answer_def first_ids Let_def)
  from signal_answers_own [OF s(1)] s show ?thesis by simp
qed

theorem signal_lost_connection_witness:
  "\<exists>s. signal_run [Start_Call 0, Write_Call 0 sound_io] (new_signal :: string signal_state) = Some s \<and>
    (\<exists>s'. signal_run [End_Loop 0, Start_Call 7, Write_Call 7 sound_io] s = Some s' \<and>
      ss_calls s' 0 = Some (''1'', Waiting))"
proof -
  let ?es = "[Start_Call 0, Write_Call 0 sound_io]" and ?fs = "[Start_Call 7, Write_Call 7 sound_io]"
  obtain s where s: "signal_run ?es (new_signal :: string signal_state) = Some s"
    "ss_calls s 0 = Some (''1'', Waiting)" "ss_chans s 0 = None"
    and "\<exists>s'. signal_run (End_Loop 0 # ?fs) s = Some s'"
    by (simp add: new_signal_def inc_id_def call_locked_def connect_locked_def sound_io_def drop_conn_locked_def
        first_ids Let_def)
  then obtain s' where "signal_run (End_Loop 0 # ?fs) s = Some s'" by blast
  from signal_lost_connection [OF s this] this s(1) show ?thesis by auto
qed

end
