(* ===== verification/Chat.thy ===== *)
theory Chat
  imports Messaging
begin

text \<open>
  What the chat receivers share and the Signal one: the sink of
  \<^verbatim>\<open>internal/chatloop/chatloop.go\<close> with its failure step, and the receiver of
  \<^verbatim>\<open>internal/signal/receiver.go\<close>. A receiver turns what the network pushes into calls of the
  messaging service; a failed call is logged and nothing else, so a list of calls is applied
  to the end.
\<close>

section \<open>The sink\<close>

datatype chat_call =
    Deliver inbound_message
  | Verdict_Call string
  | Read_Mark string

text \<open>
  What one call meets: the failing statements, the concurrent inserts, fresh identifiers and
  the clock.
\<close>

record circumstance =
  cc_faults :: faults
  cc_race :: "store \<Rightarrow> store"
  cc_mint :: mint
  cc_clock :: time

definition chat_apply :: "messaging \<Rightarrow> circumstance \<Rightarrow> chat_call \<Rightarrow> world \<Rightarrow> err option \<times> world" where
  "chat_apply svc cc call w =
     (case call of
        Deliver inb \<Rightarrow>
          (case receive_message svc (cc_faults cc) (cc_race cc) (cc_mint cc) (cc_clock cc) inb w of
             (Inl e, w') \<Rightarrow> (Some e, w') | (Inr _, w') \<Rightarrow> (None, w'))
      | Verdict_Call ref \<Rightarrow>
          (case delivery_receipt (cc_faults cc) ref Delivered [] w of
             (Inl e, w') \<Rightarrow> (Some e, w') | (Inr _, w') \<Rightarrow> (None, w'))
      | Read_Mark ref \<Rightarrow>
          (case remote_read (cc_faults cc) ref w of
             (Inl e, w') \<Rightarrow> (Some e, w') | (Inr _, w') \<Rightarrow> (None, w')))"

fun chat_apply_all :: "messaging \<Rightarrow> circumstance list \<Rightarrow> chat_call list \<Rightarrow> world \<Rightarrow> world" where
  "chat_apply_all svc (cc # ccs) (c # cs) w = chat_apply_all svc ccs cs (snd (chat_apply svc cc c w))"
| "chat_apply_all svc ccs cs w = w"

section \<open>The failure step\<close>

text \<open>
  \<^verbatim>\<open>Backoff\<close>: a rejection stops the loop, any other family waits and arms the next attempt
  unless the context ends during the wait.
\<close>

definition backoff :: "family \<Rightarrow> bool \<Rightarrow> nat \<Rightarrow> nat \<times> bool" where
  "backoff fam survives tries =
     (if fam = Rejection then (tries, False)
      else if \<not> survives then (tries, False)
      else (tries + 1, True))"

text \<open>
  \<^verbatim>\<open>Receiver.Run\<close> of the Signal lane, one round: the answer of the ping, whether the context
  is done before it, and whether it outlives the wait. The result is the next attempt, or
  \<open>None\<close> when the loop returns.
\<close>

definition signal_round :: "bool \<Rightarrow> family option \<Rightarrow> bool \<Rightarrow> nat \<Rightarrow> nat option" where
  "signal_round ended ping survives tries =
     (if ended then None
      else
        (case ping of
           Some fam \<Rightarrow>
             (case backoff fam survives tries of (tries', alive) \<Rightarrow> if \<not> alive then None else Some tries')
         | None \<Rightarrow> if \<not> survives then None else Some 1))"

section \<open>Signal envelopes\<close>

record signal_attachment =
  sat_id :: string
  sat_type :: string
  sat_name :: string
  sat_size :: int

record signal_data =
  sd_message :: string
  sd_timestamp :: int
  sd_group :: "string option"
  sd_attachments :: "signal_attachment list"

record signal_receipt =
  sr_delivery :: bool
  sr_read :: bool
  sr_timestamps :: "int list"

record envelope =
  en_source :: string
  en_timestamp :: int
  en_data :: "signal_data option"
  en_receipt :: "signal_receipt option"

record signal_receiver =
  sv_owner :: extension
  sv_dir :: string

definition max_inbound_attachments :: nat where "max_inbound_attachments = 5"
definition max_inbound_attachment :: int where "max_inbound_attachment = 10 * 2 ^ 20"

text \<open>
  The attachment directory is the partial map from the names of its files to their bytes; the
  names that stand for directories read as failures.
\<close>

definition read_in_dir :: "(string \<rightharpoonup> char list) \<Rightarrow> string \<Rightarrow> char list option" where
  "read_in_dir files name =
     (let base = path_base name in
      if base \<in> {''.'', ''..'', ''/''} then None else files base)"

fun read_attachments_from ::
  "(string \<rightharpoonup> char list) \<Rightarrow> nat \<Rightarrow> signal_attachment list \<Rightarrow> upload list \<times> bool" where
  "read_attachments_from files i [] = ([], False)"
| "read_attachments_from files i (att # atts) =
     (if i \<ge> max_inbound_attachments then ([], False)
      else
        (case read_attachments_from files (i + 1) atts of (rest, err) \<Rightarrow>
           if sat_id att = [] then (rest, err)
           else if sat_size att > max_inbound_attachment then (rest, err)
           else
             (case read_in_dir files (sat_id att) of
                None \<Rightarrow> (rest, True)
              | Some bytes \<Rightarrow>
                  (\<lparr>upl_name = (if sat_name att = [] then ''signal-attachment'' else sat_name att),
                    upl_mime = sat_type att, upl_bytes = bytes\<rparr> # rest, err))))"

definition read_attachments ::
  "(string \<rightharpoonup> char list) \<Rightarrow> signal_receiver \<Rightarrow> signal_data \<Rightarrow> upload list \<times> bool" where
  "read_attachments files rv d =
     (if sd_attachments d = [] then ([], False)
      else if sv_dir rv = [] then ([], False)
      else read_attachments_from files 0 (sd_attachments d))"

definition handle_data ::
  "(string \<rightharpoonup> char list) \<Rightarrow> signal_receiver \<Rightarrow> envelope \<Rightarrow> signal_data \<Rightarrow> chat_call list" where
  "handle_data files rv env d =
     (if sd_group d \<noteq> None then []
      else if en_source env = [] then []
      else
        (case parse_address Network_Signal (en_source env) of
           Inl _ \<Rightarrow> []
         | Inr from \<Rightarrow>
             (let ts = (if sd_timestamp d = 0 then en_timestamp env else sd_timestamp d) in
              [Deliver
                \<lparr>inb_owner = sv_owner rv, inb_from = from, inb_body = sd_message d,
                 inb_attachments = fst (read_attachments files rv d),
                 inb_received = time_unix_milli ts\<rparr>])))"

fun receipt_calls :: "int list \<Rightarrow> chat_call list" where
  "receipt_calls [] = []"
| "receipt_calls (ts # tss) =
     (let ref = int_decimal ts in
      if ref = ''0'' then receipt_calls tss else Verdict_Call ref # receipt_calls tss)"

definition handle_receipt :: "signal_receipt \<Rightarrow> chat_call list" where
  "handle_receipt r =
     (if \<not> sr_delivery r \<and> \<not> sr_read r then [] else receipt_calls (sr_timestamps r))"

definition handle_envelope ::
  "(string \<rightharpoonup> char list) \<Rightarrow> signal_receiver \<Rightarrow> envelope \<Rightarrow> chat_call list" where
  "handle_envelope files rv env =
     (case en_data env of
        Some d \<Rightarrow> handle_data files rv env d
      | None \<Rightarrow> (case en_receipt env of Some r \<Rightarrow> handle_receipt r | None \<Rightarrow> []))"

section \<open>What an envelope may cause\<close>

text \<open>An attachment that arrives, and the upload it becomes.\<close>

definition usable :: "(string \<rightharpoonup> char list) \<Rightarrow> signal_attachment \<Rightarrow> bool" where
  "usable files att \<longleftrightarrow>
     sat_id att \<noteq> [] \<and> sat_size att \<le> max_inbound_attachment \<and> read_in_dir files (sat_id att) \<noteq> None"

definition upload_of :: "(string \<rightharpoonup> char list) \<Rightarrow> signal_attachment \<Rightarrow> upload" where
  "upload_of files att =
     \<lparr>upl_name = (if sat_name att = [] then ''signal-attachment'' else sat_name att),
      upl_mime = sat_type att, upl_bytes = the (read_in_dir files (sat_id att))\<rparr>"

lemma read_attachments_from_spec:
  "fst (read_attachments_from files i atts) =
     map (upload_of files) (filter (usable files) (take (max_inbound_attachments - i) atts))"
proof (induction files i atts rule: read_attachments_from.induct)
  case (2 files i att atts)
  show ?case
  proof (cases "i \<ge> max_inbound_attachments")
    case False
    then have "max_inbound_attachments - i = Suc (max_inbound_attachments - Suc i)" by simp
    then show ?thesis using 2 False
      by (auto simp: usable_def upload_of_def split: prod.split option.split)
  qed simp
qed simp

lemma path_base_flat: "CHR ''/'' \<in> set (path_base name) \<Longrightarrow> path_base name = ''/''"
  by (auto simp: path_base_def Let_def dest: set_takeWhileD split: if_splits)

lemma read_in_dir_flat:
  "read_in_dir files name = Some bytes \<Longrightarrow> \<exists>file. CHR ''/'' \<notin> set file \<and> file \<notin> {''.'', ''..''} \<and> files file = Some bytes"
  using path_base_flat [of name] by (auto simp: read_in_dir_def Let_def split: if_splits)

lemma upload_of_flat:
  "usable files att \<Longrightarrow> \<exists>file. CHR ''/'' \<notin> set file \<and> file \<notin> {''.'', ''..''} \<and>
     files file = Some (upl_bytes (upload_of files att))"
  using read_in_dir_flat [of files "sat_id att" "upl_bytes (upload_of files att)"]
  by (auto simp: usable_def upload_of_def)

lemma read_attachments_spec:
  "fst (read_attachments files rv d) =
     (if sv_dir rv = [] then []
      else map (upload_of files) (filter (usable files) (take 5 (sd_attachments d))))"
  by (simp add: read_attachments_def read_attachments_from_spec max_inbound_attachments_def)

lemma receipt_calls_set: "set (receipt_calls tss) = {Verdict_Call (int_decimal ts) | ts. ts \<in> set tss \<and> int_decimal ts \<noteq> ''0''}"
  by (induction tss) (auto simp: Let_def)

text \<open>
  What one pushed envelope can cause. A direct message from a dialable source is handed
  on exactly once, with its text whatever becomes of its attachments: at most five, in
  order, none without a configured directory, each with the bytes of a file that lies
  directly in that directory (an id with slashes or dots reaches no other path). Group
  messages and messages without a usable source hand on nothing, and a message is handed on
  for the configured owner only. Receipts cause verdicts for their own timestamps only.
\<close>

theorem signal_intake:
  "(\<forall>d addr. en_data env = Some d \<and> sd_group d = None \<and> en_source env \<noteq> [] \<and>
      parse_address Network_Signal (en_source env) = Inr addr \<longrightarrow>
      (\<exists>inb. handle_envelope files rv env = [Deliver inb] \<and> inb_owner inb = sv_owner rv \<and> inb_from inb = addr \<and>
         canonical_address addr \<and> inb_body inb = sd_message d \<and> length (inb_attachments inb) \<le> 5 \<and>
         inb_attachments inb =
           (if sv_dir rv = [] then []
            else map (upload_of files) (filter (usable files) (take 5 (sd_attachments d)))) \<and>
         (\<forall>u \<in> set (inb_attachments inb). \<exists>file. CHR ''/'' \<notin> set file \<and> file \<notin> {''.'', ''..''} \<and>
            files file = Some (upl_bytes u)))) \<and>
   (\<forall>inb. Deliver inb \<in> set (handle_envelope files rv env) \<longrightarrow>
      (\<exists>d. en_data env = Some d \<and> sd_group d = None \<and>
         parse_address Network_Signal (en_source env) = Inr (inb_from inb) \<and> inb_owner inb = sv_owner rv)) \<and>
   (\<forall>ref. Verdict_Call ref \<in> set (handle_envelope files rv env) \<longrightarrow>
      (\<exists>r ts. en_data env = None \<and> en_receipt env = Some r \<and> (sr_delivery r \<or> sr_read r) \<and>
         ts \<in> set (sr_timestamps r) \<and> ref = int_decimal ts)) \<and>
   (\<forall>ref. Read_Mark ref \<notin> set (handle_envelope files rv env))"
proof (intro conjI allI impI)
  fix d addr
  assume a: "en_data env = Some d \<and> sd_group d = None \<and> en_source env \<noteq> [] \<and>
      parse_address Network_Signal (en_source env) = Inr addr"
  let ?ups = "fst (read_attachments files rv d)"
  have "length (filter (usable files) (take 5 (sd_attachments d))) \<le> 5"
    by (rule order_trans [OF length_filter_le]) simp
  then have few: "length ?ups \<le> 5" by (simp add: read_attachments_spec)
  have "\<exists>file. CHR ''/'' \<notin> set file \<and> file \<notin> {''.'', ''..''} \<and> files file = Some (upl_bytes u)"
    if "u \<in> set ?ups" for u
  proof -
    from that obtain att where "usable files att" "u = upload_of files att"
      by (auto simp: read_attachments_spec split: if_splits)
    then show ?thesis using upload_of_flat by blast
  qed
  then show "\<exists>inb. handle_envelope files rv env = [Deliver inb] \<and> inb_owner inb = sv_owner rv \<and> inb_from inb = addr \<and>
         canonical_address addr \<and> inb_body inb = sd_message d \<and> length (inb_attachments inb) \<le> 5 \<and>
         inb_attachments inb =
           (if sv_dir rv = [] then []
            else map (upload_of files) (filter (usable files) (take 5 (sd_attachments d)))) \<and>
         (\<forall>u \<in> set (inb_attachments inb). \<exists>file. CHR ''/'' \<notin> set file \<and> file \<notin> {''.'', ''..''} \<and>
            files file = Some (upl_bytes u))"
    using a few parse_address_canonical [of Network_Signal "en_source env" addr]
    by (auto simp: handle_envelope_def handle_data_def read_attachments_spec Let_def)
qed (cases "en_data env"; cases "en_receipt env"; fastforce simp: handle_envelope_def handle_data_def
    handle_receipt_def receipt_calls_set Let_def split: if_splits sum.splits)+

theorem signal_intake_witness:
  "handle_envelope [''a1'' \<mapsto> ''x''] \<lparr>sv_owner = Extension ''1001'', sv_dir = ''/sig''\<rparr>
     \<lparr>en_source = ''+4930123'', en_timestamp = 7, en_data =
        Some \<lparr>sd_message = ''hi'', sd_timestamp = 0, sd_group = None,
          sd_attachments = [\<lparr>sat_id = ''../a1'', sat_type = ''t'', sat_name = [], sat_size = 1\<rparr>]\<rparr>,
      en_receipt = None\<rparr> \<noteq> []"
proof -
  let ?rv = "\<lparr>sv_owner = Extension ''1001'', sv_dir = ''/sig''\<rparr>"
  let ?d = "\<lparr>sd_message = ''hi'', sd_timestamp = 0, sd_group = None,
      sd_attachments = [\<lparr>sat_id = ''../a1'', sat_type = ''t'', sat_name = [], sat_size = 1\<rparr>]\<rparr>"
  let ?env = "\<lparr>en_source = ''+4930123'', en_timestamp = 7, en_data = Some ?d, en_receipt = None\<rparr>"
  let ?addr = "\<lparr>addr_network = Network_Signal, addr_value = ''+4930123''\<rparr>"
  have "parse_address Network_Signal ''+4930123'' = Inr ?addr" by code_simp
  then show ?thesis
    using conjunct1 [OF signal_intake [of ?env "[''a1'' \<mapsto> ''x'']" ?rv], rule_format, of ?d ?addr] by auto
qed

end
