(* ===== verification/Matrix.thy ===== *)
theory Matrix
  imports Chat "HOL-Library.Word"
begin

text \<open>
  The Matrix lane of \<^verbatim>\<open>internal/matrix\<close>: the client (\<^verbatim>\<open>client.go\<close>) and the receiver
  (\<^verbatim>\<open>receiver.go\<close>). The homeserver is foreign, so it is a parameter: a \<open>homeserver\<close> is the
  record of the requests the client makes, each with the outcome of the exchange as \<^verbatim>\<open>do\<close> sees
  it; what the theorems rely on is \<open>homeserver_laws\<close>. A Go map that is iterated is an
  association list whose order stands for the order of the iteration. The texts errors render
  to, the files, the media types by extension and the clock are in \<open>matrix_env\<close>.
\<close>

section \<open>One exchange\<close>

datatype 'a http_outcome =
    Not_Encoded string
  | Not_Built string
  | Not_Sent string
  | Refused_With nat string
  | Not_Read string
  | Not_Decoded string
  | Decoded 'a

definition classify :: "nat \<Rightarrow> string \<Rightarrow> send_error" where
  "classify status txt =
     (if status = 429 \<or> 500 \<le> status then Send_Failure Transient txt else Send_Failure Rejection txt)"

definition mx_do :: "'a http_outcome \<Rightarrow> send_error + 'a" where
  "mx_do out =
     (case out of
        Not_Encoded txt \<Rightarrow> Inl (Send_Failure Rejection txt)
      | Not_Built txt \<Rightarrow> Inl (Send_Failure Infrastructure txt)
      | Not_Sent txt \<Rightarrow> Inl (Send_Failure Transient txt)
      | Refused_With status txt \<Rightarrow> Inl (classify status txt)
      | Not_Read txt \<Rightarrow> Inl (Send_Failure Transient txt)
      | Not_Decoded txt \<Rightarrow> Inl (Send_Failure Infrastructure txt)
      | Decoded x \<Rightarrow> Inr x)"

record event_content =
  mc_msgtype :: string
  mc_body :: string
  mc_url :: string
  mc_mimetype :: string

record room_event =
  re_type :: string
  re_sender :: string
  re_id :: string
  re_ts :: int
  re_content :: event_content

type_synonym dm_map = "(string \<times> string) list"

record 'h homeserver =
  hv_create :: "string \<Rightarrow> 'h \<Rightarrow> string http_outcome \<times> 'h"
  hv_direct :: "dm_map \<Rightarrow> 'h \<Rightarrow> unit http_outcome \<times> 'h"
  hv_upload :: "string \<Rightarrow> string \<Rightarrow> char list \<Rightarrow> 'h \<Rightarrow> string http_outcome \<times> 'h"
  hv_put :: "string \<Rightarrow> string \<Rightarrow> string \<Rightarrow> event_content \<Rightarrow> 'h \<Rightarrow> string http_outcome \<times> 'h"
  hv_download :: "string \<Rightarrow> string \<Rightarrow> 'h \<Rightarrow> (char list \<times> string) http_outcome"
  hv_whoami :: "'h \<Rightarrow> string http_outcome"

record matrix_env =
  ev_text :: "string \<Rightarrow> string"
  ev_file :: "string \<Rightarrow> char list option"
  ev_mime :: "string \<Rightarrow> string"
  ev_clock :: "64 word \<Rightarrow> int"

definition local_error :: "matrix_env \<Rightarrow> family \<Rightarrow> string \<Rightarrow> send_error" where
  "local_error env fam code = Send_Failure fam (ev_text env code)"

section \<open>The client\<close>

record matrix_client =
  mx_user :: string
  mx_txn :: "64 word"
  mx_rooms :: dm_map

definition new_matrix :: "string \<Rightarrow> matrix_client" where
  "new_matrix user = \<lparr>mx_user = user, mx_txn = 0, mx_rooms = []\<rparr>"

definition whoami :: "matrix_env \<Rightarrow> 'h homeserver \<Rightarrow> matrix_client \<Rightarrow> 'h \<Rightarrow> send_error + unit" where
  "whoami env hv cl h =
     (case mx_do (hv_whoami hv h) of
        Inl e \<Rightarrow> Inl e
      | Inr user \<Rightarrow> if user \<noteq> mx_user cl then Inl (local_error env Rejection ''matrix.token'') else Inr ())"

definition room_for ::
  "matrix_env \<Rightarrow> 'h homeserver \<Rightarrow> string \<Rightarrow> matrix_client \<Rightarrow> 'h
     \<Rightarrow> (send_error + string) \<times> matrix_client \<times> 'h" where
  "room_for env hv peer cl h =
     (case map_of (mx_rooms cl) peer of
        Some room \<Rightarrow> (Inr room, cl, h)
      | None \<Rightarrow>
          (case hv_create hv peer h of
             (out, h1) \<Rightarrow>
               (case mx_do out of
                  Inl e \<Rightarrow> (Inl e, cl, h1)
                | Inr room \<Rightarrow>
                    if room = [] then (Inl (local_error env Infrastructure ''matrix.create_room''), cl, h1)
                    else
                      (let cl1 = cl\<lparr>mx_rooms := AList.update peer room (mx_rooms cl)\<rparr> in
                       (Inr room, cl1, snd (hv_direct hv (mx_rooms cl1) h1))))))"

definition upload_media ::
  "matrix_env \<Rightarrow> 'h homeserver \<Rightarrow> string \<Rightarrow> string \<Rightarrow> char list \<Rightarrow> 'h \<Rightarrow> (send_error + string) \<times> 'h" where
  "upload_media env hv name mime bytes h =
     (let guessed = ev_mime env (path_ext name);
          ty = (if mime \<noteq> [] then mime else if guessed \<noteq> [] then guessed else ''application/octet-stream'') in
      case hv_upload hv name ty bytes h of
        (out, h1) \<Rightarrow>
          (case mx_do out of
             Inl e \<Rightarrow> (Inl e, h1)
           | Inr uri \<Rightarrow> if uri = [] then (Inl (local_error env Infrastructure ''matrix.upload''), h1) else (Inr uri, h1)))"

definition download_cap :: nat where "download_cap = 25 * 2 ^ 20"

definition download_media ::
  "matrix_env \<Rightarrow> 'h homeserver \<Rightarrow> string \<Rightarrow> 'h \<Rightarrow> send_error + char list \<times> string" where
  "download_media env hv mxc h =
     (if \<not> has_prefix ''mxc://'' mxc then Inl (local_error env Rejection ''matrix.mxc'')
      else
        (case cut_byte (CHR ''/'') (drop 6 mxc) of
           None \<Rightarrow> Inl (local_error env Rejection ''matrix.mxc'')
         | Some (server, media) \<Rightarrow>
             if server = [] \<or> media = [] then Inl (local_error env Rejection ''matrix.mxc'')
             else
               (case mx_do (hv_download hv server media h) of
                  Inl e \<Rightarrow> Inl e
                | Inr (bytes, mime) \<Rightarrow>
                    (let got = take (download_cap + 1) bytes in
                     if length got > download_cap then Inl (local_error env Rejection ''matrix.download'')
                     else Inr (got, mime)))))"

definition send_event ::
  "matrix_env \<Rightarrow> 'h homeserver \<Rightarrow> string \<Rightarrow> string \<Rightarrow> event_content \<Rightarrow> matrix_client \<Rightarrow> 'h
     \<Rightarrow> (send_error + string) \<times> matrix_client \<times> 'h" where
  "send_event env hv room ty content cl h =
     (let n = mx_txn cl + 1;
          txn = ''webphone-'' @ int_decimal (ev_clock env n) @ ''-'' @ nat_decimal (unat n);
          cl1 = cl\<lparr>mx_txn := n\<rparr> in
      case hv_put hv room ty txn content h of
        (out, h1) \<Rightarrow>
          (case mx_do out of
             Inl e \<Rightarrow> (Inl e, cl1, h1)
           | Inr event \<Rightarrow>
               if event = [] then (Inl (local_error env Infrastructure ''matrix.send''), cl1, h1)
               else (Inr event, cl1, h1)))"

definition file_message_type :: "string \<Rightarrow> string" where
  "file_message_type mime = (if has_prefix ''image/'' mime then ''m.image'' else ''m.file'')"

text \<open>One attachment: read, upload, and the event of its own.\<close>

definition send_attachment ::
  "matrix_env \<Rightarrow> 'h homeserver \<Rightarrow> string \<Rightarrow> outbound_attachment \<Rightarrow> matrix_client \<Rightarrow> 'h
     \<Rightarrow> (send_error + string) \<times> matrix_client \<times> 'h" where
  "send_attachment env hv room att cl h =
     (case ev_file env (oat_path att) of
        None \<Rightarrow> (Inl (local_error env Infrastructure ''matrix.attachment_read''), cl, h)
      | Some bytes \<Rightarrow>
          (case upload_media env hv (oat_name att) (oat_mime att) bytes h of
             (Inl e, h1) \<Rightarrow> (Inl e, cl, h1)
           | (Inr mxc, h1) \<Rightarrow>
               send_event env hv room (file_message_type (oat_mime att))
                 \<lparr>mc_msgtype = file_message_type (oat_mime att), mc_body = oat_name att, mc_url = mxc,
                  mc_mimetype = oat_mime att\<rparr> cl h1))"

fun send_attachments ::
  "matrix_env \<Rightarrow> 'h homeserver \<Rightarrow> string \<Rightarrow> outbound_attachment list \<Rightarrow> string \<Rightarrow> matrix_client \<Rightarrow> 'h
     \<Rightarrow> (send_error + string) \<times> matrix_client \<times> 'h" where
  "send_attachments env hv room [] final cl h = (Inr final, cl, h)"
| "send_attachments env hv room (att # atts) final cl h =
     (case send_attachment env hv room att cl h of
        (Inl e, cl1, h1) \<Rightarrow> (Inl e, cl1, h1)
      | (Inr event, cl1, h1) \<Rightarrow> send_attachments env hv room atts event cl1 h1)"

definition matrix_send ::
  "matrix_env \<Rightarrow> 'h homeserver \<Rightarrow> outbound_message \<Rightarrow> matrix_client \<Rightarrow> 'h
     \<Rightarrow> (send_error + receipt) \<times> matrix_client \<times> 'h" where
  "matrix_send env hv msg cl h =
     (if addr_network (out_to msg) \<noteq> Network_Matrix
      then (Inl (local_error env Rejection ''matrix.network''), cl, h)
      else
        (case room_for env hv (addr_value (out_to msg)) cl h of
           (Inl e, cl1, h1) \<Rightarrow> (Inl e, cl1, h1)
         | (Inr room, cl1, h1) \<Rightarrow>
             (case send_attachments env hv room (out_attachments msg) [] cl1 h1 of
                (Inl e, cl2, h2) \<Rightarrow> (Inl e, cl2, h2)
              | (Inr final, cl2, h2) \<Rightarrow>
                  (case (if out_body msg = [] then (Inr final, cl2, h2)
                         else send_event env hv room ''m.room.message''
                           \<lparr>mc_msgtype = ''m.text'', mc_body = out_body msg, mc_url = [], mc_mimetype = []\<rparr>
                           cl2 h2) of
                     (Inl e, cl3, h3) \<Rightarrow> (Inl e, cl3, h3)
                   | (Inr event, cl3, h3) \<Rightarrow>
                       if event = [] then (Inl (local_error env Rejection ''matrix.empty''), cl3, h3)
                       else (Inr \<lparr>rcp_ref = event, rcp_resolution = Resolution_Immediate\<rparr>, cl3, h3)))))"

section \<open>The receiver\<close>

text \<open>
  A sync response: the account data (the value of a peer is a list, or something else; its
  elements are strings, or something else), the timelines and the receipts of the joined
  rooms (\<open>None\<close> is content that does not decode).
\<close>

type_synonym receipt_content = "(string \<times> (string \<times> string list) list) list"

record account_event =
  ae_type :: string
  ae_content :: "(string \<times> string option list option) list"

record room_sync =
  rs_timeline :: "room_event list"
  rs_ephemeral :: "(string \<times> receipt_content option) list"

record sync_response =
  sy_next :: string
  sy_account :: "account_event list"
  sy_join :: "(string \<times> room_sync) list"

record matrix_receiver =
  rv_owner :: extension

definition apply_direct :: "account_event \<Rightarrow> matrix_client \<Rightarrow> matrix_client" where
  "apply_direct ae cl =
     foldl (\<lambda>cl (peer, rooms).
         case rooms of
           Some (Some room # _) \<Rightarrow> if room \<noteq> [] then cl\<lparr>mx_rooms := AList.update peer room (mx_rooms cl)\<rparr> else cl
         | _ \<Rightarrow> cl) cl (ae_content ae)"

definition peer_rooms :: "matrix_client \<Rightarrow> string \<Rightarrow> string option" where
  "peer_rooms cl room = map_option fst (find (\<lambda>pr. snd pr = room) (mx_rooms cl))"

definition inbound_of :: "matrix_receiver \<Rightarrow> address \<Rightarrow> string \<Rightarrow> upload list \<Rightarrow> int \<Rightarrow> inbound_message" where
  "inbound_of rv from body ups ts =
     \<lparr>inb_owner = rv_owner rv, inb_from = from, inb_body = body, inb_attachments = ups,
      inb_received = time_unix_milli ts\<rparr>"

definition ingest_media ::
  "(string \<Rightarrow> send_error + char list \<times> string) \<Rightarrow> matrix_receiver \<Rightarrow> string \<Rightarrow> room_event \<Rightarrow> chat_call list" where
  "ingest_media fetch rv peer ev =
     (case parse_address Network_Matrix peer of
        Inl _ \<Rightarrow> []
      | Inr from \<Rightarrow>
          (case fetch (mc_url (re_content ev)) of
             Inl _ \<Rightarrow> []
           | Inr (bytes, mime) \<Rightarrow>
               (let name = (if mc_body (re_content ev) = [] then ''matrix-attachment'' else mc_body (re_content ev));
                    ty = (if mime = [] then mc_mimetype (re_content ev) else mime) in
                [Deliver (inbound_of rv from [] [\<lparr>upl_name = name, upl_mime = ty, upl_bytes = bytes\<rparr>] (re_ts ev))])))"

definition ingest_event ::
  "(string \<Rightarrow> send_error + char list \<times> string) \<Rightarrow> matrix_receiver \<Rightarrow> string \<Rightarrow> room_event \<Rightarrow> chat_call list" where
  "ingest_event fetch rv peer ev =
     (if re_type ev = ''m.room.encrypted'' then []
      else if re_type ev = ''m.room.message'' then
        (if mc_msgtype (re_content ev) = ''m.text'' then
           (case parse_address Network_Matrix peer of
              Inl _ \<Rightarrow> []
            | Inr from \<Rightarrow> [Deliver (inbound_of rv from (mc_body (re_content ev)) [] (re_ts ev))])
         else if mc_msgtype (re_content ev) = ''m.image'' \<or> mc_msgtype (re_content ev) = ''m.file'' then
           ingest_media fetch rv peer ev
         else [])
      else [])"

definition readers_of :: "(string \<times> string list) list \<Rightarrow> string list" where
  "readers_of by_type = (case map_of by_type ''m.read'' of Some readers \<Rightarrow> readers | None \<Rightarrow> [])"

definition ingest_receipts :: "string \<Rightarrow> (string \<times> receipt_content option) list \<Rightarrow> chat_call list" where
  "ingest_receipts self evs =
     concat (map (\<lambda>(ty, content).
         if ty \<noteq> ''m.receipt'' then []
         else
           (case content of
              None \<Rightarrow> []
            | Some c \<Rightarrow>
                concat (map (\<lambda>(event, by_type).
                    map (\<lambda>_. Read_Mark event) (filter (\<lambda>r. r \<noteq> self) (readers_of by_type))) c))) evs)"

definition ingest_room ::
  "(string \<Rightarrow> send_error + char list \<times> string) \<Rightarrow> matrix_receiver \<Rightarrow> matrix_client \<Rightarrow> string \<times> room_sync
     \<Rightarrow> chat_call list" where
  "ingest_room fetch rv cl joined =
     (case peer_rooms cl (fst joined) of
        None \<Rightarrow> []
      | Some peer \<Rightarrow>
          concat (map (\<lambda>ev. if re_sender ev = mx_user cl then [] else ingest_event fetch rv peer ev)
            (rs_timeline (snd joined))) @
          ingest_receipts (mx_user cl) (rs_ephemeral (snd joined)))"

definition ingest ::
  "(string \<Rightarrow> send_error + char list \<times> string) \<Rightarrow> matrix_receiver \<Rightarrow> sync_response \<Rightarrow> matrix_client
     \<Rightarrow> chat_call list \<times> matrix_client" where
  "ingest fetch rv resp cl =
     (let cl1 = foldl (\<lambda>cl ae. if ae_type ae = ''m.direct'' then apply_direct ae cl else cl) cl (sy_account resp) in
      (concat (map (ingest_room fetch rv cl1) (sy_join resp)), cl1))"

text \<open>
  One round of \<^verbatim>\<open>Receiver.Run\<close>: whether the context is done before it, the stored cursor or the
  failure to load it, the answer of the sync for a cursor and a poll time, whether the context
  is done when a sync has failed and whether it outlives a wait, whether the save succeeds.
  The result: the next attempt (or \<open>None\<close> when the loop returns), the calls, the client and
  the stored cursor.
\<close>

record round_io =
  ri_ended :: bool
  ri_loads :: "family option"
  ri_sync :: "string \<Rightarrow> nat \<Rightarrow> family + sync_response"
  ri_cut :: bool
  ri_survives :: bool
  ri_saves :: bool

definition matrix_round ::
  "(string \<Rightarrow> send_error + char list \<times> string) \<Rightarrow> matrix_receiver \<Rightarrow> round_io \<Rightarrow> matrix_client \<times> string \<times> nat
     \<Rightarrow> nat option \<times> chat_call list \<times> matrix_client \<times> string" where
  "matrix_round fetch rv io st =
     (let (cl, cursor, tries) = st;
          retry = (\<lambda>fam. case backoff fam (ri_survives io) tries of
             (tries', alive) \<Rightarrow> (if alive then Some tries' else None, [], cl, cursor)) in
      if ri_ended io then (None, [], cl, cursor)
      else
        (case ri_loads io of
           Some fam \<Rightarrow> retry fam
         | None \<Rightarrow>
             (case ri_sync io cursor (if cursor = [] then 0 else 30) of
                Inl fam \<Rightarrow> if ri_cut io then (None, [], cl, cursor) else retry fam
              | Inr resp \<Rightarrow>
                  (case ingest fetch rv resp cl of
                     (calls, cl1) \<Rightarrow>
                       (Some 1, calls, cl1, if ri_saves io then sy_next resp else cursor)))))"

section \<open>What a homeserver promises\<close>

text \<open>
  The documented behaviour the theorems rely on, over the timelines of the rooms: a request
  that is not a send leaves no message in any room (creating a room may leave state events),
  and a send that is answered with an event id has appended the event as it was given, by
  the user of the access token.
\<close>

definition stateful :: "room_event \<Rightarrow> bool" where
  "stateful ev \<longleftrightarrow> re_type ev \<notin> {''m.room.message'', ''m.room.encrypted''}"

definition homeserver_laws :: "'h homeserver \<Rightarrow> string \<Rightarrow> ('h \<Rightarrow> string \<Rightarrow> room_event list) \<Rightarrow> bool" where
  "homeserver_laws hv user view \<longleftrightarrow>
     (\<forall>peer h room. \<exists>evs. view (snd (hv_create hv peer h)) room = view h room @ evs \<and> list_all stateful evs) \<and>
     (\<forall>dm h. view (snd (hv_direct hv dm h)) = view h) \<and>
     (\<forall>name ty bytes h. view (snd (hv_upload hv name ty bytes h)) = view h) \<and>
     (\<forall>room ty txn c h event h'. hv_put hv room ty txn c h = (Decoded event, h') \<longrightarrow>
        (\<exists>ts. view h' = (view h)(room := view h room @
           [\<lparr>re_type = ty, re_sender = user, re_id = event, re_ts = ts, re_content = c\<rparr>])))"

lemma mx_do_Inr [simp]: "mx_do out = Inr x \<longleftrightarrow> out = Decoded x"
  by (cases out) (auto simp: mx_do_def)

lemma send_event_view:
  assumes "homeserver_laws hv user view" "send_event env hv room ty c cl h = (Inr event, cl', h')"
  shows "\<exists>ts. view h' = (view h)(room := view h room @
      [\<lparr>re_type = ty, re_sender = user, re_id = event, re_ts = ts, re_content = c\<rparr>])"
    and "event \<noteq> []" "mx_rooms cl' = mx_rooms cl"
proof -
  obtain txn where "hv_put hv room ty txn c h = (Decoded event, h')" "event \<noteq> []" "mx_rooms cl' = mx_rooms cl"
    using assms(2) by (auto simp: send_event_def Let_def split: prod.splits sum.splits if_splits)
  then show "\<exists>ts. view h' = (view h)(room := view h room @
      [\<lparr>re_type = ty, re_sender = user, re_id = event, re_ts = ts, re_content = c\<rparr>])"
    "event \<noteq> []" "mx_rooms cl' = mx_rooms cl"
    using assms(1) unfolding homeserver_laws_def by blast+
qed

lemma file_message_type_cases: "file_message_type m = ''m.image'' \<or> file_message_type m = ''m.file''"
  by (simp add: file_message_type_def)

lemma send_attachment_view:
  assumes "homeserver_laws hv user view" "send_attachment env hv room att cl h = (Inr event, cl', h')"
  shows "\<exists>ev. view h' = (view h)(room := view h room @ [ev]) \<and> re_id ev = event \<and> stateful ev \<and>
      re_type ev = file_message_type (oat_mime att)"
    and "event \<noteq> []" "mx_rooms cl' = mx_rooms cl"
proof -
  obtain bytes r h1 c where up: "upload_media env hv (oat_name att) (oat_mime att) bytes h = (r, h1)"
    and put: "send_event env hv room (file_message_type (oat_mime att)) c cl h1 = (Inr event, cl', h')"
    using assms(2) by (auto simp: send_attachment_def split: option.splits prod.splits sum.splits)
  have "view (snd (hv_upload hv name ty bytes h)) = view h" for name ty
    using assms(1) unfolding homeserver_laws_def by blast
  then have "view h1 = view h" using up
    by (auto simp: upload_media_def Let_def split: prod.splits sum.splits if_splits) (metis snd_conv)+
  then show "\<exists>ev. view h' = (view h)(room := view h room @ [ev]) \<and> re_id ev = event \<and> stateful ev \<and>
      re_type ev = file_message_type (oat_mime att)"
    using send_event_view(1) [OF assms(1) put] file_message_type_cases [of "oat_mime att"]
    by (auto simp: stateful_def)
  show "event \<noteq> []" "mx_rooms cl' = mx_rooms cl" using send_event_view(2,3) [OF assms(1) put] by blast+
qed

lemma send_attachments_view:
  assumes "homeserver_laws hv user view"
  shows "send_attachments env hv room atts final cl h = (Inr event, cl', h') \<Longrightarrow>
    \<exists>evs. view h' = (view h)(room := view h room @ evs) \<and> list_all stateful evs \<and>
      map re_type evs = map (\<lambda>a. file_message_type (oat_mime a)) atts \<and>
      event = (if atts = [] then final else re_id (last evs)) \<and> (atts \<noteq> [] \<longrightarrow> event \<noteq> []) \<and>
      mx_rooms cl' = mx_rooms cl"
proof (induction atts arbitrary: final cl h)
  case Nil
  then show ?case by (auto intro: exI [of _ "[]"])
next
  case (Cons att atts)
  then obtain first cl1 h1 where one: "send_attachment env hv room att cl h = (Inr first, cl1, h1)"
    and rest: "send_attachments env hv room atts first cl1 h1 = (Inr event, cl', h')"
    by (auto split: prod.splits sum.splits)
  obtain ev where ev: "view h1 = (view h)(room := view h room @ [ev])" "re_id ev = first" "stateful ev"
    "re_type ev = file_message_type (oat_mime att)" "first \<noteq> []" "mx_rooms cl1 = mx_rooms cl"
    using send_attachment_view [OF assms one] by blast
  obtain evs where "view h' = (view h1)(room := view h1 room @ evs)" "list_all stateful evs"
    "map re_type evs = map (\<lambda>a. file_message_type (oat_mime a)) atts"
    "event = (if atts = [] then first else re_id (last evs))" "atts \<noteq> [] \<longrightarrow> event \<noteq> []"
    "mx_rooms cl' = mx_rooms cl1"
    using Cons.IH [OF rest] by blast
  then show ?case using ev by (intro exI [of _ "ev # evs"]) auto
qed

lemma room_for_view:
  assumes "homeserver_laws hv user view" "room_for env hv peer cl h = (Inr room, cl', h')"
  shows "map_of (mx_rooms cl') peer = Some room \<and>
    (\<forall>r. \<exists>evs. view h' r = view h r @ evs \<and> list_all stateful evs)"
proof (cases "map_of (mx_rooms cl) peer")
  case None
  then have cl': "map_of (mx_rooms cl') peer = Some room"
    and h': "\<exists>dm. h' = snd (hv_direct hv dm (snd (hv_create hv peer h)))"
    using assms(2) by (auto simp: room_for_def update_conv' Let_def split: prod.splits sum.splits if_splits)
  have "\<exists>evs. view (snd (hv_create hv peer h)) r = view h r @ evs \<and> list_all stateful evs" for r
    using assms(1) unfolding homeserver_laws_def by blast
  moreover have "view h' = view (snd (hv_create hv peer h))"
    using assms(1) h' unfolding homeserver_laws_def by blast
  ultimately show ?thesis using cl' by simp
next
  case (Some x)
  then have "room = x" "cl' = cl" "h' = h" using assms(2) by (auto simp: room_for_def)
  then show ?thesis using Some by (auto intro: exI [of _ "[]"])
qed

lemma ingest_stateful: "stateful ev \<Longrightarrow> ingest_event fetch rv peer ev = []"
  by (simp add: stateful_def ingest_event_def)

section \<open>Properties\<close>

text \<open>
  C29. What a send on the Matrix lane reaches. When it answers a receipt, the direct room of
  the peer has grown by one event per attachment and, last, the text if there is one; the
  receipt is immediate and names the last of these events. A receiver that has the room as
  its direct room with the sender hands on exactly the text, once and unchanged - and none
  of the attachments: they are sent as events of type m.image and m.file, which every
  receiver of room messages skips.
\<close>

theorem matrix_text_only:
  assumes laws: "homeserver_laws hv (mx_user cl) view"
    and sent: "matrix_send env hv msg cl h = (Inr rcp, cl', h')"
    and other: "mx_user rcl \<noteq> mx_user cl" "parse_address Network_Matrix (mx_user cl) = Inr from"
    and dm: "\<And>room. map_of (mx_rooms cl') (addr_value (out_to msg)) = Some room \<Longrightarrow> peer_rooms rcl room = Some (mx_user cl)"
  shows "\<exists>room new ts. map_of (mx_rooms cl') (addr_value (out_to msg)) = Some room \<and>
    view h' room = view h room @ new \<and> rcp_resolution rcp = Resolution_Immediate \<and>
    new \<noteq> [] \<and> rcp_ref rcp = re_id (last new) \<and>
    length (filter (\<lambda>ev. re_type ev \<in> {''m.image'', ''m.file''}) new) \<ge> length (out_attachments msg) \<and>
    ingest_room fetch rv rcl (room, \<lparr>rs_timeline = new, rs_ephemeral = []\<rparr>) =
      (if out_body msg = [] then [] else [Deliver (inbound_of rv from (out_body msg) [] ts)])"
proof -
  let ?P = "\<lambda>ev. re_type ev \<in> {''m.image'', ''m.file''}"
  obtain room cl1 h1 final cl2 h2 where steps:
    "room_for env hv (addr_value (out_to msg)) cl h = (Inr room, cl1, h1)"
    "send_attachments env hv room (out_attachments msg) [] cl1 h1 = (Inr final, cl2, h2)"
    "(if out_body msg = [] then (Inr final, cl2, h2)
      else send_event env hv room ''m.room.message''
        \<lparr>mc_msgtype = ''m.text'', mc_body = out_body msg, mc_url = [], mc_mimetype = []\<rparr> cl2 h2)
      = (Inr (rcp_ref rcp), cl', h')" and rcp: "rcp_resolution rcp = Resolution_Immediate" "rcp_ref rcp \<noteq> []"
    using sent by (auto simp: matrix_send_def split: prod.splits sum.splits if_splits)
  obtain evs0 where e0: "view h1 room = view h room @ evs0" "list_all stateful evs0"
    "map_of (mx_rooms cl1) (addr_value (out_to msg)) = Some room"
    using room_for_view [OF laws steps(1)] by blast
  obtain evs where e1: "view h2 = (view h1)(room := view h1 room @ evs)" "list_all stateful evs"
    "map re_type evs = map (\<lambda>a. file_message_type (oat_mime a)) (out_attachments msg)"
    "final = (if out_attachments msg = [] then [] else re_id (last evs))" "mx_rooms cl2 = mx_rooms cl1"
    using send_attachments_view [OF laws steps(2)] by blast
  have len: "length (filter ?P evs) = length (out_attachments msg)"
  proof -
    have "length evs = length (out_attachments msg)" using e1(3) by (metis length_map)
    moreover have "\<forall>ev \<in> set evs. re_type ev \<in> {''m.image'', ''m.file''}"
    proof
      fix ev assume "ev \<in> set evs"
      then have "re_type ev \<in> set (map (\<lambda>a. file_message_type (oat_mime a)) (out_attachments msg))"
        unfolding e1(3) [symmetric] by simp
      then obtain m where "re_type ev = file_message_type m" by auto
      then show "re_type ev \<in> {''m.image'', ''m.file''}" using file_message_type_cases [of m] by simp
    qed
    ultimately show ?thesis by (simp only: filter_True)
  qed
  have quiet: "concat (map (\<lambda>ev. if re_sender ev = u then [] else ingest_event fetch rv p ev) xs) = []"
    if "list_all stateful xs" for u p xs
    using that by (induction xs) (simp_all add: ingest_stateful)
  note quiets = quiet [OF e0(2), of "mx_user rcl" "mx_user cl"] quiet [OF e1(2), of "mx_user rcl" "mx_user cl"]
  show ?thesis
  proof (cases "out_body msg = []")
    case True
    then have fin: "final = rcp_ref rcp" "h' = h2" "cl' = cl2" using steps(3) by auto
    have ne: "evs \<noteq> []" and final: "rcp_ref rcp = re_id (last evs)"
      using e1(3,4) fin rcp(2) by (cases evs; simp split: if_splits)+
    have room': "map_of (mx_rooms cl') (addr_value (out_to msg)) = Some room" using fin e0(3) e1(5) by simp
    have grown: "view h' room = view h room @ (evs0 @ evs)" using fin e0(1) e1(1) by simp
    have count: "length (filter ?P (evs0 @ evs)) \<ge> length (out_attachments msg)"
      unfolding filter_append length_append len by simp
    have calls: "ingest_room fetch rv rcl (room, \<lparr>rs_timeline = evs0 @ evs, rs_ephemeral = []\<rparr>) = []"
      by (simp add: ingest_room_def ingest_receipts_def dm [OF room'] quiets)
    show ?thesis
      by (intro exI [of _ room] exI [of _ "evs0 @ evs"] exI [of _ 0] conjI room' grown rcp(1) count)
        (use ne final calls True in simp_all)
  next
    case False
    then have put: "send_event env hv room ''m.room.message''
        \<lparr>mc_msgtype = ''m.text'', mc_body = out_body msg, mc_url = [], mc_mimetype = []\<rparr> cl2 h2
      = (Inr (rcp_ref rcp), cl', h')" using steps(3) by simp
    obtain ts where ts: "view h' = (view h2)(room := view h2 room @
      [\<lparr>re_type = ''m.room.message'', re_sender = mx_user cl, re_id = rcp_ref rcp, re_ts = ts,
        re_content = \<lparr>mc_msgtype = ''m.text'', mc_body = out_body msg, mc_url = [], mc_mimetype = []\<rparr>\<rparr>])"
      using send_event_view(1) [OF laws put] by blast
    let ?ev = "\<lparr>re_type = ''m.room.message'', re_sender = mx_user cl, re_id = rcp_ref rcp, re_ts = ts,
        re_content = \<lparr>mc_msgtype = ''m.text'', mc_body = out_body msg, mc_url = [], mc_mimetype = []\<rparr>\<rparr>"
    have room': "map_of (mx_rooms cl') (addr_value (out_to msg)) = Some room"
      using send_event_view(3) [OF laws put] e1(5) e0(3) by simp
    have grown: "view h' room = view h room @ (evs0 @ evs @ [?ev])" using ts e0(1) e1(1) by simp
    have count: "length (filter ?P (evs0 @ evs @ [?ev])) \<ge> length (out_attachments msg)"
      unfolding filter_append length_append len by simp
    have calls: "ingest_room fetch rv rcl (room, \<lparr>rs_timeline = evs0 @ evs @ [?ev], rs_ephemeral = []\<rparr>) =
      [Deliver (inbound_of rv from (out_body msg) [] ts)]"
      using other by (simp add: ingest_room_def ingest_receipts_def dm [OF room'] quiets) (simp add: ingest_event_def)
    show ?thesis
      by (intro exI [of _ room] exI [of _ "evs0 @ evs @ [?ev]"] exI [of _ ts] conjI room' grown rcp(1) count)
        (use calls False in simp_all)
  qed
qed

section \<open>Instances\<close>

text \<open>A homeserver that appends every event and names it after its transaction.\<close>

type_synonym toy_rooms = "(string \<times> room_event list) list"

definition toy_timeline :: "toy_rooms \<Rightarrow> string \<Rightarrow> room_event list" where
  "toy_timeline h room = (case map_of h room of Some evs \<Rightarrow> evs | None \<Rightarrow> [])"

definition toy_homeserver :: "string \<Rightarrow> toy_rooms homeserver" where
  "toy_homeserver user =
     \<lparr>hv_create = (\<lambda>peer h. (Decoded (CHR ''!'' # peer), h)),
      hv_direct = (\<lambda>dm h. (Decoded (), h)),
      hv_upload = (\<lambda>name ty bytes h. (Decoded ''mxc://s/m'', h)),
      hv_put = (\<lambda>room ty txn c h. (Decoded txn,
        (room, toy_timeline h room @
          [\<lparr>re_type = ty, re_sender = user, re_id = txn, re_ts = 9, re_content = c\<rparr>]) # h)),
      hv_download = (\<lambda>server media h. Decoded ([], [])),
      hv_whoami = (\<lambda>h. Decoded user)\<rparr>"

lemma toy_homeserver_laws: "homeserver_laws (toy_homeserver user) user toy_timeline"
  by (auto simp: homeserver_laws_def toy_homeserver_def toy_timeline_def fun_eq_iff)

definition toy_env :: matrix_env where
  "toy_env = \<lparr>ev_text = id, ev_file = (\<lambda>_. Some ''pixels''), ev_mime = (\<lambda>_. []), ev_clock = (\<lambda>_. 5)\<rparr>"

definition toy_message :: outbound_message where
  "toy_message =
     \<lparr>out_owner = Extension ''1001'', out_to = \<lparr>addr_network = Network_Matrix, addr_value = ''@bob:example.org''\<rparr>,
      out_body = ''hi'', out_attachments = [\<lparr>oat_name = ''cat.png'', oat_mime = ''image/png'', oat_path = ''/c''\<rparr>]\<rparr>"

theorem matrix_text_only_witness:
  "\<exists>new ts. length (filter (\<lambda>ev. re_type ev \<in> {''m.image'', ''m.file''}) new) \<ge> 1 \<and>
     ingest_room (\<lambda>_. Inr ([], [])) \<lparr>rv_owner = Extension ''2002''\<rparr>
       ((new_matrix ''@bob:example.org'')\<lparr>mx_rooms := [(''@ada:example.org'', ''!@bob:example.org'')]\<rparr>)
       (''!@bob:example.org'', \<lparr>rs_timeline = new, rs_ephemeral = []\<rparr>) =
     [Deliver (inbound_of \<lparr>rv_owner = Extension ''2002''\<rparr>
       \<lparr>addr_network = Network_Matrix, addr_value = ''@ada:example.org''\<rparr> ''hi'' [] ts)]"
proof -
  let ?cl = "new_matrix ''@ada:example.org''"
  let ?rcl = "(new_matrix ''@bob:example.org'')\<lparr>mx_rooms := [(''@ada:example.org'', ''!@bob:example.org'')]\<rparr>"
  let ?hv = "toy_homeserver ''@ada:example.org''"
  obtain rcp cl' h' where sent: "matrix_send toy_env ?hv toy_message ?cl [] = (Inr rcp, cl', h')"
    and rooms: "mx_rooms cl' = [(''@bob:example.org'', ''!@bob:example.org'')]"
    by (simp add: matrix_send_def toy_message_def room_for_def new_matrix_def toy_homeserver_def mx_do_def
        send_attachment_def toy_env_def upload_media_def send_event_def Let_def)
  have bob: "parse_address Network_Matrix (mx_user ?cl) = Inr \<lparr>addr_network = Network_Matrix, addr_value = ''@ada:example.org''\<rparr>"
    unfolding new_matrix_def by code_simp
  have laws: "homeserver_laws ?hv (mx_user ?cl) toy_timeline"
    by (simp add: new_matrix_def toy_homeserver_laws)
  have dm: "peer_rooms ?rcl room = Some (mx_user ?cl)"
    if "map_of (mx_rooms cl') (addr_value (out_to toy_message)) = Some room" for room
    using that by (simp add: rooms toy_message_def peer_rooms_def new_matrix_def split: if_splits)
  from matrix_text_only [OF laws sent _ bob dm, of "\<lambda>_. Inr ([], [])" "\<lparr>rv_owner = Extension ''2002''\<rparr>"]
  show ?thesis by (auto simp: rooms toy_message_def new_matrix_def)
qed

end
