(* ===== verification/Chat_Receipts.thy ===== *)
theory Chat_Receipts
  imports Matrix
begin

text \<open>
  The receipts of the chat networks, applied to the store: Signal's delivery and read
  receipts (\<^verbatim>\<open>internal/signal/receiver.go\<close>) and Matrix's read markers
  (\<^verbatim>\<open>internal/matrix/receiver.go\<close>) through the messaging service, on the contract
  \<open>delivery_log\<close> of the message store.
\<close>

section \<open>Receipts of both networks\<close>

text \<open>The references that a list of calls marks, and what a mark does to the row it names.\<close>

definition mark_refs :: "chat_call list \<Rightarrow> string set" where
  "mark_refs calls = {ref. Verdict_Call ref \<in> set calls \<or> Read_Mark ref \<in> set calls}"

definition marked :: "string set \<Rightarrow> delivery \<Rightarrow> delivery" where
  "marked refs d =
     (if dlv_ref d \<in> refs then d\<lparr>dlv_status := Delivered, dlv_fkind := Failure_None, dlv_fdetail := []\<rparr> else d)"

lemma mark_store:
  assumes "cc_faults cc = no_faults" "c = Verdict_Call ref \<or> c = Read_Mark ref"
  shows "wd_store (snd (chat_apply svc cc c w)) =
    snd (apply_verdict (message_by_provider_ref no_faults) (update_outbound_status no_faults) ref
      (Verdict_Delivered, []) (wd_store w))"
  using assms receipt_store [of ref Verdict_Delivered "[]" w]
  by (auto simp: chat_apply_def remote_read_def split: prod.splits sum.splits)

lemma refs_unique:
  assumes "store_inv st" "row_delivery st i = Some d" "row_delivery st j = Some e" "dlv_ref e = dlv_ref d" "dlv_ref d \<noteq> []"
  shows "i = j"
proof -
  obtain r where r: "r \<in> set (st_messages st)" "outbound_row i r" "dlv_ref d = mr_ref r"
    using assms(2) by (auto elim: row_delivery_Some)
  obtain q where q: "q \<in> set (st_messages st)" "outbound_row j q" "dlv_ref e = mr_ref q"
    using assms(3) by (auto elim: row_delivery_Some)
  have "distinct (map mr_ref (filter (\<lambda>m. mr_ref m \<noteq> []) (st_messages st)))"
    using assms(1) by (simp add: store_inv_def)
  then have "inj_on mr_ref (set (filter (\<lambda>m. mr_ref m \<noteq> []) (st_messages st)))" by (simp add: distinct_map)
  then have "r = q" using r q assms(4,5) by (auto dest: inj_onD)
  then show ?thesis using r(2) q(2) by (simp add: outbound_row_def)
qed

lemma mark_row:
  assumes inv: "store_inv st" and ref: "ref \<noteq> []"
    and st': "st' = snd (apply_verdict (message_by_provider_ref no_faults) (update_outbound_status no_faults) ref
      (Verdict_Delivered, []) st)"
  shows "store_inv st' \<and> row_delivery st' = (\<lambda>i. map_option (marked {ref}) (row_delivery st i))"
proof (cases "\<exists>i d. row_delivery st i = Some d \<and> dlv_ref d = ref")
  case True
  then obtain i d where d: "row_delivery st i = Some d" "dlv_ref d = ref" by blast
  have "delivery_run d [Provider_Verdict Verdict_Delivered []] = marked {ref} d"
    using row_delivery_status [OF inv d(1)] d(2)
    by (simp add: delivery_run_def advance_verdict marked_def)
  then have st: "store_inv st'" "row_delivery st' = (row_delivery st)(i \<mapsto> marked {ref} d)"
    using msgs.verdict_run [OF inv d ref row_delivery_status [OF inv d(1)], of "[(Verdict_Delivered, [])]"]
    by (simp_all add: st')
  have "marked {ref} e = e" if "row_delivery st j = Some e" "j \<noteq> i" for j e
    using refs_unique [OF inv d(1) that(1)] d(2) ref that(2) by (auto simp: marked_def)
  then have "row_delivery st' = (\<lambda>i. map_option (marked {ref}) (row_delivery st i))"
    unfolding st(2) using d(1) by (auto simp: fun_eq_iff option.map_id0 split: option.split)
      (metis option.exhaust option.simps(8,9))
  then show ?thesis using st(1) by simp
next
  case False
  have "select_one (\<lambda>r. mr_ref r = ref \<and> mr_direction r = direction_string Outbound) (st_messages st) = None"
    unfolding select_one_None
  proof (intro ballI notI)
    fix r assume "r \<in> set (st_messages st)" "mr_ref r = ref \<and> mr_direction r = direction_string Outbound"
    then have "select_one (outbound_row (mr_id r)) (st_messages st) = Some r" "mr_ref r = ref"
      using outbound_unique [OF inv, of r "mr_id r"] by (simp_all add: outbound_row_def)
    then obtain d where "row_delivery st (mr_id r) = Some d" "dlv_ref d = ref"
      by (auto simp: row_delivery_def)
    then show False using False by blast
  qed
  then have "st' = st" by (simp add: st' apply_verdict_def message_by_provider_ref_def no_faults_simp)
  moreover have "marked {ref} e = e" if "row_delivery st j = Some e" for j e
    using that False by (auto simp: marked_def)
  ultimately show ?thesis using inv by (auto simp: fun_eq_iff) (metis not_None_eq option.simps(8,9))
qed

lemma marked_both: "marked A (marked B d) = marked (A \<union> B) d"
  by (simp add: marked_def)

lemma mark_all:
  assumes "\<forall>cc \<in> set ccs. cc_faults cc = no_faults" "length calls \<le> length ccs"
    and "\<forall>c \<in> set calls. \<exists>ref. ref \<noteq> [] \<and> (c = Verdict_Call ref \<or> c = Read_Mark ref)"
    and "store_inv (wd_store w)"
  shows "store_inv (wd_store (chat_apply_all svc ccs calls w)) \<and>
    row_delivery (wd_store (chat_apply_all svc ccs calls w)) =
      (\<lambda>i. map_option (marked (mark_refs calls)) (row_delivery (wd_store w) i))"
  using assms
proof (induction calls arbitrary: ccs w)
  case Nil
  then show ?case by (cases ccs) (simp_all add: mark_refs_def marked_def option.map_ident)
next
  case (Cons c calls)
  then obtain cc ccs' where ccs: "ccs = cc # ccs'" by (cases ccs) auto
  obtain ref where ref: "ref \<noteq> []" "c = Verdict_Call ref \<or> c = Read_Mark ref" using Cons.prems(3) by auto
  have cc: "cc_faults cc = no_faults" using Cons.prems(1) ccs by simp
  let ?w = "snd (chat_apply svc cc c w)"
  from mark_row [OF Cons.prems(4) ref(1) mark_store [OF cc ref(2), of svc w]]
  have one: "store_inv (wd_store ?w)" "row_delivery (wd_store ?w) = (\<lambda>i. map_option (marked {ref}) (row_delivery (wd_store w) i))"
    by simp_all
  have "mark_refs calls \<union> {ref} = mark_refs (c # calls)" using ref(2) by (auto simp: mark_refs_def)
  then have "map_option (marked (mark_refs calls)) (map_option (marked {ref}) x) = map_option (marked (mark_refs (c # calls))) x" for x
    by (simp add: option.map_comp comp_def marked_both)
  moreover have "store_inv (wd_store (chat_apply_all svc ccs' calls ?w)) \<and>
    row_delivery (wd_store (chat_apply_all svc ccs' calls ?w)) =
      (\<lambda>i. map_option (marked (mark_refs calls)) (row_delivery (wd_store ?w) i))"
    by (rule Cons.IH) (use Cons.prems ccs one(1) in auto)
  ultimately show ?case unfolding ccs one(2) by (simp add: one(2))
qed

lemma receipt_marks:
  "mark_refs (handle_receipt r) =
     (if sr_delivery r \<or> sr_read r then {int_decimal ts | ts. ts \<in> set (sr_timestamps r) \<and> int_decimal ts \<noteq> ''0''} else {})"
  by (auto simp: mark_refs_def handle_receipt_def receipt_calls_set)

lemma read_marks:
  "mark_refs (ingest_receipts self evs) =
     {event. \<exists>c by_type. (''m.receipt'', Some c) \<in> set evs \<and> (event, by_type) \<in> set c \<and>
        (\<exists>reader \<in> set (readers_of by_type). reader \<noteq> self)}"
  by (fastforce simp: mark_refs_def ingest_receipts_def split: option.splits if_splits)

text \<open>
  Receipts of the chat networks settle what they name and nothing else. Whatever list of
  verdict and read calls the receivers make over a sound store with no failing statement,
  every outbound row whose reference is named ends delivered with its failure cleared, every
  other row keeps its delivery state. The calls of a Signal receipt name its non-zero
  timestamps if it tells of delivery or reading; those of Matrix receipts name exactly the
  events that somebody other than the client's own user has read.
\<close>

theorem chat_receipts:
  assumes "\<forall>cc \<in> set ccs. cc_faults cc = no_faults" "length calls \<le> length ccs"
    and "\<forall>c \<in> set calls. \<exists>ref. ref \<noteq> [] \<and> (c = Verdict_Call ref \<or> c = Read_Mark ref)"
    and "store_inv (wd_store w)"
  shows "row_delivery (wd_store (chat_apply_all svc ccs calls w)) =
      (\<lambda>i. map_option (marked (mark_refs calls)) (row_delivery (wd_store w) i)) \<and>
    store_inv (wd_store (chat_apply_all svc ccs calls w)) \<and>
    (calls = handle_receipt r \<longrightarrow> mark_refs calls =
       (if sr_delivery r \<or> sr_read r
        then {int_decimal ts | ts. ts \<in> set (sr_timestamps r) \<and> int_decimal ts \<noteq> ''0''} else {})) \<and>
    (calls = ingest_receipts self evs \<longrightarrow> mark_refs calls =
       {event. \<exists>c by_type. (''m.receipt'', Some c) \<in> set evs \<and> (event, by_type) \<in> set c \<and>
          (\<exists>reader \<in> set (readers_of by_type). reader \<noteq> self)})"
  using mark_all [OF assms] receipt_marks read_marks by simp

theorem chat_receipts_witness:
  "store_inv (wd_store (chat_apply_all sample_service
     [\<lparr>cc_faults = no_faults, cc_race = id, cc_mint = sample_mint, cc_clock = 0\<rparr>]
     (handle_receipt \<lparr>sr_delivery = True, sr_read = False, sr_timestamps = [7]\<rparr>) sample_world))"
proof -
  let ?cc = "\<lparr>cc_faults = no_faults, cc_race = id, cc_mint = sample_mint, cc_clock = 0\<rparr>"
  let ?r = "\<lparr>sr_delivery = True, sr_read = False, sr_timestamps = [7]\<rparr>"
  have "int_decimal 7 = ''7''" by code_simp
  then have calls: "handle_receipt ?r = [Verdict_Call ''7'']" by (simp add: handle_receipt_def)
  have "store_inv (wd_store sample_world)" by (simp add: sample_world_def sample_inv)
  from chat_receipts [of "[?cc]" "handle_receipt ?r" sample_world, OF _ _ _ this]
  show ?thesis unfolding calls by simp
qed

end
