(* ===== verification/Disposition.thy ===== *)
theory Disposition
  imports Prelude
begin

text \<open>
  What a call ended as, \<^verbatim>\<open>internal/domain/disposition.go\<close>, and the lifecycle states of
  the post-call review, \<^verbatim>\<open>internal/domain/callreview.go\<close>.
\<close>

datatype disposition =
    Disp_Answered | Disp_Missed | Disp_Voicemail | Disp_IVR | Disp_Failed | Disp_Unknown

fun disposition_string :: "disposition \<Rightarrow> string" where
  "disposition_string Disp_Answered = ''answered''"
| "disposition_string Disp_Missed = ''missed''"
| "disposition_string Disp_Voicemail = ''voicemail''"
| "disposition_string Disp_IVR = ''ivr''"
| "disposition_string Disp_Failed = ''failed''"
| "disposition_string Disp_Unknown = ''unknown''"

definition parse_disposition :: "string \<Rightarrow> err + disposition" where
  "parse_disposition raw =
     (if raw = ''answered'' then Inr Disp_Answered
      else if raw = ''missed'' then Inr Disp_Missed
      else if raw = ''voicemail'' then Inr Disp_Voicemail
      else if raw = ''ivr'' then Inr Disp_IVR
      else if raw = ''failed'' then Inr Disp_Failed
      else if raw = ''unknown'' then Inr Disp_Unknown
      else Inl (Coded Rejection ''domain.disposition''))"

record call_end_fact =
  cef_established :: bool
  cef_media_time :: bool

text \<open>The machine table; a fact without a row reads as \<open>None\<close> (the empty string in Go).\<close>

definition end_fact_dispositions :: "(call_end_fact \<times> disposition) list" where
  "end_fact_dispositions =
     [(\<lparr>cef_established = False, cef_media_time = False\<rparr>, Disp_Missed),
      (\<lparr>cef_established = False, cef_media_time = True\<rparr>, Disp_Unknown),
      (\<lparr>cef_established = True, cef_media_time = False\<rparr>, Disp_Unknown),
      (\<lparr>cef_established = True, cef_media_time = True\<rparr>, Disp_Unknown)]"

definition disposition_from_end :: "bool \<Rightarrow> int \<Rightarrow> disposition option" where
  "disposition_from_end established seconds =
     map_of end_fact_dispositions
       \<lparr>cef_established = established, cef_media_time = seconds > 0\<rparr>"

definition legacy_outcome_dispositions :: "(string \<times> disposition) list" where
  "legacy_outcome_dispositions =
     [(''answered'', Disp_Unknown), (''missed'', Disp_Missed), ([], Disp_Unknown)]"

definition legacy_outcome_disposition :: "string \<Rightarrow> disposition" where
  "legacy_outcome_disposition outcome =
     (case map_of legacy_outcome_dispositions outcome of Some d \<Rightarrow> d | None \<Rightarrow> Disp_Unknown)"

definition answered_class :: "disposition \<Rightarrow> bool" where
  "answered_class d \<longleftrightarrow> d = Disp_Answered"

datatype review_state = Review_Pending | Review_Present | Review_Failed

fun review_string :: "review_state \<Rightarrow> string" where
  "review_string Review_Pending = ''pending''"
| "review_string Review_Present = ''present''"
| "review_string Review_Failed = ''failed''"

lemma parse_disposition_string [simp]: "parse_disposition (disposition_string d) = Inr d"
  by (cases d) (simp_all add: parse_disposition_def)

text \<open>
  No automated path may mint a human answer: the table of observed call ends is total
  and answers missed exactly for a call that never carried media and never counted time,
  and neither an observed end nor any legacy outcome text whatsoever lands in the
  answered class.
\<close>

theorem no_minted_answer:
  "\<exists>d. disposition_from_end established seconds = Some d \<and> \<not> answered_class d \<and>
     (d = Disp_Missed \<longleftrightarrow> \<not> established \<and> seconds \<le> 0) \<and>
     \<not> answered_class (legacy_outcome_disposition outcome)"
  by (cases established)
    (auto simp: disposition_from_end_def end_fact_dispositions_def answered_class_def
      legacy_outcome_disposition_def legacy_outcome_dispositions_def)

end
