(* ===== verification/Call_Slots.thy ===== *)
theory Call_Slots
  imports Engine Disposition
begin

text \<open>
  The per-call slots of an extension, over an engine: post-call notes and verdicts
  (\<^verbatim>\<open>internal/readmodels/callnotes.go\<close>), automatic reviews
  (\<^verbatim>\<open>internal/readmodels/callreviews.go\<close>), and the registered push devices
  (\<^verbatim>\<open>internal/readmodels/push.go\<close>), which share the shape: a slot per pair of owner and
  call or device, a cap for new slots, rewriting always open. The clock of an operation is
  an input. \<^verbatim>\<open>domain.Disposition\<close> is a string type, and a note slot without a verdict holds
  the empty one.
\<close>

type_synonym slot_key = "string \<times> string"

section \<open>Notes\<close>

record note_view =
  nov_owner :: string
  nov_call :: string
  nov_body :: string
  nov_disposition :: string
  nov_updated :: int

definition notes_max :: nat where "notes_max = 2000"

definition notes_query :: "extension \<Rightarrow> note_view query" where
  "notes_query ext =
     \<lparr>q_filter = (\<lambda>v. nov_owner v = ext_string ext), q_sort = None, q_desc = False,
      q_limit = notes_max + 1\<rparr>"

text \<open>The fold of the \<^verbatim>\<open>CallNoteSaved\<close> fact.\<close>

definition note_fold :: "extension \<Rightarrow> string \<Rightarrow> string \<Rightarrow> string \<Rightarrow> time \<Rightarrow> note_view" where
  "note_fold ext call body disp now =
     \<lparr>nov_owner = ext_string ext, nov_call = call, nov_body = body, nov_disposition = disp,
      nov_updated = unix now\<rparr>"

definition note_get ::
  "('s, slot_key, note_view) engine \<Rightarrow> extension \<Rightarrow> string \<Rightarrow> 's \<Rightarrow> err + note_view option" where
  "note_get E ext call s =
     (case wrap_read ''readmodels.note_get'' (eng_get E (ext_string ext, call) s) of
        Inl e \<Rightarrow> Inl e
      | Inr None \<Rightarrow> Inr None
      | Inr (Some v) \<Rightarrow> if nov_owner v \<noteq> ext_string ext then Inr None else Inr (Some v))"

definition note_claim ::
  "('s, slot_key, note_view) engine \<Rightarrow> extension \<Rightarrow> string \<Rightarrow> 's \<Rightarrow> err + note_view option" where
  "note_claim E ext call s =
     (case wrap_read ''readmodels.note_save'' (eng_get E (ext_string ext, call) s) of
        Inl e \<Rightarrow> Inl e
      | Inr (Some v) \<Rightarrow> Inr (Some v)
      | Inr None \<Rightarrow>
          (case wrap_read ''readmodels.note_save'' (eng_scan E (notes_query ext) s) of
             Inl e \<Rightarrow> Inl e
           | Inr vs \<Rightarrow>
               if length vs \<ge> notes_max then Inl (Coded Conflict ''readmodels.note_list_full'')
               else Inr None))"

definition note_set ::
  "('s, slot_key, note_view) engine \<Rightarrow> time \<Rightarrow> extension \<Rightarrow> string \<Rightarrow> string \<Rightarrow> 's \<Rightarrow> (err + unit) \<times> 's" where
  "note_set E now ext call body s =
     (case note_claim E ext call s of
        Inl e \<Rightarrow> (Inl e, s)
      | Inr existing \<Rightarrow>
          wrap_write ''readmodels.note_save''
            (eng_put E (ext_string ext, call)
               (note_fold ext call body (case existing of None \<Rightarrow> [] | Some v \<Rightarrow> nov_disposition v) now) s))"

definition note_set_disposition ::
  "('s, slot_key, note_view) engine \<Rightarrow> time \<Rightarrow> extension \<Rightarrow> string \<Rightarrow> string \<Rightarrow> 's \<Rightarrow> (err + unit) \<times> 's" where
  "note_set_disposition E now ext call disp s =
     (case note_claim E ext call s of
        Inl e \<Rightarrow> (Inl e, s)
      | Inr existing \<Rightarrow>
          wrap_write ''readmodels.disposition_save''
            (eng_put E (ext_string ext, call)
               (note_fold ext call (case existing of None \<Rightarrow> [] | Some v \<Rightarrow> nov_body v) disp now) s))"

section \<open>Reviews\<close>

record review_view =
  rvv_owner :: string
  rvv_call :: string
  rvv_state :: string
  rvv_draft :: string
  rvv_text :: string
  rvv_language :: string
  rvv_confidence :: int
  rvv_updated :: int

definition reviews_max :: nat where "reviews_max = 2000"

definition reviews_query :: "extension \<Rightarrow> review_view query" where
  "reviews_query ext =
     \<lparr>q_filter = (\<lambda>v. rvv_owner v = ext_string ext), q_sort = None, q_desc = False,
      q_limit = reviews_max + 1\<rparr>"

definition review_get ::
  "('s, slot_key, review_view) engine \<Rightarrow> extension \<Rightarrow> string \<Rightarrow> 's \<Rightarrow> err + review_view option" where
  "review_get E ext call s =
     (case wrap_read ''readmodels.review_get'' (eng_get E (ext_string ext, call) s) of
        Inl e \<Rightarrow> Inl e
      | Inr None \<Rightarrow> Inr None
      | Inr (Some v) \<Rightarrow> if rvv_owner v \<noteq> ext_string ext then Inr None else Inr (Some v))"

definition review_claim ::
  "('s, slot_key, review_view) engine \<Rightarrow> extension \<Rightarrow> string \<Rightarrow> 's \<Rightarrow> err + unit" where
  "review_claim E ext call s =
     (case wrap_read ''readmodels.review_save'' (eng_get E (ext_string ext, call) s) of
        Inl e \<Rightarrow> Inl e
      | Inr (Some _) \<Rightarrow> Inr ()
      | Inr None \<Rightarrow>
          (case wrap_read ''readmodels.review_save'' (eng_scan E (reviews_query ext) s) of
             Inl e \<Rightarrow> Inl e
           | Inr vs \<Rightarrow>
               if length vs \<ge> reviews_max then Inl (Coded Rejection ''readmodels.review_list_full'')
               else Inr ()))"

definition review_set ::
  "('s, slot_key, review_view) engine \<Rightarrow> time \<Rightarrow> extension \<Rightarrow> string \<Rightarrow> review_state \<Rightarrow> string \<Rightarrow> string \<Rightarrow>
     string \<Rightarrow> int \<Rightarrow> 's \<Rightarrow> (err + unit) \<times> 's" where
  "review_set E now ext call st draft txt lang conf s =
     (case review_claim E ext call s of
        Inl e \<Rightarrow> (Inl e, s)
      | Inr _ \<Rightarrow>
          wrap_write ''readmodels.review_save''
            (eng_put E (ext_string ext, call)
               \<lparr>rvv_owner = ext_string ext, rvv_call = call, rvv_state = review_string st,
                rvv_draft = draft, rvv_text = txt, rvv_language = lang, rvv_confidence = conf,
                rvv_updated = unix now\<rparr> s))"

section \<open>Push devices\<close>

record device_view =
  dvv_owner :: string
  dvv_device :: string
  dvv_transport :: string
  dvv_token :: string
  dvv_updated :: int

definition devices_max :: nat where "devices_max = 8"

definition devices_query :: "extension \<Rightarrow> device_view query" where
  "devices_query ext =
     \<lparr>q_filter = (\<lambda>v. dvv_owner v = ext_string ext), q_sort = Some dvv_updated, q_desc = True,
      q_limit = devices_max + 1\<rparr>"

definition device_list ::
  "('s, slot_key, device_view) engine \<Rightarrow> extension \<Rightarrow> 's \<Rightarrow> err + device_view list" where
  "device_list E ext s = wrap_read ''readmodels.push_list'' (eng_scan E (devices_query ext) s)"

definition device_room ::
  "('s, slot_key, device_view) engine \<Rightarrow> extension \<Rightarrow> 's \<Rightarrow> err + unit" where
  "device_room E ext s =
     (case device_list E ext s of
        Inl e \<Rightarrow> Inl e
      | Inr vs \<Rightarrow>
          if length vs \<ge> devices_max then Inl (Coded Rejection ''readmodels.push_list_full'')
          else Inr ())"

definition device_claim ::
  "('s, slot_key, device_view) engine \<Rightarrow> extension \<Rightarrow> string \<Rightarrow> 's \<Rightarrow> err + unit" where
  "device_claim E ext dev s =
     (case wrap_read ''readmodels.push_upsert'' (eng_get E (ext_string ext, dev) s) of
        Inl e \<Rightarrow> Inl e
      | Inr (Some _) \<Rightarrow> Inr ()
      | Inr None \<Rightarrow> device_room E ext s)"

definition device_upsert ::
  "('s, slot_key, device_view) engine \<Rightarrow> time \<Rightarrow> extension \<Rightarrow> string \<Rightarrow> string \<Rightarrow> string \<Rightarrow> 's \<Rightarrow>
     (err + unit) \<times> 's" where
  "device_upsert E now ext dev transport token s =
     (case device_claim E ext dev s of
        Inl e \<Rightarrow> (Inl e, s)
      | Inr _ \<Rightarrow>
          wrap_write ''readmodels.push_upsert''
            (eng_put E (ext_string ext, dev)
               \<lparr>dvv_owner = ext_string ext, dvv_device = dev, dvv_transport = transport,
                dvv_token = token, dvv_updated = now\<rparr> s))"

definition device_remove ::
  "('s, slot_key, device_view) engine \<Rightarrow> extension \<Rightarrow> string \<Rightarrow> 's \<Rightarrow> (err + unit) \<times> 's" where
  "device_remove E ext dev s =
     (case wrap_read ''readmodels.push_remove'' (eng_get E (ext_string ext, dev) s) of
        Inl e \<Rightarrow> (Inl e, s)
      | Inr None \<Rightarrow> (Inr (), s)
      | Inr (Some _) \<Rightarrow> wrap_write ''readmodels.push_remove'' (eng_del E (ext_string ext, dev) s))"

section \<open>Claims\<close>

lemma note_claim_ok:
  assumes "engine_laws E view" "note_claim E ext call s = Inr old"
  shows "old = view s (ext_string ext, call) \<and>
    (old = None \<longrightarrow> card (held nov_owner (view s) (ext_string ext)) < notes_max)"
proof (cases "eng_get E (ext_string ext, call) s")
  case (Inl e)
  then show ?thesis using assms(2) by (simp add: note_claim_def)
next
  case (Inr got)
  note got = engine_get [OF assms(1) Inr]
  show ?thesis
  proof (cases got)
    case (Some v)
    then show ?thesis using assms(2) Inr got by (auto simp: note_claim_def)
  next
    case None
    then obtain vs where "eng_scan E (notes_query ext) s = Inr vs" "length vs < notes_max" "old = None"
      using assms(2) Inr by (auto simp: note_claim_def split: sum.splits if_splits)
    with full_scan [OF assms(1) this(1), of nov_owner "ext_string ext" notes_max] got None
    show ?thesis by (simp add: notes_query_def)
  qed
qed

lemma review_claim_ok:
  assumes "engine_laws E view" "review_claim E ext call s = Inr u"
  shows "view s (ext_string ext, call) = None \<longrightarrow>
    card (held rvv_owner (view s) (ext_string ext)) < reviews_max"
proof (cases "eng_get E (ext_string ext, call) s")
  case (Inl e)
  then show ?thesis using assms(2) by (simp add: review_claim_def)
next
  case (Inr got)
  note got = engine_get [OF assms(1) Inr]
  show ?thesis
  proof (cases got)
    case (Some v)
    then show ?thesis using got by simp
  next
    case None
    then obtain vs where "eng_scan E (reviews_query ext) s = Inr vs" "length vs < reviews_max"
      using assms(2) Inr by (auto simp: review_claim_def split: sum.splits if_splits)
    with full_scan [OF assms(1) this(1), of rvv_owner "ext_string ext" reviews_max]
    show ?thesis by (simp add: reviews_query_def)
  qed
qed

lemma device_claim_ok:
  assumes "engine_laws E view" "device_claim E ext dev s = Inr u"
  shows "view s (ext_string ext, dev) = None \<longrightarrow>
    card (held dvv_owner (view s) (ext_string ext)) < devices_max"
proof (cases "eng_get E (ext_string ext, dev) s")
  case (Inl e)
  then show ?thesis using assms(2) by (simp add: device_claim_def)
next
  case (Inr got)
  note got = engine_get [OF assms(1) Inr]
  show ?thesis
  proof (cases got)
    case (Some v)
    then show ?thesis using got by simp
  next
    case None
    then obtain vs where "eng_scan E (devices_query ext) s = Inr vs" "length vs < devices_max"
      using assms(2) Inr by (auto simp: device_claim_def device_room_def device_list_def split: sum.splits if_splits)
    with full_scan [OF assms(1) this(1), of dvv_owner "ext_string ext" devices_max]
    show ?thesis by (simp add: devices_query_def)
  qed
qed

section \<open>The caps\<close>

inductive note_step ::
  "('s, slot_key, note_view) engine \<Rightarrow> ('s \<Rightarrow> slot_key \<Rightarrow> note_view option) \<Rightarrow> 's \<Rightarrow> 's \<Rightarrow> bool"
  for E view where
  body: "engine_laws E view \<Longrightarrow> note_set E now ext call body s = (r, s') \<Longrightarrow> note_step E view s s'"
| verdict: "engine_laws E view \<Longrightarrow> note_set_disposition E now ext call disp s = (r, s') \<Longrightarrow>
     note_step E view s s'"

inductive review_step ::
  "('s, slot_key, review_view) engine \<Rightarrow> ('s \<Rightarrow> slot_key \<Rightarrow> review_view option) \<Rightarrow> 's \<Rightarrow> 's \<Rightarrow> bool"
  for E view where
  review: "engine_laws E view \<Longrightarrow> review_set E now ext call st draft txt lang conf s = (r, s') \<Longrightarrow>
     review_step E view s s'"

inductive device_step ::
  "('s, slot_key, device_view) engine \<Rightarrow> ('s \<Rightarrow> slot_key \<Rightarrow> device_view option) \<Rightarrow> 's \<Rightarrow> 's \<Rightarrow> bool"
  for E view where
  upsert: "engine_laws E view \<Longrightarrow> device_upsert E now ext dev transport token s = (r, s') \<Longrightarrow>
     device_step E view s s'"
| remove: "engine_laws E view \<Longrightarrow> device_remove E ext dev s = (r, s') \<Longrightarrow> device_step E view s s'"

text \<open>A write after a claim, for all three stores.\<close>

lemma claimed_put:
  assumes "engine_laws E view" "wrap_write code (eng_put E k v s) = (r, s')"
    and "rows_ok (own_keyed own) (view s)" "own v = fst k"
    and "view s k = None \<longrightarrow> card (held own (view s) (fst k)) < cap"
  shows "slot_move own cap (view s) (view s') \<and> rows_ok (own_keyed own) (view s')"
proof -
  have own: "own_keyed own k v" using assms(4) by (simp add: own_keyed_def)
  from put_wrapped [OF assms(1,2)] show ?thesis
    using keyed_move [OF assms(3) own assms(5)] rows_ok_put [OF assms(3) own] slot_move.stay assms(3)
    by auto
qed

lemma note_set_move:
  assumes "engine_laws E view" "rows_ok (own_keyed nov_owner) (view s)"
    and "note_set E now ext call body s = (r, s') \<or> note_set_disposition E now ext call body s = (r, s')"
  shows "slot_move nov_owner notes_max (view s) (view s') \<and> rows_ok (own_keyed nov_owner) (view s')"
proof (cases "note_claim E ext call s")
  case (Inl e)
  then have "s' = s" using assms(3) by (auto simp: note_set_def note_set_disposition_def)
  then show ?thesis using assms(2) by (simp add: slot_move.stay)
next
  case (Inr old)
  have room: "view s (ext_string ext, call) = None \<longrightarrow>
      card (held nov_owner (view s) (fst (ext_string ext, call))) < notes_max"
    using note_claim_ok [OF assms(1) Inr] by simp
  obtain code v where "wrap_write code (eng_put E (ext_string ext, call) v s) = (r, s')"
    "nov_owner v = fst (ext_string ext, call)"
    using assms(3) Inr
    by (auto simp: note_set_def note_set_disposition_def note_fold_def simp del: wrap_write_eq)
  from claimed_put [OF assms(1) this(1) assms(2) this(2) room] show ?thesis .
qed

lemma note_step_moves:
  "note_step E view s s' \<Longrightarrow> rows_ok (own_keyed nov_owner) (view s) \<Longrightarrow>
     slot_move nov_owner notes_max (view s) (view s') \<and> rows_ok (own_keyed nov_owner) (view s')"
  by (elim note_step.cases) (metis note_set_move)+

lemma review_step_moves:
  assumes "review_step E view s s'" "rows_ok (own_keyed rvv_owner) (view s)"
  shows "slot_move rvv_owner reviews_max (view s) (view s') \<and> rows_ok (own_keyed rvv_owner) (view s')"
  using assms(1)
proof cases
  case (review now ext call st draft body lang conf r)
  show ?thesis
  proof (cases "review_claim E ext call s")
    case (Inl e)
    then have "s' = s" using review(2) by (auto simp: review_set_def)
    then show ?thesis using assms(2) by (simp add: slot_move.stay)
  next
    case (Inr u)
    then obtain v where "wrap_write ''readmodels.review_save'' (eng_put E (ext_string ext, call) v s) = (r, s')"
      "rvv_owner v = fst (ext_string ext, call)"
      using review(2) by (auto simp: review_set_def simp del: wrap_write_eq)
    from claimed_put [OF review(1) this(1) assms(2) this(2)] review_claim_ok [OF review(1) Inr]
    show ?thesis by simp
  qed
qed

lemma device_step_moves:
  assumes "device_step E view s s'" "rows_ok (own_keyed dvv_owner) (view s)"
  shows "slot_move dvv_owner devices_max (view s) (view s') \<and> rows_ok (own_keyed dvv_owner) (view s')"
  using assms(1)
proof cases
  case (upsert now ext dev transport token r)
  show ?thesis
  proof (cases "device_claim E ext dev s")
    case (Inl e)
    then have "s' = s" using upsert(2) by (auto simp: device_upsert_def)
    then show ?thesis using assms(2) by (simp add: slot_move.stay)
  next
    case (Inr u)
    then obtain v where "wrap_write ''readmodels.push_upsert'' (eng_put E (ext_string ext, dev) v s) = (r, s')"
      "dvv_owner v = fst (ext_string ext, dev)"
      using upsert(2) by (auto simp: device_upsert_def simp del: wrap_write_eq)
    from claimed_put [OF upsert(1) this(1) assms(2) this(2)] device_claim_ok [OF upsert(1) Inr]
    show ?thesis by simp
  qed
next
  case (remove ext dev r)
  have "view s' = view s \<or> view s' = (view s)((ext_string ext, dev) := None)"
    using remove(2) del_wrapped [OF remove(1), of "''readmodels.push_remove''" "(ext_string ext, dev)" s r s']
    by (auto simp: device_remove_def split: sum.splits option.splits)
  then show ?thesis using assms(2) by (auto intro: slot_move.intros rows_ok_drop)
qed

interpretation call_notes: capped_slots nov_owner notes_max view "rows_ok (own_keyed nov_owner)" "note_step E view"
  for E view
  by unfold_locales (auto dest: note_step_moves)

interpretation call_reviews: capped_slots rvv_owner reviews_max view "rows_ok (own_keyed rvv_owner)" "review_step E view"
  for E view
  by unfold_locales (auto dest: review_step_moves)

interpretation devices: capped_slots dvv_owner devices_max view "rows_ok (own_keyed dvv_owner)" "device_step E view"
  for E view
  by unfold_locales (auto dest: device_step_moves)

lemma capped_empty [simp]: "within_cap own cap Map.empty"
  by (simp add: within_cap_def held_def matching_def)

text \<open>
  In every run of a store from the empty collection, whatever engine calls fail, an
  extension holds at most 2000 noted calls, 2000 reviewed calls and 8 push devices, and the
  owner-scoped reads only ever meet rows of that owner.
\<close>

theorem slot_caps:
  "((note_step N nview)\<^sup>*\<^sup>* n0 n \<and> nview n0 = Map.empty \<longrightarrow>
      within_cap nov_owner 2000 (nview n) \<and> rows_ok (own_keyed nov_owner) (nview n)) \<and>
    ((review_step R rview)\<^sup>*\<^sup>* r0 r \<and> rview r0 = Map.empty \<longrightarrow>
      within_cap rvv_owner 2000 (rview r) \<and> rows_ok (own_keyed rvv_owner) (rview r)) \<and>
    ((device_step D dview)\<^sup>*\<^sup>* d0 d \<and> dview d0 = Map.empty \<longrightarrow>
      within_cap dvv_owner 8 (dview d) \<and> rows_ok (own_keyed dvv_owner) (dview d))"
  using call_notes.run_capped [of N nview n0 n] call_reviews.run_capped [of R rview r0 r]
    devices.run_capped [of D dview d0 d]
  by (simp_all add: notes_max_def reviews_max_def devices_max_def)

section \<open>A note slot is two registers\<close>

text \<open>
  The slot of a call holds the last body and the last verdict independently: the abstract
  slot is a pair of registers, and each operation writes one of them.
\<close>

datatype note_op = Write_Body string | Write_Verdict string

definition note_apply ::
  "('s, slot_key, note_view) engine \<Rightarrow> extension \<times> string \<times> note_op \<times> time \<Rightarrow> 's \<Rightarrow> (err + unit) \<times> 's" where
  "note_apply E = (\<lambda>(ext, call, a, now) s.
     case a of
       Write_Body body \<Rightarrow> note_set E now ext call body s
     | Write_Verdict disp \<Rightarrow> note_set_disposition E now ext call disp s)"

text \<open>A run in which every operation succeeds.\<close>

fun note_run ::
  "('s, slot_key, note_view) engine \<Rightarrow> (extension \<times> string \<times> note_op \<times> time) list \<Rightarrow> 's \<Rightarrow> 's option" where
  "note_run E [] s = Some s"
| "note_run E (a # as) s =
     (case note_apply E a s of (Inl _, _) \<Rightarrow> None | (Inr _, s') \<Rightarrow> note_run E as s')"

definition register :: "string \<times> string \<Rightarrow> note_op \<Rightarrow> string \<times> string" where
  "register p a = (case a of Write_Body b \<Rightarrow> (b, snd p) | Write_Verdict d \<Rightarrow> (fst p, d))"

definition registers :: "note_view option \<Rightarrow> string \<times> string" where
  "registers slot = (case slot of None \<Rightarrow> ([], []) | Some v \<Rightarrow> (nov_body v, nov_disposition v))"

text \<open>The operations of a run that concern one slot.\<close>

definition slot_ops :: "slot_key \<Rightarrow> (extension \<times> string \<times> note_op \<times> time) list \<Rightarrow> note_op list" where
  "slot_ops k as = map (\<lambda>(_, _, a, _). a) (filter (\<lambda>(ext, call, _). (ext_string ext, call) = k) as)"

lemma note_apply_registers:
  assumes "engine_laws E view" "note_apply E (ext, call, a, now) s = (Inr u, s')"
  shows "registers (view s' k) =
    (if k = (ext_string ext, call) then register (registers (view s k)) a else registers (view s k))"
proof -
  let ?k = "(ext_string ext, call)"
  obtain old where claim: "note_claim E ext call s = Inr old"
    using assms(2) by (cases "note_claim E ext call s")
      (auto simp: note_apply_def note_set_def note_set_disposition_def split: note_op.splits)
  note old = note_claim_ok [OF assms(1) claim, THEN conjunct1]
  show ?thesis
  proof (cases a)
    case (Write_Body b)
    then have "eng_put E ?k (note_fold ext call b (case old of None \<Rightarrow> [] | Some v \<Rightarrow> nov_disposition v) now) s
        = (Inr u, s')"
      using assms(2) claim by (simp add: note_apply_def note_set_def)
    from engine_put_ok [OF assms(1) this] old Write_Body
    show ?thesis by (auto simp: registers_def register_def note_fold_def split: option.splits)
  next
    case (Write_Verdict d)
    then have "eng_put E ?k (note_fold ext call (case old of None \<Rightarrow> [] | Some v \<Rightarrow> nov_body v) d now) s
        = (Inr u, s')"
      using assms(2) claim by (simp add: note_apply_def note_set_disposition_def)
    from engine_put_ok [OF assms(1) this] old Write_Verdict
    show ?thesis by (auto simp: registers_def register_def note_fold_def split: option.splits)
  qed
qed

text \<open>
  After any run of successful saves by any extensions on any calls, the slot of a call
  holds the last body and the last verdict written to that slot: a note never loses the
  verdict, a verdict never loses the note, and no other slot interferes.
\<close>

theorem note_registers:
  assumes "engine_laws E view" "note_run E as s = Some s'"
  shows "registers (view s' k) = fold (\<lambda>a p. register p a) (slot_ops k as) (registers (view s k))"
  using assms(2)
proof (induction as arbitrary: s)
  case Nil
  then show ?case by (simp add: slot_ops_def)
next
  case (Cons a as)
  obtain ext call x now where a: "a = (ext, call, x, now)" by (metis prod_cases4)
  obtain u t where step: "note_apply E a s = (Inr u, t)" "note_run E as t = Some s'"
    using Cons.prems by (auto split: prod.splits sum.splits)
  have "registers (view s' k) = fold (\<lambda>a p. register p a) (slot_ops k as) (registers (view t k))"
    by (rule Cons.IH [OF step(2)])
  with note_apply_registers [OF assms(1), of ext call x now s u t k] step(1) a
  show ?case by (auto simp: slot_ops_def)
qed

section \<open>Instances\<close>

definition sample_ops :: "(extension \<times> string \<times> note_op \<times> time) list" where
  "sample_ops =
     [(Extension ''1001'', ''c1'', Write_Verdict ''answered'', 0),
      (Extension ''1001'', ''c1'', Write_Body ''call back'', 0)]"

lemmas slot_defs = note_apply_def note_set_def note_set_disposition_def note_claim_def mem_engine_def
  wrap_read_def wrap_write_def query_run_def query_order_def notes_query_def notes_max_def note_fold_def

lemma note_sample_run: "\<exists>s'. note_run mem_engine sample_ops [] = Some s'"
  by (simp add: sample_ops_def slot_defs)

theorem note_registers_witness:
  "\<exists>s'. note_run mem_engine sample_ops [] = Some s' \<and>
     registers (map_of s' (''1001'', ''c1'')) = (''call back'', ''answered'')"
proof -
  obtain s' where run: "note_run mem_engine sample_ops [] = Some s'" using note_sample_run by blast
  from note_registers [OF mem_engine_laws run, of "(''1001'', ''c1'')"]
  have "registers (map_of s' (''1001'', ''c1'')) = (''call back'', ''answered'')"
    by (simp add: sample_ops_def slot_ops_def registers_def register_def)
  with run show ?thesis by blast
qed

lemma sample_note_run:
  "(note_step mem_engine map_of)\<^sup>*\<^sup>* [] (snd (note_set mem_engine 0 (Extension ''1001'') ''c1'' ''hi'' []))"
  by (rule r_into_rtranclp, rule note_step.body [OF mem_engine_laws]) (rule prod.collapse [symmetric])

theorem slot_caps_witness:
  "within_cap nov_owner 2000
     (map_of (snd (note_set mem_engine 0 (Extension ''1001'') ''c1'' ''hi'' [])))"
  using slot_caps [THEN conjunct1, of mem_engine map_of "[]"] sample_note_run by simp

end
