(* ===== verification/Expunge.thy ===== *)
theory Expunge
  imports Engine
begin

text \<open>
  The loop that several stores of \<^verbatim>\<open>internal/readmodels\<close> repeat around their engine: scan a
  bounded page, pick the rows that have to go, remove them one by one, and scan again
  until nothing is picked (the retention sweeps of faxes and transcripts, the trims of the
  call transcript and the agent audit, the expiry sweep of the enrollment tokens).
  \<open>expunge\<close> is the inner loop and answers the rows it attempted, the last one being the
  one that failed when it failed, and the number of removals that succeeded; \<open>expunge_loop\<close> is the outer loop, and not returning is
  the value \<open>None\<close>. It returns on every finite collection.
\<close>

fun expunge ::
  "('s, 'k, 'v, 'z) engine_scheme \<Rightarrow> string \<Rightarrow> ('v \<Rightarrow> 'k) \<Rightarrow> 'v list \<Rightarrow> 's \<Rightarrow>
     (err + unit) \<times> 'v list \<times> nat \<times> 's" where
  "expunge E code key [] s = (Inr (), [], 0, s)"
| "expunge E code key (v # vs) s =
     (case wrap_write code (eng_del E (key v) s) of
        (Inl e, s') \<Rightarrow> (Inl e, [v], 0, s')
      | (Inr _, s') \<Rightarrow>
          (case expunge E code key vs s' of (r, gone, n, s'') \<Rightarrow> (r, v # gone, Suc n, s'')))"

partial_function (option) expunge_loop ::
  "('s, 'k, 'v, 'z) engine_scheme \<Rightarrow> string \<Rightarrow> string \<Rightarrow> 'v query \<Rightarrow> ('v list \<Rightarrow> 'v list) \<Rightarrow> ('v \<Rightarrow> 'k) \<Rightarrow>
     's \<Rightarrow> ((err + unit) \<times> 'v list \<times> nat \<times> 's) option" where
  "expunge_loop E scan_code del_code q pick key s =
     (case wrap_read scan_code (eng_scan E q s) of
        Inl e \<Rightarrow> Some (Inl e, [], 0, s)
      | Inr vs \<Rightarrow>
          (if pick vs = [] then Some (Inr (), [], 0, s)
           else (case expunge E del_code key (pick vs) s of
                   (Inl e, gone, n, s') \<Rightarrow> Some (Inl e, gone, n, s')
                 | (Inr _, gone, n, s') \<Rightarrow>
                     Option.bind (expunge_loop E scan_code del_code q pick key s')
                       (\<lambda>(r, later, n', s''). Some (r, gone @ later, n + n', s'')))))"

text \<open>What the loops need of a collection: rows carry their key.\<close>

definition keyed :: "('v \<Rightarrow> 'k) \<Rightarrow> ('k \<Rightarrow> 'v option) \<Rightarrow> bool" where
  "keyed key m \<longleftrightarrow> rows_ok (\<lambda>k v. key v = k) m"

lemma keyedD: "keyed key m \<Longrightarrow> m k = Some v \<Longrightarrow> key v = k"
  by (auto simp: keyed_def dest: rows_okD)

lemma keyed_drop: "keyed key m \<Longrightarrow> keyed key (m(k := None))"
  by (simp add: keyed_def rows_ok_drop)

lemma keyed_sub: "keyed key m \<Longrightarrow> m' \<subseteq>\<^sub>m m \<Longrightarrow> keyed key m'"
  by (force simp: keyed_def rows_ok_def map_le_def)

text \<open>
  One pass only removes rows it attempted; a pass that succeeds attempted all of them, and
  none of them is left.
\<close>

lemma expunge_effect:
  assumes "engine_laws E view" "expunge E code key vs s = (r, gone, n, s')"
  shows "(\<forall>k. view s' k = view s k \<or> view s' k = None \<and> k \<in> key ` set gone) \<and> set gone \<subseteq> set vs \<and>
    (r = Inr () \<longrightarrow> gone = vs \<and> n = length gone \<and> (\<forall>v \<in> set vs. view s' (key v) = None))"
  using assms(2)
proof (induction vs arbitrary: s r gone n)
  case Nil
  then show ?case by simp
next
  case (Cons v vs)
  obtain q t where del: "eng_del E (key v) s = (q, t)" by fastforce
  note eff = engine_del [OF assms(1) del]
  show ?case
  proof (cases q)
    case (Inl e)
    then show ?thesis using Cons.prems del eff by (auto simp: wrap_write_def split: if_splits)
  next
    case (Inr u)
    then have t: "view t = (view s)(key v := None)" using eff by simp
    obtain r' gone' n' where rest: "expunge E code key vs t = (r', gone', n', s')"
      "r = r'" "gone = v # gone'" "n = Suc n'"
      using Cons.prems del Inr by (auto simp: wrap_write_def split: prod.splits)
    from Cons.IH [OF rest(1)] show ?thesis
      using rest(2,3,4) t by (auto split: if_splits)
  qed
qed

lemma expunge_mono: "engine_laws E view \<Longrightarrow> expunge E code key vs s = (r, gone, n, s') \<Longrightarrow> view s' \<subseteq>\<^sub>m view s"
  by (drule (1) expunge_effect) (auto simp: map_le_def dom_def)

text \<open>A page has no row twice.\<close>

lemma distinct_map_submset:
  assumes "distinct (map f xs)" "mset ys \<subseteq># mset xs"
  shows "distinct (map f ys)"
proof -
  have "mset (map f ys) \<subseteq># mset (map f xs)" using assms(2) by (simp add: image_mset_subseteq_mono)
  then have "count (mset (map f ys)) a \<le> 1" for a
    using mset_subset_eq_count [OF \<open>mset (map f ys) \<subseteq># mset (map f xs)\<close>, of a] assms(1)
      distinct_count_atmost_1 [of "map f xs"]
    by (smt (verit) One_nat_def zero_le_one order_trans)
  then have "count (mset (map f ys)) a = (if a \<in> set (map f ys) then 1 else 0)" for a
    using count_mset_0_iff [of "map f ys" a] by (metis One_nat_def le_Suc_eq le_zero_eq)
  then show ?thesis by (simp only: distinct_count_atmost_1) blast
qed

lemma answers_keys:
  assumes "answers q m vs" "keyed key m"
  shows "distinct (map key vs)"
proof -
  obtain ks where ks: "distinct ks" "set ks = matching (q_filter q) m"
    "vs = take (q_limit q) (query_order q (map (\<lambda>k. the (m k)) ks))"
    using assms(1) unfolding answers_def by blast
  have "key (the (m k)) = k" if "k \<in> set ks" for k
    using that ks(2) keyedD [OF assms(2)] by (auto simp: matching_def)
  then have "map key (map (\<lambda>k. the (m k)) ks) = ks" by (simp add: map_idI)
  then have "distinct (map key (query_order q (map (\<lambda>k. the (m k)) ks)))"
    by (metis distinct_map_submset ks(1) mset_query_order subset_mset.order_refl)
  then show ?thesis unfolding ks(3) by (simp add: take_map [symmetric])
qed

text \<open>A pass and the passes after it, together.\<close>

lemma expunge_loop_join:
  assumes "m1 \<subseteq>\<^sub>m m" "m2 \<subseteq>\<^sub>m m1"
    and "\<forall>k v. m1 k = Some v \<and> m2 k = None \<longrightarrow> v \<in> set later"
    and "\<forall>v \<in> set later. P v \<and> m1 (key v) = Some v"
    and "\<forall>k v. m k = Some v \<and> m1 k = None \<longrightarrow> v \<in> set gone"
    and "\<forall>v \<in> set gone. P v \<and> m (key v) = Some v"
  shows "m2 \<subseteq>\<^sub>m m \<and> (\<forall>k v. m k = Some v \<and> m2 k = None \<longrightarrow> v \<in> set (gone @ later)) \<and>
    (\<forall>v \<in> set (gone @ later). P v \<and> m (key v) = Some v)"
proof (intro conjI)
  show "m2 \<subseteq>\<^sub>m m" using assms(1,2) map_le_trans by blast
  show "\<forall>k v. m k = Some v \<and> m2 k = None \<longrightarrow> v \<in> set (gone @ later)"
  proof (intro allI impI)
    fix k v assume "m k = Some v \<and> m2 k = None"
    then show "v \<in> set (gone @ later)"
      using assms(1,3,5) by (cases "m1 k") (force simp: map_le_def dom_def)+
  qed
  show "\<forall>v \<in> set (gone @ later). P v \<and> m (key v) = Some v"
    using assms(1,4,6) by (auto simp: map_le_def dom_def)
qed

text \<open>The loop returns, and what it returns.\<close>

lemma expunge_loop_total:
  assumes laws: "engine_laws E view" and fin: "finite (matching (q_filter q) (view s))"
    and keys: "keyed key (view s)" and picks: "\<And>vs. mset (pick vs) \<subseteq># mset vs"
  shows "\<exists>r gone n s'. expunge_loop E sc dc q pick key s = Some (r, gone, n, s') \<and> view s' \<subseteq>\<^sub>m view s \<and>
    (\<forall>k v. view s k = Some v \<and> view s' k = None \<longrightarrow> v \<in> set gone) \<and>
    (\<forall>v \<in> set gone. q_filter q v \<and> view s (key v) = Some v) \<and>
    (r = Inr () \<longrightarrow> (\<exists>vs. eng_scan E q s' = Inr vs \<and> pick vs = []) \<and>
       (\<forall>v \<in> set gone. view s' (key v) = None) \<and> distinct (map key gone) \<and> n = length gone)"
  using fin keys
proof (induction "card (matching (q_filter q) (view s))" arbitrary: s rule: less_induct)
  case less
  note unfold = expunge_loop.simps [of E sc dc q pick key s]
  show ?case
  proof (cases "eng_scan E q s")
    case (Inl e)
    then show ?thesis by (simp add: unfold)
  next
    case (Inr vs)
    have in_view: "q_filter q v \<and> view s (key v) = Some v" if "v \<in> set (pick vs)" for v
      using that picks [of vs, THEN set_mset_mono] answers_sound [OF engine_scan [OF laws Inr]]
        keyedD [OF less.prems(2)] by (metis set_mset_mset subsetD)
    show ?thesis
    proof (cases "pick vs = []")
      case True
      with Inr show ?thesis by (simp add: unfold)
    next
      case False
      obtain r gone n t where pass: "expunge E dc key (pick vs) s = (r, gone, n, t)" by (metis prod_cases4)
      note eff = expunge_effect [OF laws pass] and mono = expunge_mono [OF laws pass]
      have gone: "\<forall>v \<in> set gone. q_filter q v \<and> view s (key v) = Some v" using eff in_view by blast
      have lost: "\<forall>k v. view s k = Some v \<and> view t k = None \<longrightarrow> v \<in> set gone"
        using eff gone by (metis imageE option.distinct(1) option.inject)
      show ?thesis
      proof (cases r)
        case (Inl e)
        then have "expunge_loop E sc dc q pick key s = Some (Inl e, gone, n, t)"
          using False Inr pass by (simp add: unfold)
        then show ?thesis using mono lost gone by simp
      next
        case ok: (Inr u)
        then have all_gone: "gone = pick vs" "n = length gone" "\<forall>v \<in> set gone. view t (key v) = None"
          using eff by simp_all
        have sub: "matching (q_filter q) (view t) \<subset> matching (q_filter q) (view s)"
        proof
          show "matching (q_filter q) (view t) \<subseteq> matching (q_filter q) (view s)"
            using mono by (force simp: matching_def map_le_def dom_def)
          obtain v where "v \<in> set gone" using False all_gone(1) by (meson list.set_sel(1))
          then have "key v \<in> matching (q_filter q) (view s)" "key v \<notin> matching (q_filter q) (view t)"
            using gone all_gone(3) by (auto simp: matching_def)
          then show "matching (q_filter q) (view t) \<noteq> matching (q_filter q) (view s)" by blast
        qed
        have fin: "finite (matching (q_filter q) (view t))"
          using less.prems(1) sub by (meson finite_subset psubset_imp_subset)
        have "card (matching (q_filter q) (view t)) < card (matching (q_filter q) (view s))"
          by (rule psubset_card_mono [OF less.prems(1) sub])
        from less.hyps [OF this fin keyed_sub [OF less.prems(2) mono]]
        obtain r' later n' s' where rest: "expunge_loop E sc dc q pick key t = Some (r', later, n', s')"
          "view s' \<subseteq>\<^sub>m view t" "\<forall>k v. view t k = Some v \<and> view s' k = None \<longrightarrow> v \<in> set later"
          "\<forall>v \<in> set later. q_filter q v \<and> view t (key v) = Some v"
          "r' = Inr () \<longrightarrow> (\<exists>vs. eng_scan E q s' = Inr vs \<and> pick vs = []) \<and>
             (\<forall>v \<in> set later. view s' (key v) = None) \<and> distinct (map key later) \<and> n' = length later"
          by blast
        have run: "expunge_loop E sc dc q pick key s = Some (r', gone @ later, n + n', s')"
          using False Inr pass ok rest(1) by (simp add: unfold)
        have "distinct (map key gone)"
          using distinct_map_submset [OF answers_keys [OF engine_scan [OF laws Inr] less.prems(2)] picks]
            all_gone(1) by simp
        moreover have "key ` set gone \<inter> key ` set later = {}"
          using all_gone(3) rest(4) by force
        moreover have "\<forall>v \<in> set gone. view s' (key v) = None"
          using all_gone(3) rest(2) by (auto simp: map_le_def dom_def)
        ultimately have final: "r' = Inr () \<longrightarrow> (\<exists>vs. eng_scan E q s' = Inr vs \<and> pick vs = []) \<and>
             (\<forall>v \<in> set (gone @ later). view s' (key v) = None) \<and> distinct (map key (gone @ later)) \<and>
             n + n' = length (gone @ later)"
          using rest(5) all_gone(2) by auto
        with expunge_loop_join [OF mono rest(2,3,4) lost gone] run show ?thesis by blast
      qed
    qed
  qed
qed

text \<open>
  A sweep picks every row of its page: it only removes rows that pass its filter, all of
  them when it succeeds, and it answers every row it removed.
\<close>

lemma sweep_done:
  assumes laws: "engine_laws E view" and fin: "finite (matching (q_filter q) (view s))"
    and keys: "keyed key (view s)" and lim: "0 < q_limit q" and sub: "view s' \<subseteq>\<^sub>m view s"
    and lost: "\<forall>k v. view s k = Some v \<and> view s' k = None \<longrightarrow> v \<in> set gone"
    and gone: "\<forall>v \<in> set gone. q_filter q v \<and> view s (key v) = Some v"
    and scan: "eng_scan E q s' = Inr []" and cleared: "\<forall>v \<in> set gone. view s' (key v) = None"
  shows "(\<forall>k v. view s' k = Some v \<longleftrightarrow> view s k = Some v \<and> \<not> q_filter q v) \<and>
    set (map key gone) = matching (q_filter q) (view s)"
proof (intro conjI allI)
  have keep: "view s' k = Some v \<Longrightarrow> view s k = Some v" for k v
    using sub by (auto simp: map_le_def dom_def)
  have "finite (matching (q_filter q) (view s'))"
    by (rule finite_subset [OF _ fin]) (auto simp: matching_def dest: keep)
  then have none: "matching (q_filter q) (view s') = {}"
    using answers_length [OF engine_scan [OF laws scan]] lim
    by (metis card_0_eq list.size(3) min_def not_less_zero)
  show left: "view s' k = Some v \<longleftrightarrow> view s k = Some v \<and> \<not> q_filter q v" for k v
  proof
    assume "view s' k = Some v"
    then show "view s k = Some v \<and> \<not> q_filter q v" using keep none by (auto simp: matching_def)
  next
    assume v: "view s k = Some v \<and> \<not> q_filter q v"
    then show "view s' k = Some v"
      using lost gone keep by (cases "view s' k") (blast, fastforce)
  qed
  show "set (map key gone) = matching (q_filter q) (view s)"
  proof (intro set_eqI iffI)
    fix k assume "k \<in> set (map key gone)"
    then show "k \<in> matching (q_filter q) (view s)" using gone by (auto simp: matching_def)
  next
    fix k assume "k \<in> matching (q_filter q) (view s)"
    then obtain v where v: "view s k = Some v" "q_filter q v" by (auto simp: matching_def)
    then have "view s' k = None" using left [of k] keep by (cases "view s' k") fastforce+
    then have "v \<in> set gone" using lost v(1) by blast
    then show "k \<in> set (map key gone)" using keyedD [OF keys v(1)] by force
  qed
qed

lemma sweep_loop:
  assumes laws: "engine_laws E view" and fin: "finite (matching (q_filter q) (view s))"
    and keys: "keyed key (view s)" and lim: "0 < q_limit q"
  shows "\<exists>r gone n s'. expunge_loop E sc dc q (\<lambda>vs. vs) key s = Some (r, gone, n, s') \<and>
    (\<forall>k v. view s k = Some v \<longrightarrow>
       view s' k = Some v \<or> view s' k = None \<and> q_filter q v \<and> v \<in> set gone) \<and>
    (\<forall>k. view s k = None \<longrightarrow> view s' k = None) \<and>
    (r = Inr () \<longrightarrow> (\<forall>k v. view s' k = Some v \<longleftrightarrow> view s k = Some v \<and> \<not> q_filter q v) \<and>
       n = card (matching (q_filter q) (view s))) \<and>
    (\<forall>v \<in> set gone. q_filter q v \<and> view s (key v) = Some v)"
proof -
  obtain r gone n s' where loop:
    "expunge_loop E sc dc q (\<lambda>vs. vs) key s = Some (r, gone, n, s')"
    "view s' \<subseteq>\<^sub>m view s" "\<forall>k v. view s k = Some v \<and> view s' k = None \<longrightarrow> v \<in> set gone"
    "\<forall>v \<in> set gone. q_filter q v \<and> view s (key v) = Some v"
    "r = Inr () \<longrightarrow> (\<exists>vs. eng_scan E q s' = Inr vs \<and> vs = []) \<and>
       (\<forall>v \<in> set gone. view s' (key v) = None) \<and> distinct (map key gone) \<and> n = length gone"
    using expunge_loop_total [OF laws fin keys, of "\<lambda>vs. vs" sc dc] by auto
  have keep: "view s' k = Some v \<Longrightarrow> view s k = Some v" for k v
    using loop(2) by (auto simp: map_le_def dom_def)
  have "view s k = Some v \<Longrightarrow> view s' k = Some v \<or> view s' k = None \<and> q_filter q v \<and> v \<in> set gone" for k v
    using loop(3,4) keep by (cases "view s' k") (blast, fastforce)
  moreover have "view s k = None \<Longrightarrow> view s' k = None" for k
    using keep by (cases "view s' k") fastforce+
  moreover have "(\<forall>k v. view s' k = Some v \<longleftrightarrow> view s k = Some v \<and> \<not> q_filter q v) \<and>
       n = card (matching (q_filter q) (view s))" if "r = Inr ()"
  proof -
    from loop(5) that have ok: "eng_scan E q s' = Inr []" "\<forall>v \<in> set gone. view s' (key v) = None"
      "distinct (map key gone)" "n = length gone" by auto
    from sweep_done [OF laws fin keys lim loop(2,3,4) ok(1,2)] ok(3,4) show ?thesis
      by (metis distinct_card length_map)
  qed
  ultimately show ?thesis using loop(1,4) by blast
qed

end
