(* ===== verification/Faxes.thy ===== *)
theory Faxes
  imports Expunge Fax_Domain Store_Rows
begin

text \<open>
  The fax store of \<^verbatim>\<open>internal/readmodels/faxes.go\<close> over an engine that also has the
  in-process idempotent apply. Creation times are unix nanoseconds, as in \<^verbatim>\<open>Contacts\<close>; the
  clock of a write is an input. \<open>idem_laws\<close> adds to the engine contract what the store
  relies on for \<^verbatim>\<open>ApplyIdempotent\<close>, against the set of idempotency keys seen by the process:
  a repeated key is a no-op, a first success applies the fold and remembers the key.
\<close>

record fax_view =
  fxv_id :: string
  fxv_owner :: string
  fxv_remote :: string
  fxv_direction :: fax_direction
  fxv_status :: fax_status
  fxv_pages :: int
  fxv_path :: string
  fxv_ref :: string
  fxv_error :: string
  fxv_created :: int
  fxv_updated :: int

record ('s, 'k, 'v) idem_engine = "('s, 'k, 'v) engine" +
  eng_idem :: "string \<Rightarrow> 'k \<Rightarrow> ('v \<Rightarrow> 'v) \<Rightarrow> 's \<Rightarrow> (err + unit) \<times> 's"

definition idem_laws ::
  "('s, 'k, 'v) idem_engine \<Rightarrow> ('s \<Rightarrow> 'k \<Rightarrow> 'v option) \<Rightarrow> ('s \<Rightarrow> string set) \<Rightarrow> bool" where
  "idem_laws E view seen \<longleftrightarrow> engine_laws E view \<and>
     (\<forall>k v s. seen (snd (eng_put E k v s)) = seen s) \<and>
     (\<forall>k s. seen (snd (eng_del E k s)) = seen s) \<and>
     (\<forall>k f s. seen (snd (eng_update E k f s)) = seen s) \<and>
     (\<forall>ik k f v s r s'. view s k = Some v \<longrightarrow> eng_idem E ik k f s = (r, s') \<longrightarrow>
        (if ik \<in> seen s then view s' = view s \<and> seen s' = seen s
         else view s' = (view s)(k \<mapsto> f v) \<and> seen s' = insert ik (seen s) \<or>
           (\<exists>e. r = Inl e) \<and> (view s' = view s \<or> view s' = (view s)(k \<mapsto> f v)) \<and>
             (seen s' = seen s \<or> seen s' = insert ik (seen s))))"

definition idem_reliable :: "('s, 'k, 'v) idem_engine \<Rightarrow> bool" where
  "idem_reliable E \<longleftrightarrow> reliable E \<and> (\<forall>ik k f s. fst (eng_idem E ik k f s) = Inr ())"

text \<open>The engine over an association list, with the keys seen beside it.\<close>

definition on_rows :: "('r \<Rightarrow> (err + unit) \<times> 'r) \<Rightarrow> 'r \<times> 'x \<Rightarrow> (err + unit) \<times> 'r \<times> 'x" where
  "on_rows f s = (fst (f (fst s)), snd (f (fst s)), snd s)"

definition mem_idem :: "(('k \<times> 'v) list \<times> string list, 'k, 'v) idem_engine" where
  "mem_idem =
     \<lparr>eng_get = (\<lambda>k s. eng_get mem_engine k (fst s)),
      eng_scan = (\<lambda>q s. eng_scan mem_engine q (fst s)),
      eng_put = (\<lambda>k v. on_rows (eng_put mem_engine k v)),
      eng_del = (\<lambda>k. on_rows (eng_del mem_engine k)),
      eng_update = (\<lambda>k f. on_rows (eng_update mem_engine k f)),
      eng_idem = (\<lambda>ik k f s.
        if ik \<in> set (snd s) then (Inr (), s)
        else (fst (eng_update mem_engine k f (fst s)), snd (eng_update mem_engine k f (fst s)), ik # snd s))\<rparr>"

lemma mem_idem_laws: "idem_laws mem_idem (\<lambda>s. map_of (fst s)) (\<lambda>s. set (snd s))"
proof -
  note mem = mem_engine_def mem_answers update_conv' delete_conv'
  have "engine_laws mem_idem (\<lambda>s. map_of (fst s))"
    by (auto simp: engine_laws_def mem_idem_def on_rows_def mem)
  then show ?thesis
    by (auto simp: idem_laws_def mem_idem_def on_rows_def mem)
qed

lemma mem_idem_reliable: "idem_reliable mem_idem"
  by (simp add: idem_reliable_def reliable_def mem_idem_def on_rows_def mem_engine_def)

section \<open>The folds\<close>

definition fax_fold :: "fax_job \<Rightarrow> fax_view" where
  "fax_fold job =
     \<lparr>fxv_id = job_id job, fxv_owner = ext_string (job_owner job),
      fxv_remote = phone_string (job_remote job), fxv_direction = job_direction job,
      fxv_status = job_status job, fxv_pages = job_pages job, fxv_path = job_path job,
      fxv_ref = job_ref job, fxv_error = job_error job, fxv_created = job_created job,
      fxv_updated = job_updated job\<rparr>"

definition fax_advance_fold :: "fax_delivery \<Rightarrow> time \<Rightarrow> fax_view \<Rightarrow> fax_view" where
  "fax_advance_fold d now prev =
     prev\<lparr>fxv_status := fdl_status d,
          fxv_ref := if fdl_ref d \<noteq> [] then fdl_ref d else fxv_ref prev,
          fxv_error := fdl_error d, fxv_pages := fdl_pages d, fxv_updated := now\<rparr>"

section \<open>Operations\<close>

definition fax_create ::
  "('s, string, fax_view) idem_engine \<Rightarrow> fax_job \<Rightarrow> 's \<Rightarrow> (err + unit) \<times> 's" where
  "fax_create E job s =
     wrap_write ''readmodels.fax_insert'' (eng_put E (job_id job) (fax_fold job) s)"

definition fax_update_status ::
  "('s, string, fax_view) idem_engine \<Rightarrow> time \<Rightarrow> fax_id \<Rightarrow> fax_delivery \<Rightarrow> 's \<Rightarrow> (err + unit) \<times> 's" where
  "fax_update_status E now i d s =
     (case wrap_read ''readmodels.fax_update'' (eng_get E i s) of
        Inl e \<Rightarrow> (Inl e, s)
      | Inr None \<Rightarrow> (Inl Not_Found, s)
      | Inr (Some _) \<Rightarrow>
          wrap_write ''readmodels.fax_update'' (eng_update E i (fax_advance_fold d now) s))"

definition fax_advance_idempotent ::
  "('s, string, fax_view) idem_engine \<Rightarrow> time \<Rightarrow> string \<Rightarrow> fax_id \<Rightarrow> fax_delivery \<Rightarrow> 's \<Rightarrow>
     (err + unit) \<times> 's" where
  "fax_advance_idempotent E now ik i d s =
     (case wrap_read ''readmodels.fax_update'' (eng_get E i s) of
        Inl e \<Rightarrow> (Inl e, s)
      | Inr None \<Rightarrow> (Inl Not_Found, s)
      | Inr (Some _) \<Rightarrow>
          wrap_write ''readmodels.fax_update'' (eng_idem E ik i (fax_advance_fold d now) s))"

definition to_job :: "fax_view \<Rightarrow> err + fax_job" where
  "to_job v =
     (case must_id (fxv_id v) of
        Inl e \<Rightarrow> Inl e
      | Inr i \<Rightarrow>
          (case must_parse_extension (fxv_owner v) of
             Inl e \<Rightarrow> Inl e
           | Inr ext \<Rightarrow>
               (case must_parse_phone (fxv_remote v) of
                  Inl e \<Rightarrow> Inl e
                | Inr p \<Rightarrow>
                    Inr \<lparr>job_id = i, job_owner = ext, job_remote = p, job_direction = fxv_direction v,
                         job_status = fxv_status v, job_pages = fxv_pages v, job_path = fxv_path v,
                         job_ref = fxv_ref v, job_error = fxv_error v, job_created = fxv_created v,
                         job_updated = fxv_updated v\<rparr>)))"

definition fax_list ::
  "('s, string, fax_view) idem_engine \<Rightarrow> extension \<Rightarrow> nat \<Rightarrow> 's \<Rightarrow> err + fax_job list" where
  "fax_list E ext limit s =
     (case wrap_read ''readmodels.fax_list''
             (eng_scan E \<lparr>q_filter = (\<lambda>v. fxv_owner v = ext_string ext), q_sort = Some fxv_created,
                          q_desc = True, q_limit = limit\<rparr> s) of
        Inl e \<Rightarrow> Inl e
      | Inr vs \<Rightarrow> scan_all to_job vs)"

definition fax_list_all ::
  "('s, string, fax_view) idem_engine \<Rightarrow> nat \<Rightarrow> 's \<Rightarrow> err + fax_job list" where
  "fax_list_all E limit s =
     (case wrap_read ''readmodels.fax_list_all''
             (eng_scan E \<lparr>q_filter = (\<lambda>_. True), q_sort = Some fxv_created, q_desc = True,
                          q_limit = limit\<rparr> s) of
        Inl e \<Rightarrow> Inl e
      | Inr vs \<Rightarrow> scan_all to_job vs)"

definition fax_get ::
  "('s, string, fax_view) idem_engine \<Rightarrow> extension \<Rightarrow> fax_id \<Rightarrow> 's \<Rightarrow> err + fax_job" where
  "fax_get E ext i s =
     (case wrap_read ''readmodels.fax_get'' (eng_get E i s) of
        Inl e \<Rightarrow> Inl e
      | Inr None \<Rightarrow> Inl Not_Found
      | Inr (Some v) \<Rightarrow> if fxv_owner v \<noteq> ext_string ext then Inl Not_Found else to_job v)"

definition fax_get_any ::
  "('s, string, fax_view) idem_engine \<Rightarrow> fax_id \<Rightarrow> 's \<Rightarrow> err + fax_job" where
  "fax_get_any E i s =
     (case wrap_read ''readmodels.fax_get_any'' (eng_get E i s) of
        Inl e \<Rightarrow> Inl e
      | Inr None \<Rightarrow> Inl Not_Found
      | Inr (Some v) \<Rightarrow> to_job v)"

definition fax_by_ref ::
  "('s, string, fax_view) idem_engine \<Rightarrow> string \<Rightarrow> 's \<Rightarrow> err + fax_job" where
  "fax_by_ref E ref s =
     (if ref = [] then Inl Not_Found
      else case wrap_read ''readmodels.fax_by_ref''
                  (eng_scan E \<lparr>q_filter = (\<lambda>v. fxv_ref v = ref), q_sort = None, q_desc = False,
                               q_limit = 2\<rparr> s) of
             Inl e \<Rightarrow> Inl e
           | Inr [] \<Rightarrow> Inl Not_Found
           | Inr (v # _) \<Rightarrow> to_job v)"

definition sweep_page_size :: nat where "sweep_page_size = 1000"

definition fax_expirable :: "time \<Rightarrow> fax_view query" where
  "fax_expirable cutoff =
     \<lparr>q_filter = (\<lambda>v. fxv_created v < cutoff), q_sort = Some fxv_created, q_desc = False,
      q_limit = sweep_page_size\<rparr>"

text \<open>
  The paths of the rows attempted come back even when a removal fails, the count is of the
  removals that succeeded.
\<close>

definition fax_sweep_before ::
  "('s, string, fax_view) idem_engine \<Rightarrow> time \<Rightarrow> 's \<Rightarrow> ((err + unit) \<times> string list \<times> nat \<times> 's) option" where
  "fax_sweep_before E cutoff s =
     map_option
       (\<lambda>(r, gone, removed, s'). (r, filter (\<lambda>p. p \<noteq> []) (map fxv_path gone), removed, s'))
       (expunge_loop E ''readmodels.fax_sweep'' ''readmodels.fax_sweep'' (fax_expirable cutoff) (\<lambda>vs. vs) fxv_id s)"

end
