(* ===== verification/Fax_Service.thy ===== *)
theory Fax_Service
  imports Faxes Gateway Blob
begin

text \<open>
  The fax service of \<^verbatim>\<open>internal/fax/service.go\<close>. It reaches its jobs through the interface
  \<^verbatim>\<open>fax.Store\<close>, here the record \<open>fax_ops\<close> of the operations it calls; \<open>engine_faxes\<close> is
  the implementation the program wires in, the operations of \<^verbatim>\<open>Faxes\<close>. The locale
  \<open>fax_store\<close> states what an implementation promises, whatever of its operations fail, and
  the lemmas about the service rest on it. The world of the service is the state of the
  store, the blob files, the events emitted and the faxes handed to the gateway, oldest
  first. Identifiers, blob names and clock readings are inputs (\<open>at\<close> gives the readings of
  the store's own clock in order). A failed status update is logged by the source and
  otherwise ignored; the detached archive offer of an inbound fax only reads and is not
  part of the model.
\<close>

record 's fax_ops =
  fo_create :: "fax_job \<Rightarrow> 's \<Rightarrow> (err + unit) \<times> 's"
  fo_update :: "time \<Rightarrow> fax_id \<Rightarrow> fax_delivery \<Rightarrow> 's \<Rightarrow> (err + unit) \<times> 's"
  fo_advance :: "time \<Rightarrow> string \<Rightarrow> fax_id \<Rightarrow> fax_delivery \<Rightarrow> 's \<Rightarrow> (err + unit) \<times> 's"
  fo_list :: "extension \<Rightarrow> nat \<Rightarrow> 's \<Rightarrow> err + fax_job list"
  fo_get :: "extension \<Rightarrow> fax_id \<Rightarrow> 's \<Rightarrow> err + fax_job"
  fo_by_ref :: "string \<Rightarrow> 's \<Rightarrow> err + fax_job"

definition engine_faxes :: "('s, string, fax_view) idem_engine \<Rightarrow> 's fax_ops" where
  "engine_faxes E =
     \<lparr>fo_create = fax_create E, fo_update = fax_update_status E, fo_advance = fax_advance_idempotent E,
      fo_list = fax_list E, fo_get = fax_get E, fo_by_ref = fax_by_ref E\<rparr>"

record 's fax_world =
  fw_store :: 's
  fw_files :: files
  fw_events :: "domain_event list"
  fw_sent :: "outbound_fax list"

record fax_service =
  fsv_gateway :: "outbound_fax \<Rightarrow> send_error + receipt"
  fsv_identities :: "string \<Rightarrow> string option"
  fsv_root :: string

definition max_pdf_size :: nat where "max_pdf_size = 20 * 1024 * 1024"
definition fax_page_size :: nat where "fax_page_size = 100"
definition pdf_signature :: string where "pdf_signature = ''%PDF-''"

definition fax_self_send_detail :: string where
  "fax_self_send_detail = ''faxes cannot be sent to your own number''"

section \<open>Driving a job\<close>

definition drive_failed ::
  "'s fax_ops \<Rightarrow> time \<Rightarrow> fax_job \<Rightarrow> send_error \<Rightarrow> 's fax_world \<Rightarrow> (fax_job option \<times> err option) \<times> 's fax_world" where
  "drive_failed F at job e w =
     (let job' = job\<lparr>job_status := fst (fax_advance (job_status job) Fax_Submit_Failed),
                     job_error := send_error_text e\<rparr>;
          s = snd (fo_update F at (job_id job)
                \<lparr>fdl_status = Fax_Failed, fdl_ref = [], fdl_error = job_error job', fdl_pages = 0\<rparr>
                (fw_store w)) in
      ((Some job', Some (Forward_Error e)),
       w\<lparr>fw_store := s, fw_events := fw_events w @ [Fax_Advanced (job_owner job) (job_id job)]\<rparr>))"

definition drive_accepted ::
  "'s fax_ops \<Rightarrow> (nat \<Rightarrow> time) \<Rightarrow> fax_job \<Rightarrow> receipt \<Rightarrow> 's fax_world \<Rightarrow>
     (fax_job option \<times> err option) \<times> 's fax_world" where
  "drive_accepted F at job rcp w =
     (let job1 = job\<lparr>job_status := fst (fax_advance (job_status job) Fax_Accepted),
                     job_ref := rcp_ref rcp\<rparr>;
          s1 = snd (fo_update F (at 0) (job_id job)
                 \<lparr>fdl_status = Fax_Sending, fdl_ref = rcp_ref rcp, fdl_error = [], fdl_pages = 0\<rparr>
                 (fw_store w));
          job2 = (if rcp_resolution rcp = Resolution_Immediate
                  then job1\<lparr>job_status := fst (fax_advance (job_status job1) Fax_Settled)\<rparr>
                  else job1);
          s2 = (if rcp_resolution rcp = Resolution_Immediate
                then snd (fo_update F (at 1) (job_id job)
                       \<lparr>fdl_status = Fax_Transmitted, fdl_ref = [], fdl_error = [], fdl_pages = 1\<rparr> s1)
                else s1) in
      ((Some job2, None),
       w\<lparr>fw_store := s2, fw_events := fw_events w @ [Fax_Advanced (job_owner job) (job_id job)]\<rparr>))"

definition drive ::
  "'s fax_ops \<Rightarrow> fax_service \<Rightarrow> (nat \<Rightarrow> time) \<Rightarrow> fax_job \<Rightarrow> 's fax_world \<Rightarrow>
     (fax_job option \<times> err option) \<times> 's fax_world" where
  "drive F svc at job w =
     (case self_send_rejection (fsv_identities svc) (job_owner job) (job_remote job) fax_self_send_detail of
        Some e \<Rightarrow> drive_failed F (at 0) job e w
      | None \<Rightarrow>
          (case must (parse_rel_path (job_path job)) of
             Inl e \<Rightarrow> ((None, Some e), w)
           | Inr rel \<Rightarrow>
               (let out = \<lparr>ofx_owner = job_owner job, ofx_to = job_remote job,
                           ofx_path = blob_abs (fsv_root svc) rel\<rparr>;
                    w1 = w\<lparr>fw_sent := fw_sent w @ [out]\<rparr> in
                case fsv_gateway svc out of
                  Inl e \<Rightarrow> drive_failed F (at 0) job e w1
                | Inr rcp \<Rightarrow> drive_accepted F at job rcp w1)))"

text \<open>Persisting a fresh queued job, announcing it and driving it.\<close>

definition submit ::
  "'s fax_ops \<Rightarrow> fax_service \<Rightarrow> (nat \<Rightarrow> time) \<Rightarrow> fax_job \<Rightarrow> 's fax_world \<Rightarrow>
     (fax_job option \<times> err option) \<times> 's fax_world" where
  "submit F svc at job w =
     (case fo_create F job (fw_store w) of
        (Inl e, s) \<Rightarrow> ((None, Some (wrap ''store.fax_create'' e)), w\<lparr>fw_store := s\<rparr>)
      | (Inr _, s) \<Rightarrow>
          drive F svc at job
            (w\<lparr>fw_store := s, fw_events := fw_events w @ [Fax_Advanced (job_owner job) (job_id job)]\<rparr>))"

section \<open>The operations\<close>

definition validate_fax :: "char list \<Rightarrow> err + unit" where
  "validate_fax pdf =
     (if pdf = [] then Inl (Invalid ''attach a PDF to send'')
      else if \<not> has_prefix pdf_signature pdf then Inl (Invalid ''only PDF documents can be faxed'')
      else if length pdf > max_pdf_size
      then Inl (Invalid (''PDF larger than '' @ nat_decimal (max_pdf_size div (1024 * 1024)) @ '' MiB''))
      else Inr ())"

definition send_fax ::
  "'s fax_ops \<Rightarrow> fax_service \<Rightarrow> faults \<Rightarrow> (nat \<Rightarrow> time) \<Rightarrow> string \<Rightarrow> fax_id \<Rightarrow> time \<Rightarrow> extension \<Rightarrow> phone \<Rightarrow>
     char list \<Rightarrow> 's fax_world \<Rightarrow> (fax_job option \<times> err option) \<times> 's fax_world" where
  "send_fax F svc fl at name fid now owner to pdf w =
     (case validate_fax pdf of
        Inl e \<Rightarrow> ((None, Some e), w)
      | Inr _ \<Rightarrow>
          (case blob_save fl name ''faxes'' ''.pdf'' pdf (fw_files w) of
             (Inl e, fs) \<Rightarrow> ((None, Some (wrap ''store.fax_spool'' e)), w\<lparr>fw_files := fs\<rparr>)
           | (Inr path, fs) \<Rightarrow>
               submit F svc at (new_outbound_fax_job fid owner to (rel_string path) now)
                 (w\<lparr>fw_files := fs\<rparr>)))"

definition resend_fax ::
  "'s fax_ops \<Rightarrow> fax_service \<Rightarrow> faults \<Rightarrow> (nat \<Rightarrow> time) \<Rightarrow> fax_id \<Rightarrow> time \<Rightarrow> extension \<Rightarrow> fax_id \<Rightarrow>
     's fax_world \<Rightarrow> (fax_job option \<times> err option) \<times> 's fax_world" where
  "resend_fax F svc fl at fid now owner i w =
     (case fo_get F owner i (fw_store w) of
        Inl e \<Rightarrow> ((None, Some e), w)
      | Inr job \<Rightarrow>
          if job_direction job \<noteq> Fax_Outbound \<or> job_status job \<noteq> Fax_Failed
          then ((None, Some (Invalid ''only failed outbound faxes can be resent'')), w)
          else
            (case must (parse_rel_path (job_path job)) of
               Inl e \<Rightarrow> ((None, Some e), w)
             | Inr rel \<Rightarrow>
                 (case blob_open fl rel (fw_files w) of
                    Inl e \<Rightarrow> ((None, Some (wrap ''store.fax_spool'' e)), w)
                  | Inr _ \<Rightarrow>
                      submit F svc at (new_outbound_fax_job fid owner (job_remote job) (job_path job) now) w)))"

definition receive_fax ::
  "'s fax_ops \<Rightarrow> faults \<Rightarrow> string \<Rightarrow> fax_id \<Rightarrow> time \<Rightarrow> inbound_fax \<Rightarrow> 's fax_world \<Rightarrow>
     (err + fax_job) \<times> 's fax_world" where
  "receive_fax F fl name fid clock inb w =
     (let now = or_clock (ifx_received inb) clock in
      if ifx_pdf inb = [] then (Inl (Invalid ''inbound fax carries no document''), w)
      else
        (case blob_save fl name ''faxes'' ''.pdf'' (ifx_pdf inb) (fw_files w) of
           (Inl e, fs) \<Rightarrow> (Inl (wrap ''store.fax_spool'' e), w\<lparr>fw_files := fs\<rparr>)
         | (Inr path, fs) \<Rightarrow>
             (let job = new_inbound_fax_job fid (ifx_owner inb) (ifx_from inb) (rel_string path)
                          (ifx_ref inb) (ifx_pages inb) now in
              case fo_create F job (fw_store w) of
                (Inl e, s) \<Rightarrow>
                  (Inl (wrap ''store.fax_create'' e), w\<lparr>fw_store := s, fw_files := fs\<rparr>)
              | (Inr _, s) \<Rightarrow>
                  (Inr job, w\<lparr>fw_store := s, fw_files := fs,
                     fw_events := fw_events w @ [Fax_Advanced (ifx_owner inb) (job_id job)]\<rparr>))))"

definition verdict_key :: "string \<Rightarrow> fax_status \<Rightarrow> string" where
  "verdict_key ref st = ''faxadv:'' @ ref @ '':'' @ fax_status_string st"

definition update_provider_status ::
  "'s fax_ops \<Rightarrow> time \<Rightarrow> string \<Rightarrow> fax_status \<Rightarrow> int \<Rightarrow> string \<Rightarrow> 's fax_world \<Rightarrow>
     (err + fax_job) \<times> 's fax_world" where
  "update_provider_status F at ref status pages err_msg w =
     (case fo_by_ref F ref (fw_store w) of
        Inl e \<Rightarrow> (Inl e, w)
      | Inr job \<Rightarrow>
          (let st = (if status = Fax_Received then Fax_Transmitted else status) in
           case fax_advance (job_status job) (Fax_Verdict st) of
             (_, False) \<Rightarrow> (Inr job, w)
           | (next, True) \<Rightarrow>
               (case fo_advance F at (verdict_key ref st) (job_id job)
                       \<lparr>fdl_status = next, fdl_ref = [], fdl_error = err_msg, fdl_pages = pages\<rparr>
                       (fw_store w) of
                  (Inl e, s) \<Rightarrow> (Inl e, w\<lparr>fw_store := s\<rparr>)
                | (Inr _, s) \<Rightarrow>
                    (Inr (job\<lparr>job_status := next, job_pages := pages, job_error := err_msg\<rparr>),
                     w\<lparr>fw_store := s,
                       fw_events := fw_events w @ [Fax_Advanced (job_owner job) (job_id job)]\<rparr>))))"

definition fax_document :: "faults \<Rightarrow> fax_job \<Rightarrow> files \<Rightarrow> err + char list" where
  "fax_document fl job fs =
     (case must (parse_rel_path (job_path job)) of
        Inl e \<Rightarrow> Inl e
      | Inr rel \<Rightarrow> blob_open fl rel fs)"

section \<open>The contract of a fax store\<close>

definition fax_row_ok :: "string \<Rightarrow> fax_view \<Rightarrow> bool" where
  "fax_row_ok k v \<longleftrightarrow>
     fxv_id v = k \<and> valid_id k \<and> valid_dialable (fxv_owner v) \<and> valid_dialable (fxv_remote v) \<and>
     parse_rel_path (fxv_path v) = Inr (Rel_Path (fxv_path v))"

definition valid_job :: "fax_job \<Rightarrow> bool" where
  "valid_job job \<longleftrightarrow> fax_row_ok (job_id job) (fax_fold job)"

locale fax_store =
  fixes F :: "'s fax_ops" and jobs :: "'s \<Rightarrow> fax_id \<Rightarrow> fax_view option"
    and seen :: "'s \<Rightarrow> string set" and ok :: "'s \<Rightarrow> bool"
  assumes create: "ok s \<Longrightarrow> valid_job job \<Longrightarrow> fo_create F job s = (r, s') \<Longrightarrow>
      ok s' \<and> seen s' = seen s \<and>
      (jobs s' = (jobs s)(job_id job \<mapsto> fax_fold job) \<or> (\<exists>e. r = Inl e) \<and> jobs s' = jobs s)"
    and update: "ok s \<Longrightarrow> fo_update F at i d s = (r, s') \<Longrightarrow>
      ok s' \<and> seen s' = seen s \<and>
      (r \<noteq> Inr () \<and> jobs s' = jobs s \<or>
       (\<exists>v. jobs s i = Some v \<and> jobs s' = (jobs s)(i \<mapsto> fax_advance_fold d at v)))"
    and advance: "ok s \<Longrightarrow> fo_advance F at ik i d s = (r, s') \<Longrightarrow>
      ok s' \<and> (r = Inr () \<longrightarrow> seen s' = insert ik (seen s)) \<and>
      (if ik \<in> seen s then jobs s' = jobs s
       else r \<noteq> Inr () \<and> jobs s' = jobs s \<or>
         (\<exists>v. jobs s i = Some v \<and> jobs s' = (jobs s)(i \<mapsto> fax_advance_fold d at v)))"
    and get_row: "ok s \<Longrightarrow> fo_get F ext i s = Inr j \<Longrightarrow>
      jobs s i = Some (fax_fold j) \<and> job_id j = i \<and> job_owner j = ext"
    and by_ref_row: "ok s \<Longrightarrow> fo_by_ref F ref s = Inr j \<Longrightarrow>
      jobs s (job_id j) = Some (fax_fold j) \<and> job_ref j = ref \<and> ref \<noteq> []"
    and rows: "ok s \<Longrightarrow> jobs s i = Some v \<Longrightarrow> fax_row_ok i v"

section \<open>The engine keeps it\<close>

lemma to_job_row:
  assumes ok: "fax_row_ok k v"
  shows "\<exists>j. to_job v = Inr j \<and> fax_fold j = v \<and> job_id j = k"
proof -
  have "must_parse_extension (fxv_owner v) = Inr (Extension (fxv_owner v))"
    using ok by (intro must_parse_extension_stored [of "Extension (fxv_owner v)", simplified])
      (simp add: fax_row_ok_def valid_extension_def)
  moreover have "must_parse_phone (fxv_remote v) = Inr (Phone (fxv_remote v))"
    using ok by (simp add: must_parse_phone_def parse_phone_ok fax_row_ok_def valid_dialable_def sanitize_clean)
  ultimately show ?thesis
    using ok by (auto simp: to_job_def must_id_raw fax_fold_def fax_row_ok_def)
qed

lemma to_job_fold: "fax_row_ok k v \<Longrightarrow> to_job v = Inr j \<Longrightarrow> fax_fold j = v \<and> job_id j = k"
  using to_job_row by fastforce

lemma to_job_total: "fax_row_ok k v \<Longrightarrow> \<exists>j. to_job v = Inr j"
  using to_job_row by blast

lemma idem_engine_laws: "idem_laws E view seen \<Longrightarrow> engine_laws E view"
  by (simp add: idem_laws_def)

lemma fax_advance_fold_ok: "fax_row_ok k v \<Longrightarrow> fax_row_ok k (fax_advance_fold d at v)"
  by (simp add: fax_row_ok_def fax_advance_fold_def)

lemma advanced_rows_ok:
  "rows_ok fax_row_ok m \<Longrightarrow> m i = Some v \<Longrightarrow> rows_ok fax_row_ok (m(i \<mapsto> fax_advance_fold d at v))"
  by (simp add: rows_ok_def fax_advance_fold_ok)

lemma fax_create_keeps:
  assumes "idem_laws E view seen \<and> rows_ok fax_row_ok (view s)" "valid_job job" "fax_create E job s = (r, s')"
  shows "(idem_laws E view seen \<and> rows_ok fax_row_ok (view s')) \<and> seen s' = seen s \<and>
      (view s' = (view s)(job_id job \<mapsto> fax_fold job) \<or> (\<exists>e. r = Inl e) \<and> view s' = view s)"
proof -
  have "seen s' = seen s"
    using assms(1,3) by (auto simp: idem_laws_def fax_create_def wrap_write_def)
  moreover have "view s' = (view s)(job_id job \<mapsto> fax_fold job) \<or> (\<exists>e. r = Inl e) \<and> view s' = view s"
    using put_wrapped [OF idem_engine_laws assms(3) [unfolded fax_create_def]] assms(1) by blast
  ultimately show ?thesis
    using assms(1,2) by (auto simp: valid_job_def intro: rows_ok_put)
qed

lemma fax_update_keeps:
  assumes "idem_laws E view seen \<and> rows_ok fax_row_ok (view s)" "fax_update_status E at i d s = (r, s')"
  shows "(idem_laws E view seen \<and> rows_ok fax_row_ok (view s')) \<and> seen s' = seen s \<and>
      (r \<noteq> Inr () \<and> view s' = view s \<or>
       (\<exists>v. view s i = Some v \<and> view s' = (view s)(i \<mapsto> fax_advance_fold d at v)))"
proof -
  note laws = idem_engine_laws [OF assms(1) [THEN conjunct1]]
  show ?thesis
  proof (cases "\<exists>v. eng_get E i s = Inr (Some v)")
    case False
    then have "s' = s \<and> r \<noteq> Inr ()"
      using assms(2) by (auto simp: fax_update_status_def split: sum.splits option.splits)
    then show ?thesis using assms(1) by simp
  next
    case True
    then obtain v where got: "eng_get E i s = Inr (Some v)" by blast
    have v: "view s i = Some v" using engine_get [OF laws got] by simp
    have run: "wrap_write ''readmodels.fax_update'' (eng_update E i (fax_advance_fold d at) s) = (r, s')"
      using assms(2) got by (simp add: fax_update_status_def)
    then obtain q where q: "eng_update E i (fax_advance_fold d at) s = (q, s')" by auto
    have "seen (snd (eng_update E i (fax_advance_fold d at) s)) = seen s"
      using assms(1) unfolding idem_laws_def by (elim conjE allE)
    then have seen: "seen s' = seen s" by (simp add: q)
    have rows: "rows_ok fax_row_ok ((view s)(i \<mapsto> fax_advance_fold d at v))"
      by (rule advanced_rows_ok [OF assms(1) [THEN conjunct2] v])
    from update_wrapped [OF laws v run] show ?thesis
    proof
      assume "view s' = (view s)(i \<mapsto> fax_advance_fold d at v)"
      then show ?thesis using seen rows v assms(1) by simp
    next
      assume "r = Inl (Coded Infrastructure ''readmodels.fax_update'') \<and> view s' = view s"
      then show ?thesis using seen assms(1) by simp
    qed
  qed
qed

lemma fax_advance_keeps:
  assumes "idem_laws E view seen \<and> rows_ok fax_row_ok (view s)"
    and "fax_advance_idempotent E at ik i d s = (r, s')"
  shows "(idem_laws E view seen \<and> rows_ok fax_row_ok (view s')) \<and>
      (r = Inr () \<longrightarrow> seen s' = insert ik (seen s)) \<and>
      (if ik \<in> seen s then view s' = view s
       else r \<noteq> Inr () \<and> view s' = view s \<or>
         (\<exists>v. view s i = Some v \<and> view s' = (view s)(i \<mapsto> fax_advance_fold d at v)))"
proof -
  note laws = idem_engine_laws [OF assms(1) [THEN conjunct1]]
  show ?thesis
  proof (cases "\<exists>v. eng_get E i s = Inr (Some v)")
    case False
    then have "s' = s \<and> r \<noteq> Inr ()"
      using assms(2) by (auto simp: fax_advance_idempotent_def split: sum.splits option.splits)
    then show ?thesis using assms(1) by simp
  next
    case True
    then obtain v where got: "eng_get E i s = Inr (Some v)" by blast
    have v: "view s i = Some v" using engine_get [OF laws got] by simp
    obtain q where run: "eng_idem E ik i (fax_advance_fold d at) s = (q, s')"
      "r = wrap_read ''readmodels.fax_update'' q"
      using assms(2) got by (auto simp: fax_advance_idempotent_def)
    have eff: "if ik \<in> seen s then view s' = view s \<and> seen s' = seen s
         else view s' = (view s)(i \<mapsto> fax_advance_fold d at v) \<and> seen s' = insert ik (seen s) \<or>
           (\<exists>e. q = Inl e) \<and> (view s' = view s \<or> view s' = (view s)(i \<mapsto> fax_advance_fold d at v)) \<and>
             (seen s' = seen s \<or> seen s' = insert ik (seen s))"
      using assms(1) v run(1) unfolding idem_laws_def by blast
    have rows: "rows_ok fax_row_ok ((view s)(i \<mapsto> fax_advance_fold d at v))"
      by (rule advanced_rows_ok [OF assms(1) [THEN conjunct2] v])
    show ?thesis
    proof (cases "ik \<in> seen s")
      case True
      then show ?thesis using eff assms(1) by (simp add: insert_absorb)
    next
      case False
      with eff have "view s' = (view s)(i \<mapsto> fax_advance_fold d at v) \<and> seen s' = insert ik (seen s) \<or>
        (\<exists>e. q = Inl e) \<and> (view s' = view s \<or> view s' = (view s)(i \<mapsto> fax_advance_fold d at v))"
        by auto
      then show ?thesis
      proof (elim disjE conjE exE)
        assume "view s' = (view s)(i \<mapsto> fax_advance_fold d at v)" "seen s' = insert ik (seen s)"
        then show ?thesis using False rows v assms(1) by simp
      next
        fix e assume "q = Inl e" "view s' = view s"
        then show ?thesis using False run(2) assms(1) by simp
      next
        fix e assume "q = Inl e" "view s' = (view s)(i \<mapsto> fax_advance_fold d at v)"
        then show ?thesis using False run(2) rows v assms(1) by simp
      qed
    qed
  qed
qed

lemma fax_by_ref_row:
  assumes "idem_laws E view seen \<and> rows_ok fax_row_ok (view s)" "fax_by_ref E ref s = Inr j"
  shows "view s (job_id j) = Some (fax_fold j) \<and> job_ref j = ref \<and> ref \<noteq> []"
proof -
  obtain v vs where scan: "eng_scan E \<lparr>q_filter = (\<lambda>v. fxv_ref v = ref), q_sort = None, q_desc = False,
      q_limit = 2\<rparr> s = Inr (v # vs)" and j: "to_job v = Inr j" and ref: "ref \<noteq> []"
    using assms(2) by (auto simp: fax_by_ref_def split: if_splits sum.splits list.splits)
  note ans = engine_scan [OF idem_engine_laws [OF assms(1) [THEN conjunct1]] scan]
  obtain k where k: "view s k = Some v" and v: "fxv_ref v = ref"
    using answers_sound [OF ans, of v] by auto
  from to_job_fold [OF rows_okD [OF assms(1) [THEN conjunct2] k] j] k v ref show ?thesis
    by (auto simp: fax_fold_def)
qed

lemma fax_get_row:
  assumes "idem_laws E view seen \<and> rows_ok fax_row_ok (view s)" "fax_get E ext i s = Inr j"
  shows "view s i = Some (fax_fold j) \<and> job_id j = i \<and> job_owner j = ext"
proof -
  obtain v where got: "eng_get E i s = Inr (Some v)" and own: "fxv_owner v = ext_string ext"
    and j: "to_job v = Inr j"
    using assms(2) by (auto simp: fax_get_def split: if_splits sum.splits option.splits)
  have v: "view s i = Some v" using engine_get [OF idem_engine_laws [OF assms(1) [THEN conjunct1]] got] by simp
  from to_job_fold [OF rows_okD [OF assms(1) [THEN conjunct2] v] j] v own show ?thesis
    by (cases ext; cases "job_owner j") (auto simp: fax_fold_def)
qed

interpretation engine_store:
  fax_store "engine_faxes E" view seen "\<lambda>s. idem_laws E view seen \<and> rows_ok fax_row_ok (view s)"
  for E :: "('s, string, fax_view) idem_engine" and view seen
proof unfold_locales
  fix s :: 's and job r s' at i d ik ext j ref v
  let ?ok = "\<lambda>s. idem_laws E view seen \<and> rows_ok fax_row_ok (view s)"
  assume ok: "?ok s"
  show "valid_job job \<Longrightarrow> fo_create (engine_faxes E) job s = (r, s') \<Longrightarrow> ?ok s' \<and> seen s' = seen s \<and>
      (view s' = (view s)(job_id job \<mapsto> fax_fold job) \<or> (\<exists>e. r = Inl e) \<and> view s' = view s)"
    using fax_create_keeps [OF ok] by (simp add: engine_faxes_def)
  show "fo_update (engine_faxes E) at i d s = (r, s') \<Longrightarrow> ?ok s' \<and> seen s' = seen s \<and>
      (r \<noteq> Inr () \<and> view s' = view s \<or>
       (\<exists>v. view s i = Some v \<and> view s' = (view s)(i \<mapsto> fax_advance_fold d at v)))"
    using fax_update_keeps [OF ok] by (simp add: engine_faxes_def)
  show "fo_advance (engine_faxes E) at ik i d s = (r, s') \<Longrightarrow> ?ok s' \<and>
      (r = Inr () \<longrightarrow> seen s' = insert ik (seen s)) \<and>
      (if ik \<in> seen s then view s' = view s
       else r \<noteq> Inr () \<and> view s' = view s \<or>
         (\<exists>v. view s i = Some v \<and> view s' = (view s)(i \<mapsto> fax_advance_fold d at v)))"
    using fax_advance_keeps [OF ok] by (simp add: engine_faxes_def)
  show "fo_get (engine_faxes E) ext i s = Inr j \<Longrightarrow>
      view s i = Some (fax_fold j) \<and> job_id j = i \<and> job_owner j = ext"
    using fax_get_row [OF ok] by (simp add: engine_faxes_def)
  show "fo_by_ref (engine_faxes E) ref s = Inr j \<Longrightarrow>
      view s (job_id j) = Some (fax_fold j) \<and> job_ref j = ref \<and> ref \<noteq> []"
    using fax_by_ref_row [OF ok] by (simp add: engine_faxes_def)
  show "view s i = Some v \<Longrightarrow> fax_row_ok i v" using ok by (auto dest: rows_okD)
qed

end
