(* ===== verification/Fax_Contract.thy ===== *)
theory Fax_Contract
  imports Fax_Service
begin

text \<open>
  What the fax service guarantees over a fax store that keeps the contract of
  \<open>fax_store\<close>: how rows may evolve under any sequence of operations, what a send, a resend
  and a series of provider verdicts do, and what the retention sweep removes. The
  extension \<open>reliable_fax_store\<close> adds that operations succeed; it is what the statements
  about outcomes need, while the safety statements hold whatever fails.
\<close>

section \<open>How a row may evolve\<close>

definition row_evolves :: "fax_view \<Rightarrow> fax_view \<Rightarrow> bool" where
  "row_evolves v v' \<longleftrightarrow>
     fxv_id v' = fxv_id v \<and> fxv_owner v' = fxv_owner v \<and> fxv_remote v' = fxv_remote v \<and>
     fxv_direction v' = fxv_direction v \<and> fxv_path v' = fxv_path v \<and>
     fxv_created v' = fxv_created v \<and> fax_reaches (fxv_status v) (fxv_status v')"

definition evolved :: "fax_id \<Rightarrow> (fax_id \<Rightarrow> fax_view option) \<Rightarrow> (fax_id \<Rightarrow> fax_view option) \<Rightarrow> bool" where
  "evolved i m m' \<longleftrightarrow>
     (\<forall>k. k \<noteq> i \<longrightarrow> m' k = m k) \<and>
     (\<forall>v. m i = Some v \<longrightarrow> (\<exists>v'. m' i = Some v' \<and> row_evolves v v'))"

lemma fax_reaches_trans: "fax_reaches b c \<Longrightarrow> fax_reaches a b \<Longrightarrow> fax_reaches a c"
  by (induction rule: fax_reaches.induct) (auto intro: fax_reaches.intros)

lemma row_evolves_refl [simp]: "row_evolves v v"
  by (simp add: row_evolves_def fax_here)

lemma row_evolves_trans: "row_evolves u v \<Longrightarrow> row_evolves v w \<Longrightarrow> row_evolves u w"
  by (auto simp: row_evolves_def intro: fax_reaches_trans)

lemma evolved_refl [simp]: "evolved i m m"
  by (simp add: evolved_def)

lemma evolved_trans: "evolved i m m' \<Longrightarrow> evolved i m' m'' \<Longrightarrow> evolved i m m''"
  unfolding evolved_def by (metis row_evolves_trans)

lemma evolved_advance:
  assumes "fax_reaches (fxv_status v) (fdl_status d)" "m i = Some v"
  shows "evolved i m (m(i \<mapsto> fax_advance_fold d at v))"
  using assms by (simp add: evolved_def row_evolves_def fax_advance_fold_def)

lemma reaches_move: "fax_advance s e = (s', True) \<Longrightarrow> fax_reaches s s'"
  by (meson fax_here fax_further fax_move)

lemma reaches_sending: "fax_reaches Fax_Queued Fax_Sending"
  by (rule reaches_move [of _ Fax_Accepted]) (simp add: fax_advance_simps)

lemma reaches_failed: "fax_reaches Fax_Queued Fax_Failed"
  by (rule reaches_move [of _ Fax_Submit_Failed]) (simp add: fax_advance_simps)

lemma reaches_transmitted: "fax_reaches Fax_Sending Fax_Transmitted"
  by (rule reaches_move [of _ Fax_Settled]) (simp add: fax_advance_simps)

context fax_store
begin

lemma update_evolves:
  assumes "ok s" "fo_update F at i d s = (r, s')" "jobs s i = Some v"
    and "fax_reaches (fxv_status v) (fdl_status d)"
  shows "ok s' \<and> seen s' = seen s \<and> evolved i (jobs s) (jobs s') \<and>
    (\<exists>v'. jobs s' i = Some v' \<and> (fxv_status v' = fxv_status v \<or> fxv_status v' = fdl_status d))"
proof -
  note up = update [OF assms(1,2)]
  then consider "jobs s' = jobs s" | "jobs s' = (jobs s)(i \<mapsto> fax_advance_fold d at v)"
    using assms(3) by auto
  then show ?thesis
  proof cases
    case 1
    then show ?thesis using up assms(3) by simp
  next
    case 2
    then show ?thesis
      using up evolved_advance [of v d "jobs s" i at, OF assms(4,3)] by (auto simp: fax_advance_fold_def)
  qed
qed

text \<open>Driving a queued job only moves its own row, along legal moves.\<close>

lemma drive_failed_evolves:
  assumes "ok (fw_store w)" "jobs (fw_store w) (job_id job) = Some v" "fxv_status v = Fax_Queued"
    and "drive_failed F at job e w = (res, w')"
  shows "ok (fw_store w') \<and> seen (fw_store w') = seen (fw_store w) \<and>
    evolved (job_id job) (jobs (fw_store w)) (jobs (fw_store w'))"
proof -
  let ?d = "\<lparr>fdl_status = Fax_Failed, fdl_ref = [], fdl_error = send_error_text e, fdl_pages = 0\<rparr>"
  let ?p = "fo_update F at (job_id job) ?d (fw_store w)"
  have store: "fw_store w' = snd ?p"
    using assms(4) by (auto simp: drive_failed_def Let_def)
  show ?thesis
    using update_evolves [OF assms(1) _ assms(2), of at ?d "fst ?p" "snd ?p"] assms(3) reaches_failed
    unfolding store by simp
qed

lemma drive_accepted_evolves:
  assumes "ok (fw_store w)" "jobs (fw_store w) (job_id job) = Some v" "fxv_status v = Fax_Queued"
    and "drive_accepted F at job rcp w = (res, w')"
  shows "ok (fw_store w') \<and> seen (fw_store w') = seen (fw_store w) \<and>
    evolved (job_id job) (jobs (fw_store w)) (jobs (fw_store w'))"
proof -
  let ?d1 = "\<lparr>fdl_status = Fax_Sending, fdl_ref = rcp_ref rcp, fdl_error = [], fdl_pages = 0\<rparr>"
  let ?d2 = "\<lparr>fdl_status = Fax_Transmitted, fdl_ref = [], fdl_error = [], fdl_pages = 1\<rparr>"
  obtain r1 s1 where up1: "fo_update F (at 0) (job_id job) ?d1 (fw_store w) = (r1, s1)" by fastforce
  obtain r2 s2 where up2: "fo_update F (at 1) (job_id job) ?d2 s1 = (r2, s2)" by fastforce
  have store: "fw_store w' = (if rcp_resolution rcp = Resolution_Immediate then s2 else s1)"
    using assms(4) up1 up2 by (auto simp: drive_accepted_def Let_def)
  from update_evolves [OF assms(1) up1 assms(2)] assms(3) reaches_sending
  obtain v1 where one: "ok s1" "seen s1 = seen (fw_store w)"
    "evolved (job_id job) (jobs (fw_store w)) (jobs s1)" "jobs s1 (job_id job) = Some v1"
    "fxv_status v1 = Fax_Queued \<or> fxv_status v1 = Fax_Sending"
    by auto
  have "fax_reaches (fxv_status v1) Fax_Transmitted"
    using one(5) reaches_transmitted reaches_sending fax_reaches_trans by auto
  with update_evolves [OF one(1) up2 one(4)]
  have two: "ok s2" "seen s2 = seen s1" "evolved (job_id job) (jobs s1) (jobs s2)" by simp_all
  show ?thesis
    using one two evolved_trans [OF one(3) two(3)] unfolding store by simp
qed

lemma drive_evolves:
  assumes "ok (fw_store w)" "jobs (fw_store w) (job_id job) = Some v" "fxv_status v = Fax_Queued"
    and "drive F svc at job w = (res, w')"
  shows "ok (fw_store w') \<and> seen (fw_store w') = seen (fw_store w) \<and>
    evolved (job_id job) (jobs (fw_store w)) (jobs (fw_store w'))"
proof (cases "self_send_rejection (fsv_identities svc) (job_owner job) (job_remote job) fax_self_send_detail")
  case (Some e)
  then show ?thesis using drive_failed_evolves [OF assms(1-3)] assms(4) by (simp add: drive_def)
next
  case None
  show ?thesis
  proof (cases "must (parse_rel_path (job_path job))")
    case (Inl e)
    then show ?thesis using None assms(1,4) by (auto simp: drive_def)
  next
    case (Inr rel)
    let ?out = "\<lparr>ofx_owner = job_owner job, ofx_to = job_remote job, ofx_path = blob_abs (fsv_root svc) rel\<rparr>"
    let ?w = "w\<lparr>fw_sent := fw_sent w @ [?out]\<rparr>"
    note run = assms(4) [unfolded drive_def None Inr]
    show ?thesis
    proof (cases "fsv_gateway svc ?out")
      case (Inl e)
      then have "drive_failed F (at 0) job e ?w = (res, w')" using run by simp
      from drive_failed_evolves [OF _ _ _ this, of v] show ?thesis using assms(1-3) by simp
    next
      case (Inr rcp)
      then have "drive_accepted F at job rcp ?w = (res, w')" using run by simp
      from drive_accepted_evolves [OF _ _ _ this, of v] show ?thesis using assms(1-3) by simp
    qed
  qed
qed

text \<open>Submitting adds at most the row of the job, which then evolves from its first state.\<close>

lemma submit_evolves:
  assumes "ok (fw_store w)" "valid_job job" "jobs (fw_store w) (job_id job) = None"
    and "job_status job = Fax_Queued" "submit F svc at job w = (res, w')"
  shows "ok (fw_store w') \<and> seen (fw_store w') = seen (fw_store w) \<and>
    (\<forall>k. k \<noteq> job_id job \<longrightarrow> jobs (fw_store w') k = jobs (fw_store w) k) \<and>
    (\<forall>v. jobs (fw_store w') (job_id job) = Some v \<longrightarrow> row_evolves (fax_fold job) v)"
proof -
  obtain r s where mk: "fo_create F job (fw_store w) = (r, s)" by fastforce
  note cr = create [OF assms(1,2) mk]
  show ?thesis
  proof (cases r)
    case (Inl e)
    then have "fw_store w' = s" using assms(5) mk by (auto simp: submit_def)
    then show ?thesis using cr assms(3) by auto
  next
    case (Inr u)
    let ?w = "w\<lparr>fw_store := s, fw_events := fw_events w @ [Fax_Advanced (job_owner job) (job_id job)]\<rparr>"
    have js: "jobs s = (jobs (fw_store w))(job_id job \<mapsto> fax_fold job)" using cr Inr by simp
    have "drive F svc at job ?w = (res, w')" using assms(5) mk Inr by (simp add: submit_def)
    from drive_evolves [OF _ _ _ this, of "fax_fold job"] cr js assms(4)
    have "ok (fw_store w')" "seen (fw_store w') = seen (fw_store w)"
      "evolved (job_id job) (jobs s) (jobs (fw_store w'))"
      by (simp_all add: fax_fold_def)
    then show ?thesis unfolding evolved_def js by auto
  qed
qed

text \<open>A verdict only moves the row it names.\<close>

lemma verdict_evolves:
  assumes "ok (fw_store w)" "update_provider_status F at ref status pages msg w = (res, w')"
  shows "ok (fw_store w') \<and> (\<exists>i. evolved i (jobs (fw_store w)) (jobs (fw_store w')) \<and>
    (\<forall>k. jobs (fw_store w) k = None \<longrightarrow> jobs (fw_store w') k = None))"
proof (cases "fo_by_ref F ref (fw_store w)")
  case (Inl e)
  then have "w' = w" using assms(2) by (simp add: update_provider_status_def)
  then show ?thesis using assms(1) by auto
next
  case (Inr job)
  let ?st = "if status = Fax_Received then Fax_Transmitted else status"
  note row = by_ref_row [OF assms(1) Inr]
  obtain nxt okay where move: "fax_advance (job_status job) (Fax_Verdict ?st) = (nxt, okay)" by fastforce
  show ?thesis
  proof (cases okay)
    case False
    then have "w' = w" using assms(2) Inr move by (simp add: update_provider_status_def Let_def)
    then show ?thesis using assms(1) by auto
  next
    case True
    let ?d = "\<lparr>fdl_status = nxt, fdl_ref = [], fdl_error = msg, fdl_pages = pages\<rparr>"
    obtain r s where adv: "fo_advance F at (verdict_key ref ?st) (job_id job) ?d (fw_store w) = (r, s)"
      by fastforce
    have s: "fw_store w' = s"
      using assms(2) Inr move True adv
      by (auto simp: update_provider_status_def Let_def split: sum.splits)
    have "fax_reaches (fxv_status (fax_fold job)) (fdl_status ?d)"
      using reaches_move move True by (simp add: fax_fold_def)
    from evolved_advance [OF this, of "jobs (fw_store w)" "job_id job" at] row
    have ev: "evolved (job_id job) (jobs (fw_store w))
        ((jobs (fw_store w))(job_id job \<mapsto> fax_advance_fold ?d at (fax_fold job)))"
      by simp
    have "jobs s = jobs (fw_store w) \<or>
      jobs s = (jobs (fw_store w))(job_id job \<mapsto> fax_advance_fold ?d at (fax_fold job))" and oks: "ok s"
      using advance [OF assms(1) adv] row by (auto split: if_splits)
    then have "evolved (job_id job) (jobs (fw_store w)) (jobs s) \<and>
      (\<forall>k. jobs (fw_store w) k = None \<longrightarrow> jobs s k = None)"
      using ev row by auto
    then show ?thesis using oks unfolding s by blast
  qed
qed

end

section \<open>Any sequence of operations\<close>

text \<open>
  One operation of the service on its world, with a fresh identifier and valid parties
  where it makes a row; any store, blob or gateway call may fail.
\<close>

inductive fax_step_world ::
  "'s fax_ops \<Rightarrow> ('s \<Rightarrow> fax_id \<Rightarrow> fax_view option) \<Rightarrow> fax_service \<Rightarrow> 's fax_world \<Rightarrow> 's fax_world \<Rightarrow> bool"
  for F jobs svc where
  send: "jobs (fw_store w) fid = None \<Longrightarrow> valid_id fid \<Longrightarrow> valid_extension owner \<Longrightarrow>
     valid_dialable (phone_string to) \<Longrightarrow>
     send_fax F svc fl at name fid now owner to pdf w = (res, w') \<Longrightarrow> fax_step_world F jobs svc w w'"
| resend: "jobs (fw_store w) fid = None \<Longrightarrow> valid_id fid \<Longrightarrow>
     resend_fax F svc fl at fid now owner i w = (res, w') \<Longrightarrow> fax_step_world F jobs svc w w'"
| receive: "jobs (fw_store w) fid = None \<Longrightarrow> valid_id fid \<Longrightarrow> valid_extension (ifx_owner inb) \<Longrightarrow>
     valid_dialable (phone_string (ifx_from inb)) \<Longrightarrow>
     receive_fax F fl name fid clock inb w = (res', w') \<Longrightarrow> fax_step_world F jobs svc w w'"
| verdict: "update_provider_status F at' ref status pages msg w = (res', w') \<Longrightarrow>
     fax_step_world F jobs svc w w'"

definition fax_born :: "fax_view \<Rightarrow> bool" where
  "fax_born v \<longleftrightarrow>
     (case fxv_direction v of
        Fax_Outbound \<Rightarrow> fax_reaches Fax_Queued (fxv_status v)
      | Fax_Inbound \<Rightarrow> fxv_status v = Fax_Received)"

lemma fax_born_iff:
  "fax_born v \<longleftrightarrow>
     (if fxv_direction v = Fax_Inbound then fxv_status v = Fax_Received
      else fax_reaches Fax_Queued (fxv_status v))"
  by (cases "fxv_direction v") (simp_all add: fax_born_def)

definition rows_live :: "(fax_id \<Rightarrow> fax_view option) \<Rightarrow> (fax_id \<Rightarrow> fax_view option) \<Rightarrow> bool" where
  "rows_live m m' \<longleftrightarrow>
     (\<forall>i v. m i = Some v \<longrightarrow> (\<exists>v'. m' i = Some v' \<and> row_evolves v v')) \<and>
     (\<forall>i v'. m i = None \<and> m' i = Some v' \<longrightarrow> fax_born v')"

lemma rows_live_refl [simp]: "rows_live m m"
  by (auto simp: rows_live_def)

lemma fax_born_evolves: "fax_born v \<Longrightarrow> row_evolves v v' \<Longrightarrow> fax_born v'"
proof (cases "fxv_direction v")
  case Fax_Outbound
  then show "fax_born v \<Longrightarrow> row_evolves v v' \<Longrightarrow> fax_born v'"
    by (auto simp: fax_born_def row_evolves_def intro: fax_reaches_trans)
next
  case Fax_Inbound
  have "fax_reaches Fax_Received t \<Longrightarrow> t = Fax_Received" for t
    by (induction Fax_Received t rule: fax_reaches.induct) (auto simp: fax_step_iff fax_received_inert)
  then show "fax_born v \<Longrightarrow> row_evolves v v' \<Longrightarrow> fax_born v'"
    using Fax_Inbound by (auto simp: fax_born_def row_evolves_def)
qed

lemma rows_live_trans:
  assumes "rows_live m m'" "rows_live m' m''"
  shows "rows_live m m''"
  unfolding rows_live_def
proof (intro conjI allI impI)
  fix i v assume "m i = Some v"
  then obtain v' where v': "m' i = Some v'" "row_evolves v v'" using assms(1) unfolding rows_live_def by blast
  then obtain v'' where "m'' i = Some v''" "row_evolves v' v''" using assms(2) unfolding rows_live_def by blast
  with v' show "\<exists>v'. m'' i = Some v' \<and> row_evolves v v'" using row_evolves_trans by blast
next
  fix i v'' assume i: "m i = None \<and> m'' i = Some v''"
  show "fax_born v''"
  proof (cases "m' i")
    case None
    then show ?thesis using assms(2) i unfolding rows_live_def by blast
  next
    case (Some v')
    then have "fax_born v'" using assms(1) i unfolding rows_live_def by blast
    moreover have "row_evolves v' v''"
      using assms(2) i Some unfolding rows_live_def by (metis option.inject)
    ultimately show ?thesis by (rule fax_born_evolves)
  qed
qed

lemma rows_live_evolved:
  "evolved i m m' \<Longrightarrow> \<forall>k. m k = None \<longrightarrow> m' k = None \<Longrightarrow> rows_live m m'"
  unfolding evolved_def rows_live_def by (metis option.distinct(1) row_evolves_refl)

lemma rows_live_submit:
  assumes "m i = None" "\<forall>k. k \<noteq> i \<longrightarrow> m' k = m k" "\<forall>v. m' i = Some v \<longrightarrow> row_evolves v0 v" "fax_born v0"
  shows "rows_live m m'"
  using assms fax_born_evolves unfolding rows_live_def
  by (metis option.distinct(1) row_evolves_refl)

lemma spooled_path: "blob_save fl name ''faxes'' ext pdf fs = (Inr path, fs') \<Longrightarrow>
  parse_rel_path (rel_string path) = Inr (Rel_Path (rel_string path))"
  using blob_save_ok [of fl name "''faxes''" ext pdf fs path fs'] by (metis rel_path.collapse)

lemma outbound_born [simp]: "fax_born (fax_fold (new_outbound_fax_job fid owner to path now))"
  by (simp add: fax_born_def fax_fold_def new_outbound_fax_job_def fax_here)

lemma inbound_born [simp]: "fax_born (fax_fold (new_inbound_fax_job fid owner from' path ref pages now))"
  by (simp add: fax_born_def fax_fold_def new_inbound_fax_job_def)

lemma new_outbound_valid:
  "valid_id fid \<Longrightarrow> valid_dialable (ext_string owner) \<Longrightarrow> valid_dialable (phone_string to) \<Longrightarrow>
     parse_rel_path path = Inr (Rel_Path path) \<Longrightarrow> valid_job (new_outbound_fax_job fid owner to path now)"
  by (simp add: valid_job_def fax_row_ok_def fax_fold_def new_outbound_fax_job_def)

lemma new_inbound_valid:
  "valid_id fid \<Longrightarrow> valid_dialable (ext_string owner) \<Longrightarrow> valid_dialable (phone_string from') \<Longrightarrow>
     parse_rel_path path = Inr (Rel_Path path) \<Longrightarrow>
     valid_job (new_inbound_fax_job fid owner from' path ref pages now)"
  by (simp add: valid_job_def fax_row_ok_def fax_fold_def new_inbound_fax_job_def)

context fax_store
begin

lemma submit_live:
  assumes "ok (fw_store w)" "valid_job job" "jobs (fw_store w) (job_id job) = None"
    and "job_status job = Fax_Queued" "fax_born (fax_fold job)" "submit F svc at job w = (res, w')"
  shows "ok (fw_store w') \<and> rows_live (jobs (fw_store w)) (jobs (fw_store w'))"
  using submit_evolves [OF assms(1-4,6)] assms(3,5)
    rows_live_submit [of "jobs (fw_store w)" "job_id job" "jobs (fw_store w')" "fax_fold job"] by blast

lemma send_live:
  assumes "ok (fw_store w)" "jobs (fw_store w) fid = None" "valid_id fid" "valid_extension owner"
    and "valid_dialable (phone_string to)" "send_fax F svc fl at name fid now owner to pdf w = (res, w')"
  shows "ok (fw_store w') \<and> rows_live (jobs (fw_store w)) (jobs (fw_store w'))"
proof (cases "\<exists>u path fs. validate_fax pdf = Inr u \<and>
    blob_save fl name ''faxes'' ''.pdf'' pdf (fw_files w) = (Inr path, fs)")
  case False
  then have "fw_store w' = fw_store w"
    using assms(6) by (auto simp: send_fax_def split: sum.splits prod.splits)
  then show ?thesis using assms(1) by simp
next
  case True
  then obtain u path fs where ok: "validate_fax pdf = Inr u"
    "blob_save fl name ''faxes'' ''.pdf'' pdf (fw_files w) = (Inr path, fs)" by blast
  let ?job = "new_outbound_fax_job fid owner to (rel_string path) now"
  have "submit F svc at ?job (w\<lparr>fw_files := fs\<rparr>) = (res, w')"
    using assms(6) ok by (simp add: send_fax_def)
  from submit_live [OF _ _ _ _ _ this] assms(1-5) spooled_path [OF ok(2)]
  show ?thesis
    by (simp add: new_outbound_valid valid_extension_def) (simp add: new_outbound_fax_job_def)
qed

lemma resend_live:
  assumes "ok (fw_store w)" "jobs (fw_store w) fid = None" "valid_id fid"
    and "resend_fax F svc fl at fid now owner i w = (res, w')"
  shows "ok (fw_store w') \<and> rows_live (jobs (fw_store w)) (jobs (fw_store w'))"
proof (cases "\<exists>job rel c. fo_get F owner i (fw_store w) = Inr job \<and>
    job_direction job = Fax_Outbound \<and> job_status job = Fax_Failed \<and>
    must (parse_rel_path (job_path job)) = Inr rel \<and> blob_open fl rel (fw_files w) = Inr c")
  case False
  then have "w' = w"
    using assms(4) unfolding resend_fax_def by (auto split: sum.splits if_splits)
  then show ?thesis using assms(1) by simp
next
  case True
  then obtain job rel c where job: "fo_get F owner i (fw_store w) = Inr job"
    "job_direction job = Fax_Outbound" "job_status job = Fax_Failed"
    "must (parse_rel_path (job_path job)) = Inr rel" "blob_open fl rel (fw_files w) = Inr c" by blast
  let ?job = "new_outbound_fax_job fid owner (job_remote job) (job_path job) now"
  have row: "fax_row_ok i (fax_fold job)" "job_owner job = owner"
    using get_row [OF assms(1) job(1)] rows [OF assms(1)] by blast+
  have "submit F svc at ?job w = (res, w')"
    using assms(4) job by (simp add: resend_fax_def)
  from submit_live [OF assms(1) _ _ _ _ this] assms(2,3) row
  show ?thesis
    by (simp add: new_outbound_valid fax_row_ok_def fax_fold_def [of job])
      (simp add: new_outbound_fax_job_def)
qed

lemma receive_live:
  assumes "ok (fw_store w)" "jobs (fw_store w) fid = None" "valid_id fid" "valid_extension (ifx_owner inb)"
    and "valid_dialable (phone_string (ifx_from inb))" "receive_fax F fl name fid clock inb w = (res, w')"
  shows "ok (fw_store w') \<and> rows_live (jobs (fw_store w)) (jobs (fw_store w'))"
proof (cases "\<exists>path fs. ifx_pdf inb \<noteq> [] \<and>
    blob_save fl name ''faxes'' ''.pdf'' (ifx_pdf inb) (fw_files w) = (Inr path, fs)")
  case False
  then have "fw_store w' = fw_store w"
    using assms(6) by (auto simp: receive_fax_def Let_def split: if_splits sum.splits prod.splits)
  then show ?thesis using assms(1) by simp
next
  case True
  then obtain path fs where ok: "ifx_pdf inb \<noteq> []"
    "blob_save fl name ''faxes'' ''.pdf'' (ifx_pdf inb) (fw_files w) = (Inr path, fs)" by blast
  let ?job = "new_inbound_fax_job fid (ifx_owner inb) (ifx_from inb) (rel_string path) (ifx_ref inb)
    (ifx_pages inb) (or_clock (ifx_received inb) clock)"
  obtain r s where mk: "fo_create F ?job (fw_store w) = (r, s)" by fastforce
  have s: "fw_store w' = s"
    using assms(6) ok mk by (auto simp: receive_fax_def Let_def split: sum.splits)
  have fid: "job_id ?job = fid" by (simp add: new_inbound_fax_job_def)
  have "valid_job ?job"
    using assms(3-5) spooled_path [OF ok(2)] by (simp add: new_inbound_valid valid_extension_def)
  from create [OF assms(1) this mk] fid assms(2)
  have "ok s" "\<forall>k. k \<noteq> fid \<longrightarrow> jobs s k = jobs (fw_store w) k"
    "\<forall>v. jobs s fid = Some v \<longrightarrow> row_evolves (fax_fold ?job) v"
    by auto
  then show ?thesis
    using rows_live_submit [of "jobs (fw_store w)" fid "jobs s" "fax_fold ?job"] assms(2)
    unfolding s by simp
qed

lemma step_live:
  assumes "fax_step_world F jobs svc w w'" "ok (fw_store w)"
  shows "ok (fw_store w') \<and> rows_live (jobs (fw_store w)) (jobs (fw_store w'))"
  using assms(1)
proof cases
  case send
  then show ?thesis using send_live assms(2) by blast
next
  case resend
  then show ?thesis using resend_live assms(2) by blast
next
  case receive
  then show ?thesis using receive_live assms(2) by blast
next
  case verdict
  then show ?thesis using verdict_evolves [OF assms(2)] rows_live_evolved by blast
qed

lemma run_live:
  assumes "(fax_step_world F jobs svc)\<^sup>*\<^sup>* w w'" "ok (fw_store w)"
  shows "ok (fw_store w') \<and> rows_live (jobs (fw_store w)) (jobs (fw_store w'))"
  using assms
proof (induction rule: rtranclp_induct)
  case base
  then show ?case by simp
next
  case (step u v)
  then show ?case using step_live rows_live_trans by blast
qed

end

text \<open>
  C8. Under any sequence of sends, resends, receptions and provider verdicts, with any
  failures of the engine, the disk and the gateway, no fax row is lost, a row never changes
  its owner, number, direction or document, its status only moves along the machine, an
  outbound row is never turned into the inbound fact received, and an inbound row stays
  received for ever.
\<close>

theorem fax_rows_live:
  assumes "idem_laws E view seen" "rows_ok fax_row_ok (view (fw_store w))"
    and "(fax_step_world (engine_faxes E) view svc)\<^sup>*\<^sup>* w w'"
  shows "(\<forall>i v. view (fw_store w) i = Some v \<longrightarrow> (\<exists>v'. view (fw_store w') i = Some v' \<and>
      fxv_id v' = fxv_id v \<and> fxv_owner v' = fxv_owner v \<and> fxv_remote v' = fxv_remote v \<and>
      fxv_direction v' = fxv_direction v \<and> fxv_path v' = fxv_path v \<and>
      fax_reaches (fxv_status v) (fxv_status v'))) \<and>
    (\<forall>i v'. view (fw_store w) i = None \<and> view (fw_store w') i = Some v' \<longrightarrow>
      (if fxv_direction v' = Fax_Inbound then fxv_status v' = Fax_Received
       else fax_reaches Fax_Queued (fxv_status v')))"
proof -
  have "rows_live (view (fw_store w)) (view (fw_store w'))"
    using engine_store.run_live [OF assms(3), of seen] assms(1,2) by simp
  then show ?thesis
    unfolding rows_live_def row_evolves_def fax_born_iff by fast
qed

section \<open>Outcomes over a store that does not fail\<close>

locale reliable_fax_store = fax_store +
  assumes create_ok: "ok s \<Longrightarrow> valid_job job \<Longrightarrow> fst (fo_create F job s) = Inr ()"
    and update_ok: "ok s \<Longrightarrow> jobs s i = Some v \<Longrightarrow> fst (fo_update F at i d s) = Inr ()"
    and advance_ok: "ok s \<Longrightarrow> jobs s i = Some v \<Longrightarrow> fst (fo_advance F at ik i d s) = Inr ()"
    and by_ref_ok: "ok s \<Longrightarrow> jobs s i = Some v \<Longrightarrow> fxv_ref v = ref \<Longrightarrow> ref \<noteq> [] \<Longrightarrow>
      \<exists>j. fo_by_ref F ref s = Inr j"

lemma reliable_get:
  "idem_laws E view seen \<Longrightarrow> idem_reliable E \<Longrightarrow> eng_get E k s = Inr (view s k)"
  unfolding idem_reliable_def reliable_def using engine_get [OF idem_engine_laws] by metis

lemma fax_by_ref_found:
  assumes laws: "idem_laws E view seen" and rel: "idem_reliable E" and rows: "rows_ok fax_row_ok (view s)"
    and row: "view s i = Some v" "fxv_ref v = ref" "ref \<noteq> []"
  shows "\<exists>j. fax_by_ref E ref s = Inr j"
proof -
  let ?q = "\<lparr>q_filter = (\<lambda>v. fxv_ref v = ref), q_sort = None, q_desc = False, q_limit = 2\<rparr>"
  obtain vs where scan: "eng_scan E ?q s = Inr vs" using rel unfolding idem_reliable_def reliable_def by blast
  note ans = engine_scan [OF idem_engine_laws [OF laws] scan]
  obtain ks where ks: "set ks = matching (q_filter ?q) (view s)"
    "vs = take 2 (query_order ?q (map (\<lambda>k. the (view s k)) ks))"
    using ans unfolding answers_def by auto
  have "i \<in> set ks" using ks(1) row by (simp add: matching_def)
  then have "vs \<noteq> []" using ks(2) by (cases ks) (auto simp: query_order_def)
  then obtain w ws where vs: "vs = w # ws" by (cases vs) auto
  obtain k where "view s k = Some w" using answers_sound [OF ans, of w] vs by auto
  then have "fax_row_ok k w" by (rule rows_okD [OF rows])
  then obtain j where "to_job w = Inr j" using to_job_total by blast
  then show ?thesis using row(3) scan vs by (simp add: fax_by_ref_def)
qed

interpretation engine_outcomes:
  reliable_fax_store "engine_faxes E" view seen
    "\<lambda>s. idem_laws E view seen \<and> rows_ok fax_row_ok (view s) \<and> idem_reliable E"
  for E :: "('s, string, fax_view) idem_engine" and view seen
proof unfold_locales
  fix s :: 's and job r s' at i d ik ext j ref v
  let ?ok = "\<lambda>s. idem_laws E view seen \<and> rows_ok fax_row_ok (view s) \<and> idem_reliable E"
  assume ok: "?ok s"
  note get = reliable_get [of E view seen]
  show "valid_job job \<Longrightarrow> fo_create (engine_faxes E) job s = (r, s') \<Longrightarrow> ?ok s' \<and> seen s' = seen s \<and>
      (view s' = (view s)(job_id job \<mapsto> fax_fold job) \<or> (\<exists>e. r = Inl e) \<and> view s' = view s)"
    using engine_store.create [of E view seen s job r s'] ok by simp
  show "fo_update (engine_faxes E) at i d s = (r, s') \<Longrightarrow> ?ok s' \<and> seen s' = seen s \<and>
      (r \<noteq> Inr () \<and> view s' = view s \<or>
       (\<exists>v. view s i = Some v \<and> view s' = (view s)(i \<mapsto> fax_advance_fold d at v)))"
    using engine_store.update [of E view seen s at i d r s'] ok by simp
  show "fo_advance (engine_faxes E) at ik i d s = (r, s') \<Longrightarrow> ?ok s' \<and>
      (r = Inr () \<longrightarrow> seen s' = insert ik (seen s)) \<and>
      (if ik \<in> seen s then view s' = view s
       else r \<noteq> Inr () \<and> view s' = view s \<or>
         (\<exists>v. view s i = Some v \<and> view s' = (view s)(i \<mapsto> fax_advance_fold d at v)))"
    using engine_store.advance [of E view seen s at ik i d r s'] ok by simp
  show "fo_get (engine_faxes E) ext i s = Inr j \<Longrightarrow>
      view s i = Some (fax_fold j) \<and> job_id j = i \<and> job_owner j = ext"
    using engine_store.get_row [of E view seen s ext i j] ok by simp
  show "fo_by_ref (engine_faxes E) ref s = Inr j \<Longrightarrow>
      view s (job_id j) = Some (fax_fold j) \<and> job_ref j = ref \<and> ref \<noteq> []"
    using engine_store.by_ref_row [of E view seen s ref j] ok by simp
  show "view s i = Some v \<Longrightarrow> fax_row_ok i v" using ok by (auto dest: rows_okD)
  show "fst (fo_create (engine_faxes E) job s) = Inr ()"
    using ok by (simp add: engine_faxes_def fax_create_def wrap_write_def idem_reliable_def reliable_def)
  show "view s i = Some v \<Longrightarrow> fst (fo_update (engine_faxes E) at i d s) = Inr ()"
    using ok get by (simp add: engine_faxes_def fax_update_status_def wrap_write_def idem_reliable_def reliable_def)
  show "view s i = Some v \<Longrightarrow> fst (fo_advance (engine_faxes E) at ik i d s) = Inr ()"
    using ok get by (simp add: engine_faxes_def fax_advance_idempotent_def wrap_write_def idem_reliable_def)
  show "view s i = Some v \<Longrightarrow> fxv_ref v = ref \<Longrightarrow> ref \<noteq> [] \<Longrightarrow> \<exists>j. fo_by_ref (engine_faxes E) ref s = Inr j"
    using fax_by_ref_found [of E view seen s i v ref] ok by (simp add: engine_faxes_def)
qed

text \<open>The answer a job gets: the local refusal of a self send, or the gateway's.\<close>

definition fax_answer :: "fax_service \<Rightarrow> fax_job \<Rightarrow> send_error + receipt" where
  "fax_answer svc job =
     (case self_send_rejection (fsv_identities svc) (job_owner job) (job_remote job) fax_self_send_detail of
        Some e \<Rightarrow> Inl e
      | None \<Rightarrow> fsv_gateway svc
          \<lparr>ofx_owner = job_owner job, ofx_to = job_remote job,
           ofx_path = blob_abs (fsv_root svc) (Rel_Path (job_path job))\<rparr>)"

definition answer_status :: "send_error + receipt \<Rightarrow> fax_status" where
  "answer_status a =
     (case a of
        Inl _ \<Rightarrow> Fax_Failed
      | Inr rcp \<Rightarrow> (case rcp_resolution rcp of
                     Resolution_Immediate \<Rightarrow> Fax_Transmitted | Resolution_Deferred \<Rightarrow> Fax_Sending))"

definition answer_ref :: "send_error + receipt \<Rightarrow> string" where
  "answer_ref a = (case a of Inl _ \<Rightarrow> [] | Inr rcp \<Rightarrow> rcp_ref rcp)"

definition answer_error :: "send_error + receipt \<Rightarrow> string" where
  "answer_error a = (case a of Inl e \<Rightarrow> send_error_text e | Inr _ \<Rightarrow> [])"

context reliable_fax_store
begin

lemma update_done:
  assumes "ok s" "jobs s i = Some v"
  shows "\<exists>s'. fo_update F at i d s = (Inr (), s') \<and> ok s' \<and> seen s' = seen s \<and>
    jobs s' = (jobs s)(i \<mapsto> fax_advance_fold d at v)"
proof -
  obtain s' where "fo_update F at i d s = (Inr (), s')"
    using update_ok [OF assms] by (metis prod.collapse)
  with update [OF assms(1) this] assms(2) show ?thesis by auto
qed

lemma drive_failed_settles:
  assumes "ok (fw_store w)" "jobs (fw_store w) (job_id job) = Some (fax_fold job)"
    and "job_status job = Fax_Queued" "job_ref job = []"
  shows "\<exists>w' v'. drive_failed F at job e w =
      ((Some (job\<lparr>job_status := Fax_Failed, job_error := send_error_text e\<rparr>), Some (Forward_Error e)), w') \<and>
    ok (fw_store w') \<and> jobs (fw_store w') = (jobs (fw_store w))(job_id job \<mapsto> v') \<and>
    fxv_status v' = Fax_Failed \<and> fxv_ref v' = [] \<and> fxv_error v' = send_error_text e \<and> fxv_pages v' = 0"
proof -
  let ?d = "\<lparr>fdl_status = Fax_Failed, fdl_ref = [], fdl_error = send_error_text e, fdl_pages = 0\<rparr>"
  obtain s where "fo_update F at (job_id job) ?d (fw_store w) = (Inr (), s)" "ok s"
    "jobs s = (jobs (fw_store w))(job_id job \<mapsto> fax_advance_fold ?d at (fax_fold job))"
    using update_done [OF assms(1,2)] by blast
  then show ?thesis
    using assms(3,4)
    by (auto simp: drive_failed_def Let_def fax_advance_simps fax_advance_fold_def fax_fold_def)
qed

lemma drive_accepted_settles:
  assumes "ok (fw_store w)" "jobs (fw_store w) (job_id job) = Some (fax_fold job)"
    and "job_status job = Fax_Queued" "job_ref job = []" "job_error job = []"
  shows "\<exists>w' v'. drive_accepted F at job rcp w =
      ((Some (job\<lparr>job_status := answer_status (Inr rcp), job_ref := rcp_ref rcp\<rparr>), None), w') \<and>
    ok (fw_store w') \<and> jobs (fw_store w') = (jobs (fw_store w))(job_id job \<mapsto> v') \<and>
    fxv_status v' = answer_status (Inr rcp) \<and> fxv_ref v' = rcp_ref rcp \<and> fxv_error v' = [] \<and>
    fxv_pages v' = (if rcp_resolution rcp = Resolution_Immediate then 1 else 0)"
proof -
  let ?d1 = "\<lparr>fdl_status = Fax_Sending, fdl_ref = rcp_ref rcp, fdl_error = [], fdl_pages = 0\<rparr>"
  let ?d2 = "\<lparr>fdl_status = Fax_Transmitted, fdl_ref = [], fdl_error = [], fdl_pages = 1\<rparr>"
  let ?v1 = "fax_advance_fold ?d1 (at 0) (fax_fold job)"
  obtain s1 where one: "fo_update F (at 0) (job_id job) ?d1 (fw_store w) = (Inr (), s1)" "ok s1"
    "jobs s1 = (jobs (fw_store w))(job_id job \<mapsto> ?v1)"
    using update_done [OF assms(1,2), of "at 0" ?d1] by blast
  then have "jobs s1 (job_id job) = Some ?v1" by simp
  from update_done [OF one(2) this, of "at 1" ?d2]
  obtain s2 where two: "fo_update F (at 1) (job_id job) ?d2 s1 = (Inr (), s2)" "ok s2"
    "jobs s2 = (jobs (fw_store w))(job_id job \<mapsto> fax_advance_fold ?d2 (at 1) ?v1)"
    using one(3) by auto
  show ?thesis
    using one two assms(3-5)
    by (cases "rcp_resolution rcp")
      (auto simp: drive_accepted_def Let_def fax_advance_simps answer_status_def fax_advance_fold_def fax_fold_def)
qed

lemma submit_settles:
  assumes ok: "ok (fw_store w)" and job: "valid_job job" "job_status job = Fax_Queued"
    "job_ref job = []" "job_error job = []"
  shows "\<exists>w' v'. submit F svc at job w =
      ((Some (job\<lparr>job_status := answer_status (fax_answer svc job), job_ref := answer_ref (fax_answer svc job),
               job_error := answer_error (fax_answer svc job)\<rparr>),
        case fax_answer svc job of Inl e \<Rightarrow> Some (Forward_Error e) | Inr _ \<Rightarrow> None), w') \<and>
    ok (fw_store w') \<and> jobs (fw_store w') = (jobs (fw_store w))(job_id job \<mapsto> v') \<and>
    fxv_status v' = answer_status (fax_answer svc job) \<and> fxv_ref v' = answer_ref (fax_answer svc job) \<and>
    fxv_error v' = answer_error (fax_answer svc job) \<and>
    fxv_pages v' = (if answer_status (fax_answer svc job) = Fax_Transmitted then 1 else 0)"
proof -
  obtain s where mk: "fo_create F job (fw_store w) = (Inr (), s)" "ok s"
    "jobs s = (jobs (fw_store w))(job_id job \<mapsto> fax_fold job)"
    using create_ok [OF ok job(1)] create [OF ok job(1)] by (metis prod.collapse old.sum.distinct(1))
  let ?w = "w\<lparr>fw_store := s, fw_events := fw_events w @ [Fax_Advanced (job_owner job) (job_id job)]\<rparr>"
  let ?out = "\<lparr>ofx_owner = job_owner job, ofx_to = job_remote job,
      ofx_path = blob_abs (fsv_root svc) (Rel_Path (job_path job))\<rparr>"
  have path: "parse_rel_path (job_path job) = Inr (Rel_Path (job_path job))"
    using job(1) by (simp add: valid_job_def fax_row_ok_def fax_fold_def)
  have row: "ok (fw_store u)" "jobs (fw_store u) (job_id job) = Some (fax_fold job)" if "fw_store u = s" for u
    using that mk by simp_all
  have run: "submit F svc at job w =
    (case fax_answer svc job of
       Inl e \<Rightarrow> drive_failed F (at 0) job e
         (if self_send_rejection (fsv_identities svc) (job_owner job) (job_remote job) fax_self_send_detail = None
          then ?w\<lparr>fw_sent := fw_sent w @ [?out]\<rparr> else ?w)
     | Inr rcp \<Rightarrow> drive_accepted F at job rcp (?w\<lparr>fw_sent := fw_sent w @ [?out]\<rparr>))"
    using mk(1) path by (auto simp: submit_def drive_def fax_answer_def Let_def split: option.split sum.split)
  show ?thesis
  proof (cases "fax_answer svc job")
    case (Inl e)
    let ?u = "if self_send_rejection (fsv_identities svc) (job_owner job) (job_remote job) fax_self_send_detail = None
          then ?w\<lparr>fw_sent := fw_sent w @ [?out]\<rparr> else ?w"
    have "fw_store ?u = s" by simp
    from drive_failed_settles [OF row [OF this] job(2,3), of "at 0" e] run Inl mk(3) job(3) show ?thesis
      by (auto simp: answer_status_def answer_ref_def answer_error_def)
  next
    case (Inr rcp)
    have "fw_store (?w\<lparr>fw_sent := fw_sent w @ [?out]\<rparr>) = s" by simp
    from drive_accepted_settles [OF row [OF this] job(2-4), of at rcp] run Inr mk(3) job(4) show ?thesis
      by (auto simp: answer_ref_def answer_error_def answer_status_def split: resolution.splits)
  qed
qed

end

section \<open>A series of verdicts\<close>

definition verdicts ::
  "'s fax_ops \<Rightarrow> string \<Rightarrow> (fax_status \<times> int \<times> string \<times> time) list \<Rightarrow> 's fax_world \<Rightarrow> 's fax_world" where
  "verdicts F ref vs w =
     fold (\<lambda>(st, pages, msg, at) w. snd (update_provider_status F at ref st pages msg w)) vs w"

text \<open>The statuses in the order of their first occurrence.\<close>

definition first_seen :: "'a list \<Rightarrow> 'a list" where
  "first_seen xs = rev (remdups (rev xs))"

lemma first_seen_snoc: "first_seen (xs @ [x]) = (if x \<in> set xs then first_seen xs else first_seen xs @ [x])"
  by (simp add: first_seen_def)

lemma verdict_key_inj: "verdict_key ref st = verdict_key ref st' \<longleftrightarrow> st = st'"
  by (simp add: verdict_key_def)

lemma verdict_key_inj': "inj (verdict_key ref)"
  by (simp add: inj_def verdict_key_inj)

definition sole_ref :: "(fax_id \<Rightarrow> fax_view option) \<Rightarrow> fax_id \<Rightarrow> string \<Rightarrow> bool" where
  "sole_ref m i ref \<longleftrightarrow>
     ref \<noteq> [] \<and> (\<exists>v. m i = Some v \<and> fxv_ref v = ref \<and> fxv_status v \<noteq> Fax_Received) \<and>
     (\<forall>k v. m k = Some v \<and> fxv_ref v = ref \<longrightarrow> k = i)"

context reliable_fax_store
begin

lemma verdict_settles:
  assumes ok: "ok (fw_store w)" and sole: "sole_ref (jobs (fw_store w)) i ref"
    and st: "fax_verdict_status st" and row: "jobs (fw_store w) i = Some v"
  shows "\<exists>j w' v'. update_provider_status F at ref st pages msg w = (Inr j, w') \<and> job_id j = i \<and>
    job_status j = st \<and> job_pages j = pages \<and> job_error j = msg \<and> ok (fw_store w') \<and>
    seen (fw_store w') = insert (verdict_key ref st) (seen (fw_store w)) \<and>
    jobs (fw_store w') = (jobs (fw_store w))(i \<mapsto> v') \<and> fxv_ref v' = ref \<and>
    fxv_status v' = (if verdict_key ref st \<in> seen (fw_store w) then fxv_status v else st)"
proof -
  obtain j where j: "fo_by_ref F ref (fw_store w) = Inr j"
    using by_ref_ok [OF ok row] sole row by (auto simp: sole_ref_def)
  from by_ref_row [OF ok j] have jrow: "jobs (fw_store w) (job_id j) = Some (fax_fold j)" "job_ref j = ref"
    by simp_all
  have "fxv_ref (fax_fold j) = ref" using jrow(2) by (simp add: fax_fold_def)
  then have "job_id j = i" using sole jrow(1) unfolding sole_ref_def by blast
  with jrow row have i: "job_id j = i" "fax_fold j = v" by simp_all
  have "fxv_status v \<noteq> Fax_Received" "fxv_ref v = ref" using sole row by (auto simp: sole_ref_def)
  then have live: "job_status j \<noteq> Fax_Received" "fxv_ref v = ref" by (auto simp: i(2) [symmetric] fax_fold_def)
  have not_rcv: "st \<noteq> Fax_Received" using st by (auto simp: fax_verdict_status_def)
  have move: "fax_advance (job_status j) (Fax_Verdict st) = (st, True)"
    using live st by (simp add: fax_advance_verdict)
  let ?d = "\<lparr>fdl_status = st, fdl_ref = [], fdl_error = msg, fdl_pages = pages\<rparr>"
  obtain s where adv: "fo_advance F at (verdict_key ref st) i ?d (fw_store w) = (Inr (), s)"
    using advance_ok [OF ok row] by (metis prod.collapse)
  note eff = advance [OF ok adv]
  have run: "update_provider_status F at ref st pages msg w =
    (Inr (j\<lparr>job_status := st, job_pages := pages, job_error := msg\<rparr>),
     w\<lparr>fw_store := s, fw_events := fw_events w @ [Fax_Advanced (job_owner j) (job_id j)]\<rparr>)"
    using j move adv i not_rcv by (simp add: update_provider_status_def Let_def)
  show ?thesis
  proof (cases "verdict_key ref st \<in> seen (fw_store w)")
    case True
    then have "jobs s = jobs (fw_store w)" using eff by simp
    then have "\<exists>v'. jobs s = (jobs (fw_store w))(i \<mapsto> v') \<and> fxv_ref v' = ref \<and> fxv_status v' = fxv_status v"
      using live by (intro exI [of _ v]) (simp add: row fun_upd_idem)
    then show ?thesis using run eff i True by simp
  next
    case False
    then have "jobs s = (jobs (fw_store w))(i \<mapsto> fax_advance_fold ?d at v)" using eff row by auto
    moreover have "fxv_ref (fax_advance_fold ?d at v) = ref" "fxv_status (fax_advance_fold ?d at v) = st"
      using live by (simp_all add: fax_advance_fold_def)
    ultimately have "\<exists>v'. jobs s = (jobs (fw_store w))(i \<mapsto> v') \<and> fxv_ref v' = ref \<and> fxv_status v' = st"
      by blast
    then show ?thesis using run eff i False by simp
  qed
qed

lemma verdicts_settle:
  assumes ok: "ok (fw_store w)" and sole: "sole_ref (jobs (fw_store w)) i ref"
    and row: "jobs (fw_store w) i = Some v"
    and fresh: "\<forall>st. verdict_key ref st \<notin> seen (fw_store w)"
    and vs: "\<forall>x \<in> set vs. fax_verdict_status (fst x)"
  shows "ok (fw_store (verdicts F ref vs w)) \<and> sole_ref (jobs (fw_store (verdicts F ref vs w))) i ref \<and>
    seen (fw_store (verdicts F ref vs w)) = seen (fw_store w) \<union> verdict_key ref ` set (map fst vs) \<and>
    (\<exists>v'. jobs (fw_store (verdicts F ref vs w)) = (jobs (fw_store w))(i \<mapsto> v') \<and>
       fxv_status v' = last (fxv_status v # first_seen (map fst vs)))"
  using vs
proof (induction vs rule: rev_induct)
  case Nil
  have "\<exists>v'. jobs (fw_store w) = (jobs (fw_store w))(i \<mapsto> v') \<and> fxv_status v' = fxv_status v"
    by (rule exI [of _ v]) (simp add: row fun_upd_idem)
  then show ?case using ok sole by (simp add: verdicts_def first_seen_def del: fun_upd_apply)
next
  case (snoc x xs)
  obtain st pages msg at where x: "x = (st, pages, msg, at)" by (metis prod_cases4)
  let ?u = "verdicts F ref xs w"
  have "\<forall>x \<in> set xs. fax_verdict_status (fst x)" using snoc.prems by simp
  note hyp = snoc.IH [OF this]
  then have ih: "ok (fw_store ?u)" "sole_ref (jobs (fw_store ?u)) i ref"
    "seen (fw_store ?u) = seen (fw_store w) \<union> verdict_key ref ` set (map fst xs)" by simp_all
  obtain u where u: "jobs (fw_store ?u) = (jobs (fw_store w))(i \<mapsto> u)"
    "fxv_status u = last (fxv_status v # first_seen (map fst xs))" using hyp by blast
  have st: "fax_verdict_status st" using snoc.prems x by simp
  have key: "verdict_key ref st \<in> seen (fw_store ?u) \<longleftrightarrow> st \<in> set (map fst xs)"
    by (simp add: ih(3) fresh inj_image_mem_iff [OF verdict_key_inj'] del: set_map)
  have step: "verdicts F ref (xs @ [x]) w = snd (update_provider_status F at ref st pages msg ?u)"
    by (simp add: verdicts_def x)
  obtain j w' v' where one: "update_provider_status F at ref st pages msg ?u = (Inr j, w')"
    "ok (fw_store w')" "seen (fw_store w') = insert (verdict_key ref st) (seen (fw_store ?u))"
    "jobs (fw_store w') = (jobs (fw_store ?u))(i \<mapsto> v')" "fxv_ref v' = ref"
    "fxv_status v' = (if verdict_key ref st \<in> seen (fw_store ?u) then fxv_status u else st)"
    using verdict_settles [OF ih(1,2) st, of u at pages msg] u(1) by auto
  have w': "verdicts F ref (xs @ [x]) w = w'" using step one(1) by simp
  have status: "fxv_status v' = last (fxv_status v # first_seen (map fst (xs @ [x])))"
    using one(6) key u(2) by (simp add: x first_seen_snoc)
  have "fxv_status u \<noteq> Fax_Received" using ih(2) u(1) by (auto simp: sole_ref_def)
  then have "fxv_status v' \<noteq> Fax_Received" using one(6) st by (auto simp: fax_verdict_status_def)
  then have "sole_ref (jobs (fw_store w')) i ref"
    using ih(2) one(4,5) by (auto simp: sole_ref_def)
  moreover have "jobs (fw_store w') = (jobs (fw_store w))(i \<mapsto> v')" using one(4) u(1) by simp
  moreover have "seen (fw_store w') = seen (fw_store w) \<union> verdict_key ref ` set (map fst (xs @ [x]))"
    by (simp add: one(3) ih(3) x)
  ultimately show ?case
    unfolding w' using one(2) status by blast
qed

end

text \<open>
  C9. Over an engine that does not fail, a series of provider verdicts for one job, in a
  process that has seen none of them, is answered with the verdict each time, but the row
  follows each verdict once only: it ends with the status that occurred for the first time
  last. After transmitted, failed, transmitted the row says failed while the answer to the
  last verdict says transmitted.
\<close>

theorem fax_verdicts_once:
  assumes laws: "idem_laws E view seen" "idem_reliable E"
    and rows: "rows_ok fax_row_ok (view (fw_store w))" "sole_ref (view (fw_store w)) i ref"
    and fresh: "\<forall>st. verdict_key ref st \<notin> seen (fw_store w)"
    and vs: "vs \<noteq> []" "\<forall>x \<in> set vs. fax_verdict_status (fst x)"
    and st: "fax_verdict_status st"
  shows "map_option fxv_status (view (fw_store (verdicts (engine_faxes E) ref vs w)) i)
      = Some (last (first_seen (map fst vs))) \<and>
    (\<exists>j w'. update_provider_status (engine_faxes E) at ref st pages msg
        (verdicts (engine_faxes E) ref vs w) = (Inr j, w') \<and> job_id j = i \<and> job_status j = st \<and>
      (st \<in> set (map fst vs) \<longrightarrow> map_option fxv_status (view (fw_store w') i)
         = Some (last (first_seen (map fst vs)))))"
proof -
  obtain v where v: "view (fw_store w) i = Some v" using rows(2) by (auto simp: sole_ref_def)
  let ?u = "verdicts (engine_faxes E) ref vs w"
  have okw: "idem_laws E view seen \<and> rows_ok fax_row_ok (view (fw_store w)) \<and> idem_reliable E"
    using laws rows by simp
  note run = engine_outcomes.verdicts_settle [of E view seen, OF okw rows(2) v fresh vs(2)]
  have ne: "first_seen (map fst vs) \<noteq> []" using vs(1) by (simp add: first_seen_def)
  from run obtain u where u: "view (fw_store ?u) i = Some u"
    "fxv_status u = last (first_seen (map fst vs))" using ne by auto
  from run have okU: "idem_laws E view seen \<and> rows_ok fax_row_ok (view (fw_store ?u)) \<and> idem_reliable E"
    and soleU: "sole_ref (view (fw_store ?u)) i ref"
    and seenU: "seen (fw_store ?u) = seen (fw_store w) \<union> verdict_key ref ` set (map fst vs)" by simp_all
  from engine_outcomes.verdict_settles [of E view seen, OF okU soleU st u(1), of at pages msg] seenU u
  show ?thesis by auto
qed

end
