(* ===== verification/Fax_Outcomes.thy ===== *)
theory Fax_Outcomes
  imports Fax_Contract
begin

text \<open>
  The outcomes of the fax operations on the engine-backed store: what a send leaves behind,
  what a resend may touch, and what the retention sweep of \<^verbatim>\<open>Faxes.SweepBefore\<close> removes and
  hands back, with concrete instances on the engine over an association list.
\<close>

context fax_store
begin

text \<open>A resend acts on a failed outbound job of the owner only, and leaves that row alone.\<close>

lemma resend_effect:
  assumes "ok (fw_store w)" "jobs (fw_store w) fid = None" "valid_id fid"
    and "resend_fax F svc fl at fid now owner i w = (res, w')"
  shows "w' = w \<and> fst res = None \<or>
    (\<exists>v. jobs (fw_store w) i = Some v \<and> fxv_owner v = ext_string owner \<and>
       fxv_direction v = Fax_Outbound \<and> fxv_status v = Fax_Failed \<and>
       fw_files w (fxv_path v) \<noteq> None \<and>
       (\<forall>k. k \<noteq> fid \<longrightarrow> jobs (fw_store w') k = jobs (fw_store w) k) \<and>
       (\<forall>v'. jobs (fw_store w') fid = Some v' \<longrightarrow> fxv_path v' = fxv_path v \<and>
          fxv_remote v' = fxv_remote v \<and> fxv_owner v' = fxv_owner v \<and> fax_reaches Fax_Queued (fxv_status v')))"
proof (cases "\<exists>job rel c. fo_get F owner i (fw_store w) = Inr job \<and>
    job_direction job = Fax_Outbound \<and> job_status job = Fax_Failed \<and>
    must (parse_rel_path (job_path job)) = Inr rel \<and> blob_open fl rel (fw_files w) = Inr c")
  case False
  then have "w' = w \<and> fst res = None"
    using assms(4) unfolding resend_fax_def by (auto split: sum.splits if_splits)
  then show ?thesis by blast
next
  case True
  then obtain job rel c where job: "fo_get F owner i (fw_store w) = Inr job"
    "job_direction job = Fax_Outbound" "job_status job = Fax_Failed"
    "must (parse_rel_path (job_path job)) = Inr rel" "blob_open fl rel (fw_files w) = Inr c" by blast
  let ?job = "new_outbound_fax_job fid owner (job_remote job) (job_path job) now"
  have row: "jobs (fw_store w) i = Some (fax_fold job)" "job_owner job = owner"
    using get_row [OF assms(1) job(1)] by simp_all
  have ok_row: "fax_row_ok i (fax_fold job)" using rows [OF assms(1) row(1)] .
  have "submit F svc at ?job w = (res, w')" using assms(4) job by (simp add: resend_fax_def)
  moreover have "valid_job ?job"
    using ok_row row(2) assms(3) by (simp add: new_outbound_valid fax_row_ok_def fax_fold_def [of job])
  moreover have "job_id ?job = fid" "job_status ?job = Fax_Queued" by (simp_all add: new_outbound_fax_job_def)
  ultimately have sub: "\<forall>k. k \<noteq> fid \<longrightarrow> jobs (fw_store w') k = jobs (fw_store w) k"
    "\<forall>v. jobs (fw_store w') fid = Some v \<longrightarrow> row_evolves (fax_fold ?job) v"
    using submit_evolves [OF assms(1), of ?job svc at res w'] assms(2) by simp_all
  have on_disk: "fw_files w (job_path job) \<noteq> None"
    using job(4,5) by (auto simp: blob_open_def parse_rel_path_ok split: if_splits option.splits)
  show ?thesis
    using row(1) sub on_disk job(2,3) row(2)
    by (intro disjI2 exI [of _ "fax_fold job"])
      (simp add: fax_fold_def row_evolves_def new_outbound_fax_job_def)
qed

end

text \<open>
  A resend changes something only for a failed outbound fax of that extension whose
  document still exists; the failed row stays as it is, and the one new row carries the
  same document and number and is an outbound job from its first state on, whatever engine
  and gateway calls fail.
\<close>

theorem resend_keeps_evidence:
  assumes "idem_laws E view seen" "rows_ok fax_row_ok (view (fw_store w))"
    and "view (fw_store w) fid = None" "valid_id fid"
    and "resend_fax (engine_faxes E) svc fl at fid now owner i w = (res, w')"
  shows "w' = w \<and> fst res = None \<or>
    (\<exists>v. view (fw_store w) i = Some v \<and> fxv_owner v = ext_string owner \<and>
       fxv_direction v = Fax_Outbound \<and> fxv_status v = Fax_Failed \<and>
       fw_files w (fxv_path v) \<noteq> None \<and> view (fw_store w') i = Some v \<and>
       (\<forall>k. k \<noteq> fid \<longrightarrow> view (fw_store w') k = view (fw_store w) k) \<and>
       (\<forall>v'. view (fw_store w') fid = Some v' \<longrightarrow> fxv_path v' = fxv_path v \<and>
          fxv_remote v' = fxv_remote v \<and> fxv_owner v' = fxv_owner v \<and> fax_reaches Fax_Queued (fxv_status v')))"
proof -
  have "idem_laws E view seen \<and> rows_ok fax_row_ok (view (fw_store w))" using assms(1,2) by simp
  from engine_store.resend_effect [of E view seen, OF this assms(3-5)] show ?thesis
    using assms(3) by (metis option.distinct(1))
qed

text \<open>
  Over an engine that does not fail, a valid send ends with one new row that carries
  the answer of the gateway (or of the local self-send refusal): failed with its text,
  sending with the provider's reference, or transmitted when the receipt is final. The
  job returned says the same, except that a final receipt stores one page while the
  returned job says none.
\<close>

theorem send_fax_settles:
  assumes "idem_laws E view seen" "idem_reliable E" "rows_ok fax_row_ok (view (fw_store w))"
    and "valid_id fid" "valid_extension owner" "valid_dialable (phone_string to)"
    and "validate_fax pdf = Inr ()"
    and "blob_save fl name ''faxes'' ''.pdf'' pdf (fw_files w) = (Inr path, fs)"
    and answer: "answer = fax_answer svc (new_outbound_fax_job fid owner to (rel_string path) now)"
  shows "\<exists>job w' v'. send_fax (engine_faxes E) svc fl at name fid now owner to pdf w =
      ((Some job, case answer of Inl e \<Rightarrow> Some (Forward_Error e) | Inr _ \<Rightarrow> None), w') \<and>
    view (fw_store w') = (view (fw_store w))(fid \<mapsto> v') \<and>
    fxv_status v' = answer_status answer \<and> fxv_ref v' = answer_ref answer \<and>
    fxv_error v' = answer_error answer \<and>
    job_status job = fxv_status v' \<and> job_ref job = fxv_ref v' \<and> job_error job = fxv_error v' \<and>
    job_path job = rel_string path \<and> job_pages job = 0 \<and>
    fxv_pages v' = (if answer_status answer = Fax_Transmitted then 1 else 0)"
proof -
  let ?job = "new_outbound_fax_job fid owner to (rel_string path) now"
  let ?w = "w\<lparr>fw_files := fs\<rparr>"
  have ok: "idem_laws E view seen \<and> rows_ok fax_row_ok (view (fw_store ?w)) \<and> idem_reliable E"
    using assms(1-3) by simp
  have valid: "valid_job ?job"
    using assms(4-6) spooled_path [OF assms(8)] by (simp add: new_outbound_valid valid_extension_def)
  have job: "job_status ?job = Fax_Queued" "job_ref ?job = []" "job_error ?job = []" "job_id ?job = fid"
    "job_pages ?job = 0" "job_path ?job = rel_string path"
    by (simp_all add: new_outbound_fax_job_def)
  have run: "send_fax (engine_faxes E) svc fl at name fid now owner to pdf w =
      submit (engine_faxes E) svc at ?job ?w"
    using assms(7,8) by (simp add: send_fax_def)
  obtain w' v' where res: "submit (engine_faxes E) svc at ?job ?w =
      ((Some (?job\<lparr>job_status := answer_status answer, job_ref := answer_ref answer,
               job_error := answer_error answer\<rparr>),
        case answer of Inl e \<Rightarrow> Some (Forward_Error e) | Inr _ \<Rightarrow> None), w')"
    "view (fw_store w') = (view (fw_store ?w))(fid \<mapsto> v')"
    "fxv_status v' = answer_status answer" "fxv_ref v' = answer_ref answer"
    "fxv_error v' = answer_error answer"
    "fxv_pages v' = (if answer_status answer = Fax_Transmitted then 1 else 0)"
    using engine_outcomes.submit_settles [of E view seen ?w, OF ok valid job(1-3), of svc at]
    unfolding answer job(4) by blast
  show ?thesis
    by (rule exI [of _ "?job\<lparr>job_status := answer_status answer, job_ref := answer_ref answer,
               job_error := answer_error answer\<rparr>"], rule exI [of _ w'], rule exI [of _ v'])
      (use res run job in simp)
qed

section \<open>The retention sweep\<close>

lemma fax_rows_keyed: "rows_ok fax_row_ok m \<Longrightarrow> keyed fxv_id m"
  by (auto simp: keyed_def rows_ok_def fax_row_ok_def)

text \<open>
  C27. The fax sweep returns on every finite collection, whatever engine calls fail. It
  never touches a job from the cutoff on, every job it removed was created before the
  cutoff and its document is among the paths handed back, even when the sweep stops early;
  and when it succeeds exactly the jobs from the cutoff on are left and the count is the
  number of jobs removed.
\<close>

theorem fax_sweep_exact:
  assumes laws: "engine_laws E view" and rows: "rows_ok fax_row_ok (view s)"
    and fin: "finite {i. view s i \<noteq> None}"
  shows "\<exists>r paths removed s'. fax_sweep_before E cutoff s = Some (r, paths, removed, s') \<and>
    (\<forall>i v. view s i = Some v \<longrightarrow>
       view s' i = Some v \<or>
       view s' i = None \<and> fxv_created v < cutoff \<and> (fxv_path v = [] \<or> fxv_path v \<in> set paths)) \<and>
    (\<forall>i. view s i = None \<longrightarrow> view s' i = None) \<and>
    (r = Inr () \<longrightarrow>
       (\<forall>i v. view s' i = Some v \<longleftrightarrow> view s i = Some v \<and> cutoff \<le> fxv_created v) \<and>
       removed = card {i. \<exists>v. view s i = Some v \<and> fxv_created v < cutoff})"
proof -
  let ?q = "fax_expirable cutoff"
  have fin_q: "finite (matching (q_filter ?q) (view s))"
    by (rule finite_subset [OF _ fin]) (auto simp: matching_def)
  have early: "q_filter ?q = (\<lambda>v. fxv_created v < cutoff)" "0 < q_limit ?q"
    by (simp_all add: fax_expirable_def sweep_page_size_def)
  obtain r gone n s' where loop:
    "expunge_loop E ''readmodels.fax_sweep'' ''readmodels.fax_sweep'' ?q (\<lambda>vs. vs) fxv_id s = Some (r, gone, n, s')"
    "\<forall>k v. view s k = Some v \<longrightarrow>
       view s' k = Some v \<or> view s' k = None \<and> fxv_created v < cutoff \<and> v \<in> set gone"
    "\<forall>k. view s k = None \<longrightarrow> view s' k = None"
    "r = Inr () \<longrightarrow> (\<forall>k v. view s' k = Some v \<longleftrightarrow> view s k = Some v \<and> \<not> fxv_created v < cutoff) \<and>
       n = card (matching (\<lambda>v. fxv_created v < cutoff) (view s))"
    using sweep_loop [OF laws fin_q fax_rows_keyed [OF rows] early(2),
        of "''readmodels.fax_sweep''" "''readmodels.fax_sweep''", unfolded early(1)] by blast
  let ?paths = "filter (\<lambda>p. p \<noteq> []) (map fxv_path gone)"
  have "fax_sweep_before E cutoff s = Some (r, ?paths, n, s')" by (simp add: fax_sweep_before_def loop(1))
  moreover have "\<forall>i v. view s i = Some v \<longrightarrow> view s' i = Some v \<or>
       view s' i = None \<and> fxv_created v < cutoff \<and> (fxv_path v = [] \<or> fxv_path v \<in> set ?paths)"
    using loop(2) by fastforce
  moreover have "r = Inr () \<longrightarrow>
       (\<forall>i v. view s' i = Some v \<longleftrightarrow> view s i = Some v \<and> cutoff \<le> fxv_created v) \<and>
       n = card {i. \<exists>v. view s i = Some v \<and> fxv_created v < cutoff}"
    using loop(4) by (simp add: matching_def not_less)
  ultimately show ?thesis using loop(3) by blast
qed

section \<open>Instances\<close>

definition sample_fax :: "fax_status \<Rightarrow> fax_view" where
  "sample_fax st =
     \<lparr>fxv_id = ''faxjob-00000000000001'', fxv_owner = ''1001'', fxv_remote = ''+4930123'',
      fxv_direction = Fax_Outbound, fxv_status = st, fxv_pages = 0, fxv_path = ''faxes/a.pdf'',
      fxv_ref = ''fx-1'', fxv_error = [], fxv_created = 5, fxv_updated = 5\<rparr>"

definition sample_fax_world :: "fax_status \<Rightarrow> ((string \<times> fax_view) list \<times> string list) fax_world" where
  "sample_fax_world st =
     \<lparr>fw_store = ([(''faxjob-00000000000001'', sample_fax st)], []),
      fw_files = [''faxes/a.pdf'' \<mapsto> ''%PDF-1''], fw_events = [], fw_sent = []\<rparr>"

definition sample_fax_service :: fax_service where
  "sample_fax_service =
     \<lparr>fsv_gateway = (\<lambda>_. Inr \<lparr>rcp_ref = ''fx-2'', rcp_resolution = Resolution_Immediate\<rparr>),
      fsv_identities = Map.empty, fsv_root = ''/data''\<rparr>"

abbreviation mem_view :: "(string \<times> fax_view) list \<times> string list \<Rightarrow> string \<Rightarrow> fax_view option" where
  "mem_view s \<equiv> map_of (fst s)"

lemmas sample_dial = valid_dialable_def dialable_char_def is_digit_char_def is_letter_char_def

lemma sample_path: "parse_rel_path ''faxes/a.pdf'' = Inr (Rel_Path ''faxes/a.pdf'')"
  by code_simp

lemma sample_fax_row: "rows_ok fax_row_ok (mem_view (fw_store (sample_fax_world st)))"
  by (simp add: rows_ok_def fax_row_ok_def sample_fax_world_def sample_fax_def valid_id_def sample_path
      sample_dial Let_def)

lemma fax_parties:
  "valid_extension (Extension ''1001'')" "valid_dialable (phone_string (Phone ''+4930124''))"
  "valid_id ''faxjob-00000000000002''"
  by (simp_all add: valid_extension_def valid_id_def sample_dial Let_def)

lemma sample_fresh_fax: "mem_view (fw_store (sample_fax_world st)) ''faxjob-00000000000002'' = None"
  by (simp add: sample_fax_world_def)

theorem fax_verdicts_once_witness:
  "\<exists>j w'. update_provider_status (engine_faxes mem_idem) 7 ''fx-1'' Fax_Transmitted 1 []
      (verdicts (engine_faxes mem_idem) ''fx-1'' [(Fax_Transmitted, 1, [], 5), (Fax_Failed, 0, ''busy'', 6)]
        (sample_fax_world Fax_Sending)) = (Inr j, w') \<and>
     job_status j = Fax_Transmitted \<and>
     map_option fxv_status (mem_view (fw_store w') ''faxjob-00000000000001'') = Some Fax_Failed"
proof -
  have sole: "sole_ref (mem_view (fw_store (sample_fax_world Fax_Sending))) ''faxjob-00000000000001'' ''fx-1''"
    by (simp add: sole_ref_def sample_fax_world_def sample_fax_def)
  have fresh: "\<forall>st. verdict_key ''fx-1'' st \<notin> set (snd (fw_store (sample_fax_world Fax_Sending)))"
    by (simp add: sample_fax_world_def)
  from fax_verdicts_once [OF mem_idem_laws mem_idem_reliable sample_fax_row sole fresh,
      of "[(Fax_Transmitted, 1, [], 5), (Fax_Failed, 0, ''busy'', 6)]" Fax_Transmitted 7 1 "[]"]
  show ?thesis by (auto simp: fax_verdict_status_def first_seen_def)
qed

theorem fax_rows_live_witness:
  "\<exists>v'. mem_view (fw_store (snd (update_provider_status (engine_faxes mem_idem) 7 ''fx-1'' Fax_Failed 0 ''busy''
       (sample_fax_world Fax_Sending)))) ''faxjob-00000000000001'' = Some v' \<and> fxv_path v' = ''faxes/a.pdf''"
proof -
  let ?w = "sample_fax_world Fax_Sending"
  have "(fax_step_world (engine_faxes mem_idem) mem_view sample_fax_service)\<^sup>*\<^sup>* ?w
      (snd (update_provider_status (engine_faxes mem_idem) 7 ''fx-1'' Fax_Failed 0 ''busy'' ?w))"
    by (rule r_into_rtranclp, rule fax_step_world.verdict, rule prod.collapse [symmetric])
  from fax_rows_live [OF mem_idem_laws sample_fax_row this]
  have "\<forall>i v. mem_view (fw_store ?w) i = Some v \<longrightarrow> (\<exists>v'. mem_view (fw_store (snd (update_provider_status
      (engine_faxes mem_idem) 7 ''fx-1'' Fax_Failed 0 ''busy'' ?w))) i = Some v' \<and> fxv_path v' = fxv_path v)"
    by blast
  moreover have "mem_view (fw_store ?w) ''faxjob-00000000000001'' = Some (sample_fax Fax_Sending)"
    by (simp add: sample_fax_world_def)
  ultimately show ?thesis by (force simp: sample_fax_def)
qed

theorem resend_keeps_evidence_witness:
  "mem_view (fw_store (snd (resend_fax (engine_faxes mem_idem) sample_fax_service no_faults int
      ''faxjob-00000000000002'' 9 (Extension ''1001'') ''faxjob-00000000000001'' (sample_fax_world Fax_Failed))))
    ''faxjob-00000000000001'' = Some (sample_fax Fax_Failed)"
proof -
  let ?w = "sample_fax_world Fax_Failed"
  let ?run = "resend_fax (engine_faxes mem_idem) sample_fax_service no_faults int
      ''faxjob-00000000000002'' 9 (Extension ''1001'') ''faxjob-00000000000001'' ?w"
  have row: "mem_view (fw_store ?w) ''faxjob-00000000000001'' = Some (sample_fax Fax_Failed)"
    by (simp add: sample_fax_world_def)
  from resend_keeps_evidence [OF mem_idem_laws sample_fax_row sample_fresh_fax fax_parties(3)
      prod.collapse [of ?run, symmetric]] row
  show ?thesis by (elim disjE conjE exE) simp_all
qed

theorem send_fax_settles_witness:
  "\<exists>job w' v'. send_fax (engine_faxes mem_idem) sample_fax_service no_faults int ''b'' ''faxjob-00000000000002''
      9 (Extension ''1001'') (Phone ''+4930124'') ''%PDF-2'' (sample_fax_world Fax_Failed) = ((Some job, None), w') \<and>
     mem_view (fw_store w') ''faxjob-00000000000002'' = Some v' \<and> fxv_status v' = Fax_Transmitted \<and>
     fxv_pages v' = 1 \<and> job_pages job = 0"
proof -
  let ?w = "sample_fax_world Fax_Failed"
  let ?job = "new_outbound_fax_job ''faxjob-00000000000002'' (Extension ''1001'') (Phone ''+4930124'') ''faxes/b.pdf'' 9"
  let ?fs = "(fw_files ?w)(''faxes/b.pdf'' \<mapsto> ''%PDF-2'')"
  have valid: "validate_fax ''%PDF-2'' = Inr ()"
    by (simp add: validate_fax_def pdf_signature_def has_prefix_def max_pdf_size_def)
  have save: "blob_save no_faults ''b'' ''faxes'' ''.pdf'' ''%PDF-2'' (fw_files ?w) = (Inr (Rel_Path ''faxes/b.pdf''), ?fs)"
  proof -
    have "parse_rel_path ''faxes/b.pdf'' = Inr (Rel_Path ''faxes/b.pdf'')" by code_simp
    then show ?thesis by (simp add: blob_save_def no_faults_simp join_path_def Let_def)
  qed
  have answer: "Inr \<lparr>rcp_ref = ''fx-2'', rcp_resolution = Resolution_Immediate\<rparr> =
      fax_answer sample_fax_service (new_outbound_fax_job ''faxjob-00000000000002'' (Extension ''1001'')
        (Phone ''+4930124'') (rel_string (Rel_Path ''faxes/b.pdf'')) 9)"
    by (simp add: fax_answer_def sample_fax_service_def self_send_rejection_def)
  from send_fax_settles [OF mem_idem_laws mem_idem_reliable sample_fax_row fax_parties(3,1,2) valid save answer,
      of int] show ?thesis
    by (auto simp: answer_status_def)
qed

theorem fax_sweep_exact_witness:
  "\<exists>r paths removed s'. fax_sweep_before mem_idem 10 (fw_store (sample_fax_world Fax_Failed)) = Some (r, paths, removed, s') \<and>
     (mem_view s' ''faxjob-00000000000001'' = None \<longrightarrow> ''faxes/a.pdf'' \<in> set paths)"
proof -
  let ?s = "fw_store (sample_fax_world Fax_Failed)"
  have fin: "finite {i. mem_view ?s i \<noteq> None}" using finite_dom_map_of [of "fst ?s"] by (simp add: dom_def)
  have row: "mem_view ?s ''faxjob-00000000000001'' = Some (sample_fax Fax_Failed)"
    by (simp add: sample_fax_world_def)
  from fax_sweep_exact [OF idem_engine_laws [OF mem_idem_laws] sample_fax_row fin, of 10]
  obtain r paths removed s' where run: "fax_sweep_before mem_idem 10 ?s = Some (r, paths, removed, s')"
    "\<forall>i v. mem_view ?s i = Some v \<longrightarrow> mem_view s' i = Some v \<or>
       mem_view s' i = None \<and> fxv_created v < 10 \<and> (fxv_path v = [] \<or> fxv_path v \<in> set paths)"
    by blast
  from run(2) row show ?thesis using run(1) by (fastforce simp: sample_fax_def)
qed

end
