(* ===== verification/Gates.thy ===== *)
theory Gates
  imports Ids
begin

text \<open>
  The idempotency gates of \<^verbatim>\<open>internal/server/hooks/idempotency.go\<close>: the map gate of the
  sources is the map of the last stamps; the durable window behind the other gate is a
  port whose contract the interface \<^verbatim>\<open>DedupWindow\<close> states (\<open>window_laws\<close>), and it may
  fail at any time. Every gate may only ever see keys that are live (\<open>idem_gate\<close>); the map
  gate, and the window gate over a window that does not fail, see exactly those
  (\<open>durable_gate\<close>).
\<close>

section \<open>Idempotency gates\<close>

record 'g gate_ops =
  gate_seen :: "time \<Rightarrow> string \<Rightarrow> 'g \<Rightarrow> bool"
  gate_record :: "time \<Rightarrow> string \<Rightarrow> 'g \<Rightarrow> 'g"

type_synonym idem_store = "string \<Rightarrow> time option"

definition map_seen :: "duration \<Rightarrow> time \<Rightarrow> string \<Rightarrow> idem_store \<Rightarrow> bool" where
  "map_seen ttl now key g = (case g key of None \<Rightarrow> False | Some at \<Rightarrow> now - at < ttl)"

definition map_record :: "duration \<Rightarrow> time \<Rightarrow> string \<Rightarrow> idem_store \<Rightarrow> idem_store" where
  "map_record ttl now key g =
     (let g' = (case g key of None \<Rightarrow> g | Some at \<Rightarrow> if now - at \<ge> ttl then g(key := None) else g) in
      g'(key \<mapsto> now))"

definition map_gate :: "duration \<Rightarrow> idem_store gate_ops" where
  "map_gate ttl = \<lparr>gate_seen = map_seen ttl, gate_record = map_record ttl\<rparr>"

record 'g dedup_window =
  win_seen :: "string \<Rightarrow> string \<Rightarrow> time \<Rightarrow> 'g \<Rightarrow> err + bool"
  win_check_and_record :: "string \<Rightarrow> string \<Rightarrow> duration \<Rightarrow> time \<Rightarrow> 'g \<Rightarrow> (err + bool) \<times> 'g"

definition dedup_collection :: string where "dedup_collection = ''webphone.idem''"

definition hook_idempotency_ttl :: duration where "hook_idempotency_ttl = 3600 * second"

definition engine_gate :: "'g dedup_window \<Rightarrow> duration \<Rightarrow> 'g gate_ops" where
  "engine_gate W ttl =
     \<lparr>gate_seen = (\<lambda>now key g.
        case win_seen W dedup_collection key now g of Inl _ \<Rightarrow> False | Inr seen \<Rightarrow> seen),
      gate_record = (\<lambda>now key g. snd (win_check_and_record W dedup_collection key ttl now g))\<rparr>"

text \<open>
  A key is live until the time it is due. The contract of the port is stated against the
  due times of the one collection the gates use.
\<close>

definition live :: "(string \<Rightarrow> time option) \<Rightarrow> time \<Rightarrow> string \<Rightarrow> bool" where
  "live due now key \<longleftrightarrow> (\<exists>x. due key = Some x \<and> now < x)"

definition window_laws :: "'g dedup_window \<Rightarrow> ('g \<Rightarrow> string \<Rightarrow> time option) \<Rightarrow> bool" where
  "window_laws W due \<longleftrightarrow>
     (\<forall>key now g b. win_seen W dedup_collection key now g = Inr b \<longrightarrow> b = live (due g) now key) \<and>
     (\<forall>key ttl now g r g'. win_check_and_record W dedup_collection key ttl now g = (r, g') \<longrightarrow>
        due g' = (if live (due g) now key then due g else (due g)(key \<mapsto> now + ttl)) \<or>
        (\<exists>e. r = Inl e) \<and> due g' = due g)"

definition window_reliable :: "'g dedup_window \<Rightarrow> bool" where
  "window_reliable W \<longleftrightarrow>
     (\<forall>key now g. \<exists>b. win_seen W dedup_collection key now g = Inr b) \<and>
     (\<forall>key ttl now g. \<exists>b. fst (win_check_and_record W dedup_collection key ttl now g) = Inr b)"

locale idem_gate =
  fixes G :: "'g gate_ops" and due :: "'g \<Rightarrow> string \<Rightarrow> time option" and ttl :: duration
    and ok :: "'g \<Rightarrow> bool"
  assumes seen_live: "ok g \<Longrightarrow> gate_seen G now key g \<Longrightarrow> live (due g) now key"
    and record_due: "ok g \<Longrightarrow> ok (gate_record G now key g) \<and>
      (due (gate_record G now key g) = due g \<or> due (gate_record G now key g) = (due g)(key \<mapsto> now + ttl))"

locale durable_gate = idem_gate +
  assumes live_seen: "ok g \<Longrightarrow> live (due g) now key \<Longrightarrow> gate_seen G now key g"
    and recorded: "ok g \<Longrightarrow> \<not> live (due g) now key \<Longrightarrow> due (gate_record G now key g) key = Some (now + ttl)"
begin

text \<open>A recorded key is seen until its time is over, and not longer.\<close>

lemma seen_after_record:
  assumes "ok g" "\<not> gate_seen G now key g"
  shows "gate_seen G u key (gate_record G now key g) \<longleftrightarrow> u < now + ttl"
proof -
  have "\<not> live (due g) now key" using live_seen assms by blast
  then have "due (gate_record G now key g) key = Some (now + ttl)" by (rule recorded [OF assms(1)])
  moreover have "ok (gate_record G now key g)" using record_due [OF assms(1)] by blast
  ultimately show ?thesis using live_seen seen_live by (fastforce simp: live_def)
qed

end

definition map_due :: "duration \<Rightarrow> idem_store \<Rightarrow> string \<Rightarrow> time option" where
  "map_due ttl g key = map_option (\<lambda>at. at + ttl) (g key)"

lemma map_record_eq: "map_record ttl now key g = g(key \<mapsto> now)"
  by (auto simp: map_record_def Let_def split: option.split)

interpretation map_window: durable_gate "map_gate ttl" "map_due ttl" ttl "\<lambda>_. True" for ttl
  by unfold_locales
    (auto simp: map_gate_def map_seen_def map_record_eq map_due_def live_def fun_eq_iff split: option.splits)

lemma engine_record_due:
  assumes "window_laws W due"
  shows "due (gate_record (engine_gate W ttl) now key g) = due g \<or>
    due (gate_record (engine_gate W ttl) now key g) = (due g)(key \<mapsto> now + ttl)"
proof -
  obtain r g' where run: "win_check_and_record W dedup_collection key ttl now g = (r, g')" by fastforce
  then have "due g' = (if live (due g) now key then due g else (due g)(key \<mapsto> now + ttl)) \<or> due g' = due g"
    using assms unfolding window_laws_def by blast
  then show ?thesis using run by (auto simp: engine_gate_def split: if_splits)
qed

lemma engine_seen_live:
  "window_laws W due \<Longrightarrow> gate_seen (engine_gate W ttl) now key g \<Longrightarrow> live (due g) now key"
  by (auto simp: engine_gate_def window_laws_def split: sum.splits)

interpretation engine_window: idem_gate "engine_gate W ttl" due ttl "\<lambda>_. window_laws W due" for W ttl due
  by unfold_locales (auto intro: engine_seen_live dest: engine_record_due)

interpretation steady_window:
  durable_gate "engine_gate W ttl" due ttl "\<lambda>_. window_laws W due \<and> window_reliable W" for W ttl due
proof unfold_locales
  fix g :: 'a and now key
  assume ok: "window_laws W due \<and> window_reliable W"
  show "gate_seen (engine_gate W ttl) now key g \<Longrightarrow> live (due g) now key"
    by (rule engine_seen_live [OF conjunct1 [OF ok]])
  show "(window_laws W due \<and> window_reliable W) \<and>
      (due (gate_record (engine_gate W ttl) now key g) = due g \<or>
       due (gate_record (engine_gate W ttl) now key g) = (due g)(key \<mapsto> now + ttl))"
    using ok engine_record_due [OF conjunct1 [OF ok]] by (rule conjI)
  obtain b where "win_seen W dedup_collection key now g = Inr b" using ok unfolding window_reliable_def by blast
  then show "live (due g) now key \<Longrightarrow> gate_seen (engine_gate W ttl) now key g"
    using ok by (auto simp: engine_gate_def window_laws_def)
  obtain r g' where run: "win_check_and_record W dedup_collection key ttl now g = (r, g')" by fastforce
  moreover have "\<exists>b. r = Inr b" using ok run unfolding window_reliable_def by (metis fst_conv)
  ultimately show "\<not> live (due g) now key \<Longrightarrow> due (gate_record (engine_gate W ttl) now key g) key = Some (now + ttl)"
    using ok unfolding window_laws_def by (fastforce simp: engine_gate_def)
qed

end
