(* ===== verification/Push.thy ===== *)
theory Push
  imports Go_Strings "HOL-Library.List_Lexorder"
begin

text \<open>
  The push seam of \<^verbatim>\<open>internal/push/push.go\<close>. A transport's client is the record of its
  operations: whether it is configured, and its answer to one fact for one device address,
  \<open>None\<close> when the fact was shipped. The fanout is the list of its transports with their
  clients (a Go map, so each name occurs once); the disabled seam is a nil pointer or an
  empty fanout.
\<close>

datatype push_event = Event_Ring | Event_Ring_End | Event_Draft_Ready

record ring =
  rg_event :: push_event
  rg_from :: string
  rg_call :: string

record draft_fact =
  df_event :: push_event
  df_contact :: string
  df_draft :: string

datatype push_error =
    Push_Disabled
  | Push_Unauthorized
  | Push_Unregistered
  | Push_No_Transport
  | Push_Failure string

definition push_family :: "push_error \<Rightarrow> family option" where
  "push_family e =
     (case e of
        Push_Disabled \<Rightarrow> Some Infrastructure
      | Push_Unauthorized \<Rightarrow> Some Rejection
      | Push_Unregistered \<Rightarrow> Some Infrastructure
      | Push_No_Transport \<Rightarrow> Some Rejection
      | Push_Failure _ \<Rightarrow> None)"

record push_sender =
  snd_enabled :: bool
  snd_ring :: "string \<Rightarrow> ring \<Rightarrow> push_error option"
  snd_draft :: "string \<Rightarrow> draft_fact \<Rightarrow> push_error option"

type_synonym fanout = "(string \<times> push_sender) list"

text \<open>\<^verbatim>\<open>NewFanout\<close>: a nil client is \<open>None\<close>.\<close>

fun new_fanout :: "(string \<times> push_sender option) list \<Rightarrow> fanout" where
  "new_fanout [] = []"
| "new_fanout ((t, None) # ss) = new_fanout ss"
| "new_fanout ((t, Some c) # ss) = (if snd_enabled c then (t, c) # new_fanout ss else new_fanout ss)"

definition fanout_enabled :: "fanout option \<Rightarrow> bool" where
  "fanout_enabled f = (case f of None \<Rightarrow> False | Some live \<Rightarrow> live \<noteq> [])"

definition fanout_knows :: "fanout option \<Rightarrow> string \<Rightarrow> bool" where
  "fanout_knows f t = (case f of None \<Rightarrow> False | Some live \<Rightarrow> map_of live t \<noteq> None)"

definition fanout_describe :: "fanout option \<Rightarrow> string" where
  "fanout_describe f =
     (case f of
        None \<Rightarrow> ''off''
      | Some live \<Rightarrow> if live = [] then ''off'' else join ''+'' (sort (map fst live)))"

definition fanout_send :: "fanout option \<Rightarrow> string \<Rightarrow> string \<Rightarrow> ring \<Rightarrow> push_error option" where
  "fanout_send f transport target rg =
     (if \<not> fanout_enabled f then Some Push_Disabled
      else case f of
        None \<Rightarrow> Some Push_Disabled
      | Some live \<Rightarrow>
          (case map_of live transport of
             None \<Rightarrow> Some Push_No_Transport
           | Some c \<Rightarrow> snd_ring c target rg))"

definition fanout_send_draft :: "fanout option \<Rightarrow> string \<Rightarrow> string \<Rightarrow> draft_fact \<Rightarrow> push_error option" where
  "fanout_send_draft f transport target d =
     (if \<not> fanout_enabled f then Some Push_Disabled
      else case f of
        None \<Rightarrow> Some Push_Disabled
      | Some live \<Rightarrow>
          (case map_of live transport of
             None \<Rightarrow> Some Push_No_Transport
           | Some c \<Rightarrow> snd_draft c target d))"

section \<open>Lemmas\<close>

lemma new_fanout_map_of:
  "distinct (map fst ss) \<Longrightarrow>
     map_of (new_fanout ss) t = (case map_of ss t of Some (Some c) \<Rightarrow> if snd_enabled c then Some c else None | _ \<Rightarrow> None)"
proof (induction ss rule: new_fanout.induct)
  case (2 u ss)
  then have "t = u \<Longrightarrow> map_of ss t = None" by (simp add: map_of_eq_None_iff)
  with 2 show ?case by auto
next
  case (3 u c ss)
  then have "t = u \<Longrightarrow> map_of ss t = None" by (simp add: map_of_eq_None_iff)
  with 3 show ?case by auto
qed simp

text \<open>A fact is shipped only over a transport the registration interface announces.\<close>

lemma shipped_known: "fanout_send f t a rg = None \<Longrightarrow> fanout_knows f t"
  by (auto simp: fanout_send_def fanout_knows_def fanout_enabled_def split: option.splits if_splits)

lemma no_transport: "fanout_send f t a rg = Some Push_Disabled \<or> fanout_knows f t \<or> fanout_send f t a rg = Some Push_No_Transport"
  by (auto simp: fanout_send_def fanout_knows_def fanout_enabled_def split: option.splits)

end
