(* ===== verification/Hooks.thy ===== *)
theory Hooks
  imports Messaging Fax_Outcomes Call_Slots Gates Push
begin

text \<open>
  The webhook ingest of \<^verbatim>\<open>internal/server/hooks\<close>: the bearer gate, the message and fax
  hooks (\<^verbatim>\<open>webhooks.go\<close>) and the ring fan-out (\<^verbatim>\<open>ring.go\<close>). A handler answers its HTTP
  status code, \<open>None\<close> when it panics; response bodies are not modelled. JSON decoding is
  the argument \<open>dec\<close> of the entry point, which hands each handler its decoded request, \<open>None\<close>
  when the body does not decode; the decoding rules the sources add to the library's (page
  counts, base64 fields, the size cap) are definitions. The world of the ingest is the world
  of the messaging service, the one of the fax service, the gate, the device registry, the
  badge totals dropped and the facts handed to the fanout, oldest first.
\<close>

section \<open>Base64\<close>

text \<open>\<^verbatim>\<open>base64.StdEncoding.DecodeString\<close>: line breaks are skipped, padding is required.\<close>

definition b64_value :: "char \<Rightarrow> nat option" where
  "b64_value c =
     (let n = of_char c :: nat in
      if 65 \<le> n \<and> n \<le> 90 then Some (n - 65)
      else if 97 \<le> n \<and> n \<le> 122 then Some (n - 71)
      else if 48 \<le> n \<and> n \<le> 57 then Some (n + 4)
      else if n = 43 then Some 62
      else if n = 47 then Some 63
      else None)"

fun b64_quanta :: "string \<Rightarrow> char list option" where
  "b64_quanta [] = Some []"
| "b64_quanta (a # b # c # d # rest) =
     (case (b64_value a, b64_value b) of
        (Some i, Some j) \<Rightarrow>
          (let x = char_of (i * 4 + j div 16) in
           case b64_value c of
             None \<Rightarrow>
               if c = CHR ''='' \<and> d = CHR ''='' \<and> rest = [] then Some [x] else None
           | Some k \<Rightarrow>
               (let y = char_of ((j mod 16) * 16 + k div 4) in
                case b64_value d of
                  None \<Rightarrow> if d = CHR ''='' \<and> rest = [] then Some [x, y] else None
                | Some l \<Rightarrow>
                    map_option (\<lambda>tl. x # y # char_of ((k mod 4) * 64 + l) # tl) (b64_quanta rest)))
      | _ \<Rightarrow> None)"
| "b64_quanta _ = None"

definition base64_decode :: "string \<Rightarrow> char list option" where
  "base64_decode s = b64_quanta (filter (\<lambda>c. c \<noteq> CHR 0x0A \<and> c \<noteq> CHR 0x0D) s)"

section \<open>Requests\<close>

record hook_attachment =
  hat_name :: string
  hat_mime :: string
  hat_data :: string

record hook_message_request =
  hmr_owner :: string
  hmr_from :: string
  hmr_body :: string
  hmr_attachments :: "hook_attachment list"

text \<open>
  The page counts as the raw JSON values of the three fields, \<open>None\<close> for an absent field.
\<close>

record fax_status_pages =
  fsp_pages :: "string option"
  fsp_page_count :: "string option"
  fsp_num_pages :: "string option"

record hook_fax_request =
  hfr_owner :: string
  hfr_from :: string
  hfr_pages :: fax_status_pages
  hfr_ref :: string
  hfr_pdf :: string

record hook_fax_status_request =
  hfs_ref :: string
  hfs_status :: string
  hfs_pages :: fax_status_pages
  hfs_error :: string

record hook_message_status_request =
  hms_ref :: string
  hms_status :: string
  hms_error :: string

record ring_request =
  rrq_owner :: string
  rrq_from :: string
  rrq_call :: string
  rrq_state :: string

definition flex_pages :: "string \<Rightarrow> err + int" where
  "flex_pages raw =
     (if trim_space raw = ''null'' then Inr 0
      else case atoi (trim_byte (CHR 0x22) (trim_space raw)) of
             None \<Rightarrow> Inl (Coded Rejection ''webhook.fax_pages'')
           | Some n \<Rightarrow> if n < 0 then Inl (Coded Rejection ''webhook.fax_pages'') else Inr n)"

text \<open>
  The three counts of a decoded request, an absent field being zero; a refused field
  fails the decoding of the body.
\<close>

definition decoded_pages :: "fax_status_pages \<Rightarrow> int list option" where
  "decoded_pages p =
     those (map (\<lambda>raw. case raw of
                         None \<Rightarrow> Some 0
                       | Some v \<Rightarrow> (case flex_pages v of Inl _ \<Rightarrow> None | Inr n \<Rightarrow> Some n))
              [fsp_pages p, fsp_page_count p, fsp_num_pages p])"

fun pages_count :: "int list \<Rightarrow> int" where
  "pages_count [] = 0"
| "pages_count (n # ns) = (if n \<noteq> 0 then n else pages_count ns)"

section \<open>The ingest\<close>

record 's hook_deps =
  hd_secret :: string
  hd_messaging :: messaging
  hd_faxes :: "'s fax_ops"
  hd_push :: "fanout option"

record ('s, 'g, 'd) hook_world =
  hw_messages :: world
  hw_faxes :: "'s fax_world"
  hw_gate :: 'g
  hw_devices :: 'd
  hw_dropped :: "extension list"
  hw_pushed :: "(string \<times> string \<times> ring) list"

text \<open>What a request brings besides its body: faults, races, minted names and clock readings.\<close>

record hook_inputs =
  hi_now :: time
  hi_faults :: faults
  hi_race :: "store \<Rightarrow> store"
  hi_mint :: mint
  hi_name :: string
  hi_fax :: fax_id

definition accepted :: nat where "accepted = 202"

text \<open>\<^verbatim>\<open>webhookFail\<close>: any error value is a 500, a panic is not an answer.\<close>

definition webhook_fail :: "err \<Rightarrow> nat option" where
  "webhook_fail e = (if e = Panic then None else Some 500)"

definition parse_owner_from :: "string \<Rightarrow> string \<Rightarrow> (extension \<times> address) option" where
  "parse_owner_from owner_raw from_raw =
     (case parse_extension owner_raw of
        Inl _ \<Rightarrow> None
      | Inr owner \<Rightarrow>
          (case parse_address Network_SMS from_raw of Inl _ \<Rightarrow> None | Inr from_addr \<Rightarrow> Some (owner, from_addr)))"

definition decode_attachments :: "hook_attachment list \<Rightarrow> upload list option" where
  "decode_attachments as =
     those (map (\<lambda>a. map_option (\<lambda>data. \<lparr>upl_name = hat_name a, upl_mime = hat_mime a, upl_bytes = data\<rparr>)
                       (base64_decode (hat_data a))) as)"

definition hook_message ::
  "'s hook_deps \<Rightarrow> hook_inputs \<Rightarrow> hook_message_request option \<Rightarrow> ('s, 'g, 'd) hook_world \<Rightarrow>
     nat option \<times> ('s, 'g, 'd) hook_world" where
  "hook_message H x body w =
     (case body of
        None \<Rightarrow> (Some 400, w)
      | Some p \<Rightarrow>
          (case parse_owner_from (hmr_owner p) (hmr_from p) of
             None \<Rightarrow> (Some 400, w)
           | Some (owner, from_addr) \<Rightarrow>
               (case decode_attachments (hmr_attachments p) of
                  None \<Rightarrow> (Some 400, w)
                | Some ups \<Rightarrow>
                    (case receive_message (hd_messaging H) (hi_faults x) (hi_race x) (hi_mint x) (hi_now x)
                            \<lparr>inb_owner = owner, inb_from = from_addr, inb_body = hmr_body p,
                             inb_attachments = ups, inb_received = hi_now x\<rparr> (hw_messages w) of
                       (Inl e, m) \<Rightarrow> (webhook_fail e, w\<lparr>hw_messages := m\<rparr>)
                     | (Inr _, m) \<Rightarrow>
                         (Some accepted, w\<lparr>hw_messages := m, hw_dropped := hw_dropped w @ [owner]\<rparr>)))))"

definition hook_fax ::
  "'s hook_deps \<Rightarrow> hook_inputs \<Rightarrow> hook_fax_request option \<Rightarrow> ('s, 'g, 'd) hook_world \<Rightarrow>
     nat option \<times> ('s, 'g, 'd) hook_world" where
  "hook_fax H x body w =
     (case Option.bind body (\<lambda>p. map_option (Pair p) (decoded_pages (hfr_pages p))) of
        None \<Rightarrow> (Some 400, w)
      | Some (p, ns) \<Rightarrow>
          (case parse_owner_from (hfr_owner p) (hfr_from p) of
             None \<Rightarrow> (Some 400, w)
           | Some (owner, from_addr) \<Rightarrow>
               (case base64_decode (hfr_pdf p) of
                  None \<Rightarrow> (Some 400, w)
                | Some pdf \<Rightarrow>
                    (case must_parse_phone (addr_value from_addr) of
                       Inl e \<Rightarrow> (webhook_fail e, w)
                     | Inr phone \<Rightarrow>
                         (case receive_fax (hd_faxes H) (hi_faults x) (hi_name x) (hi_fax x) (hi_now x)
                                 \<lparr>ifx_owner = owner, ifx_from = phone, ifx_pages = pages_count ns,
                                  ifx_pdf = pdf, ifx_received = hi_now x, ifx_ref = hfr_ref p\<rparr>
                                 (hw_faxes w) of
                            (Inl e, f) \<Rightarrow> (webhook_fail e, w\<lparr>hw_faxes := f\<rparr>)
                          | (Inr _, f) \<Rightarrow> (Some accepted, w\<lparr>hw_faxes := f\<rparr>))))))"

section \<open>Verdicts\<close>

text \<open>
  \<^verbatim>\<open>applyStatusWebhook\<close>; \<open>apply\<close> is the closure the handler passes. The stamp of a
  recorded key is the clock reading of the request.
\<close>

definition apply_status_webhook ::
  "'g gate_ops \<Rightarrow> time \<Rightarrow> string \<Rightarrow> string \<Rightarrow>
     (string \<Rightarrow> ('s, 'g, 'd) hook_world \<Rightarrow> err option \<times> ('s, 'g, 'd) hook_world) \<Rightarrow>
     ('s, 'g, 'd) hook_world \<Rightarrow> nat option \<times> ('s, 'g, 'd) hook_world" where
  "apply_status_webhook G now kind ref apply w =
     (if ref = [] then (Some 400, w)
      else
        let key = kind @ ''/'' @ ref in
        if gate_seen G now key (hw_gate w) then (Some accepted, w)
        else
          (case apply ref w of
             (Some e, w') \<Rightarrow> (if e = Not_Found then (Some 404, w') else (webhook_fail e, w'))
           | (None, w') \<Rightarrow> (Some accepted, w'\<lparr>hw_gate := gate_record G now key (hw_gate w')\<rparr>)))"

definition apply_message_verdict ::
  "hook_inputs \<Rightarrow> outbound_status \<Rightarrow> string \<Rightarrow> string \<Rightarrow> ('s, 'g, 'd) hook_world \<Rightarrow>
     err option \<times> ('s, 'g, 'd) hook_world" where
  "apply_message_verdict x st err_msg ref w =
     (case delivery_receipt (hi_faults x) ref st err_msg (hw_messages w) of
        (Inl e, m) \<Rightarrow> (Some e, w\<lparr>hw_messages := m\<rparr>)
      | (Inr _, m) \<Rightarrow> (None, w\<lparr>hw_messages := m\<rparr>))"

definition hook_message_status ::
  "'g gate_ops \<Rightarrow> hook_inputs \<Rightarrow> hook_message_status_request option \<Rightarrow> ('s, 'g, 'd) hook_world \<Rightarrow>
     nat option \<times> ('s, 'g, 'd) hook_world" where
  "hook_message_status G x body w =
     (case body of
        None \<Rightarrow> (Some 400, w)
      | Some p \<Rightarrow>
          (let apply = (\<lambda>st. apply_status_webhook G (hi_now x) ''message'' (hms_ref p)
                              (apply_message_verdict x st (hms_error p)) w) in
           if hms_status p = ''delivered'' then apply Delivered
           else if hms_status p = ''failed'' then apply Failed
           else (Some 400, w)))"

definition apply_fax_verdict ::
  "'s hook_deps \<Rightarrow> hook_inputs \<Rightarrow> fax_status \<Rightarrow> int \<Rightarrow> string \<Rightarrow> string \<Rightarrow> ('s, 'g, 'd) hook_world \<Rightarrow>
     err option \<times> ('s, 'g, 'd) hook_world" where
  "apply_fax_verdict H x st pages err_msg ref w =
     (case update_provider_status (hd_faxes H) (hi_now x) ref st pages err_msg (hw_faxes w) of
        (Inl e, f) \<Rightarrow> (Some e, w\<lparr>hw_faxes := f\<rparr>)
      | (Inr _, f) \<Rightarrow> (None, w\<lparr>hw_faxes := f\<rparr>))"

definition hook_fax_status ::
  "'g gate_ops \<Rightarrow> 's hook_deps \<Rightarrow> hook_inputs \<Rightarrow> hook_fax_status_request option \<Rightarrow>
     ('s, 'g, 'd) hook_world \<Rightarrow> nat option \<times> ('s, 'g, 'd) hook_world" where
  "hook_fax_status G H x body w =
     (case Option.bind body (\<lambda>p. map_option (Pair p) (decoded_pages (hfs_pages p))) of
        None \<Rightarrow> (Some 400, w)
      | Some (p, ns) \<Rightarrow>
          (let apply = (\<lambda>st. apply_status_webhook G (hi_now x) ''fax'' (hfs_ref p)
                              (apply_fax_verdict H x st (pages_count ns) (hfs_error p)) w) in
           if hfs_status p = ''transmitted'' then apply Fax_Transmitted
           else if hfs_status p = ''failed'' then apply Fax_Failed
           else (Some 400, w)))"

section \<open>Ringing\<close>

text \<open>
  The loop over the registered devices: the facts handed over, and the registry. A dead
  device is removed; a failing removal is logged and otherwise ignored.
\<close>

fun ring_fan ::
  "('d, slot_key, device_view) engine \<Rightarrow> fanout option \<Rightarrow> extension \<Rightarrow> ring \<Rightarrow> device_view list \<Rightarrow> 'd \<Rightarrow>
     (string \<times> string \<times> ring) list \<times> 'd" where
  "ring_fan E f owner rg [] d = ([], d)"
| "ring_fan E f owner rg (v # vs) d =
     (let d1 = (if fanout_send f (dvv_transport v) (dvv_token v) rg = Some Push_Unregistered
                then snd (device_remove E owner (dvv_device v) d) else d) in
      case ring_fan E f owner rg vs d1 of
        (sent, d2) \<Rightarrow> ((dvv_transport v, dvv_token v, rg) # sent, d2))"

definition hook_ring ::
  "('d, slot_key, device_view) engine option \<Rightarrow> 's hook_deps \<Rightarrow> ring_request option \<Rightarrow>
     ('s, 'g, 'd) hook_world \<Rightarrow> nat option \<times> ('s, 'g, 'd) hook_world" where
  "hook_ring devices H body w =
     (case body of
        None \<Rightarrow> (Some 400, w)
      | Some p \<Rightarrow>
          (case parse_owner_from (rrq_owner p) (rrq_from p) of
             None \<Rightarrow> (Some 400, w)
           | Some (owner, from_addr) \<Rightarrow>
               (case (if rrq_state p = ''ring'' then Some Event_Ring
                      else if rrq_state p = ''end'' then Some Event_Ring_End else None) of
                  None \<Rightarrow> (Some 400, w)
                | Some event \<Rightarrow>
                    (case devices of
                       None \<Rightarrow> (Some accepted, w)
                     | Some E \<Rightarrow>
                         if \<not> fanout_enabled (hd_push H) then (Some accepted, w)
                         else
                           (case device_list E owner (hw_devices w) of
                              Inl e \<Rightarrow> (webhook_fail e, w)
                            | Inr targets \<Rightarrow>
                                (let rg = \<lparr>rg_event = event, rg_from = addr_value from_addr,
                                           rg_call = rrq_call p\<rparr> in
                                 case ring_fan E (hd_push H) owner rg targets (hw_devices w) of
                                   (sent, d) \<Rightarrow>
                                     (Some accepted,
                                      w\<lparr>hw_devices := d, hw_pushed := hw_pushed w @ sent\<rparr>)))))))"

section \<open>The entry point\<close>

text \<open>
  \<^verbatim>\<open>BearerGate\<close>: \<open>digest\<close> is SHA-256, \<open>header\<close> the \<^verbatim>\<open>Authorization\<close> header of the request.
\<close>

definition bearer_gate :: "(string \<Rightarrow> string) \<Rightarrow> string \<Rightarrow> string \<Rightarrow> (nat option \<times> 'w) \<Rightarrow> 'w \<Rightarrow> nat option \<times> 'w" where
  "bearer_gate digest secret header served w =
     (if secret = [] then (Some 503, w)
      else if digest secret \<noteq> digest (trim_prefix ''Bearer '' header) then (Some 401, w)
      else served)"

record hook_decoders =
  dec_message :: "string \<Rightarrow> hook_message_request option"
  dec_message_status :: "string \<Rightarrow> hook_message_status_request option"
  dec_fax :: "string \<Rightarrow> hook_fax_request option"
  dec_fax_status :: "string \<Rightarrow> hook_fax_status_request option"
  dec_ring :: "string \<Rightarrow> ring_request option"

text \<open>\<^verbatim>\<open>decodeJSON\<close>: the decoder sees at most 40 MiB of the body.\<close>

definition decode_json :: "(string \<Rightarrow> 'p option) \<Rightarrow> string \<Rightarrow> 'p option" where
  "decode_json dec body = dec (take (40 * 2 ^ 20) body)"

definition webhooks ::
  "'g gate_ops \<Rightarrow> ('d, slot_key, device_view) engine option \<Rightarrow> 's hook_deps \<Rightarrow> hook_decoders \<Rightarrow> hook_inputs \<Rightarrow>
     string \<Rightarrow> string \<Rightarrow> ('s, 'g, 'd) hook_world \<Rightarrow> nat option \<times> ('s, 'g, 'd) hook_world" where
  "webhooks G devices H dec x path body w =
     (if path = ''/hooks/message'' then hook_message H x (decode_json (dec_message dec) body) w
      else if path = ''/hooks/message/status''
      then hook_message_status G x (decode_json (dec_message_status dec) body) w
      else if path = ''/hooks/fax'' then hook_fax H x (decode_json (dec_fax dec) body) w
      else if path = ''/hooks/fax/status''
      then hook_fax_status G H x (decode_json (dec_fax_status dec) body) w
      else if path = ''/hooks/ring'' then hook_ring devices H (decode_json (dec_ring dec) body) w
      else (Some 404, w))"

definition secret_gate ::
  "(string \<Rightarrow> string) \<Rightarrow> 'g gate_ops \<Rightarrow> ('d, slot_key, device_view) engine option \<Rightarrow> 's hook_deps \<Rightarrow>
     hook_decoders \<Rightarrow> hook_inputs \<Rightarrow> string \<Rightarrow> string \<Rightarrow> string \<Rightarrow> ('s, 'g, 'd) hook_world \<Rightarrow>
     nat option \<times> ('s, 'g, 'd) hook_world" where
  "secret_gate digest G devices H dec x header path body w =
     bearer_gate digest (hd_secret H) header (webhooks G devices H dec x path body w) w"

section \<open>Verdicts land once\<close>

lemma receipt_failed: "delivery_receipt fl ref st err_msg w = (Inl e, w') \<Longrightarrow> w' = w"
  by (auto simp: delivery_receipt_def update_outbound_status_def updated_or_not_found_def rows_affected_0
      update_where_none Let_def split: option.splits sum.splits prod.splits if_splits)

lemma message_verdict_frame:
  "apply_message_verdict x st err_msg ref w = (Some e, w') \<Longrightarrow> w' = w"
  "hw_gate (snd (apply_message_verdict x st err_msg ref w)) = hw_gate w"
  by (auto simp: apply_message_verdict_def dest: receipt_failed split: prod.splits sum.splits)

lemma status_request:
  "hook_message_status G x (Some p) w =
     (if hms_status p = ''delivered'' \<or> hms_status p = ''failed''
      then apply_status_webhook G (hi_now x) ''message'' (hms_ref p)
             (apply_message_verdict x (if hms_status p = ''delivered'' then Delivered else Failed) (hms_error p)) w
      else (Some 400, w))"
  by (auto simp: hook_message_status_def Let_def)

lemma refused_status:
  "hook_message_status G x body w = (r, w') \<Longrightarrow> r \<noteq> Some accepted \<Longrightarrow> w' = w"
  by (cases body)
    (auto simp: status_request hook_message_status_def [of _ _ None] apply_status_webhook_def Let_def
      dest: message_verdict_frame(1) split: if_splits prod.splits option.splits)

context durable_gate
begin

text \<open>After an accepted verdict its key answers every request of its window.\<close>

lemma settled_window:
  assumes "ok (hw_gate w)" "\<not> gate_seen G now (kind @ ''/'' @ ref) (hw_gate w)"
    and "apply_status_webhook G now kind ref f w = (Some accepted, w')"
    and "\<And>v. hw_gate (snd (f ref v)) = hw_gate v" "u < now + ttl"
  shows "apply_status_webhook G u kind ref f' w' = (Some accepted, w')"
proof -
  obtain r v where fw: "f ref w = (r, v)" by fastforce
  have "ref \<noteq> []" "r = None"
    using assms(2,3) fw by (auto simp: apply_status_webhook_def Let_def accepted_def webhook_fail_def
        split: if_splits option.splits)
  moreover have "hw_gate v = hw_gate w" using assms(4) [of w] fw by simp
  ultimately have "w' = v\<lparr>hw_gate := gate_record G now (kind @ ''/'' @ ref) (hw_gate w)\<rparr>"
    using assms(2,3) fw by (simp add: apply_status_webhook_def Let_def)
  then show ?thesis
    using seen_after_record [OF assms(1,2), of u] assms(5) \<open>ref \<noteq> []\<close>
    by (simp add: apply_status_webhook_def Let_def)
qed

end

text \<open>What one gate promises about the verdicts for a message.\<close>

definition once_per_window :: "'g gate_ops \<Rightarrow> ('s, 'g, 'd) hook_world \<Rightarrow> bool" where
  "once_per_window G w \<longleftrightarrow>
     (\<forall>x p r w'. hook_message_status G x (Some p) w = (r, w') \<and>
        \<not> gate_seen G (hi_now x) (''message/'' @ hms_ref p) (hw_gate w) \<longrightarrow>
        (r \<noteq> Some 202 \<longrightarrow> w' = w) \<and>
        (r = Some 202 \<longrightarrow>
           (\<forall>y q. hi_now y < hi_now x + 3600 * second \<and> hms_ref q = hms_ref p \<and>
              hms_status q \<in> {''delivered'', ''failed''} \<longrightarrow>
              hook_message_status G y (Some q) w' = (Some 202, w'))))"

context durable_gate
begin

lemma gate_once:
  assumes "ttl = hook_idempotency_ttl" "ok (hw_gate w)"
  shows "once_per_window G w"
  unfolding once_per_window_def
proof (intro allI impI conjI)
  fix x :: hook_inputs and p :: hook_message_status_request and r w'
  assume a: "hook_message_status G x (Some p) w = (r, w') \<and>
    \<not> gate_seen G (hi_now x) (''message/'' @ hms_ref p) (hw_gate w)"
  { assume "r \<noteq> Some 202" then show "w' = w" using a refused_status by (fastforce simp: accepted_def) }
  fix y :: hook_inputs and q :: hook_message_status_request
  assume r: "r = Some 202" and b: "hi_now y < hi_now x + 3600 * second \<and> hms_ref q = hms_ref p \<and>
    hms_status q \<in> {''delivered'', ''failed''}"
  have apply1: "apply_status_webhook G (hi_now x) ''message'' (hms_ref p)
      (apply_message_verdict x (if hms_status p = ''delivered'' then Delivered else Failed) (hms_error p)) w
    = (Some accepted, w')"
    using a r by (auto simp: status_request accepted_def split: if_splits)
  have "\<not> gate_seen G (hi_now x) (''message'' @ ''/'' @ hms_ref p) (hw_gate w)" using a by simp
  from settled_window [OF assms(2) this apply1 message_verdict_frame(2), of "hi_now y"] b
  show "hook_message_status G y (Some q) w' = (Some 202, w')"
    by (auto simp: status_request accepted_def assms(1) hook_idempotency_ttl_def)
qed

end

text \<open>
  C31. A provider verdict about a message is applied at most once per window: once one was
  accepted, every further verdict for the same reference whose time falls into the hour
  after it is acknowledged and changes nothing at all, whatever it says and whatever its
  processing would have met; a verdict that is not accepted changes nothing either, and its
  key stays free. The map gate keeps this always, the durable window as long as the
  window itself does not fail.
\<close>

theorem verdict_window:
  "once_per_window (map_gate hook_idempotency_ttl) w \<and>
   (window_laws W due \<and> window_reliable W \<longrightarrow> once_per_window (engine_gate W hook_idempotency_ttl) v)"
  using map_window.gate_once [of hook_idempotency_ttl w] steady_window.gate_once [of hook_idempotency_ttl W due v]
  by simp

section \<open>Retries land\<close>

fun status_attempts ::
  "'g gate_ops \<Rightarrow> (hook_inputs \<times> hook_message_status_request option) list \<Rightarrow> ('s, 'g, 'd) hook_world \<Rightarrow>
     nat option list \<times> ('s, 'g, 'd) hook_world" where
  "status_attempts G [] w = ([], w)"
| "status_attempts G ((x, body) # reqs) w =
     (case hook_message_status G x body w of
        (r, w1) \<Rightarrow> (case status_attempts G reqs w1 of (rs, w2) \<Rightarrow> (r # rs, w2)))"

lemma refused_attempts:
  "status_attempts G reqs w = (rs, w') \<Longrightarrow> Some accepted \<notin> set rs \<Longrightarrow> w' = w"
proof (induction reqs arbitrary: w rs)
  case (Cons a reqs)
  then show ?case by (cases a) (fastforce split: prod.splits dest: refused_status)
qed simp

lemma unseen_gate:
  "idem_gate G due ttl ok \<Longrightarrow> ok g \<Longrightarrow> due g key = None \<Longrightarrow> \<not> gate_seen G now key g"
  by (auto simp: live_def dest: idem_gate.seen_live)

text \<open>An attempt on a free key against a store that works applies its verdict.\<close>

lemma attempt_lands:
  assumes inv: "store_inv (wd_store (hw_messages w))"
    and row: "row_delivery (wd_store (hw_messages w)) i = Some d" "dlv_ref d = hms_ref p" "hms_ref p \<noteq> []"
    and free: "\<not> gate_seen G (hi_now x) (''message/'' @ hms_ref p) (hw_gate w)"
    and verdict: "hms_status p = status_string (verdict_status v)" and fl: "hi_faults x = no_faults"
  shows "\<exists>w'. hook_message_status G x (Some p) w = (Some accepted, w') \<and>
    row_delivery (wd_store (hw_messages w')) =
      (row_delivery (wd_store (hw_messages w)))(i \<mapsto> settle (v, hms_error p) d) \<and>
    hw_gate w' = gate_record G (hi_now x) (''message/'' @ hms_ref p) (hw_gate w)"
proof -
  obtain m s' where step: "apply_verdict (message_by_provider_ref no_faults) (update_outbound_status no_faults)
      (hms_ref p) (v, hms_error p) (wd_store (hw_messages w)) = (Inr m, s')"
    "row_delivery s' = (row_delivery (wd_store (hw_messages w)))(i \<mapsto> settle (v, hms_error p) d)"
    using msgs.verdict_step [OF inv row row_delivery_status [OF inv row(1)], of "(v, hms_error p)"] by blast
  obtain r m' where rcpt: "delivery_receipt no_faults (hms_ref p) (verdict_status v) (hms_error p) (hw_messages w) = (r, m')"
    by fastforce
  have "wd_store m' = s'"
    using receipt_store [of "hms_ref p" v "hms_error p" "hw_messages w"] step(1) rcpt by simp
  moreover have "\<exists>n. r = Inr n"
    using step(1) rcpt by (cases v) (auto simp: delivery_receipt_def apply_verdict_def verdict_of_def Let_def
        split: sum.splits prod.splits)
  moreover have "(if hms_status p = ''delivered'' then Delivered else Failed) = verdict_status v"
    using verdict by (cases v) simp_all
  moreover have "hms_status p = ''delivered'' \<or> hms_status p = ''failed''" using verdict by (cases v) simp_all
  ultimately show ?thesis
    using rcpt step(2) free row(3) fl by (auto simp: status_request apply_status_webhook_def apply_message_verdict_def)
qed

text \<open>
  Retrying a verdict lands it: as long as every attempt for a message reference was
  refused, by a failing store, an unknown reference or a malformed request, nothing has
  changed, and the first well-formed attempt that meets a working store is accepted, moves
  the row of that reference by exactly its verdict and no other row, and closes the window.
  This holds with the map gate and with the durable window, even when that window fails.
\<close>

theorem verdict_retries:
  fixes w :: "('s, 'g, 'd) hook_world"
  assumes gate: "idem_gate G due hook_idempotency_ttl ok" "ok (hw_gate w)" "due (hw_gate w) (''message/'' @ hms_ref p) = None"
    and inv: "store_inv (wd_store (hw_messages w))"
    and row: "row_delivery (wd_store (hw_messages w)) i = Some d" "dlv_ref d = hms_ref p" "hms_ref p \<noteq> []"
    and refused: "status_attempts G reqs w = (rs, w1)" "Some 202 \<notin> set rs"
    and attempt: "hms_status p = status_string (verdict_status v)" "hi_faults x = no_faults"
  shows "w1 = w \<and> (\<exists>w2. hook_message_status G x (Some p) w1 = (Some 202, w2) \<and>
    row_delivery (wd_store (hw_messages w2)) =
      (row_delivery (wd_store (hw_messages w)))(i \<mapsto> settle (v, hms_error p) d) \<and>
    hw_gate w2 = gate_record G (hi_now x) (''message/'' @ hms_ref p) (hw_gate w))"
proof -
  have w1: "w1 = w" using refused refused_attempts by (metis accepted_def)
  have free: "\<not> gate_seen G (hi_now x) (''message/'' @ hms_ref p) (hw_gate w)"
    using unseen_gate [of G due hook_idempotency_ttl ok "hw_gate w"] gate by blast
  obtain w2 where "hook_message_status G x (Some p) w = (Some 202, w2)"
    "row_delivery (wd_store (hw_messages w2)) =
      (row_delivery (wd_store (hw_messages w)))(i \<mapsto> settle (v, hms_error p) d)"
    "hw_gate w2 = gate_record G (hi_now x) (''message/'' @ hms_ref p) (hw_gate w)"
    using attempt_lands [OF inv row free attempt] unfolding accepted_def by blast
  then show ?thesis unfolding w1 by blast
qed

section \<open>Ringing reaches every device\<close>

definition device_rows :: "(slot_key \<Rightarrow> device_view option) \<Rightarrow> bool" where
  "device_rows m \<longleftrightarrow> keyed (\<lambda>v. (dvv_owner v, dvv_device v)) m"

lemma remove_effect:
  assumes "engine_laws E view" "device_remove E owner dev d = (r, d')"
  shows "view d' = view d \<or> view d' = (view d)((ext_string owner, dev) := None)"
    and "reliable E \<Longrightarrow> view d' = (view d)((ext_string owner, dev) := None)"
proof -
  show "view d' = view d \<or> view d' = (view d)((ext_string owner, dev) := None)"
    using assms(2) del_wrapped [OF assms(1), of "''readmodels.push_remove''" "(ext_string owner, dev)" d r d']
    by (auto simp: device_remove_def split: sum.splits option.splits)
  assume rel: "reliable E"
  obtain got where got: "eng_get E (ext_string owner, dev) d = Inr got"
    using rel unfolding reliable_def by blast
  note g = engine_get [OF assms(1) got]
  obtain q t where del: "eng_del E (ext_string owner, dev) d = (q, t)" by fastforce
  have "q = Inr ()" using rel del unfolding reliable_def by (metis fst_conv)
  with engine_del_ok [OF assms(1), of "(ext_string owner, dev)" d] del
  have "view t = (view d)((ext_string owner, dev) := None)" by simp
  with g got del assms(2) \<open>q = Inr ()\<close> show "view d' = (view d)((ext_string owner, dev) := None)"
    by (auto simp: device_remove_def fun_eq_iff wrap_write_def split: option.splits)
qed

lemma ring_fan_effect:
  assumes laws: "engine_laws E view" and run: "ring_fan E f owner rg vs d = (sent, d')"
  shows "sent = map (\<lambda>v. (dvv_transport v, dvv_token v, rg)) vs \<and>
    (\<forall>k. view d' k = view d k \<or> view d' k = None \<and>
       (\<exists>v \<in> set vs. k = (ext_string owner, dvv_device v) \<and>
          fanout_send f (dvv_transport v) (dvv_token v) rg = Some Push_Unregistered)) \<and>
    (reliable E \<longrightarrow> (\<forall>v \<in> set vs. fanout_send f (dvv_transport v) (dvv_token v) rg = Some Push_Unregistered \<longrightarrow>
       view d' (ext_string owner, dvv_device v) = None))"
  using run
proof (induction vs arbitrary: d sent)
  case Nil
  then show ?case by simp
next
  case (Cons v vs)
  let ?dead = "fanout_send f (dvv_transport v) (dvv_token v) rg = Some Push_Unregistered"
  define d1 where "d1 = (if ?dead then snd (device_remove E owner (dvv_device v) d) else d)"
  obtain later where rest: "ring_fan E f owner rg vs d1 = (later, d')"
    "sent = (dvv_transport v, dvv_token v, rg) # later"
    using Cons.prems by (auto simp: d1_def [symmetric] Let_def split: prod.splits)
  have first: "view d1 = view d \<or> ?dead \<and> view d1 = (view d)((ext_string owner, dvv_device v) := None)"
    "reliable E \<Longrightarrow> ?dead \<Longrightarrow> view d1 (ext_string owner, dvv_device v) = None"
    using remove_effect [OF laws, of owner "dvv_device v" d "fst (device_remove E owner (dvv_device v) d)" d1]
    by (auto simp: d1_def)
  note ih = Cons.IH [OF rest(1)]
  have keys: "view d' k = view d k \<or> view d' k = None \<and>
      (\<exists>u \<in> set (v # vs). k = (ext_string owner, dvv_device u) \<and>
         fanout_send f (dvv_transport u) (dvv_token u) rg = Some Push_Unregistered)" for k
    using ih [THEN conjunct2, THEN conjunct1, rule_format, of k] first(1) by auto
  have "view d' (ext_string owner, dvv_device v) = None" if "reliable E" ?dead
    using ih [THEN conjunct2, THEN conjunct1, rule_format, of "(ext_string owner, dvv_device v)"] first(2) [OF that]
    by auto
  then show ?case using ih rest(2) keys by auto
qed

lemma devices_listed:
  assumes laws: "engine_laws E view" and rows: "device_rows (view d)" and list: "device_list E owner d = Inr vs"
    and cap: "within_cap dvv_owner devices_max (view d)"
  shows "set vs = {v. \<exists>k. view d k = Some v \<and> dvv_owner v = ext_string owner} \<and> distinct vs"
proof
  have ans: "answers (devices_query owner) (view d) vs"
    using engine_scan [OF laws] list by (simp add: device_list_def)
  have "card (matching (q_filter (devices_query owner)) (view d)) \<le> q_limit (devices_query owner)"
    using cap by (simp add: within_cap_def held_def devices_query_def le_SucI)
  from answers_all [OF ans this] show "set vs = {v. \<exists>k. view d k = Some v \<and> dvv_owner v = ext_string owner}"
    by (auto simp: devices_query_def)
  show "distinct vs"
    using answers_keys [OF ans rows [unfolded device_rows_def]] by (simp add: distinct_map)
qed

text \<open>
  C32. An accepted ring reaches every device its extension registered, each exactly once, and
  costs only dead registrations: with the device list readable the hook answers 202
  whatever the transports and the registry answer, the facts handed over are one per
  registered device of that extension, a registration disappears only when its own
  transport reported it dead, and it does disappear when the registry works.
\<close>

theorem ring_reaches_all:
  assumes laws: "engine_laws E view" and rows: "device_rows (view (hw_devices w))"
    and cap: "within_cap dvv_owner 8 (view (hw_devices w))"
    and req: "parse_owner_from (rrq_owner p) (rrq_from p) = Some (owner, from_addr)"
      "rrq_state p = ''ring'' \<and> event = Event_Ring \<or> rrq_state p = ''end'' \<and> event = Event_Ring_End"
    and live: "fanout_enabled (hd_push H)" and list: "device_list E owner (hw_devices w) = Inr vs"
    and run: "hook_ring (Some E) H (Some p) w = (answer, w')"
    and rg: "rg = \<lparr>rg_event = event, rg_from = addr_value from_addr, rg_call = rrq_call p\<rparr>"
  shows "answer = Some 202 \<and> hw_messages w' = hw_messages w \<and> hw_faxes w' = hw_faxes w \<and> hw_gate w' = hw_gate w \<and>
    set vs = {v. \<exists>k. view (hw_devices w) k = Some v \<and> dvv_owner v = ext_string owner} \<and> distinct vs \<and>
    hw_pushed w' = hw_pushed w @ map (\<lambda>v. (dvv_transport v, dvv_token v, rg)) vs \<and>
    (\<forall>k v. view (hw_devices w) k = Some v \<longrightarrow> view (hw_devices w') k = Some v \<or>
       view (hw_devices w') k = None \<and> v \<in> set vs \<and>
       fanout_send (hd_push H) (dvv_transport v) (dvv_token v) rg = Some Push_Unregistered) \<and>
    (reliable E \<longrightarrow> (\<forall>v \<in> set vs.
       fanout_send (hd_push H) (dvv_transport v) (dvv_token v) rg = Some Push_Unregistered \<longrightarrow>
       view (hw_devices w') (dvv_owner v, dvv_device v) = None))"
proof -
  have vs: "set vs = {v. \<exists>k. view (hw_devices w) k = Some v \<and> dvv_owner v = ext_string owner}" "distinct vs"
    using devices_listed [OF laws rows list] cap by (simp_all add: devices_max_def)
  obtain sent d' where fan: "ring_fan E (hd_push H) owner rg vs (hw_devices w) = (sent, d')" by fastforce
  note eff = ring_fan_effect [OF laws fan]
  have w': "answer = Some 202" "w' = w\<lparr>hw_devices := d', hw_pushed := hw_pushed w @ sent\<rparr>"
    using run req live list fan by (auto simp: hook_ring_def rg accepted_def)
  have kept: "view d' k = Some v \<or> view d' k = None \<and> v \<in> set vs \<and>
      fanout_send (hd_push H) (dvv_transport v) (dvv_token v) rg = Some Push_Unregistered"
    if k: "view (hw_devices w) k = Some v" for k v
  proof -
    have "k = (dvv_owner v, dvv_device v)" using keyedD [OF rows [unfolded device_rows_def] k] by simp
    moreover have "u = v" if "u \<in> set vs" "k = (ext_string owner, dvv_device u)" for u
      using that k vs(1) keyedD [OF rows [unfolded device_rows_def]] by fastforce
    ultimately show ?thesis using eff [THEN conjunct2, THEN conjunct1, rule_format, of k] k by metis
  qed
  have "dvv_owner v = ext_string owner" if "v \<in> set vs" for v using that vs(1) by auto
  then show ?thesis using vs eff w' kept by simp
qed

section \<open>Refusals\<close>

lemma owner_from_phone:
  "parse_owner_from a b = Some (owner, from_addr) \<Longrightarrow> \<exists>p. must_parse_phone (addr_value from_addr) = Inr p"
  by (auto simp: parse_owner_from_def parse_address_def must_parse_phone_def parse_phone_def must_def Let_def
      split: sum.splits if_splits)

lemma refused_400:
  "hook_message H x m w = (Some 400, w') \<Longrightarrow> w' = w"
  "hook_message_status G x ms w = (Some 400, w') \<Longrightarrow> w' = w"
  "hook_fax H x f w = (Some 400, w') \<Longrightarrow> w' = w"
  "hook_fax_status G H x fs w = (Some 400, w') \<Longrightarrow> w' = w"
  "hook_ring devs H rr w = (Some 400, w') \<Longrightarrow> w' = w"
  by (auto simp: hook_message_def hook_fax_def hook_fax_status_def hook_ring_def webhook_fail_def accepted_def
      apply_status_webhook_def Let_def dest: refused_status split: option.splits prod.splits sum.splits if_splits)

lemma webhooks_400: "webhooks G devs H dec x path body w = (Some 400, w') \<Longrightarrow> w' = w"
  unfolding webhooks_def by (auto dest: refused_400 split: if_splits)

lemma hook_fax_panic:
  assumes "hook_fax H x b w = (None, w')"
  shows "\<exists>inb f. receive_fax (hd_faxes H) (hi_faults x) (hi_name x) (hi_fax x) (hi_now x) inb (hw_faxes w) = (Inl Panic, f)"
  using assms
  by (auto simp: hook_fax_def webhook_fail_def accepted_def dest: owner_from_phone
      split: option.splits prod.splits sum.splits if_splits)

text \<open>
  The door of the ingest: without a configured secret every request is a 503, with a
  wrong one a 401, an unknown path is a 404, and none of those changes anything; a request
  that is not accepted changes at most what its own failing store operation left behind,
  a bad page count, status, state, owner, sender or base64 text being a 400 that changes
  nothing. The fax hook's unchecked conversion of the sender never panics.
\<close>

theorem hook_refusals:
  "(hd_secret H = [] \<longrightarrow> secret_gate dg G devs H dec x header path body w = (Some 503, w)) \<and>
    (hd_secret H \<noteq> [] \<and> dg (hd_secret H) \<noteq> dg (trim_prefix ''Bearer '' header) \<longrightarrow>
      secret_gate dg G devs H dec x header path body w = (Some 401, w)) \<and>
    (hd_secret H \<noteq> [] \<and> (header = ''Bearer '' @ hd_secret H) \<longrightarrow>
      secret_gate dg G devs H dec x header path body w = webhooks G devs H dec x path body w) \<and>
    (path \<notin> {''/hooks/message'', ''/hooks/message/status'', ''/hooks/fax'', ''/hooks/fax/status'', ''/hooks/ring''} \<longrightarrow>
      webhooks G devs H dec x path body w = (Some 404, w)) \<and>
    (\<forall>w'. webhooks G devs H dec x path body w = (Some 400, w') \<longrightarrow> w' = w) \<and>
    (\<forall>b w'. hook_fax H x b w = (None, w') \<longrightarrow>
      (\<exists>inb f. receive_fax (hd_faxes H) (hi_faults x) (hi_name x) (hi_fax x) (hi_now x) inb (hw_faxes w) = (Inl Panic, f)))"
proof (intro conjI allI impI)
  show "webhooks G devs H dec x path body w = (Some 404, w)"
    if "path \<notin> {''/hooks/message'', ''/hooks/message/status'', ''/hooks/fax'', ''/hooks/fax/status'', ''/hooks/ring''}"
    using that by (simp add: webhooks_def)
qed (use webhooks_400 hook_fax_panic in
    \<open>auto simp: secret_gate_def bearer_gate_def trim_prefix_def\<close>)

section \<open>The properties at a concrete ingest\<close>

text \<open>A window that never fails: the due times themselves.\<close>

definition mem_window :: "(string \<Rightarrow> time option) dedup_window" where
  "mem_window =
     \<lparr>win_seen = (\<lambda>_ key now g. Inr (case g key of None \<Rightarrow> False | Some x \<Rightarrow> now < x)),
      win_check_and_record = (\<lambda>_ key ttl now g.
        (let seen = (case g key of None \<Rightarrow> False | Some x \<Rightarrow> now < x) in
         (Inr seen, if seen then g else g(key \<mapsto> now + ttl))))\<rparr>"

lemma mem_window_ok: "window_laws mem_window (\<lambda>g. g) \<and> window_reliable mem_window"
  by (auto simp: window_laws_def window_reliable_def mem_window_def live_def Let_def split: option.splits if_splits)

definition sent_delivery :: delivery where
  "sent_delivery = \<lparr>dlv_status = Sent, dlv_ref = ''pm-1'', dlv_fkind = Failure_None, dlv_fdetail = []\<rparr>"

definition sent_store :: store where
  "sent_store = snd (update_outbound_status no_faults ''messag-00000000000001'' sent_delivery sample_store)"

lemma sent_run:
  "update_outbound_status no_faults ''messag-00000000000001'' sent_delivery sample_store = (Inr (), sent_store)"
  by (simp add: sent_store_def update_outbound_status_def updated_or_not_found_def no_faults_simp sample_store_eq
      rows_affected_def outbound_row_def ref_clash_def message_row_of_def sample_simps)

lemma sent_store_ok: "store_inv sent_store" "row_delivery sent_store ''messag-00000000000001'' = Some sent_delivery"
  using update_ok [OF sample_inv _ _ sent_run] by (simp_all add: sent_delivery_def named_failure_def failure_of_string_def)

definition sample_hooks :: "(unit, idem_store, unit) hook_world" where
  "sample_hooks =
     \<lparr>hw_messages = sample_world\<lparr>wd_store := sent_store\<rparr>,
      hw_faxes = \<lparr>fw_store = (), fw_files = (\<lambda>_. None), fw_events = [], fw_sent = []\<rparr>,
      hw_gate = (\<lambda>_. None), hw_devices = (), hw_dropped = [], hw_pushed = []\<rparr>"

definition sample_inputs :: hook_inputs where
  "sample_inputs =
     \<lparr>hi_now = 0, hi_faults = no_faults, hi_race = id, hi_mint = sample_mint, hi_name = [], hi_fax = []\<rparr>"

definition sample_verdict :: hook_message_status_request where
  "sample_verdict = \<lparr>hms_ref = ''pm-1'', hms_status = ''delivered'', hms_error = []\<rparr>"

theorem verdict_window_witness:
  "once_per_window (engine_gate mem_window hook_idempotency_ttl)
     (sample_hooks\<lparr>hw_gate := \<lambda>_. None\<rparr>)"
  using verdict_window mem_window_ok by blast

theorem verdict_retries_witness:
  "\<exists>w. hook_message_status (map_gate hook_idempotency_ttl) sample_inputs (Some sample_verdict) sample_hooks
       = (Some 202, w) \<and>
     row_delivery (wd_store (hw_messages w)) ''messag-00000000000001'' =
       Some \<lparr>dlv_status = Delivered, dlv_ref = ''pm-1'', dlv_fkind = Failure_None, dlv_fdetail = []\<rparr>"
proof -
  let ?G = "map_gate hook_idempotency_ttl"
  have gate: "idem_gate ?G (map_due hook_idempotency_ttl) hook_idempotency_ttl (\<lambda>_. True)"
    by (rule map_window.idem_gate_axioms)
  have "store_inv (wd_store (hw_messages sample_hooks))"
    "row_delivery (wd_store (hw_messages sample_hooks)) ''messag-00000000000001'' = Some sent_delivery"
    by (simp_all add: sample_hooks_def sent_store_ok)
  moreover have "status_attempts ?G [(sample_inputs, None)] sample_hooks = ([Some 400], sample_hooks)"
    by (simp add: hook_message_status_def)
  ultimately show ?thesis
    using verdict_retries [OF gate, of sample_hooks sample_verdict "''messag-00000000000001''" sent_delivery
        "[(sample_inputs, None)]" "[Some 400]" sample_hooks Verdict_Delivered sample_inputs]
    by (auto simp: sample_hooks_def map_due_def sample_verdict_def sample_inputs_def sent_delivery_def settle_def)
qed

definition dead_sender :: push_sender where
  "dead_sender = \<lparr>snd_enabled = True, snd_ring = (\<lambda>_ _. Some Push_Unregistered), snd_draft = (\<lambda>_ _. None)\<rparr>"

definition sample_device :: device_view where
  "sample_device =
     \<lparr>dvv_owner = ''1001'', dvv_device = ''d1'', dvv_transport = ''ntfy'', dvv_token = ''t'', dvv_updated = 0\<rparr>"

definition sample_ring :: ring_request where
  "sample_ring = \<lparr>rrq_owner = ''1001'', rrq_from = ''+49'', rrq_call = ''c'', rrq_state = ''ring''\<rparr>"

definition sample_deps :: "unit hook_deps" where
  "sample_deps =
     \<lparr>hd_secret = ''s3'', hd_messaging = sample_service,
      hd_faxes = \<lparr>fo_create = (\<lambda>_ s. (Inr (), s)), fo_update = (\<lambda>_ _ _ s. (Inr (), s)),
        fo_advance = (\<lambda>_ _ _ _ s. (Inr (), s)), fo_list = (\<lambda>_ _ _. Inr []),
        fo_get = (\<lambda>_ _ _. Inl Not_Found), fo_by_ref = (\<lambda>_ _. Inl Not_Found)\<rparr>,
      hd_push = Some (new_fanout [(''ntfy'', Some dead_sender), (''fcm'', None)])\<rparr>"

definition ring_world :: "(unit, idem_store, (slot_key \<times> device_view) list) hook_world" where
  "ring_world =
     \<lparr>hw_messages = sample_world,
      hw_faxes = \<lparr>fw_store = (), fw_files = (\<lambda>_. None), fw_events = [], fw_sent = []\<rparr>,
      hw_gate = (\<lambda>_. None), hw_devices = [((''1001'', ''d1''), sample_device)], hw_dropped = [], hw_pushed = []\<rparr>"

lemma sample_ring_parse:
  "parse_owner_from (rrq_owner sample_ring) (rrq_from sample_ring) =
     Some (Extension ''1001'', \<lparr>addr_network = Network_SMS, addr_value = ''+49''\<rparr>)"
  by code_simp

lemma sample_ring_rows:
  "device_rows (map_of (hw_devices ring_world))" "within_cap dvv_owner 8 (map_of (hw_devices ring_world))"
proof -
  have one: "map_of (hw_devices ring_world) = [(''1001'', ''d1'') \<mapsto> sample_device]"
    by (simp add: ring_world_def)
  show "device_rows (map_of (hw_devices ring_world))"
    by (simp add: one device_rows_def keyed_def rows_ok_def sample_device_def)
  have "held dvv_owner (map_of (hw_devices ring_world)) o' \<subseteq> {(''1001'', ''d1'')}" for o'
    by (auto simp: one held_def matching_def split: if_splits)
  then have "finite (held dvv_owner (map_of (hw_devices ring_world)) o') \<and>
      card (held dvv_owner (map_of (hw_devices ring_world)) o') \<le> 1" for o'
    using card_mono [of "{(''1001'', ''d1'')}"] by (simp add: finite_subset [of _ "{(''1001'', ''d1'')}"])
  then show "within_cap dvv_owner 8 (map_of (hw_devices ring_world))"
    unfolding within_cap_def by (meson le_trans one_le_numeral)
qed

theorem ring_reaches_all_witness:
  "\<exists>w'. hook_ring (Some mem_engine) sample_deps (Some sample_ring) ring_world = (Some 202, w') \<and>
     map_of (hw_devices w') (''1001'', ''d1'') = None \<and> length (hw_pushed w') = 1"
proof -
  let ?rg = "\<lparr>rg_event = Event_Ring, rg_from = ''+49'', rg_call = ''c''\<rparr>"
  obtain answer w' where run: "hook_ring (Some mem_engine) sample_deps (Some sample_ring) ring_world = (answer, w')"
    by fastforce
  have list: "device_list mem_engine (Extension ''1001'') (hw_devices ring_world) = Inr [sample_device]"
    by code_simp
  have live: "fanout_enabled (hd_push sample_deps)"
    by (simp add: sample_deps_def fanout_enabled_def dead_sender_def)
  have dead: "fanout_send (hd_push sample_deps) (dvv_transport sample_device) (dvv_token sample_device) ?rg
      = Some Push_Unregistered"
    by (simp add: sample_deps_def fanout_send_def fanout_enabled_def dead_sender_def sample_device_def)
  have "rrq_state sample_ring = ''ring'' \<and> Event_Ring = Event_Ring \<or>
      rrq_state sample_ring = ''end'' \<and> Event_Ring = Event_Ring_End"
    by (simp add: sample_ring_def)
  from ring_reaches_all [OF mem_engine_laws sample_ring_rows sample_ring_parse this live list run, of ?rg]
  have "answer = Some 202 \<and> hw_pushed w' = hw_pushed ring_world @ [(dvv_transport sample_device, dvv_token sample_device, ?rg)] \<and>
      map_of (hw_devices w') (dvv_owner sample_device, dvv_device sample_device) = None"
    using dead by (simp add: sample_ring_def mem_engine_reliable)
  then show ?thesis using run by (simp add: sample_device_def ring_world_def)
qed

theorem hook_refusals_witness:
  "secret_gate id (map_gate hook_idempotency_ttl) (None :: (unit, slot_key, device_view) engine option) sample_deps
     \<lparr>dec_message = \<lambda>_. None, dec_message_status = \<lambda>_. None, dec_fax = \<lambda>_. None,
      dec_fax_status = \<lambda>_. None, dec_ring = \<lambda>_. None\<rparr> sample_inputs ''Bearer nope'' ''/hooks/fax'' [] sample_hooks
   = (Some 401, sample_hooks)"
  using hook_refusals [THEN conjunct2, THEN conjunct1, of sample_deps id "''Bearer nope''"]
  unfolding sample_deps_def by (simp add: trim_prefix_def del: new_fanout.simps)

end
