(* ===== verification/Trim.thy ===== *)
theory Trim
  imports Expunge
begin

text \<open>
  The converging trims of \<^verbatim>\<open>internal/readmodels\<close>: scan the newest \<open>cap + 1\<close> rows of a group,
  remove what is past the cap, and scan again until the group fits. They are expunge
  loops whose pick is the page past the cap. The trim returns on every finite collection;
  when it succeeds the group is as large as the cap allows and holds its newest rows.
\<close>

definition trim_loop ::
  "('s, 'k, 'v, 'z) engine_scheme \<Rightarrow> string \<Rightarrow> string \<Rightarrow> 'v query \<Rightarrow> nat \<Rightarrow> ('v \<Rightarrow> 'k) \<Rightarrow> 's \<Rightarrow>
     ((err + unit) \<times> 'v list \<times> nat \<times> 's) option" where
  "trim_loop E scan_code del_code q cap key s = expunge_loop E scan_code del_code q (drop cap) key s"

text \<open>One pass of a successful trim: the page, the row past the cap, and the rest.\<close>

lemma trim_cases:
  assumes laws: "engine_laws E view" and run: "trim_loop E sc dc q cap key s = Some (Inr (), gone, n, s')"
    and lim: "q_limit q = Suc cap"
  obtains (fits) "s' = s" "gone = []" "n = 0"
      "finite (matching (q_filter q) (view s)) \<Longrightarrow> card (matching (q_filter q) (view s)) \<le> cap"
    | (pass) vs w t later m where "answers q (view s) vs" "length vs = Suc cap" "w = last vs"
      "view t = (view s)(key w := None)" "trim_loop E sc dc q cap key t = Some (Inr (), later, m, s')"
      "gone = w # later" "n = Suc m"
proof -
  note unfold = expunge_loop.simps [of E sc dc q "drop cap" key s]
  obtain vs where scan: "eng_scan E q s = Inr vs"
    using run by (cases "eng_scan E q s") (simp_all add: trim_loop_def unfold)
  note ans = engine_scan [OF laws scan]
  show thesis
  proof (cases "drop cap vs = []")
    case True
    then have "finite (matching (q_filter q) (view s)) \<Longrightarrow> card (matching (q_filter q) (view s)) \<le> cap"
      using answers_length [OF ans] lim by simp
    then show ?thesis using fits run True scan by (simp add: trim_loop_def unfold)
  next
    case False
    have len: "length vs = Suc cap" using answers_length [OF ans] lim False by simp
    then have one: "drop cap vs = [last vs]"
      by (metis Cons_nth_drop_Suc append_butlast_last_id butlast_conv_take cancel_comm_monoid_add_class.diff_cancel
          diff_Suc_1 drop_all last_conv_nth length_greater_0_conv lessI list.size(3) nat_le_linear zero_less_Suc)
    obtain r t where del: "eng_del E (key (last vs)) s = (r, t)" by fastforce
    have "r = Inr ()" using run scan one del by (cases r) (auto simp: trim_loop_def unfold wrap_write_def)
    then obtain later m where rest: "trim_loop E sc dc q cap key t = Some (Inr (), later, m, s')"
      "gone = last vs # later" "n = Suc m"
      using run scan one del by (auto simp: trim_loop_def unfold wrap_write_def Option.bind_eq_Some_conv)
    have "view t = (view s)(key (last vs) := None)"
      using engine_del_ok [OF laws, of "key (last vs)" s "()" t] del \<open>r = Inr ()\<close> by simp
    then show ?thesis using pass ans len rest by blast
  qed
qed

lemma drop_sub: "mset (drop cap vs) \<subseteq># mset vs"
  by (metis append_take_drop_id mset_append mset_subset_eq_add_right)

lemma trim_effect:
  assumes laws: "engine_laws E view" and fin: "finite (matching (q_filter q) (view s))" and keys: "keyed key (view s)"
  shows "\<exists>r gone n s'. trim_loop E sc dc q cap key s = Some (r, gone, n, s') \<and> view s' \<subseteq>\<^sub>m view s \<and>
    (\<forall>k v. view s k = Some v \<and> view s' k = None \<longrightarrow> q_filter q v)"
  using expunge_loop_total [OF laws fin keys, of "drop cap" sc dc] drop_sub unfolding trim_loop_def by blast

lemma matching_drop:
  "m k = Some w \<Longrightarrow> P w \<Longrightarrow> matching P (m(k := None)) = matching P m - {k}"
  by (auto simp: matching_def)

text \<open>
  If a kept row is not one of the newest of the first page, one of those was removed later.
\<close>

lemma displaced:
  assumes "finite K" "card K = length us" "distinct (map key us)" "k \<in> K" "k \<notin> key ` set us"
  shows "\<exists>u \<in> set us. key u \<notin> K"
proof (rule ccontr)
  assume "\<not> ?thesis"
  then have "key ` set us \<subset> K" using assms(4,5) by blast
  then have "card (key ` set us) < card K" by (rule psubset_card_mono [OF assms(1)])
  moreover have "card (key ` set us) = length us" using assms(3) by (metis distinct_card length_map set_map)
  ultimately show False using assms(2) by simp
qed

lemma page_rows:
  assumes "answers q m vs" "keyed key m" "vs = us @ [w]" "u \<in> set us"
  shows "q_filter q u \<and> (m(key w := None)) (key u) = Some u"
proof -
  have "q_filter q u \<and> m (key u) = Some u"
    using assms answers_sound [OF assms(1), of u] keyedD [OF assms(2)] by auto
  moreover have "key u \<noteq> key w"
    using answers_keys [OF assms(1,2)] assms(3,4) by (auto simp: image_iff)
  ultimately show ?thesis by simp
qed

lemma pass_newest:
  assumes ans: "answers q m vs" and q: "q_sort q = Some f" "q_desc q" and keys: "keyed key m"
    and vs: "vs = us @ [w]" and sub: "m' \<subseteq>\<^sub>m m(key w := None)"
    and K: "finite (matching (q_filter q) m')" "card (matching (q_filter q) m') = length us"
    and later: "\<forall>k v k' v'. (m(key w := None)) k = Some v \<and> m' k = None \<and> m' k' = Some v' \<and> q_filter q v' \<longrightarrow> f v \<le> f v'"
    and kept: "m' k' = Some v'" "q_filter q v'"
  shows "f w \<le> f v'"
proof -
  have above: "f w \<le> f u" if "u \<in> set us" for u
    using answers_newest [OF ans q] that vs by (simp add: sorted_wrt_append)
  note row = page_rows [OF ans keys vs]
  show ?thesis
  proof (cases "k' \<in> key ` set us")
    case True
    then obtain u where u: "u \<in> set us" "k' = key u" by blast
    then have "m' k' = Some u" using row [OF u(1)] sub kept(1) by (metis domI map_le_def)
    then show ?thesis using above [OF u(1)] kept(1) by simp
  next
    case False
    moreover have "k' \<in> matching (q_filter q) m'" using kept by (auto simp: matching_def)
    moreover have "distinct (map key us)" using answers_keys [OF ans keys] vs by simp
    ultimately obtain u where u: "u \<in> set us" "key u \<notin> matching (q_filter q) m'"
      using displaced [OF K] by metis
    have "m' (key u) = None"
      using u(2) row [OF u(1)] sub by (cases "m' (key u)") (auto simp: matching_def map_le_def dom_def)
    then have "f u \<le> f v'" using later row [OF u(1)] kept by blast
    then show ?thesis using above [OF u(1)] by simp
  qed
qed

lemma trim_newest:
  assumes laws: "engine_laws E view" and run: "trim_loop E sc dc q cap key s = Some (Inr (), gone, n, s')"
    and fin: "finite (matching (q_filter q) (view s))" and keys: "keyed key (view s)"
    and q: "q_limit q = Suc cap" "q_sort q = Some f" "q_desc q"
  shows "card (matching (q_filter q) (view s')) = min cap (card (matching (q_filter q) (view s))) \<and>
    (\<forall>k v k' v'. view s k = Some v \<and> view s' k = None \<and> view s' k' = Some v' \<and> q_filter q v' \<longrightarrow> f v \<le> f v')"
  using run fin keys
proof (induction n arbitrary: s gone)
  case 0
  show ?case
    by (rule trim_cases [OF laws "0.prems"(1) q(1)]) (use "0.prems"(2) in auto)
next
  case (Suc n)
  show ?case
  proof (rule trim_cases [OF laws Suc.prems(1) q(1)])
    fix vs w t later m
    assume pass: "answers q (view s) vs" "length vs = Suc cap" "w = last vs"
      "view t = (view s)(key w := None)" "trim_loop E sc dc q cap key t = Some (Inr (), later, m, s')"
      "gone = w # later" "Suc n = Suc m"
    let ?M = "matching (q_filter q) (view s)" and ?K = "matching (q_filter q) (view s')"
    have vs: "vs = butlast vs @ [w]" using pass(2,3) by (metis append_butlast_last_id list.size(3) nat.distinct(1))
    then have w: "q_filter q w" "view s (key w) = Some w"
      using answers_sound [OF pass(1), of w] keyedD [OF Suc.prems(3)] by (metis in_set_conv_decomp)+
    have Mt: "matching (q_filter q) (view t) = ?M - {key w}"
      unfolding pass(4) using w by (intro matching_drop)
    have fin: "finite (matching (q_filter q) (view t))" using Suc.prems(2) Mt by simp
    have keys: "keyed key (view t)" unfolding pass(4) by (rule keyed_drop [OF Suc.prems(3)])
    have n: "m = n" using pass(7) by simp
    note ih = Suc.IH [OF pass(5) [unfolded n] fin keys]
    have big: "Suc cap \<le> card ?M" using answers_length [OF pass(1)] pass(2) q(1) by simp
    have "key w \<in> ?M" using w by (auto simp: matching_def)
    then have K: "card ?K = cap" using ih big Mt Suc.prems(2) by simp
    have sub: "view s' \<subseteq>\<^sub>m view t" using trim_effect [OF laws fin keys, of sc dc cap] pass(5) by auto
    have "finite ?K" by (rule finite_subset [OF _ fin]) (use sub in \<open>auto simp: matching_def map_le_def dom_def\<close>)
    moreover have "card ?K = length (butlast vs)" using K pass(2) by simp
    ultimately have newest: "view s' k' = Some v' \<Longrightarrow> q_filter q v' \<Longrightarrow> f w \<le> f v'" for k' v'
      by (rule pass_newest [OF pass(1) q(2,3) Suc.prems(3) vs sub [unfolded pass(4)]
            _ _ ih [THEN conjunct2, unfolded pass(4)]])
    have "f v \<le> f v'" if "view s k = Some v" "view s' k = None" "view s' k' = Some v'" "q_filter q v'" for k v k' v'
    proof (cases "k = key w")
      case False
      then have "view t k = Some v" using that(1) pass(4) by simp
      then show ?thesis using that ih by blast
    qed (use that w(2) newest in auto)
    then show ?thesis using K big by auto
  qed simp
qed

text \<open>A trim over an engine that does not fail does not fail.\<close>

lemma expunge_reliable: "reliable E \<Longrightarrow> \<exists>gone n s'. expunge E code key vs s = (Inr (), gone, n, s')"
proof (induction vs arbitrary: s)
  case (Cons v vs)
  obtain q t where del: "eng_del E (key v) s = (q, t)" by fastforce
  then have "q = Inr ()" using Cons.prems unfolding reliable_def by (metis fst_conv)
  then show ?case using Cons.IH [OF Cons.prems, of t] del by (auto simp: wrap_write_def)
qed simp

lemma expunge_loop_reliable:
  assumes rel: "reliable E" and run: "expunge_loop E sc dc q pick key s = Some y"
  shows "fst y = Inr ()"
proof -
  have "reliable E \<longrightarrow> fst y = Inr ()"
  proof (rule expunge_loop.raw_induct [OF _ run], intro impI)
    fix f E sc dc q pick key s y
    assume ih: "\<And>E sc dc q pick key s y. f E sc dc q pick key s = Some y \<Longrightarrow> reliable E \<longrightarrow> fst y = Inr ()"
      and body: "(case wrap_read sc (eng_scan E q s) of
          Inl e \<Rightarrow> Some (Inl e, [], 0, s)
        | Inr vs \<Rightarrow> (if pick vs = [] then Some (Inr (), [], 0, s)
            else (case expunge E dc key (pick vs) s of
                    (Inl e, gone, n, s') \<Rightarrow> Some (Inl e, gone, n, s')
                  | (Inr _, gone, n, s') \<Rightarrow>
                      Option.bind (f E sc dc q pick key s')
                        (\<lambda>(r, later, n', s''). Some (r, gone @ later, n + n', s''))))) = Some y"
      and rel: "reliable E"
    obtain vs where scan: "eng_scan E q s = Inr vs" using rel unfolding reliable_def by blast
    show "fst y = Inr ()"
    proof (cases "pick vs = []")
      case False
      obtain gone n t where "expunge E dc key (pick vs) s = (Inr (), gone, n, t)"
        using expunge_reliable [OF rel] by blast
      then obtain z where "f E sc dc q pick key t = Some z" "fst y = fst z"
        using body scan False by (auto simp: Option.bind_eq_Some_conv)
      then show ?thesis using ih rel by fastforce
    qed (use body scan in auto)
  qed
  then show ?thesis using rel by blast
qed

section \<open>Declared caps\<close>

text \<open>
  Two collections declare a cap per owner and a ceiling over all owners
  (\<^verbatim>\<open>WithCapPerGroup\<close>, \<^verbatim>\<open>WithCap\<close>), which the engine enforces on request
  (\<^verbatim>\<open>EnforceCaps\<close>). \<open>caps_laws\<close> is its contract: it only removes rows, only from groups
  above their cap unless the whole collection is above its ceiling, the oldest of their
  group first, and when it succeeds no group is above its cap; below the ceiling a group
  loses no more than it has to.
\<close>

record ('s, 'k, 'v) capped_engine = "('s, 'k, 'v) engine" +
  eng_caps :: "'s \<Rightarrow> (err + unit) \<times> 's"

definition caps_move :: "('v \<Rightarrow> string) \<Rightarrow> ('v \<Rightarrow> int) \<Rightarrow> nat \<Rightarrow> nat \<Rightarrow> ('k \<Rightarrow> 'v option) \<Rightarrow> ('k \<Rightarrow> 'v option) \<Rightarrow> bool" where
  "caps_move own f cap ceiling m m' \<longleftrightarrow>
     m' \<subseteq>\<^sub>m m \<and>
     (\<forall>k v k' v'. m k = Some v \<and> m' k = None \<and> m' k' = Some v' \<and> own v' = own v \<longrightarrow> f v \<le> f v') \<and>
     (card (dom m) \<le> ceiling \<longrightarrow> (\<forall>o'. min cap (card (held own m o')) \<le> card (held own m' o')))"

definition caps_laws ::
  "('s, 'k, 'v, 'z) capped_engine_scheme \<Rightarrow> ('s \<Rightarrow> 'k \<Rightarrow> 'v option) \<Rightarrow> ('v \<Rightarrow> string) \<Rightarrow> ('v \<Rightarrow> int) \<Rightarrow> nat \<Rightarrow> nat \<Rightarrow> bool" where
  "caps_laws E view own f cap ceiling \<longleftrightarrow>
     engine_laws E view \<and>
     (\<forall>s r s'. eng_caps E s = (r, s') \<longrightarrow> finite (dom (view s)) \<longrightarrow>
        caps_move own f cap ceiling (view s) (view s') \<and>
        (r = Inr () \<longrightarrow> (\<forall>o'. card (held own (view s') o') \<le> cap)))"

lemma caps_run:
  "caps_laws E view own f cap ceiling \<Longrightarrow> eng_caps E s = (r, s') \<Longrightarrow> finite (dom (view s)) \<Longrightarrow>
     caps_move own f cap ceiling (view s) (view s') \<and> (r = Inr () \<longrightarrow> (\<forall>o'. card (held own (view s') o') \<le> cap))"
  unfolding caps_laws_def by blast

text \<open>Below the ceiling a group within its cap keeps every row.\<close>

lemma caps_idle:
  assumes move: "caps_move own f cap ceiling m m'" and fin: "finite (dom m)"
    and small: "card (dom m) \<le> ceiling" "card (held own m (own v)) \<le> cap" and row: "m k = Some v"
  shows "m' k = Some v"
proof -
  have sub: "held own m' o' \<subseteq> held own m o'" for o'
    using move by (force simp: caps_move_def held_def matching_def map_le_def dom_def)
  have "finite (held own m (own v))"
    by (rule finite_subset [OF _ fin]) (auto simp: held_def matching_def)
  moreover have "card (held own m (own v)) \<le> card (held own m' (own v))"
    using move small unfolding caps_move_def by (metis min.absorb2)
  ultimately have "held own m' (own v) = held own m (own v)"
    using sub by (metis card_subset_eq card_mono le_antisym)
  moreover have "k \<in> held own m (own v)" using row by (auto simp: held_def matching_def)
  ultimately obtain v' where "m' k = Some v'" by (auto simp: held_def matching_def)
  then show ?thesis using move row by (metis caps_move_def domI map_le_def)
qed

text \<open>A capped engine over an association list: it refuses to enforce past its cap.\<close>

definition mem_capped :: "nat \<Rightarrow> (('k \<times> 'v) list, 'k, 'v) capped_engine" where
  "mem_capped cap =
     engine.extend mem_engine
       \<lparr>eng_caps = (\<lambda>s. (if length s \<le> cap then Inr () else Inl (Coded Infrastructure ''caps''), s))\<rparr>"

lemma mem_capped_laws:
  fixes own :: "'v \<Rightarrow> string"
  shows "caps_laws (mem_capped cap) map_of own f cap ceiling"
proof -
  have "card (held own (map_of s) o') \<le> length s" for s :: "('k \<times> 'v) list" and o'
  proof -
    have "held own (map_of s) o' \<subseteq> fst ` set s" by (auto simp: held_def matching_def dest: map_of_SomeD intro: rev_image_eqI)
    then have "card (held own (map_of s) o') \<le> card (fst ` set s)" by (simp add: card_mono)
    also have "\<dots> \<le> length s" by (metis card_length set_map length_map)
    finally show ?thesis .
  qed
  moreover have "engine_laws (mem_capped cap) map_of"
    by (auto simp: engine_laws_def mem_capped_def engine.defs mem_engine_def mem_answers update_conv' delete_conv')
  ultimately show ?thesis
    by (auto simp: caps_laws_def caps_move_def mem_capped_def engine.defs intro: le_trans)
qed

end
