(* ===== verification/Agent_Audit.thy ===== *)
theory Agent_Audit
  imports Trim
begin

text \<open>
  The agent-action audit of \<^verbatim>\<open>internal/readmodels/agentaudit.go\<close>: append-only rows, an owner
  keeping the newest 500. The clock reading and the minted key are inputs. \<open>Append\<close> ends with
  the converging trim, so its result is an option: \<open>None\<close> would be a trim that does not end.
\<close>

record audit_view =
  auv_id :: string
  auv_owner :: string
  auv_actor :: string
  auv_event :: string
  auv_subject :: string
  auv_outcome :: string
  auv_at :: int
  auv_seq :: int

definition audit_max :: nat where "audit_max = 500"

definition audit_query :: "extension \<Rightarrow> nat \<Rightarrow> audit_view query" where
  "audit_query ext lim =
     \<lparr>q_filter = (\<lambda>v. auv_owner v = ext_string ext), q_sort = Some auv_seq, q_desc = True, q_limit = lim\<rparr>"

definition audit_fold ::
  "string \<Rightarrow> time \<Rightarrow> extension \<Rightarrow> string \<Rightarrow> string \<Rightarrow> string \<Rightarrow> string \<Rightarrow> audit_view" where
  "audit_fold i now ext actor event subject outcome =
     \<lparr>auv_id = i, auv_owner = ext_string ext, auv_actor = actor, auv_event = event,
      auv_subject = subject, auv_outcome = outcome, auv_at = unix now, auv_seq = now\<rparr>"

definition audit_append ::
  "('s, string, audit_view) engine \<Rightarrow> string \<Rightarrow> time \<Rightarrow> extension \<Rightarrow> string \<Rightarrow> string \<Rightarrow> string \<Rightarrow> string \<Rightarrow> 's \<Rightarrow>
     ((err + unit) \<times> 's) option" where
  "audit_append E i now ext actor event subject outcome s =
     (case wrap_write ''readmodels.agent_audit_append''
             (eng_put E i (audit_fold i now ext actor event subject outcome) s) of
        (Inl e, s1) \<Rightarrow> Some (Inl e, s1)
      | (Inr _, s1) \<Rightarrow>
          map_option (\<lambda>(r, _, _, s2). (r, s2))
            (trim_loop E ''readmodels.agent_audit_trim'' ''readmodels.agent_audit_trim''
               (audit_query ext (audit_max + 1)) audit_max auv_id s1))"

definition audit_recent ::
  "('s, string, audit_view) engine \<Rightarrow> extension \<Rightarrow> int \<Rightarrow> 's \<Rightarrow> err + audit_view list" where
  "audit_recent E ext lim s =
     wrap_read ''readmodels.agent_audit_recent''
       (eng_scan E (audit_query ext (nat (if lim \<le> 0 then 1 else lim))) s)"

section \<open>The newest rows stay\<close>

lemma finite_matching: "finite (dom m) \<Longrightarrow> finite (matching P m)"
  by (rule finite_subset [of _ "dom m"]) (auto simp: matching_def)

lemma trim_audit:
  fixes E :: "('s, string, audit_view) engine"
  assumes laws: "engine_laws E view" and fin: "finite (dom (view s))" and keys: "keyed auv_id (view s)"
  shows "\<exists>r gone n s'. trim_loop E sc dc (audit_query ext (audit_max + 1)) audit_max auv_id s = Some (r, gone, n, s') \<and>
    view s' \<subseteq>\<^sub>m view s \<and>
    (\<forall>k v. view s k = Some v \<and> auv_owner v \<noteq> ext_string ext \<longrightarrow> view s' k = Some v) \<and>
    (r = Inr () \<longrightarrow>
      card (held auv_owner (view s') (ext_string ext)) = min 500 (card (held auv_owner (view s) (ext_string ext))) \<and>
      (\<forall>k v k' v'. view s k = Some v \<and> view s' k = None \<and> view s' k' = Some v' \<and>
         auv_owner v' = ext_string ext \<longrightarrow> auv_seq v \<le> auv_seq v')) \<and>
    (reliable E \<longrightarrow> r = Inr ())"
proof -
  let ?q = "audit_query ext (audit_max + 1)"
  obtain r gone n s' where trim: "trim_loop E sc dc ?q audit_max auv_id s = Some (r, gone, n, s')"
    "view s' \<subseteq>\<^sub>m view s" "\<forall>k v. view s k = Some v \<and> view s' k = None \<longrightarrow> q_filter ?q v"
    using trim_effect [OF laws finite_matching [OF fin] keys] by blast
  have "view s' k = Some v" if "view s k = Some v" "auv_owner v \<noteq> ext_string ext" for k v
    using trim(2,3) that by (cases "view s' k") (auto simp: audit_query_def map_le_def dom_def)
  moreover have "card (held auv_owner (view s') (ext_string ext)) = min 500 (card (held auv_owner (view s) (ext_string ext))) \<and>
    (\<forall>k v k' v'. view s k = Some v \<and> view s' k = None \<and> view s' k' = Some v' \<and> auv_owner v' = ext_string ext \<longrightarrow>
       auv_seq v \<le> auv_seq v')" if "r = Inr ()"
  proof -
    have q: "q_limit ?q = Suc audit_max" "q_sort ?q = Some auv_seq" "q_desc ?q"
      "q_filter ?q = (\<lambda>v. auv_owner v = ext_string ext)" by (simp_all add: audit_query_def)
    show ?thesis
      using trim_newest [OF laws trim(1) [unfolded that] finite_matching [OF fin] keys q(1-3), unfolded q(4)]
      unfolding held_def audit_max_def .
  qed
  moreover have "r = Inr ()" if "reliable E"
    using expunge_loop_reliable [OF that] trim(1) by (fastforce simp: trim_loop_def)
  ultimately show ?thesis using trim(1,2) by blast
qed

text \<open>
  Appending an audit row returns for every finite collection and whatever engine calls
  fail. It never touches a row of another extension and invents none; when it succeeds
  the extension holds one row more, up to 500 in all, and every row it gave up is at most as
  new as every row it kept, so a later read of up to 500 rows shows the newest ones; and over an engine
  that does not fail it succeeds.
\<close>

theorem audit_keeps_newest:
  fixes E :: "('s, string, audit_view) engine"
  assumes laws: "engine_laws E view" and fin: "finite (dom (view s))" and keys: "keyed auv_id (view s)"
    and fresh: "view s i = None" and row: "row = audit_fold i now ext actor event subject outcome"
  shows "\<exists>r s'. audit_append E i now ext actor event subject outcome s = Some (r, s') \<and>
    view s' \<subseteq>\<^sub>m (view s)(i \<mapsto> row) \<and>
    (\<forall>k v. view s k = Some v \<and> auv_owner v \<noteq> ext_string ext \<longrightarrow> view s' k = Some v) \<and>
    (r = Inr () \<longrightarrow>
      card (held auv_owner (view s') (ext_string ext)) = min 500 (card (held auv_owner (view s) (ext_string ext)) + 1) \<and>
      (\<forall>k v k' v'. ((view s)(i \<mapsto> row)) k = Some v \<and> view s' k = None \<and> view s' k' = Some v' \<and>
         auv_owner v' = ext_string ext \<longrightarrow> auv_seq v \<le> auv_seq v')) \<and>
    (reliable E \<longrightarrow> r = Inr ())"
proof -
  obtain p s1 where put: "eng_put E i row s = (p, s1)" by fastforce
  show ?thesis
  proof (cases p)
    case (Inl e)
    have "\<not> reliable E" using put Inl unfolding reliable_def by (metis fst_conv sum.distinct(1))
    moreover have "view s1 = (view s)(i \<mapsto> row) \<or> view s1 = view s" using engine_put [OF laws put] by blast
    moreover have "audit_append E i now ext actor event subject outcome s
        = Some (Inl (Coded Infrastructure ''readmodels.agent_audit_append''), s1)"
      using put Inl by (simp add: audit_append_def row wrap_write_def)
    ultimately show ?thesis using fresh by (auto simp: map_le_def)
  next
    case (Inr u)
    then have v1: "view s1 = (view s)(i \<mapsto> row)" using engine_put_ok [OF laws, of i row s "()" s1] put by simp
    have fin1: "finite (dom (view s1))" using fin v1 by simp
    have keys1: "keyed auv_id (view s1)"
      using keys v1 by (simp add: keyed_def rows_ok_put row audit_fold_def)
    have "held auv_owner (view s1) (ext_string ext) = insert i (held auv_owner (view s) (ext_string ext))"
      "i \<notin> held auv_owner (view s) (ext_string ext)"
      using v1 fresh by (auto simp: held_def matching_def row audit_fold_def)
    then have grown: "card (held auv_owner (view s1) (ext_string ext)) = card (held auv_owner (view s) (ext_string ext)) + 1"
      using fin by (simp add: held_def finite_matching)
    have old: "view s1 k = Some v" if "view s k = Some v" for k v using that fresh v1 by auto
    from trim_audit [OF laws fin1 keys1, of "''readmodels.agent_audit_trim''" "''readmodels.agent_audit_trim''" ext]
    obtain r gone n s' where "trim_loop E ''readmodels.agent_audit_trim'' ''readmodels.agent_audit_trim''
        (audit_query ext (audit_max + 1)) audit_max auv_id s1 = Some (r, gone, n, s')"
      and rest: "view s' \<subseteq>\<^sub>m view s1"
      "\<forall>k v. view s1 k = Some v \<and> auv_owner v \<noteq> ext_string ext \<longrightarrow> view s' k = Some v"
      "r = Inr () \<longrightarrow>
        card (held auv_owner (view s') (ext_string ext)) = min 500 (card (held auv_owner (view s1) (ext_string ext))) \<and>
        (\<forall>k v k' v'. view s1 k = Some v \<and> view s' k = None \<and> view s' k' = Some v' \<and>
           auv_owner v' = ext_string ext \<longrightarrow> auv_seq v \<le> auv_seq v')"
      "reliable E \<longrightarrow> r = Inr ()" by blast
    then have "audit_append E i now ext actor event subject outcome s = Some (r, s')"
      using put Inr by (simp add: audit_append_def row wrap_write_def)
    moreover have "card (held auv_owner (view s') (ext_string ext)) = min 500 (card (held auv_owner (view s) (ext_string ext)) + 1)"
      if "r = Inr ()" using rest(3) that grown by simp
    moreover have "\<forall>k v. view s k = Some v \<and> auv_owner v \<noteq> ext_string ext \<longrightarrow> view s' k = Some v"
      using rest(2) old by blast
    ultimately show ?thesis using rest(1,3,4) unfolding v1 by blast
  qed
qed

theorem audit_keeps_newest_witness:
  "\<exists>s'. audit_append mem_engine ''a1'' 5 (Extension ''1001'') ''agent'' ''draft'' ''s'' ''ok'' [] = Some (Inr (), s') \<and>
     card (held auv_owner (map_of s') ''1001'') = 1"
proof -
  have none: "held auv_owner (\<lambda>_. None) o' = {}" for o' by (simp add: held_def matching_def)
  have "finite (dom (map_of ([] :: (string \<times> audit_view) list)))" "keyed auv_id (map_of [])" by (simp_all add: keyed_def)
  note now = audit_keeps_newest [OF mem_engine_laws this, where i = "''a1''" and now = 5 and ext = "Extension ''1001''"
      and actor = "''agent''" and event = "''draft''" and subject = "''s''" and outcome = "''ok''", OF _ refl]
  have "map_of ([] :: (string \<times> audit_view) list) ''a1'' = None" by simp
  from now [OF this] show ?thesis
    by (elim exE conjE) (simp add: mem_engine_reliable none)
qed

end
