(* ===== verification/Transcripts.thy ===== *)
theory Transcripts
  imports Trim Messages_Domain
begin

text \<open>
  The call transcripts of \<^verbatim>\<open>internal/readmodels/transcripts.go\<close> over an engine with declared
  caps: appended segments, at most 5000 per extension (declared) and 1500 per call (the trim
  loop), the reads that reassemble segments into calls, and the removals. Clock readings
  and minted keys are inputs; \<^verbatim>\<open>strings.ToLower\<close> is the argument \<open>lower\<close> of the search. A
  direction is stored as the string the facts carry.
\<close>

record segment =
  seg_owner :: extension
  seg_call :: string
  seg_direction :: string
  seg_remote :: string
  seg_started :: time
  seg_text :: string

record call_transcript =
  ctr_owner :: extension
  ctr_call :: string
  ctr_direction :: string
  ctr_remote :: string
  ctr_started :: time
  ctr_lines :: "string list"

record segment_view =
  sgv_id :: string
  sgv_owner :: string
  sgv_call :: string
  sgv_direction :: string
  sgv_remote :: string
  sgv_started :: int
  sgv_seq :: int
  sgv_text :: string

definition segments_max_extension :: nat where "segments_max_extension = 5000"
definition segments_max_call :: nat where "segments_max_call = 1500"
definition transcripts_ceiling :: nat where "transcripts_ceiling = 1000000"
definition fetch_window :: nat where "fetch_window = 2000"
definition segment_page :: nat where "segment_page = 1000"

definition segment_fold :: "string \<Rightarrow> time \<Rightarrow> segment \<Rightarrow> segment_view" where
  "segment_fold i now seg =
     \<lparr>sgv_id = i, sgv_owner = ext_string (seg_owner seg), sgv_call = seg_call seg,
      sgv_direction = seg_direction seg, sgv_remote = seg_remote seg,
      sgv_started = unix (seg_started seg), sgv_seq = now, sgv_text = seg_text seg\<rparr>"

section \<open>Appending\<close>

definition call_query :: "string \<Rightarrow> string \<Rightarrow> nat \<Rightarrow> segment_view query" where
  "call_query owner call lim =
     \<lparr>q_filter = (\<lambda>v. sgv_owner v = owner \<and> sgv_call v = call), q_sort = Some sgv_seq, q_desc = True,
      q_limit = lim\<rparr>"

definition trim_call ::
  "('s, string, segment_view) capped_engine \<Rightarrow> string \<Rightarrow> string \<Rightarrow> 's \<Rightarrow> ((err + unit) \<times> 's) option" where
  "trim_call E owner call s =
     map_option (\<lambda>(r, _, _, s'). (r, s'))
       (trim_loop E ''readmodels.transcript_trim'' ''readmodels.transcript_trim''
          (call_query owner call (segments_max_call + 1)) segments_max_call sgv_id s)"

definition transcript_append ::
  "('s, string, segment_view) capped_engine \<Rightarrow> string \<Rightarrow> time \<Rightarrow> segment \<Rightarrow> 's \<Rightarrow> ((err + unit) \<times> 's) option" where
  "transcript_append E i now seg s =
     (case wrap_write ''readmodels.transcript_append'' (eng_put E i (segment_fold i now seg) s) of
        (Inl e, s1) \<Rightarrow> Some (Inl e, s1)
      | (Inr _, s1) \<Rightarrow>
          (case wrap_write ''readmodels.transcript_cap'' (eng_caps E s1) of
             (Inl e, s2) \<Rightarrow> Some (Inl e, s2)
           | (Inr _, s2) \<Rightarrow> trim_call E (ext_string (seg_owner seg)) (seg_call seg) s2))"

section \<open>Reassembling\<close>

text \<open>
  The loop of \<^verbatim>\<open>reassembleTranscripts\<close>: the groups so far and the index of each call's
  group. A line joins its group; the group's start is the latest of its segments.
\<close>

definition add_line :: "segment \<Rightarrow> call_transcript \<Rightarrow> call_transcript" where
  "add_line seg g =
     g\<lparr>ctr_lines := ctr_lines g @ [seg_text seg],
       ctr_started := if ctr_started g < seg_started seg then seg_started seg else ctr_started g\<rparr>"

definition open_group :: "segment \<Rightarrow> call_transcript" where
  "open_group seg =
     \<lparr>ctr_owner = seg_owner seg, ctr_call = seg_call seg, ctr_direction = seg_direction seg,
      ctr_remote = seg_remote seg, ctr_started = seg_started seg, ctr_lines = []\<rparr>"

definition group_step ::
  "nat \<Rightarrow> segment \<Rightarrow> call_transcript list \<times> (string \<Rightarrow> nat option) \<Rightarrow>
     call_transcript list \<times> (string \<Rightarrow> nat option)" where
  "group_step max_calls seg st =
     (let (groups, by_call) = st in
      case by_call (seg_call seg) of
        Some idx \<Rightarrow> (groups[idx := add_line seg (groups ! idx)], by_call)
      | None \<Rightarrow>
          if length groups \<ge> max_calls then (groups, by_call)
          else
            let idx = length groups; opened = groups @ [open_group seg] in
            (opened[idx := add_line seg (opened ! idx)], by_call(seg_call seg \<mapsto> idx)))"

text \<open>\<^verbatim>\<open>reverseLines\<close>: two indices that meet in the middle.\<close>

function reverse_from :: "int \<Rightarrow> int \<Rightarrow> string list \<Rightarrow> string list" where
  "reverse_from i j xs =
     (if i < j then reverse_from (i + 1) (j - 1) (xs[nat i := xs ! nat j, nat j := xs ! nat i]) else xs)"
  by pat_completeness auto
termination by (relation "measure (\<lambda>(i, j, xs). nat (j - i))") auto

declare reverse_from.simps [simp del]

definition reverse_lines :: "string list \<Rightarrow> string list" where
  "reverse_lines xs = reverse_from 0 (int (length xs) - 1) xs"

definition reassemble :: "segment list \<Rightarrow> nat \<Rightarrow> call_transcript list" where
  "reassemble rows max_calls =
     map (\<lambda>g. g\<lparr>ctr_lines := reverse_lines (ctr_lines g)\<rparr>)
       (fst (fold (group_step max_calls) rows ([], Map.empty)))"

section \<open>Reads\<close>

definition segment_of_view :: "extension \<Rightarrow> segment_view \<Rightarrow> segment" where
  "segment_of_view ext v =
     \<lparr>seg_owner = ext, seg_call = sgv_call v, seg_direction = sgv_direction v,
      seg_remote = sgv_remote v, seg_started = time_unix (sgv_started v), seg_text = sgv_text v\<rparr>"

fun segment_rows :: "segment_view list \<Rightarrow> err + segment list" where
  "segment_rows [] = Inr []"
| "segment_rows (v # vs) =
     (case must_parse_extension (sgv_owner v) of
        Inl e \<Rightarrow> Inl e
      | Inr ext \<Rightarrow> (case segment_rows vs of Inl e \<Rightarrow> Inl e | Inr rows \<Rightarrow> Inr (segment_of_view ext v # rows)))"

definition fetch_segments ::
  "('s, string, segment_view) capped_engine \<Rightarrow> segment_view query \<Rightarrow> 's \<Rightarrow> err + segment list" where
  "fetch_segments E q s =
     (case wrap_read ''readmodels.transcript_scan'' (eng_scan E q s) of
        Inl e \<Rightarrow> Inl e
      | Inr vs \<Rightarrow> segment_rows vs)"

definition owner_query :: "extension \<Rightarrow> nat \<Rightarrow> segment_view query" where
  "owner_query ext lim =
     \<lparr>q_filter = (\<lambda>v. sgv_owner v = ext_string ext), q_sort = Some sgv_seq, q_desc = True, q_limit = lim\<rparr>"

definition reassembled :: "(err + segment list) \<Rightarrow> nat \<Rightarrow> err + call_transcript list" where
  "reassembled r max_calls = (case r of Inl e \<Rightarrow> Inl e | Inr rows \<Rightarrow> Inr (reassemble rows max_calls))"

definition transcript_recent ::
  "('s, string, segment_view) capped_engine \<Rightarrow> extension \<Rightarrow> nat \<Rightarrow> 's \<Rightarrow> err + call_transcript list" where
  "transcript_recent E ext max_calls s =
     reassembled (fetch_segments E (owner_query ext fetch_window) s) max_calls"

definition transcript_search ::
  "(string \<Rightarrow> string) \<Rightarrow> ('s, string, segment_view) capped_engine \<Rightarrow> extension \<Rightarrow> string \<Rightarrow> nat \<Rightarrow> 's \<Rightarrow>
     err + call_transcript list" where
  "transcript_search lower E ext needle max_calls s =
     (case fetch_segments E (owner_query ext fetch_window) s of
        Inl e \<Rightarrow> Inl e
      | Inr rows \<Rightarrow>
          Inr (reassemble (filter (\<lambda>seg. str_contains (lower needle) (lower (seg_text seg))) rows) max_calls))"

definition transcript_recent_all ::
  "('s, string, segment_view) capped_engine \<Rightarrow> nat \<Rightarrow> 's \<Rightarrow> err + call_transcript list" where
  "transcript_recent_all E max_calls s =
     reassembled
       (fetch_segments E \<lparr>q_filter = (\<lambda>_. True), q_sort = Some sgv_seq, q_desc = True, q_limit = fetch_window\<rparr> s)
       max_calls"

definition transcript_export ::
  "('s, string, segment_view) capped_engine \<Rightarrow> extension \<Rightarrow> nat \<Rightarrow> 's \<Rightarrow> err + call_transcript list" where
  "transcript_export E ext max_calls s =
     reassembled (fetch_segments E (owner_query ext segments_max_extension) s) max_calls"

definition transcript_call ::
  "('s, string, segment_view) capped_engine \<Rightarrow> extension \<Rightarrow> string \<Rightarrow> 's \<Rightarrow> err + call_transcript option" where
  "transcript_call E ext call s =
     (case wrap_read ''readmodels.transcript_call''
             (eng_scan E (call_query (ext_string ext) call segments_max_call) s) of
        Inl e \<Rightarrow> Inl e
      | Inr vs \<Rightarrow>
          (case reassemble (map (segment_of_view ext) vs) 1 of [] \<Rightarrow> Inr None | g # _ \<Rightarrow> Inr (Some g)))"

section \<open>Removals\<close>

definition delete_call ::
  "('s, string, segment_view) capped_engine \<Rightarrow> extension \<Rightarrow> string \<Rightarrow> 's \<Rightarrow> (err + nat) \<times> 's" where
  "delete_call E ext call s =
     (case wrap_read ''readmodels.transcript_delete''
             (eng_scan E \<lparr>q_filter = (\<lambda>v. sgv_owner v = ext_string ext \<and> sgv_call v = call), q_sort = None,
                          q_desc = False, q_limit = segments_max_call\<rparr> s) of
        Inl e \<Rightarrow> (Inl e, s)
      | Inr vs \<Rightarrow>
          (case expunge E ''readmodels.transcript_trim'' sgv_id vs s of
             (Inl e, _, _, s') \<Rightarrow> (Inl e, s')
           | (Inr _, _, _, s') \<Rightarrow> (Inr (length vs), s')))"

definition segment_expirable :: "time \<Rightarrow> segment_view query" where
  "segment_expirable cutoff =
     \<lparr>q_filter = (\<lambda>v. sgv_seq v < cutoff), q_sort = Some sgv_seq, q_desc = False, q_limit = segment_page\<rparr>"

definition transcript_sweep_before ::
  "('s, string, segment_view) capped_engine \<Rightarrow> time \<Rightarrow> 's \<Rightarrow> ((err + unit) \<times> nat \<times> 's) option" where
  "transcript_sweep_before E cutoff s =
     map_option (\<lambda>(r, _, removed, s'). (r, removed, s'))
       (expunge_loop E ''readmodels.transcript_sweep'' ''readmodels.transcript_trim'' (segment_expirable cutoff)
          (\<lambda>vs. vs) sgv_id s)"

section \<open>Reassembling is grouping\<close>

lemma reverse_from_mid:
  "reverse_from (int (length a)) (int (length a) + int (length m) - 1) (a @ m @ b) = a @ rev m @ b"
proof (induction "length m" arbitrary: a m b rule: less_induct)
  case less
  show ?case
  proof (cases "length m < 2")
    case True
    then have "rev m = m" by (cases m; cases "tl m") auto
    then show ?thesis using True by (subst reverse_from.simps) simp
  next
    case False
    then obtain x n y where m: "m = x # n @ [y]"
      by (cases m; cases "tl m" rule: rev_cases) auto
    let ?i = "int (length a)" and ?j = "int (length a) + int (length m) - 1"
    have j: "nat ?j = Suc (length a + length n)" "nat ?i = length a" using m by simp_all
    have at: "(a @ m @ b) ! nat ?j = y" "(a @ m @ b) ! nat ?i = x"
      unfolding j by (simp_all add: m nth_append)
    have "(a @ m @ b)[nat ?i := y, nat ?j := x] = (a @ [y]) @ n @ (x # b)"
      unfolding j by (simp add: m list_update_append)
    then have "reverse_from ?i ?j (a @ m @ b) = reverse_from (?i + 1) (?j - 1) ((a @ [y]) @ n @ (x # b))"
      using m at by (subst reverse_from.simps) simp
    also have "\<dots> = reverse_from (int (length (a @ [y]))) (int (length (a @ [y])) + int (length n) - 1) ((a @ [y]) @ n @ (x # b))"
      using m by (simp add: algebra_simps)
    also have "\<dots> = (a @ [y]) @ rev n @ (x # b)" by (rule less) (simp add: m)
    finally show ?thesis using m by simp
  qed
qed

lemma reverse_lines_rev [simp]: "reverse_lines xs = rev xs"
  using reverse_from_mid [of "[]" xs "[]"] by (simp add: reverse_lines_def)

text \<open>
  The reference: the calls in the order of their first segments, each with its own segments.
\<close>

definition call_order :: "segment list \<Rightarrow> string list" where
  "call_order rows = rev (remdups (rev (map seg_call rows)))"

definition segments_of :: "string \<Rightarrow> segment list \<Rightarrow> segment list" where
  "segments_of c rows = filter (\<lambda>seg. seg_call seg = c) rows"

definition call_group :: "segment list \<Rightarrow> string \<Rightarrow> call_transcript" where
  "call_group rows c =
     (let segs = segments_of c rows in
      \<lparr>ctr_owner = seg_owner (hd segs), ctr_call = c, ctr_direction = seg_direction (hd segs),
       ctr_remote = seg_remote (hd segs), ctr_started = Max (set (map seg_started segs)),
       ctr_lines = map seg_text segs\<rparr>)"

lemma call_order_snoc:
  "call_order (rows @ [seg]) =
     (if seg_call seg \<in> seg_call ` set rows then call_order rows else call_order rows @ [seg_call seg])"
  by (auto simp: call_order_def)

lemma call_order_facts: "distinct (call_order rows)" "set (call_order rows) = seg_call ` set rows"
  by (auto simp: call_order_def)

lemma call_group_other: "seg_call seg \<noteq> c \<Longrightarrow> call_group (rows @ [seg]) c = call_group rows c"
  by (simp add: call_group_def segments_of_def)

lemma max_int: "max (a :: int) b = (if b < a then a else b)"
  by simp

lemma call_group_joined:
  assumes "seg_call seg \<in> seg_call ` set rows"
  shows "call_group (rows @ [seg]) (seg_call seg) = add_line seg (call_group rows (seg_call seg))"
proof -
  have some: "segments_of (seg_call seg) rows \<noteq> []" using assms by (auto simp: segments_of_def filter_empty_conv)
  let ?S = "set (map seg_started (segments_of (seg_call seg) rows))"
  have "Max (insert (seg_started seg) ?S) = max (seg_started seg) (Max ?S)"
    by (rule Max_insert) (simp_all add: some)
  also have "\<dots> = (if Max ?S < seg_started seg then seg_started seg else Max ?S)"
    by (rule max_int)
  finally have "Max (insert (seg_started seg) ?S) = (if Max ?S < seg_started seg then seg_started seg else Max ?S)" .
  then show ?thesis
    using some by (simp add: call_group_def segments_of_def add_line_def Let_def hd_append)
qed

lemma call_group_opened:
  assumes "seg_call seg \<notin> seg_call ` set rows"
  shows "call_group (rows @ [seg]) (seg_call seg) = add_line seg (open_group seg)"
proof -
  have "segments_of (seg_call seg) rows = []" using assms by (auto simp: segments_of_def filter_empty_conv intro: rev_image_eqI)
  then show ?thesis by (simp add: call_group_def segments_of_def add_line_def open_group_def Let_def)
qed

definition indexes :: "string list \<Rightarrow> (string \<Rightarrow> nat option) \<Rightarrow> bool" where
  "indexes cs m \<longleftrightarrow> (\<forall>c k. m c = Some k \<longleftrightarrow> k < length cs \<and> cs ! k = c)"

lemma indexes_None: "indexes cs m \<Longrightarrow> m c = None \<longleftrightarrow> c \<notin> set cs"
proof -
  assume ix: "indexes cs m"
  then have "m c = Some k \<longleftrightarrow> k < length cs \<and> cs ! k = c" for k by (simp add: indexes_def)
  then have "(\<exists>k. m c = Some k) \<longleftrightarrow> c \<in> set cs" by (simp add: in_set_conv_nth)
  then show ?thesis by (cases "m c") simp_all
qed

lemma indexes_snoc: "indexes cs m \<Longrightarrow> c \<notin> set cs \<Longrightarrow> indexes (cs @ [c]) (m(c \<mapsto> length cs))"
  by (auto simp: indexes_def nth_append less_Suc_eq split: if_splits)

lemma group_step_cases:
  "m (seg_call seg) = Some k \<Longrightarrow> group_step n seg (gs, m) = (gs[k := add_line seg (gs ! k)], m)"
  "m (seg_call seg) = None \<Longrightarrow> n \<le> length gs \<Longrightarrow> group_step n seg (gs, m) = (gs, m)"
  "m (seg_call seg) = None \<Longrightarrow> length gs < n \<Longrightarrow>
     group_step n seg (gs, m) = (gs @ [add_line seg (open_group seg)], m(seg_call seg \<mapsto> length gs))"
  by (simp_all add: group_step_def Let_def)

lemma group_fold:
  "\<exists>m. fold (group_step n) rows ([], Map.empty) = (map (call_group rows) (take n (call_order rows)), m) \<and>
     indexes (take n (call_order rows)) m"
proof (induction rows rule: rev_induct)
  case Nil
  then show ?case by (simp add: call_order_def indexes_def)
next
  case (snoc seg rows)
  let ?cs = "take n (call_order rows)" and ?c = "seg_call seg"
  obtain m where IH: "fold (group_step n) rows ([], Map.empty) = (map (call_group rows) ?cs, m)" "indexes ?cs m"
    using snoc.IH by blast
  have dist: "distinct ?cs" by (simp add: call_order_facts)
  have others: "c \<in> set ?cs \<Longrightarrow> c \<noteq> ?c \<Longrightarrow> call_group (rows @ [seg]) c = call_group rows c" for c
    by (simp add: call_group_other)
  show ?case
  proof (cases "m ?c")
    case (Some k)
    then have k: "k < length ?cs" "?cs ! k = ?c" using IH(2) by (auto simp: indexes_def)
    then have c: "?c \<in> seg_call ` set rows" by (metis call_order_facts(2) in_set_takeD nth_mem)
    note joined = call_group_joined [OF c]
    have apart: "i < length ?cs \<Longrightarrow> i \<noteq> k \<Longrightarrow> ?c \<noteq> ?cs ! i" for i
      using k nth_eq_iff_index_eq [OF dist, of i k] by metis
    have "(map (call_group rows) ?cs)[k := add_line seg (call_group rows ?c)] = map (call_group (rows @ [seg])) ?cs"
    proof (intro nth_equalityI)
      fix i assume "i < length ((map (call_group rows) ?cs)[k := add_line seg (call_group rows ?c)])"
      then have i: "i < length ?cs" by simp
      then show "(map (call_group rows) ?cs)[k := add_line seg (call_group rows ?c)] ! i
          = map (call_group (rows @ [seg])) ?cs ! i"
        using k joined apart [OF i] call_group_other [of seg "?cs ! i" rows]
        by (cases "i = k") (simp_all only: nth_list_update_eq nth_list_update_neq nth_map length_map not_False_eq_True simp_thms)
    qed simp
    with c show ?thesis using IH Some k by (simp add: group_step_cases call_order_snoc)
  next
    case None
    then have out: "?c \<notin> set ?cs" using indexes_None [OF IH(2)] by blast
    have same: "map (call_group (rows @ [seg])) ?cs = map (call_group rows) ?cs"
    proof (rule map_cong [OF refl])
      fix c assume "c \<in> set ?cs"
      then show "call_group (rows @ [seg]) c = call_group rows c" using others out by blast
    qed
    show ?thesis
    proof (cases "n \<le> length ?cs")
      case True
      then show ?thesis using IH None same by (simp add: group_step_cases call_order_snoc)
    next
      case False
      then have all: "?cs = call_order rows" "length (call_order rows) < n" by auto
      then have new: "?c \<notin> seg_call ` set rows" using out by (simp add: call_order_facts)
      have "indexes (call_order rows @ [?c]) (m(?c \<mapsto> length (call_order rows)))"
        using indexes_snoc [OF IH(2) out] all by simp
      then show ?thesis using IH None all new same call_group_opened [OF new]
        by (simp add: group_step_cases call_order_snoc)
    qed
  qed
qed

text \<open>
  C34. Reassembling segments in one pass with an index of open groups is grouping them: the
  answer is the first calls in the order of their first segments, as many as asked for, each
  with all of its segments and none of another call, its lines in reverse order of arrival
  and its start the latest of them. The in-place reversal of a group's lines is reversal.
\<close>

theorem reassemble_groups:
  "reassemble rows n =
     map (\<lambda>c. (call_group rows c)\<lparr>ctr_lines := rev (map seg_text (segments_of c rows))\<rparr>)
       (take n (call_order rows))"
  using group_fold [of n rows] by (auto simp: reassemble_def call_group_def Let_def)

section \<open>Bounds\<close>

text \<open>The two trims of an append: the declared caps, then the call.\<close>

lemma call_trim:
  fixes E :: "('s, string, segment_view) capped_engine"
  assumes laws: "engine_laws E view" and fin: "finite (dom (view s))" and keys: "keyed sgv_id (view s)"
  shows "\<exists>r s'. trim_call E o' call s = Some (r, s') \<and> view s' \<subseteq>\<^sub>m view s \<and>
    (\<forall>k v. view s k = Some v \<and> \<not> (sgv_owner v = o' \<and> sgv_call v = call) \<longrightarrow> view s' k = Some v) \<and>
    (r = Inr () \<longrightarrow>
      card (matching (\<lambda>v. sgv_owner v = o' \<and> sgv_call v = call) (view s')) \<le> 1500 \<and>
      (\<forall>k v k' v'. view s k = Some v \<and> view s' k = None \<and> view s' k' = Some v' \<and>
         sgv_owner v' = o' \<and> sgv_call v' = call \<longrightarrow> sgv_seq v \<le> sgv_seq v'))"
proof -
  let ?q = "call_query o' call (segments_max_call + 1)"
  have fm: "finite (matching (q_filter ?q) (view s))" by (rule finite_subset [OF _ fin]) (auto simp: matching_def)
  obtain r gone n s' where trim:
    "trim_loop E ''readmodels.transcript_trim'' ''readmodels.transcript_trim'' ?q segments_max_call sgv_id s = Some (r, gone, n, s')"
    "view s' \<subseteq>\<^sub>m view s" "\<forall>k v. view s k = Some v \<and> view s' k = None \<longrightarrow> q_filter ?q v"
    using trim_effect [OF laws fm keys] by blast
  have q: "q_limit ?q = Suc segments_max_call" "q_sort ?q = Some sgv_seq" "q_desc ?q"
    "q_filter ?q = (\<lambda>v. sgv_owner v = o' \<and> sgv_call v = call)" by (simp_all add: call_query_def)
  have "view s' k = Some v" if "view s k = Some v" "\<not> (sgv_owner v = o' \<and> sgv_call v = call)" for k v
    using trim(2) trim(3) [unfolded q(4)] that by (cases "view s' k") (auto simp: map_le_def dom_def)
  moreover have "card (matching (\<lambda>v. sgv_owner v = o' \<and> sgv_call v = call) (view s')) \<le> 1500 \<and>
    (\<forall>k v k' v'. view s k = Some v \<and> view s' k = None \<and> view s' k' = Some v' \<and>
       sgv_owner v' = o' \<and> sgv_call v' = call \<longrightarrow> sgv_seq v \<le> sgv_seq v')" if "r = Inr ()"
    using trim_newest [OF laws trim(1) [unfolded that] fm keys q(1-3), unfolded q(4)]
    by (intro conjI) (simp add: segments_max_call_def, blast)
  moreover have "trim_call E o' call s = Some (r, s')" using trim(1) by (simp add: trim_call_def)
  ultimately show ?thesis using trim(2) by blast
qed

lemma caps_stage:
  assumes laws: "caps_laws E view own f cap ceiling" and fin: "finite (dom (view s))" and room: "card (dom (view s)) < ceiling"
    and fresh: "view s i = None" and v1: "view s1 = (view s)(i \<mapsto> row)" and caps: "eng_caps E s1 = (c, s2)"
  shows "view s2 \<subseteq>\<^sub>m view s1 \<and>
    (\<forall>k v. view s k = Some v \<and> own v \<noteq> own row \<and> card (held own (view s) (own v)) \<le> cap \<longrightarrow> view s2 k = Some v) \<and>
    (\<forall>k v k' v'. view s1 k = Some v \<and> view s2 k = None \<and> view s2 k' = Some v' \<and> own v' = own v \<longrightarrow> f v \<le> f v') \<and>
    (c = Inr () \<longrightarrow> (\<forall>o'. card (held own (view s2) o') \<le> cap))"
proof -
  have fin1: "finite (dom (view s1))" using fin v1 by simp
  have small: "card (dom (view s1)) \<le> ceiling" using room fin v1 by (simp add: card_insert_if)
  note run = caps_run [OF laws caps fin1]
  have "view s2 k = Some v" if v: "view s k = Some v" "own v \<noteq> own row" "card (held own (view s) (own v)) \<le> cap" for k v
  proof (rule caps_idle [OF run [THEN conjunct1] fin1 small])
    have "held own (view s1) (own v) = held own (view s) (own v)"
      using v1 v(2) fresh by (auto simp: held_def matching_def)
    then show "card (held own (view s1) (own v)) \<le> cap" using v(3) by simp
    show "view s1 k = Some v" using v1 v(1) fresh by auto
  qed
  then show ?thesis using run unfolding caps_move_def by blast
qed

lemma held_sub:
  "m' \<subseteq>\<^sub>m m \<Longrightarrow> finite (dom m) \<Longrightarrow> card (held own m' o') \<le> card (held own m o')"
  by (rule card_mono) (auto simp: held_def matching_def map_le_def dom_def intro: finite_subset [rotated])

text \<open>What two successive trims of one group keep is the newest, too.\<close>

lemma two_trims:
  assumes "m2 \<subseteq>\<^sub>m m1" "m3 \<subseteq>\<^sub>m m2"
    and "\<forall>k v k' v'. m1 k = Some v \<and> m2 k = None \<and> m2 k' = Some v' \<and> own v' = own v \<longrightarrow> f v \<le> (f v' :: int)"
    and "\<forall>k v k' v'. m2 k = Some v \<and> m3 k = None \<and> m3 k' = Some v' \<and> own v' = o' \<and> g v' = c \<longrightarrow> f v \<le> f v'"
    and "m1 k = Some v" "m3 k = None" "m3 k' = Some v'" "own v = o'" "own v' = o'" "g v' = c"
  shows "f v \<le> f v'"
proof (cases "m2 k")
  case None
  have "m2 k' = Some v'" using assms(2,7) by (metis domI map_le_def)
  then show ?thesis using None assms(3,5,8,9) by metis
next
  case (Some u)
  then have "u = v" using assms(1,5) by (metis domI map_le_def option.inject)
  then show ?thesis using Some assms(4,6,7,9,10) by metis
qed

text \<open>What both trims together did to a collection that just got a row.\<close>

definition trimmed ::
  "(string \<Rightarrow> segment_view option) \<Rightarrow> string \<Rightarrow> segment_view \<Rightarrow> err + unit \<Rightarrow> (string \<Rightarrow> segment_view option) \<Rightarrow> bool" where
  "trimmed m i row r m' \<longleftrightarrow>
     m' \<subseteq>\<^sub>m m(i \<mapsto> row) \<and>
     (\<forall>k v. m k = Some v \<and> sgv_owner v \<noteq> sgv_owner row \<and> card (held sgv_owner m (sgv_owner v)) \<le> 5000 \<longrightarrow>
        m' k = Some v) \<and>
     (r = Inr () \<longrightarrow>
        (\<forall>o'. card (held sgv_owner m' o') \<le> 5000) \<and>
        card (matching (\<lambda>v. sgv_owner v = sgv_owner row \<and> sgv_call v = sgv_call row) m') \<le> 1500 \<and>
        (\<forall>k v k' v'. (m(i \<mapsto> row)) k = Some v \<and> m' k = None \<and> m' k' = Some v' \<and>
           sgv_owner v = sgv_owner row \<and> sgv_owner v' = sgv_owner row \<and> sgv_call v' = sgv_call row \<longrightarrow>
           sgv_seq v \<le> sgv_seq v'))"

lemma append_trims:
  fixes E :: "('s, string, segment_view) capped_engine"
  assumes laws: "caps_laws E view sgv_owner sgv_seq 5000 1000000"
    and fin: "finite (dom (view s))" and room: "card (dom (view s)) < 1000000"
    and keys: "keyed sgv_id (view s)" and fresh: "view s i = None" and row: "sgv_id row = i"
    and v1: "view s1 = (view s)(i \<mapsto> row)" and caps: "eng_caps E s1 = (Inr u, s2)"
  shows "\<exists>r s'. trim_call E (sgv_owner row) (sgv_call row) s2 = Some (r, s') \<and> trimmed (view s) i row r (view s')"
proof -
  have e: "engine_laws E view" using laws by (simp add: caps_laws_def)
  note stage = caps_stage [OF laws fin room fresh v1 caps]
  have fin2: "finite (dom (view s2))"
    by (rule finite_subset [OF map_le_implies_dom_le [OF stage [THEN conjunct1]]]) (use fin in \<open>simp only: v1 dom_fun_upd finite_insert option.distinct if_False\<close>)
  have "keyed sgv_id (view s1)" using keys v1 row by (simp add: keyed_def rows_ok_put)
  then have keys2: "keyed sgv_id (view s2)" using keyed_sub stage by blast
  from call_trim [OF e fin2 keys2, of "sgv_owner row" "sgv_call row"] obtain r s'
    where trim: "trim_call E (sgv_owner row) (sgv_call row) s2 = Some (r, s')" "view s' \<subseteq>\<^sub>m view s2"
      "\<forall>k v. view s2 k = Some v \<and> \<not> (sgv_owner v = sgv_owner row \<and> sgv_call v = sgv_call row) \<longrightarrow> view s' k = Some v"
      "r = Inr () \<longrightarrow>
        card (matching (\<lambda>v. sgv_owner v = sgv_owner row \<and> sgv_call v = sgv_call row) (view s')) \<le> 1500 \<and>
        (\<forall>k v k' v'. view s2 k = Some v \<and> view s' k = None \<and> view s' k' = Some v' \<and>
           sgv_owner v' = sgv_owner row \<and> sgv_call v' = sgv_call row \<longrightarrow> sgv_seq v \<le> sgv_seq v')" by blast
  have "view s' \<subseteq>\<^sub>m (view s)(i \<mapsto> row)" using stage trim(2) v1 map_le_trans by metis
  moreover have "\<forall>k v. view s k = Some v \<and> sgv_owner v \<noteq> sgv_owner row \<and>
      card (held sgv_owner (view s) (sgv_owner v)) \<le> 5000 \<longrightarrow> view s' k = Some v"
    using stage trim(3) by blast
  moreover have "card (held sgv_owner (view s') o') \<le> 5000" for o'
    by (rule le_trans [OF held_sub [OF trim(2) fin2]]) (simp add: stage)
  moreover have "sgv_seq v \<le> sgv_seq v'" if r: "r = Inr ()" and went: "view s1 k = Some v" "view s' k = None"
    and stayed: "view s' k' = Some v'" "sgv_owner v = sgv_owner row" "sgv_owner v' = sgv_owner row" "sgv_call v' = sgv_call row"
    for k v k' v'
    by (rule two_trims [OF stage [THEN conjunct1] trim(2) stage [THEN conjunct2, THEN conjunct2, THEN conjunct1]
          trim(4) [THEN mp, OF r, THEN conjunct2] went stayed])
  ultimately show ?thesis using trim(1,4) unfolding trimmed_def v1 by blast
qed

text \<open>
  Appending a segment returns for every finite collection and whatever engine calls
  fail. When it succeeds no extension holds more than 5000 segments and the call at most
  1500, and every segment of that call that went is at most as new as every one that stayed;
  whatever it answers it invents no segment, and an extension within its own bound loses
  none of its segments to another extension's flood.
\<close>

theorem transcript_bounded:
  fixes E :: "('s, string, segment_view) capped_engine"
  assumes bounds: "caps_laws E view sgv_owner sgv_seq segments_max_extension transcripts_ceiling"
    and fin: "finite (dom (view s))" and full: "card (dom (view s)) < transcripts_ceiling"
    and keys: "keyed sgv_id (view s)" and fresh: "view s i = None" and row: "row = segment_fold i now seg"
  shows "\<exists>r s'. transcript_append E i now seg s = Some (r, s') \<and> trimmed (view s) i row r (view s')"
proof -
  note laws = bounds [unfolded segments_max_extension_def transcripts_ceiling_def]
    and room = full [unfolded transcripts_ceiling_def]
  have e: "engine_laws E view" using laws by (simp add: caps_laws_def)
  have at: "sgv_id row = i" "sgv_owner row = ext_string (seg_owner seg)" "sgv_call row = seg_call seg"
    by (simp_all add: row segment_fold_def)
  obtain p s1 where put: "eng_put E i row s = (p, s1)" by fastforce
  show ?thesis
  proof (cases p)
    case (Inl err)
    have "view s1 = (view s)(i \<mapsto> row) \<or> view s1 = view s" using engine_put [OF e put] by blast
    moreover have "transcript_append E i now seg s = Some (Inl (Coded Infrastructure ''readmodels.transcript_append''), s1)"
      using put Inl by (simp add: transcript_append_def wrap_write_def row)
    ultimately show ?thesis using fresh by (auto simp: map_le_def trimmed_def)
  next
    case (Inr u)
    then have v1: "view s1 = (view s)(i \<mapsto> row)" using engine_put_ok [OF e, of i row s "()" s1] put by simp
    obtain c s2 where caps: "eng_caps E s1 = (c, s2)" by fastforce
    show ?thesis
    proof (cases c)
      case (Inl err)
      have "transcript_append E i now seg s = Some (Inl (Coded Infrastructure ''readmodels.transcript_cap''), s2)"
        using put Inr caps Inl by (simp add: transcript_append_def wrap_write_def row)
      then show ?thesis
        using caps_stage [OF laws fin room fresh v1 caps] unfolding trimmed_def v1 by blast
    next
      case ok: (Inr u)
      from append_trims [OF laws fin room keys fresh at(1) v1 caps [unfolded ok]] obtain r s' where
        "trim_call E (sgv_owner row) (sgv_call row) s2 = Some (r, s')" "trimmed (view s) i row r (view s')" by blast
      moreover from this have "transcript_append E i now seg s = Some (r, s')"
        using put Inr caps ok by (simp add: transcript_append_def wrap_write_def row at(2,3) [symmetric])
      ultimately show ?thesis by blast
    qed
  qed
qed

definition sample_segment :: segment where
  "sample_segment =
     \<lparr>seg_owner = Extension ''1001'', seg_call = ''c1'', seg_direction = ''inbound'', seg_remote = ''+49'',
      seg_started = 0, seg_text = ''hello''\<rparr>"

theorem transcript_bounded_witness:
  "\<exists>r s'. transcript_append (mem_capped segments_max_extension) ''s1'' 7 sample_segment [] = Some (r, s') \<and>
     map_of s' \<subseteq>\<^sub>m [''s1'' \<mapsto> segment_fold ''s1'' 7 sample_segment]"
proof -
  have "finite (dom (map_of ([] :: (string \<times> segment_view) list)))"
    "card (dom (map_of ([] :: (string \<times> segment_view) list))) < transcripts_ceiling"
    "keyed sgv_id (map_of [])" "map_of ([] :: (string \<times> segment_view) list) ''s1'' = None"
    by (simp_all add: keyed_def transcripts_ceiling_def)
  from transcript_bounded [OF mem_capped_laws this refl]
  obtain r s' where "transcript_append (mem_capped segments_max_extension) ''s1'' 7 sample_segment [] = Some (r, s')"
    "trimmed (map_of []) ''s1'' (segment_fold ''s1'' 7 sample_segment) r (map_of s')" by blast
  then show ?thesis by (auto simp: trimmed_def)
qed

end
