(* ===== verification/Dial_Windows.thy ===== *)
theory Dial_Windows
  imports Trim
begin

text \<open>
  The dial-cooldown store of \<^verbatim>\<open>internal/readmodels/dialwindows.go\<close>: per extension and remote a
  slot with the last allowed dial and a one-shot override, over two collections of one
  engine, each with declared caps. \<open>Attempt\<close> is one critical section, so its model is one
  step. The clock reading is an input; a stamp is stored in whole seconds.
\<close>

type_synonym dial_key = "string \<times> string"

record dial_window_view =
  dwv_owner :: string
  dwv_remote :: string
  dwv_at :: int

record dial_override_view =
  dov_owner :: string
  dov_remote :: string
  dov_consumed :: bool
  dov_at :: int

definition dial_windows_max :: nat where "dial_windows_max = 500"
definition dial_windows_ceiling :: nat where "dial_windows_ceiling = 100000"

record ('w, 'o) dial_models =
  dm_windows :: "('w, dial_key, dial_window_view) engine"
  dm_overrides :: "('o, dial_key, dial_override_view) engine"
  dm_caps :: "'w \<times> 'o \<Rightarrow> (err + unit) \<times> 'w \<times> 'o"

definition dial_key :: "extension \<Rightarrow> string \<Rightarrow> dial_key" where
  "dial_key owner remote = (ext_string owner, remote)"

definition window_fold :: "extension \<Rightarrow> string \<Rightarrow> time \<Rightarrow> dial_window_view" where
  "window_fold owner remote at = \<lparr>dwv_owner = ext_string owner, dwv_remote = remote, dwv_at = unix at\<rparr>"

definition override_fold :: "string \<Rightarrow> string \<Rightarrow> bool \<Rightarrow> time \<Rightarrow> dial_override_view" where
  "override_fold owner remote consumed at =
     \<lparr>dov_owner = owner, dov_remote = remote, dov_consumed = consumed, dov_at = unix at\<rparr>"

section \<open>Operations\<close>

definition enforce_caps :: "('w, 'o) dial_models \<Rightarrow> 'w \<times> 'o \<Rightarrow> (err + unit) \<times> 'w \<times> 'o" where
  "enforce_caps M s = wrap_write ''readmodels.dial_cap'' (dm_caps M s)"

definition record_attempt ::
  "('w, 'o) dial_models \<Rightarrow> extension \<Rightarrow> string \<Rightarrow> time \<Rightarrow> 'w \<times> 'o \<Rightarrow> err option \<times> 'w \<times> 'o" where
  "record_attempt M owner remote at s =
     (case wrap_write ''readmodels.dial_attempt''
             (eng_put (dm_windows M) (dial_key owner remote) (window_fold owner remote at) (fst s)) of
        (Inl e, w) \<Rightarrow> (Some e, w, snd s)
      | (Inr _, w) \<Rightarrow>
          (case enforce_caps M (w, snd s) of (Inl e, s') \<Rightarrow> (Some e, s') | (Inr _, s') \<Rightarrow> (None, s')))"

text \<open>The answer is whether the dial may go, the stamp, and the error if there is one.\<close>

definition dial_attempt ::
  "('w, 'o) dial_models \<Rightarrow> extension \<Rightarrow> string \<Rightarrow> duration \<Rightarrow> time \<Rightarrow> 'w \<times> 'o \<Rightarrow>
     (bool \<times> time \<times> err option) \<times> 'w \<times> 'o" where
  "dial_attempt M owner remote cooldown now s =
     (let key = dial_key owner remote; allow = (\<lambda>(e, s'). ((True, now, e), s')) in
      case wrap_read ''readmodels.dial_override_load'' (eng_get (dm_overrides M) key (snd s)) of
        Inl e \<Rightarrow> ((False, now, Some e), s)
      | Inr ov \<Rightarrow>
          (case (case ov of Some v \<Rightarrow> if dov_consumed v then None else Some v | None \<Rightarrow> None) of
             Some v \<Rightarrow>
               (case wrap_write ''readmodels.dial_override_consume''
                       (eng_put (dm_overrides M) key (override_fold (dov_owner v) (dov_remote v) True now) (snd s)) of
                  (Inl e, os) \<Rightarrow> ((False, now, Some e), fst s, os)
                | (Inr _, os) \<Rightarrow> allow (record_attempt M owner remote now (fst s, os)))
           | None \<Rightarrow>
               (case wrap_read ''readmodels.dial_window_load'' (eng_get (dm_windows M) key (fst s)) of
                  Inl e \<Rightarrow> ((False, now, Some e), s)
                | Inr (Some win) \<Rightarrow>
                    if cooldown > 0 \<and> now - time_unix (dwv_at win) < cooldown
                    then ((False, time_unix (dwv_at win), None), s)
                    else allow (record_attempt M owner remote now s)
                | Inr None \<Rightarrow> allow (record_attempt M owner remote now s))))"

definition arm_override ::
  "('w, 'o) dial_models \<Rightarrow> extension \<Rightarrow> string \<Rightarrow> time \<Rightarrow> 'w \<times> 'o \<Rightarrow> (err + unit) \<times> 'w \<times> 'o" where
  "arm_override M owner remote now s =
     (case wrap_write ''readmodels.dial_override_arm''
             (eng_put (dm_overrides M) (dial_key owner remote) (override_fold (ext_string owner) remote False now) (snd s)) of
        (Inl e, os) \<Rightarrow> (Inl e, fst s, os)
      | (Inr _, os) \<Rightarrow> enforce_caps M (fst s, os))"

definition dial_last ::
  "('w, 'o) dial_models \<Rightarrow> extension \<Rightarrow> string \<Rightarrow> 'w \<times> 'o \<Rightarrow> err + time option" where
  "dial_last M owner remote s =
     (case wrap_read ''readmodels.dial_window_load'' (eng_get (dm_windows M) (dial_key owner remote) (fst s)) of
        Inl e \<Rightarrow> Inl e
      | Inr win \<Rightarrow> Inr (map_option (\<lambda>v. time_unix (dwv_at v)) win))"

definition slots_per_response :: nat where "slots_per_response = 50"

record active_slot =
  act_remote :: string
  act_last :: int
  act_window :: int

text \<open>\<^verbatim>\<open>int64(cooldown / time.Second)\<close> rounds towards zero.\<close>

definition whole_seconds :: "duration \<Rightarrow> int" where
  "whole_seconds d = (if d < 0 then - ((- d) div second) else d div second)"

definition dial_active ::
  "('w, 'o) dial_models \<Rightarrow> extension \<Rightarrow> duration \<Rightarrow> time \<Rightarrow> 'w \<times> 'o \<Rightarrow> err + active_slot list" where
  "dial_active M owner cooldown now s =
     (case wrap_read ''readmodels.dial_window_load''
             (eng_scan (dm_windows M)
                \<lparr>q_filter = (\<lambda>v. dwv_owner v = ext_string owner), q_sort = Some dwv_at, q_desc = True,
                 q_limit = slots_per_response\<rparr> (fst s)) of
        Inl e \<Rightarrow> Inl e
      | Inr wins \<Rightarrow>
          Inr (map (\<lambda>v. \<lparr>act_remote = dwv_remote v, act_last = dwv_at v, act_window = whole_seconds cooldown\<rparr>)
                 (filter (\<lambda>v. now - time_unix (dwv_at v) < cooldown) wins)))"

section \<open>The gate, abstractly\<close>

text \<open>
  A slot is the second of the last allowed dial and whether an override is armed.
\<close>

datatype dial_op = Dial extension string time | Arm extension string time

type_synonym slots = "dial_key \<Rightarrow> int option \<times> bool"

fun gate_step :: "duration \<Rightarrow> dial_op \<Rightarrow> slots \<Rightarrow> (bool \<times> time) option \<times> slots" where
  "gate_step cooldown (Arm owner remote now) m =
     (None, m(dial_key owner remote := (fst (m (dial_key owner remote)), True)))"
| "gate_step cooldown (Dial owner remote now) m =
     (let key = dial_key owner remote in
      case m key of
        (Some at, False) \<Rightarrow>
          if cooldown > 0 \<and> now - time_unix at < cooldown then (Some (False, time_unix at), m)
          else (Some (True, now), m(key := (Some (unix now), False)))
      | _ \<Rightarrow> (Some (True, now), m(key := (Some (unix now), False))))"

fun gate_run :: "duration \<Rightarrow> dial_op list \<Rightarrow> slots \<Rightarrow> (bool \<times> time) option list \<times> slots" where
  "gate_run cooldown [] m = ([], m)"
| "gate_run cooldown (a # as) m =
     (case gate_step cooldown a m of
        (r, m1) \<Rightarrow> (case gate_run cooldown as m1 of (rs, m2) \<Rightarrow> (r # rs, m2)))"

text \<open>The store's step, and a run of it that met no failure.\<close>

definition dial_step ::
  "('w, 'o) dial_models \<Rightarrow> duration \<Rightarrow> dial_op \<Rightarrow> 'w \<times> 'o \<Rightarrow> (err + (bool \<times> time) option) \<times> 'w \<times> 'o" where
  "dial_step M cooldown a s =
     (case a of
        Dial owner remote now \<Rightarrow>
          (case dial_attempt M owner remote cooldown now s of
             ((ok, at, None), s') \<Rightarrow> (Inr (Some (ok, at)), s')
           | ((_, _, Some e), s') \<Rightarrow> (Inl e, s'))
      | Arm owner remote now \<Rightarrow>
          (case arm_override M owner remote now s of
             (Inl e, s') \<Rightarrow> (Inl e, s') | (Inr _, s') \<Rightarrow> (Inr None, s')))"

fun dial_run ::
  "('w, 'o) dial_models \<Rightarrow> duration \<Rightarrow> dial_op list \<Rightarrow> 'w \<times> 'o \<Rightarrow> ((bool \<times> time) option list \<times> 'w \<times> 'o) option" where
  "dial_run M cooldown [] s = Some ([], s)"
| "dial_run M cooldown (a # as) s =
     (case dial_step M cooldown a s of
        (Inl _, _) \<Rightarrow> None
      | (Inr r, s1) \<Rightarrow> map_option (\<lambda>(rs, s2). (r # rs, s2)) (dial_run M cooldown as s1))"

definition dial_slots ::
  "(dial_key \<Rightarrow> dial_window_view option) \<Rightarrow> (dial_key \<Rightarrow> dial_override_view option) \<Rightarrow> slots" where
  "dial_slots mw mo k =
     (map_option dwv_at (mw k), case mo k of None \<Rightarrow> False | Some v \<Rightarrow> \<not> dov_consumed v)"

section \<open>The store is the gate\<close>

definition dial_laws ::
  "('w, 'o) dial_models \<Rightarrow> ('w \<Rightarrow> dial_key \<Rightarrow> dial_window_view option) \<Rightarrow>
     ('o \<Rightarrow> dial_key \<Rightarrow> dial_override_view option) \<Rightarrow> bool" where
  "dial_laws M wv ov \<longleftrightarrow>
     engine_laws (dm_windows M) wv \<and> engine_laws (dm_overrides M) ov \<and>
     (\<forall>s r s'. dm_caps M s = (r, s') \<longrightarrow>
        (finite (dom (wv (fst s))) \<longrightarrow>
           caps_move dwv_owner dwv_at dial_windows_max dial_windows_ceiling (wv (fst s)) (wv (fst s'))) \<and>
        (finite (dom (ov (snd s))) \<longrightarrow>
           caps_move dov_owner dov_at dial_windows_max dial_windows_ceiling (ov (snd s)) (ov (snd s'))))"

text \<open>Room for \<open>n\<close> more rows in every group and under the ceiling.\<close>

definition roomy :: "('v \<Rightarrow> string) \<Rightarrow> nat \<Rightarrow> (dial_key \<Rightarrow> 'v option) \<Rightarrow> bool" where
  "roomy own n m \<longleftrightarrow>
     finite (dom m) \<and> card (dom m) + n \<le> dial_windows_ceiling \<and>
     (\<forall>o'. card (held own m o') + n \<le> dial_windows_max)"

lemma roomy_less: "roomy own (Suc n) m \<Longrightarrow> roomy own n m"
  unfolding roomy_def by (metis Suc_leD add_Suc_right)

lemma roomy_put:
  assumes "roomy own (Suc n) m"
  shows "roomy own n (m(k \<mapsto> v))"
proof -
  have grow: "card (insert k A) \<le> Suc (card A)" if "finite A" for A using that by (simp add: card_insert_if)
  have fin: "finite (dom m)" using assms by (simp add: roomy_def)
  have "card (held own (m(k \<mapsto> v)) o') \<le> Suc (card (held own m o'))" for o'
  proof -
    have "finite (held own m o')" by (rule finite_subset [OF _ fin]) (auto simp: held_def matching_def)
    moreover have "held own (m(k \<mapsto> v)) o' \<subseteq> insert k (held own m o')" by (auto simp: held_def matching_def)
    ultimately show ?thesis using le_trans [OF card_mono grow] by blast
  qed
  moreover have "Suc (card (held own m o')) + n \<le> dial_windows_max" for o'
    using assms by (simp add: roomy_def)
  ultimately have "card (held own (m(k \<mapsto> v)) o') + n \<le> dial_windows_max" for o'
    by (meson add_le_mono1 le_trans)
  moreover have "card (dom (m(k \<mapsto> v))) + n \<le> dial_windows_ceiling"
    using assms grow [OF fin] by (simp add: roomy_def)
  ultimately show ?thesis using fin by (simp add: roomy_def)
qed

lemma roomy_idle:
  assumes "caps_move own f dial_windows_max dial_windows_ceiling m m'" "roomy own n m"
  shows "m' = m"
proof
  fix k
  show "m' k = m k"
  proof (cases "m k")
    case None
    then show ?thesis using assms(1) by (auto simp: caps_move_def intro: map_le_None)
  next
    case (Some v)
    have "card (dom m) \<le> dial_windows_ceiling" "card (held own m (own v)) \<le> dial_windows_max" "finite (dom m)"
      using assms(2) unfolding roomy_def by (meson add_leD1)+
    then show ?thesis using caps_idle [OF assms(1)] Some by metis
  qed
qed

lemma enforce_idle:
  assumes "dial_laws M wv ov" "enforce_caps M s = (r, s')"
    and "roomy dwv_owner n (wv (fst s))" "roomy dov_owner n' (ov (snd s))"
  shows "wv (fst s') = wv (fst s) \<and> ov (snd s') = ov (snd s)"
proof -
  obtain q where "dm_caps M s = (q, s')" using assms(2) by (auto simp: enforce_caps_def)
  then have "caps_move dwv_owner dwv_at dial_windows_max dial_windows_ceiling (wv (fst s)) (wv (fst s'))"
    "caps_move dov_owner dov_at dial_windows_max dial_windows_ceiling (ov (snd s)) (ov (snd s'))"
    using assms(1,3,4) unfolding dial_laws_def roomy_def by blast+
  then show ?thesis using roomy_idle assms(3,4) by metis
qed

lemma record_attempt_ok:
  assumes "dial_laws M wv ov" "record_attempt M owner remote at s = (None, s')"
    and "roomy dwv_owner (Suc n) (wv (fst s))" "roomy dov_owner n (ov (snd s))"
  shows "wv (fst s') = (wv (fst s))(dial_key owner remote \<mapsto> window_fold owner remote at) \<and>
    ov (snd s') = ov (snd s) \<and> roomy dwv_owner n (wv (fst s'))"
proof -
  obtain w u where put: "eng_put (dm_windows M) (dial_key owner remote) (window_fold owner remote at) (fst s) = (Inr u, w)"
    and caps: "enforce_caps M (w, snd s) = (Inr (), s')"
    using assms(2) by (auto simp: record_attempt_def split: sum.splits prod.splits)
  have w: "wv w = (wv (fst s))(dial_key owner remote \<mapsto> window_fold owner remote at)"
    using engine_put_ok [of "dm_windows M" wv] put assms(1) by (simp add: dial_laws_def)
  have room: "roomy dwv_owner n (wv w)" unfolding w by (rule roomy_put [OF assms(3)])
  with enforce_idle [OF assms(1) caps, of n n] assms(4) w show ?thesis by simp
qed

lemma arm_ok:
  assumes "dial_laws M wv ov" "arm_override M owner remote now s = (Inr u, s')"
    and "roomy dwv_owner n (wv (fst s))" "roomy dov_owner (Suc n) (ov (snd s))"
  shows "wv (fst s') = wv (fst s) \<and>
    ov (snd s') = (ov (snd s))(dial_key owner remote \<mapsto> override_fold (ext_string owner) remote False now) \<and>
    roomy dov_owner n (ov (snd s'))"
proof -
  obtain os q where put: "eng_put (dm_overrides M) (dial_key owner remote)
      (override_fold (ext_string owner) remote False now) (snd s) = (Inr q, os)"
    and caps: "enforce_caps M (fst s, os) = (Inr u, s')"
    using assms(2) by (auto simp: arm_override_def split: sum.splits prod.splits)
  have o: "ov os = (ov (snd s))(dial_key owner remote \<mapsto> override_fold (ext_string owner) remote False now)"
    using engine_put_ok [of "dm_overrides M" ov] put assms(1) by (simp add: dial_laws_def)
  have room: "roomy dov_owner n (ov os)" unfolding o by (rule roomy_put [OF assms(4)])
  with enforce_idle [OF assms(1) caps, of n n] assms(3) o show ?thesis by simp
qed

lemma armed_ok:
  assumes laws: "dial_laws M wv ov" and step: "dial_attempt M owner remote cooldown now s = ((ok, at, None), s')"
    and room: "roomy dwv_owner (Suc n) (wv (fst s))" "roomy dov_owner (Suc n) (ov (snd s))"
    and armed: "ov (snd s) (dial_key owner remote) = Some v" "\<not> dov_consumed v"
  shows "ok \<and> at = now \<and>
    wv (fst s') = (wv (fst s))(dial_key owner remote \<mapsto> window_fold owner remote now) \<and>
    ov (snd s') = (ov (snd s))(dial_key owner remote \<mapsto> override_fold (dov_owner v) (dov_remote v) True now) \<and>
    roomy dwv_owner n (wv (fst s')) \<and> roomy dov_owner n (ov (snd s'))"
proof -
  have e: "engine_laws (dm_overrides M) ov" using laws by (simp add: dial_laws_def)
  obtain got where got: "eng_get (dm_overrides M) (dial_key owner remote) (snd s) = Inr got"
    using step by (cases "eng_get (dm_overrides M) (dial_key owner remote) (snd s)") (auto simp: dial_attempt_def)
  then have "got = Some v" using engine_get [OF e got] armed by simp
  then obtain os u where put: "eng_put (dm_overrides M) (dial_key owner remote)
      (override_fold (dov_owner v) (dov_remote v) True now) (snd s) = (Inr u, os)"
    and rec: "record_attempt M owner remote now (fst s, os) = (None, s')" and ok: "ok \<and> at = now"
    using step got armed(2) by (auto simp: dial_attempt_def Let_def split: sum.splits prod.splits)
  have o: "ov os = (ov (snd s))(dial_key owner remote \<mapsto> override_fold (dov_owner v) (dov_remote v) True now)"
    by (rule engine_put_ok [OF e put])
  have "roomy dov_owner n (ov os)" unfolding o by (rule roomy_put [OF room(2)])
  with record_attempt_ok [OF laws rec, of n] room(1) ok o show ?thesis by auto
qed

lemma unarmed_ok:
  assumes laws: "dial_laws M wv ov" and step: "dial_attempt M owner remote cooldown now s = ((ok, at, None), s')"
    and room: "roomy dwv_owner (Suc n) (wv (fst s))" "roomy dov_owner (Suc n) (ov (snd s))"
    and idle: "case ov (snd s) (dial_key owner remote) of None \<Rightarrow> True | Some v \<Rightarrow> dov_consumed v"
  shows "(if \<exists>win. wv (fst s) (dial_key owner remote) = Some win \<and> cooldown > 0 \<and> now - time_unix (dwv_at win) < cooldown
    then \<not> ok \<and> s' = s \<and> at = time_unix (dwv_at (the (wv (fst s) (dial_key owner remote))))
    else ok \<and> at = now \<and> ov (snd s') = ov (snd s) \<and>
      wv (fst s') = (wv (fst s))(dial_key owner remote \<mapsto> window_fold owner remote now)) \<and>
    roomy dwv_owner n (wv (fst s')) \<and> roomy dov_owner n (ov (snd s'))"
proof -
  have e: "engine_laws (dm_overrides M) ov" "engine_laws (dm_windows M) wv" using laws by (simp_all add: dial_laws_def)
  obtain got where got: "eng_get (dm_overrides M) (dial_key owner remote) (snd s) = Inr got"
    using step by (cases "eng_get (dm_overrides M) (dial_key owner remote) (snd s)") (auto simp: dial_attempt_def)
  have none: "(case got of Some v \<Rightarrow> if dov_consumed v then None else Some v | None \<Rightarrow> None) = None"
    using engine_get [OF e(1) got] idle by (auto split: option.splits)
  obtain win where win: "eng_get (dm_windows M) (dial_key owner remote) (fst s) = Inr win"
    using step got none by (cases "eng_get (dm_windows M) (dial_key owner remote) (fst s)") (auto simp: dial_attempt_def)
  note w = engine_get [OF e(2) win]
  let ?held = "\<exists>v. win = Some v \<and> cooldown > 0 \<and> now - time_unix (dwv_at v) < cooldown"
  show ?thesis
  proof (cases ?held)
    case True
    then obtain v where v: "win = Some v" "cooldown > 0 \<and> now - time_unix (dwv_at v) < cooldown" by blast
    then have "\<not> ok \<and> s' = s \<and> at = time_unix (dwv_at v)"
      using step got none win by (auto simp: dial_attempt_def Let_def)
    then show ?thesis using v w roomy_less [OF room(1)] roomy_less [OF room(2)] by auto
  next
    case False
    then have rec: "record_attempt M owner remote now s = (None, s')" "ok \<and> at = now"
      using step got none win by (auto simp: dial_attempt_def Let_def split: option.splits if_splits prod.splits)
    note ra = record_attempt_ok [OF laws rec(1) room(1) roomy_less [OF room(2)]]
    have ro: "roomy dov_owner n (ov (snd s'))"
      unfolding ra [THEN conjunct2, THEN conjunct1] by (rule roomy_less [OF room(2)])
    have no: "\<not> (\<exists>v. wv (fst s) (dial_key owner remote) = Some v \<and> cooldown > 0 \<and>
        now - time_unix (dwv_at v) < cooldown)" using w False by simp
    show ?thesis unfolding if_not_P [OF no] using ra ro rec(2) by blast
  qed
qed

lemma dial_step_gate:
  assumes laws: "dial_laws M wv ov" and step: "dial_step M cooldown a s = (Inr r, s')"
    and room: "roomy dwv_owner (Suc n) (wv (fst s))" "roomy dov_owner (Suc n) (ov (snd s))"
  shows "gate_step cooldown a (dial_slots (wv (fst s)) (ov (snd s))) = (r, dial_slots (wv (fst s')) (ov (snd s'))) \<and>
    roomy dwv_owner n (wv (fst s')) \<and> roomy dov_owner n (ov (snd s'))"
proof (cases a)
  case (Arm owner remote now)
  then obtain u where "arm_override M owner remote now s = (Inr u, s')" "r = None"
    using step by (auto simp: dial_step_def split: prod.splits sum.splits)
  note arm = arm_ok [OF laws this(1) roomy_less [OF room(1)] room(2)]
  have "dial_slots (wv (fst s')) (ov (snd s')) = (dial_slots (wv (fst s)) (ov (snd s)))
      (dial_key owner remote := (fst (dial_slots (wv (fst s)) (ov (snd s)) (dial_key owner remote)), True))"
    using arm by (intro ext) (simp add: dial_slots_def override_fold_def)
  then show ?thesis
    using arm [THEN conjunct1] arm [THEN conjunct2, THEN conjunct2] roomy_less [OF room(1)] Arm \<open>r = None\<close> by simp
next
  case (Dial owner remote now)
  let ?k = "dial_key owner remote"
  obtain ok at where attempt: "dial_attempt M owner remote cooldown now s = ((ok, at, None), s')" "r = Some (ok, at)"
    using step Dial by (auto simp: dial_step_def split: prod.splits option.splits)
  show ?thesis
  proof (cases "\<exists>v. ov (snd s) ?k = Some v \<and> \<not> dov_consumed v")
    case True
    then obtain v where v: "ov (snd s) ?k = Some v" "\<not> dov_consumed v" by blast
    note go = armed_ok [OF laws attempt(1) room v]
    have slots: "dial_slots (wv (fst s')) (ov (snd s')) = (dial_slots (wv (fst s)) (ov (snd s)))(?k := (Some (unix now), False))"
      using go by (intro ext) (simp add: dial_slots_def override_fold_def window_fold_def)
    have "snd (dial_slots (wv (fst s)) (ov (snd s)) ?k)" using v by (simp add: dial_slots_def)
    then have "gate_step cooldown a (dial_slots (wv (fst s)) (ov (snd s))) =
        (r, (dial_slots (wv (fst s)) (ov (snd s)))(?k := (Some (unix now), False)))"
      using go Dial attempt(2)
      by (cases "dial_slots (wv (fst s)) (ov (snd s)) ?k") (auto simp: Let_def split: option.splits)
    then show ?thesis unfolding slots using go by blast
  next
    case False
    then have idle: "case ov (snd s) ?k of None \<Rightarrow> True | Some v \<Rightarrow> dov_consumed v" by (auto split: option.splits)
    have slot: "dial_slots (wv (fst s)) (ov (snd s)) ?k = (map_option dwv_at (wv (fst s) ?k), False)"
      using False by (auto simp: dial_slots_def split: option.splits)
    let ?in = "\<exists>win. wv (fst s) ?k = Some win \<and> cooldown > 0 \<and> now - time_unix (dwv_at win) < cooldown"
    note go = unarmed_ok [OF laws attempt(1) room idle]
    show ?thesis
    proof (cases ?in)
      case True
      then show ?thesis using go Dial attempt(2) slot by (auto simp: Let_def)
    next
      case out: False
      have slots: "dial_slots (wv (fst s')) (ov (snd s')) = (dial_slots (wv (fst s)) (ov (snd s)))(?k := (Some (unix now), False))"
        using go out idle by (intro ext) (auto simp: dial_slots_def window_fold_def split: option.splits)
      have "gate_step cooldown a (dial_slots (wv (fst s)) (ov (snd s))) =
          (r, (dial_slots (wv (fst s)) (ov (snd s)))(?k := (Some (unix now), False)))"
        using go out Dial attempt(2) slot by (cases "wv (fst s) ?k") (auto simp: Let_def)
      then show ?thesis unfolding slots using go by blast
    qed
  qed
qed

lemma dial_run_gate:
  assumes laws: "dial_laws M wv ov"
    and room: "roomy dwv_owner (length as) (wv (fst s))" "roomy dov_owner (length as) (ov (snd s))"
    and run: "dial_run M cooldown as s = Some (rs, s')"
  shows "gate_run cooldown as (dial_slots (wv (fst s)) (ov (snd s))) = (rs, dial_slots (wv (fst s')) (ov (snd s')))"
  using room run
proof (induction as arbitrary: s rs)
  case (Cons a as)
  then obtain r t rs' where step: "dial_step M cooldown a s = (Inr r, t)"
    and rest: "dial_run M cooldown as t = Some (rs', s')" "rs = r # rs'"
    by (auto split: prod.splits sum.splits)
  from dial_step_gate [OF laws step, of "length as"] Cons.prems(1,2) Cons.IH [of t rs'] rest
  show ?case by simp
qed simp

section \<open>Cooldowns are kept\<close>

fun op_time :: "dial_op \<Rightarrow> time" where
  "op_time (Dial owner remote now) = now"
| "op_time (Arm owner remote now) = now"

definition arms :: "dial_key \<Rightarrow> dial_op \<Rightarrow> bool" where
  "arms k a \<longleftrightarrow> (\<exists>owner remote now. a = Arm owner remote now \<and> dial_key owner remote = k)"

definition dials :: "dial_key \<Rightarrow> dial_op \<Rightarrow> bool" where
  "dials k a \<longleftrightarrow> (\<exists>owner remote now. a = Dial owner remote now \<and> dial_key owner remote = k)"

text \<open>A stamp not older than \<open>at\<close> stays not older, and a key nobody arms stays unarmed.\<close>

lemma gate_step_keeps:
  assumes "gate_step cooldown a m = (r, m')" "\<not> arms k a" "\<not> snd (m k)"
  shows "\<not> snd (m' k)"
    and "fst (m k) = Some at0 \<Longrightarrow> at \<le> at0 \<Longrightarrow> at \<le> unix (op_time a) \<Longrightarrow> \<exists>at1. fst (m' k) = Some at1 \<and> at \<le> at1"
proof -
  have "m' k = m k \<or> m' k = (Some (unix (op_time a)), False)"
  proof (cases a)
    case (Arm owner remote now)
    then show ?thesis using assms by (auto simp: arms_def)
  next
    case (Dial owner remote now)
    then show ?thesis using assms(1)
      by (cases "m (dial_key owner remote)") (auto simp: Let_def split: option.splits bool.splits if_splits)
  qed
  then show "\<not> snd (m' k)"
    and "fst (m k) = Some at0 \<Longrightarrow> at \<le> at0 \<Longrightarrow> at \<le> unix (op_time a) \<Longrightarrow> \<exists>at1. fst (m' k) = Some at1 \<and> at \<le> at1"
    using assms(3) by auto
qed

lemma gate_step_allowed:
  assumes "gate_step cooldown a m = (Some (True, x), m')" "dials k a" "\<not> snd (m k)" "0 < cooldown"
  shows "m' k = (Some (unix (op_time a)), False) \<and>
    (\<forall>at0. fst (m k) = Some at0 \<longrightarrow> time_unix at0 + cooldown \<le> op_time a)"
proof -
  obtain owner remote now where a: "a = Dial owner remote now" "dial_key owner remote = k"
    using assms(2) by (auto simp: dials_def)
  then show ?thesis using assms(1,3,4)
    by (cases "m k") (auto simp: Let_def split: option.splits if_splits)
qed

lemma gate_run_waits:
  assumes "gate_run cooldown as m = (rs, m')" "fst (m k) = Some at0" "at \<le> at0" "\<not> snd (m k)"
    and "\<forall>a \<in> set as. at \<le> unix (op_time a) \<and> \<not> arms k a" "0 < cooldown"
    and "j < length as" "dials k (as ! j)" "rs ! j = Some (True, x)"
  shows "time_unix at + cooldown \<le> op_time (as ! j)"
  using assms
proof (induction as arbitrary: m rs at0 j)
  case (Cons a as)
  obtain r m1 rs' where step: "gate_step cooldown a m = (r, m1)" "gate_run cooldown as m1 = (rs', m')" "rs = r # rs'"
    using Cons.prems(1) by (auto split: prod.splits)
  show ?case
  proof (cases j)
    case 0
    then have "time_unix at0 + cooldown \<le> op_time a"
      using gate_step_allowed [of cooldown a m x m1 k] step Cons.prems by simp
    moreover have "time_unix at \<le> time_unix at0" using Cons.prems(3) by (simp add: time_unix_def)
    ultimately show ?thesis using 0 by simp
  next
    case (Suc i)
    have "\<not> arms k a" "at \<le> unix (op_time a)" using Cons.prems(5) by simp_all
    then obtain at1 where "fst (m1 k) = Some at1" "at \<le> at1" "\<not> snd (m1 k)"
      using gate_step_keeps [OF step(1) _ Cons.prems(4)] Cons.prems(2,3) by blast
    from Cons.IH [OF step(2) this] Cons.prems Suc step(3) show ?thesis by simp
  qed
qed simp

lemma gate_run_spaced:
  assumes "gate_run cooldown as m = (rs, m')" "\<not> snd (m k)" "\<forall>a \<in> set as. \<not> arms k a" "0 < cooldown"
    and "sorted (map op_time as)" "i < j" "j < length as" "dials k (as ! i)" "dials k (as ! j)"
    and "rs ! i = Some (True, x)" "rs ! j = Some (True, y)"
  shows "op_time (as ! i) + cooldown - second < op_time (as ! j)"
  using assms
proof (induction as arbitrary: m rs i j)
  case (Cons a as)
  obtain r m1 rs' where step: "gate_step cooldown a m = (r, m1)" "gate_run cooldown as m1 = (rs', m')" "rs = r # rs'"
    using Cons.prems(1) by (auto split: prod.splits)
  obtain j' where j: "j = Suc j'" using Cons.prems(6) by (cases j) auto
  show ?case
  proof (cases i)
    case 0
    let ?at = "unix (op_time a)"
    have "m1 k = (Some ?at, False)"
      using gate_step_allowed [of cooldown a m x m1 k] step Cons.prems 0 by simp
    moreover have "\<forall>b \<in> set as. ?at \<le> unix (op_time b) \<and> \<not> arms k b"
      using Cons.prems(3,5) by (auto intro: unix_mono)
    ultimately have "time_unix ?at + cooldown \<le> op_time (as ! j')"
      using gate_run_waits [OF step(2), of k ?at ?at j' y] Cons.prems j step(3) by simp
    moreover have "op_time a - second < time_unix ?at"
      by (simp add: time_unix_def unix_def second_def)
    ultimately show ?thesis using 0 j by simp
  next
    case (Suc i')
    have "\<not> snd (m1 k)" using gate_step_keeps(1) [OF step(1) _ Cons.prems(2)] Cons.prems(3) by simp
    from Cons.IH [OF step(2) this, of i' j'] Cons.prems Suc j step(3) show ?thesis by simp
  qed
qed simp

text \<open>
  C33. The cooldown store is an exact gate: in every run of attempts and armings, by any
  extensions on any remotes and at any times, that meets no failing engine call and fits
  the caps, every answer and every slot is that of the abstract gate, in which an armed
  override is spent by one attempt, a refused attempt changes nothing and an allowed one
  stamps its slot. Hence two allowed attempts on a remote that nobody overrides are more
  than the cooldown less one second apart, the second being what whole-second stamps lose.
\<close>

theorem dial_gate:
  assumes laws: "dial_laws M wv ov"
    and room: "roomy dwv_owner (length as) (wv (fst s))" "roomy dov_owner (length as) (ov (snd s))"
    and run: "dial_run M cooldown as s = Some (rs, s')"
  shows "gate_run cooldown as (dial_slots (wv (fst s)) (ov (snd s))) = (rs, dial_slots (wv (fst s')) (ov (snd s'))) \<and>
    (0 < cooldown \<and> sorted (map op_time as) \<and> \<not> snd (dial_slots (wv (fst s)) (ov (snd s)) k) \<and>
     (\<forall>a \<in> set as. \<not> arms k a) \<and> i < j \<and> j < length as \<and> dials k (as ! i) \<and> dials k (as ! j) \<and>
     rs ! i = Some (True, x) \<and> rs ! j = Some (True, y) \<longrightarrow>
       op_time (as ! i) + cooldown - second < op_time (as ! j))"
  using dial_run_gate [OF laws room run] gate_run_spaced [OF dial_run_gate [OF laws room run]] by blast

definition mem_dials ::
  "((dial_key \<times> dial_window_view) list, (dial_key \<times> dial_override_view) list) dial_models" where
  "mem_dials = \<lparr>dm_windows = mem_engine, dm_overrides = mem_engine, dm_caps = (\<lambda>s. (Inr (), s))\<rparr>"

lemma mem_dials_laws: "dial_laws mem_dials map_of map_of"
  by (auto simp: dial_laws_def mem_dials_def mem_engine_laws caps_move_def)

definition dial_day :: "dial_op list" where
  "dial_day =
     [Dial (Extension ''1001'') ''+49'' 0, Dial (Extension ''1001'') ''+49'' (10 * second),
      Arm (Extension ''1001'') ''+49'' (11 * second), Dial (Extension ''1001'') ''+49'' (12 * second)]"

theorem dial_gate_witness:
  "\<exists>rs s'. dial_run mem_dials (30 * second) dial_day ([], []) = Some (rs, s') \<and>
     rs = [Some (True, 0), Some (False, 0), None, Some (True, 12 * second)] \<and>
     gate_run (30 * second) dial_day (\<lambda>k. (None, False)) = (rs, dial_slots (map_of (fst s')) (map_of (snd s')))"
proof -
  have none: "held own (\<lambda>_. None) o' = {}" for own :: "'v \<Rightarrow> string" and o' by (simp add: held_def matching_def)
  have run: "\<exists>s'. dial_run mem_dials (30 * second) dial_day ([], []) =
      Some ([Some (True, 0), Some (False, 0), None, Some (True, 12 * second)], s')"
    by (simp add: dial_day_def dial_step_def dial_attempt_def arm_override_def record_attempt_def enforce_caps_def
        mem_dials_def mem_engine_def wrap_read_def wrap_write_def window_fold_def override_fold_def dial_key_def
        unix_def time_unix_def second_def Let_def)
  then obtain s' where s': "dial_run mem_dials (30 * second) dial_day ([], []) =
      Some ([Some (True, 0), Some (False, 0), None, Some (True, 12 * second)], s')" ..
  have "roomy own (length dial_day) (map_of [])" for own :: "'v \<Rightarrow> string"
    by (simp add: roomy_def none dial_day_def dial_windows_max_def dial_windows_ceiling_def)
  then have "roomy dwv_owner (length dial_day) (map_of (fst ([], [])))"
    "roomy dov_owner (length dial_day) (map_of (snd ([], [])))" by simp_all
  from dial_gate [OF mem_dials_laws this s', THEN conjunct1] s' show ?thesis
    by (auto simp: dial_slots_def [abs_def])
qed

end
