(* ===== verification/Sessions.thy ===== *)
theory Sessions
  imports Store_Rows "HOL-Library.Finite_Map"
begin

text \<open>
  Login sessions: \<^verbatim>\<open>internal/session/service.go\<close> (tokens, the renewal policy, the in-memory
  store, the request gates) and \<^verbatim>\<open>internal/session/sqlite.go\<close> (the durable store). A Go map
  and the table keyed by its token are finite maps; every clock reading and the random
  bytes of a minted token are inputs, and a SQL statement may fail as \<open>faults\<close> tells.
\<close>

section \<open>Tokens and sessions\<close>

datatype token = Token (token_string: string)

definition token_is_zero :: "token \<Rightarrow> bool" where
  "token_is_zero t \<longleftrightarrow> token_string t = []"

record session =
  sess_extension :: extension
  sess_password :: string
  sess_email :: string
  sess_created :: time
  sess_expires :: time

record lifetime =
  life_idle :: duration
  life_max :: duration

definition normalized :: "lifetime \<Rightarrow> lifetime" where
  "normalized l =
     (if life_idle l \<le> 0 then \<lparr>life_idle = 0, life_max = 0\<rparr>
      else if life_max l < life_idle l then l\<lparr>life_max := life_idle l\<rparr>
      else l)"

text \<open>\<^verbatim>\<open>idle/2\<close> rounds towards zero.\<close>

definition half_of :: "duration \<Rightarrow> duration" where
  "half_of d = (if d < 0 then - ((- d) div 2) else d div 2)"

definition renew_due :: "session \<Rightarrow> duration \<Rightarrow> duration \<Rightarrow> time \<Rightarrow> time option" where
  "renew_due sess idle max_age now =
     (if \<not> now < sess_expires sess then None
      else
        let hard_cap = sess_created sess + max_age;
            extended = (if now + idle > hard_cap then hard_cap else now + idle) in
        if \<not> extended > sess_expires sess then None
        else if sess_expires sess - now > half_of idle then None
        else Some extended)"

text \<open>\<^verbatim>\<open>base64.RawURLEncoding\<close> of a byte list.\<close>

definition url64 :: "nat \<Rightarrow> char" where
  "url64 n = ''ABCDEFGHIJKLMNOPQRSTUVWXYZabcdefghijklmnopqrstuvwxyz0123456789-_'' ! n"

fun raw_url :: "nat list \<Rightarrow> string" where
  "raw_url [] = []"
| "raw_url [a] = [url64 (a div 4), url64 (a mod 4 * 16)]"
| "raw_url [a, b] = [url64 (a div 4), url64 (a mod 4 * 16 + b div 16), url64 (b mod 16 * 4)]"
| "raw_url (a # b # c # bs) =
     [url64 (a div 4), url64 (a mod 4 * 16 + b div 16), url64 (b mod 16 * 4 + c div 64), url64 (c mod 64)] @ raw_url bs"

text \<open>What the random source answers: an error, or the bytes.\<close>

type_synonym entropy = "unit + nat list"

definition mint_token :: "entropy \<Rightarrow> err + token" where
  "mint_token buf =
     (case buf of Inl _ \<Rightarrow> Inl (Coded Infrastructure ''session.token'') | Inr bytes \<Rightarrow> Inr (Token (raw_url bytes)))"

definition make_session ::
  "extension \<Rightarrow> string \<Rightarrow> string \<Rightarrow> duration \<Rightarrow> entropy \<Rightarrow> time \<Rightarrow> err + token \<times> session" where
  "make_session ext password email ttl buf now =
     (case mint_token buf of
        Inl e \<Rightarrow> Inl e
      | Inr tok \<Rightarrow> Inr (tok, \<lparr>sess_extension = ext, sess_password = password, sess_email = email,
                           sess_created = now, sess_expires = now + ttl\<rparr>))"

section \<open>The in-memory store\<close>

type_synonym mem_sessions = "(token, session) fmap"

definition mem_gc :: "time \<Rightarrow> mem_sessions \<Rightarrow> mem_sessions" where
  "mem_gc now s =
     fmfilter (\<lambda>t. case fmlookup s t of None \<Rightarrow> False | Some v \<Rightarrow> \<not> now > sess_expires v) s"

definition mem_create ::
  "duration \<Rightarrow> extension \<Rightarrow> string \<Rightarrow> string \<Rightarrow> entropy \<Rightarrow> time \<Rightarrow> mem_sessions \<Rightarrow> (err + token) \<times> mem_sessions" where
  "mem_create ttl ext password email buf now s =
     (case make_session ext password email ttl buf now of
        Inl e \<Rightarrow> (Inl e, s)
      | Inr (tok, sess) \<Rightarrow> (Inr tok, fmupd tok sess (mem_gc (sess_created sess) s)))"

definition mem_get :: "token \<Rightarrow> time \<Rightarrow> mem_sessions \<Rightarrow> session option" where
  "mem_get tok now s =
     (case fmlookup s tok of
        None \<Rightarrow> None
      | Some sess \<Rightarrow> if now > sess_expires sess then None else Some sess)"

definition mem_delete :: "token \<Rightarrow> mem_sessions \<Rightarrow> mem_sessions" where
  "mem_delete tok s = fmdrop tok s"

definition mem_renew ::
  "token \<Rightarrow> duration \<Rightarrow> duration \<Rightarrow> time \<Rightarrow> mem_sessions \<Rightarrow> session option \<times> mem_sessions" where
  "mem_renew tok idle max_age now s =
     (case fmlookup s tok of
        None \<Rightarrow> (None, s)
      | Some sess \<Rightarrow>
          if \<not> now < sess_expires sess then (None, fmdrop tok s)
          else
            (case renew_due sess idle max_age now of
               None \<Rightarrow> (None, s)
             | Some extended \<Rightarrow>
                 let sess' = sess\<lparr>sess_expires := extended\<rparr> in (Some sess', fmupd tok sess' s)))"

definition mem_active :: "extension \<Rightarrow> time \<Rightarrow> mem_sessions \<Rightarrow> token fset" where
  "mem_active ext now s =
     fmdom (fmfilter (\<lambda>t. case fmlookup s t of None \<Rightarrow> False
                      | Some v \<Rightarrow> sess_extension v = ext \<and> now < sess_expires v) s)"

section \<open>The durable store\<close>

record session_row =
  sr_extension :: string
  sr_password :: string
  sr_email :: string
  sr_created :: int
  sr_expires :: int

type_synonym sql_sessions = "(string, session_row) fmap"

text \<open>The \<^verbatim>\<open>DELETE \<dots> WHERE expires_at < ?\<close> of a sign-in.\<close>

definition sql_sweep :: "time \<Rightarrow> sql_sessions \<Rightarrow> sql_sessions" where
  "sql_sweep now s =
     fmfilter (\<lambda>t. case fmlookup s t of None \<Rightarrow> False | Some r \<Rightarrow> \<not> sr_expires r < unix_milli now) s"

definition session_row_of :: "session \<Rightarrow> session_row" where
  "session_row_of v =
     \<lparr>sr_extension = ext_string (sess_extension v), sr_password = sess_password v, sr_email = sess_email v,
      sr_created = unix_milli (sess_created v), sr_expires = unix_milli (sess_expires v)\<rparr>"

definition sql_create ::
  "faults \<Rightarrow> duration \<Rightarrow> extension \<Rightarrow> string \<Rightarrow> string \<Rightarrow> entropy \<Rightarrow> time \<Rightarrow> sql_sessions \<Rightarrow>
     (err + token) \<times> sql_sessions" where
  "sql_create fl ttl ext password email buf now s =
     (case make_session ext password email ttl buf now of
        Inl e \<Rightarrow> (Inl e, s)
      | Inr (tok, sess) \<Rightarrow>
          if fl ''session.sweep'' (token_string tok) then (Inl (Coded Infrastructure ''session.sweep''), s)
          else
            let swept = sql_sweep (sess_created sess) s in
            if fl ''session.insert'' (token_string tok) \<or> token_string tok |\<in>| fmdom swept
            then (Inl (Coded Infrastructure ''session.insert''), swept)
            else (Inr tok, fmupd (token_string tok) (session_row_of sess) swept))"

definition scan_session :: "session_row \<Rightarrow> err + session" where
  "scan_session r =
     (case must_parse_extension (sr_extension r) of
        Inl e \<Rightarrow> Inl e
      | Inr ext \<Rightarrow> Inr \<lparr>sess_extension = ext, sess_password = sr_password r, sess_email = sr_email r,
                     sess_created = time_unix_milli (sr_created r), sess_expires = time_unix_milli (sr_expires r)\<rparr>)"

definition sql_delete :: "faults \<Rightarrow> token \<Rightarrow> sql_sessions \<Rightarrow> sql_sessions" where
  "sql_delete fl tok s = (if fl ''session.delete'' (token_string tok) then s else fmdrop (token_string tok) s)"

definition sql_get :: "faults \<Rightarrow> token \<Rightarrow> time \<Rightarrow> sql_sessions \<Rightarrow> (err + session option) \<times> sql_sessions" where
  "sql_get fl tok now s =
     (if fl ''session.lookup'' (token_string tok) then (Inr None, s)
      else
        case fmlookup s (token_string tok) of
          None \<Rightarrow> (Inr None, s)
        | Some r \<Rightarrow>
            (case scan_session r of
               Inl panic \<Rightarrow> (Inl panic, s)
             | Inr sess \<Rightarrow>
                 if \<not> now < sess_expires sess then (Inr None, sql_delete fl tok s) else (Inr (Some sess), s)))"

text \<open>The clock is read by the lookup and again by the renewal decision.\<close>

definition sql_renew ::
  "faults \<Rightarrow> token \<Rightarrow> duration \<Rightarrow> duration \<Rightarrow> time \<Rightarrow> time \<Rightarrow> sql_sessions \<Rightarrow>
     (err + session option) \<times> sql_sessions" where
  "sql_renew fl tok idle max_age now now' s =
     (case sql_get fl tok now s of
        (Inl panic, s1) \<Rightarrow> (Inl panic, s1)
      | (Inr None, s1) \<Rightarrow> (Inr None, s1)
      | (Inr (Some sess), s1) \<Rightarrow>
          (case renew_due sess idle max_age now' of
             None \<Rightarrow> (Inr None, s1)
           | Some extended \<Rightarrow>
               if fl ''session.renew'' (token_string tok) then (Inr None, s1)
               else
                 (Inr (Some (sess\<lparr>sess_expires := extended\<rparr>)),
                  case fmlookup s1 (token_string tok) of
                    None \<Rightarrow> s1
                  | Some r \<Rightarrow> fmupd (token_string tok) (r\<lparr>sr_expires := unix_milli extended\<rparr>) s1)))"

definition sql_active :: "faults \<Rightarrow> extension \<Rightarrow> time \<Rightarrow> sql_sessions \<Rightarrow> token fset" where
  "sql_active fl ext now s =
     (if fl ''session.active'' (ext_string ext) then {||}
      else Token |`| fmdom (fmfilter (\<lambda>t. case fmlookup s t of None \<Rightarrow> False
             | Some r \<Rightarrow> sr_extension r = ext_string ext \<and> sr_expires r > unix_milli now) s))"

section \<open>The store interface and the request gates\<close>

record 's session_ops =
  so_create :: "faults \<Rightarrow> extension \<Rightarrow> string \<Rightarrow> string \<Rightarrow> entropy \<Rightarrow> time \<Rightarrow> 's \<Rightarrow> (err + token) \<times> 's"
  so_get :: "faults \<Rightarrow> token \<Rightarrow> time \<Rightarrow> 's \<Rightarrow> (err + session option) \<times> 's"
  so_renew :: "faults \<Rightarrow> token \<Rightarrow> duration \<Rightarrow> duration \<Rightarrow> time \<Rightarrow> time \<Rightarrow> 's \<Rightarrow> (err + session option) \<times> 's"
  so_delete :: "faults \<Rightarrow> token \<Rightarrow> 's \<Rightarrow> 's"
  so_active :: "faults \<Rightarrow> extension \<Rightarrow> time \<Rightarrow> 's \<Rightarrow> token fset"

text \<open>\<open>Inl\<close> of a lookup or a renewal is a panic; a failing statement answers no session.\<close>

definition mem_store :: "duration \<Rightarrow> mem_sessions session_ops" where
  "mem_store ttl =
     \<lparr>so_create = (\<lambda>fl. mem_create ttl),
      so_get = (\<lambda>fl tok now s. (Inr (mem_get tok now s), s)),
      so_renew = (\<lambda>fl tok idle max_age now now' s. map_prod Inr id (mem_renew tok idle max_age now s)),
      so_delete = (\<lambda>fl. mem_delete),
      so_active = (\<lambda>fl. mem_active)\<rparr>"

definition sql_store :: "duration \<Rightarrow> sql_sessions session_ops" where
  "sql_store ttl =
     \<lparr>so_create = (\<lambda>fl. sql_create fl ttl), so_get = sql_get, so_renew = sql_renew,
      so_delete = sql_delete, so_active = sql_active\<rparr>"

record cookie =
  ck_value :: string
  ck_max_age :: int
  ck_secure :: bool

text \<open>\<^verbatim>\<open>int(ttl.Seconds())\<close> rounds towards zero.\<close>

definition set_cookie :: "bool \<Rightarrow> bool \<Rightarrow> token \<Rightarrow> duration \<Rightarrow> cookie" where
  "set_cookie secure tls tok ttl =
     \<lparr>ck_value = token_string tok,
      ck_max_age = (if ttl < 0 then - ((- ttl) div second) else ttl div second),
      ck_secure = (secure \<or> tls)\<rparr>"

definition clear_cookie :: "bool \<Rightarrow> cookie" where
  "clear_cookie secure = \<lparr>ck_value = [], ck_max_age = - 1, ck_secure = secure\<rparr>"

text \<open>A request: its session cookie if it sent one, whether it came over TLS.\<close>

record request =
  req_cookie :: "string option"
  req_tls :: bool

definition token_from_request :: "request \<Rightarrow> token" where
  "token_from_request r = (case req_cookie r of None \<Rightarrow> Token [] | Some v \<Rightarrow> Token v)"

text \<open>The clock readings of one request: of the lookup, of the renewal, of the cookie.\<close>

record readings =
  at_get :: time
  at_renew :: time
  at_due :: time
  at_cookie :: time

definition lookup_session ::
  "'s session_ops \<Rightarrow> faults \<Rightarrow> lifetime \<Rightarrow> bool \<Rightarrow> request \<Rightarrow> readings \<Rightarrow> 's \<Rightarrow>
     (err + session option \<times> cookie option) \<times> 's" where
  "lookup_session ops fl life secure req t s =
     (let tok = token_from_request req in
      case so_get ops fl tok (at_get t) s of
        (Inl panic, s1) \<Rightarrow> (Inl panic, s1)
      | (Inr None, s1) \<Rightarrow> (Inr (None, None), s1)
      | (Inr (Some sess), s1) \<Rightarrow>
          if life_idle life \<le> 0 then (Inr (Some sess, None), s1)
          else
            (case so_renew ops fl tok (life_idle life) (life_max life) (at_renew t) (at_due t) s1 of
               (Inl panic, s2) \<Rightarrow> (Inl panic, s2)
             | (Inr None, s2) \<Rightarrow> (Inr (Some sess, None), s2)
             | (Inr (Some renewed), s2) \<Rightarrow>
                 (Inr (Some renewed, Some (set_cookie secure (req_tls req) tok (sess_expires renewed - at_cookie t))), s2)))"

text \<open>The handler behind a gate sees the session; \<open>None\<close> behind \<open>require\<close> is the 401.\<close>

definition attach ::
  "'s session_ops \<Rightarrow> faults \<Rightarrow> lifetime \<Rightarrow> bool \<Rightarrow> request \<Rightarrow> readings \<Rightarrow> (session option \<Rightarrow> 'r) \<Rightarrow> 's \<Rightarrow>
     (err + 'r \<times> cookie option) \<times> 's" where
  "attach ops fl life secure req t handler s =
     (case lookup_session ops fl (normalized life) secure req t s of
        (Inl panic, s1) \<Rightarrow> (Inl panic, s1)
      | (Inr (sess, ck), s1) \<Rightarrow> (Inr (handler sess, ck), s1))"

definition sign_in_first :: "int \<times> string" where
  "sign_in_first = (401, ''sign in first'')"

definition require ::
  "'s session_ops \<Rightarrow> faults \<Rightarrow> lifetime \<Rightarrow> bool \<Rightarrow> request \<Rightarrow> readings \<Rightarrow> (session \<Rightarrow> int \<times> string) \<Rightarrow> 's \<Rightarrow>
     (err + (int \<times> string) \<times> cookie option) \<times> 's" where
  "require ops fl life secure req t handler s =
     (case lookup_session ops fl (normalized life) secure req t s of
        (Inl panic, s1) \<Rightarrow> (Inl panic, s1)
      | (Inr (None, _), s1) \<Rightarrow> (Inr (sign_in_first, None), s1)
      | (Inr (Some sess, ck), s1) \<Rightarrow> (Inr (handler sess, ck), s1))"

section \<open>Runs\<close>

datatype session_act =
    Login extension string string entropy time
  | Fetch token time
  | Slide token duration duration time time
  | Visit lifetime bool request readings
  | Logout token
  | Directory extension time

datatype session_answer =
    Minted "err + token"
  | Seen "err + session option"
  | Visited "err + session option \<times> cookie option"
  | Dropped
  | Listed "token fset"

fun session_step :: "'s session_ops \<Rightarrow> faults \<Rightarrow> session_act \<Rightarrow> 's \<Rightarrow> session_answer \<times> 's" where
  "session_step ops fl (Login ext password email buf now) s = map_prod Minted id (so_create ops fl ext password email buf now s)"
| "session_step ops fl (Fetch tok now) s = map_prod Seen id (so_get ops fl tok now s)"
| "session_step ops fl (Slide tok idle max_age now now') s = map_prod Seen id (so_renew ops fl tok idle max_age now now' s)"
| "session_step ops fl (Visit life secure req t) s =
     map_prod Visited id (lookup_session ops fl (normalized life) secure req t s)"
| "session_step ops fl (Logout tok) s = (Dropped, so_delete ops fl tok s)"
| "session_step ops fl (Directory ext now) s = (Listed (so_active ops fl ext now s), s)"

text \<open>Every act comes with the faults of its statements.\<close>

fun session_run :: "'s session_ops \<Rightarrow> (faults \<times> session_act) list \<Rightarrow> 's \<Rightarrow> session_answer list \<times> 's" where
  "session_run ops [] s = ([], s)"
| "session_run ops ((fl, a) # as) s =
     (case session_step ops fl a s of
        (r, s1) \<Rightarrow> (case session_run ops as s1 of (rs, s2) \<Rightarrow> (r # rs, s2)))"

end
