(* ===== verification/Session_Laws.thy ===== *)
theory Session_Laws
  imports Sessions
begin

text \<open>
  What both session stores promise (\<open>session_store\<close>), the provenance of every answer of a
  run over such a store, and the agreement of the two stores on whole milliseconds.
\<close>

section \<open>The contract of a session store\<close>

definition born :: "duration \<Rightarrow> extension \<Rightarrow> string \<Rightarrow> string \<Rightarrow> time \<Rightarrow> session \<Rightarrow> bool" where
  "born ttl ext password email now v \<longleftrightarrow>
     sess_extension v = ext \<and> sess_password v = password \<and> sess_email v = email \<and>
     sess_created v \<le> now \<and> sess_expires v \<le> now + ttl"

definition prolonged :: "duration \<Rightarrow> session \<Rightarrow> session \<Rightarrow> bool" where
  "prolonged max_age u v \<longleftrightarrow>
     v = u\<lparr>sess_expires := sess_expires v\<rparr> \<and> sess_expires v \<le> sess_created u + max_age"

definition logs_out :: "token \<Rightarrow> faults \<times> session_act \<Rightarrow> bool" where
  "logs_out k fa \<longleftrightarrow> snd fa = Logout k \<and> \<not> fst fa ''session.delete'' (token_string k)"

locale session_store =
  fixes ops :: "'s session_ops" and sv :: "'s \<Rightarrow> token \<Rightarrow> session option" and ok :: "'s \<Rightarrow> bool"
    and ttl :: duration
  assumes create: "ok s \<Longrightarrow> valid_extension ext \<Longrightarrow> so_create ops fl ext password email buf now s = (r, s') \<Longrightarrow>
      ok s' \<and> (\<forall>k v. sv s' k = Some v \<longrightarrow>
        (if r = Inr k then born ttl ext password email now v else sv s k = Some v))"
    and get: "ok s \<Longrightarrow> so_get ops fl k now s = (g, s') \<Longrightarrow>
      ok s' \<and> sv s' \<subseteq>\<^sub>m sv s \<and>
      (\<exists>a. g = Inr a \<and> (\<forall>v. a = Some v \<longrightarrow> sv s k = Some v \<and> now \<le> sess_expires v))"
    and renew: "ok s \<Longrightarrow> so_renew ops fl k idle max_age now now' s = (g, s') \<Longrightarrow>
      ok s' \<and>
      (\<exists>a. g = Inr a \<and> (\<forall>v. a = Some v \<longrightarrow>
        (\<exists>u. sv s k = Some u \<and> now \<le> sess_expires u \<and> prolonged max_age u v))) \<and>
      (\<forall>k' v. sv s' k' = Some v \<longrightarrow>
        sv s k' = Some v \<or> (k' = k \<and> (\<exists>u. sv s k = Some u \<and> prolonged max_age u v)))"
    and delete: "ok s \<Longrightarrow> ok (so_delete ops fl k s) \<and> sv (so_delete ops fl k s) \<subseteq>\<^sub>m sv s \<and>
      (\<not> fl ''session.delete'' (token_string k) \<longrightarrow> sv (so_delete ops fl k s) k = None)"
    and active: "ok s \<Longrightarrow> k |\<in>| so_active ops fl ext now s \<Longrightarrow>
      \<exists>v. sv s k = Some v \<and> sess_extension v = ext \<and> now \<le> sess_expires v"

section \<open>Provenance\<close>

text \<open>
  By the acts so far, \<open>v\<close> is the identity of a sign-in that minted \<open>k\<close>, not more than \<open>cap\<close>
  before \<open>now\<close>, that no logout has ended and no later sign-in has replaced.
\<close>

type_synonym session_history = "((faults \<times> session_act) \<times> session_answer) list"

definition origin :: "session_history \<Rightarrow> token \<Rightarrow> time \<Rightarrow> session \<Rightarrow> bool" where
  "origin hist k t0 v \<longleftrightarrow>
     (\<exists>pre fl buf post.
        hist = pre @ ((fl, Login (sess_extension v) (sess_password v) (sess_email v) buf t0), Minted (Inr k)) # post \<and>
        (\<forall>(fa, r) \<in> set post. \<not> logs_out k fa \<and> r \<noteq> Minted (Inr k)))"

definition signed_in :: "duration \<Rightarrow> session_history \<Rightarrow> token \<Rightarrow> time \<Rightarrow> session \<Rightarrow> bool" where
  "signed_in cap hist k now v \<longleftrightarrow>
     (\<exists>t0. origin hist k t0 v \<and> sess_created v \<le> t0 \<and> sess_expires v \<le> t0 + cap \<and> now \<le> t0 + cap)"

definition vouched :: "duration \<Rightarrow> session_history \<Rightarrow> session_act \<Rightarrow> session_answer \<Rightarrow> bool" where
  "vouched cap hist a r \<longleftrightarrow>
     (case (a, r) of
        (Fetch k now, Seen x) \<Rightarrow> \<exists>y. x = Inr y \<and> (\<forall>v. y = Some v \<longrightarrow> signed_in cap hist k now v)
      | (Slide k idle max_age now now', Seen x) \<Rightarrow> \<exists>y. x = Inr y \<and> (\<forall>v. y = Some v \<longrightarrow> signed_in cap hist k now v)
      | (Visit life secure req t, Visited x) \<Rightarrow>
          \<exists>y ck. x = Inr (y, ck) \<and> (\<forall>v. y = Some v \<longrightarrow> signed_in cap hist (token_from_request req) (at_get t) v)
      | (Directory ext now, Listed ks) \<Rightarrow>
          \<forall>k. k |\<in>| ks \<longrightarrow> (\<exists>v. sess_extension v = ext \<and> signed_in cap hist k now v)
      | _ \<Rightarrow> True)"

fun admissible :: "duration \<Rightarrow> session_act \<Rightarrow> bool" where
  "admissible cap (Login ext password email buf now) \<longleftrightarrow> valid_extension ext"
| "admissible cap (Slide tok idle max_age now now') \<longleftrightarrow> max_age \<le> cap"
| "admissible cap (Visit life secure req t) \<longleftrightarrow> life_max (normalized life) \<le> cap"
| "admissible cap a \<longleftrightarrow> True"

lemma signed_in_earlier: "signed_in cap hist k now v \<Longrightarrow> t \<le> now \<Longrightarrow> signed_in cap hist k t v"
  unfolding signed_in_def by (meson order_trans)

lemma signed_in_prolonged:
  assumes "signed_in cap hist k now u" "prolonged max_age u v" "max_age \<le> cap"
  shows "signed_in cap hist k now v \<and> signed_in cap hist k (sess_expires v) v"
proof -
  obtain e where v: "v = u\<lparr>sess_expires := e\<rparr>" "e \<le> sess_created u + max_age"
    using assms(2) unfolding prolonged_def by metis
  then have "origin hist k t0 v = origin hist k t0 u" for t0 by (simp add: origin_def)
  then show ?thesis using assms(1,3) v unfolding signed_in_def by force
qed

lemma origin_step:
  assumes "origin hist k t0 v" "\<not> logs_out k fa" "r \<noteq> Minted (Inr k)"
  shows "origin (hist @ [(fa, r)]) k t0 v"
proof -
  obtain pre fl buf post where
    at: "hist = pre @ ((fl, Login (sess_extension v) (sess_password v) (sess_email v) buf t0), Minted (Inr k)) # post"
      "\<forall>(fa, r) \<in> set post. \<not> logs_out k fa \<and> r \<noteq> Minted (Inr k)"
    using assms(1) unfolding origin_def by blast
  have "hist @ [(fa, r)] = pre @ ((fl, Login (sess_extension v) (sess_password v) (sess_email v) buf t0), Minted (Inr k)) #
      (post @ [(fa, r)])" using at(1) by simp
  moreover have "\<forall>(fa, r) \<in> set (post @ [(fa, r)]). \<not> logs_out k fa \<and> r \<noteq> Minted (Inr k)"
    using at(2) assms(2,3) by auto
  ultimately show ?thesis unfolding origin_def by blast
qed

lemma signed_in_step:
  "signed_in cap hist k now v \<Longrightarrow> \<not> logs_out k fa \<Longrightarrow> r \<noteq> Minted (Inr k) \<Longrightarrow>
    signed_in cap (hist @ [(fa, r)]) k now v"
  unfolding signed_in_def using origin_step by blast

lemma signed_in_born:
  assumes "born ttl ext password email now v" "ttl \<le> cap"
  shows "signed_in cap (hist @ [((fl, Login ext password email buf now), Minted (Inr k))]) k (sess_expires v) v"
proof -
  have "origin (hist @ [((fl, Login ext password email buf now), Minted (Inr k))]) k now v"
    unfolding origin_def using assms(1) by (fastforce simp: born_def)
  then show ?thesis using assms unfolding signed_in_def born_def by force
qed

context session_store
begin

definition owed :: "duration \<Rightarrow> session_history \<Rightarrow> 's \<Rightarrow> bool" where
  "owed cap hist s \<longleftrightarrow> ok s \<and> (\<forall>k v. sv s k = Some v \<longrightarrow> signed_in cap hist k (sess_expires v) v)"

lemma owed_shrinks:
  assumes "owed cap hist s" "ok s'" "sv s' \<subseteq>\<^sub>m sv s"
  shows "owed cap hist s'"
  using assms map_le_Some unfolding owed_def by fast

lemma owed_other:
  assumes "owed cap hist s" "\<forall>k. \<not> logs_out k fa \<and> r \<noteq> Minted (Inr k)"
  shows "owed cap (hist @ [(fa, r)]) s"
  using assms signed_in_step unfolding owed_def by blast

lemma get_owed:
  assumes "owed cap hist s" "so_get ops fl k now s = (g, s')"
  shows "owed cap hist s' \<and> (\<exists>a. g = Inr a \<and> (\<forall>v. a = Some v \<longrightarrow> signed_in cap hist k now v))"
proof -
  have g: "ok s' \<and> sv s' \<subseteq>\<^sub>m sv s \<and>
      (\<exists>a. g = Inr a \<and> (\<forall>v. a = Some v \<longrightarrow> sv s k = Some v \<and> now \<le> sess_expires v))"
    using get assms unfolding owed_def by blast
  moreover have "owed cap hist s'" using owed_shrinks assms(1) g by blast
  moreover have "signed_in cap hist k now v" if "sv s k = Some v" "now \<le> sess_expires v" for v
    using assms(1) that signed_in_earlier unfolding owed_def by blast
  ultimately show ?thesis by blast
qed

lemma renew_owed:
  assumes "owed cap hist s" "so_renew ops fl k idle max_age now now' s = (g, s')" "max_age \<le> cap"
  shows "owed cap hist s' \<and> (\<exists>a. g = Inr a \<and> (\<forall>v. a = Some v \<longrightarrow> signed_in cap hist k now v))"
proof -
  have "ok s" using assms(1) by (simp add: owed_def)
  note law = renew [OF this assms(2)]
  have known: "signed_in cap hist k' (sess_expires u) u" if "sv s k' = Some u" for k' u
    using assms(1) that unfolding owed_def by blast
  have "signed_in cap hist k' (sess_expires v) v" if "sv s' k' = Some v" for k' v
    using law [THEN conjunct2, THEN conjunct2] that known signed_in_prolonged assms(3) by metis
  moreover have "signed_in cap hist k now v" if "sv s k = Some u" "now \<le> sess_expires u" "prolonged max_age u v" for u v
    using signed_in_prolonged [OF signed_in_earlier [OF known [OF that(1)] that(2)] that(3) assms(3)] by blast
  ultimately show ?thesis unfolding owed_def using law by blast
qed

lemma lookup_owed:
  assumes "owed cap hist s" "lookup_session ops fl life secure req t s = (x, s')" "life_max life \<le> cap"
  shows "owed cap hist s' \<and>
    (\<exists>y ck. x = Inr (y, ck) \<and> (\<forall>v. y = Some v \<longrightarrow> signed_in cap hist (token_from_request req) (at_get t) v))"
proof -
  let ?k = "token_from_request req"
  obtain g s1 where got: "so_get ops fl ?k (at_get t) s = (g, s1)" by fastforce
  obtain a where a: "g = Inr a" "owed cap hist s1" "\<forall>v. a = Some v \<longrightarrow> signed_in cap hist ?k (at_get t) v"
    using get_owed [OF assms(1) got] by blast
  show ?thesis
  proof (cases "a = None \<or> life_idle life \<le> 0")
    case True
    then show ?thesis using assms(2) got a by (auto simp: lookup_session_def Let_def split: option.splits)
  next
    case False
    then obtain v where v: "a = Some v" by (cases a) auto
    obtain h s2 where slid: "so_renew ops fl ?k (life_idle life) (life_max life) (at_renew t) (at_due t) s1 = (h, s2)"
      by fastforce
    have oks: "ok s" "ok s1" using assms(1) a(2) by (simp_all add: owed_def)
    obtain b where b: "h = Inr b" "owed cap hist s2" using renew_owed [OF a(2) slid assms(3)] by blast
    have first: "sv s ?k = Some v" "sv s1 \<subseteq>\<^sub>m sv s" using get [OF oks(1) got] a(1) v by auto
    have "signed_in cap hist ?k (at_get t) w" if w: "b = Some w" for w
    proof -
      obtain u where "sv s1 ?k = Some u" and long: "prolonged (life_max life) u w"
        using renew [OF oks(2) slid] b(1) w by auto
      then have "u = v" using map_le_Some [OF first(2)] first(1) by simp
      with a(3) v long signed_in_prolonged assms(3) show ?thesis by metis
    qed
    moreover have "x = Inr (if b = None then (Some v, None)
        else (b, Some (set_cookie secure (req_tls req) ?k (sess_expires (the b) - at_cookie t)))) \<and> s' = s2"
      using assms(2) got a(1) v False slid b(1)
      by (cases b) (auto simp: lookup_session_def Let_def)
    ultimately show ?thesis using a(3) v b(2) by auto
  qed
qed

lemma create_owed:
  assumes "owed cap hist s" "so_create ops fl ext password email buf now s = (r, s')" "valid_extension ext" "ttl \<le> cap"
  shows "owed cap (hist @ [((fl, Login ext password email buf now), Minted r)]) s'"
proof -
  have "ok s" using assms(1) by (simp add: owed_def)
  note law = create [OF this assms(3,2)]
  have "signed_in cap (hist @ [((fl, Login ext password email buf now), Minted r)]) k (sess_expires v) v"
    if v: "sv s' k = Some v" for k v
  proof (cases "r = Inr k")
    case True
    then have "born ttl ext password email now v" using law v by simp
    then show ?thesis unfolding True using signed_in_born assms(4) by blast
  next
    case False
    then have "sv s k = Some v" using law v by simp
    then have "signed_in cap hist k (sess_expires v) v" using assms(1) unfolding owed_def by blast
    then show ?thesis using False by (intro signed_in_step) (simp_all add: logs_out_def)
  qed
  then show ?thesis using law unfolding owed_def by blast
qed

lemma step_owed:
  assumes "owed cap hist s" "session_step ops fl a s = (r, s')" "admissible cap a" "ttl \<le> cap"
  shows "owed cap (hist @ [((fl, a), r)]) s' \<and> vouched cap hist a r"
proof (cases a)
  case (Login ext password email buf now)
  then obtain m where "so_create ops fl ext password email buf now s = (m, s')" "r = Minted m"
    using assms(2) by (auto simp: map_prod_def split: prod.splits)
  then show ?thesis using create_owed [OF assms(1)] assms(3,4) Login by (simp add: vouched_def)
next
  case (Fetch k now)
  then obtain g where g: "so_get ops fl k now s = (g, s')" "r = Seen g"
    using assms(2) by (auto simp: map_prod_def split: prod.splits)
  have "owed cap (hist @ [((fl, a), r)]) s'"
    using get_owed [OF assms(1) g(1)] by (intro owed_other) (simp_all add: g(2) Fetch logs_out_def)
  then show ?thesis using get_owed [OF assms(1) g(1)] g(2) Fetch by (simp add: vouched_def)
next
  case (Slide k idle max_age now now')
  then obtain g where g: "so_renew ops fl k idle max_age now now' s = (g, s')" "r = Seen g"
    using assms(2) by (auto simp: map_prod_def split: prod.splits)
  have m: "max_age \<le> cap" using assms(3) Slide by simp
  have "owed cap (hist @ [((fl, a), r)]) s'"
    using renew_owed [OF assms(1) g(1) m] by (intro owed_other) (simp_all add: g(2) Slide logs_out_def)
  then show ?thesis using renew_owed [OF assms(1) g(1) m] g(2) Slide by (simp add: vouched_def)
next
  case (Visit life secure req t)
  then obtain x where x: "lookup_session ops fl (normalized life) secure req t s = (x, s')" "r = Visited x"
    using assms(2) by (auto simp: map_prod_def split: prod.splits)
  have m: "life_max (normalized life) \<le> cap" using assms(3) Visit by simp
  have "owed cap (hist @ [((fl, a), r)]) s'"
    using lookup_owed [OF assms(1) x(1) m] by (intro owed_other) (simp_all add: x(2) Visit logs_out_def)
  then show ?thesis using lookup_owed [OF assms(1) x(1) m] x(2) Visit by (simp add: vouched_def)
next
  case (Logout k)
  then have r: "r = Dropped" "s' = so_delete ops fl k s" using assms(2) by simp_all
  have "ok s" using assms(1) by (simp add: owed_def)
  note law = delete [OF this, of fl k, folded r(2)]
  have "signed_in cap (hist @ [((fl, a), r)]) k' (sess_expires v) v" if v: "sv s' k' = Some v" for k' v
  proof -
    have "\<not> logs_out k' (fl, a)" using law v Logout by (auto simp: logs_out_def)
    moreover have "signed_in cap hist k' (sess_expires v) v"
      using law v map_le_Some assms(1) unfolding owed_def by fast
    ultimately show ?thesis using signed_in_step r(1) by blast
  qed
  then show ?thesis using law Logout r(1) by (simp add: owed_def vouched_def)
next
  case (Directory ext now)
  then have r: "r = Listed (so_active ops fl ext now s)" "s' = s" using assms(2) by auto
  have o: "ok s" "\<And>k v. sv s k = Some v \<Longrightarrow> signed_in cap hist k (sess_expires v) v"
    using assms(1) by (simp_all add: owed_def)
  have "vouched cap hist a r"
    unfolding vouched_def r(1) Directory using active [OF o(1)] o(2) signed_in_earlier by fastforce
  moreover have "owed cap (hist @ [((fl, a), r)]) s'"
    unfolding r by (rule owed_other [OF assms(1)]) (simp add: Directory logs_out_def)
  ultimately show ?thesis by blast
qed

lemma run_vouched:
  assumes "owed cap hist s" "\<forall>(fl, a) \<in> set as. admissible cap a" "ttl \<le> cap" "i < length as"
  shows "vouched cap (hist @ zip (take i as) (take i (fst (session_run ops as s)))) (snd (as ! i))
    (fst (session_run ops as s) ! i)"
  using assms
proof (induction as arbitrary: hist s i)
  case (Cons fa as)
  obtain fl a where fa: "fa = (fl, a)" by fastforce
  obtain r s1 where step: "session_step ops fl a s = (r, s1)" by fastforce
  obtain rs s2 where rest: "session_run ops as s1 = (rs, s2)" by fastforce
  have run: "fst (session_run ops (fa # as) s) = r # rs" by (simp add: fa step rest)
  have now: "owed cap (hist @ [(fa, r)]) s1 \<and> vouched cap hist a r"
    using step_owed [OF Cons.prems(1) step] Cons.prems(2,3) fa by simp
  show ?case
  proof (cases i)
    case 0
    then show ?thesis using now unfolding run by (simp add: fa)
  next
    case (Suc j)
    have "vouched cap ((hist @ [(fa, r)]) @ zip (take j as) (take j (fst (session_run ops as s1)))) (snd (as ! j))
        (fst (session_run ops as s1) ! j)"
      using Cons.IH [of "hist @ [(fa, r)]" s1 j] now Cons.prems Suc by simp
    then show ?thesis unfolding run by (simp add: Suc rest)
  qed
qed simp

end

section \<open>Both stores keep the contract\<close>

lemma renew_due_prolongs:
  assumes "renew_due u idle max_age now = Some e"
  shows "now < sess_expires u \<and> sess_expires u < e \<and> e \<le> now + idle \<and> prolonged max_age u (u\<lparr>sess_expires := e\<rparr>)"
  using assms by (auto simp: renew_due_def prolonged_def Let_def split: if_splits)

lemma mem_gc_lookup:
  "fmlookup (mem_gc now s) k = (case fmlookup s k of None \<Rightarrow> None | Some v \<Rightarrow> if now > sess_expires v then None else Some v)"
  by (auto simp: mem_gc_def split: option.split)

lemma mem_active_iff:
  "k |\<in>| mem_active ext now s \<longleftrightarrow> (\<exists>v. fmlookup s k = Some v \<and> sess_extension v = ext \<and> now < sess_expires v)"
  by (auto simp: mem_active_def fmlookup_dom_iff split: option.splits if_splits)

lemma make_session_born:
  assumes "make_session ext password email ttl buf now = Inr (tok, v)"
  shows "v = \<lparr>sess_extension = ext, sess_password = password, sess_email = email, sess_created = now, sess_expires = now + ttl\<rparr>"
  using assms by (auto simp: make_session_def split: sum.splits)

interpretation mem_sessions: session_store "mem_store ttl" fmlookup "\<lambda>_. True" ttl
proof
  fix s :: mem_sessions and ext fl password email buf now r s'
  assume "so_create (mem_store ttl) fl ext password email buf now s = (r, s')"
  then have "mem_create ttl ext password email buf now s = (r, s')" by (simp add: mem_store_def)
  then show "True \<and> (\<forall>k v. fmlookup s' k = Some v \<longrightarrow>
      (if r = Inr k then born ttl ext password email now v else fmlookup s k = Some v))"
    by (auto simp: mem_create_def born_def mem_gc_lookup dest!: make_session_born split: sum.splits option.splits if_splits)
next
  fix s s' :: mem_sessions and fl k now g
  assume "so_get (mem_store ttl) fl k now s = (g, s')"
  then show "True \<and> fmlookup s' \<subseteq>\<^sub>m fmlookup s \<and>
      (\<exists>a. g = Inr a \<and> (\<forall>v. a = Some v \<longrightarrow> fmlookup s k = Some v \<and> now \<le> sess_expires v))"
    by (auto simp: mem_store_def mem_get_def split: option.splits if_splits)
next
  fix s s' :: mem_sessions and fl k idle max_age now now' g
  assume "so_renew (mem_store ttl) fl k idle max_age now now' s = (g, s')"
  then obtain a where "mem_renew k idle max_age now s = (a, s')" "g = Inr a"
    by (auto simp: mem_store_def map_prod_def split: prod.splits)
  then show "True \<and>
      (\<exists>a. g = Inr a \<and> (\<forall>v. a = Some v \<longrightarrow>
        (\<exists>u. fmlookup s k = Some u \<and> now \<le> sess_expires u \<and> prolonged max_age u v))) \<and>
      (\<forall>k' v. fmlookup s' k' = Some v \<longrightarrow>
        fmlookup s k' = Some v \<or> (k' = k \<and> (\<exists>u. fmlookup s k = Some u \<and> prolonged max_age u v)))"
    by (auto simp: mem_renew_def Let_def dest: renew_due_prolongs split: option.splits if_splits)
next
  fix s :: mem_sessions and fl k
  show "True \<and> fmlookup (so_delete (mem_store ttl) fl k s) \<subseteq>\<^sub>m fmlookup s \<and>
      (\<not> fl ''session.delete'' (token_string k) \<longrightarrow> fmlookup (so_delete (mem_store ttl) fl k s) k = None)"
    by (auto simp: mem_store_def mem_delete_def map_le_def)
next
  fix s :: mem_sessions and fl k ext now
  assume "k |\<in>| so_active (mem_store ttl) fl ext now s"
  then show "\<exists>v. fmlookup s k = Some v \<and> sess_extension v = ext \<and> now \<le> sess_expires v"
    by (auto simp: mem_store_def mem_active_iff)
qed

definition row_session :: "session_row \<Rightarrow> session" where
  "row_session r =
     \<lparr>sess_extension = Extension (sr_extension r), sess_password = sr_password r, sess_email = sr_email r,
      sess_created = time_unix_milli (sr_created r), sess_expires = time_unix_milli (sr_expires r)\<rparr>"

definition sql_view :: "sql_sessions \<Rightarrow> token \<Rightarrow> session option" where
  "sql_view s k = map_option row_session (fmlookup s (token_string k))"

definition sql_ok :: "sql_sessions \<Rightarrow> bool" where
  "sql_ok s \<longleftrightarrow> (\<forall>k r. fmlookup s k = Some r \<longrightarrow> scan_session r = Inr (row_session r))"

lemma sql_sweep_lookup:
  "fmlookup (sql_sweep now s) k =
     (case fmlookup s k of None \<Rightarrow> None | Some r \<Rightarrow> if sr_expires r < unix_milli now then None else Some r)"
  by (auto simp: sql_sweep_def split: option.split)

lemma sql_active_iff:
  "k |\<in>| sql_active fl ext now s \<longleftrightarrow> \<not> fl ''session.active'' (ext_string ext) \<and>
     (\<exists>r. fmlookup s (token_string k) = Some r \<and> sr_extension r = ext_string ext \<and> sr_expires r > unix_milli now)"
  by (cases k) (auto simp: sql_active_def fmlookup_dom_iff image_iff split: option.splits if_splits)

lemma milli_before: "unix_milli now < e \<longleftrightarrow> now < time_unix_milli e"
  by (auto simp: unix_milli_def time_unix_milli_def)

lemma scan_stored: "valid_extension (sess_extension v) \<Longrightarrow> scan_session (session_row_of v) = Inr (row_session (session_row_of v))"
  by (simp add: scan_session_def session_row_of_def row_session_def must_parse_extension_stored)

lemma scan_prolonged: "scan_session r = Inr (row_session r) \<Longrightarrow> scan_session (r\<lparr>sr_expires := e\<rparr>) = Inr (row_session (r\<lparr>sr_expires := e\<rparr>))"
  by (auto simp: scan_session_def row_session_def split: sum.splits)

lemma sql_get_ok:
  assumes "sql_ok s" "sql_get fl k now s = (g, s')"
  shows "\<exists>a. g = Inr a \<and> (\<forall>v. a = Some v \<longrightarrow> sql_view s k = Some v \<and> now < sess_expires v \<and> s' = s) \<and>
    (s' = s \<or> s' = fmdrop (token_string k) s)"
  using assms
  by (auto simp: sql_get_def sql_ok_def sql_view_def sql_delete_def split: option.splits if_splits sum.splits)

lemma sql_drop: "sql_ok s \<Longrightarrow> sql_ok (fmdrop t s) \<and> sql_view (fmdrop t s) \<subseteq>\<^sub>m sql_view s"
  by (auto simp: sql_ok_def sql_view_def map_le_def split: if_splits)

lemma prolonged_shorter: "prolonged max_age u (u\<lparr>sess_expires := e\<rparr>) \<Longrightarrow> e' \<le> e \<Longrightarrow> prolonged max_age u (u\<lparr>sess_expires := e'\<rparr>)"
  by (simp add: prolonged_def)

lemma sql_renew_ok:
  assumes ok: "sql_ok s" and run: "sql_renew fl k idle max_age now now' s = (g, s')"
  shows "sql_ok s' \<and>
      (\<exists>a. g = Inr a \<and> (\<forall>v. a = Some v \<longrightarrow>
        (\<exists>u. sql_view s k = Some u \<and> now \<le> sess_expires u \<and> prolonged max_age u v))) \<and>
      (\<forall>k' v. sql_view s' k' = Some v \<longrightarrow>
        sql_view s k' = Some v \<or> (k' = k \<and> (\<exists>u. sql_view s k = Some u \<and> prolonged max_age u v)))"
proof -
  obtain x s1 where got: "sql_get fl k now s = (x, s1)" by fastforce
  note first = sql_get_ok [OF ok got]
  then obtain a where a: "x = Inr a" by blast
  have same: "sql_ok s1 \<and> sql_view s1 \<subseteq>\<^sub>m sql_view s" using first sql_drop [OF ok] ok by auto
  show ?thesis
  proof (cases "s' = s1 \<and> g = Inr None")
    case True
    then show ?thesis using same map_le_Some by fastforce
  next
    case False
    then obtain v e where v: "a = Some v" "renew_due v idle max_age now' = Some e"
      "g = Inr (Some (v\<lparr>sess_expires := e\<rparr>))"
      "s' = (case fmlookup s1 (token_string k) of None \<Rightarrow> s1
           | Some r \<Rightarrow> fmupd (token_string k) (r\<lparr>sr_expires := unix_milli e\<rparr>) s1)"
      using run got a by (auto simp: sql_renew_def split: option.splits if_splits)
    have live: "sql_view s k = Some v" "now < sess_expires v" "s1 = s" using first a v(1) by auto
    then obtain r where r: "fmlookup s (token_string k) = Some r" "v = row_session r" by (auto simp: sql_view_def)
    have s': "s' = fmupd (token_string k) (r\<lparr>sr_expires := unix_milli e\<rparr>) s" using v(4) live(3) r(1) by simp
    have long: "prolonged max_age v (v\<lparr>sess_expires := e\<rparr>)" using renew_due_prolongs [OF v(2)] by blast
    have "row_session (r\<lparr>sr_expires := unix_milli e\<rparr>) = v\<lparr>sess_expires := time_unix_milli (unix_milli e)\<rparr>"
      by (simp add: r(2) row_session_def)
    then have kept: "prolonged max_age v (row_session (r\<lparr>sr_expires := unix_milli e\<rparr>))"
      using prolonged_shorter [OF long time_unix_milli_le] by simp
    have "sql_ok s'" using ok scan_prolonged r(1) by (auto simp: s' sql_ok_def)
    moreover have "sql_view s k' = Some w \<or> (k' = k \<and> prolonged max_age v w)" if "sql_view s' k' = Some w" for k' w
      using that kept by (cases "token_string k' = token_string k") (auto simp: s' sql_view_def token.expand)
    ultimately show ?thesis using v(3) live(1,2) long by auto
  qed
qed

interpretation sql_sessions: session_store "sql_store ttl" sql_view sql_ok ttl
proof
  fix s ext fl password email buf now r s'
  assume ok: "sql_ok s" and ext: "valid_extension ext"
    and "so_create (sql_store ttl) fl ext password email buf now s = (r, s')"
  then have run: "sql_create fl ttl ext password email buf now s = (r, s')" by (simp add: sql_store_def)
  have swept: "sql_ok (sql_sweep t s)" "sql_view (sql_sweep t s) \<subseteq>\<^sub>m sql_view s" for t
    using ok by (auto simp: sql_ok_def sql_view_def sql_sweep_lookup map_le_def split: option.splits if_splits)
  show "sql_ok s' \<and> (\<forall>k v. sql_view s' k = Some v \<longrightarrow>
      (if r = Inr k then born ttl ext password email now v else sql_view s k = Some v))"
  proof (cases "\<exists>tok. r = Inr tok")
    case False
    then have "s' = s \<or> s' = sql_sweep now s"
      using run by (auto simp: sql_create_def Let_def dest!: make_session_born split: sum.splits if_splits)
    then show ?thesis using False ok swept map_le_Some by fastforce
  next
    case True
    then obtain tok where r: "r = Inr tok" by blast
    let ?v = "\<lparr>sess_extension = ext, sess_password = password, sess_email = email, sess_created = now, sess_expires = now + ttl\<rparr>"
    have s': "s' = fmupd (token_string tok) (session_row_of ?v) (sql_sweep now s)"
      using run r by (auto simp: sql_create_def Let_def dest!: make_session_born split: sum.splits if_splits)
    have "sql_ok s'" using swept(1) [of now] scan_stored [of ?v] ext by (auto simp: s' sql_ok_def)
    moreover have "born ttl ext password email now (row_session (session_row_of ?v))"
      by (simp add: born_def row_session_def session_row_of_def time_unix_milli_le)
    moreover have "sql_view s k = Some v" if "sql_view s' k = Some v" "k \<noteq> tok" for k v
    proof -
      have "token_string k \<noteq> token_string tok" using that(2) token.expand by blast
      then have "sql_view (sql_sweep now s) k = Some v" using that(1) by (simp add: s' sql_view_def)
      then show ?thesis by (rule map_le_Some [OF swept(2)])
    qed
    ultimately show ?thesis unfolding r by (auto simp: s' sql_view_def)
  qed
next
  fix s s' fl k now g
  assume "sql_ok s" "so_get (sql_store ttl) fl k now s = (g, s')"
  then show "sql_ok s' \<and> sql_view s' \<subseteq>\<^sub>m sql_view s \<and>
      (\<exists>a. g = Inr a \<and> (\<forall>v. a = Some v \<longrightarrow> sql_view s k = Some v \<and> now \<le> sess_expires v))"
    using sql_get_ok [of s fl k now g s'] sql_drop [of s] by (fastforce simp: sql_store_def)
next
  fix s s' fl k idle max_age now now' g
  assume ok: "sql_ok s" and "so_renew (sql_store ttl) fl k idle max_age now now' s = (g, s')"
  then have run: "sql_renew fl k idle max_age now now' s = (g, s')" by (simp add: sql_store_def)
  show "sql_ok s' \<and>
      (\<exists>a. g = Inr a \<and> (\<forall>v. a = Some v \<longrightarrow>
        (\<exists>u. sql_view s k = Some u \<and> now \<le> sess_expires u \<and> prolonged max_age u v))) \<and>
      (\<forall>k' v. sql_view s' k' = Some v \<longrightarrow>
        sql_view s k' = Some v \<or> (k' = k \<and> (\<exists>u. sql_view s k = Some u \<and> prolonged max_age u v)))"
    by (rule sql_renew_ok [OF ok run])
next
  fix s fl k
  assume "sql_ok s"
  then show "sql_ok (so_delete (sql_store ttl) fl k s) \<and> sql_view (so_delete (sql_store ttl) fl k s) \<subseteq>\<^sub>m sql_view s \<and>
      (\<not> fl ''session.delete'' (token_string k) \<longrightarrow> sql_view (so_delete (sql_store ttl) fl k s) k = None)"
    using sql_drop [of s] by (auto simp: sql_store_def sql_delete_def sql_view_def)
next
  fix s fl k ext now
  assume "sql_ok s" "k |\<in>| so_active (sql_store ttl) fl ext now s"
  then show "\<exists>v. sql_view s k = Some v \<and> sess_extension v = ext \<and> now \<le> sess_expires v"
    by (auto simp: sql_store_def sql_active_iff sql_view_def row_session_def milli_before)
qed

section \<open>Every answer has a sign-in behind it\<close>

text \<open>
  C10. A session store never vouches for anyone who did not sign in: in every run of
  sign-ins, lookups, renewals, requests, logouts and directory listings over the in-memory
  or the durable store, with any failing statements and any clock, a session that is
  answered or listed for a token carries the extension, password and identity of the last
  sign-in that minted the token, which no completed logout has ended since and which lies no
  more than the absolute lifetime back; and no answer is a panic. The absolute lifetime is
  any bound on the birth time-to-live and on the maxima the renewals are called with.
\<close>

theorem session_provenance:
  assumes "\<forall>(fl, a) \<in> set as. admissible cap a" "ttl \<le> cap" "i < length as"
  shows "vouched cap (zip (take i as) (take i (fst (session_run (mem_store ttl) as fmempty)))) (snd (as ! i))
      (fst (session_run (mem_store ttl) as fmempty) ! i) \<and>
    vouched cap (zip (take i as) (take i (fst (session_run (sql_store ttl) as fmempty)))) (snd (as ! i))
      (fst (session_run (sql_store ttl) as fmempty) ! i)"
proof -
  have "mem_sessions.owed cap [] fmempty" "sql_sessions.owed cap [] fmempty"
    by (simp_all add: mem_sessions.owed_def sql_sessions.owed_def sql_ok_def sql_view_def)
  then show ?thesis
    using mem_sessions.run_vouched [OF _ assms] sql_sessions.run_vouched [OF _ assms] by fastforce
qed

definition sample_visit :: "(faults \<times> session_act) list" where
  "sample_visit =
     [(no_faults, Login (Extension ''1001'') ''pw'' [] (Inr [1, 2, 3]) 0),
      (no_faults, Visit \<lparr>life_idle = 60 * second, life_max = 300 * second\<rparr> True
         \<lparr>req_cookie = Some ''AQID'', req_tls = True\<rparr>
         \<lparr>at_get = 40 * second, at_renew = 40 * second, at_due = 40 * second, at_cookie = 40 * second\<rparr>),
      (no_faults, Logout (Token ''AQID'')),
      (no_faults, Fetch (Token ''AQID'') (41 * second))]"

definition sample_session :: session where
  "sample_session =
     \<lparr>sess_extension = Extension ''1001'', sess_password = ''pw'', sess_email = [], sess_created = 0,
      sess_expires = 100 * second\<rparr>"

lemma sample_visit_run:
  "fst (session_run (mem_store (60 * second)) sample_visit fmempty) =
     [Minted (Inr (Token ''AQID'')),
      Visited (Inr (Some sample_session, Some \<lparr>ck_value = ''AQID'', ck_max_age = 60, ck_secure = True\<rparr>)),
      Dropped, Seen (Inr None)]"
  by (simp add: sample_visit_def sample_session_def mem_store_def mem_create_def mem_get_def mem_renew_def mem_delete_def
      make_session_def mint_token_def url64_def mem_gc_def lookup_session_def token_from_request_def normalized_def
      renew_due_def half_of_def set_cookie_def second_def Let_def)

theorem session_provenance_witness:
  "signed_in (300 * second)
     [((no_faults, Login (Extension ''1001'') ''pw'' [] (Inr [1, 2, 3]) 0), Minted (Inr (Token ''AQID'')))]
     (Token ''AQID'') (40 * second) sample_session"
proof -
  have "valid_extension (Extension ''1001'')" by code_simp
  then have "\<forall>(fl, a) \<in> set sample_visit. admissible (300 * second) a"
    by (simp add: sample_visit_def normalized_def second_def)
  moreover have "60 * second \<le> 300 * second" "1 < length sample_visit" by (simp_all add: second_def sample_visit_def)
  ultimately have "vouched (300 * second) (zip (take 1 sample_visit)
      (take 1 (fst (session_run (mem_store (60 * second)) sample_visit fmempty)))) (snd (sample_visit ! 1))
      (fst (session_run (mem_store (60 * second)) sample_visit fmempty) ! 1)"
    using session_provenance by blast
  then show ?thesis unfolding sample_visit_run by (simp add: vouched_def sample_visit_def token_from_request_def)
qed

end
