(* ===== verification/Session_Agreement.thy ===== *)
theory Session_Agreement
  imports Session_Laws
begin

text \<open>
  The durable session store against the in-memory one. The table keeps whole milliseconds
  and reads a session as dead at the very instant it expires, the map keeps nanoseconds and
  reads it as alive there; everywhere else the two answer alike.
\<close>

section \<open>Maps that agree on what is alive\<close>

definition agree :: "time \<Rightarrow> (token \<Rightarrow> session option) \<Rightarrow> (token \<Rightarrow> session option) \<Rightarrow> bool" where
  "agree t f g \<longleftrightarrow> (\<forall>k v. t < sess_expires v \<longrightarrow> (f k = Some v \<longleftrightarrow> g k = Some v))"

lemma agree_later: "agree t f g \<Longrightarrow> t \<le> t' \<Longrightarrow> agree t' f g"
  by (auto simp: agree_def)

lemma agree_trans: "agree t f g \<Longrightarrow> agree t g h \<Longrightarrow> agree t f h"
  by (auto simp: agree_def)

lemma agree_sym: "agree t f g \<Longrightarrow> agree t g f"
  by (auto simp: agree_def)

lemma agree_upd: "agree t f g \<Longrightarrow> agree t (f(k := x)) (g(k := x))"
  by (auto simp: agree_def)

lemma agree_drop: "(\<And>v. f k = Some v \<Longrightarrow> \<not> t < sess_expires v) \<Longrightarrow> agree t (f(k := None)) f"
  by (auto simp: agree_def)

lemma agree_dead:
  "agree t f g \<Longrightarrow> (\<And>v. f k = Some v \<Longrightarrow> \<not> t < sess_expires v) \<Longrightarrow> g k = Some v \<Longrightarrow> \<not> t < sess_expires v"
  by (auto simp: agree_def)

section \<open>Steady runs\<close>

definition whole :: "int \<Rightarrow> bool" where
  "whole t \<longleftrightarrow> 1000000 dvd t"

definition off_expiry :: "mem_sessions \<Rightarrow> token \<Rightarrow> time \<Rightarrow> bool" where
  "off_expiry m k now \<longleftrightarrow> (case fmlookup m k of None \<Rightarrow> True | Some v \<Rightarrow> sess_expires v \<noteq> now)"

fun act_time :: "time \<Rightarrow> session_act \<Rightarrow> time" where
  "act_time t (Login ext password email buf now) = now"
| "act_time t (Fetch k now) = now"
| "act_time t (Slide k idle max_age now now') = now"
| "act_time t (Visit life secure req r) = at_get r"
| "act_time t (Logout k) = t"
| "act_time t (Directory ext now) = now"

fun act_mints :: "session_act \<Rightarrow> token list" where
  "act_mints (Login ext password email buf now) = (case mint_token buf of Inl _ \<Rightarrow> [] | Inr tok \<Rightarrow> [tok])"
| "act_mints a = []"

text \<open>
  At time \<open>t\<close>, with the tokens \<open>used\<close> so far: fresh tokens, whole milliseconds, a clock that
  stands still within one act, no lookup at the very instant of an expiry.
\<close>

fun steady_act :: "time \<Rightarrow> token list \<Rightarrow> session_act \<Rightarrow> mem_sessions \<Rightarrow> bool" where
  "steady_act t used (Login ext password email buf now) m \<longleftrightarrow>
     valid_extension ext \<and> whole now \<and> set (act_mints (Login ext password email buf now)) \<inter> set used = {}"
| "steady_act t used (Fetch k now) m \<longleftrightarrow> off_expiry m k now"
| "steady_act t used (Slide k idle max_age now now') m \<longleftrightarrow> now' = now \<and> whole now \<and> whole idle \<and> whole max_age"
| "steady_act t used (Visit life secure req r) m \<longleftrightarrow>
     at_renew r = at_get r \<and> at_due r = at_get r \<and> whole (at_get r) \<and> whole (life_idle life) \<and> whole (life_max life) \<and>
     off_expiry m (token_from_request req) (at_get r)"
| "steady_act t used a m \<longleftrightarrow> True"

fun steady :: "duration \<Rightarrow> time \<Rightarrow> token list \<Rightarrow> session_act list \<Rightarrow> mem_sessions \<Rightarrow> bool" where
  "steady ttl t used [] m \<longleftrightarrow> True"
| "steady ttl t used (a # as) m \<longleftrightarrow>
     t \<le> act_time t a \<and> steady_act t used a m \<and>
     steady ttl (act_time t a) (act_mints a @ used) as (snd (session_step (mem_store ttl) no_faults a m))"

section \<open>One step\<close>

definition twin :: "time \<Rightarrow> token list \<Rightarrow> mem_sessions \<Rightarrow> sql_sessions \<Rightarrow> bool" where
  "twin t used m d \<longleftrightarrow>
     agree t (fmlookup m) (sql_view d) \<and> sql_ok d \<and> (\<forall>k. k |\<in>| fmdom d \<longrightarrow> Token k \<in> set used)"

lemma sql_view_upd: "sql_view (fmupd (token_string k) r d) = (sql_view d)(k \<mapsto> row_session r)"
  by (auto simp: sql_view_def token.expand)

lemma sql_view_drop: "sql_view (fmdrop (token_string k) d) = (sql_view d)(k := None)"
  by (auto simp: sql_view_def token.expand)

lemma mem_drop: "fmlookup (fmdrop k m) = (fmlookup m)(k := None)"
  by auto

lemma mem_upd: "fmlookup (fmupd k v m) = (fmlookup m)(k \<mapsto> v)"
  by auto

lemma whole_milli: "whole t \<Longrightarrow> time_unix_milli (unix_milli t) = t"
  by (simp add: whole_def time_unix_milli_def unix_milli_def)

lemma twin_later: "twin t used m d \<Longrightarrow> t \<le> t' \<Longrightarrow> set used \<subseteq> set used' \<Longrightarrow> twin t' used' m d"
  unfolding twin_def using agree_later by blast

lemma agree_live: "agree t f g \<Longrightarrow> t < sess_expires v \<Longrightarrow> f k = Some v \<longleftrightarrow> g k = Some v"
  by (simp add: agree_def)

lemma twin_drop:
  assumes "twin t used m d" "\<And>v. sql_view d k = Some v \<Longrightarrow> \<not> t < sess_expires v"
  shows "twin t used m (fmdrop (token_string k) d)"
proof -
  have "agree t (fmlookup m) (sql_view (fmdrop (token_string k) d))"
    unfolding sql_view_drop
    by (rule agree_trans [OF _ agree_sym [OF agree_drop [OF assms(2)]]]) (use assms(1) in \<open>auto simp: twin_def\<close>)
  then show ?thesis using assms(1) sql_drop by (auto simp: twin_def)
qed

lemma twin_drops:
  assumes "twin t used m d"
  shows "twin t used (fmdrop k m) (fmdrop (token_string k) d)"
  using assms agree_upd [of t "fmlookup m" "sql_view d" k None] sql_drop
  by (auto simp: twin_def sql_view_drop mem_drop)

text \<open>A lookup that finds the row alive, or not.\<close>

lemma sql_get_alive:
  assumes "sql_ok d"
  shows "sql_get no_faults k t d =
    (case sql_view d k of
       None \<Rightarrow> (Inr None, d)
     | Some v \<Rightarrow> if t < sess_expires v then (Inr (Some v), d) else (Inr None, fmdrop (token_string k) d))"
  using assms
  by (auto simp: sql_get_def sql_ok_def sql_view_def sql_delete_def no_faults_simp split: option.splits sum.splits)

lemma twin_get:
  assumes "twin t used m d" "off_expiry m k t" "sql_get no_faults k t d = (g, d')"
  shows "g = Inr (mem_get k t m) \<and> twin t used m d'"
proof -
  have ok: "sql_ok d" and agree: "agree t (fmlookup m) (sql_view d)" using assms(1) by (simp_all add: twin_def)
  have dead: "mem_get k t m = None" if "\<And>v. sql_view d k = Some v \<Longrightarrow> \<not> t < sess_expires v"
    using that agree_live [OF agree] assms(2) unfolding mem_get_def off_expiry_def
    by (cases "fmlookup m k") (simp, force)
  show ?thesis
  proof (cases "\<exists>v. sql_view d k = Some v \<and> t < sess_expires v")
    case True
    then obtain v where v: "sql_view d k = Some v" "t < sess_expires v" by blast
    then have "fmlookup m k = Some v" using agree_live [OF agree] by blast
    then show ?thesis using assms(1,3) v by (simp add: sql_get_alive [OF ok] mem_get_def)
  next
    case False
    then have "mem_get k t m = None" using dead by blast
    moreover have "g = Inr None \<and> (d' = d \<or> d' = fmdrop (token_string k) d)"
      using assms(3) False by (auto simp: sql_get_alive [OF ok] split: option.splits)
    ultimately show ?thesis using twin_drop [OF assms(1), of k] assms(1) False by auto
  qed
qed

lemma renew_due_whole:
  assumes "renew_due (row_session r) idle max_age t = Some e" "whole t" "whole idle" "whole max_age"
  shows "whole e"
proof -
  have "whole (sess_created (row_session r))" by (simp add: whole_def row_session_def time_unix_milli_def)
  moreover have "e = sess_created (row_session r) + max_age \<or> e = t + idle"
    using assms(1) by (auto simp: renew_due_def Let_def split: if_splits)
  ultimately show ?thesis using assms(2-4) unfolding whole_def by auto
qed

lemma twin_renew:
  assumes "twin t used m d" "mem_renew k idle max_age t m = (a, m')"
    "sql_renew no_faults k idle max_age t t d = (g, d')" "whole t" "whole idle" "whole max_age"
  shows "g = Inr a \<and> twin t used m' d'"
proof -
  have ok: "sql_ok d" and agree: "agree t (fmlookup m) (sql_view d)" using assms(1) by (simp_all add: twin_def)
  show ?thesis
  proof (cases "\<exists>v. sql_view d k = Some v \<and> t < sess_expires v")
    case True
    then obtain v where v: "sql_view d k = Some v" "t < sess_expires v" by blast
    then have m: "fmlookup m k = Some v" using agree_live [OF agree] by blast
    obtain r where r: "fmlookup d (token_string k) = Some r" "v = row_session r"
      using v(1) by (auto simp: sql_view_def)
    show ?thesis
    proof (cases "renew_due v idle max_age t")
      case None
      then show ?thesis using assms(1-3) v m by (simp add: mem_renew_def sql_renew_def sql_get_alive [OF ok])
    next
      case (Some e)
      have e: "time_unix_milli (unix_milli e) = e"
        using renew_due_whole Some assms(4-6) unfolding r(2) by (blast intro: whole_milli)
      let ?v = "v\<lparr>sess_expires := e\<rparr>" and ?r = "r\<lparr>sr_expires := unix_milli e\<rparr>"
      have m': "a = Some ?v" "m' = fmupd k ?v m"
        using assms(2) v(2) m Some by (simp_all add: mem_renew_def Let_def)
      have d': "g = Inr (Some ?v)" "d' = fmupd (token_string k) ?r d"
        using assms(3) v r(1) Some by (simp_all add: sql_renew_def sql_get_alive [OF ok] no_faults_simp)
      have "row_session ?r = ?v" using e by (simp add: r(2) row_session_def)
      then have "agree t (fmlookup m') (sql_view d')"
        using agree_upd [OF agree] by (simp add: m' d' sql_view_upd mem_upd)
      moreover have "sql_ok d'" using ok scan_prolonged r(1) by (auto simp: d' sql_ok_def)
      moreover have "fmdom d' = fmdom d" using r(1) by (auto simp: d' fmlookup_dom_iff)
      ultimately show ?thesis using assms(1) m' d' by (simp add: twin_def)
    qed
  next
    case False
    then have gone: "\<And>v. fmlookup m k = Some v \<Longrightarrow> \<not> t < sess_expires v" using agree_live [OF agree] by blast
    then have a: "a = None \<and> (m' = m \<or> m' = fmdrop k m)"
      using assms(2) by (auto simp: mem_renew_def split: option.splits)
    have g: "g = Inr None \<and> (d' = d \<or> d' = fmdrop (token_string k) d)"
      using assms(3) False by (auto simp: sql_renew_def sql_get_alive [OF ok] split: option.splits)
    have "agree t (fmlookup m') (fmlookup m)" using a agree_drop [OF gone] by (auto simp: mem_drop agree_def)
    then have "twin t used m' d" using assms(1) agree_trans agree by (auto simp: twin_def)
    then show ?thesis using a g twin_drop [of t used m' d k] False by blast
  qed
qed

lemma twin_create:
  assumes "twin t used m d" "mem_create ttl ext password email buf now m = (x, m')"
    "sql_create no_faults ttl ext password email buf now d = (y, d')" "t \<le> now" "whole now" "whole ttl"
    "valid_extension ext" "set (act_mints (Login ext password email buf now)) \<inter> set used = {}"
  shows "y = x \<and> twin now (act_mints (Login ext password email buf now) @ used) m' d'"
proof (cases "mint_token buf")
  case (Inl e)
  then have none: "make_session ext password email ttl buf now = Inl e" by (simp add: make_session_def)
  have "x = Inl e" "m' = m" using assms(2) by (auto simp: mem_create_def none)
  moreover have "y = Inl e" "d' = d" using assms(3) by (auto simp: sql_create_def none)
  moreover note Inl
  ultimately show ?thesis using twin_later [OF assms(1,4), of used] by simp
next
  case (Inr tok)
  let ?v = "\<lparr>sess_extension = ext, sess_password = password, sess_email = email, sess_created = now, sess_expires = now + ttl\<rparr>"
  have later: "agree now (fmlookup m) (sql_view d)" and ok: "sql_ok d"
    and dom: "\<And>k. k |\<in>| fmdom d \<Longrightarrow> Token k \<in> set used"
    using assms(1,4) agree_later by (auto simp: twin_def)
  have "agree now (fmlookup (mem_gc now m)) (fmlookup m)"
    by (auto simp: agree_def mem_gc_lookup split: option.splits)
  moreover have "agree now (sql_view d) (sql_view (sql_sweep now d))"
    by (auto simp: agree_def sql_view_def sql_sweep_lookup row_session_def milli_before [symmetric] split: option.splits)
  ultimately have gc: "agree now (fmlookup (mem_gc now m)) (sql_view (sql_sweep now d))"
    using later agree_trans by blast
  have swept: "sql_ok (sql_sweep now d)" "fmdom (sql_sweep now d) |\<subseteq>| fmdom d"
    using ok by (auto simp: sql_ok_def sql_sweep_lookup fmlookup_dom_iff split: option.splits if_splits)
  have fresh: "token_string tok |\<notin>| fmdom (sql_sweep now d)"
    using dom swept(2) assms(8) Inr by fastforce
  have made: "make_session ext password email ttl buf now = Inr (tok, ?v)" using Inr by (simp add: make_session_def)
  have x: "x = Inr tok" "m' = fmupd tok ?v (mem_gc now m)"
    using assms(2) by (auto simp: mem_create_def made)
  have y: "y = Inr tok" "d' = fmupd (token_string tok) (session_row_of ?v) (sql_sweep now d)"
    using assms(3) fresh by (auto simp: sql_create_def made no_faults_simp Let_def)
  have "whole (now + ttl)" using assms(5,6) by (simp add: whole_def)
  then have "row_session (session_row_of ?v) = ?v"
    using assms(5) whole_milli by (simp add: row_session_def session_row_of_def)
  then have "agree now (fmlookup m') (sql_view d')" using agree_upd [OF gc] by (simp add: x y sql_view_upd mem_upd)
  moreover have "sql_ok d'" using swept(1) scan_stored [of ?v] assms(7) by (auto simp: y sql_ok_def)
  moreover have "Token k \<in> set (tok # used)" if "k |\<in>| fmdom d'" for k
    using that dom swept(2) by (auto simp: y)
  ultimately show ?thesis using x y Inr by (simp add: twin_def)
qed

lemma twin_lookup:
  assumes "twin (at_get r) used m d" "off_expiry m (token_from_request req) (at_get r)"
    "at_renew r = at_get r" "at_due r = at_get r" "whole (at_get r)" "whole (life_idle life)" "whole (life_max life)"
    "lookup_session (mem_store ttl) no_faults life secure req r m = (x, m')"
    "lookup_session (sql_store ttl) no_faults life secure req r d = (y, d')"
  shows "y = x \<and> twin (at_get r) used m' d'"
proof -
  let ?k = "token_from_request req"
  obtain g d1 where get: "sql_get no_faults ?k (at_get r) d = (g, d1)" by fastforce
  note first = twin_get [OF assms(1,2) get]
  obtain a m2 where a: "mem_renew ?k (life_idle life) (life_max life) (at_get r) m = (a, m2)" by fastforce
  obtain b d2 where b: "sql_renew no_faults ?k (life_idle life) (life_max life) (at_get r) (at_get r) d1 = (b, d2)" by fastforce
  note second = twin_renew [OF first [THEN conjunct2] a b assms(5-7)]
  show ?thesis
    using assms(3,4,8,9) get first a b second
    by (cases "mem_get ?k (at_get r) m"; cases a)
      (auto simp: lookup_session_def mem_store_def sql_store_def Let_def split: if_splits)
qed

lemma twin_active:
  assumes "twin t used m d"
  shows "mem_active ext t m = sql_active no_faults ext t d"
proof -
  have agree: "agree t (fmlookup m) (sql_view d)" using assms by (simp add: twin_def)
  have "k |\<in>| sql_active no_faults ext t d \<longleftrightarrow>
      (\<exists>v. sql_view d k = Some v \<and> sess_extension v = ext \<and> t < sess_expires v)" for k
    by (cases ext) (auto simp: sql_active_iff no_faults_simp sql_view_def row_session_def milli_before)
  then have "k |\<in>| mem_active ext t m \<longleftrightarrow> k |\<in>| sql_active no_faults ext t d" for k
    using agree_live [OF agree] by (metis mem_active_iff)
  then show ?thesis by blast
qed

lemma twin_step:
  assumes "twin t used m d" "t \<le> act_time t a" "steady_act t used a m" "whole ttl"
    "session_step (mem_store ttl) no_faults a m = (x, m')" "session_step (sql_store ttl) no_faults a d = (y, d')"
  shows "y = x \<and> twin (act_time t a) (act_mints a @ used) m' d'"
proof -
  have now: "twin (act_time t a) used m d" using twin_later [OF assms(1,2)] by simp
  show ?thesis
  proof (cases a)
    case (Login ext password email buf now')
    obtain p where p: "mem_create ttl ext password email buf now' m = (p, m')" "x = Minted p"
      using assms(5) Login by (auto simp: mem_store_def map_prod_def split: prod.splits)
    obtain q where q: "sql_create no_faults ttl ext password email buf now' d = (q, d')" "y = Minted q"
      using assms(6) Login by (auto simp: sql_store_def map_prod_def split: prod.splits)
    show ?thesis using twin_create [OF assms(1) p(1) q(1)] assms(2-4) Login p(2) q(2) by simp
  next
    case (Fetch k now')
    then show ?thesis using twin_get [of now' used m d k] now assms(3,5,6)
      by (auto simp: mem_store_def sql_store_def map_prod_def split: prod.splits)
  next
    case (Slide k idle max_age now' now'')
    obtain p where p: "mem_renew k idle max_age now' m = (p, m')" "x = Seen (Inr p)"
      using assms(5) Slide by (auto simp: mem_store_def map_prod_def split: prod.splits)
    obtain q where q: "sql_renew no_faults k idle max_age now' now'' d = (q, d')" "y = Seen q"
      using assms(6) Slide by (auto simp: sql_store_def map_prod_def split: prod.splits)
    show ?thesis using twin_renew [of now' used m d k idle max_age p m' q d'] now assms(3) Slide p q by simp
  next
    case (Visit life secure req r)
    obtain p where p: "lookup_session (mem_store ttl) no_faults (normalized life) secure req r m = (p, m')" "x = Visited p"
      using assms(5) Visit by (auto simp: map_prod_def split: prod.splits)
    obtain q where q: "lookup_session (sql_store ttl) no_faults (normalized life) secure req r d = (q, d')" "y = Visited q"
      using assms(6) Visit by (auto simp: map_prod_def split: prod.splits)
    have "whole (life_idle (normalized life))" "whole (life_max (normalized life))"
      using assms(3) Visit by (auto simp: normalized_def whole_def)
    then show ?thesis using twin_lookup [OF _ _ _ _ _ _ _ p(1) q(1)] now assms(3) Visit p(2) q(2) by simp
  next
    case (Logout k)
    then show ?thesis using twin_drops [OF assms(1), of k] assms(5,6)
      by (auto simp: mem_store_def sql_store_def mem_delete_def sql_delete_def no_faults_simp)
  next
    case (Directory ext now')
    then show ?thesis using twin_active [of now' used m d ext] now assms(5,6)
      by (auto simp: mem_store_def sql_store_def)
  qed
qed

lemma twin_run:
  assumes "twin t used m d" "steady ttl t used as m" "whole ttl"
  shows "fst (session_run (sql_store ttl) (map (Pair no_faults) as) d) =
    fst (session_run (mem_store ttl) (map (Pair no_faults) as) m)"
  using assms
proof (induction as arbitrary: t used m d)
  case (Cons a as)
  obtain x m' where x: "session_step (mem_store ttl) no_faults a m = (x, m')" by fastforce
  obtain y d' where y: "session_step (sql_store ttl) no_faults a d = (y, d')" by fastforce
  have "y = x \<and> twin (act_time t a) (act_mints a @ used) m' d'"
    using twin_step [OF Cons.prems(1) _ _ Cons.prems(3) x y] Cons.prems(2) by simp
  then show ?case using Cons.IH [of "act_time t a" "act_mints a @ used" m' d'] Cons.prems(2,3) x y
    by (simp add: case_prod_beta)
qed simp

section \<open>The two stores agree\<close>

definition expiry_day :: "duration \<Rightarrow> (faults \<times> session_act) list" where
  "expiry_day ttl =
     [(no_faults, Login (Extension ''1001'') ''pw'' [] (Inr [1, 2, 3]) 0), (no_faults, Fetch (Token ''AQID'') ttl)]"

text \<open>
  C22. The durable store is the in-memory store: over every run of sign-ins, lookups,
  renewals, requests, logouts and listings in which no statement fails, tokens are fresh,
  lifetimes and the instants of sign-ins and renewals are whole milliseconds, the clock
  does not run backwards and nothing is looked up at the very instant it expires, all
  answers of the two stores are equal, cookies and listings included. At the instant of
  expiry itself they differ: the map still answers the session, the table drops it.
\<close>

theorem sessions_agree:
  assumes "steady ttl t [] as fmempty" "whole ttl"
  shows "fst (session_run (sql_store ttl) (map (Pair no_faults) as) fmempty) =
      fst (session_run (mem_store ttl) (map (Pair no_faults) as) fmempty) \<and>
    fst (session_run (sql_store ttl) (expiry_day ttl) fmempty) \<noteq> fst (session_run (mem_store ttl) (expiry_day ttl) fmempty)"
proof -
  have "twin t [] fmempty fmempty" by (simp add: twin_def agree_def sql_view_def sql_ok_def)
  moreover have "must_parse_extension ''1001'' = Inr (Extension ''1001'')" by code_simp
  then have "fst (session_run (sql_store ttl) (expiry_day ttl) fmempty) \<noteq> fst (session_run (mem_store ttl) (expiry_day ttl) fmempty)"
    using whole_milli [OF assms(2)]
    by (simp add: expiry_day_def mem_store_def sql_store_def mem_create_def sql_create_def make_session_def mint_token_def
        mem_get_def sql_get_def scan_session_def session_row_of_def no_faults_simp Let_def sql_sweep_def mem_gc_def url64_def)
  ultimately show ?thesis using twin_run [OF _ assms] by blast
qed

theorem sessions_agree_witness:
  "steady (60 * second) 0 [] (map snd sample_visit) fmempty \<and>
   fst (session_run (sql_store (60 * second)) sample_visit fmempty) =
     [Minted (Inr (Token ''AQID'')),
      Visited (Inr (Some sample_session, Some \<lparr>ck_value = ''AQID'', ck_max_age = 60, ck_secure = True\<rparr>)),
      Dropped, Seen (Inr None)]"
proof -
  have "valid_extension (Extension ''1001'')" by code_simp
  then have s: "steady (60 * second) 0 [] (map snd sample_visit) fmempty"
    by (simp add: sample_visit_def mem_store_def mem_create_def mem_get_def mem_renew_def mem_delete_def off_expiry_def
        make_session_def mint_token_def url64_def mem_gc_def lookup_session_def token_from_request_def normalized_def
        renew_due_def half_of_def second_def Let_def whole_def)
  have "whole (60 * second)" by (simp add: whole_def second_def)
  note sessions_agree [OF s this, THEN conjunct1]
  moreover have "map (Pair no_faults) (map snd sample_visit) = sample_visit" by (simp add: sample_visit_def)
  ultimately show ?thesis using s sample_visit_run by simp
qed

end
