(* ===== verification/Migrations.thy ===== *)
theory Migrations
  imports Prelude
begin

text \<open>
  The schema ladder of \<^verbatim>\<open>internal/store/db.go\<close>: the ordered migrations as data, one step as a
  transaction that stamps its version, and the walk over the pending steps. A statement is
  a small term whose meaning is SQLite's with \<^verbatim>\<open>foreign_keys\<close> on (as \<^verbatim>\<open>Open\<close> sets it): dropping
  a table first deletes its rows, which cascades to the rows that refer to them. Columns of
  a table carry no types; uniqueness of copied rows holds because it held in their source.
\<close>

section \<open>Databases and statements\<close>

datatype cell = Text string | Num int

type_synonym row = "string \<Rightarrow> cell option"

text \<open>A reference is a column, the table it points to and the column there; all cascade.\<close>

type_synonym ref = "string \<times> string \<times> string"

record table =
  tb_columns :: "string list"
  tb_refs :: "ref list"
  tb_rows :: "row list"

type_synonym tables = "(string \<times> table) list"

record database =
  db_tables :: tables
  db_version :: "int option"

datatype ddl =
    Create_Table string "string list" "ref list"
  | Create_Strict string "string list" "ref list"
  | Create_Index string
  | Add_Column string string cell
  | Insert_Select string string "(string \<times> (string + cell)) list"
  | Drop_Table string
  | Rename_Table string string

datatype sql_error = Duplicate_Column | Other_Error

definition empty_table :: "string list \<Rightarrow> ref list \<Rightarrow> table" where
  "empty_table cols refs = \<lparr>tb_columns = cols, tb_refs = refs, tb_rows = []\<rparr>"

definition set_rows :: "string \<Rightarrow> (row list \<Rightarrow> row list) \<Rightarrow> tables \<Rightarrow> tables" where
  "set_rows t f ts = map (\<lambda>(n, tb). (n, if n = t then tb\<lparr>tb_rows := f (tb_rows tb)\<rparr> else tb)) ts"

text \<open>Whether a row refers through \<open>col\<close> to one of the deleted rows.\<close>

definition orphaned :: "string \<Rightarrow> string \<Rightarrow> row list \<Rightarrow> row \<Rightarrow> bool" where
  "orphaned col pcol gone r \<longleftrightarrow> r col \<noteq> None \<and> (\<exists>g \<in> set gone. r col = g pcol)"

text \<open>\<open>ON DELETE CASCADE\<close>, down chains of at most \<open>n\<close> references.\<close>

fun cascade :: "nat \<Rightarrow> string \<Rightarrow> row list \<Rightarrow> tables \<Rightarrow> tables" where
  "cascade 0 parent gone ts = ts"
| "cascade (Suc n) parent gone ts =
     fold (\<lambda>(child, tb) ts.
         fold (\<lambda>(col, p, pcol) ts.
             if p = parent then
               let doomed = filter (orphaned col pcol gone) (case map_of ts child of None \<Rightarrow> [] | Some c \<Rightarrow> tb_rows c) in
               cascade n child doomed (set_rows child (filter (\<lambda>r. \<not> orphaned col pcol gone r)) ts)
             else ts)
           (tb_refs tb) ts)
       ts ts"

definition select_row :: "(string \<times> (string + cell)) list \<Rightarrow> row \<Rightarrow> row" where
  "select_row cols r c =
     (case map_of cols c of None \<Rightarrow> None | Some (Inl src) \<Rightarrow> r src | Some (Inr v) \<Rightarrow> Some v)"

fun exec_ddl :: "ddl \<Rightarrow> tables \<Rightarrow> sql_error + tables" where
  "exec_ddl (Create_Table t cols refs) ts =
     Inr (if map_of ts t = None then ts @ [(t, empty_table cols refs)] else ts)"
| "exec_ddl (Create_Strict t cols refs) ts =
     (if map_of ts t = None then Inr (ts @ [(t, empty_table cols refs)]) else Inl Other_Error)"
| "exec_ddl (Create_Index t) ts = (if map_of ts t = None then Inl Other_Error else Inr ts)"
| "exec_ddl (Add_Column t col v) ts =
     (case map_of ts t of
        None \<Rightarrow> Inl Other_Error
      | Some tb \<Rightarrow>
          if col \<in> set (tb_columns tb) then Inl Duplicate_Column
          else Inr (AList.update t (tb\<lparr>tb_columns := tb_columns tb @ [col],
                                      tb_rows := map (\<lambda>r. r(col \<mapsto> v)) (tb_rows tb)\<rparr>) ts))"
| "exec_ddl (Insert_Select t src cols) ts =
     (case (map_of ts t, map_of ts src) of
        (Some tb, Some from) \<Rightarrow>
          Inr (AList.update t (tb\<lparr>tb_rows := tb_rows tb @ map (select_row cols) (tb_rows from)\<rparr>) ts)
      | _ \<Rightarrow> Inl Other_Error)"
| "exec_ddl (Drop_Table t) ts =
     (case map_of ts t of
        None \<Rightarrow> Inl Other_Error
      | Some tb \<Rightarrow> Inr (AList.delete t (cascade (length ts) t (tb_rows tb) (set_rows t (\<lambda>_. []) ts))))"
| "exec_ddl (Rename_Table t t') ts =
     (if map_of ts t = None \<or> map_of ts t' \<noteq> None then Inl Other_Error
      else Inr (map (\<lambda>(n, tb). (if n = t then t' else n,
             tb\<lparr>tb_refs := map (\<lambda>(col, p, pcol). (col, if p = t then t' else p, pcol)) (tb_refs tb)\<rparr>)) ts))"

section \<open>The ladder\<close>

record migration =
  mig_version :: int
  mig_tolerant :: bool
  mig_stmts :: "ddl list"

definition schema_version :: int where "schema_version = 5"

definition thread_columns :: "string list" where
  "thread_columns = [''id'', ''owner'', ''remote'', ''last_activity_at'', ''unread'']"

definition message_columns :: "string list" where
  "message_columns =
     [''id'', ''thread_id'', ''owner'', ''remote'', ''direction'', ''channel'', ''body'', ''status'', ''provider_ref'',
      ''failure_kind'', ''failure_detail'', ''created_at'']"

definition thread_v5_columns :: "string list" where
  "thread_v5_columns =
     [''id'', ''owner'', ''network'', ''remote'', ''last_activity_at'', ''unread'', ''pinned'', ''archived'', ''muted'']"

definition migration_v1 :: migration where
  "migration_v1 =
     \<lparr>mig_version = 1, mig_tolerant = True,
      mig_stmts =
        [Create_Table ''threads'' thread_columns [],
         Create_Table ''messages'' message_columns [(''thread_id'', ''threads'', ''id'')],
         Create_Index ''messages'', Create_Index ''messages'',
         Create_Table ''attachments'' [''id'', ''message_id'', ''name'', ''mime_type'', ''size_bytes'', ''path'']
           [(''message_id'', ''messages'', ''id'')],
         Create_Table ''fax_jobs'' [''id'', ''owner'', ''remote'', ''direction'', ''status'', ''pages'', ''document_path'',
           ''provider_ref'', ''error'', ''created_at'', ''updated_at''] [],
         Create_Index ''fax_jobs'', Create_Index ''fax_jobs'',
         Create_Table ''contacts'' [''id'', ''owner'', ''name'', ''phone'', ''created_at''] [],
         Add_Column ''messages'' ''failure_kind'' (Text []),
         Add_Column ''messages'' ''failure_detail'' (Text [])]\<rparr>"

definition migration_v2 :: migration where
  "migration_v2 =
     \<lparr>mig_version = 2, mig_tolerant = False,
      mig_stmts =
        [Add_Column ''threads'' ''pinned'' (Num 0), Add_Column ''threads'' ''archived'' (Num 0),
         Add_Column ''threads'' ''muted'' (Num 0),
         Create_Table ''snippets'' [''id'', ''owner'', ''body'', ''quick'', ''created_at''] [],
         Create_Index ''snippets'']\<rparr>"

definition migration_v3 :: migration where
  "migration_v3 =
     \<lparr>mig_version = 3, mig_tolerant = False,
      mig_stmts =
        [Create_Table ''call_transcripts''
           [''id'', ''owner'', ''call_id'', ''direction'', ''remote'', ''started_at'', ''text'', ''created_at''] [],
         Create_Index ''call_transcripts'', Create_Index ''call_transcripts'']\<rparr>"

definition migration_v4 :: migration where
  "migration_v4 =
     \<lparr>mig_version = 4, mig_tolerant = False, mig_stmts = [Create_Table ''app_flags'' [''key'', ''value''] []]\<rparr>"

definition widen_columns :: "(string \<times> (string + cell)) list" where
  "widen_columns =
     [(''id'', Inl ''id''), (''owner'', Inl ''owner''), (''network'', Inr (Text ''sms'')), (''remote'', Inl ''remote''),
      (''last_activity_at'', Inl ''last_activity_at''), (''unread'', Inl ''unread''), (''pinned'', Inl ''pinned''),
      (''archived'', Inl ''archived''), (''muted'', Inl ''muted'')]"

definition migration_v5 :: migration where
  "migration_v5 =
     \<lparr>mig_version = 5, mig_tolerant = False,
      mig_stmts =
        [Add_Column ''messages'' ''network'' (Text ''sms''),
         Create_Strict ''threads_v5'' thread_v5_columns [],
         Insert_Select ''threads_v5'' ''threads'' widen_columns,
         Drop_Table ''threads'',
         Rename_Table ''threads_v5'' ''threads'']\<rparr>"

definition migrations :: "migration list" where
  "migrations = [migration_v1, migration_v2, migration_v3, migration_v4, migration_v5]"

section \<open>Walking it\<close>

text \<open>
  Whether statement \<open>i\<close> of step \<open>v\<close> fails for a reason outside the model: 0 is the begin, then
  the statements from 1, then clearing the version, stamping it and the commit. Step 0 is
  the preamble that creates and reads the version table.
\<close>

type_synonym step_faults = "int \<Rightarrow> nat \<Rightarrow> bool"

definition migrate_error :: err where
  "migrate_error = Coded Infrastructure ''store.migrate''"

fun run_stmts :: "step_faults \<Rightarrow> int \<Rightarrow> bool \<Rightarrow> nat \<Rightarrow> ddl list \<Rightarrow> tables \<Rightarrow> err + tables" where
  "run_stmts fl v tolerant i [] ts = Inr ts"
| "run_stmts fl v tolerant i (s # ss) ts =
     (if fl v i then Inl migrate_error
      else
        case exec_ddl s ts of
          Inl e \<Rightarrow>
            if tolerant \<and> e = Duplicate_Column then run_stmts fl v tolerant (Suc i) ss ts else Inl migrate_error
        | Inr ts' \<Rightarrow> run_stmts fl v tolerant (Suc i) ss ts')"

definition apply_migration :: "step_faults \<Rightarrow> migration \<Rightarrow> database \<Rightarrow> (err + unit) \<times> database" where
  "apply_migration fl m db =
     (let v = mig_version m; n = length (mig_stmts m) in
      if fl v 0 then (Inl migrate_error, db)
      else
        case run_stmts fl v (mig_tolerant m) 1 (mig_stmts m) (db_tables db) of
          Inl e \<Rightarrow> (Inl e, db)
        | Inr ts \<Rightarrow>
            if fl v (n + 1) \<or> fl v (n + 2) \<or> fl v (n + 3) then (Inl migrate_error, db)
            else (Inr (), db\<lparr>db_tables := ts, db_version := Some v\<rparr>))"

fun walk_steps :: "step_faults \<Rightarrow> int \<Rightarrow> migration list \<Rightarrow> database \<Rightarrow> (err + unit) \<times> database" where
  "walk_steps fl current [] db = (Inr (), db)"
| "walk_steps fl current (m # ms) db =
     (if mig_version m \<le> current then walk_steps fl current ms db
      else
        case apply_migration fl m db of
          (Inl e, db') \<Rightarrow> (Inl e, db')
        | (Inr _, db') \<Rightarrow> walk_steps fl current ms db')"

definition current_version :: "database \<Rightarrow> int" where
  "current_version db = (case db_version db of None \<Rightarrow> 0 | Some v \<Rightarrow> v)"

definition migrate :: "step_faults \<Rightarrow> database \<Rightarrow> (err + unit) \<times> database" where
  "migrate fl db =
     (if fl 0 0 \<or> fl 0 1 then (Inl migrate_error, db)
      else walk_steps fl (current_version db) migrations db)"

definition no_step_faults :: step_faults where
  "no_step_faults v i = False"

text \<open>A boot is one \<open>migrate\<close>; a service that fails to boot is started again.\<close>

fun boots :: "step_faults list \<Rightarrow> database \<Rightarrow> database" where
  "boots [] db = db"
| "boots (fl # fls) db = boots fls (snd (migrate fl db))"

section \<open>Interrupted boots\<close>

lemma run_stmts_faults:
  "run_stmts fl v tolerant i ss ts = run_stmts no_step_faults v tolerant i ss ts \<or>
   run_stmts fl v tolerant i ss ts = Inl migrate_error"
proof (induction ss arbitrary: i ts)
  case (Cons s ss)
  show ?case
  proof (cases "exec_ddl s ts")
    case (Inl e)
    then show ?thesis using Cons.IH [of "Suc i" ts] by (auto simp: no_step_faults_def)
  next
    case (Inr ts')
    then show ?thesis using Cons.IH [of "Suc i" ts'] by (auto simp: no_step_faults_def)
  qed
qed simp

lemma apply_migration_faults:
  "apply_migration fl m db = apply_migration no_step_faults m db \<or> apply_migration fl m db = (Inl migrate_error, db)"
  using run_stmts_faults [of fl "mig_version m" "mig_tolerant m" 1 "mig_stmts m" "db_tables db"]
  by (auto simp: apply_migration_def Let_def no_step_faults_def split: sum.splits)

lemma apply_migration_result:
  "(case apply_migration fl m db of (Inl e, db') \<Rightarrow> db' = db | (Inr _, db') \<Rightarrow> db_version db' = Some (mig_version m))"
  by (auto simp: apply_migration_def Let_def split: sum.splits)

definition above :: "int \<Rightarrow> migration list \<Rightarrow> bool" where
  "above c ms \<longleftrightarrow> (\<forall>m \<in> set ms. c < mig_version m)"

lemma walk_above: "above c ms \<Longrightarrow> above c' ms \<Longrightarrow> walk_steps fl c ms db = walk_steps fl c' ms db"
  by (induction ms arbitrary: db) (auto simp: above_def split: prod.splits sum.splits)

lemma walk_pending: "walk_steps fl c ms db = walk_steps fl c (filter (\<lambda>m. c < mig_version m) ms) db"
  by (induction ms arbitrary: db) (auto split: prod.splits sum.splits)

lemma walk_resumes:
  assumes "sorted_wrt (\<lambda>a b. mig_version a < mig_version b) ms" "above (current_version db) ms"
    and "db1 = snd (walk_steps fl (current_version db) ms db)"
  shows "walk_steps no_step_faults (current_version db1) ms db1 = walk_steps no_step_faults (current_version db) ms db \<and>
    current_version db \<le> current_version db1"
  using assms
proof (induction ms arbitrary: db)
  case (Cons m ms)
  show ?case
  proof (cases "\<exists>db'. apply_migration fl m db = (Inr (), db')")
    case False
    then have "db1 = db" using Cons.prems(2,3) apply_migration_result [where fl = fl and m = m and db = db]
      by (auto simp: above_def split: prod.splits sum.splits)
    then show ?thesis by simp
  next
    case True
    then obtain db' where fl: "apply_migration fl m db = (Inr (), db')" by blast
    then have no: "apply_migration no_step_faults m db = (Inr (), db')" using apply_migration_faults [of fl m db] by auto
    have v: "current_version db' = mig_version m" using apply_migration_result [where fl = fl and m = m and db = db] fl by (simp add: current_version_def)
    have up: "current_version db < mig_version m" "above (mig_version m) ms" "above (current_version db) ms"
      using Cons.prems(1,2) by (auto simp: above_def)
    then have "db1 = snd (walk_steps fl (mig_version m) ms db')"
      using Cons.prems(3) fl walk_above [OF up(3,2)] by simp
    then have ih: "walk_steps no_step_faults (current_version db1) ms db1 = walk_steps no_step_faults (mig_version m) ms db'"
      "mig_version m \<le> current_version db1"
      using Cons.IH [of db'] Cons.prems(1) up v by simp_all
    then show ?thesis using no up walk_above [OF up(3,2)] by simp
  qed
qed simp

lemma migrations_ascend: "sorted_wrt (\<lambda>a b. mig_version a < mig_version b) migrations"
  by (simp add: migrations_def migration_v1_def migration_v2_def migration_v3_def migration_v4_def migration_v5_def)

lemma migrate_resumes_once: "migrate no_step_faults (snd (migrate fl db)) = migrate no_step_faults db"
proof (cases "fl 0 0 \<or> fl 0 1")
  case True
  then show ?thesis by (simp add: migrate_def)
next
  case False
  let ?c = "current_version db"
  let ?p = "filter (\<lambda>m. ?c < mig_version m) migrations"
  let ?d = "snd (walk_steps fl ?c ?p db)"
  have d: "snd (migrate fl db) = ?d" using False walk_pending by (simp add: migrate_def)
  have "sorted_wrt (\<lambda>a b. mig_version a < mig_version b) ?p" by (rule sorted_wrt_filter [OF migrations_ascend])
  moreover have "above ?c ?p" by (simp add: above_def)
  ultimately have r: "walk_steps no_step_faults (current_version ?d) ?p ?d = walk_steps no_step_faults ?c ?p db"
    "?c \<le> current_version ?d" using walk_resumes [OF _ _ refl] by blast+
  have "filter (\<lambda>m. current_version ?d < mig_version m) migrations =
      filter (\<lambda>m. current_version ?d < mig_version m) ?p"
    using r(2) by (auto intro: filter_cong)
  then have "walk_steps no_step_faults (current_version ?d) migrations ?d = walk_steps no_step_faults (current_version ?d) ?p ?d"
    using walk_pending by metis
  then show ?thesis unfolding d using r(1) walk_pending by (simp add: migrate_def no_step_faults_def)
qed

text \<open>
  C25. The ladder survives interrupted boots: however many boots fail at whatever
  statements of whatever steps, a boot in which nothing fails leaves the database that one
  undisturbed boot would have made of the original, with the same answer; in particular
  booting again changes nothing.
\<close>

theorem migrate_resumes: "migrate no_step_faults (boots fls db) = migrate no_step_faults db"
  by (induction fls arbitrary: db) (simp_all add: migrate_resumes_once)

section \<open>The fifth step\<close>

text \<open>The tables that the first four steps make, with rows.\<close>

definition v4_tables :: "row list \<Rightarrow> row list \<Rightarrow> row list \<Rightarrow> (string \<Rightarrow> row list) \<Rightarrow> tables" where
  "v4_tables T M A R =
     [(''threads'', \<lparr>tb_columns = thread_columns @ [''pinned'', ''archived'', ''muted''], tb_refs = [], tb_rows = T\<rparr>),
      (''messages'', \<lparr>tb_columns = message_columns, tb_refs = [(''thread_id'', ''threads'', ''id'')], tb_rows = M\<rparr>),
      (''attachments'', \<lparr>tb_columns = [''id'', ''message_id'', ''name'', ''mime_type'', ''size_bytes'', ''path''],
         tb_refs = [(''message_id'', ''messages'', ''id'')], tb_rows = A\<rparr>),
      (''fax_jobs'', \<lparr>tb_columns = [''id'', ''owner'', ''remote'', ''direction'', ''status'', ''pages'', ''document_path'',
         ''provider_ref'', ''error'', ''created_at'', ''updated_at''], tb_refs = [], tb_rows = R ''fax_jobs''\<rparr>),
      (''contacts'', \<lparr>tb_columns = [''id'', ''owner'', ''name'', ''phone'', ''created_at''], tb_refs = [], tb_rows = R ''contacts''\<rparr>),
      (''snippets'', \<lparr>tb_columns = [''id'', ''owner'', ''body'', ''quick'', ''created_at''], tb_refs = [], tb_rows = R ''snippets''\<rparr>),
      (''call_transcripts'', \<lparr>tb_columns = [''id'', ''owner'', ''call_id'', ''direction'', ''remote'', ''started_at'', ''text'', ''created_at''],
         tb_refs = [], tb_rows = R ''call_transcripts''\<rparr>),
      (''app_flags'', \<lparr>tb_columns = [''key'', ''value''], tb_refs = [], tb_rows = R ''app_flags''\<rparr>)]"

definition fresh_database :: database where
  "fresh_database = \<lparr>db_tables = [], db_version = None\<rparr>"

lemma ladder_v4:
  "walk_steps no_step_faults 0 [migration_v1, migration_v2, migration_v3, migration_v4] fresh_database =
     (Inr (), \<lparr>db_tables = v4_tables [] [] [] (\<lambda>_. []), db_version = Some 4\<rparr>)"
  by (simp add: apply_migration_def migration_v1_def migration_v2_def migration_v3_def migration_v4_def Let_def
      no_step_faults_def empty_table_def thread_columns_def message_columns_def fresh_database_def v4_tables_def)

definition rows_of :: "string \<Rightarrow> database \<Rightarrow> row list" where
  "rows_of t db = (case map_of (db_tables db) t of None \<Rightarrow> [] | Some tb \<Rightarrow> tb_rows tb)"

lemma orphaned_all:
  assumes "\<forall>r \<in> set rows. orphaned col pcol gone r"
  shows "filter (orphaned col pcol gone) rows = rows" "filter (\<lambda>r. \<not> orphaned col pcol gone r) rows = []"
  using assms by (auto simp: filter_empty_conv intro: filter_True)

text \<open>The tables between the steps: with the widened messages, and with the new table.\<close>

definition networked :: "row list \<Rightarrow> row list \<Rightarrow> row list \<Rightarrow> (string \<Rightarrow> row list) \<Rightarrow> tables" where
  "networked T M A R =
     AList.update ''messages'' \<lparr>tb_columns = message_columns @ [''network''], tb_refs = [(''thread_id'', ''threads'', ''id'')], tb_rows = M\<rparr>
       (v4_tables T [] A R)"

definition v5_tables :: "row list \<Rightarrow> row list \<Rightarrow> row list \<Rightarrow> row list \<Rightarrow> (string \<Rightarrow> row list) \<Rightarrow> tables" where
  "v5_tables T T' M A R =
     networked T M A R @ [(''threads_v5'', \<lparr>tb_columns = thread_v5_columns, tb_refs = [], tb_rows = T'\<rparr>)]"

lemma v5_add:
  "exec_ddl (Add_Column ''messages'' ''network'' (Text ''sms'')) (v4_tables T M A R) =
     Inr (networked T (map (\<lambda>r. r(''network'' \<mapsto> Text ''sms'')) M) A R)"
  by (simp add: v4_tables_def networked_def message_columns_def)

lemma v5_create:
  "exec_ddl (Create_Strict ''threads_v5'' thread_v5_columns []) (networked T M A R) = Inr (v5_tables T [] M A R)"
  by (simp add: v4_tables_def networked_def v5_tables_def empty_table_def)

lemma v5_copy:
  "exec_ddl (Insert_Select ''threads_v5'' ''threads'' widen_columns) (v5_tables T [] M A R) =
     Inr (v5_tables T (map (select_row widen_columns) T) M A R)"
  by (simp add: v4_tables_def networked_def v5_tables_def)

lemma v5_drop:
  assumes "\<forall>m \<in> set M. orphaned ''thread_id'' ''id'' T m" "\<forall>a \<in> set A. orphaned ''message_id'' ''id'' M a"
  shows "exec_ddl (Drop_Table ''threads'') (v5_tables T T' M A R) =
    Inr (AList.delete ''threads'' (v5_tables [] T' [] [] R))"
  using orphaned_all [OF assms(1)] orphaned_all [OF assms(2)]
  by (simp add: v5_tables_def networked_def v4_tables_def set_rows_def eval_nat_numeral)

lemma v5_rename:
  "exec_ddl (Rename_Table ''threads_v5'' ''threads'') (AList.delete ''threads'' (v5_tables [] T' [] [] R)) = Inr ts \<Longrightarrow>
     map_of ts ''threads'' = Some \<lparr>tb_columns = thread_v5_columns, tb_refs = [], tb_rows = T'\<rparr> \<and>
     map_option tb_rows (map_of ts ''messages'') = Some [] \<and> map_option tb_rows (map_of ts ''attachments'') = Some []"
  by (auto simp: v5_tables_def networked_def v4_tables_def)

lemma v5_renames:
  "\<exists>ts. exec_ddl (Rename_Table ''threads_v5'' ''threads'') (AList.delete ''threads'' (v5_tables [] T' [] [] R)) = Inr ts"
  by (simp add: v5_tables_def networked_def v4_tables_def)

text \<open>
  C23. The fifth step loses every message: on any database as the first four steps make it,
  whatever its threads, messages and attachments are, as long as the references that the
  schema enforces hold, a boot in which nothing fails answers success and stamps version 5,
  keeps every thread in its widened form, and leaves no message and no attachment row,
  because dropping the old threads table deletes its rows and the deletion cascades.
\<close>

theorem migration_v5_cascades:
  assumes "\<forall>m \<in> set M. orphaned ''thread_id'' ''id'' T m" "\<forall>a \<in> set A. orphaned ''message_id'' ''id'' M a"
  shows "\<exists>db'. migrate no_step_faults \<lparr>db_tables = v4_tables T M A R, db_version = Some 4\<rparr> = (Inr (), db') \<and>
    db_version db' = Some schema_version \<and> rows_of ''threads'' db' = map (select_row widen_columns) T \<and>
    rows_of ''messages'' db' = [] \<and> rows_of ''attachments'' db' = []"
proof -
  let ?M = "map (\<lambda>r. r(''network'' \<mapsto> Text ''sms'')) M" and ?T = "map (select_row widen_columns) T"
  obtain ts where ts: "exec_ddl (Rename_Table ''threads_v5'' ''threads'') (AList.delete ''threads'' (v5_tables [] ?T [] [] R)) = Inr ts"
    using v5_renames by blast
  have "\<forall>m \<in> set ?M. orphaned ''thread_id'' ''id'' T m" "\<forall>a \<in> set A. orphaned ''message_id'' ''id'' ?M a"
    using assms by (auto simp: orphaned_def)
  note drop = v5_drop [OF this]
  have "run_stmts no_step_faults 5 False 1 (mig_stmts migration_v5) (v4_tables T M A R) = Inr ts"
    by (simp add: migration_v5_def no_step_faults_def v5_add v5_create v5_copy drop ts
        del: exec_ddl.simps map_map fun_upd_apply)
  then have "migrate no_step_faults \<lparr>db_tables = v4_tables T M A R, db_version = Some 4\<rparr> =
      (Inr (), \<lparr>db_tables = ts, db_version = Some 5\<rparr>)"
    by (simp add: migrate_def current_version_def migrations_def apply_migration_def Let_def no_step_faults_def
        migration_v1_def migration_v2_def migration_v3_def migration_v4_def migration_v5_def)
  then show ?thesis using v5_rename [OF ts] by (auto simp: rows_of_def schema_version_def)
qed

theorem migration_v5_cascades_witness:
  "\<exists>db'. migrate no_step_faults
      \<lparr>db_tables = v4_tables [[''id'' \<mapsto> Text ''t1'']] [[''id'' \<mapsto> Text ''m1'', ''thread_id'' \<mapsto> Text ''t1'']]
         [[''id'' \<mapsto> Text ''a1'', ''message_id'' \<mapsto> Text ''m1'']] (\<lambda>_. []), db_version = Some 4\<rparr> = (Inr (), db') \<and>
    length (rows_of ''threads'' db') = 1 \<and> rows_of ''messages'' db' = []"
proof -
  have "\<forall>m \<in> set [[''id'' \<mapsto> Text ''m1'', ''thread_id'' \<mapsto> Text ''t1'']]. orphaned ''thread_id'' ''id'' [[''id'' \<mapsto> Text ''t1'']] m"
    "\<forall>a \<in> set [[''id'' \<mapsto> Text ''a1'', ''message_id'' \<mapsto> Text ''m1'']].
       orphaned ''message_id'' ''id'' [[''id'' \<mapsto> Text ''m1'', ''thread_id'' \<mapsto> Text ''t1'']] a"
    by (simp_all add: orphaned_def)
  from migration_v5_cascades [OF this, of "\<lambda>_. []"] show ?thesis by (elim exE conjE) (intro exI conjI; simp)
qed

end
