(* ===== verification/Retention.thy ===== *)
theory Retention
  imports Sweep Fax_Outcomes Transcripts
begin

text \<open>
  The daily retention pass of \<^verbatim>\<open>internal/retention/retention.go\<close>: the sweep of the message
  store, then of the fax jobs and the call transcripts, then the unlinking of the files that
  the swept rows named. The world has the three stores and the files.
\<close>

record ('f, 't) archive =
  ar_store :: store
  ar_faxes :: 'f
  ar_transcripts :: 't
  ar_files :: files

record sweep_summary =
  sum_messages :: nat
  sum_faxes :: nat
  sum_threads :: nat
  sum_transcripts :: nat
  sum_blobs :: nat

text \<open>A corrupt path and a failing unlink are logged and skipped.\<close>

fun unlink_all :: "faults \<Rightarrow> string list \<Rightarrow> files \<Rightarrow> nat \<times> files" where
  "unlink_all fl [] fs = (0, fs)"
| "unlink_all fl (p # ps) fs =
     (case parse_rel_path p of
        Inl _ \<Rightarrow> unlink_all fl ps fs
      | Inr rel \<Rightarrow>
          (case blob_remove fl rel fs of
             (Inl _, fs') \<Rightarrow> unlink_all fl ps fs'
           | (Inr _, fs') \<Rightarrow> (case unlink_all fl ps fs' of (n, fs'') \<Rightarrow> (Suc n, fs''))))"

definition sweep_once ::
  "('f, string, fax_view) idem_engine \<Rightarrow> ('t, string, segment_view) capped_engine \<Rightarrow> faults \<Rightarrow> time \<Rightarrow>
     ('f, 't) archive \<Rightarrow> (sweep_summary \<times> ('f, 't) archive) option" where
  "sweep_once EF ET fl cutoff w =
     (case sweep fl cutoff (ar_store w) of
        ((res, Some e), st) \<Rightarrow>
          Some (\<lparr>sum_messages = 0, sum_faxes = 0, sum_threads = 0, sum_transcripts = 0, sum_blobs = 0\<rparr>,
            w\<lparr>ar_store := st\<rparr>)
      | ((res, None), st) \<Rightarrow>
          Option.bind (fax_sweep_before EF cutoff (ar_faxes w)) (\<lambda>(_, fax_paths, faxes, f).
          Option.bind (transcript_sweep_before ET cutoff (ar_transcripts w)) (\<lambda>(_, segments, t).
            let (blobs, fs) = unlink_all fl (swp_paths res @ fax_paths) (ar_files w) in
            Some (\<lparr>sum_messages = swp_messages res, sum_faxes = faxes, sum_threads = swp_threads res,
                    sum_transcripts = segments, sum_blobs = blobs\<rparr>,
              w\<lparr>ar_store := st, ar_faxes := f, ar_transcripts := t, ar_files := fs\<rparr>))))"

text \<open>\<open>Start\<close>: a window that is not positive never sweeps; a tick sweeps what is older.\<close>

definition retention_tick ::
  "('f, string, fax_view) idem_engine \<Rightarrow> ('t, string, segment_view) capped_engine \<Rightarrow> faults \<Rightarrow> duration \<Rightarrow> time \<Rightarrow>
     ('f, 't) archive \<Rightarrow> (sweep_summary option \<times> ('f, 't) archive) option" where
  "retention_tick EF ET fl kept_for now w =
     (if kept_for \<le> 0 then Some (None, w)
      else map_option (map_prod Some id) (sweep_once EF ET fl (now - kept_for) w))"

section \<open>What a pass does\<close>

lemma blob_remove_effect:
  "snd (blob_remove fl rel fs) p = fs p \<or> p = rel_string rel \<and> snd (blob_remove fl rel fs) p = None"
  by (auto simp: blob_remove_def split: option.splits)

lemma unlink_all_effect:
  "snd (unlink_all fl ps fs) p = fs p \<or>
   snd (unlink_all fl ps fs) p = None \<and> p \<in> set ps \<and> parse_rel_path p = Inr (Rel_Path p)"
proof (induction ps arbitrary: fs)
  case (Cons q ps)
  show ?case
  proof (cases "parse_rel_path q")
    case (Inl e)
    then show ?thesis using Cons.IH [of fs] by auto
  next
    case (Inr rel)
    then have rel: "rel = Rel_Path q" by (cases rel) (simp add: parse_rel_path_ok)
    obtain r fs' where rm: "blob_remove fl rel fs = (r, fs')" by fastforce
    then have "snd (unlink_all fl (q # ps) fs) = snd (unlink_all fl ps fs')"
      using Inr by (cases r) (auto split: prod.splits)
    then show ?thesis
      using Cons.IH [of fs'] blob_remove_effect [of fl rel fs p] rm rel Inr by (metis list.set_intros rel_path.sel snd_conv)
  qed
qed simp

lemma unlink_all_clean:
  "unlink_all no_faults ps fs =
     (length (filter (\<lambda>p. parse_rel_path p = Inr (Rel_Path p)) ps),
      \<lambda>p. if p \<in> set ps \<and> parse_rel_path p = Inr (Rel_Path p) then None else fs p)"
proof (induction ps arbitrary: fs)
  case (Cons p ps)
  show ?case
  proof (cases "parse_rel_path p")
    case (Inl e)
    then show ?thesis using Cons.IH by (auto simp: fun_eq_iff)
  next
    case (Inr rel)
    then have rel: "rel = Rel_Path p" by (cases rel) (simp add: parse_rel_path_ok)
    then have "unlink_all no_faults (p # ps) fs = (case unlink_all no_faults ps (fs(p := None)) of (n, fs'') \<Rightarrow> (Suc n, fs''))"
      using Inr blob_remove_gone [of rel fs] by (simp del: fun_upd_apply)
    then show ?thesis using Inr rel unfolding Cons.IH by (auto simp: fun_eq_iff)
  qed
qed simp

lemma shrunk:
  assumes "\<forall>k v. f k = Some v \<longrightarrow> g k = Some v \<or> g k = None \<and> P v \<and> Q v" "\<forall>k. f k = None \<longrightarrow> g k = None" "g i = Some v"
  shows "f i = Some v"
  using assms by (cases "f i") (simp, metis option.distinct(1) option.inject)

lemma kept:
  assumes "\<forall>k v. f k = Some v \<longrightarrow> g k = Some v \<or> g k = None \<and> P v \<and> Q v" "f i = Some v" "\<not> P v"
  shows "g i = Some v"
  using assms by blast

lemma lost:
  assumes "\<forall>k v. f k = Some v \<longrightarrow> g k = Some v \<or> g k = None \<and> P v \<and> Q v" "f i = Some v" "g i = None"
  shows "P v \<and> Q v"
proof -
  have "g i = Some v \<or> g i = None \<and> P v \<and> Q v" using assms(1,2) by blast
  then show ?thesis using assms(3) by simp
qed

lemma fax_sweep_effect:
  assumes laws: "idem_laws E view seen" and rows: "rows_ok fax_row_ok (view s)" and fin: "finite (dom (view s))"
  shows "\<exists>r paths n s'. fax_sweep_before E cutoff s = Some (r, paths, n, s') \<and>
    (\<forall>i v. view s' i = Some v \<longrightarrow> view s i = Some v) \<and>
    (\<forall>i v. view s i = Some v \<and> cutoff \<le> fxv_created v \<longrightarrow> view s' i = Some v) \<and>
    (\<forall>i v. view s i = Some v \<and> view s' i = None \<longrightarrow> fxv_path v \<in> set paths) \<and>
    (\<forall>p \<in> set paths. \<exists>i v. view s i = Some v \<and> fxv_created v < cutoff \<and> fxv_path v = p) \<and>
    (r = Inr () \<longrightarrow> (\<forall>i v. view s' i = Some v \<longleftrightarrow> view s i = Some v \<and> cutoff \<le> fxv_created v))"
proof -
  let ?q = "fax_expirable cutoff"
  have fin_q: "finite (matching (q_filter ?q) (view s))"
    by (rule finite_subset [OF _ fin]) (auto simp: matching_def)
  have early: "q_filter ?q = (\<lambda>v. fxv_created v < cutoff)" "0 < q_limit ?q"
    by (simp_all add: fax_expirable_def sweep_page_size_def)
  obtain r gone n s' where loop:
    "expunge_loop E ''readmodels.fax_sweep'' ''readmodels.fax_sweep'' ?q (\<lambda>vs. vs) fxv_id s = Some (r, gone, n, s')"
    "\<forall>k v. view s k = Some v \<longrightarrow> view s' k = Some v \<or> view s' k = None \<and> fxv_created v < cutoff \<and> v \<in> set gone"
    "\<forall>k. view s k = None \<longrightarrow> view s' k = None"
    "r = Inr () \<longrightarrow> (\<forall>k v. view s' k = Some v \<longleftrightarrow> view s k = Some v \<and> \<not> fxv_created v < cutoff) \<and>
       n = card (matching (\<lambda>v. fxv_created v < cutoff) (view s))"
    "\<forall>v \<in> set gone. fxv_created v < cutoff \<and> view s (fxv_id v) = Some v"
    using sweep_loop [OF idem_engine_laws [OF laws] fin_q fax_rows_keyed [OF rows] early(2),
        of "''readmodels.fax_sweep''" "''readmodels.fax_sweep''", unfolded early(1)] by (elim exE conjE) (rule that)
  let ?paths = "filter (\<lambda>p. p \<noteq> []) (map fxv_path gone)"
  have "fax_sweep_before E cutoff s = Some (r, ?paths, n, s')" by (simp add: fax_sweep_before_def loop(1))
  moreover have "view s i = Some v" if "view s' i = Some v" for i v
    using shrunk [OF loop(2,3) that] .
  moreover have "fxv_path v \<noteq> []" if "view s i = Some v" for i v
    using rows_okD [OF rows that] by (auto simp: fax_row_ok_def parse_rel_path_def)
  then have "fxv_path v \<in> set ?paths" if "view s i = Some v" "view s' i = None" for i v
    using lost [OF loop(2) that] that(1) by simp
  moreover have "view s' i = Some v" if "view s i = Some v" "cutoff \<le> fxv_created v" for i v
    using kept [OF loop(2) that(1)] that(2) by simp
  moreover have "\<forall>p \<in> set ?paths. \<exists>i v. view s i = Some v \<and> fxv_created v < cutoff \<and> fxv_path v = p"
    using loop(5) by auto
  moreover have "r = Inr () \<longrightarrow> (\<forall>i v. view s' i = Some v \<longleftrightarrow> view s i = Some v \<and> cutoff \<le> fxv_created v)"
    using loop(4) by (simp only: not_less) blast
  ultimately show ?thesis by (intro exI [of _ r] exI [of _ ?paths] exI [of _ n] exI [of _ s']) blast
qed

lemma transcript_sweep_effect:
  assumes laws: "engine_laws E view" and keys: "keyed sgv_id (view s)" and fin: "finite (dom (view s))"
  shows "\<exists>r n s'. transcript_sweep_before E cutoff s = Some (r, n, s') \<and>
    (\<forall>i v. view s' i = Some v \<longrightarrow> view s i = Some v) \<and>
    (\<forall>i v. view s i = Some v \<and> cutoff \<le> sgv_seq v \<longrightarrow> view s' i = Some v) \<and>
    (r = Inr () \<longrightarrow> (\<forall>i v. view s' i = Some v \<longleftrightarrow> view s i = Some v \<and> cutoff \<le> sgv_seq v))"
proof -
  let ?q = "segment_expirable cutoff"
  have fin_q: "finite (matching (q_filter ?q) (view s))"
    by (rule finite_subset [OF _ fin]) (auto simp: matching_def)
  have early: "q_filter ?q = (\<lambda>v. sgv_seq v < cutoff)" "0 < q_limit ?q"
    by (simp_all add: segment_expirable_def segment_page_def)
  obtain r gone n s' where loop:
    "expunge_loop E ''readmodels.transcript_sweep'' ''readmodels.transcript_trim'' ?q (\<lambda>vs. vs) sgv_id s = Some (r, gone, n, s')"
    "\<forall>k v. view s k = Some v \<longrightarrow> view s' k = Some v \<or> view s' k = None \<and> sgv_seq v < cutoff \<and> v \<in> set gone"
    "\<forall>k. view s k = None \<longrightarrow> view s' k = None"
    "r = Inr () \<longrightarrow> (\<forall>k v. view s' k = Some v \<longleftrightarrow> view s k = Some v \<and> \<not> sgv_seq v < cutoff) \<and>
       n = card (matching (\<lambda>v. sgv_seq v < cutoff) (view s))"
    using sweep_loop [OF laws fin_q keys early(2),
        of "''readmodels.transcript_sweep''" "''readmodels.transcript_trim''", unfolded early(1)] by (elim exE conjE) (rule that)
  have "transcript_sweep_before E cutoff s = Some (r, n, s')" by (simp add: transcript_sweep_before_def loop(1))
  moreover have "view s i = Some v" if "view s' i = Some v" for i v
    using shrunk [OF loop(2,3) that] .
  moreover have "view s' i = Some v" if "view s i = Some v" "cutoff \<le> sgv_seq v" for i v
    using kept [OF loop(2) that(1)] that(2) by simp
  moreover have "r = Inr () \<longrightarrow> (\<forall>i v. view s' i = Some v \<longleftrightarrow> view s i = Some v \<and> cutoff \<le> sgv_seq v)"
    using loop(4) by (simp only: not_less) blast
  ultimately show ?thesis by (intro exI [of _ r] exI [of _ n] exI [of _ s']) blast
qed

text \<open>The paths that the rows past the cutoff name.\<close>

definition doomed :: "time \<Rightarrow> store \<Rightarrow> (string \<Rightarrow> fax_view option) \<Rightarrow> string \<Rightarrow> bool" where
  "doomed cutoff st faxes p \<longleftrightarrow>
     (\<exists>a \<in> set (st_attachments st). att_path a = p \<and>
        (\<exists>m \<in> set (st_messages st). mr_id m = att_message a \<and> mr_created m < unix cutoff)) \<or>
     (\<exists>i v. faxes i = Some v \<and> fxv_created v < cutoff \<and> fxv_path v = p)"

lemma sweep_paths:
  assumes "sweep fl cutoff st = ((res, None), st')"
  shows "p \<in> set (swp_paths res) \<longleftrightarrow>
    (\<exists>a \<in> set (st_attachments st). att_path a = p \<and>
       (\<exists>m \<in> set (st_messages st). mr_id m = att_message a \<and> mr_created m < unix cutoff))"
  unfolding sweep_tables(4) [OF assms] by (simp add: expirable_def image_iff) metis

lemma sweep_young:
  "set (st_messages (snd (sweep fl cutoff st))) \<subseteq> set (st_messages st) \<and>
   (m \<in> set (st_messages st) \<longrightarrow> unix cutoff \<le> mr_created m \<longrightarrow> m \<in> set (st_messages (snd (sweep fl cutoff st))))"
  by (simp add: sweep_def Let_def delete_stale_empty) (auto simp: delete_messages_def delete_where_def expirable_def)

lemma sweep_clean: "snd (fst (sweep no_faults cutoff st)) = None"
  by (simp add: sweep_def no_faults_simp Let_def)

lemma fax_sweep_reliable: "reliable E \<Longrightarrow> fax_sweep_before E cutoff s = Some (r, paths, n, s') \<Longrightarrow> r = Inr ()"
  using expunge_loop_reliable by (fastforce simp: fax_sweep_before_def)

lemma transcript_sweep_reliable: "reliable E \<Longrightarrow> transcript_sweep_before E cutoff s = Some (r, n, s') \<Longrightarrow> r = Inr ()"
  using expunge_loop_reliable by (fastforce simp: transcript_sweep_before_def)

lemma pass_effect:
  assumes faxes: "idem_laws EF vf seen" "rows_ok fax_row_ok (vf (ar_faxes w))" "finite (dom (vf (ar_faxes w)))"
    and segments: "engine_laws ET vt" "keyed sgv_id (vt (ar_transcripts w))" "finite (dom (vt (ar_transcripts w)))"
  shows "\<exists>sum w'. sweep_once EF ET fl cutoff w = Some (sum, w') \<and>
    (\<forall>m \<in> set (st_messages (ar_store w)). unix cutoff \<le> mr_created m \<longrightarrow> m \<in> set (st_messages (ar_store w'))) \<and>
    set (st_messages (ar_store w')) \<subseteq> set (st_messages (ar_store w)) \<and>
    (\<forall>i v. vf (ar_faxes w') i = Some v \<longrightarrow> vf (ar_faxes w) i = Some v) \<and>
    (\<forall>i v. vf (ar_faxes w) i = Some v \<and> cutoff \<le> fxv_created v \<longrightarrow> vf (ar_faxes w') i = Some v) \<and>
    (\<forall>i v. vt (ar_transcripts w) i = Some v \<and> cutoff \<le> sgv_seq v \<longrightarrow> vt (ar_transcripts w') i = Some v) \<and>
    (\<forall>p. ar_files w' p = ar_files w p \<or> ar_files w' p = None \<and> doomed cutoff (ar_store w) (vf (ar_faxes w)) p) \<and>
    (fl = no_faults \<and> reliable EF \<and> reliable ET \<longrightarrow>
       st_messages (ar_store w') = filter (\<lambda>m. unix cutoff \<le> mr_created m) (st_messages (ar_store w)) \<and>
       (\<forall>i v. vf (ar_faxes w') i = Some v \<longleftrightarrow> vf (ar_faxes w) i = Some v \<and> cutoff \<le> fxv_created v) \<and>
       (\<forall>i v. vt (ar_transcripts w') i = Some v \<longleftrightarrow> vt (ar_transcripts w) i = Some v \<and> cutoff \<le> sgv_seq v) \<and>
       (\<forall>p. ar_files w' p =
          (if doomed cutoff (ar_store w) (vf (ar_faxes w)) p \<and> parse_rel_path p = Inr (Rel_Path p) then None else ar_files w p)))"
proof -
  obtain res x st where sw: "sweep fl cutoff (ar_store w) = ((res, x), st)" by (metis surj_pair)
  show ?thesis
  proof (cases x)
    case (Some e)
    then have "fl \<noteq> no_faults" using sweep_clean [of cutoff "ar_store w"] sw by auto
    then show ?thesis using sw Some sweep_young [of fl cutoff "ar_store w"] by (simp add: sweep_once_def)
  next
    case None
    note full = sw [unfolded None]
    obtain rf paths nf f where f: "fax_sweep_before EF cutoff (ar_faxes w) = Some (rf, paths, nf, f)"
      "\<forall>i v. vf f i = Some v \<longrightarrow> vf (ar_faxes w) i = Some v"
      "\<forall>i v. vf (ar_faxes w) i = Some v \<and> cutoff \<le> fxv_created v \<longrightarrow> vf f i = Some v"
      "\<forall>i v. vf (ar_faxes w) i = Some v \<and> vf f i = None \<longrightarrow> fxv_path v \<in> set paths"
      "\<forall>p \<in> set paths. \<exists>i v. vf (ar_faxes w) i = Some v \<and> fxv_created v < cutoff \<and> fxv_path v = p"
      "rf = Inr () \<longrightarrow> (\<forall>i v. vf f i = Some v \<longleftrightarrow> vf (ar_faxes w) i = Some v \<and> cutoff \<le> fxv_created v)"
      using fax_sweep_effect [OF faxes, of cutoff] by (elim exE conjE) (rule that)
    obtain rt nt t where t: "transcript_sweep_before ET cutoff (ar_transcripts w) = Some (rt, nt, t)"
      "\<forall>i v. vt t i = Some v \<longrightarrow> vt (ar_transcripts w) i = Some v"
      "\<forall>i v. vt (ar_transcripts w) i = Some v \<and> cutoff \<le> sgv_seq v \<longrightarrow> vt t i = Some v"
      "rt = Inr () \<longrightarrow> (\<forall>i v. vt t i = Some v \<longleftrightarrow> vt (ar_transcripts w) i = Some v \<and> cutoff \<le> sgv_seq v)"
      using transcript_sweep_effect [OF segments, of cutoff] by (elim exE conjE) (rule that)
    obtain blobs fs where fs: "unlink_all fl (swp_paths res @ paths) (ar_files w) = (blobs, fs)" by fastforce
    let ?w = "w\<lparr>ar_store := st, ar_faxes := f, ar_transcripts := t, ar_files := fs\<rparr>"
    let ?doomed = "doomed cutoff (ar_store w) (vf (ar_faxes w))"
    have run: "\<exists>sum. sweep_once EF ET fl cutoff w = Some (sum, ?w)"
      by (simp add: sweep_once_def full f(1) t(1) fs)
    have named: "?doomed p" if "p \<in> set (swp_paths res @ paths)" for p
      using that f(5) sweep_paths [OF full, of p] unfolding doomed_def by auto
    have files: "fs p = ar_files w p \<or> fs p = None \<and> ?doomed p" for p
      using unlink_all_effect [of fl "swp_paths res @ paths" "ar_files w" p] named fs by auto
    have young: "\<forall>m \<in> set (st_messages (ar_store w)). unix cutoff \<le> mr_created m \<longrightarrow> m \<in> set (st_messages st)"
      "set (st_messages st) \<subseteq> set (st_messages (ar_store w))"
      using sweep_young [of fl cutoff "ar_store w"] full by auto
    have clean: "st_messages st = filter (\<lambda>m. unix cutoff \<le> mr_created m) (st_messages (ar_store w)) \<and>
       (\<forall>i v. vf f i = Some v \<longleftrightarrow> vf (ar_faxes w) i = Some v \<and> cutoff \<le> fxv_created v) \<and>
       (\<forall>i v. vt t i = Some v \<longleftrightarrow> vt (ar_transcripts w) i = Some v \<and> cutoff \<le> sgv_seq v) \<and>
       (\<forall>p. fs p = (if ?doomed p \<and> parse_rel_path p = Inr (Rel_Path p) then None else ar_files w p))"
      if "fl = no_faults" "reliable EF" "reliable ET"
    proof -
      have "rf = Inr ()" "rt = Inr ()"
        using fax_sweep_reliable [OF that(2) f(1)] transcript_sweep_reliable [OF that(3) t(1)] by simp_all
      note left = f(6) [rule_format, OF this(1)] t(4) [rule_format, OF this(2)]
      have who: "p \<in> set (swp_paths res @ paths) \<longleftrightarrow> ?doomed p" for p
      proof
        assume "?doomed p"
        moreover have "p \<in> set paths" if v: "vf (ar_faxes w) i = Some v" "fxv_created v < cutoff" "fxv_path v = p" for i v
        proof -
          have "vf f i = None" using left(1) v f(2) by (metis not_le option.exhaust option.inject)
          then show ?thesis using f(4) v by blast
        qed
        ultimately show "p \<in> set (swp_paths res @ paths)" using sweep_paths [OF full, of p] unfolding doomed_def by auto
      qed (rule named)
      have "fs p = (if p \<in> set (swp_paths res @ paths) \<and> parse_rel_path p = Inr (Rel_Path p) then None else ar_files w p)" for p
        using fs unfolding that(1) unlink_all_clean by (simp only: prod.inject) (elim conjE, erule subst, rule refl)
      then show ?thesis unfolding who using left sweep_tables(1) [OF full] by (intro conjI allI)
    qed
    obtain sum where sum: "sweep_once EF ET fl cutoff w = Some (sum, ?w)" using run ..
    have at: "ar_store ?w = st" "ar_faxes ?w = f" "ar_transcripts ?w = t" "ar_files ?w = fs" by simp_all
    show ?thesis
    proof (rule exI [of _ sum], rule exI [of _ ?w], unfold at, intro conjI)
      show "\<forall>p. fs p = ar_files w p \<or> fs p = None \<and> ?doomed p" using files by blast
    qed (rule sum young f(2) f(3) t(3) | (rule impI, elim conjE, rule clean))+
  qed
qed

text \<open>
  A retention pass returns, whatever fails: it keeps every message, fax and call
  segment that is not past the cutoff, adds no row, and unlinks no file but those that rows past the
  cutoff name. When nothing fails, exactly the rows past the cutoff are gone and exactly the
  files they name are unlinked, whoever else names them.
\<close>

theorem retention_pass:
  assumes faxes: "idem_laws EF vf seen" "rows_ok fax_row_ok (vf (ar_faxes w))" "finite (dom (vf (ar_faxes w)))"
    and segments: "engine_laws ET vt" "keyed sgv_id (vt (ar_transcripts w))" "finite (dom (vt (ar_transcripts w)))"
  shows "\<exists>sum w'. sweep_once EF ET fl cutoff w = Some (sum, w') \<and>
    (\<forall>m \<in> set (st_messages (ar_store w)). unix cutoff \<le> mr_created m \<longrightarrow> m \<in> set (st_messages (ar_store w'))) \<and>
    set (st_messages (ar_store w')) \<subseteq> set (st_messages (ar_store w)) \<and>
    (\<forall>i v. vf (ar_faxes w') i = Some v \<longrightarrow> vf (ar_faxes w) i = Some v) \<and>
    (\<forall>i v. vf (ar_faxes w) i = Some v \<and> cutoff \<le> fxv_created v \<longrightarrow> vf (ar_faxes w') i = Some v) \<and>
    (\<forall>i v. vt (ar_transcripts w) i = Some v \<and> cutoff \<le> sgv_seq v \<longrightarrow> vt (ar_transcripts w') i = Some v) \<and>
    (\<forall>p. ar_files w' p = ar_files w p \<or> ar_files w' p = None \<and> doomed cutoff (ar_store w) (vf (ar_faxes w)) p) \<and>
    (fl = no_faults \<and> reliable EF \<and> reliable ET \<longrightarrow>
       st_messages (ar_store w') = filter (\<lambda>m. unix cutoff \<le> mr_created m) (st_messages (ar_store w)) \<and>
       (\<forall>i v. vf (ar_faxes w') i = Some v \<longleftrightarrow> vf (ar_faxes w) i = Some v \<and> cutoff \<le> fxv_created v) \<and>
       (\<forall>i v. vt (ar_transcripts w') i = Some v \<longleftrightarrow> vt (ar_transcripts w) i = Some v \<and> cutoff \<le> sgv_seq v) \<and>
       (\<forall>p. ar_files w' p =
          (if doomed cutoff (ar_store w) (vf (ar_faxes w)) p \<and> parse_rel_path p = Inr (Rel_Path p) then None else ar_files w p)))"
  by (rule pass_effect [OF assms])

section \<open>A resent fax and the pass\<close>

lemma submit_files: "fw_files (snd (submit F svc at job w)) = fw_files w"
  by (auto simp: submit_def drive_def drive_failed_def drive_accepted_def Let_def split: sum.splits prod.splits option.splits)

lemma resend_settles:
  assumes laws: "idem_laws E view seen" "idem_reliable E" and rows: "rows_ok fax_row_ok (view (fw_store u))"
    and row: "view (fw_store u) i = Some v" "fxv_owner v = ext_string owner" "fxv_direction v = Fax_Outbound"
      "fxv_status v = Fax_Failed" "fw_files u (fxv_path v) \<noteq> None"
    and fresh: "view (fw_store u) fid = None" "valid_id fid"
    and run: "resend_fax (engine_faxes E) svc no_faults at fid now owner i u = (res, u')"
  shows "\<exists>v'. fst res \<noteq> None \<and> view (fw_store u') = (view (fw_store u))(fid \<mapsto> v') \<and> fw_files u' = fw_files u \<and>
    fax_row_ok fid v' \<and> fxv_path v' = fxv_path v \<and> fxv_created v' = now \<and> fxv_owner v' = ext_string owner"
proof -
  let ?ok = "idem_laws E view seen \<and> rows_ok fax_row_ok (view (fw_store u)) \<and> idem_reliable E"
  have ok: ?ok and ok2: "idem_laws E view seen \<and> rows_ok fax_row_ok (view (fw_store u))" using laws rows by simp_all
  have v: "fax_row_ok i v" by (rule rows_okD [OF rows row(1)])
  obtain job where job: "to_job v = Inr job" "fax_fold job = v" using to_job_row [OF v] by blast
  have at_job: "job_direction job = Fax_Outbound" "job_status job = Fax_Failed" "job_path job = fxv_path v"
    "phone_string (job_remote job) = fxv_remote v"
    using row job(2) by (auto simp: fax_fold_def)
  have got: "fo_get (engine_faxes E) owner i (fw_store u) = Inr job"
    using reliable_get [OF laws] row(1,2) job(1) by (simp add: engine_faxes_def fax_get_def wrap_read_def)
  have path: "must (parse_rel_path (fxv_path v)) = Inr (Rel_Path (fxv_path v))"
    using v by (simp add: fax_row_ok_def must_def)
  obtain c where c: "blob_open no_faults (Rel_Path (fxv_path v)) (fw_files u) = Inr c"
    using row(5) by (auto simp: blob_open_def no_faults_simp)
  let ?job = "new_outbound_fax_job fid owner (job_remote job) (job_path job) now"
  have sub: "submit (engine_faxes E) svc at ?job u = (res, u')"
    using run by (simp add: resend_fax_def got at_job path c)
  have fields: "job_id ?job = fid" "job_status ?job = Fax_Queued" "job_ref ?job = []" "job_error ?job = []"
    by (simp_all add: new_outbound_fax_job_def)
  have valid: "valid_job ?job"
    using v fresh(2) row(2) at_job(3,4)
    by (auto simp: new_outbound_fax_job_def valid_job_def fax_row_ok_def fax_fold_def)
  obtain v' where v': "fst res \<noteq> None" "view (fw_store u') = (view (fw_store u))(fid \<mapsto> v')"
    "rows_ok fax_row_ok (view (fw_store u'))"
    using engine_outcomes.submit_settles [of E view seen u, OF ok valid fields(2-4), of svc at] sub fields(1) by auto
  have at_fid: "view (fw_store u') fid = Some v'" using v'(2) by simp
  have "view (fw_store u) (job_id ?job) = None" using fresh(1) fields(1) by simp
  from engine_store.submit_evolves [of E view seen u, OF ok2 valid this fields(2) sub]
  have "row_evolves (fax_fold ?job) v'" using at_fid fields(1) by simp
  then have "fxv_path v' = fxv_path v" "fxv_created v' = now" "fxv_owner v' = ext_string owner"
    using at_job(3) by (simp_all add: row_evolves_def fax_fold_def new_outbound_fax_job_def)
  moreover have "fw_files u' = fw_files u" using submit_files [of "engine_faxes E" svc at ?job u] sub by simp
  ultimately show ?thesis using v' rows_okD [OF v'(3) at_fid] by blast
qed

text \<open>
  C24. Resending and retention do not compose: a resent fax shares the document of the
  failed fax it repeats. Whenever a failed fax is resent and a pass comes whose cutoff lies
  after the failed fax but not after the resend, the pass keeps the resent fax and unlinks
  its document: reading the document of the kept job fails from then on.
\<close>

theorem retention_breaks_resends:
  assumes laws: "idem_laws EF vf seen" "idem_reliable EF"
    and rows: "rows_ok fax_row_ok (vf (fw_store u))" "finite (dom (vf (fw_store u)))"
    and row: "vf (fw_store u) i = Some v" "fxv_owner v = ext_string owner" "fxv_direction v = Fax_Outbound"
      "fxv_status v = Fax_Failed" "fw_files u (fxv_path v) \<noteq> None"
    and fresh: "vf (fw_store u) fid = None" "valid_id fid"
    and run: "resend_fax (engine_faxes EF) svc no_faults at fid now owner i u = (res, u')"
    and segments: "engine_laws ET vt" "reliable ET" "keyed sgv_id (vt t)" "finite (dom (vt t))"
    and cutoff: "fxv_created v < cutoff" "cutoff \<le> now"
  shows "fst res \<noteq> None \<and>
    (\<exists>sum w' job. sweep_once EF ET no_faults cutoff
        \<lparr>ar_store = st, ar_faxes = fw_store u', ar_transcripts = t, ar_files = fw_files u'\<rparr> = Some (sum, w') \<and>
      fax_get EF owner fid (ar_faxes w') = Inr job \<and> job_path job = fxv_path v \<and>
      (\<exists>e. fax_document no_faults job (ar_files w') = Inl e))"
proof -
  obtain v' where v': "fst res \<noteq> None" "vf (fw_store u') = (vf (fw_store u))(fid \<mapsto> v')" "fw_files u' = fw_files u"
    "fax_row_ok fid v'" "fxv_path v' = fxv_path v" "fxv_created v' = now" "fxv_owner v' = ext_string owner"
    using resend_settles [OF laws rows(1) row fresh run] by blast
  let ?w = "\<lparr>ar_store = st, ar_faxes = fw_store u', ar_transcripts = t, ar_files = fw_files u'\<rparr>"
  have "rows_ok fax_row_ok (vf (ar_faxes ?w))"
    using rows(1) v'(2,4) by (simp add: rows_ok_put)
  moreover have "finite (dom (vf (ar_faxes ?w)))" using rows(2) v'(2) by simp
  moreover have "keyed sgv_id (vt (ar_transcripts ?w))" "finite (dom (vt (ar_transcripts ?w)))" using segments(3,4) by simp_all
  ultimately obtain sum w' where w': "sweep_once EF ET no_faults cutoff ?w = Some (sum, w')"
    "\<forall>i v. vf (ar_faxes w') i = Some v \<longleftrightarrow> vf (ar_faxes ?w) i = Some v \<and> cutoff \<le> fxv_created v"
    "\<forall>p. ar_files w' p = (if doomed cutoff (ar_store ?w) (vf (ar_faxes ?w)) p \<and> parse_rel_path p = Inr (Rel_Path p)
       then None else ar_files ?w p)"
    using pass_effect [OF laws(1) _ _ segments(1), of ?w no_faults cutoff] laws(2) segments(2)
    unfolding idem_reliable_def by blast
  have "vf (ar_faxes w') fid = Some v'" using w'(2) v'(2,6) cutoff(2) by simp
  moreover obtain job where job: "to_job v' = Inr job" "fax_fold job = v'" using to_job_row [OF v'(4)] by blast
  ultimately have got: "fax_get EF owner fid (ar_faxes w') = Inr job"
    using reliable_get [OF laws] v'(7) by (simp add: fax_get_def wrap_read_def)
  have path: "job_path job = fxv_path v" "parse_rel_path (fxv_path v) = Inr (Rel_Path (fxv_path v))"
    using job(2) v'(4,5) by (auto simp: fax_fold_def fax_row_ok_def)
  have "i \<noteq> fid" using row(1) fresh(1) by auto
  then have "doomed cutoff (ar_store ?w) (vf (ar_faxes ?w)) (fxv_path v)"
    using row(1) v'(2) cutoff(1) unfolding doomed_def by auto
  then have "ar_files w' (fxv_path v) = None" using w'(3) path(2) by simp
  then have "\<exists>e. fax_document no_faults job (ar_files w') = Inl e"
    using path by (simp add: fax_document_def must_def blob_open_def no_faults_simp)
  then show ?thesis using v'(1) w'(1) got path(1) by blast
qed

section \<open>Instances\<close>

lemma mem_segments:
  "engine_laws (mem_capped 1 :: ((string \<times> segment_view) list, string, segment_view) capped_engine) map_of"
  "reliable (mem_capped 1 :: ((string \<times> segment_view) list, string, segment_view) capped_engine)"
  "keyed sgv_id (map_of ([] :: (string \<times> segment_view) list))" "finite (dom (map_of ([] :: (string \<times> segment_view) list)))"
  using mem_capped_laws [of 1 sgv_owner sgv_seq 1, unfolded caps_laws_def, THEN conjunct1]
  by (assumption, simp_all add: keyed_def reliable_def mem_capped_def engine.defs mem_engine_def)

theorem retention_pass_witness:
  "\<exists>sum w'. sweep_once mem_idem (mem_capped 1) no_faults 7
      \<lparr>ar_store = empty_store, ar_faxes = fw_store (sample_fax_world Fax_Failed), ar_transcripts = [],
       ar_files = fw_files (sample_fax_world Fax_Failed)\<rparr> = Some (sum, w') \<and>
    mem_view (ar_faxes w') ''faxjob-00000000000001'' = None \<and> ar_files w' ''faxes/a.pdf'' = None"
proof -
  let ?w = "\<lparr>ar_store = empty_store, ar_faxes = fw_store (sample_fax_world Fax_Failed),
      ar_transcripts = [] :: (string \<times> segment_view) list,
      ar_files = fw_files (sample_fax_world Fax_Failed)\<rparr>"
  have row: "mem_view (ar_faxes ?w) ''faxjob-00000000000001'' = Some (sample_fax Fax_Failed)"
    by (simp add: sample_fax_world_def)
  have "rows_ok fax_row_ok (mem_view (ar_faxes ?w))" "finite (dom (mem_view (ar_faxes ?w)))"
    using sample_fax_row finite_dom_map_of by simp_all
  moreover have "keyed sgv_id (map_of (ar_transcripts ?w))" "finite (dom (map_of (ar_transcripts ?w)))"
    using mem_segments(3,4) by simp_all
  ultimately obtain sum w' where w': "sweep_once mem_idem (mem_capped 1) no_faults 7 ?w = Some (sum, w')"
    "\<forall>i v. mem_view (ar_faxes w') i = Some v \<longleftrightarrow> mem_view (ar_faxes ?w) i = Some v \<and> 7 \<le> fxv_created v"
    "\<forall>p. ar_files w' p = (if doomed 7 (ar_store ?w) (mem_view (ar_faxes ?w)) p \<and> parse_rel_path p = Inr (Rel_Path p)
       then None else ar_files ?w p)"
    using retention_pass [OF mem_idem_laws _ _ mem_segments(1), of ?w no_faults 7] mem_segments(2)
      mem_idem_reliable [unfolded idem_reliable_def, THEN conjunct1] by blast
  have "mem_view (ar_faxes w') ''faxjob-00000000000001'' = None"
    using w'(2) row by (cases "mem_view (ar_faxes w') ''faxjob-00000000000001''") (auto simp: sample_fax_def)
  moreover have "doomed 7 (ar_store ?w) (mem_view (ar_faxes ?w)) ''faxes/a.pdf''"
    unfolding doomed_def using row by (fastforce simp: sample_fax_def)
  then have "ar_files w' ''faxes/a.pdf'' = None" using w'(3) sample_path by simp
  ultimately show ?thesis using w'(1) by blast
qed

theorem retention_breaks_resends_witness:
  "\<exists>sum w' job. sweep_once mem_idem (mem_capped 1) no_faults 7
      \<lparr>ar_store = empty_store,
       ar_faxes = fw_store (snd (resend_fax (engine_faxes mem_idem) sample_fax_service no_faults int
         ''faxjob-00000000000002'' 9 (Extension ''1001'') ''faxjob-00000000000001'' (sample_fax_world Fax_Failed))),
       ar_transcripts = [],
       ar_files = fw_files (snd (resend_fax (engine_faxes mem_idem) sample_fax_service no_faults int
         ''faxjob-00000000000002'' 9 (Extension ''1001'') ''faxjob-00000000000001'' (sample_fax_world Fax_Failed)))\<rparr> =
      Some (sum, w') \<and> job_path job = ''faxes/a.pdf'' \<and> (\<exists>e. fax_document no_faults job (ar_files w') = Inl e)"
proof -
  let ?u = "sample_fax_world Fax_Failed"
  let ?run = "resend_fax (engine_faxes mem_idem) sample_fax_service no_faults int
      ''faxjob-00000000000002'' 9 (Extension ''1001'') ''faxjob-00000000000001'' ?u"
  have row: "mem_view (fw_store ?u) ''faxjob-00000000000001'' = Some (sample_fax Fax_Failed)"
    "fxv_owner (sample_fax Fax_Failed) = ext_string (Extension ''1001'')" "fxv_direction (sample_fax Fax_Failed) = Fax_Outbound"
    "fxv_status (sample_fax Fax_Failed) = Fax_Failed" "fw_files ?u (fxv_path (sample_fax Fax_Failed)) \<noteq> None"
    "fxv_created (sample_fax Fax_Failed) < 7"
    by (simp_all add: sample_fax_world_def sample_fax_def)
  have fin: "finite (dom (mem_view (fw_store ?u)))" by (rule finite_dom_map_of)
  from retention_breaks_resends [OF mem_idem_laws mem_idem_reliable sample_fax_row fin row(1-5) sample_fresh_fax fax_parties(3)
      prod.collapse [of ?run, symmetric] mem_segments row(6), of empty_store]
  show ?thesis by (auto simp: sample_fax_def)
qed

end
