(* ===== verification/Authmap.thy ===== *)
theory Authmap
  imports Ids "HOL-Library.Finite_Map" "HOL-Library.List_Lexorder"
begin

text \<open>
  The mapping of e-mails to extensions behind every passwordless login,
  \<^verbatim>\<open>internal/authmap/authmap.go\<close>, and the read side of the admin surface,
  \<^verbatim>\<open>internal/admin/admin.go\<close>. A Go map is a finite map; a range over one visits its entries in
  an order of its own, so \<open>authmap_new\<close> takes its entries as a list in that order.
  \<^verbatim>\<open>strings.ToLower\<close> is the argument \<open>lower\<close>, and reading a password file the argument \<open>read\<close>.
  A nil receiver is \<open>None\<close>.
\<close>

section \<open>The mapping\<close>

record mapped_user =
  mu_email :: string
  mu_name :: string
  mu_extensions :: "extension list"
  mu_admin :: bool

definition session_extension :: "mapped_user \<Rightarrow> extension" where
  "session_extension u = (case mu_extensions u of [] \<Rightarrow> zero_extension | e # _ \<Rightarrow> e)"

record authmap =
  am_users :: "(string, mapped_user) fmap"
  am_files :: "(string, string) fmap"

text \<open>Indexing a Go map of strings answers the empty string for a missing key.\<close>

definition go_lookup :: "(string, string) fmap \<Rightarrow> string \<Rightarrow> string" where
  "go_lookup m k = (case fmlookup m k of None \<Rightarrow> [] | Some v \<Rightarrow> v)"

definition email_key :: "(string \<Rightarrow> string) \<Rightarrow> string \<Rightarrow> string" where
  "email_key lower email = lower (trim_space email)"

fun new_users ::
  "(string \<Rightarrow> string) \<Rightarrow> (string, string) fmap \<Rightarrow> (string \<times> mapped_user) list \<Rightarrow> (string, mapped_user) fmap \<Rightarrow>
     err + (string, mapped_user) fmap" where
  "new_users lower files [] m = Inr m"
| "new_users lower files ((email, u) # us) m =
     (if list_ex (\<lambda>ext. go_lookup files (ext_string ext) = []) (mu_extensions u)
      then Inl (Coded Rejection ''authmap.password_file.missing'')
      else new_users lower files us (fmupd (email_key lower email) u m))"

definition authmap_new ::
  "(string \<Rightarrow> string) \<Rightarrow> (string \<times> mapped_user) list \<Rightarrow> (string, string) fmap \<Rightarrow> err + authmap" where
  "authmap_new lower us files =
     (case new_users lower files us fmempty of
        Inl e \<Rightarrow> Inl e
      | Inr m \<Rightarrow> Inr \<lparr>am_users = m, am_files = files\<rparr>)"

definition resolve :: "(string \<Rightarrow> string) \<Rightarrow> authmap option \<Rightarrow> string \<Rightarrow> mapped_user option" where
  "resolve lower am email =
     (case am of None \<Rightarrow> None | Some m \<Rightarrow> fmlookup (am_users m) (email_key lower email))"

text \<open>The range over the sorted e-mails.\<close>

definition sorted_users :: "authmap \<Rightarrow> mapped_user list" where
  "sorted_users m = map (\<lambda>k. the (fmlookup (am_users m) k)) (sorted_list_of_fset (fmdom (am_users m)))"

definition mapped_by_extension :: "authmap option \<Rightarrow> extension \<Rightarrow> mapped_user option" where
  "mapped_by_extension am ext =
     (case am of None \<Rightarrow> None | Some m \<Rightarrow> find (\<lambda>u. ext \<in> set (mu_extensions u)) (sorted_users m))"

definition mapped_by_login ::
  "(string \<Rightarrow> string) \<Rightarrow> authmap option \<Rightarrow> extension \<Rightarrow> string \<Rightarrow> mapped_user option" where
  "mapped_by_login lower am ext email =
     (case (if email = [] then None else resolve lower am email) of
        Some u \<Rightarrow> if ext \<in> set (mu_extensions u) then Some u else mapped_by_extension am ext
      | None \<Rightarrow> mapped_by_extension am ext)"

definition map_users :: "authmap option \<Rightarrow> mapped_user list" where
  "map_users am = (case am of None \<Rightarrow> [] | Some m \<Rightarrow> sorted_users m)"

definition sip_password :: "(string \<Rightarrow> string option) \<Rightarrow> authmap option \<Rightarrow> extension \<Rightarrow> err + string" where
  "sip_password read am ext =
     (case am of
        None \<Rightarrow> Inl (Coded Rejection ''authmap.password_file.missing'')
      | Some m \<Rightarrow>
          (let file = go_lookup (am_files m) (ext_string ext) in
           if file = [] then Inl (Coded Rejection ''authmap.password_file.missing'')
           else
             case read file of
               None \<Rightarrow> Inl (Coded Rejection ''authmap.password_file.read'')
             | Some raw \<Rightarrow>
                 if trim_space raw = [] then Inl (Coded Rejection ''authmap.password_file.empty'')
                 else Inr (trim_space raw)))"

section \<open>The admin surface\<close>

record admin =
  ad_users :: "authmap option"
  ad_identities :: "(string, string) fmap"

definition admin_new :: "authmap option \<Rightarrow> (string, string) fmap \<Rightarrow> err + admin" where
  "admin_new us identities =
     (if fBall (fmdom identities) (\<lambda>k. parse_extension k = Inr (Extension k))
      then Inr \<lparr>ad_users = us, ad_identities = identities\<rparr>
      else Inl (Coded Rejection ''admin.identities''))"

definition is_admin :: "(string \<Rightarrow> string) \<Rightarrow> admin option \<Rightarrow> string \<Rightarrow> bool" where
  "is_admin lower a email =
     (case a of
        None \<Rightarrow> False
      | Some ad \<Rightarrow>
          email \<noteq> [] \<and>
          (case resolve lower (ad_users ad) email of None \<Rightarrow> False | Some u \<Rightarrow> mu_admin u))"

definition admin_users :: "admin option \<Rightarrow> mapped_user list" where
  "admin_users a = (case a of None \<Rightarrow> [] | Some ad \<Rightarrow> map_users (ad_users ad))"

definition mapped_lines :: "admin \<Rightarrow> string set" where
  "mapped_lines ad = (\<Union>u \<in> set (map_users (ad_users ad)). ext_string ` set (mu_extensions u))"

text \<open>The \<^verbatim>\<open>Must\<close> parser panics on a line that is no extension.\<close>

fun must_all :: "string list \<Rightarrow> err + extension list" where
  "must_all [] = Inr []"
| "must_all (raw # raws) =
     (case must_parse_extension raw of
        Inl e \<Rightarrow> Inl e
      | Inr ext \<Rightarrow> (case must_all raws of Inl e \<Rightarrow> Inl e | Inr exts \<Rightarrow> Inr (ext # exts)))"

definition admin_extensions :: "admin option \<Rightarrow> err + extension list" where
  "admin_extensions a =
     (case a of None \<Rightarrow> Inr [] | Some ad \<Rightarrow> must_all (sorted_list_of_set (mapped_lines ad)))"

record line_number =
  ln_extension :: extension
  ln_did :: string
  ln_users :: "string list"

text \<open>An account that maps a line twice is listed twice.\<close>

definition line_accounts :: "admin \<Rightarrow> string \<Rightarrow> string list" where
  "line_accounts ad raw =
     sort (concat (map (\<lambda>u. map (\<lambda>_. mu_email u) (filter (\<lambda>e. ext_string e = raw) (mu_extensions u))) (map_users (ad_users ad))))"

definition admin_numbers :: "admin option \<Rightarrow> err + line_number list" where
  "admin_numbers a =
     (case a of
        None \<Rightarrow> Inr []
      | Some ad \<Rightarrow>
          (case must_all (sorted_list_of_set (mapped_lines ad \<union> fset (fmdom (ad_identities ad)))) of
             Inl e \<Rightarrow> Inl e
           | Inr exts \<Rightarrow>
               Inr (map (\<lambda>ext. \<lparr>ln_extension = ext, ln_did = go_lookup (ad_identities ad) (ext_string ext),
                                ln_users = line_accounts ad (ext_string ext)\<rparr>) exts)))"

definition admin_password :: "(string \<Rightarrow> string option) \<Rightarrow> admin option \<Rightarrow> extension \<Rightarrow> err + string" where
  "admin_password read a ext =
     (case a of
        None \<Rightarrow> Inl (Coded Rejection ''admin.password_file.missing'')
      | Some ad \<Rightarrow> sip_password read (ad_users ad) ext)"

section \<open>From the configuration\<close>

text \<open>
  The adapters of \<^verbatim>\<open>internal/app/app.go\<close>: a configured account becomes a mapped user of the
  same e-mail. Configuration validation has refused a text that is no extension, so meeting
  one panics. The passkey and SSO adapters drop the admin flag.
\<close>

record account =
  ac_name :: string
  ac_extensions :: "string list"
  ac_admin :: bool

fun account_extensions :: "string list \<Rightarrow> err + extension list" where
  "account_extensions [] = Inr []"
| "account_extensions (raw # raws) =
     (case parse_extension raw of
        Inl _ \<Rightarrow> Inl Panic
      | Inr ext \<Rightarrow> (case account_extensions raws of Inl e \<Rightarrow> Inl e | Inr exts \<Rightarrow> Inr (ext # exts)))"

fun runtime_users :: "bool \<Rightarrow> (string \<times> account) list \<Rightarrow> err + (string \<times> mapped_user) list" where
  "runtime_users admins [] = Inr []"
| "runtime_users admins ((email, a) # us) =
     (case account_extensions (ac_extensions a) of
        Inl e \<Rightarrow> Inl e
      | Inr exts \<Rightarrow>
          (case runtime_users admins us of
             Inl e \<Rightarrow> Inl e
           | Inr vs \<Rightarrow>
               Inr ((email, \<lparr>mu_email = email, mu_name = ac_name a, mu_extensions = exts,
                     mu_admin = (admins \<and> ac_admin a)\<rparr>) # vs)))"

definition login_map :: "(string \<Rightarrow> string) \<Rightarrow> (string \<times> account) list \<Rightarrow> (string, string) fmap \<Rightarrow> err + authmap" where
  "login_map lower accounts files =
     (case runtime_users False accounts of Inl e \<Rightarrow> Inl e | Inr us \<Rightarrow> authmap_new lower us files)"

definition admin_service ::
  "(string \<Rightarrow> string) \<Rightarrow> (string \<times> account) list \<Rightarrow> (string, string) fmap \<Rightarrow> (string, string) fmap \<Rightarrow> err + admin option" where
  "admin_service lower accounts files identities =
     (case runtime_users True accounts of
        Inl e \<Rightarrow> Inl e
      | Inr us \<Rightarrow>
          (case authmap_new lower us files of
             Inl e \<Rightarrow> if list_ex (\<lambda>(_, a). ac_admin a) accounts then Inl (e) else Inr None
           | Inr m \<Rightarrow> (case admin_new (Some m) identities of Inl e \<Rightarrow> Inl e | Inr a \<Rightarrow> Inr (Some a))))"

section \<open>Lemmas\<close>

lemma resolve_Some: "resolve lower am email = Some u \<longleftrightarrow> (\<exists>m. am = Some m \<and> fmlookup (am_users m) (email_key lower email) = Some u)"
  by (auto simp: resolve_def split: option.splits)

lemma set_sorted_users: "set (sorted_users m) = fmran' (am_users m)"
proof -
  have "set (sorted_users m) = (\<lambda>k. the (fmlookup (am_users m) k)) ` fset (fmdom (am_users m))"
    by (simp add: sorted_users_def)
  also have "\<dots> = fmran' (am_users m)"
    by (force simp: fmlookup_ran'_iff fmlookup_dom_iff image_iff)
  finally show ?thesis .
qed

lemma mapped_by_extension_Some:
  "mapped_by_extension am ext = Some u \<Longrightarrow> ext \<in> set (mu_extensions u) \<and> u \<in> set (map_users am)"
  by (auto simp: mapped_by_extension_def map_users_def find_Some_iff split: option.splits)

lemma mapped_by_extension_None:
  "mapped_by_extension am ext = None \<longleftrightarrow> (\<forall>u \<in> set (map_users am). ext \<notin> set (mu_extensions u))"
  by (auto simp: mapped_by_extension_def map_users_def find_None_iff split: option.splits)

lemma resolve_user: "resolve lower am email = Some u \<Longrightarrow> u \<in> set (map_users am)"
  by (auto simp: resolve_Some map_users_def set_sorted_users fmlookup_ran'_iff)

lemma sip_password_ok:
  "sip_password read am ext = Inr pw \<longleftrightarrow>
     (\<exists>m raw. am = Some m \<and> go_lookup (am_files m) (ext_string ext) \<noteq> [] \<and>
        read (go_lookup (am_files m) (ext_string ext)) = Some raw \<and> pw = trim_space raw \<and> pw \<noteq> [])"
  by (auto simp: sip_password_def Let_def split: option.splits)

text \<open>A mapping that was built names a password file for every line of every account.\<close>

definition has_files :: "(string, string) fmap \<Rightarrow> mapped_user \<Rightarrow> bool" where
  "has_files files u \<longleftrightarrow> (\<forall>ext \<in> set (mu_extensions u). go_lookup files (ext_string ext) \<noteq> [])"

lemma new_users_files:
  "new_users lower files us m = Inr m' \<Longrightarrow> \<forall>u \<in> fmran' m. has_files files u \<Longrightarrow> \<forall>u \<in> fmran' m'. has_files files u"
proof (induction lower files us m rule: new_users.induct)
  case (1 lower files m)
  then show ?case by simp
next
  case (2 lower files email u us m)
  then have ok: "has_files files u" "new_users lower files us (fmupd (email_key lower email) u m) = Inr m'"
    by (auto simp: has_files_def list_ex_iff split: if_splits)
  have "\<forall>v \<in> fmran' (fmupd (email_key lower email) u m). has_files files v"
    using 2(3) ok(1) by (auto simp: fmlookup_ran'_iff split: if_splits)
  then show ?case using 2(1) ok(2) 2(2) by (auto split: if_splits)
qed

lemma authmap_new_files:
  assumes "authmap_new lower us files = Inr m" "u \<in> set (map_users (Some m))" "ext \<in> set (mu_extensions u)"
  shows "go_lookup (am_files m) (ext_string ext) \<noteq> []"
proof -
  have new: "new_users lower files us fmempty = Inr (am_users m)" "am_files m = files"
    using assms(1) by (auto simp: authmap_new_def split: sum.splits)
  have "\<forall>u \<in> fmran' (am_users m). has_files files u"
    by (rule new_users_files [OF new(1)]) (auto simp: fmlookup_ran'_iff)
  moreover have "u \<in> fmran' (am_users m)" using assms(2) by (simp add: map_users_def set_sorted_users)
  ultimately have "has_files files u" by blast
  then show ?thesis using new(2) assms(3) by (simp add: has_files_def)
qed

text \<open>The last entry of a key wins.\<close>

lemma new_users_lookup:
  "new_users lower files us m = Inr m' \<Longrightarrow>
     fmlookup m' k = (case map_of (rev (map (\<lambda>(e, u). (email_key lower e, u)) us)) k of Some u \<Rightarrow> Some u | None \<Rightarrow> fmlookup m k)"
  by (induction lower files us m rule: new_users.induct) (auto simp: map_add_def split: if_splits option.splits)

end
