(* ===== verification/Sso.thy ===== *)
theory Sso
  imports Authmap Sessions
begin

text \<open>
  The OpenID Connect login of \<^verbatim>\<open>internal/sso/sso.go\<close>: the shape checks of \<^verbatim>\<open>New\<close>, the
  completion of one authorization, and the lazy discovery with its cache and its single
  flight. The identity provider is foreign: what it answers during one completion is the
  record \<open>idp_answers\<close>. \<open>provider_for\<close> is a state machine over its callers, since its
  outcome depends on how their sections of the mutex and their channel operations
  interleave; a provider is known by a value of the type parameter.
\<close>

section \<open>Configuration\<close>

record sso_config =
  sc_issuer :: string
  sc_client :: string
  sc_secret_file :: string
  sc_redirect :: string
  sc_scopes :: "string list"
  sc_groups :: "string list"

record sso_client =
  so_config :: sso_config
  so_map :: authmap

definition sso_new ::
  "(string \<Rightarrow> string) \<Rightarrow> sso_config \<Rightarrow> (string \<times> mapped_user) list \<Rightarrow> (string, string) fmap \<Rightarrow> err + sso_client" where
  "sso_new lower cfg us files =
     (if sc_issuer cfg = [] then Inl (Coded Rejection ''sso.issuer'')
      else if sc_client cfg = [] then Inl (Coded Rejection ''sso.client_id'')
      else if sc_secret_file cfg = [] then Inl (Coded Rejection ''sso.client_secret_file'')
      else if sc_redirect cfg = [] then Inl (Coded Rejection ''sso.redirect_url'')
      else
        case authmap_new lower us files of
          Inl _ \<Rightarrow> Inl (Coded Rejection ''sso.mapping'')
        | Inr m \<Rightarrow>
            Inr \<lparr>so_config = (if sc_scopes cfg = [] then cfg\<lparr>sc_scopes := [''openid'', ''email'', ''profile'']\<rparr> else cfg),
                 so_map = m\<rparr>)"

section \<open>One completion\<close>

record claims =
  cl_email :: string
  cl_verified :: "bool option"
  cl_groups :: "string list"

text \<open>
  The answers: the outcome of \<open>provider_for\<close> (whether there is a provider), the secret file,
  the token endpoint (the raw ID token, empty when absent), the verification of an ID token
  (its nonce and its claims, \<open>None\<close> when they do not parse), and the userinfo endpoint (its
  claims decoded over those of the token, \<open>None\<close> when they do not parse).
\<close>

record idp_answers =
  ia_provider :: "err + bool"
  ia_secret :: "string option"
  ia_exchange :: "string \<Rightarrow> string \<Rightarrow> string \<Rightarrow> string option"
  ia_verify :: "string \<Rightarrow> (string \<times> claims option) option"
  ia_userinfo :: "(claims \<Rightarrow> claims option) option"

definition client_secret :: "idp_answers \<Rightarrow> err + string" where
  "client_secret ia =
     (case ia_secret ia of
        None \<Rightarrow> Inl (Coded Rejection ''sso.client_secret.read'')
      | Some raw \<Rightarrow>
          if trim_space raw = [] then Inl (Coded Rejection ''sso.client_secret.empty'') else Inr (trim_space raw))"

definition sso_claims :: "idp_answers \<Rightarrow> claims option \<Rightarrow> err + claims" where
  "sso_claims ia token =
     (case token of
        None \<Rightarrow> Inl (Coded Rejection ''sso.claims'')
      | Some c \<Rightarrow>
          if cl_email c \<noteq> [] then Inr c
          else
            (case ia_userinfo ia of
               None \<Rightarrow> Inl (Coded Rejection ''sso.userinfo'')
             | Some decode \<Rightarrow>
                 (case decode c of
                    None \<Rightarrow> Inl (Coded Rejection ''sso.userinfo.claims'')
                  | Some c' \<Rightarrow>
                      if cl_email c' = [] then Inl (Coded Rejection ''sso.email_missing'') else Inr c')))"

definition admit_claims ::
  "(string \<Rightarrow> string) \<Rightarrow> (string \<Rightarrow> string option) \<Rightarrow> sso_client \<Rightarrow> claims \<Rightarrow> err + mapped_user \<times> string" where
  "admit_claims lower read cl c =
     (if cl_verified c = Some False then Inl (Coded Rejection ''sso.email_unverified'')
      else if sc_groups (so_config cl) \<noteq> [] \<and> \<not> list_ex (\<lambda>g. g \<in> set (sc_groups (so_config cl))) (cl_groups c)
      then Inl (Coded Rejection ''sso.groups_denied'')
      else
        case resolve lower (Some (so_map cl)) (cl_email c) of
          None \<Rightarrow> Inl (Coded Rejection ''sso.unmapped_email'')
        | Some u \<Rightarrow>
            (case sip_password read (Some (so_map cl)) (session_extension u) of
               Inl e \<Rightarrow> Inl e
             | Inr pw \<Rightarrow> Inr (u, pw)))"

text \<open>Reading the endpoint of a nil provider panics.\<close>

definition sso_complete ::
  "(string \<Rightarrow> string) \<Rightarrow> (string \<Rightarrow> string option) \<Rightarrow> sso_client \<Rightarrow> idp_answers \<Rightarrow> string \<Rightarrow> string \<Rightarrow> string \<Rightarrow>
     err + mapped_user \<times> string" where
  "sso_complete lower read cl ia code verifier nonce =
     (if code = [] then Inl (Coded Rejection ''sso.code'')
      else if verifier = [] then Inl (Coded Rejection ''sso.verifier'')
      else
        case ia_provider ia of
          Inl e \<Rightarrow> Inl e
        | Inr present \<Rightarrow>
            (case client_secret ia of
               Inl e \<Rightarrow> Inl e
             | Inr secret \<Rightarrow>
                 if \<not> present then Inl Panic
                 else
                   (case ia_exchange ia code verifier secret of
                      None \<Rightarrow> Inl (Coded Rejection ''sso.exchange'')
                    | Some raw \<Rightarrow>
                        if raw = [] then Inl (Coded Rejection ''sso.id_token'')
                        else
                          (case ia_verify ia raw of
                             None \<Rightarrow> Inl (Coded Rejection ''sso.id_token.verify'')
                           | Some (n, token) \<Rightarrow>
                               if n \<noteq> nonce then Inl (Coded Rejection ''sso.nonce.mismatch'')
                               else
                                 (case sso_claims ia token of
                                    Inl e \<Rightarrow> Inl e
                                  | Inr c \<Rightarrow> admit_claims lower read cl c)))))"

section \<open>One challenge\<close>

record challenge =
  ch_state :: string
  ch_nonce :: string
  ch_verifier :: string

definition random_token :: "entropy \<Rightarrow> err + string" where
  "random_token buf =
     (case buf of Inl _ \<Rightarrow> Inl (Coded Infrastructure ''sso.random_token'') | Inr bytes \<Rightarrow> Inr (raw_url bytes))"

text \<open>The authorization URL is built by the OAuth library from these values and the endpoint.\<close>

definition sso_challenge :: "err + bool \<Rightarrow> entropy \<Rightarrow> entropy \<Rightarrow> entropy \<Rightarrow> err + challenge" where
  "sso_challenge provider b1 b2 b3 =
     (case provider of
        Inl e \<Rightarrow> Inl e
      | Inr present \<Rightarrow>
          (case random_token b1 of
             Inl _ \<Rightarrow> Inl (Coded Infrastructure ''sso.state'')
           | Inr st \<Rightarrow>
               (case random_token b2 of
                  Inl _ \<Rightarrow> Inl (Coded Infrastructure ''sso.nonce'')
                | Inr nonce \<Rightarrow>
                    (case random_token b3 of
                       Inl _ \<Rightarrow> Inl (Coded Infrastructure ''sso.verifier'')
                     | Inr verifier \<Rightarrow>
                         if \<not> present then Inl Panic
                         else Inr \<lparr>ch_state = st, ch_nonce = nonce, ch_verifier = verifier\<rparr>))))"

section \<open>The single flight\<close>

definition provider_ttl :: duration where "provider_ttl = 15 * 60 * second"

text \<open>A buffered channel of capacity one: its content, and whether it is closed.\<close>

record 'r chan =
  ch_buffer :: "'r option"
  ch_closed :: bool

text \<open>
  The outcome of a discovery as the pair the source passes around: the provider and the
  error, each possibly nil. A caller waits on the channel of a flight, leads a flight
  through its stages, or has its answer.
\<close>

type_synonym 'p outcome = "'p option \<times> err option"

datatype stage = Discovering | Published | Sent

datatype 'p caller =
    Waiting nat
  | Leading nat stage "'p outcome"
  | Answered "'p outcome"

record 'p flights =
  fl_cached :: "('p \<times> time) option"
  fl_inflight :: "nat option"
  fl_chans :: "'p outcome chan list"
  fl_callers :: "(nat, 'p caller) fmap"

definition no_flights :: "'p flights" where
  "no_flights = \<lparr>fl_cached = None, fl_inflight = None, fl_chans = [], fl_callers = fmempty\<rparr>"

datatype 'p flight_event =
    Arrive nat time
  | Discovered nat "err + 'p" time
  | Send nat
  | Close nat
  | Take nat

definition put_caller :: "nat \<Rightarrow> 'p caller \<Rightarrow> 'p flights \<Rightarrow> 'p flights" where
  "put_caller g c s = s\<lparr>fl_callers := fmupd g c (fl_callers s)\<rparr>"

text \<open>The first section of the mutex: the cache, the flight under way, or a flight of one's own.\<close>

definition fresh_provider :: "time \<Rightarrow> 'p flights \<Rightarrow> 'p option" where
  "fresh_provider now s =
     (case fl_cached s of
        None \<Rightarrow> None
      | Some (p, fetched) \<Rightarrow> if now - fetched < provider_ttl then Some p else None)"

definition arrive :: "nat \<Rightarrow> time \<Rightarrow> 'p flights \<Rightarrow> 'p flights" where
  "arrive g now s =
     (case fresh_provider now s of
        Some p \<Rightarrow> put_caller g (Answered (Some p, None)) s
      | None \<Rightarrow>
          (case fl_inflight s of
             Some f \<Rightarrow> put_caller g (Waiting f) s
           | None \<Rightarrow>
               (let f = length (fl_chans s) in
                put_caller g (Leading f Discovering (None, None))
                  (s\<lparr>fl_inflight := Some f, fl_chans := fl_chans s @ [\<lparr>ch_buffer = None, ch_closed = False\<rparr>]\<rparr>))))"

text \<open>The second section, then the send, then the close and the leader's own return.\<close>

fun outcome_of :: "err + 'p \<Rightarrow> 'p outcome" where
  "outcome_of (Inl e) = (None, Some e)"
| "outcome_of (Inr p) = (Some p, None)"

definition flight_step :: "'p flight_event \<Rightarrow> 'p flights \<Rightarrow> 'p flights option" where
  "flight_step ev s =
     (case ev of
        Arrive g now \<Rightarrow> if g |\<in>| fmdom (fl_callers s) then None else Some (arrive g now s)
      | Discovered g r now \<Rightarrow>
          (case fmlookup (fl_callers s) g of
             Some (Leading f Discovering _) \<Rightarrow>
               Some (put_caller g (Leading f Published (outcome_of r))
                 (s\<lparr>fl_inflight := None, fl_cached := (case r of Inr p \<Rightarrow> Some (p, now) | Inl _ \<Rightarrow> fl_cached s)\<rparr>))
           | _ \<Rightarrow> None)
      | Send g \<Rightarrow>
          (case fmlookup (fl_callers s) g of
             Some (Leading f Published r) \<Rightarrow>
               (if ch_buffer (fl_chans s ! f) = None
                then Some (put_caller g (Leading f Sent r)
                  (s\<lparr>fl_chans := (fl_chans s)[f := (fl_chans s ! f)\<lparr>ch_buffer := Some r\<rparr>]\<rparr>))
                else None)
           | _ \<Rightarrow> None)
      | Close g \<Rightarrow>
          (case fmlookup (fl_callers s) g of
             Some (Leading f Sent r) \<Rightarrow>
               Some (put_caller g (Answered (case snd r of None \<Rightarrow> r | Some _ \<Rightarrow> (None, Some (Coded Rejection ''sso.discovery''))))
                 (s\<lparr>fl_chans := (fl_chans s)[f := (fl_chans s ! f)\<lparr>ch_closed := True\<rparr>]\<rparr>))
           | _ \<Rightarrow> None)
      | Take g \<Rightarrow>
          (case fmlookup (fl_callers s) g of
             Some (Waiting f) \<Rightarrow>
               (case ch_buffer (fl_chans s ! f) of
                  Some r \<Rightarrow>
                    Some (put_caller g (Answered r)
                      (s\<lparr>fl_chans := (fl_chans s)[f := (fl_chans s ! f)\<lparr>ch_buffer := None\<rparr>]\<rparr>))
                | None \<Rightarrow>
                    if ch_closed (fl_chans s ! f) then Some (put_caller g (Answered (None, None)) s) else None)
           | _ \<Rightarrow> None))"

fun flight_run :: "'p flight_event list \<Rightarrow> 'p flights \<Rightarrow> 'p flights option" where
  "flight_run [] s = Some s"
| "flight_run (ev # evs) s = Option.bind (flight_step ev s) (flight_run evs)"

text \<open>What the callers of \<open>provider_for\<close> make of their pair.\<close>

definition provider_answer :: "'p outcome \<Rightarrow> err + bool" where
  "provider_answer out = (case snd out of Some e \<Rightarrow> Inl e | None \<Rightarrow> Inr (fst out \<noteq> None))"

section \<open>What the callers of a flight get\<close>

lemma flight_run_append: "flight_run (as @ bs) s = Option.bind (flight_run as s) (flight_run bs)"
  by (induction as arbitrary: s) (auto simp: bind_eq_None_conv split: Option.bind_split)

lemma waiters_arrive:
  assumes "fl_cached s = None" "fl_inflight s = Some f" "distinct ws" "set ws \<inter> fset (fmdom (fl_callers s)) = {}"
  shows "\<exists>cs. flight_run (map (\<lambda>g. Arrive g (at g)) ws) s = Some (s\<lparr>fl_callers := cs\<rparr>) \<and>
    (\<forall>g. fmlookup cs g = (if g \<in> set ws then Some (Waiting f) else fmlookup (fl_callers s) g))"
  using assms
proof (induction ws arbitrary: s)
  case Nil
  then show ?case by (intro exI [of _ "fl_callers s"]) simp
next
  case (Cons w ws)
  let ?s = "put_caller w (Waiting f) s"
  have "flight_step (Arrive w (at w)) s = Some ?s"
    using Cons.prems by (simp add: flight_step_def arrive_def fresh_provider_def)
  moreover obtain cs where cs: "flight_run (map (\<lambda>g. Arrive g (at g)) ws) ?s = Some (?s\<lparr>fl_callers := cs\<rparr>)"
    "\<forall>g. fmlookup cs g = (if g \<in> set ws then Some (Waiting f) else fmlookup (fl_callers ?s) g)"
    using Cons.IH [of ?s] Cons.prems by (auto simp: put_caller_def)
  moreover have "?s\<lparr>fl_callers := cs\<rparr> = s\<lparr>fl_callers := cs\<rparr>" by (simp add: put_caller_def)
  moreover have "\<forall>g. fmlookup cs g = (if g \<in> set (w # ws) then Some (Waiting f) else fmlookup (fl_callers s) g)"
    using cs(2) by (simp add: put_caller_def)
  ultimately show ?case by (intro exI [of _ cs]) simp
qed

lemma drained_takes:
  assumes "ch_buffer (fl_chans s ! f) = None" "ch_closed (fl_chans s ! f)" "distinct gs"
    and "\<forall>g \<in> set gs. fmlookup (fl_callers s) g = Some (Waiting f)"
  shows "\<exists>s'. flight_run (map Take gs) s = Some s' \<and>
    (\<forall>h. fmlookup (fl_callers s') h = (if h \<in> set gs then Some (Answered (None, None)) else fmlookup (fl_callers s) h))"
  using assms
proof (induction gs arbitrary: s)
  case Nil
  then show ?case by simp
next
  case (Cons g gs)
  let ?s = "put_caller g (Answered (None, None)) s"
  have "flight_step (Take g) s = Some ?s" using Cons.prems by (simp add: flight_step_def)
  moreover have "\<forall>h \<in> set gs. fmlookup (fl_callers ?s) h = Some (Waiting f)"
    using Cons.prems(3,4) by (auto simp: put_caller_def)
  then have "\<exists>s'. flight_run (map Take gs) ?s = Some s' \<and>
    (\<forall>h. fmlookup (fl_callers s') h = (if h \<in> set gs then Some (Answered (None, None)) else fmlookup (fl_callers ?s) h))"
    by (intro Cons.IH) (use Cons.prems in \<open>simp_all add: put_caller_def\<close>)
  then obtain s' where "flight_run (map Take gs) ?s = Some s'"
    "\<forall>h. fmlookup (fl_callers s') h = (if h \<in> set gs then Some (Answered (None, None)) else fmlookup (fl_callers ?s) h)"
    by blast
  ultimately show ?case by (intro exI [of _ s']) (auto simp: put_caller_def)
qed

text \<open>
  C14. Discovery is meant to be shared: the callers that arrive while one discovery runs wait on
  its channel for the outcome. The leader sends the outcome once and closes the channel. So
  for any number of waiters, in any order of arrival and of waking, the first to wake gets
  the outcome, and every later one reads the zero value of the closed channel: neither a
  provider nor an error, with which a login attempt goes on and panics on the nil provider,
  whatever its random bytes.
\<close>

theorem sso_waiters_starve:
  fixes r :: "err + 'p"
  assumes "distinct (leader # ws)" "mset (g # gs) = mset ws"
  shows "\<exists>s. flight_run (Arrive leader t0 # map (\<lambda>w. Arrive w (at w)) ws @
        [Discovered leader r t1, Send leader, Close leader] @ map Take (g # gs)) no_flights = Some s \<and>
      fmlookup (fl_callers s) leader = Some (Answered (case r of Inr p \<Rightarrow> (Some p, None)
        | Inl _ \<Rightarrow> (None, Some (Coded Rejection ''sso.discovery'')))) \<and>
      fmlookup (fl_callers s) g = Some (Answered (outcome_of r)) \<and>
      (\<forall>h \<in> set gs. fmlookup (fl_callers s) h = Some (Answered (None, None))) \<and>
      sso_challenge (provider_answer (None, None)) (Inr b1) (Inr b2) (Inr b3) = Inl Panic"
proof -
  let ?lead = "Leading 0 Discovering (None, None) :: 'p caller" and ?ch = "\<lparr>ch_buffer = None, ch_closed = False\<rparr> :: 'p outcome chan"
  let ?s0 = "\<lparr>fl_cached = None, fl_inflight = Some 0, fl_chans = [?ch], fl_callers = fmupd leader ?lead fmempty\<rparr> :: 'p flights"
  have first: "flight_step (Arrive leader t0) no_flights = Some ?s0"
    by (simp add: flight_step_def arrive_def fresh_provider_def no_flights_def put_caller_def)
  obtain cs where cs: "flight_run (map (\<lambda>w. Arrive w (at w)) ws) ?s0 = Some (?s0\<lparr>fl_callers := cs\<rparr>)"
    "\<forall>h. fmlookup cs h = (if h \<in> set ws then Some (Waiting 0) else fmlookup (fl_callers ?s0) h)"
    using waiters_arrive [of ?s0 0 ws at] assms(1) by auto
  let ?lead' = "Answered (case r of Inr p \<Rightarrow> (Some p, None) | Inl _ \<Rightarrow> (None, Some (Coded Rejection ''sso.discovery'')))"
  have lead: "fmlookup cs leader = Some ?lead" using cs(2) assms(1) by simp
  obtain s1 where s1: "flight_run [Discovered leader r t1, Send leader, Close leader] (?s0\<lparr>fl_callers := cs\<rparr>) = Some s1"
    "fl_chans s1 = [\<lparr>ch_buffer = Some (outcome_of r), ch_closed = True\<rparr>]"
    "\<forall>h. fmlookup (fl_callers s1) h = (if h = leader then Some ?lead' else fmlookup cs h)"
    using lead by (cases r) (simp_all add: flight_step_def put_caller_def)
  have ws: "set ws = insert g (set gs)" "distinct (g # gs)"
    using assms by (metis list.simps(15) set_mset_mset) (metis assms distinct.simps(2) mset_eq_imp_distinct_iff)
  have out: "g \<noteq> leader" "leader \<notin> set gs" using assms(1) ws(1) by auto
  let ?s2 = "put_caller g (Answered (outcome_of r)) (s1\<lparr>fl_chans := [\<lparr>ch_buffer = None, ch_closed = True\<rparr>]\<rparr>)"
  have take: "flight_step (Take g) s1 = Some ?s2"
    using s1(2,3) cs(2) ws(1) out by (simp add: flight_step_def)
  have waiting: "\<forall>h \<in> set gs. fmlookup (fl_callers ?s2) h = Some (Waiting 0)"
    using s1(3) cs(2) ws out by (auto simp: put_caller_def)
  obtain s where s: "flight_run (map Take gs) ?s2 = Some s"
    "\<forall>h. fmlookup (fl_callers s) h = (if h \<in> set gs then Some (Answered (None, None)) else fmlookup (fl_callers ?s2) h)"
    using drained_takes [of ?s2 0 gs] waiting ws(2) by (auto simp: put_caller_def)
  have "flight_run (Arrive leader t0 # map (\<lambda>w. Arrive w (at w)) ws @
        [Discovered leader r t1, Send leader, Close leader] @ map Take (g # gs)) no_flights = Some s"
    using first cs(1) s1(1) take s(1) by (simp add: flight_run_append del: append_Cons)
  moreover have "fmlookup (fl_callers s) leader = Some ?lead'" "fmlookup (fl_callers s) g = Some (Answered (outcome_of r))"
    using s(2) s1(3) out ws(2) by (simp_all add: put_caller_def)
  moreover have "\<forall>h \<in> set gs. fmlookup (fl_callers s) h = Some (Answered (None, None))" using s(2) by simp
  moreover have "sso_challenge (provider_answer (None, None)) (Inr b1) (Inr b2) (Inr b3) = Inl Panic"
    by (simp add: sso_challenge_def provider_answer_def random_token_def)
  ultimately show ?thesis by blast
qed

theorem sso_waiters_starve_witness:
  "\<exists>s. flight_run (Arrive 1 0 # map (\<lambda>w. Arrive w 5) [2, 3] @
        [Discovered 1 (Inr ''op'') 7, Send 1, Close 1] @ map Take [3, 2]) no_flights = Some s \<and>
      fmlookup (fl_callers s) 3 = Some (Answered (Some ''op'', None)) \<and>
      fmlookup (fl_callers s) 2 = Some (Answered (None, None))"
  using sso_waiters_starve [of 1 "[2, 3]" 3 "[2]" 0 "\<lambda>_. 5" "Inr ''op''" 7 "[]" "[]" "[]"] by auto

end
