(* ===== verification/Enroll.thy ===== *)
theory Enroll
  imports Trim Sessions
begin

text \<open>
  Enrollment links: the token collection of \<^verbatim>\<open>internal/readmodels/enroll.go\<close> and the service
  over it, \<^verbatim>\<open>internal/userauth/enroll.go\<close>. A token is the encoded random bytes of a mint; only
  its digest is stored. The digest (\<open>hash\<close>, SHA-256 in hex) and the parser of user ids of the
  identity library (\<open>parse_user\<close>) are parameters.
\<close>

section \<open>The collection\<close>

record enroll_view =
  env_hash :: string
  env_email :: string
  env_user :: string
  env_expires :: int

definition enroll_page :: nat where "enroll_page = 1000"

definition enroll_fold :: "string \<Rightarrow> string \<Rightarrow> string \<Rightarrow> time \<Rightarrow> enroll_view" where
  "enroll_fold h email uid expires = \<lparr>env_hash = h, env_email = email, env_user = uid, env_expires = unix expires\<rparr>"

definition all_tokens :: "enroll_view query" where
  "all_tokens = \<lparr>q_filter = (\<lambda>_. True), q_sort = None, q_desc = False, q_limit = enroll_page\<rparr>"

definition token_expired :: "time \<Rightarrow> enroll_view \<Rightarrow> bool" where
  "token_expired now v \<longleftrightarrow> time_unix (env_expires v) < now"

text \<open>One unfiltered page; the loop ends when a page has nothing expired.\<close>

definition sweep_expired ::
  "('s, string, enroll_view) engine \<Rightarrow> time \<Rightarrow> 's \<Rightarrow> ((err + unit) \<times> 's) option" where
  "sweep_expired E now s =
     map_option (\<lambda>(r, _, _, s'). (r, s'))
       (expunge_loop E ''readmodels.enroll_sweep'' ''readmodels.enroll_sweep'' all_tokens (filter (token_expired now)) env_hash s)"

definition enroll_mint ::
  "('s, string, enroll_view) engine \<Rightarrow> time \<Rightarrow> string \<Rightarrow> string \<Rightarrow> string \<Rightarrow> time \<Rightarrow> 's \<Rightarrow> ((err + unit) \<times> 's) option" where
  "enroll_mint E now h email uid expires s =
     Option.bind (sweep_expired E now s) (\<lambda>(r, s1).
       case r of
         Inl e \<Rightarrow> Some (Inl e, s1)
       | Inr _ \<Rightarrow> Some (wrap_write ''readmodels.enroll_mint'' (eng_put E h (enroll_fold h email uid expires) s1)))"

definition enroll_lookup ::
  "('s, string, enroll_view) engine \<Rightarrow> string \<Rightarrow> 's \<Rightarrow> err + (string \<times> string \<times> time) option" where
  "enroll_lookup E h s =
     (case wrap_read ''readmodels.enroll_lookup'' (eng_get E h s) of
        Inl e \<Rightarrow> Inl e
      | Inr None \<Rightarrow> Inr None
      | Inr (Some v) \<Rightarrow> Inr (Some (env_email v, env_user v, time_unix (env_expires v))))"

definition enroll_burn :: "('s, string, enroll_view) engine \<Rightarrow> string \<Rightarrow> 's \<Rightarrow> (err + unit) \<times> 's" where
  "enroll_burn E h s = wrap_write ''readmodels.enroll_burn'' (eng_del E h s)"

section \<open>The service\<close>

definition enroll_ttl :: duration where "enroll_ttl = 15 * 60 * second"

text \<open>The sweep reads the clock before the expiry is computed from it again.\<close>

definition mint_enroll_token ::
  "('s, string, enroll_view) engine \<Rightarrow> (string \<Rightarrow> string) \<Rightarrow> entropy \<Rightarrow> string \<Rightarrow> string \<Rightarrow> time \<Rightarrow> time \<Rightarrow> 's \<Rightarrow>
     ((err + string) \<times> 's) option" where
  "mint_enroll_token E hash buf email uid at_expiry at_sweep s =
     (case buf of
        Inl _ \<Rightarrow> Some (Inl (Coded Infrastructure ''userauth.enroll.entropy''), s)
      | Inr bytes \<Rightarrow>
          let token = raw_url bytes in
          map_option (\<lambda>(r, s'). (case r of Inl e \<Rightarrow> Inl e | Inr _ \<Rightarrow> Inr token, s'))
            (enroll_mint E at_sweep (hash token) email uid (at_expiry + enroll_ttl) s))"

definition verify_enroll_token ::
  "('s, string, enroll_view) engine \<Rightarrow> (string \<Rightarrow> string) \<Rightarrow> (string \<Rightarrow> string option) \<Rightarrow> string \<Rightarrow> time \<Rightarrow> 's \<Rightarrow>
     (err + string \<times> string) \<times> 's" where
  "verify_enroll_token E hash parse_user token now s =
     (if length token < 16 then (Inl (Coded Rejection ''userauth.enroll.invalid''), s)
      else
        let h = hash token in
        case enroll_lookup E h s of
          Inl e \<Rightarrow> (Inl e, s)
        | Inr None \<Rightarrow> (Inl (Coded Rejection ''userauth.enroll.invalid''), s)
        | Inr (Some (email, raw, expires)) \<Rightarrow>
            (case parse_user raw of
               None \<Rightarrow> (Inl (Coded Corruption ''userauth.enroll.userid''), s)
             | Some uid \<Rightarrow>
                 if \<not> now < expires then
                   (case enroll_burn E h s of
                      (Inl e, s') \<Rightarrow> (Inl e, s')
                    | (Inr _, s') \<Rightarrow> (Inl (Coded Rejection ''userauth.enroll.expired''), s'))
                 else
                   (case enroll_burn E h s of
                      (Inl e, s') \<Rightarrow> (Inl e, s')
                    | (Inr _, s') \<Rightarrow> (Inr (email, uid), s'))))"

section \<open>Runs\<close>

datatype enroll_act = Mint_Link entropy string string time time | Use_Link string time

datatype enroll_answer = Link "err + string" | Used "err + string \<times> string"

fun enroll_step ::
  "('s, string, enroll_view) engine \<Rightarrow> (string \<Rightarrow> string) \<Rightarrow> (string \<Rightarrow> string option) \<Rightarrow> enroll_act \<Rightarrow> 's \<Rightarrow>
     (enroll_answer \<times> 's) option" where
  "enroll_step E hash parse_user (Mint_Link buf email uid at_expiry at_sweep) s =
     map_option (map_prod Link id) (mint_enroll_token E hash buf email uid at_expiry at_sweep s)"
| "enroll_step E hash parse_user (Use_Link token now) s =
     Some (map_prod Used id (verify_enroll_token E hash parse_user token now s))"

fun enroll_run ::
  "('s, string, enroll_view) engine \<Rightarrow> (string \<Rightarrow> string) \<Rightarrow> (string \<Rightarrow> string option) \<Rightarrow> enroll_act list \<Rightarrow> 's \<Rightarrow>
     (enroll_answer list \<times> 's) option" where
  "enroll_run E hash parse_user [] s = Some ([], s)"
| "enroll_run E hash parse_user (a # as) s =
     Option.bind (enroll_step E hash parse_user a s) (\<lambda>(r, s1).
       map_option (\<lambda>(rs, s2). (r # rs, s2)) (enroll_run E hash parse_user as s1))"

section \<open>A link is used once\<close>

type_synonym enroll_history = "(enroll_act \<times> enroll_answer) list"

text \<open>
  By the acts so far, the contents were minted under \<open>token\<close>, which was neither used nor
  answered again by a mint since. A mint whose write was reported as failed may still have
  stored its row, so the answer of the mint is left open.
\<close>

definition spends :: "string \<Rightarrow> enroll_act \<times> enroll_answer \<Rightarrow> bool" where
  "spends token ar \<longleftrightarrow>
     snd ar = Link (Inr token) \<or> (\<exists>now out. ar = (Use_Link token now, Used (Inr out)))"

definition unspent :: "enroll_history \<Rightarrow> string \<Rightarrow> string \<Rightarrow> string \<Rightarrow> int \<Rightarrow> bool" where
  "unspent hist token email uid expires \<longleftrightarrow>
     (\<exists>pre bytes t t' ans post. hist = pre @ (Mint_Link (Inr bytes) email uid t t', ans) # post \<and>
        raw_url bytes = token \<and> expires = unix (t + enroll_ttl) \<and> (\<forall>ar \<in> set post. \<not> spends token ar))"

definition rightly_used :: "(string \<Rightarrow> string option) \<Rightarrow> enroll_history \<Rightarrow> enroll_act \<Rightarrow> enroll_answer \<Rightarrow> bool" where
  "rightly_used parse_user hist a r \<longleftrightarrow>
     (case (a, r) of
        (Use_Link token now, Used (Inr (email, uid))) \<Rightarrow>
          \<exists>raw expires. unspent hist token email raw expires \<and> parse_user raw = Some uid \<and> now < time_unix expires
      | _ \<Rightarrow> True)"

fun act_tokens :: "enroll_act \<Rightarrow> string set" where
  "act_tokens (Mint_Link (Inl u) email uid t t') = {}"
| "act_tokens (Mint_Link (Inr bytes) email uid t t') = {raw_url bytes}"
| "act_tokens (Use_Link token now) = {token}"

definition backed :: "(string \<Rightarrow> string) \<Rightarrow> string set \<Rightarrow> enroll_history \<Rightarrow> (string \<Rightarrow> enroll_view option) \<Rightarrow> bool" where
  "backed hash toks hist m \<longleftrightarrow> finite (dom m) \<and> keyed env_hash m \<and>
     (\<forall>h v. m h = Some v \<longrightarrow> (\<exists>token \<in> toks. hash token = h \<and> unspent hist token (env_email v) (env_user v) (env_expires v)))"

lemma unspent_step:
  assumes "unspent hist token email uid expires" "\<not> spends token ar"
  shows "unspent (hist @ [ar]) token email uid expires"
proof -
  obtain pre bytes t t' ans post where
    at: "hist = pre @ (Mint_Link (Inr bytes) email uid t t', ans) # post"
      "raw_url bytes = token \<and> expires = unix (t + enroll_ttl)" "\<forall>ar \<in> set post. \<not> spends token ar"
    using assms(1) unfolding unspent_def by blast
  have "hist @ [ar] = pre @ (Mint_Link (Inr bytes) email uid t t', ans) # (post @ [ar])" using at(1) by simp
  moreover have "\<forall>b \<in> set (post @ [ar]). \<not> spends token b" using at(3) assms(2) by auto
  ultimately show ?thesis unfolding unspent_def using at(2) by blast
qed

lemma unspent_minted:
  "unspent (hist @ [(Mint_Link (Inr bytes) email uid t t', ans)]) (raw_url bytes) email uid (unix (t + enroll_ttl))"
  unfolding unspent_def by force

lemma backed_sub:
  assumes "backed hash toks hist m" "m' \<subseteq>\<^sub>m m"
  shows "backed hash toks hist m'"
proof -
  have "dom m' \<subseteq> dom m" by (rule map_le_implies_dom_le [OF assms(2)])
  then have "finite (dom m')" using assms(1) by (auto simp: backed_def intro: finite_subset)
  moreover have "keyed env_hash m'" using assms(1) keyed_sub [OF _ assms(2)] by (simp add: backed_def)
  moreover have "\<exists>token \<in> toks. hash token = h \<and> unspent hist token (env_email v) (env_user v) (env_expires v)"
    if "m' h = Some v" for h v
    using assms(1) map_le_Some [OF assms(2) that] by (simp add: backed_def)
  ultimately show ?thesis by (simp add: backed_def)
qed

lemma backed_drop: "backed hash toks hist m \<Longrightarrow> backed hash toks hist (m(h := None))"
  by (erule backed_sub) (simp add: map_le_def)

lemma backed_other:
  assumes "backed hash toks hist m" "\<And>h v token. m h = Some v \<Longrightarrow> token \<in> toks \<Longrightarrow> hash token = h \<Longrightarrow> \<not> spends token ar"
  shows "backed hash toks (hist @ [ar]) m"
proof -
  have "\<exists>token \<in> toks. hash token = h \<and> unspent (hist @ [ar]) token (env_email v) (env_user v) (env_expires v)"
    if m: "m h = Some v" for h v
  proof -
    obtain token where t: "token \<in> toks" "hash token = h" "unspent hist token (env_email v) (env_user v) (env_expires v)"
      using assms(1) m unfolding backed_def by blast
    then show ?thesis using unspent_step [OF t(3) assms(2) [OF m t(1,2)]] by blast
  qed
  then show ?thesis using assms(1) by (simp add: backed_def)
qed

lemma sweep_expired_total:
  assumes "engine_laws E view" "backed hash toks hist (view s)"
  shows "\<exists>r s'. sweep_expired E now s = Some (r, s') \<and> view s' \<subseteq>\<^sub>m view s"
proof -
  have "finite (matching (q_filter all_tokens) (view s))"
    by (rule finite_subset [of _ "dom (view s)"]) (use assms(2) in \<open>auto simp: backed_def matching_def\<close>)
  moreover have "keyed env_hash (view s)" using assms(2) by (simp add: backed_def)
  moreover have "mset (filter (token_expired now) vs) \<subseteq># mset vs" for vs by (simp add: mset_filter)
  ultimately show ?thesis
    using expunge_loop_total [OF assms(1), of all_tokens s env_hash "filter (token_expired now)"
        "''readmodels.enroll_sweep''" "''readmodels.enroll_sweep''"] unfolding sweep_expired_def by fastforce
qed

lemma backed_put:
  assumes "backed hash toks hist m" "inj_on hash toks" "raw_url bytes \<in> toks"
    and "\<And>token. spends token (Mint_Link (Inr bytes) email uid t t', ans) \<Longrightarrow> token = raw_url bytes"
  shows "backed hash toks (hist @ [(Mint_Link (Inr bytes) email uid t t', ans)])
    (m(hash (raw_url bytes) \<mapsto> enroll_fold (hash (raw_url bytes)) email uid (t + enroll_ttl)))"
    (is "backed hash toks ?h (m(?k \<mapsto> ?v))")
proof -
  have "keyed env_hash (m(?k \<mapsto> ?v))"
    using assms(1) by (simp add: backed_def keyed_def rows_ok_put enroll_fold_def)
  moreover have "\<exists>token \<in> toks. hash token = k \<and> unspent ?h token (env_email v) (env_user v) (env_expires v)"
    if at: "(m(?k \<mapsto> ?v)) k = Some v" for k v
  proof (cases "k = ?k")
    case True
    then show ?thesis using at assms(3) unspent_minted [of hist bytes email uid t t' ans]
      by (auto simp: enroll_fold_def)
  next
    case False
    then have "m k = Some v" using at by simp
    then obtain token where t: "token \<in> toks" "hash token = k" "unspent hist token (env_email v) (env_user v) (env_expires v)"
      using assms(1) unfolding backed_def by blast
    have "\<not> spends token (Mint_Link (Inr bytes) email uid t t', ans)" using assms(4) t(2) False by blast
    then show ?thesis using unspent_step [OF t(3)] t(1,2) by blast
  qed
  ultimately show ?thesis using assms(1) by (simp add: backed_def)
qed

lemma mint_backed:
  assumes laws: "engine_laws E view" and b: "backed hash toks hist (view s)" and inj: "inj_on hash toks"
    and toks: "act_tokens (Mint_Link buf email uid t t') \<subseteq> toks"
  shows "\<exists>r s'. mint_enroll_token E hash buf email uid t t' s = Some (r, s') \<and>
    backed hash toks (hist @ [(Mint_Link buf email uid t t', Link r)]) (view s')"
proof (cases buf)
  case (Inl u)
  have "backed hash toks (hist @ [(Mint_Link buf email uid t t', Link (Inl (Coded Infrastructure ''userauth.enroll.entropy'')))]) (view s)"
    by (rule backed_other [OF b]) (simp add: spends_def)
  then show ?thesis using Inl by (simp add: mint_enroll_token_def)
next
  case (Inr bytes)
  let ?tok = "raw_url bytes" and ?v = "enroll_fold (hash (raw_url bytes)) email uid (t + enroll_ttl)"
  obtain q s1 where sw: "sweep_expired E t' s = Some (q, s1)" "view s1 \<subseteq>\<^sub>m view s"
    using sweep_expired_total [OF laws b] by blast
  have b1: "backed hash toks hist (view s1)" by (rule backed_sub [OF b sw(2)])
  have quiet: "backed hash toks (hist @ [(Mint_Link buf email uid t t', Link (Inl e))]) (view s1)" for e
    by (rule backed_other [OF b1]) (simp add: spends_def)
  show ?thesis
  proof (cases q)
    case (Inl e)
    then show ?thesis using \<open>buf = Inr bytes\<close> sw(1) quiet [of e]
      by (simp add: mint_enroll_token_def enroll_mint_def)
  next
    case (Inr u)
    obtain r2 s2 where put: "wrap_write ''readmodels.enroll_mint'' (eng_put E (hash ?tok) ?v s1) = (r2, s2)"
      by (rule prod.exhaust)
    let ?r = "case r2 of Inl e \<Rightarrow> Inl e | Inr _ \<Rightarrow> Inr ?tok"
    have "mint_enroll_token E hash buf email uid t t' s = Some (?r, s2)"
      using \<open>buf = Inr bytes\<close> sw(1) Inr put by (simp add: mint_enroll_token_def enroll_mint_def Let_def del: wrap_write_eq)
    moreover have "backed hash toks (hist @ [(Mint_Link (Inr bytes) email uid t t', Link ?r)]) ((view s1)(hash ?tok \<mapsto> ?v))"
      using toks \<open>buf = Inr bytes\<close> by (intro backed_put [OF b1 inj]) (auto simp: spends_def split: sum.splits)
    moreover have "backed hash toks (hist @ [(Mint_Link buf email uid t t', Link ?r)]) (view s2)"
      if "r2 = Inl e" "view s2 = view s1" for e using quiet [of e] that by simp
    ultimately show ?thesis using put_wrapped [OF laws put] \<open>buf = Inr bytes\<close> by metis
  qed
qed

lemma use_backed:
  assumes laws: "engine_laws E view" and b: "backed hash toks hist (view s)" and inj: "inj_on hash toks"
    and tok: "token \<in> toks" and run: "verify_enroll_token E hash parse_user token now s = (r, s')"
  shows "backed hash toks (hist @ [(Use_Link token now, Used r)]) (view s') \<and>
    rightly_used parse_user hist (Use_Link token now) (Used r)"
proof -
  have quiet: "backed hash toks (hist @ [(Use_Link token now, Used (Inl e))]) m"
    if "m = view s \<or> m = (view s)(hash token := None)" for e m
    using that by (elim disjE) (rule backed_other, use b backed_drop in \<open>auto simp: spends_def\<close>)+
  have burn: "view s2 = (view s)(hash token := None) \<or> (\<exists>e. q = Inl e) \<and> view s2 = view s"
    if "enroll_burn E (hash token) s = (q, s2)" for q s2
    using del_wrapped [OF laws that [unfolded enroll_burn_def]] by blast
  show ?thesis
  proof (cases r)
    case (Inl e)
    then have "s' = s \<or> (\<exists>q. enroll_burn E (hash token) s = (q, s'))"
      using run by (auto simp: verify_enroll_token_def Let_def split: if_splits sum.splits option.splits prod.splits)
    then have "view s' = view s \<or> view s' = (view s)(hash token := None)" using burn by blast
    then show ?thesis using quiet Inl by (simp add: rightly_used_def)
  next
    case (Inr out)
    then obtain v uid u where v: "eng_get E (hash token) s = Inr (Some v)" "parse_user (env_user v) = Some uid"
      "now < time_unix (env_expires v)" "enroll_burn E (hash token) s = (Inr u, s')" "out = (env_email v, uid)"
      using run by (auto simp: verify_enroll_token_def enroll_lookup_def Let_def
          split: if_splits sum.splits option.splits prod.splits)
    have row: "view s (hash token) = Some v" using engine_get [OF laws v(1)] by simp
    then obtain token' where "token' \<in> toks" "hash token' = hash token"
      "unspent hist token' (env_email v) (env_user v) (env_expires v)"
      using b unfolding backed_def by blast
    then have "unspent hist token (env_email v) (env_user v) (env_expires v)" using inj tok by (metis inj_on_def)
    then have "rightly_used parse_user hist (Use_Link token now) (Used r)"
      using v Inr by (auto simp: rightly_used_def)
    moreover have "view s' = (view s)(hash token := None)" using burn [OF v(4)] by simp
    moreover have "backed hash toks (hist @ [(Use_Link token now, Used r)]) ((view s)(hash token := None))"
      by (rule backed_other [OF backed_drop [OF b]]) (auto simp: spends_def split: if_splits)
    ultimately show ?thesis by simp
  qed
qed

lemma enroll_step_backed:
  assumes "engine_laws E view" "backed hash toks hist (view s)" "inj_on hash toks" "act_tokens a \<subseteq> toks"
  shows "\<exists>r s'. enroll_step E hash parse_user a s = Some (r, s') \<and>
    backed hash toks (hist @ [(a, r)]) (view s') \<and> rightly_used parse_user hist a r"
proof (cases a)
  case (Mint_Link buf email uid t t')
  then show ?thesis using mint_backed [OF assms(1,2,3), of buf email uid t t'] assms(4)
    by (force simp: rightly_used_def)
next
  case (Use_Link token now)
  obtain r s' where run: "verify_enroll_token E hash parse_user token now s = (r, s')" by (rule prod.exhaust)
  show ?thesis using use_backed [OF assms(1,2,3) _ run] assms(4) run Use_Link by simp
qed

lemma enroll_run_backed:
  assumes "engine_laws E view" "backed hash toks hist (view s)" "inj_on hash toks" "\<Union> (act_tokens ` set as) \<subseteq> toks"
  shows "\<exists>rs s'. enroll_run E hash parse_user as s = Some (rs, s') \<and> length rs = length as \<and>
    (\<forall>i < length as. rightly_used parse_user (hist @ take i (zip as rs)) (as ! i) (rs ! i))"
  using assms(2,4)
proof (induction as arbitrary: s hist)
  case Nil
  then show ?case by simp
next
  case (Cons a as)
  have toks: "act_tokens a \<subseteq> toks" "\<Union> (act_tokens ` set as) \<subseteq> toks" using Cons.prems(2) by auto
  obtain r s1 where one: "enroll_step E hash parse_user a s = Some (r, s1)"
    "backed hash toks (hist @ [(a, r)]) (view s1)" "rightly_used parse_user hist a r"
    using enroll_step_backed [OF assms(1) Cons.prems(1) assms(3) toks(1)] by blast
  obtain rs s2 where rest: "enroll_run E hash parse_user as s1 = Some (rs, s2)" "length rs = length as"
    "\<forall>i < length as. rightly_used parse_user ((hist @ [(a, r)]) @ take i (zip as rs)) (as ! i) (rs ! i)"
    using Cons.IH [OF one(2) toks(2)] by blast
  have "rightly_used parse_user (hist @ take i (zip (a # as) (r # rs))) ((a # as) ! i) ((r # rs) ! i)"
    if "i < length (a # as)" for i
    using that one(3) rest(3) by (cases i) simp_all
  then show ?case using one(1) rest(1,2) by (intro exI [of _ "r # rs"] exI [of _ s2]) simp
qed

text \<open>A fresh link over an engine that does not fail admits its account, once.\<close>

lemma enroll_first_use:
  assumes "engine_laws E view" "reliable E" "view s (hash token) = Some v" "16 \<le> length token"
    and "parse_user (env_user v) = Some uid" "now < time_unix (env_expires v)"
  shows "\<exists>s'. verify_enroll_token E hash parse_user token now s = (Inr (env_email v, uid), s') \<and>
    verify_enroll_token E hash parse_user token later s' = (Inl (Coded Rejection ''userauth.enroll.invalid''), s')"
proof -
  have get: "eng_get E (hash token) t = Inr (view t (hash token))" for t
    using assms(1,2) engine_get unfolding reliable_def by metis
  obtain s' where del: "eng_del E (hash token) s = (Inr (), s')"
    using assms(2) unfolding reliable_def by (metis prod.collapse)
  have "view s' (hash token) = None" using engine_del_ok [OF assms(1) del] by simp
  then show ?thesis using assms(3-6) get del
    by (simp add: verify_enroll_token_def enroll_lookup_def enroll_burn_def Let_def wrap_write_def)
qed

text \<open>
  An enrollment link admits once. For any sequence of mints and uses over an engine that
  keeps its contract and may fail at any time, from an empty collection, with a digest that
  does not collide on the tokens that occur: the sequence returns (the sweep before each
  mint ends), and every use that is answered with an account names the e-mail and the user
  id one earlier mint stored under exactly this token, is within the fifteen minutes of
  that mint, and no use of the token was answered since.
\<close>

theorem enroll_once:
  assumes "engine_laws E view" "view s = Map.empty" "inj_on hash (\<Union> (act_tokens ` set as))"
  shows "\<exists>rs s'. enroll_run E hash parse_user as s = Some (rs, s') \<and> length rs = length as \<and>
    (\<forall>i < length as. rightly_used parse_user (take i (zip as rs)) (as ! i) (rs ! i))"
proof -
  have "backed hash (\<Union> (act_tokens ` set as)) [] (view s)"
    using assms(2) by (simp add: backed_def keyed_def)
  from enroll_run_backed [OF assms(1) this assms(3) order.refl] show ?thesis by simp
qed

theorem enroll_once_witness:
  "let bytes = map (\<lambda>i. i mod 7) [0..<32];
       acts = [Mint_Link (Inr bytes) ''a@b'' ''7'' 0 0, Use_Link (raw_url bytes) second, Use_Link (raw_url bytes) second]
   in (\<exists>rs s'. enroll_run mem_engine (\<lambda>t. t) Some acts [] = Some (rs, s') \<and> length rs = length acts \<and>
         (\<forall>i < length acts. rightly_used Some (take i (zip acts rs)) (acts ! i) (rs ! i))) \<and>
      map_option fst (enroll_run mem_engine (\<lambda>t. t) Some acts []) =
        Some [Link (Inr (raw_url bytes)), Used (Inr (''a@b'', ''7'')), Used (Inl (Coded Rejection ''userauth.enroll.invalid''))]"
  unfolding Let_def
proof (rule conjI, goal_cases)
  case 1
  show ?case by (rule enroll_once [OF mem_engine_laws]) simp_all
next
  case 2
  have "sweep_expired mem_engine 0 [] = Some (Inr (), [])"
    unfolding sweep_expired_def by (subst expunge_loop.simps) (simp add: mem_engine_def query_run_def query_order_def all_tokens_def)
  moreover have "length (raw_url (map (\<lambda>i. i mod 7) [0..<32])) = 43" by code_simp
  ultimately show ?case
    by (simp add: mint_enroll_token_def enroll_mint_def verify_enroll_token_def enroll_lookup_def enroll_burn_def
        enroll_fold_def enroll_ttl_def second_def unix_def time_unix_def wrap_write_def mem_engine_def Let_def)
qed

end
