(* ===== verification/Login.thy ===== *)
theory Login
  imports Sso Enroll Session_Laws
begin

text \<open>
  The login surface of \<^verbatim>\<open>internal/server\<close>: the extension login, the line switch, resume and
  logout (\<^verbatim>\<open>session_api.go\<close>), the passkey ceremonies and the enrollment of passkeys
  (\<^verbatim>\<open>passkey_api.go\<close>), the OpenID Connect dance (\<^verbatim>\<open>sso_api.go\<close>), and the directory the PBX asks
  (\<^verbatim>\<open>internal_directory.go\<close>). The identity library is foreign: \<open>identity_ops\<close> is the record of its
  calls over a state of its own. A request brings its session cookie, what the PBX directory
  and the password files answer during it, random bytes and clock readings (\<open>login_env\<close>).
  JSON decoding is an argument of the acts: \<open>None\<close> for a body that does not decode. The rate
  limits, the CSRF check of the middleware and the log lines are not modelled; the
  decoration of an identity with the draft mode of the text agent is left out.
\<close>

section \<open>Seams\<close>

datatype id_error = User_Not_Found | No_Credentials | Account_Locked | Identity_Failure

record 'u identity_ops =
  io_parse :: "string \<Rightarrow> string option"
  io_begin_login :: "string \<Rightarrow> 'u \<Rightarrow> (id_error + string) \<times> 'u"
  io_finish_login :: "string \<Rightarrow> string \<Rightarrow> 'u \<Rightarrow> (id_error + string) \<times> 'u"
  io_begin_enroll :: "string \<Rightarrow> 'u \<Rightarrow> (id_error + string) \<times> 'u"
  io_finish_enroll :: "string \<Rightarrow> string \<Rightarrow> string \<Rightarrow> 'u \<Rightarrow> (id_error + unit) \<times> 'u"

record ('s, 'u, 't) login_seams =
  ls_sessions :: "'s session_ops"
  ls_identity :: "'u identity_ops"
  ls_tokens :: "('t, string, enroll_view) engine"
  ls_hash :: "string \<Rightarrow> string"
  ls_lower :: "string \<Rightarrow> string"
  ls_derive :: "string \<Rightarrow> string \<Rightarrow> string"

record login_deps =
  ld_life :: lifetime
  ld_secure :: bool
  ld_phone :: bool
  ld_users :: "authmap option"
  ld_sso :: "sso_client option"
  ld_secret :: string
  ld_identities :: "(string, string) fmap"

record ('s, 'u, 't) login_world =
  lw_sessions :: 's
  lw_identity :: 'u
  lw_tokens :: 't

datatype pbx_answer = Directory_Ok | Directory_Denied | Directory_Slow | Directory_Down

record login_env =
  le_faults :: faults
  le_request :: request
  le_at :: readings
  le_pbx :: "extension \<Rightarrow> string \<Rightarrow> pbx_answer"
  le_file :: "string \<Rightarrow> string option"
  le_entropy :: entropy
  le_now :: time

section \<open>Replies\<close>

record who =
  wh_extension :: extension
  wh_did :: string
  wh_name :: string
  wh_numbers :: "string list"
  wh_lines :: "string list"

datatype reply_body =
    No_Body
  | Identity who string string
  | Ceremony string
  | Enrolling string string
  | Registered

text \<open>
  The session cookie set or cleared, whether the CSRF cookie was rotated, the cookies of a
  sign-in attempt (\<open>Some None\<close> when cleared), the caching header and the redirect.
\<close>

record login_reply =
  lr_status :: int
  lr_cookie :: "cookie option"
  lr_csrf :: bool
  lr_attempt :: "challenge option option"
  lr_no_store :: bool
  lr_location :: string
  lr_body :: reply_body

definition reply :: "int \<Rightarrow> login_reply" where
  "reply status =
     \<lparr>lr_status = status, lr_cookie = None, lr_csrf = False, lr_attempt = None, lr_no_store = False,
      lr_location = [], lr_body = No_Body\<rparr>"

fun keep_new :: "string list \<Rightarrow> string list \<Rightarrow> string list" where
  "keep_new seen [] = []"
| "keep_new seen (d # ds) =
     (if d = [] \<or> d \<in> set seen then keep_new seen ds else d # keep_new (d # seen) ds)"

definition numbers_for :: "login_deps \<Rightarrow> mapped_user \<Rightarrow> string list" where
  "numbers_for D u = keep_new [] (map (\<lambda>ext. go_lookup (ld_identities D) (ext_string ext)) (mu_extensions u))"

definition session_identity :: "(string \<Rightarrow> string) \<Rightarrow> login_deps \<Rightarrow> extension \<Rightarrow> string \<Rightarrow> who" where
  "session_identity lower D ext email =
     (let base = \<lparr>wh_extension = ext, wh_did = go_lookup (ld_identities D) (ext_string ext), wh_name = [],
                  wh_numbers = [], wh_lines = []\<rparr> in
      case ld_users D of
        None \<Rightarrow> base
      | Some am \<Rightarrow>
          (case mapped_by_login lower (Some am) ext email of
             None \<Rightarrow> base
           | Some u \<Rightarrow>
               base\<lparr>wh_name := mu_name u, wh_numbers := numbers_for D u,
                    wh_lines := map ext_string (mu_extensions u)\<rparr>))"

section \<open>The shared steps\<close>

text \<open>The directory check answers the status of a refusal; without a phone API it is skipped.\<close>

definition verify_directory :: "login_deps \<Rightarrow> login_env \<Rightarrow> extension \<Rightarrow> string \<Rightarrow> int option" where
  "verify_directory D env ext pw =
     (if \<not> ld_phone D then None
      else
        case le_pbx env ext pw of
          Directory_Ok \<Rightarrow> None
        | Directory_Denied \<Rightarrow> Some 401
        | Directory_Slow \<Rightarrow> Some 504
        | Directory_Down \<Rightarrow> Some 502)"

definition login_cookie :: "login_deps \<Rightarrow> login_env \<Rightarrow> token \<Rightarrow> cookie" where
  "login_cookie D env tok = set_cookie (ld_secure D) (req_tls (le_request env)) tok (life_idle (ld_life D))"

definition mint_session ::
  "('s, 'u, 't) login_seams \<Rightarrow> login_env \<Rightarrow> extension \<Rightarrow> string \<Rightarrow> string \<Rightarrow> ('s, 'u, 't) login_world \<Rightarrow>
     (err + token) \<times> ('s, 'u, 't) login_world" where
  "mint_session L env ext pw email w =
     (case so_create (ls_sessions L) (le_faults env) ext pw email (le_entropy env) (le_now env) (lw_sessions w) of
        (r, s') \<Rightarrow> (r, w\<lparr>lw_sessions := s'\<rparr>))"

text \<open>The browser gets the derived credential when brokering is on, the password never then.\<close>

definition brokered :: "login_deps \<Rightarrow> bool" where "brokered D \<longleftrightarrow> ld_secret D \<noteq> []"

definition credential_for :: "('s, 'u, 't) login_seams \<Rightarrow> login_deps \<Rightarrow> token \<Rightarrow> string" where
  "credential_for L D tok = (if brokered D then ls_derive L (ld_secret D) (token_string tok) else [])"

section \<open>The extension login and the session\<close>

definition create_session ::
  "('s, 'u, 't) login_seams \<Rightarrow> login_deps \<Rightarrow> login_env \<Rightarrow> (string \<times> string) option \<Rightarrow> ('s, 'u, 't) login_world \<Rightarrow>
     login_reply \<times> ('s, 'u, 't) login_world" where
  "create_session L D env body w =
     (case body of
        None \<Rightarrow> (reply 400, w)
      | Some (raw, pw) \<Rightarrow>
          (case parse_extension raw of
             Inl _ \<Rightarrow> (reply 400, w)
           | Inr ext \<Rightarrow>
               if pw = [] then (reply 400, w)
               else
                 (case verify_directory D env ext pw of
                    Some status \<Rightarrow> (reply status, w)
                  | None \<Rightarrow>
                      (case mint_session L env ext pw [] w of
                         (Inl _, w') \<Rightarrow> (reply 500, w')
                       | (Inr tok, w') \<Rightarrow>
                           ((reply 201)\<lparr>lr_cookie := Some (login_cookie D env tok), lr_csrf := True,
                              lr_no_store := brokered D,
                              lr_body := Identity (session_identity (ls_lower L) D ext []) (credential_for L D tok) []\<rparr>, w')))))"

definition switch_extension ::
  "('s, 'u, 't) login_seams \<Rightarrow> login_deps \<Rightarrow> login_env \<Rightarrow> session option \<Rightarrow> string option \<Rightarrow> ('s, 'u, 't) login_world \<Rightarrow>
     login_reply \<times> ('s, 'u, 't) login_world" where
  "switch_extension L D env sess body w =
     (case sess of
        None \<Rightarrow> (reply 401, w)
      | Some cur \<Rightarrow>
          (case body of
             None \<Rightarrow> (reply 400, w)
           | Some raw \<Rightarrow>
               (case parse_extension raw of
                  Inl _ \<Rightarrow> (reply 400, w)
                | Inr target \<Rightarrow>
                    if sess_email cur = [] then (reply 403, w)
                    else
                      (case resolve (ls_lower L) (ld_users D) (sess_email cur) of
                         None \<Rightarrow> (reply 403, w)
                       | Some u \<Rightarrow>
                           if target \<notin> set (mu_extensions u) then (reply 403, w)
                           else if target = sess_extension cur then
                             ((reply 200)\<lparr>lr_no_store := True,
                                lr_body := Identity (session_identity (ls_lower L) D (sess_extension cur) (sess_email cur)) [] []\<rparr>, w)
                           else
                             (case sip_password (le_file env) (ld_users D) target of
                                Inl _ \<Rightarrow> (reply 503, w)
                              | Inr pw \<Rightarrow>
                                  (case verify_directory D env target pw of
                                     Some status \<Rightarrow> (reply status, w)
                                   | None \<Rightarrow>
                                       (case mint_session L env target pw (sess_email cur) w of
                                          (Inl _, w') \<Rightarrow> (reply 500, w')
                                        | (Inr tok, w') \<Rightarrow>
                                            ((reply 200)\<lparr>lr_cookie := Some (login_cookie D env tok), lr_csrf := True,
                                               lr_no_store := brokered D,
                                               lr_body := Identity (session_identity (ls_lower L) D target (sess_email cur))
                                                 (credential_for L D tok) []\<rparr>,
                                             w'\<lparr>lw_sessions := so_delete (ls_sessions L) (le_faults env)
                                               (token_from_request (le_request env)) (lw_sessions w')\<rparr>))))))))"

definition get_session ::
  "('s, 'u, 't) login_seams \<Rightarrow> login_deps \<Rightarrow> login_env \<Rightarrow> session option \<Rightarrow> login_reply" where
  "get_session L D env sess =
     (case sess of
        None \<Rightarrow> reply 401
      | Some cur \<Rightarrow>
          (reply 200)\<lparr>lr_no_store := True,
            lr_body := Identity (session_identity (ls_lower L) D (sess_extension cur) (sess_email cur))
              (credential_for L D (token_from_request (le_request env)))
              (if brokered D then [] else sess_password cur)\<rparr>)"

text \<open>The lookup of the logout only serves the audit line, but it may end the session or panic.\<close>

definition destroy_session ::
  "('s, 'u, 't) login_seams \<Rightarrow> login_deps \<Rightarrow> login_env \<Rightarrow> ('s, 'u, 't) login_world \<Rightarrow>
     login_reply option \<times> ('s, 'u, 't) login_world" where
  "destroy_session L D env w =
     (let tok = token_from_request (le_request env) in
      case so_get (ls_sessions L) (le_faults env) tok (le_now env) (lw_sessions w) of
        (Inl _, s1) \<Rightarrow> (None, w\<lparr>lw_sessions := s1\<rparr>)
      | (Inr _, s1) \<Rightarrow>
          (Some ((reply 204)\<lparr>lr_cookie := Some (clear_cookie (ld_secure D)), lr_csrf := True\<rparr>),
           w\<lparr>lw_sessions := so_delete (ls_sessions L) (le_faults env) tok s1\<rparr>))"

definition internal_directory ::
  "('s, 'u, 't) login_seams \<Rightarrow> login_deps \<Rightarrow> faults \<Rightarrow> bool \<Rightarrow> string \<Rightarrow> time \<Rightarrow> ('s, 'u, 't) login_world \<Rightarrow>
     int + string fset" where
  "internal_directory L D fl loopback raw now w =
     (if \<not> brokered D then Inl 404
      else if \<not> loopback then Inl 403
      else
        case parse_extension raw of
          Inl _ \<Rightarrow> Inl 400
        | Inr ext \<Rightarrow> Inr ((\<lambda>tok. ls_derive L (ld_secret D) (token_string tok)) |`| so_active (ls_sessions L) fl ext now (lw_sessions w)))"

section \<open>The passkey login\<close>

definition passkey_error :: "id_error option \<Rightarrow> login_reply" where
  "passkey_error e = reply (if e = Some Account_Locked then 429 else 503)"

definition passkey_begin_login ::
  "('s, 'u, 't) login_seams \<Rightarrow> string option \<Rightarrow> ('s, 'u, 't) login_world \<Rightarrow> login_reply \<times> ('s, 'u, 't) login_world" where
  "passkey_begin_login L body w =
     (case body of
        None \<Rightarrow> (reply 400, w)
      | Some email \<Rightarrow>
          if email = [] then (reply 400, w)
          else
            (case io_begin_login (ls_identity L) email (lw_identity w) of
               (r, u') \<Rightarrow>
                 ((case r of
                     Inr key \<Rightarrow> (reply 200)\<lparr>lr_body := Ceremony key\<rparr>
                   | Inl User_Not_Found \<Rightarrow> reply 401
                   | Inl No_Credentials \<Rightarrow> reply 401
                   | Inl Account_Locked \<Rightarrow> reply 429
                   | Inl e \<Rightarrow> passkey_error (Some e)), w\<lparr>lw_identity := u'\<rparr>)))"

text \<open>\<^verbatim>\<open>Service.FinishLogin\<close>: the library verifies the assertion, the mapping admits its account.\<close>

definition finish_login ::
  "('s, 'u, 't) login_seams \<Rightarrow> login_deps \<Rightarrow> string \<Rightarrow> string \<Rightarrow> 'u \<Rightarrow> (id_error option + mapped_user) \<times> 'u" where
  "finish_login L D uid assertion u =
     (case io_finish_login (ls_identity L) uid assertion u of
        (Inl e, u') \<Rightarrow> (Inl (Some e), u')
      | (Inr email, u') \<Rightarrow>
          ((case resolve (ls_lower L) (ld_users D) email of None \<Rightarrow> Inl None | Some m \<Rightarrow> Inr m), u'))"

definition passkey_finish_login ::
  "('s, 'u, 't) login_seams \<Rightarrow> login_deps \<Rightarrow> login_env \<Rightarrow> string \<Rightarrow> string \<Rightarrow> ('s, 'u, 't) login_world \<Rightarrow>
     login_reply \<times> ('s, 'u, 't) login_world" where
  "passkey_finish_login L D env raw assertion w =
     (if raw = [] then (reply 400, w)
      else
        case io_parse (ls_identity L) raw of
          None \<Rightarrow> (reply 400, w)
        | Some uid \<Rightarrow>
            (case finish_login L D uid assertion (lw_identity w) of
               (Inl e, u') \<Rightarrow> (if e = Some User_Not_Found then reply 401 else passkey_error e, w\<lparr>lw_identity := u'\<rparr>)
             | (Inr m, u') \<Rightarrow>
                 (let w1 = w\<lparr>lw_identity := u'\<rparr>; ext = session_extension m in
                  case sip_password (le_file env) (ld_users D) ext of
                    Inl _ \<Rightarrow> (passkey_error None, w1)
                  | Inr pw \<Rightarrow>
                      (case verify_directory D env ext pw of
                         Some status \<Rightarrow> (reply status, w1)
                       | None \<Rightarrow>
                           (case mint_session L env ext pw (mu_email m) w1 of
                              (Inl _, w2) \<Rightarrow> (reply 500, w2)
                            | (Inr tok, w2) \<Rightarrow>
                                ((reply 201)\<lparr>lr_cookie := Some (login_cookie D env tok), lr_csrf := True, lr_no_store := True,
                                   lr_body := Identity (session_identity (ls_lower L) D ext (mu_email m)) (credential_for L D tok)
                                     (if brokered D then [] else pw)\<rparr>, w2))))))"

section \<open>The enrollment of a passkey\<close>

definition enroll_link ::
  "('s, 'u, 't) login_seams \<Rightarrow> login_env \<Rightarrow> string option \<Rightarrow> ('s, 'u, 't) login_world \<Rightarrow>
     login_reply \<times> ('s, 'u, 't) login_world" where
  "enroll_link L env body w =
     (case body of
        None \<Rightarrow> (reply 400, w)
      | Some token \<Rightarrow>
          if token = [] then (reply 400, w)
          else
            (case verify_enroll_token (ls_tokens L) (ls_hash L) (io_parse (ls_identity L)) token (le_now env) (lw_tokens w) of
               (r, t') \<Rightarrow>
                 ((case r of
                     Inl _ \<Rightarrow> passkey_error None
                   | Inr (email, uid) \<Rightarrow> (reply 200)\<lparr>lr_body := Enrolling email uid\<rparr>), w\<lparr>lw_tokens := t'\<rparr>)))"

definition enroll_begin ::
  "('s, 'u, 't) login_seams \<Rightarrow> string option \<Rightarrow> ('s, 'u, 't) login_world \<Rightarrow> login_reply \<times> ('s, 'u, 't) login_world" where
  "enroll_begin L body w =
     (case body of
        None \<Rightarrow> (reply 400, w)
      | Some raw \<Rightarrow>
          if raw = [] then (reply 400, w)
          else
            (case io_parse (ls_identity L) raw of
               None \<Rightarrow> (reply 400, w)
             | Some uid \<Rightarrow>
                 (case io_begin_enroll (ls_identity L) uid (lw_identity w) of
                    (r, u') \<Rightarrow>
                      ((case r of Inl e \<Rightarrow> passkey_error (Some e) | Inr options \<Rightarrow> (reply 200)\<lparr>lr_body := Ceremony options\<rparr>),
                       w\<lparr>lw_identity := u'\<rparr>))))"

definition enroll_finish ::
  "('s, 'u, 't) login_seams \<Rightarrow> string \<Rightarrow> string \<Rightarrow> string \<Rightarrow> ('s, 'u, 't) login_world \<Rightarrow>
     login_reply \<times> ('s, 'u, 't) login_world" where
  "enroll_finish L raw attestation name w =
     (if raw = [] then (reply 400, w)
      else
        case io_parse (ls_identity L) raw of
          None \<Rightarrow> (reply 400, w)
        | Some uid \<Rightarrow>
            (case io_finish_enroll (ls_identity L) uid attestation (if name = [] then ''passkey'' else name) (lw_identity w) of
               (r, u') \<Rightarrow>
                 ((case r of Inl e \<Rightarrow> passkey_error (Some e) | Inr _ \<Rightarrow> (reply 200)\<lparr>lr_body := Registered\<rparr>),
                  w\<lparr>lw_identity := u'\<rparr>)))"

section \<open>The OpenID Connect login\<close>

definition sso_error_code :: "err \<Rightarrow> string" where
  "sso_error_code e =
     (case e of
        Coded _ code \<Rightarrow>
          if code = ''sso.unmapped_email'' then ''unmapped''
          else if code \<in> {''authmap.password_file.missing'', ''authmap.password_file.read'', ''authmap.password_file.empty''}
          then ''directory''
          else if code = ''sso.email_unverified'' then ''unverified''
          else if code = ''sso.groups_denied'' then ''groups''
          else if code \<in> {''sso.state.mismatch'', ''sso.nonce.mismatch'', ''sso.attempt.missing''} then ''stale''
          else if code \<in> {''sso.client_secret.read'', ''sso.client_secret.empty'', ''sso.exchange''} then ''config''
          else if code \<in> {''sso.discovery'', ''sso.userinfo'', ''sso.id_token.verify''} then ''unavailable''
          else ''failed''
      | _ \<Rightarrow> ''failed'')"

definition sso_failed :: "err \<Rightarrow> login_reply" where
  "sso_failed e =
     (reply 303)\<lparr>lr_attempt := Some None, lr_no_store := True, lr_location := ''/?sso_error='' @ sso_error_code e\<rparr>"

text \<open>A panic of the client is a panic of the handler.\<close>

definition sso_begin :: "err + challenge \<Rightarrow> login_reply option" where
  "sso_begin r =
     (case r of
        Inl e \<Rightarrow> if e = Panic then None else Some (sso_failed e)
      | Inr ch \<Rightarrow> Some ((reply 302)\<lparr>lr_attempt := Some (Some ch), lr_no_store := True\<rparr>))"

record sso_query =
  sq_error :: string
  sq_state :: string
  sq_code :: string
  sq_state_cookie :: string
  sq_nonce_cookie :: string
  sq_verifier_cookie :: string

definition sso_callback ::
  "('s, 'u, 't) login_seams \<Rightarrow> login_deps \<Rightarrow> login_env \<Rightarrow> sso_client \<Rightarrow> sso_query \<Rightarrow> idp_answers \<Rightarrow>
     ('s, 'u, 't) login_world \<Rightarrow> login_reply option \<times> ('s, 'u, 't) login_world" where
  "sso_callback L D env cl q ia w =
     (if sq_error q \<noteq> [] then (Some (sso_failed (Coded Rejection ''sso.idp_error'')), w)
      else if sq_state_cookie q = [] \<or> sq_nonce_cookie q = [] \<or> sq_verifier_cookie q = []
      then (Some (sso_failed (Coded Rejection ''sso.attempt.missing'')), w)
      else if sq_state_cookie q \<noteq> sq_state q then (Some (sso_failed (Coded Rejection ''sso.state.mismatch'')), w)
      else
        case sso_complete (ls_lower L) (le_file env) cl ia (sq_code q) (sq_verifier_cookie q) (sq_nonce_cookie q) of
          Inl e \<Rightarrow> (if e = Panic then None else Some (sso_failed e), w)
        | Inr (m, pw) \<Rightarrow>
            (let ext = session_extension m in
             case verify_directory D env ext pw of
               Some status \<Rightarrow> (Some ((reply status)\<lparr>lr_attempt := Some None\<rparr>), w)
             | None \<Rightarrow>
                 (case mint_session L env ext pw (mu_email m) w of
                    (Inl _, w') \<Rightarrow> (Some ((reply 500)\<lparr>lr_attempt := Some None\<rparr>), w')
                  | (Inr tok, w') \<Rightarrow>
                      (Some ((reply 303)\<lparr>lr_cookie := Some (login_cookie D env tok), lr_csrf := True, lr_attempt := Some None,
                         lr_location := ''/''\<rparr>), w'))))"

section \<open>The routes\<close>

datatype login_act =
    Sign_In "(string \<times> string) option"
  | Switch_Line "string option"
  | Resume
  | Sign_Out
  | Begin_Passkey "string option"
  | Finish_Passkey string string
  | Open_Link "string option"
  | Begin_Enroll "string option"
  | Finish_Enroll string string string
  | Begin_Sso "err + challenge"
  | Finish_Sso sso_query idp_answers

text \<open>
  The passkey routes and the line switch exist with the identity layer, the others of a mode
  with that mode; an absent route is the styled 404. Every route sits behind \<^verbatim>\<open>session.Attach\<close>.
\<close>

definition login_route ::
  "('s, 'u, 't) login_seams \<Rightarrow> login_deps \<Rightarrow> login_env \<Rightarrow> session option \<Rightarrow> login_act \<Rightarrow> ('s, 'u, 't) login_world \<Rightarrow>
     login_reply option \<times> ('s, 'u, 't) login_world" where
  "login_route L D env sess act w =
     (let passkey = (\<lambda>(r, w'). if ld_users D = None then (Some (reply 404), w) else (Some r, w')) in
      case act of
        Sign_In body \<Rightarrow> (case create_session L D env body w of (r, w') \<Rightarrow> (Some r, w'))
      | Switch_Line body \<Rightarrow> passkey (switch_extension L D env sess body w)
      | Resume \<Rightarrow> (Some (get_session L D env sess), w)
      | Sign_Out \<Rightarrow> destroy_session L D env w
      | Begin_Passkey body \<Rightarrow> passkey (passkey_begin_login L body w)
      | Finish_Passkey raw assertion \<Rightarrow> passkey (passkey_finish_login L D env raw assertion w)
      | Open_Link body \<Rightarrow> passkey (enroll_link L env body w)
      | Begin_Enroll body \<Rightarrow> passkey (enroll_begin L body w)
      | Finish_Enroll raw attestation name \<Rightarrow> passkey (enroll_finish L raw attestation name w)
      | Begin_Sso r \<Rightarrow> (if ld_sso D = None then Some (reply 404) else sso_begin r, w)
      | Finish_Sso q ia \<Rightarrow>
          (case ld_sso D of None \<Rightarrow> (Some (reply 404), w) | Some cl \<Rightarrow> sso_callback L D env cl q ia w))"

definition login_serve ::
  "('s, 'u, 't) login_seams \<Rightarrow> login_deps \<Rightarrow> login_env \<Rightarrow> login_act \<Rightarrow> ('s, 'u, 't) login_world \<Rightarrow>
     (cookie option \<times> login_reply) option \<times> ('s, 'u, 't) login_world" where
  "login_serve L D env act w =
     (case lookup_session (ls_sessions L) (le_faults env) (normalized (ld_life D)) (ld_secure D) (le_request env) (le_at env)
             (lw_sessions w) of
        (Inl _, s1) \<Rightarrow> (None, w\<lparr>lw_sessions := s1\<rparr>)
      | (Inr (sess, ck), s1) \<Rightarrow>
          (case login_route L D env sess act (w\<lparr>lw_sessions := s1\<rparr>) of
             (None, w') \<Rightarrow> (None, w')
           | (Some r, w') \<Rightarrow> (Some (ck, r), w')))"

fun login_run ::
  "('s, 'u, 't) login_seams \<Rightarrow> login_deps \<Rightarrow> (login_env \<times> login_act) list \<Rightarrow> ('s, 'u, 't) login_world \<Rightarrow>
     (cookie option \<times> login_reply) option list \<times> ('s, 'u, 't) login_world" where
  "login_run L D [] w = ([], w)"
| "login_run L D ((env, act) # as) w =
     (case login_serve L D env act w of
        (r, w') \<Rightarrow> (case login_run L D as w' of (rs, w'') \<Rightarrow> (r # rs, w'')))"

end
