(* ===== verification/Login_Laws.thy ===== *)
theory Login_Laws
  imports Login
begin

text \<open>
  What the login surface promises over a session store that keeps the contract
  \<open>session_store\<close>: every session of a run was proved by the request that minted it.
\<close>

section \<open>What a run owes to each session\<close>

type_synonym ('s, 'u, 't) login_history = "(login_env \<times> login_act \<times> ('s, 'u, 't) login_world) list"

text \<open>The maps of the configured modes are built from parsed lines and name no file for an empty line.\<close>

definition sound_map :: "authmap \<Rightarrow> bool" where
  "sound_map am \<longleftrightarrow>
     (\<forall>u \<in> set (map_users (Some am)). \<forall>ext \<in> set (mu_extensions u). valid_extension ext) \<and>
     go_lookup (am_files am) [] = []"

definition login_maps :: "login_deps \<Rightarrow> authmap set" where
  "login_maps D = set_option (ld_users D) \<union> set_option (map_option so_map (ld_sso D))"

definition typed :: "login_deps \<Rightarrow> ('s, 'u, 't) login_history \<Rightarrow> session \<Rightarrow> bool" where
  "typed D hist v \<longleftrightarrow> sess_email v = [] \<and> sess_password v \<noteq> [] \<and>
     (\<exists>env raw w. (env, Sign_In (Some (raw, sess_password v)), w) \<in> set hist \<and>
        parse_extension raw = Inr (sess_extension v) \<and>
        verify_directory D env (sess_extension v) (sess_password v) = None)"

definition authenticated :: "('s, 'u, 't) login_seams \<Rightarrow> login_deps \<Rightarrow> ('s, 'u, 't) login_history \<Rightarrow> mapped_user \<Rightarrow> bool" where
  "authenticated L D hist m \<longleftrightarrow>
     (\<exists>env raw uid assertion w. (env, Finish_Passkey raw assertion, w) \<in> set hist \<and>
        io_parse (ls_identity L) raw = Some uid \<and> fst (finish_login L D uid assertion (lw_identity w)) = Inr m) \<or>
     (\<exists>env q ia w cl pw. (env, Finish_Sso q ia, w) \<in> set hist \<and> ld_sso D = Some cl \<and>
        sq_state q \<noteq> [] \<and> sq_state_cookie q = sq_state q \<and>
        sso_complete (ls_lower L) (le_file env) cl ia (sq_code q) (sq_verifier_cookie q) (sq_nonce_cookie q) = Inr (m, pw))"

definition fetched :: "login_deps \<Rightarrow> ('s, 'u, 't) login_history \<Rightarrow> session \<Rightarrow> bool" where
  "fetched D hist v \<longleftrightarrow>
     (\<exists>env act w. (env, act, w) \<in> set hist \<and>
        (\<exists>am \<in> login_maps D. sip_password (le_file env) (Some am) (sess_extension v) = Inr (sess_password v)) \<and>
        verify_directory D env (sess_extension v) (sess_password v) = None)"

definition vouch :: "('s, 'u, 't) login_seams \<Rightarrow> login_deps \<Rightarrow> ('s, 'u, 't) login_history \<Rightarrow> session \<Rightarrow> bool" where
  "vouch L D hist v \<longleftrightarrow> typed D hist v \<or>
     (\<exists>m. authenticated L D hist m \<and> sess_email v = mu_email m \<and> fetched D hist v \<and>
        (sess_extension v \<in> set (mu_extensions m) \<or>
         (\<exists>u. resolve (ls_lower L) (ld_users D) (mu_email m) = Some u \<and> sess_extension v \<in> set (mu_extensions u))))"

text \<open>The requests of a run, each with the world it met.\<close>

fun login_trace ::
  "('s, 'u, 't) login_seams \<Rightarrow> login_deps \<Rightarrow> (login_env \<times> login_act) list \<Rightarrow> ('s, 'u, 't) login_world \<Rightarrow>
     ('s, 'u, 't) login_history" where
  "login_trace L D [] w = []"
| "login_trace L D ((env, act) # as) w = (env, act, w) # login_trace L D as (snd (login_serve L D env act w))"

lemma authenticated_mono: "authenticated L D hist m \<Longrightarrow> authenticated L D (hist @ new) m"
  unfolding authenticated_def by (simp only: set_append Un_iff) blast

lemma vouch_mono: "vouch L D hist v \<Longrightarrow> vouch L D (hist @ new) v"
proof -
  have "typed D hist v \<Longrightarrow> typed D (hist @ new) v" by (auto simp: typed_def)
  moreover have "fetched D hist v \<Longrightarrow> fetched D (hist @ new) v" unfolding fetched_def by (simp only: set_append Un_iff) blast
  ultimately show "vouch L D hist v \<Longrightarrow> vouch L D (hist @ new) v"
    unfolding vouch_def using authenticated_mono by blast
qed

lemma vouch_expires: "vouch L D hist v \<Longrightarrow> vouch L D hist (v\<lparr>sess_expires := e\<rparr>)"
  by (simp add: vouch_def typed_def fetched_def)

lemma session_line:
  assumes "sound_map am" "m \<in> set (map_users (Some am))" "sip_password read (Some am) (session_extension m) = Inr pw"
  shows "session_extension m \<in> set (mu_extensions m) \<and> valid_extension (session_extension m)"
proof -
  have "go_lookup (am_files am) (ext_string (session_extension m)) \<noteq> []" using assms(3) by (auto simp: sip_password_ok)
  then have "mu_extensions m \<noteq> []"
    using assms(1) by (auto simp: sound_map_def session_extension_def zero_extension_def)
  then have "session_extension m \<in> set (mu_extensions m)"
    by (cases "mu_extensions m") (simp_all add: session_extension_def)
  then show ?thesis using assms(1,2) by (auto simp: sound_map_def)
qed

lemma sso_complete_user:
  assumes "sso_complete lower read cl ia code verifier nonce = Inr (m, pw)"
  shows "m \<in> set (map_users (Some (so_map cl))) \<and> sip_password read (Some (so_map cl)) (session_extension m) = Inr pw"
proof -
  obtain c where "admit_claims lower read cl c = Inr (m, pw)"
    using assms by (auto simp: sso_complete_def split: if_splits sum.splits option.splits prod.splits)
  then show ?thesis
    by (auto simp: admit_claims_def dest: resolve_user split: if_splits sum.splits option.splits)
qed

text \<open>Only a nil provider makes the surface panic.\<close>

definition nil_provider :: "login_act \<Rightarrow> bool" where
  "nil_provider act \<longleftrightarrow>
     (case act of Begin_Sso r \<Rightarrow> r = Inl Panic | Finish_Sso q ia \<Rightarrow> ia_provider ia \<in> {Inr False, Inl Panic} | _ \<Rightarrow> False)"

lemma sip_password_panic [simp]: "sip_password read am ext \<noteq> Inl Panic"
  by (auto simp: sip_password_def Let_def split: option.splits)

lemma sso_complete_panic:
  "sso_complete lower read cl ia code verifier nonce = Inl Panic \<Longrightarrow> ia_provider ia \<in> {Inr False, Inl Panic}"
  by (auto simp: sso_complete_def client_secret_def sso_claims_def admit_claims_def
      split: if_splits sum.splits option.splits prod.splits)

lemma callback_panic:
  "sso_callback L D env cl q ia w = (None, w') \<Longrightarrow> ia_provider ia \<in> {Inr False, Inl Panic}"
  by (auto simp: sso_callback_def Let_def split: if_splits sum.splits prod.splits option.splits dest: sso_complete_panic)

section \<open>Over a session store\<close>

context session_store
begin

definition all_sessions :: "(session \<Rightarrow> bool) \<Rightarrow> 's \<Rightarrow> bool" where
  "all_sessions P s \<longleftrightarrow> ok s \<and> (\<forall>k v. sv s k = Some v \<longrightarrow> P v)"

lemma all_sub: "all_sessions P s \<Longrightarrow> ok s' \<Longrightarrow> sv s' \<subseteq>\<^sub>m sv s \<Longrightarrow> all_sessions P s'"
  using map_le_Some unfolding all_sessions_def by fast

lemma all_mono: "all_sessions P s \<Longrightarrow> (\<And>v. P v \<Longrightarrow> Q v) \<Longrightarrow> all_sessions Q s"
  unfolding all_sessions_def by blast

lemma get_all:
  assumes "all_sessions P s" "so_get ops fl k now s = (g, s')"
  shows "all_sessions P s' \<and> (\<exists>a. g = Inr a \<and> (\<forall>v. a = Some v \<longrightarrow> P v))"
proof -
  have "ok s" using assms(1) by (simp add: all_sessions_def)
  note law = get [OF this assms(2)]
  then have "all_sessions P s'" using all_sub [OF assms(1)] by blast
  moreover have "\<exists>a. g = Inr a \<and> (\<forall>v. a = Some v \<longrightarrow> P v)"
    using law assms(1) unfolding all_sessions_def by blast
  ultimately show ?thesis by blast
qed

lemma renew_all:
  assumes "all_sessions P s" "so_renew ops fl k idle max_age now now' s = (g, s')"
    and stable: "\<And>v e. P v \<Longrightarrow> P (v\<lparr>sess_expires := e\<rparr>)"
  shows "all_sessions P s' \<and> (\<exists>a. g = Inr a \<and> (\<forall>v. a = Some v \<longrightarrow> P v))"
proof -
  have "ok s" using assms(1) by (simp add: all_sessions_def)
  note law = renew [OF this assms(2)]
  have known: "P u" if "sv s k' = Some u" for k' u using assms(1) that unfolding all_sessions_def by blast
  have long: "P v" if "prolonged max_age u v" "P u" for u v
    using stable [OF that(2), of "sess_expires v"] that(1) by (simp add: prolonged_def)
  have "P v" if "sv s' k' = Some v" for k' v
    using law [THEN conjunct2, THEN conjunct2, rule_format, OF that] known long by blast
  moreover obtain a where a: "g = Inr a"
    "\<forall>v. a = Some v \<longrightarrow> (\<exists>u. sv s k = Some u \<and> now \<le> sess_expires u \<and> prolonged max_age u v)"
    using law by blast
  moreover have "\<forall>v. a = Some v \<longrightarrow> P v" using a(2) known long by blast
  ultimately show ?thesis using law unfolding all_sessions_def by blast
qed

lemma lookup_all:
  assumes "all_sessions P s" "lookup_session ops fl life secure req t s = (x, s')"
    and stable: "\<And>v e. P v \<Longrightarrow> P (v\<lparr>sess_expires := e\<rparr>)"
  shows "all_sessions P s' \<and> (\<exists>y ck. x = Inr (y, ck) \<and> (\<forall>v. y = Some v \<longrightarrow> P v))"
proof -
  let ?k = "token_from_request req"
  obtain g s1 where got: "so_get ops fl ?k (at_get t) s = (g, s1)" by fastforce
  obtain a where a: "g = Inr a" "all_sessions P s1" "\<forall>v. a = Some v \<longrightarrow> P v" using get_all [OF assms(1) got] by blast
  obtain h s2 where slid: "so_renew ops fl ?k (life_idle life) (life_max life) (at_renew t) (at_due t) s1 = (h, s2)"
    by fastforce
  obtain b where b: "h = Inr b" "all_sessions P s2" "\<forall>v. b = Some v \<longrightarrow> P v"
    using renew_all [OF a(2) slid stable] by blast
  show ?thesis using assms(2) got a slid b
    by (auto simp: lookup_session_def Let_def split: option.splits if_splits)
qed

lemma create_all:
  assumes "all_sessions P s" "valid_extension ext" "so_create ops fl ext pw email buf now s = (r, s')"
    and new: "\<And>v. sess_extension v = ext \<Longrightarrow> sess_password v = pw \<Longrightarrow> sess_email v = email \<Longrightarrow> P v"
  shows "all_sessions P s'"
proof -
  have "ok s" using assms(1) by (simp add: all_sessions_def)
  note law = create [OF this assms(2,3)]
  have "P v" if "sv s' k = Some v" for k v
    using law that new assms(1) unfolding all_sessions_def born_def by metis
  then show ?thesis using law unfolding all_sessions_def by blast
qed

lemma delete_all: "all_sessions P s \<Longrightarrow> all_sessions P (so_delete ops fl k s)"
  using delete all_sub unfolding all_sessions_def by (metis all_sessions_def)

lemma mint_all:
  assumes "ls_sessions L = ops" "all_sessions P (lw_sessions w)" "valid_extension ext"
    and "mint_session L env ext pw email w = (r, w')"
    and "\<And>v. sess_extension v = ext \<Longrightarrow> sess_password v = pw \<Longrightarrow> sess_email v = email \<Longrightarrow> P v"
  shows "all_sessions P (lw_sessions w')"
  using assms(4) create_all [OF assms(2,3) _ assms(5)] assms(1) by (auto simp: mint_session_def split: prod.splits)

lemma sign_in_vouched:
  assumes L: "ls_sessions L = ops" and all: "all_sessions (vouch L D hist) (lw_sessions w)"
    and now: "(env, Sign_In body, w0) \<in> set hist" and run: "create_session L D env body w = (r, w')"
  shows "all_sessions (vouch L D hist) (lw_sessions w')"
proof (cases "w' = w")
  case True
  then show ?thesis using all by simp
next
  case False
  then obtain raw pw ext r' where at: "body = Some (raw, pw)" "parse_extension raw = Inr ext" "pw \<noteq> []"
    "verify_directory D env ext pw = None" "mint_session L env ext pw [] w = (r', w')"
    using run by (auto simp: create_session_def split: option.splits prod.splits sum.splits if_splits)
  have "vouch L D hist v" if "sess_extension v = ext" "sess_password v = pw" "sess_email v = []" for v
    using that at now by (auto simp: vouch_def typed_def)
  then show ?thesis by (rule mint_all [OF L all parse_extension_valid [OF at(2)] at(5)])
qed

lemma switch_vouched:
  assumes L: "ls_sessions L = ops" and all: "all_sessions (vouch L D hist) (lw_sessions w)"
    and now: "(env, act, w0) \<in> set hist" and sess: "\<forall>v. sess = Some v \<longrightarrow> vouch L D hist v"
    and run: "switch_extension L D env sess body w = (r, w')"
  shows "all_sessions (vouch L D hist) (lw_sessions w')"
proof (cases "w' = w")
  case True
  then show ?thesis using all by simp
next
  case False
  then obtain cur raw target u pw r' w1 where at: "sess = Some cur" "parse_extension raw = Inr target" "sess_email cur \<noteq> []"
    "resolve (ls_lower L) (ld_users D) (sess_email cur) = Some u" "target \<in> set (mu_extensions u)"
    "sip_password (le_file env) (ld_users D) target = Inr pw" "verify_directory D env target pw = None"
    "mint_session L env target pw (sess_email cur) w = (r', w1)"
    and w': "w' = w1 \<or> w' = w1\<lparr>lw_sessions := so_delete ops (le_faults env) (token_from_request (le_request env)) (lw_sessions w1)\<rparr>"
    using run L by (auto simp: switch_extension_def split: option.splits prod.splits sum.splits if_splits)
  obtain m where m: "authenticated L D hist m" "sess_email cur = mu_email m"
    using sess at(1,3) by (auto simp: vouch_def typed_def)
  obtain am where am: "ld_users D = Some am" using at(6) by (auto simp: sip_password_ok)
  then have "\<exists>am \<in> login_maps D. sip_password (le_file env) (Some am) target = Inr pw"
    using at(6) by (auto simp: login_maps_def)
  then have "fetched D hist v" if "sess_extension v = target" "sess_password v = pw" for v
    unfolding fetched_def using that now at(7) by blast
  then have "vouch L D hist v" if "sess_extension v = target" "sess_password v = pw" "sess_email v = sess_email cur" for v
    unfolding vouch_def using that m at(4,5) by auto
  then have "all_sessions (vouch L D hist) (lw_sessions w1)"
    by (rule mint_all [OF L all parse_extension_valid [OF at(2)] at(8)])
  then show ?thesis using w' delete_all by auto
qed

lemma passkey_vouched:
  assumes L: "ls_sessions L = ops" and all: "all_sessions (vouch L D hist) (lw_sessions w)"
    and maps: "\<forall>am \<in> login_maps D. sound_map am"
    and now: "(env, Finish_Passkey raw assertion, w0) \<in> set hist" "lw_identity w0 = lw_identity w"
    and run: "passkey_finish_login L D env raw assertion w = (r, w')"
  shows "all_sessions (vouch L D hist) (lw_sessions w')"
proof (cases "lw_sessions w' = lw_sessions w")
  case True
  then show ?thesis using all by simp
next
  case False
  then obtain uid m u' pw r' where at: "io_parse (ls_identity L) raw = Some uid"
    "finish_login L D uid assertion (lw_identity w) = (Inr m, u')"
    "sip_password (le_file env) (ld_users D) (session_extension m) = Inr pw"
    "verify_directory D env (session_extension m) pw = None"
    "mint_session L env (session_extension m) pw (mu_email m) (w\<lparr>lw_identity := u'\<rparr>) = (r', w')"
    using run by (auto simp: passkey_finish_login_def Let_def split: option.splits prod.splits sum.splits if_splits)
  obtain am where am: "ld_users D = Some am" "am \<in> login_maps D" using at(3) by (auto simp: sip_password_ok login_maps_def)
  have "m \<in> set (map_users (Some am))"
    using at(2) am(1) by (auto simp: finish_login_def dest: resolve_user split: prod.splits sum.splits option.splits)
  then have line: "session_extension m \<in> set (mu_extensions m)" "valid_extension (session_extension m)"
    using session_line [of am m] maps am at(3) by auto
  have "authenticated L D hist m" unfolding authenticated_def using now at(1,2) by (metis fst_conv)
  moreover have "fetched D hist v" if "sess_extension v = session_extension m" "sess_password v = pw" for v
    unfolding fetched_def using that now(1) at(3,4) am by metis
  ultimately have "vouch L D hist v"
    if "sess_extension v = session_extension m" "sess_password v = pw" "sess_email v = mu_email m" for v
    unfolding vouch_def using that line(1) by auto
  then show ?thesis using mint_all [OF L _ line(2) at(5)] all by simp
qed

lemma sso_vouched:
  assumes L: "ls_sessions L = ops" and all: "all_sessions (vouch L D hist) (lw_sessions w)"
    and maps: "\<forall>am \<in> login_maps D. sound_map am"
    and now: "(env, Finish_Sso q ia, w0) \<in> set hist" and cl: "ld_sso D = Some cl"
    and run: "sso_callback L D env cl q ia w = (r, w')"
  shows "all_sessions (vouch L D hist) (lw_sessions w')"
proof (cases "w' = w")
  case True
  then show ?thesis using all by simp
next
  case False
  then obtain m pw r' where at: "sq_state q \<noteq> []" "sq_state_cookie q = sq_state q"
    "sso_complete (ls_lower L) (le_file env) cl ia (sq_code q) (sq_verifier_cookie q) (sq_nonce_cookie q) = Inr (m, pw)"
    "verify_directory D env (session_extension m) pw = None"
    "mint_session L env (session_extension m) pw (mu_email m) w = (r', w')"
    using run by (auto simp: sso_callback_def Let_def split: option.splits prod.splits sum.splits if_splits)
  note user = sso_complete_user [OF at(3)]
  have am: "so_map cl \<in> login_maps D" using cl by (simp add: login_maps_def)
  then have line: "session_extension m \<in> set (mu_extensions m)" "valid_extension (session_extension m)"
    using session_line [of "so_map cl" m] maps user by auto
  have "authenticated L D hist m" unfolding authenticated_def using now cl at(1-3) by blast
  moreover have "fetched D hist v" if "sess_extension v = session_extension m" "sess_password v = pw" for v
    unfolding fetched_def using that now at(4) am user by metis
  ultimately have "vouch L D hist v"
    if "sess_extension v = session_extension m" "sess_password v = pw" "sess_email v = mu_email m" for v
    unfolding vouch_def using that line(1) by auto
  then show ?thesis by (rule mint_all [OF L all line(2) at(5)])
qed

lemma sign_out_keeps:
  assumes "ls_sessions L = ops" "all_sessions P (lw_sessions w)" "destroy_session L D env w = (r, w')"
  shows "all_sessions P (lw_sessions w') \<and> r \<noteq> None"
proof -
  let ?k = "token_from_request (le_request env)"
  obtain g s1 where got: "so_get ops (le_faults env) ?k (le_now env) (lw_sessions w) = (g, s1)" by fastforce
  obtain a where a: "g = Inr a" "all_sessions P s1" using get_all [OF assms(2) got] by blast
  then show ?thesis using assms(1,3) got delete_all by (auto simp: destroy_session_def Let_def)
qed

lemma route_vouched:
  assumes L: "ls_sessions L = ops" and all: "all_sessions (vouch L D hist) (lw_sessions w)"
    and maps: "\<forall>am \<in> login_maps D. sound_map am" and sess: "\<forall>v. sess = Some v \<longrightarrow> vouch L D hist v"
    and now: "(env, act, w0) \<in> set hist" "lw_identity w0 = lw_identity w"
    and run: "login_route L D env sess act w = (r, w')"
  shows "all_sessions (vouch L D hist) (lw_sessions w')"
proof (cases act)
  case (Sign_In body)
  then show ?thesis using run sign_in_vouched [OF L all] now(1)
    by (auto simp: login_route_def Let_def split: prod.splits)
next
  case (Switch_Line body)
  then show ?thesis using run all switch_vouched [OF L all now(1) sess]
    by (auto simp: login_route_def Let_def split: prod.splits if_splits)
next
  case Sign_Out
  then show ?thesis using run sign_out_keeps [OF L all] by (auto simp: login_route_def Let_def)
next
  case (Finish_Passkey raw assertion)
  then show ?thesis using run all passkey_vouched [OF L all maps _ now(2)] now(1)
    by (auto simp: login_route_def Let_def split: prod.splits if_splits)
next
  case (Finish_Sso q ia)
  then show ?thesis using run all sso_vouched [OF L all maps] now(1)
    by (auto simp: login_route_def Let_def split: option.splits)
qed (use run all in \<open>auto simp: login_route_def Let_def passkey_begin_login_def enroll_link_def enroll_begin_def
    enroll_finish_def split: prod.splits if_splits option.splits sum.splits\<close>)

lemma route_answers:
  assumes "ls_sessions L = ops" "all_sessions P (lw_sessions w)" "login_route L D env sess act w = (None, w')"
  shows "nil_provider act"
proof (cases act)
  case Sign_Out
  then have "destroy_session L D env w = (None, w')" using assms(3) by (simp add: login_route_def Let_def)
  from sign_out_keeps [OF assms(1,2) this] show ?thesis by simp
next
  case (Finish_Sso q ia)
  then show ?thesis using assms(3) callback_panic
    by (fastforce simp: login_route_def Let_def nil_provider_def split: option.splits)
qed (use assms(3) in \<open>auto simp: login_route_def Let_def nil_provider_def sso_begin_def split: prod.splits if_splits sum.splits\<close>)

lemma serve_vouched:
  assumes L: "ls_sessions L = ops" and all: "all_sessions (vouch L D hist) (lw_sessions w)"
    and maps: "\<forall>am \<in> login_maps D. sound_map am" and run: "login_serve L D env act w = (r, w')"
  shows "all_sessions (vouch L D (hist @ [(env, act, w)])) (lw_sessions w') \<and> (r = None \<longrightarrow> nil_provider act)"
proof -
  let ?h = "hist @ [(env, act, w)]"
  obtain x s1 where look: "lookup_session ops (le_faults env) (normalized (ld_life D)) (ld_secure D) (le_request env)
      (le_at env) (lw_sessions w) = (x, s1)" by fastforce
  have "all_sessions (vouch L D ?h) (lw_sessions w)" by (rule all_mono [OF all vouch_mono])
  from lookup_all [OF this look vouch_expires] obtain sess ck where x: "x = Inr (sess, ck)"
    and s1: "all_sessions (vouch L D ?h) s1" and sess: "\<forall>v. sess = Some v \<longrightarrow> vouch L D ?h v" by blast
  let ?w = "w\<lparr>lw_sessions := s1\<rparr>"
  obtain r' where route: "login_route L D env sess act ?w = (r', w')" "r = map_option (Pair ck) r'"
    using run look x L by (auto simp: login_serve_def split: prod.splits option.splits)
  have "all_sessions (vouch L D ?h) (lw_sessions w')"
    by (rule route_vouched [OF L _ maps sess _ _ route(1)]) (use s1 in simp_all)
  moreover have "nil_provider act" if "r = None"
    using route_answers [OF L, of "vouch L D ?h" ?w] route s1 that by auto
  ultimately show ?thesis by blast
qed

lemma run_vouched:
  assumes L: "ls_sessions L = ops" and maps: "\<forall>am \<in> login_maps D. sound_map am"
    and all: "all_sessions (vouch L D hist) (lw_sessions w)"
  shows "all_sessions (vouch L D (hist @ login_trace L D as w)) (lw_sessions (snd (login_run L D as w))) \<and>
    (\<forall>i < length as. fst (login_run L D as w) ! i = None \<longrightarrow> nil_provider (snd (as ! i)))"
  using all
proof (induction as arbitrary: hist w)
  case Nil
  then show ?case by simp
next
  case (Cons ea as)
  obtain env act where ea: "ea = (env, act)" by fastforce
  obtain r w1 where step: "login_serve L D env act w = (r, w1)" by fastforce
  note one = serve_vouched [OF L Cons.prems maps step]
  note rest = Cons.IH [OF one [THEN conjunct1]]
  have "fst (login_run L D (ea # as) w) = r # fst (login_run L D as w1)"
    "snd (login_run L D (ea # as) w) = snd (login_run L D as w1)"
    "login_trace L D (ea # as) w = (env, act, w) # login_trace L D as w1"
    by (simp_all add: ea step split: prod.splits)
  moreover have "nil_provider (snd ((ea # as) ! i))"
    if "i < length (ea # as)" "(r # fst (login_run L D as w1)) ! i = None" for i
    using that one rest ea by (cases i) auto
  ultimately show ?case using rest by (simp only: append_assoc append_Cons append_Nil) blast
qed

end

section \<open>Every session was proved\<close>

text \<open>
  C11. No request of the login surface opens a session for someone who did not prove it. For
  every sequence of logins, line switches, logouts, ceremonies, enrollments and callbacks,
  whatever the identity library, the identity provider, the PBX directory, the password
  files and the statements answer on the way, over the in-memory and the durable store:
  each session in the store was minted by a request whose directory check passed for exactly
  its extension and password, and either it is an extension login without an identity whose
  password was typed, or its password came from the file of its extension, its identity was
  authenticated in the run by a verified passkey assertion or by a completed authorization
  with matching state, and a mapping of that account holds its extension, however many
  lines were switched in between. Only a nil provider makes the surface panic.
\<close>

theorem sessions_entitled:
  assumes "\<forall>am \<in> login_maps D. sound_map am"
    and "ls_sessions M = mem_store ttl" "lw_sessions w = fmempty"
    and "ls_sessions Q = sql_store ttl" "lw_sessions u = fmempty"
  shows "(\<forall>k v. fmlookup (lw_sessions (snd (login_run M D as w))) k = Some v \<longrightarrow> vouch M D (login_trace M D as w) v) \<and>
    (\<forall>k v. sql_view (lw_sessions (snd (login_run Q D as u))) k = Some v \<longrightarrow> vouch Q D (login_trace Q D as u) v) \<and>
    (\<forall>i < length as. (fst (login_run M D as w) ! i = None \<longrightarrow> nil_provider (snd (as ! i))) \<and>
       (fst (login_run Q D as u) ! i = None \<longrightarrow> nil_provider (snd (as ! i))))"
proof -
  have "mem_sessions.all_sessions (vouch M D []) (lw_sessions w)" "sql_sessions.all_sessions (vouch Q D []) (lw_sessions u)"
    using assms(3,5) by (simp_all add: mem_sessions.all_sessions_def sql_sessions.all_sessions_def sql_ok_def sql_view_def)
  from mem_sessions.run_vouched [OF assms(2,1) this(1)] sql_sessions.run_vouched [OF assms(4,1) this(2)]
  show ?thesis unfolding mem_sessions.all_sessions_def sql_sessions.all_sessions_def by simp
qed

section \<open>The enrollment ceremony is not bound to a link\<close>

text \<open>An anonymous request finds no session and leaves the in-memory store alone.\<close>

lemma serve_anonymous:
  assumes "ls_sessions L = mem_store ttl" "req_cookie (le_request env) = None" "fmlookup (lw_sessions w) (Token []) = None"
  shows "login_serve L D env act w =
    (case login_route L D env None act w of (None, w') \<Rightarrow> (None, w') | (Some r, w') \<Rightarrow> (Some (None, r), w'))"
  using assms by (simp add: login_serve_def lookup_session_def token_from_request_def mem_store_def mem_get_def)

text \<open>
  C13. A passkey can be enrolled, and used, for an account without an enrollment link. Starting
  a login answers the session key of an e-mail to anyone, and the enrollment routes take
  that key as the user id: neither of them asks for a link, a session or the outcome of a
  link that was opened. So for any state of the token collection, a browser without cookies
  that knows an enrolled e-mail goes from there through both enrollment steps to a session
  of the account, with its directory password, when the library accepts the key it handed
  out and the new credential it was given; no token is looked at.
\<close>

theorem enrollment_unbound:
  assumes "ls_sessions L = mem_store ttl" "fmlookup (lw_sessions w) (Token []) = None" "ld_users D = Some am"
    and "\<forall>env \<in> {e1, e2, e3, e4}. req_cookie (le_request env) = None"
    and "email \<noteq> []" "io_begin_login (ls_identity L) email (lw_identity w) = (Inr key, u1)"
    and "key \<noteq> []" "io_parse (ls_identity L) key = Some uid"
    and "io_begin_enroll (ls_identity L) uid u1 = (Inr opts, u2)"
    and "name \<noteq> []" "io_finish_enroll (ls_identity L) uid attestation name u2 = (Inr (), u3)"
    and "io_finish_login (ls_identity L) uid assertion u3 = (Inr email, u4)"
    and "resolve (ls_lower L) (Some am) email = Some m"
    and "sip_password (le_file e4) (Some am) (session_extension m) = Inr pw"
    and "verify_directory D e4 (session_extension m) pw = None" "le_entropy e4 = Inr bytes"
  shows "\<exists>rs w'. login_run L D [(e1, Begin_Passkey (Some email)), (e2, Begin_Enroll (Some key)),
        (e3, Finish_Enroll key attestation name), (e4, Finish_Passkey key assertion)] w = (rs, w') \<and>
      map (map_option (lr_status \<circ> snd)) rs = [Some 200, Some 200, Some 200, Some 201] \<and>
      fmlookup (lw_sessions w') (Token (raw_url bytes)) =
        Some \<lparr>sess_extension = session_extension m, sess_password = pw, sess_email = mu_email m,
              sess_created = le_now e4, sess_expires = le_now e4 + ttl\<rparr> \<and>
      lw_tokens w' = lw_tokens w"
proof -
  let ?tok = "Token (raw_url bytes)"
  let ?v = "\<lparr>sess_extension = session_extension m, sess_password = pw, sess_email = mu_email m,
              sess_created = le_now e4, sess_expires = le_now e4 + ttl\<rparr>"
  let ?w1 = "w\<lparr>lw_identity := u1\<rparr>" and ?w2 = "w\<lparr>lw_identity := u2\<rparr>" and ?w3 = "w\<lparr>lw_identity := u3\<rparr>"
  let ?w4 = "w\<lparr>lw_identity := u4, lw_sessions := fmupd ?tok ?v (mem_gc (le_now e4) (lw_sessions w))\<rparr>"
  have anonymous: "login_serve L D env act w' =
      (case login_route L D env None act w' of (None, w'') \<Rightarrow> (None, w'') | (Some r, w'') \<Rightarrow> (Some (None, r), w''))"
    if "env \<in> {e1, e2, e3, e4}" "lw_sessions w' = lw_sessions w" for env act w'
    by (rule serve_anonymous [OF assms(1)]) (use that assms(2,4) in auto)
  have s1: "login_serve L D e1 (Begin_Passkey (Some email)) w = (Some (None, (reply 200)\<lparr>lr_body := Ceremony key\<rparr>), ?w1)"
    using assms(3,5,6) by (simp add: anonymous login_route_def passkey_begin_login_def)
  have s2: "login_serve L D e2 (Begin_Enroll (Some key)) ?w1 = (Some (None, (reply 200)\<lparr>lr_body := Ceremony opts\<rparr>), ?w2)"
    using assms(3,7-9) by (simp add: anonymous login_route_def enroll_begin_def)
  have s3: "login_serve L D e3 (Finish_Enroll key attestation name) ?w2 = (Some (None, (reply 200)\<lparr>lr_body := Registered\<rparr>), ?w3)"
    using assms(3,7,8,10,11) by (simp add: anonymous login_route_def enroll_finish_def)
  have "finish_login L D uid assertion u3 = (Inr m, u4)" using assms(3,12,13) by (simp add: finish_login_def)
  moreover have "mint_session L e4 (session_extension m) pw (mu_email m) (?w3\<lparr>lw_identity := u4\<rparr>) = (Inr ?tok, ?w4)"
    using assms(1,16) by (simp add: mint_session_def mem_store_def mem_create_def make_session_def mint_token_def)
  ultimately have "\<exists>r. passkey_finish_login L D e4 key assertion ?w3 = (r, ?w4) \<and> lr_status r = 201"
    using assms(3,7,8,14,15) by (simp add: passkey_finish_login_def Let_def reply_def)
  then obtain r where "login_serve L D e4 (Finish_Passkey key assertion) ?w3 = (Some (None, r), ?w4)" "lr_status r = 201"
    using assms(3) by (auto simp: anonymous login_route_def)
  with s1 s2 s3 show ?thesis by (simp add: reply_def)
qed

section \<open>A concrete surface\<close>

text \<open>
  One account with two lines, an identity library that knows it under the user id
  \<open>ULID\<close> and remembers the enrolled credentials, and a directory that accepts everything.
\<close>

definition toy_identity :: "string list identity_ops" where
  "toy_identity =
     \<lparr>io_parse = (\<lambda>raw. if raw = ''ULID'' then Some raw else None),
      io_begin_login = (\<lambda>email creds. (if email = ''a@b'' then Inr ''ULID'' else Inl User_Not_Found, creds)),
      io_finish_login = (\<lambda>uid assertion creds. (if assertion \<in> set creds then Inr ''a@b'' else Inl Identity_Failure, creds)),
      io_begin_enroll = (\<lambda>uid creds. (Inr ''options'', creds)),
      io_finish_enroll = (\<lambda>uid attestation name creds. (Inr (), attestation # creds))\<rparr>"

definition toy_user :: mapped_user where
  "toy_user = \<lparr>mu_email = ''a@b'', mu_name = ''Ann'', mu_extensions = [Extension ''1001'', Extension ''1002''], mu_admin = False\<rparr>"

definition toy_map :: authmap where
  "toy_map = \<lparr>am_users = fmap_of_list [(''a@b'', toy_user)],
              am_files = fmap_of_list [(''1001'', ''/run/1001''), (''1002'', ''/run/1002'')]\<rparr>"

definition toy_deps :: login_deps where
  "toy_deps = \<lparr>ld_life = \<lparr>life_idle = 60 * second, life_max = 300 * second\<rparr>, ld_secure = True, ld_phone = True,
     ld_users = Some toy_map, ld_sso = None, ld_secret = [], ld_identities = fmempty\<rparr>"

definition toy_env :: "string option \<Rightarrow> nat list \<Rightarrow> login_env" where
  "toy_env ck bytes =
     \<lparr>le_faults = no_faults, le_request = \<lparr>req_cookie = ck, req_tls = True\<rparr>,
      le_at = \<lparr>at_get = 1, at_renew = 1, at_due = 1, at_cookie = 1\<rparr>, le_pbx = (\<lambda>_ _. Directory_Ok),
      le_file = (\<lambda>_. Some ''pw''), le_entropy = Inr bytes, le_now = 1\<rparr>"

definition toy_seams :: "'s session_ops \<Rightarrow> ('s, string list, (string \<times> enroll_view) list) login_seams" where
  "toy_seams ops = \<lparr>ls_sessions = ops, ls_identity = toy_identity, ls_tokens = mem_engine, ls_hash = (\<lambda>t. t),
     ls_lower = to_lower, ls_derive = (\<lambda>_ t. t)\<rparr>"

definition toy_world :: "'s \<Rightarrow> ('s, string list, (string \<times> enroll_view) list) login_world" where
  "toy_world s = \<lparr>lw_sessions = s, lw_identity = [''stolen''], lw_tokens = []\<rparr>"

lemmas toy_defs = toy_identity_def toy_user_def toy_map_def toy_deps_def toy_env_def toy_seams_def toy_world_def

lemma toy_resolve: "resolve to_lower (Some toy_map) ''a@b'' = Some toy_user"
proof -
  have "email_key to_lower ''a@b'' = ''a@b''" by code_simp
  then show ?thesis by (simp add: resolve_def toy_map_def)
qed

lemma toy_password: "sip_password (\<lambda>_. Some ''pw'') (Some toy_map) (session_extension toy_user) = Inr ''pw''"
proof -
  have "trim_space ''pw'' = ''pw''" by code_simp
  then show ?thesis by (simp add: sip_password_def go_lookup_def toy_map_def toy_user_def session_extension_def)
qed

theorem enrollment_unbound_witness:
  "\<exists>rs w'. login_run (toy_seams (mem_store second)) toy_deps
      [(toy_env None [], Begin_Passkey (Some ''a@b'')), (toy_env None [], Begin_Enroll (Some ''ULID'')),
       (toy_env None [], Finish_Enroll ''ULID'' ''mine'' ''laptop''), (toy_env None [1, 2, 3], Finish_Passkey ''ULID'' ''mine'')]
      (toy_world fmempty) = (rs, w') \<and>
    map (map_option (lr_status \<circ> snd)) rs = [Some 200, Some 200, Some 200, Some 201] \<and>
    fmlookup (lw_sessions w') (Token (raw_url [1, 2, 3])) =
      Some \<lparr>sess_extension = session_extension toy_user, sess_password = ''pw'', sess_email = mu_email toy_user,
            sess_created = le_now (toy_env None [1, 2, 3]), sess_expires = le_now (toy_env None [1, 2, 3]) + second\<rparr> \<and>
    lw_tokens w' = lw_tokens (toy_world (fmempty :: mem_sessions))"
proof -
  note attack = enrollment_unbound [of "toy_seams (mem_store second)" second "toy_world fmempty" toy_deps toy_map
    "toy_env None []" "toy_env None []" "toy_env None []" "toy_env None [1, 2, 3]" "''a@b''" "''ULID''" "[''stolen'']"
    "''ULID''" "''options''" "[''stolen'']" "''laptop''" "''mine''" "[''mine'', ''stolen'']" "''mine''"
    "[''mine'', ''stolen'']" toy_user "''pw''" "[1, 2, 3]"]
  show ?thesis
    by (rule attack) (simp_all add: toy_seams_def toy_world_def toy_deps_def toy_env_def toy_identity_def toy_resolve
        toy_password verify_directory_def)
qed

definition toy_login :: "(login_env \<times> login_act) list" where
  "toy_login = [(toy_env None [1, 2, 3], Finish_Passkey ''ULID'' ''stolen'')]"

definition toy_session :: session where
  "toy_session = \<lparr>sess_extension = Extension ''1001'', sess_password = ''pw'', sess_email = ''a@b'', sess_created = 1,
     sess_expires = 1 + second\<rparr>"

lemma toy_sound: "\<forall>am \<in> login_maps toy_deps. sound_map am"
proof -
  have "valid_extension (Extension ''1001'')" "valid_extension (Extension ''1002'')" by code_simp+
  moreover have "set (map_users (Some toy_map)) = {toy_user}"
    by (auto simp: map_users_def set_sorted_users fmlookup_ran'_iff toy_map_def split: if_splits)
  ultimately show ?thesis
    by (simp add: login_maps_def toy_deps_def sound_map_def toy_user_def go_lookup_def) (simp add: toy_map_def)
qed

lemma toy_login_run:
  "fmlookup (lw_sessions (snd (login_run (toy_seams (mem_store second)) toy_deps toy_login (toy_world fmempty))))
     (Token (raw_url [1, 2, 3])) = Some toy_session"
proof -
  have "login_serve (toy_seams (mem_store second)) toy_deps (toy_env None [1, 2, 3]) (Finish_Passkey ''ULID'' ''stolen'') (toy_world fmempty) =
    (case login_route (toy_seams (mem_store second)) toy_deps (toy_env None [1, 2, 3]) None (Finish_Passkey ''ULID'' ''stolen'') (toy_world fmempty)
     of (None, w') \<Rightarrow> (None, w') | (Some r, w') \<Rightarrow> (Some (None, r), w'))"
    by (rule serve_anonymous) (simp_all add: toy_seams_def toy_env_def toy_world_def)
  then show ?thesis
    by (simp add: toy_login_def login_route_def passkey_finish_login_def finish_login_def mint_session_def Let_def
        verify_directory_def toy_session_def toy_seams_def toy_world_def toy_deps_def toy_env_def toy_identity_def toy_resolve
        toy_password mem_store_def mem_create_def make_session_def mint_token_def)
      (simp add: toy_user_def session_extension_def)
qed

theorem sessions_entitled_witness:
  "fmlookup (lw_sessions (snd (login_run (toy_seams (mem_store second)) toy_deps toy_login (toy_world fmempty))))
     (Token (raw_url [1, 2, 3])) = Some toy_session \<and>
   vouch (toy_seams (mem_store second)) toy_deps
     (login_trace (toy_seams (mem_store second)) toy_deps toy_login (toy_world fmempty)) toy_session"
  using toy_login_run
    sessions_entitled [OF toy_sound, of "toy_seams (mem_store second)" second "toy_world fmempty" "toy_seams (sql_store second)"
      "toy_world fmempty" toy_login]
  by (simp add: toy_seams_def toy_world_def)

end
