(* ===== verification/Actions.thy ===== *)
theory Actions
  imports Messaging Fax_Service Sessions Authmap Contacts
begin

text \<open>
  The form handlers of \<^verbatim>\<open>internal/server/actions.go\<close> in front of the messaging and fax
  services, the contact book and the snippets, with the unread badge of \<^verbatim>\<open>unread.go\<close>. A
  request is what the handler reads of it; the session is the one the gate attached, if any.
  An answer is the status with the kind of copy it shows: rendered pages stand for
  themselves, since their markup is the templates'. Fresh identifiers, clocks, failing
  statements and the content sniffer of the standard library are inputs.
\<close>

section \<open>Answers\<close>

text \<open>
  What a banner may show: a fixed text of the catalogue, the reason of a validation, the
  detail of a provider's refusal, or the fixed text for failures of the system.
\<close>

datatype banner = Catalogue string | Reason string | Refusal_Detail string | Transport_Copy

datatype http_answer =
    Page
  | Thread_Page
  | No_Content
  | Stream string string "char list"
  | Banner nat banner
  | Plain nat
  | Crash

definition sign_in_page :: http_answer where "sign_in_page = Plain 401"
definition not_found_page :: http_answer where "not_found_page = Plain 404"

section \<open>Failures of a send\<close>

text \<open>\<^verbatim>\<open>errorfamily.Classify\<close> on the errors of the two services; not found is registered.\<close>

fun err_family :: "err \<Rightarrow> family" where
  "err_family Not_Found = Rejection"
| "err_family (Invalid _) = Rejection"
| "err_family (Coded fam _) = fam"
| "err_family (Forward_Error e) = send_error_family e"
| "err_family Panic = Transient"

definition classify_for_user :: "err \<Rightarrow> nat" where
  "classify_for_user e = (if err_family e = Rejection then 422 else 502)"

definition send_failure :: "err \<Rightarrow> http_answer" where
  "send_failure e =
     (case e of
        Invalid reason \<Rightarrow> Banner 422 (Reason reason)
      | Forward_Error (Provider_Rejected status detail) \<Rightarrow>
          if err_family e = Rejection then Banner 422 (Refusal_Detail detail)
          else Banner (classify_for_user e) Transport_Copy
      | Panic \<Rightarrow> Crash
      | _ \<Rightarrow> Banner (classify_for_user e) Transport_Copy)"

section \<open>Sending a message\<close>

text \<open>A part of the form: it does not open, it does not read, or it has a name, a declared type and bytes.\<close>

datatype form_file = Unopened | Unread | Form_File string string "char list"

definition attachment_mime :: "(char list \<Rightarrow> string) \<Rightarrow> string \<Rightarrow> char list \<Rightarrow> string" where
  "attachment_mime sniff declared content =
     (if declared \<noteq> [] \<and> declared \<noteq> ''application/octet-stream'' then declared else sniff content)"

fun read_uploads :: "(char list \<Rightarrow> string) \<Rightarrow> form_file list \<Rightarrow> http_answer + upload list" where
  "read_uploads sniff [] = Inr []"
| "read_uploads sniff (f # fs) =
     (case f of
        Unopened \<Rightarrow> Inl (Banner 422 (Catalogue ''err.attachmentRead''))
      | Unread \<Rightarrow> Inl (Banner 422 (Catalogue ''err.attachmentLarge''))
      | Form_File name declared bytes \<Rightarrow>
          (let content = take (max_attachment_size + 1) bytes in
           if length content > max_attachment_size then Inl (Banner 422 (Catalogue ''err.attachmentLarge''))
           else
             (case read_uploads sniff fs of
                Inl a \<Rightarrow> Inl a
              | Inr ups \<Rightarrow>
                  Inr (\<lparr>upl_name = name, upl_mime = attachment_mime sniff declared content, upl_bytes = content\<rparr> # ups))))"

record send_request =
  rq_thread :: string
  rq_to :: string
  rq_body :: string
  rq_files :: "form_file list"

text \<open>
  \<^verbatim>\<open>requireSessionMultipart\<close>: no session, a form that cannot be parsed (too large a body
  among the causes), or the session with the form.
\<close>

definition require_multipart :: "session option \<Rightarrow> 'f option \<Rightarrow> http_answer + session \<times> 'f" where
  "require_multipart sess form =
     (case sess of
        None \<Rightarrow> Inl sign_in_page
      | Some s \<Rightarrow> (case form of None \<Rightarrow> Inl (Plain 400) | Some f \<Rightarrow> Inr (s, f)))"

definition destination :: "faults \<Rightarrow> session \<Rightarrow> send_request \<Rightarrow> world \<Rightarrow> http_answer + address" where
  "destination fl s rq w =
     (if rq_thread rq \<noteq> [] then
        (case parse_id (rq_thread rq) of
           Inl _ \<Rightarrow> Inl not_found_page
         | Inr tid \<Rightarrow>
             (case get_thread fl (wd_store w) (sess_extension s) tid of
                Inl Panic \<Rightarrow> Inl Crash
              | Inl _ \<Rightarrow> Inl not_found_page
              | Inr t \<Rightarrow> Inr (thr_remote t)))
      else
        (case parse_composed_address (rq_to rq) of
           Inl _ \<Rightarrow> Inl (Banner 422 (Catalogue ''err.invalidTo''))
         | Inr addr \<Rightarrow> Inr addr))"

text \<open>
  \<^verbatim>\<open>threadPanel\<close>: a gone thread renders its own page, a failed read is the caller's error,
  an open conversation is marked read whatever comes of that, and its entry in the unread
  cache is dropped. \<open>snippets_ok\<close> tells whether the composer's snippets can be listed.
\<close>

type_synonym unread_cache = "extension \<rightharpoonup> int \<times> time"

record desk =
  dk_world :: world
  dk_unread :: unread_cache

definition drop_unread :: "extension \<Rightarrow> desk \<Rightarrow> desk" where
  "drop_unread ext d = d\<lparr>dk_unread := (dk_unread d)(ext := None)\<rparr>"

definition thread_panel :: "faults \<Rightarrow> bool \<Rightarrow> extension \<Rightarrow> thread_id \<Rightarrow> int \<Rightarrow> desk \<Rightarrow> (err + unit) \<times> desk" where
  "thread_panel fl snippets_ok ext tid page d =
     (case thread_window fl ext tid page (dk_world d) of
        Inl Not_Found \<Rightarrow> (Inr (), d)
      | Inl e \<Rightarrow> (Inl e, d)
      | Inr _ \<Rightarrow>
          (let w1 = snd (svc_mark_read fl ext tid (dk_world d));
               d1 = drop_unread ext (d\<lparr>dk_world := w1\<rparr>) in
           (if snippets_ok then Inr () else Inl (Coded Infrastructure ''readmodels.snippet_list''), d1)))"

definition send_message_action ::
  "(char list \<Rightarrow> string) \<Rightarrow> messaging \<Rightarrow> faults \<Rightarrow> (store \<Rightarrow> store) \<Rightarrow> mint \<Rightarrow> time \<Rightarrow> bool \<Rightarrow>
   session option \<Rightarrow> send_request option \<Rightarrow> desk \<Rightarrow> http_answer \<times> desk" where
  "send_message_action sniff svc fl race mt now snippets_ok sess form d =
     (case require_multipart sess form of
        Inl a \<Rightarrow> (a, d)
      | Inr (s, rq) \<Rightarrow>
          (case destination fl s rq (dk_world d) of
             Inl a \<Rightarrow> (a, d)
           | Inr to \<Rightarrow>
               (case read_uploads sniff (rq_files rq) of
                  Inl a \<Rightarrow> (a, d)
                | Inr ups \<Rightarrow>
                    (case send_message svc fl race mt now (sess_extension s) to (rq_body rq) ups (dk_world d) of
                       ((_, Some e), w1) \<Rightarrow> (send_failure e, d\<lparr>dk_world := w1\<rparr>)
                     | ((_, None), w1) \<Rightarrow>
                         (if rq_thread rq = [] then (Page, d\<lparr>dk_world := w1\<rparr>)
                          else
                            (case parse_id (rq_thread rq) of
                               Inl _ \<Rightarrow> (not_found_page, d\<lparr>dk_world := w1\<rparr>)
                             | Inr tid \<Rightarrow>
                                 (case thread_panel fl snippets_ok (sess_extension s) tid 0 (d\<lparr>dk_world := w1\<rparr>) of
                                    (Inl _, d1) \<Rightarrow> (Plain 500, d1)
                                  | (Inr _, d1) \<Rightarrow> (Thread_Page, d1))))))))"

section \<open>Faxes\<close>

record fax_request =
  fq_to :: string
  fq_document :: "form_file option"

definition require_multipart_to ::
  "session option \<Rightarrow> fax_request option \<Rightarrow> http_answer + session \<times> fax_request \<times> phone" where
  "require_multipart_to sess form =
     (case require_multipart sess form of
        Inl a \<Rightarrow> Inl a
      | Inr (s, rq) \<Rightarrow>
          (case parse_phone (fq_to rq) of
             Inl _ \<Rightarrow> Inl (Banner 422 (Catalogue ''err.invalidFaxTo''))
           | Inr p \<Rightarrow> Inr (s, rq, p)))"

definition fax_outcome :: "('j option \<times> err option) \<times> 'w \<Rightarrow> http_answer \<times> 'w" where
  "fax_outcome r =
     (case r of ((_, Some e), w) \<Rightarrow> (send_failure e, w) | ((_, None), w) \<Rightarrow> (Page, w))"

definition send_fax_action ::
  "'s fax_ops \<Rightarrow> fax_service \<Rightarrow> faults \<Rightarrow> (nat \<Rightarrow> time) \<Rightarrow> string \<Rightarrow> fax_id \<Rightarrow> time \<Rightarrow>
   session option \<Rightarrow> fax_request option \<Rightarrow> 's fax_world \<Rightarrow> http_answer \<times> 's fax_world" where
  "send_fax_action F svc fl at blob fid now sess form w =
     (case require_multipart_to sess form of
        Inl a \<Rightarrow> (a, w)
      | Inr (s, rq, to) \<Rightarrow>
          (case fq_document rq of
             None \<Rightarrow> (Banner 422 (Catalogue ''err.attachPDF''), w)
           | Some Unopened \<Rightarrow> (Banner 422 (Catalogue ''err.attachPDF''), w)
           | Some Unread \<Rightarrow> (Banner 422 (Catalogue ''err.pdfLarge''), w)
           | Some (Form_File _ _ bytes) \<Rightarrow>
               (let pdf = take (max_pdf_size + 1) bytes in
                if length pdf > max_pdf_size then (Banner 422 (Catalogue ''err.pdfLarge''), w)
                else fax_outcome (send_fax F svc fl at blob fid now (sess_extension s) to pdf w))))"

definition resend_fax_action ::
  "'s fax_ops \<Rightarrow> fax_service \<Rightarrow> faults \<Rightarrow> (nat \<Rightarrow> time) \<Rightarrow> fax_id \<Rightarrow> time \<Rightarrow>
   session option \<Rightarrow> string \<Rightarrow> 's fax_world \<Rightarrow> http_answer \<times> 's fax_world" where
  "resend_fax_action F svc fl at fid now sess raw w =
     (case sess of
        None \<Rightarrow> (sign_in_page, w)
      | Some s \<Rightarrow>
          (case parse_id raw of
             Inl _ \<Rightarrow> (not_found_page, w)
           | Inr i \<Rightarrow>
               (case fo_get F (sess_extension s) i (fw_store w) of
                  Inl Panic \<Rightarrow> (Crash, w)
                | Inl _ \<Rightarrow> (not_found_page, w)
                | Inr _ \<Rightarrow> fax_outcome (resend_fax F svc fl at fid now (sess_extension s) i w))))"

text \<open>The admin's fallback runs only when the owner's lookup failed.\<close>

definition admin_fallback :: "bool \<Rightarrow> err + 'a \<Rightarrow> err + 'a \<Rightarrow> err + 'a" where
  "admin_fallback admin_session own anyone =
     (case own of
        Inr x \<Rightarrow> Inr x
      | Inl Panic \<Rightarrow> Inl Panic
      | Inl e \<Rightarrow> if admin_session then anyone else Inl e)"

definition is_admin_session :: "(string \<Rightarrow> string) \<Rightarrow> admin option \<Rightarrow> session \<Rightarrow> bool" where
  "is_admin_session lower adm s \<longleftrightarrow> adm \<noteq> None \<and> is_admin lower adm (sess_email s)"

definition fax_document_action ::
  "(string \<Rightarrow> string) \<Rightarrow> admin option \<Rightarrow> ('s, string, fax_view) idem_engine \<Rightarrow> faults \<Rightarrow>
   session option \<Rightarrow> string \<Rightarrow> 's fax_world \<Rightarrow> http_answer" where
  "fax_document_action lower adm E fl sess raw w =
     (case sess of
        None \<Rightarrow> sign_in_page
      | Some s \<Rightarrow>
          (case parse_id raw of
             Inl _ \<Rightarrow> not_found_page
           | Inr i \<Rightarrow>
               (case admin_fallback (is_admin_session lower adm s) (fax_get E (sess_extension s) i (fw_store w))
                   (fax_get_any E i (fw_store w)) of
                  Inl Panic \<Rightarrow> Crash
                | Inl _ \<Rightarrow> not_found_page
                | Inr job \<Rightarrow>
                    (case fax_document fl job (fw_files w) of
                       Inl Panic \<Rightarrow> Crash
                     | Inl _ \<Rightarrow> Plain 410
                     | Inr bytes \<Rightarrow> Stream ''application/pdf'' (''fax-'' @ job_id job @ ''.pdf'') bytes))))"

definition attachment_action ::
  "(string \<Rightarrow> string) \<Rightarrow> admin option \<Rightarrow> faults \<Rightarrow> session option \<Rightarrow> string \<Rightarrow> world \<Rightarrow> http_answer" where
  "attachment_action lower adm fl sess raw w =
     (case sess of
        None \<Rightarrow> sign_in_page
      | Some s \<Rightarrow>
          (case parse_id raw of
             Inl _ \<Rightarrow> not_found_page
           | Inr i \<Rightarrow>
               (case admin_fallback (is_admin_session lower adm s)
                   (attachment_by_id fl (wd_store w) (sess_extension s) i) (attachment_by_id_any fl (wd_store w) i) of
                  Inl Panic \<Rightarrow> Crash
                | Inl _ \<Rightarrow> not_found_page
                | Inr a \<Rightarrow>
                    (case open_attachment fl (att_path a) w of
                       Inl _ \<Rightarrow> Plain 410
                     | Inr bytes \<Rightarrow> Stream (att_mime a) (att_name a) bytes))))"

text \<open>A session for the concrete instances.\<close>

definition sample_session :: session where
  "sample_session =
     \<lparr>sess_extension = Extension ''1001'', sess_password = ''pw'', sess_email = ''a@x.org'',
      sess_created = 0, sess_expires = 1000\<rparr>"

end
