(* ===== verification/Action_Laws.thy ===== *)
theory Action_Laws
  imports Actions Fax_Outcomes
begin

text \<open>
  What a person sees of the form handlers: the banner of a failed send against what the
  store holds, and who gets which stored document.
\<close>

section \<open>What the banner promises\<close>

lemma read_uploads_length: "read_uploads sniff fs = Inr ups \<Longrightarrow> length ups = length fs"
  by (induction fs arbitrary: ups) (auto simp: Let_def split: form_file.splits if_splits sum.splits)

lemma validate_send_Inl: "validate_send svc to body ups = Inl e \<Longrightarrow> \<exists>r. e = Invalid r"
  by (auto simp: validate_send_def split: if_splits option.splits)

lemma composed_canonical: "parse_composed_address raw = Inr a \<Longrightarrow> canonical_address a"
  by (auto simp: parse_composed_address_def Let_def split: sum.splits dest: parse_address_canonical)

lemma destination_canonical:
  assumes "destination fl s rq w = Inr to"
  shows "canonical_address to"
proof -
  have "get_thread fl st ext tid = Inr t \<Longrightarrow> canonical_address (thr_remote t)" for st ext tid t
    by (auto simp: get_thread_def thread_fields_def address_of_def must_parse_address_def
        split: if_splits option.splits sum.splits dest: parse_address_canonical)
  with assms show ?thesis
    by (auto simp: destination_def split: if_splits sum.splits err.splits dest: composed_canonical)
qed

lemma send_action_run:
  assumes "destination fl s rq (dk_world d) = Inr to" "read_uploads sniff (rq_files rq) = Inr ups"
  shows "send_message svc fl race mt now (sess_extension s) to (rq_body rq) ups (dk_world d) = ((m, Some e), w1) \<Longrightarrow>
      send_message_action sniff svc fl race mt now ok (Some s) (Some rq) d = (send_failure e, d\<lparr>dk_world := w1\<rparr>)"
    and "send_message svc fl race mt now (sess_extension s) to (rq_body rq) ups (dk_world d) = ((m, None), w1) \<Longrightarrow>
      send_message_action sniff svc fl race mt now ok (Some s) (Some rq) d = (Banner n b, d') \<Longrightarrow> False"
  using assms by (auto simp: send_message_action_def require_multipart_def sign_in_page_def not_found_page_def
      split: if_splits sum.splits prod.splits)

lemma no_row_kept:
  assumes "send_message svc fl id mt now ext to raw ups w = ((None, Some e), w1)"
  shows "st_messages (wd_store w1) = st_messages (wd_store w)"
proof (cases "validate_send svc to (trim_space raw) ups")
  case Inl
  with assms show ?thesis by (simp add: send_message_def)
next
  case ok: (Inr sender)
  obtain r st where find: "find_thread fl id ext to now (mint_thread mt) (wd_store w) = (r, st)" by fastforce
  then have st: "st_messages st = st_messages (wd_store w)" by (cases rule: find_thread_cases) auto
  obtain q fs where save: "save_uploads (svc_root svc) fl mt 0 ups (wd_files w) = (q, fs)" by fastforce
  have deliver: "fst (fst (deliver svc fl sender m out x)) \<noteq> None" for m out x
    by (auto simp: deliver_def Let_def split: option.splits sum.splits)
  have kept: "append_message fl m st' = (Inl e', st'') \<Longrightarrow> st'' = st'" for m st' e' st''
    by (auto simp: append_message_def split: sum.splits)
  show ?thesis
  proof (cases r)
    case Inl
    with assms ok find st show ?thesis by (auto simp: send_message_def)
  next
    case tid: (Inr tid)
    show ?thesis
    proof (cases q)
      case Inl
      with assms ok find st tid save show ?thesis by (auto simp: send_message_def)
    next
      case (Inr saved)
      let ?m = "(new_outbound_message (mint_message mt) tid ext to (trim_space raw) (length ups) now)
        \<lparr>msg_attachments := map fst saved\<rparr>"
      obtain u st1 where app: "append_message fl ?m st = (u, st1)" by fastforce
      show ?thesis
      proof (cases u)
        case (Inl x)
        with assms ok find st tid save Inr app kept [of ?m st x st1] show ?thesis
          by (auto simp: send_message_def)
      next
        case u: (Inr v)
        let ?o = "\<lparr>out_owner = ext, out_to = to, out_body = trim_space raw, out_attachments = map snd saved\<rparr>"
        let ?x = "w\<lparr>wd_store := st1, wd_files := fs,
          wd_events := wd_events w @ [Message_Delivery_Advanced ext tid]\<rparr>"
        from assms ok find tid save Inr app u deliver [of ?m ?o ?x] show ?thesis
          by (auto simp: send_message_def Let_def dest!: arg_cong [of _ _ "\<lambda>x. fst (fst x)"])
      qed
    qed
  qed
qed

lemma banner_of_failure:
  assumes "send_failure e = Banner n b" "b = Transport_Copy \<or> b = Refusal_Detail t"
  shows "(\<forall>r. e \<noteq> Invalid r) \<and> (n = 422 \<longleftrightarrow> err_family e = Rejection) \<and> (n = 422 \<or> n = 502) \<and>
    (b = Refusal_Detail t \<longrightarrow> (\<exists>status. e = Forward_Error (Provider_Rejected status t)))"
  using assms by (cases e rule: err.exhaust; cases "err_family e = Rejection")
    (auto simp: send_failure_def classify_for_user_def split: send_error.splits if_splits)

text \<open>
  C18. The banner of a failed send keeps its promise when the database does, and breaks it
  otherwise. Both texts, the refusal's detail and the transport copy, say that the message
  is saved as failed in the thread. On a sound store without failing statements they are
  shown only when the new row is there with status failed, with the detail of the refusal
  on it, and status 422 exactly when the row is a rejection. But a send that the database
  stopped before the row was written answers the same transport copy at 502, and no
  message was saved.
\<close>

theorem saved_as_failed:
  assumes to: "destination fl s rq (dk_world d) = Inr to" and ups: "read_uploads sniff (rq_files rq) = Inr ups"
  shows "(fl = no_faults \<and> store_inv (wd_store (dk_world d)) \<and> valid_extension (sess_extension s) \<and>
      fresh_mint (wd_store (dk_world d)) mt (length (rq_files rq)) \<and>
      (\<forall>net sender out rcp. svc_senders svc net = Some sender \<longrightarrow> sender out = Inr rcp \<longrightarrow>
        rcp_ref rcp \<notin> mr_ref ` set (st_messages (wd_store (dk_world d))) - {[]}) \<and>
      send_message_action sniff svc fl id mt now ok (Some s) (Some rq) d = (Banner n b, d') \<and>
      (b = Transport_Copy \<or> b = Refusal_Detail t) \<longrightarrow>
      (\<exists>dl. row_delivery (wd_store (dk_world d')) (mint_message mt) = Some dl \<and> dlv_status dl = Failed \<and>
        (n = 422 \<longleftrightarrow> dlv_fkind dl = Failure_Rejected) \<and>
        (b = Refusal_Detail t \<longrightarrow> (\<exists>status. dlv_fdetail dl = provider_rejected_text status t)))) \<and>
    (\<forall>code w1. send_message svc fl id mt now (sess_extension s) to (rq_body rq) ups (dk_world d)
        = ((None, Some (Coded Infrastructure code)), w1) \<longrightarrow>
      send_message_action sniff svc fl id mt now ok (Some s) (Some rq) d
        = (Banner 502 Transport_Copy, d\<lparr>dk_world := w1\<rparr>) \<and>
      st_messages (wd_store w1) = st_messages (wd_store (dk_world d)))"
  (is "(?pre \<longrightarrow> ?row) \<and> ?lost")
proof (intro conjI impI)
  assume pre: ?pre
  let ?send = "send_message svc fl id mt now (sess_extension s) to (rq_body rq) ups (dk_world d)"
  obtain m eo w1 where run: "?send = ((m, eo), w1)" by (metis surj_pair)
  obtain e where eo: "eo = Some e"
    using send_action_run(2) [OF to ups, of svc id mt now m w1 ok n b d'] run pre by (cases eo) auto
  have send: "?send = ((m, Some e), w1)" "send_failure e = Banner n b" "d' = d\<lparr>dk_world := w1\<rparr>"
    using send_action_run(1) [OF to ups, of svc id mt now m e w1 ok] run pre eo by auto
  note why = banner_of_failure [OF send(2), of t]
  have "\<exists>sender. validate_send svc to (trim_space (rq_body rq)) ups = Inr sender"
  proof (cases "validate_send svc to (trim_space (rq_body rq)) ups")
    case (Inl x)
    with send(1) validate_send_Inl [OF Inl] why pre show ?thesis by (auto simp: send_message_def)
  qed simp
  then obtain sender where sender: "validate_send svc to (trim_space (rq_body rq)) ups = Inr sender" by blast
  then have reg: "svc_senders svc (addr_network to) = Some sender" by (simp add: validate_send_ok)
  have pres: "store_inv (wd_store (dk_world d))" "valid_extension (sess_extension s)"
    "fresh_mint (wd_store (dk_world d)) mt (length ups)"
    using pre read_uploads_length [OF ups] by simp_all
  have refs: "\<forall>out rcp. sender out = Inr rcp \<longrightarrow>
      rcp_ref rcp \<notin> mr_ref ` set (st_messages (wd_store (dk_world d))) - {[]}"
    using pre reg by blast
  from send_settled [where now = now, OF pres(1,2) destination_canonical [OF to] pres(3) sender refs]
  obtain m' out where settled: "m = Some m'" "delivery_of m' = outcome (attempt svc sender m' out)"
    "Some e = (case attempt svc sender m' out of Inl e \<Rightarrow> Some (Forward_Error e) | Inr _ \<Rightarrow> None)"
    "row_delivery (wd_store w1) (msg_id m') = Some (delivery_of m')" "msg_id m' = mint_message mt"
    using send(1) pre by auto
  then obtain f where f: "attempt svc sender m' out = Inl f" "e = Forward_Error f" by (auto split: sum.splits)
  then have "delivery_of m' = \<lparr>dlv_status = Failed, dlv_ref = [], dlv_fkind = failure_kind_of f,
      dlv_fdetail = send_error_text f\<rparr>"
    using settled(2) by (simp add: outcome_def)
  with settled(4,5) f why pre send(3) show ?row
    by (auto simp: failure_kind_of_def)
next
  show ?lost
    using send_action_run(1) [OF to ups] no_row_kept
    by (auto simp: send_failure_def classify_for_user_def)
qed

definition sample_request :: send_request where
  "sample_request = \<lparr>rq_thread = [], rq_to = ''+4930123'', rq_body = ''hi'', rq_files = []\<rparr>"

definition sample_desk :: desk where
  "sample_desk = \<lparr>dk_world = sample_world, dk_unread = Map.empty\<rparr>"

definition no_lookup :: faults where "no_lookup = (\<lambda>op _. op = ''store.thread_find'')"

theorem saved_as_failed_witness:
  "fst (send_message_action (\<lambda>_. []) sample_service no_lookup id sample_mint 0 True (Some sample_session)
      (Some sample_request) sample_desk) = Banner 502 Transport_Copy \<and>
   st_messages (wd_store (dk_world (snd (send_message_action (\<lambda>_. []) sample_service no_lookup id sample_mint 0 True
      (Some sample_session) (Some sample_request) sample_desk)))) = st_messages sample_store"
proof -
  let ?w = "dk_world sample_desk"
  have body: "trim_space ''hi'' = ''hi''" "parse_composed_address ''+4930123'' = Inr sample_remote"
    unfolding sample_remote_def by code_simp+
  have to: "destination no_lookup sample_session sample_request ?w = Inr sample_remote"
    by (simp add: destination_def sample_request_def body)
  have ups: "read_uploads (\<lambda>_. []) (rq_files sample_request) = Inr []" by (simp add: sample_request_def)
  have "send_message sample_service no_lookup id sample_mint 0 (sess_extension sample_session) sample_remote
      (rq_body sample_request) [] ?w
    = ((None, Some (Coded Infrastructure ''store.thread_resolve'')), ?w\<lparr>wd_store := wd_store ?w\<rparr>)"
    by (simp add: send_message_def body sample_request_def validate_send_ok [THEN iffD2] sample_service_def
        new_messaging_def sample_remote_def max_body_length_def validate_send_def oversized_def
        find_thread_def no_lookup_def wrap_def)
  with saved_as_failed [where svc = sample_service and mt = sample_mint and now = 0 and ok = True, OF to ups] show ?thesis
    by (simp add: sample_desk_def sample_world_def)
qed

section \<open>Whose documents are streamed\<close>

lemma fallback_cases:
  assumes "admin_fallback adm own anyone = Inr x"
  shows "own = Inr x \<or> adm \<and> anyone = Inr x"
  using assms by (auto simp: admin_fallback_def split: sum.splits err.splits if_splits)

lemma fax_any_row:
  assumes "idem_laws E view seen \<and> rows_ok fax_row_ok (view s)" "fax_get_any E i s = Inr j"
  shows "view s i = Some (fax_fold j)"
proof -
  obtain v where got: "eng_get E i s = Inr (Some v)" and j: "to_job v = Inr j"
    using assms(2) by (auto simp: fax_get_any_def split: sum.splits option.splits)
  have v: "view s i = Some v" using engine_get [OF idem_engine_laws [OF assms(1) [THEN conjunct1]] got] by simp
  from to_job_fold [OF rows_okD [OF assms(1) [THEN conjunct2] v] j] v show ?thesis by simp
qed

lemma fax_get_own:
  assumes "idem_laws E view seen \<and> rows_ok fax_row_ok (view s)" "view s i = Some v"
    and "fxv_owner v = ext_string ext" "eng_get E i s = Inr (Some v)"
  shows "\<exists>j. fax_get E ext i s = Inr j \<and> fax_fold j = v \<and> job_id j = i"
  using assms to_job_row [OF rows_okD [OF assms(1) [THEN conjunct2] assms(2)]] by (auto simp: fax_get_def wrap_read_def)

lemma blob_open_file: "blob_open fl rel fs = Inr bytes \<Longrightarrow> fs (rel_string rel) = Some bytes"
  by (auto simp: blob_open_def split: if_splits option.splits)

lemma attachment_own_row:
  assumes "attachment_by_id fl st ext i = Inr a"
  shows "\<exists>m \<in> set (st_messages st). mr_owner m = ext_string ext \<and>
    (\<exists>r \<in> set (st_attachments st). att_id r = i \<and> att_message r = mr_id m \<and> att_path r = att_path a)"
  using assms by (fastforce simp: attachment_by_id_def scan_attachment_def
      split: if_splits option.splits sum.splits dest!: select_one_Some)

lemma attachment_any_row:
  assumes "attachment_by_id_any fl st i = Inr a"
  shows "\<exists>r \<in> set (st_attachments st). att_id r = i \<and> att_path r = att_path a"
  using assms by (fastforce simp: attachment_by_id_any_def scan_attachment_def
      split: if_splits option.splits sum.splits dest!: select_one_Some)

text \<open>
  C19. Documents are private. A fax or an attachment is streamed only into a session, only
  for an identifier that names a stored row, and only when that row belongs to the
  session's own line or the session's e-mail is an administrator's; the bytes are those of
  the file the row names. Another line's document answers exactly as one that does not
  exist. And the owner does get the fax: a readable row of the own line whose file can be
  opened is streamed.
\<close>

theorem documents_private:
  assumes laws: "idem_laws E view seen" and rows: "rows_ok fax_row_ok (view (fw_store fw))"
  shows "(fax_document_action lower adm E fl sess raw fw = Stream mime name bytes \<longrightarrow>
      (\<exists>s i v. sess = Some s \<and> parse_id raw = Inr i \<and> view (fw_store fw) i = Some v \<and>
        (fxv_owner v = ext_string (sess_extension s) \<or> is_admin_session lower adm s) \<and>
        fw_files fw (fxv_path v) = Some bytes)) \<and>
    (attachment_action lower adm fl sess raw w = Stream mime name bytes \<longrightarrow>
      (\<exists>s i r. sess = Some s \<and> parse_id raw = Inr i \<and> r \<in> set (st_attachments (wd_store w)) \<and> att_id r = i \<and>
        ((\<exists>m \<in> set (st_messages (wd_store w)). mr_id m = att_message r \<and> mr_owner m = ext_string (sess_extension s)) \<or>
         is_admin_session lower adm s) \<and>
        wd_files w (att_path r) = Some bytes)) \<and>
    (sess = Some s \<and> \<not> is_admin_session lower adm s \<and> parse_id raw = Inr i \<and>
      view (fw_store fw) i = Some v \<and> fxv_owner v \<noteq> ext_string (sess_extension s) \<and>
      eng_get E i (fw_store fw) = Inr (Some v) \<longrightarrow>
      fax_document_action lower adm E fl sess raw fw = not_found_page) \<and>
    (sess = Some s \<and> parse_id raw = Inr i \<and> eng_get E i (fw_store fw) = Inr (Some v) \<and>
      fxv_owner v = ext_string (sess_extension s) \<and> fw_files fw (fxv_path v) = Some bytes \<longrightarrow>
      fax_document_action lower adm E no_faults sess raw fw = Stream ''application/pdf'' (''fax-'' @ i @ ''.pdf'') bytes)"
  (is "?fax \<and> ?att \<and> ?foreign \<and> ?own")
proof (intro conjI)
  have good: "idem_laws E view seen \<and> rows_ok fax_row_ok (view (fw_store fw))" using laws rows by simp
  show ?fax
  proof
    assume "fax_document_action lower adm E fl sess raw fw = Stream mime name bytes"
    then obtain s i j where s: "sess = Some s" "parse_id raw = Inr i"
      and job: "admin_fallback (is_admin_session lower adm s) (fax_get E (sess_extension s) i (fw_store fw))
        (fax_get_any E i (fw_store fw)) = Inr j" and doc: "fax_document fl j (fw_files fw) = Inr bytes"
      by (auto simp: fax_document_action_def sign_in_page_def not_found_page_def
          split: option.splits sum.splits err.splits)
    have "view (fw_store fw) i = Some (fax_fold j) \<and>
        (fxv_owner (fax_fold j) = ext_string (sess_extension s) \<or> is_admin_session lower adm s)"
      using fallback_cases [OF job] fax_get_row [OF good] fax_any_row [OF good] by (auto simp: fax_fold_def)
    moreover have "fw_files fw (fxv_path (fax_fold j)) = Some bytes"
      using doc by (auto simp: fax_document_def fax_fold_def parse_rel_path_ok
          split: sum.splits dest!: blob_open_file)
    ultimately show "\<exists>s i v. sess = Some s \<and> parse_id raw = Inr i \<and> view (fw_store fw) i = Some v \<and>
        (fxv_owner v = ext_string (sess_extension s) \<or> is_admin_session lower adm s) \<and>
        fw_files fw (fxv_path v) = Some bytes"
      using s by blast
  qed
  show ?att
  proof
    assume "attachment_action lower adm fl sess raw w = Stream mime name bytes"
    then obtain s i a where s: "sess = Some s" "parse_id raw = Inr i"
      and att: "admin_fallback (is_admin_session lower adm s) (attachment_by_id fl (wd_store w) (sess_extension s) i)
        (attachment_by_id_any fl (wd_store w) i) = Inr a" and doc: "open_attachment fl (att_path a) w = Inr bytes"
      by (auto simp: attachment_action_def sign_in_page_def not_found_page_def
          split: option.splits sum.splits err.splits)
    have held: "wd_files w (att_path a) = Some bytes"
      using doc by (auto simp: open_attachment_def parse_rel_path_ok split: sum.splits dest!: blob_open_file)
    from fallback_cases [OF att]
    show "\<exists>s i r. sess = Some s \<and> parse_id raw = Inr i \<and> r \<in> set (st_attachments (wd_store w)) \<and> att_id r = i \<and>
        ((\<exists>m \<in> set (st_messages (wd_store w)). mr_id m = att_message r \<and> mr_owner m = ext_string (sess_extension s)) \<or>
         is_admin_session lower adm s) \<and> wd_files w (att_path r) = Some bytes"
      using s held attachment_own_row [of fl "wd_store w" "sess_extension s" i a]
        attachment_any_row [of fl "wd_store w" i a] by metis
  qed
  show ?foreign
    by (auto simp: fax_document_action_def fax_get_def wrap_read_def admin_fallback_def)
  show ?own
  proof
    assume pre: "sess = Some s \<and> parse_id raw = Inr i \<and> eng_get E i (fw_store fw) = Inr (Some v) \<and>
      fxv_owner v = ext_string (sess_extension s) \<and> fw_files fw (fxv_path v) = Some bytes"
    have v: "view (fw_store fw) i = Some v" using engine_get [OF idem_engine_laws [OF laws], of i "fw_store fw"] pre by simp
    from fax_get_own [OF good v] pre obtain j where
      j: "fax_get E (sess_extension s) i (fw_store fw) = Inr j" "fax_fold j = v" "job_id j = i" by blast
    have "parse_rel_path (job_path j) = Inr (Rel_Path (job_path j))"
      using rows_okD [OF rows v] j(2) by (auto simp: fax_row_ok_def fax_fold_def)
    with pre j show "fax_document_action lower adm E no_faults sess raw fw
        = Stream ''application/pdf'' (''fax-'' @ i @ ''.pdf'') bytes"
      by (auto simp: fax_document_action_def admin_fallback_def fax_document_def blob_open_def
          fax_fold_def no_faults_simp)
  qed
qed

theorem documents_private_witness:
  "fax_document_action id None mem_idem no_faults (Some sample_session) ''faxjob-00000000000001''
      (sample_fax_world Fax_Failed)
    = Stream ''application/pdf'' ''fax-faxjob-00000000000001.pdf'' ''%PDF-1'' \<and>
   fax_document_action id None mem_idem no_faults (Some (sample_session\<lparr>sess_extension := Extension ''1002''\<rparr>))
      ''faxjob-00000000000001'' (sample_fax_world Fax_Failed) = not_found_page"
proof -
  let ?w = "sample_fax_world Fax_Failed"
  have row: "eng_get mem_idem ''faxjob-00000000000001'' (fw_store ?w) = Inr (Some (sample_fax Fax_Failed))"
    "mem_view (fw_store ?w) ''faxjob-00000000000001'' = Some (sample_fax Fax_Failed)"
    by (simp_all add: sample_fax_world_def mem_idem_def mem_engine_def)
  have i: "parse_id ''faxjob-00000000000001'' = Inr ''faxjob-00000000000001''"
    by (simp add: parse_id_raw valid_id_def)
  let ?i = "''faxjob-00000000000001''" and ?other = "sample_session\<lparr>sess_extension := Extension ''1002''\<rparr>"
  note law = documents_private [where lower = id and adm = None and fl = no_faults and raw = ?i and i = ?i
      and v = "sample_fax Fax_Failed" and fw = ?w, OF mem_idem_laws sample_fax_row]
  have doc: "fw_files ?w (fxv_path (sample_fax Fax_Failed)) = Some ''%PDF-1''"
    "fxv_owner (sample_fax Fax_Failed) = ''1001''"
    by (simp_all add: sample_fax_world_def sample_fax_def)
  have "fax_document_action id None mem_idem no_faults (Some sample_session) ?i ?w
      = Stream ''application/pdf'' (''fax-'' @ ?i @ ''.pdf'') ''%PDF-1''"
    using law [where s = sample_session and sess = "Some sample_session", THEN conjunct2, THEN conjunct2, THEN conjunct2]
      row i doc by (simp add: sample_session_def)
  moreover have "fax_document_action id None mem_idem no_faults (Some ?other) ?i ?w = not_found_page"
    using law [where s = ?other and sess = "Some ?other", THEN conjunct2, THEN conjunct2, THEN conjunct1]
      row i doc by (simp add: sample_session_def is_admin_session_def)
  ultimately show ?thesis by simp
qed

end
