(* ===== verification/Doors.thy ===== *)
theory Doors
  imports Actions Call_Slots Push Dial_Windows Transcripts
begin

text \<open>
  The doors to the personal stores of an extension: the form handlers of the contact book,
  the snippets, the thread flags and the unread badge (\<^verbatim>\<open>internal/server/actions.go\<close>,
  \<^verbatim>\<open>unread.go\<close>) and the JSON handlers of \<^verbatim>\<open>internal/server/api\<close> for contacts, call notes,
  push devices, the dial gate and transcripts. A JSON body is what the decoder of the
  standard library made of it, \<open>None\<close> when it refuses. A seam that the composition left out is
  the argument that says so. An answer with a body is \<open>Inr\<close> the value behind the body.
\<close>

section \<open>The contact book\<close>

definition max_contact_name :: nat where "max_contact_name = 200"

text \<open>The book, and the extensions whose other tabs were nudged.\<close>

record 's book =
  bk_store :: 's
  bk_nudges :: "extension list"

definition notify_contacts :: "bool \<Rightarrow> extension \<Rightarrow> 's book \<Rightarrow> 's book" where
  "notify_contacts hubs ext b = (if hubs then b\<lparr>bk_nudges := bk_nudges b @ [ext]\<rparr> else b)"

definition failed_with :: "nat \<Rightarrow> err \<Rightarrow> http_answer" where
  "failed_with status e = (if e = Panic then Crash else Plain status)"

definition new_contact :: "contact_id \<Rightarrow> time \<Rightarrow> session \<Rightarrow> string \<Rightarrow> phone \<Rightarrow> contact" where
  "new_contact cid now s name p =
     \<lparr>con_id = cid, con_owner = sess_extension s, con_name = name, con_phone = p, con_created = now\<rparr>"

definition save_contact_form ::
  "('s, contact_key, contact_view) engine \<Rightarrow> bool \<Rightarrow> contact_id \<Rightarrow> time \<Rightarrow> session option \<Rightarrow> string \<Rightarrow> string \<Rightarrow>
   's book \<Rightarrow> http_answer \<times> 's book" where
  "save_contact_form E hubs cid now sess name number b =
     (case sess of
        None \<Rightarrow> (sign_in_page, b)
      | Some s \<Rightarrow>
          if length name > max_contact_name then (Plain 422, b)
          else
            (case parse_phone number of
               Inl _ \<Rightarrow> (Plain 422, b)
             | Inr p \<Rightarrow>
                 (case contact_save E (new_contact cid now s name p) (bk_store b) of
                    (Inl e, st) \<Rightarrow> (failed_with 500 e, b\<lparr>bk_store := st\<rparr>)
                  | (Inr _, st) \<Rightarrow> (Page, notify_contacts hubs (sess_extension s) (b\<lparr>bk_store := st\<rparr>)))))"

definition delete_contact_form ::
  "('s, contact_key, contact_view) engine \<Rightarrow> bool \<Rightarrow> session option \<Rightarrow> string \<Rightarrow> 's book \<Rightarrow> http_answer \<times> 's book" where
  "delete_contact_form E hubs sess raw b =
     (case sess of
        None \<Rightarrow> (sign_in_page, b)
      | Some s \<Rightarrow>
          (case parse_id raw of
             Inl _ \<Rightarrow> (not_found_page, b)
           | Inr i \<Rightarrow>
               (case contact_delete E (sess_extension s) i (bk_store b) of
                  (Inl e, st) \<Rightarrow> (failed_with 404 e, b\<lparr>bk_store := st\<rparr>)
                | (Inr _, st) \<Rightarrow> (Page, notify_contacts hubs (sess_extension s) (b\<lparr>bk_store := st\<rparr>)))))"

text \<open>\<^verbatim>\<open>storeAtCapacity\<close> knows the refusals that wrap \<^verbatim>\<open>ErrListFull\<close>.\<close>

definition at_capacity :: "err \<Rightarrow> bool" where
  "at_capacity e \<longleftrightarrow>
     e \<in> {Coded Rejection ''readmodels.contact_list_full'', Coded Rejection ''readmodels.push_list_full''}"

definition list_contacts_json ::
  "('s, contact_key, contact_view) engine \<Rightarrow> (string \<times> string) list \<Rightarrow> session option \<Rightarrow> 's book \<Rightarrow>
   http_answer + (string \<times> string \<times> string) list \<times> (string \<times> string) list" where
  "list_contacts_json E shared sess b =
     (case sess of
        None \<Rightarrow> Inl sign_in_page
      | Some s \<Rightarrow>
          (case contact_list E (sess_extension s) (bk_store b) of
             Inl e \<Rightarrow> Inl (failed_with 500 e)
           | Inr cs \<Rightarrow> Inr (map (\<lambda>c. (con_id c, con_name c, phone_string (con_phone c))) cs, shared)))"

definition save_contact_json ::
  "('s, contact_key, contact_view) engine \<Rightarrow> bool \<Rightarrow> contact_id \<Rightarrow> time \<Rightarrow> session option \<Rightarrow> (string \<times> string) option \<Rightarrow>
   's book \<Rightarrow> http_answer \<times> 's book" where
  "save_contact_json E hubs cid now sess body b =
     (case sess of
        None \<Rightarrow> (sign_in_page, b)
      | Some s \<Rightarrow>
          (case body of
             None \<Rightarrow> (Plain 400, b)
           | Some (name, number) \<Rightarrow>
               (case parse_phone number of
                  Inl _ \<Rightarrow> (Plain 422, b)
                | Inr p \<Rightarrow>
                    if length name > max_contact_name then (Plain 422, b)
                    else
                      (case contact_save E (new_contact cid now s name p) (bk_store b) of
                         (Inl e, st) \<Rightarrow>
                           (if at_capacity e then Plain 422 else failed_with 500 e, b\<lparr>bk_store := st\<rparr>)
                       | (Inr _, st) \<Rightarrow>
                           (No_Content, notify_contacts hubs (sess_extension s) (b\<lparr>bk_store := st\<rparr>))))))"

definition delete_contact_json ::
  "('s, contact_key, contact_view) engine \<Rightarrow> bool \<Rightarrow> session option \<Rightarrow> string \<Rightarrow> 's book \<Rightarrow> http_answer \<times> 's book" where
  "delete_contact_json E hubs sess raw b =
     (case sess of
        None \<Rightarrow> (sign_in_page, b)
      | Some s \<Rightarrow>
          (case parse_id raw of
             Inl _ \<Rightarrow> (not_found_page, b)
           | Inr i \<Rightarrow>
               (case contact_delete E (sess_extension s) i (bk_store b) of
                  (Inl e, st) \<Rightarrow> (failed_with 404 e, b\<lparr>bk_store := st\<rparr>)
                | (Inr _, st) \<Rightarrow> (No_Content, notify_contacts hubs (sess_extension s) (b\<lparr>bk_store := st\<rparr>)))))"

section \<open>Snippets\<close>

definition save_snippet_form ::
  "('s, string, snippet_view) engine \<Rightarrow> snippet_id \<Rightarrow> time \<Rightarrow> session option \<Rightarrow> string \<Rightarrow> string \<Rightarrow> 's \<Rightarrow> http_answer \<times> 's" where
  "save_snippet_form E sid now sess raw quick st =
     (case sess of
        None \<Rightarrow> (sign_in_page, st)
      | Some s \<Rightarrow>
          (let body = trim_space raw in
           if body = [] \<or> length body > max_body_length then (Plain 422, st)
           else
             (case snippet_save E \<lparr>sni_id = sid, sni_owner = sess_extension s, sni_body = body,
                                   sni_quick = (quick = ''1''), sni_created = now\<rparr> st of
                (Inl e, st1) \<Rightarrow>
                  (if e = Coded Rejection ''readmodels.snippet_list_full'' then Plain 422 else failed_with 500 e, st1)
              | (Inr _, st1) \<Rightarrow> (Page, st1))))"

definition delete_snippet_form ::
  "('s, string, snippet_view) engine \<Rightarrow> session option \<Rightarrow> string \<Rightarrow> 's \<Rightarrow> http_answer \<times> 's" where
  "delete_snippet_form E sess raw st =
     (case sess of
        None \<Rightarrow> (sign_in_page, st)
      | Some s \<Rightarrow>
          (case parse_id raw of
             Inl _ \<Rightarrow> (not_found_page, st)
           | Inr i \<Rightarrow>
               (case snippet_delete E (sess_extension s) i st of
                  (Inl e, st1) \<Rightarrow> (failed_with 404 e, st1)
                | (Inr _, st1) \<Rightarrow> (Page, st1))))"

section \<open>Call notes\<close>

definition note_body_max :: nat where "note_body_max = 4000"
definition call_id_max :: nat where "call_id_max = 128"

definition valid_call_id :: "string \<Rightarrow> bool" where
  "valid_call_id c \<longleftrightarrow> c \<noteq> [] \<and> length c \<le> call_id_max \<and> CHR ''/'' \<notin> set c \<and> CHR ''%'' \<notin> set c"

definition get_note_json ::
  "('s, slot_key, note_view) engine \<Rightarrow> bool \<Rightarrow> session option \<Rightarrow> string \<Rightarrow> 's \<Rightarrow> http_answer + string" where
  "get_note_json E stored sess call st =
     (case sess of
        None \<Rightarrow> Inl sign_in_page
      | Some s \<Rightarrow>
          if \<not> stored then Inl (Plain 503)
          else if \<not> valid_call_id call then Inl (Plain 400)
          else
            (case note_get E (sess_extension s) call st of
               Inl e \<Rightarrow> Inl (failed_with 500 e)
             | Inr v \<Rightarrow> Inr (case v of None \<Rightarrow> [] | Some note \<Rightarrow> nov_body note)))"

definition set_note_json ::
  "('s, slot_key, note_view) engine \<Rightarrow> bool \<Rightarrow> time \<Rightarrow> session option \<Rightarrow> string \<Rightarrow> string option \<Rightarrow> 's \<Rightarrow> http_answer \<times> 's" where
  "set_note_json E stored now sess call body st =
     (case sess of
        None \<Rightarrow> (sign_in_page, st)
      | Some s \<Rightarrow>
          if \<not> stored then (Plain 503, st)
          else if \<not> valid_call_id call then (Plain 400, st)
          else
            (case body of
               None \<Rightarrow> (Plain 400, st)
             | Some raw \<Rightarrow>
                 (let note = trim_space raw in
                  if length note > note_body_max then (Plain 413, st)
                  else
                    (case note_set E now (sess_extension s) call note st of
                       (Inl e, st1) \<Rightarrow>
                         (if e = Coded Conflict ''readmodels.note_list_full'' then Plain 409 else failed_with 500 e, st1)
                     | (Inr _, st1) \<Rightarrow> (No_Content, st1)))))"

section \<open>Push devices\<close>

definition ascii_identifier :: "string \<Rightarrow> string \<Rightarrow> bool" where
  "ascii_identifier extra v \<longleftrightarrow> list_all (\<lambda>c. is_letter_char c \<or> is_digit_char c \<or> c \<in> set extra) v"

definition valid_device_id :: "string \<Rightarrow> bool" where
  "valid_device_id i \<longleftrightarrow> 8 \<le> length i \<and> length i \<le> 64 \<and> ascii_identifier ''-_'' i"

definition valid_ntfy_topic :: "string \<Rightarrow> bool" where
  "valid_ntfy_topic t \<longleftrightarrow>
     t \<noteq> [] \<and> length t \<le> 64 \<and> list_all (\<lambda>c. c \<notin> {CHR '' '', CHR ''/'', CHR 0x09, CHR 0x0D, CHR 0x0A}) t"

definition valid_device_token :: "string \<Rightarrow> string \<Rightarrow> bool" where
  "valid_device_token transport t \<longleftrightarrow>
     t \<noteq> [] \<and> length t \<le> 4096 \<and>
     (if transport = ''ntfy'' then valid_ntfy_topic t else ascii_identifier '':-_'' t)"

definition push_session :: "fanout option \<Rightarrow> bool \<Rightarrow> session option \<Rightarrow> http_answer + session" where
  "push_session f registry sess =
     (case sess of
        None \<Rightarrow> Inl sign_in_page
      | Some s \<Rightarrow> if \<not> fanout_enabled f \<or> \<not> registry then Inl not_found_page else Inr s)"

definition list_devices_json ::
  "('s, slot_key, device_view) engine \<Rightarrow> fanout option \<Rightarrow> bool \<Rightarrow> session option \<Rightarrow> 's \<Rightarrow>
   http_answer + (string \<times> string \<times> int) list" where
  "list_devices_json E f registry sess st =
     (case push_session f registry sess of
        Inl a \<Rightarrow> Inl a
      | Inr s \<Rightarrow>
          (case device_list E (sess_extension s) st of
             Inl e \<Rightarrow> Inl (failed_with 500 e)
           | Inr vs \<Rightarrow> Inr (map (\<lambda>v. (dvv_device v, dvv_transport v, dvv_updated v)) vs)))"

definition save_device_json ::
  "('s, slot_key, device_view) engine \<Rightarrow> fanout option \<Rightarrow> bool \<Rightarrow> time \<Rightarrow> session option \<Rightarrow>
   (string \<times> string \<times> string) option \<Rightarrow> 's \<Rightarrow> http_answer \<times> 's" where
  "save_device_json E f registry now sess body st =
     (case push_session f registry sess of
        Inl a \<Rightarrow> (a, st)
      | Inr s \<Rightarrow>
          (case body of
             None \<Rightarrow> (Plain 400, st)
           | Some (dev, transport, tok) \<Rightarrow>
               if \<not> valid_device_id dev \<or> \<not> fanout_knows f transport \<or> \<not> valid_device_token transport tok
               then (Plain 422, st)
               else
                 (case device_upsert E now (sess_extension s) dev transport tok st of
                    (Inl e, st1) \<Rightarrow> (if at_capacity e then Plain 422 else failed_with 500 e, st1)
                  | (Inr _, st1) \<Rightarrow> (No_Content, st1))))"

definition delete_device_json ::
  "('s, slot_key, device_view) engine \<Rightarrow> fanout option \<Rightarrow> bool \<Rightarrow> session option \<Rightarrow> string \<Rightarrow> 's \<Rightarrow> http_answer \<times> 's" where
  "delete_device_json E f registry sess dev st =
     (case push_session f registry sess of
        Inl a \<Rightarrow> (a, st)
      | Inr s \<Rightarrow>
          if \<not> valid_device_id dev then (not_found_page, st)
          else
            (case device_remove E (sess_extension s) dev st of
               (Inl e, st1) \<Rightarrow> (failed_with 500 e, st1)
             | (Inr _, st1) \<Rightarrow> (No_Content, st1)))"

section \<open>The dial gate\<close>

definition dial_gate_max :: nat where "dial_gate_max = 64"

record dial_answer =
  da_allowed :: bool
  da_last :: int
  da_window :: int

definition valid_dial_remote :: "string \<Rightarrow> bool" where
  "valid_dial_remote r \<longleftrightarrow> r \<noteq> [] \<and> length r \<le> dial_gate_max \<and> CHR ''/'' \<notin> set r \<and> CHR ''%'' \<notin> set r"

text \<open>\<^verbatim>\<open>DialGate\<close>: \<open>at1\<close> is the clock of arming the override, \<open>at2\<close> that of the attempt.\<close>

definition dial_gate_json ::
  "('w, 'o) dial_models \<Rightarrow> duration \<Rightarrow> bool \<Rightarrow> time \<Rightarrow> time \<Rightarrow> session option \<Rightarrow> (string \<times> bool) option \<Rightarrow> 'w \<times> 'o \<Rightarrow>
   (http_answer + dial_answer) \<times> 'w \<times> 'o" where
  "dial_gate_json M cooldown stored at1 at2 sess body s0 =
     (case sess of
        None \<Rightarrow> (Inl sign_in_page, s0)
      | Some s \<Rightarrow>
          if cooldown \<le> 0 then (Inl not_found_page, s0)
          else if \<not> stored then (Inl (Plain 503), s0)
          else
            (case body of
               None \<Rightarrow> (Inl (Plain 400), s0)
             | Some (raw, override) \<Rightarrow>
                 (let remote = trim_space raw in
                  if \<not> valid_dial_remote remote then (Inl (Plain 400), s0)
                  else
                    (case (if override then arm_override M (sess_extension s) remote at1 s0 else (Inr (), s0)) of
                       (Inl _, s1) \<Rightarrow> (Inl (Plain 502), s1)
                     | (Inr _, s1) \<Rightarrow>
                         (case dial_attempt M (sess_extension s) remote cooldown at2 s1 of
                            ((_, _, Some _), s2) \<Rightarrow> (Inl (Plain 502), s2)
                          | ((True, _, None), s2) \<Rightarrow> (Inr \<lparr>da_allowed = True, da_last = 0, da_window = 0\<rparr>, s2)
                          | ((False, stamp, None), s2) \<Rightarrow>
                              (Inr \<lparr>da_allowed = False, da_last = unix stamp, da_window = whole_seconds cooldown\<rparr>, s2))))))"

definition dial_slots_json ::
  "('w, 'o) dial_models \<Rightarrow> duration \<Rightarrow> bool \<Rightarrow> time \<Rightarrow> session option \<Rightarrow> 'w \<times> 'o \<Rightarrow> http_answer + active_slot list" where
  "dial_slots_json M cooldown stored now sess s0 =
     (case sess of
        None \<Rightarrow> Inl sign_in_page
      | Some s \<Rightarrow>
          if cooldown \<le> 0 then Inl not_found_page
          else if \<not> stored then Inl (Plain 503)
          else
            (case dial_active M (sess_extension s) cooldown now s0 of
               Inl _ \<Rightarrow> Inl (Plain 502) | Inr slots \<Rightarrow> Inr slots))"

section \<open>Transcripts\<close>

definition transcript_text_max :: nat where "transcript_text_max = 4000"

record transcript_body =
  tb_call :: string
  tb_direction :: string
  tb_remote :: string
  tb_started :: int
  tb_text :: string

text \<open>The checks of \<^verbatim>\<open>SaveTranscript\<close> in the code's order; past them all, the segment.\<close>

definition read_segment :: "session \<Rightarrow> transcript_body \<Rightarrow> http_answer + segment" where
  "read_segment s b =
     (case parse_direction (tb_direction b) of
        Inl _ \<Rightarrow> Inl (Plain 400)
      | Inr dir \<Rightarrow>
          (let call = trim_space (tb_call b); remote = trim_space (tb_remote b); txt = trim_space (tb_text b) in
           if call = [] \<or> length call > call_id_max \<or> tb_started b \<le> 0 then Inl (Plain 400)
           else
             (case parse_phone remote of
                Inl _ \<Rightarrow> Inl (Plain 400)
              | Inr p \<Rightarrow>
                  if txt = [] then Inl (Plain 400)
                  else if length txt > transcript_text_max then Inl (Plain 413)
                  else
                    Inr \<lparr>seg_owner = sess_extension s, seg_call = call, seg_direction = direction_string dir,
                         seg_remote = phone_string p, seg_started = tb_started b * 1000000, seg_text = txt\<rparr>)))"

definition save_transcript_json ::
  "('s, string, segment_view) capped_engine \<Rightarrow> bool \<Rightarrow> bool \<Rightarrow> string \<Rightarrow> time \<Rightarrow> session option \<Rightarrow>
   transcript_body option \<Rightarrow> 's \<Rightarrow> (http_answer \<times> 's) option" where
  "save_transcript_json E asr stored i now sess body st =
     (case sess of
        None \<Rightarrow> Some (sign_in_page, st)
      | Some s \<Rightarrow>
          if \<not> asr then Some (not_found_page, st)
          else if \<not> stored then Some (Plain 503, st)
          else
            (case body of
               None \<Rightarrow> Some (Plain 400, st)
             | Some b \<Rightarrow>
                 (case read_segment s b of
                    Inl a \<Rightarrow> Some (a, st)
                  | Inr seg \<Rightarrow>
                      map_option (\<lambda>(r, st1). (case r of Inl e \<Rightarrow> failed_with 500 e | Inr _ \<Rightarrow> No_Content, st1))
                        (transcript_append E i now seg st))))"

definition delete_transcript_json ::
  "('s, string, segment_view) capped_engine \<Rightarrow> bool \<Rightarrow> bool \<Rightarrow> session option \<Rightarrow> string \<Rightarrow> 's \<Rightarrow> http_answer \<times> 's" where
  "delete_transcript_json E asr stored sess raw st =
     (case sess of
        None \<Rightarrow> (sign_in_page, st)
      | Some s \<Rightarrow>
          if \<not> asr then (not_found_page, st)
          else if \<not> stored then (Plain 503, st)
          else
            (let call = trim_space raw in
             if call = [] \<or> length call > call_id_max then (Plain 400, st)
             else
               (case delete_call E (sess_extension s) call st of
                  (Inl e, st1) \<Rightarrow> (failed_with 500 e, st1)
                | (Inr _, st1) \<Rightarrow> (No_Content, st1))))"

section \<open>Threads and the unread badge\<close>

definition mark_thread_read_action ::
  "faults \<Rightarrow> session option \<Rightarrow> string \<Rightarrow> desk \<Rightarrow> http_answer \<times> desk" where
  "mark_thread_read_action fl sess raw d =
     (case sess of
        None \<Rightarrow> (sign_in_page, d)
      | Some s \<Rightarrow>
          (case parse_id raw of
             Inl _ \<Rightarrow> (not_found_page, d)
           | Inr tid \<Rightarrow>
               (case svc_mark_read fl (sess_extension s) tid (dk_world d) of
                  (Inl e, w) \<Rightarrow> (failed_with 500 e, d\<lparr>dk_world := w\<rparr>)
                | (Inr _, w) \<Rightarrow> (No_Content, drop_unread (sess_extension s) (d\<lparr>dk_world := w\<rparr>)))))"

definition thread_flag_actions :: "string \<rightharpoonup> string" where
  "thread_flag_actions =
     map_of [(''pin'', ''pinned''), (''archive'', ''archived''), (''mute'', ''muted'')]"

text \<open>\<open>head\<close> tells that the head of the open thread asked, which is answered with the fresh head.\<close>

definition set_thread_flag_action ::
  "faults \<Rightarrow> session option \<Rightarrow> string \<Rightarrow> string \<Rightarrow> string \<Rightarrow> bool \<Rightarrow> desk \<Rightarrow> http_answer \<times> desk" where
  "set_thread_flag_action fl sess flag raw on head d =
     (case sess of
        None \<Rightarrow> (sign_in_page, d)
      | Some s \<Rightarrow>
          (case thread_flag_actions flag of
             None \<Rightarrow> (not_found_page, d)
           | Some column \<Rightarrow>
               (case parse_id raw of
                  Inl _ \<Rightarrow> (not_found_page, d)
                | Inr tid \<Rightarrow>
                    (case svc_set_thread_flag fl (sess_extension s) tid column (on = ''1'') (dk_world d) of
                       (Inl e, w) \<Rightarrow>
                         (if e = Not_Found then not_found_page else failed_with 500 e, d\<lparr>dk_world := w\<rparr>)
                     | (Inr _, w) \<Rightarrow>
                         (let d1 = drop_unread (sess_extension s) (d\<lparr>dk_world := w\<rparr>) in
                          (if \<not> head then No_Content
                           else
                             (case thread_transcript fl (sess_extension s) tid w of
                                Inl e \<Rightarrow> failed_with 404 e | Inr _ \<Rightarrow> Thread_Page), d1))))))"

definition unread_get :: "time \<Rightarrow> extension \<Rightarrow> unread_cache \<Rightarrow> int option" where
  "unread_get now ext c =
     (case c ext of None \<Rightarrow> None | Some (n, expires) \<Rightarrow> if now > expires then None else Some n)"

definition unread_put :: "duration \<Rightarrow> time \<Rightarrow> extension \<Rightarrow> int \<Rightarrow> unread_cache \<Rightarrow> unread_cache" where
  "unread_put ttl now ext n c = c(ext \<mapsto> (n, now + ttl))"

definition unread_ttl :: duration where "unread_ttl = 5 * second"

text \<open>The badge; \<open>Inl\<close> is the panic of a row that cannot be rendered. \<open>at1\<close> and \<open>at2\<close> are the clocks of the lookup and of the write.\<close>

definition count_unread :: "faults \<Rightarrow> time \<Rightarrow> time \<Rightarrow> extension \<Rightarrow> desk \<Rightarrow> (err + int) \<times> desk" where
  "count_unread fl at1 at2 ext d =
     (case unread_get at1 ext (dk_unread d) of
        Some n \<Rightarrow> (Inr n, d)
      | None \<Rightarrow>
          (case list_threads fl (wd_store (dk_world d)) ext of
             Inl e \<Rightarrow> (if e = Panic then Inl Panic else Inr 0, d)
           | Inr sums \<Rightarrow>
               (let n = sum_list (map (thr_unread \<circ> sum_thread) (filter (\<lambda>x. \<not> thr_muted (sum_thread x)) sums)) in
                (Inr n, d\<lparr>dk_unread := unread_put unread_ttl at2 ext n (dk_unread d)\<rparr>))))"

section \<open>Two doors to one book\<close>

lemma contact_save_refusals:
  assumes "contact_save E c st = (Inl e, st')" "at_capacity e"
  shows "e = Coded Rejection ''readmodels.contact_list_full''"
  using assms
  by (auto simp: contact_save_def contact_put_def contact_room_def contact_views_def at_capacity_def must_id_def
      must_def wrap_def wrap_read_def wrap_write_def Let_def split: sum.splits option.splits if_splits prod.splits)



end
