(* ===== verification/Crm.thy ===== *)
theory Crm
  imports Disposition Address "HOL-Library.Finite_Map"
begin

text \<open>
  The CRM integration (\<^verbatim>\<open>internal/crm\<close>): the client (\<^verbatim>\<open>client.go\<close>, \<^verbatim>\<open>vocabulary.go\<close>,
  \<^verbatim>\<open>context.go\<close>) and the resolver (\<^verbatim>\<open>resolver.go\<close>) with its caches and the single flight of
  concurrent lookups. The CRM is another program: what it answers a request is an input, and
  so is every clock. A reply is what the client makes of the HTTP exchange. A disabled
  client answers before any exchange.
\<close>

section \<open>The client\<close>

datatype crm_err =
    Crm_Disabled
  | Crm_Unauthorized
  | Crm_Not_Found
  | Crm_No_Context
  | Crm_Coded family string

datatype 'a crm_reply =
    No_Request
  | No_Answer
  | Status nat
  | Body_Unread
  | Body_Undecoded
  | Body 'a

text \<open>\<open>Status\<close> is an answer other than 200; the last three are a 200.\<close>

record crm_contact =
  cc_id :: string
  cc_first :: string
  cc_last :: string
  cc_email :: string

record person =
  pe_ref :: string
  pe_name :: string

definition status_family :: "nat \<Rightarrow> family" where
  "status_family status = (if status < 500 then Rejection else Transient)"

definition refused_token :: "nat \<Rightarrow> bool" where
  "refused_token status \<longleftrightarrow> status = 401 \<or> status = 403"

definition lookup_by_phone :: "bool \<Rightarrow> crm_contact list crm_reply \<Rightarrow> crm_err + person" where
  "lookup_by_phone enabled reply =
     (if \<not> enabled then Inl Crm_Disabled
      else
        (case reply of
           No_Request \<Rightarrow> Inl (Crm_Coded Infrastructure ''crm.request'')
         | No_Answer \<Rightarrow> Inl (Crm_Coded Transient ''crm.transport'')
         | Status status \<Rightarrow>
             if refused_token status then Inl Crm_Unauthorized
             else Inl (Crm_Coded (status_family status) ''crm.http'')
         | Body_Unread \<Rightarrow> Inl (Crm_Coded Transient ''crm.read'')
         | Body_Undecoded \<Rightarrow> Inl (Crm_Coded Transient ''crm.decode'')
         | Body [] \<Rightarrow> Inl Crm_Not_Found
         | Body (c # _) \<Rightarrow>
             (let name = trim_space (cc_first c @ '' '' @ cc_last c) in
              Inr \<lparr>pe_ref = cc_id c, pe_name = (if name = [] then cc_email c else name)\<rparr>)))"

fun crm_outcome :: "disposition \<Rightarrow> string" where
  "crm_outcome Disp_Answered = ''connected''"
| "crm_outcome Disp_Missed = ''no_answer''"
| "crm_outcome Disp_Voicemail = ''voicemail''"
| "crm_outcome Disp_IVR = ''ivr''"
| "crm_outcome Disp_Failed = ''disconnected''"
| "crm_outcome Disp_Unknown = []"

record call_entry =
  ce_ref :: string
  ce_direction :: string
  ce_number :: string
  ce_seconds :: int
  ce_outcome :: string

definition entry_of_call :: "string \<Rightarrow> string \<Rightarrow> string \<Rightarrow> int \<Rightarrow> disposition \<Rightarrow> call_entry" where
  "entry_of_call ref direction number seconds d =
     \<lparr>ce_ref = ref, ce_direction = direction, ce_number = number, ce_seconds = seconds, ce_outcome = crm_outcome d\<rparr>"

text \<open>A 200 is no answer to a call log: only 204 is.\<close>

definition log_call_answer :: "bool \<Rightarrow> unit crm_reply \<Rightarrow> crm_err + unit" where
  "log_call_answer enabled reply =
     (if \<not> enabled then Inl Crm_Disabled
      else
        (case reply of
           No_Request \<Rightarrow> Inl (Crm_Coded Infrastructure ''crm.request'')
         | No_Answer \<Rightarrow> Inl (Crm_Coded Transient ''crm.transport'')
         | Status status \<Rightarrow>
             if status = 204 then Inr ()
             else if refused_token status then Inl Crm_Unauthorized
             else if status \<ge> 400 \<and> status < 500 then Inl (Crm_Coded Rejection ''crm.call_log.rejected'')
             else Inl (Crm_Coded Transient ''crm.call_log.failed'')
         | _ \<Rightarrow> Inl (Crm_Coded Transient ''crm.call_log.failed'')))"

definition crm_health :: "bool \<Rightarrow> 'a crm_reply \<Rightarrow> crm_err + unit" where
  "crm_health enabled reply =
     (if \<not> enabled then Inl Crm_Disabled
      else
        (case reply of
           No_Request \<Rightarrow> Inl (Crm_Coded Infrastructure ''crm.request'')
         | No_Answer \<Rightarrow> Inl (Crm_Coded Transient ''crm.transport'')
         | Status status \<Rightarrow>
             if refused_token status then Inl (Crm_Coded Rejection ''crm.health.unauthorized'')
             else Inl (Crm_Coded Transient ''crm.health.failed'')
         | _ \<Rightarrow> Inr ()))"

section \<open>Contact context\<close>

record deal =
  dl_title :: string
  dl_stage :: string
  dl_cents :: int
  dl_currency :: string

text \<open>A timestamp of the wire is already parsed: \<open>None\<close> when it is no RFC 3339 time.\<close>

record crm_task =
  tk_title :: string
  tk_due :: "time option"
  tk_overdue :: bool

record context_wire =
  xw_company :: string
  xw_deals :: "deal list"
  xw_deal_count :: int
  xw_tasks :: int
  xw_next :: "crm_task option"
  xw_activity :: "time option"

record crm_context =
  cx_company :: string
  cx_deals :: "deal list"
  cx_deal_count :: int
  cx_tasks :: int
  cx_next :: "(string \<times> time \<times> bool) option"
  cx_activity :: time

definition to_context :: "context_wire \<Rightarrow> crm_context" where
  "to_context w =
     \<lparr>cx_company = xw_company w, cx_deals = xw_deals w,
      cx_deal_count = max (xw_deal_count w) (int (length (xw_deals w))), cx_tasks = max (xw_tasks w) 0,
      cx_next =
        (case xw_next w of
           None \<Rightarrow> None
         | Some t \<Rightarrow>
             if tk_title t = [] then None
             else Some (tk_title t, case tk_due t of None \<Rightarrow> zero_time | Some at \<Rightarrow> at, tk_overdue t)),
      cx_activity = (case xw_activity w of None \<Rightarrow> zero_time | Some at \<Rightarrow> at)\<rparr>"

definition contact_context :: "bool \<Rightarrow> context_wire crm_reply \<Rightarrow> crm_err + crm_context" where
  "contact_context enabled reply =
     (if \<not> enabled then Inl Crm_Disabled
      else
        (case reply of
           No_Request \<Rightarrow> Inl (Crm_Coded Infrastructure ''crm.request'')
         | No_Answer \<Rightarrow> Inl (Crm_Coded Transient ''crm.transport'')
         | Status status \<Rightarrow>
             if status = 404 then Inl Crm_No_Context
             else if refused_token status then Inl Crm_Unauthorized
             else Inl (Crm_Coded (status_family status) ''crm.context'')
         | Body_Unread \<Rightarrow> Inl (Crm_Coded Transient ''crm.context_read'')
         | Body_Undecoded \<Rightarrow> Inl (Crm_Coded Transient ''crm.context_decode'')
         | Body w \<Rightarrow> Inr (to_context w)))"

text \<open>The strip of \<^verbatim>\<open>crmContextView\<close>: two deals shown, the rest counted; \<open>None\<close> renders nothing.\<close>

record strip =
  sp_company :: string
  sp_deals :: "deal list"
  sp_more :: int
  sp_tasks :: int
  sp_next :: "(string \<times> time \<times> bool) option"
  sp_activity :: time

definition crm_context_shown :: nat where "crm_context_shown = 2"

definition context_view :: "crm_context \<Rightarrow> strip option" where
  "context_view c =
     (let shown = take crm_context_shown (cx_deals c); more = cx_deal_count c - int (length shown) in
      if cx_company c = [] \<and> shown = [] \<and> cx_tasks c = 0 \<and> cx_activity c = zero_time then None
      else Some \<lparr>sp_company = cx_company c, sp_deals = shown, sp_more = (if more > 0 then more else 0),
                 sp_tasks = cx_tasks c, sp_next = cx_next c, sp_activity = cx_activity c\<rparr>)"

section \<open>The caches\<close>

definition positive_ttl :: duration where "positive_ttl = 6 * 3600 * second"
definition negative_ttl :: duration where "negative_ttl = 300 * second"
definition max_entries :: nat where "max_entries = 1024"
definition context_ttl :: duration where "context_ttl = 120 * second"
definition context_absent_ttl :: duration where "context_absent_ttl = 900 * second"
definition context_max_entries :: nat where "context_max_entries = 256"

text \<open>A cached answer: what was found, if anything, and when.\<close>

record 'a entry =
  en_found :: "'a option"
  en_fetched :: time

text \<open>
  Both memos share their mechanics: an entry past its time is dropped on sight, a hit and
  a miss have times of their own, and a full memo is emptied before the next entry.
\<close>

definition memo_get ::
  "duration \<Rightarrow> duration \<Rightarrow> time \<Rightarrow> string \<Rightarrow> (string, 'a entry) fmap \<Rightarrow> 'a entry option \<times> (string, 'a entry) fmap" where
  "memo_get hit miss now k m =
     (case fmlookup m k of
        None \<Rightarrow> (None, m)
      | Some e \<Rightarrow>
          if now - en_fetched e > (if en_found e = None then miss else hit) then (None, fmdrop k m)
          else (Some e, m))"

definition memo_put :: "nat \<Rightarrow> string \<Rightarrow> 'a entry \<Rightarrow> (string, 'a entry) fmap \<Rightarrow> (string, 'a entry) fmap" where
  "memo_put cap k e m = fmupd k e (if fcard (fmdom m) \<ge> cap then fmempty else m)"

record resolver =
  rs_enabled :: bool
  rs_profile :: string
  rs_cache :: "(string, person entry) fmap"
  rs_contexts :: "(string, crm_context entry) fmap"
  rs_hits :: nat
  rs_misses :: nat
  rs_failures :: nat

definition new_resolver :: "bool \<Rightarrow> string \<Rightarrow> resolver" where
  "new_resolver enabled profile =
     \<lparr>rs_enabled = enabled, rs_profile = profile, rs_cache = fmempty, rs_contexts = fmempty,
      rs_hits = 0, rs_misses = 0, rs_failures = 0\<rparr>"

definition cached :: "time \<Rightarrow> string \<Rightarrow> resolver \<Rightarrow> person entry option \<times> resolver" where
  "cached now number r =
     (case memo_get positive_ttl negative_ttl now number (rs_cache r) of (e, m) \<Rightarrow> (e, r\<lparr>rs_cache := m\<rparr>))"

definition remember :: "string \<Rightarrow> person entry \<Rightarrow> resolver \<Rightarrow> resolver" where
  "remember number e r = r\<lparr>rs_cache := memo_put max_entries number e (rs_cache r)\<rparr>"

definition is_miss :: "crm_err \<Rightarrow> bool" where
  "is_miss e \<longleftrightarrow> e = Crm_Not_Found \<or> e = Crm_Disabled"

text \<open>What the leader of a lookup does with the answer; a failure is not remembered.\<close>

definition absorb :: "time \<Rightarrow> string \<Rightarrow> crm_err + person \<Rightarrow> resolver \<Rightarrow> person option \<times> resolver" where
  "absorb now number answer r =
     (case answer of
        Inr p \<Rightarrow> (Some p, (remember number \<lparr>en_found = Some p, en_fetched = now\<rparr> r)\<lparr>rs_hits := rs_hits r + 1\<rparr>)
      | Inl e \<Rightarrow>
          if is_miss e
          then (None, (remember number \<lparr>en_found = None, en_fetched = now\<rparr> r)\<lparr>rs_misses := rs_misses r + 1\<rparr>)
          else (None, r\<lparr>rs_failures := rs_failures r + 1\<rparr>))"

text \<open>\<^verbatim>\<open>Resolve\<close> of a caller that meets no flight; \<open>at1\<close> is the clock of the cache, \<open>at2\<close> of the answer.\<close>

definition resolve_number ::
  "(string \<Rightarrow> crm_contact list crm_reply) \<Rightarrow> time \<Rightarrow> time \<Rightarrow> string \<Rightarrow> resolver \<Rightarrow> person option \<times> resolver" where
  "resolve_number ask at1 at2 number r =
     (if number = [] \<or> \<not> rs_enabled r then (None, r)
      else
        (case cached at1 number r of
           (Some e, r1) \<Rightarrow> (en_found e, r1)
         | (None, r1) \<Rightarrow> absorb at2 number (lookup_by_phone (rs_enabled r) (ask number)) r1))"

text \<open>\<^verbatim>\<open>strings.Replace\<close> of the first occurrence of a non-empty text.\<close>

fun replace_first :: "string \<Rightarrow> string \<Rightarrow> string \<Rightarrow> string" where
  "replace_first old new [] = []"
| "replace_first old new (c # cs) =
     (if has_prefix old (c # cs) then new @ drop (length old) (c # cs) else c # replace_first old new cs)"

definition profile_url :: "resolver option \<Rightarrow> string \<Rightarrow> string" where
  "profile_url ro ref =
     (case ro of None \<Rightarrow> [] | Some r \<Rightarrow> if rs_profile r = [] then [] else replace_first ''{id}'' ref (rs_profile r))"

definition context_of ::
  "(string \<Rightarrow> context_wire crm_reply) \<Rightarrow> time \<Rightarrow> time \<Rightarrow> string \<Rightarrow> resolver \<Rightarrow> crm_context option \<times> resolver" where
  "context_of ask at1 at2 ref r =
     (if \<not> rs_enabled r \<or> ref = [] then (None, r)
      else
        (case memo_get context_ttl context_absent_ttl at1 ref (rs_contexts r) of
           (Some e, m) \<Rightarrow> (en_found e, r\<lparr>rs_contexts := m\<rparr>)
         | (None, m) \<Rightarrow>
             (let keep = (\<lambda>f. r\<lparr>rs_contexts := memo_put context_max_entries ref \<lparr>en_found = f, en_fetched = at2\<rparr> m\<rparr>) in
              case contact_context (rs_enabled r) (ask ref) of
                Inr c \<Rightarrow> (Some c, keep (Some c))
              | Inl e \<Rightarrow>
                  if e = Crm_No_Context \<or> e = Crm_Unauthorized then (None, keep None)
                  else (None, r\<lparr>rs_contexts := m\<rparr>))))"

text \<open>The name, the number and the strip that a page asks the resolver for.\<close>

definition resolver_name ::
  "(string \<Rightarrow> crm_contact list crm_reply) \<Rightarrow> time \<Rightarrow> time \<Rightarrow> string \<Rightarrow> resolver \<Rightarrow> string \<times> resolver" where
  "resolver_name ask at1 at2 number r =
     (case resolve_number ask at1 at2 number r of
        (None, r') \<Rightarrow> ([], r')
      | (Some p, r') \<Rightarrow> (pe_name p, r'))"

definition crm_number_for :: "address \<Rightarrow> string" where
  "crm_number_for remote = (if is_phone_shaped remote then addr_value remote else [])"

definition crm_context_for ::
  "(string \<Rightarrow> crm_contact list crm_reply) \<Rightarrow> (string \<Rightarrow> context_wire crm_reply) \<Rightarrow> (nat \<Rightarrow> time) \<Rightarrow> address \<Rightarrow>
   resolver \<Rightarrow> strip option \<times> resolver" where
  "crm_context_for ask context now remote r =
     (if \<not> is_phone_shaped remote then (None, r)
      else
        (case resolve_number ask (now 0) (now 1) (addr_value remote) r of
           (None, r1) \<Rightarrow> (None, r1)
         | (Some p, r1) \<Rightarrow>
             (case context_of context (now 2) (now 3) (pe_ref p) r1 of
                (None, r2) \<Rightarrow> (None, r2)
              | (Some c, r2) \<Rightarrow> (context_view c, r2))))"

section \<open>Concurrent lookups\<close>

text \<open>
  Callers of \<^verbatim>\<open>Resolve\<close> run between each other's locked sections: the look into the cache,
  \<^verbatim>\<open>join\<close>, the answer with \<^verbatim>\<open>remember\<close>, and \<^verbatim>\<open>settle\<close>. A flight has an identity, since a waiter
  keeps the flight it joined while the map may hold a later one for the same number.
\<close>

datatype lookup_caller =
    Idle
  | Looked string
  | Leading string nat
  | Told string nat "person option"
  | Waiting string nat
  | Got string "person option"

record lookups =
  fs_resolver :: resolver
  fs_inflight :: "string \<rightharpoonup> nat"
  fs_flights :: "nat \<rightharpoonup> string \<times> person option option"
  fs_callers :: "nat \<Rightarrow> lookup_caller"

definition no_lookups :: "string \<Rightarrow> lookups" where
  "no_lookups profile =
     \<lparr>fs_resolver = new_resolver True profile, fs_inflight = Map.empty, fs_flights = Map.empty, fs_callers = (\<lambda>_. Idle)\<rparr>"

definition moves :: "nat \<Rightarrow> lookup_caller \<Rightarrow> lookups \<Rightarrow> lookups" where
  "moves c st s = s\<lparr>fs_callers := (fs_callers s)(c := st)\<rparr>"

definition settle_flight :: "string \<Rightarrow> person option \<Rightarrow> lookups \<Rightarrow> lookups" where
  "settle_flight n p s =
     (case fs_inflight s n of
        None \<Rightarrow> s
      | Some f \<Rightarrow> s\<lparr>fs_inflight := (fs_inflight s)(n := None), fs_flights := (fs_flights s)(f \<mapsto> (n, Some p))\<rparr>)"

inductive lookup_step :: "lookups \<Rightarrow> lookups \<Rightarrow> bool" where
  hit: "fs_callers s c = Idle \<Longrightarrow> n \<noteq> [] \<Longrightarrow> cached now n (fs_resolver s) = (Some e, r) \<Longrightarrow>
     lookup_step s (moves c (Got n (en_found e)) (s\<lparr>fs_resolver := r\<rparr>))"
| miss: "fs_callers s c = Idle \<Longrightarrow> n \<noteq> [] \<Longrightarrow> cached now n (fs_resolver s) = (None, r) \<Longrightarrow>
     lookup_step s (moves c (Looked n) (s\<lparr>fs_resolver := r\<rparr>))"
| joins: "fs_callers s c = Looked n \<Longrightarrow> fs_inflight s n = Some f \<Longrightarrow> lookup_step s (moves c (Waiting n f) s)"
| leads: "fs_callers s c = Looked n \<Longrightarrow> fs_inflight s n = None \<Longrightarrow> fs_flights s f = None \<Longrightarrow>
     lookup_step s (moves c (Leading n f)
       (s\<lparr>fs_inflight := (fs_inflight s)(n \<mapsto> f), fs_flights := (fs_flights s)(f \<mapsto> (n, None))\<rparr>))"
| told: "fs_callers s c = Leading n f \<Longrightarrow> absorb now n (lookup_by_phone True reply) (fs_resolver s) = (p, r) \<Longrightarrow>
     lookup_step s (moves c (Told n f p) (s\<lparr>fs_resolver := r\<rparr>))"
| settles: "fs_callers s c = Told n f p \<Longrightarrow> lookup_step s (moves c (Got n p) (settle_flight n p s))"
| woken: "fs_callers s c = Waiting n f \<Longrightarrow> fs_flights s f = Some (m, Some p) \<Longrightarrow> lookup_step s (moves c (Got n p) s)"
| gives_up: "fs_callers s c = Waiting n f \<Longrightarrow> lookup_step s (moves c (Got n None) s)"
| again: "fs_callers s c = Got n p \<Longrightarrow> lookup_step s (moves c Idle s)"

definition flies :: "lookups \<Rightarrow> nat \<Rightarrow> string \<Rightarrow> nat \<Rightarrow> bool" where
  "flies s c n f \<longleftrightarrow> fs_callers s c = Leading n f \<or> (\<exists>p. fs_callers s c = Told n f p)"

definition flight_inv :: "lookups \<Rightarrow> bool" where
  "flight_inv s \<longleftrightarrow>
     (\<forall>c n f. flies s c n f \<longrightarrow> fs_inflight s n = Some f) \<and>
     (\<forall>n f. fs_inflight s n = Some f \<longrightarrow> (\<exists>c. flies s c n f) \<and> fs_flights s f = Some (n, None)) \<and>
     (\<forall>c d n f. flies s c n f \<and> flies s d n f \<longrightarrow> c = d) \<and>
     (\<forall>c n f. fs_callers s c = Waiting n f \<longrightarrow>
        fs_inflight s n = Some f \<or> (\<exists>p. fs_flights s f = Some (n, Some p))) \<and>
     fcard (fmdom (rs_cache (fs_resolver s))) \<le> max_entries"

lemma flight_invD:
  assumes "flight_inv s"
  shows "flies s c n f \<Longrightarrow> fs_inflight s n = Some f"
    and "fs_inflight s n = Some f \<Longrightarrow> \<exists>c. flies s c n f"
    and "fs_inflight s n = Some f \<Longrightarrow> fs_flights s f = Some (n, None)"
    and "flies s c n f \<Longrightarrow> flies s d n f \<Longrightarrow> c = d"
    and "fs_callers s c = Waiting n f \<Longrightarrow> fs_inflight s n = Some f \<or> (\<exists>p. fs_flights s f = Some (n, Some p))"
    and "fcard (fmdom (rs_cache (fs_resolver s))) \<le> max_entries"
  using assms unfolding flight_inv_def by blast+

lemma flight_invI:
  assumes "\<And>c n f. flies s c n f \<Longrightarrow> fs_inflight s n = Some f"
    and "\<And>n f. fs_inflight s n = Some f \<Longrightarrow> (\<exists>c. flies s c n f) \<and> fs_flights s f = Some (n, None)"
    and "\<And>c d n f. flies s c n f \<Longrightarrow> flies s d n f \<Longrightarrow> c = d"
    and "\<And>c n f. fs_callers s c = Waiting n f \<Longrightarrow> fs_inflight s n = Some f \<or> (\<exists>p. fs_flights s f = Some (n, Some p))"
    and "fcard (fmdom (rs_cache (fs_resolver s))) \<le> max_entries"
  shows "flight_inv s"
  using assms unfolding flight_inv_def by blast

lemma memo_get_size: "memo_get h m now k t = (e, t') \<Longrightarrow> fcard (fmdom t') \<le> fcard (fmdom t)"
  by (auto simp: memo_get_def fcard_fminus1_le split: option.splits if_splits)

lemma memo_put_size: "0 < cap \<Longrightarrow> fcard (fmdom t) \<le> cap \<Longrightarrow> fcard (fmdom (memo_put cap k e t)) \<le> cap"
  by (auto simp: memo_put_def fcard_finsert_if fcard_fempty)

lemma cached_size: "cached now n r = (e, r') \<Longrightarrow> fcard (fmdom (rs_cache r')) \<le> fcard (fmdom (rs_cache r))"
  by (auto simp: cached_def split: prod.splits dest: memo_get_size)

lemma absorb_size:
  "absorb now n answer r = (p, r') \<Longrightarrow> fcard (fmdom (rs_cache r)) \<le> max_entries \<Longrightarrow>
     fcard (fmdom (rs_cache r')) \<le> max_entries"
  by (auto simp: absorb_def remember_def max_entries_def memo_put_size split: sum.splits if_splits)

lemma flies_moves:
  "flies (moves c st s) d n f \<longleftrightarrow> (if d = c then st = Leading n f \<or> (\<exists>p. st = Told n f p) else flies s d n f)"
  by (simp add: flies_def moves_def)

lemma moves_simps [simp]:
  "fs_inflight (moves c st s) = fs_inflight s" "fs_flights (moves c st s) = fs_flights s"
  "fs_resolver (moves c st s) = fs_resolver s"
  "fs_callers (moves c st s) = (fs_callers s)(c := st)"
  by (simp_all add: moves_def)

lemma flies_resolver [simp]: "flies (s\<lparr>fs_resolver := r\<rparr>) c n f = flies s c n f"
  by (simp add: flies_def)

text \<open>A caller that leads no flight moves to a state that leads none.\<close>

lemma passive_move:
  assumes inv: "flight_inv s" and "\<And>n f. \<not> flies s c n f"
    and "\<And>n f. st \<noteq> Leading n f" "\<And>n f p. st \<noteq> Told n f p"
    and "\<And>n f. st = Waiting n f \<Longrightarrow> fs_inflight s n = Some f"
    and "fcard (fmdom (rs_cache r)) \<le> max_entries"
  shows "flight_inv (moves c st (s\<lparr>fs_resolver := r\<rparr>))"
proof -
  have f: "flies (moves c st (s\<lparr>fs_resolver := r\<rparr>)) d n f = flies s d n f" for d n f
    using assms by (auto simp: flies_moves)
  show ?thesis
    using inv assms(5,6) unfolding flight_inv_def f by (auto split: if_splits)
qed

lemma passive_stay:
  assumes "flight_inv s" "\<And>n f. \<not> flies s c n f"
    and "\<And>n f. st \<noteq> Leading n f" "\<And>n f p. st \<noteq> Told n f p"
    and "\<And>n f. st = Waiting n f \<Longrightarrow> fs_inflight s n = Some f"
  shows "flight_inv (moves c st s)"
  using passive_move [of s c st "fs_resolver s", OF assms] assms(1) by (simp add: flight_inv_def)

lemma step_inv: "lookup_step s s' \<Longrightarrow> flight_inv s \<Longrightarrow> flight_inv s'"
proof (induction rule: lookup_step.induct)
  case (hit s c n now e r)
  have "fcard (fmdom (rs_cache r)) \<le> max_entries"
    using cached_size [OF hit(3)] hit(4) by (simp add: flight_inv_def)
  with hit show ?case by (intro passive_move) (simp_all add: flies_def)
next
  case (miss s c n now r)
  have "fcard (fmdom (rs_cache r)) \<le> max_entries"
    using cached_size [OF miss(3)] miss(4) by (simp add: flight_inv_def)
  with miss show ?case by (intro passive_move) (simp_all add: flies_def)
next
  case (joins s c n f)
  then show ?case
    by (intro passive_stay) (simp_all add: flies_def)
next
  case (leads s c n f)
  let ?s = "moves c (Leading n f)
    (s\<lparr>fs_inflight := (fs_inflight s)(n \<mapsto> f), fs_flights := (fs_flights s)(f \<mapsto> (n, None))\<rparr>)"
  have f: "flies ?s d m g = (if d = c then m = n \<and> g = f else flies s d m g)" for d m g
    by (auto simp: flies_moves flies_def)
  have unused: "fs_inflight s m \<noteq> Some f" for m using leads unfolding flight_inv_def by fastforce
  have "flies s d m g \<Longrightarrow> fs_inflight s m = Some g" for d m g using leads(4) unfolding flight_inv_def by blast
  then have others: "\<not> flies s d n g" "\<not> flies s d m f" for d m g using leads(2) unused by fastforce+
  have kept: "fs_inflight s m = Some g \<Longrightarrow> m \<noteq> n \<and> g \<noteq> f \<and> (\<exists>d. flies s d m g) \<and> fs_flights s g = Some (m, None)" for m g
    using leads(2) unused flight_invD(2,3) [OF leads(4)] by fastforce
  show ?case
  proof (rule flight_invI)
    show "flies ?s d m g \<Longrightarrow> fs_inflight ?s m = Some g" for d m g
      using flight_invD(1) [OF leads(4)] others unfolding f by (auto split: if_splits)
    show "fs_inflight ?s m = Some g \<Longrightarrow> (\<exists>d. flies ?s d m g) \<and> fs_flights ?s g = Some (m, None)" for m g
    proof (cases "m = n")
      case True
      then show "fs_inflight ?s m = Some g \<Longrightarrow> (\<exists>d. flies ?s d m g) \<and> fs_flights ?s g = Some (m, None)"
        unfolding f by auto
    next
      case False
      assume "fs_inflight ?s m = Some g"
      then have m: "fs_inflight s m = Some g" using False by simp
      then obtain d where d: "flies s d m g" using kept by blast
      then have "d \<noteq> c" using leads(1) by (auto simp: flies_def)
      with d have "flies ?s d m g" unfolding f by simp
      then show "(\<exists>d. flies ?s d m g) \<and> fs_flights ?s g = Some (m, None)" using kept [OF m] by auto
    qed
    show "flies ?s d m g \<Longrightarrow> flies ?s e m g \<Longrightarrow> d = e" for d e m g
      using flight_invD(4) [OF leads(4)] others unfolding f by (auto split: if_splits)
    show "fs_callers ?s d = Waiting m g \<Longrightarrow> fs_inflight ?s m = Some g \<or> (\<exists>p. fs_flights ?s g = Some (m, Some p))" for d m g
      using flight_invD(5) [OF leads(4), of d m g] leads(2,3) by (auto split: if_splits)
    show "fcard (fmdom (rs_cache (fs_resolver ?s))) \<le> max_entries"
      using flight_invD(6) [OF leads(4)] by simp
  qed
next
  case (told s c n f now reply p r)
  let ?s = "moves c (Told n f p) (s\<lparr>fs_resolver := r\<rparr>)"
  have f: "flies ?s d m g = flies s d m g" for d m g
    using told(1) by (auto simp: flies_moves flies_def)
  show ?case
  proof (rule flight_invI)
    show "flies ?s d m g \<Longrightarrow> fs_inflight ?s m = Some g" for d m g
      using flight_invD(1) [OF told(3)] unfolding f by simp
    show "fs_inflight ?s m = Some g \<Longrightarrow> (\<exists>d. flies ?s d m g) \<and> fs_flights ?s g = Some (m, None)" for m g
      using flight_invD(2,3) [OF told(3)] unfolding f by simp
    show "flies ?s d m g \<Longrightarrow> flies ?s e m g \<Longrightarrow> d = e" for d e m g
      using flight_invD(4) [OF told(3)] unfolding f by simp
    show "fs_callers ?s d = Waiting m g \<Longrightarrow> fs_inflight ?s m = Some g \<or> (\<exists>p. fs_flights ?s g = Some (m, Some p))" for d m g
      using flight_invD(5) [OF told(3), of d m g] by (simp split: if_splits)
    show "fcard (fmdom (rs_cache (fs_resolver ?s))) \<le> max_entries"
      using absorb_size [OF told(2)] flight_invD(6) [OF told(3)] by simp
  qed
next
  case (settles s c n f p)
  have mine: "flies s c m g \<longleftrightarrow> m = n \<and> g = f" for m g
    using settles(1) by (auto simp: flies_def)
  then have led: "flies s c n f" by simp
  note fl = flight_invD(1) [OF settles(2) led] led
  let ?s = "moves c (Got n p) (settle_flight n p s)"
  have parts: "fs_inflight ?s = (fs_inflight s)(n := None)" "fs_flights ?s = (fs_flights s)(f \<mapsto> (n, Some p))"
    "fs_resolver ?s = fs_resolver s" "fs_callers ?s = (fs_callers s)(c := Got n p)"
    using fl by (simp_all add: settle_flight_def)
  have f: "flies ?s d m g = (d \<noteq> c \<and> flies s d m g)" for d m g
    using fl by (auto simp: flies_moves settle_flight_def flies_def)
  have sole: "flies s d n g \<Longrightarrow> d = c" for d g
    using flight_invD(1) [OF settles(2), of d n g] flight_invD(4) [OF settles(2), of d n f c] fl by simp
  show ?case
  proof (rule flight_invI)
    show "flies ?s d m g \<Longrightarrow> fs_inflight ?s m = Some g" for d m g
      using flight_invD(1) [OF settles(2), of d m g] sole [of d g] unfolding f parts by (cases "m = n") simp_all
    show "fs_inflight ?s m = Some g \<Longrightarrow> (\<exists>d. flies ?s d m g) \<and> fs_flights ?s g = Some (m, None)" for m g
    proof -
      assume "fs_inflight ?s m = Some g"
      then have m: "m \<noteq> n" "fs_inflight s m = Some g" unfolding parts by (simp_all split: if_splits)
      obtain d where d: "flies s d m g" using flight_invD(2) [OF settles(2) m(2)] by blast
      have fg: "fs_flights s g = Some (m, None)" "fs_flights s f = Some (n, None)"
        using flight_invD(3) [OF settles(2)] m(2) fl(1) by blast+
      then have "g \<noteq> f" using m(1) by auto
      moreover have "d \<noteq> c" using d m(1) mine by auto
      ultimately show ?thesis using d fg unfolding f parts by auto
    qed
    show "flies ?s d m g \<Longrightarrow> flies ?s e m g \<Longrightarrow> d = e" for d e m g
      using flight_invD(4) [OF settles(2), of d m g e] unfolding f by blast
    show "fs_callers ?s d = Waiting m g \<Longrightarrow> fs_inflight ?s m = Some g \<or> (\<exists>p. fs_flights ?s g = Some (m, Some p))" for d m g
    proof -
      assume "fs_callers ?s d = Waiting m g"
      then have "fs_callers s d = Waiting m g" unfolding parts by (simp split: if_splits)
      from flight_invD(5) [OF settles(2) this] fl flight_invD(3) [OF settles(2) fl(1)]
      show ?thesis unfolding parts by (cases "m = n"; cases "g = f") auto
    qed
    show "fcard (fmdom (rs_cache (fs_resolver ?s))) \<le> max_entries"
      using flight_invD(6) [OF settles(2)] unfolding parts .
  qed
next
  case (woken s c n f m p)
  then show ?case
    by (intro passive_stay) (simp_all add: flies_def)
next
  case (gives_up s c n f)
  then show ?case
    by (intro passive_stay) (simp_all add: flies_def)
next
  case (again s c n p)
  then show ?case
    by (intro passive_stay) (simp_all add: flies_def)
qed

text \<open>
  C21. A number costs the CRM one lookup at a time, and nobody who waits for it is left
  behind. In every reachable state of the resolver, with any number of concurrent callers
  and any answers of the CRM, at most one caller is asking about a number, every waiter's
  flight is either settled or still led by a caller that will settle it, a settled flight
  hands its one answer to every waiter, and the memo never exceeds 1024 entries.
\<close>

theorem lookup_flights:
  assumes "lookup_step\<^sup>*\<^sup>* (no_lookups profile) s"
  shows "(fs_callers s c = Leading n f \<and> fs_callers s d = Leading n g \<longrightarrow> c = d) \<and>
    (fs_callers s c = Waiting n f \<longrightarrow>
      (\<exists>d. flies s d n f) \<or> (\<exists>p. fs_flights s f = Some (n, Some p) \<and> lookup_step s (moves c (Got n p) s))) \<and>
    (fs_callers s d = Told n f p \<longrightarrow>
      lookup_step s (moves d (Got n p) (settle_flight n p s)) \<and>
      fs_flights (moves d (Got n p) (settle_flight n p s)) f = Some (n, Some p)) \<and>
    fcard (fmdom (rs_cache (fs_resolver s))) \<le> 1024"
proof -
  have "flight_inv (no_lookups profile)"
    by (simp add: flight_inv_def no_lookups_def new_resolver_def flies_def max_entries_def fcard_fempty)
  with assms have inv: "flight_inv s" by (induction rule: rtranclp_induct) (auto intro: step_inv)
  have one: "fs_callers s c = Leading n f \<and> fs_callers s d = Leading n g \<longrightarrow> c = d"
    using inv unfolding flight_inv_def flies_def by (metis option.inject)
  have wait: "fs_callers s c = Waiting n f \<longrightarrow>
      (\<exists>d. flies s d n f) \<or> (\<exists>p. fs_flights s f = Some (n, Some p) \<and> lookup_step s (moves c (Got n p) s))"
    using inv lookup_step.woken [of s c n f n] unfolding flight_inv_def by blast
  have "fs_callers s d = Told n f p \<longrightarrow> fs_inflight s n = Some f"
    using inv unfolding flight_inv_def flies_def by blast
  then have settle: "fs_callers s d = Told n f p \<longrightarrow>
      lookup_step s (moves d (Got n p) (settle_flight n p s)) \<and>
      fs_flights (moves d (Got n p) (settle_flight n p s)) f = Some (n, Some p)"
    using lookup_step.settles [of s d n f p] by (auto simp: settle_flight_def)
  from one wait settle inv show ?thesis by (simp add: flight_inv_def max_entries_def)
qed

theorem lookup_flights_witness:
  "\<exists>s. lookup_step\<^sup>*\<^sup>* (no_lookups []) s \<and> fs_callers s 0 = Leading ''1'' 7 \<and> fs_callers s 1 = Waiting ''1'' 7 \<and>
     (\<exists>d. flies s d ''1'' 7)"
proof -
  let ?s0 = "no_lookups []"
  let ?s1 = "moves 0 (Looked ''1'') ?s0"
  let ?s2 = "moves 0 (Leading ''1'' 7)
      (?s1\<lparr>fs_inflight := (fs_inflight ?s1)(''1'' \<mapsto> 7), fs_flights := (fs_flights ?s1)(7 \<mapsto> (''1'', None))\<rparr>)"
  let ?s3 = "moves 1 (Looked ''1'') ?s2"
  let ?s4 = "moves 1 (Waiting ''1'' 7) ?s3"
  have miss: "cached 0 ''1'' (fs_resolver ?s0) = (None, fs_resolver ?s0)"
    by (simp add: cached_def memo_get_def no_lookups_def new_resolver_def)
  have keep: "s\<lparr>fs_resolver := fs_resolver s\<rparr> = s" for s :: lookups by simp
  have "lookup_step ?s0 ?s1"
    using lookup_step.miss [of ?s0 0 "''1''" 0 "fs_resolver ?s0"] miss by (simp add: no_lookups_def)
  moreover have "lookup_step ?s1 ?s2" by (rule lookup_step.leads) (simp_all add: no_lookups_def)
  moreover have "lookup_step ?s2 ?s3"
    using lookup_step.miss [of ?s2 1 "''1''" 0 "fs_resolver ?s2"] miss
    by (simp add: moves_def no_lookups_def)
  moreover have "lookup_step ?s3 ?s4" by (rule lookup_step.joins) simp_all
  ultimately have run: "lookup_step\<^sup>*\<^sup>* ?s0 ?s4" by (meson converse_rtranclp_into_rtranclp rtranclp.rtrancl_refl)
  have "(\<exists>d. flies ?s4 d ''1'' 7) \<or> (\<exists>p. fs_flights ?s4 7 = Some (''1'', Some p))"
    using lookup_flights [OF run, of 1 "''1''" 7] by auto
  then have "\<exists>d. flies ?s4 d ''1'' 7" by simp
  then show ?thesis using run by (intro exI [of _ ?s4]) simp
qed

end
