(* ===== verification/Call_Journal.thy ===== *)
theory Call_Journal
  imports Crm Doors Gates
begin

text \<open>
  Calls on their way into the CRM's journal: the island's post-call report
  (\<^verbatim>\<open>internal/server/api/calls_api.go\<close>) and the operator's verdict
  (\<^verbatim>\<open>disposition_api.go\<close>), with the idempotency gate, the resolver and the note store they
  use. The CRM is a \<open>crm_party\<close>: what it would answer to a lookup and to an entry during one
  request. The clocks of one request are \<open>clk 0\<close> for the gate and the note, \<open>clk 1\<close> and \<open>clk 2\<close> for the
  resolver, \<open>clk 3\<close> for recording the key.
\<close>

record crm_party =
  cp_lookup :: "string \<Rightarrow> crm_contact list crm_reply"
  cp_log :: "call_entry \<Rightarrow> unit crm_reply"

text \<open>\<open>jw_log\<close> holds the entries the CRM acknowledged.\<close>

record ('g, 's) journal_world =
  jw_resolver :: resolver
  jw_gate :: 'g
  jw_notes :: 's
  jw_log :: "call_entry list"

definition record_call_idem :: "'g gate_ops \<Rightarrow> time \<Rightarrow> string \<Rightarrow> ('g, 's) journal_world \<Rightarrow> ('g, 's) journal_world" where
  "record_call_idem G now key w =
     (if key = [] then w else w\<lparr>jw_gate := gate_record G now key (jw_gate w)\<rparr>)"

text \<open>
  The common tail of both handlers: resolve the number, append to the contact's journal,
  record the key unless the CRM refused the entry.
\<close>

definition journal_call ::
  "'g gate_ops \<Rightarrow> crm_party \<Rightarrow> (nat \<Rightarrow> time) \<Rightarrow> string \<Rightarrow> string \<Rightarrow> phone \<Rightarrow> int \<Rightarrow> disposition \<Rightarrow>
   ('g, 's) journal_world \<Rightarrow> http_answer \<times> ('g, 's) journal_world" where
  "journal_call G party clk key direction p seconds d w =
     (case resolve_number (cp_lookup party) (clk 1) (clk 2) (phone_string p) (jw_resolver w) of
        (None, r) \<Rightarrow> (No_Content, record_call_idem G (clk 3) key (w\<lparr>jw_resolver := r\<rparr>))
      | (Some who, r) \<Rightarrow>
          (let e = entry_of_call (pe_ref who) direction (phone_string p) (max seconds 0) d in
           case log_call_answer (rs_enabled r) (cp_log party e) of
             Inl _ \<Rightarrow> (Plain 502, w\<lparr>jw_resolver := r\<rparr>)
           | Inr _ \<Rightarrow>
               (No_Content,
                record_call_idem G (clk 3) key (w\<lparr>jw_resolver := r, jw_log := jw_log w @ [e]\<rparr>))))"

record call_body =
  cb_number :: string
  cb_direction :: string
  cb_seconds :: int
  cb_disposition :: string
  cb_outcome :: string
  cb_key :: string

definition call_key_max :: nat where "call_key_max = 128"

text \<open>The checks of \<^verbatim>\<open>LogCall\<close>; past them all, the phone and the disposition.\<close>

definition read_call :: "call_body \<Rightarrow> http_answer + phone \<times> disposition" where
  "read_call b =
     (if cb_direction b \<noteq> ''in'' \<and> cb_direction b \<noteq> ''out'' then Inl (Plain 400)
      else
        (case (if cb_disposition b = [] then Inr (legacy_outcome_disposition (cb_outcome b))
               else parse_disposition (cb_disposition b)) of
           Inl _ \<Rightarrow> Inl (Plain 400)
         | Inr d \<Rightarrow> (case parse_phone (cb_number b) of Inl _ \<Rightarrow> Inl (Plain 422) | Inr p \<Rightarrow> Inr (p, d))))"

definition call_key :: "session \<Rightarrow> string \<Rightarrow> string" where
  "call_key s key = (if key = [] then [] else ext_string (sess_extension s) @ '':'' @ key)"

definition log_call_json ::
  "'g gate_ops \<Rightarrow> crm_party \<Rightarrow> (nat \<Rightarrow> time) \<Rightarrow> session option \<Rightarrow> call_body option \<Rightarrow>
   ('g, 's) journal_world \<Rightarrow> http_answer \<times> ('g, 's) journal_world" where
  "log_call_json G party clk sess body w =
     (case sess of
        None \<Rightarrow> (sign_in_page, w)
      | Some s \<Rightarrow>
          (case body of
             None \<Rightarrow> (Plain 400, w)
           | Some b \<Rightarrow>
               (case read_call b of
                  Inl a \<Rightarrow> (a, w)
                | Inr (p, d) \<Rightarrow>
                    if \<not> rs_enabled (jw_resolver w) then (No_Content, w)
                    else if length (cb_key b) > call_key_max then (Plain 400, w)
                    else if call_key s (cb_key b) \<noteq> [] \<and> gate_seen G (clk 0) (call_key s (cb_key b)) (jw_gate w)
                    then (No_Content, w)
                    else journal_call G party clk (call_key s (cb_key b)) (cb_direction b) p (cb_seconds b) d w)))"

record verdict_body =
  vb_disposition :: string
  vb_number :: string
  vb_direction :: string
  vb_seconds :: int

definition verdict_call_key :: "session \<Rightarrow> string \<Rightarrow> disposition \<Rightarrow> string" where
  "verdict_call_key s call d = ext_string (sess_extension s) @ '':'' @ call @ '':'' @ disposition_string d"

text \<open>A number that does not parse still spends the key.\<close>

definition confirm_disposition_json ::
  "('s, slot_key, note_view) engine \<Rightarrow> 'g gate_ops \<Rightarrow> crm_party \<Rightarrow> bool \<Rightarrow> (nat \<Rightarrow> time) \<Rightarrow> session option \<Rightarrow> string \<Rightarrow>
   verdict_body option \<Rightarrow> ('g, 's) journal_world \<Rightarrow> http_answer \<times> ('g, 's) journal_world" where
  "confirm_disposition_json E G party stored clk sess call body w =
     (case sess of
        None \<Rightarrow> (sign_in_page, w)
      | Some s \<Rightarrow>
          if \<not> stored then (Plain 503, w)
          else if \<not> valid_call_id call then (Plain 400, w)
          else
            (case body of
               None \<Rightarrow> (Plain 400, w)
             | Some b \<Rightarrow>
                 (case parse_disposition (vb_disposition b) of
                    Inl _ \<Rightarrow> (Plain 400, w)
                  | Inr d \<Rightarrow>
                      if vb_direction b \<noteq> ''in'' \<and> vb_direction b \<noteq> ''out'' then (Plain 400, w)
                      else
                        (case note_set_disposition E (clk 0) (sess_extension s) call (disposition_string d) (jw_notes w) of
                           (Inl e, st) \<Rightarrow>
                             (if e = Coded Conflict ''readmodels.note_list_full'' then Plain 409 else failed_with 500 e,
                              w\<lparr>jw_notes := st\<rparr>)
                         | (Inr _, st) \<Rightarrow>
                             (let w1 = w\<lparr>jw_notes := st\<rparr>; key = verdict_call_key s call d in
                              if \<not> rs_enabled (jw_resolver w) then (No_Content, w1)
                              else if gate_seen G (clk 0) key (jw_gate w) then (No_Content, w1)
                              else
                                (case parse_phone (vb_number b) of
                                   Inl _ \<Rightarrow> (No_Content, record_call_idem G (clk 3) key w1)
                                 | Inr p \<Rightarrow>
                                     journal_call G party clk key (vb_direction b) p (vb_seconds b) d w1))))))"

section \<open>The journal\<close>

lemma record_call_idem_frame [simp]:
  "jw_log (record_call_idem G now key w) = jw_log w"
  "jw_notes (record_call_idem G now key w) = jw_notes w"
  "jw_resolver (record_call_idem G now key w) = jw_resolver w"
  by (simp_all add: record_call_idem_def)

lemma journal_frame:
  assumes "journal_call G party clk key direction p seconds d w = (a, w')"
  shows "jw_notes w' = jw_notes w \<and> rs_enabled (jw_resolver w') = rs_enabled (jw_resolver w)"
  using assms
  by (auto simp: journal_call_def resolve_number_def cached_def absorb_def remember_def record_call_idem_def Let_def
      split: prod.splits option.splits sum.splits if_splits)

lemma journal_spends_key:
  assumes "journal_call G party clk key direction p seconds d w = (No_Content, w')" "key \<noteq> []"
  shows "jw_gate w' = gate_record G (clk 3) key (jw_gate w)"
  using assms by (auto simp: journal_call_def record_call_idem_def Let_def split: prod.splits option.splits sum.splits)

lemma resolve_failed:
  assumes "lookup_by_phone True (ask n) = Inl e" "fst (cached at1 n r) = None" "rs_enabled r" "n \<noteq> []"
  shows "fst (resolve_number ask at1 at2 n r) = None"
  using assms by (auto simp: resolve_number_def absorb_def cached_def split: prod.splits option.splits if_splits)

context durable_gate
begin

lemma recorded_seen:
  assumes "ok g" "\<not> gate_seen G t key g" "t \<le> now" "u < now + ttl"
  shows "gate_seen G u key (gate_record G now key g)"
proof -
  have "\<not> live (due g) t key" using live_seen assms(1,2) by blast
  then have "\<not> live (due g) now key" using assms(3) by (force simp: live_def)
  then have "due (gate_record G now key g) key = Some (now + ttl)" by (rule recorded [OF assms(1)])
  moreover have "ok (gate_record G now key g)" using record_due [OF assms(1)] by blast
  ultimately show ?thesis using live_seen assms(4) by (auto simp: live_def)
qed

lemma seen_other:
  assumes "ok g" "gate_seen G u k g" "k \<noteq> k'"
  shows "gate_seen G u k (gate_record G now k' g)"
proof -
  have "live (due g) u k" using seen_live assms(1,2) by blast
  then have "live (due (gate_record G now k' g)) u k"
    using record_due [OF assms(1), of now k'] assms(3) by (auto simp: live_def)
  then show ?thesis using live_seen record_due [OF assms(1), of now k'] by blast
qed

end


section \<open>Verdicts\<close>

lemma disposition_string_inj: "disposition_string d = disposition_string d' \<longleftrightarrow> d = d'"
  by (cases d; cases d') simp_all

lemma verdict_keys_differ: "d \<noteq> d' \<Longrightarrow> verdict_call_key s call d \<noteq> verdict_call_key s call d'"
  by (simp add: verdict_call_key_def disposition_string_inj)

text \<open>A verdict that passes the checks and is stored.\<close>

lemma confirm_stored:
  assumes "confirm_disposition_json E G party True clk (Some s) call (Some b) w = (a, w1)"
    and "valid_call_id call" "parse_disposition (vb_disposition b) = Inr d" "vb_direction b = ''in'' \<or> vb_direction b = ''out''"
    and "rs_enabled (jw_resolver w)" "parse_phone (vb_number b) = Inr p"
    and "note_set_disposition E (clk 0) (sess_extension s) call (disposition_string d) (jw_notes w) = (Inr (), st)"
  shows "(if gate_seen G (clk 0) (verdict_call_key s call d) (jw_gate w) then (a, w1) = (No_Content, w\<lparr>jw_notes := st\<rparr>)
    else journal_call G party clk (verdict_call_key s call d) (vb_direction b) p (vb_seconds b) d (w\<lparr>jw_notes := st\<rparr>) = (a, w1))"
  using assms by (auto simp: confirm_disposition_json_def Let_def)

lemma journal_answer:
  "journal_call G party clk key direction p seconds d w = (a, w1) \<Longrightarrow> a = No_Content \<or> a = Plain 502"
  by (auto simp: journal_call_def Let_def split: prod.splits option.splits sum.splits)

lemma journal_last:
  assumes "journal_call G party clk key direction p seconds d w = (a, w1)" "jw_log w1 \<noteq> jw_log w"
  shows "ce_outcome (last (jw_log w1)) = crm_outcome d"
  using assms by (auto simp: journal_call_def entry_of_call_def Let_def split: prod.splits option.splits sum.splits)

lemma note_verdict_view:
  assumes "engine_laws E view" "note_set_disposition E now ext call disp s = (Inr (), s')"
  shows "\<exists>v. view s' (ext_string ext, call) = Some v \<and> nov_disposition v = disp"
proof -
  obtain old where "wrap_write ''readmodels.disposition_save''
      (eng_put E (ext_string ext, call) (note_fold ext call old disp now) s) = (Inr (), s')"
    using assms(2) by (auto simp: note_set_disposition_def simp del: wrap_write_eq split: sum.splits)
  from put_wrapped [OF assms(1) this] show ?thesis by (auto simp: note_fold_def)
qed

text \<open>
  C16. The verdict stands whatever the CRM says, but a verdict that comes back does not
  reach the CRM. A stored verdict is answered 204 or 502 and its note is written in both
  cases. When an operator confirms one verdict, corrects it to another and, within the
  gate's time, corrects it back, the third request is answered 204 without an entry:
  the note then holds the first verdict while the last entry of the journal, where the
  correction made one, holds the outcome of the second.
\<close>

theorem corrections_diverge:
  assumes gate: "durable_gate G due ttl ok" "ok (jw_gate w)" and laws: "engine_laws E view"
    and on: "rs_enabled (jw_resolver w)" and call: "valid_call_id call"
    and b: "parse_disposition (vb_disposition b) = Inr d" "vb_direction b = ''in'' \<or> vb_direction b = ''out''"
      "parse_phone (vb_number b) = Inr p"
    and b': "parse_disposition (vb_disposition b') = Inr d'" "vb_direction b' = vb_direction b" "vb_number b' = vb_number b"
    and other: "d \<noteq> d'" and fresh: "\<not> gate_seen G (c1 0) (verdict_call_key s call d) (jw_gate w)" "c1 0 \<le> c1 3"
    and run: "confirm_disposition_json E G q1 True c1 (Some s) call (Some b) w = (a1, w1)"
      "confirm_disposition_json E G q2 True c2 (Some s) call (Some b') w1 = (a2, w2)"
      "confirm_disposition_json E G q3 True c3 (Some s) call (Some b) w2 = (a3, w3)"
    and stored: "note_set_disposition E (c1 0) (sess_extension s) call (disposition_string d) (jw_notes w) = (Inr (), n1)"
      "note_set_disposition E (c2 0) (sess_extension s) call (disposition_string d') (jw_notes w1) = (Inr (), n2)"
      "note_set_disposition E (c3 0) (sess_extension s) call (disposition_string d) (jw_notes w2) = (Inr (), n3)"
    and later: "c3 0 < c1 3 + ttl"
  shows "(a1 = No_Content \<or> a1 = Plain 502) \<and> jw_notes w1 = n1 \<and>
    (a1 = No_Content \<longrightarrow>
      a3 = No_Content \<and> jw_log w3 = jw_log w2 \<and>
      (\<exists>v. view (jw_notes w3) (ext_string (sess_extension s), call) = Some v \<and>
        nov_disposition v = disposition_string d) \<and>
      (jw_log w2 \<noteq> jw_log w1 \<longrightarrow> ce_outcome (last (jw_log w3)) = crm_outcome d'))"
proof -
  let ?k = "verdict_call_key s call d" and ?k' = "verdict_call_key s call d'"
  have go1: "journal_call G q1 c1 ?k (vb_direction b) p (vb_seconds b) d (w\<lparr>jw_notes := n1\<rparr>) = (a1, w1)"
    using confirm_stored [OF run(1) call b(1,2) on b(3) stored(1)] fresh(1) by simp
  have on1: "rs_enabled (jw_resolver w1)" "jw_notes w1 = n1" using journal_frame [OF go1] on by simp_all
  have second: "if gate_seen G (c2 0) ?k' (jw_gate w1) then (a2, w2) = (No_Content, w1\<lparr>jw_notes := n2\<rparr>)
      else journal_call G q2 c2 ?k' (vb_direction b) p (vb_seconds b') d' (w1\<lparr>jw_notes := n2\<rparr>) = (a2, w2)"
    using confirm_stored [OF run(2) call b'(1) _ on1(1) _ stored(2)] b' b(2,3) by (simp cong: if_cong)
  then have on2: "rs_enabled (jw_resolver w2)"
    using on1(1) by (auto split: if_splits dest: journal_frame)
  have last: "ce_outcome (last (jw_log w2)) = crm_outcome d'" if "jw_log w2 \<noteq> jw_log w1"
    using second that journal_last [of G q2 c2 ?k' "vb_direction b" p "vb_seconds b'" d' "w1\<lparr>jw_notes := n2\<rparr>" a2 w2]
    by (auto split: if_splits)
  have third: "a3 = No_Content \<and> w3 = w2\<lparr>jw_notes := n3\<rparr>" if acc: "a1 = No_Content"
  proof -
    have k: "?k \<noteq> []" "?k' \<noteq> []" by (simp_all add: verdict_call_key_def)
    have g1: "jw_gate w1 = gate_record G (c1 3) ?k (jw_gate w)"
      using journal_spends_key [of G q1 c1 ?k] go1 acc k(1) by fastforce
    then have seen1: "gate_seen G (c3 0) ?k (jw_gate w1)" "ok (jw_gate w1)"
      using durable_gate.recorded_seen [OF gate fresh later] idem_gate.record_due [OF durable_gate.axioms(1) [OF gate(1)] gate(2)]
      by simp_all
    have g2: "jw_gate w2 = jw_gate w1 \<or> jw_gate w2 = gate_record G (c2 3) ?k' (jw_gate w1)"
      using second by (auto simp: journal_call_def record_call_idem_def Let_def k
          split: if_splits prod.splits option.splits sum.splits)
    then have "gate_seen G (c3 0) ?k (jw_gate w2)"
      using durable_gate.seen_other [OF gate(1) seen1(2,1) verdict_keys_differ [OF other]] seen1(1) by auto
    with confirm_stored [OF run(3) call b(1,2) on2 b(3) stored(3)] show ?thesis by simp
  qed
  show ?thesis
    using journal_answer [OF go1] on1(2) third last note_verdict_view [OF laws stored(3)] by auto
qed

definition down :: crm_party where
  "down = \<lparr>cp_lookup = (\<lambda>_. No_Answer), cp_log = (\<lambda>_. No_Answer)\<rparr>"

definition up :: crm_party where
  "up = \<lparr>cp_lookup = (\<lambda>_. Body [\<lparr>cc_id = ''c-1'', cc_first = ''Ada'', cc_last = ''L'', cc_email = []\<rparr>]),
          cp_log = (\<lambda>_. Status 204)\<rparr>"

definition sample_call :: call_body where
  "sample_call =
     \<lparr>cb_number = ''+4930123'', cb_direction = ''out'', cb_seconds = 60, cb_disposition = ''unknown'',
      cb_outcome = [], cb_key = ''k1''\<rparr>"

definition sample_journal :: "(idem_store, (slot_key \<times> note_view) list) journal_world" where
  "sample_journal =
     \<lparr>jw_resolver = new_resolver True [], jw_gate = Map.empty, jw_notes = [], jw_log = []\<rparr>"


definition sample_verdict :: "string \<Rightarrow> verdict_body" where
  "sample_verdict d = \<lparr>vb_disposition = d, vb_number = ''+4930123'', vb_direction = ''out'', vb_seconds = 60\<rparr>"

text \<open>A resolver that knows nobody but the one contact, and a confirmation it leads to.\<close>

definition known_who :: "resolver \<Rightarrow> bool" where
  "known_who r \<longleftrightarrow>
     (\<forall>e. fmlookup (rs_cache r) ''+4930123'' = Some e \<longrightarrow> en_found e = Some \<lparr>pe_ref = ''c-1'', pe_name = ''Ada L''\<rparr>)"

lemma up_lookup: "lookup_by_phone True (cp_lookup up n) = Inr \<lparr>pe_ref = ''c-1'', pe_name = ''Ada L''\<rparr>"
proof -
  have "trim_space ''Ada L'' = ''Ada L''" by code_simp
  then show ?thesis by (simp add: lookup_by_phone_def up_def)
qed

lemma resolve_up:
  assumes "rs_enabled r" "known_who r"
  shows "\<exists>r'. resolve_number (cp_lookup up) at1 at2 ''+4930123'' r
      = (Some \<lparr>pe_ref = ''c-1'', pe_name = ''Ada L''\<rparr>, r') \<and> rs_enabled r' \<and> known_who r'"
  using assms
  by (auto simp: resolve_number_def cached_def memo_get_def absorb_def remember_def memo_put_def up_lookup known_who_def
      split: option.splits)

lemma confirm_up:
  assumes "confirm_disposition_json E G up True clk (Some s) call (Some b) w = (a, w1)"
    and "valid_call_id call" "parse_disposition (vb_disposition b) = Inr d"
    and "parse_phone (vb_number b) = Inr (Phone ''+4930123'')" "vb_direction b = ''in'' \<or> vb_direction b = ''out''"
    and "rs_enabled (jw_resolver w)" "known_who (jw_resolver w)"
    and "note_set_disposition E (clk 0) (sess_extension s) call (disposition_string d) (jw_notes w) = (Inr (), st)"
    and "\<not> gate_seen G (clk 0) (verdict_call_key s call d) (jw_gate w)"
  shows "a = No_Content \<and> jw_notes w1 = st \<and> known_who (jw_resolver w1) \<and> rs_enabled (jw_resolver w1) \<and>
    jw_gate w1 = gate_record G (clk 3) (verdict_call_key s call d) (jw_gate w) \<and> jw_log w1 \<noteq> jw_log w"
proof -
  have go: "journal_call G up clk (verdict_call_key s call d) (vb_direction b) (Phone ''+4930123'') (vb_seconds b) d
      (w\<lparr>jw_notes := st\<rparr>) = (a, w1)"
    using confirm_stored [OF assms(1-3,5,6,4,8)] assms(9) by simp
  obtain r' where "resolve_number (cp_lookup up) (clk 1) (clk 2) ''+4930123'' (jw_resolver w)
      = (Some \<lparr>pe_ref = ''c-1'', pe_name = ''Ada L''\<rparr>, r')" "rs_enabled r'" "known_who r'"
    using resolve_up [OF assms(6,7)] by blast
  with go show ?thesis
    by (auto simp: journal_call_def Let_def log_call_answer_def up_def record_call_idem_def verdict_call_key_def)
qed

text \<open>Voicemail, then missed, then voicemail again, a minute apart, with a CRM that works.\<close>

theorem corrections_diverge_witness:
  "\<exists>w1 w2 w3. confirm_disposition_json mem_engine (map_gate (3600 * second)) up True (\<lambda>_. 0) (Some sample_session) ''c''
        (Some (sample_verdict ''voicemail'')) sample_journal = (No_Content, w1) \<and>
     confirm_disposition_json mem_engine (map_gate (3600 * second)) up True (\<lambda>_. 60 * second) (Some sample_session) ''c''
        (Some (sample_verdict ''missed'')) w1 = (No_Content, w2) \<and>
     confirm_disposition_json mem_engine (map_gate (3600 * second)) up True (\<lambda>_. 120 * second) (Some sample_session) ''c''
        (Some (sample_verdict ''voicemail'')) w2 = (No_Content, w3) \<and>
     ce_outcome (last (jw_log w3)) = ''no_answer'' \<and>
     (\<exists>v. map_of (jw_notes w3) (''1001'', ''c'') = Some v \<and> nov_disposition v = ''voicemail'')"
proof -
  let ?G = "map_gate (3600 * second)" and ?x = "sess_extension sample_session" and ?s = "Some sample_session"
  let ?up = "confirm_disposition_json mem_engine (map_gate (3600 * second)) up True"
  have gate: "durable_gate ?G (map_due (3600 * second)) (3600 * second) (\<lambda>_. True)"
    by (rule map_window.durable_gate_axioms)
  have parse: "parse_disposition (vb_disposition (sample_verdict ''voicemail'')) = Inr Disp_Voicemail"
    "parse_disposition (vb_disposition (sample_verdict ''missed'')) = Inr Disp_Missed"
    "\<And>d. parse_phone (vb_number (sample_verdict d)) = Inr (Phone ''+4930123'')"
    "\<And>d. vb_direction (sample_verdict d) = ''in'' \<or> vb_direction (sample_verdict d) = ''out''"
    and call: "valid_call_id ''c''"
    by (simp_all add: sample_verdict_def parse_disposition_def) code_simp+
  have on: "rs_enabled (jw_resolver sample_journal)" "known_who (jw_resolver sample_journal)"
    by (simp_all add: sample_journal_def new_resolver_def known_who_def)
  have n1: "note_set_disposition mem_engine 0 ?x ''c'' ''voicemail'' (jw_notes sample_journal) =
      (Inr (), [((''1001'', ''c''), note_fold ?x ''c'' [] ''voicemail'' 0)])"
    by (simp add: sample_journal_def slot_defs sample_session_def)
  have n2: "note_set_disposition mem_engine (60 * second) ?x ''c'' ''missed'' [((''1001'', ''c''), note_fold ?x ''c'' [] ''voicemail'' 0)] =
      (Inr (), [((''1001'', ''c''), note_fold ?x ''c'' [] ''missed'' (60 * second))])"
    by (simp add: slot_defs sample_session_def)
  have n3: "note_set_disposition mem_engine (120 * second) ?x ''c'' ''voicemail'' [((''1001'', ''c''), note_fold ?x ''c'' [] ''missed'' (60 * second))] =
      (Inr (), [((''1001'', ''c''), note_fold ?x ''c'' [] ''voicemail'' (120 * second))])"
    by (simp add: slot_defs sample_session_def)
  have fresh: "\<not> gate_seen ?G 0 (verdict_call_key sample_session ''c'' Disp_Voicemail) (jw_gate sample_journal)"
    by (simp add: map_gate_def map_seen_def sample_journal_def)
  obtain a1 w1 where first: "?up (\<lambda>_. 0) ?s ''c'' (Some (sample_verdict ''voicemail'')) sample_journal = (a1, w1)" by fastforce
  have w1: "a1 = No_Content \<and> jw_notes w1 = [((''1001'', ''c''), note_fold ?x ''c'' [] ''voicemail'' 0)] \<and>
      known_who (jw_resolver w1) \<and> rs_enabled (jw_resolver w1) \<and>
      jw_gate w1 = map_record (3600 * second) 0 (verdict_call_key sample_session ''c'' Disp_Voicemail) (jw_gate sample_journal)"
    using confirm_up [OF first call parse(1,3,4) on n1 [folded disposition_string.simps(3)]] fresh
    by (simp add: map_gate_def)
  obtain a2 w2 where second: "?up (\<lambda>_. 60 * second) ?s ''c'' (Some (sample_verdict ''missed'')) w1 = (a2, w2)" by fastforce
  have "\<not> gate_seen ?G (60 * second) (verdict_call_key sample_session ''c'' Disp_Missed) (jw_gate w1)"
    using w1 verdict_keys_differ [of Disp_Missed Disp_Voicemail sample_session "''c''"]
    by (simp add: map_gate_def map_seen_def map_record_eq sample_journal_def)
  then have w2: "a2 = No_Content \<and> jw_notes w2 = [((''1001'', ''c''), note_fold ?x ''c'' [] ''missed'' (60 * second))] \<and>
      jw_log w2 \<noteq> jw_log w1"
    using confirm_up [OF second call parse(2,3,4), of "[((''1001'', ''c''), note_fold ?x ''c'' [] ''missed'' (60 * second))]"] w1 n2
    by simp
  obtain a3 w3 where third: "?up (\<lambda>_. 120 * second) ?s ''c'' (Some (sample_verdict ''voicemail'')) w2 = (a3, w3)" by fastforce
  have same: "vb_direction (sample_verdict ''missed'') = vb_direction (sample_verdict ''voicemail'')"
    "vb_number (sample_verdict ''missed'') = vb_number (sample_verdict ''voicemail'')"
    and other: "Disp_Voicemail \<noteq> Disp_Missed" and soon: "(0 :: time) \<le> 0" "120 * second < 0 + 3600 * second"
    by (simp_all add: sample_verdict_def second_def)
  have s1: "note_set_disposition mem_engine 0 ?x ''c'' (disposition_string Disp_Voicemail) (jw_notes sample_journal) =
      (Inr (), [((''1001'', ''c''), note_fold ?x ''c'' [] ''voicemail'' 0)])"
    and s2: "note_set_disposition mem_engine (60 * second) ?x ''c'' (disposition_string Disp_Missed) (jw_notes w1) =
      (Inr (), [((''1001'', ''c''), note_fold ?x ''c'' [] ''missed'' (60 * second))])"
    and s3: "note_set_disposition mem_engine (120 * second) ?x ''c'' (disposition_string Disp_Voicemail) (jw_notes w2) =
      (Inr (), [((''1001'', ''c''), note_fold ?x ''c'' [] ''voicemail'' (120 * second))])"
    using n1 n2 n3 w1 w2 by simp_all
  have "a3 = No_Content \<and> ce_outcome (last (jw_log w3)) = crm_outcome Disp_Missed \<and>
      (\<exists>v. map_of (jw_notes w3) (ext_string ?x, ''c'') = Some v \<and> nov_disposition v = disposition_string Disp_Voicemail)"
    using corrections_diverge [where ?c1.0 = "\<lambda>_. 0" and ?c2.0 = "\<lambda>_. 60 * second" and ?c3.0 = "\<lambda>_. 120 * second",
        OF gate TrueI mem_engine_laws on(1) call parse(1,4,3,2) same other fresh soon(1) first second third s1 s2 s3 soon(2)]
      w1 w2 by blast
  moreover have "ext_string ?x = ''1001''" by (simp add: sample_session_def)
  ultimately show ?thesis using first second third w1 w2 by auto
qed

end
