(* ===== verification/Review_Jobs.thy ===== *)
theory Review_Jobs
  imports Doors Gates
begin

text \<open>
  The drafts that the supervised text agent makes of a call: the manual button
  (\<^verbatim>\<open>internal/server/api/summary_api.go\<close>), the automatic review job
  (\<^verbatim>\<open>review_api.go\<close>) and the agent's client (\<^verbatim>\<open>internal/textagent/client.go\<close>). The handlers
  and the job run concurrently; the shared state is the idempotency gate, the set of jobs in
  flight, the review store, and the agent's queue. One transition of \<open>job_step\<close> is one access to
  that state. The agent is another program, so its reply is chosen freely in the step, and so are
  clocks.
\<close>

section \<open>The agent's client\<close>

record draft =
  dr_id :: string
  dr_contact :: string
  dr_text :: string
  dr_language :: string
  dr_confidence :: int

datatype agent_reply =
    Agent_Unreached
  | Agent_Unread
  | Agent_Status nat string
  | Agent_Undecoded
  | Agent_Draft draft
  | Agent_Panic

text \<open>The agent's own refusal with its status and phrase, or a failure of the seam.\<close>

datatype agent_err = Agent_Refusal nat string | Agent_Failure family string | Agent_Panicked

definition draft_for :: "agent_reply \<Rightarrow> string \<Rightarrow> string \<Rightarrow> agent_err + draft" where
  "draft_for reply to hint =
     (if \<not> valid_utf8 to \<or> \<not> valid_utf8 hint then Inl (Agent_Failure Infrastructure ''textagent.encode'')
      else
        (case reply of
           Agent_Unreached \<Rightarrow> Inl (Agent_Failure Transient ''textagent.reach'')
         | Agent_Unread \<Rightarrow> Inl (Agent_Failure Transient ''textagent.read'')
         | Agent_Status status message \<Rightarrow> Inl (Agent_Refusal status message)
         | Agent_Undecoded \<Rightarrow> Inl (Agent_Failure Infrastructure ''textagent.decode'')
         | Agent_Draft d \<Rightarrow> Inr d
         | Agent_Panic \<Rightarrow> Inl Agent_Panicked))"

definition summarize_prefix :: string where
  "summarize_prefix =
     ''Summarize this phone call as a short follow-up SMS to the other party. Call transcript:'' @
     [CHR 0x0A, CHR 0x0A]"

definition summarize_cap :: nat where "summarize_cap = 6000"

text \<open>The horizontal ellipsis and a space stand for what was cut off.\<close>

definition transcript_hint :: "string \<Rightarrow> string" where
  "transcript_hint spoken =
     summarize_prefix @
     (if length spoken > summarize_cap
      then [CHR 0xE2, CHR 0x80, CHR 0xA6, CHR '' ''] @ drop (length spoken - summarize_cap) spoken
      else spoken)"

definition draft_from_transcript :: "agent_reply \<Rightarrow> string \<Rightarrow> string \<Rightarrow> agent_err + draft" where
  "draft_from_transcript reply to spoken = draft_for reply to (transcript_hint spoken)"

section \<open>The doors\<close>

text \<open>The checks both handlers make before anything else.\<close>

definition review_door :: "bool \<Rightarrow> bool \<Rightarrow> session option \<Rightarrow> string \<Rightarrow> http_answer + session" where
  "review_door agent stored sess call =
     (case sess of
        None \<Rightarrow> Inl sign_in_page
      | Some s \<Rightarrow>
          if \<not> agent then Inl not_found_page
          else if \<not> stored then Inl (Plain 503)
          else if \<not> valid_call_id call then Inl (Plain 400)
          else Inr s)"

definition summary_key :: "session \<Rightarrow> string \<Rightarrow> string" where
  "summary_key s call = ext_string (sess_extension s) @ '':summary:'' @ call"

definition get_review_json ::
  "('s, slot_key, review_view) engine \<Rightarrow> bool \<Rightarrow> bool \<Rightarrow> session option \<Rightarrow> string \<Rightarrow> 's \<Rightarrow>
   http_answer + review_view option" where
  "get_review_json E agent stored sess call st =
     (case review_door agent stored sess call of
        Inl a \<Rightarrow> Inl a
      | Inr s \<Rightarrow>
          (case review_get E (sess_extension s) call st of Inl e \<Rightarrow> Inl (failed_with 500 e) | Inr v \<Rightarrow> Inr v))"

section \<open>Concurrent drafts\<close>

text \<open>
  A request or a job, by what it has done: \<open>Auto\<close> states belong to the dispatch of an automatic
  review and its job, \<open>Hand\<close> states to the manual button.
\<close>

datatype proc =
    Rest
  | Auto_Checked session string
  | Auto_Holding session string
  | Auto_Drafting session string string string
  | Auto_Drafted session string string draft
  | Auto_Noted session string string draft
  | Auto_Closing session string
  | Hand_Checked session string
  | Hand_Drafting session string string string
  | Hand_Drafted session string string draft
  | Hand_Noted session string string draft
  | Done http_answer

record ('g, 's) desk_state =
  ds_gate :: 'g
  ds_busy :: "string set"
  ds_reviews :: 's
  ds_nudges :: "(extension \<times> string) list"
  ds_audit :: "(string \<times> extension \<times> string \<times> string) list"
  ds_drafts :: "(string \<times> draft) list"
  ds_pushed :: "(extension \<times> string \<times> string) list"
  ds_procs :: "nat \<Rightarrow> proc"

text \<open>\<^verbatim>\<open>recordReviewArtifact\<close>: a failing store only costs the nudge; \<open>kept\<close> is false without a review store.\<close>

definition record_artifact ::
  "('s, slot_key, review_view) engine \<Rightarrow> bool \<Rightarrow> time \<Rightarrow> session \<Rightarrow> string \<Rightarrow> review_state \<Rightarrow> draft option \<Rightarrow>
   ('g, 's) desk_state \<Rightarrow> ('g, 's) desk_state" where
  "record_artifact E kept now s call st dr w =
     (if \<not> kept then w
      else
        (case (case dr of
                 None \<Rightarrow> review_set E now (sess_extension s) call st [] [] [] 0 (ds_reviews w)
               | Some d \<Rightarrow>
                   review_set E now (sess_extension s) call st (dr_id d) (dr_text d) (dr_language d) (dr_confidence d)
                     (ds_reviews w)) of
           (Inl _, rv) \<Rightarrow> w\<lparr>ds_reviews := rv\<rparr>
         | (Inr _, rv) \<Rightarrow> w\<lparr>ds_reviews := rv, ds_nudges := ds_nudges w @ [(sess_extension s, call)]\<rparr>))"

definition audit :: "session \<Rightarrow> string \<Rightarrow> string \<Rightarrow> ('g, 's) desk_state \<Rightarrow> ('g, 's) desk_state" where
  "audit s subject result w =
     w\<lparr>ds_audit := ds_audit w @ [(sess_email s, sess_extension s, subject, result)]\<rparr>"

definition goes :: "nat \<Rightarrow> proc \<Rightarrow> ('g, 's) desk_state \<Rightarrow> ('g, 's) desk_state" where
  "goes i st w = w\<lparr>ds_procs := (ds_procs w)(i := st)\<rparr>"

definition claim_job :: "string \<Rightarrow> ('g, 's) desk_state \<Rightarrow> ('g, 's) desk_state" where
  "claim_job key w = w\<lparr>ds_busy := insert key (ds_busy w)\<rparr>"

definition release_job :: "string \<Rightarrow> ('g, 's) desk_state \<Rightarrow> ('g, 's) desk_state" where
  "release_job key w = w\<lparr>ds_busy := ds_busy w - {key}\<rparr>"

definition queue_draft :: "string \<Rightarrow> draft \<Rightarrow> ('g, 's) desk_state \<Rightarrow> ('g, 's) desk_state" where
  "queue_draft key d w = w\<lparr>ds_drafts := ds_drafts w @ [(key, d)]\<rparr>"

definition push_ready :: "session \<Rightarrow> draft \<Rightarrow> string \<Rightarrow> ('g, 's) desk_state \<Rightarrow> ('g, 's) desk_state" where
  "push_ready s d remote w = w\<lparr>ds_pushed := ds_pushed w @ [(sess_extension s, dr_id d, remote)]\<rparr>"

text \<open>What the transcript lookup leads to: an answer, or the remote and the words of the call.\<close>

definition call_words :: "err + call_transcript option \<Rightarrow> http_answer + string \<times> string" where
  "call_words r =
     (case r of
        Inl e \<Rightarrow> Inl (failed_with 500 e)
      | Inr None \<Rightarrow> Inl not_found_page
      | Inr (Some t) \<Rightarrow>
          if ctr_lines t = [] then Inl not_found_page else Inr (ctr_remote t, join [CHR 0x0A] (ctr_lines t)))"

inductive job_step ::
  "'g gate_ops \<Rightarrow> ('s, slot_key, review_view) engine \<Rightarrow> bool \<Rightarrow>
   (extension \<Rightarrow> string \<Rightarrow> err + call_transcript option) \<Rightarrow> ('g, 's) desk_state \<Rightarrow> ('g, 's) desk_state \<Rightarrow> bool"
  for G E kept fetch where
  auto_seen: "ds_procs w i = Rest \<Longrightarrow> gate_seen G now (summary_key s call) (ds_gate w) \<Longrightarrow>
     job_step G E kept fetch w (goes i (Done (Plain 202)) w)"
| auto_unseen: "ds_procs w i = Rest \<Longrightarrow> \<not> gate_seen G now (summary_key s call) (ds_gate w) \<Longrightarrow>
     job_step G E kept fetch w (goes i (Auto_Checked s call) w)"
| auto_busy: "ds_procs w i = Auto_Checked s call \<Longrightarrow> summary_key s call \<in> ds_busy w \<Longrightarrow>
     job_step G E kept fetch w (goes i (Done (Plain 202)) w)"
| auto_claims: "ds_procs w i = Auto_Checked s call \<Longrightarrow> summary_key s call \<notin> ds_busy w \<Longrightarrow>
     job_step G E kept fetch w (goes i (Auto_Holding s call) (claim_job (summary_key s call) w))"
| auto_no_words: "ds_procs w i = Auto_Holding s call \<Longrightarrow> call_words (fetch (sess_extension s) call) = Inl a \<Longrightarrow>
     job_step G E kept fetch w (goes i (Done a) (if a = Crash then w else release_job (summary_key s call) w))"
| auto_starts: "ds_procs w i = Auto_Holding s call \<Longrightarrow>
     call_words (fetch (sess_extension s) call) = Inr (remote, spoken) \<Longrightarrow>
     job_step G E kept fetch w
       (goes i (Auto_Drafting s call remote spoken) (record_artifact E kept now s call Review_Pending None w))"
| auto_fails: "ds_procs w i = Auto_Drafting s call remote spoken \<Longrightarrow>
     draft_from_transcript reply remote spoken = Inl e \<Longrightarrow> e \<noteq> Agent_Panicked \<Longrightarrow>
     job_step G E kept fetch w
       (goes i (Auto_Closing s call)
         (record_artifact E kept now s call Review_Failed None
           (audit s call (case e of Agent_Refusal _ _ \<Rightarrow> ''refused'' | _ \<Rightarrow> ''failed'') w)))"
| auto_panics: "ds_procs w i = Auto_Drafting s call remote spoken \<Longrightarrow>
     draft_from_transcript reply remote spoken = Inl Agent_Panicked \<Longrightarrow>
     job_step G E kept fetch w (goes i (Auto_Closing s call) (audit s call ''failed'' w))"
| auto_drafts: "ds_procs w i = Auto_Drafting s call remote spoken \<Longrightarrow>
     draft_from_transcript reply remote spoken = Inr d \<Longrightarrow>
     job_step G E kept fetch w (goes i (Auto_Drafted s call remote d) (queue_draft (summary_key s call) d w))"
| auto_notes: "ds_procs w i = Auto_Drafted s call remote d \<Longrightarrow>
     job_step G E kept fetch w
       (goes i (Auto_Noted s call remote d) (w\<lparr>ds_gate := gate_record G now (summary_key s call) (ds_gate w)\<rparr>))"
| auto_stores: "ds_procs w i = Auto_Noted s call remote d \<Longrightarrow>
     job_step G E kept fetch w
       (goes i (Auto_Closing s call)
         (push_ready s d remote (audit s (dr_id d) ''ok'' (record_artifact E kept now s call Review_Present (Some d) w))))"
| auto_releases: "ds_procs w i = Auto_Closing s call \<Longrightarrow>
     job_step G E kept fetch w (goes i Rest (release_job (summary_key s call) w))"
| hand_seen: "ds_procs w i = Rest \<Longrightarrow> gate_seen G now (summary_key s call) (ds_gate w) \<Longrightarrow>
     job_step G E kept fetch w (goes i (Done Page) w)"
| hand_unseen: "ds_procs w i = Rest \<Longrightarrow> \<not> gate_seen G now (summary_key s call) (ds_gate w) \<Longrightarrow>
     job_step G E kept fetch w (goes i (Hand_Checked s call) w)"
| hand_no_words: "ds_procs w i = Hand_Checked s call \<Longrightarrow> call_words (fetch (sess_extension s) call) = Inl a \<Longrightarrow>
     job_step G E kept fetch w (goes i (Done a) w)"
| hand_asks: "ds_procs w i = Hand_Checked s call \<Longrightarrow>
     call_words (fetch (sess_extension s) call) = Inr (remote, spoken) \<Longrightarrow>
     job_step G E kept fetch w (goes i (Hand_Drafting s call remote spoken) w)"
| hand_fails: "ds_procs w i = Hand_Drafting s call remote spoken \<Longrightarrow>
     draft_from_transcript reply remote spoken = Inl e \<Longrightarrow> e \<noteq> Agent_Panicked \<Longrightarrow>
     job_step G E kept fetch w
       (goes i (Done (Plain (case e of Agent_Refusal status _ \<Rightarrow> status | _ \<Rightarrow> 502)))
         (record_artifact E kept now s call Review_Failed None w))"
| hand_panics: "ds_procs w i = Hand_Drafting s call remote spoken \<Longrightarrow>
     draft_from_transcript reply remote spoken = Inl Agent_Panicked \<Longrightarrow>
     job_step G E kept fetch w (goes i (Done Crash) w)"
| hand_drafts: "ds_procs w i = Hand_Drafting s call remote spoken \<Longrightarrow>
     draft_from_transcript reply remote spoken = Inr d \<Longrightarrow>
     job_step G E kept fetch w (goes i (Hand_Drafted s call remote d) (queue_draft (summary_key s call) d w))"
| hand_notes: "ds_procs w i = Hand_Drafted s call remote d \<Longrightarrow>
     job_step G E kept fetch w
       (goes i (Hand_Noted s call remote d) (w\<lparr>ds_gate := gate_record G now (summary_key s call) (ds_gate w)\<rparr>))"
| hand_stores: "ds_procs w i = Hand_Noted s call remote d \<Longrightarrow>
     job_step G E kept fetch w
       (goes i (Done Page) (push_ready s d remote (record_artifact E kept now s call Review_Present (Some d) w)))"
| rests: "ds_procs w i = Done a \<Longrightarrow> job_step G E kept fetch w (goes i Rest w)"

section \<open>One automatic job per call\<close>

fun held_key :: "proc \<Rightarrow> string option" where
  "held_key (Auto_Holding s call) = Some (summary_key s call)"
| "held_key (Auto_Drafting s call remote spoken) = Some (summary_key s call)"
| "held_key (Auto_Drafted s call remote d) = Some (summary_key s call)"
| "held_key (Auto_Noted s call remote d) = Some (summary_key s call)"
| "held_key (Auto_Closing s call) = Some (summary_key s call)"
| "held_key _ = None"

definition jobs_inv :: "('g, 's) desk_state \<Rightarrow> bool" where
  "jobs_inv w \<longleftrightarrow>
     (\<forall>i k. held_key (ds_procs w i) = Some k \<longrightarrow> k \<in> ds_busy w) \<and>
     (\<forall>i j k. held_key (ds_procs w i) = Some k \<and> held_key (ds_procs w j) = Some k \<longrightarrow> i = j)"

lemma desk_frames [simp]:
  "ds_procs (record_artifact E kept now s call st dr w) = ds_procs w"
  "ds_busy (record_artifact E kept now s call st dr w) = ds_busy w"
  "ds_drafts (record_artifact E kept now s call st dr w) = ds_drafts w"
  "ds_gate (record_artifact E kept now s call st dr w) = ds_gate w"
  "ds_procs (audit s sub res w) = ds_procs w" "ds_busy (audit s sub res w) = ds_busy w"
  "ds_drafts (audit s sub res w) = ds_drafts w" "ds_gate (audit s sub res w) = ds_gate w"
  "ds_reviews (audit s sub res w) = ds_reviews w"
  "ds_procs (push_ready s d remote w) = ds_procs w" "ds_busy (push_ready s d remote w) = ds_busy w"
  "ds_drafts (push_ready s d remote w) = ds_drafts w" "ds_gate (push_ready s d remote w) = ds_gate w"
  "ds_reviews (push_ready s d remote w) = ds_reviews w"
  "ds_procs (queue_draft key d w) = ds_procs w" "ds_busy (queue_draft key d w) = ds_busy w"
  "ds_drafts (queue_draft key d w) = ds_drafts w @ [(key, d)]" "ds_gate (queue_draft key d w) = ds_gate w"
  "ds_reviews (queue_draft key d w) = ds_reviews w"
  "ds_procs (claim_job key w) = ds_procs w" "ds_busy (claim_job key w) = insert key (ds_busy w)"
  "ds_drafts (claim_job key w) = ds_drafts w" "ds_gate (claim_job key w) = ds_gate w"
  "ds_reviews (claim_job key w) = ds_reviews w"
  "ds_procs (release_job key w) = ds_procs w" "ds_busy (release_job key w) = ds_busy w - {key}"
  "ds_drafts (release_job key w) = ds_drafts w" "ds_gate (release_job key w) = ds_gate w"
  "ds_reviews (release_job key w) = ds_reviews w"
  by (auto simp: record_artifact_def audit_def push_ready_def queue_draft_def claim_job_def release_job_def
      split: sum.splits prod.splits option.splits)

lemma goes_simps [simp]:
  "ds_procs (goes i st w) = (ds_procs w)(i := st)" "ds_busy (goes i st w) = ds_busy w"
  "ds_drafts (goes i st w) = ds_drafts w" "ds_gate (goes i st w) = ds_gate w"
  "ds_reviews (goes i st w) = ds_reviews w"
  by (simp_all add: goes_def)

text \<open>Moves of one process that keep its claim, drop it, or never had one.\<close>

lemma same_claim:
  assumes "jobs_inv w" "held_key st = held_key (ds_procs w i)" "ds_busy v = ds_busy w" "ds_procs v = ds_procs w"
  shows "jobs_inv (goes i st v)"
proof -
  have "held_key (ds_procs (goes i st v) j) = held_key (ds_procs w j)" for j using assms(2,4) by simp
  with assms(1,3) show ?thesis by (simp add: jobs_inv_def)
qed

lemma no_claim:
  assumes "jobs_inv w" "held_key st = None"
  shows "jobs_inv (goes i st w)"
  using assms unfolding jobs_inv_def by (auto split: if_splits)

lemma drop_claim:
  assumes "jobs_inv w" "held_key (ds_procs w i) = Some k" "held_key st = None"
  shows "jobs_inv (goes i st (release_job k w))"
  using assms unfolding jobs_inv_def by (auto split: if_splits)

lemma job_step_inv: "job_step G E kept fetch w w' \<Longrightarrow> jobs_inv w \<Longrightarrow> jobs_inv w'"
proof (induction rule: job_step.induct)
  case (auto_claims w i s call)
  then show ?case unfolding jobs_inv_def by (auto split: if_splits)
next
  case (auto_no_words w i s call a)
  then show ?case using drop_claim [of w i "summary_key s call" "Done a"] no_claim [of w "Done a"] by auto
next
  case (auto_releases w i s call)
  then show ?case by (intro drop_claim) simp_all
qed (rule same_claim; simp)+

section \<open>Two drafts of one call\<close>

text \<open>A desk at rest: nothing runs, nothing is claimed, nothing is drafted.\<close>

definition at_rest :: "('g, 's) desk_state \<Rightarrow> bool" where
  "at_rest w \<longleftrightarrow> ds_procs w = (\<lambda>_. Rest) \<and> ds_busy w = {} \<and> ds_drafts w = []"

text \<open>Process \<open>i\<close> gets as far as the agent, on either path.\<close>

lemma auto_to_agent:
  assumes "ds_procs w i = Auto_Checked s call" "summary_key s call \<notin> ds_busy w"
    and "call_words (fetch (sess_extension s) call) = Inr (remote, spoken)"
  shows "\<exists>v. (job_step G E kept fetch)\<^sup>*\<^sup>* w v \<and> ds_procs v = (ds_procs w)(i := Auto_Drafting s call remote spoken) \<and>
    ds_busy v = insert (summary_key s call) (ds_busy w) \<and> ds_drafts v = ds_drafts w \<and> ds_gate v = ds_gate w"
proof -
  let ?v = "goes i (Auto_Holding s call) (claim_job (summary_key s call) w)"
  have "job_step G E kept fetch w ?v" using assms by (intro job_step.auto_claims)
  moreover have "job_step G E kept fetch ?v
      (goes i (Auto_Drafting s call remote spoken) (record_artifact E kept 0 s call Review_Pending None ?v))"
    using assms(3) by (intro job_step.auto_starts) simp_all
  ultimately show ?thesis
    by (intro exI [of _ "goes i (Auto_Drafting s call remote spoken) (record_artifact E kept 0 s call Review_Pending None ?v)"])
      (auto intro: rtranclp.rtrancl_into_rtrancl)
qed

lemma auto_to_end:
  assumes "ds_procs w i = Auto_Drafting s call remote spoken"
    and "draft_from_transcript (Agent_Draft d) remote spoken = Inr d"
  shows "\<exists>v. (job_step G E kept fetch)\<^sup>*\<^sup>* w v \<and> ds_procs v = (ds_procs w)(i := Rest) \<and>
    ds_busy v = ds_busy w - {summary_key s call} \<and> ds_drafts v = ds_drafts w @ [(summary_key s call, d)] \<and>
    ds_gate v = gate_record G now (summary_key s call) (ds_gate w)"
proof -
  let ?k = "summary_key s call"
  let ?v1 = "goes i (Auto_Drafted s call remote d) (queue_draft ?k d w)"
  let ?v2 = "goes i (Auto_Noted s call remote d) (?v1\<lparr>ds_gate := gate_record G now ?k (ds_gate ?v1)\<rparr>)"
  let ?v3 = "goes i (Auto_Closing s call)
      (push_ready s d remote (audit s (dr_id d) ''ok'' (record_artifact E kept now s call Review_Present (Some d) ?v2)))"
  let ?v4 = "goes i Rest (release_job ?k ?v3)"
  have "job_step G E kept fetch w ?v1" using assms by (intro job_step.auto_drafts)
  moreover have "job_step G E kept fetch ?v1 ?v2" by (intro job_step.auto_notes) simp
  moreover have "job_step G E kept fetch ?v2 ?v3" by (intro job_step.auto_stores) simp
  moreover have "job_step G E kept fetch ?v3 ?v4" by (intro job_step.auto_releases) simp
  ultimately have "(job_step G E kept fetch)\<^sup>*\<^sup>* w ?v4"
    by (meson converse_rtranclp_into_rtranclp rtranclp.rtrancl_refl)
  then show ?thesis by (intro exI [of _ ?v4]) simp
qed

lemma hand_to_agent:
  assumes "ds_procs w i = Rest" "\<not> gate_seen G now (summary_key s call) (ds_gate w)"
    and "call_words (fetch (sess_extension s) call) = Inr (remote, spoken)"
  shows "\<exists>v. (job_step G E kept fetch)\<^sup>*\<^sup>* w v \<and> v = goes i (Hand_Drafting s call remote spoken) w"
proof -
  let ?v = "goes i (Hand_Checked s call) w"
  have "job_step G E kept fetch w ?v" using assms(1,2) by (intro job_step.hand_unseen)
  moreover have "job_step G E kept fetch ?v (goes i (Hand_Drafting s call remote spoken) ?v)"
    using assms(3) by (intro job_step.hand_asks) simp_all
  moreover have "goes i (Hand_Drafting s call remote spoken) ?v = goes i (Hand_Drafting s call remote spoken) w"
    by (simp add: goes_def)
  ultimately show ?thesis by (metis converse_rtranclp_into_rtranclp rtranclp.rtrancl_refl)
qed

lemma auto_checks:
  "ds_procs w i = Rest \<Longrightarrow> \<not> gate_seen G now (summary_key s call) (ds_gate w) \<Longrightarrow>
     (job_step G E kept fetch)\<^sup>*\<^sup>* w (goes i (Auto_Checked s call) w)"
  by (rule r_into_rtranclp, rule job_step.auto_unseen)

text \<open>A call with words that the agent can be asked about, and that the window does not know.\<close>

definition draftable ::
  "'g gate_ops \<Rightarrow> (extension \<Rightarrow> string \<Rightarrow> err + call_transcript option) \<Rightarrow> session \<Rightarrow> string \<Rightarrow> string \<Rightarrow> string \<Rightarrow>
   ('g, 's) desk_state \<Rightarrow> bool" where
  "draftable G fetch s call remote spoken w \<longleftrightarrow>
     \<not> gate_seen G 0 (summary_key s call) (ds_gate w) \<and>
     call_words (fetch (sess_extension s) call) = Inr (remote, spoken) \<and>
     valid_utf8 remote \<and> valid_utf8 (transcript_hint spoken)"

lemma draftable_agent:
  assumes "draftable G fetch s call remote spoken w"
  shows "draft_from_transcript (Agent_Draft d) remote spoken = Inr d"
    and "draft_from_transcript (Agent_Status n m) remote spoken = Inl (Agent_Refusal n m)"
  using assms by (simp_all add: draftable_def draft_from_transcript_def draft_for_def)

text \<open>The job of process 0 is done; process 1, a button pressed while it ran, still waits for the agent.\<close>

lemma button_outlasts_job:
  assumes rest: "at_rest w0" and pre: "draftable G fetch s call remote spoken w0"
  shows "\<exists>v. (job_step G E kept fetch)\<^sup>*\<^sup>* w0 v \<and>
    ds_procs v = (\<lambda>_. Rest)(1 := Hand_Drafting s call remote spoken) \<and>
    ds_drafts v = [(summary_key s call, d)] \<and> ds_gate v = gate_record G 0 (summary_key s call) (ds_gate w0)"
proof -
  let ?k = "summary_key s call" and ?c = "goes 0 (Auto_Checked s call) w0"
  have start: "ds_procs w0 = (\<lambda>_. Rest)" "ds_busy w0 = {}" "ds_drafts w0 = []"
    and words: "call_words (fetch (sess_extension s) call) = Inr (remote, spoken)"
    and unseen: "\<not> gate_seen G 0 ?k (ds_gate w0)"
    using rest pre by (simp_all add: at_rest_def draftable_def)
  have run0: "(job_step G E kept fetch)\<^sup>*\<^sup>* w0 ?c" using unseen start by (intro auto_checks [where now = 0]) simp_all
  obtain v1 where v1: "(job_step G E kept fetch)\<^sup>*\<^sup>* ?c v1"
      "ds_procs v1 = (ds_procs ?c)(0 := Auto_Drafting s call remote spoken)"
      "ds_drafts v1 = ds_drafts ?c" "ds_gate v1 = ds_gate ?c"
    using auto_to_agent [of ?c 0 s call fetch remote spoken G E kept] words start by auto
  let ?h = "goes 1 (Hand_Drafting s call remote spoken) v1"
  have h: "(job_step G E kept fetch)\<^sup>*\<^sup>* v1 ?h"
    using hand_to_agent [of v1 1 G 0 s call fetch remote spoken E kept] v1 start unseen words by auto
  have p: "ds_procs ?h 0 = Auto_Drafting s call remote spoken" using v1 by simp
  obtain v2 where v2: "(job_step G E kept fetch)\<^sup>*\<^sup>* ?h v2" "ds_procs v2 = (ds_procs ?h)(0 := Rest)"
      "ds_drafts v2 = ds_drafts ?h @ [(?k, d)]" "ds_gate v2 = gate_record G 0 ?k (ds_gate ?h)"
    using auto_to_end [OF p draftable_agent(1) [OF pre], where now = 0] by blast
  have "(job_step G E kept fetch)\<^sup>*\<^sup>* w0 v2" using run0 v1(1) h v2(1) by (meson rtranclp_trans)
  with v1 v2 start show ?thesis by (intro exI [of _ v2]) (auto simp: fun_eq_iff)
qed

lemma button_drafts_again:
  assumes "at_rest w0" and pre: "draftable G fetch s call remote spoken w0"
  shows "\<exists>v. (job_step G E kept fetch)\<^sup>*\<^sup>* w0 v \<and> ds_procs v 0 = Rest \<and> ds_procs v 1 = Hand_Drafted s call remote d2 \<and>
    ds_drafts v = [(summary_key s call, d1), (summary_key s call, d2)]"
proof -
  let ?k = "summary_key s call"
  obtain v where v: "(job_step G E kept fetch)\<^sup>*\<^sup>* w0 v"
    "ds_procs v = (\<lambda>_. Rest)(1 := Hand_Drafting s call remote spoken)" "ds_drafts v = [(?k, d1)]"
    using button_outlasts_job [OF assms, of E kept d1] by blast
  let ?v = "goes 1 (Hand_Drafted s call remote d2) (queue_draft ?k d2 v)"
  have "job_step G E kept fetch v ?v"
    using draftable_agent(1) [OF pre, of d2] v(2) by (intro job_step.hand_drafts) simp_all
  with v(1) have "(job_step G E kept fetch)\<^sup>*\<^sup>* w0 ?v" by (rule rtranclp.rtrancl_into_rtrancl)
  with v show ?thesis by (intro exI [of _ ?v]) simp
qed

lemma late_refusal_overwrites:
  assumes "at_rest w0" and pre: "draftable G fetch s call remote spoken w0"
  shows "\<exists>v rv. (job_step G E True fetch)\<^sup>*\<^sup>* w0 v \<and> ds_drafts v = [(summary_key s call, d)] \<and>
    ds_gate v = gate_record G 0 (summary_key s call) (ds_gate w0) \<and>
    ds_reviews v = snd (review_set E 0 (sess_extension s) call Review_Failed [] [] [] 0 rv)"
proof -
  obtain v where v: "(job_step G E True fetch)\<^sup>*\<^sup>* w0 v"
    "ds_procs v = (\<lambda>_. Rest)(1 := Hand_Drafting s call remote spoken)" "ds_drafts v = [(summary_key s call, d)]"
    "ds_gate v = gate_record G 0 (summary_key s call) (ds_gate w0)"
    using button_outlasts_job [OF assms, of E True d] by blast
  let ?v = "goes 1 (Done (Plain 409)) (record_artifact E True 0 s call Review_Failed None v)"
  have "job_step G E True fetch v ?v"
    using job_step.hand_fails [of v 1 s call remote spoken "Agent_Status 409 []" "Agent_Refusal 409 []" G E True fetch 0] v(2)
      draftable_agent(2) [OF pre, of 409 "[]"] by simp
  with v(1) have "(job_step G E True fetch)\<^sup>*\<^sup>* w0 ?v" by (rule rtranclp.rtrancl_into_rtrancl)
  moreover have "ds_reviews ?v = snd (review_set E 0 (sess_extension s) call Review_Failed [] [] [] 0 (ds_reviews v))"
    by (auto simp: record_artifact_def split: prod.split sum.split)
  ultimately show ?thesis using v(3,4) by (intro exI [of _ ?v] exI [of _ "ds_reviews v"]) simp
qed

lemma dispatches_race:
  assumes rest: "at_rest w0" and pre: "draftable G fetch s call remote spoken w0"
  shows "\<exists>v. (job_step G E kept fetch)\<^sup>*\<^sup>* w0 v \<and> ds_procs v = (\<lambda>_. Rest) \<and>
    ds_drafts v = [(summary_key s call, d1), (summary_key s call, d2)]"
proof -
  let ?k = "summary_key s call" and ?c = "goes 0 (Auto_Checked s call) w0"
  let ?c1 = "goes 1 (Auto_Checked s call) ?c"
  have start: "ds_procs w0 = (\<lambda>_. Rest)" "ds_busy w0 = {}" "ds_drafts w0 = []"
    and words: "call_words (fetch (sess_extension s) call) = Inr (remote, spoken)"
    and unseen: "\<not> gate_seen G 0 ?k (ds_gate w0)"
    using rest pre by (simp_all add: at_rest_def draftable_def)
  note agent = draftable_agent(1) [OF pre]
  have c: "(job_step G E kept fetch)\<^sup>*\<^sup>* w0 ?c" "(job_step G E kept fetch)\<^sup>*\<^sup>* ?c ?c1"
    using unseen start by (auto intro!: auto_checks [where now = 0])
  obtain v1 where v1: "(job_step G E kept fetch)\<^sup>*\<^sup>* ?c1 v1"
      "ds_procs v1 = (ds_procs ?c1)(0 := Auto_Drafting s call remote spoken)" "ds_busy v1 = insert ?k (ds_busy ?c1)"
      "ds_drafts v1 = ds_drafts ?c1"
    using auto_to_agent [of ?c1 0 s call fetch remote spoken G E kept] words start by auto
  then have p1: "ds_procs v1 0 = Auto_Drafting s call remote spoken" by simp
  obtain v2 where v2: "(job_step G E kept fetch)\<^sup>*\<^sup>* v1 v2" "ds_procs v2 = (ds_procs v1)(0 := Rest)"
      "ds_busy v2 = ds_busy v1 - {?k}" "ds_drafts v2 = ds_drafts v1 @ [(?k, d1)]"
    using auto_to_end [OF p1 agent, where now = 0] by blast
  have p2: "ds_procs v2 1 = Auto_Checked s call" "?k \<notin> ds_busy v2" using v1 v2 by simp_all
  obtain v3 where v3: "(job_step G E kept fetch)\<^sup>*\<^sup>* v2 v3"
      "ds_procs v3 = (ds_procs v2)(1 := Auto_Drafting s call remote spoken)" "ds_drafts v3 = ds_drafts v2"
    using auto_to_agent [of v2 1 s call fetch remote spoken G E kept] p2 words by blast
  then have p3: "ds_procs v3 1 = Auto_Drafting s call remote spoken" by simp
  obtain v4 where v4: "(job_step G E kept fetch)\<^sup>*\<^sup>* v3 v4" "ds_procs v4 = (ds_procs v3)(1 := Rest)"
      "ds_drafts v4 = ds_drafts v3 @ [(?k, d2)]"
    using auto_to_end [OF p3 agent, where now = 0] by blast
  have "(job_step G E kept fetch)\<^sup>*\<^sup>* w0 v4"
    using c v1(1) v2(1) v3(1) v4(1) by (meson rtranclp_trans)
  with v1 v2 v3 v4 start show ?thesis by (intro exI [of _ v4]) (auto simp: fun_eq_iff)
qed


text \<open>A desk at rest over the sample stores, and a call with one line.\<close>

definition sample_desk_state ::
  "(idem_store, (slot_key \<times> review_view) list) desk_state" where
  "sample_desk_state =
     \<lparr>ds_gate = (\<lambda>_. None), ds_busy = {}, ds_reviews = [], ds_nudges = [], ds_audit = [], ds_drafts = [],
      ds_pushed = [], ds_procs = (\<lambda>_. Rest)\<rparr>"

definition sample_fetch :: "extension \<Rightarrow> string \<Rightarrow> err + call_transcript option" where
  "sample_fetch ext call =
     Inr (Some \<lparr>ctr_owner = ext, ctr_call = call, ctr_direction = ''in'', ctr_remote = ''+4930123'',
                ctr_started = 0, ctr_lines = [''hi'']\<rparr>)"


end
