(* ===== verification/Export.thy ===== *)
theory Export
  imports Actions Vcard Transcripts
begin

text \<open>
  The export of everything an extension owns, \<^verbatim>\<open>internal/server/export.go\<close>: the threads with
  their messages, the fax jobs, the transcripts and the contacts, read one after the other
  and rendered only when every read has answered. The zip container around the four
  documents is not modelled; a document is the list its JSON encodes, and encoding fails on a
  text that is not UTF-8.
\<close>

section \<open>The documents\<close>

definition export_limit :: nat where "export_limit = 10000"

record export_attachment =
  xa_name :: string
  xa_mime :: string
  xa_size :: nat

record export_message =
  xm_direction :: string
  xm_channel :: string
  xm_body :: string
  xm_status :: string
  xm_fkind :: string
  xm_fdetail :: string
  xm_created :: time
  xm_attachments :: "export_attachment list"

record export_thread =
  xt_remote :: string
  xt_unread :: int
  xt_messages :: "export_message list"

record export_fax =
  xf_remote :: string
  xf_direction :: string
  xf_status :: string
  xf_pages :: int
  xf_error :: string
  xf_created :: time

record export_transcript =
  xr_call :: string
  xr_remote :: string
  xr_direction :: string
  xr_started :: time
  xr_lines :: "string list"

record export_archive =
  ar_threads :: "export_thread list"
  ar_faxes :: "export_fax list"
  ar_transcripts :: "export_transcript list"
  ar_contacts :: string

definition message_out :: "message \<Rightarrow> export_message" where
  "message_out m =
     \<lparr>xm_direction = direction_string (msg_direction m), xm_channel = channel_string (msg_channel m),
      xm_body = msg_body m, xm_status = status_string (msg_status m), xm_fkind = failure_string (msg_fkind m),
      xm_fdetail = msg_fdetail m, xm_created = msg_created m,
      xm_attachments = map (\<lambda>a. \<lparr>xa_name = att_name a, xa_mime = att_mime a, xa_size = att_size a\<rparr>) (msg_attachments m)\<rparr>"

definition fax_out :: "fax_job \<Rightarrow> export_fax" where
  "fax_out j =
     \<lparr>xf_remote = phone_string (job_remote j), xf_direction = fax_direction_string (job_direction j),
      xf_status = fax_status_string (job_status j), xf_pages = job_pages j, xf_error = job_error j,
      xf_created = job_created j\<rparr>"

definition transcript_out :: "call_transcript \<Rightarrow> export_transcript" where
  "transcript_out t =
     \<lparr>xr_call = ctr_call t, xr_remote = ctr_remote t, xr_direction = ctr_direction t, xr_started = ctr_started t,
      xr_lines = ctr_lines t\<rparr>"

section \<open>Rendering\<close>

definition message_texts :: "export_message \<Rightarrow> string list" where
  "message_texts m =
     [xm_direction m, xm_channel m, xm_body m, xm_status m, xm_fkind m, xm_fdetail m] @
     concat (map (\<lambda>a. [xa_name a, xa_mime a]) (xm_attachments m))"

definition thread_texts :: "export_thread \<Rightarrow> string list" where
  "thread_texts t = xt_remote t # concat (map message_texts (xt_messages t))"

definition fax_texts :: "export_fax \<Rightarrow> string list" where
  "fax_texts f = [xf_remote f, xf_direction f, xf_status f, xf_error f]"

definition transcript_texts :: "export_transcript \<Rightarrow> string list" where
  "transcript_texts t = [xr_call t, xr_remote t, xr_direction t] @ xr_lines t"

definition renders :: "('a \<Rightarrow> string list) \<Rightarrow> 'a list \<Rightarrow> bool" where
  "renders texts xs \<longleftrightarrow> list_all (\<lambda>x. list_all valid_utf8 (texts x)) xs"

section \<open>The handler\<close>

record ('f, 'c, 't) export_world =
  ew_store :: store
  ew_faxes :: 'f
  ew_contacts :: 'c
  ew_transcripts :: 't

text \<open>A read that fails is answered 500; one that panics ends the request.\<close>

definition read_failed :: "err \<Rightarrow> http_answer" where
  "read_failed e = (if e = Panic then Crash else Plain 500)"

fun export_threads :: "faults \<Rightarrow> store \<Rightarrow> extension \<Rightarrow> thread_summary list \<Rightarrow> err + export_thread list" where
  "export_threads fl st ext [] = Inr []"
| "export_threads fl st ext (v # vs) =
     (case list_messages fl st ext (thr_id (sum_thread v)) export_limit of
        Inl e \<Rightarrow> Inl e
      | Inr msgs \<Rightarrow>
          (case export_threads fl st ext vs of
             Inl e \<Rightarrow> Inl e
           | Inr ts \<Rightarrow>
               Inr (\<lparr>xt_remote = addr_value (thr_remote (sum_thread v)), xt_unread = thr_unread (sum_thread v),
                     xt_messages = map message_out msgs\<rparr> # ts)))"

definition export_calls ::
  "('t, string, segment_view) capped_engine option \<Rightarrow> extension \<Rightarrow> 't \<Rightarrow> err + call_transcript list" where
  "export_calls T ext t = (case T of None \<Rightarrow> Inr [] | Some E \<Rightarrow> transcript_export E ext export_limit t)"

definition render_archive ::
  "export_thread list \<Rightarrow> fax_job list \<Rightarrow> call_transcript list \<Rightarrow> contact list \<Rightarrow> http_answer + export_archive" where
  "render_archive threads jobs calls contacts =
     (if \<not> renders thread_texts threads \<or> \<not> renders fax_texts (map fax_out jobs) \<or>
         \<not> renders transcript_texts (map transcript_out calls)
      then Inl (Plain 500)
      else
        Inr \<lparr>ar_threads = threads, ar_faxes = map fax_out jobs, ar_transcripts = map transcript_out calls,
             ar_contacts =
               encode (map (\<lambda>c. \<lparr>card_name = con_name c, card_number = phone_string (con_phone c)\<rparr>) contacts)\<rparr>)"

definition export_data ::
  "('f, string, fax_view) idem_engine \<Rightarrow> ('c, contact_key, contact_view) engine \<Rightarrow>
   ('t, string, segment_view) capped_engine option \<Rightarrow> faults \<Rightarrow> session option \<Rightarrow> ('f, 'c, 't) export_world \<Rightarrow>
   http_answer + export_archive" where
  "export_data F C T fl sess w =
     (case sess of
        None \<Rightarrow> Inl sign_in_page
      | Some s \<Rightarrow>
          (case list_threads fl (ew_store w) (sess_extension s) of
             Inl e \<Rightarrow> Inl (read_failed e)
           | Inr sums \<Rightarrow>
               (case fax_list F (sess_extension s) export_limit (ew_faxes w) of
                  Inl e \<Rightarrow> Inl (read_failed e)
                | Inr jobs \<Rightarrow>
                    (case contact_list C (sess_extension s) (ew_contacts w) of
                       Inl e \<Rightarrow> Inl (read_failed e)
                     | Inr contacts \<Rightarrow>
                         (case export_calls T (sess_extension s) (ew_transcripts w) of
                            Inl e \<Rightarrow> Inl (read_failed e)
                          | Inr calls \<Rightarrow>
                              (case export_threads fl (ew_store w) (sess_extension s) sums of
                                 Inl e \<Rightarrow> Inl (read_failed e)
                               | Inr threads \<Rightarrow> render_archive threads jobs calls contacts))))))"

section \<open>What the archive leaves out\<close>

text \<open>The store without its archived threads and their messages.\<close>

definition without_archived :: "store \<Rightarrow> store" where
  "without_archived st =
     st\<lparr>st_threads := filter (\<lambda>t. tr_archived t = 0) (st_threads st),
        st_messages := filter (\<lambda>m. \<exists>t \<in> set (st_threads st). tr_id t = mr_thread m \<and> tr_archived t = 0) (st_messages st)\<rparr>"

lemma attach_cong:
  assumes "st_attachments st = st_attachments st'"
  shows "attach_attachments fl st msgs = attach_attachments fl st' msgs"
proof -
  have "attach_chunks fl st cs ms = attach_chunks fl st' cs ms" for cs ms
    using assms by (induction cs arbitrary: ms) (simp_all add: chunk_rows_def Let_def cong: if_cong split: sum.split)
  then show ?thesis by (simp add: attach_attachments_def)
qed

lemma without_messages:
  assumes "t \<in> set (st_threads st)" "tr_archived t = 0"
  shows "filter (\<lambda>m. P m \<and> mr_thread m = tr_id t) (st_messages (without_archived st)) =
    filter (\<lambda>m. P m \<and> mr_thread m = tr_id t) (st_messages st)"
  using assms by (auto simp: without_archived_def intro!: filter_cong)

lemma without_summary:
  assumes "t \<in> set (st_threads st)" "tr_archived t = 0"
  shows "scan_summary fl (without_archived st) t = scan_summary fl st t"
proof -
  have "last_message (without_archived st) t = last_message st t"
    using without_messages [OF assms, of "\<lambda>_. True"] by (simp add: last_message_def)
  moreover have "st_attachments (without_archived st) = st_attachments st" by (simp add: without_archived_def)
  ultimately show ?thesis by (simp only: scan_summary_def)
qed

lemma scan_all_cong: "(\<And>r. r \<in> set rs \<Longrightarrow> f r = g r) \<Longrightarrow> scan_all f rs = scan_all g rs"
  by (induction rs) (auto split: sum.split)

lemma without_threads: "list_threads fl (without_archived st) ext = list_threads fl st ext"
proof -
  have "filter (\<lambda>t. tr_owner t = ext_string ext \<and> tr_archived t = 0) (st_threads (without_archived st)) =
      filter (\<lambda>t. tr_owner t = ext_string ext \<and> tr_archived t = 0) (st_threads st)"
    by (auto simp: without_archived_def intro: filter_cong)
  then show ?thesis
    by (auto simp: list_threads_def list_rows_def without_summary intro!: scan_all_cong)
qed

lemma without_list_messages:
  assumes "t \<in> set (st_threads st)" "tr_archived t = 0"
  shows "list_messages fl (without_archived st) ext (tr_id t) limit = list_messages fl st ext (tr_id t) limit"
proof -
  have "transcript_rows (without_archived st) ext (tr_id t) = transcript_rows st ext (tr_id t)"
    using without_messages [OF assms, of "\<lambda>m. mr_owner m = ext_string ext"] by (simp add: transcript_rows_def)
  moreover have "attach_attachments fl (without_archived st) = attach_attachments fl st"
    by (intro ext attach_cong) (simp add: without_archived_def)
  ultimately show ?thesis by (simp only: list_messages_def)
qed

text \<open>A summary that was scanned carries the identifier of its row.\<close>

lemma scan_summary_id:
  assumes "valid_thread_row t" "scan_summary fl st t = Inr v"
  shows "thr_id (sum_thread v) = tr_id t"
proof -
  obtain thr where "scan_thread t = Inr thr" "thr_id thr = tr_id t"
    using scan_valid_thread_row [OF assms(1)] by auto
  with assms(2) show ?thesis
    by (auto simp: scan_summary_def split: if_splits option.splits sum.splits)
qed

lemma scan_all_from: "scan_all f rs = Inr vs \<Longrightarrow> v \<in> set vs \<Longrightarrow> \<exists>r \<in> set rs. f r = Inr v"
  by (induction rs arbitrary: vs) (auto split: sum.splits)

lemma listed_active:
  assumes "store_inv st" "list_threads fl st ext = Inr vs" "v \<in> set vs"
  shows "\<exists>t \<in> set (st_threads st). tr_archived t = 0 \<and> tr_owner t = ext_string ext \<and>
    tr_id t = thr_id (sum_thread v) \<and> scan_summary fl st t = Inr v"
proof -
  from assms(2,3) obtain t where t: "t \<in> set (st_threads st)" "tr_archived t = 0" "tr_owner t = ext_string ext"
      "scan_summary fl st t = Inr v"
    by (auto simp: list_threads_def list_rows_def split: if_splits dest!: scan_all_from [OF _ assms(3)])
  moreover have "valid_thread_row t" using assms(1) t(1) by (simp add: store_inv_def)
  ultimately show ?thesis using scan_summary_id by metis
qed

lemma without_export_threads:
  assumes "\<forall>v \<in> set vs. \<exists>t \<in> set (st_threads st). tr_archived t = 0 \<and> tr_id t = thr_id (sum_thread v)"
  shows "export_threads fl (without_archived st) ext vs = export_threads fl st ext vs"
  using assms
proof (induction vs)
  case (Cons v vs)
  then obtain t where "t \<in> set (st_threads st)" "tr_archived t = 0" "tr_id t = thr_id (sum_thread v)" by auto
  from without_list_messages [OF this(1,2), of fl ext export_limit] this(3)
  have "list_messages fl (without_archived st) ext (thr_id (sum_thread v)) export_limit =
      list_messages fl st ext (thr_id (sum_thread v)) export_limit" by simp
  moreover have "export_threads fl (without_archived st) ext vs = export_threads fl st ext vs"
    using Cons by simp
  ultimately show ?case by (simp only: export_threads.simps)
qed simp

section \<open>What the archive holds\<close>

definition bare :: "message \<Rightarrow> message" where
  "bare m = m\<lparr>msg_attachments := []\<rparr>"

lemma bare_fold:
  "map bare (fold (\<lambda>i ms. let j = f i in ms[j := (ms ! j)\<lparr>msg_attachments := g i\<rparr>]) is ms) = map bare ms"
proof (induction "is" arbitrary: ms)
  case (Cons i "is")
  have "map bare (ms[f i := (ms ! f i)\<lparr>msg_attachments := g i\<rparr>]) = map bare ms"
  proof (cases "f i < length ms")
    case True
    then have "(map bare ms)[f i := bare (ms ! f i)] = map bare ms" by (metis length_map list_update_id nth_map)
    then show ?thesis by (simp add: map_update bare_def)
  next
    case False
    then have "ms[f i := y] = ms" for y by (intro list_update_beyond) simp
    then show ?thesis by metis
  qed
  with Cons show ?case by (simp add: Let_def)
qed simp

lemma bare_write_back: "map bare (write_back grouped chunk msgs) = map bare msgs"
  unfolding write_back_def by (rule bare_fold)

lemma attach_bare:
  assumes "store_inv st"
  shows "\<exists>ms. attach_attachments no_faults st msgs = Inr ms \<and> map bare ms = map bare msgs"
proof -
  have "\<exists>ms'. attach_chunks no_faults st cs ms = Inr ms' \<and> map bare ms' = map bare ms" for cs ms
  proof (induction cs arbitrary: ms)
    case (Cons c cs)
    let ?ms = "write_back (by_message (zip (chunk_rows st c) (chunk_rows st c))) c ms"
    have "attach_chunks no_faults st (c # cs) ms = attach_chunks no_faults st cs ?ms"
      using scan_chunk_rows [OF assms, of c] by (simp add: no_faults_simp Let_def)
    moreover have "map bare ?ms = map bare ms" by (rule bare_write_back)
    ultimately show ?case using Cons.IH [of ?ms] by metis
  qed simp
  then show ?thesis by (simp add: attach_attachments_def)
qed

text \<open>The messages of one thread, oldest first, as the rows have them.\<close>

definition newest_rows :: "store \<Rightarrow> extension \<Rightarrow> thread_id \<Rightarrow> message_row list" where
  "newest_rows st ext tid = rev (take export_limit (transcript_rows st ext tid))"

definition tells :: "message_row \<Rightarrow> export_message \<Rightarrow> bool" where
  "tells r x \<longleftrightarrow>
     xm_body x = mr_body r \<and> xm_direction x = mr_direction r \<and> xm_status x = mr_status r \<and>
     xm_created x = time_unix (mr_created r)"

lemma scan_tells:
  assumes "valid_message_row r" "scan_message r = Inr m" "bare m' = bare m"
  shows "tells r (message_out m')"
proof -
  have "msg_body m' = msg_body m" "msg_direction m' = msg_direction m" "msg_status m' = msg_status m"
      "msg_created m' = msg_created m"
    using assms(3) by (cases m; cases m'; simp add: bare_def)+
  moreover have "direction_string (msg_direction m) = mr_direction r" "status_string (msg_status m) = mr_status r"
      "msg_body m = mr_body r" "msg_created m = time_unix (mr_created r)"
    using assms(1,2) by (auto simp: scan_message_def valid_message_row_def must_def split: sum.splits)
  ultimately show ?thesis by (simp add: tells_def message_out_def)
qed

lemma list_messages_tells:
  assumes inv: "store_inv st"
  shows "\<exists>ms. list_messages no_faults st ext tid export_limit = Inr ms \<and>
    list_all2 tells (newest_rows st ext tid) (map message_out ms)"
proof -
  let ?rows = "take export_limit (transcript_rows st ext tid)"
  have sub: "set ?rows \<subseteq> set (transcript_rows st ext tid)" by (rule set_take_subset)
  from scan_rows_view [OF inv sub] obtain ms where ms: "scan_all scan_message ?rows = Inr ms" by blast
  from attach_bare [OF inv, of ms] obtain ms' where
    ms': "attach_attachments no_faults st ms = Inr ms'" "map bare ms' = map bare ms" by blast
  have len: "length ms' = length ms" "length ms = length ?rows"
    using ms'(2) scan_all_length [OF ms] by (metis length_map, simp)
  have "tells (?rows ! i) (message_out (ms' ! i))" if "i < length ?rows" for i
  proof (rule scan_tells)
    show "valid_message_row (?rows ! i)"
      using transcript_rows_valid [OF inv] sub that by (meson nth_mem subset_iff)
    show "scan_message (?rows ! i) = Inr (ms ! i)" using scan_all_nth [OF ms that] .
    show "bare (ms' ! i) = bare (ms ! i)" using ms'(2) len that by (metis length_map nth_map)
  qed
  then have "list_all2 tells ?rows (map message_out ms')" using len by (auto simp: list_all2_conv_all_nth)
  then have "list_all2 tells (newest_rows st ext tid) (map message_out (rev ms'))"
    by (simp add: newest_rows_def rev_map [symmetric])
  with ms(1) ms'(1) show ?thesis by (simp add: list_messages_def)
qed

definition shows_thread :: "store \<Rightarrow> extension \<Rightarrow> thread_row \<Rightarrow> export_thread \<Rightarrow> bool" where
  "shows_thread st ext t x \<longleftrightarrow>
     xt_remote x = tr_remote t \<and> xt_unread x = tr_unread t \<and>
     list_all2 tells (newest_rows st ext (tr_id t)) (xt_messages x)"

definition active_rows :: "store \<Rightarrow> extension \<Rightarrow> thread_row list" where
  "active_rows st ext =
     thread_order (filter (\<lambda>t. tr_owner t = ext_string ext \<and> tr_archived t = 0) (st_threads st))"

lemma summary_fields:
  assumes "valid_thread_row t" "scan_summary fl st t = Inr v"
  shows "thr_id (sum_thread v) = tr_id t" "addr_value (thr_remote (sum_thread v)) = tr_remote t"
    "thr_unread (sum_thread v) = tr_unread t"
proof -
  obtain thr where "scan_thread t = Inr thr" "thr_id thr = tr_id t" "addr_value (thr_remote thr) = tr_remote t"
      "thr_unread thr = tr_unread t"
    using scan_valid_thread_row [OF assms(1)] by auto
  with assms(2) show "thr_id (sum_thread v) = tr_id t" "addr_value (thr_remote (sum_thread v)) = tr_remote t"
      "thr_unread (sum_thread v) = tr_unread t"
    by (auto simp: scan_summary_def split: if_splits option.splits sum.splits)
qed

lemma export_threads_show:
  assumes inv: "store_inv st" and "set ts \<subseteq> set (st_threads st)"
    and "scan_all (scan_summary no_faults st) ts = Inr vs"
  shows "\<exists>xs. export_threads no_faults st ext vs = Inr xs \<and> list_all2 (shows_thread st ext) ts xs"
  using assms(2,3)
proof (induction ts arbitrary: vs)
  case (Cons t ts)
  then obtain v vs' where v: "scan_summary no_faults st t = Inr v" "vs = v # vs'"
      "scan_all (scan_summary no_faults st) ts = Inr vs'"
    by (auto split: sum.splits)
  have "valid_thread_row t" using inv Cons.prems(1) by (simp add: store_inv_def)
  note f = summary_fields [OF this v(1)]
  from list_messages_tells [OF inv] obtain ms where
    ms: "list_messages no_faults st ext (tr_id t) export_limit = Inr ms"
      "list_all2 tells (newest_rows st ext (tr_id t)) (map message_out ms)" by blast
  from Cons.IH [OF _ v(3)] Cons.prems(1) obtain xs where
    "export_threads no_faults st ext vs' = Inr xs" "list_all2 (shows_thread st ext) ts xs" by auto
  with ms f v(2) show ?case by (simp add: shows_thread_def [of st ext t])
qed simp

lemma list_threads_active:
  assumes "store_inv st"
  shows "\<exists>vs. list_threads no_faults st ext = Inr vs \<and>
    (\<exists>xs. export_threads no_faults st ext vs = Inr xs \<and> list_all2 (shows_thread st ext) (active_rows st ext) xs)"
proof -
  have sub: "set (active_rows st ext) \<subseteq> set (st_threads st)" by (auto simp: active_rows_def)
  from summaries_ok [OF assms sub] obtain vs where
    "scan_all (scan_summary no_faults st) (active_rows st ext) = Inr vs" by blast
  with export_threads_show [OF assms sub this, of ext] show ?thesis
    by (simp add: list_threads_def active_rows_def)
qed

text \<open>A text that is not UTF-8, anywhere in what is exported of the threads, spoils the document.\<close>

lemma spoiled:
  assumes "list_all2 (shows_thread st ext) ts xs" "t \<in> set ts" "r \<in> set (newest_rows st ext (tr_id t))"
    and "\<not> valid_utf8 (mr_body r)"
  shows "\<not> renders thread_texts xs"
proof -
  from assms(1,2) obtain x where x: "x \<in> set xs" "shows_thread st ext t x"
    by (metis in_set_conv_nth list_all2_conv_all_nth)
  then obtain m where "m \<in> set (xt_messages x)" "tells r m"
    using assms(3) unfolding shows_thread_def by (metis in_set_conv_nth list_all2_conv_all_nth)
  with assms(4) x(1) show ?thesis
    by (force simp: renders_def list_all_iff thread_texts_def message_texts_def tells_def)
qed


text \<open>The sample conversation, archived by its owner.\<close>

definition archived_store :: store where
  "archived_store =
     snd (set_thread_flag no_faults (Extension ''1001'') ''thread-00000000000001'' ''archived'' True sample_store)"

definition archived_world ::
  "((string \<times> fax_view) list \<times> string list, (contact_key \<times> contact_view) list, unit) export_world" where
  "archived_world = \<lparr>ew_store = archived_store, ew_faxes = ([], []), ew_contacts = [], ew_transcripts = ()\<rparr>"


end
