(* ===== verification/Reports.thy ===== *)
theory Reports
  imports Ids "HOL-Library.Word" "HOL-Library.List_Lexorder" "HOL-Library.Product_Lexorder"
begin

text \<open>
  The call report of \<^verbatim>\<open>internal/reports/reports.go\<close>: a fold of the phone API's call records
  into totals, days, hours of the day, contacts and the current week. A zone is its offset
  from UTC, in seconds, at every unix second (the data of the zone database); what the source
  uses of Go's \<^verbatim>\<open>time\<close> package is defined here on it. A talk time is Go's 64-bit duration in
  nanoseconds, so it is a word, compared as a signed number. The day of an instant is the
  number of its local date, counted from 1970-01-01; the source keys its map with the text
  of the date.
\<close>

section \<open>Instants in a zone\<close>

type_synonym zone = "int \<Rightarrow> int"

definition utc :: zone where "utc u = 0"

definition local_seconds :: "zone \<Rightarrow> time \<Rightarrow> int" where
  "local_seconds z t = unix t + z (unix t)"

definition local_day :: "zone \<Rightarrow> time \<Rightarrow> int" where
  "local_day z t = local_seconds z t div 86400"

definition local_hour :: "zone \<Rightarrow> time \<Rightarrow> nat" where
  "local_hour z t = nat (local_seconds z t mod 86400 div 3600)"

text \<open>\<^verbatim>\<open>time.Date\<close>: the offset is looked up at the local text read as UTC, then once more.\<close>

definition date_in :: "zone \<Rightarrow> int \<Rightarrow> time" where
  "date_in z u = time_unix (u - z (u - z u))"

text \<open>\<^verbatim>\<open>AddDate(0, 0, k)\<close>: the same clock \<open>k\<close> local days later.\<close>

definition add_days :: "zone \<Rightarrow> int \<Rightarrow> time \<Rightarrow> time" where
  "add_days z k t = date_in z (local_seconds z t + 86400 * k)"

text \<open>Sunday is 0; the day number 0 was a Thursday.\<close>

definition weekday :: "zone \<Rightarrow> time \<Rightarrow> int" where
  "weekday z t = (local_day z t + 4) mod 7"

section \<open>The start of a record\<close>

definition leap_year :: "int \<Rightarrow> bool" where
  "leap_year y \<longleftrightarrow> y mod 4 = 0 \<and> (y mod 100 \<noteq> 0 \<or> y mod 400 = 0)"

definition month_days :: "int \<Rightarrow> int \<Rightarrow> int" where
  "month_days y m =
     (if m = 2 then (if leap_year y then 29 else 28) else if m \<in> {4, 6, 9, 11} then 30 else 31)"

definition days_before_month :: "int \<Rightarrow> int \<Rightarrow> int" where
  "days_before_month y m = sum_list (map (month_days y) [1..m - 1])"

definition day_number :: "int \<Rightarrow> int \<Rightarrow> int \<Rightarrow> int" where
  "day_number y m d =
     365 * (y - 1) + (y - 1) div 4 - (y - 1) div 100 + (y - 1) div 400 + days_before_month y m + (d - 1) - 719162"

definition digit :: "char \<Rightarrow> int" where
  "digit c = of_char c - 48"

text \<open>\<^verbatim>\<open>getnum\<close>: two digits, or one where the layout does not insist.\<close>

fun getnum :: "bool \<Rightarrow> string \<Rightarrow> (int \<times> string) option" where
  "getnum insist [] = None"
| "getnum insist (a # s) =
     (if \<not> is_digit_char a then None
      else
        (case s of
           b # s' \<Rightarrow>
             if is_digit_char b then Some (digit a * 10 + digit b, s')
             else if insist then None else Some (digit a, s)
         | [] \<Rightarrow> if insist then None else Some (digit a, s)))"

definition literal :: "char \<Rightarrow> string \<Rightarrow> string option" where
  "literal c s = (case s of [] \<Rightarrow> None | a # s' \<Rightarrow> if a = c then Some s' else None)"

text \<open>A blank of the layout takes any number of blanks, none at the end of the text.\<close>

definition blanks :: "string \<Rightarrow> string option" where
  "blanks s = (if s \<noteq> [] \<and> hd s \<noteq> CHR '' '' then None else Some (dropWhile (\<lambda>c. c = CHR '' '') s))"

definition long_year :: "string \<Rightarrow> (int \<times> string) option" where
  "long_year s =
     (if length s < 4 \<or> \<not> list_all is_digit_char (take 4 s) then None
      else Some (fold (\<lambda>c n. n * 10 + digit c) (take 4 s) 0, drop 4 s))"

definition bounded :: "int \<Rightarrow> int \<Rightarrow> (int \<times> string) option \<Rightarrow> (int \<times> string) option" where
  "bounded lo hi r = (case r of None \<Rightarrow> None | Some (n, s) \<Rightarrow> if lo \<le> n \<and> n \<le> hi then Some (n, s) else None)"

text \<open>\<^verbatim>\<open>time.ParseInLocation\<close> with the layout \<^verbatim>\<open>2006-01-02 15:04\<close>, as local seconds.\<close>

definition read_start :: "string \<Rightarrow> int option" where
  "read_start raw =
     Option.bind (long_year raw) (\<lambda>(y, s0).
     Option.bind (literal (CHR ''-'') s0) (\<lambda>s1.
     Option.bind (bounded 1 12 (getnum True s1)) (\<lambda>(mo, s2).
     Option.bind (literal (CHR ''-'') s2) (\<lambda>s3.
     Option.bind (getnum True s3) (\<lambda>(d, s4).
     Option.bind (blanks s4) (\<lambda>s5.
     Option.bind (bounded 0 23 (getnum False s5)) (\<lambda>(h, s6).
     Option.bind (literal (CHR '':'') s6) (\<lambda>s7.
     Option.bind (bounded 0 59 (getnum True s7)) (\<lambda>(mi, s8).
       if s8 \<noteq> [] \<or> d < 1 \<or> month_days y mo < d then None
       else Some (day_number y mo d * 86400 + h * 3600 + mi * 60))))))))))"

definition parse_start :: "zone \<Rightarrow> string \<Rightarrow> time option" where
  "parse_start z raw = (if raw = [] then None else map_option (date_in z) (read_start raw))"

section \<open>The report\<close>

record cdr =
  cdr_context :: string
  cdr_caller :: string
  cdr_name :: string
  cdr_destination :: string
  cdr_start :: string
  cdr_billsec :: int

type_synonym talk = "64 word"

record totals =
  tot_calls :: nat
  tot_inbound :: nat
  tot_outbound :: nat
  tot_answered :: nat
  tot_missed :: nat
  tot_talk :: talk

record day =
  day_date :: time
  day_totals :: totals

record hour =
  hr_hour :: nat
  hr_calls :: nat
  hr_talk :: talk

record party =
  pt_number :: string
  pt_calls :: nat
  pt_talk :: talk

record week =
  wk_start :: time
  wk_calls :: nat
  wk_talk :: talk
  wk_budget :: talk

record report =
  rep_totals :: totals
  rep_days :: "day list"
  rep_hours :: "hour list"
  rep_contacts :: "party list"
  rep_week :: week
  rep_undated :: nat

definition hours_in_day :: nat where "hours_in_day = 24"

definition no_calls :: totals where
  "no_calls = \<lparr>tot_calls = 0, tot_inbound = 0, tot_outbound = 0, tot_answered = 0, tot_missed = 0, tot_talk = 0\<rparr>"

definition seconds_to_duration :: "int \<Rightarrow> talk" where
  "seconds_to_duration s = (if s \<le> 0 then 0 else of_int s * of_int second)"

definition inbound :: "cdr \<Rightarrow> bool" where
  "inbound c \<longleftrightarrow> cdr_context c = ''public''"

definition remote_of :: "cdr \<Rightarrow> string" where
  "remote_of c = (if inbound c then cdr_caller c else cdr_destination c)"

text \<open>One record in the counters that the whole window and a day share.\<close>

definition count_call :: "cdr \<Rightarrow> totals \<Rightarrow> totals" where
  "count_call c t =
     \<lparr>tot_calls = tot_calls t + 1,
      tot_inbound = tot_inbound t + (if inbound c then 1 else 0),
      tot_outbound = tot_outbound t + (if inbound c then 0 else 1),
      tot_answered = tot_answered t + (if cdr_billsec c > 0 then 1 else 0),
      tot_missed = tot_missed t + (if \<not> cdr_billsec c > 0 \<and> inbound c then 1 else 0),
      tot_talk = tot_talk t + seconds_to_duration (cdr_billsec c)\<rparr>"

text \<open>A map as the list of its entries, in the order they were made.\<close>

fun bump :: "'k \<Rightarrow> 'v \<Rightarrow> ('v \<Rightarrow> 'v) \<Rightarrow> ('k \<times> 'v) list \<Rightarrow> ('k \<times> 'v) list" where
  "bump k new f [] = [(k, f new)]"
| "bump k new f ((j, v) # m) = (if j = k then (j, f v) # m else (j, v) # bump k new f m)"

definition week_start_of :: "zone \<Rightarrow> time \<Rightarrow> time" where
  "week_start_of z now =
     (if now = zero_time then zero_time
      else
        (let midnight = date_in z (local_day z now * 86400) in
         add_days z (- ((weekday z midnight + 6) mod 7)) midnight))"

record report_fold =
  fd_totals :: totals
  fd_days :: "(int \<times> day) list"
  fd_hours :: "hour list"
  fd_parties :: "(string \<times> party) list"
  fd_week_calls :: nat
  fd_week_talk :: talk
  fd_undated :: nat

definition in_week :: "zone \<Rightarrow> time \<Rightarrow> time \<Rightarrow> bool" where
  "in_week z start t \<longleftrightarrow> start \<noteq> zero_time \<and> start \<le> t \<and> t < add_days z 7 start"

definition fold_cdr :: "zone \<Rightarrow> time \<Rightarrow> cdr \<Rightarrow> report_fold \<Rightarrow> report_fold" where
  "fold_cdr z start c s =
     (let talk = seconds_to_duration (cdr_billsec c);
          s1 = s\<lparr>fd_totals := count_call c (fd_totals s),
                 fd_parties :=
                   (if remote_of c = [] then fd_parties s
                    else bump (remote_of c) \<lparr>pt_number = remote_of c, pt_calls = 0, pt_talk = 0\<rparr>
                      (\<lambda>p. p\<lparr>pt_calls := pt_calls p + 1, pt_talk := pt_talk p + talk\<rparr>) (fd_parties s))\<rparr> in
      case parse_start z (cdr_start c) of
        None \<Rightarrow> s1\<lparr>fd_undated := fd_undated s + 1\<rparr>
      | Some t \<Rightarrow>
          s1\<lparr>fd_days :=
               bump (local_day z t) \<lparr>day_date = t, day_totals = no_calls\<rparr>
                 (\<lambda>d. d\<lparr>day_totals := count_call c (day_totals d)\<rparr>) (fd_days s),
             fd_hours :=
               (fd_hours s)[local_hour z t :=
                  (fd_hours s ! local_hour z t)\<lparr>hr_calls := hr_calls (fd_hours s ! local_hour z t) + 1,
                    hr_talk := hr_talk (fd_hours s ! local_hour z t) + talk\<rparr>],
             fd_week_calls := fd_week_calls s + (if in_week z start t then 1 else 0),
             fd_week_talk := fd_week_talk s + (if in_week z start t then talk else 0)\<rparr>)"

definition no_records :: report_fold where
  "no_records =
     \<lparr>fd_totals = no_calls, fd_days = [],
      fd_hours = map (\<lambda>h. \<lparr>hr_hour = h, hr_calls = 0, hr_talk = 0\<rparr>) [0..<hours_in_day], fd_parties = [],
      fd_week_calls = 0, fd_week_talk = 0, fd_undated = 0\<rparr>"

definition party_rank :: "party \<Rightarrow> int \<times> int \<times> string" where
  "party_rank p = (- sint (pt_talk p), - int (pt_calls p), pt_number p)"

definition hour_rank :: "hour \<Rightarrow> int \<times> int \<times> nat" where
  "hour_rank h = (- int (hr_calls h), - sint (hr_talk h), hr_hour h)"

definition aggregate :: "zone option \<Rightarrow> time \<Rightarrow> talk \<Rightarrow> cdr list \<Rightarrow> report" where
  "aggregate location now budget entries =
     (let z = (case location of None \<Rightarrow> utc | Some z \<Rightarrow> z);
          start = week_start_of z now;
          s = fold (fold_cdr z start) entries no_records in
      \<lparr>rep_totals = fd_totals s,
       rep_days = sort_key day_date (map snd (fd_days s)),
       rep_hours = fd_hours s,
       rep_contacts = sort_key party_rank (map snd (fd_parties s)),
       rep_week = \<lparr>wk_start = start, wk_calls = fd_week_calls s, wk_talk = fd_week_talk s, wk_budget = budget\<rparr>,
       rep_undated = fd_undated s\<rparr>)"

definition over_budget :: "week \<Rightarrow> bool" where
  "over_budget w \<longleftrightarrow> 0 <s wk_budget w \<and> wk_budget w <s wk_talk w"

definition top_contacts :: "int \<Rightarrow> report \<Rightarrow> party list" where
  "top_contacts limit r = (if limit \<le> 0 \<or> rep_contacts r = [] then [] else take (nat limit) (rep_contacts r))"

definition busiest_hours :: "report \<Rightarrow> hour list" where
  "busiest_hours r = sort_key hour_rank (filter (\<lambda>h. hr_calls h > 0) (rep_hours r))"

definition max_day_talk :: "report \<Rightarrow> talk" where
  "max_day_talk r = fold (\<lambda>d m. if m <s tot_talk (day_totals d) then tot_talk (day_totals d) else m) (rep_days r) 0"

section \<open>The report as sums\<close>

text \<open>The counters of a list of records, and the rows of a report, each from the records that belong to it.\<close>

definition tally_of :: "cdr list \<Rightarrow> totals" where
  "tally_of cs =
     \<lparr>tot_calls = length cs, tot_inbound = length (filter inbound cs),
      tot_outbound = length (filter (\<lambda>c. \<not> inbound c) cs),
      tot_answered = length (filter (\<lambda>c. cdr_billsec c > 0) cs),
      tot_missed = length (filter (\<lambda>c. \<not> cdr_billsec c > 0 \<and> inbound c) cs),
      tot_talk = sum_list (map (\<lambda>c. seconds_to_duration (cdr_billsec c)) cs)\<rparr>"

definition started :: "zone \<Rightarrow> cdr \<Rightarrow> time option" where
  "started z c = parse_start z (cdr_start c)"

definition starts :: "zone \<Rightarrow> cdr list \<Rightarrow> time list" where
  "starts z cs = map the (filter (\<lambda>r. r \<noteq> None) (map (started z) cs))"

definition on_day :: "zone \<Rightarrow> int \<Rightarrow> cdr \<Rightarrow> bool" where
  "on_day z k c \<longleftrightarrow> map_option (local_day z) (started z c) = Some k"

definition at_hour :: "zone \<Rightarrow> nat \<Rightarrow> cdr \<Rightarrow> bool" where
  "at_hour z h c \<longleftrightarrow> map_option (local_hour z) (started z c) = Some h"

definition this_week :: "zone \<Rightarrow> time \<Rightarrow> cdr \<Rightarrow> bool" where
  "this_week z start c \<longleftrightarrow> (case started z c of None \<Rightarrow> False | Some t \<Rightarrow> in_week z start t)"

definition talk_of :: "cdr list \<Rightarrow> talk" where
  "talk_of cs = sum_list (map (\<lambda>c. seconds_to_duration (cdr_billsec c)) cs)"

definition hour_row :: "zone \<Rightarrow> cdr list \<Rightarrow> nat \<Rightarrow> hour" where
  "hour_row z cs h =
     \<lparr>hr_hour = h, hr_calls = length (filter (at_hour z h) cs), hr_talk = talk_of (filter (at_hour z h) cs)\<rparr>"

definition party_row :: "cdr list \<Rightarrow> string \<Rightarrow> party" where
  "party_row cs n =
     \<lparr>pt_number = n, pt_calls = length (filter (\<lambda>c. remote_of c = n) cs),
      pt_talk = talk_of (filter (\<lambda>c. remote_of c = n) cs)\<rparr>"

definition day_row :: "zone \<Rightarrow> cdr list \<Rightarrow> int \<Rightarrow> day" where
  "day_row z cs k =
     \<lparr>day_date = hd (filter (\<lambda>t. local_day z t = k) (starts z cs)), day_totals = tally_of (filter (on_day z k) cs)\<rparr>"

text \<open>The different elements of a list in the order of their first occurrence.\<close>

definition firsts :: "'a list \<Rightarrow> 'a list" where
  "firsts xs = rev (remdups (rev xs))"

lemma firsts_snoc: "firsts (xs @ [x]) = (if x \<in> set xs then firsts xs else firsts xs @ [x])"
  by (simp add: firsts_def)

lemma firsts_facts [simp]: "firsts [] = []" "set (firsts xs) = set xs" "distinct (firsts xs)"
  by (simp_all add: firsts_def)

lemma bump_map:
  "distinct ks \<Longrightarrow> bump k new f (map (\<lambda>j. (j, g j)) ks) =
     map (\<lambda>j. (j, if j = k then f (if k \<in> set ks then g k else new) else g j)) (if k \<in> set ks then ks else ks @ [k])"
  by (induction ks) auto

lemma bump_rows:
  assumes "distinct ks" "\<And>j. j \<noteq> k \<Longrightarrow> g' j = g j" "k \<in> set ks \<Longrightarrow> g' k = f (g k)" "k \<notin> set ks \<Longrightarrow> g' k = f new"
  shows "bump k new f (map (\<lambda>j. (j, g j)) ks) = map (\<lambda>j. (j, g' j)) (if k \<in> set ks then ks else ks @ [k])"
  using assms by (simp add: bump_map)

definition named :: "cdr list \<Rightarrow> string list" where
  "named cs = filter (\<lambda>n. n \<noteq> []) (map remote_of cs)"

definition folded_of :: "zone \<Rightarrow> time \<Rightarrow> cdr list \<Rightarrow> report_fold" where
  "folded_of z start cs =
     \<lparr>fd_totals = tally_of cs,
      fd_days = map (\<lambda>k. (k, day_row z cs k)) (firsts (map (local_day z) (starts z cs))),
      fd_hours = map (hour_row z cs) [0..<hours_in_day],
      fd_parties = map (\<lambda>n. (n, party_row cs n)) (firsts (named cs)),
      fd_week_calls = length (filter (this_week z start) cs), fd_week_talk = talk_of (filter (this_week z start) cs),
      fd_undated = length (filter (\<lambda>c. started z c = None) cs)\<rparr>"

lemma tally_snoc: "tally_of (cs @ [c]) = count_call c (tally_of cs)"
  by (simp add: tally_of_def count_call_def)

lemma talk_of_snoc [simp]: "talk_of (cs @ [c]) = talk_of cs + seconds_to_duration (cdr_billsec c)"
  by (simp add: talk_of_def)

lemma starts_snoc: "starts z (cs @ [c]) = starts z cs @ (case started z c of None \<Rightarrow> [] | Some t \<Rightarrow> [t])"
  by (simp add: starts_def split: option.split)

lemma tally_Nil: "tally_of [] = no_calls"
  by (simp add: tally_of_def no_calls_def)

lemma tally_one: "tally_of [c] = count_call c no_calls"
  using tally_snoc [of "[]" c] by (simp add: tally_Nil)

lemma parties_snoc:
  "(if remote_of c = [] then fd_parties (folded_of z start cs)
    else bump (remote_of c) \<lparr>pt_number = remote_of c, pt_calls = 0, pt_talk = 0\<rparr>
      (\<lambda>p. p\<lparr>pt_calls := pt_calls p + 1, pt_talk := pt_talk p + seconds_to_duration (cdr_billsec c)\<rparr>)
      (fd_parties (folded_of z start cs)))
   = fd_parties (folded_of z start (cs @ [c]))"
proof (cases "remote_of c = []")
  case True
  have "party_row (cs @ [c]) n = party_row cs n" if "n \<in> set (named cs)" for n
    using that True by (auto simp: party_row_def named_def)
  with True show ?thesis by (simp add: folded_of_def named_def)
next
  case False
  have fresh: "remote_of c \<notin> set (named cs) \<Longrightarrow> filter (\<lambda>d. remote_of d = remote_of c) cs = []"
    using False by (auto simp: named_def filter_empty_conv image_iff)
  have "bump (remote_of c) \<lparr>pt_number = remote_of c, pt_calls = 0, pt_talk = 0\<rparr>
      (\<lambda>p. p\<lparr>pt_calls := pt_calls p + 1, pt_talk := pt_talk p + seconds_to_duration (cdr_billsec c)\<rparr>)
      (map (\<lambda>n. (n, party_row cs n)) (firsts (named cs)))
    = map (\<lambda>n. (n, party_row (cs @ [c]) n))
        (if remote_of c \<in> set (firsts (named cs)) then firsts (named cs) else firsts (named cs) @ [remote_of c])"
    by (rule bump_rows) (use fresh in \<open>auto simp: party_row_def talk_of_def\<close>)
  moreover have "named (cs @ [c]) = named cs @ [remote_of c]" using False by (simp add: named_def)
  ultimately show ?thesis using False by (simp add: folded_of_def firsts_snoc)
qed

lemma local_hour_less: "local_hour z t < hours_in_day"
proof -
  have "local_seconds z t mod 86400 < 86400" by simp
  then have "local_seconds z t mod 86400 div 3600 < 24" by linarith
  then show ?thesis by (simp add: local_hour_def hours_in_day_def nat_less_iff)
qed

lemma hours_snoc:
  assumes "started z c = Some t"
  shows "(map (hour_row z cs) [0..<hours_in_day])[local_hour z t := (hour_row z cs (local_hour z t))
      \<lparr>hr_calls := hr_calls (hour_row z cs (local_hour z t)) + 1,
       hr_talk := hr_talk (hour_row z cs (local_hour z t)) + seconds_to_duration (cdr_billsec c)\<rparr>]
    = map (hour_row z (cs @ [c])) [0..<hours_in_day]"
  using assms local_hour_less [of z t]
  by (intro nth_equalityI) (auto simp: nth_list_update hour_row_def at_hour_def)

lemma days_snoc:
  assumes "started z c = Some t"
  shows "bump (local_day z t) \<lparr>day_date = t, day_totals = no_calls\<rparr>
      (\<lambda>d. d\<lparr>day_totals := count_call c (day_totals d)\<rparr>) (fd_days (folded_of z start cs))
    = fd_days (folded_of z start (cs @ [c]))"
proof -
  let ?days = "map (local_day z) (starts z cs)"
  have none: "filter (\<lambda>u. local_day z u = local_day z t) (starts z cs) = []"
      "filter (on_day z (local_day z t)) cs = []" if "local_day z t \<notin> set ?days"
    using that by (auto simp: filter_empty_conv starts_def on_day_def image_iff)
  have some: "filter (\<lambda>u. local_day z u = local_day z t) (starts z cs) \<noteq> []" if "local_day z t \<in> set ?days"
    using that by (auto simp: filter_empty_conv)
  have "bump (local_day z t) \<lparr>day_date = t, day_totals = no_calls\<rparr>
      (\<lambda>d. d\<lparr>day_totals := count_call c (day_totals d)\<rparr>) (map (\<lambda>k. (k, day_row z cs k)) (firsts ?days))
    = map (\<lambda>k. (k, day_row z (cs @ [c]) k))
        (if local_day z t \<in> set (firsts ?days) then firsts ?days else firsts ?days @ [local_day z t])"
    by (rule bump_rows)
      (use none some assms in \<open>auto simp: day_row_def starts_snoc on_day_def tally_snoc tally_one tally_Nil\<close>)
  with assms show ?thesis by (simp add: folded_of_def starts_snoc firsts_snoc)
qed

lemma folded_snoc: "fold_cdr z start c (folded_of z start cs) = folded_of z start (cs @ [c])"
proof (cases "started z c")
  case None
  then have "parse_start z (cdr_start c) = None" by (simp add: started_def)
  moreover have "fd_days (folded_of z start (cs @ [c])) = fd_days (folded_of z start cs)"
      "fd_hours (folded_of z start (cs @ [c])) = fd_hours (folded_of z start cs)"
    using None by (simp_all add: folded_of_def starts_snoc day_row_def hour_row_def on_day_def at_hour_def)
  ultimately show ?thesis using None parties_snoc [of c z start cs]
    by (simp add: fold_cdr_def Let_def) (simp add: folded_of_def tally_snoc this_week_def)
next
  case (Some t)
  then have "parse_start z (cdr_start c) = Some t" by (simp add: started_def)
  with Some parties_snoc [of c z start cs] days_snoc [OF Some, of start cs] hours_snoc [OF Some, of cs]
  show ?thesis using local_hour_less [of z t]
    by (simp add: fold_cdr_def Let_def) (simp add: folded_of_def tally_snoc this_week_def)
qed

lemma folded_all: "fold (fold_cdr z start) cs no_records = folded_of z start cs"
proof (induction cs rule: rev_induct)
  case Nil
  show ?case
    by (simp add: no_records_def folded_of_def tally_Nil starts_def named_def hour_row_def talk_of_def cong: map_cong)
next
  case (snoc c cs)
  then show ?case by (simp add: folded_snoc)
qed

section \<open>Nothing counted twice, nothing depends on the order\<close>

lemma sum_choice:
  "distinct ks \<Longrightarrow> (\<Sum>k\<leftarrow>ks. if x = Some k then v else (0::'a::comm_monoid_add)) = (if \<exists>k \<in> set ks. x = Some k then v else 0)"
  by (induction ks) auto

lemma sum_partition:
  fixes w :: "'c \<Rightarrow> 'a::comm_monoid_add"
  assumes "distinct ks"
  shows "(\<Sum>k\<leftarrow>ks. sum_list (map w (filter (\<lambda>c. f c = Some k) cs))) =
    sum_list (map w (filter (\<lambda>c. \<exists>k \<in> set ks. f c = Some k) cs))"
proof (induction cs)
  case (Cons c cs)
  have "(\<Sum>k\<leftarrow>ks. sum_list (map w (filter (\<lambda>c. f c = Some k) (c # cs)))) =
      (\<Sum>k\<leftarrow>ks. (if f c = Some k then w c else 0) + sum_list (map w (filter (\<lambda>c. f c = Some k) cs)))"
    by (intro arg_cong [of _ _ sum_list] map_cong) auto
  also have "\<dots> = (\<Sum>k\<leftarrow>ks. if f c = Some k then w c else 0) +
      (\<Sum>k\<leftarrow>ks. sum_list (map w (filter (\<lambda>c. f c = Some k) cs)))"
    by (rule sum_list_addf)
  finally show ?case using sum_choice [OF assms, of "f c" "w c"] Cons by simp
qed simp

lemma sum_split:
  fixes w :: "'c \<Rightarrow> 'a::comm_monoid_add"
  shows "sum_list (map w (filter P cs)) + sum_list (map w (filter (\<lambda>c. \<not> P c) cs)) = sum_list (map w cs)"
  by (induction cs) (simp_all add: ac_simps)

lemma sum_mset_cong: "mset xs = mset ys \<Longrightarrow> sum_list (map g xs) = sum_list (map (g :: 'c \<Rightarrow> 'a::comm_monoid_add) ys)"
  by (metis mset_map sum_mset_sum_list)

lemma filter_mset_cong: "mset xs = mset ys \<Longrightarrow> mset (filter P xs) = mset (filter P ys)"
  by (metis mset_filter)

lemma length_filter_mset: "mset xs = mset ys \<Longrightarrow> length (filter P xs) = length (filter P ys)"
  by (metis filter_mset_cong mset_eq_length)

lemma talk_mset: "mset xs = mset ys \<Longrightarrow> talk_of (filter P xs) = talk_of (filter P ys)"
  unfolding talk_of_def by (intro sum_mset_cong filter_mset_cong)

lemma tally_mset: "mset xs = mset ys \<Longrightarrow> tally_of xs = tally_of ys"
  using length_filter_mset sum_mset_cong mset_eq_length by (auto simp: tally_of_def intro!: length_filter_mset sum_mset_cong)

lemma party_rank_inj: "inj party_rank"
  by (rule injI) (auto simp: party_rank_def intro: signed_word_eqI party.equality)

lemma starts_set: "set (starts z cs) = {t. \<exists>c \<in> set cs. started z c = Some t}"
  by (force simp: starts_def)

definition days_of :: "zone \<Rightarrow> cdr list \<Rightarrow> int list" where
  "days_of z cs = firsts (map (local_day z) (starts z cs))"

lemma day_of_row:
  assumes "k \<in> set (days_of z cs)"
  shows "local_day z (day_date (day_row z cs k)) = k"
proof -
  from assms have "filter (\<lambda>t. local_day z t = k) (starts z cs) \<noteq> []"
    by (auto simp: days_of_def filter_empty_conv)
  then have "hd (filter (\<lambda>t. local_day z t = k) (starts z cs)) \<in> set (filter (\<lambda>t. local_day z t = k) (starts z cs))"
    by (rule hd_in_set)
  then show ?thesis by (simp add: day_row_def)
qed

lemma days_cover: "(\<exists>k \<in> set (days_of z cs). map_option (local_day z) (started z c) = Some k) \<longleftrightarrow> started z c \<noteq> None"
  if "c \<in> set cs"
  using that by (auto simp: days_of_def starts_set image_iff)

lemma day_sums:
  fixes w :: "cdr \<Rightarrow> 'a::comm_monoid_add"
  shows "(\<Sum>k\<leftarrow>days_of z cs. sum_list (map w (filter (on_day z k) cs))) +
    sum_list (map w (filter (\<lambda>c. started z c = None) cs)) = sum_list (map w cs)"
proof -
  have "distinct (days_of z cs)" by (simp add: days_of_def)
  from sum_partition [OF this, of w "\<lambda>c. map_option (local_day z) (started z c)" cs]
  have "(\<Sum>k\<leftarrow>days_of z cs. sum_list (map w (filter (on_day z k) cs))) =
      sum_list (map w (filter (\<lambda>c. \<exists>k \<in> set (days_of z cs). map_option (local_day z) (started z c) = Some k) cs))"
    by (simp add: on_day_def [abs_def])
  also have "\<dots> = sum_list (map w (filter (\<lambda>c. \<not> started z c = None) cs))"
    using days_cover by (intro arg_cong [where f = "\<lambda>xs. sum_list (map w xs)"] filter_cong) auto
  finally show ?thesis using sum_split [of w "\<lambda>c. started z c = None" cs] by (simp add: add.commute)
qed

lemma hour_sums:
  fixes w :: "cdr \<Rightarrow> 'a::comm_monoid_add"
  shows "(\<Sum>h\<leftarrow>[0..<hours_in_day]. sum_list (map w (filter (at_hour z h) cs))) +
    sum_list (map w (filter (\<lambda>c. started z c = None) cs)) = sum_list (map w cs)"
proof -
  have "(\<Sum>h\<leftarrow>[0..<hours_in_day]. sum_list (map w (filter (at_hour z h) cs))) =
      sum_list (map w (filter (\<lambda>c. \<exists>h \<in> set [0..<hours_in_day]. map_option (local_hour z) (started z c) = Some h) cs))"
    using sum_partition [of "[0..<hours_in_day]" w "\<lambda>c. map_option (local_hour z) (started z c)" cs]
    by (simp add: at_hour_def [abs_def])
  also have "\<dots> = sum_list (map w (filter (\<lambda>c. \<not> started z c = None) cs))"
    using local_hour_less by (intro arg_cong [where f = "\<lambda>xs. sum_list (map w xs)"] filter_cong) auto
  finally show ?thesis using sum_split [of w "\<lambda>c. started z c = None" cs] by (simp add: add.commute)
qed

text \<open>The report of a window, written with the sums.\<close>

lemma aggregate_sums:
  assumes "z = (case location of None \<Rightarrow> utc | Some z \<Rightarrow> z)" "start = week_start_of z now"
  shows "aggregate location now budget cs =
    \<lparr>rep_totals = tally_of cs, rep_days = sort_key day_date (map (day_row z cs) (days_of z cs)),
     rep_hours = map (hour_row z cs) [0..<hours_in_day],
     rep_contacts = sort_key party_rank (map (party_row cs) (firsts (named cs))),
     rep_week = \<lparr>wk_start = start, wk_calls = length (filter (this_week z start) cs),
                 wk_talk = talk_of (filter (this_week z start) cs), wk_budget = budget\<rparr>,
     rep_undated = length (filter (\<lambda>c. started z c = None) cs)\<rparr>"
  using assms by (simp add: aggregate_def Let_def folded_all folded_of_def days_of_def comp_def)

lemma sum_sorted: "(\<Sum>x\<leftarrow>sort_key f xs. g x) = (\<Sum>x\<leftarrow>xs. (g x :: 'a::comm_monoid_add))"
  by (rule sum_mset_cong) simp

lemma firsts_mset: "set xs = set ys \<Longrightarrow> mset (firsts xs) = mset (firsts ys)"
  by (simp add: set_eq_iff_mset_eq_distinct [symmetric])

lemma same_parties:
  assumes "mset cs' = mset cs"
  shows "sort_key party_rank (map (party_row cs') (firsts (named cs'))) =
    sort_key party_rank (map (party_row cs) (firsts (named cs)))"
proof (rule sort_key_inj_key_eq)
  have "party_row cs' = party_row cs"
    using length_filter_mset [OF assms] talk_mset [OF assms] by (intro ext) (simp add: party_row_def)
  moreover have "set (named cs') = set (named cs)"
    using mset_eq_setD [OF assms] by (simp add: named_def)
  then have "mset (firsts (named cs')) = mset (firsts (named cs))" by (rule firsts_mset)
  ultimately show "mset (map (party_row cs') (firsts (named cs'))) =
      mset (sort_key party_rank (map (party_row cs) (firsts (named cs))))" by simp
  show "inj_on party_rank (set (map (party_row cs') (firsts (named cs'))))"
    using party_rank_inj by (rule inj_on_subset) simp
qed simp

lemma day_views:
  "(\<lambda>d. (local_day z (day_date d), day_totals d)) ` set (sort_key day_date (map (day_row z cs) (days_of z cs))) =
     (\<lambda>k. (k, tally_of (filter (on_day z k) cs))) ` set (days_of z cs)"
  by (auto simp: image_image day_of_row) (auto simp: day_row_def image_iff)

lemma days_of_set: "set (days_of z cs) = {k. \<exists>c \<in> set cs. on_day z k c}"
  by (auto simp: days_of_def starts_set on_day_def image_iff)

lemma named_set: "set (named cs) = {n. n \<noteq> [] \<and> (\<exists>c \<in> set cs. remote_of c = n)}"
  by (auto simp: named_def)

lemma distinct_sorted: "distinct (map g xs) \<Longrightarrow> distinct (map g (sort_key f xs))"
  by (metis mset_sort mset_map mset_eq_imp_distinct_iff)

lemma distinct_days: "distinct (map (\<lambda>d. local_day z (day_date d)) (sort_key day_date (map (day_row z cs) (days_of z cs))))"
proof (rule distinct_sorted)
  have "map (\<lambda>k. local_day z (day_date (day_row z cs k))) (days_of z cs) = days_of z cs"
    by (intro map_idI day_of_row)
  moreover have "distinct (days_of z cs)" by (simp add: days_of_def)
  ultimately show "distinct (map (\<lambda>d. local_day z (day_date d)) (map (day_row z cs) (days_of z cs)))"
    by (simp add: comp_def)
qed

lemma distinct_parties: "distinct (map pt_number (sort_key party_rank (map (party_row cs) (firsts (named cs)))))"
  by (rule distinct_sorted) (simp add: comp_def party_row_def)

lemma length_sum: "length xs = sum_list (map (\<lambda>_. Suc 0) xs)"
  by (induction xs) simp_all

lemma conserved:
  "(\<Sum>d\<leftarrow>sort_key day_date (map (day_row z cs) (days_of z cs)). tot_calls (day_totals d)) +
     length (filter (\<lambda>c. started z c = None) cs) = length cs"
  "(\<Sum>h\<leftarrow>map (hour_row z cs) [0..<hours_in_day]. hr_calls h) + length (filter (\<lambda>c. started z c = None) cs) = length cs"
  "(\<Sum>d\<leftarrow>sort_key day_date (map (day_row z cs) (days_of z cs)). tot_talk (day_totals d)) +
     talk_of (filter (\<lambda>c. started z c = None) cs) = talk_of cs"
  "(\<Sum>h\<leftarrow>map (hour_row z cs) [0..<hours_in_day]. hr_talk h) + talk_of (filter (\<lambda>c. started z c = None) cs) = talk_of cs"
  using day_sums [of "\<lambda>_. Suc 0" z cs] hour_sums [of "\<lambda>_. Suc 0" z cs]
    day_sums [of "\<lambda>c. seconds_to_duration (cdr_billsec c)" z cs]
    hour_sums [of "\<lambda>c. seconds_to_duration (cdr_billsec c)" z cs]
  by (simp_all add: sum_sorted comp_def day_row_def hour_row_def tally_of_def talk_of_def length_sum)

lemma order_free:
  assumes same: "mset cs' = mset cs"
    and r: "r = aggregate location now budget cs" "r' = aggregate location now budget cs'"
    and z: "z = (case location of None \<Rightarrow> utc | Some z' \<Rightarrow> z')"
  shows "rep_totals r' = rep_totals r \<and> rep_hours r' = rep_hours r \<and> rep_contacts r' = rep_contacts r \<and>
    rep_week r' = rep_week r \<and> rep_undated r' = rep_undated r \<and>
    (\<lambda>d. (local_day z (day_date d), day_totals d)) ` set (rep_days r') =
      (\<lambda>d. (local_day z (day_date d), day_totals d)) ` set (rep_days r)"
proof -
  have hours: "hour_row z cs' = hour_row z cs"
    using length_filter_mset [OF same] talk_mset [OF same] by (intro ext) (simp add: hour_row_def)
  have days: "(\<lambda>k. (k, tally_of (filter (on_day z k) cs'))) ` set (days_of z cs') =
      (\<lambda>k. (k, tally_of (filter (on_day z k) cs))) ` set (days_of z cs)"
    using tally_mset [OF filter_mset_cong [OF same]] mset_eq_setD [OF same] by (simp add: days_of_set)
  show ?thesis
    unfolding r aggregate_sums [OF z refl]
    using tally_mset [OF same] hours days same_parties [OF same] length_filter_mset [OF same] talk_mset [OF same]
    by (simp only: report.simps week.simps day_views)
qed

text \<open>
  C38. The report is what its records say. Its counters are those of the records,
  every hour, contact and day of it is the tally of exactly the records of
  that hour, remote party and local date, each contact once and each date once, the
  contacts by talk time, calls and number, the days by time. Nothing is counted twice and nothing
  lost: calls and talk time of the days, and those of the hours, add up with the undated
  records to the totals - the talk times even where the 64-bit durations overflow. And the
  order of the records does not matter: the same records in another order give the same
  totals, hours, contacts, week and dates with their counters. (A day's own instant is that
  of its first record, so that may differ.)
\<close>

theorem report_sums:
  assumes z: "z = (case location of None \<Rightarrow> utc | Some z' \<Rightarrow> z')" and r: "r = aggregate location now budget cs"
  shows "rep_totals r = tally_of cs \<and> rep_hours r = map (hour_row z cs) [0..<hours_in_day] \<and>
    set (rep_contacts r) = party_row cs ` {n. n \<noteq> [] \<and> (\<exists>c \<in> set cs. remote_of c = n)} \<and>
    distinct (map pt_number (rep_contacts r)) \<and> sorted (map party_rank (rep_contacts r)) \<and>
    (\<lambda>d. (local_day z (day_date d), day_totals d)) ` set (rep_days r) =
      (\<lambda>k. (k, tally_of (filter (on_day z k) cs))) ` {k. \<exists>c \<in> set cs. on_day z k c} \<and>
    distinct (map (\<lambda>d. local_day z (day_date d)) (rep_days r)) \<and> sorted (map day_date (rep_days r)) \<and>
    (\<Sum>d\<leftarrow>rep_days r. tot_calls (day_totals d)) + rep_undated r = tot_calls (rep_totals r) \<and>
    (\<Sum>h\<leftarrow>rep_hours r. hr_calls h) + rep_undated r = tot_calls (rep_totals r) \<and>
    (\<Sum>d\<leftarrow>rep_days r. tot_talk (day_totals d)) + talk_of (filter (\<lambda>c. started z c = None) cs) = tot_talk (rep_totals r) \<and>
    (\<Sum>h\<leftarrow>rep_hours r. hr_talk h) + talk_of (filter (\<lambda>c. started z c = None) cs) = tot_talk (rep_totals r) \<and>
    (mset cs' = mset cs \<longrightarrow>
      (\<exists>r'. r' = aggregate location now budget cs' \<and> rep_totals r' = rep_totals r \<and> rep_hours r' = rep_hours r \<and>
        rep_contacts r' = rep_contacts r \<and> rep_week r' = rep_week r \<and> rep_undated r' = rep_undated r \<and>
        (\<lambda>d. (local_day z (day_date d), day_totals d)) ` set (rep_days r') =
          (\<lambda>d. (local_day z (day_date d), day_totals d)) ` set (rep_days r)))"
proof -
  note sums = aggregate_sums [OF z refl, of now budget cs, folded r]
  have rows: "rep_totals r = tally_of cs" "rep_hours r = map (hour_row z cs) [0..<hours_in_day]"
      "set (rep_contacts r) = party_row cs ` {n. n \<noteq> [] \<and> (\<exists>c \<in> set cs. remote_of c = n)}"
      "distinct (map pt_number (rep_contacts r))" "sorted (map party_rank (rep_contacts r))"
      "distinct (map (\<lambda>d. local_day z (day_date d)) (rep_days r))" "sorted (map day_date (rep_days r))"
    unfolding sums by (simp_all add: named_set [symmetric] distinct_parties distinct_days)
  have days: "(\<lambda>d. (local_day z (day_date d), day_totals d)) ` set (rep_days r) =
      (\<lambda>k. (k, tally_of (filter (on_day z k) cs))) ` {k. \<exists>c \<in> set cs. on_day z k c}"
    unfolding sums by (simp only: report.simps day_views days_of_set)
  have kept: "(\<Sum>d\<leftarrow>rep_days r. tot_calls (day_totals d)) + rep_undated r = tot_calls (rep_totals r)"
      "(\<Sum>h\<leftarrow>rep_hours r. hr_calls h) + rep_undated r = tot_calls (rep_totals r)"
      "(\<Sum>d\<leftarrow>rep_days r. tot_talk (day_totals d)) + talk_of (filter (\<lambda>c. started z c = None) cs) = tot_talk (rep_totals r)"
      "(\<Sum>h\<leftarrow>rep_hours r. hr_talk h) + talk_of (filter (\<lambda>c. started z c = None) cs) = tot_talk (rep_totals r)"
    unfolding sums using conserved [of z cs] by (simp_all add: tally_of_def talk_of_def)
  from rows days kept order_free [OF _ r refl z, of cs'] show ?thesis by blast
qed

definition sample_cdr :: cdr where
  "sample_cdr =
     \<lparr>cdr_context = ''public'', cdr_caller = ''+4930123'', cdr_name = [], cdr_destination = ''1001'',
      cdr_start = ''2026-11-04 18:42'', cdr_billsec = 65\<rparr>"

lemma sample_start: "read_start ''2026-11-04 18:42'' = Some 1793817720"
  by code_simp

theorem report_sums_witness:
  "started utc sample_cdr = Some (time_unix 1793817720) \<and>
   (let r = aggregate None 0 0 [sample_cdr, sample_cdr\<lparr>cdr_start := ''soon''\<rparr>] in
     tot_calls (rep_totals r) = 2 \<and> rep_undated r = 1 \<and> (\<Sum>d\<leftarrow>rep_days r. tot_calls (day_totals d)) = 1 \<and>
     rep_contacts (aggregate None 0 0 [sample_cdr\<lparr>cdr_start := ''soon''\<rparr>, sample_cdr]) = rep_contacts r)"
proof -
  let ?soon = "sample_cdr\<lparr>cdr_start := ''soon''\<rparr>"
  let ?cs = "[sample_cdr, ?soon]"
  have start: "started utc sample_cdr = Some (time_unix 1793817720)"
    by (simp add: started_def parse_start_def sample_cdr_def sample_start date_in_def utc_def)
  have undated: "started utc ?soon = None"
    by (simp add: started_def parse_start_def sample_cdr_def read_start_def long_year_def is_digit_char_def)
  let ?r = "aggregate None 0 0 ?cs"
  have laws: "rep_totals ?r = tally_of ?cs"
      "(\<Sum>d\<leftarrow>rep_days ?r. tot_calls (day_totals d)) + rep_undated ?r = tot_calls (rep_totals ?r)"
      "mset [?soon, sample_cdr] = mset ?cs \<Longrightarrow> rep_contacts (aggregate None 0 0 [?soon, sample_cdr]) = rep_contacts ?r"
    using report_sums [of utc None ?r 0 0 ?cs "[?soon, sample_cdr]"] by auto
  have lone: "rep_undated ?r = 1"
    using start undated aggregate_sums [of utc None "week_start_of utc 0" 0 0 ?cs] by simp
  have two: "tot_calls (rep_totals ?r) = 2" by (simp add: laws(1) tally_of_def)
  have "(\<Sum>d\<leftarrow>rep_days ?r. tot_calls (day_totals d)) = 1" using laws(2) lone two by linarith
  moreover have "rep_contacts (aggregate None 0 0 [?soon, sample_cdr]) = rep_contacts ?r"
    by (rule laws(3)) (simp add: add_mset_commute)
  ultimately show ?thesis using start lone two by (simp add: Let_def)
qed

end
