(* ===== verification/History.thy ===== *)
theory History
  imports Reports Transcripts Call_Slots
begin

text \<open>
  The call history and its relation to the call report: the panel builders of
  \<^verbatim>\<open>internal/server/panels.go\<close> and \<^verbatim>\<open>internal/server/reports.go\<close> with the helpers of
  \<^verbatim>\<open>internal/web/views/history_templ.go\<close>. A panel is the record of properties its template is
  given; the CRM names in it are represented by the numbers that are looked up for it. The
  phone API is another program, so its answer to a request for so many records is an input,
  and so is Go's \<^verbatim>\<open>strings.ToLower\<close>.
\<close>

section \<open>Labels of a record\<close>

fun first_nonempty :: "string list \<Rightarrow> string" where
  "first_nonempty [] = []"
| "first_nonempty (v # vs) = (if v \<noteq> [] then v else first_nonempty vs)"

definition cdr_missed :: "cdr \<Rightarrow> bool" where
  "cdr_missed c \<longleftrightarrow> cdr_context c = ''public'' \<and> cdr_billsec c = 0"

definition cdr_target :: "cdr \<Rightarrow> string" where
  "cdr_target c =
     (if cdr_context c = ''public'' then first_nonempty [cdr_caller c, cdr_name c, ''unknown'']
      else first_nonempty [cdr_destination c, ''unknown''])"

definition cdr_dial_target :: "cdr \<Rightarrow> string" where
  "cdr_dial_target c = (if cdr_context c = ''public'' then cdr_caller c else cdr_destination c)"

definition cdr_dir_label :: "cdr \<Rightarrow> string" where
  "cdr_dir_label c =
     (if cdr_missed c then ''history.missed''
      else if cdr_context c = ''public'' then ''history.dirIn'' else ''history.dirOut'')"

section \<open>Days\<close>

record cdr_group =
  cg_key :: string
  cg_day :: time
  cg_rows :: "cdr list"

text \<open>\<^verbatim>\<open>time.ParseInLocation\<close> with the layout \<^verbatim>\<open>2006-01-02\<close>, as the number of the day.\<close>

definition read_date :: "string \<Rightarrow> int option" where
  "read_date raw =
     Option.bind (long_year raw) (\<lambda>(y, s0).
     Option.bind (literal (CHR ''-'') s0) (\<lambda>s1.
     Option.bind (bounded 1 12 (getnum True s1)) (\<lambda>(mo, s2).
     Option.bind (literal (CHR ''-'') s2) (\<lambda>s3.
     Option.bind (getnum True s3) (\<lambda>(d, s4).
       if s4 \<noteq> [] \<or> d < 1 \<or> month_days y mo < d then None else Some (day_number y mo d))))))"

definition day_of_cdr :: "zone \<Rightarrow> cdr \<Rightarrow> string \<times> time" where
  "day_of_cdr z c =
     (if length (cdr_start c) < 10 then ([], zero_time)
      else
        (case read_date (take 10 (cdr_start c)) of
           None \<Rightarrow> ([], zero_time)
         | Some n \<Rightarrow> (take 10 (cdr_start c), date_in z (n * 86400))))"

definition add_to_day :: "zone \<Rightarrow> cdr \<Rightarrow> cdr_group list \<Rightarrow> cdr_group list" where
  "add_to_day z c gs =
     (let (key, d) = day_of_cdr z c in
      if key \<noteq> [] \<and> gs \<noteq> [] \<and> cg_key (last gs) = key
      then butlast gs @ [(last gs)\<lparr>cg_rows := cg_rows (last gs) @ [c]\<rparr>]
      else gs @ [\<lparr>cg_key = key, cg_day = d, cg_rows = [c]\<rparr>])"

definition group_cdrs_by_day :: "zone \<Rightarrow> cdr list \<Rightarrow> cdr_group list" where
  "group_cdrs_by_day z cs = fold (add_to_day z) cs []"

section \<open>Filters\<close>

definition crm_numbers :: "('a \<Rightarrow> string) \<Rightarrow> 'a list \<Rightarrow> string list" where
  "crm_numbers number rows = filter (\<lambda>n. n \<noteq> []) (map number rows)"

definition keeps_cdr :: "(string \<Rightarrow> string) \<Rightarrow> string \<Rightarrow> string \<Rightarrow> string \<Rightarrow> cdr \<Rightarrow> bool" where
  "keeps_cdr lower query dir outc c \<longleftrightarrow>
     \<not> (dir = ''in'' \<and> cdr_context c \<noteq> ''public'') \<and>
     \<not> (dir = ''out'' \<and> cdr_context c = ''public'') \<and>
     \<not> (lower query \<noteq> [] \<and>
        \<not> str_contains (lower query) (lower (cdr_caller c @ '' '' @ cdr_name c @ '' '' @ cdr_destination c))) \<and>
     \<not> (outc = ''missed'' \<and> (cdr_context c \<noteq> ''public'' \<or> cdr_billsec c \<noteq> 0)) \<and>
     \<not> (outc = ''answered'' \<and> cdr_billsec c = 0)"

definition filter_cdrs :: "(string \<Rightarrow> string) \<Rightarrow> cdr list \<Rightarrow> string \<Rightarrow> string \<Rightarrow> string \<Rightarrow> cdr list" where
  "filter_cdrs lower entries query dir outc =
     (if query = [] \<and> dir = [] \<and> outc = [] then entries else filter (keeps_cdr lower query dir outc) entries)"

definition history_disposition_filter :: "string \<Rightarrow> disposition option" where
  "history_disposition_filter raw =
     (case parse_disposition raw of Inl _ \<Rightarrow> None | Inr d \<Rightarrow> if d = Disp_Unknown then None else Some d)"

section \<open>The transcripts of the panel\<close>

record transcript_group =
  tg_call :: string
  tg_remote :: string
  tg_direction :: string
  tg_started :: time
  tg_lines :: "string list"
  tg_note :: string
  tg_disposition :: string
  tg_review_state :: string
  tg_review_text :: string
  tg_review_confidence :: int

definition history_transcript_groups :: nat where "history_transcript_groups = 10"
definition history_page_size :: nat where "history_page_size = 30"
definition history_filter_fetch_size :: nat where "history_filter_fetch_size = 100"

text \<open>The three stores behind the section, each of which may be absent.\<close>

record ('s, 'n, 'r) history_stores =
  hs_transcripts :: "(('s, string, segment_view) capped_engine \<times> 's) option"
  hs_notes :: "(('n, slot_key, note_view) engine \<times> 'n) option"
  hs_reviews :: "(('r, slot_key, review_view) engine \<times> 'r) option"

definition note_of :: "('s, 'n, 'r) history_stores \<Rightarrow> extension \<Rightarrow> string \<Rightarrow> string \<times> string" where
  "note_of H ext call =
     (case hs_notes H of
        None \<Rightarrow> ([], [])
      | Some (E, s) \<Rightarrow>
          (case note_get E ext call s of
             Inr (Some v) \<Rightarrow> (nov_body v, nov_disposition v)
           | _ \<Rightarrow> ([], [])))"

definition review_of :: "('s, 'n, 'r) history_stores \<Rightarrow> extension \<Rightarrow> string \<Rightarrow> string \<times> string \<times> int" where
  "review_of H ext call =
     (case hs_reviews H of
        None \<Rightarrow> ([], [], 0)
      | Some (E, s) \<Rightarrow>
          (case review_get E ext call s of
             Inr (Some v) \<Rightarrow> (rvv_state v, rvv_text v, rvv_confidence v)
           | _ \<Rightarrow> ([], [], 0)))"

definition group_of_call :: "('s, 'n, 'r) history_stores \<Rightarrow> extension \<Rightarrow> call_transcript \<Rightarrow> transcript_group" where
  "group_of_call H ext tx =
     (let (note, verdict) = note_of H ext (ctr_call tx); (state, text, conf) = review_of H ext (ctr_call tx) in
      \<lparr>tg_call = ctr_call tx, tg_remote = ctr_remote tx, tg_direction = ctr_direction tx,
       tg_started = ctr_started tx, tg_lines = ctr_lines tx, tg_note = note, tg_disposition = verdict,
       tg_review_state = state, tg_review_text = text, tg_review_confidence = conf\<rparr>)"

definition keeps_verdict :: "disposition option \<Rightarrow> transcript_group \<Rightarrow> bool" where
  "keeps_verdict verdict g \<longleftrightarrow> (case verdict of None \<Rightarrow> True | Some d \<Rightarrow> tg_disposition g = disposition_string d)"

text \<open>\<open>Inl\<close> is the panic of a stored row that names no extension; every other failed read shows no section.\<close>

definition recent_transcripts ::
  "(string \<Rightarrow> string) \<Rightarrow> ('s, 'n, 'r) history_stores \<Rightarrow> extension \<Rightarrow> string \<Rightarrow> disposition option \<Rightarrow>
   err + transcript_group list" where
  "recent_transcripts lower H ext query verdict =
     (case hs_transcripts H of
        None \<Rightarrow> Inr []
      | Some (E, s) \<Rightarrow>
          (let size = (if verdict = None then history_transcript_groups else history_filter_fetch_size) in
           case (if query \<noteq> [] then transcript_search lower E ext query size s else transcript_recent E ext size s) of
             Inl Panic \<Rightarrow> Inl Panic
           | Inl _ \<Rightarrow> Inr []
           | Inr recent \<Rightarrow> Inr (filter (keeps_verdict verdict) (map (group_of_call H ext) recent))))"

section \<open>The panels\<close>

text \<open>The parameters of the request, as they arrive.\<close>

record history_request =
  hq_query :: string
  hq_dir :: string
  hq_outcome :: string
  hq_disposition :: string

record history_props =
  hp_enabled :: bool
  hp_entries :: "cdr list"
  hp_error :: string
  hp_query :: string
  hp_dir :: string
  hp_outcome :: string
  hp_disposition :: string
  hp_numbers :: "string list"
  hp_transcripts :: "transcript_group list"
  hp_agent :: bool

definition blank_history :: "bool \<Rightarrow> history_props" where
  "blank_history agent =
     \<lparr>hp_enabled = False, hp_entries = [], hp_error = [], hp_query = [], hp_dir = [], hp_outcome = [],
      hp_disposition = [], hp_numbers = [], hp_transcripts = [], hp_agent = agent\<rparr>"

definition known_or_any :: "string list \<Rightarrow> string \<Rightarrow> string" where
  "known_or_any known raw = (if raw \<in> set known then raw else [])"

definition history_limit :: "string \<Rightarrow> string \<Rightarrow> string \<Rightarrow> nat" where
  "history_limit query dir outc =
     (if query \<noteq> [] \<or> dir \<noteq> [] \<or> outc \<noteq> [] then history_filter_fetch_size else history_page_size)"

text \<open>\<open>phone\<close> is the answer of the phone API to a request for so many records, \<open>None\<close> when it is not configured.\<close>

definition history_panel ::
  "(string \<Rightarrow> string) \<Rightarrow> ('s, 'n, 'r) history_stores \<Rightarrow> (nat \<Rightarrow> err + cdr list) option \<Rightarrow> bool \<Rightarrow> extension \<Rightarrow>
   history_request \<Rightarrow> err + history_props" where
  "history_panel lower H phone agent ext rq =
     (let query = trim_space (hq_query rq);
          dir = known_or_any [''in'', ''out''] (hq_dir rq);
          outc = known_or_any [''answered'', ''missed''] (hq_outcome rq);
          verdict = history_disposition_filter (hq_disposition rq) in
      case recent_transcripts lower H ext query verdict of
        Inl e \<Rightarrow> Inl e
      | Inr groups \<Rightarrow>
          (let remotes = crm_numbers tg_remote groups in
           case verdict of
             Some d \<Rightarrow>
               Inr ((blank_history agent)\<lparr>hp_enabled := True, hp_disposition := disposition_string d,
                      hp_transcripts := groups, hp_numbers := remotes\<rparr>)
           | None \<Rightarrow>
               (case phone of
                  None \<Rightarrow>
                    Inr ((blank_history agent)\<lparr>hp_query := query, hp_transcripts := groups, hp_numbers := remotes\<rparr>)
                | Some page \<Rightarrow>
                    (case page (history_limit query dir outc) of
                       Inl _ \<Rightarrow>
                         Inr ((blank_history agent)\<lparr>hp_enabled := True, hp_error := ''history.unreachable''\<rparr>)
                     | Inr all \<Rightarrow>
                         (let entries = take history_page_size (filter_cdrs lower all query dir outc) in
                          Inr ((blank_history agent)\<lparr>hp_enabled := True, hp_entries := entries, hp_query := query,
                                 hp_dir := dir, hp_outcome := outc, hp_transcripts := groups,
                                 hp_numbers := crm_numbers cdr_dial_target entries @ remotes\<rparr>))))))"

record reports_props =
  rp_enabled :: bool
  rp_error :: string
  rp_report :: "report option"
  rp_numbers :: "string list"

definition reports_fetch_size :: nat where "reports_fetch_size = 500"
definition top_contact_rows :: int where "top_contact_rows = 5"

definition reports_panel ::
  "zone \<Rightarrow> time \<Rightarrow> talk \<Rightarrow> (nat \<Rightarrow> err + cdr list) option \<Rightarrow> reports_props" where
  "reports_panel z now budget phone =
     (case phone of
        None \<Rightarrow> \<lparr>rp_enabled = False, rp_error = [], rp_report = None, rp_numbers = []\<rparr>
      | Some page \<Rightarrow>
          (case page reports_fetch_size of
             Inl _ \<Rightarrow> \<lparr>rp_enabled = True, rp_error = ''reports.unreachable'', rp_report = None, rp_numbers = []\<rparr>
           | Inr cs \<Rightarrow>
               (let r = aggregate (Some z) now budget cs in
                \<lparr>rp_enabled = True, rp_error = [], rp_report = Some r,
                 rp_numbers = crm_numbers pt_number (top_contacts top_contact_rows r)\<rparr>)))"

section \<open>What the two tabs agree on\<close>

text \<open>A record the report can date has the day of its date in the history.\<close>

lemma getnum_fixed: "getnum True s = Some (n, t) \<Longrightarrow> \<exists>a b. s = a # b # t \<and> is_digit_char a \<and> is_digit_char b"
  by (cases s rule: remdups_adj.cases) (auto split: if_splits list.splits)

lemma getnum_prefix: "is_digit_char a \<Longrightarrow> is_digit_char b \<Longrightarrow> getnum True (a # b # t) = Some (digit a * 10 + digit b, t)"
  by simp

lemma dated_prefix:
  assumes "read_start raw = Some u"
  shows "10 \<le> length raw \<and> (\<exists>n. read_date (take 10 raw) = Some n)"
proof -
  obtain y s0 s1 mo s2 s3 d s4 where y: "long_year raw = Some (y, s0)"
    and l1: "literal (CHR ''-'') s0 = Some s1" and mo: "getnum True s1 = Some (mo, s2)" "1 \<le> mo" "mo \<le> 12"
    and l2: "literal (CHR ''-'') s2 = Some s3" and d: "getnum True s3 = Some (d, s4)" "1 \<le> d" "d \<le> month_days y mo"
    using assms by (auto simp: read_start_def bind_eq_Some_conv bounded_def split: option.splits if_splits)
  from mo(1) obtain a b where s1: "s1 = a # b # s2" "is_digit_char a" "is_digit_char b" by (blast dest: getnum_fixed)
  from d(1) obtain e f where s3: "s3 = e # f # s4" "is_digit_char e" "is_digit_char f" by (blast dest: getnum_fixed)
  have s0: "s0 = CHR ''-'' # a # b # CHR ''-'' # e # f # s4"
    using l1 l2 s1(1) s3(1) by (auto simp: literal_def split: list.splits if_splits)
  from y have len: "4 \<le> length raw" "list_all is_digit_char (take 4 raw)" "s0 = drop 4 raw"
      "y = fold (\<lambda>c n. n * 10 + digit c) (take 4 raw) 0"
    by (auto simp: long_year_def split: if_splits)
  have raw: "raw = take 4 raw @ CHR ''-'' # a # b # CHR ''-'' # e # f # s4"
    using len(3) s0 by (metis append_take_drop_id)
  let ?date = "take 4 raw @ [CHR ''-'', a, b, CHR ''-'', e, f]"
  have "take 10 raw = ?date" using len(1) by (subst raw) simp
  moreover have "long_year ?date = Some (y, [CHR ''-'', a, b, CHR ''-'', e, f])"
    using len by (simp add: long_year_def)
  ultimately have "read_date (take 10 raw) = Some (day_number y mo d)"
    using mo d s1 s3 by (simp add: read_date_def literal_def bounded_def getnum_prefix)
  moreover have "10 \<le> length raw" using len(1) by (subst raw) simp
  ultimately show ?thesis by blast
qed

lemma dated_day:
  assumes "started z c = Some t"
  shows "fst (day_of_cdr z c) = take 10 (cdr_start c) \<and> take 10 (cdr_start c) \<noteq> []"
proof -
  from assms obtain u where "read_start (cdr_start c) = Some u"
    by (auto simp: started_def parse_start_def split: if_splits)
  from dated_prefix [OF this] show ?thesis by (auto simp: day_of_cdr_def)
qed

definition day_groups :: "zone \<Rightarrow> cdr list \<Rightarrow> cdr_group list \<Rightarrow> bool" where
  "day_groups z cs gs \<longleftrightarrow>
     concat (map cg_rows gs) = cs \<and>
     (\<forall>g \<in> set gs. cg_rows g \<noteq> [] \<and> (\<forall>c \<in> set (cg_rows g). fst (day_of_cdr z c) = cg_key g) \<and>
        (cg_key g = [] \<longrightarrow> length (cg_rows g) = 1)) \<and>
     successively (\<lambda>g h. cg_key g \<noteq> cg_key h \<or> cg_key g = []) gs"

lemma day_groups_add:
  assumes "day_groups z cs gs"
  shows "day_groups z (cs @ [c]) (add_to_day z c gs)"
proof -
  obtain key d where kd: "day_of_cdr z c = (key, d)" by fastforce
  show ?thesis
  proof (cases "key \<noteq> [] \<and> gs \<noteq> [] \<and> cg_key (last gs) = key")
    case True
    then obtain hs g where gs: "gs = hs @ [g]" by (metis append_butlast_last_id)
    with True kd have "add_to_day z c gs = hs @ [g\<lparr>cg_rows := cg_rows g @ [c]\<rparr>]" "cg_key g = key" "key \<noteq> []"
      by (simp_all add: add_to_day_def)
    with assms gs kd show ?thesis
      by (auto simp: day_groups_def successively_append_iff)
  next
    case False
    with kd have "add_to_day z c gs = gs @ [\<lparr>cg_key = key, cg_day = d, cg_rows = [c]\<rparr>]"
      by (auto simp: add_to_day_def)
    with assms False kd show ?thesis
      by (auto simp: day_groups_def successively_append_iff)
  qed
qed

lemma day_groups_all: "day_groups z cs (group_cdrs_by_day z cs)"
proof -
  have "day_groups z (ds @ cs) (fold (add_to_day z) cs gs)" if "day_groups z ds gs" for ds gs
    using that
  proof (induction cs arbitrary: ds gs)
    case (Cons c cs)
    from Cons.IH [OF day_groups_add [OF Cons.prems]] show ?case by simp
  qed simp
  from this [of "[]" "[]"] show ?thesis by (simp add: group_cdrs_by_day_def day_groups_def)
qed

lemma filter_all_kept:
  "filter_cdrs lower cs [] ''in'' [] = filter (\<lambda>c. inbound c) cs"
  "filter_cdrs lower cs [] ''out'' [] = filter (\<lambda>c. \<not> inbound c) cs"
  "filter_cdrs lower cs [] [] ''answered'' = filter (\<lambda>c. cdr_billsec c \<noteq> 0) cs"
  "filter_cdrs lower cs [] [] ''missed'' = filter (\<lambda>c. inbound c \<and> cdr_billsec c = 0) cs"
  if "lower [] = []"
  using that by (auto simp: filter_cdrs_def keeps_cdr_def inbound_def cong: filter_cong)

lemma split_length: "length (filter P xs) = length (filter (\<lambda>x. P x \<and> Q x) xs) + length (filter (\<lambda>x. P x \<and> \<not> Q x) xs)"
  by (induction xs) auto

definition negative :: "cdr \<Rightarrow> bool" where "negative c \<longleftrightarrow> cdr_billsec c < 0"

lemma outcome_counts:
  "length (filter (\<lambda>c. cdr_billsec c \<noteq> 0) cs) =
     length (filter (\<lambda>c. cdr_billsec c > 0) cs) + length (filter negative cs)"
  "length (filter (\<lambda>c. \<not> cdr_billsec c > 0 \<and> inbound c) cs) =
     length (filter (\<lambda>c. inbound c \<and> cdr_billsec c = 0) cs) + length (filter (\<lambda>c. inbound c \<and> negative c) cs)"
  by (induction cs) (auto simp: negative_def)

lemma report_parties:
  assumes r: "r = aggregate location now budget cs"
  shows "set (map pt_number (rep_contacts r)) = set (crm_numbers cdr_dial_target cs)"
    "p \<in> set (rep_contacts r) \<Longrightarrow> pt_calls p = length (filter (\<lambda>c. cdr_dial_target c = pt_number p) cs)"
proof -
  have dial: "cdr_dial_target = remote_of"
    by (simp add: fun_eq_iff cdr_dial_target_def remote_of_def inbound_def)
  have "rep_contacts r = sort_key party_rank (map (party_row cs) (firsts (named cs)))"
    unfolding r aggregate_sums [OF refl refl] by simp
  moreover have "pt_number (party_row cs n) = n" for n by (simp add: party_row_def)
  ultimately show "set (map pt_number (rep_contacts r)) = set (crm_numbers cdr_dial_target cs)"
    "p \<in> set (rep_contacts r) \<Longrightarrow> pt_calls p = length (filter (\<lambda>c. cdr_dial_target c = pt_number p) cs)"
    by (auto simp: crm_numbers_def dial named_def image_image party_row_def)
qed

text \<open>
  C39. The History and the Reports tab count the same calls, up to garbage. For the same
  records the report's inbound and outbound counts are the sizes of the history's direction
  filters, and its answered and missed counts are those of the outcome filters except for the
  records with a negative duration, which the history calls answered and the report
  missed (inbound) or neither. The parties of the report are the numbers the history
  can dial, each with its calls; a record without one is left out of the report and
  still labelled in the history, by the caller's name or as unknown. The history keeps
  every record, under the day it names; a record that the report can date is never
  without one.
\<close>

theorem tabs_agree:
  assumes r: "r = aggregate location now budget cs" and gs: "gs = group_cdrs_by_day z cs" and lower: "lower [] = []"
  shows "tot_inbound (rep_totals r) = length (filter_cdrs lower cs [] ''in'' []) \<and>
    tot_outbound (rep_totals r) = length (filter_cdrs lower cs [] ''out'' []) \<and>
    length (filter_cdrs lower cs [] [] ''answered'') = tot_answered (rep_totals r) + length (filter negative cs) \<and>
    tot_missed (rep_totals r) =
      length (filter_cdrs lower cs [] [] ''missed'') + length (filter (\<lambda>c. inbound c \<and> negative c) cs) \<and>
    set (map pt_number (rep_contacts r)) = set (crm_numbers cdr_dial_target cs) \<and>
    (\<forall>p \<in> set (rep_contacts r). pt_calls p = length (filter (\<lambda>c. cdr_dial_target c = pt_number p) cs)) \<and>
    (\<forall>c \<in> set cs. cdr_target c \<noteq> [] \<and> (cdr_dial_target c \<noteq> [] \<longrightarrow> cdr_target c = cdr_dial_target c)) \<and>
    concat (map cg_rows gs) = cs \<and>
    (\<forall>g \<in> set gs. \<forall>c \<in> set (cg_rows g). started z c \<noteq> None \<longrightarrow>
        cg_key g = take 10 (cdr_start c) \<and> cg_key g \<noteq> []) \<and>
    successively (\<lambda>g h. cg_key g \<noteq> cg_key h \<or> cg_key g = []) gs"
proof -
  have tot: "rep_totals r = tally_of cs" unfolding r aggregate_sums [OF refl refl] by simp
  have groups: "day_groups z cs gs" using gs by (simp add: day_groups_all)
  have days: "cg_key g = take 10 (cdr_start c) \<and> cg_key g \<noteq> []"
    if "g \<in> set gs" "c \<in> set (cg_rows g)" "started z c \<noteq> None" for g c
    using that groups dated_day [of z c] by (auto simp: day_groups_def)
  have labels: "cdr_target c \<noteq> [] \<and> (cdr_dial_target c \<noteq> [] \<longrightarrow> cdr_target c = cdr_dial_target c)" for c
    by (simp add: cdr_target_def cdr_dial_target_def)
  have counts: "tot_inbound (rep_totals r) = length (filter_cdrs lower cs [] ''in'' [])"
      "tot_outbound (rep_totals r) = length (filter_cdrs lower cs [] ''out'' [])"
      "length (filter_cdrs lower cs [] [] ''answered'') = tot_answered (rep_totals r) + length (filter negative cs)"
      "tot_missed (rep_totals r) =
        length (filter_cdrs lower cs [] [] ''missed'') + length (filter (\<lambda>c. inbound c \<and> negative c) cs)"
    using outcome_counts [of cs] filter_all_kept [of lower cs, OF lower] by (simp_all add: tot tally_of_def)
  from groups have kept: "concat (map cg_rows gs) = cs"
      "successively (\<lambda>g h. cg_key g \<noteq> cg_key h \<or> cg_key g = []) gs"
    by (simp_all add: day_groups_def)
  from days labels counts kept report_parties [OF r] show ?thesis by blast
qed

text \<open>An inbound record with a negative duration and a caller without number, under the identity as \<open>lower\<close>.\<close>

theorem tabs_agree_witness:
  "let c = \<lparr>cdr_context = ''public'', cdr_caller = [], cdr_name = ''Ann'', cdr_destination = ''1001'',
            cdr_start = ''2026-11-04 soon'', cdr_billsec = -1\<rparr>;
       r = aggregate None 0 0 [c] in
   tot_missed (rep_totals r) = 1 \<and> filter_cdrs (\<lambda>s. s) [c] [] [] ''answered'' = [c] \<and> rep_contacts r = [] \<and>
   cdr_target c = ''Ann'' \<and> rep_undated r = 1 \<and> map cg_key (group_cdrs_by_day utc [c]) = [''2026-11-04'']"
proof -
  let ?c = "\<lparr>cdr_context = ''public'', cdr_caller = [], cdr_name = ''Ann'', cdr_destination = ''1001'',
            cdr_start = ''2026-11-04 soon'', cdr_billsec = -1\<rparr>"
  note facts = tabs_agree [of "aggregate None 0 0 [?c]", OF refl refl, of "\<lambda>s. s" utc]
  have "set (rep_contacts (aggregate None 0 0 [?c])) = {}"
    using facts by (simp add: crm_numbers_def cdr_dial_target_def)
  moreover have "tot_missed (rep_totals (aggregate None 0 0 [?c])) = 1"
    using facts by (simp add: filter_cdrs_def keeps_cdr_def inbound_def negative_def)
  moreover have "filter_cdrs (\<lambda>s. s) [?c] [] [] ''answered'' = [?c] \<and> cdr_target ?c = ''Ann''"
    by (simp add: filter_cdrs_def keeps_cdr_def cdr_target_def)
  moreover have "rep_undated (aggregate None 0 0 [?c]) = 1 \<and> map cg_key (group_cdrs_by_day utc [?c]) = [''2026-11-04'']"
    by code_simp
  ultimately show ?thesis by (simp add: Let_def)
qed

section \<open>What the history shows\<close>

lemma reassembled_lines:
  assumes "g \<in> set (reassemble rows n)" "l \<in> set (ctr_lines g)"
  shows "\<exists>seg \<in> set rows. seg_call seg = ctr_call g \<and> seg_text seg = l"
proof -
  have "map (\<lambda>g. g\<lparr>ctr_lines := rev (ctr_lines g)\<rparr>) (reassemble rows n) = map (call_group rows) (take n (call_order rows))"
    using group_fold [of n rows] by (auto simp: reassemble_def comp_def)
  then have "g\<lparr>ctr_lines := rev (ctr_lines g)\<rparr> \<in> set (map (call_group rows) (take n (call_order rows)))"
    using assms(1) by (metis (no_types, lifting) image_eqI list.set_map)
  then obtain c where c: "g\<lparr>ctr_lines := rev (ctr_lines g)\<rparr> = call_group rows c" by auto
  then have call: "ctr_call g = c" by (metis (no_types, lifting) call_group_def call_transcript.ext_inject
        call_transcript.surjective call_transcript.update_convs(6))
  have "rev (ctr_lines g) = map seg_text (segments_of c rows)"
    using arg_cong [OF c, of ctr_lines] by (simp add: call_group_def Let_def)
  then have "set (ctr_lines g) = seg_text ` set (segments_of c rows)" by (metis list.set_map set_rev)
  with assms(2) call show ?thesis by (auto simp: segments_of_def)
qed

lemma segment_rows_from:
  "segment_rows vs = Inr rows \<Longrightarrow> seg \<in> set rows \<Longrightarrow>
     \<exists>v \<in> set vs. sgv_call v = seg_call seg \<and> sgv_text v = seg_text seg"
proof (induction vs arbitrary: rows)
  case (Cons v vs)
  then obtain ext rest where rest: "segment_rows vs = Inr rest" "rows = segment_of_view ext v # rest"
    by (auto split: sum.splits)
  with Cons.IH [OF rest(1)] Cons.prems(2) show ?case by (auto simp: segment_of_view_def)
qed simp

lemma fetched_own:
  assumes laws: "engine_laws E view" and rows: "fetch_segments E (owner_query ext n) s = Inr rows" and seg: "seg \<in> set rows"
  shows "\<exists>k v. view s k = Some v \<and> sgv_owner v = ext_string ext \<and> sgv_call v = seg_call seg \<and> sgv_text v = seg_text seg"
proof -
  obtain vs where vs: "eng_scan E (owner_query ext n) s = Inr vs" "segment_rows vs = Inr rows"
    using rows by (auto simp: fetch_segments_def split: sum.splits)
  from segment_rows_from [OF vs(2) seg] obtain v where v: "v \<in> set vs" "sgv_call v = seg_call seg" "sgv_text v = seg_text seg"
    by blast
  from engine_scan [OF laws vs(1)] obtain ks where ks: "set ks = matching (q_filter (owner_query ext n)) (view s)"
      "vs = take (q_limit (owner_query ext n)) (query_order (owner_query ext n) (map (\<lambda>k. the (view s k)) ks))"
    by (auto simp: answers_def)
  have "set (query_order q xs) = set xs" for q :: "segment_view query" and xs
    by (auto simp: query_order_def split: option.split)
  with v(1) ks have "v \<in> (\<lambda>k. the (view s k)) ` matching (q_filter (owner_query ext n)) (view s)"
    by (metis in_set_takeD list.set_map)
  then obtain k where "view s k = Some v" "sgv_owner v = ext_string ext" by (auto simp: matching_def owner_query_def)
  with v show ?thesis by blast
qed

definition own_line ::
  "(string \<Rightarrow> string) \<Rightarrow> (string \<Rightarrow> segment_view option) \<Rightarrow> extension \<Rightarrow> string \<Rightarrow> string \<Rightarrow> string \<Rightarrow> bool" where
  "own_line lower m ext query call l \<longleftrightarrow>
     (\<exists>k v. m k = Some v \<and> sgv_owner v = ext_string ext \<and> sgv_call v = call \<and> sgv_text v = l) \<and>
     (query \<noteq> [] \<longrightarrow> str_contains (lower query) (lower l))"

lemma recent_own:
  assumes laws: "\<And>E s. hs_transcripts H = Some (E, s) \<Longrightarrow> engine_laws E view"
    and gs: "recent_transcripts lower H ext query verdict = Inr gs" and g: "g \<in> set gs" "l \<in> set (tg_lines g)"
  shows "\<exists>E s. hs_transcripts H = Some (E, s) \<and> own_line lower (view s) ext query (tg_call g) l"
proof -
  obtain E s where E: "hs_transcripts H = Some (E, s)"
    using gs g by (cases "hs_transcripts H") (auto simp: recent_transcripts_def)
  obtain recent n where recent: "gs = filter (keeps_verdict verdict) (map (group_of_call H ext) recent)"
      "(if query \<noteq> [] then transcript_search lower E ext query n s else transcript_recent E ext n s) = Inr recent"
    using gs g E by (force simp: recent_transcripts_def Let_def split: sum.splits err.splits)
  obtain tx where tx: "tx \<in> set recent" "tg_call g = ctr_call tx" "tg_lines g = ctr_lines tx"
    using g(1) recent(1) by (auto simp: group_of_call_def split: prod.splits)
  let ?hit = "\<lambda>seg. query \<noteq> [] \<longrightarrow> str_contains (lower query) (lower (seg_text seg))"
  from recent(2) obtain rows where rows: "fetch_segments E (owner_query ext fetch_window) s = Inr rows"
      "recent = reassemble (filter ?hit rows) n"
    by (auto simp: transcript_search_def transcript_recent_def reassembled_def split: sum.splits if_splits)
  obtain seg where "seg \<in> set (filter ?hit rows)" "seg_call seg = ctr_call tx" "seg_text seg = l"
    using reassembled_lines [of tx "filter ?hit rows" n l] rows(2) tx g(2) by auto
  with fetched_own [OF laws [OF E] rows(1), of seg] show ?thesis
    unfolding own_line_def using E tx(2) by auto
qed

lemma group_verdict:
  assumes laws: "\<And>E s. hs_notes H = Some (E, s) \<Longrightarrow> engine_laws E notes"
    and g: "g = group_of_call H ext tx" and d: "keeps_verdict (Some d) g"
  shows "\<exists>E s v. hs_notes H = Some (E, s) \<and> notes s (ext_string ext, tg_call g) = Some v \<and>
    nov_owner v = ext_string ext \<and> nov_disposition v = disposition_string d"
proof -
  have verdict: "snd (note_of H ext (ctr_call tx)) = disposition_string d" and call: "tg_call g = ctr_call tx"
    using d by (auto simp: g keeps_verdict_def group_of_call_def split: prod.splits)
  moreover have "disposition_string d \<noteq> []" by (cases d) simp_all
  ultimately obtain E s v where "hs_notes H = Some (E, s)" "note_get E ext (ctr_call tx) s = Inr (Some v)"
      "nov_disposition v = disposition_string d"
    by (auto simp: note_of_def split: option.splits sum.splits)
  moreover from this(2) have "eng_get E (ext_string ext, ctr_call tx) s = Inr (Some v)" "nov_owner v = ext_string ext"
    by (auto simp: note_get_def split: sum.splits option.splits if_splits)
  ultimately show ?thesis using engine_get [OF laws, of E s] call by metis
qed

lemma filter_cdrs_kept:
  "set (filter_cdrs lower cs query dir outc) =
     {c \<in> set cs. (query = [] \<and> dir = [] \<and> outc = []) \<or> keeps_cdr lower query dir outc c}"
  by (auto simp: filter_cdrs_def)

text \<open>
  C40. The history panel shows an extension its own calls only, and an outage of the
  phone API hides what does not depend on it. Every transcript line shown was stored for the
  signed-in extension under its call, and contains the query when there is one; under a
  verdict filter every call shown carries that verdict in the extension's own note
  slot, and no call record is shown. With an answer of the phone API the panel shows at most
  30 records of it, all of them passing the filters, and all that pass when fewer
  are shown. The transcripts are the same in every case but one: when the phone API fails the
  panel shows none of them, although they come from the extension's own store. The query
  is lost then, and it is lost under a verdict filter, although it was applied.
\<close>

theorem history_sections:
  assumes segs: "\<And>E s. hs_transcripts H = Some (E, s) \<Longrightarrow> engine_laws E view"
    and slots: "\<And>E s. hs_notes H = Some (E, s) \<Longrightarrow> engine_laws E notes"
    and query: "query = trim_space (hq_query rq)" and verdict: "verdict = history_disposition_filter (hq_disposition rq)"
    and filters: "dir = known_or_any [''in'', ''out''] (hq_dir rq)" "outc = known_or_any [''answered'', ''missed''] (hq_outcome rq)"
    and gs: "recent_transcripts lower H ext query verdict = Inr gs"
    and p: "history_panel lower H phone agent ext rq = Inr p"
  shows "(\<forall>g \<in> set (hp_transcripts p). \<forall>l \<in> set (tg_lines g).
        \<exists>E s. hs_transcripts H = Some (E, s) \<and> own_line lower (view s) ext query (tg_call g) l) \<and>
    (\<forall>d. verdict = Some d \<longrightarrow> hp_transcripts p = gs \<and> hp_entries p = [] \<and> hp_query p = [] \<and>
      (\<forall>g \<in> set gs. \<exists>E s v. hs_notes H = Some (E, s) \<and> notes s (ext_string ext, tg_call g) = Some v \<and>
        nov_owner v = ext_string ext \<and> nov_disposition v = disposition_string d)) \<and>
    (verdict = None \<and> phone = None \<longrightarrow> hp_transcripts p = gs \<and> hp_entries p = [] \<and> hp_query p = query) \<and>
    (\<forall>page e. verdict = None \<and> phone = Some page \<and> page (history_limit query dir outc) = Inl e \<longrightarrow>
      hp_transcripts p = [] \<and> hp_entries p = [] \<and> hp_query p = [] \<and> hp_error p \<noteq> []) \<and>
    (\<forall>page cs. verdict = None \<and> phone = Some page \<and> page (history_limit query dir outc) = Inr cs \<longrightarrow>
      hp_transcripts p = gs \<and> hp_query p = query \<and> length (hp_entries p) \<le> 30 \<and>
      set (hp_entries p) \<subseteq> {c \<in> set cs. (query = [] \<and> dir = [] \<and> outc = []) \<or> keeps_cdr lower query dir outc c} \<and>
      (length (hp_entries p) < 30 \<longrightarrow>
        set (hp_entries p) = {c \<in> set cs. (query = [] \<and> dir = [] \<and> outc = []) \<or> keeps_cdr lower query dir outc c}))"
proof -
  note panel = p [unfolded history_panel_def Let_def, folded query verdict filters, unfolded gs, simplified]
  have shown: "hp_transcripts p = gs \<or> hp_transcripts p = []"
    using panel by (auto simp: blank_history_def split: option.splits sum.splits)
  then have own: "\<exists>E s. hs_transcripts H = Some (E, s) \<and> own_line lower (view s) ext query (tg_call g) l"
    if "g \<in> set (hp_transcripts p)" "l \<in> set (tg_lines g)" for g l
  proof -
    have "g \<in> set gs" using that(1) shown by auto
    from recent_own [OF segs gs this that(2)] show ?thesis .
  qed
  have kept: "\<exists>E s v. hs_notes H = Some (E, s) \<and> notes s (ext_string ext, tg_call g) = Some v \<and>
      nov_owner v = ext_string ext \<and> nov_disposition v = disposition_string d" if vd: "verdict = Some d" and vg: "g \<in> set gs" for d g
  proof -
    obtain tx where "g = group_of_call H ext tx" "keeps_verdict (Some d) g"
      using gs vd vg by (auto simp: recent_transcripts_def Let_def split: option.splits sum.splits err.splits)
    from group_verdict [OF slots this] show ?thesis .
  qed
  have chosen: "hp_transcripts p = gs \<and> hp_entries p = [] \<and> hp_query p = []" if "verdict = Some d" for d
    using panel that by (auto simp: blank_history_def)
  have off: "hp_transcripts p = gs \<and> hp_entries p = [] \<and> hp_query p = query" if "verdict = None \<and> phone = None"
    using panel that by (auto simp: blank_history_def)
  have down: "hp_transcripts p = [] \<and> hp_entries p = [] \<and> hp_query p = [] \<and> hp_error p \<noteq> []"
    if "verdict = None \<and> phone = Some page \<and> page (history_limit query dir outc) = Inl e" for page e
    using panel that by (auto simp: blank_history_def)
  have up: "hp_transcripts p = gs \<and> hp_query p = query \<and> hp_entries p = take 30 (filter_cdrs lower cs query dir outc)"
    if "verdict = None \<and> phone = Some page \<and> page (history_limit query dir outc) = Inr cs" for page cs
    using panel that by (auto simp: blank_history_def history_page_size_def)
  let ?kept = "\<lambda>cs. {c \<in> set cs. (query = [] \<and> dir = [] \<and> outc = []) \<or> keeps_cdr lower query dir outc c}"
  have listed: "hp_transcripts p = gs \<and> hp_query p = query \<and> length (hp_entries p) \<le> 30 \<and>
      set (hp_entries p) \<subseteq> ?kept cs \<and> (length (hp_entries p) < 30 \<longrightarrow> set (hp_entries p) = ?kept cs)"
    if "verdict = None \<and> phone = Some page \<and> page (history_limit query dir outc) = Inr cs" for page cs
    using up [OF that] filter_cdrs_kept [of lower cs query dir outc] set_take_subset [of 30 "filter_cdrs lower cs query dir outc"]
    by auto
  have shares: "\<forall>g \<in> set (hp_transcripts p). \<forall>l \<in> set (tg_lines g).
        \<exists>E s. hs_transcripts H = Some (E, s) \<and> own_line lower (view s) ext query (tg_call g) l"
    using own by blast
  have verdicts: "\<forall>d. verdict = Some d \<longrightarrow> hp_transcripts p = gs \<and> hp_entries p = [] \<and> hp_query p = [] \<and>
      (\<forall>g \<in> set gs. \<exists>E s v. hs_notes H = Some (E, s) \<and> notes s (ext_string ext, tg_call g) = Some v \<and>
        nov_owner v = ext_string ext \<and> nov_disposition v = disposition_string d)"
    using chosen kept by simp
  show ?thesis
    by (intro conjI, rule shares, rule verdicts, rule impI, erule off, intro allI impI, erule down, intro allI impI, erule listed)
qed

text \<open>One transcribed call, with the phone API down.\<close>

definition sample_history :: "((string \<times> segment_view) list, unit, unit) history_stores" where
  "sample_history =
     \<lparr>hs_transcripts = Some (mem_capped segments_max_extension, [(''s1'', segment_fold ''s1'' 7 sample_segment)]),
      hs_notes = None, hs_reviews = None\<rparr>"

definition plain_request :: history_request where
  "plain_request = \<lparr>hq_query = [], hq_dir = [], hq_outcome = [], hq_disposition = []\<rparr>"

lemma sample_recent:
  "recent_transcripts (\<lambda>s. s) sample_history (Extension ''1001'') [] None =
     Inr [\<lparr>tg_call = ''c1'', tg_remote = ''+49'', tg_direction = ''inbound'', tg_started = 0, tg_lines = [''hello''],
           tg_note = [], tg_disposition = [], tg_review_state = [], tg_review_text = [], tg_review_confidence = 0\<rparr>]"
  by code_simp

theorem history_sections_witness:
  "\<exists>gs p. recent_transcripts (\<lambda>s. s) sample_history (Extension ''1001'') [] None = Inr gs \<and> map tg_lines gs = [[''hello'']] \<and>
     history_panel (\<lambda>s. s) sample_history (Some (\<lambda>_. Inl Not_Found)) False (Extension ''1001'') plain_request = Inr p \<and>
     hp_transcripts p = [] \<and> hp_error p \<noteq> []"
proof -
  let ?phone = "Some (\<lambda>_. Inl Not_Found) :: (nat \<Rightarrow> err + cdr list) option"
  have plain: "[] = trim_space (hq_query plain_request)" "None = history_disposition_filter (hq_disposition plain_request)"
      "[] = known_or_any [''in'', ''out''] (hq_dir plain_request)"
      "[] = known_or_any [''answered'', ''missed''] (hq_outcome plain_request)"
    by code_simp+
  obtain p where p: "history_panel (\<lambda>s. s) sample_history ?phone False (Extension ''1001'') plain_request = Inr p"
    using sample_recent by (simp add: history_panel_def plain [symmetric] Let_def)
  have "engine_laws E map_of" if "hs_transcripts sample_history = Some (E, s)" for E s
    using that mem_capped_laws [of segments_max_extension] by (auto simp: sample_history_def caps_laws_def)
  moreover have "engine_laws E slots" if "hs_notes sample_history = Some (E, s)" for E s slots
    using that by (simp add: sample_history_def)
  ultimately show ?thesis
    using history_sections [OF _ _ plain sample_recent p, of map_of "\<lambda>_ _. None"] p sample_recent by auto
qed

end
