(* ===== verification/Config.thy ===== *)
theory Config
  imports Authmap Sso Address Crm
begin

text \<open>
  The configuration, \<^verbatim>\<open>internal/config/config.go\<close>: the secrets read from files, the folding of
  the shared account mapping, the validation of every section and the adapters of
  \<^verbatim>\<open>internal/app/app.go\<close> and \<^verbatim>\<open>chat.go\<close> that turn an accepted configuration into what the
  services are built from. Reading the sources and decoding them is the configuration
  library's work, so the decoded configuration is the input. Go's parsers of URLs, addresses
  and zone names are the parameter \<open>parsers\<close>. Go maps of accounts and identities are lists of
  their entries in the order a range visits them. A refusal is represented by its code;
  all of them are of the family Rejection.
\<close>

section \<open>The configuration\<close>

record url_parts =
  up_scheme :: string
  up_host :: string
  up_hostname :: string
  up_query :: string
  up_fragment :: string

record parsers =
  ps_url :: "string \<Rightarrow> url_parts option"
  ps_ip :: "string \<Rightarrow> bool"
  ps_cidr :: "string \<Rightarrow> bool"
  ps_zone :: "string \<Rightarrow> bool"

record gateway_config =
  cgw_mode :: string
  cgw_url :: string
  cgw_secret :: string
  cgw_secret_file :: string

record fax_config =
  cfx_receive :: "bool option"
  cfx_send :: "bool option"

record dashboard_config =
  cdb_enable :: bool
  cdb_title :: string

record ice_server =
  ice_urls :: "string list"
  ice_username :: string
  ice_credential :: string

record sip_config =
  csip_secret :: string
  csip_secret_file :: string

record turn_config =
  ctn_secret :: string
  ctn_ttl :: duration

record csrf_config =
  ccs_proxies :: "string list"
  ccs_origins :: "string list"

record crm_config =
  ccr_url :: string
  ccr_token :: string
  ccr_token_file :: string
  ccr_contact_url :: string
  ccr_ca_file :: string

record paperless_config =
  cpl_url :: string
  cpl_token :: string

record asr_config =
  cas_provider :: string
  cas_url :: string
  cas_token :: string
  cas_model :: string
  cas_project :: string
  cas_location :: string
  cas_language :: string

record textagent_config =
  cta_url :: string
  cta_secret_file :: string

record matrix_config =
  cmx_homeserver :: string
  cmx_user :: string
  cmx_token :: string
  cmx_owner :: string

record signal_config =
  csg_socket :: string
  csg_account :: string
  csg_owner :: string
  csg_attachments :: string

record push_config =
  cpu_ntfy_url :: string
  cpu_ntfy_token :: string
  cpu_fcm_file :: string

text \<open>An account is the \<open>account\<close> of the mapping: display name, extensions and the admin flag.\<close>

record passkey_config =
  cpk_rp_id :: string
  cpk_rp_name :: string
  cpk_origins :: "string list"
  cpk_users :: "(string \<times> account) list"
  cpk_files :: "(string, string) fmap"

record auth_config =
  cau_users :: "(string \<times> account) list"
  cau_files :: "(string, string) fmap"
  cau_passkey :: passkey_config
  cau_oauth2 :: sso_config

record config =
  cfg_addr :: string
  cfg_data_dir :: string
  cfg_sip_domain :: string
  cfg_websocket_path :: string
  cfg_phone_api_url :: string
  cfg_session_ttl :: duration
  cfg_session_max_ttl :: duration
  cfg_ice :: "ice_server list"
  cfg_contacts :: "(string \<times> string) list"
  cfg_identities :: "(string \<times> string) list"
  cfg_gateway :: gateway_config
  cfg_fax :: fax_config
  cfg_turn :: turn_config
  cfg_csrf :: csrf_config
  cfg_crm :: crm_config
  cfg_paperless :: paperless_config
  cfg_asr :: asr_config
  cfg_textagent :: textagent_config
  cfg_matrix :: matrix_config
  cfg_signal :: signal_config
  cfg_push :: push_config
  cfg_dial_cooldown :: duration
  cfg_weekly_budget :: duration
  cfg_retention_days :: int
  cfg_timezone :: string
  cfg_dashboard :: dashboard_config
  cfg_auth :: auth_config
  cfg_sip :: sip_config

text \<open>The values that hold where no source sets them; the lifetime of TURN credentials is seeded by \<^verbatim>\<open>Load\<close>.\<close>

definition no_passkey :: passkey_config where
  "no_passkey = \<lparr>cpk_rp_id = [], cpk_rp_name = [], cpk_origins = [], cpk_users = [], cpk_files = fmempty\<rparr>"

definition default_config :: config where
  "default_config =
     \<lparr>cfg_addr = '':8080'', cfg_data_dir = ''/var/lib/webphone'', cfg_sip_domain = [],
      cfg_websocket_path = ''/sip'', cfg_phone_api_url = [], cfg_session_ttl = 604800 * second,
      cfg_session_max_ttl = 2592000 * second, cfg_ice = [], cfg_contacts = [], cfg_identities = [],
      cfg_gateway = \<lparr>cgw_mode = ''loopback'', cgw_url = [], cgw_secret = [], cgw_secret_file = []\<rparr>,
      cfg_fax = \<lparr>cfx_receive = None, cfx_send = None\<rparr>,
      cfg_turn = \<lparr>ctn_secret = [], ctn_ttl = 172800 * second\<rparr>, cfg_csrf = \<lparr>ccs_proxies = [], ccs_origins = []\<rparr>,
      cfg_crm = \<lparr>ccr_url = [], ccr_token = [], ccr_token_file = [], ccr_contact_url = [], ccr_ca_file = []\<rparr>,
      cfg_paperless = \<lparr>cpl_url = [], cpl_token = []\<rparr>,
      cfg_asr = \<lparr>cas_provider = [], cas_url = [], cas_token = [], cas_model = [],
                  cas_project = [], cas_location = [], cas_language = []\<rparr>,
      cfg_textagent = \<lparr>cta_url = [], cta_secret_file = []\<rparr>,
      cfg_matrix = \<lparr>cmx_homeserver = [], cmx_user = [], cmx_token = [], cmx_owner = []\<rparr>,
      cfg_signal = \<lparr>csg_socket = [], csg_account = [], csg_owner = [], csg_attachments = []\<rparr>,
      cfg_push = \<lparr>cpu_ntfy_url = [], cpu_ntfy_token = [], cpu_fcm_file = []\<rparr>,
      cfg_dial_cooldown = 0, cfg_weekly_budget = 0, cfg_retention_days = 0, cfg_timezone = [], cfg_dashboard = \<lparr>cdb_enable = False, cdb_title = []\<rparr>,
      cfg_auth = \<lparr>cau_users = [], cau_files = fmempty, cau_passkey = no_passkey,
                  cau_oauth2 = \<lparr>sc_issuer = [], sc_client = [], sc_secret_file = [], sc_redirect = [], sc_scopes = [], sc_groups = []\<rparr>\<rparr>, cfg_sip = \<lparr>csip_secret = [], csip_secret_file = []\<rparr>\<rparr>"

section \<open>Which sections are on\<close>

definition bool_or :: "bool option \<Rightarrow> bool \<Rightarrow> bool" where
  "bool_or v def = (case v of None \<Rightarrow> def | Some b \<Rightarrow> b)"

definition send_enabled :: "fax_config \<Rightarrow> bool" where "send_enabled f = bool_or (cfx_send f) True"
definition receive_enabled :: "fax_config \<Rightarrow> bool" where "receive_enabled f = bool_or (cfx_receive f) True"
definition any_fax_enabled :: "fax_config \<Rightarrow> bool" where "any_fax_enabled f \<longleftrightarrow> send_enabled f \<or> receive_enabled f"

definition derived_credentials :: "sip_config \<Rightarrow> bool" where
  "derived_credentials s \<longleftrightarrow> csip_secret s \<noteq> []"

definition oauth2_enabled :: "sso_config \<Rightarrow> bool" where
  "oauth2_enabled o2 \<longleftrightarrow>
     sc_issuer o2 \<noteq> [] \<or> sc_client o2 \<noteq> [] \<or> sc_secret_file o2 \<noteq> [] \<or> sc_redirect o2 \<noteq> [] \<or> sc_groups o2 \<noteq> []"

definition passkey_enabled :: "passkey_config \<Rightarrow> bool" where
  "passkey_enabled p \<longleftrightarrow> cpk_rp_id p \<noteq> [] \<or> cpk_origins p \<noteq> [] \<or> cpk_users p \<noteq> []"

definition paperless_enabled :: "paperless_config \<Rightarrow> bool" where
  "paperless_enabled p \<longleftrightarrow> cpl_url p \<noteq> [] \<and> cpl_token p \<noteq> []"

definition asr_google :: "asr_config \<Rightarrow> bool" where
  "asr_google a \<longleftrightarrow> cas_provider a = ''google''"

definition asr_enabled :: "asr_config \<Rightarrow> bool" where
  "asr_enabled a = (if asr_google a then cas_project a \<noteq> [] else cas_url a \<noteq> [])"

definition textagent_enabled :: "textagent_config \<Rightarrow> bool" where
  "textagent_enabled t \<longleftrightarrow> cta_url t \<noteq> []"

definition matrix_enabled :: "matrix_config \<Rightarrow> bool" where
  "matrix_enabled m \<longleftrightarrow> cmx_homeserver m \<noteq> []"

definition signal_enabled :: "signal_config \<Rightarrow> bool" where
  "signal_enabled s \<longleftrightarrow> csg_socket s \<noteq> []"

definition push_enabled :: "push_config \<Rightarrow> bool" where
  "push_enabled p \<longleftrightarrow> cpu_ntfy_url p \<noteq> [] \<or> cpu_fcm_file p \<noteq> []"

section \<open>Refusals\<close>

definition refuse :: "bool \<Rightarrow> string \<Rightarrow> string option" where
  "refuse b code = (if b then Some code else None)"

fun first_of :: "string option list \<Rightarrow> string option" where
  "first_of [] = None"
| "first_of (None # rs) = first_of rs"
| "first_of (Some code # rs) = Some code"

definition web_url :: "parsers \<Rightarrow> string \<Rightarrow> bool" where
  "web_url P raw \<longleftrightarrow>
     (case ps_url P raw of
        None \<Rightarrow> False
      | Some u \<Rightarrow> (up_scheme u = ''http'' \<or> up_scheme u = ''https'') \<and> up_host u \<noteq> [])"

section \<open>Validation\<close>

definition validate_gateway :: "gateway_config \<Rightarrow> string option" where
  "validate_gateway g =
     first_of
      [refuse (cgw_mode g \<notin> {''loopback'', ''webhook''}) ''config.gateway.mode'',
       refuse (cgw_mode g = ''webhook'' \<and> cgw_url g = []) ''config.gateway.webhook_url'']"

definition turn_url :: "parsers \<Rightarrow> string \<Rightarrow> bool" where
  "turn_url P raw \<longleftrightarrow>
     (case ps_url P raw of None \<Rightarrow> False | Some u \<Rightarrow> up_scheme u = ''turn'' \<or> up_scheme u = ''turns'')"

definition validate_turn :: "parsers \<Rightarrow> turn_config \<Rightarrow> ice_server list \<Rightarrow> string option" where
  "validate_turn P t ice =
     (if ctn_secret t = [] then None
      else
        first_of
         [refuse (ctn_ttl t \<le> 0) ''config.turn_rest.ttl'',
          refuse (\<not> list_ex (\<lambda>server. list_ex (turn_url P) (ice_urls server)) ice) ''config.turn_rest.dead_secret''])"

definition absolute_origin :: "parsers \<Rightarrow> string \<Rightarrow> bool" where
  "absolute_origin P origin \<longleftrightarrow>
     (case ps_url P origin of None \<Rightarrow> False | Some u \<Rightarrow> up_scheme u \<noteq> [] \<and> up_host u \<noteq> [])"

definition validate_csrf :: "parsers \<Rightarrow> csrf_config \<Rightarrow> string option" where
  "validate_csrf P c =
     first_of
      [refuse (\<not> list_all (absolute_origin P) (ccs_origins c)) ''config.csrf.trusted_origins'',
       refuse (list_ex (\<lambda>p. \<not> ps_ip P p \<and> \<not> ps_cidr P p) (ccs_proxies c)) ''config.csrf.trusted_proxies'']"

definition normalized_extension :: "string \<Rightarrow> bool" where
  "normalized_extension raw \<longleftrightarrow> parse_extension raw = Inr (Extension raw)"

definition dialable :: "string \<Rightarrow> bool" where
  "dialable raw \<longleftrightarrow> (case parse_phone raw of Inl _ \<Rightarrow> False | Inr _ \<Rightarrow> True)"

definition validate_paperless :: "parsers \<Rightarrow> paperless_config \<Rightarrow> string option" where
  "validate_paperless P p =
     (if cpl_url p = [] \<and> cpl_token p = [] then None
      else
        first_of
         [refuse (cpl_url p = []) ''config.paperless.url'',
          refuse (cpl_token p = []) ''config.paperless.token'',
          refuse (\<not> web_url P (cpl_url p)) ''config.paperless.url''])"

definition email_shaped :: "string \<Rightarrow> bool" where
  "email_shaped email \<longleftrightarrow> CHR ''@'' \<in> set email \<and> \<not> has_prefix ''@'' email \<and> \<not> has_suffix ''@'' email"

definition line_refusal :: "(string, string) fmap \<Rightarrow> string \<Rightarrow> string option" where
  "line_refusal files raw =
     first_of
      [refuse (\<not> normalized_extension raw) ''config.auth.passkey.users'',
       refuse (go_lookup files raw = []) ''config.auth.passkey.extension_password_files'']"

definition account_refusal :: "(string, string) fmap \<Rightarrow> string \<times> account \<Rightarrow> string option" where
  "account_refusal files entry =
     (case entry of (email, u) \<Rightarrow>
        first_of
         ([refuse (\<not> email_shaped email) ''config.auth.passkey.users'',
           refuse (ac_extensions u = []) ''config.auth.passkey.users''] @
          map (line_refusal files) (ac_extensions u)))"

definition origin_refusal :: "parsers \<Rightarrow> string \<Rightarrow> string \<Rightarrow> string option" where
  "origin_refusal P rp_id origin =
     (if \<not> web_url P origin then Some ''config.auth.passkey.rp_origins''
      else refuse (map_option up_hostname (ps_url P origin) \<noteq> Some rp_id) ''config.auth.passkey.rp_id'')"

definition validate_passkey :: "parsers \<Rightarrow> passkey_config \<Rightarrow> string option" where
  "validate_passkey P p =
     (if \<not> passkey_enabled p then None
      else
        first_of
         ([refuse (cpk_rp_id p = []) ''config.auth.passkey.rp_id'',
           refuse (cpk_origins p = []) ''config.auth.passkey.rp_origins''] @
          map (origin_refusal P (cpk_rp_id p)) (cpk_origins p) @
          [refuse (cpk_users p = []) ''config.auth.passkey.users''] @
          map (account_refusal (cpk_files p)) (cpk_users p)))"

text \<open>The mapping that the adapters read, too: the shared one, or the historical one.\<close>

definition auth_accounts :: "auth_config \<Rightarrow> (string \<times> account) list" where
  "auth_accounts a = (if cau_users a = [] then cpk_users (cau_passkey a) else cau_users a)"

definition validate_admin_users :: "auth_config \<Rightarrow> string option" where
  "validate_admin_users a =
     refuse (list_ex (\<lambda>(_, u). ac_admin u \<and> ac_extensions u = []) (auth_accounts a)) ''config.auth.users''"

definition bare_issuer :: "parsers \<Rightarrow> string \<Rightarrow> bool" where
  "bare_issuer P raw \<longleftrightarrow>
     (case ps_url P raw of
        None \<Rightarrow> False
      | Some u \<Rightarrow> up_scheme u = ''https'' \<and> up_host u \<noteq> [] \<and> up_query u = [] \<and> up_fragment u = [])"

definition https_url :: "parsers \<Rightarrow> string \<Rightarrow> bool" where
  "https_url P raw \<longleftrightarrow>
     (case ps_url P raw of None \<Rightarrow> False | Some u \<Rightarrow> up_scheme u = ''https'' \<and> up_host u \<noteq> [])"

definition validate_oauth2 :: "parsers \<Rightarrow> sso_config \<Rightarrow> string option" where
  "validate_oauth2 P o2 =
     (if \<not> oauth2_enabled o2 then None
      else
        first_of
         [refuse (sc_issuer o2 = []) ''config.auth.oauth2.issuer'',
          refuse (\<not> bare_issuer P (sc_issuer o2)) ''config.auth.oauth2.issuer'',
          refuse (sc_client o2 = []) ''config.auth.oauth2.client_id'',
          refuse (sc_secret_file o2 = []) ''config.auth.oauth2.client_secret_file'',
          refuse (sc_redirect o2 = []) ''config.auth.oauth2.redirect_url'',
          refuse (\<not> https_url P (sc_redirect o2)) ''config.auth.oauth2.redirect_url'',
          refuse (''openid'' \<notin> set (sc_scopes o2)) ''config.auth.oauth2.scopes''])"

definition validate_textagent :: "parsers \<Rightarrow> textagent_config \<Rightarrow> string option" where
  "validate_textagent P t =
     first_of
      [refuse (cta_url t = [] \<and> cta_secret_file t \<noteq> []) ''config.textagent.url'',
       refuse (cta_url t \<noteq> [] \<and> cta_secret_file t = []) ''config.textagent.secret_file'',
       refuse (cta_url t \<noteq> [] \<and> \<not> web_url P (cta_url t)) ''config.textagent.url'']"

definition parses :: "err + 'a \<Rightarrow> bool" where
  "parses r \<longleftrightarrow> (case r of Inl _ \<Rightarrow> False | Inr _ \<Rightarrow> True)"

definition validate_matrix :: "parsers \<Rightarrow> matrix_config \<Rightarrow> string option" where
  "validate_matrix P m =
     (if \<not> matrix_enabled m then None
      else
        first_of
         [refuse (cmx_user m = []) ''config.matrix.user_id'',
          refuse (cmx_token m = []) ''config.matrix.access_token'',
          refuse (cmx_owner m = []) ''config.matrix.owner'',
          refuse (\<not> web_url P (cmx_homeserver m)) ''config.matrix.homeserver'',
          refuse (\<not> parses (parse_address Network_Matrix (cmx_user m))) ''config.matrix.user_id'',
          refuse (\<not> parses (parse_extension (cmx_owner m))) ''config.matrix.owner''])"

definition validate_signal :: "signal_config \<Rightarrow> string option" where
  "validate_signal s =
     (if \<not> signal_enabled s then None
      else
        first_of
         [refuse (csg_account s = []) ''config.signal.account'',
          refuse (csg_owner s = []) ''config.signal.owner'',
          refuse (\<not> has_prefix ''/'' (csg_socket s)) ''config.signal.socket_path'',
          refuse (csg_attachments s \<noteq> [] \<and> \<not> has_prefix ''/'' (csg_attachments s)) ''config.signal.attachments_dir'',
          refuse (\<not> parses (parse_extension (csg_owner s))) ''config.signal.owner''])"

definition validate_asr :: "parsers \<Rightarrow> asr_config \<Rightarrow> string option" where
  "validate_asr P a =
     first_of
      [refuse (cas_provider a \<notin> {[], ''openai'', ''google'', ''whispercpp''}) ''config.asr.provider'',
       refuse (asr_google a \<and> cas_project a = []) ''config.asr.project'',
       refuse (asr_google a \<and> list_ex (\<lambda>c. c = CHR ''/'' \<or> c = CHR '' '') (cas_project a @ cas_location a)) ''config.asr.project'',
       refuse (\<not> asr_google a \<and> cas_url a = [] \<and> cas_token a \<noteq> []) ''config.asr.url'',
       refuse (cas_url a \<noteq> [] \<and> \<not> web_url P (cas_url a)) ''config.asr.url'']"

definition validate_crm :: "parsers \<Rightarrow> crm_config \<Rightarrow> string option" where
  "validate_crm P c =
     (if ccr_url c = [] \<and> ccr_token c = [] then None
      else
        first_of
         [refuse (ccr_url c = []) ''config.crm.url'',
          refuse (ccr_token c = []) ''config.crm.token'',
          refuse (\<not> web_url P (ccr_url c)) ''config.crm.url''])"

definition validate_crm_contact_url :: "parsers \<Rightarrow> crm_config \<Rightarrow> string option" where
  "validate_crm_contact_url P c =
     (if ccr_contact_url c = [] then None
      else
        refuse (ccr_url c = [] \<or> \<not> str_contains ''{id}'' (ccr_contact_url c) \<or>
                \<not> web_url P (replace_first ''{id}'' ''x'' (ccr_contact_url c)))
          ''config.crm.contact_url'')"

definition validate_crm_ca_file :: "crm_config \<Rightarrow> string option" where
  "validate_crm_ca_file c = refuse (ccr_ca_file c \<noteq> [] \<and> ccr_url c = []) ''config.crm.ca_file''"

definition validate_dial :: "duration \<Rightarrow> string option" where
  "validate_dial cooldown = refuse (cooldown < 0) ''config.dial.cooldown''"

definition validate_reports :: "duration \<Rightarrow> string option" where
  "validate_reports budget = refuse (budget < 0) ''config.reports.weekly_talk_budget''"

definition validate_push :: "parsers \<Rightarrow> push_config \<Rightarrow> string option" where
  "validate_push P p =
     refuse (cpu_ntfy_url p = [] \<and> cpu_ntfy_token p \<noteq> [] \<or> cpu_ntfy_url p \<noteq> [] \<and> \<not> web_url P (cpu_ntfy_url p))
       ''config.push.ntfy.url''"

definition validate_identities :: "(string \<times> string) list \<Rightarrow> string option" where
  "validate_identities ids =
     refuse (list_ex (\<lambda>(ext, did). \<not> normalized_extension ext \<or> \<not> dialable did) ids) ''config.identities''"

definition validate_config :: "parsers \<Rightarrow> config \<Rightarrow> string option" where
  "validate_config P c =
     first_of
      [validate_gateway (cfg_gateway c),
       refuse (cfg_addr c = []) ''config.addr'',
       refuse (cfg_data_dir c = []) ''config.data_dir'',
       refuse (cfg_session_ttl c \<le> 0) ''config.session_ttl'',
       refuse (cfg_retention_days c < 0) ''config.retention_days'',
       refuse (cfg_timezone c \<noteq> [] \<and> \<not> ps_zone P (cfg_timezone c)) ''config.timezone'',
       validate_turn P (cfg_turn c) (cfg_ice c),
       refuse (cfg_session_max_ttl c < cfg_session_ttl c) ''config.session_max_ttl'',
       validate_csrf P (cfg_csrf c),
       validate_identities (cfg_identities c),
       refuse (\<not> list_all (\<lambda>(_, number). dialable number) (cfg_contacts c)) ''config.contacts'',
       validate_paperless P (cfg_paperless c),
       validate_passkey P (cau_passkey (cfg_auth c)),
       validate_admin_users (cfg_auth c),
       validate_oauth2 P (cau_oauth2 (cfg_auth c)),
       validate_textagent P (cfg_textagent c),
       validate_matrix P (cfg_matrix c),
       validate_signal (cfg_signal c),
       validate_asr P (cfg_asr c),
       validate_crm P (cfg_crm c),
       validate_crm_contact_url P (cfg_crm c),
       validate_crm_ca_file (cfg_crm c),
       validate_dial (cfg_dial_cooldown c),
       validate_reports (cfg_weekly_budget c),
       validate_push P (cfg_push c)]"

section \<open>Loading\<close>

definition same_user_map :: "(string \<times> account) list \<Rightarrow> (string \<times> account) list \<Rightarrow> bool" where
  "same_user_map a b \<longleftrightarrow>
     length a = length b \<and>
     list_all (\<lambda>(email, u).
        case map_of b email of
          None \<Rightarrow> False
        | Some v \<Rightarrow> ac_name v = ac_name u \<and> ac_admin v = ac_admin u \<and> ac_extensions v = ac_extensions u) a"

definition files_disagree :: "(string, string) fmap \<Rightarrow> (string, string) fmap \<Rightarrow> bool" where
  "files_disagree shared own \<longleftrightarrow>
     (\<exists>ext |\<in>| fmdom shared. fmlookup own ext \<noteq> None \<and> fmlookup own ext \<noteq> fmlookup shared ext)"

definition resolved_auth :: "auth_config \<Rightarrow> string + auth_config" where
  "resolved_auth a =
     (let p = cau_passkey a in
      if cau_users a = [] then Inr a
      else if cpk_users p \<noteq> [] \<and> \<not> same_user_map (cau_users a) (cpk_users p) then Inl ''config.auth.users''
      else if files_disagree (cau_files a) (cpk_files p) then Inl ''config.auth.extension_password_files''
      else Inr (a\<lparr>cau_passkey := p\<lparr>cpk_users := cau_users a, cpk_files := cpk_files p ++\<^sub>f cau_files a\<rparr>\<rparr>))"

text \<open>A secret that is given in the configuration or in a file, whose reading is the argument.\<close>

definition read_secret ::
  "(string \<Rightarrow> string option) \<Rightarrow> string \<Rightarrow> string \<Rightarrow> string \<Rightarrow> string \<Rightarrow> string + string" where
  "read_secret read both code inline path =
     (if path \<noteq> [] \<and> inline \<noteq> [] then Inl both
      else if path = [] then Inr inline
      else
        (case read path of
           None \<Rightarrow> Inl code
         | Some data \<Rightarrow> if trim_space data = [] then Inl code else Inr (trim_space data)))"

definition load_config :: "parsers \<Rightarrow> (string \<Rightarrow> string option) \<Rightarrow> config \<Rightarrow> string + config" where
  "load_config P read c =
     (case read_secret read ''config.gateway_secret_sources'' ''config.webhook_secret_file''
             (cgw_secret (cfg_gateway c)) (cgw_secret_file (cfg_gateway c)) of
        Inl code \<Rightarrow> Inl code
      | Inr gs \<Rightarrow>
     (case read_secret read ''config.sip.credential_secret_sources'' ''config.sip.credential_secret_file''
             (csip_secret (cfg_sip c)) (csip_secret_file (cfg_sip c)) of
        Inl code \<Rightarrow> Inl code
      | Inr ss \<Rightarrow>
     (case read_secret read ''config.crm.token_sources'' ''config.crm.token_file''
             (ccr_token (cfg_crm c)) (ccr_token_file (cfg_crm c)) of
        Inl code \<Rightarrow> Inl code
      | Inr tok \<Rightarrow>
     (case resolved_auth (cfg_auth c) of
        Inl code \<Rightarrow> Inl code
      | Inr a \<Rightarrow>
          (let c' = c\<lparr>cfg_gateway := (cfg_gateway c)\<lparr>cgw_secret := gs\<rparr>, cfg_sip := (cfg_sip c)\<lparr>csip_secret := ss\<rparr>,
                      cfg_crm := (cfg_crm c)\<lparr>ccr_token := tok\<rparr>, cfg_auth := a\<rparr> in
           case validate_config P c' of Some code \<Rightarrow> Inl code | None \<Rightarrow> Inr c')))))"

text \<open>\<^verbatim>\<open>strings.ReplaceAll\<close> of a non-empty text.\<close>

function replace_all :: "string \<Rightarrow> string \<Rightarrow> string \<Rightarrow> string" where
  "replace_all old new [] = []"
| "replace_all old new (c # cs) =
     (if old \<noteq> [] \<and> has_prefix old (c # cs) then new @ replace_all old new (drop (length old) (c # cs))
      else c # replace_all old new cs)"
  by pat_completeness auto
termination
  by (relation "measure (\<lambda>(_, _, s). length s)") auto

definition env_key_to_path :: "(string \<Rightarrow> string) \<Rightarrow> string \<Rightarrow> string" where
  "env_key_to_path lower key = replace_all ''__'' ''.'' (trim_prefix ''webphone_'' (lower key))"

section \<open>The adapters\<close>

definition auth_files :: "auth_config \<Rightarrow> (string, string) fmap" where
  "auth_files a = (if cau_files a = fmempty then cpk_files (cau_passkey a) else cau_files a)"

definition passkey_runtime :: "(string \<Rightarrow> string) \<Rightarrow> passkey_config \<Rightarrow> err + authmap" where
  "passkey_runtime lower p = login_map lower (cpk_users p) (cpk_files p)"

definition sso_runtime :: "(string \<Rightarrow> string) \<Rightarrow> auth_config \<Rightarrow> err + sso_client" where
  "sso_runtime lower a =
     (case runtime_users False (auth_accounts a) of
        Inl e \<Rightarrow> Inl e
      | Inr us \<Rightarrow> sso_new lower (cau_oauth2 a) us (auth_files a))"

definition config_admin :: "(string \<Rightarrow> string) \<Rightarrow> config \<Rightarrow> err + admin option" where
  "config_admin lower c =
     admin_service lower (auth_accounts (cfg_auth c)) (auth_files (cfg_auth c)) (fmap_of_list (cfg_identities c))"

definition matrix_owner :: "matrix_config \<Rightarrow> err + extension option" where
  "matrix_owner m =
     (if \<not> matrix_enabled m then Inr None
      else (case must_parse_extension (cmx_owner m) of Inl e \<Rightarrow> Inl e | Inr x \<Rightarrow> Inr (Some x)))"

definition signal_owner :: "signal_config \<Rightarrow> err + extension option" where
  "signal_owner s =
     (if \<not> signal_enabled s then Inr None
      else (case must_parse_extension (csg_owner s) of Inl e \<Rightarrow> Inl e | Inr x \<Rightarrow> Inr (Some x)))"

text \<open>A deployment without any configuration starts.\<close>

lemma default_accepted: "load_config P read default_config = Inr default_config"
  by (simp add: load_config_def read_secret_def resolved_auth_def validate_config_def default_config_def no_passkey_def
      validate_gateway_def validate_turn_def validate_csrf_def validate_identities_def validate_paperless_def
      validate_passkey_def passkey_enabled_def validate_admin_users_def auth_accounts_def validate_oauth2_def
      oauth2_enabled_def validate_textagent_def validate_matrix_def matrix_enabled_def validate_signal_def
      signal_enabled_def validate_asr_def asr_google_def validate_crm_def validate_crm_contact_url_def
      validate_crm_ca_file_def validate_dial_def validate_reports_def validate_push_def refuse_def second_def)

section \<open>What an accepted configuration guarantees\<close>

lemma first_of_None: "first_of rs = None \<longleftrightarrow> (\<forall>r \<in> set rs. r = None)"
proof (induction rs)
  case (Cons r rs)
  then show ?case by (cases r) auto
qed simp

lemma refuse_None [simp]: "refuse b code = None \<longleftrightarrow> \<not> b"
  by (simp add: refuse_def)

text \<open>The accounts of a mapping that the validation lets pass.\<close>

definition sound_account :: "(string, string) fmap \<Rightarrow> account \<Rightarrow> bool" where
  "sound_account files u \<longleftrightarrow>
     ac_extensions u \<noteq> [] \<and> (\<forall>raw \<in> set (ac_extensions u). normalized_extension raw \<and> go_lookup files raw \<noteq> [])"

lemma passkey_sound:
  assumes "validate_passkey P p = None" "(email, u) \<in> set (cpk_users p)"
  shows "cpk_rp_id p \<noteq> []" "cpk_origins p \<noteq> []" "email_shaped email" "sound_account (cpk_files p) u"
proof -
  have "passkey_enabled p" using assms(2) by (auto simp: passkey_enabled_def)
  with assms have all: "cpk_rp_id p \<noteq> []" "cpk_origins p \<noteq> []" "account_refusal (cpk_files p) (email, u) = None"
    by (auto simp: validate_passkey_def first_of_None)
  then show "cpk_rp_id p \<noteq> []" "cpk_origins p \<noteq> []" by simp_all
  from all(3) show "email_shaped email" "sound_account (cpk_files p) u"
    by (auto simp: account_refusal_def line_refusal_def first_of_None sound_account_def)
qed

lemma normalized_lines:
  "(\<forall>raw \<in> set raws. normalized_extension raw) \<Longrightarrow> account_extensions raws = Inr (map Extension raws)"
  by (induction raws) (auto simp: normalized_extension_def)

definition user_of_account :: "bool \<Rightarrow> string \<times> account \<Rightarrow> string \<times> mapped_user" where
  "user_of_account admins entry =
     (case entry of (email, a) \<Rightarrow>
        (email, \<lparr>mu_email = email, mu_name = ac_name a, mu_extensions = map Extension (ac_extensions a),
                 mu_admin = (admins \<and> ac_admin a)\<rparr>))"

lemma sound_runtime:
  "(\<forall>(email, u) \<in> set us. \<forall>raw \<in> set (ac_extensions u). normalized_extension raw) \<Longrightarrow>
     runtime_users admins us = Inr (map (user_of_account admins) us)"
  by (induction us) (auto simp: user_of_account_def normalized_lines)

definition lines_have_files :: "(string, string) fmap \<Rightarrow> (string \<times> account) list \<Rightarrow> bool" where
  "lines_have_files files us \<longleftrightarrow> (\<forall>(email, u) \<in> set us. \<forall>raw \<in> set (ac_extensions u). go_lookup files raw \<noteq> [])"

lemma new_users_verdict:
  "(\<exists>m'. new_users lower files (map (user_of_account admins) us) m = Inr m') \<longleftrightarrow> lines_have_files files us"
  "new_users lower files (map (user_of_account admins) us) m = Inl e \<Longrightarrow>
     e = Coded Rejection ''authmap.password_file.missing''"
proof (induction us arbitrary: m)
  case (Cons entry us)
  obtain email u where e: "entry = (email, u)" by fastforce
  {
    case 1
    then show ?case using Cons.IH(1) e by (auto simp: user_of_account_def lines_have_files_def list_ex_iff)
  next
    case 2
    then show ?case using Cons.IH(2) e by (auto simp: user_of_account_def split: if_splits)
  }
qed (simp_all add: lines_have_files_def)

lemma authmap_verdict:
  "(\<exists>m'. authmap_new lower (map (user_of_account admins) us) files = Inr m') \<longleftrightarrow> lines_have_files files us"
  "authmap_new lower (map (user_of_account admins) us) files = Inl e \<Longrightarrow>
     e = Coded Rejection ''authmap.password_file.missing''"
  using new_users_verdict [of lower files admins us fmempty] by (auto simp: authmap_new_def split: sum.splits)

definition keyed_as :: "(string \<Rightarrow> string) \<Rightarrow> string \<Rightarrow> (string \<times> 'a) list \<Rightarrow> (string \<times> 'a) list" where
  "keyed_as lower key us = filter (\<lambda>(email, _). email_key lower email = key) us"

lemma new_users_last:
  "new_users lower files us m = Inr m' \<Longrightarrow>
     fmlookup m' key = (if keyed_as lower key us = [] then fmlookup m key else Some (snd (last (keyed_as lower key us))))"
  by (induction lower files us m rule: new_users.induct) (auto simp: keyed_as_def split: if_splits)

lemma keyed_as_users:
  "keyed_as lower key (map (user_of_account admins) us) = map (user_of_account admins) (keyed_as lower key us)"
  by (auto simp: keyed_as_def filter_map comp_def user_of_account_def split: prod.splits intro!: arg_cong [of _ _ "map _"] filter_cong)

lemma map_last_account:
  assumes m: "authmap_new lower (map (user_of_account admins) us) files = Inr m" and u: "(email, u) \<in> set us"
  shows "resolve lower (Some m) email =
    Some (snd (user_of_account admins (last (keyed_as lower (email_key lower email) us))))"
proof -
  have new: "new_users lower files (map (user_of_account admins) us) fmempty = Inr (am_users m)"
    using m by (auto simp: authmap_new_def split: sum.splits)
  have some: "keyed_as lower (email_key lower email) us \<noteq> []"
    using u by (auto simp: keyed_as_def filter_empty_conv)
  with new_users_last [OF new, of "email_key lower email"] show ?thesis
    by (simp add: keyed_as_users resolve_def last_map)
qed

lemma load_accepted:
  assumes "load_config P read raw = Inr c"
  shows "validate_config P c = None" "resolved_auth (cfg_auth raw) = Inr (cfg_auth c)"
  using assms by (auto simp: load_config_def Let_def split: sum.splits option.splits)

lemma resolved_accounts:
  assumes "resolved_auth a0 = Inr a"
  shows "auth_accounts a = cpk_users (cau_passkey a)"
  using assms by (auto simp: resolved_auth_def auth_accounts_def Let_def split: if_splits)

lemma parses_must: "parses (parse_extension raw) \<Longrightarrow> \<exists>x. must_parse_extension raw = Inr x"
  by (auto simp: parses_def must_parse_extension_def must_def split: sum.splits)

lemma accepted_sections:
  assumes "validate_config P c = None"
  shows "validate_passkey P (cau_passkey (cfg_auth c)) = None" "validate_oauth2 P (cau_oauth2 (cfg_auth c)) = None"
    "validate_identities (cfg_identities c) = None" "validate_matrix P (cfg_matrix c) = None"
    "validate_signal (cfg_signal c) = None"
  using assms by (simp_all add: validate_config_def first_of_None)

lemma owners_parse:
  "validate_matrix P m = None \<Longrightarrow> \<exists>o'. matrix_owner m = Inr o'"
  "validate_signal s = None \<Longrightarrow> \<exists>o'. signal_owner s = Inr o'"
  by (auto simp: validate_matrix_def validate_signal_def matrix_owner_def signal_owner_def first_of_None
      split: if_splits dest!: parses_must)

lemma identities_accepted:
  assumes "validate_identities ids = None"
  shows "admin_new us (fmap_of_list ids) = Inr \<lparr>ad_users = us, ad_identities = fmap_of_list ids\<rparr>"
proof -
  have "fBall (fmdom (fmap_of_list ids)) (\<lambda>k. parse_extension k = Inr (Extension k))"
    using assms by (force simp: validate_identities_def list_ex_iff normalized_extension_def fset_of_list_elem)
  then show ?thesis by (simp add: admin_new_def)
qed

lemma oauth2_accepted:
  assumes "validate_oauth2 P o2 = None" "oauth2_enabled o2"
  shows "''openid'' \<in> set (sc_scopes o2)" "sc_issuer o2 \<noteq> []" "sc_client o2 \<noteq> []" "sc_secret_file o2 \<noteq> []" "sc_redirect o2 \<noteq> []"
  using assms by (simp_all add: validate_oauth2_def first_of_None)

lemma admin_verdict:
  assumes runtime: "runtime_users True us = Inr (map (user_of_account True) us)"
    and ids: "validate_identities ids = None"
  shows "admin_service lower us files (fmap_of_list ids) = Inl e \<Longrightarrow> e = Coded Rejection ''authmap.password_file.missing''"
    "\<not> lines_have_files files us \<Longrightarrow>
       (if list_ex (\<lambda>(_, u). ac_admin u) us then \<exists>e. admin_service lower us files (fmap_of_list ids) = Inl e
        else admin_service lower us files (fmap_of_list ids) = Inr None)"
proof -
  let ?r = "authmap_new lower (map (user_of_account True) us) files"
  have service: "admin_service lower us files (fmap_of_list ids) = (case ?r of
        Inl e \<Rightarrow> if list_ex (\<lambda>(_, u). ac_admin u) us then Inl e else Inr None
      | Inr m \<Rightarrow> Inr (Some \<lparr>ad_users = Some m, ad_identities = fmap_of_list ids\<rparr>))"
    by (simp add: admin_service_def runtime identities_accepted [OF ids] split: sum.split)
  show "admin_service lower us files (fmap_of_list ids) = Inl e \<Longrightarrow> e = Coded Rejection ''authmap.password_file.missing''"
    using authmap_verdict(2) [of lower True us files] by (auto simp: service split: sum.splits if_splits)
  assume "\<not> lines_have_files files us"
  then obtain e where "?r = Inl e" using authmap_verdict(1) [of lower True us files] by (cases ?r) auto
  then show "if list_ex (\<lambda>(_, u). ac_admin u) us then \<exists>e. admin_service lower us files (fmap_of_list ids) = Inl e
      else admin_service lower us files (fmap_of_list ids) = Inr None"
    by (simp add: service)
qed

lemma sso_verdict:
  assumes runtime: "runtime_users False us = Inr (map (user_of_account False) us)" and accounts: "auth_accounts a = us"
    and ok: "validate_oauth2 P (cau_oauth2 a) = None" "oauth2_enabled (cau_oauth2 a)"
  shows "if lines_have_files (auth_files a) us then \<exists>s. sso_runtime lower a = Inr s
    else sso_runtime lower a = Inl (Coded Rejection ''sso.mapping'')"
proof (cases "authmap_new lower (map (user_of_account False) us) (auth_files a)")
  case (Inl e)
  then have "\<not> lines_have_files (auth_files a) us" using authmap_verdict(1) [of lower False us "auth_files a"] by auto
  with Inl oauth2_accepted [OF ok] show ?thesis by (simp add: sso_runtime_def accounts runtime sso_new_def)
next
  case (Inr m)
  then have "lines_have_files (auth_files a) us" using authmap_verdict(1) [of lower False us "auth_files a"] by auto
  with Inr oauth2_accepted [OF ok] show ?thesis by (simp add: sso_runtime_def accounts runtime sso_new_def)
qed

text \<open>
  C12. An accepted configuration cannot panic the adapters, but it can fail the boot. Whatever
  the files and the parsers say, every login mode of an accepted configuration reads one list
  of accounts, whose extensions parse, as do the owners of the chat lanes, and the
  passkey mapping is built: an e-mail is the account that the range over the map meets last
  among those with the same folded e-mail. The admin surface refuses only for a missing password
  file. But the password files are not one map: the OIDC client and the admin
  surface look in the shared files alone when there are any, so a line whose file is
  declared in the passkey section passes the validation and makes the OIDC mode refuse the boot
  and the admin surface vanish (or refuse, with an admin among the accounts). And no mode stands alone:
  as soon as accounts are mapped the passkey section must name its relying party, and
  the OIDC section its scopes.
\<close>

theorem config_boots:
  assumes load: "load_config P read raw = Inr c" and a: "a = cfg_auth c" and us: "us = cpk_users (cau_passkey a)"
  shows "auth_accounts a = us \<and>
    (\<forall>admins. runtime_users admins us = Inr (map (user_of_account admins) us)) \<and>
    (\<exists>x y. matrix_owner (cfg_matrix c) = Inr x \<and> signal_owner (cfg_signal c) = Inr y) \<and>
    (\<exists>m. passkey_runtime lower (cau_passkey a) = Inr m \<and>
      (\<forall>(email, u) \<in> set us. resolve lower (Some m) email =
        Some (snd (user_of_account False (last (keyed_as lower (email_key lower email) us)))))) \<and>
    (\<forall>e. config_admin lower c = Inl e \<longrightarrow> e = Coded Rejection ''authmap.password_file.missing'') \<and>
    (\<not> lines_have_files (auth_files a) us \<longrightarrow> cau_files a \<noteq> fmempty \<and>
      (if list_ex (\<lambda>(_, u). ac_admin u) us then \<exists>e. config_admin lower c = Inl e else config_admin lower c = Inr None)) \<and>
    (oauth2_enabled (cau_oauth2 a) \<longrightarrow> ''openid'' \<in> set (sc_scopes (cau_oauth2 a)) \<and>
      (if lines_have_files (auth_files a) us then \<exists>s. sso_runtime lower a = Inr s
       else sso_runtime lower a = Inl (Coded Rejection ''sso.mapping''))) \<and>
    (us \<noteq> [] \<longrightarrow> cpk_rp_id (cau_passkey a) \<noteq> [] \<and> cpk_origins (cau_passkey a) \<noteq> [])"
proof -
  let ?p = "cau_passkey a" and ?files = "auth_files a"
  note ok = accepted_sections [OF load_accepted(1) [OF load], folded a]
  note sound = passkey_sound [OF ok(1), folded us]
  have accounts: "auth_accounts a = us"
    using resolved_accounts [OF load_accepted(2) [OF load]] by (simp add: a us)
  have runtime: "runtime_users admins us = Inr (map (user_of_account admins) us)" for admins
    by (rule sound_runtime) (use sound(4) in \<open>auto simp: sound_account_def\<close>)
  have own: "lines_have_files (cpk_files ?p) us"
    using sound(4) by (auto simp: lines_have_files_def sound_account_def)
  obtain m where m: "authmap_new lower (map (user_of_account False) us) (cpk_files ?p) = Inr m"
    using authmap_verdict(1) own by blast
  then have passkey: "\<exists>m. passkey_runtime lower ?p = Inr m \<and> (\<forall>(email, u) \<in> set us. resolve lower (Some m) email =
      Some (snd (user_of_account False (last (keyed_as lower (email_key lower email) us)))))"
    using map_last_account [OF m] by (auto simp: passkey_runtime_def login_map_def us [symmetric] runtime)
  have service: "config_admin lower c = admin_service lower us ?files (fmap_of_list (cfg_identities c))"
    by (simp add: config_admin_def a [symmetric] accounts)
  note verdicts = admin_verdict [where us = us, OF runtime ok(3), where lower = lower and files = ?files, folded service]
  have split: "\<not> lines_have_files ?files us \<Longrightarrow> cau_files a \<noteq> fmempty"
    using own by (auto simp: auth_files_def)
  have named: "cpk_rp_id ?p \<noteq> [] \<and> cpk_origins ?p \<noteq> []" if "us \<noteq> []"
    using that sound(1,2) by (cases us) auto
  have owners: "\<exists>x y. matrix_owner (cfg_matrix c) = Inr x \<and> signal_owner (cfg_signal c) = Inr y"
    using owners_parse(1) [OF ok(4)] owners_parse(2) [OF ok(5)] by blast
  note sso = oauth2_accepted(1) [OF ok(2)] sso_verdict [OF runtime accounts ok(2)]
  show ?thesis
    by (intro conjI, rule accounts, intro allI, rule runtime, rule owners, rule passkey, intro allI impI, erule verdicts(1),
        intro impI conjI, erule split, erule verdicts(2), intro impI conjI, erule sso(1), erule sso(2), intro impI, erule named)
qed

text \<open>
  A deployment with both modes, whose two lines have their password files declared in two
  places, and the same deployment without a passkey section.
\<close>

definition sample_parsers :: parsers where
  "sample_parsers =
     \<lparr>ps_url = (\<lambda>raw. if has_prefix ''https://'' raw
        then Some \<lparr>up_scheme = ''https'', up_host = drop 8 raw, up_hostname = drop 8 raw, up_query = [], up_fragment = []\<rparr>
        else None),
      ps_ip = (\<lambda>_. False), ps_cidr = (\<lambda>_. False), ps_zone = (\<lambda>_. False)\<rparr>"

definition sample_oauth2 :: sso_config where
  "sample_oauth2 =
     \<lparr>sc_issuer = ''https://auth.x.org'', sc_client = ''webphone'', sc_secret_file = ''/run/oidc'',
      sc_redirect = ''https://pbx.x.org'', sc_scopes = [''openid''], sc_groups = []\<rparr>"

definition sample_users :: "(string \<times> account) list" where
  "sample_users = [(''a@x.org'', \<lparr>ac_name = ''Ann'', ac_extensions = [''1001'', ''1002''], ac_admin = False\<rparr>)]"

definition sample_auth :: auth_config where
  "sample_auth =
     \<lparr>cau_users = sample_users, cau_files = fmap_of_list [(''1001'', ''/run/p1'')],
      cau_passkey = \<lparr>cpk_rp_id = ''pbx.x.org'', cpk_rp_name = [], cpk_origins = [''https://pbx.x.org''], cpk_users = [],
                     cpk_files = fmap_of_list [(''1002'', ''/run/p2'')]\<rparr>,
      cau_oauth2 = sample_oauth2\<rparr>"

definition folded_auth :: auth_config where
  "folded_auth =
     sample_auth\<lparr>cau_passkey := (cau_passkey sample_auth)\<lparr>cpk_users := sample_users,
       cpk_files := fmap_of_list [(''1002'', ''/run/p2'')] ++\<^sub>f fmap_of_list [(''1001'', ''/run/p1'')]\<rparr>\<rparr>"

definition sample_config :: config where
  "sample_config = default_config\<lparr>cfg_auth := sample_auth\<rparr>"

lemma sample_resolved: "resolved_auth sample_auth = Inr folded_auth"
  by (simp add: resolved_auth_def sample_auth_def folded_auth_def files_disagree_def sample_users_def)

lemma sample_config_valid: "validate_config sample_parsers (sample_config\<lparr>cfg_auth := folded_auth\<rparr>) = None"
  by code_simp

lemma sample_load: "load_config sample_parsers read sample_config = Inr (sample_config\<lparr>cfg_auth := folded_auth\<rparr>)"
proof -
  have "cfg_auth sample_config = sample_auth" "cgw_secret_file (cfg_gateway sample_config) = []"
      "csip_secret_file (cfg_sip sample_config) = []" "ccr_token_file (cfg_crm sample_config) = []"
    by (simp_all add: sample_config_def default_config_def)
  then show ?thesis using sample_config_valid by (simp add: load_config_def read_secret_def sample_resolved)
qed

lemma sample_alone:
  "load_config sample_parsers read (sample_config\<lparr>cfg_auth := sample_auth\<lparr>cau_passkey := no_passkey\<rparr>\<rparr>)
   = Inl ''config.auth.passkey.rp_id''"
  by code_simp

theorem config_boots_witness:
  "\<exists>c m. load_config sample_parsers (\<lambda>_. None) sample_config = Inr c \<and>
     passkey_runtime (\<lambda>s. s) (cau_passkey (cfg_auth c)) = Inr m \<and>
     sso_runtime (\<lambda>s. s) (cfg_auth c) = Inl (Coded Rejection ''sso.mapping'') \<and>
     config_admin (\<lambda>s. s) c = Inr None \<and>
     load_config sample_parsers (\<lambda>_. None) (sample_config\<lparr>cfg_auth := sample_auth\<lparr>cau_passkey := no_passkey\<rparr>\<rparr>)
       = Inl ''config.auth.passkey.rp_id''"
proof -
  let ?c = "sample_config\<lparr>cfg_auth := folded_auth\<rparr>"
  have "cpk_users (cau_passkey folded_auth) = sample_users" "auth_files folded_auth = fmap_of_list [(''1001'', ''/run/p1'')]"
      "oauth2_enabled (cau_oauth2 folded_auth)"
    by (simp_all add: folded_auth_def auth_files_def sample_auth_def oauth2_enabled_def sample_oauth2_def)
  moreover have "\<not> lines_have_files (fmap_of_list [(''1001'', ''/run/p1'')]) sample_users"
      "\<not> list_ex (\<lambda>(_, u). ac_admin u) sample_users"
    by (simp_all add: lines_have_files_def sample_users_def go_lookup_def)
  ultimately show ?thesis
    using config_boots [OF sample_load [of "\<lambda>_. None"] refl refl, of "\<lambda>s. s"] sample_load [of "\<lambda>_. None"] sample_alone by auto
qed

end
