(* ===== verification/Legacy.thy ===== *)
theory Legacy
  imports Contacts Transcripts Faxes
begin

text \<open>
  The one-time imports of tables that older releases kept in SQL, \<^verbatim>\<open>internal/app/legacy.go\<close>
  with the readers and the row conversions of \<^verbatim>\<open>internal/store/legacy_*.go\<close>. A retired table is
  the list of its rows in rowid order, the flags are the map of \<^verbatim>\<open>app_flags\<close>. The identifiers
  and clocks of a run are inputs, indexed by the row. An append of a transcript segment may
  not return, so an import is a partial function of the collection.
\<close>

section \<open>Flags\<close>

type_synonym app_flags = "string \<rightharpoonup> string"

definition flag_value :: "faults \<Rightarrow> string \<Rightarrow> app_flags \<Rightarrow> err + string option" where
  "flag_value fl key flags =
     (if fl ''store.flag_read'' key then Inl (Coded Infrastructure ''store.flag_read'') else Inr (flags key))"

definition flag_present :: "faults \<Rightarrow> string \<Rightarrow> app_flags \<Rightarrow> err + bool" where
  "flag_present fl key flags =
     (if fl ''store.flag_read'' key then Inl (Coded Infrastructure ''store.flag_read'') else Inr (flags key \<noteq> None))"

definition set_flag :: "faults \<Rightarrow> string \<Rightarrow> string \<Rightarrow> app_flags \<Rightarrow> (err + unit) \<times> app_flags" where
  "set_flag fl key v flags =
     (if fl ''store.flag_write'' key then (Inl (Coded Infrastructure ''store.flag_write''), flags)
      else (Inr (), flags(key \<mapsto> v)))"

section \<open>Rows\<close>

record legacy_contact =
  lc_id :: string
  lc_owner :: string
  lc_name :: string
  lc_phone :: string
  lc_created :: int

record legacy_snippet =
  ls_id :: string
  ls_owner :: string
  ls_body :: string
  ls_quick :: int
  ls_created :: int

record legacy_transcript =
  lt_owner :: string
  lt_call :: string
  lt_direction :: string
  lt_remote :: string
  lt_started :: int
  lt_text :: string
  lt_created :: int

record legacy_fax =
  lf_id :: string
  lf_owner :: string
  lf_remote :: string
  lf_direction :: string
  lf_status :: string
  lf_pages :: int
  lf_path :: string
  lf_ref :: string
  lf_error :: string
  lf_created :: int
  lf_updated :: int

text \<open>\<^verbatim>\<open>ORDER BY created_at ASC, rowid ASC\<close>.\<close>

definition read_legacy_contacts :: "faults \<Rightarrow> legacy_contact list \<Rightarrow> err + legacy_contact list" where
  "read_legacy_contacts fl rs = list_rows fl ''read legacy contacts'' (sort_key lc_created rs) Inr"

definition read_legacy_snippets :: "faults \<Rightarrow> legacy_snippet list \<Rightarrow> err + legacy_snippet list" where
  "read_legacy_snippets fl rs = list_rows fl ''read legacy snippets'' (sort_key ls_created rs) Inr"

definition read_legacy_transcripts :: "faults \<Rightarrow> legacy_transcript list \<Rightarrow> err + legacy_transcript list" where
  "read_legacy_transcripts fl rs = list_rows fl ''read legacy transcripts'' (sort_key lt_created rs) Inr"

definition read_legacy_faxes :: "faults \<Rightarrow> legacy_fax list \<Rightarrow> err + legacy_fax list" where
  "read_legacy_faxes fl rs = list_rows fl ''read legacy faxes'' (sort_key lf_created rs) Inr"

definition parse_or_mint :: "string \<Rightarrow> string \<Rightarrow> string" where
  "parse_or_mint fresh raw = (case parse_id raw of Inl _ \<Rightarrow> fresh | Inr i \<Rightarrow> i)"

definition to_contact :: "string \<Rightarrow> legacy_contact \<Rightarrow> contact option" where
  "to_contact fresh c =
     (case (parse_extension (lc_owner c), parse_phone (lc_phone c)) of
        (Inr x, Inr p) \<Rightarrow>
          Some \<lparr>con_id = parse_or_mint fresh (lc_id c), con_owner = x, con_name = lc_name c, con_phone = p,
                con_created = time_unix (lc_created c)\<rparr>
      | _ \<Rightarrow> None)"

definition to_snippet :: "string \<Rightarrow> legacy_snippet \<Rightarrow> snippet option" where
  "to_snippet fresh c =
     (case parse_extension (ls_owner c) of
        Inl _ \<Rightarrow> None
      | Inr x \<Rightarrow>
          Some \<lparr>sni_id = parse_or_mint fresh (ls_id c), sni_owner = x, sni_body = ls_body c, sni_quick = (ls_quick c = 1),
                sni_created = time_unix (ls_created c)\<rparr>)"

definition to_segment :: "legacy_transcript \<Rightarrow> segment option" where
  "to_segment t =
     (case (parse_extension (lt_owner t), parse_direction (lt_direction t)) of
        (Inr x, Inr d) \<Rightarrow>
          Some \<lparr>seg_owner = x, seg_call = lt_call t, seg_direction = direction_string d, seg_remote = lt_remote t,
                seg_started = time_unix (lt_started t), seg_text = lt_text t\<rparr>
      | _ \<Rightarrow> None)"

definition to_fax :: "string \<Rightarrow> legacy_fax \<Rightarrow> fax_job option" where
  "to_fax fresh f =
     (case (parse_extension (lf_owner f), parse_phone (lf_remote f)) of
        (Inr x, Inr p) \<Rightarrow>
          (case (parse_fax_direction (lf_direction f), parse_fax_status (lf_status f)) of
             (Inr d, Inr st) \<Rightarrow>
               Some \<lparr>job_id = parse_or_mint fresh (lf_id f), job_owner = x, job_remote = p, job_direction = d,
                     job_status = st, job_pages = lf_pages f, job_path = lf_path f, job_ref = lf_ref f,
                     job_error = lf_error f, job_created = time_unix (lf_created f), job_updated = time_unix (lf_updated f)\<rparr>
           | _ \<Rightarrow> None)
      | _ \<Rightarrow> None)"

section \<open>Imports\<close>

text \<open>The loop over the rows; \<open>save\<close> is the store's write of the row with that index, \<open>None\<close> when it does not return.\<close>

fun import_rows ::
  "(nat \<Rightarrow> 'r \<Rightarrow> 'v option) \<Rightarrow> (nat \<Rightarrow> 'v \<Rightarrow> 's \<Rightarrow> ((err + unit) \<times> 's) option) \<Rightarrow> nat \<Rightarrow> 'r list \<Rightarrow> 's \<Rightarrow>
     ((err + unit) \<times> 's) option" where
  "import_rows conv save i [] s = Some (Inr (), s)"
| "import_rows conv save i (r # rs) s =
     (case conv i r of
        None \<Rightarrow> import_rows conv save (Suc i) rs s
      | Some v \<Rightarrow>
          (case save i v s of
             None \<Rightarrow> None
           | Some (Inl e, s') \<Rightarrow> Some (Inl e, s')
           | Some (Inr _, s') \<Rightarrow> import_rows conv save (Suc i) rs s'))"

datatype import_end = Done_Before | Postponed | Imported | Crashed

text \<open>\<open>Crashed\<close> is the panic of a stored row; every other failure leaves the boot standing.\<close>

definition import_legacy ::
  "faults \<Rightarrow> string \<Rightarrow> string \<Rightarrow> (err + 'r list) \<Rightarrow> (nat \<Rightarrow> 'r \<Rightarrow> 'v option) \<Rightarrow>
     (nat \<Rightarrow> 'v \<Rightarrow> 's \<Rightarrow> ((err + unit) \<times> 's) option) \<Rightarrow> app_flags \<times> 's \<Rightarrow> (import_end \<times> app_flags \<times> 's) option" where
  "import_legacy fl key stamp legacy conv save w =
     (let (flags, s) = w in
      case flag_present fl key flags of
        Inl _ \<Rightarrow> Some (Postponed, w)
      | Inr True \<Rightarrow> Some (Done_Before, w)
      | Inr False \<Rightarrow>
          (case legacy of
             Inl _ \<Rightarrow> Some (Postponed, w)
           | Inr rs \<Rightarrow>
               (case import_rows conv save 0 rs s of
                  None \<Rightarrow> None
                | Some (Inl e, s') \<Rightarrow> Some (if e = Panic then Crashed else Postponed, flags, s')
                | Some (Inr _, s') \<Rightarrow>
                    (case set_flag fl key stamp flags of
                       (Inl _, flags') \<Rightarrow> Some (Postponed, flags', s')
                     | (Inr _, flags') \<Rightarrow> Some (Imported, flags', s')))))"

definition import_legacy_contacts ::
  "('s, contact_key, contact_view) engine \<Rightarrow> faults \<Rightarrow> (nat \<Rightarrow> string) \<Rightarrow> string \<Rightarrow> legacy_contact list \<Rightarrow>
     app_flags \<times> 's \<Rightarrow> (import_end \<times> app_flags \<times> 's) option" where
  "import_legacy_contacts E fl mt stamp table =
     import_legacy fl ''legacy_contacts_imported'' stamp (read_legacy_contacts fl table) (\<lambda>i. to_contact (mt i))
       (\<lambda>_ c s. Some (contact_save E c s))"

definition import_legacy_snippets ::
  "('s, string, snippet_view) engine \<Rightarrow> faults \<Rightarrow> (nat \<Rightarrow> string) \<Rightarrow> string \<Rightarrow> legacy_snippet list \<Rightarrow>
     app_flags \<times> 's \<Rightarrow> (import_end \<times> app_flags \<times> 's) option" where
  "import_legacy_snippets E fl mt stamp table =
     import_legacy fl ''legacy_snippets_imported'' stamp (read_legacy_snippets fl table) (\<lambda>i. to_snippet (mt i))
       (\<lambda>_ c s. Some (snippet_save E c s))"

definition import_legacy_transcripts ::
  "('s, string, segment_view) capped_engine \<Rightarrow> faults \<Rightarrow> (nat \<Rightarrow> string) \<Rightarrow> (nat \<Rightarrow> time) \<Rightarrow> string \<Rightarrow>
     legacy_transcript list \<Rightarrow> app_flags \<times> 's \<Rightarrow> (import_end \<times> app_flags \<times> 's) option" where
  "import_legacy_transcripts E fl mt at stamp table =
     import_legacy fl ''legacy_transcripts_imported'' stamp (read_legacy_transcripts fl table) (\<lambda>_. to_segment)
       (\<lambda>i seg s. transcript_append E (mt i) (at i) seg s)"

definition import_legacy_faxes ::
  "('s, string, fax_view) idem_engine \<Rightarrow> faults \<Rightarrow> (nat \<Rightarrow> string) \<Rightarrow> string \<Rightarrow> legacy_fax list \<Rightarrow>
     app_flags \<times> 's \<Rightarrow> (import_end \<times> app_flags \<times> 's) option" where
  "import_legacy_faxes E fl mt stamp table =
     import_legacy fl ''legacy_faxes_imported'' stamp (read_legacy_faxes fl table) (\<lambda>i. to_fax (mt i))
       (\<lambda>_ job s. Some (fax_create E job s))"

section \<open>What a completed import did\<close>

fun converted :: "(nat \<Rightarrow> 'r \<Rightarrow> 'v option) \<Rightarrow> nat \<Rightarrow> 'r list \<Rightarrow> 'v list" where
  "converted conv i [] = []"
| "converted conv i (r # rs) =
     (case conv i r of None \<Rightarrow> converted conv (Suc i) rs | Some v \<Rightarrow> v # converted conv (Suc i) rs)"

lemma import_ends:
  assumes "import_legacy fl key stamp legacy conv save (flags, s) = Some (ending, flags', s')"
  shows "flags' = (if ending = Imported then flags(key \<mapsto> stamp) else flags)"
    "flags key \<noteq> None \<Longrightarrow> s' = s \<and> ending \<noteq> Imported"
    "ending = Imported \<Longrightarrow> \<exists>rs. legacy = Inr rs \<and> import_rows conv save 0 rs s = Some (Inr (), s')"
  using assms
  by (auto simp: import_legacy_def flag_present_def set_flag_def split: if_splits sum.splits bool.splits option.splits prod.splits)

lemma import_split:
  assumes "import_rows conv save i (r # rs) s = Some (Inr (), s')" "conv i r = Some v"
  obtains t u where "save i v s = Some (Inr u, t)" "import_rows conv save (Suc i) rs t = Some (Inr (), s')"
  using assms by (auto split: option.splits sum.splits prod.splits)

text \<open>Contacts.\<close>

definition contact_slot_key :: "contact \<Rightarrow> contact_key" where
  "contact_slot_key c = (ext_string (con_owner c), phone_string (con_phone c))"

definition put_contact :: "contact \<Rightarrow> (contact_key \<Rightarrow> contact_view option) \<Rightarrow> contact_key \<Rightarrow> contact_view option" where
  "put_contact c m = m(contact_slot_key c \<mapsto> contact_slot c (m (contact_slot_key c)))"

lemma contact_saved:
  assumes "engine_laws E view" "rows_ok contact_row_ok (view s)" "contact_save E c s = (Inr (), s')"
  shows "view s' = put_contact c (view s)"
    "view s (contact_slot_key c) = None \<Longrightarrow> card (held cnv_owner (view s) (fst (contact_slot_key c))) < contacts_max"
  using contact_save_cases [OF assms refl] by (auto simp: put_contact_def contact_slot_key_def)

lemma to_contact_valid:
  assumes "to_contact fresh r = Some c" "valid_id fresh" "CHR '':'' \<notin> set (lc_id r)"
  shows "valid_contact c"
proof -
  have "valid_id (parse_or_mint fresh (lc_id r))"
    using assms(2,3) by (simp add: parse_or_mint_def parse_id_def valid_id_def cut_byte_None [THEN iffD2] Let_def)
  then show ?thesis
    using assms(1) parse_extension_valid by (auto simp: to_contact_def valid_contact_def parse_phone_ok split: sum.splits)
qed

lemma put_contact_ok:
  "valid_contact c \<Longrightarrow> rows_ok contact_row_ok m \<Longrightarrow> rows_ok contact_row_ok (put_contact c m)"
  unfolding put_contact_def by (rule rows_ok_put) (auto intro: contact_slot_ok simp: contact_slot_key_def)

lemma imported_contacts:
  assumes laws: "engine_laws E view" and mt: "\<And>i. valid_id (mt i)" and ids: "\<forall>r \<in> set rs. CHR '':'' \<notin> set (lc_id r)" and ok: "rows_ok contact_row_ok (view s)"
    and run: "import_rows (\<lambda>i. to_contact (mt i)) (\<lambda>_ c s. Some (contact_save E c s)) i rs s = Some (Inr (), s')"
  shows "view s' = fold put_contact (converted (\<lambda>i. to_contact (mt i)) i rs) (view s)"
  using ids ok run
proof (induction rs arbitrary: i s)
  case (Cons r rs)
  have colon: "CHR '':'' \<notin> set (lc_id r)" using Cons.prems(1) by simp
  show ?case
  proof (cases "to_contact (mt i) r")
    case None
    with Cons show ?thesis by simp
  next
    case (Some c)
    obtain t u where t: "Some (contact_save E c s) = Some (Inr u, t)"
        "import_rows (\<lambda>i. to_contact (mt i)) (\<lambda>_ c s. Some (contact_save E c s)) (Suc i) rs t = Some (Inr (), s')"
      using import_split [OF Cons.prems(3) Some] .
    then have v: "view t = put_contact c (view s)" using contact_saved(1) [OF laws Cons.prems(2)] by simp
    with put_contact_ok [OF to_contact_valid [OF Some mt colon] Cons.prems(2)] Cons.IH [OF _ _ t(2)] Cons.prems(1) Some
    show ?thesis by simp
  qed
qed simp

lemma fold_put_contact:
  "map_option cnv_name (fold put_contact cs m k) =
     (if filter (\<lambda>c. contact_slot_key c = k) cs = [] then map_option cnv_name (m k)
      else Some (con_name (last (filter (\<lambda>c. contact_slot_key c = k) cs))))"
  by (induction cs arbitrary: m)
    (auto simp: put_contact_def contact_slot_def contact_fold_def Let_def split: option.splits)

lemma held_put_contact:
  assumes "rows_ok contact_row_ok m"
  shows "held cnv_owner m ext \<subseteq> held cnv_owner (put_contact c m) ext"
  using assms rows_okD [OF assms, of "contact_slot_key c"]
  by (auto simp: held_def matching_def put_contact_def contact_slot_owner contact_slot_key_def contact_row_ok_def)

lemma full_book_blocks:
  assumes laws: "engine_laws E view" and mt: "\<And>i. valid_id (mt i)" and ids: "\<forall>r \<in> set rs. CHR '':'' \<notin> set (lc_id r)" and ok: "rows_ok contact_row_ok (view s)"
    and fin: "finite (dom (view s))" and c: "c \<in> set (converted (\<lambda>i. to_contact (mt i)) i rs)"
    and new: "view s (contact_slot_key c) = None"
    and full: "contacts_max \<le> card (held cnv_owner (view s) (fst (contact_slot_key c)))"
  shows "import_rows (\<lambda>i. to_contact (mt i)) (\<lambda>_ c s. Some (contact_save E c s)) i rs s \<noteq> Some (Inr (), s')"
  using ids ok fin c new full
proof (induction rs arbitrary: i s)
  case (Cons r rs)
  have colon: "CHR '':'' \<notin> set (lc_id r)" using Cons.prems(1) by simp
  show ?case
  proof (cases "to_contact (mt i) r")
    case None
    with Cons show ?thesis by simp
  next
    case (Some d)
    show ?thesis
    proof
      assume run: "import_rows (\<lambda>i. to_contact (mt i)) (\<lambda>_ c s. Some (contact_save E c s)) i (r # rs) s = Some (Inr (), s')"
      obtain t u where t: "Some (contact_save E d s) = Some (Inr u, t)"
          "import_rows (\<lambda>i. to_contact (mt i)) (\<lambda>_ c s. Some (contact_save E c s)) (Suc i) rs t = Some (Inr (), s')"
        using import_split [OF run Some] .
      then have save: "contact_save E d s = (Inr (), t)" by simp
      note v = contact_saved [OF laws Cons.prems(2) save]
      have other: "contact_slot_key d \<noteq> contact_slot_key c" using v(2) Cons.prems(5,6) by auto
      have held: "held cnv_owner (view s) ext \<subseteq> held cnv_owner (view t) ext" for ext
        unfolding v(1) by (rule held_put_contact [OF Cons.prems(2)])
      have fin: "finite (dom (view t))" using Cons.prems(3) by (simp add: v(1) put_contact_def)
      moreover have "finite (held cnv_owner (view t) (fst (contact_slot_key c)))"
        by (rule finite_subset [OF _ fin]) (auto simp: held_def matching_def)
      then have "contacts_max \<le> card (held cnv_owner (view t) (fst (contact_slot_key c)))"
        using card_mono [OF _ held] Cons.prems(6) by (meson le_trans)
      moreover have "rows_ok contact_row_ok (view t)"
        unfolding v(1) by (rule put_contact_ok [OF to_contact_valid [OF Some mt colon] Cons.prems(2)])
      moreover have "view t (contact_slot_key c) = None" using other Cons.prems(5) by (simp add: v(1) put_contact_def)
      ultimately show False using Cons.IH [of t "Suc i"] Cons.prems(1,4) t(2) Some other by auto
    qed
  qed
qed simp

text \<open>Transcripts: while everything stored fits one call, an append that succeeds trims nothing.\<close>

lemma trim_idle:
  fixes E :: "('s, string, segment_view) capped_engine"
  assumes laws: "engine_laws E view" and fin: "finite (dom (view s))" and keys: "keyed sgv_id (view s)"
    and small: "card (dom (view s)) \<le> segments_max_call" and run: "trim_call E o' call s = Some (Inr (), s')"
  shows "view s' = view s"
proof -
  let ?q = "call_query o' call (segments_max_call + 1)"
  let ?M = "\<lambda>m. matching (q_filter ?q) m"
  have fm: "finite (?M (view s))" by (rule finite_subset [OF _ fin]) (auto simp: matching_def)
  obtain gone n where trim: "trim_loop E ''readmodels.transcript_trim'' ''readmodels.transcript_trim'' ?q segments_max_call sgv_id s
      = Some (Inr (), gone, n, s')"
    using run by (auto simp: trim_call_def)
  then have sub: "view s' \<subseteq>\<^sub>m view s"
    and only: "\<forall>k v. view s k = Some v \<and> view s' k = None \<longrightarrow> q_filter ?q v"
    using trim_effect [OF laws fm keys, of "''readmodels.transcript_trim''" "''readmodels.transcript_trim''" segments_max_call] by auto
  have "card (?M (view s)) \<le> segments_max_call"
    using small card_mono [OF fin, of "?M (view s)"] by (force simp: matching_def)
  then have "card (?M (view s')) = card (?M (view s))"
    using trim_newest [OF laws trim fm keys, of sgv_seq] by (simp add: call_query_def)
  moreover have "?M (view s') \<subseteq> ?M (view s)" using sub by (force simp: matching_def map_le_def dom_def)
  ultimately have same: "?M (view s') = ?M (view s)" using fm card_subset_eq by blast
  have "view s' k = Some v" if "view s k = Some v" for k v
  proof -
    note Some = that
    have "view s' k \<noteq> None"
    proof
      assume none: "view s' k = None"
      then have "k \<in> ?M (view s)" using only Some by (auto simp: matching_def)
      then have "k \<in> ?M (view s')" by (simp only: same)
      then show False using none by (simp add: matching_def)
    qed
    then show ?thesis using sub Some by (auto simp: map_le_def dom_def)
  qed
  then have "view s \<subseteq>\<^sub>m view s'" by (fastforce simp: map_le_def dom_def)
  then show ?thesis by (rule map_le_antisym [OF sub])
qed

lemma append_kept:
  fixes E :: "('s, string, segment_view) capped_engine"
  assumes laws: "caps_laws E view sgv_owner sgv_seq segments_max_extension transcripts_ceiling"
    and fin: "finite (dom (view s))" and keys: "keyed sgv_id (view s)" and fresh: "view s i = None"
    and small: "card (dom (view s)) < segments_max_call"
    and run: "transcript_append E i now seg s = Some (Inr (), s')"
  shows "view s' = (view s)(i \<mapsto> segment_fold i now seg)"
proof -
  have e: "engine_laws E view" using laws by (simp add: caps_laws_def)
  let ?row = "segment_fold i now seg"
  obtain s1 s2 where put: "eng_put E i ?row s = (Inr (), s1)" and caps: "eng_caps E s1 = (Inr (), s2)"
    and trim: "trim_call E (ext_string (seg_owner seg)) (seg_call seg) s2 = Some (Inr (), s')"
    using run by (cases "eng_put E i ?row s"; cases "eng_caps E (snd (eng_put E i ?row s))")
      (auto simp: transcript_append_def wrap_write_def split: sum.splits)
  have v1: "view s1 = (view s)(i \<mapsto> ?row)" by (rule engine_put_ok [OF e put])
  have fin1: "finite (dom (view s1))" using fin v1 by simp
  have card1: "card (dom (view s1)) \<le> segments_max_call" using small fin v1 by (simp add: card_insert_if)
  have move: "caps_move sgv_owner sgv_seq segments_max_extension transcripts_ceiling (view s1) (view s2)"
    using caps_run [OF laws caps fin1] by simp
  have "view s2 k = Some v" if "view s1 k = Some v" for k v
  proof (rule caps_idle [OF move fin1 _ _ that])
    show "card (dom (view s1)) \<le> transcripts_ceiling"
      using card1 by (simp add: segments_max_call_def transcripts_ceiling_def)
    have "card (held sgv_owner (view s1) (sgv_owner v)) \<le> card (dom (view s1))"
      by (rule card_mono [OF fin1]) (auto simp: held_def matching_def)
    with card1 show "card (held sgv_owner (view s1) (sgv_owner v)) \<le> segments_max_extension"
      by (simp add: segments_max_call_def segments_max_extension_def)
  qed
  then have "view s1 \<subseteq>\<^sub>m view s2" by (fastforce simp: map_le_def dom_def)
  then have v2: "view s2 = view s1" using move by (simp add: caps_move_def map_le_antisym)
  have "keyed sgv_id (view s1)" using keys v1 by (simp add: keyed_def rows_ok_put segment_fold_def)
  then have "view s' = view s2" using fin1 card1 by (intro trim_idle [OF e _ _ _ trim]) (simp_all only: v2)
  then show ?thesis by (simp only: v1 v2)
qed

text \<open>So a pass over the rows adds one segment for each row that converts.\<close>

fun stored_segments :: "(nat \<Rightarrow> string) \<Rightarrow> (nat \<Rightarrow> time) \<Rightarrow> nat \<Rightarrow> legacy_transcript list \<Rightarrow> (string \<times> segment_view) list" where
  "stored_segments mt at i [] = []"
| "stored_segments mt at i (r # rs) =
     (case to_segment r of
        None \<Rightarrow> stored_segments mt at (Suc i) rs
      | Some seg \<Rightarrow> (mt i, segment_fold (mt i) (at i) seg) # stored_segments mt at (Suc i) rs)"

lemma imported_transcripts:
  fixes E :: "('s, string, segment_view) capped_engine"
  assumes laws: "caps_laws E view sgv_owner sgv_seq segments_max_extension transcripts_ceiling"
    and inj: "inj mt"
    and fin: "finite (dom (view s))" and keys: "keyed sgv_id (view s)"
    and fresh: "\<forall>j \<ge> i. view s (mt j) = None"
    and small: "card (dom (view s)) + length rs \<le> segments_max_call"
    and run: "import_rows (\<lambda>_. to_segment) (\<lambda>i seg s. transcript_append E (mt i) (at i) seg s) i rs s = Some (Inr (), s')"
  shows "view s' = view s ++ map_of (rev (stored_segments mt at i rs)) \<and>
    card (dom (view s')) = card (dom (view s)) + length (converted (\<lambda>_. to_segment) i rs)"
  using fin keys fresh small run
proof (induction rs arbitrary: i s)
  case (Cons r rs)
  show ?case
  proof (cases "to_segment r")
    case None
    with Cons show ?thesis by simp
  next
    case (Some seg)
    let ?row = "segment_fold (mt i) (at i) seg"
    obtain t u where t: "transcript_append E (mt i) (at i) seg s = Some (Inr u, t)"
        "import_rows (\<lambda>_. to_segment) (\<lambda>i seg s. transcript_append E (mt i) (at i) seg s) (Suc i) rs t = Some (Inr (), s')"
      using import_split [OF Cons.prems(5) Some] .
    have new: "view s (mt i) = None" and room: "card (dom (view s)) < segments_max_call" using Cons.prems(3,4) by simp_all
    have v: "view t = (view s)(mt i \<mapsto> ?row)"
      using append_kept [OF laws Cons.prems(1,2) new room] t(1) by simp
    have "keyed sgv_id (view t)" using Cons.prems(2) v by (simp add: keyed_def rows_ok_put segment_fold_def)
    moreover have "\<forall>j \<ge> Suc i. view t (mt j) = None"
      using Cons.prems(3) v inj by (auto simp: inj_eq)
    moreover have grown: "card (dom (view t)) = Suc (card (dom (view s)))"
      using Cons.prems(1) new by (simp add: v card_insert_if domIff)
    moreover have "finite (dom (view t))" using Cons.prems(1) v by simp
    ultimately have pre: "keyed sgv_id (view t)" "\<forall>j \<ge> Suc i. view t (mt j) = None" "finite (dom (view t))"
        "card (dom (view t)) + length rs \<le> segments_max_call"
      using Cons.prems(4) by auto
    note ih = Cons.IH [OF pre(3,1,2,4) t(2), THEN conjunct1] Cons.IH [OF pre(3,1,2,4) t(2), THEN conjunct2]
    show ?thesis
    proof
      show "view s' = view s ++ map_of (rev (stored_segments mt at i (r # rs)))"
        unfolding ih(1) v using Some by simp
      show "card (dom (view s')) = card (dom (view s)) + length (converted (\<lambda>_. to_segment) i (r # rs))"
        unfolding ih(2) grown using Some by simp
    qed
  qed
qed simp

section \<open>Boots that import again\<close>

lemma read_legacy: "list_rows fl op rs Inr = Inr xs \<Longrightarrow> xs = rs"
  using scan_all_map [of rs Inr "\<lambda>r. r"] by (auto simp: list_rows_def split: if_splits)

text \<open>The contacts a table stands for, in the order of the import, and the ones for a slot.\<close>

definition legacy_book :: "(nat \<Rightarrow> string) \<Rightarrow> legacy_contact list \<Rightarrow> contact list" where
  "legacy_book mt table = converted (\<lambda>i. to_contact (mt i)) 0 (sort_key lc_created table)"

definition legacy_for :: "(nat \<Rightarrow> string) \<Rightarrow> legacy_contact list \<Rightarrow> contact_key \<Rightarrow> contact list" where
  "legacy_for mt table k = filter (\<lambda>c. contact_slot_key c = k) (legacy_book mt table)"

lemma contacts_import:
  fixes E :: "('s, contact_key, contact_view) engine"
  assumes laws: "engine_laws E view" and mt: "\<And>i. valid_id (mt i)" and ids: "\<forall>r \<in> set table. CHR '':'' \<notin> set (lc_id r)"
    and ok: "rows_ok contact_row_ok (view s)" and fin: "finite (dom (view s))"
    and run: "import_legacy_contacts E fl mt stamp table (flags, s) = Some (Imported, flags', s')"
  shows "map_option cnv_name (view s' k) =
      (if legacy_for mt table k = [] then map_option cnv_name (view s k) else Some (con_name (last (legacy_for mt table k))))"
    "c \<in> set (legacy_book mt table) \<Longrightarrow> view s (contact_slot_key c) \<noteq> None \<or>
      card (held cnv_owner (view s) (fst (contact_slot_key c))) < contacts_max"
proof -
  note made = import_ends(3) [OF run [unfolded import_legacy_contacts_def] refl]
  have rows: "import_rows (\<lambda>i. to_contact (mt i)) (\<lambda>_ c s. Some (contact_save E c s)) 0 (sort_key lc_created table) s
      = Some (Inr (), s')"
    using made read_legacy by (auto simp: read_legacy_contacts_def)
  have ids': "\<forall>r \<in> set (sort_key lc_created table). CHR '':'' \<notin> set (lc_id r)" using ids by simp
  show "map_option cnv_name (view s' k) =
      (if legacy_for mt table k = [] then map_option cnv_name (view s k) else Some (con_name (last (legacy_for mt table k))))"
    by (simp add: imported_contacts [OF laws mt ids' ok rows] fold_put_contact legacy_for_def legacy_book_def)
  show "view s (contact_slot_key c) \<noteq> None \<or> card (held cnv_owner (view s) (fst (contact_slot_key c))) < contacts_max"
    if c: "c \<in> set (legacy_book mt table)"
    using full_book_blocks [OF laws mt ids' ok fin c [unfolded legacy_book_def]] rows not_less by blast
qed

lemma transcripts_twice:
  fixes T :: "('s, string, segment_view) capped_engine"
  assumes laws: "caps_laws T view sgv_owner sgv_seq segments_max_extension transcripts_ceiling"
    and fin: "finite (dom (view s))" and keys: "keyed sgv_id (view s)"
    and mint: "inj mt" "inj mt'" "range mt \<inter> range mt' = {}" "(range mt \<union> range mt') \<inter> dom (view s) = {}"
    and small: "card (dom (view s)) + 2 * length table \<le> segments_max_call"
    and first: "import_rows (\<lambda>_. to_segment) (\<lambda>i seg s. transcript_append T (mt i) (at i) seg s) 0
        (sort_key lt_created table) s = Some (Inr (), s1)"
    and again: "import_legacy_transcripts T fl mt' at' stamp table (flags, s1) = Some (Imported, flags', s2)"
  shows "card (dom (view s2)) = card (dom (view s)) + 2 * length (converted (\<lambda>_. to_segment) 0 (sort_key lt_created table))"
proof -
  let ?rs = "sort_key lt_created table"
  have fresh: "\<forall>j \<ge> 0. view s (mt j) = None" using mint(4) by (auto simp: domIff)
  have small1: "card (dom (view s)) + length ?rs \<le> segments_max_call" using small by simp
  note one = imported_transcripts [OF laws mint(1) fin keys fresh small1 first]
  have inside: "fst ` set (stored_segments mt at i rs) \<subseteq> range mt" "(k, v) \<in> set (stored_segments mt at i rs) \<Longrightarrow> sgv_id v = k"
    for i rs k v
    by (induction rs arbitrary: i) (auto simp: segment_fold_def split: option.splits)
  have count: "length (converted (\<lambda>_. to_segment) i rs) \<le> length rs" for i rs
    by (induction rs arbitrary: i) (auto split: option.split intro: le_SucI)
  have dom1: "dom (view s1) \<subseteq> dom (view s) \<union> range mt"
    unfolding one [THEN conjunct1] dom_map_add dom_map_of_conv_image_fst set_rev using inside(1) by blast
  have "finite (dom (view s1))" using one fin by (simp add: finite_dom_map_of)
  moreover have "keyed sgv_id (view s1)"
    unfolding one [THEN conjunct1] keyed_def rows_ok_def
    using keyedD [OF keys] inside(2) by (auto simp: map_add_Some_iff dest!: map_of_SomeD)
  moreover have "\<forall>j \<ge> 0. view s1 (mt' j) = None"
  proof (intro allI impI)
    fix j
    have "mt' j \<notin> dom (view s) \<union> range mt" using mint(3,4) by blast
    then show "view s1 (mt' j) = None" using dom1 by (auto simp: domIff)
  qed
  moreover have "card (dom (view s1)) + length ?rs \<le> segments_max_call"
    unfolding one [THEN conjunct2] using small count [of 0 ?rs] by simp
  moreover have "import_rows (\<lambda>_. to_segment) (\<lambda>i seg s. transcript_append T (mt' i) (at' i) seg s) 0 ?rs s1 = Some (Inr (), s2)"
    using import_ends(3) [OF again [unfolded import_legacy_transcripts_def] refl] read_legacy
    by (auto simp: read_legacy_transcripts_def)
  ultimately have "card (dom (view s2)) = card (dom (view s1)) + length (converted (\<lambda>_. to_segment) 0 ?rs)"
    using imported_transcripts [OF laws mint(2), THEN conjunct2] by blast
  then show ?thesis unfolding one [THEN conjunct2] by simp
qed

text \<open>
  C26. An import that did not complete leaves its flag alone, one whose flag is set changes
  nothing, and one that completes sets it. A completed contacts import leaves every number
  of the table with the name of its last row whatever the book called it by then, and every
  other number alone; it cannot complete while some owner of a new number holds a full
  book, so the rows sorted behind that one are never imported. When the transcripts all went in and
  only the flag was lost, the next boot's completed import stores every line a second time.
\<close>

theorem imports_rerun:
  fixes E :: "('s, contact_key, contact_view) engine" and T :: "('t, string, segment_view) capped_engine"
  assumes laws: "engine_laws E view" "caps_laws T tview sgv_owner sgv_seq segments_max_extension transcripts_ceiling"
    and ids: "\<forall>i. valid_id (mt i)" "\<forall>r \<in> set table. CHR '':'' \<notin> set (lc_id r)"
    and book: "rows_ok contact_row_ok (view s)" "finite (dom (view s))"
    and run: "import_legacy_contacts E fl mt stamp table (flags, s) = Some (ending, flags', s')"
    and lines: "finite (dom (tview t))" "keyed sgv_id (tview t)"
      "card (dom (tview t)) + 2 * length said \<le> segments_max_call"
    and mint: "inj m1" "inj m2" "range m1 \<inter> range m2 = {}" "(range m1 \<union> range m2) \<inter> dom (tview t) = {}"
    and first: "import_rows (\<lambda>_. to_segment) (\<lambda>i seg s. transcript_append T (m1 i) (at i) seg s) 0
        (sort_key lt_created said) t = Some (Inr (), t1)"
    and again: "import_legacy_transcripts T fl' m2 at' stamp' said (flags1, t1) = Some (Imported, flags2, t2)"
  shows "flags' = (if ending = Imported then flags(''legacy_contacts_imported'' \<mapsto> stamp) else flags) \<and>
    (flags ''legacy_contacts_imported'' \<noteq> None \<longrightarrow> s' = s \<and> ending \<noteq> Imported) \<and>
    (ending = Imported \<longrightarrow>
       (\<forall>k. map_option cnv_name (view s' k) =
          (if legacy_for mt table k = [] then map_option cnv_name (view s k)
           else Some (con_name (last (legacy_for mt table k)))))) \<and>
    ((\<exists>c \<in> set (legacy_book mt table). view s (contact_slot_key c) = None \<and>
        contacts_max \<le> card (held cnv_owner (view s) (fst (contact_slot_key c)))) \<longrightarrow> ending \<noteq> Imported) \<and>
    import_legacy_transcripts T (\<lambda>code key. code = ''store.flag_write'') m1 at stamp' said (Map.empty, t) = Some (Postponed, Map.empty, t1) \<and>
    card (dom (tview t2)) = card (dom (tview t)) + 2 * length (converted (\<lambda>_. to_segment) 0 (sort_key lt_created said))"
proof (intro conjI impI)
  have mt: "\<And>i. valid_id (mt i)" using ids(1) by simp
  note ends = import_ends [OF run [unfolded import_legacy_contacts_def]]
  note book_after = contacts_import [where mt = mt, OF laws(1) mt ids(2) book]
  show "flags' = (if ending = Imported then flags(''legacy_contacts_imported'' \<mapsto> stamp) else flags)" by (rule ends(1))
  show "s' = s" "ending \<noteq> Imported" if "flags ''legacy_contacts_imported'' \<noteq> None" using ends(2) that by simp_all
  show "\<forall>k. map_option cnv_name (view s' k) =
      (if legacy_for mt table k = [] then map_option cnv_name (view s k) else Some (con_name (last (legacy_for mt table k))))"
    if "ending = Imported" using book_after(1) run that by blast
  show "ending \<noteq> Imported" if "\<exists>c \<in> set (legacy_book mt table). view s (contact_slot_key c) = None \<and>
        contacts_max \<le> card (held cnv_owner (view s) (fst (contact_slot_key c)))"
    using book_after(2) run that not_less by fastforce
  show "import_legacy_transcripts T (\<lambda>code key. code = ''store.flag_write'') m1 at stamp' said (Map.empty, t)
      = Some (Postponed, Map.empty, t1)"
    using scan_all_map [of "sort_key lt_created said" Inr "\<lambda>r. r"] first
    by (simp add: import_legacy_transcripts_def import_legacy_def flag_present_def set_flag_def read_legacy_transcripts_def list_rows_def)
  show "card (dom (tview t2)) = card (dom (tview t)) + 2 * length (converted (\<lambda>_. to_segment) 0 (sort_key lt_created said))"
    by (rule transcripts_twice [OF laws(2) lines(1,2) mint lines(3) first again])
qed

definition sample_old_contact :: legacy_contact where
  "sample_old_contact =
     \<lparr>lc_id = ''contac-00000000000001'', lc_owner = ''1001'', lc_name = ''Ada'', lc_phone = ''+4930123'', lc_created = 5\<rparr>"

definition sample_old_line :: legacy_transcript where
  "sample_old_line =
     \<lparr>lt_owner = ''1001'', lt_call = ''c1'', lt_direction = ''in'', lt_remote = ''+4930123'', lt_started = 5,
      lt_text = ''hello'', lt_created = 6\<rparr>"

definition sample_mint :: "char \<Rightarrow> nat \<Rightarrow> string" where
  "sample_mint c i = c # replicate i c"

lemma sample_parsed:
  "parse_extension ''1001'' = Inr (Extension ''1001'')" "parse_phone ''+4930123'' = Inr (Phone ''+4930123'')"
  "parse_direction ''in'' = Inr Inbound" "parse_id ''contac-00000000000001'' = Inr ''contac-00000000000001''"
  by code_simp+

lemma mem_first_contact:
  "contact_save mem_engine c [] = (Inr (), [(contact_slot_key c, contact_slot c None)])"
  by (simp add: contact_save_def mem_engine_def wrap_read_def contact_room_def contact_slot_key_def
      contact_views_def contact_put_def query_run_def query_order_def contacts_query_def contact_slot_def
      contacts_max_def Let_def)

lemma update_length: "length (AList.update i v s) \<le> Suc (length s)"
  by (induction s) auto

lemma query_length: "length (query_run q (map snd (AList.clearjunk s))) \<le> length s"
proof -
  have "length (filter (q_filter q) (map snd (AList.clearjunk s))) \<le> length s"
    by (rule le_trans [OF length_filter_le]) (simp add: length_clearjunk)
  then show ?thesis by (auto simp: query_run_def query_order_def min_def split: option.split)
qed

lemma mem_append:
  assumes "length s < segments_max_call"
  shows "transcript_append (mem_capped segments_max_extension) i now seg s = Some (Inr (), AList.update i (segment_fold i now seg) s)"
proof -
  let ?t = "AList.update i (segment_fold i now seg) s"
  have short: "length ?t \<le> segments_max_call" using update_length [of i _ s] assms by (meson Suc_leI le_trans)
  then have cap: "length ?t \<le> segments_max_extension" by (simp add: segments_max_extension_def segments_max_call_def)
  let ?q = "call_query (ext_string (seg_owner seg)) (seg_call seg) (segments_max_call + 1)"
  have "drop segments_max_call (query_run ?q (map snd (AList.clearjunk ?t))) = []"
    using query_length [of ?q ?t] short by simp
  with cap show ?thesis
    by (simp add: transcript_append_def mem_capped_def mem_engine_def engine.defs wrap_write_def wrap_read_def
        trim_call_def trim_loop_def expunge_loop.simps)
qed

definition sample_new_contact :: contact where
  "sample_new_contact =
     \<lparr>con_id = ''contac-00000000000001'', con_owner = Extension ''1001'', con_name = ''Ada'',
      con_phone = Phone ''+4930123'', con_created = time_unix 5\<rparr>"

definition sample_line :: segment where
  "sample_line =
     \<lparr>seg_owner = Extension ''1001'', seg_call = ''c1'', seg_direction = ''in'', seg_remote = ''+4930123'',
      seg_started = time_unix 5, seg_text = ''hello''\<rparr>"

lemma sample_converts:
  "to_contact fresh sample_old_contact = Some sample_new_contact" "to_segment sample_old_line = Some sample_line"
  by (simp_all add: to_contact_def sample_old_contact_def sample_new_contact_def parse_or_mint_def sample_parsed
      to_segment_def sample_old_line_def sample_line_def)

lemma sample_import:
  "import_legacy_contacts mem_engine no_faults mt stamp [sample_old_contact] (Map.empty, []) =
     Some (Imported, [''legacy_contacts_imported'' \<mapsto> stamp],
       [(contact_slot_key sample_new_contact, contact_slot sample_new_contact None)])"
  by (simp add: import_legacy_contacts_def import_legacy_def flag_present_def set_flag_def no_faults_def
      read_legacy_contacts_def list_rows_def sample_converts mem_first_contact)

lemma sample_lines:
  "length s < segments_max_call \<Longrightarrow>
     import_rows (\<lambda>_. to_segment) (\<lambda>i seg s. transcript_append (mem_capped segments_max_extension) (mt i) (at i) seg s) 0
       (sort_key lt_created [sample_old_line]) s = Some (Inr (), AList.update (mt 0) (segment_fold (mt 0) (at 0) sample_line) s)"
  by (simp add: sample_converts mem_append)

lemma sample_import_lines:
  assumes "length s < segments_max_call"
  shows "import_legacy_transcripts (mem_capped segments_max_extension) no_faults mt at stamp [sample_old_line] (Map.empty, s) =
     Some (Imported, [''legacy_transcripts_imported'' \<mapsto> stamp], AList.update (mt 0) (segment_fold (mt 0) (at 0) sample_line) s)"
  using sample_lines [OF assms, of mt at]
  by (simp add: import_legacy_transcripts_def import_legacy_def flag_present_def set_flag_def no_faults_def
      read_legacy_transcripts_def list_rows_def)

lemma sample_mint_apart: "inj (sample_mint c)" "c \<noteq> d \<Longrightarrow> range (sample_mint c) \<inter> range (sample_mint d) = {}"
  by (auto simp: sample_mint_def inj_def dest: arg_cong [where f = length])

text \<open>One row of each table: the line goes in at the first boot, and again at the second.\<close>

theorem imports_rerun_witness:
  "map_option cnv_name (map_of [(contact_slot_key sample_new_contact, contact_slot sample_new_contact None)]
       (''1001'', ''+4930123'')) = Some ''Ada'' \<and>
   import_legacy_transcripts (mem_capped segments_max_extension) (\<lambda>code key. code = ''store.flag_write'') (sample_mint CHR ''a'') (\<lambda>_. 8)
      ''now'' [sample_old_line] (Map.empty, []) =
      Some (Postponed, Map.empty, [(''a'', segment_fold ''a'' 8 sample_line)])"
proof -
  have some: "legacy_for (\<lambda>_. ''contac-00000000000002'') [sample_old_contact] (''1001'', ''+4930123'') = [sample_new_contact]"
    by (simp add: legacy_for_def legacy_book_def sample_converts) (simp add: sample_new_contact_def contact_slot_key_def)
  have slot: "contact_slot_key sample_new_contact = (''1001'', ''+4930123'')"
    by (simp add: sample_new_contact_def contact_slot_key_def)
  have at_a: "sample_mint c 0 = [c]" for c by (simp add: sample_mint_def)
  have apart: "range (sample_mint CHR ''a'') \<inter> range (sample_mint CHR ''b'') = {}" by (rule sample_mint_apart(2)) simp
  have none: "(range m1 \<union> range m2) \<inter> dom (map_of []) = {}" for m1 m2 :: "nat \<Rightarrow> string" by simp
  have room: "card (dom (map_of ([] :: (string \<times> segment_view) list))) + 2 * length [sample_old_line] \<le> segments_max_call"
    by (simp add: segments_max_call_def)
  have zero: "length ([] :: (string \<times> segment_view) list) < segments_max_call"
    "length (AList.update k v ([] :: (string \<times> segment_view) list)) < segments_max_call" for k v
    by (simp_all add: segments_max_call_def)
  have ids: "\<forall>i :: nat. valid_id ''contac-00000000000002''" by (simp add: valid_id_def)
  have colons: "\<forall>r \<in> set [sample_old_contact]. CHR '':'' \<notin> set (lc_id r)" by (simp add: sample_old_contact_def)
  have book: "rows_ok contact_row_ok (map_of [])" "finite (dom (map_of ([] :: (contact_key \<times> contact_view) list)))"
    by (simp_all add: rows_ok_def)
  have lines: "finite (dom (map_of ([] :: (string \<times> segment_view) list)))" "keyed sgv_id (map_of [])"
    by (simp_all add: keyed_def rows_ok_def)
  note all = imports_rerun [OF mem_engine_laws mem_capped_laws ids colons book sample_import [where mt = "\<lambda>_. ''contac-00000000000002''" and stamp = "''now''"]
        lines room sample_mint_apart(1) [of "CHR ''a''"] sample_mint_apart(1) [of "CHR ''b''"] apart none
        sample_lines [OF zero(1), where mt = "sample_mint CHR ''a''" and at = "\<lambda>_. 8"]
        sample_import_lines [OF zero(2), where mt = "sample_mint CHR ''b''" and at = "\<lambda>_. 9" and stamp = "''now''"]]
  have "map_option cnv_name (map_of [(contact_slot_key sample_new_contact, contact_slot sample_new_contact None)] (''1001'', ''+4930123'')) = Some ''Ada''"
    by (simp only: all [THEN conjunct2, THEN conjunct2, THEN conjunct1, THEN mp, OF refl, rule_format] some)
      (simp add: sample_new_contact_def)
  moreover note all [THEN conjunct2, THEN conjunct2, THEN conjunct2, THEN conjunct2, THEN conjunct1]
  ultimately show ?thesis by (simp add: at_a)
qed

end
