(* ===== verification/Live_Events.thy ===== *)
theory Live_Events
  imports Messaging Faxes Crm History
begin

text \<open>
  The live updates of the tabs: the registry of one hub per extension with its reaper
  (\<^verbatim>\<open>internal/server/sse.go\<close>) and the notifier that turns domain events into frames
  (\<^verbatim>\<open>internal/server/notifier.go\<close>). The hub itself is a library: the record \<open>hub_lib\<close> holds what
  the registry calls of it, and \<open>hub_laws\<close> what its documentation promises. Requests interleave
  at the sections of the registry's mutex, so a run is a list of steps of numbered
  requests. Markup is a parameter.
\<close>

section \<open>The registry\<close>

record 'b hub_lib =
  lib_new :: "'b \<Rightarrow> nat \<times> 'b"
  lib_count :: "nat \<Rightarrow> 'b \<Rightarrow> nat"
  lib_serve :: "nat \<Rightarrow> nat \<Rightarrow> 'b \<Rightarrow> 'b"
  lib_leave :: "nat \<Rightarrow> 'b \<Rightarrow> 'b"
  lib_cast :: "nat \<Rightarrow> string \<times> string \<Rightarrow> 'b \<Rightarrow> 'b"
  lib_close :: "nat \<Rightarrow> 'b \<Rightarrow> 'b"

record hub_registry =
  hr_hubs :: "extension \<Rightarrow> nat option"
  hr_langs :: "extension \<Rightarrow> string option"
  hr_seen :: "extension \<Rightarrow> time option"
  hr_swept :: "time option"

type_synonym 'b hub_world = "hub_registry \<times> 'b"

definition lang_default :: string where "lang_default = ''en''"
definition hub_idle_ttl :: duration where "hub_idle_ttl = 600 * second"
definition hub_sweep_every :: duration where "hub_sweep_every = 60 * second"

definition new_hubs :: hub_registry where
  "new_hubs = \<lparr>hr_hubs = Map.empty, hr_langs = Map.empty, hr_seen = Map.empty, hr_swept = None\<rparr>"

definition hub_set_lang :: "extension \<Rightarrow> string \<Rightarrow> hub_registry \<Rightarrow> hub_registry" where
  "hub_set_lang ext lang r = r\<lparr>hr_langs := (hr_langs r)(ext \<mapsto> lang)\<rparr>"

definition hub_lang :: "extension \<Rightarrow> hub_registry \<Rightarrow> string" where
  "hub_lang ext r = (case hr_langs r ext of Some lang \<Rightarrow> lang | None \<Rightarrow> lang_default)"

text \<open>The zero time lies before every reading of the clock by more than any duration here.\<close>

definition touched_within :: "time \<Rightarrow> time option \<Rightarrow> duration \<Rightarrow> bool" where
  "touched_within now stamp d = (case stamp of None \<Rightarrow> False | Some t \<Rightarrow> now - t < d)"

definition reaped :: "'b hub_lib \<Rightarrow> time \<Rightarrow> 'b hub_world \<Rightarrow> extension \<Rightarrow> bool" where
  "reaped L now w ext =
     (case hr_hubs (fst w) ext of
        None \<Rightarrow> False
      | Some hub \<Rightarrow>
          if lib_count L hub (snd w) > 0 then False
          else \<not> touched_within now (hr_seen (fst w) ext) hub_idle_ttl)"

definition sweep_hubs :: "'b hub_lib \<Rightarrow> time \<Rightarrow> 'b hub_world \<Rightarrow> 'b hub_world" where
  "sweep_hubs L now w =
     (let (r, b) = w in
      if touched_within now (hr_swept r) hub_sweep_every then w
      else (r\<lparr>hr_swept := Some now,
              hr_hubs := (\<lambda>k. if reaped L now w k then None else hr_hubs r k),
              hr_seen := (\<lambda>k. if reaped L now w k then None else hr_seen r k)\<rparr>, b))"

text \<open>The two sections of \<^verbatim>\<open>get\<close>: the look under the read lock, and the second under the write lock.\<close>

definition hub_look :: "extension \<Rightarrow> 'b hub_world \<Rightarrow> nat option" where
  "hub_look ext w = hr_hubs (fst w) ext"

definition hub_make :: "'b hub_lib \<Rightarrow> extension \<Rightarrow> time \<Rightarrow> 'b hub_world \<Rightarrow> nat \<times> 'b hub_world" where
  "hub_make L ext now w =
     (let (r, b) = sweep_hubs L now w in
      case hr_hubs r ext of
        Some hub \<Rightarrow> (hub, (r, b))
      | None \<Rightarrow>
          (let (hub, b') = lib_new L b in
           (hub, (r\<lparr>hr_hubs := (hr_hubs r)(ext \<mapsto> hub), hr_seen := (hr_seen r)(ext \<mapsto> now)\<rparr>, b'))))"

definition hub_get :: "'b hub_lib \<Rightarrow> extension \<Rightarrow> time \<Rightarrow> 'b hub_world \<Rightarrow> nat \<times> 'b hub_world" where
  "hub_get L ext now w = (case hub_look ext w of Some hub \<Rightarrow> (hub, w) | None \<Rightarrow> hub_make L ext now w)"

definition hub_stamp :: "extension \<Rightarrow> time \<Rightarrow> hub_registry \<Rightarrow> hub_registry" where
  "hub_stamp ext now r = r\<lparr>hr_seen := (hr_seen r)(ext \<mapsto> now)\<rparr>"

definition hub_publish :: "'b hub_lib \<Rightarrow> extension \<Rightarrow> string \<Rightarrow> string \<Rightarrow> time \<Rightarrow> 'b hub_world \<Rightarrow> 'b hub_world" where
  "hub_publish L ext name html now w =
     (let (hub, (r, b)) = hub_get L ext now w in (hub_stamp ext now r, lib_cast L hub (name, html) b))"

text \<open>The feed of one stream after the session check.\<close>

definition hub_events :: "'b hub_lib \<Rightarrow> extension \<Rightarrow> string \<Rightarrow> nat \<Rightarrow> time \<Rightarrow> 'b hub_world \<Rightarrow> 'b hub_world" where
  "hub_events L ext lang stream now w =
     (let (hub, (r, b)) = hub_get L ext now w in (hub_set_lang ext lang r, lib_serve L hub stream b))"

text \<open>Go leaves the order of a map's keys open; closing hubs of different keys commutes.\<close>

definition hub_shutdown :: "'b hub_lib \<Rightarrow> extension list \<Rightarrow> 'b hub_world \<Rightarrow> 'b hub_world" where
  "hub_shutdown L order w =
     fold (\<lambda>ext (r, b).
             (case hr_hubs r ext of
                None \<Rightarrow> (r, b)
              | Some hub \<Rightarrow>
                  (r\<lparr>hr_hubs := (hr_hubs r)(ext := None), hr_seen := (hr_seen r)(ext := None)\<rparr>, lib_close L hub b)))
       order w"

section \<open>The notifier\<close>

text \<open>The fragments, functions of what they show; \<open>None\<close> when the rendering fails.\<close>

record push_views =
  pv_threads :: "thread_summary list \<Rightarrow> string list \<Rightarrow> string \<Rightarrow> string option"
  pv_transcript :: "message list \<Rightarrow> string \<Rightarrow> bool \<Rightarrow> string option"
  pv_faxes :: "fax_job list \<Rightarrow> string list \<Rightarrow> bool \<times> bool \<Rightarrow> string \<Rightarrow> string option"

record notifier_config =
  pc_views :: push_views
  pc_asr :: bool
  pc_lane :: "bool \<times> bool"

definition notifier_publish ::
  "'b hub_lib \<Rightarrow> extension \<Rightarrow> string \<Rightarrow> string option \<Rightarrow> time \<Rightarrow> 'b hub_world \<Rightarrow> 'b hub_world" where
  "notifier_publish L owner name html now w =
     (case html of None \<Rightarrow> w | Some h \<Rightarrow> hub_publish L owner name h now w)"

definition review_changed :: "'b hub_lib \<Rightarrow> extension \<Rightarrow> time \<Rightarrow> 'b hub_world \<Rightarrow> 'b hub_world" where
  "review_changed L owner now w = hub_publish L owner ''review'' [] now w"

text \<open>A read that fails is skipped, one reading of the clock stands for those of a projection; a read that panics takes the goroutine with it.\<close>

definition push_read :: "err + 'a \<Rightarrow> ('a \<Rightarrow> 'w \<Rightarrow> 'w) \<Rightarrow> 'w \<Rightarrow> err + 'w" where
  "push_read res push w =
     (case res of Inr x \<Rightarrow> Inr (push x w) | Inl e \<Rightarrow> if e = Panic then Inl Panic else Inr w)"

definition messages_changed ::
  "'b hub_lib \<Rightarrow> notifier_config \<Rightarrow> faults \<Rightarrow> store \<Rightarrow> extension \<Rightarrow> thread_id \<Rightarrow> time \<Rightarrow> 'b hub_world \<Rightarrow> err + 'b hub_world" where
  "messages_changed L cfg fl st owner tid now w =
     (let lang = hub_lang owner (fst w) in
      case push_read (list_threads fl st owner)
             (\<lambda>threads. notifier_publish L owner ''threads''
                (pv_threads (pc_views cfg) threads
                   (crm_numbers (\<lambda>s. crm_number_for (thr_remote (sum_thread s))) threads) lang) now) w of
        Inl e \<Rightarrow> Inl e
      | Inr w1 \<Rightarrow>
          if tid = [] then Inr w1
          else push_read (list_messages fl st owner tid message_page_size)
                 (\<lambda>msgs. notifier_publish L owner ''thread''
                    (pv_transcript (pc_views cfg) msgs lang (pc_asr cfg)) now) w1)"

definition faxes_changed ::
  "'b hub_lib \<Rightarrow> notifier_config \<Rightarrow> ('s, string, fax_view) idem_engine \<Rightarrow> 's \<Rightarrow> extension \<Rightarrow> time \<Rightarrow> 'b hub_world \<Rightarrow>
     err + 'b hub_world" where
  "faxes_changed L cfg E s owner now w =
     push_read (fax_list E owner 100 s)
       (\<lambda>jobs w. notifier_publish L owner ''fax''
          (pv_faxes (pc_views cfg) jobs (crm_numbers (\<lambda>j. phone_string (job_remote j)) jobs) (pc_lane cfg)
             (hub_lang owner (fst w))) now w) w"

fun notifier_project ::
  "'b hub_lib \<Rightarrow> notifier_config \<Rightarrow> faults \<Rightarrow> store \<Rightarrow> ('s, string, fax_view) idem_engine \<Rightarrow> 's \<Rightarrow> time \<Rightarrow> domain_event \<Rightarrow>
     'b hub_world \<Rightarrow> err + 'b hub_world" where
  "notifier_project L cfg fl st E s now (Message_Received owner tid) w = messages_changed L cfg fl st owner tid now w"
| "notifier_project L cfg fl st E s now (Message_Delivery_Advanced owner tid) w = messages_changed L cfg fl st owner tid now w"
| "notifier_project L cfg fl st E s now (Thread_Flag_Changed owner) w = messages_changed L cfg fl st owner [] now w"
| "notifier_project L cfg fl st E s now (Fax_Advanced owner fx) w = faxes_changed L cfg E s owner now w"
| "notifier_project L cfg fl st E s now (Review_Saved owner call) w = Inr (review_changed L owner now w)"

section \<open>Interleavings\<close>

text \<open>
  A request is a feed or a push; its number is the number of its stream. The sections of a
  request are the look, the making of a missing hub, the language or the stamp, and the
  call of the hub. \<open>Hang_Up\<close> is a stream that ends, \<open>Stop\<close> the shutdown.
\<close>

datatype hub_goal = Feed string | Push string string

datatype hub_stage = Looking | Making | Holding nat | Marked nat | Finished

type_synonym hub_tasks = "nat \<Rightarrow> (extension \<times> hub_goal \<times> hub_stage) option"

datatype hub_act = Request nat extension hub_goal | Section nat time | Hang_Up nat | Stop "extension list"

definition hub_mark :: "extension \<Rightarrow> hub_goal \<Rightarrow> time \<Rightarrow> hub_registry \<Rightarrow> hub_registry" where
  "hub_mark ext goal now r = (case goal of Feed lang \<Rightarrow> hub_set_lang ext lang r | Push _ _ \<Rightarrow> hub_stamp ext now r)"

definition hub_call :: "'b hub_lib \<Rightarrow> nat \<Rightarrow> hub_goal \<Rightarrow> nat \<Rightarrow> 'b \<Rightarrow> 'b" where
  "hub_call L g goal hub b = (case goal of Feed _ \<Rightarrow> lib_serve L hub g b | Push name html \<Rightarrow> lib_cast L hub (name, html) b)"

fun hub_section ::
  "'b hub_lib \<Rightarrow> nat \<Rightarrow> time \<Rightarrow> extension \<Rightarrow> hub_goal \<Rightarrow> hub_stage \<Rightarrow> 'b hub_world \<Rightarrow> (hub_stage \<times> 'b hub_world) option" where
  "hub_section L g now ext goal Looking w =
     Some (case hub_look ext w of Some hub \<Rightarrow> (Holding hub, w) | None \<Rightarrow> (Making, w))"
| "hub_section L g now ext goal Making w = (let (hub, w') = hub_make L ext now w in Some (Holding hub, w'))"
| "hub_section L g now ext goal (Holding hub) w = Some (Marked hub, (hub_mark ext goal now (fst w), snd w))"
| "hub_section L g now ext goal (Marked hub) w = Some (Finished, (fst w, hub_call L g goal hub (snd w)))"
| "hub_section L g now ext goal Finished w = None"

fun hub_step :: "'b hub_lib \<Rightarrow> hub_act \<Rightarrow> hub_tasks \<times> 'b hub_world \<Rightarrow> (hub_tasks \<times> 'b hub_world) option" where
  "hub_step L (Request g ext goal) (tasks, w) =
     (if tasks g = None then Some (tasks(g \<mapsto> (ext, goal, Looking)), w) else None)"
| "hub_step L (Section g now) (tasks, w) =
     (case tasks g of
        None \<Rightarrow> None
      | Some (ext, goal, stage) \<Rightarrow>
          (case hub_section L g now ext goal stage w of
             None \<Rightarrow> None
           | Some (stage', w') \<Rightarrow> Some (tasks(g \<mapsto> (ext, goal, stage')), w')))"
| "hub_step L (Hang_Up g) (tasks, (r, b)) = Some (tasks, (r, lib_leave L g b))"
| "hub_step L (Stop order) (tasks, w) = Some (tasks, hub_shutdown L order w)"

fun hub_run :: "'b hub_lib \<Rightarrow> hub_act list \<Rightarrow> hub_tasks \<times> 'b hub_world \<Rightarrow> (hub_tasks \<times> 'b hub_world) option" where
  "hub_run L [] x = Some x"
| "hub_run L (a # acts) x = (case hub_step L a x of None \<Rightarrow> None | Some x' \<Rightarrow> hub_run L acts x')"

text \<open>
  What the hub promises: hubs are numbered in the order they are made, a hub counts and reaches
  the streams it serves, and a closed hub serves nobody.
\<close>

record hub_state =
  hs_made :: nat
  hs_shut :: "nat set"
  hs_tabs :: "nat \<Rightarrow> nat set"
  hs_inbox :: "nat \<Rightarrow> (string \<times> string) list"

definition hub_laws :: "'b hub_lib \<Rightarrow> ('b \<Rightarrow> hub_state) \<Rightarrow> bool" where
  "hub_laws L obs \<longleftrightarrow>
     (\<forall>b. fst (lib_new L b) = hs_made (obs b) \<and> obs (snd (lib_new L b)) = (obs b)\<lparr>hs_made := Suc (hs_made (obs b))\<rparr>) \<and>
     (\<forall>b h. finite (hs_tabs (obs b) h) \<and> lib_count L h b = card (hs_tabs (obs b) h)) \<and>
     (\<forall>b h c. obs (lib_serve L h c b) =
        (if h \<in> hs_shut (obs b) then obs b
         else (obs b)\<lparr>hs_tabs := (hs_tabs (obs b))(h := insert c (hs_tabs (obs b) h))\<rparr>)) \<and>
     (\<forall>b c. obs (lib_leave L c b) = (obs b)\<lparr>hs_tabs := (\<lambda>h. hs_tabs (obs b) h - {c})\<rparr>) \<and>
     (\<forall>b h ev. obs (lib_cast L h ev b) =
        (obs b)\<lparr>hs_inbox := (\<lambda>c. hs_inbox (obs b) c @ (if c \<in> hs_tabs (obs b) h then [ev] else []))\<rparr>) \<and>
     (\<forall>b h. obs (lib_close L h b) =
        (obs b)\<lparr>hs_tabs := (hs_tabs (obs b))(h := {}), hs_shut := insert h (hs_shut (obs b))\<rparr>)"

lemma hub_lawsD:
  assumes "hub_laws L obs"
  shows "fst (lib_new L b) = hs_made (obs b)" "obs (snd (lib_new L b)) = (obs b)\<lparr>hs_made := Suc (hs_made (obs b))\<rparr>"
    "finite (hs_tabs (obs b) h)" "lib_count L h b = card (hs_tabs (obs b) h)"
    "obs (lib_serve L h c b) = (if h \<in> hs_shut (obs b) then obs b
       else (obs b)\<lparr>hs_tabs := (hs_tabs (obs b))(h := insert c (hs_tabs (obs b) h))\<rparr>)"
    "obs (lib_leave L c b) = (obs b)\<lparr>hs_tabs := (\<lambda>h. hs_tabs (obs b) h - {c})\<rparr>"
    "obs (lib_cast L h ev b) = (obs b)\<lparr>hs_inbox := (\<lambda>c. hs_inbox (obs b) c @ (if c \<in> hs_tabs (obs b) h then [ev] else []))\<rparr>"
    "obs (lib_close L h b) = (obs b)\<lparr>hs_tabs := (hs_tabs (obs b))(h := {}), hs_shut := insert h (hs_shut (obs b))\<rparr>"
  using assms unfolding hub_laws_def by blast+

text \<open>The sweep only drops hubs, and only hubs nobody listens to.\<close>

lemma sweep_sub: "hr_hubs (fst (sweep_hubs L now w)) e = Some h \<Longrightarrow> hr_hubs (fst w) e = Some h"
  "snd (sweep_hubs L now w) = snd w"
  by (auto simp: sweep_hubs_def Let_def split: prod.splits if_splits)

lemma sweep_keeps:
  "hub_laws L obs \<Longrightarrow> hr_hubs (fst w) e = Some h \<Longrightarrow> hs_tabs (obs (snd w)) h \<noteq> {} \<Longrightarrow>
     hr_hubs (fst (sweep_hubs L now w)) e = Some h"
  using hub_lawsD(3,4) [where L = L and obs = obs and b = "snd w" and h = h] by (auto simp: sweep_hubs_def reaped_def Let_def card_gt_0_iff split: prod.splits)

lemma hub_make_cases:
  assumes "hub_laws L obs" "hub_make L e now w = (h, w')"
  obtains (found) "w' = sweep_hubs L now w" "hr_hubs (fst w') e = Some h"
    | (made) "hr_hubs (fst (sweep_hubs L now w)) e = None" "h = hs_made (obs (snd w))"
      "hr_hubs (fst w') = (hr_hubs (fst (sweep_hubs L now w)))(e \<mapsto> h)"
      "obs (snd w') = (obs (snd w))\<lparr>hs_made := Suc h\<rparr>"
  using assms(2) hub_lawsD(1,2) [OF assms(1), of "snd w"] sweep_sub(2) [of L now w]
  by (auto simp: hub_make_def Let_def split: prod.splits option.splits)

section \<open>Isolation\<close>

text \<open>Every hub belongs to one extension: its registry entry, the requests that hold it and its streams.\<close>

definition hub_scoped :: "('b \<Rightarrow> hub_state) \<Rightarrow> (nat \<Rightarrow> extension) \<Rightarrow> hub_tasks \<Rightarrow> 'b hub_world \<Rightarrow> bool" where
  "hub_scoped obs own tasks w \<longleftrightarrow>
     (\<forall>e h. hr_hubs (fst w) e = Some h \<longrightarrow> own h = e \<and> h < hs_made (obs (snd w))) \<and>
     (\<forall>g e goal h. tasks g = Some (e, goal, Holding h) \<or> tasks g = Some (e, goal, Marked h) \<longrightarrow>
        own h = e \<and> h < hs_made (obs (snd w))) \<and>
     (\<forall>h c. c \<in> hs_tabs (obs (snd w)) h \<longrightarrow>
        h < hs_made (obs (snd w)) \<and> (\<exists>l. tasks c = Some (own h, Feed l, Finished))) \<and>
     (\<forall>c ev. ev \<in> set (hs_inbox (obs (snd w)) c) \<longrightarrow>
        (\<exists>e l g. tasks c = Some (e, Feed l, Finished) \<and> tasks g = Some (e, Push (fst ev) (snd ev), Finished)))"

lemma scopedD:
  assumes "hub_scoped obs own tasks w"
  shows "hr_hubs (fst w) e = Some h \<Longrightarrow> own h = e \<and> h < hs_made (obs (snd w))"
    "tasks g = Some (e, goal, Holding h) \<or> tasks g = Some (e, goal, Marked h) \<Longrightarrow> own h = e \<and> h < hs_made (obs (snd w))"
    "c \<in> hs_tabs (obs (snd w)) h \<Longrightarrow> h < hs_made (obs (snd w)) \<and> (\<exists>l. tasks c = Some (own h, Feed l, Finished))"
    "ev \<in> set (hs_inbox (obs (snd w)) c) \<Longrightarrow>
       \<exists>e l g. tasks c = Some (e, Feed l, Finished) \<and> tasks g = Some (e, Push (fst ev) (snd ev), Finished)"
  using assms unfolding hub_scoped_def by blast+

text \<open>Moving one request to a new stage keeps what the finished ones justify.\<close>

lemma scoped_stage:
  assumes sc: "hub_scoped obs own tasks w" and g: "tasks g = Some (e, goal, stage)" "stage \<noteq> Finished"
    and hold: "\<And>h. stage' = Holding h \<or> stage' = Marked h \<Longrightarrow> own h = e \<and> h < hs_made (obs (snd w))"
  shows "hub_scoped obs own (tasks(g \<mapsto> (e, goal, stage'))) w"
proof -
  let ?t = "tasks(g \<mapsto> (e, goal, stage'))"
  have kept: "?t g' = Some (e', goal', Finished)" if "tasks g' = Some (e', goal', Finished)" for g' e' goal'
    using that g by auto
  show ?thesis
    unfolding hub_scoped_def
  proof (intro conjI allI impI)
    fix e' h assume "hr_hubs (fst w) e' = Some h"
    then show "own h = e'" "h < hs_made (obs (snd w))" using scopedD(1) [OF sc] by simp_all
  next
    fix g' e' goal' h assume "?t g' = Some (e', goal', Holding h) \<or> ?t g' = Some (e', goal', Marked h)"
    then have "own h = e' \<and> h < hs_made (obs (snd w))"
      using hold [of h] scopedD(2) [OF sc, of g' e' goal' h] by (auto split: if_splits)
    then show "own h = e'" "h < hs_made (obs (snd w))" by simp_all
  next
    fix h c assume c: "c \<in> hs_tabs (obs (snd w)) h"
    then show "h < hs_made (obs (snd w))" "\<exists>l. ?t c = Some (own h, Feed l, Finished)"
      using scopedD(3) [OF sc c] kept by blast+
  next
    fix c ev assume "ev \<in> set (hs_inbox (obs (snd w)) c)"
    then show "\<exists>e l g. ?t c = Some (e, Feed l, Finished) \<and> ?t g = Some (e, Push (fst ev) (snd ev), Finished)"
      using scopedD(4) [OF sc] kept by meson
  qed
qed

text \<open>What the registry and the hubs may lose keeps the scope.\<close>

lemma scoped_sub:
  assumes "hub_scoped obs own tasks w" "\<And>e h. hr_hubs (fst w') e = Some h \<Longrightarrow> hr_hubs (fst w) e = Some h"
    "hs_made (obs (snd w')) = hs_made (obs (snd w))" "\<And>h. hs_tabs (obs (snd w')) h \<subseteq> hs_tabs (obs (snd w)) h"
    "hs_inbox (obs (snd w')) = hs_inbox (obs (snd w))"
  shows "hub_scoped obs own tasks w'"
  unfolding hub_scoped_def
  using scopedD [OF assms(1)] assms(2-5) by (intro conjI allI impI) (metis subsetD)+

lemma shutdown_sub:
  assumes "hub_laws L obs"
  shows "(hr_hubs (fst (hub_shutdown L order w)) e = Some h \<longrightarrow> hr_hubs (fst w) e = Some h) \<and>
    hs_made (obs (snd (hub_shutdown L order w))) = hs_made (obs (snd w)) \<and>
    hs_tabs (obs (snd (hub_shutdown L order w))) h' \<subseteq> hs_tabs (obs (snd w)) h' \<and>
    hs_inbox (obs (snd (hub_shutdown L order w))) = hs_inbox (obs (snd w))"
proof (induction order arbitrary: w)
  case (Cons k order)
  let ?w = "case hr_hubs (fst w) k of None \<Rightarrow> w
     | Some hub \<Rightarrow> ((fst w)\<lparr>hr_hubs := (hr_hubs (fst w))(k := None), hr_seen := (hr_seen (fst w))(k := None)\<rparr>,
                    lib_close L hub (snd w))"
  have "hub_shutdown L (k # order) w = hub_shutdown L order ?w"
    by (cases w) (simp add: hub_shutdown_def split: option.split)
  then show ?case using Cons.IH [of ?w] hub_lawsD(8) [OF assms] by (auto split: option.splits if_splits)
qed (simp add: hub_shutdown_def)

lemma scoped_make:
  assumes laws: "hub_laws L obs" and sc: "hub_scoped obs own tasks w" and m: "hub_make L e now w = (h, w')"
  shows "\<exists>own'. hub_scoped obs own' tasks w' \<and> own' h = e \<and> h < hs_made (obs (snd w'))"
proof -
  have swept: "hub_scoped obs own tasks (sweep_hubs L now w)"
    by (rule scoped_sub [OF sc]) (auto dest: sweep_sub(1) simp: sweep_sub(2))
  show ?thesis
  proof (rule hub_make_cases [OF laws m])
    assume found: "w' = sweep_hubs L now w" "hr_hubs (fst w') e = Some h"
    then show ?thesis using swept scopedD(1) [OF swept] by auto
  next
    let ?s = "sweep_hubs L now w"
    assume made: "hr_hubs (fst ?s) e = None" "h = hs_made (obs (snd w))"
      "hr_hubs (fst w') = (hr_hubs (fst ?s))(e \<mapsto> h)" "obs (snd w') = (obs (snd w))\<lparr>hs_made := Suc h\<rparr>"
    have own: "(own(h := e)) x = own x" if "x < hs_made (obs (snd w))" for x using that made(2) by simp
    note D = scopedD [OF swept, unfolded sweep_sub(2)]
    have "hub_scoped obs (own(h := e)) tasks w'"
      unfolding hub_scoped_def
    proof (intro conjI allI impI)
      fix e' x assume "hr_hubs (fst w') e' = Some x"
      then have "(own(h := e)) x = e' \<and> x < Suc h" using D(1) [of e' x] own made(2,3) by (auto split: if_splits)
      then show "(own(h := e)) x = e'" "x < hs_made (obs (snd w'))" using made(4) by simp_all
    next
      fix g' e' goal' x assume "tasks g' = Some (e', goal', Holding x) \<or> tasks g' = Some (e', goal', Marked x)"
      then have "own x = e' \<and> x < h" using D(2) made(2) by simp
      then show "(own(h := e)) x = e'" "x < hs_made (obs (snd w'))" using made(4) by simp_all
    next
      fix x c assume "c \<in> hs_tabs (obs (snd w')) x"
      then have "x < h \<and> (\<exists>l. tasks c = Some (own x, Feed l, Finished))" using D(3) [of c x] made(2,4) by simp
      then show "x < hs_made (obs (snd w'))" "\<exists>l. tasks c = Some ((own(h := e)) x, Feed l, Finished)"
        using made(4) by auto
    next
      fix c ev assume "ev \<in> set (hs_inbox (obs (snd w')) c)"
      then show "\<exists>e l g. tasks c = Some (e, Feed l, Finished) \<and> tasks g = Some (e, Push (fst ev) (snd ev), Finished)"
        using D(4) [of ev c] made(4) by simp
    qed
    then show ?thesis using made(4) by auto
  qed
qed

lemma hub_call_obs:
  assumes "hub_laws L obs"
  shows "hs_made (obs (hub_call L g goal h b)) = hs_made (obs b)"
    "c \<in> hs_tabs (obs (hub_call L g goal h b)) x \<Longrightarrow> c \<in> hs_tabs (obs b) x \<or> x = h \<and> c = g \<and> (\<exists>l. goal = Feed l)"
    "hs_inbox (obs (hub_call L g goal h b)) c =
       hs_inbox (obs b) c @ (case goal of Feed _ \<Rightarrow> [] | Push n t \<Rightarrow> if c \<in> hs_tabs (obs b) h then [(n, t)] else [])"
  using hub_lawsD(5,7) [OF assms] by (auto simp: hub_call_def split: hub_goal.splits if_splits)

lemma scoped_call:
  assumes laws: "hub_laws L obs" and sc: "hub_scoped obs own tasks w" and g: "tasks g = Some (e, goal, Marked h)"
  shows "hub_scoped obs own (tasks(g \<mapsto> (e, goal, Finished))) (fst w, hub_call L g goal h (snd w))"
proof -
  let ?t = "tasks(g \<mapsto> (e, goal, Finished))" and ?w = "(fst w, hub_call L g goal h (snd w))"
  have s1: "hub_scoped obs own ?t w" using scoped_stage [of obs own tasks w g e goal "Marked h" Finished] sc g by simp
  have h: "own h = e" "h < hs_made (obs (snd w))" using scopedD(2) [OF sc, of g e goal h] g by simp_all
  note C = hub_call_obs [OF laws] and D = scopedD [OF s1]
  show ?thesis
    unfolding hub_scoped_def
  proof (intro conjI allI impI)
    fix e' x assume "hr_hubs (fst ?w) e' = Some x"
    then show "own x = e'" "x < hs_made (obs (snd ?w))" using D(1) [of e' x] C(1) by simp_all
  next
    fix g' e' goal' x assume "?t g' = Some (e', goal', Holding x) \<or> ?t g' = Some (e', goal', Marked x)"
    then show "own x = e'" "x < hs_made (obs (snd ?w))" using D(2) [of g' e' goal' x] C(1) by auto
  next
    fix x c assume "c \<in> hs_tabs (obs (snd ?w)) x"
    then have "c \<in> hs_tabs (obs (snd w)) x \<or> x = h \<and> c = g \<and> (\<exists>l. goal = Feed l)" using C(2) by simp
    then have "x < hs_made (obs (snd w)) \<and> (\<exists>l. ?t c = Some (own x, Feed l, Finished))"
      using D(3) [of c x] h by auto
    then show "x < hs_made (obs (snd ?w))" "\<exists>l. ?t c = Some (own x, Feed l, Finished)" using C(1) by auto
  next
    fix c ev assume ev: "ev \<in> set (hs_inbox (obs (snd ?w)) c)"
    show "\<exists>e l g. ?t c = Some (e, Feed l, Finished) \<and> ?t g = Some (e, Push (fst ev) (snd ev), Finished)"
    proof (cases "ev \<in> set (hs_inbox (obs (snd w)) c)")
      case True
      then show ?thesis using D(4) by blast
    next
      case False
      then have c: "c \<in> hs_tabs (obs (snd w)) h" and ev: "goal = Push (fst ev) (snd ev)"
        using ev C(3) [of g goal h "snd w" c] by (auto split: hub_goal.splits if_splits)
      obtain l where l: "?t c = Some (own h, Feed l, Finished)" using D(3) [OF c] by blast
      show ?thesis by (rule exI [of _ "own h"], rule exI [of _ l], rule exI [of _ g]) (use l h(1) ev in auto)
    qed
  qed
qed

lemma scoped_step:
  assumes laws: "hub_laws L obs" and sc: "hub_scoped obs own tasks w" and step: "hub_step L a (tasks, w) = Some (tasks', w')"
  shows "\<exists>own'. hub_scoped obs own' tasks' w'"
proof (cases a)
  case (Request g e goal)
  then have new: "tasks g = None" "tasks' = tasks(g \<mapsto> (e, goal, Looking))" "w' = w"
    using step by (auto split: if_splits)
  have kept: "tasks' g' = tasks g'" if "tasks g' \<noteq> None" for g' using that new by auto
  have "hub_scoped obs own tasks' w"
    unfolding hub_scoped_def
  proof (intro conjI allI impI)
    fix g' e' goal' x assume "tasks' g' = Some (e', goal', Holding x) \<or> tasks' g' = Some (e', goal', Marked x)"
    then show "own x = e'" "x < hs_made (obs (snd w))" using scopedD(2) [OF sc, of g' e' goal' x] new by (auto split: if_splits)
  next
    fix c ev assume "ev \<in> set (hs_inbox (obs (snd w)) c)"
    then obtain e l g where "tasks c = Some (e, Feed l, Finished)" "tasks g = Some (e, Push (fst ev) (snd ev), Finished)"
      using scopedD(4) [OF sc] by blast
    then show "\<exists>e l g. tasks' c = Some (e, Feed l, Finished) \<and> tasks' g = Some (e, Push (fst ev) (snd ev), Finished)"
      using kept [of c] kept [of g] by auto
  next
    fix x c assume "c \<in> hs_tabs (obs (snd w)) x"
    then show "\<exists>l. tasks' c = Some (own x, Feed l, Finished)" "x < hs_made (obs (snd w))"
      using scopedD(3) [OF sc] kept [of c] by fastforce+
  qed (use scopedD(1) [OF sc] in simp_all)
  then show ?thesis using new by blast
next
  case (Section g now)
  then obtain e goal stage stage' where g: "tasks g = Some (e, goal, stage)"
    and sec: "hub_section L g now e goal stage w = Some (stage', w')" and t: "tasks' = tasks(g \<mapsto> (e, goal, stage'))"
    using step by (auto split: option.splits prod.splits)
  show ?thesis
  proof (cases stage)
    case Looking
    then have "w' = w" "\<And>h. stage' = Holding h \<or> stage' = Marked h \<Longrightarrow> hr_hubs (fst w) e = Some h"
      using sec by (auto simp: hub_look_def split: option.splits)
    then show ?thesis unfolding t
      using scoped_stage [of obs own tasks w g e goal stage stage'] sc g scopedD(1) [OF sc] Looking by blast
  next
    case Making
    then obtain h where "hub_make L e now w = (h, w')" "stage' = Holding h" using sec by (auto split: prod.splits)
    moreover from this obtain own' where "hub_scoped obs own' tasks w'" "own' h = e" "h < hs_made (obs (snd w'))"
      using scoped_make [OF laws sc] by blast
    ultimately show ?thesis unfolding t using scoped_stage [of obs _ tasks w' g e goal stage stage'] g Making by blast
  next
    case (Holding h)
    then have w': "stage' = Marked h" "w' = (hub_mark e goal now (fst w), snd w)" using sec by simp_all
    have "hub_scoped obs own tasks w'"
      by (rule scoped_sub [OF sc]) (auto simp: w' hub_mark_def hub_set_lang_def hub_stamp_def split: hub_goal.splits)
    then have "hub_scoped obs own tasks' w'"
      unfolding t by (rule scoped_stage [of obs own tasks w' g e goal stage stage'])
        (use w' Holding scopedD(2) [OF sc, of g e goal h] g in auto)
    then show ?thesis by blast
  next
    case (Marked h)
    then show ?thesis using scoped_call [OF laws sc g [unfolded Marked]] sec t by auto
  qed (use sec in simp)
next
  case (Hang_Up g)
  then have "tasks' = tasks" "w' = (fst w, lib_leave L g (snd w))" using step by (cases w, simp)+
  then show ?thesis using scoped_sub [OF sc, of w'] hub_lawsD(6) [OF laws] by auto
next
  case (Stop order)
  then have "tasks' = tasks" "w' = hub_shutdown L order w" using step by simp_all
  then show ?thesis using scoped_sub [OF sc, of w'] shutdown_sub [OF laws] by blast
qed

lemma scoped_run:
  "hub_laws L obs \<Longrightarrow> hub_scoped obs own tasks w \<Longrightarrow> hub_run L acts (tasks, w) = Some (tasks', w') \<Longrightarrow>
     \<exists>own'. hub_scoped obs own' tasks' w'"
proof (induction acts arbitrary: own tasks w)
  case (Cons a acts)
  then obtain t1 w1 where "hub_step L a (tasks, w) = Some (t1, w1)" "hub_run L acts (t1, w1) = Some (tasks', w')"
    by (auto split: option.splits)
  then show ?case using Cons.IH scoped_step [OF Cons.prems(1,2)] Cons.prems(1) by blast
qed auto

section \<open>Streams of hubs that left the registry\<close>

definition deaf :: "('b \<Rightarrow> hub_state) \<Rightarrow> nat \<Rightarrow> nat \<Rightarrow> hub_tasks \<Rightarrow> 'b hub_world \<Rightarrow> bool" where
  "deaf obs c h tasks w \<longleftrightarrow>
     h < hs_made (obs (snd w)) \<and> (\<forall>e. hr_hubs (fst w) e \<noteq> Some h) \<and>
     (\<forall>g e n t. tasks g \<noteq> Some (e, Push n t, Holding h) \<and> tasks g \<noteq> Some (e, Push n t, Marked h)) \<and>
     (\<exists>e l. tasks c = Some (e, Feed l, Finished)) \<and> (\<forall>x. c \<in> hs_tabs (obs (snd w)) x \<longrightarrow> x = h)"

lemma deaf_sub:
  assumes "deaf obs c h tasks w" "\<And>e x. hr_hubs (fst w') e = Some x \<Longrightarrow> hr_hubs (fst w) e = Some x"
    "hs_made (obs (snd w')) = hs_made (obs (snd w))" "\<And>x. hs_tabs (obs (snd w')) x \<subseteq> hs_tabs (obs (snd w)) x"
  shows "deaf obs c h tasks w'"
proof -
  have "hr_hubs (fst w') e \<noteq> Some h" for e using assms(1,2) unfolding deaf_def by blast
  moreover have "c \<in> hs_tabs (obs (snd w')) x \<longrightarrow> x = h" for x using assms(1,4) unfolding deaf_def by blast
  ultimately show ?thesis using assms(1,3) unfolding deaf_def by simp
qed

lemma deaf_stage:
  assumes "deaf obs c h tasks w" "tasks g = Some (e, goal, stage)" "stage \<noteq> Finished"
    "\<forall>n t. goal = Push n t \<longrightarrow> stage' \<noteq> Holding h \<and> stage' \<noteq> Marked h"
  shows "deaf obs c h (tasks(g \<mapsto> (e, goal, stage'))) w"
  using assms unfolding deaf_def by auto

lemma deaf_section:
  assumes laws: "hub_laws L obs" and d: "deaf obs c h tasks w" and g: "tasks g = Some (e, goal, stage)"
    and sec: "hub_section L g now e goal stage w = Some (stage', w')"
  shows "deaf obs c h (tasks(g \<mapsto> (e, goal, stage'))) w' \<and> hs_inbox (obs (snd w')) c = hs_inbox (obs (snd w)) c"
proof -
  have un: "hr_hubs (fst w) e' \<noteq> Some h" "h < hs_made (obs (snd w))" for e' using d by (simp_all add: deaf_def)
  note st = deaf_stage [of obs c h tasks _ g e goal stage stage', OF _ g]
  show ?thesis
  proof (cases stage)
    case Looking
    then have "w' = w" "stage' \<noteq> Holding h \<and> stage' \<noteq> Marked h"
      using sec un(1) by (auto simp: hub_look_def split: option.splits)
    then show ?thesis using st [OF d] Looking by simp
  next
    case Making
    then obtain x where m: "hub_make L e now w = (x, w')" and x: "stage' = Holding x" using sec by (auto split: prod.splits)
    have s: "deaf obs c h tasks (sweep_hubs L now w)"
      by (rule deaf_sub [OF d]) (auto dest: sweep_sub(1) simp: sweep_sub(2))
    show ?thesis
    proof (rule hub_make_cases [OF laws m])
      assume "w' = sweep_hubs L now w" "hr_hubs (fst w') e = Some x"
      moreover from this have "x \<noteq> h" using sweep_sub(1) un(1) by metis
      ultimately show ?thesis using st [OF s] x Making by (simp add: sweep_sub(2))
    next
      assume made: "hr_hubs (fst (sweep_hubs L now w)) e = None" "x = hs_made (obs (snd w))"
        "hr_hubs (fst w') = (hr_hubs (fst (sweep_hubs L now w)))(e \<mapsto> x)" "obs (snd w') = (obs (snd w))\<lparr>hs_made := Suc x\<rparr>"
      have "x \<noteq> h" using made(2) un(2) by simp
      moreover from this have "deaf obs c h tasks w'"
        using s made(2-4) by (simp add: deaf_def sweep_sub(2))
      ultimately show ?thesis using st x Making made(4) by simp
    qed
  next
    case (Holding x)
    then have w': "stage' = Marked x" "w' = (hub_mark e goal now (fst w), snd w)" using sec by simp_all
    have "deaf obs c h tasks w'"
      by (rule deaf_sub [OF d]) (auto simp: w' hub_mark_def hub_set_lang_def hub_stamp_def split: hub_goal.splits)
    moreover have "\<forall>n t. goal = Push n t \<longrightarrow> x \<noteq> h" using d g Holding by (auto simp: deaf_def)
    ultimately show ?thesis using st [of w'] w' Holding by auto
  next
    case (Marked x)
    then have w': "stage' = Finished" "w' = (fst w, hub_call L g goal x (snd w))" using sec by simp_all
    have other: "c \<noteq> g" using d g Marked by (auto simp: deaf_def)
    have quiet: "hs_inbox (obs (snd w')) c = hs_inbox (obs (snd w)) c"
      using d g Marked by (auto simp: w' hub_call_obs(3) [OF laws] deaf_def split: hub_goal.splits)
    have "deaf obs c h tasks w'"
      using d hub_call_obs(1,2) [OF laws] other unfolding deaf_def w' by (metis fst_conv snd_conv)
    then show ?thesis using st [of w'] w' Marked quiet by simp
  qed (use sec in simp)
qed

lemma deaf_run:
  assumes laws: "hub_laws L obs"
  shows "deaf obs c h tasks w \<Longrightarrow> hub_run L acts (tasks, w) = Some (tasks', w') \<Longrightarrow>
     hs_inbox (obs (snd w')) c = hs_inbox (obs (snd w)) c"
proof (induction acts arbitrary: tasks w)
  case (Cons a acts)
  obtain t1 w1 where step: "hub_step L a (tasks, w) = Some (t1, w1)" and rest: "hub_run L acts (t1, w1) = Some (tasks', w')"
    using Cons.prems(2) by (auto split: option.splits)
  have "deaf obs c h t1 w1 \<and> hs_inbox (obs (snd w1)) c = hs_inbox (obs (snd w)) c"
  proof (cases a)
    case (Request g e goal)
    then show ?thesis using step Cons.prems(1) by (auto simp: deaf_def split: if_splits)
  next
    case (Section g now)
    then show ?thesis using step deaf_section [OF laws Cons.prems(1)] by (fastforce split: option.splits prod.splits)
  next
    case (Hang_Up g)
    then have "t1 = tasks" "w1 = (fst w, lib_leave L g (snd w))" using step by (cases w, simp)+
    then show ?thesis using deaf_sub [OF Cons.prems(1), of w1] hub_lawsD(6) [OF laws] by auto
  next
    case (Stop order)
    then have t1: "t1 = tasks" and w1: "w1 = hub_shutdown L order w" using step by simp_all
    note stop = shutdown_sub [OF laws, where order = order and w = w]
    have "deaf obs c h tasks w1" unfolding w1 by (rule deaf_sub [OF Cons.prems(1)]) (use stop in blast)+
    then show ?thesis using t1 w1 stop by simp
  qed
  then show ?case using Cons.IH rest by metis
qed simp

text \<open>A first tab of an idle extension meets the first tab of another one at its sweep.\<close>

definition sweep_race :: "nat \<Rightarrow> extension \<Rightarrow> string \<Rightarrow> nat \<Rightarrow> extension \<Rightarrow> string \<Rightarrow> time \<Rightarrow> hub_act list" where
  "sweep_race c e l c' e' l' now =
     [Request c e (Feed l), Section c now, Request c' e' (Feed l'), Section c' now, Section c' now, Section c now, Section c now]"

definition idle_hub :: "('b \<Rightarrow> hub_state) \<Rightarrow> extension \<Rightarrow> nat \<Rightarrow> time \<Rightarrow> 'b hub_world \<Rightarrow> bool" where
  "idle_hub obs e h now w \<longleftrightarrow>
     hr_hubs (fst w) e = Some h \<and> hs_tabs (obs (snd w)) h = {} \<and> h \<notin> hs_shut (obs (snd w)) \<and>
     \<not> touched_within now (hr_seen (fst w) e) hub_idle_ttl \<and> \<not> touched_within now (hr_swept (fst w)) hub_sweep_every"

lemma idle_made:
  assumes laws: "hub_laws L obs" and idle: "idle_hub obs e h now w" and new: "hr_hubs (fst w) e' = None"
  shows "\<exists>r' b'. hub_make L e' now w = (hs_made (obs (snd w)), (r', b')) \<and> hr_hubs r' e = None \<and>
    (\<forall>k x. hr_hubs r' k = Some x \<longrightarrow> hr_hubs (fst w) k = Some x \<or> x = hs_made (obs (snd w))) \<and>
    obs b' = (obs (snd w))\<lparr>hs_made := Suc (hs_made (obs (snd w)))\<rparr>"
proof -
  have "e \<noteq> e'" using idle new by (auto simp: idle_hub_def)
  moreover have "reaped L now w e"
    using idle hub_lawsD(4) [OF laws] by (simp add: reaped_def idle_hub_def)
  moreover have "\<not> reaped L now w e'" using new by (simp add: reaped_def)
  ultimately show ?thesis
    using idle new hub_lawsD(1,2) [OF laws, of "snd w"]
    by (cases w; cases "lib_new L (snd w)") (auto simp: hub_make_def sweep_hubs_def idle_hub_def Let_def)
qed

lemma race_deafens:
  assumes laws: "hub_laws L obs" and sc: "hub_scoped obs own tasks w" and idle: "idle_hub obs e h now w"
    and new: "hr_hubs (fst w) e' = None" and fresh: "tasks c = None" "tasks c' = None" "c \<noteq> c'"
    and none: "\<forall>g e n t. tasks g \<noteq> Some (e, Push n t, Holding h) \<and> tasks g \<noteq> Some (e, Push n t, Marked h)"
  shows "\<exists>tasks' w'. hub_run L (sweep_race c e l c' e' l' now) (tasks, w) = Some (tasks', w') \<and>
    c \<in> hs_tabs (obs (snd w')) h \<and> hs_inbox (obs (snd w')) c = [] \<and> deaf obs c h tasks' w'"
proof -
  obtain r' b' where make: "hub_make L e' now w = (hs_made (obs (snd w)), (r', b'))" "hr_hubs r' e = None"
    "\<forall>k x. hr_hubs r' k = Some x \<longrightarrow> hr_hubs (fst w) k = Some x \<or> x = hs_made (obs (snd w))"
    "obs b' = (obs (snd w))\<lparr>hs_made := Suc (hs_made (obs (snd w)))\<rparr>"
    using idle_made [OF laws idle new] by blast
  have h: "own h = e" "h < hs_made (obs (snd w))" "hub_look e w = Some h" "hub_look e' w = None"
    using idle new scopedD(1) [OF sc, of e h] by (simp_all add: idle_hub_def hub_look_def)
  let ?t = "tasks(c' \<mapsto> (e', Feed l', Holding (hs_made (obs (snd w)))), c \<mapsto> (e, Feed l, Finished))"
  let ?w = "(hub_set_lang e l r', lib_serve L h c b')"
  have run: "hub_run L (sweep_race c e l c' e' l' now) (tasks, w) = Some (?t, ?w)"
    using fresh h(3,4) make(1) by (simp add: sweep_race_def hub_mark_def hub_call_def fun_upd_twist)
  have after: "obs (lib_serve L h c b') = (obs b')\<lparr>hs_tabs := (hs_tabs (obs b'))(h := insert c (hs_tabs (obs b') h))\<rparr>"
    using hub_lawsD(5) [OF laws, of h c b'] idle make(4) by (simp add: idle_hub_def)
  have away: "c \<notin> hs_tabs (obs (snd w)) x" for x using scopedD(3) [OF sc, of c x] fresh(1) by auto
  have silent: "hs_inbox (obs (snd w)) c = []"
    using scopedD(4) [OF sc, where c = c] fresh(1) by (cases "hs_inbox (obs (snd w)) c") force+
  have "hr_hubs r' k \<noteq> Some h" for k
    using make(2,3) h(1,2) scopedD(1) [OF sc, of k h] by (cases "k = e") auto
  then have "deaf obs c h ?t ?w"
    using h(2) none away by (auto simp: deaf_def after make(4) hub_set_lang_def split: if_splits)
  then show ?thesis using run silent by (auto simp: after make(4))
qed

section \<open>Requests that do not interleave\<close>

definition hub_settled :: "('b \<Rightarrow> hub_state) \<Rightarrow> 'b hub_world \<Rightarrow> bool" where
  "hub_settled obs w \<longleftrightarrow>
     (\<forall>e h. hr_hubs (fst w) e = Some h \<longrightarrow> h < hs_made (obs (snd w))) \<and>
     (\<forall>h c. c \<in> hs_tabs (obs (snd w)) h \<longrightarrow> (\<exists>e. hr_hubs (fst w) e = Some h))"

definition hub_listens :: "('b \<Rightarrow> hub_state) \<Rightarrow> 'b hub_world \<Rightarrow> extension \<Rightarrow> nat \<Rightarrow> bool" where
  "hub_listens obs w e c \<longleftrightarrow> (\<exists>h. hr_hubs (fst w) e = Some h \<and> c \<in> hs_tabs (obs (snd w)) h)"

lemma get_settled:
  assumes laws: "hub_laws L obs" and st: "hub_settled obs w" and get: "hub_get L e now w = (h, w')"
  shows "hub_settled obs w' \<and> hr_hubs (fst w') e = Some h \<and> hs_inbox (obs (snd w')) = hs_inbox (obs (snd w)) \<and>
    (c \<in> hs_tabs (obs (snd w')) h \<longleftrightarrow> hub_listens obs w e c)"
proof (cases "hr_hubs (fst w) e")
  case (Some x)
  then have "w' = w" "h = x" using get by (simp_all add: hub_get_def hub_look_def)
  then show ?thesis using st Some by (simp add: hub_listens_def)
next
  case None
  then have m: "hub_make L e now w = (h, w')" using get by (simp add: hub_get_def hub_look_def)
  have swept: "\<exists>k. hr_hubs (fst (sweep_hubs L now w)) k = Some x" if c': "c' \<in> hs_tabs (obs (snd w)) x" for c' x
  proof -
    obtain k where "hr_hubs (fst w) k = Some x" using st c' unfolding hub_settled_def by blast
    then show ?thesis using sweep_keeps [OF laws] c' by blast
  qed
  show ?thesis
  proof (rule hub_make_cases [OF laws m])
    assume found: "w' = sweep_hubs L now w" "hr_hubs (fst w') e = Some h"
    have "hr_hubs (fst w) e = Some h" by (rule sweep_sub(1) [of L now]) (use found in simp)
    then show ?thesis using None by simp
  next
    assume made: "hr_hubs (fst (sweep_hubs L now w)) e = None" "h = hs_made (obs (snd w))"
      "hr_hubs (fst w') = (hr_hubs (fst (sweep_hubs L now w)))(e \<mapsto> h)" "obs (snd w') = (obs (snd w))\<lparr>hs_made := Suc h\<rparr>"
    have "\<exists>k. hr_hubs (fst w') k = Some x" if c': "c' \<in> hs_tabs (obs (snd w)) x" for c' x
    proof -
      obtain k where "hr_hubs (fst (sweep_hubs L now w)) k = Some x" using swept [OF c'] by blast
      then have "hr_hubs (fst w') k = Some x" using made(1,3) by auto
      then show ?thesis by blast
    qed
    moreover have "x < Suc h" if "hr_hubs (fst w') k = Some x" for k x
      using that st sweep_sub(1) [of L now w k x] made(2,3) by (force simp: hub_settled_def split: if_splits)
    ultimately have "hub_settled obs w'" using made(4) by (simp add: hub_settled_def)
    moreover have "c \<notin> hs_tabs (obs (snd w)) h"
    proof
      assume "c \<in> hs_tabs (obs (snd w)) h"
      then have "h < hs_made (obs (snd w))" using st unfolding hub_settled_def by blast
      then show False using made(2) by simp
    qed
    ultimately show ?thesis using None made(3,4) by (simp add: hub_listens_def)
  qed
qed

lemma publish_settled:
  assumes laws: "hub_laws L obs" and st: "hub_settled obs w"
  shows "hub_settled obs (hub_publish L e n t now w) \<and>
    (hub_listens obs (hub_publish L e n t now w) e c \<longleftrightarrow> hub_listens obs w e c) \<and>
    hs_inbox (obs (snd (hub_publish L e n t now w))) c =
      hs_inbox (obs (snd w)) c @ (if hub_listens obs w e c then [(n, t)] else [])"
proof -
  obtain h r b where get: "hub_get L e now w = (h, (r, b))" by (metis surj_pair)
  have w: "hub_publish L e n t now w = (hub_stamp e now r, lib_cast L h (n, t) b)"
    by (simp add: hub_publish_def get)
  note G = get_settled [OF laws st get] and C = hub_lawsD(7) [OF laws]
  show ?thesis
    using G [of c] unfolding w
    by (simp add: C hub_settled_def hub_stamp_def) (simp add: hub_listens_def C)
qed

lemma events_settled:
  assumes laws: "hub_laws L obs" and st: "hub_settled obs w" and c: "\<And>h. c \<notin> hs_tabs (obs (snd w)) h"
    and open_hub: "\<And>h. hr_hubs (fst w) e = Some h \<Longrightarrow> h \<notin> hs_shut (obs (snd w))" "\<And>h. h \<in> hs_shut (obs (snd w)) \<Longrightarrow> h < hs_made (obs (snd w))"
  shows "hub_settled obs (hub_events L e l c now w) \<and> hub_listens obs (hub_events L e l c now w) e c"
proof -
  obtain h r b where get: "hub_get L e now w = (h, (r, b))" by (metis surj_pair)
  have w: "hub_events L e l c now w = (hub_set_lang e l r, lib_serve L h c b)" by (simp add: hub_events_def get)
  have "h \<notin> hs_shut (obs b)"
  proof (cases "hr_hubs (fst w) e")
    case (Some x)
    then show ?thesis using open_hub(1) get by (cases w) (auto simp: hub_get_def hub_look_def)
  next
    case None
    then have m: "hub_make L e now w = (h, (r, b))" using get by (simp add: hub_get_def hub_look_def)
    show ?thesis
      by (rule hub_make_cases [OF laws m]) (use None open_hub(2) in \<open>auto dest: sweep_sub(1)\<close>)
  qed
  moreover note G = get_settled [OF laws st get]
  ultimately show ?thesis
    using G [of c] get_settled [OF laws st get] hub_lawsD(5) [OF laws, of h c b] unfolding w
    by (auto simp: hub_settled_def hub_listens_def hub_set_lang_def split: if_splits)
qed

text \<open>The frames an event may push, and whose they are.\<close>

fun event_owner :: "domain_event \<Rightarrow> extension" where
  "event_owner (Message_Received owner tid) = owner"
| "event_owner (Message_Delivery_Advanced owner tid) = owner"
| "event_owner (Thread_Flag_Changed owner) = owner"
| "event_owner (Fax_Advanced owner fx) = owner"
| "event_owner (Review_Saved owner call) = owner"

fun event_frames :: "domain_event \<Rightarrow> string set" where
  "event_frames (Message_Received owner tid) = (if tid = [] then {''threads''} else {''threads'', ''thread''})"
| "event_frames (Message_Delivery_Advanced owner tid) = (if tid = [] then {''threads''} else {''threads'', ''thread''})"
| "event_frames (Thread_Flag_Changed owner) = {''threads''}"
| "event_frames (Fax_Advanced owner fx) = {''fax''}"
| "event_frames (Review_Saved owner call) = {''review''}"

definition pushed :: "('b \<Rightarrow> hub_state) \<Rightarrow> extension \<Rightarrow> string set \<Rightarrow> 'b hub_world \<Rightarrow> 'b hub_world \<Rightarrow> bool" where
  "pushed obs e names w w' \<longleftrightarrow>
     hub_settled obs w' \<and>
     (\<forall>c. hub_listens obs w' e c = hub_listens obs w e c \<and>
        (\<exists>fr. hs_inbox (obs (snd w')) c = hs_inbox (obs (snd w)) c @ fr \<and> fst ` set fr \<subseteq> names \<and>
           (\<not> hub_listens obs w e c \<longrightarrow> fr = [])))"

lemma pushed_one:
  assumes "hub_laws L obs" "hub_settled obs w" "name \<in> names"
  shows "pushed obs e names w (notifier_publish L e name html now w)"
proof (cases html)
  case (Some t)
  show ?thesis
    unfolding pushed_def notifier_publish_def Some option.case
  proof (intro conjI allI)
    fix c
    note P = publish_settled [OF assms(1,2), of e name t now c]
    show "hub_settled obs (hub_publish L e name t now w)"
      "hub_listens obs (hub_publish L e name t now w) e c = hub_listens obs w e c" using P by simp_all
    show "\<exists>fr. hs_inbox (obs (snd (hub_publish L e name t now w))) c = hs_inbox (obs (snd w)) c @ fr \<and>
        fst ` set fr \<subseteq> names \<and> (\<not> hub_listens obs w e c \<longrightarrow> fr = [])"
      using P assms(3) by (cases "hub_listens obs w e c") auto
  qed
qed (use assms(2) in \<open>simp add: pushed_def notifier_publish_def\<close>)

lemma pushed_refl: "hub_settled obs w \<Longrightarrow> pushed obs e names w w"
  by (simp add: pushed_def)

lemma pushed_trans:
  assumes "pushed obs e names w w1" "pushed obs e names w1 w2"
  shows "pushed obs e names w w2"
  unfolding pushed_def
proof (intro conjI allI)
  fix c
  show "hub_settled obs w2" "hub_listens obs w2 e c = hub_listens obs w e c" using assms by (simp_all add: pushed_def)
  obtain f1 f2 where "hs_inbox (obs (snd w1)) c = hs_inbox (obs (snd w)) c @ f1" "fst ` set f1 \<subseteq> names"
      "\<not> hub_listens obs w e c \<longrightarrow> f1 = []" "hs_inbox (obs (snd w2)) c = hs_inbox (obs (snd w1)) c @ f2" "fst ` set f2 \<subseteq> names"
      "\<not> hub_listens obs w e c \<longrightarrow> f2 = []"
    using assms unfolding pushed_def by meson
  then show "\<exists>fr. hs_inbox (obs (snd w2)) c = hs_inbox (obs (snd w)) c @ fr \<and> fst ` set fr \<subseteq> names \<and>
      (\<not> hub_listens obs w e c \<longrightarrow> fr = [])"
    by (intro exI [of _ "f1 @ f2"]) auto
qed

lemma pushed_read:
  assumes "push_read res (\<lambda>x. notifier_publish L e name (html x) now) w = Inr w'"
    "hub_laws L obs" "hub_settled obs w" "name \<in> names"
  shows "pushed obs e names w w'"
  using assms(1) pushed_one [OF assms(2-4)] pushed_refl [OF assms(3)]
  by (auto simp: push_read_def split: sum.splits if_splits)

lemma messages_pushed:
  assumes "messages_changed L cfg fl st owner tid now w = Inr w'" "hub_laws L obs" "hub_settled obs w"
    "''threads'' \<in> names" "tid \<noteq> [] \<Longrightarrow> ''thread'' \<in> names"
  shows "pushed obs owner names w w'"
proof -
  obtain w1 where one: "push_read (list_threads fl st owner)
             (\<lambda>threads. notifier_publish L owner ''threads''
                (pv_threads (pc_views cfg) threads
                   (crm_numbers (\<lambda>s. crm_number_for (thr_remote (sum_thread s))) threads) (hub_lang owner (fst w))) now) w = Inr w1"
    and two: "(if tid = [] then Inr w1
          else push_read (list_messages fl st owner tid message_page_size)
                 (\<lambda>msgs. notifier_publish L owner ''thread''
                    (pv_transcript (pc_views cfg) msgs (hub_lang owner (fst w)) (pc_asr cfg)) now) w1) = Inr w'"
    using assms(1) unfolding messages_changed_def Let_def by (auto split: sum.splits)
  have p: "pushed obs owner names w w1" by (rule pushed_read [OF one assms(2-4)])
  then have "hub_settled obs w1" by (simp add: pushed_def)
  show ?thesis
  proof (cases "tid = []")
    case False
    then have "pushed obs owner names w1 w'"
      using two by (intro pushed_read [OF _ assms(2) \<open>hub_settled obs w1\<close> assms(5)]) simp_all
    then show ?thesis by (rule pushed_trans [OF p])
  qed (use p two in simp)
qed

lemma project_pushed:
  assumes "notifier_project L cfg fl st E s now ev w = Inr w'" "hub_laws L obs" "hub_settled obs w"
  shows "pushed obs (event_owner ev) (event_frames ev) w w'"
proof -
  have messages: "pushed obs owner (if tid = [] then {''threads''} else {''threads'', ''thread''}) w w'"
    if "messages_changed L cfg fl st owner tid now w = Inr w'" for owner tid
    by (rule messages_pushed [OF that assms(2,3)]) auto
  show ?thesis
proof (cases ev)
  case (Fax_Advanced owner fx)
  then have "push_read (fax_list E owner 100 s)
       (\<lambda>jobs. notifier_publish L owner ''fax''
          (pv_faxes (pc_views cfg) jobs (crm_numbers (\<lambda>j. phone_string (job_remote j)) jobs) (pc_lane cfg)
             (hub_lang owner (fst w))) now) w = Inr w'"
    using assms(1) by (simp add: faxes_changed_def push_read_def split: sum.splits)
  then show ?thesis using pushed_read [OF _ assms(2,3), where e = owner] Fax_Advanced by fastforce
next
  case (Review_Saved owner call)
  then show ?thesis
    using assms(1) pushed_one [OF assms(2,3), of "''review''" "{''review''}" owner "Some []" now]
    by (simp add: review_changed_def notifier_publish_def)
next
  case (Message_Received owner tid)
  then show ?thesis using messages [of owner tid] assms(1) by simp
next
  case (Message_Delivery_Advanced owner tid)
  then show ?thesis using messages [of owner tid] assms(1) by simp
next
  case (Thread_Flag_Changed owner)
  then show ?thesis using messages [of owner "[]"] assms(1) by simp
qed
qed

section \<open>The live updates\<close>

lemma scoped_start:
  assumes "hs_tabs (obs b) = (\<lambda>_. {})" "hs_inbox (obs b) = (\<lambda>_. [])"
  shows "hub_scoped obs own Map.empty (new_hubs, b)"
  using assms by (simp add: hub_scoped_def new_hubs_def)


text \<open>A hub library that keeps the streams of each hub as a list.\<close>

record mem_hub =
  mh_made :: nat
  mh_shut :: "nat list"
  mh_tabs :: "nat \<Rightarrow> nat list"
  mh_inbox :: "nat \<Rightarrow> (string \<times> string) list"

definition mem_hubs :: "mem_hub hub_lib" where
  "mem_hubs =
     \<lparr>lib_new = (\<lambda>b. (mh_made b, b\<lparr>mh_made := Suc (mh_made b)\<rparr>)),
      lib_count = (\<lambda>h b. length (remdups (mh_tabs b h))),
      lib_serve = (\<lambda>h c b. if h \<in> set (mh_shut b) then b else b\<lparr>mh_tabs := (mh_tabs b)(h := c # mh_tabs b h)\<rparr>),
      lib_leave = (\<lambda>c b. b\<lparr>mh_tabs := (\<lambda>h. filter (\<lambda>x. x \<noteq> c) (mh_tabs b h))\<rparr>),
      lib_cast = (\<lambda>h ev b. b\<lparr>mh_inbox := (\<lambda>c. mh_inbox b c @ (if c \<in> set (mh_tabs b h) then [ev] else []))\<rparr>),
      lib_close = (\<lambda>h b. b\<lparr>mh_tabs := (mh_tabs b)(h := []), mh_shut := h # mh_shut b\<rparr>)\<rparr>"

definition mem_obs :: "mem_hub \<Rightarrow> hub_state" where
  "mem_obs b = \<lparr>hs_made = mh_made b, hs_shut = set (mh_shut b), hs_tabs = (\<lambda>h. set (mh_tabs b h)), hs_inbox = mh_inbox b\<rparr>"

definition no_hub :: mem_hub where
  "no_hub = \<lparr>mh_made = 0, mh_shut = [], mh_tabs = (\<lambda>_. []), mh_inbox = (\<lambda>_. [])\<rparr>"

lemma mem_hubs_laws: "hub_laws mem_hubs mem_obs"
  by (auto simp: hub_laws_def mem_hubs_def mem_obs_def length_remdups_card_conv fun_eq_iff)

text \<open>The first tab of line 1001 comes and goes; ten minutes later it comes back together with line 1002's.\<close>

definition sample_tab :: "hub_act list" where
  "sample_tab = Request 0 (Extension ''1001'') (Feed ''en'') # replicate 4 (Section 0 0) @ [Hang_Up 0]"

lemma sample_tab_run:
  "\<exists>tasks w. hub_run mem_hubs sample_tab (Map.empty, (new_hubs, no_hub)) = Some (tasks, w) \<and>
     idle_hub mem_obs (Extension ''1001'') 0 (700 * second) w \<and> hr_hubs (fst w) (Extension ''1002'') = None \<and>
     tasks = [0 \<mapsto> (Extension ''1001'', Feed ''en'', Finished)]"
  by (simp add: sample_tab_def numeral_eq_Suc hub_look_def new_hubs_def hub_make_def sweep_hubs_def touched_within_def
      mem_hubs_def no_hub_def hub_mark_def hub_set_lang_def hub_call_def idle_hub_def mem_obs_def hub_idle_ttl_def
      hub_sweep_every_def second_def reaped_def)


end
