(* ===== verification/Speech.thy ===== *)
theory Speech
  imports Config "HOL-Library.Word"
begin

text \<open>
  Speech recognition: the label of where a provider processes audio, the two clients and what
  they make of a provider's answer (\<^verbatim>\<open>internal/asr/asr.go\<close>, \<^verbatim>\<open>google.go\<close>), the account of their
  round trips behind the health check (\<^verbatim>\<open>outcomes.go\<close>), and the door with its four slots
  (\<^verbatim>\<open>internal/server/api/transcribe.go\<close>). The provider is foreign: its answer to a request is an
  input. Go's URL parser and JSON decoder are parameters; the base64 of the JSON wire is
  left out, the audio itself stands for it.
\<close>

section \<open>Where audio is processed\<close>

definition locality_of :: "parsers \<Rightarrow> (string \<Rightarrow> string) \<Rightarrow> string \<Rightarrow> string" where
  "locality_of P lower raw =
     (case ps_url P raw of
        None \<Rightarrow> ''remote''
      | Some u \<Rightarrow>
          if up_hostname u = [] then ''remote''
          else
            let host = lower (up_hostname u) in
            if host = ''localhost'' \<or> host = ''::1'' \<or> has_suffix ''.lan'' host \<or> has_suffix ''.home.arpa'' host then ''local''
            else if has_prefix ''127.'' host \<or> has_prefix ''10.'' host \<or> has_prefix ''192.168.'' host then ''local''
            else if has_prefix ''172.'' host \<and>
                    (case cut_byte CHR ''.'' (drop 4 host) of
                       None \<Rightarrow> False
                     | Some (octet, _) \<Rightarrow> (case atoi octet of None \<Rightarrow> False | Some n \<Rightarrow> 16 \<le> n \<and> n \<le> 31)) then ''local''
            else if CHR ''.'' \<notin> set host then ''local''
            else ''remote'')"

definition asr_locality :: "parsers \<Rightarrow> (string \<Rightarrow> string) \<Rightarrow> asr_config \<Rightarrow> string" where
  "asr_locality P lower a = (if \<not> asr_enabled a then [] else locality_of P lower (cas_url a))"

section \<open>The clients\<close>

definition asr_disabled :: err where "asr_disabled = Coded Infrastructure ''asr.disabled''"
definition asr_unauthorized :: err where "asr_unauthorized = Coded Rejection ''asr.unauthorized''"

record asr_client =
  ac_base :: "string option"
  ac_token :: string
  ac_model :: string
  ac_path :: string

record google_client =
  gl_base :: "string option"
  gl_key :: string
  gl_recognizer :: string
  gl_model :: string
  gl_language :: string

datatype asr_provider = Openai asr_client | Google google_client

definition asr_new_client :: "parsers \<Rightarrow> string \<Rightarrow> string \<Rightarrow> string \<Rightarrow> err + asr_client" where
  "asr_new_client P base token model =
     (if base = [] then Inr \<lparr>ac_base = None, ac_token = [], ac_model = [], ac_path = []\<rparr>
      else case ps_url P base of
        None \<Rightarrow> Inl (Coded Rejection ''asr.url'')
      | Some _ \<Rightarrow>
          Inr \<lparr>ac_base = Some base, ac_token = token,
               ac_model = (if model = [] then ''whisper-1'' else model), ac_path = ''/v1/audio/transcriptions''\<rparr>)"

definition asr_new_whisper :: "parsers \<Rightarrow> string \<Rightarrow> string \<Rightarrow> string \<Rightarrow> err + asr_client" where
  "asr_new_whisper P base token model =
     (case asr_new_client P base token model of Inl e \<Rightarrow> Inl e | Inr c \<Rightarrow> Inr (c\<lparr>ac_path := ''/inference''\<rparr>))"

definition google_endpoint :: "string \<Rightarrow> string" where
  "google_endpoint location = ''https://speech.'' @ location @ ''.rep.googleapis.com''"

text \<open>The configuration of the client is the section of the file: endpoint, key, project, region, model, language.\<close>

definition google_new_client :: "parsers \<Rightarrow> asr_config \<Rightarrow> err + google_client" where
  "google_new_client P a =
     (if cas_project a = [] then Inr \<lparr>gl_base = None, gl_key = [], gl_recognizer = [], gl_model = [], gl_language = []\<rparr>
      else
        let location = (if cas_location a = [] then ''europe-west3'' else cas_location a);
            base = (if cas_url a = [] then google_endpoint location else cas_url a) in
        case ps_url P base of
          None \<Rightarrow> Inl (Coded Rejection ''asr.url'')
        | Some _ \<Rightarrow>
            Inr \<lparr>gl_base = Some base, gl_key = cas_token a,
                 gl_recognizer = ''/v2/projects/'' @ cas_project a @ ''/locations/'' @ location @ ''/recognizers/_:recognize'',
                 gl_model = (if cas_model a = [] then ''telephony'' else cas_model a),
                 gl_language = (if cas_language a = [] then ''de-DE'' else cas_language a)\<rparr>)"

definition new_asr_provider :: "parsers \<Rightarrow> asr_config \<Rightarrow> err + asr_provider" where
  "new_asr_provider P a =
     (if asr_google a then map_sum id Google (google_new_client P a)
      else if cas_provider a = ''whispercpp'' then map_sum id Openai (asr_new_whisper P (cas_url a) (cas_token a) (cas_model a))
      else map_sum id Openai (asr_new_client P (cas_url a) (cas_token a) (cas_model a)))"

fun provider_enabled :: "asr_provider \<Rightarrow> bool" where
  "provider_enabled (Openai c) = (ac_base c \<noteq> None)"
| "provider_enabled (Google c) = (gl_base c \<noteq> None)"

text \<open>The dot between kind and model is the two bytes of its UTF-8 form.\<close>

fun provider_describe :: "asr_provider \<Rightarrow> string" where
  "provider_describe (Openai c) =
     (if ac_path c = ''/inference'' then ''whisper.cpp'' else ''openai-compatible'') @ '' '' @ [CHR 0xC2, CHR 0xB7] @ '' '' @ ac_model c"
| "provider_describe (Google c) = ''google '' @ [CHR 0xC2, CHR 0xB7] @ '' '' @ gl_model c"

section \<open>One transcription\<close>

record speech_request =
  sr_audio :: string
  sr_filename :: string
  sr_type :: string
  sr_language :: string

datatype speech_post =
    Multipart "string \<times> string" "string option" string string string string "string option"
  | Recognize "string \<times> string" "string option" string string string

text \<open>
  The parts of the multipart form: file name, type and bytes, model, and the language when
  there is one. Writing to a buffer fails only where the faults say so.
\<close>

definition build_multipart :: "faults \<Rightarrow> string \<times> string \<Rightarrow> string option \<Rightarrow> string \<Rightarrow> speech_request \<Rightarrow> err + speech_post" where
  "build_multipart fl target token model rq =
     (if fl ''asr.encode'' [] then Inl (Coded Infrastructure ''asr.encode'')
      else Inr (Multipart target token
             (if sr_filename rq = [] then ''audio.webm'' else sr_filename rq)
             (if sr_type rq = [] then ''application/octet-stream'' else sr_type rq)
             (sr_audio rq) model
             (if sr_language rq \<noteq> [] then Some (sr_language rq) else None)))"

text \<open>An answer is a status and a body whose reading may break; no answer is a failed exchange.\<close>

type_synonym speech_reply = "(nat \<times> string option) option"

definition speech_round_trip :: "speech_reply \<Rightarrow> err + string option" where
  "speech_round_trip reply =
     (case reply of
        None \<Rightarrow> Inl (Coded Transient ''asr.transport'')
      | Some (status, body) \<Rightarrow>
          if status = 401 \<or> status = 403 then Inl asr_unauthorized
          else if status = 429 then Inl (Coded Transient ''asr.http'')
          else if status \<noteq> 200 then Inl (Coded (if status < 500 then Rejection else Transient) ''asr.http'')
          else Inr body)"

definition speech_body_limit :: nat where "speech_body_limit = 2 ^ 20"

definition decode_transcript :: "(string \<Rightarrow> string option) \<Rightarrow> string option \<Rightarrow> err + string" where
  "decode_transcript dec body =
     (case body of
        None \<Rightarrow> Inl (Coded Transient ''asr.read'')
      | Some raw \<Rightarrow>
          (case dec (take speech_body_limit raw) of
             None \<Rightarrow> Inl (Coded Transient ''asr.decode'')
           | Some txt \<Rightarrow> Inr (trim_space txt)))"

text \<open>The transcripts of the alternatives of every result.\<close>

fun google_parts :: "string list list \<Rightarrow> string list" where
  "google_parts [] = []"
| "google_parts (alts # rs) =
     (case alts of
        [] \<Rightarrow> google_parts rs
      | t # _ \<Rightarrow> if trim_space t \<noteq> [] then trim_space t # google_parts rs else google_parts rs)"

definition google_decode :: "(string \<Rightarrow> string list list option) \<Rightarrow> string option \<Rightarrow> err + string" where
  "google_decode dec body =
     (case body of
        None \<Rightarrow> Inl (Coded Transient ''asr.read'')
      | Some raw \<Rightarrow>
          (case dec (take speech_body_limit raw) of
             None \<Rightarrow> Inl (Coded Transient ''asr.decode'')
           | Some rs \<Rightarrow> Inr (join '' '' (google_parts rs))))"

record speech_decoders =
  sd_text :: "string \<Rightarrow> string option"
  sd_results :: "string \<Rightarrow> string list list option"

definition openai_transcribe ::
  "speech_decoders \<Rightarrow> faults \<Rightarrow> (speech_post \<Rightarrow> speech_reply) \<Rightarrow> asr_client \<Rightarrow> speech_request \<Rightarrow> err + string" where
  "openai_transcribe D fl exchange c rq =
     (case ac_base c of
        None \<Rightarrow> Inl asr_disabled
      | Some base \<Rightarrow>
          if sr_audio rq = [] then Inl (Coded Rejection ''asr.empty'')
          else
            case build_multipart fl (base, ac_path c) (if ac_token c \<noteq> [] then Some (ac_token c) else None) (ac_model c) rq of
              Inl e \<Rightarrow> Inl e
            | Inr post \<Rightarrow>
                if fl ''asr.request'' [] then Inl (Coded Infrastructure ''asr.request'')
                else (case speech_round_trip (exchange post) of Inl e \<Rightarrow> Inl e | Inr body \<Rightarrow> decode_transcript (sd_text D) body))"

definition google_transcribe ::
  "speech_decoders \<Rightarrow> faults \<Rightarrow> (speech_post \<Rightarrow> speech_reply) \<Rightarrow> google_client \<Rightarrow> speech_request \<Rightarrow> err + string" where
  "google_transcribe D fl exchange c rq =
     (case gl_base c of
        None \<Rightarrow> Inl asr_disabled
      | Some base \<Rightarrow>
          if sr_audio rq = [] then Inl (Coded Rejection ''asr.empty'')
          else if fl ''asr.encode'' [] then Inl (Coded Infrastructure ''asr.encode'')
          else if fl ''asr.request'' [] then Inl (Coded Infrastructure ''asr.request'')
          else
            case speech_round_trip (exchange (Recognize (base, gl_recognizer c)
                   (if gl_key c \<noteq> [] then Some (gl_key c) else None) (gl_model c)
                   (if sr_language rq = [] then gl_language c else sr_language rq) (sr_audio rq))) of
              Inl e \<Rightarrow> Inl e
            | Inr body \<Rightarrow> google_decode (sd_results D) body)"

section \<open>The account of the round trips\<close>

definition latency_ring :: nat where "latency_ring = 32"

record outcomes =
  oc_calls :: "64 word"
  oc_failures :: "64 word"
  oc_ring :: "duration list"
  oc_filled :: nat
  oc_next :: nat
  oc_ok :: "time option"
  oc_err :: string
  oc_err_at :: "time option"

record outcome_snapshot =
  on_calls :: "64 word"
  on_failures :: "64 word"
  on_avg :: duration
  on_ok :: "time option"
  on_err :: string
  on_err_at :: "time option"

definition no_outcomes :: outcomes where
  "no_outcomes =
     \<lparr>oc_calls = 0, oc_failures = 0, oc_ring = replicate latency_ring 0, oc_filled = 0, oc_next = 0,
      oc_ok = None, oc_err = [], oc_err_at = None\<rparr>"

text \<open>A round trip: its latency, the clock when it is recorded, and the text of its error.\<close>

definition record_trip :: "duration \<Rightarrow> time \<Rightarrow> string option \<Rightarrow> outcomes \<Rightarrow> outcomes" where
  "record_trip latency now failed o1 =
     (let o2 = o1\<lparr>oc_calls := oc_calls o1 + 1, oc_ring := (oc_ring o1)[oc_next o1 := latency],
                  oc_next := (oc_next o1 + 1) mod latency_ring,
                  oc_filled := (if oc_filled o1 < latency_ring then oc_filled o1 + 1 else oc_filled o1)\<rparr> in
      case failed of
        Some e \<Rightarrow> o2\<lparr>oc_failures := oc_failures o2 + 1, oc_err := e, oc_err_at := Some now\<rparr>
      | None \<Rightarrow> o2\<lparr>oc_ok := Some now\<rparr>)"

text \<open>Go's division of a duration by a count drops the fraction.\<close>

definition quot_duration :: "duration \<Rightarrow> nat \<Rightarrow> duration" where
  "quot_duration d n = (if d < 0 then - ((- d) div int n) else d div int n)"

definition snapshot_outcomes :: "outcomes \<Rightarrow> outcome_snapshot" where
  "snapshot_outcomes oc =
     (let total = fold (\<lambda>i t. t + oc_ring oc ! i) [0..<oc_filled oc] 0 in
      \<lparr>on_calls = oc_calls oc, on_failures = oc_failures oc,
       on_avg = (if oc_filled oc > 0 then quot_duration total (oc_filled oc) else 0),
       on_ok = oc_ok oc, on_err = oc_err oc, on_err_at = oc_err_at oc\<rparr>)"

text \<open>\<^verbatim>\<open>Time.After\<close> with the zero time before every other.\<close>

definition time_after :: "time option \<Rightarrow> time option \<Rightarrow> bool" where
  "time_after a b = (case (a, b) of (None, _) \<Rightarrow> False | (Some _, None) \<Rightarrow> True | (Some x, Some y) \<Rightarrow> y < x)"

text \<open>The error of the degraded verdict: the moment of the last failure and its text.\<close>

definition outcomes_health :: "outcomes \<Rightarrow> (time option \<times> string) option" where
  "outcomes_health oc =
     (let s = snapshot_outcomes oc in
      if on_calls s = 0 \<or> on_failures s = 0 then None
      else if time_after (on_ok s) (on_err_at s) then None
      else Some (on_err_at s, on_err s))"

text \<open>A transcription of either client, recorded when it is over.\<close>

definition provider_transcribe ::
  "speech_decoders \<Rightarrow> faults \<Rightarrow> (speech_post \<Rightarrow> speech_reply) \<Rightarrow> (err \<Rightarrow> string) \<Rightarrow> duration \<Rightarrow> time \<Rightarrow> asr_provider \<Rightarrow>
     speech_request \<Rightarrow> outcomes \<Rightarrow> (err + string) \<times> outcomes" where
  "provider_transcribe D fl exchange show_err latency now p rq oc =
     (let r = (case p of Openai c \<Rightarrow> openai_transcribe D fl exchange c rq | Google c \<Rightarrow> google_transcribe D fl exchange c rq) in
      (r, record_trip latency now (case r of Inl e \<Rightarrow> Some (show_err e) | Inr _ \<Rightarrow> None) oc))"

section \<open>The door\<close>

text \<open>
  Requests wait for one of four slots; a wait ends with a slot, with the timer, or with the
  client. When several are ready at once the choice is free.
\<close>

definition transcribe_concurrency :: nat where "transcribe_concurrency = 4"
definition transcribe_queue_wait :: duration where "transcribe_queue_wait = 3 * second"

datatype speech_answer =
    Speech_No_Session
  | Speech_Absent
  | Speech_Busy
  | Speech_Gone
  | Speech_Bad_Body
  | Speech_No_Audio
  | Speech_Rejected_Credentials
  | Speech_Failed
  | Speech_Text string

definition transcribe_failed :: "err \<Rightarrow> speech_answer" where
  "transcribe_failed e = (if e = asr_unauthorized then Speech_Rejected_Credentials else Speech_Failed)"

fun speech_status :: "speech_answer \<Rightarrow> nat option" where
  "speech_status Speech_No_Session = Some 401"
| "speech_status Speech_Absent = Some 404"
| "speech_status Speech_Busy = Some 503"
| "speech_status Speech_Gone = None"
| "speech_status Speech_Bad_Body = Some 400"
| "speech_status Speech_No_Audio = Some 400"
| "speech_status Speech_Rejected_Credentials = Some 502"
| "speech_status Speech_Failed = Some 502"
| "speech_status (Speech_Text t) = Some 200"

text \<open>What a request does once it holds a slot; \<open>None\<close> is a body that does not read to its end.\<close>

definition transcribe_body :: "(string \<Rightarrow> err + string) \<Rightarrow> string option \<Rightarrow> speech_answer" where
  "transcribe_body transcribe body =
     (case body of
        None \<Rightarrow> Speech_Bad_Body
      | Some audio \<Rightarrow>
          if audio = [] then Speech_No_Audio
          else (case transcribe audio of Inl e \<Rightarrow> transcribe_failed e | Inr txt \<Rightarrow> Speech_Text txt))"

datatype slot_stage = Queued time | Running | Replied speech_answer

record speech_door =
  sp_slots :: nat
  sp_requests :: "nat \<Rightarrow> slot_stage option"

datatype door_act =
    Knock nat bool time
  | Grant nat
  | Lapse nat time
  | Vanish nat
  | Complete nat "string option" "string \<Rightarrow> err + string"

definition put_request :: "nat \<Rightarrow> slot_stage \<Rightarrow> speech_door \<Rightarrow> speech_door" where
  "put_request g st d = d\<lparr>sp_requests := (sp_requests d)(g \<mapsto> st)\<rparr>"

definition queued_at :: "nat \<Rightarrow> speech_door \<Rightarrow> time option" where
  "queued_at g d = (case sp_requests d g of Some (Queued t) \<Rightarrow> Some t | _ \<Rightarrow> None)"

fun door_step :: "bool \<Rightarrow> door_act \<Rightarrow> speech_door \<Rightarrow> speech_door option" where
  "door_step enabled (Knock g known now) d =
     (if sp_requests d g \<noteq> None then None
      else if \<not> known then Some (put_request g (Replied Speech_No_Session) d)
      else if \<not> enabled then Some (put_request g (Replied Speech_Absent) d)
      else Some (put_request g (Queued now) d))"
| "door_step enabled (Grant g) d =
     (if queued_at g d \<noteq> None \<and> sp_slots d < transcribe_concurrency
      then Some (put_request g Running (d\<lparr>sp_slots := sp_slots d + 1\<rparr>)) else None)"
| "door_step enabled (Lapse g now) d =
     (case queued_at g d of
        Some t \<Rightarrow> if transcribe_queue_wait \<le> now - t then Some (put_request g (Replied Speech_Busy) d) else None
      | None \<Rightarrow> None)"
| "door_step enabled (Vanish g) d =
     (if queued_at g d \<noteq> None then Some (put_request g (Replied Speech_Gone) d) else None)"
| "door_step enabled (Complete g body transcribe) d =
     (if sp_requests d g = Some Running
      then Some (put_request g (Replied (transcribe_body transcribe body)) (d\<lparr>sp_slots := sp_slots d - 1\<rparr>)) else None)"

definition open_door :: speech_door where "open_door = \<lparr>sp_slots = 0, sp_requests = Map.empty\<rparr>"

fun door_run :: "bool \<Rightarrow> door_act list \<Rightarrow> speech_door \<Rightarrow> speech_door option" where
  "door_run enabled [] d = Some d"
| "door_run enabled (a # acts) d = (case door_step enabled a d of None \<Rightarrow> None | Some d' \<Rightarrow> door_run enabled acts d')"

section \<open>The ring is the last 32 round trips\<close>

type_synonym trip = "duration \<times> time \<times> string option"

definition record_trips :: "trip list \<Rightarrow> outcomes" where
  "record_trips ts = fold (\<lambda>(l, now, failed). record_trip l now failed) ts no_outcomes"

lemma record_trips_snoc: "record_trips (ts @ [(l, now, failed)]) = record_trip l now failed (record_trips ts)"
  by (simp add: record_trips_def)

definition latencies :: "trip list \<Rightarrow> duration list" where
  "latencies ts = map fst ts"

lemma ring_counts:
  "length (oc_ring (record_trips ts)) = 32 \<and> oc_filled (record_trips ts) = min (length ts) 32 \<and>
   oc_next (record_trips ts) = length ts mod 32 \<and> oc_calls (record_trips ts) = of_nat (length ts) \<and>
   oc_failures (record_trips ts) = of_nat (length (filter (\<lambda>(_, _, failed). failed \<noteq> None) ts))"
proof (induction ts rule: rev_induct)
  case Nil
  then show ?case by (simp add: record_trips_def no_outcomes_def latency_ring_def)
next
  case (snoc t ts)
  obtain l now failed where t: "t = (l, now, failed)" by (cases t)
  show ?case
    using snoc unfolding t record_trips_snoc
    by (auto simp: record_trip_def Let_def latency_ring_def mod_Suc min_def split: option.splits)
qed

text \<open>The slot of the i-th latency from the end.\<close>

lemma back_slot:
  assumes "i < min n 32" "j < min n 32" "(n - 1 - i) mod 32 = (n - 1 - j) mod (32 :: nat)"
  shows "i = j"
proof -
  have "(n - 1 - i) mod 32 = (n - 1 - j) mod 32 \<Longrightarrow> i \<le> j \<Longrightarrow> i < min n 32 \<Longrightarrow> j < min n 32 \<Longrightarrow> i = j" for i j
  proof -
    assume m: "(n - 1 - i) mod 32 = (n - 1 - j) mod 32" and le: "i \<le> j" "i < min n 32" "j < min n 32"
    then have "32 dvd (n - 1 - i) - (n - 1 - j)" by (intro mod_eq_dvd_iff_nat [THEN iffD1]) auto
    moreover have "(n - 1 - i) - (n - 1 - j) = j - i" using le by simp
    ultimately show "i = j" using le by (auto dest: dvd_imp_le)
  qed
  from this [of i j] this [of j i] assms show ?thesis by (cases "i \<le> j") auto
qed

lemma ring_slots: "i < min (length ts) 32 \<Longrightarrow> oc_ring (record_trips ts) ! ((length ts - 1 - i) mod 32) = latencies ts ! (length ts - 1 - i)"
proof (induction ts arbitrary: i rule: rev_induct)
  case (snoc t ts)
  obtain l now failed where t: "t = (l, now, failed)" by (cases t)
  let ?n = "length ts" and ?r = "oc_ring (record_trips ts)"
  have len: "length ?r = 32" and nxt: "oc_next (record_trips ts) = ?n mod 32" using ring_counts [of ts] by simp_all
  have ring: "oc_ring (record_trips (ts @ [t])) = ?r[?n mod 32 := l]"
    unfolding t record_trips_snoc by (simp add: record_trip_def Let_def nxt split: option.split)
  show ?case
  proof (cases i)
    case 0
    then show ?thesis using len by (simp add: ring latencies_def nth_append) (simp add: t)
  next
    case (Suc j)
    have "(Suc ?n - 1 - 0) mod 32 \<noteq> (Suc ?n - 1 - i) mod 32"
      using back_slot [of 0 "Suc ?n" i] snoc.prems Suc by auto
    moreover have "j < min ?n 32" using snoc.prems Suc by simp
    moreover have "?n - Suc j < ?n" using snoc.prems Suc by (intro diff_less) auto
    ultimately show ?thesis using snoc.IH [of j] Suc by (simp add: ring latencies_def nth_append)
  qed
qed simp

lemma ring_sum:
  "fold (\<lambda>i t. t + oc_ring (record_trips ts) ! i) [0..<min (length ts) 32] 0 =
     sum_list (drop (length ts - 32) (latencies ts))"
proof -
  let ?n = "length ts" and ?r = "oc_ring (record_trips ts)" and ?m = "min (length ts) 32"
  have fold: "fold (\<lambda>i t. t + f i) [0..<k] 0 = (\<Sum>i<k. f i)" for f :: "nat \<Rightarrow> duration" and k
    by (induction k) (simp_all add: add.commute)
  have "bij_betw (\<lambda>i. (?n - 1 - i) mod 32) {..<?m} {..<?m}"
  proof (rule bij_betwI')
    show "((?n - 1 - i) mod 32 = (?n - 1 - j) mod 32) = (i = j)" if "i \<in> {..<?m}" "j \<in> {..<?m}" for i j
      using back_slot [of i ?n j] that by auto
    show "(?n - 1 - i) mod 32 \<in> {..<?m}" if "i \<in> {..<?m}" for i
      using that by (cases "?n \<le> 32") auto
    show "\<exists>i \<in> {..<?m}. j = (?n - 1 - i) mod 32" if "j \<in> {..<?m}" for j
    proof -
      have "inj_on (\<lambda>i. (?n - 1 - i) mod 32) {..<?m}" using back_slot [of _ ?n] by (auto simp: inj_on_def)
      then have "(\<lambda>i. (?n - 1 - i) mod 32) ` {..<?m} = {..<?m}"
        by (intro endo_inj_surj) (auto simp: min_def)
      then show ?thesis using that by blast
    qed
  qed
  then have "(\<Sum>i<?m. ?r ! i) = (\<Sum>i<?m. ?r ! ((?n - 1 - i) mod 32))"
    by (rule sum.reindex_bij_betw [symmetric])
  also have "\<dots> = (\<Sum>i<?m. latencies ts ! (?n - 1 - i))" by (rule sum.cong) (use ring_slots in auto)
  also have "\<dots> = sum_list (drop (?n - 32) (latencies ts))"
  proof -
    have "(\<Sum>i<?m. latencies ts ! (?n - 1 - i)) = (\<Sum>i<?m. rev (latencies ts) ! i)"
      by (rule sum.cong) (auto simp: rev_nth latencies_def)
    also have "\<dots> = sum_list (take ?m (rev (latencies ts)))"
      by (simp add: sum_list_sum_nth latencies_def atLeast0LessThan)
    also have "\<dots> = sum_list (rev (drop (?n - 32) (latencies ts)))"
      by (cases "?n \<le> 32") (simp_all add: take_rev latencies_def)
    finally show ?thesis by (simp add: sum_list_rev)
  qed
  finally show ?thesis by (simp add: fold)
qed

text \<open>With a clock that moves on between records, the verdict is the last round trip's.\<close>

fun last_failed :: "trip list \<Rightarrow> bool" where
  "last_failed ts = (ts \<noteq> [] \<and> snd (snd (last ts)) \<noteq> None)"

lemma trip_times:
  assumes "sorted_wrt (\<lambda>x y. fst (snd x) < fst (snd y)) ts"
  shows "(\<forall>t. oc_ok (record_trips ts) = Some t \<longrightarrow> (\<exists>x \<in> set ts. fst (snd x) = t)) \<and>
    (\<forall>t. oc_err_at (record_trips ts) = Some t \<longrightarrow> (\<exists>x \<in> set ts. fst (snd x) = t)) \<and>
    (ts \<noteq> [] \<longrightarrow> (time_after (oc_ok (record_trips ts)) (oc_err_at (record_trips ts)) \<longleftrightarrow> \<not> last_failed ts))"
  using assms
proof (induction ts rule: rev_induct)
  case (snoc t ts)
  obtain l now failed where t: "t = (l, now, failed)" by (cases t)
  have ih: "\<forall>t. oc_ok (record_trips ts) = Some t \<longrightarrow> (\<exists>x \<in> set ts. fst (snd x) = t)"
      "\<forall>t. oc_err_at (record_trips ts) = Some t \<longrightarrow> (\<exists>x \<in> set ts. fst (snd x) = t)"
    and later: "\<forall>x \<in> set ts. fst (snd x) < now"
    using snoc unfolding t by (simp_all add: sorted_wrt_append)
  show ?case
  proof (cases failed)
    case None
    then have "oc_ok (record_trips (ts @ [t])) = Some now" "oc_err_at (record_trips (ts @ [t])) = oc_err_at (record_trips ts)"
      unfolding t record_trips_snoc by (simp_all add: record_trip_def Let_def)
    then show ?thesis using ih later None by (auto simp: t time_after_def split: option.splits)
  next
    case (Some e)
    then have "oc_err_at (record_trips (ts @ [t])) = Some now" "oc_ok (record_trips (ts @ [t])) = oc_ok (record_trips ts)"
      unfolding t record_trips_snoc by (simp_all add: record_trip_def Let_def)
    then show ?thesis using ih later Some by (fastforce simp: t time_after_def split: option.splits)
  qed
qed (simp add: record_trips_def no_outcomes_def)

lemma health_verdict:
  assumes "sorted_wrt (\<lambda>x y. fst (snd x) < fst (snd y)) ts" "length ts < 2 ^ 64"
  shows "outcomes_health (record_trips ts) \<noteq> None \<longleftrightarrow> last_failed ts"
proof -
  note C = ring_counts [of ts] and T = trip_times [OF assms(1)]
  let ?f = "filter (\<lambda>(_, _, failed). failed \<noteq> None) ts"
  have zero: "(of_nat k :: 64 word) = 0 \<longleftrightarrow> k = 0" if "k < 2 ^ 64" for k
    using that by (auto simp: word_of_nat_eq_0_iff dest: dvd_imp_le)
  have f: "length ?f < 2 ^ 64" using assms(2) le_less_trans [OF length_filter_le] by blast
  have some: "?f \<noteq> []" if "last_failed ts"
    using that by (auto simp: filter_empty_conv intro!: bexI [of _ "last ts"] split: prod.splits)
  show ?thesis
  proof (cases "ts = []")
    case True
    then show ?thesis by (simp add: outcomes_health_def snapshot_outcomes_def record_trips_def no_outcomes_def)
  next
    case False
    then have "outcomes_health (record_trips ts) \<noteq> None \<longleftrightarrow>
        ?f \<noteq> [] \<and> \<not> time_after (oc_ok (record_trips ts)) (oc_err_at (record_trips ts))"
      using C zero [OF assms(2)] zero [OF f] by (simp add: outcomes_health_def snapshot_outcomes_def Let_def)
    then show ?thesis using T False some by auto
  qed
qed

section \<open>The slots\<close>

definition door_ok :: "speech_door \<Rightarrow> bool" where
  "door_ok d \<longleftrightarrow> finite (dom (sp_requests d)) \<and> sp_slots d = card {g. sp_requests d g = Some Running} \<and>
     sp_slots d \<le> transcribe_concurrency"

lemma running_finite: "finite (dom m) \<Longrightarrow> finite {g. m g = Some Running}"
  by (rule finite_subset [of _ "dom m"]) auto

lemma door_step_ok:
  assumes "door_ok d" "door_step enabled a d = Some d'"
  shows "door_ok d'"
proof -
  have idle: "{x. ((sp_requests d)(g \<mapsto> st)) x = Some Running} = {x. sp_requests d x = Some Running}"
    if "sp_requests d g \<noteq> Some Running" "st \<noteq> Running" for g st using that by auto
  have start: "card {x. x \<noteq> g \<longrightarrow> sp_requests d x = Some Running} = Suc (card {x. sp_requests d x = Some Running})"
    if "finite {x. sp_requests d x = Some Running}" "sp_requests d g \<noteq> Some Running" for g
  proof -
    have "{x. x \<noteq> g \<longrightarrow> sp_requests d x = Some Running} = insert g {x. sp_requests d x = Some Running}" by auto
    then show ?thesis using that by simp
  qed
  have stop: "card {x. x \<noteq> g \<and> (x \<noteq> g \<longrightarrow> sp_requests d x = Some Running)} = card {x. sp_requests d x = Some Running} - 1"
    if "finite {x. sp_requests d x = Some Running}" "sp_requests d g = Some Running" for g
  proof -
    have "{x. x \<noteq> g \<and> (x \<noteq> g \<longrightarrow> sp_requests d x = Some Running)} = {x. sp_requests d x = Some Running} - {g}" by auto
    then show ?thesis using that by (simp add: card_Diff_singleton)
  qed
  have waits: "queued_at g d \<noteq> None \<Longrightarrow> sp_requests d g \<noteq> Some Running" for g
    by (auto simp: queued_at_def)
  note fin = running_finite [of "sp_requests d"]
  show ?thesis
  proof (cases a)
    case (Knock g known now)
    then show ?thesis using assms idle [of g] by (auto simp: door_ok_def put_request_def split: if_splits)
  next
    case (Grant g)
    then show ?thesis using assms waits [of g] fin
      by (auto simp: door_ok_def put_request_def start split: if_splits)
  next
    case (Lapse g now)
    then show ?thesis using assms waits [of g] idle [of g] by (auto simp: door_ok_def put_request_def split: option.splits if_splits)
  next
    case (Vanish g)
    then show ?thesis using assms waits [of g] idle [of g] by (auto simp: door_ok_def put_request_def split: if_splits)
  next
    case (Complete g body transcribe)
    then show ?thesis using assms fin by (auto simp: door_ok_def put_request_def stop split: if_splits)
  qed
qed

lemma door_run_ok: "door_ok d \<Longrightarrow> door_run enabled acts d = Some d' \<Longrightarrow> door_ok d'"
  by (induction acts arbitrary: d) (auto split: option.splits dest: door_step_ok)

section \<open>The seam\<close>

text \<open>What the door answers for a provider that is set up: its verdict decides, and never a 401.\<close>

lemma openai_verdicts:
  assumes "ac_base c = Some base" "sr_audio rq \<noteq> []" "\<forall>code key. \<not> fl code key"
    "\<forall>post. exchange post = Some (status, body)"
  shows "openai_transcribe D fl exchange c rq =
      (if status = 401 \<or> status = 403 then Inl asr_unauthorized
       else if status = 200 then decode_transcript (sd_text D) body
       else Inl (Coded (if status = 429 \<or> 500 \<le> status then Transient else Rejection) ''asr.http''))"
  using assms by (simp add: openai_transcribe_def build_multipart_def speech_round_trip_def)

lemma locality_dotless:
  assumes "ps_url P raw = Some u" "up_hostname u \<noteq> []" "CHR ''.'' \<notin> set (lower (up_hostname u))"
  shows "locality_of P lower raw = ''local''"
  using assms by (simp add: locality_of_def Let_def)

lemma locality_ten:
  assumes "ps_url P raw = Some u" "up_hostname u \<noteq> []" "lower (up_hostname u) = ''10.'' @ rest"
  shows "locality_of P lower raw = ''local''"
  using assms by (simp add: locality_of_def Let_def)



end
